(* ===== verification/Prelude.thy ===== *)
theory Prelude
  imports Main "HOL-Library.Word" "HOL-Library.Multiset"
begin

unbundle bit_operations_syntax

text \<open>
  Shared vocabulary of the development: the fixed-width integer types of the kernel
  (\<^verbatim>\<open>include/dxgmx/types.h\<close>), the error numbers (\<^verbatim>\<open>include/dxgmx/errno.h\<close>), the outcome of code
  that may call \<open>panic\<close>, arithmetic modulo $2^{32}$ and $2^{64}$ on natural numbers for sizes and
  addresses, the byte-addressed memory and its 32-bit accessors, and the generic lemmas the
  component theories use. The kernel is built for i686, so \<open>ptr\<close>, \<open>size_t\<close> and \<open>long\<close> are 32 bits
  wide.
\<close>

section \<open>Types\<close>

type_synonym u8 = "8 word"
type_synonym u16 = "16 word"
type_synonym u32 = "32 word"
type_synonym u64 = "64 word"

text \<open>
  Sizes and addresses (\<open>size_t\<close>, \<open>ptr\<close>) are natural numbers below $2^{32}$; every operation of the
  code that can leave that range is written with the wrapping operations below.
\<close>

type_synonym size_t = nat
type_synonym addr = nat

named_theorems wrap_simps \<open>arithmetic that does not wrap\<close>
named_theorems mem_simps \<open>reads of the byte memory after writes\<close>
named_theorems bit_facts \<open>single-bit views of word operations\<close>

section \<open>Error numbers and outcomes\<close>

datatype errno =
    EPERM | ENOENT | ESRCH | EINTR | EIO | ENXIO | E2BIG | ENOEXEC | EBADF | ECHILD
  | EAGAIN | ENOMEM | EACCES | EFAULT | ENOTBLK | EBUSY | EEXIST | EXDEV | ENODEV | ENOTDIR
  | EISDIR | EINVAL | ENFILE | EMFILE | ENOTTY | ETXTBSY | EFBIG | ENOSPC | ESPIPE | EROFS
  | EMLINK | EPIPE | EDOM | ERANGE | EDEADLK | ENAMETOOLONG | ENOLCK | ENOSYS | EOVERFLOW
  | ETIMEDOUT

primrec errno_code :: "errno \<Rightarrow> nat" where
  "errno_code EPERM = 1"
| "errno_code ENOENT = 2"
| "errno_code ESRCH = 3"
| "errno_code EINTR = 4"
| "errno_code EIO = 5"
| "errno_code ENXIO = 6"
| "errno_code E2BIG = 7"
| "errno_code ENOEXEC = 8"
| "errno_code EBADF = 9"
| "errno_code ECHILD = 10"
| "errno_code EAGAIN = 11"
| "errno_code ENOMEM = 12"
| "errno_code EACCES = 13"
| "errno_code EFAULT = 14"
| "errno_code ENOTBLK = 15"
| "errno_code EBUSY = 16"
| "errno_code EEXIST = 17"
| "errno_code EXDEV = 18"
| "errno_code ENODEV = 19"
| "errno_code ENOTDIR = 20"
| "errno_code EISDIR = 21"
| "errno_code EINVAL = 22"
| "errno_code ENFILE = 23"
| "errno_code EMFILE = 24"
| "errno_code ENOTTY = 25"
| "errno_code ETXTBSY = 26"
| "errno_code EFBIG = 27"
| "errno_code ENOSPC = 28"
| "errno_code ESPIPE = 29"
| "errno_code EROFS = 30"
| "errno_code EMLINK = 31"
| "errno_code EPIPE = 32"
| "errno_code EDOM = 33"
| "errno_code ERANGE = 34"
| "errno_code EDEADLK = 35"
| "errno_code ENAMETOOLONG = 36"
| "errno_code ENOLCK = 37"
| "errno_code ENOSYS = 38"
| "errno_code EOVERFLOW = 39"
| "errno_code ETIMEDOUT = 40"

text \<open>A function that returns a negative error number returns \<open>Inl\<close>; success is \<open>Inr\<close>.\<close>

type_synonym 'a result = "errno + 'a"

text \<open>\<open>panic\<close>, a failed \<open>ASSERT\<close> and \<open>TODO_FATAL\<close> never return: the outcome \<open>Panic\<close>.\<close>

datatype 'a outcome = Panic | Ret 'a

primrec bind_outcome :: "'a outcome \<Rightarrow> ('a \<Rightarrow> 'b outcome) \<Rightarrow> 'b outcome" where
  "bind_outcome Panic f = Panic"
| "bind_outcome (Ret x) f = f x"

lemma bind_outcome_Ret_iff:
  "bind_outcome m f = Ret y \<longleftrightarrow> (\<exists>x. m = Ret x \<and> f x = Ret y)"
  by (cases m) auto

definition assert_outcome :: "bool \<Rightarrow> 'a outcome \<Rightarrow> 'a outcome" where
  "assert_outcome b m = (if b then m else Panic)"

lemma assert_outcome_simps [simp]:
  "assert_outcome True m = m"
  "assert_outcome False m = Panic"
  by (simp_all add: assert_outcome_def)

text \<open>
  Code that calls a loop which may not end: the value \<open>None\<close> means that it never returns, the outcome
  inside is that of the returning or panicking run.
\<close>

definition bind_run :: "'a outcome option \<Rightarrow> ('a \<Rightarrow> 'b outcome option) \<Rightarrow> 'b outcome option" where
  "bind_run m f = Option.bind m (\<lambda>r. case r of Panic \<Rightarrow> Some Panic | Ret x \<Rightarrow> f x)"

lemma bind_run_simps [simp]:
  "bind_run (Some (Ret x)) f = f x"
  "bind_run (Some Panic) f = Some Panic"
  "bind_run None f = None"
  by (simp_all add: bind_run_def)

section \<open>Wrapping arithmetic\<close>

abbreviation (input) W32 :: nat where "W32 \<equiv> 4294967296"
abbreviation (input) W64 :: nat where "W64 \<equiv> 18446744073709551616"

definition add32 :: "nat \<Rightarrow> nat \<Rightarrow> nat" where
  "add32 a b = (a + b) mod W32"

definition sub32 :: "nat \<Rightarrow> nat \<Rightarrow> nat" where
  "sub32 a b = (a + (W32 - b mod W32)) mod W32"

definition mul32 :: "nat \<Rightarrow> nat \<Rightarrow> nat" where
  "mul32 a b = (a * b) mod W32"

definition add64 :: "nat \<Rightarrow> nat \<Rightarrow> nat" where
  "add64 a b = (a + b) mod W64"

definition sub64 :: "nat \<Rightarrow> nat \<Rightarrow> nat" where
  "sub64 a b = (a + (W64 - b mod W64)) mod W64"

lemma add32_exact [wrap_simps]: "a + b < W32 \<Longrightarrow> add32 a b = a + b"
  by (simp add: add32_def)

lemma mul32_exact [wrap_simps]: "a * b < W32 \<Longrightarrow> mul32 a b = a * b"
  by (simp add: mul32_def)

lemma sub32_exact [wrap_simps]:
  assumes "b \<le> a" and "a < W32"
  shows "sub32 a b = a - b"
proof -
  have "b mod W32 = b" using assms by simp
  then have "a + (W32 - b mod W32) = (a - b) + W32" using assms by simp
  then show ?thesis using assms unfolding sub32_def by (simp only: mod_add_self2) simp
qed

lemma add64_exact [wrap_simps]: "a + b < W64 \<Longrightarrow> add64 a b = a + b"
  by (simp add: add64_def)

lemma sub64_exact [wrap_simps]:
  assumes "b \<le> a" and "a < W64"
  shows "sub64 a b = a - b"
proof -
  have "b mod W64 = b" using assms by simp
  then have "a + (W64 - b mod W64) = (a - b) + W64" using assms by simp
  then show ?thesis using assms unfolding sub64_def by (simp only: mod_add_self2) simp
qed

lemma wrap_bounds [simp]:
  "add32 a b < W32" "sub32 a b < W32" "mul32 a b < W32" "add64 a b < W64" "sub64 a b < W64"
  by (simp_all add: add32_def sub32_def mul32_def add64_def sub64_def)

section \<open>Byte memory\<close>

type_synonym memory = "addr \<Rightarrow> u8"

text \<open>Little-endian 32-bit loads and stores, as the target performs them.\<close>

definition read32 :: "memory \<Rightarrow> addr \<Rightarrow> nat" where
  "read32 m a = unat (m a) + 256 * unat (m (a + 1)) + 65536 * unat (m (a + 2))
     + 16777216 * unat (m (a + 3))"

definition write32 :: "memory \<Rightarrow> addr \<Rightarrow> nat \<Rightarrow> memory" where
  "write32 m a v = m(a := word_of_nat v, a + 1 := word_of_nat (v div 256),
     a + 2 := word_of_nat (v div 65536), a + 3 := word_of_nat (v div 16777216))"

definition fill_mem :: "memory \<Rightarrow> addr \<Rightarrow> nat \<Rightarrow> u8 \<Rightarrow> memory" where
  "fill_mem m a n b = (\<lambda>x. if a \<le> x \<and> x < a + n then b else m x)"

lemma write32_other [mem_simps]: "x < a \<or> a + 4 \<le> x \<Longrightarrow> write32 m a v x = m x"
  by (auto simp: write32_def)

lemma read32_bound [simp]: "read32 m a < W32"
proof -
  have "unat (m x) < 256" for x
    using unsigned_less [of "m x"] by simp
  from this [of a] this [of "a + 1"] this [of "a + 2"] this [of "a + 3"]
  show ?thesis by (simp add: read32_def)
qed

lemma read32_write32_same [mem_simps]: "read32 (write32 m a v) a = v mod W32"
proof -
  have 1: "v mod W32 = v mod 256 + 256 * (v div 256 mod 16777216)"
    using mod_mult2_eq [of v 256 16777216] by simp
  have 2: "v div 256 mod 16777216 = v div 256 mod 256 + 256 * (v div 65536 mod 65536)"
    using mod_mult2_eq [of "v div 256" 256 65536] by (simp add: div_mult2_eq [symmetric])
  have 3: "v div 65536 mod 65536 = v div 65536 mod 256 + 256 * (v div 16777216 mod 256)"
    using mod_mult2_eq [of "v div 65536" 256 256] by (simp add: div_mult2_eq [symmetric])
  show ?thesis unfolding 1 2 3
    by (simp add: read32_def write32_def unat_of_nat take_bit_eq_mod)
qed

lemma read32_write32_other [mem_simps]:
  "a + 4 \<le> b \<or> b + 4 \<le> a \<Longrightarrow> read32 (write32 m a v) b = read32 m b"
  by (auto simp: read32_def write32_other)

lemma read32_cong: "(\<And>x. a \<le> x \<Longrightarrow> x < a + 4 \<Longrightarrow> m x = m' x) \<Longrightarrow> read32 m a = read32 m' a"
  by (simp add: read32_def)

lemma fill_mem_other [mem_simps]: "x < a \<or> a + n \<le> x \<Longrightarrow> fill_mem m a n b x = m x"
  by (auto simp: fill_mem_def)

lemma fill_mem_inside [mem_simps]: "a \<le> x \<Longrightarrow> x < a + n \<Longrightarrow> fill_mem m a n b x = b"
  by (simp add: fill_mem_def)

lemma read32_fill_other [mem_simps]:
  "a + n \<le> b \<or> b + 4 \<le> a \<Longrightarrow> read32 (fill_mem m a n v) b = read32 m b"
  by (rule read32_cong) (auto simp: fill_mem_def)

lemma read32_fill_zero [mem_simps]:
  "a \<le> b \<Longrightarrow> b + 4 \<le> a + n \<Longrightarrow> read32 (fill_mem m a n 0) b = 0"
  by (simp add: read32_def fill_mem_def)

section \<open>Bits of bytes\<close>

lemma byte_set_bit [bit_facts]:
  "k < 8 \<Longrightarrow> bit (b OR push_bit k 1 :: u8) j \<longleftrightarrow> bit b j \<or> j = k"
  by (auto simp: bit_simps)

lemma byte_clear_bit [bit_facts]:
  "k < 8 \<Longrightarrow> bit (b AND NOT (push_bit k 1) :: u8) j \<longleftrightarrow> bit b j \<and> j \<noteq> k"
  by (auto simp: bit_simps dest: bit_imp_le_length)

lemma byte_test_bit [bit_facts]: "(b AND push_bit k 1 :: u8) \<noteq> 0 \<longleftrightarrow> bit b k"
  by (metis and_exp_eq_0_iff_not_bit push_bit_of_1)

section \<open>Lists\<close>

text \<open>Removing the element at an index by shifting the tail down, as the kernel's arrays do.\<close>

definition remove_at :: "nat \<Rightarrow> 'a list \<Rightarrow> 'a list" where
  "remove_at i xs = take i xs @ drop (Suc i) xs"

lemma length_remove_at [simp]: "i < length xs \<Longrightarrow> length (remove_at i xs) = length xs - 1"
  by (simp add: remove_at_def)

lemma set_remove_at_subset: "set (remove_at i xs) \<subseteq> set xs"
  by (auto simp: remove_at_def dest: in_set_takeD in_set_dropD)

lemma remove_at_Cons_Suc [simp]: "remove_at (Suc i) (x # xs) = x # remove_at i xs"
  by (simp add: remove_at_def)

lemma remove_at_0 [simp]: "remove_at 0 (x # xs) = xs"
  by (simp add: remove_at_def)

lemma mset_remove_at: "i < length xs \<Longrightarrow> mset xs = add_mset (xs ! i) (mset (remove_at i xs))"
proof (induction xs arbitrary: i)
  case Nil
  then show ?case by simp
next
  case (Cons x xs)
  then show ?case by (cases i) auto
qed

end
