(* ===== verification/Bitwise.thy ===== *)
theory Bitwise
  imports Prelude
begin

unbundle bit_operations_syntax

text \<open>
  The bit and byte utilities of \<^verbatim>\<open>kernel/utils/bitwise.c\<close> and \<^verbatim>\<open>kernel/utils/bytes.c\<close>. The functions
  that update \<open>*n\<close> in place return the new value. The intermediate 32-bit variables of the code
  (\<open>x\<close>, \<open>old\<close>, \<open>tmp\<close>) are 32-bit words, converted by \<open>ucast\<close> where C converts them.
\<close>

section \<open>Operations\<close>

definition bw_clear :: "u64 \<Rightarrow> nat \<Rightarrow> u64" where
  "bw_clear n k =
     (if k < 32 then
        let x = NOT (push_bit k 1) :: u32
        in n AND ucast x
      else if k < 64 then
        let old = ucast n :: u32;
            n1 = drop_bit 32 n;
            x = NOT (push_bit (k - 32) 1) :: u32;
            n2 = n1 AND ucast x;
            n3 = push_bit 32 n2
        in n3 OR ucast old
      else n)"

definition bw_set :: "u64 \<Rightarrow> nat \<Rightarrow> u64" where
  "bw_set n k =
     (if k < 32 then
        let x = push_bit k 1 :: u32
        in n OR ucast x
      else if k < 64 then
        let old = ucast n :: u32;
            n1 = drop_bit 32 n;
            x = push_bit (k - 32) 1 :: u32;
            n2 = n1 OR ucast x;
            n3 = push_bit 32 n2
        in n3 OR ucast old
      else n)"

definition bw_mask :: "u64 \<Rightarrow> u64 \<Rightarrow> u64" where
  "bw_mask n m =
     (let ret = drop_bit 32 n AND drop_bit 32 m;
          ret1 = push_bit 32 ret;
          tmp = (ucast n AND ucast m) :: u32
      in ret1 OR ucast tmp)"

definition bw_or_mask :: "u64 \<Rightarrow> u64 \<Rightarrow> u64" where
  "bw_or_mask n m =
     (let old = ucast n :: u32;
          n1 = drop_bit 32 n;
          tmp = ucast (drop_bit 32 m) :: u32;
          n2 = n1 OR ucast tmp;
          n3 = push_bit 32 n2;
          tmp1 = old OR ucast m
      in n3 OR ucast tmp1)"

definition bw_and_mask :: "u64 \<Rightarrow> u64 \<Rightarrow> u64" where
  "bw_and_mask n m =
     (let old = ucast n :: u32;
          n1 = drop_bit 32 n;
          tmp = ucast (drop_bit 32 m) :: u32;
          n2 = n1 AND ucast tmp;
          n3 = push_bit 32 n2;
          tmp1 = old AND ucast m
      in n3 OR ucast tmp1)"

definition bw_is64_wide :: "u64 \<Rightarrow> u32" where
  "bw_is64_wide n = ucast (drop_bit 32 n)"

definition bw_u32_rotl :: "u32 \<Rightarrow> nat \<Rightarrow> u32" where
  "bw_u32_rotl n rot = (push_bit rot n OR drop_bit (32 - rot) n)"

definition bw_u32_flip_endianness :: "u32 \<Rightarrow> u32" where
  "bw_u32_flip_endianness n =
     (drop_bit 24 n AND 0xFF) OR (push_bit 8 n AND 0xFF0000) OR (drop_bit 8 n AND 0xFF00)
       OR (push_bit 24 n AND 0xFF000000)"

definition bw_is_power_of_two :: "u64 \<Rightarrow> bool" where
  "bw_is_power_of_two n \<longleftrightarrow> n \<noteq> 0 \<and> (n AND (n - 1)) = 0"

definition bytes_align_up64 :: "nat \<Rightarrow> nat \<Rightarrow> nat" where
  "bytes_align_up64 n al =
     (if n mod al = 0 then n else add64 n (sub64 al (n mod al)))"

definition bytes_align_down64 :: "nat \<Rightarrow> nat \<Rightarrow> nat" where
  "bytes_align_down64 n al = sub64 n (n mod al)"

section \<open>Single bits\<close>

lemma bit_bw_set: "k < 64 \<Longrightarrow> bit (bw_set n k) j \<longleftrightarrow> j < 64 \<and> (bit n j \<or> j = k)"
  by (auto simp: bw_set_def Let_def bit_simps dest: bit_imp_le_length)

lemma bit_bw_clear_high:
  "32 \<le> k \<Longrightarrow> k < 64 \<Longrightarrow> bit (bw_clear n k) j \<longleftrightarrow> bit n j \<and> j \<noteq> k"
  by (auto simp: bw_clear_def Let_def bit_simps dest: bit_imp_le_length)

text \<open>
  Clearing a bit of the low half: the mask \<open>x\<close> is a \<open>u32\<close> that C widens with zeros, so the whole
  upper half of \<open>*n\<close> is cleared with it.
\<close>

lemma bit_bw_clear_low: "k < 32 \<Longrightarrow> bit (bw_clear n k) j \<longleftrightarrow> bit n j \<and> j \<noteq> k \<and> j < 32"
  by (auto simp: bw_clear_def Let_def bit_simps dest: bit_imp_le_length)

lemmas bw_bits = bit_bw_set bit_bw_clear_high bit_bw_clear_low

lemma bw_clear_target: "k < 64 \<Longrightarrow> \<not> bit (bw_clear n k) k"
  by (cases "k < 32") (auto simp: bw_bits)

lemma bw_clear_subset: "bit (bw_clear n k) j \<Longrightarrow> bit n j"
proof -
  assume b: "bit (bw_clear n k) j"
  consider "k < 32" | "32 \<le> k" "k < 64" | "64 \<le> k" by linarith
  then show "bit n j" using b
    by cases (simp_all add: bit_bw_clear_low bit_bw_clear_high, simp add: bw_clear_def)
qed

section \<open>Masks\<close>

lemma bw_mask_eq: "bw_mask n m = n AND m"
proof (rule bit_eqI)
  fix j
  show "bit (bw_mask n m) j \<longleftrightarrow> bit (n AND m) j"
    by (cases "j < 32") (auto simp: bw_mask_def Let_def bit_simps dest: bit_imp_le_length)
qed

lemma bw_and_mask_eq: "bw_and_mask n m = n AND m"
proof (rule bit_eqI)
  fix j
  show "bit (bw_and_mask n m) j \<longleftrightarrow> bit (n AND m) j"
    by (cases "j < 32") (auto simp: bw_and_mask_def Let_def bit_simps dest: bit_imp_le_length)
qed

lemma bw_or_mask_eq: "bw_or_mask n m = n OR m"
  by (rule bit_eqI) (auto simp: bw_or_mask_def Let_def bit_simps dest: bit_imp_le_length)

section \<open>Rotation and byte order\<close>

lemma bw_u32_rotl_eq:
  assumes "rot < 32"
  shows "bw_u32_rotl n rot = word_rotl rot n"
proof (rule bit_eqI)
  fix j assume "possible_bit TYPE(32 word) j"
  then have j: "j < 32" by simp
  show "bit (bw_u32_rotl n rot) j \<longleftrightarrow> bit (word_rotl rot n) j"
  proof (cases "rot \<le> j")
    case True
    then have "(j + (32 - rot)) mod 32 = j - rot"
      using j assms mod_add_self2 [of "j - rot" 32] by simp
    moreover have "\<not> bit n (32 - rot + j)"
      using True assms by (auto dest: bit_imp_le_length)
    ultimately show ?thesis using j True assms
      by (simp add: bw_u32_rotl_def bit_simps bit_word_rotl_iff)
  next
    case False
    then have "(j + (32 - rot)) mod 32 = 32 - rot + j" using j assms by simp
    then show ?thesis using j False assms
      by (simp add: bw_u32_rotl_def bit_simps bit_word_rotl_iff)
  qed
qed

lemma nat_less_32_cases:
  "(j::nat) < 32 \<Longrightarrow> j \<in> {0, 1, 2, 3, 4, 5, 6, 7, 8, 9, 10, 11, 12, 13, 14, 15, 16, 17, 18, 19,
     20, 21, 22, 23, 24, 25, 26, 27, 28, 29, 30, 31}"
  by (auto simp: numeral_eq_Suc less_Suc_eq)

lemma bit_flip_endianness:
  "j < 32 \<Longrightarrow> bit (bw_u32_flip_endianness n) j \<longleftrightarrow> bit n (8 * (3 - j div 8) + j mod 8)"
  by (drule nat_less_32_cases, unfold insert_iff empty_iff)
    (elim disjE; simp add: bw_u32_flip_endianness_def bit_simps; simp add: eval_nat_numeral)

lemma flip_endianness_involution: "bw_u32_flip_endianness (bw_u32_flip_endianness n) = n"
proof (rule bit_eqI)
  fix j assume "possible_bit TYPE(32 word) j"
  then have j: "j < 32" by simp
  moreover have "8 * (3 - j div 8) + j mod 8 < 32" using j
    by (simp add: add.commute less_diff_conv)
  ultimately show "bit (bw_u32_flip_endianness (bw_u32_flip_endianness n)) j \<longleftrightarrow> bit n j"
    by (simp add: bit_flip_endianness)
qed

section \<open>Powers of two and alignment\<close>

lemma and_pred_zero_iff:
  fixes n :: nat
  assumes "0 < n"
  shows "n AND (n - 1) = 0 \<longleftrightarrow> (\<exists>k. n = 2 ^ k)"
  using assms
proof (induction n rule: less_induct)
  case (less n)
  show ?case
  proof (cases "even n")
    case True
    then obtain q where q: "n = 2 * q" by blast
    with less.prems have "0 < q" by simp
    then have "n AND (n - 1) = 2 * (q AND (q - 1))"
      by (subst and_rec) (simp add: q, cases q, simp_all)
    moreover have "(\<exists>k. n = 2 ^ k) \<longleftrightarrow> (\<exists>k. q = 2 ^ k)"
    proof
      assume "\<exists>k. n = 2 ^ k"
      then obtain k where "2 * q = 2 ^ k" using q by auto
      then show "\<exists>k. q = 2 ^ k" by (cases k) auto
    next
      assume "\<exists>k. q = 2 ^ k"
      then show "\<exists>k. n = 2 ^ k" using q by (metis power_Suc)
    qed
    ultimately show ?thesis using less.IH [of q] \<open>0 < q\<close> q by simp
  next
    case False
    then obtain q where q: "n = 2 * q + 1" by (meson oddE)
    then have "n AND (n - 1) = 2 * q"
      by (subst and_rec) simp
    moreover have "(\<exists>k. n = 2 ^ k) \<longleftrightarrow> q = 0"
    proof
      assume "\<exists>k. n = 2 ^ k"
      then obtain k where "n = 2 ^ k" by blast
      with False show "q = 0" using q by (cases k) auto
    next
      assume "q = 0"
      then show "\<exists>k. n = 2 ^ k" using q by (intro exI [of _ 0]) simp
    qed
    ultimately show ?thesis by simp
  qed
qed

lemma bw_is_power_of_two_iff: "bw_is_power_of_two n \<longleftrightarrow> (\<exists>k. unat n = 2 ^ k)"
proof (cases "n = 0")
  case True
  then show ?thesis by (simp add: bw_is_power_of_two_def)
next
  case False
  then have pos: "0 < unat n" by (simp add: unat_gt_0)
  have "n AND (n - 1) = 0 \<longleftrightarrow> unat (n AND (n - 1)) = 0"
    by (simp add: unsigned_eq_0_iff)
  also have "unat (n AND (n - 1)) = unat n AND (unat n - 1)"
    using False by (simp add: unsigned_and_eq unat_minus_one)
  finally show ?thesis
    using False and_pred_zero_iff [OF pos] by (simp add: bw_is_power_of_two_def)
qed

lemma bytes_align_down64_props:
  assumes "0 < al" and "n < W64"
  shows "bytes_align_down64 n al = al * (n div al)"
    and "al dvd bytes_align_down64 n al" and "bytes_align_down64 n al \<le> n"
    and "n < bytes_align_down64 n al + al"
proof -
  show e: "bytes_align_down64 n al = al * (n div al)"
    using assms by (simp add: bytes_align_down64_def wrap_simps minus_mod_eq_mult_div)
  show "al dvd bytes_align_down64 n al" "bytes_align_down64 n al \<le> n"
    unfolding e by simp_all
  show "n < bytes_align_down64 n al + al"
    unfolding e using assms(1) by (metis add.commute dividend_less_times_div mult_Suc_right mult.commute)
qed

lemma bytes_align_up64_props:
  assumes "0 < al" and "n + al \<le> W64"
  shows "al dvd bytes_align_up64 n al" and "n \<le> bytes_align_up64 n al"
    and "bytes_align_up64 n al < n + al"
    and "al dvd m \<Longrightarrow> n \<le> m \<Longrightarrow> bytes_align_up64 n al \<le> m"
proof -
  have r: "n mod al < al" using assms(1) by simp
  have e: "bytes_align_up64 n al = (if n mod al = 0 then n else n + (al - n mod al))"
  proof (cases "n mod al = 0")
    case True
    then show ?thesis by (simp add: bytes_align_up64_def)
  next
    case False
    then have "0 < n" by (cases n) auto
    then have "sub64 al (n mod al) = al - n mod al"
      using assms(2) r by (intro sub64_exact) simp_all
    moreover have "n + (al - n mod al) < W64" using assms(2) r False by linarith
    ultimately show ?thesis using False by (simp add: bytes_align_up64_def add64_exact)
  qed
  have u: "n + (al - n mod al) = al * (n div al) + al"
    using r mult_div_mod_eq [of al n] by linarith
  show d: "al dvd bytes_align_up64 n al" unfolding e u by (auto simp: mod_eq_0_iff_dvd)
  show "n \<le> bytes_align_up64 n al" unfolding e by simp
  show l: "bytes_align_up64 n al < n + al" unfolding e using assms(1) r by auto
  show "bytes_align_up64 n al \<le> m" if m: "al dvd m" "n \<le> m"
  proof (rule ccontr)
    assume "\<not> ?thesis"
    then have "m < bytes_align_up64 n al" by simp
    with d m(1) have "m + al \<le> bytes_align_up64 n al"
      by (metis dvd_diff_nat dvd_imp_le le_add_diff_inverse less_imp_le nat_add_left_cancel_le zero_less_diff)
    with l m(2) show False by simp
  qed
qed

end
