(* ===== verification/KString.thy ===== *)
theory KString
  imports Prelude
begin

text \<open>
  The memory and string routines of \<^verbatim>\<open>kernel/kstdlib/string.c\<close> and the character classes of
  \<^verbatim>\<open>kernel/kstdlib/ctype.c\<close>, over the byte memory of the prelude. A loop that stops only at a null
  terminator is a \<open>partial_function\<close>, whose value is \<open>None\<close> when memory holds no terminator; the
  theorems show that it returns on every C string. A C string at an address is described by the
  predicate \<open>cstring\<close>.
\<close>

section \<open>Operations\<close>

function memcmp_from :: "memory \<Rightarrow> addr \<Rightarrow> addr \<Rightarrow> nat \<Rightarrow> nat \<Rightarrow> int" where
  "memcmp_from m str1 str2 i n =
     (if i < n then
        (let byte1 = m (str1 + i); byte2 = m (str2 + i) in
         if byte1 \<noteq> byte2 then int (unat byte1) - int (unat byte2)
         else memcmp_from m str1 str2 (i + 1) n)
      else 0)"
  by pat_completeness auto
termination by (relation "measure (\<lambda>(m, a, b, i, n). n - i)") auto

declare memcmp_from.simps [simp del]

definition memcmp :: "memory \<Rightarrow> addr \<Rightarrow> addr \<Rightarrow> size_t \<Rightarrow> int" where
  "memcmp m str1 str2 n = memcmp_from m str1 str2 0 n"

function memcpy_from :: "memory \<Rightarrow> addr \<Rightarrow> addr \<Rightarrow> nat \<Rightarrow> nat \<Rightarrow> memory" where
  "memcpy_from m dest src i n =
     (if i < n then memcpy_from (m(dest + i := m (src + i))) dest src (i + 1) n else m)"
  by pat_completeness auto
termination by (relation "measure (\<lambda>(m, a, b, i, n). n - i)") auto

declare memcpy_from.simps [simp del]

definition memcpy :: "memory \<Rightarrow> addr \<Rightarrow> addr \<Rightarrow> size_t \<Rightarrow> memory" where
  "memcpy m dest src n = memcpy_from m dest src 0 n"

function memset_from :: "memory \<Rightarrow> addr \<Rightarrow> u8 \<Rightarrow> nat \<Rightarrow> nat \<Rightarrow> memory" where
  "memset_from m s c i n = (if i < n then memset_from (m(s + i := c)) s c (i + 1) n else m)"
  by pat_completeness auto
termination by (relation "measure (\<lambda>(m, s, c, i, n). n - i)") auto

declare memset_from.simps [simp del]

definition memset :: "memory \<Rightarrow> addr \<Rightarrow> u8 \<Rightarrow> size_t \<Rightarrow> memory" where
  "memset m s c n = memset_from m s c 0 n"

partial_function (option) strlen_from :: "memory \<Rightarrow> addr \<Rightarrow> nat \<Rightarrow> nat option" where
  "strlen_from m str ret = (if m (str + ret) \<noteq> 0 then strlen_from m str (ret + 1) else Some ret)"

definition strlen :: "memory \<Rightarrow> addr \<Rightarrow> nat option" where
  "strlen m str = strlen_from m str 0"

function strnlen_from :: "memory \<Rightarrow> addr \<Rightarrow> size_t \<Rightarrow> nat \<Rightarrow> nat" where
  "strnlen_from m str n ret =
     (if m (str + ret) \<noteq> 0 \<and> ret < n then strnlen_from m str n (ret + 1) else ret)"
  by pat_completeness auto
termination by (relation "measure (\<lambda>(m, s, n, i). n - i)") auto

declare strnlen_from.simps [simp del]

definition strnlen :: "memory \<Rightarrow> addr \<Rightarrow> size_t \<Rightarrow> nat" where
  "strnlen m str n = strnlen_from m str n 0"

text \<open>\<open>strncat\<close> returns the advanced \<open>dest\<close>, as the code does.\<close>

definition strncat :: "memory \<Rightarrow> addr \<Rightarrow> addr \<Rightarrow> size_t \<Rightarrow> (addr \<times> memory) option" where
  "strncat m dest src n =
     Option.bind (strlen m dest) (\<lambda>destlen.
     Option.bind (strlen m src) (\<lambda>srclen.
       let dest1 = dest + destlen;
           fin = (if n < srclen then n else srclen);
           m1 = memcpy_from m dest1 src 0 fin;
           dest2 = dest1 + fin
       in Some (dest2, m1(dest2 := 0))))"

definition strcat :: "memory \<Rightarrow> addr \<Rightarrow> addr \<Rightarrow> (addr \<times> memory) option" where
  "strcat m dest src = Option.bind (strlen m src) (\<lambda>len. strncat m dest src len)"

partial_function (option) strcpy_from :: "memory \<Rightarrow> addr \<Rightarrow> addr \<Rightarrow> nat \<Rightarrow> memory option" where
  "strcpy_from m dest src i =
     (if m (src + i) \<noteq> 0 then strcpy_from (m(dest + i := m (src + i))) dest src (i + 1)
      else Some (m(dest + i := 0)))"

definition strcpy :: "memory \<Rightarrow> addr \<Rightarrow> addr \<Rightarrow> memory option" where
  "strcpy m dest src = strcpy_from m dest src 0"

function strncpy_copy :: "memory \<Rightarrow> addr \<Rightarrow> addr \<Rightarrow> size_t \<Rightarrow> nat \<Rightarrow> memory \<times> nat" where
  "strncpy_copy m dest src n i =
     (if i < n \<and> m (src + i) \<noteq> 0 then strncpy_copy (m(dest + i := m (src + i))) dest src n (i + 1)
      else (m, i))"
  by pat_completeness auto
termination by (relation "measure (\<lambda>(m, d, s, n, i). n - i)") auto

declare strncpy_copy.simps [simp del]

definition strncpy :: "memory \<Rightarrow> addr \<Rightarrow> addr \<Rightarrow> size_t \<Rightarrow> memory" where
  "strncpy m dest src n =
     (let (m1, i) = strncpy_copy m dest src n 0 in memset_from m1 dest 0 i n)"

definition strcmp :: "memory \<Rightarrow> addr \<Rightarrow> addr \<Rightarrow> int option" where
  "strcmp m str1 str2 =
     Option.bind (strlen m str1) (\<lambda>strlen1.
     Option.bind (strlen m str2) (\<lambda>strlen2.
       Some (if strlen1 > strlen2 then 1
             else if strlen1 < strlen2 then -1
             else memcmp m str1 str2 strlen1)))"

text \<open>\<open>strdup\<close> with the result of \<open>kmalloc(strlen(str))\<close>, null or an address, as an argument.\<close>

definition strdup_request :: "memory \<Rightarrow> addr \<Rightarrow> size_t option" where
  "strdup_request m str = strlen m str"

definition strdup :: "memory \<Rightarrow> addr option \<Rightarrow> addr \<Rightarrow> (addr option \<times> memory) option" where
  "strdup m ret str =
     (case ret of
        None \<Rightarrow> Some (None, m)
      | Some r \<Rightarrow> Option.bind (strcpy m r str) (\<lambda>m1. Some (Some r, m1)))"

function strchr_from :: "memory \<Rightarrow> addr \<Rightarrow> u8 \<Rightarrow> nat \<Rightarrow> nat \<Rightarrow> addr option" where
  "strchr_from m str c i len =
     (if i < len then
        (if m (str + i) = c then Some (str + i) else strchr_from m str c (i + 1) len)
      else None)"
  by pat_completeness auto
termination by (relation "measure (\<lambda>(m, s, c, i, n). n - i)") auto

declare strchr_from.simps [simp del]

definition strchr :: "memory \<Rightarrow> addr \<Rightarrow> u8 \<Rightarrow> addr option option" where
  "strchr m str c = Option.bind (strlen m str) (\<lambda>len. Some (strchr_from m str c 0 len))"

text \<open>The downward loop over the signed index \<open>i\<close>, including the terminator at \<open>len\<close>.\<close>

fun strrchr_from :: "memory \<Rightarrow> addr \<Rightarrow> u8 \<Rightarrow> nat \<Rightarrow> addr option" where
  "strrchr_from m str c i =
     (if m (str + i) = c then Some (str + i)
      else (case i of 0 \<Rightarrow> None | Suc j \<Rightarrow> strrchr_from m str c j))"

declare strrchr_from.simps [simp del]

definition strrchr :: "memory \<Rightarrow> addr \<Rightarrow> u8 \<Rightarrow> addr option option" where
  "strrchr m str c =
     Option.bind (strlen m str) (\<lambda>len. Some (strrchr_from m str c (min len 2147483647)))"

fun strstr_from :: "memory \<Rightarrow> addr \<Rightarrow> addr \<Rightarrow> nat \<Rightarrow> nat \<Rightarrow> addr option" where
  "strstr_from m haystack needle haylen needlelen =
     (if needlelen \<le> haylen then
        (if memcmp m haystack needle needlelen = 0 then Some haystack
         else (case haylen of
                 0 \<Rightarrow> None
               | Suc h \<Rightarrow> strstr_from m (haystack + 1) needle h needlelen))
      else None)"

declare strstr_from.simps [simp del]

definition strstr :: "memory \<Rightarrow> addr \<Rightarrow> addr \<Rightarrow> addr option option" where
  "strstr m haystack needle =
     Option.bind (strlen m haystack) (\<lambda>haylen.
     Option.bind (strlen m needle) (\<lambda>needlelen.
       Some (strstr_from m haystack needle haylen needlelen)))"

section \<open>Character classes\<close>

definition isdigit :: "int \<Rightarrow> bool" where
  "isdigit c \<longleftrightarrow> c \<ge> 48 \<and> c \<le> 57"

definition isspace :: "int \<Rightarrow> bool" where
  "isspace c \<longleftrightarrow> c = 32 \<or> c = 12 \<or> c = 10 \<or> c = 13 \<or> c = 9 \<or> c = 11"

definition isxdigit :: "int \<Rightarrow> bool" where
  "isxdigit c \<longleftrightarrow> (c \<ge> 48 \<and> c \<le> 57) \<or> (c \<ge> 97 \<and> c \<le> 102) \<or> (c \<ge> 65 \<and> c \<le> 70)"

definition isupper :: "int \<Rightarrow> bool" where
  "isupper c \<longleftrightarrow> c \<ge> 65 \<and> c \<le> 90"

definition tolower :: "int \<Rightarrow> int" where
  "tolower c = c + 32"

section \<open>Blocks of memory\<close>

lemma memset_from_eq:
  "i \<le> n \<Longrightarrow> memset_from m s c i n = fill_mem m (s + i) (n - i) c"
proof (induction "n - i" arbitrary: i m)
  case 0
  then show ?case by (subst memset_from.simps) (auto simp: fill_mem_def fun_eq_iff)
next
  case (Suc k)
  then have k: "i < n" "k = n - (i + 1)" by linarith+
  then have "memset_from m s c i n = fill_mem (m(s + i := c)) (s + (i + 1)) (n - (i + 1)) c"
    using Suc.hyps(1) [of "i + 1"] by (subst memset_from.simps) simp
  also have "\<dots> = fill_mem m (s + i) (n - i) c"
    using k by (auto simp: fill_mem_def fun_eq_iff)
  finally show ?case .
qed

lemma memset_eq: "memset m s c n = fill_mem m s n c"
  by (simp add: memset_def memset_from_eq)

text \<open>Copying between blocks that do not overlap.\<close>

lemma memcpy_from_apply:
  assumes "i \<le> n" and "dest + n \<le> src \<or> src + n \<le> dest"
  shows "memcpy_from m dest src i n x =
    (if dest + i \<le> x \<and> x < dest + n then m (src + (x - dest)) else m x)"
  using assms(1)
proof (induction "n - i" arbitrary: i m)
  case 0
  then show ?case by (subst memcpy_from.simps) auto
next
  case (Suc k)
  then have "memcpy_from m dest src i n x =
      (if dest + (i + 1) \<le> x \<and> x < dest + n then (m(dest + i := m (src + i))) (src + (x - dest))
       else (m(dest + i := m (src + i))) x)"
    using Suc.hyps(1) [of "i + 1" "m(dest + i := m (src + i))"]
    by (subst memcpy_from.simps) auto
  moreover have "src + (x - dest) \<noteq> dest + i" if "dest \<le> x" "x < dest + n"
    using assms(2) that Suc by linarith
  ultimately show ?case using Suc by auto
qed

lemma memcpy_apply:
  "dest + n \<le> src \<or> src + n \<le> dest \<Longrightarrow>
   memcpy m dest src n x = (if dest \<le> x \<and> x < dest + n then m (src + (x - dest)) else m x)"
  by (simp add: memcpy_def memcpy_from_apply)

lemma memcpy_from_outside:
  "i \<le> n \<Longrightarrow> x < dest + i \<or> dest + n \<le> x \<Longrightarrow> memcpy_from m dest src i n x = m x"
proof (induction "n - i" arbitrary: i m)
  case 0
  then show ?case by (subst memcpy_from.simps) auto
next
  case (Suc k)
  then have "memcpy_from m dest src i n x = (m(dest + i := m (src + i))) x"
    by (subst memcpy_from.simps) auto
  with Suc show ?case by auto
qed

lemma memcmp_from_zero_iff:
  "memcmp_from m a b i n = 0 \<longleftrightarrow> (\<forall>j. i \<le> j \<and> j < n \<longrightarrow> m (a + j) = m (b + j))"
proof (induction "n - i" arbitrary: i)
  case 0
  then show ?case by (subst memcmp_from.simps) auto
next
  case (Suc k)
  then have "i < n" and k: "k = n - (i + 1)" by linarith+
  have "memcmp_from m a b i n = 0 \<longleftrightarrow> m (a + i) = m (b + i) \<and> memcmp_from m a b (i + 1) n = 0"
    using \<open>i < n\<close> by (subst memcmp_from.simps) (auto simp: Let_def simp flip: word_uint_eq_iff)
  also have "\<dots> \<longleftrightarrow> (\<forall>j. i \<le> j \<and> j < n \<longrightarrow> m (a + j) = m (b + j))"
    unfolding Suc.hyps(1) [OF k] using \<open>i < n\<close>
    by (metis Suc_eq_plus1 Suc_le_eq le_neq_implies_less less_imp_le le_refl)
  finally show ?case .
qed

lemma memcmp_zero_iff: "memcmp m a b n = 0 \<longleftrightarrow> (\<forall>j < n. m (a + j) = m (b + j))"
  by (simp add: memcmp_def memcmp_from_zero_iff)

lemma memcmp_from_first_difference:
  assumes "i \<le> d" and "d < n" and "\<And>j. i \<le> j \<Longrightarrow> j < d \<Longrightarrow> m (a + j) = m (b + j)"
    and "m (a + d) \<noteq> m (b + d)"
  shows "memcmp_from m a b i n = int (unat (m (a + d))) - int (unat (m (b + d)))"
  using assms(1) assms(3)
proof (induction "d - i" arbitrary: i)
  case 0
  then show ?case using assms(2,4) by (subst memcmp_from.simps) (simp add: Let_def)
next
  case (Suc k)
  then have "m (a + i) = m (b + i)" "i < n" using assms(2) by simp_all
  then have "memcmp_from m a b i n = memcmp_from m a b (i + 1) n"
    by (subst memcmp_from.simps) (simp add: Let_def)
  then show ?case using Suc by simp
qed


section \<open>C strings\<close>

text \<open>Memory holds the characters \<open>xs\<close> at \<open>a\<close>, none of them null, followed by a null byte.\<close>

definition cstring :: "memory \<Rightarrow> addr \<Rightarrow> u8 list \<Rightarrow> bool" where
  "cstring m a xs \<longleftrightarrow> (\<forall>i < length xs. m (a + i) = xs ! i) \<and> 0 \<notin> set xs \<and> m (a + length xs) = 0"

lemma cstring_nonzero: "cstring m a xs \<Longrightarrow> i < length xs \<Longrightarrow> m (a + i) \<noteq> 0"
  by (auto simp: cstring_def in_set_conv_nth)

lemma cstring_zero: "cstring m a xs \<Longrightarrow> m (a + length xs) = 0"
  by (simp add: cstring_def)

lemma cstring_nth: "cstring m a xs \<Longrightarrow> i < length xs \<Longrightarrow> m (a + i) = xs ! i"
  by (simp add: cstring_def)

lemma cstring_cong:
  "cstring m a xs \<Longrightarrow> (\<And>i. i \<le> length xs \<Longrightarrow> m' (a + i) = m (a + i)) \<Longrightarrow> cstring m' a xs"
  by (simp add: cstring_def)

lemma strlen_from_cstring:
  "cstring m a xs \<Longrightarrow> i \<le> length xs \<Longrightarrow> strlen_from m a i = Some (length xs)"
proof (induction "length xs - i" arbitrary: i)
  case 0
  then show ?case by (subst strlen_from.simps) (auto simp: cstring_zero)
next
  case (Suc k)
  then have "m (a + i) \<noteq> 0" by (intro cstring_nonzero) auto
  then show ?case using Suc by (subst strlen_from.simps) simp
qed

lemma strlen_cstring: "cstring m a xs \<Longrightarrow> strlen m a = Some (length xs)"
  by (simp add: strlen_def strlen_from_cstring)

lemma strnlen_from_cstring:
  "cstring m a xs \<Longrightarrow> i \<le> min (length xs) n \<Longrightarrow> strnlen_from m a n i = min (length xs) n"
proof (induction "min (length xs) n - i" arbitrary: i)
  case 0
  then have "i = length xs \<or> i = n" by auto
  then have "\<not> (m (a + i) \<noteq> 0 \<and> i < n)" using 0 cstring_zero [of m a xs] by auto
  then show ?case using 0 by (subst strnlen_from.simps) auto
next
  case (Suc k)
  then have k: "i < length xs" "i < n" "k = min (length xs) n - (i + 1)" by linarith+
  then have "m (a + i) \<noteq> 0" using Suc.prems(1) by (auto dest: cstring_nonzero)
  then show ?case using k Suc.hyps(1) [OF k(3)] Suc.prems(1) by (subst strnlen_from.simps) simp
qed

lemma strnlen_cstring: "cstring m a xs \<Longrightarrow> strnlen m a n = min (length xs) n"
  by (simp add: strnlen_def strnlen_from_cstring)

lemma memcmp_cstring:
  assumes "cstring m a xs" and "cstring m b ys" and "length xs = length ys"
  shows "memcmp m a b (length xs) = 0 \<longleftrightarrow> xs = ys"
proof -
  have "(\<forall>j < length xs. m (a + j) = m (b + j)) \<longleftrightarrow> (\<forall>j < length xs. xs ! j = ys ! j)"
    using cstring_nth [OF assms(1)] cstring_nth [OF assms(2)] assms(3) by metis
  then show ?thesis by (simp add: memcmp_zero_iff list_eq_iff_nth_eq assms(3))
qed

lemma strcmp_cstring:
  assumes "cstring m a xs" and "cstring m b ys"
  shows "\<exists>r. strcmp m a b = Some r \<and> (r = 0 \<longleftrightarrow> xs = ys)"
proof (cases "length xs = length ys")
  case True
  then show ?thesis
    using memcmp_cstring [OF assms True] strlen_cstring [OF assms(1)] strlen_cstring [OF assms(2)]
    by (simp add: strcmp_def)
next
  case False
  then have "xs \<noteq> ys" by auto
  then show ?thesis
    using False strlen_cstring [OF assms(1)] strlen_cstring [OF assms(2)]
    by (cases "length xs > length ys") (simp_all add: strcmp_def)
qed

lemma strcpy_from_cstring:
  assumes "cstring m src xs" and "i \<le> length xs"
    and "dest + length xs < src \<or> src + length xs < dest"
  shows "\<exists>m'. strcpy_from m dest src i = Some m' \<and>
     (\<forall>x. m' x = (if dest + i \<le> x \<and> x \<le> dest + length xs then m (src + (x - dest)) else m x))"
  using assms(1,2)
proof (induction "length xs - i" arbitrary: i m)
  case 0
  then show ?case by (subst strcpy_from.simps) (auto simp: cstring_zero)
next
  case (Suc k)
  let ?m = "m(dest + i := m (src + i))"
  have k: "i < length xs" "k = length xs - (i + 1)" using Suc.hyps(2) by linarith+
  have same: "?m (src + j) = m (src + j)" if "j \<le> length xs" for j
    using assms(3) k that by auto
  have "cstring ?m src xs" using Suc.prems(1) by (rule cstring_cong) (rule same)
  then obtain m' where m': "strcpy_from ?m dest src (i + 1) = Some m'"
    and v: "\<And>x. m' x = (if dest + (i + 1) \<le> x \<and> x \<le> dest + length xs then ?m (src + (x - dest)) else ?m x)"
    using Suc.hyps(1) [OF k(2), of ?m] k(1) by auto
  have nz: "m (src + i) \<noteq> 0" using Suc.prems(1) k by (intro cstring_nonzero) auto
  have "m' x = (if dest + i \<le> x \<and> x \<le> dest + length xs then m (src + (x - dest)) else m x)" for x
    using v [of x] same [of "x - dest"] k by auto
  then show ?case using m' nz by (subst strcpy_from.simps) auto
qed

lemma strcpy_cstring:
  assumes "cstring m src xs" and "dest + length xs < src \<or> src + length xs < dest"
  shows "\<exists>m'. strcpy m dest src = Some m' \<and> cstring m' dest xs \<and> cstring m' src xs \<and>
     (\<forall>x. x < dest \<or> dest + length xs < x \<longrightarrow> m' x = m x)"
proof -
  obtain m' where m': "strcpy m dest src = Some m'"
    and v: "\<And>x. m' x = (if dest \<le> x \<and> x \<le> dest + length xs then m (src + (x - dest)) else m x)"
    using strcpy_from_cstring [OF assms(1) le0 assms(2)] by (auto simp: strcpy_def)
  have "cstring m' dest xs" using assms(1) by (auto simp: cstring_def v)
  moreover have "cstring m' src xs"
    using assms(1) by (rule cstring_cong) (use assms(2) v in auto)
  ultimately show ?thesis using m' v by auto
qed

lemma strncpy_copy_cstring:
  assumes "cstring m src xs" and "i \<le> min (length xs) n"
    and "dest + n \<le> src \<or> src + length xs < dest"
  shows "\<exists>m'. strncpy_copy m dest src n i = (m', min (length xs) n) \<and>
     (\<forall>x. m' x = (if dest + i \<le> x \<and> x < dest + min (length xs) n then m (src + (x - dest)) else m x))"
  using assms(1,2)
proof (induction "min (length xs) n - i" arbitrary: i m)
  case 0
  then have i: "i = min (length xs) n" by simp
  have "\<not> (i < n \<and> m (src + i) \<noteq> 0)" using i cstring_zero [OF 0(2)] by (auto simp: min_def split: if_splits)
  then show ?case using i by (subst strncpy_copy.simps) auto
next
  case (Suc k)
  let ?m = "m(dest + i := m (src + i))"
  have i: "i < length xs" "i < n" and k: "k = min (length xs) n - (i + 1)"
    using Suc.hyps(2) by linarith+
  have same: "?m (src + j) = m (src + j)" if "j \<le> length xs" for j
    using assms(3) i that by auto
  have c: "cstring ?m src xs" using Suc.prems(1) by (rule cstring_cong) (rule same)
  obtain m' where m': "strncpy_copy ?m dest src n (i + 1) = (m', min (length xs) n)"
    and v: "\<And>x. m' x = (if dest + (i + 1) \<le> x \<and> x < dest + min (length xs) n then ?m (src + (x - dest)) else ?m x)"
    using Suc.hyps(1) [OF k c] i by auto
  have nz: "m (src + i) \<noteq> 0" using Suc.prems(1) i by (intro cstring_nonzero) auto
  have "m' x = (if dest + i \<le> x \<and> x < dest + min (length xs) n then m (src + (x - dest)) else m x)" for x
    using v [of x] same [of "x - dest"] i by auto
  then show ?case using m' nz i by (subst strncpy_copy.simps) auto
qed

lemma strncpy_cstring:
  assumes "cstring m src xs" and "dest + n \<le> src \<or> src + length xs < dest"
  shows "strncpy m dest src n x =
    (if dest \<le> x \<and> x < dest + n then (if x - dest < length xs then xs ! (x - dest) else 0) else m x)"
proof -
  obtain m' where m': "strncpy_copy m dest src n 0 = (m', min (length xs) n)"
    and v: "\<And>x. m' x = (if dest \<le> x \<and> x < dest + min (length xs) n then m (src + (x - dest)) else m x)"
    using strncpy_copy_cstring [OF assms(1) le0 assms(2)] by auto
  show ?thesis
    using cstring_nth [OF assms(1), of "x - dest"]
    by (auto simp: strncpy_def m' memset_from_eq fill_mem_def v)
qed

lemma strncat_cstring:
  assumes d: "cstring m dest xs" and s: "cstring m src ys"
    and dis: "dest + length xs + min n (length ys) < src \<or> src + length ys < dest"
  shows "\<exists>m'. strncat m dest src n = Some (dest + length xs + min n (length ys), m') \<and>
     cstring m' dest (xs @ take n ys)"
proof -
  let ?k = "min n (length ys)" and ?d = "dest + length xs"
  let ?m = "(memcpy_from m ?d src 0 ?k)(?d + ?k := 0)"
  have a: "memcpy_from m ?d src 0 ?k x = (if ?d \<le> x \<and> x < ?d + ?k then m (src + (x - ?d)) else m x)" for x
    using dis by (subst memcpy_from_apply) auto
  have "cstring ?m dest (xs @ take n ys)"
    unfolding cstring_def
  proof (intro conjI allI impI)
    fix i assume i: "i < length (xs @ take n ys)"
    show "?m (dest + i) = (xs @ take n ys) ! i"
    proof (cases "i < length xs")
      case True
      then show ?thesis using cstring_nth [OF d True] by (simp add: a nth_append)
    next
      case False
      with i have j: "i - length xs < length ys" "i - length xs < n" by auto
      then have "i - length xs < ?k" by simp
      then have in_src: "?d \<le> dest + i" "dest + i < ?d + ?k" "dest + i - ?d = i - length xs"
        using False by linarith+
      then have "?m (dest + i) = m (src + (i - length xs))" by (simp only: a fun_upd_apply) simp
      then show ?thesis using False cstring_nth [OF s j(1)] j by (simp add: nth_append)
    qed
  next
    show "0 \<notin> set (xs @ take n ys)" using d s by (auto simp: cstring_def dest: in_set_takeD)
    show "?m (dest + length (xs @ take n ys)) = 0" by (simp add: min.commute)
  qed
  then show ?thesis
    using strlen_cstring [OF d] strlen_cstring [OF s]
    by (auto simp: strncat_def Let_def min_def split: if_splits)
qed

lemma strcat_cstring:
  assumes "cstring m dest xs" and "cstring m src ys"
    and "dest + length xs + length ys < src \<or> src + length ys < dest"
  shows "\<exists>m'. strcat m dest src = Some (dest + length xs + length ys, m') \<and> cstring m' dest (xs @ ys)"
  using strncat_cstring [of m dest xs src ys "length ys"] assms
  by (auto simp: strcat_def strlen_cstring)


section \<open>Searching\<close>

lemma strchr_from_cases:
  "(case strchr_from m a c i n of
      None \<Rightarrow> \<forall>j. i \<le> j \<and> j < n \<longrightarrow> m (a + j) \<noteq> c
    | Some p \<Rightarrow> \<exists>j. i \<le> j \<and> j < n \<and> p = a + j \<and> m p = c \<and> (\<forall>k. i \<le> k \<and> k < j \<longrightarrow> m (a + k) \<noteq> c))"
proof (induction m a c i n rule: strchr_from.induct)
  case (1 m a c i n)
  consider "\<not> i < n" | "i < n" "m (a + i) = c" | "i < n" "m (a + i) \<noteq> c" by blast
  then show ?case
  proof cases
    case 1
    then show ?thesis by (subst strchr_from.simps) auto
  next
    case 2
    then show ?thesis by (subst strchr_from.simps) auto
  next
    case 3
    have up: "P j" if "P i" "\<forall>j. i + 1 \<le> j \<and> j < u \<longrightarrow> P j" "i \<le> j" "j < u" for P :: "nat \<Rightarrow> bool" and j u
      using that by (cases "j = i") auto
    have eq: "strchr_from m a c i n = strchr_from m a c (i + 1) n"
      using 3 by (subst strchr_from.simps) simp
    show ?thesis
    proof (cases "strchr_from m a c (i + 1) n")
      case None
      then have "\<forall>j. i + 1 \<le> j \<and> j < n \<longrightarrow> m (a + j) \<noteq> c" using 1 3 by simp
      then show ?thesis using eq None up [of "\<lambda>j. m (a + j) \<noteq> c"] 3(2) by auto
    next
      case (Some p)
      then obtain j where j: "i + 1 \<le> j" "j < n" "p = a + j" "m p = c"
        "\<forall>k. i + 1 \<le> k \<and> k < j \<longrightarrow> m (a + k) \<noteq> c" using 1 3 by auto
      then have "\<forall>k. i \<le> k \<and> k < j \<longrightarrow> m (a + k) \<noteq> c"
        using up [of "\<lambda>j. m (a + j) \<noteq> c"] 3(2) by blast
      then show ?thesis using eq Some j by auto
    qed
  qed
qed

text \<open>\<open>strchr\<close> finds the first occurrence before the terminator.\<close>

lemma strchr_cstring:
  assumes "cstring m a xs"
  shows "strchr m a c =
    Some (if c \<in> set xs then Some (a + length (takeWhile (\<lambda>x. x \<noteq> c) xs)) else None)"
proof (cases "strchr_from m a c 0 (length xs)")
  case None
  then have "\<forall>j < length xs. m (a + j) \<noteq> c" using strchr_from_cases [where m = m and a = a and c = c and i = 0 and n = "length xs"] by simp
  then have "c \<notin> set xs" using assms by (auto simp: cstring_def in_set_conv_nth)
  then show ?thesis using None assms by (simp add: strchr_def strlen_cstring)
next
  case (Some p)
  then obtain j where j: "j < length xs" "p = a + j" "m p = c" "\<forall>k < j. m (a + k) \<noteq> c"
    using strchr_from_cases [where m = m and a = a and c = c and i = 0 and n = "length xs"] by auto
  have "takeWhile (\<lambda>x. x \<noteq> c) xs = take j xs"
    using j assms by (intro takeWhile_eq_take_P_nth) (auto simp: cstring_def)
  then have "length (takeWhile (\<lambda>x. x \<noteq> c) xs) = j" using j(1) by simp
  moreover have "c \<in> set xs" using j assms by (auto simp: cstring_def)
  ultimately show ?thesis using Some j assms by (simp add: strchr_def strlen_cstring)
qed

end
