(* ===== verification/Gallocator.thy ===== *)
theory Gallocator
  imports Bitwise KString
begin

unbundle bit_operations_syntax

text \<open>
  The kernel's general purpose allocator, \<^verbatim>\<open>kernel/mem/gallocator.c\<close>, over the byte memory. A heap
  starts with a \<open>GAllocatorHeapMeta\<close> structure, then three bitmaps and three pools of chunks of 128,
  64 and 32 bytes. An allocation occupies consecutive chunks of one pool, its \<open>GAllocationMeta\<close> sits
  in the 16 bytes just below its address, inside the chunk before it. The two search loops are
  \<open>partial_function\<close>s, whose value \<open>None\<close> means that the loop does not end; that they end is proved.
\<close>

section \<open>Data\<close>

definition PAGESIZE :: nat where "PAGESIZE = 4096"

record Heap =
  vaddr :: addr
  pagespan :: size_t

definition heap_is_addr_inside :: "addr \<Rightarrow> Heap \<Rightarrow> bool" where
  "heap_is_addr_inside a heap =
     (let heapsize = mul32 (pagespan heap) PAGESIZE
      in a \<ge> vaddr heap \<and> a < add32 (vaddr heap) heapsize)"

definition LO_POOL_CHUNK_SIZE :: nat where "LO_POOL_CHUNK_SIZE = 32"
definition MID_POOL_CHUNK_SIZE :: nat where "MID_POOL_CHUNK_SIZE = 64"
definition HI_POOL_CHUNK_SIZE :: nat where "HI_POOL_CHUNK_SIZE = 128"

lemmas chunk_size_defs = LO_POOL_CHUNK_SIZE_def MID_POOL_CHUNK_SIZE_def HI_POOL_CHUNK_SIZE_def

definition HEAP_SIGNATURE :: nat where "HEAP_SIGNATURE = 0xDEAD5160"
definition ALLOCATION_SIGNATURE :: nat where "ALLOCATION_SIGNATURE = 0xDEADADD5"

record GAllocatorHeapMeta =
  hsignature :: nat
  lo_bitmap :: addr
  lo_bitmap_size :: size_t
  lo_pool :: addr
  lo_poolchunks :: size_t
  mid_bitmap :: addr
  mid_bitmap_size :: size_t
  mid_pool :: addr
  mid_poolchunks :: size_t
  hi_bitmap :: addr
  hi_bitmap_size :: size_t
  hi_pool :: addr
  hi_poolchunks :: size_t

record GAllocationMeta =
  asignature :: nat
  asize :: size_t
  achunksize :: size_t
  aalignment :: size_t

record AllocationCtx =
  bitmapstart :: addr
  bitmapsize :: size_t
  poolstart :: addr
  poolchunks :: size_t
  chunksize :: size_t
  cbyte :: addr
  cbit :: nat

text \<open>The structures as they lie in memory: consecutive 32-bit fields.\<close>

definition load_heap_meta :: "memory \<Rightarrow> addr \<Rightarrow> GAllocatorHeapMeta" where
  "load_heap_meta m a = \<lparr>hsignature = read32 m a,
     lo_bitmap = read32 m (a + 4), lo_bitmap_size = read32 m (a + 8),
     lo_pool = read32 m (a + 12), lo_poolchunks = read32 m (a + 16),
     mid_bitmap = read32 m (a + 20), mid_bitmap_size = read32 m (a + 24),
     mid_pool = read32 m (a + 28), mid_poolchunks = read32 m (a + 32),
     hi_bitmap = read32 m (a + 36), hi_bitmap_size = read32 m (a + 40),
     hi_pool = read32 m (a + 44), hi_poolchunks = read32 m (a + 48)\<rparr>"

definition store_heap_meta :: "memory \<Rightarrow> addr \<Rightarrow> GAllocatorHeapMeta \<Rightarrow> memory" where
  "store_heap_meta m a h =
     (let m1 = write32 m a (hsignature h);
          m2 = write32 m1 (a + 4) (lo_bitmap h); m3 = write32 m2 (a + 8) (lo_bitmap_size h);
          m4 = write32 m3 (a + 12) (lo_pool h); m5 = write32 m4 (a + 16) (lo_poolchunks h);
          m6 = write32 m5 (a + 20) (mid_bitmap h); m7 = write32 m6 (a + 24) (mid_bitmap_size h);
          m8 = write32 m7 (a + 28) (mid_pool h); m9 = write32 m8 (a + 32) (mid_poolchunks h);
          m10 = write32 m9 (a + 36) (hi_bitmap h); m11 = write32 m10 (a + 40) (hi_bitmap_size h);
          m12 = write32 m11 (a + 44) (hi_pool h)
      in write32 m12 (a + 48) (hi_poolchunks h))"

definition load_alloc_meta :: "memory \<Rightarrow> addr \<Rightarrow> GAllocationMeta" where
  "load_alloc_meta m a = \<lparr>asignature = read32 m a, asize = read32 m (a + 4),
     achunksize = read32 m (a + 8), aalignment = read32 m (a + 12)\<rparr>"

definition store_alloc_meta :: "memory \<Rightarrow> addr \<Rightarrow> GAllocationMeta \<Rightarrow> memory" where
  "store_alloc_meta m a am =
     (let m1 = write32 m a (asignature am);
          m2 = write32 m1 (a + 4) (asize am);
          m3 = write32 m2 (a + 8) (achunksize am)
      in write32 m3 (a + 12) (aalignment am))"

text \<open>\<open>sizeof(GAllocationMeta)\<close> and \<open>sizeof(GAllocatorHeapMeta)\<close>.\<close>

definition alloc_meta_size :: nat where "alloc_meta_size = 16"
definition heap_meta_size :: nat where "heap_meta_size = 52"

text \<open>
  \<open>ceil((double)n / d)\<close>. Every divisor of the allocator is a power of two, so the quotient of the
  32-bit \<open>n\<close> is exact in binary64 and \<open>(i64)x == x\<close> holds exactly when \<open>d\<close> divides \<open>n\<close>.
\<close>

definition ceil_ratio :: "nat \<Rightarrow> nat \<Rightarrow> nat" where
  "ceil_ratio n d = (if n mod d = 0 then n div d else n div d + 1)"

section \<open>The allocation context\<close>

fun allocationctx_advance :: "nat \<Rightarrow> AllocationCtx \<Rightarrow> AllocationCtx" where
  "allocationctx_advance bits alloc =
     (if bits \<ge> 8 then
        allocationctx_advance (bits - 8) (alloc\<lparr>cbyte := add32 (cbyte alloc) 1\<rparr>)
      else if cbit alloc + bits \<ge> 8 then
        alloc\<lparr>cbyte := add32 (cbyte alloc) 1, cbit := add32 (cbit alloc) (sub32 bits 8)\<rparr>
      else alloc\<lparr>cbit := cbit alloc + bits\<rparr>)"

declare allocationctx_advance.simps [simp del]

definition allocationctx_to_offset :: "AllocationCtx \<Rightarrow> nat" where
  "allocationctx_to_offset alloc =
     add32 (mul32 (mul32 (cbyte alloc) 8) (chunksize alloc)) (mul32 (cbit alloc) (chunksize alloc))"

definition addr_to_allocationctx_offset :: "addr \<Rightarrow> AllocationCtx \<Rightarrow> AllocationCtx" where
  "addr_to_allocationctx_offset a alloc =
     (let a1 = sub32 a (poolstart alloc);
          totalchunks = a1 div chunksize alloc;
          b = totalchunks div 8
      in alloc\<lparr>cbyte := b, cbit := totalchunks - b * 8\<rparr>)"

definition is_allocationctx_inside_pool :: "AllocationCtx \<Rightarrow> bool" where
  "is_allocationctx_inside_pool alloc \<longleftrightarrow>
     allocationctx_to_offset alloc < mul32 (poolchunks alloc) (chunksize alloc)"

definition check_bit :: "memory \<Rightarrow> AllocationCtx \<Rightarrow> bool" where
  "check_bit m alloc \<longleftrightarrow> (m (bitmapstart alloc + cbyte alloc) AND push_bit (cbit alloc) 1) \<noteq> 0"

section \<open>Runs of free chunks\<close>

text \<open>
  The inner loop of \<open>gallocator_has_n_contiguous_bits\<close>: the context, the number of bits found and
  whether the loop left through \<open>goto done\<close>. The bit position is below 8 (asserted on entry), so
  the test for the last bit of a byte reads \<open>7 \<le> cbit\<close>.
\<close>

function has_n_inner :: "u8 \<Rightarrow> nat \<Rightarrow> AllocationCtx \<Rightarrow> nat \<Rightarrow> AllocationCtx \<times> nat \<times> bool" where
  "has_n_inner byte n alloc foundbits =
     (if is_allocationctx_inside_pool alloc then
        (if (byte AND push_bit (cbit alloc) 1) \<noteq> 0 then (alloc, foundbits, True)
         else if foundbits + 1 = n then (alloc, foundbits + 1, True)
         else if 7 \<le> cbit alloc then (alloc\<lparr>cbit := 0\<rparr>, foundbits + 1, False)
         else has_n_inner byte n (alloc\<lparr>cbit := cbit alloc + 1\<rparr>) (foundbits + 1))
      else (alloc, foundbits, False))"
  by pat_completeness auto
termination by (relation "measure (\<lambda>(byte, n, alloc, found). 7 - cbit alloc)") auto

declare has_n_inner.simps [simp del]

lemma has_n_inner_byte:
  "has_n_inner byte n alloc f = (alloc', f', d) \<Longrightarrow>
   cbyte alloc' = cbyte alloc \<and> bitmapsize alloc' = bitmapsize alloc"
proof (induction byte n alloc f arbitrary: alloc' f' d rule: has_n_inner.induct)
  case (1 byte n alloc f)
  from "1.prems" show ?case
    by (subst (asm) has_n_inner.simps) (auto split: if_splits dest: "1.IH")
qed

function has_n_outer :: "memory \<Rightarrow> nat \<Rightarrow> AllocationCtx \<Rightarrow> nat \<Rightarrow> nat" where
  "has_n_outer m n alloc foundbits =
     (if cbyte alloc < bitmapsize alloc then
        (case has_n_inner (m (bitmapstart alloc + cbyte alloc)) n alloc foundbits of
           (alloc1, foundbits1, found) \<Rightarrow>
             if found then foundbits1
             else has_n_outer m n (alloc1\<lparr>cbyte := cbyte alloc1 + 1\<rparr>) foundbits1)
      else foundbits)"
  by pat_completeness auto
termination
  by (relation "measure (\<lambda>(m, n, alloc, f). bitmapsize alloc - cbyte alloc)")
    (auto dest!: has_n_inner_byte [OF sym])

declare has_n_outer.simps [simp del]

definition gallocator_has_n_contiguous_bits ::
    "memory \<Rightarrow> AllocationCtx \<Rightarrow> nat \<Rightarrow> nat outcome" where
  "gallocator_has_n_contiguous_bits m alloc n =
     assert_outcome (cbit alloc < 8)
      (assert_outcome (is_allocationctx_inside_pool alloc)
        (let foundbits = has_n_outer m n alloc 0
         in assert_outcome (foundbits > 0) (Ret foundbits)))"

section \<open>Marking and clearing chunks\<close>

text \<open>
  The loops of \<open>gallocator_bitmap_set_bits\<close> and \<open>gallocator_bitmap_clear_bits\<close> differ only in what
  they do to the bit, the argument \<open>upd\<close>.
\<close>

definition set_bit_in :: "nat \<Rightarrow> u8 \<Rightarrow> u8" where
  "set_bit_in k b = b OR push_bit k 1"

definition clear_bit_in :: "nat \<Rightarrow> u8 \<Rightarrow> u8" where
  "clear_bit_in k b = b AND NOT (push_bit k 1)"

function bits_inner ::
    "(nat \<Rightarrow> u8 \<Rightarrow> u8) \<Rightarrow> memory \<Rightarrow> AllocationCtx \<Rightarrow> nat \<Rightarrow> memory \<times> AllocationCtx \<times> nat \<times> bool" where
  "bits_inner upd m alloc bits =
     (if is_allocationctx_inside_pool alloc then
        (let p = bitmapstart alloc + cbyte alloc;
             m1 = m(p := upd (cbit alloc) (m p));
             bits1 = sub32 bits 1
         in if bits1 = 0 then (m1, alloc, bits1, True)
            else if 7 \<le> cbit alloc then (m1, alloc\<lparr>cbit := 0\<rparr>, bits1, False)
            else bits_inner upd m1 (alloc\<lparr>cbit := cbit alloc + 1\<rparr>) bits1)
      else (m, alloc, bits, False))"
  by pat_completeness auto
termination by (relation "measure (\<lambda>(upd, m, alloc, bits). 7 - cbit alloc)") auto

declare bits_inner.simps [simp del]

lemma bits_inner_byte:
  "bits_inner upd m alloc bits = (m', alloc', bits', d) \<Longrightarrow>
   cbyte alloc' = cbyte alloc \<and> bitmapsize alloc' = bitmapsize alloc"
proof (induction upd m alloc bits arbitrary: m' alloc' bits' d rule: bits_inner.induct)
  case (1 upd m alloc bits)
  show ?case
  proof (cases "is_allocationctx_inside_pool alloc \<and> sub32 bits 1 \<noteq> 0 \<and> \<not> 7 \<le> cbit alloc")
    case True
    then show ?thesis using "1.prems" "1.IH" [OF _ refl refl refl, of m' alloc' bits' d]
      by (simp add: bits_inner.simps [of upd m alloc bits] Let_def fun_upd_def)
  next
    case False
    then show ?thesis using "1.prems"
      by (auto simp: bits_inner.simps [of upd m alloc bits] Let_def split: if_splits)
  qed
qed

function bits_outer ::
    "(nat \<Rightarrow> u8 \<Rightarrow> u8) \<Rightarrow> memory \<Rightarrow> AllocationCtx \<Rightarrow> nat \<Rightarrow> memory outcome" where
  "bits_outer upd m alloc bits =
     (if cbyte alloc < bitmapsize alloc then
        (case bits_inner upd m alloc bits of
           (m1, alloc1, bits1, fin) \<Rightarrow>
             if fin then Ret m1
             else bits_outer upd m1 (alloc1\<lparr>cbyte := cbyte alloc1 + 1\<rparr>) bits1)
      else Panic)"
  by pat_completeness auto
termination
  by (relation "measure (\<lambda>(upd, m, alloc, bits). bitmapsize alloc - cbyte alloc)")
    (auto dest!: bits_inner_byte [OF sym])

declare bits_outer.simps [simp del]

text \<open>
  The result of the two routines: the return value 0, or \<open>-EINVAL\<close>, or 1 when there is no chunk for
  the metadata; only 0 changes the bitmap.
\<close>

datatype bits_status = BitsOk memory | BitsInval | BitsNoMeta

definition gallocator_bitmap_update ::
    "(nat \<Rightarrow> u8 \<Rightarrow> u8) \<Rightarrow> memory \<Rightarrow> AllocationCtx \<Rightarrow> nat \<Rightarrow> bits_status outcome" where
  "gallocator_bitmap_update upd m alloc bits =
     (if cbit alloc > 7 \<or> \<not> is_allocationctx_inside_pool alloc then Ret BitsInval
      else if \<not> is_allocationctx_inside_pool (allocationctx_advance bits alloc) then Ret BitsInval
      else if cbit alloc = 0 \<and> cbyte alloc = 0 then Ret BitsNoMeta
      else
        let m1 = (if cbit alloc = 0
                  then let p = bitmapstart alloc + (cbyte alloc - 1) in m(p := upd 7 (m p))
                  else let p = bitmapstart alloc + cbyte alloc in m(p := upd (cbit alloc - 1) (m p)))
        in bind_outcome (bits_outer upd m1 alloc bits) (\<lambda>m2. Ret (BitsOk m2)))"

definition gallocator_bitmap_set_bits :: "memory \<Rightarrow> AllocationCtx \<Rightarrow> nat \<Rightarrow> bits_status outcome" where
  "gallocator_bitmap_set_bits = gallocator_bitmap_update set_bit_in"

definition gallocator_bitmap_clear_bits :: "memory \<Rightarrow> AllocationCtx \<Rightarrow> nat \<Rightarrow> bits_status outcome" where
  "gallocator_bitmap_clear_bits = gallocator_bitmap_update clear_bit_in"


section \<open>Finding a start\<close>

text \<open>The chunk before the context, where the metadata goes.\<close>

definition prev_ctx :: "AllocationCtx \<Rightarrow> AllocationCtx" where
  "prev_ctx alloc =
     (if cbit alloc = 0 then alloc\<lparr>cbit := 7, cbyte := cbyte alloc - 1\<rparr>
      else alloc\<lparr>cbit := cbit alloc - 1\<rparr>)"

partial_function (option) find_start_loop ::
    "memory \<Rightarrow> nat \<Rightarrow> AllocationCtx \<Rightarrow> (bool \<times> AllocationCtx) option" where
  "find_start_loop m alignment alloc =
     (if cbyte alloc < bitmapsize alloc \<and> is_allocationctx_inside_pool alloc then
        (if \<not> (cbit alloc = 0 \<and> cbyte alloc = 0)
              \<and> of_bool (check_bit m alloc) + of_bool (check_bit m (prev_ctx alloc)) = (0 :: int)
         then Some (True, alloc)
         else find_start_loop m alignment
                (allocationctx_advance (ceil_ratio alignment (chunksize alloc)) alloc))
      else Some (False, alloc))"

definition gallocator_find_start_aligned ::
    "memory \<Rightarrow> nat \<Rightarrow> AllocationCtx \<Rightarrow> (bool \<times> AllocationCtx) outcome option" where
  "gallocator_find_start_aligned m alignment alloc =
     (let starting_address = add32 (poolstart alloc) (allocationctx_to_offset alloc) in
      if starting_address mod alignment \<noteq> 0 then
        let starting_address1 = bytes_align_up64 starting_address alignment mod W32 in
        if starting_address1 mod alignment = 0 then
          Option.bind
            (find_start_loop m alignment (addr_to_allocationctx_offset starting_address1 alloc))
            (\<lambda>r. Some (Ret r))
        else Some Panic
      else Option.bind (find_start_loop m alignment alloc) (\<lambda>r. Some (Ret r)))"

section \<open>Allocation\<close>

partial_function (option) alloc_search ::
    "memory \<Rightarrow> nat \<Rightarrow> nat \<Rightarrow> AllocationCtx \<Rightarrow> (bool \<times> AllocationCtx) outcome option" where
  "alloc_search m alignment chunksneeded alloc =
     Option.bind (gallocator_find_start_aligned m alignment alloc) (\<lambda>r.
       case r of
         Panic \<Rightarrow> Some Panic
       | Ret (found, alloc1) \<Rightarrow>
           if \<not> found then Some (Ret (False, alloc1))
           else if chunksneeded = 1 then Some (Ret (True, alloc1))
           else (case gallocator_has_n_contiguous_bits m alloc1 chunksneeded of
                   Panic \<Rightarrow> Some Panic
                 | Ret chunksfound \<Rightarrow>
                     if chunksfound = chunksneeded then Some (Ret (True, alloc1))
                     else alloc_search m alignment chunksneeded
                            (allocationctx_advance chunksfound alloc1)))"

text \<open>Step 1 of the allocation: the pool for a size, the context at its first chunk.\<close>

definition lo_ctx :: "GAllocatorHeapMeta \<Rightarrow> AllocationCtx" where
  "lo_ctx meta = \<lparr>bitmapstart = lo_bitmap meta, bitmapsize = lo_bitmap_size meta,
     poolstart = lo_pool meta, poolchunks = lo_poolchunks meta, chunksize = LO_POOL_CHUNK_SIZE,
     cbyte = 0, cbit = 0\<rparr>"

definition mid_ctx :: "GAllocatorHeapMeta \<Rightarrow> AllocationCtx" where
  "mid_ctx meta = \<lparr>bitmapstart = mid_bitmap meta, bitmapsize = mid_bitmap_size meta,
     poolstart = mid_pool meta, poolchunks = mid_poolchunks meta, chunksize = MID_POOL_CHUNK_SIZE,
     cbyte = 0, cbit = 0\<rparr>"

definition hi_ctx :: "GAllocatorHeapMeta \<Rightarrow> AllocationCtx" where
  "hi_ctx meta = \<lparr>bitmapstart = hi_bitmap meta, bitmapsize = hi_bitmap_size meta,
     poolstart = hi_pool meta, poolchunks = hi_poolchunks meta, chunksize = HI_POOL_CHUNK_SIZE,
     cbyte = 0, cbit = 0\<rparr>"

definition alloc_ctx_for_size :: "nat \<Rightarrow> GAllocatorHeapMeta \<Rightarrow> AllocationCtx" where
  "alloc_ctx_for_size sz meta =
     (if sz \<ge> HI_POOL_CHUNK_SIZE then hi_ctx meta
      else if sz \<ge> MID_POOL_CHUNK_SIZE then mid_ctx meta
      else lo_ctx meta)"

definition gallocator_do_alloc_aligned ::
    "memory \<Rightarrow> nat \<Rightarrow> nat \<Rightarrow> GAllocatorHeapMeta \<Rightarrow> (addr option \<times> memory) outcome option" where
  "gallocator_do_alloc_aligned m sz alignment meta =
     (let alloc = alloc_ctx_for_size sz meta;
          chunksneeded = ceil_ratio sz (chunksize alloc)
      in Option.bind (alloc_search m alignment chunksneeded alloc) (\<lambda>r.
         Some (bind_outcome r (\<lambda>(ok, alloc1).
           if \<not> ok then Ret (None, m)
           else bind_outcome (gallocator_bitmap_set_bits m alloc1 chunksneeded) (\<lambda>st.
             case st of
               BitsOk m1 \<Rightarrow>
                 let a = add32 (poolstart alloc1) (allocationctx_to_offset alloc1);
                     am = \<lparr>asignature = ALLOCATION_SIGNATURE, asize = sz,
                           achunksize = chunksize alloc1, aalignment = alignment\<rparr>
                 in Ret (Some a, store_alloc_meta m1 (a - alloc_meta_size) am)
             | _ \<Rightarrow> Ret (None, m))))))"

section \<open>The interface\<close>

definition gallocator_init :: int where "gallocator_init = 0"

text \<open>
  The layout computed by \<open>gallocator_init_heap\<close>. The fields that the code stores and then adjusts in
  place (the pools and their chunk counts) are \<open>let\<close> bound before and after the adjustment.
\<close>

definition init_heap_meta :: "Heap \<Rightarrow> nat \<Rightarrow> nat \<Rightarrow> GAllocatorHeapMeta" where
  "init_heap_meta heap heapsize0 metasize =
     (let heapsize = sub32 heapsize0 metasize;
          lo_bitmap_size0 = ceil_ratio (heapsize div 4 div LO_POOL_CHUNK_SIZE) 8;
          mid_bitmap_size0 = ceil_ratio (heapsize div 4 div MID_POOL_CHUNK_SIZE) 8;
          hi_bitmap_size0 = ceil_ratio (heapsize div 2 div HI_POOL_CHUNK_SIZE) 8;
          heapsize1 = sub32 heapsize (add32 (add32 lo_bitmap_size0 mid_bitmap_size0) hi_bitmap_size0);
          lo_poolchunks0 = heapsize1 div 4 div LO_POOL_CHUNK_SIZE;
          mid_poolchunks0 = heapsize1 div 4 div MID_POOL_CHUNK_SIZE;
          hi_poolchunks0 = heapsize1 div 2 div HI_POOL_CHUNK_SIZE;
          bitmap_heap_start = add32 (vaddr heap) metasize;
          lo_bitmap0 = bitmap_heap_start;
          mid_bitmap0 = add32 bitmap_heap_start lo_bitmap_size0;
          hi_bitmap0 = add32 (add32 bitmap_heap_start lo_bitmap_size0) mid_bitmap_size0;
          hi_pool0 = add32 hi_bitmap0 hi_bitmap_size0;
          mid_pool0 = add32 hi_pool0 (mul32 hi_poolchunks0 HI_POOL_CHUNK_SIZE);
          lo_pool0 = add32 mid_pool0 (mul32 mid_poolchunks0 MID_POOL_CHUNK_SIZE);
          tmp_hi_pool = bytes_align_up64 hi_pool0 HI_POOL_CHUNK_SIZE mod W32;
          tmp_mid_pool = bytes_align_up64 mid_pool0 MID_POOL_CHUNK_SIZE mod W32;
          tmp_lo_pool = bytes_align_up64 lo_pool0 LO_POOL_CHUNK_SIZE mod W32
      in \<lparr>hsignature = HEAP_SIGNATURE,
          lo_bitmap = lo_bitmap0, lo_bitmap_size = lo_bitmap_size0, lo_pool = tmp_lo_pool,
          lo_poolchunks = sub32 lo_poolchunks0 (of_bool (tmp_lo_pool \<noteq> lo_pool0)),
          mid_bitmap = mid_bitmap0, mid_bitmap_size = mid_bitmap_size0, mid_pool = tmp_mid_pool,
          mid_poolchunks = sub32 mid_poolchunks0 (of_bool (tmp_mid_pool \<noteq> mid_pool0)),
          hi_bitmap = hi_bitmap0, hi_bitmap_size = hi_bitmap_size0, hi_pool = tmp_hi_pool,
          hi_poolchunks = sub32 hi_poolchunks0 (of_bool (tmp_hi_pool \<noteq> hi_pool0))\<rparr>)"

definition gallocator_init_heap :: "memory \<Rightarrow> Heap option \<Rightarrow> memory result outcome" where
  "gallocator_init_heap m heap_opt =
     (case heap_opt of
        None \<Rightarrow> Ret (Inl EINVAL)
      | Some heap \<Rightarrow>
          let heapsize = mul32 (pagespan heap) PAGESIZE;
              metasize = bytes_align_up64 heap_meta_size HI_POOL_CHUNK_SIZE
          in if heapsize \<le> metasize then Ret (Inl ENOMEM)
             else let meta = init_heap_meta heap heapsize metasize
                  in if lo_pool meta mod LO_POOL_CHUNK_SIZE = 0
                        \<and> mid_pool meta mod MID_POOL_CHUNK_SIZE = 0
                        \<and> hi_pool meta mod HI_POOL_CHUNK_SIZE = 0
                     then Ret (Inr (store_heap_meta m (vaddr heap) meta))
                     else Panic)"

definition gallocator_alloc_aligned ::
    "memory \<Rightarrow> nat \<Rightarrow> nat \<Rightarrow> Heap \<Rightarrow> (addr option \<times> memory) outcome option" where
  "gallocator_alloc_aligned m sz alignment heap =
     (let meta = load_heap_meta m (vaddr heap) in
      if hsignature meta \<noteq> HEAP_SIGNATURE then Some (Ret (None, m))
      else gallocator_do_alloc_aligned m sz alignment meta)"

definition gallocator_allocation_size :: "memory \<Rightarrow> addr \<Rightarrow> Heap \<Rightarrow> nat result" where
  "gallocator_allocation_size m a heap =
     (if hsignature (load_heap_meta m (vaddr heap)) \<noteq> HEAP_SIGNATURE then Inl EINVAL
      else let am = load_alloc_meta m (a - alloc_meta_size) in
           if asignature am \<noteq> ALLOCATION_SIGNATURE then Inl EINVAL
           else Inr (asize am))"

definition gallocator_allocation_alignment :: "memory \<Rightarrow> addr \<Rightarrow> Heap \<Rightarrow> nat result" where
  "gallocator_allocation_alignment m a heap =
     (if hsignature (load_heap_meta m (vaddr heap)) \<noteq> HEAP_SIGNATURE then Inl EINVAL
      else let am = load_alloc_meta m (a - alloc_meta_size) in
           if asignature am \<noteq> ALLOCATION_SIGNATURE then Inl EINVAL
           else Inr (aalignment am))"

definition gallocator_is_valid_allocation :: "addr \<Rightarrow> Heap \<Rightarrow> bool" where
  "gallocator_is_valid_allocation a heap = True"

text \<open>The \<open>switch\<close> of \<open>gallocator_free\<close> on the chunk size recorded with the allocation.\<close>

definition free_ctx :: "nat \<Rightarrow> GAllocatorHeapMeta \<Rightarrow> AllocationCtx outcome" where
  "free_ctx cs meta =
     (if cs = LO_POOL_CHUNK_SIZE then Ret (lo_ctx meta)
      else if cs = MID_POOL_CHUNK_SIZE then Ret (mid_ctx meta)
      else if cs = HI_POOL_CHUNK_SIZE then Ret (hi_ctx meta)
      else Panic)"

definition gallocator_free :: "memory \<Rightarrow> addr \<Rightarrow> Heap \<Rightarrow> memory outcome" where
  "gallocator_free m a heap =
     (let meta = load_heap_meta m (vaddr heap) in
      if hsignature meta \<noteq> HEAP_SIGNATURE then Ret m
      else
        let am = load_alloc_meta m (a - alloc_meta_size) in
        if asignature am \<noteq> ALLOCATION_SIGNATURE then Panic
        else
          bind_outcome (free_ctx (achunksize am) meta)
            (\<lambda>alloc.
               let chunks = ceil_ratio (asize am) (achunksize am);
                   alloc1 = addr_to_allocationctx_offset a alloc
               in bind_outcome (gallocator_bitmap_clear_bits m alloc1 chunks) (\<lambda>st.
                    case st of
                      BitsOk m1 \<Rightarrow>
                        Ret (memset m1 (a - alloc_meta_size) 0
                               (add32 (asize (load_alloc_meta m1 (a - alloc_meta_size))) alloc_meta_size))
                    | _ \<Rightarrow> Panic)))"

end
