(* ===== verification/GallocatorSearch.thy ===== *)
theory GallocatorSearch
  imports Gallocator
begin

unbundle bit_operations_syntax

text \<open>
  Correctness of the search and of the bitmap updates of the allocator, for one pool. A context is
  written \<open>ctx_at c i\<close>, the pool of \<open>c\<close> at chunk number \<open>i\<close>; \<open>pool_ok\<close> is what the layout of a heap
  guarantees of a pool. The loops over bytes and bits are shown equal to recursions over chunk
  numbers, the search to a first fit.
\<close>

section \<open>Contexts as chunk numbers\<close>

definition ctx_at :: "AllocationCtx \<Rightarrow> nat \<Rightarrow> AllocationCtx" where
  "ctx_at c i = c\<lparr>cbyte := i div 8, cbit := i mod 8\<rparr>"

definition used :: "memory \<Rightarrow> AllocationCtx \<Rightarrow> nat \<Rightarrow> bool" where
  "used m c i \<longleftrightarrow> bit (m (bitmapstart c + i div 8)) (i mod 8)"

definition chunk_addr :: "AllocationCtx \<Rightarrow> nat \<Rightarrow> addr" where
  "chunk_addr c i = poolstart c + i * chunksize c"

definition pool_ok :: "AllocationCtx \<Rightarrow> bool" where
  "pool_ok c \<longleftrightarrow> chunksize c \<in> {32, 64, 128} \<and> poolchunks c \<le> 8 * bitmapsize c
     \<and> 8 * bitmapsize c * chunksize c < W32
     \<and> 0 < poolstart c \<and> poolstart c + poolchunks c * chunksize c < W32
     \<and> chunksize c dvd poolstart c"

lemma ctx_at_simps [simp]:
  "bitmapstart (ctx_at c i) = bitmapstart c" "bitmapsize (ctx_at c i) = bitmapsize c"
  "poolstart (ctx_at c i) = poolstart c" "poolchunks (ctx_at c i) = poolchunks c"
  "chunksize (ctx_at c i) = chunksize c" "cbyte (ctx_at c i) = i div 8" "cbit (ctx_at c i) = i mod 8"
  "ctx_at (ctx_at c i) j = ctx_at c j"
  by (simp_all add: ctx_at_def)

lemma chunk_addr_at [simp]: "chunk_addr (ctx_at c i) j = chunk_addr c j"
  by (simp add: chunk_addr_def)

lemma used_at [simp]: "used m (ctx_at c i) = used m c"
  by (simp add: used_def fun_eq_iff)

lemma pool_ok_at [simp]: "pool_ok (ctx_at c i) = pool_ok c"
  by (simp add: pool_ok_def)

lemma ctx_eq_at: "cbit c < 8 \<Longrightarrow> c = ctx_at c (cbyte c * 8 + cbit c)"
  by (simp add: ctx_at_def)

lemma ctx_at_next_bit:
  "i mod 8 \<noteq> 7 \<Longrightarrow> (ctx_at c i)\<lparr>cbit := Suc (i mod 8)\<rparr> = ctx_at c (Suc i)"
  by (simp add: ctx_at_def mod_Suc div_Suc)

lemma ctx_at_next_byte:
  "i mod 8 = 7 \<Longrightarrow> (ctx_at c i)\<lparr>cbit := 0, cbyte := Suc (i div 8)\<rparr> = ctx_at c (Suc i)"
  by (simp add: ctx_at_def mod_Suc div_Suc)

lemma ctx_at_plus8: "(ctx_at c i)\<lparr>cbyte := Suc (i div 8)\<rparr> = ctx_at c (i + 8)"
  by (simp add: ctx_at_def)

lemma div8_add:
  assumes "i mod 8 + b < (8::nat)"
  shows "(i + b) div 8 = i div 8" and "(i + b) mod 8 = i mod 8 + b"
proof -
  have e: "i + b = (i mod 8 + b) + i div 8 * 8" by simp
  show "(i + b) div 8 = i div 8" using assms by (subst e, subst div_mult_self1) simp_all
  show "(i + b) mod 8 = i mod 8 + b" using assms by (subst e, subst mod_mult_self1) simp
qed

lemma div8_add_carry:
  assumes "8 \<le> i mod 8 + b" and "b < (8::nat)"
  shows "(i + b) div 8 = Suc (i div 8)" and "(i + b) mod 8 = i mod 8 + b - 8"
proof -
  have e: "i + b = (i mod 8 + b - 8) + Suc (i div 8) * 8" using assms(1) by simp
  have r: "i mod 8 + b - 8 < 8" using assms(2) mod_less_divisor [of 8 i] by linarith
  show "(i + b) div 8 = Suc (i div 8)" using r by (subst e, subst div_mult_self1) simp_all
  show "(i + b) mod 8 = i mod 8 + b - 8" using r by (subst e, subst mod_mult_self1) simp
qed

lemma add_sub_carry:
  assumes "8 \<le> r + b" and "b < 8" and "r < 8"
  shows "add32 r (sub32 b 8) = r + b - 8"
proof -
  have "sub32 b 8 = W32 - (8 - b)" using assms(2) by (simp add: sub32_def)
  moreover have "r + (W32 - (8 - b)) = (r + b - 8) + W32" using assms by simp
  ultimately show ?thesis using assms by (simp only: add32_def mod_add_self2) simp
qed

lemma advance_at:
  "i div 8 + bits div 8 + 1 < W32 \<Longrightarrow>
   allocationctx_advance bits (ctx_at c i) = ctx_at c (i + bits)"
proof (induction bits arbitrary: i rule: less_induct)
  case (less bits)
  show ?case
  proof (cases "bits \<ge> 8")
    case True
    then have b: "bits div 8 = (bits - 8) div 8 + 1" by (simp add: le_div_geq)
    have "add32 (i div 8) 1 = i div 8 + 1"
      using less.prems by (intro add32_exact) simp
    then have "allocationctx_advance bits (ctx_at c i) = allocationctx_advance (bits - 8) (ctx_at c (i + 8))"
      using True by (subst allocationctx_advance.simps) (simp add: ctx_at_plus8)
    also have "\<dots> = ctx_at c (i + 8 + (bits - 8))"
      using True less.prems b by (intro less.IH) simp_all
    finally show ?thesis using True by simp
  next
    case False
    show ?thesis
    proof (cases "i mod 8 + bits \<ge> 8")
      case True
      have "add32 (i div 8) 1 = i div 8 + 1"
        using less.prems by (intro add32_exact) simp
      moreover note div8_add_carry [OF True] add_sub_carry [OF True]
      ultimately show ?thesis using False True
        by (subst allocationctx_advance.simps) (simp add: ctx_at_def)
    next
      case nle: False
      then show ?thesis using False nle div8_add [of i bits]
        by (subst allocationctx_advance.simps) (simp add: ctx_at_def)
    qed
  qed
qed

lemma offset_at:
  assumes "i * chunksize c < W32"
  shows "allocationctx_to_offset (ctx_at c i) = i * chunksize c"
proof -
  have e: "i div 8 * 8 * chunksize c + i mod 8 * chunksize c = i * chunksize c"
    by (metis add_mult_distrib div_mult_mod_eq)
  have "add32 (mul32 (mul32 (i div 8) 8) (chunksize c)) (mul32 (i mod 8) (chunksize c))
      = (i div 8 * 8 * chunksize c + i mod 8 * chunksize c) mod W32"
    by (simp add: add32_def mul32_def mod_mult_left_eq mod_add_eq mod_simps)
  then show ?thesis using assms e by (simp add: allocationctx_to_offset_def)
qed

lemma pool_okD:
  assumes "pool_ok c"
  shows "0 < chunksize c" "32 \<le> chunksize c" "poolchunks c \<le> 8 * bitmapsize c"
    "i \<le> 8 * bitmapsize c \<Longrightarrow> i * chunksize c < W32" "poolchunks c * chunksize c < W32"
    "i \<le> 8 * bitmapsize c \<Longrightarrow> i < 134217728"
proof -
  show c: "0 < chunksize c" "32 \<le> chunksize c" "poolchunks c \<le> 8 * bitmapsize c"
    "poolchunks c * chunksize c < W32"
    using assms by (auto simp: pool_ok_def)
  show i: "i * chunksize c < W32" if "i \<le> 8 * bitmapsize c" for i
  proof -
    have "i * chunksize c \<le> 8 * bitmapsize c * chunksize c" using that by (rule mult_le_mono1)
    also have "\<dots> < W32" using assms unfolding pool_ok_def by blast
    finally show ?thesis .
  qed
  show "i < 134217728" if "i \<le> 8 * bitmapsize c"
  proof -
    have "i * 32 \<le> i * chunksize c" using c(2) by (rule mult_le_mono2)
    then show ?thesis using i [OF that] by linarith
  qed
qed

lemma inside_at:
  assumes "pool_ok c" and "i \<le> 8 * bitmapsize c"
  shows "is_allocationctx_inside_pool (ctx_at c i) \<longleftrightarrow> i < poolchunks c"
  using assms offset_at [OF pool_okD(4) [OF assms]] pool_okD(1,5) [OF assms(1)]
  by (simp add: is_allocationctx_inside_pool_def mul32_exact)

lemma check_bit_at: "check_bit m (ctx_at c i) \<longleftrightarrow> used m c i"
  by (simp add: check_bit_def used_def and_exp_eq_0_iff_not_bit)

lemma prev_ctx_at: "0 < i \<Longrightarrow> prev_ctx (ctx_at c i) = ctx_at c (i - 1)"
  by (cases i) (auto simp: prev_ctx_def ctx_at_def mod_Suc div_Suc)

lemma addr_to_ctx_at:
  assumes "pool_ok c" and "a \<le> W32" and "a = chunk_addr c i"
  shows "addr_to_allocationctx_offset (a mod W32) c = ctx_at c i"
proof -
  have p: "0 < poolstart c" "poolstart c < W32" "0 < chunksize c"
    using assms(1) by (auto simp: pool_ok_def)
  have "sub32 (a mod W32) (poolstart c) = i * chunksize c"
  proof (cases "a < W32")
    case True
    then show ?thesis using assms(3) p by (simp add: sub32_exact chunk_addr_def)
  next
    case False
    then have "a = W32" using assms(2) by simp
    then have "i * chunksize c = W32 - poolstart c" using assms(3) by (simp add: chunk_addr_def)
    then show ?thesis using \<open>a = W32\<close> p by (simp add: sub32_def)
  qed
  then show ?thesis using p
    by (simp add: addr_to_allocationctx_offset_def Let_def ctx_at_def minus_div_mult_eq_mod)
qed

section \<open>Runs of free chunks\<close>

primrec free_run :: "memory \<Rightarrow> AllocationCtx \<Rightarrow> nat \<Rightarrow> nat \<Rightarrow> nat" where
  "free_run m c i 0 = 0"
| "free_run m c i (Suc k) =
     (if i < poolchunks c \<and> \<not> used m c i then Suc (free_run m c (Suc i) k) else 0)"

lemma has_n_outer_past_end:
  assumes "pool_ok c" and "poolchunks c \<le> i"
  shows "has_n_outer m n (ctx_at c i) f = f"
  using assms(2)
proof (induction "bitmapsize c - i div 8" arbitrary: i rule: less_induct)
  case less
  show ?case
  proof (cases "i div 8 < bitmapsize c")
    case True
    then have "\<not> is_allocationctx_inside_pool (ctx_at c i)"
      using inside_at [OF assms(1), of i] less.prems by (simp add: div_less_iff_less_mult)
    then have "has_n_outer m n (ctx_at c i) f = has_n_outer m n (ctx_at c (i + 8)) f"
      using True
      by (subst has_n_outer.simps) (simp add: has_n_inner.simps [of _ _ "ctx_at c i"] ctx_at_plus8)
    also have "\<dots> = f" using less.prems True by (intro less.hyps) auto
    finally show ?thesis .
  next
    case False
    then show ?thesis by (subst has_n_outer.simps) simp
  qed
qed

lemma has_n_outer_step:
  assumes "pool_ok c" and "i < poolchunks c"
  shows "has_n_outer m n (ctx_at c i) f =
    (if used m c i then f else if f + 1 = n then f + 1 else has_n_outer m n (ctx_at c (i + 1)) (f + 1))"
proof -
  have b: "i div 8 < bitmapsize c" "i \<le> 8 * bitmapsize c"
    using assms pool_okD(3) [OF assms(1)] by (auto simp: div_less_iff_less_mult)
  have ins: "is_allocationctx_inside_pool (ctx_at c i)"
    using inside_at [OF assms(1) b(2)] assms(2) by simp
  note unf = has_n_outer.simps [of m n "ctx_at c i"] has_n_inner.simps [of _ _ "ctx_at c i"]
  show ?thesis
  proof (cases "used m c i \<or> f + 1 = n")
    case True
    then show ?thesis using b ins by (auto simp: unf used_def and_exp_eq_0_iff_not_bit)
  next
    case False
    show ?thesis
    proof (cases "i mod 8 = 7")
      case True
      then have "7 \<le> i mod 8" by simp
      then show ?thesis using b ins False ctx_at_next_byte [OF True, of c]
        by (auto simp: unf used_def and_exp_eq_0_iff_not_bit)
    next
      case nlast: False
      then have "\<not> 7 \<le> i mod 8" "(i + 1) div 8 = i div 8" by presburger+
      then show ?thesis using b ins False ctx_at_next_bit [OF nlast, of c]
        by (auto simp: unf used_def and_exp_eq_0_iff_not_bit has_n_outer.simps [of m n "ctx_at c (Suc i)"])
    qed
  qed
qed

lemma has_n_outer_eq:
  assumes "pool_ok c" and "f < n"
  shows "has_n_outer m n (ctx_at c i) f = f + free_run m c i (n - f)"
  using assms(2)
proof (induction "n - f" arbitrary: i f)
  case 0
  then show ?case by simp
next
  case (Suc k)
  then have nf: "n - f = Suc (n - (f + 1))" by simp
  show ?case
  proof (cases "i < poolchunks c")
    case True
    show ?thesis
      using Suc has_n_outer_step [OF assms(1) True, of m n f] True
      by (cases "f + 1 = n") (auto simp: nf)
  next
    case False
    then show ?thesis using has_n_outer_past_end [OF assms(1)] by (simp add: nf)
  qed
qed

lemma free_run_le: "free_run m c i n \<le> n"
  by (induction n arbitrary: i) auto

lemma free_run_free: "j < free_run m c i n \<Longrightarrow> i + j < poolchunks c \<and> \<not> used m c (i + j)"
proof (induction n arbitrary: i j)
  case (Suc n)
  then show ?case using Suc.IH [of "j - 1" "Suc i"] by (cases j) (auto split: if_splits)
qed simp

lemma free_run_stop:
  "free_run m c i n < n \<Longrightarrow> poolchunks c \<le> i + free_run m c i n \<or> used m c (i + free_run m c i n)"
proof (induction n arbitrary: i)
  case (Suc n)
  then show ?case using Suc.IH [of "Suc i"] by (auto split: if_splits)
qed simp

lemma has_n_contiguous_bits_at:
  assumes "pool_ok c" and "i < poolchunks c" and "\<not> used m c i" and "0 < n"
  shows "gallocator_has_n_contiguous_bits m (ctx_at c i) n = Ret (free_run m c i n)"
    and "0 < free_run m c i n"
proof -
  show p: "0 < free_run m c i n" using assms by (cases n) auto
  have "is_allocationctx_inside_pool (ctx_at c i)"
    using assms pool_okD(3) [OF assms(1)] inside_at [OF assms(1)] by simp
  then show "gallocator_has_n_contiguous_bits m (ctx_at c i) n = Ret (free_run m c i n)"
    using p assms by (simp add: gallocator_has_n_contiguous_bits_def has_n_outer_eq Let_def)
qed


section \<open>Marking and clearing\<close>

definition mark :: "(nat \<Rightarrow> u8 \<Rightarrow> u8) \<Rightarrow> memory \<Rightarrow> AllocationCtx \<Rightarrow> nat \<Rightarrow> memory" where
  "mark upd m c i =
     (let p = bitmapstart c + i div 8 in m(p := upd (i mod 8) (m p)))"

primrec mark_range :: "(nat \<Rightarrow> u8 \<Rightarrow> u8) \<Rightarrow> memory \<Rightarrow> AllocationCtx \<Rightarrow> nat \<Rightarrow> nat \<Rightarrow> memory" where
  "mark_range upd m c i 0 = m"
| "mark_range upd m c i (Suc n) = mark_range upd (mark upd m c i) c (Suc i) n"

lemma mark_at [simp]: "mark upd m (ctx_at c i) = mark upd m c"
  by (simp add: mark_def fun_eq_iff)

lemma bits_outer_step:
  assumes "pool_ok c" and "i < poolchunks c" and "0 < bits" and "bits < W32"
  shows "bits_outer upd m (ctx_at c i) bits =
    (if bits = 1 then Ret (mark upd m c i)
     else bits_outer upd (mark upd m c i) (ctx_at c (Suc i)) (bits - 1))"
proof -
  have b: "i div 8 < bitmapsize c" "i \<le> 8 * bitmapsize c"
    using assms pool_okD(3) [OF assms(1)] by (auto simp: div_less_iff_less_mult)
  have ins: "is_allocationctx_inside_pool (ctx_at c i)"
    using inside_at [OF assms(1) b(2)] assms(2) by simp
  have s: "sub32 bits 1 = bits - 1" using assms by (intro sub32_exact) simp_all
  note unf = bits_outer.simps [of upd m "ctx_at c i"] bits_inner.simps [of upd m "ctx_at c i"]
  show ?thesis
  proof (cases "bits = 1")
    case True
    then show ?thesis using b ins s by (auto simp: unf mark_def Let_def)
  next
    case False
    show ?thesis
    proof (cases "i mod 8 = 7")
      case True
      then have "7 \<le> i mod 8" by simp
      then show ?thesis using b ins False s assms(3) ctx_at_next_byte [OF True, of c]
        by (auto simp: unf mark_def Let_def)
    next
      case nlast: False
      then have "\<not> 7 \<le> i mod 8" "Suc i div 8 = i div 8" by presburger+
      then show ?thesis using b ins False s assms(3) ctx_at_next_bit [OF nlast, of c]
        by (auto simp: unf mark_def Let_def bits_outer.simps [of upd _ "ctx_at c (Suc i)"])
    qed
  qed
qed

lemma bits_outer_eq:
  assumes "pool_ok c"
  shows "0 < bits \<Longrightarrow> i + bits \<le> poolchunks c \<Longrightarrow>
    bits_outer upd m (ctx_at c i) bits = Ret (mark_range upd m c i bits)"
proof (induction bits arbitrary: i m)
  case (Suc bits)
  then have "i < poolchunks c" "Suc bits < W32"
    using pool_okD(3) [OF assms] pool_okD(6) [OF assms, of "Suc bits"] by simp_all
  then show ?case using Suc bits_outer_step [OF assms, of i "Suc bits" upd m]
    by (cases "bits = 0") simp_all
qed simp

lemma bitmap_update_at:
  assumes "pool_ok c" and "0 < i" and "0 < bits" and "i + bits \<le> poolchunks c"
  shows "gallocator_bitmap_update upd m (ctx_at c i) bits =
    Ret (if i + bits < poolchunks c then BitsOk (mark_range upd m c (i - 1) (Suc bits)) else BitsInval)"
proof -
  note le = pool_okD(3) [OF assms(1)]
  have ins: "is_allocationctx_inside_pool (ctx_at c i)"
    using inside_at [OF assms(1), of i] assms le by simp
  have "i + bits < 134217728" using pool_okD(6) [OF assms(1), of "i + bits"] assms(4) le by simp
  then have adv: "allocationctx_advance bits (ctx_at c i) = ctx_at c (i + bits)"
    by (intro advance_at) linarith
  have ins2: "is_allocationctx_inside_pool (ctx_at c (i + bits)) \<longleftrightarrow> i + bits < poolchunks c"
    using inside_at [OF assms(1), of "i + bits"] assms le by simp
  obtain j where j: "i = Suc j" using assms(2) by (cases i) auto
  have meta: "(if cbit (ctx_at c i) = 0
       then let p = bitmapstart (ctx_at c i) + (cbyte (ctx_at c i) - 1) in m(p := upd 7 (m p))
       else let p = bitmapstart (ctx_at c i) + cbyte (ctx_at c i)
            in m(p := upd (cbit (ctx_at c i) - 1) (m p))) = mark upd m c (i - 1)"
    by (auto simp: j mark_def mod_Suc div_Suc Let_def)
  have nz: "\<not> (cbit (ctx_at c i) = 0 \<and> cbyte (ctx_at c i) = 0)"
    using assms(2) div_mult_mod_eq [of i 8] by auto
  have "mark_range upd m c (i - 1) (Suc bits) = mark_range upd (mark upd m c (i - 1)) c i bits"
    using assms(2) by simp
  then show ?thesis
    unfolding gallocator_bitmap_update_def meta adv
    using ins ins2 nz bits_outer_eq [OF assms(1,3,4)] by (auto simp: Let_def)
qed

lemma used_mark_set: "used (mark set_bit_in m c i) c j \<longleftrightarrow> used m c j \<or> j = i"
proof -
  have "j = i" if "j div 8 = i div 8" "j mod 8 = i mod 8"
    using that by (metis div_mult_mod_eq)
  then show ?thesis
    by (auto simp: mark_def used_def Let_def set_bit_in_def bit_simps)
qed

lemma used_mark_clear: "used (mark clear_bit_in m c i) c j \<longleftrightarrow> used m c j \<and> j \<noteq> i"
proof -
  have "j = i" if "j div 8 = i div 8" "j mod 8 = i mod 8"
    using that by (metis div_mult_mod_eq)
  then show ?thesis
    by (auto simp: mark_def used_def Let_def clear_bit_in_def bit_simps)
qed

lemma used_mark_range_set:
  "used (mark_range set_bit_in m c i n) c j \<longleftrightarrow> used m c j \<or> i \<le> j \<and> j < i + n"
  by (induction n arbitrary: i m) (auto simp: used_mark_set)

lemma used_mark_range_clear:
  "used (mark_range clear_bit_in m c i n) c j \<longleftrightarrow> used m c j \<and> \<not> (i \<le> j \<and> j < i + n)"
  by (induction n arbitrary: i m) (auto simp: used_mark_clear)

lemma mark_range_outside:
  "i + n \<le> 8 * k \<Longrightarrow> x < bitmapstart c \<or> bitmapstart c + k \<le> x \<Longrightarrow> mark_range upd m c i n x = m x"
proof (induction n arbitrary: i m)
  case (Suc n)
  then have "bitmapstart c + i div 8 \<noteq> x" by auto
  then have "mark upd m c i x = m x" by (simp add: mark_def Let_def)
  then show ?case using Suc by simp
qed simp

section \<open>The search is a first fit\<close>

definition aligned_at :: "nat \<Rightarrow> AllocationCtx \<Rightarrow> nat \<Rightarrow> bool" where
  "aligned_at al c i \<longleftrightarrow> al dvd chunk_addr c i"

text \<open>A chunk can start an allocation when it is aligned and it and its predecessor are free.\<close>

definition startable :: "memory \<Rightarrow> AllocationCtx \<Rightarrow> nat \<Rightarrow> nat \<Rightarrow> bool" where
  "startable m c al i \<longleftrightarrow> 0 < i \<and> i < poolchunks c \<and> aligned_at al c i \<and> \<not> used m c i \<and> \<not> used m c (i - 1)"

text \<open>An allocation of \<open>n\<close> chunks fits at chunk \<open>i\<close>.\<close>

definition fits :: "memory \<Rightarrow> AllocationCtx \<Rightarrow> nat \<Rightarrow> nat \<Rightarrow> nat \<Rightarrow> bool" where
  "fits m c al n i \<longleftrightarrow> 0 < i \<and> i + n \<le> poolchunks c \<and> aligned_at al c i
     \<and> (\<forall>j \<in> {i - 1 ..< i + n}. \<not> used m c j)"

definition least_from :: "nat \<Rightarrow> (nat \<Rightarrow> bool) \<Rightarrow> bool \<Rightarrow> nat \<Rightarrow> bool" where
  "least_from i P found j \<longleftrightarrow>
     (if found then P j \<and> i \<le> j \<and> (\<forall>k. i \<le> k \<and> k < j \<longrightarrow> \<not> P k) else (\<forall>k \<ge> i. \<not> P k))"

lemma least_from_skip:
  assumes "least_from i' P b j" and "i \<le> i'" and "\<And>k. i \<le> k \<Longrightarrow> k < i' \<Longrightarrow> \<not> P k"
  shows "least_from i P b j"
  using assms unfolding least_from_def by (metis (full_types) le_trans linorder_not_le)

lemma ceil_ratio_pow2:
  assumes "al = 2 ^ k" and "pool_ok c"
  shows "0 < ceil_ratio al (chunksize c)"
    and "al dvd ceil_ratio al (chunksize c) * chunksize c"
    and "al < chunksize c \<and> al dvd chunksize c \<and> ceil_ratio al (chunksize c) = 1
      \<or> chunksize c dvd al \<and> ceil_ratio al (chunksize c) * chunksize c = al"
proof -
  have "\<exists>e. chunksize c = 2 ^ e"
    using assms(2) by (auto simp: pool_ok_def intro: exI [of _ 5] exI [of _ 6] exI [of _ 7])
  then obtain e where e: "chunksize c = 2 ^ e" ..
  show r: "al < chunksize c \<and> al dvd chunksize c \<and> ceil_ratio al (chunksize c) = 1
      \<or> chunksize c dvd al \<and> ceil_ratio al (chunksize c) * chunksize c = al"
  proof (cases "k < e")
    case True
    then have "al < chunksize c" "al dvd chunksize c"
      using assms(1) e by (auto simp: le_imp_power_dvd)
    moreover have "0 < al" using assms(1) by simp
    ultimately show ?thesis by (simp add: ceil_ratio_def)
  next
    case False
    then have "chunksize c dvd al" using assms(1) e by (auto simp: le_imp_power_dvd)
    then show ?thesis by (auto simp: ceil_ratio_def)
  qed
  then show "al dvd ceil_ratio al (chunksize c) * chunksize c" by auto
  have "0 < al" using assms(1) by simp
  with r show "0 < ceil_ratio al (chunksize c)" by (metis gr0I mult_0 zero_less_one)
qed

lemma next_aligned:
  assumes "al = 2 ^ k" and "pool_ok c" and "aligned_at al c i"
  shows "aligned_at al c (i + ceil_ratio al (chunksize c))"
    and "i < j \<Longrightarrow> j < i + ceil_ratio al (chunksize c) \<Longrightarrow> \<not> aligned_at al c j"
proof -
  note r = ceil_ratio_pow2 [OF assms(1,2)]
  let ?s = "ceil_ratio al (chunksize c)"
  have "chunk_addr c (i + ?s) = chunk_addr c i + ?s * chunksize c"
    by (simp add: chunk_addr_def add_mult_distrib)
  then show "aligned_at al c (i + ?s)"
    using assms(3) r(2) by (simp add: aligned_at_def)
  assume j: "i < j" "j < i + ?s"
  show "\<not> aligned_at al c j"
  proof
    assume "aligned_at al c j"
    moreover have "chunk_addr c j = chunk_addr c i + (j - i) * chunksize c"
      using j(1) by (simp add: chunk_addr_def add_mult_distrib [symmetric])
    ultimately have d: "al dvd (j - i) * chunksize c"
      using assms(3) by (simp add: aligned_at_def dvd_add_right_iff)
    from r(3) j have "?s * chunksize c = al" by auto
    moreover have "(j - i) * chunksize c < ?s * chunksize c"
      using j pool_okD(1) [OF assms(2)] by simp
    moreover have "0 < (j - i) * chunksize c" using j pool_okD(1) [OF assms(2)] by simp
    ultimately show False using d by (metis nat_dvd_not_less)
  qed
qed


lemma find_start_loop_at:
  assumes "pool_ok c" and "al = 2 ^ k" and "al < W32" and "aligned_at al c i"
  shows "\<exists>b j. find_start_loop m al (ctx_at c i) = Some (b, ctx_at c j)
    \<and> least_from i (startable m c al) b j"
  using assms(4)
proof (induction "poolchunks c - i" arbitrary: i rule: less_induct)
  case less
  let ?s = "ceil_ratio al (chunksize c)"
  have guard: "i div 8 < bitmapsize c \<and> is_allocationctx_inside_pool (ctx_at c i) \<longleftrightarrow> i < poolchunks c"
    using inside_at [OF assms(1), of i] pool_okD(3) [OF assms(1)]
    by (auto simp: div_less_iff_less_mult)
  consider "\<not> i < poolchunks c" | "startable m c al i" | "i < poolchunks c" "\<not> startable m c al i"
    by blast
  then show ?case
  proof cases
    case 1
    then have "find_start_loop m al (ctx_at c i) = Some (False, ctx_at c i)"
      using guard by (subst find_start_loop.simps, subst if_not_P) auto
    moreover have "least_from i (startable m c al) False i"
      using 1 by (auto simp: least_from_def startable_def)
    ultimately show ?thesis by blast
  next
    case 2
    then have "0 < i" "i < poolchunks c" by (auto simp: startable_def)
    moreover have "\<not> (i mod 8 = 0 \<and> i div 8 = 0)"
      using \<open>0 < i\<close> div_mult_mod_eq [of i 8] by auto
    ultimately have "find_start_loop m al (ctx_at c i) = Some (True, ctx_at c i)"
      using guard 2
      by (subst find_start_loop.simps) (simp add: check_bit_at prev_ctx_at startable_def)
    moreover have "least_from i (startable m c al) True i"
      using 2 by (auto simp: least_from_def)
    ultimately show ?thesis by blast
  next
    case 3
    have "i < 134217728" using pool_okD(3) [OF assms(1)] pool_okD(6) [OF assms(1), of i] 3(1) by simp
    moreover have "?s \<le> al"
    proof -
      have "?s \<le> ?s * chunksize c" using pool_okD(1) [OF assms(1)] by simp
      moreover have "1 \<le> al" using assms(2) by simp
      ultimately show ?thesis using ceil_ratio_pow2(3) [OF assms(2,1)] by auto
    qed
    ultimately have adv: "allocationctx_advance ?s (ctx_at c i) = ctx_at c (i + ?s)"
      using assms(3) by (intro advance_at) linarith
    have bad: "\<not> (\<not> (i mod 8 = 0 \<and> i div 8 = 0) \<and>
        of_bool (check_bit m (ctx_at c i)) + of_bool (check_bit m (prev_ctx (ctx_at c i))) = (0 :: int))"
    proof (cases "i = 0")
      case False
      then show ?thesis using 3 less.prems
        by (auto simp: check_bit_at prev_ctx_at startable_def)
    qed simp
    have eq: "find_start_loop m al (ctx_at c i) = find_start_loop m al (ctx_at c (i + ?s))"
      using guard 3(1) bad adv by (subst find_start_loop.simps, subst if_P, simp, subst if_not_P) auto
    have pos: "0 < ?s" by (rule ceil_ratio_pow2(1) [OF assms(2,1)])
    have shrink: "poolchunks c - (i + ?s) < poolchunks c - i" using 3(1) pos by linarith
    obtain b j where bj: "find_start_loop m al (ctx_at c (i + ?s)) = Some (b, ctx_at c j)"
      "least_from (i + ?s) (startable m c al) b j"
      using less.hyps [OF shrink next_aligned(1) [OF assms(2,1) less.prems]] by blast
    have "\<not> startable m c al k'" if "i \<le> k'" "k' < i + ?s" for k'
      using that 3(2) next_aligned(2) [OF assms(2,1) less.prems]
      by (cases "k' = i") (auto simp: startable_def)
    then have "least_from i (startable m c al) b j"
      by (intro least_from_skip [OF bj(2)]) simp_all
    then show ?thesis using eq bj(1) by auto
  qed
qed

lemma pow2_dvd_W32: "al = 2 ^ k \<Longrightarrow> al < W32 \<Longrightarrow> al dvd (W32 :: nat)"
proof -
  assume al: "al = 2 ^ k" "al < W32"
  then have "(2::nat) ^ k < 2 ^ 32" by simp
  then have "k < 32" by (rule power_less_imp_less_exp [rotated]) simp
  then have "(2::nat) ^ k dvd 2 ^ 32" by (intro le_imp_power_dvd) simp
  then show ?thesis using al by simp
qed

lemma find_start_aligned_at:
  assumes "pool_ok c" and "al = 2 ^ k" and "al < W32" and "i \<le> poolchunks c"
  shows "\<exists>b j. gallocator_find_start_aligned m al (ctx_at c i) = Some (Ret (b, ctx_at c j))
    \<and> least_from i (startable m c al) b j"
proof -
  have le: "i * chunksize c \<le> poolchunks c * chunksize c" using assms(4) by simp
  have off: "allocationctx_to_offset (ctx_at c i) = i * chunksize c"
    using assms(1,4) pool_okD(3,4) by (intro offset_at) (metis le_trans)
  have a: "add32 (poolstart c) (i * chunksize c) = chunk_addr c i"
    using assms(1) le by (auto simp: chunk_addr_def pool_ok_def intro!: add32_exact)
  have small: "chunk_addr c i < W32"
    using assms(1) le unfolding chunk_addr_def pool_ok_def by linarith
  have pos: "0 < al" using assms(2) by simp
  show ?thesis
  proof (cases "chunk_addr c i mod al = 0")
    case True
    then have "aligned_at al c i" by (simp add: aligned_at_def mod_eq_0_iff_dvd)
    then obtain b j where "find_start_loop m al (ctx_at c i) = Some (b, ctx_at c j)"
      "least_from i (startable m c al) b j"
      using find_start_loop_at [OF assms(1,2,3)] by blast
    then show ?thesis using True by (auto simp: gallocator_find_start_aligned_def off a)
  next
    case False
    let ?u = "bytes_align_up64 (chunk_addr c i) al"
    have "chunk_addr c i + al \<le> W64" using small assms(3) by simp
    note up = bytes_align_up64_props [OF pos this]
    have w: "al dvd W32" by (rule pow2_dvd_W32 [OF assms(2,3)])
    have uW: "?u \<le> W32" using up(4) [OF w] small by simp
    from ceil_ratio_pow2(3) [OF assms(2,1)] have dv: "chunksize c dvd al"
    proof
      assume "al < chunksize c \<and> al dvd chunksize c \<and> ceil_ratio al (chunksize c) = 1"
      then have "al dvd chunk_addr c i"
        using assms(1) by (auto simp: chunk_addr_def pool_ok_def intro: dvd_trans)
      then show ?thesis using False by (simp add: mod_eq_0_iff_dvd)
    qed blast
    then have "chunksize c dvd ?u - poolstart c"
      using up(1) assms(1) by (auto simp: pool_ok_def intro!: dvd_diff_nat dest: dvd_trans)
    moreover have ge: "chunk_addr c i \<le> ?u" by (rule up(2))
    ultimately obtain j where j: "?u = chunk_addr c j"
      by (auto simp: chunk_addr_def elim!: dvdE) (metis add_leD1 le_add_diff_inverse mult.commute)
    have ij: "i \<le> j"
      using ge pool_okD(1) [OF assms(1)] unfolding j by (simp add: chunk_addr_def)
    have alj: "aligned_at al c j" using up(1) by (simp add: aligned_at_def j)
    have "?u mod W32 mod al = 0"
      using up(1) w by (simp add: mod_mod_cancel mod_eq_0_iff_dvd)
    moreover have "addr_to_allocationctx_offset (?u mod W32) (ctx_at c i) = ctx_at c j"
      using addr_to_ctx_at [of "ctx_at c i" ?u j] assms(1) uW j by simp
    moreover obtain b j' where l: "find_start_loop m al (ctx_at c j) = Some (b, ctx_at c j')"
      "least_from j (startable m c al) b j'"
      using find_start_loop_at [OF assms(1,2,3) alj] by blast
    moreover have "\<not> startable m c al k'" if "i \<le> k'" "k' < j" for k'
    proof
      assume "startable m c al k'"
      then have "al dvd chunk_addr c k'" by (simp add: startable_def aligned_at_def)
      moreover have "chunk_addr c i \<le> chunk_addr c k'" using that(1) by (simp add: chunk_addr_def)
      ultimately have "?u \<le> chunk_addr c k'" by (rule up(4))
      then show False using that(2) pool_okD(1) [OF assms(1)] unfolding j by (simp add: chunk_addr_def)
    qed
    ultimately show ?thesis using False least_from_skip [OF l(2) ij]
      by (auto simp: gallocator_find_start_aligned_def off a Let_def)
  qed
qed

lemma fits_startable: "fits m c al n i \<Longrightarrow> 0 < n \<Longrightarrow> startable m c al i"
  by (auto simp: fits_def startable_def)

lemma fits_free_run:
  "fits m c al n i \<longleftrightarrow> startable m c al i \<and> free_run m c i n = n" if "0 < n"
proof
  assume f: "fits m c al n i"
  have "\<not> free_run m c i n < n"
    using free_run_stop [of m c i n] f by (auto simp: fits_def)
  then show "startable m c al i \<and> free_run m c i n = n"
    using fits_startable [OF f that] free_run_le [of m c i n] by auto
next
  assume s: "startable m c al i \<and> free_run m c i n = n"
  then have fr: "i + j < poolchunks c \<and> \<not> used m c (i + j)" if "j < n" for j
    using free_run_free [of j m c i n] that by simp
  have "\<not> used m c j" if "j \<in> {i - 1 ..< i + n}" for j
  proof (cases "j < i")
    case True
    then have "j = i - 1" using that by auto
    then show ?thesis using s by (simp add: startable_def)
  next
    case False
    then have "j - i < n" using that by auto
    then show ?thesis using fr [of "j - i"] False by simp
  qed
  moreover have "i + n \<le> poolchunks c" using fr [of "n - 1"] \<open>0 < n\<close> by linarith
  ultimately show "fits m c al n i" using s by (auto simp: fits_def startable_def)
qed

lemma alloc_search_at:
  assumes "pool_ok c" and "al = 2 ^ k" and "al < W32" and "0 < n" and "i \<le> poolchunks c"
  shows "\<exists>b j. alloc_search m al n (ctx_at c i) = Some (Ret (b, ctx_at c j))
    \<and> least_from i (fits m c al n) b j"
  using assms(5)
proof (induction "poolchunks c - i" arbitrary: i rule: less_induct)
  case less
  obtain b j where f: "gallocator_find_start_aligned m al (ctx_at c i) = Some (Ret (b, ctx_at c j))"
    and l: "least_from i (startable m c al) b j"
    using find_start_aligned_at [OF assms(1,2,3) less.prems] by blast
  show ?case
  proof (cases b)
    case False
    then have "alloc_search m al n (ctx_at c i) = Some (Ret (False, ctx_at c j))"
      using f by (subst alloc_search.simps) simp
    moreover have "least_from i (fits m c al n) False j"
      using l False fits_startable [OF _ assms(4)] by (auto simp: least_from_def)
    ultimately show ?thesis by blast
  next
    case True
    then have j: "startable m c al j" "i \<le> j" "\<And>k. i \<le> k \<Longrightarrow> k < j \<Longrightarrow> \<not> fits m c al n k"
      using l fits_startable [OF _ assms(4)] by (auto simp: least_from_def)
    then have jf: "j < poolchunks c" "\<not> used m c j" by (auto simp: startable_def)
    note has = has_n_contiguous_bits_at [OF assms(1) jf assms(4)]
    show ?thesis
    proof (cases "free_run m c j n = n")
      case full: True
      then have "alloc_search m al n (ctx_at c i) = Some (Ret (True, ctx_at c j))"
        using f True has by (subst alloc_search.simps) simp
      moreover have "least_from i (fits m c al n) True j"
        using j full fits_free_run [OF assms(4)] by (auto simp: least_from_def)
      ultimately show ?thesis by blast
    next
      case part: False
      let ?r = "free_run m c j n"
      have lt: "?r < n" using part free_run_le [of m c j n] by simp
      then have "n \<noteq> 1" using has(2) by simp
      have end_le: "j + ?r \<le> poolchunks c"
        using free_run_free [of "?r - 1" m c j n] has(2) by linarith
      then have "j + ?r < 134217729"
        using pool_okD(3) [OF assms(1)] pool_okD(6) [OF assms(1), of "j + ?r"] by simp
      then have adv: "allocationctx_advance ?r (ctx_at c j) = ctx_at c (j + ?r)"
        by (intro advance_at) linarith
      have eq: "alloc_search m al n (ctx_at c i) = alloc_search m al n (ctx_at c (j + ?r))"
        using f True has part \<open>n \<noteq> 1\<close> adv by (subst alloc_search.simps) simp
      obtain b' j' where r: "alloc_search m al n (ctx_at c (j + ?r)) = Some (Ret (b', ctx_at c j'))"
        "least_from (j + ?r) (fits m c al n) b' j'"
        using less.hyps [of "j + ?r"] jf(1) j(2) has(2) end_le by fastforce
      have "\<not> fits m c al n k'" if "i \<le> k'" "k' < j + ?r" for k'
      proof (cases "k' < j")
        case True
        then show ?thesis using j(3) that by simp
      next
        case False
        show ?thesis using free_run_stop [OF lt] that False lt by (auto simp: fits_def)
      qed
      then have "least_from i (fits m c al n) b' j'"
        using j(2) by (intro least_from_skip [OF r(2)]) auto
      then show ?thesis using eq r(1) by auto
    qed
  qed
qed

end
