(* ===== verification/GallocatorHeap.thy ===== *)
theory GallocatorHeap
  imports GallocatorSearch
begin

text \<open>
  The heap invariant of the allocator and the contract of its operations. A map \<open>live\<close> from
  addresses to sizes and alignments is the abstract state: the allocations not yet freed. The
  invariant ties it to the bytes: the heap metadata describes disjoint bitmaps and pools, every live
  allocation has its metadata in front of it and its own chunks, and a chunk is marked in a bitmap
  exactly when it belongs to a live allocation.
\<close>

type_synonym live_map = "addr \<rightharpoonup> nat \<times> nat"

section \<open>Layout of a heap\<close>

definition heap_end :: "Heap \<Rightarrow> addr" where
  "heap_end heap = vaddr heap + pagespan heap * PAGESIZE"

definition heap_layout :: "Heap \<Rightarrow> GAllocatorHeapMeta \<Rightarrow> bool" where
  "heap_layout heap meta \<longleftrightarrow>
     pool_ok (lo_ctx meta) \<and> pool_ok (mid_ctx meta) \<and> pool_ok (hi_ctx meta)
     \<and> vaddr heap + heap_meta_size \<le> lo_bitmap meta
     \<and> lo_bitmap meta + lo_bitmap_size meta \<le> mid_bitmap meta
     \<and> mid_bitmap meta + mid_bitmap_size meta \<le> hi_bitmap meta
     \<and> hi_bitmap meta + hi_bitmap_size meta \<le> hi_pool meta
     \<and> hi_pool meta + hi_poolchunks meta * HI_POOL_CHUNK_SIZE \<le> mid_pool meta
     \<and> mid_pool meta + mid_poolchunks meta * MID_POOL_CHUNK_SIZE \<le> lo_pool meta
     \<and> lo_pool meta + lo_poolchunks meta * LO_POOL_CHUNK_SIZE \<le> heap_end heap"

definition pools :: "GAllocatorHeapMeta \<Rightarrow> AllocationCtx set" where
  "pools meta = {lo_ctx meta, mid_ctx meta, hi_ctx meta}"

definition pool_end :: "AllocationCtx \<Rightarrow> addr" where
  "pool_end c = chunk_addr c (poolchunks c)"

lemma ctx_simps [simp]:
  "bitmapstart (lo_ctx meta) = lo_bitmap meta" "bitmapsize (lo_ctx meta) = lo_bitmap_size meta"
  "poolstart (lo_ctx meta) = lo_pool meta" "poolchunks (lo_ctx meta) = lo_poolchunks meta"
  "chunksize (lo_ctx meta) = LO_POOL_CHUNK_SIZE"
  "bitmapstart (mid_ctx meta) = mid_bitmap meta" "bitmapsize (mid_ctx meta) = mid_bitmap_size meta"
  "poolstart (mid_ctx meta) = mid_pool meta" "poolchunks (mid_ctx meta) = mid_poolchunks meta"
  "chunksize (mid_ctx meta) = MID_POOL_CHUNK_SIZE"
  "bitmapstart (hi_ctx meta) = hi_bitmap meta" "bitmapsize (hi_ctx meta) = hi_bitmap_size meta"
  "poolstart (hi_ctx meta) = hi_pool meta" "poolchunks (hi_ctx meta) = hi_poolchunks meta"
  "chunksize (hi_ctx meta) = HI_POOL_CHUNK_SIZE"
  by (simp_all add: lo_ctx_def mid_ctx_def hi_ctx_def)

lemma ctx_at_0 [simp]:
  "ctx_at (lo_ctx meta) 0 = lo_ctx meta" "ctx_at (mid_ctx meta) 0 = mid_ctx meta"
  "ctx_at (hi_ctx meta) 0 = hi_ctx meta"
  by (simp_all add: ctx_at_def lo_ctx_def mid_ctx_def hi_ctx_def)

lemma pool_for_size [simp, intro]: "alloc_ctx_for_size sz meta \<in> pools meta"
  by (simp add: alloc_ctx_for_size_def pools_def)

lemma ctx_at_0_size [simp]: "ctx_at (alloc_ctx_for_size sz meta) 0 = alloc_ctx_for_size sz meta"
  by (simp add: alloc_ctx_for_size_def)

lemma layout_pool:
  assumes "heap_layout heap meta" and "c \<in> pools meta"
  shows "pool_ok c" "lo_bitmap meta \<le> bitmapstart c" "bitmapstart c + bitmapsize c \<le> hi_pool meta"
    "hi_pool meta \<le> poolstart c" "pool_end c \<le> heap_end heap"
    "vaddr heap + heap_meta_size \<le> lo_bitmap meta" "lo_bitmap meta \<le> hi_pool meta"
  using assms by (auto simp: heap_layout_def pools_def pool_end_def chunk_addr_def)

lemma layout_disjoint:
  assumes "heap_layout heap meta" and "c \<in> pools meta" and "c' \<in> pools meta" and "c \<noteq> c'"
  shows "bitmapstart c + bitmapsize c \<le> bitmapstart c' \<or> bitmapstart c' + bitmapsize c' \<le> bitmapstart c"
    and "pool_end c \<le> poolstart c' \<or> pool_end c' \<le> poolstart c"
  using assms by (auto simp: heap_layout_def pools_def pool_end_def chunk_addr_def)

lemma pools_by_chunksize:
  assumes "c \<in> pools meta" and "c' \<in> pools meta"
  shows "chunksize c = chunksize c' \<longleftrightarrow> c = c'"
  using assms by (auto simp: pools_def chunk_size_defs)

section \<open>Live allocations\<close>

definition block_index :: "AllocationCtx \<Rightarrow> addr \<Rightarrow> nat" where
  "block_index c a = (a - poolstart c) div chunksize c"

definition block_chunks :: "AllocationCtx \<Rightarrow> addr \<Rightarrow> nat \<Rightarrow> nat set" where
  "block_chunks c a sz = {block_index c a - 1 ..< block_index c a + ceil_ratio sz (chunksize c)}"

definition block_ok :: "AllocationCtx \<Rightarrow> addr \<Rightarrow> nat \<Rightarrow> nat \<Rightarrow> bool" where
  "block_ok c a sz al \<longleftrightarrow>
     0 < block_index c a \<and> block_index c a + ceil_ratio sz (chunksize c) < poolchunks c
     \<and> a = chunk_addr c (block_index c a) \<and> al dvd a \<and> 0 < sz \<and> sz < W32 \<and> al < W32 \<and> (\<exists>k. al = 2 ^ k)"

definition meta_of :: "AllocationCtx \<Rightarrow> nat \<Rightarrow> nat \<Rightarrow> GAllocationMeta" where
  "meta_of c sz al =
     \<lparr>asignature = ALLOCATION_SIGNATURE, asize = sz, achunksize = chunksize c, aalignment = al\<rparr>"

definition heap_inv :: "memory \<Rightarrow> Heap \<Rightarrow> live_map \<Rightarrow> bool" where
  "heap_inv m heap live \<longleftrightarrow>
     (let meta = load_heap_meta m (vaddr heap); pool = (\<lambda>sz. alloc_ctx_for_size sz meta) in
      hsignature meta = HEAP_SIGNATURE \<and> heap_layout heap meta
      \<and> (\<forall>a sz al. live a = Some (sz, al) \<longrightarrow>
           block_ok (pool sz) a sz al \<and> load_alloc_meta m (a - alloc_meta_size) = meta_of (pool sz) sz al)
      \<and> (\<forall>a sz al b sz' al'. live a = Some (sz, al) \<longrightarrow> live b = Some (sz', al') \<longrightarrow> a \<noteq> b \<longrightarrow>
           pool sz = pool sz' \<longrightarrow> block_chunks (pool sz) a sz \<inter> block_chunks (pool sz) b sz' = {})
      \<and> (\<forall>c \<in> pools meta. \<forall>j < poolchunks c. used m c j \<longleftrightarrow>
           (\<exists>a sz al. live a = Some (sz, al) \<and> pool sz = c \<and> j \<in> block_chunks c a sz)))"

lemma ceil_ratio_covers:
  assumes "0 < d"
  shows "n \<le> ceil_ratio n d * d" and "0 < n \<Longrightarrow> 0 < ceil_ratio n d"
proof -
  show "n \<le> ceil_ratio n d * d"
  proof (cases "n mod d = 0")
    case True
    then show ?thesis by (auto simp: ceil_ratio_def)
  next
    case False
    have "n mod d < d" using assms by simp
    then have "n \<le> n div d * d + d" using div_mult_mod_eq [of n d] by linarith
    then show ?thesis using False by (simp add: ceil_ratio_def)
  qed
  then show "0 < n \<Longrightarrow> 0 < ceil_ratio n d" by (metis gr0I mult_0 leD)
qed

lemma block_index_addr: "0 < chunksize c \<Longrightarrow> block_index c (chunk_addr c i) = i"
  by (simp add: block_index_def chunk_addr_def)

lemma chunk_addr_mono: "i \<le> j \<Longrightarrow> chunk_addr c i \<le> chunk_addr c j"
  by (simp add: chunk_addr_def)

text \<open>The bytes of a block and its metadata lie in its chunks.\<close>

lemma block_bytes:
  assumes "pool_ok c" and "block_ok c a sz al"
  shows "chunk_addr c (block_index c a - 1) + 16 \<le> a"
    and "a + sz \<le> chunk_addr c (block_index c a + ceil_ratio sz (chunksize c))"
    and "poolstart c + 16 \<le> a" and "a + sz \<le> pool_end c" and "a < W32"
proof -
  let ?i = "block_index c a" and ?n = "ceil_ratio sz (chunksize c)"
  have cs: "32 \<le> chunksize c" "0 < chunksize c" using pool_okD(1,2) [OF assms(1)] by simp_all
  have i: "0 < ?i" "?i + ?n < poolchunks c" and a: "a = chunk_addr c ?i"
    using assms(2) by (auto simp: block_ok_def)
  obtain j where j: "?i = Suc j" using i(1) by (cases ?i) auto
  have "chunk_addr c ?i = chunk_addr c j + chunksize c" by (simp add: j chunk_addr_def)
  then show 1: "chunk_addr c (?i - 1) + 16 \<le> a" using cs(1) a j by simp
  then show "poolstart c + 16 \<le> a" by (simp add: chunk_addr_def)
  have "chunk_addr c (?i + ?n) = chunk_addr c ?i + ?n * chunksize c"
    by (simp add: chunk_addr_def add_mult_distrib)
  then show 2: "a + sz \<le> chunk_addr c (?i + ?n)"
    using ceil_ratio_covers(1) [OF cs(2), of sz] a by simp
  have "chunk_addr c (?i + ?n) \<le> pool_end c"
    using i(2) by (simp add: pool_end_def chunk_addr_mono)
  with 2 show "a + sz \<le> pool_end c" by simp
  moreover have "pool_end c < W32"
    using assms(1) by (simp add: pool_ok_def pool_end_def chunk_addr_def)
  ultimately show "a < W32" by simp
qed

lemma chunk_ranges_disjoint:
  assumes "{i ..< j} \<inter> {i' ..< j'} = {}" and "i < j" and "i' < j'"
  shows "j \<le> i' \<or> j' \<le> (i :: nat)"
proof (rule ccontr)
  assume "\<not> ?thesis"
  then have "max i i' \<in> {i ..< j} \<inter> {i' ..< j'}" using assms(2,3) by auto
  then show False using assms(1) by blast
qed

text \<open>Two blocks in different chunks do not share a byte, metadata included.\<close>

lemma blocks_apart:
  assumes lay: "heap_layout heap meta" and c: "c \<in> pools meta" "c' \<in> pools meta"
    and a: "block_ok c a sz al" and b: "block_ok c' b sz' al'"
    and dis: "c = c' \<Longrightarrow> block_chunks c a sz \<inter> block_chunks c b sz' = {}"
  shows "a + sz + 16 \<le> b \<or> b + sz' + 16 \<le> a"
proof (cases "c = c'")
  case True
  have ok: "pool_ok c" by (rule layout_pool(1) [OF lay c(1)])
  note ba = block_bytes [OF ok a] and bb = block_bytes [OF ok b [folded True]]
  let ?i = "block_index c a" and ?j = "block_index c b"
  let ?n = "ceil_ratio sz (chunksize c)" and ?k = "ceil_ratio sz' (chunksize c)"
  have "0 < ?n" "0 < ?k"
    using a b ceil_ratio_covers(2) pool_okD(1) [OF ok] by (auto simp: block_ok_def)
  then have "?i + ?n \<le> ?j - 1 \<or> ?j + ?k \<le> ?i - 1"
    using dis [OF True] by (intro chunk_ranges_disjoint) (auto simp: block_chunks_def)
  then show ?thesis
    using ba(1,2) bb(1,2) chunk_addr_mono [of "?i + ?n" "?j - 1" c] chunk_addr_mono [of "?j + ?k" "?i - 1" c]
    by linarith
next
  case False
  note la = layout_pool [OF lay c(1)] and lb = layout_pool [OF lay c(2)]
  show ?thesis
    using layout_disjoint(2) [OF lay c False] block_bytes(3,4) [OF la(1) a] block_bytes(3,4) [OF lb(1) b]
    by linarith
qed

section \<open>Bytes the invariant reads\<close>

lemma load_heap_meta_cong:
  "(\<And>x. a \<le> x \<Longrightarrow> x < a + heap_meta_size \<Longrightarrow> m x = m' x) \<Longrightarrow> load_heap_meta m a = load_heap_meta m' a"
  by (simp add: load_heap_meta_def heap_meta_size_def) (intro conjI read32_cong; simp)

lemma load_alloc_meta_cong:
  "(\<And>x. a \<le> x \<Longrightarrow> x < a + 16 \<Longrightarrow> m x = m' x) \<Longrightarrow> load_alloc_meta m a = load_alloc_meta m' a"
  by (simp add: load_alloc_meta_def) (intro conjI read32_cong; simp)

lemma load_store_alloc_meta:
  assumes "asignature am < W32" "asize am < W32" "achunksize am < W32" "aalignment am < W32"
  shows "load_alloc_meta (store_alloc_meta m a am) a = am"
  using assms by (simp add: load_alloc_meta_def store_alloc_meta_def Let_def mem_simps)

lemma store_alloc_meta_other: "x < a \<or> a + 16 \<le> x \<Longrightarrow> store_alloc_meta m a am x = m x"
  by (auto simp: store_alloc_meta_def Let_def mem_simps)

lemma load_store_heap_meta:
  assumes "hsignature h < W32" "lo_bitmap h < W32" "lo_bitmap_size h < W32" "lo_pool h < W32"
    "lo_poolchunks h < W32" "mid_bitmap h < W32" "mid_bitmap_size h < W32" "mid_pool h < W32"
    "mid_poolchunks h < W32" "hi_bitmap h < W32" "hi_bitmap_size h < W32" "hi_pool h < W32"
    "hi_poolchunks h < W32"
  shows "load_heap_meta (store_heap_meta m a h) a = h"
  using assms by (simp add: load_heap_meta_def store_heap_meta_def Let_def mem_simps)

lemma store_heap_meta_other: "x < a \<or> a + heap_meta_size \<le> x \<Longrightarrow> store_heap_meta m a h x = m x"
  by (auto simp: store_heap_meta_def Let_def mem_simps heap_meta_size_def)

lemma used_cong:
  assumes "\<And>x. bitmapstart c \<le> x \<Longrightarrow> x < bitmapstart c + bitmapsize c \<Longrightarrow> m x = m' x"
    and "j < 8 * bitmapsize c"
  shows "used m c j \<longleftrightarrow> used m' c j"
proof -
  have "j div 8 < bitmapsize c" using assms(2) by (simp add: div_less_iff_less_mult)
  then show ?thesis using assms(1) [of "bitmapstart c + j div 8"] by (simp add: used_def)
qed


section \<open>The invariant, its parts\<close>

abbreviation heap_meta :: "memory \<Rightarrow> Heap \<Rightarrow> GAllocatorHeapMeta" where
  "heap_meta m heap \<equiv> load_heap_meta m (vaddr heap)"

abbreviation size_pool :: "memory \<Rightarrow> Heap \<Rightarrow> nat \<Rightarrow> AllocationCtx" where
  "size_pool m heap sz \<equiv> alloc_ctx_for_size sz (heap_meta m heap)"

lemma heap_inv_layout:
  "heap_inv m heap live \<Longrightarrow> hsignature (heap_meta m heap) = HEAP_SIGNATURE"
  "heap_inv m heap live \<Longrightarrow> heap_layout heap (heap_meta m heap)"
  by (simp_all add: heap_inv_def Let_def)

lemma heap_inv_block:
  assumes "heap_inv m heap live" and "live a = Some (sz, al)"
  shows "block_ok (size_pool m heap sz) a sz al"
    and "load_alloc_meta m (a - alloc_meta_size) = meta_of (size_pool m heap sz) sz al"
  using assms by (auto simp: heap_inv_def Let_def)

lemma heap_inv_chunks_disjoint:
  assumes "heap_inv m heap live" and "live a = Some (sz, al)" and "live b = Some (sz', al')"
    and "a \<noteq> b" and "size_pool m heap sz = size_pool m heap sz'"
  shows "block_chunks (size_pool m heap sz) a sz \<inter> block_chunks (size_pool m heap sz) b sz' = {}"
  using assms unfolding heap_inv_def Let_def by blast

lemma heap_inv_used:
  assumes "heap_inv m heap live" and "c \<in> pools (heap_meta m heap)" and "j < poolchunks c"
  shows "used m c j \<longleftrightarrow>
    (\<exists>a sz al. live a = Some (sz, al) \<and> size_pool m heap sz = c \<and> j \<in> block_chunks c a sz)"
  using assms unfolding heap_inv_def Let_def by blast

lemma heap_invI:
  assumes "heap_meta m heap = meta" and "hsignature meta = HEAP_SIGNATURE" and "heap_layout heap meta"
    and "\<And>a sz al. live a = Some (sz, al) \<Longrightarrow> block_ok (alloc_ctx_for_size sz meta) a sz al"
    and "\<And>a sz al. live a = Some (sz, al) \<Longrightarrow>
      load_alloc_meta m (a - alloc_meta_size) = meta_of (alloc_ctx_for_size sz meta) sz al"
    and "\<And>a sz al b sz' al'. live a = Some (sz, al) \<Longrightarrow> live b = Some (sz', al') \<Longrightarrow> a \<noteq> b \<Longrightarrow>
      alloc_ctx_for_size sz meta = alloc_ctx_for_size sz' meta \<Longrightarrow>
      block_chunks (alloc_ctx_for_size sz meta) a sz \<inter> block_chunks (alloc_ctx_for_size sz meta) b sz' = {}"
    and "\<And>c j. c \<in> pools meta \<Longrightarrow> j < poolchunks c \<Longrightarrow> used m c j \<longleftrightarrow>
      (\<exists>a sz al. live a = Some (sz, al) \<and> alloc_ctx_for_size sz meta = c \<and> j \<in> block_chunks c a sz)"
  shows "heap_inv m heap live"
  using assms unfolding heap_inv_def Let_def by blast

text \<open>Live blocks, metadata included, are pairwise apart.\<close>

lemma live_apart:
  assumes "heap_inv m heap live" and "live a = Some (sz, al)" and "live b = Some (sz', al')" and "a \<noteq> b"
  shows "a + sz + 16 \<le> b \<or> b + sz' + 16 \<le> a"
  by (rule blocks_apart [OF heap_inv_layout(2) [OF assms(1)] pool_for_size pool_for_size
        heap_inv_block(1) [OF assms(1,2)] heap_inv_block(1) [OF assms(1,3)]])
    (use heap_inv_chunks_disjoint [OF assms] in auto)

text \<open>Where the bytes of a live block are.\<close>

lemma live_bounds:
  assumes "heap_inv m heap live" and "live a = Some (sz, al)"
  shows "hi_pool (heap_meta m heap) + 16 \<le> a" and "vaddr heap + heap_meta_size + 16 \<le> a"
    and "a + sz \<le> heap_end heap" and "a < W32"
proof -
  note lay = layout_pool [OF heap_inv_layout(2) [OF assms(1)] pool_for_size [of sz]]
  note bb = block_bytes [OF lay(1) heap_inv_block(1) [OF assms]]
  show "hi_pool (heap_meta m heap) + 16 \<le> a" using lay(4) bb(3) by linarith
  then show "vaddr heap + heap_meta_size + 16 \<le> a" using lay(6,7) by linarith
  show "a + sz \<le> heap_end heap" using lay(5) bb(4) by linarith
  show "a < W32" by (rule bb(5))
qed

section \<open>Allocation\<close>

lemma do_alloc_aligned_cases:
  assumes lay: "heap_layout heap meta" and sz: "0 < sz" and al: "al = 2 ^ k" "al < W32"
  defines "c \<equiv> alloc_ctx_for_size sz meta"
  defines "n \<equiv> ceil_ratio sz (chunksize c)"
  shows "(\<exists>j. fits m c al n j \<and> j + n < poolchunks c \<and> (\<forall>i < j. \<not> fits m c al n i)
      \<and> gallocator_do_alloc_aligned m sz al meta = Some (Ret (Some (chunk_addr c j),
           store_alloc_meta (mark_range set_bit_in m c (j - 1) (Suc n)) (chunk_addr c j - alloc_meta_size)
             (meta_of c sz al))))
    \<or> gallocator_do_alloc_aligned m sz al meta = Some (Ret (None, m))
      \<and> (\<forall>j. fits m c al n j \<longrightarrow> \<not> j + n < poolchunks c)"
proof -
  have c: "c \<in> pools meta" by (simp add: c_def)
  have ok: "pool_ok c" by (rule layout_pool(1) [OF lay c])
  have n: "0 < n" using sz pool_okD(1) [OF ok] by (simp add: n_def ceil_ratio_covers)
  have at0: "ctx_at c 0 = c" by (simp add: c_def)
  obtain b j where srch: "alloc_search m al n c = Some (Ret (b, ctx_at c j))"
    and lf: "least_from 0 (fits m c al n) b j"
    using alloc_search_at [OF ok al n, of 0 m] at0 by auto
  note unf = gallocator_do_alloc_aligned_def Let_def c_def [symmetric] n_def [symmetric]
  show ?thesis
  proof (cases b)
    case False
    then have "gallocator_do_alloc_aligned m sz al meta = Some (Ret (None, m))"
      using srch by (simp add: unf)
    moreover have "\<forall>j. \<not> fits m c al n j" using lf False by (simp add: least_from_def)
    ultimately show ?thesis by blast
  next
    case True
    then have f: "fits m c al n j" "\<And>i. i < j \<Longrightarrow> \<not> fits m c al n i"
      using lf by (auto simp: least_from_def)
    then have j: "0 < j" "j + n \<le> poolchunks c" by (auto simp: fits_def)
    note upd = bitmap_update_at [OF ok j(1) n j(2), of set_bit_in m]
    show ?thesis
    proof (cases "j + n < poolchunks c")
      case fit: True
      have off: "allocationctx_to_offset (ctx_at c j) = j * chunksize c"
        using pool_okD(3,4) [OF ok] j(2) by (intro offset_at) simp
      have "j * chunksize c \<le> poolchunks c * chunksize c" using j(2) by simp
      then have a: "add32 (poolstart c) (j * chunksize c) = chunk_addr c j"
        using ok unfolding pool_ok_def chunk_addr_def by (intro add32_exact) linarith
      have "gallocator_do_alloc_aligned m sz al meta = Some (Ret (Some (chunk_addr c j),
           store_alloc_meta (mark_range set_bit_in m c (j - 1) (Suc n)) (chunk_addr c j - alloc_meta_size)
             (meta_of c sz al)))"
        using srch True upd fit
        by (simp add: unf gallocator_bitmap_set_bits_def off a meta_of_def)
      then show ?thesis using f fit by blast
    next
      case full: False
      then have "gallocator_do_alloc_aligned m sz al meta = Some (Ret (None, m))"
        using srch True upd by (simp add: unf gallocator_bitmap_set_bits_def)
      moreover have "\<not> i + n < poolchunks c" if "fits m c al n i" for i
        using f(2) [of i] full that by linarith
      ultimately show ?thesis by blast
    qed
  qed
qed


declare mark_range.simps(2) [simp del]

lemma live_insert_ex:
  assumes "live a = None"
  shows "(\<exists>b s t. (live(a \<mapsto> (sz, al))) b = Some (s, t) \<and> P b s) \<longleftrightarrow>
    P a sz \<or> (\<exists>b s t. live b = Some (s, t) \<and> P b s)"
proof
  assume "\<exists>b s t. (live(a \<mapsto> (sz, al))) b = Some (s, t) \<and> P b s"
  then show "P a sz \<or> (\<exists>b s t. live b = Some (s, t) \<and> P b s)" by (auto split: if_splits)
next
  assume "P a sz \<or> (\<exists>b s t. live b = Some (s, t) \<and> P b s)"
  then show "\<exists>b s t. (live(a \<mapsto> (sz, al))) b = Some (s, t) \<and> P b s"
  proof
    assume "P a sz"
    then show ?thesis by (intro exI [of _ a] exI [of _ sz] exI [of _ al]) simp
  next
    assume "\<exists>b s t. live b = Some (s, t) \<and> P b s"
    then obtain b s t where b: "live b = Some (s, t)" "P b s" by blast
    with assms have "b \<noteq> a" by auto
    with b show ?thesis by (intro exI [of _ b] exI [of _ s] exI [of _ t]) simp
  qed
qed

text \<open>The memory after a successful allocation at chunk \<open>j\<close>.\<close>

definition alloc_mem :: "memory \<Rightarrow> AllocationCtx \<Rightarrow> nat \<Rightarrow> nat \<Rightarrow> nat \<Rightarrow> memory" where
  "alloc_mem m c j sz al =
     store_alloc_meta (mark_range set_bit_in m c (j - 1) (Suc (ceil_ratio sz (chunksize c))))
       (chunk_addr c j - alloc_meta_size) (meta_of c sz al)"

lemma fits_block_ok:
  assumes "pool_ok c" and "fits m c al n j" and "j + n < poolchunks c" and "n = ceil_ratio sz (chunksize c)"
    and "0 < sz" and "sz < W32" and "al = 2 ^ k" and "al < W32"
  shows "block_ok c (chunk_addr c j) sz al"
  using assms pool_okD(1) [OF assms(1)]
  by (auto simp: block_ok_def block_index_addr fits_def aligned_at_def)

lemma new_block_apart:
  assumes inv: "heap_inv m heap live" and c: "c = size_pool m heap sz"
    and f: "fits m c al (ceil_ratio sz (chunksize c)) j" and ok: "block_ok c (chunk_addr c j) sz al"
    and b: "live b = Some (sz', al')"
  shows "size_pool m heap sz' = c \<Longrightarrow> block_chunks c (chunk_addr c j) sz \<inter> block_chunks c b sz' = {}"
    and "chunk_addr c j + sz + 16 \<le> b \<or> b + sz' + 16 \<le> chunk_addr c j"
proof -
  note lay = heap_inv_layout(2) [OF inv]
  have cp: "c \<in> pools (heap_meta m heap)" using c by simp
  have pok: "pool_ok c" by (rule layout_pool(1) [OF lay cp])
  have idx: "block_index c (chunk_addr c j) = j" using pool_okD(1) [OF pok] by (rule block_index_addr)
  show d: "block_chunks c (chunk_addr c j) sz \<inter> block_chunks c b sz' = {}" if "size_pool m heap sz' = c"
  proof (rule ccontr)
    assume "\<not> ?thesis"
    then obtain i where i: "i \<in> block_chunks c (chunk_addr c j) sz" "i \<in> block_chunks c b sz'" by blast
    then have "\<not> used m c i" "i < poolchunks c"
      using f by (auto simp: fits_def block_chunks_def idx)
    moreover have "used m c i"
      using heap_inv_used [OF inv cp \<open>i < poolchunks c\<close>] b that i(2) by blast
    ultimately show False by simp
  qed
  show "chunk_addr c j + sz + 16 \<le> b \<or> b + sz' + 16 \<le> chunk_addr c j"
    by (rule blocks_apart [OF lay cp pool_for_size ok heap_inv_block(1) [OF inv b]])
      (use d in auto)
qed

lemma alloc_mem_other:
  assumes "pool_ok c" and "0 < j" and "j + ceil_ratio sz (chunksize c) < poolchunks c"
    and "x < bitmapstart c \<or> bitmapstart c + bitmapsize c \<le> x"
    and "x < chunk_addr c j - 16 \<or> chunk_addr c j \<le> x" and "16 \<le> chunk_addr c j"
  shows "alloc_mem m c j sz al x = m x"
proof -
  have "j - 1 + Suc (ceil_ratio sz (chunksize c)) \<le> 8 * bitmapsize c"
    using assms(2,3) pool_okD(3) [OF assms(1)] by simp
  then show ?thesis using assms(4-)
    by (simp add: alloc_mem_def alloc_meta_size_def store_alloc_meta_other mark_range_outside)
qed

lemma alloc_mem_used:
  assumes lay: "heap_layout heap meta" and c: "c \<in> pools meta" "c' \<in> pools meta"
    and j: "0 < j" "j + ceil_ratio sz (chunksize c) < poolchunks c" and i: "i < poolchunks c'"
  shows "used (alloc_mem m c j sz al) c' i \<longleftrightarrow>
    used m c' i \<or> c' = c \<and> i \<in> {j - 1 ..< j + ceil_ratio sz (chunksize c)}"
proof -
  let ?m = "mark_range set_bit_in m c (j - 1) (Suc (ceil_ratio sz (chunksize c)))"
  note lc = layout_pool [OF lay c(1)] and lc' = layout_pool [OF lay c(2)]
  have i8: "i < 8 * bitmapsize c'" using i pool_okD(3) [OF lc'(1)] by simp
  obtain k where k: "j = Suc k" using j(1) by (cases j) auto
  have "hi_pool meta \<le> chunk_addr c k" using lc(4) by (simp add: chunk_addr_def)
  moreover have "chunk_addr c j = chunk_addr c k + chunksize c" by (simp add: k chunk_addr_def)
  ultimately have "hi_pool meta \<le> chunk_addr c j - alloc_meta_size"
    using pool_okD(2) [OF lc(1)] by (simp add: alloc_meta_size_def)
  then have 1: "used (alloc_mem m c j sz al) c' i \<longleftrightarrow> used ?m c' i"
    using lc'(3) by (intro used_cong [OF _ i8]) (auto simp: alloc_mem_def intro!: store_alloc_meta_other)
  show ?thesis
  proof (cases "c' = c")
    case True
    then show ?thesis using j(1) unfolding 1 by (auto simp: used_mark_range_set)
  next
    case False
    have "used ?m c' i \<longleftrightarrow> used m c' i"
    proof (intro used_cong [OF _ i8] mark_range_outside [where k = "bitmapsize c"])
      show "j - 1 + Suc (ceil_ratio sz (chunksize c)) \<le> 8 * bitmapsize c"
        using j pool_okD(3) [OF lc(1)] by simp
    qed (use layout_disjoint(1) [OF lay c(1,2)] False in auto)
    then show ?thesis using False 1 by simp
  qed
qed

lemma alloc_mem_inv:
  assumes inv: "heap_inv m heap live" and c: "c = size_pool m heap sz"
    and sz: "0 < sz" "sz < W32" and al: "al = 2 ^ k" "al < W32"
    and f: "fits m c al (ceil_ratio sz (chunksize c)) j"
    and fit: "j + ceil_ratio sz (chunksize c) < poolchunks c"
  shows "heap_inv (alloc_mem m c j sz al) heap (live(chunk_addr c j \<mapsto> (sz, al)))"
    and "live (chunk_addr c j) = None"
    and "\<And>b sz' al' x. live b = Some (sz', al') \<Longrightarrow> b - 16 \<le> x \<Longrightarrow> x < b + sz' \<Longrightarrow>
      alloc_mem m c j sz al x = m x"
proof -
  let ?a = "chunk_addr c j" and ?m = "alloc_mem m c j sz al" and ?meta = "heap_meta m heap"
  note lay = heap_inv_layout(2) [OF inv]
  have cp: "c \<in> pools ?meta" using c by simp
  note lc = layout_pool [OF lay cp]
  have ok: "block_ok c ?a sz al" by (rule fits_block_ok [OF lc(1) f fit refl sz al])
  have j: "0 < j" using f by (simp add: fits_def)
  have idx: "block_index c ?a = j" using pool_okD(1) [OF lc(1)] by (rule block_index_addr)
  note bb = block_bytes [OF lc(1) ok]
  note apart = new_block_apart [OF inv c f ok]
  note other = alloc_mem_other [OF lc(1) j fit]
  show nolive: "live ?a = None"
    using apart(2) by (cases "live ?a") fastforce+
  show keep: "?m x = m x" if b: "live b = Some (sz', al')" and x: "b - 16 \<le> x" "x < b + sz'" for b sz' al' x
    using apart(2) [OF b] live_bounds(1) [OF inv b] lc(3) bb(3) x by (intro other) auto
  have hdr: "heap_meta ?m heap = ?meta"
  proof (rule load_heap_meta_cong)
    fix x assume "vaddr heap \<le> x" "x < vaddr heap + heap_meta_size"
    then show "?m x = m x" using lc(2,4,6,7) bb(3) by (intro other) linarith+
  qed
  show "heap_inv ?m heap (live(?a \<mapsto> (sz, al)))"
  proof (rule heap_invI [OF hdr heap_inv_layout(1) [OF inv] lay])
    fix b sz' al' assume b: "(live(?a \<mapsto> (sz, al))) b = Some (sz', al')"
    show "block_ok (alloc_ctx_for_size sz' ?meta) b sz' al'"
      using b ok c heap_inv_block(1) [OF inv] by (auto split: if_splits)
    show "load_alloc_meta ?m (b - alloc_meta_size) = meta_of (alloc_ctx_for_size sz' ?meta) sz' al'"
    proof (cases "b = ?a")
      case True
      have "chunksize c < W32" using lc(1) by (auto simp: pool_ok_def)
      then show ?thesis using True b sz al c
        by (auto simp: alloc_mem_def intro!: load_store_alloc_meta) (auto simp: meta_of_def ALLOCATION_SIGNATURE_def)
    next
      case False
      then have b': "live b = Some (sz', al')" using b by simp
      have "load_alloc_meta ?m (b - alloc_meta_size) = load_alloc_meta m (b - alloc_meta_size)"
        using live_bounds(1) [OF inv b']
        by (intro load_alloc_meta_cong keep [OF b']) (auto simp: alloc_meta_size_def)
      then show ?thesis using heap_inv_block(2) [OF inv b'] by simp
    qed
  next
    fix b1 sz1 al1 b2 sz2 al2
    assume b: "(live(?a \<mapsto> (sz, al))) b1 = Some (sz1, al1)" "(live(?a \<mapsto> (sz, al))) b2 = Some (sz2, al2)"
      "b1 \<noteq> b2" "alloc_ctx_for_size sz1 ?meta = alloc_ctx_for_size sz2 ?meta"
    consider "b1 = ?a" "b2 \<noteq> ?a" | "b1 \<noteq> ?a" "b2 = ?a" | "b1 \<noteq> ?a" "b2 \<noteq> ?a" using b(3) by blast
    then show "block_chunks (alloc_ctx_for_size sz1 ?meta) b1 sz1
        \<inter> block_chunks (alloc_ctx_for_size sz1 ?meta) b2 sz2 = {}"
    proof cases
      case 1
      then have "live b2 = Some (sz2, al2)" "sz1 = sz" using b(1,2) by auto
      then show ?thesis using 1 apart(1) b(4) c by metis
    next
      case 2
      then have "live b1 = Some (sz1, al1)" "sz2 = sz" using b(1,2) by auto
      then show ?thesis using 2 apart(1) b(4) c by (metis Int_commute)
    next
      case 3
      then show ?thesis using b by (intro heap_inv_chunks_disjoint [OF inv]) auto
    qed
  next
    fix c' i assume c': "c' \<in> pools ?meta" and i: "i < poolchunks c'"
    have bc: "block_chunks c ?a sz = {j - 1 ..< j + ceil_ratio sz (chunksize c)}"
      by (simp add: block_chunks_def idx)
    have "used ?m c' i \<longleftrightarrow> (c = c' \<and> i \<in> block_chunks c' ?a sz) \<or> used m c' i"
      using alloc_mem_used [OF lay cp c' j fit i] bc by blast
    then show "used ?m c' i \<longleftrightarrow> (\<exists>b sz' al'. (live(?a \<mapsto> (sz, al))) b = Some (sz', al')
        \<and> alloc_ctx_for_size sz' ?meta = c' \<and> i \<in> block_chunks c' b sz')"
      unfolding heap_inv_used [OF inv c' i]
        live_insert_ex [where live = live and a = ?a and
          P = "\<lambda>b s. alloc_ctx_for_size s ?meta = c' \<and> i \<in> block_chunks c' b s", OF nolive]
      by (simp add: c)
  qed
qed


text \<open>
  The contract of \<open>gallocator_alloc_aligned\<close>: it always returns; a null result leaves memory
  alone and means that no aligned run of free chunks (with a free chunk in front and a chunk behind)
  exists; otherwise the address is aligned, in the heap, distinct from every live block, and no byte
  of a live block or of its metadata has changed.
\<close>

lemma alloc_aligned_contract:
  assumes inv: "heap_inv m heap live" and sz: "0 < sz" "sz < W32" and al: "al = 2 ^ k" "al < W32"
  shows "\<exists>r m'. gallocator_alloc_aligned m sz al heap = Some (Ret (r, m')) \<and>
    (case r of
       None \<Rightarrow> m' = m \<and> (let c = size_pool m heap sz; n = ceil_ratio sz (chunksize c)
                         in \<forall>j. fits m c al n j \<longrightarrow> \<not> j + n < poolchunks c)
     | Some a \<Rightarrow> live a = None \<and> heap_inv m' heap (live(a \<mapsto> (sz, al))) \<and>
         (\<forall>b sz' al' x. live b = Some (sz', al') \<and> b - 16 \<le> x \<and> x < b + sz' \<longrightarrow> m' x = m x))"
proof -
  let ?c = "size_pool m heap sz"
  let ?n = "ceil_ratio sz (chunksize ?c)"
  have e: "gallocator_alloc_aligned m sz al heap = gallocator_do_alloc_aligned m sz al (heap_meta m heap)"
    using heap_inv_layout(1) [OF inv] by (simp add: gallocator_alloc_aligned_def)
  from do_alloc_aligned_cases [OF heap_inv_layout(2) [OF inv] sz(1) al, of m]
  show ?thesis
  proof (elim disjE exE conjE)
    fix j assume j: "fits m ?c al ?n j" "j + ?n < poolchunks ?c"
      and r: "gallocator_do_alloc_aligned m sz al (heap_meta m heap) = Some (Ret (Some (chunk_addr ?c j),
           store_alloc_meta (mark_range set_bit_in m ?c (j - 1) (Suc ?n)) (chunk_addr ?c j - alloc_meta_size)
             (meta_of ?c sz al)))"
    note am = alloc_mem_inv [OF inv refl sz al j]
    show ?thesis
      using am unfolding e r by (intro exI [of _ "Some (chunk_addr ?c j)"] exI [of _ "alloc_mem m ?c j sz al"])
        (auto simp: alloc_mem_def)
  next
    assume "gallocator_do_alloc_aligned m sz al (heap_meta m heap) = Some (Ret (None, m))"
      "\<forall>j. fits m ?c al ?n j \<longrightarrow> \<not> j + ?n < poolchunks ?c"
    then show ?thesis unfolding e by (intro exI [of _ None] exI [of _ m]) (simp add: Let_def)
  qed
qed

lemma allocation_size_live:
  assumes "heap_inv m heap live" and "live a = Some (sz, al)"
  shows "gallocator_allocation_size m a heap = Inr sz" "gallocator_allocation_alignment m a heap = Inr al"
  using heap_inv_block(2) [OF assms] heap_inv_layout(1) [OF assms(1)]
  by (simp_all add: gallocator_allocation_size_def gallocator_allocation_alignment_def Let_def meta_of_def)

section \<open>Writes of the client\<close>

lemma client_write_inv:
  assumes inv: "heap_inv m heap live" and live: "live a = Some (sz, al)"
    and chg: "\<And>x. x < a \<or> a + sz \<le> x \<Longrightarrow> m' x = m x"
  shows "heap_inv m' heap live"
proof -
  note lb = live_bounds [OF inv live]
  have hdr: "heap_meta m' heap = heap_meta m heap"
    by (rule load_heap_meta_cong) (use chg lb in auto)
  show ?thesis
  proof (rule heap_invI [OF hdr heap_inv_layout [OF inv]])
    fix b sz' al' assume b: "live b = Some (sz', al')"
    show "block_ok (size_pool m heap sz') b sz' al'" by (rule heap_inv_block(1) [OF inv b])
    have "load_alloc_meta m' (b - alloc_meta_size) = load_alloc_meta m (b - alloc_meta_size)"
    proof (rule load_alloc_meta_cong)
      fix x assume x: "b - alloc_meta_size \<le> x" "x < b - alloc_meta_size + 16"
      have "16 \<le> b" using live_bounds(1) [OF inv b] by simp
      then show "m' x = m x" using x live_apart [OF inv live b]
        by (cases "b = a") (auto simp: alloc_meta_size_def intro!: chg)
    qed
    then show "load_alloc_meta m' (b - alloc_meta_size) = meta_of (size_pool m heap sz') sz' al'"
      using heap_inv_block(2) [OF inv b] by simp
  next
    fix c i assume c: "c \<in> pools (heap_meta m heap)" and i: "i < poolchunks c"
    note lc = layout_pool [OF heap_inv_layout(2) [OF inv] c]
    have "used m' c i \<longleftrightarrow> used m c i"
      using lc(3) lb(1) i pool_okD(3) [OF lc(1)] by (intro used_cong chg) auto
    then show "used m' c i \<longleftrightarrow> (\<exists>b sz' al'. live b = Some (sz', al') \<and> size_pool m heap sz' = c \<and> i \<in> block_chunks c b sz')"
      using heap_inv_used [OF inv c i] by simp
  qed (rule heap_inv_chunks_disjoint [OF inv])
qed


section \<open>Freeing\<close>

definition free_mem :: "memory \<Rightarrow> AllocationCtx \<Rightarrow> addr \<Rightarrow> nat \<Rightarrow> memory" where
  "free_mem m c a sz =
     fill_mem (mark_range clear_bit_in m c (block_index c a - 1) (Suc (ceil_ratio sz (chunksize c))))
       (a - 16) (sz + 16) 0"

lemma pool_of_chunksize:
  assumes "c \<in> pools meta"
  shows "free_ctx (chunksize c) meta = Ret c"
  using assms by (auto simp: free_ctx_def pools_def chunk_size_defs)

lemma free_mark_outside:
  assumes "pool_ok c" and "block_ok c a sz al"
    and "x < bitmapstart c \<or> bitmapstart c + bitmapsize c \<le> x"
  shows "mark_range clear_bit_in m c (block_index c a - 1) (Suc (ceil_ratio sz (chunksize c))) x = m x"
  using assms(2,3) pool_okD(3) [OF assms(1)]
  by (intro mark_range_outside [where k = "bitmapsize c"]) (auto simp: block_ok_def)

lemma gallocator_free_eq:
  assumes inv: "heap_inv m heap live" and live: "live a = Some (sz, al)" and c: "c = size_pool m heap sz"
  shows "gallocator_free m a heap = Ret (free_mem m c a sz)"
proof -
  let ?i = "block_index c a" and ?n = "ceil_ratio sz (chunksize c)"
  let ?m = "mark_range clear_bit_in m c (?i - 1) (Suc ?n)"
  have cp: "c \<in> pools (heap_meta m heap)" using c by simp
  note lc = layout_pool [OF heap_inv_layout(2) [OF inv] cp]
  have ok: "block_ok c a sz al" using heap_inv_block(1) [OF inv live] c by simp
  note bb = block_bytes [OF lc(1) ok]
  have am: "load_alloc_meta m (a - alloc_meta_size) = meta_of c sz al"
    using heap_inv_block(2) [OF inv live] c by simp
  have ctx: "addr_to_allocationctx_offset a c = ctx_at c ?i"
    using addr_to_ctx_at [OF lc(1), of a ?i] ok bb(5) by (simp add: block_ok_def)
  have clr: "gallocator_bitmap_clear_bits m (ctx_at c ?i) ?n = Ret (BitsOk ?m)"
    using bitmap_update_at [OF lc(1), of ?i ?n clear_bit_in m] ok pool_okD(1) [OF lc(1)]
    by (simp add: gallocator_bitmap_clear_bits_def block_ok_def ceil_ratio_covers)
  have "load_alloc_meta ?m (a - alloc_meta_size) = load_alloc_meta m (a - alloc_meta_size)"
    using lc(3,4) bb(3)
    by (intro load_alloc_meta_cong free_mark_outside [OF lc(1) ok]) (auto simp: alloc_meta_size_def)
  then have sz1: "asize (load_alloc_meta ?m (a - alloc_meta_size)) = sz" by (simp add: am meta_of_def)
  have "pool_end c < W32" using lc(1) by (simp add: pool_ok_def pool_end_def chunk_addr_def)
  then have "add32 sz alloc_meta_size = sz + 16"
    using bb(3,4) unfolding alloc_meta_size_def by (intro add32_exact) linarith
  then show ?thesis
    using heap_inv_layout(1) [OF inv] am ctx clr sz1 pool_of_chunksize [OF cp]
    by (simp add: gallocator_free_def meta_of_def Let_def memset_eq free_mem_def alloc_meta_size_def)
qed

lemma free_mem_other:
  assumes "pool_ok c" and "block_ok c a sz al" and "16 \<le> a"
    and "x < bitmapstart c \<or> bitmapstart c + bitmapsize c \<le> x" and "x + 16 < a \<or> a + sz \<le> x"
  shows "free_mem m c a sz x = m x"
proof -
  have "x < a - 16 \<or> a - 16 + (sz + 16) \<le> x" using assms(3,5) by linarith
  then show ?thesis using free_mark_outside [OF assms(1,2,4)]
    by (simp add: free_mem_def fill_mem_other)
qed

lemma free_mem_used:
  assumes lay: "heap_layout heap meta" and c: "c \<in> pools meta" "c' \<in> pools meta"
    and ok: "block_ok c a sz al" and i: "i < poolchunks c'"
  shows "used (free_mem m c a sz) c' i \<longleftrightarrow> used m c' i \<and> \<not> (c' = c \<and> i \<in> block_chunks c a sz)"
proof -
  let ?m = "mark_range clear_bit_in m c (block_index c a - 1) (Suc (ceil_ratio sz (chunksize c)))"
  note lc = layout_pool [OF lay c(1)] and lc' = layout_pool [OF lay c(2)]
  have i8: "i < 8 * bitmapsize c'" using i pool_okD(3) [OF lc'(1)] by simp
  have 1: "used (free_mem m c a sz) c' i \<longleftrightarrow> used ?m c' i"
    using lc'(3) lc(4) block_bytes(3) [OF lc(1) ok]
    by (intro used_cong [OF _ i8]) (auto simp: free_mem_def intro!: fill_mem_other)
  show ?thesis
  proof (cases "c' = c")
    case True
    then show ?thesis using ok unfolding 1
      by (auto simp: used_mark_range_clear block_chunks_def block_ok_def)
  next
    case False
    have "used ?m c' i \<longleftrightarrow> used m c' i"
      using layout_disjoint(1) [OF lay c(1,2)] False
      by (intro used_cong [OF _ i8] free_mark_outside [OF lc(1) ok]) auto
    then show ?thesis using False 1 by simp
  qed
qed

lemma live_delete_ex:
  assumes "live a = Some (sz, al)" and "\<And>b s t. live b = Some (s, t) \<Longrightarrow> b \<noteq> a \<Longrightarrow> P b s \<Longrightarrow> \<not> P a sz"
  shows "(\<exists>b s t. (live(a := None)) b = Some (s, t) \<and> P b s) \<longleftrightarrow>
    (\<exists>b s t. live b = Some (s, t) \<and> P b s) \<and> \<not> P a sz"
proof
  assume "\<exists>b s t. (live(a := None)) b = Some (s, t) \<and> P b s"
  then obtain b s t where "live b = Some (s, t)" "b \<noteq> a" "P b s" by (auto split: if_splits)
  then show "(\<exists>b s t. live b = Some (s, t) \<and> P b s) \<and> \<not> P a sz" using assms(2) by blast
next
  assume r: "(\<exists>b s t. live b = Some (s, t) \<and> P b s) \<and> \<not> P a sz"
  then obtain b s t where b: "live b = Some (s, t)" "P b s" by blast
  with r assms(1) have "b \<noteq> a" by auto
  with b show "\<exists>b s t. (live(a := None)) b = Some (s, t) \<and> P b s"
    by (intro exI [of _ b] exI [of _ s] exI [of _ t]) simp
qed

lemma free_mem_inv:
  assumes inv: "heap_inv m heap live" and live: "live a = Some (sz, al)" and c: "c = size_pool m heap sz"
  shows "heap_inv (free_mem m c a sz) heap (live(a := None))"
    and "\<And>b sz' al' x. live b = Some (sz', al') \<Longrightarrow> b \<noteq> a \<Longrightarrow> b - 16 \<le> x \<Longrightarrow> x < b + sz' \<Longrightarrow>
      free_mem m c a sz x = m x"
    and "heap_meta (free_mem m c a sz) heap = heap_meta m heap"
proof -
  let ?m = "free_mem m c a sz" and ?meta = "heap_meta m heap"
  note lay = heap_inv_layout(2) [OF inv]
  have cp: "c \<in> pools ?meta" using c by simp
  note lc = layout_pool [OF lay cp]
  have ok: "block_ok c a sz al" using heap_inv_block(1) [OF inv live] c by simp
  note bb = block_bytes [OF lc(1) ok]
  have a16: "16 \<le> a" using bb(3) by simp
  note other = free_mem_other [OF lc(1) ok a16]
  show keep: "?m x = m x" if b: "live b = Some (sz', al')" "b \<noteq> a" and x: "b - 16 \<le> x" "x < b + sz'" for b sz' al' x
    using live_apart [OF inv live b(1)] b(2) live_bounds(1) [OF inv b(1)] lc(3) x by (intro other) auto
  show hdr: "heap_meta ?m heap = ?meta"
  proof (rule load_heap_meta_cong)
    fix x assume "vaddr heap \<le> x" "x < vaddr heap + heap_meta_size"
    then show "?m x = m x" using lc(2,4,6,7) bb(3) by (intro other) linarith+
  qed
  show "heap_inv ?m heap (live(a := None))"
  proof (rule heap_invI [OF hdr heap_inv_layout(1) [OF inv] lay])
    fix b sz' al' assume b0: "(live(a := None)) b = Some (sz', al')"
    then have b: "live b = Some (sz', al')" "b \<noteq> a" by (auto split: if_splits)
    show "block_ok (alloc_ctx_for_size sz' ?meta) b sz' al'" by (rule heap_inv_block(1) [OF inv b(1)])
    have "load_alloc_meta ?m (b - alloc_meta_size) = load_alloc_meta m (b - alloc_meta_size)"
      using live_bounds(1) [OF inv b(1)]
      by (intro load_alloc_meta_cong keep [OF b]) (auto simp: alloc_meta_size_def)
    then show "load_alloc_meta ?m (b - alloc_meta_size) = meta_of (alloc_ctx_for_size sz' ?meta) sz' al'"
      using heap_inv_block(2) [OF inv b(1)] by simp
  next
    fix b1 sz1 al1 b2 sz2 al2
    assume "(live(a := None)) b1 = Some (sz1, al1)" "(live(a := None)) b2 = Some (sz2, al2)" "b1 \<noteq> b2"
      "alloc_ctx_for_size sz1 ?meta = alloc_ctx_for_size sz2 ?meta"
    then show "block_chunks (alloc_ctx_for_size sz1 ?meta) b1 sz1
        \<inter> block_chunks (alloc_ctx_for_size sz1 ?meta) b2 sz2 = {}"
      by (intro heap_inv_chunks_disjoint [OF inv]) (auto split: if_splits)
  next
    fix c' i assume c': "c' \<in> pools ?meta" and i: "i < poolchunks c'"
    let ?P = "\<lambda>b s. alloc_ctx_for_size s ?meta = c' \<and> i \<in> block_chunks c' b s"
    have "\<not> ?P a sz" if "live b = Some (s, t)" "b \<noteq> a" "?P b s" for b s t
      using heap_inv_chunks_disjoint [OF inv live that(1)] that by auto
    then have "(\<exists>b s t. (live(a := None)) b = Some (s, t) \<and> ?P b s) \<longleftrightarrow>
        (\<exists>b s t. live b = Some (s, t) \<and> ?P b s) \<and> \<not> ?P a sz"
      by (rule live_delete_ex [where P = ?P and live = live and a = a, OF live])
    moreover have "?P a sz \<longleftrightarrow> c' = c \<and> i \<in> block_chunks c a sz" using c by blast
    ultimately show "used ?m c' i \<longleftrightarrow> (\<exists>b sz' al'. (live(a := None)) b = Some (sz', al')
        \<and> alloc_ctx_for_size sz' ?meta = c' \<and> i \<in> block_chunks c' b sz')"
      unfolding free_mem_used [OF lay cp c' ok i] heap_inv_used [OF inv c' i] by blast
  qed
qed

text \<open>Freeing the same address again runs into the missing signature.\<close>

lemma free_mem_no_signature:
  assumes "16 \<le> a"
  shows "asignature (load_alloc_meta (free_mem m c a sz) (a - alloc_meta_size)) = 0"
  using assms by (simp add: load_alloc_meta_def free_mem_def alloc_meta_size_def read32_fill_zero)

lemma double_free_panics:
  assumes inv: "heap_inv m heap live" and live: "live a = Some (sz, al)"
  shows "bind_outcome (gallocator_free m a heap) (\<lambda>m'. gallocator_free m' a heap) = Panic"
proof -
  let ?c = "size_pool m heap sz"
  have "16 \<le> a" using live_bounds(1) [OF inv live] by simp
  then have "asignature (load_alloc_meta (free_mem m ?c a sz) (a - alloc_meta_size)) \<noteq> ALLOCATION_SIGNATURE"
    by (simp add: free_mem_no_signature ALLOCATION_SIGNATURE_def)
  moreover have "hsignature (heap_meta (free_mem m ?c a sz) heap) = HEAP_SIGNATURE"
    using free_mem_inv(3) [OF inv live refl] heap_inv_layout(1) [OF inv] by simp
  ultimately show ?thesis
    by (simp add: gallocator_free_eq [OF inv live refl]) (simp add: gallocator_free_def Let_def)
qed

end
