(* ===== verification/GallocatorInit.thy ===== *)
theory GallocatorInit
  imports GallocatorHeap
begin

text \<open>
  \<open>gallocator_init_heap\<close> lays a heap out so that the invariant holds with no live allocation, when
  the memory of the heap is zero (the function does not clear the bitmaps itself).
\<close>

section \<open>Arithmetic of the layout\<close>

lemma ceil8_bounds: "n \<le> 8 * ceil_ratio n 8" "8 * ceil_ratio n 8 \<le> n + 7"
  using div_mult_mod_eq [of n 8] mod_less_divisor [of 8 n] unfolding ceil_ratio_def
  by (cases "n mod 8 = 0"; simp; linarith)+

lemma ceil8_le: "ceil_ratio n 8 \<le> n div 8 + 1"
  by (simp add: ceil_ratio_def)

text \<open>Aligning the start of a pool costs at most one of its chunks.\<close>

lemma align_pool:
  assumes "d \<in> {32, 64, 128 :: nat}" and "0 < k" and "p + k * d < W32"
  defines "t \<equiv> bytes_align_up64 p d mod W32"
  shows "d dvd t" and "p \<le> t" and "t + sub32 k (of_bool (t \<noteq> p)) * d \<le> p + k * d"
    and "sub32 k (of_bool (t \<noteq> p)) \<le> k" and "k - 1 \<le> sub32 k (of_bool (t \<noteq> p))"
proof -
  have d: "0 < d" using assms(1) by auto
  have "d \<le> k * d" using assms(2) by simp
  then have pd: "p + d < W32" using assms(3) by linarith
  then have "p + d \<le> W64" by simp
  note up = bytes_align_up64_props [OF d this]
  have t: "t = bytes_align_up64 p d" using up(3) pd by (simp add: t_def)
  show "d dvd t" "p \<le> t" using up(1,2) by (simp_all add: t)
  have kW: "k < W32"
  proof -
    have "k \<le> k * d" using d by simp
    then show ?thesis using assms(3) by linarith
  qed
  have s: "sub32 k (of_bool (t \<noteq> p)) = k - of_bool (t \<noteq> p)"
    using assms(2) kW by (intro sub32_exact) auto
  show "sub32 k (of_bool (t \<noteq> p)) \<le> k" "k - 1 \<le> sub32 k (of_bool (t \<noteq> p))" unfolding s by simp_all
  show "t + sub32 k (of_bool (t \<noteq> p)) * d \<le> p + k * d"
  proof (cases "t = p")
    case True
    then show ?thesis unfolding s by simp
  next
    case False
    have "(k - 1) * d + d = k * d" using assms(2) by (cases k) auto
    moreover have "t < p + d" using up(3) t by simp
    ultimately show ?thesis using False unfolding s by simp
  qed
qed

lemma bitmaps_small:
  fixes H :: nat
  assumes "lb \<le> q1 + 1" and "mb \<le> q2 + 1" and "hb \<le> q3 + 1" and "1024 * q1 \<le> H"
    and "2048 * q2 \<le> H" and "2048 * q3 \<le> H" and "3968 \<le> H"
  shows "lb + mb + hb \<le> H" and "3900 \<le> H - (lb + mb + hb)"
  using assms by linarith+

lemma pools_fit:
  fixes H :: nat
  assumes "a + b + c \<le> H1" and "H1 = H - (lb + mb + hb)" and "lb + mb + hb \<le> H"
  shows "v + lb + mb + hb + a + b + c \<le> v + H"
  using assms by linarith

lemma bitmap_span:
  fixes H :: nat
  assumes "8 * b \<le> x + 7" and "x * d \<le> y" and "y \<le> H div 2" and "H < W32" and "d \<in> {32, 64, 128}"
  shows "8 * b * d < W32"
proof -
  have "8 * b * d \<le> (x + 7) * d" using assms(1) by (rule mult_le_mono1)
  also have "\<dots> \<le> y + 7 * 128" using assms(2,5) by (auto simp: add_mult_distrib)
  also have "\<dots> \<le> 2147483648 + 896" using assms(3,4) by linarith
  finally show ?thesis by linarith
qed

lemma init_layout:
  fixes v H :: nat
  assumes H: "3968 \<le> H" and v: "v + H < W32"
    and lb: "lb = ceil_ratio (H div 4 div 32) 8" and mb: "mb = ceil_ratio (H div 4 div 64) 8"
    and hb: "hb = ceil_ratio (H div 2 div 128) 8"
    and H1: "H1 = H - (lb + mb + hb)"
  shows "lb + mb + hb \<le> H" and "3900 \<le> H1"
    and "v + lb + mb + hb + H1 div 2 div 128 * 128 + H1 div 4 div 64 * 64 + H1 div 4 div 32 * 32 \<le> v + H"
    and "H1 div 4 div 32 \<le> 8 * lb" and "H1 div 4 div 64 \<le> 8 * mb" and "H1 div 2 div 128 \<le> 8 * hb"
    and "8 * lb * 32 < W32" and "8 * mb * 64 < W32" and "8 * hb * 128 < W32"
proof -
  have l: "lb \<le> H div 4 div 32 div 8 + 1" "H div 4 div 32 \<le> 8 * lb" "8 * lb \<le> H div 4 div 32 + 7"
    using ceil8_bounds [of "H div 4 div 32"] ceil8_le [of "H div 4 div 32"] lb by simp_all
  have m: "mb \<le> H div 4 div 64 div 8 + 1" "H div 4 div 64 \<le> 8 * mb" "8 * mb \<le> H div 4 div 64 + 7"
    using ceil8_bounds [of "H div 4 div 64"] ceil8_le [of "H div 4 div 64"] mb by simp_all
  have h: "hb \<le> H div 2 div 128 div 8 + 1" "H div 2 div 128 \<le> 8 * hb" "8 * hb \<le> H div 2 div 128 + 7"
    using ceil8_bounds [of "H div 2 div 128"] ceil8_le [of "H div 2 div 128"] hb by simp_all
  have q: "1024 * (H div 4 div 32 div 8) \<le> H" "2048 * (H div 4 div 64 div 8) \<le> H"
    "2048 * (H div 2 div 128 div 8) \<le> H"
    by (simp_all add: div_mult2_eq [symmetric])
  show s: "lb + mb + hb \<le> H" and "3900 \<le> H1"
    using bitmaps_small [OF l(1) m(1) h(1) q H] H1 by simp_all
  have le: "H1 \<le> H" using H1 by simp
  have p: "H1 div 2 div 128 * 128 \<le> H1 div 2" "H1 div 4 div 64 * 64 \<le> H1 div 4" "H1 div 4 div 32 * 32 \<le> H1 div 4"
    by simp_all
  have "H1 div 2 + H1 div 4 + H1 div 4 \<le> H1" by linarith
  with p have "H1 div 2 div 128 * 128 + H1 div 4 div 64 * 64 + H1 div 4 div 32 * 32 \<le> H1"
    by (meson add_mono le_trans)
  then show "v + lb + mb + hb + H1 div 2 div 128 * 128 + H1 div 4 div 64 * 64 + H1 div 4 div 32 * 32 \<le> v + H"
    using H1 s by (rule pools_fit)
  show "H1 div 4 div 32 \<le> 8 * lb" "H1 div 4 div 64 \<le> 8 * mb" "H1 div 2 div 128 \<le> 8 * hb"
    using l(2) m(2) h(2) le by (meson div_le_mono le_trans)+
  have Hs: "H < W32" using v by simp
  have y: "H div 4 \<le> H div 2" by (rule div_le_mono2) simp_all
  show "8 * lb * 32 < W32" by (rule bitmap_span [OF l(3) _ y Hs]) simp_all
  show "8 * mb * 64 < W32" by (rule bitmap_span [OF m(3) _ y Hs]) simp_all
  show "8 * hb * 128 < W32" by (rule bitmap_span [OF h(3) _ le_refl Hs]) simp_all
qed

lemma pool_okI:
  assumes "chunksize c \<in> {32, 64, 128}" and "poolchunks c \<le> 8 * bitmapsize c"
    and "8 * bitmapsize c * chunksize c < W32" and "0 < poolstart c"
    and "poolstart c + poolchunks c * chunksize c < W32" and "chunksize c dvd poolstart c"
  shows "pool_ok c"
  using assms by (simp add: pool_ok_def)

lemma init_heap_meta_layout:
  assumes span: "0 < pagespan heap" and fit: "heap_end heap < W32"
  defines "meta \<equiv> init_heap_meta heap (pagespan heap * PAGESIZE) 128"
  shows "heap_layout heap meta" and "hsignature meta = HEAP_SIGNATURE"
    and "vaddr heap + 128 \<le> lo_bitmap meta"
    and "29 \<le> lo_poolchunks meta" and "14 \<le> mid_poolchunks meta" and "14 \<le> hi_poolchunks meta"
proof -
  define H where "H = pagespan heap * PAGESIZE - 128"
  define v where "v = vaddr heap + 128"
  define lb where "lb = ceil_ratio (H div 4 div 32) 8"
  define mb where "mb = ceil_ratio (H div 4 div 64) 8"
  define hb where "hb = ceil_ratio (H div 2 div 128) 8"
  define H1 where "H1 = H - (lb + mb + hb)"
  have ps: "4096 \<le> pagespan heap * PAGESIZE" using span by (simp add: PAGESIZE_def)
  have he: "heap_end heap = v + H" using ps by (simp add: heap_end_def v_def H_def)
  have H: "3968 \<le> H" "v + H < W32" using ps fit he by (simp_all add: H_def)
  note il = init_layout [OF H lb_def mb_def hb_def H1_def]
  define hp where "hp = v + lb + mb + hb"
  define hc where "hc = H1 div 2 div 128"
  define mc where "mc = H1 div 4 div 64"
  define lc where "lc = H1 div 4 div 32"
  define mp where "mp = hp + hc * 128"
  define lp where "lp = mp + mc * 64"
  have pos: "0 < hc" "0 < mc" "0 < lc" using il(2) by (simp_all add: hc_def mc_def lc_def div_greater_zero_iff)
  have tot: "lp + lc * 32 \<le> v + H"
    using il(3) by (simp add: lp_def mp_def hp_def hc_def mc_def lc_def)
  have lim: "hp + hc * 128 < W32" "mp + mc * 64 < W32" "lp + lc * 32 < W32"
    using tot H(2) unfolding lp_def mp_def by linarith+
  note ah = align_pool [OF _ pos(1) lim(1)] and amid = align_pool [OF _ pos(2) lim(2)]
    and alo = align_pool [OF _ pos(3) lim(3)]
  have e1: "sub32 (pagespan heap * PAGESIZE) 128 = H"
    using ps fit unfolding H_def heap_end_def by (intro sub32_exact) linarith+
  have sm: "v + lb + mb + hb \<le> lp" by (simp add: lp_def mp_def hp_def)
  have e2: "sub32 H (add32 (add32 lb mb) hb) = H1"
  proof -
    have "add32 (add32 lb mb) hb = lb + mb + hb" using il(1) H(2) by (simp add: add32_exact)
    then show ?thesis using il(1) H(2) unfolding H1_def by (simp add: sub32_exact)
  qed
  have e3: "add32 (vaddr heap) 128 = v" "add32 v lb = v + lb" "add32 (v + lb) mb = v + lb + mb"
    "add32 (v + lb + mb) hb = hp"
    using sm lim(3) unfolding v_def hp_def by (auto intro!: add32_exact)
  have e4: "add32 hp (mul32 hc 128) = mp" "add32 mp (mul32 mc 64) = lp"
    using lim tot H(2) unfolding mp_def lp_def by (simp_all add: add32_exact mul32_exact)
  define th where "th = bytes_align_up64 hp 128 mod W32"
  define tm where "tm = bytes_align_up64 mp 64 mod W32"
  define tl where "tl = bytes_align_up64 lp 32 mod W32"
  have meta: "meta = \<lparr>hsignature = HEAP_SIGNATURE,
      lo_bitmap = v, lo_bitmap_size = lb, lo_pool = tl, lo_poolchunks = sub32 lc (of_bool (tl \<noteq> lp)),
      mid_bitmap = v + lb, mid_bitmap_size = mb, mid_pool = tm, mid_poolchunks = sub32 mc (of_bool (tm \<noteq> mp)),
      hi_bitmap = v + lb + mb, hi_bitmap_size = hb, hi_pool = th, hi_poolchunks = sub32 hc (of_bool (th \<noteq> hp))\<rparr>"
    unfolding meta_def init_heap_meta_def chunk_size_defs Let_def e1
      lb_def [symmetric] mb_def [symmetric] hb_def [symmetric] e2 e3
      hc_def [symmetric] mc_def [symmetric] lc_def [symmetric] e4
      th_def [symmetric] tm_def [symmetric] tl_def [symmetric] ..
  have A: "128 dvd th" "hp \<le> th" "th + sub32 hc (of_bool (th \<noteq> hp)) * 128 \<le> mp" "sub32 hc (of_bool (th \<noteq> hp)) \<le> hc"
    using ah unfolding th_def [symmetric] mp_def by auto
  have B: "64 dvd tm" "mp \<le> tm" "tm + sub32 mc (of_bool (tm \<noteq> mp)) * 64 \<le> lp" "sub32 mc (of_bool (tm \<noteq> mp)) \<le> mc"
    using amid unfolding tm_def [symmetric] lp_def by auto
  have C: "32 dvd tl" "lp \<le> tl" "tl + sub32 lc (of_bool (tl \<noteq> lp)) * 32 \<le> lp + lc * 32" "sub32 lc (of_bool (tl \<noteq> lp)) \<le> lc"
    using alo unfolding tl_def [symmetric] by auto
  have start: "0 < hp" "0 < mp" "0 < lp" by (simp_all add: lp_def mp_def hp_def v_def)
  have cap: "lc \<le> 8 * lb" "mc \<le> 8 * mb" "hc \<le> 8 * hb"
    using il(4-6) by (simp_all add: lc_def mc_def hc_def)
  show "hsignature meta = HEAP_SIGNATURE" "vaddr heap + 128 \<le> lo_bitmap meta"
    by (simp_all add: meta v_def)
  have "15 \<le> hc" "15 \<le> mc" "30 \<le> lc"
    using il(2) by (simp_all add: hc_def mc_def lc_def div_mult2_eq [symmetric] less_eq_div_iff_mult_less_eq)
  then show "29 \<le> lo_poolchunks meta" "14 \<le> mid_poolchunks meta" "14 \<le> hi_poolchunks meta"
    using ah(5) amid(5) alo(5) unfolding th_def [symmetric] tm_def [symmetric] tl_def [symmetric]
    by (simp_all add: meta)
  have ok: "pool_ok (lo_ctx meta)" "pool_ok (mid_ctx meta)" "pool_ok (hi_ctx meta)"
    by (rule pool_okI; use A B C cap il(7-9) start lim in \<open>simp add: meta chunk_size_defs\<close>)+
  show "heap_layout heap meta"
    unfolding heap_layout_def using ok A B C tot he
    by (simp add: meta chunk_size_defs hp_def v_def heap_meta_size_def)
qed


section \<open>The initial heap\<close>

lemma layout_fields_bound:
  assumes lay: "heap_layout heap meta" and fit: "heap_end heap < W32"
  shows "lo_bitmap meta < W32" "lo_bitmap_size meta < W32" "lo_pool meta < W32" "lo_poolchunks meta < W32"
    "mid_bitmap meta < W32" "mid_bitmap_size meta < W32" "mid_pool meta < W32" "mid_poolchunks meta < W32"
    "hi_bitmap meta < W32" "hi_bitmap_size meta < W32" "hi_pool meta < W32" "hi_poolchunks meta < W32"
proof -
  have k: "poolchunks c < W32" if "pool_ok c" for c
    using pool_okD(3) [OF that] pool_okD(6) [OF that, of "poolchunks c"] by simp
  show "lo_poolchunks meta < W32" "mid_poolchunks meta < W32" "hi_poolchunks meta < W32"
    using k [of "lo_ctx meta"] k [of "mid_ctx meta"] k [of "hi_ctx meta"] lay
    by (simp_all add: heap_layout_def)
  show "lo_bitmap meta < W32" "lo_bitmap_size meta < W32" "lo_pool meta < W32"
    "mid_bitmap meta < W32" "mid_bitmap_size meta < W32" "mid_pool meta < W32"
    "hi_bitmap meta < W32" "hi_bitmap_size meta < W32" "hi_pool meta < W32"
    using lay fit unfolding heap_layout_def by linarith+
qed

lemma metasize_eq: "bytes_align_up64 heap_meta_size HI_POOL_CHUNK_SIZE = 128"
  by (simp add: bytes_align_up64_def heap_meta_size_def HI_POOL_CHUNK_SIZE_def add64_def sub64_def)

lemma init_heap_contract:
  assumes span: "0 < pagespan heap" and fit: "heap_end heap < W32"
    and zero: "\<And>x. vaddr heap + 128 \<le> x \<Longrightarrow> x < heap_end heap \<Longrightarrow> m x = 0"
  shows "\<exists>m'. gallocator_init_heap m (Some heap) = Ret (Inr m') \<and> heap_inv m' heap Map.empty
    \<and> heap_meta m' heap = init_heap_meta heap (pagespan heap * PAGESIZE) 128
    \<and> (\<forall>x. x < vaddr heap \<or> vaddr heap + heap_meta_size \<le> x \<longrightarrow> m' x = m x)"
proof -
  let ?meta = "init_heap_meta heap (pagespan heap * PAGESIZE) 128"
  let ?m = "store_heap_meta m (vaddr heap) ?meta"
  note lay = init_heap_meta_layout [OF span fit]
  have e: "mul32 (pagespan heap) PAGESIZE = pagespan heap * PAGESIZE"
    using fit by (intro mul32_exact) (simp add: heap_end_def)
  have big: "\<not> pagespan heap * PAGESIZE \<le> 128" using span by (simp add: PAGESIZE_def)
  have ok: "pool_ok c" if "c \<in> pools ?meta" for c using layout_pool(1) [OF lay(1) that] .
  have "lo_pool ?meta mod LO_POOL_CHUNK_SIZE = 0 \<and> mid_pool ?meta mod MID_POOL_CHUNK_SIZE = 0
      \<and> hi_pool ?meta mod HI_POOL_CHUNK_SIZE = 0"
    using ok [of "lo_ctx ?meta"] ok [of "mid_ctx ?meta"] ok [of "hi_ctx ?meta"]
    by (simp add: pools_def pool_ok_def mod_eq_0_iff_dvd)
  then have r: "gallocator_init_heap m (Some heap) = Ret (Inr ?m)"
    using big by (simp add: gallocator_init_heap_def metasize_eq e Let_def)
  have hm: "heap_meta ?m heap = ?meta"
    using layout_fields_bound [OF lay(1) fit] lay(2) by (intro load_store_heap_meta) (simp_all add: HEAP_SIGNATURE_def)
  have keep: "?m x = m x" if "x < vaddr heap \<or> vaddr heap + heap_meta_size \<le> x" for x
    using that by (rule store_heap_meta_other)
  have "heap_inv ?m heap Map.empty"
  proof (rule heap_invI [OF hm lay(2,1)])
    fix c j assume c: "c \<in> pools ?meta" and j: "j < poolchunks c"
    note lc = layout_pool [OF lay(1) c]
    have "\<not> used ?m c j"
    proof -
      let ?x = "bitmapstart c + j div 8"
      have "j div 8 < bitmapsize c" using j pool_okD(3) [OF lc(1)] by (simp add: div_less_iff_less_mult)
      then have x: "vaddr heap + 128 \<le> ?x" "?x < heap_end heap"
        using lay(3) lc(2-5) by (simp_all add: pool_end_def chunk_addr_def)
      then have "?m ?x = 0" using keep [of ?x] zero [of ?x] by (simp add: heap_meta_size_def)
      then show ?thesis by (simp add: used_def)
    qed
    then show "used ?m c j \<longleftrightarrow> (\<exists>a sz al. Map.empty a = Some (sz, al)
        \<and> alloc_ctx_for_size sz ?meta = c \<and> j \<in> block_chunks c a sz)" by simp
  qed simp_all
  then show ?thesis using r keep hm by blast
qed

text \<open>A heap without pages is refused.\<close>

lemma init_heap_too_small:
  "pagespan heap = 0 \<Longrightarrow> gallocator_init_heap m (Some heap) = Ret (Inl ENOMEM)"
  by (simp add: gallocator_init_heap_def mul32_def Let_def)

end
