(* ===== verification/Kmalloc.thy ===== *)
theory Kmalloc
  imports GallocatorInit
begin

text \<open>
  \<^verbatim>\<open>kernel/mem/kmalloc.c\<close>: the kernel's allocation interface on top of a driver. A driver is a record
  of function pointers (\<open>KMallocDriver\<close>, with \<open>None\<close> for a null pointer; calling a null pointer is a
  panic). The module's static variables and the memory are the record \<open>kmstate\<close>. What a driver
  promises (the comments of \<^verbatim>\<open>include/dxgmx/kmalloc.h\<close>) is the locale \<open>kmalloc_driver\<close>, the module
  is verified once inside it, and the locale is interpreted on the general purpose allocator.
\<close>

section \<open>State\<close>

record KMallocStatistics =
  total_allocations :: nat
  total_frees :: nat
  total_allocated :: nat
  total_freed :: nat

record KMallocDriver =
  d_name :: "string option"
  d_priority :: nat
  d_init :: "int option"
  d_init_heap :: "(memory \<Rightarrow> Heap option \<Rightarrow> memory result outcome) option"
  d_alloc_aligned :: "(memory \<Rightarrow> nat \<Rightarrow> nat \<Rightarrow> Heap \<Rightarrow> (addr option \<times> memory) outcome option) option"
  d_realloc :: "(memory \<Rightarrow> addr \<Rightarrow> nat \<Rightarrow> Heap \<Rightarrow> (addr option \<times> memory) outcome option) option"
  d_allocation_size :: "(memory \<Rightarrow> addr \<Rightarrow> Heap \<Rightarrow> nat result) option"
  d_allocation_alignment :: "(memory \<Rightarrow> addr \<Rightarrow> Heap \<Rightarrow> nat result) option"
  d_is_valid_allocation :: "(addr \<Rightarrow> Heap \<Rightarrow> bool) option"
  d_free :: "(memory \<Rightarrow> addr \<Rightarrow> Heap \<Rightarrow> memory outcome) option"
  default_alignment :: nat

record kmstate =
  mem :: memory
  g_driver :: KMallocDriver
  g_heaps :: "Heap list"
  g_active_heap :: "nat option"
  g_statistics :: KMallocStatistics

definition KMALLOC_MAX_HEAPS :: nat where "KMALLOC_MAX_HEAPS = 4"

text \<open>Calling through a function pointer.\<close>

definition callp :: "'f option \<Rightarrow> ('f \<Rightarrow> 'r outcome option) \<Rightarrow> 'r outcome option" where
  "callp p k = (case p of None \<Rightarrow> Some Panic | Some f \<Rightarrow> k f)"

lemma callp_simps [simp]: "callp None k = Some Panic" "callp (Some f) k = k f"
  by (simp_all add: callp_def)

text \<open>The value of an \<open>ssize_t\<close> result as the \<open>size_t\<close> it is added to.\<close>

definition ssize_bits :: "nat result \<Rightarrow> nat" where
  "ssize_bits r = (case r of Inl e \<Rightarrow> sub32 0 (errno_code e) | Inr n \<Rightarrow> n mod W32)"

section \<open>Operations\<close>

definition kmalloc_check_driver :: "KMallocDriver \<Rightarrow> unit result" where
  "kmalloc_check_driver drv =
     (let valid = d_name drv \<noteq> None \<and> d_init drv \<noteq> None \<and> d_init_heap drv \<noteq> None
                  \<and> d_alloc_aligned drv \<noteq> None \<and> d_allocation_size drv \<noteq> None
                  \<and> d_allocation_alignment drv \<noteq> None \<and> d_is_valid_allocation drv \<noteq> None
                  \<and> d_free drv \<noteq> None;
          valid1 = (valid \<and> bw_is_power_of_two (word_of_nat (default_alignment drv)))
      in if \<not> valid1 then Inl EINVAL else Inr ())"

definition kmalloc_aligned_with_heap ::
    "nat \<Rightarrow> nat \<Rightarrow> Heap \<Rightarrow> kmstate \<Rightarrow> (addr option \<times> kmstate) outcome option" where
  "kmalloc_aligned_with_heap sz alignment heap s =
     callp (d_alloc_aligned (g_driver s)) (\<lambda>alloc_aligned.
       bind_run (alloc_aligned (mem s) sz alignment heap) (\<lambda>(a, m).
         let st = g_statistics s;
             st1 = st\<lparr>total_allocations := add32 (total_allocations st) 1,
                      total_allocated := add32 (total_allocated st) sz\<rparr>
         in Some (Ret (a, s\<lparr>mem := m, g_statistics := st1\<rparr>))))"

definition kfree_with_heap :: "addr \<Rightarrow> Heap \<Rightarrow> kmstate \<Rightarrow> kmstate outcome option" where
  "kfree_with_heap a heap s =
     callp (d_allocation_size (g_driver s)) (\<lambda>allocation_size.
       let sz = allocation_size (mem s) a heap;
           st = g_statistics s;
           st1 = st\<lparr>total_frees := add32 (total_frees st) 1,
                    total_freed := add32 (total_freed st) (ssize_bits sz)\<rparr>
       in callp (d_free (g_driver s)) (\<lambda>free.
            bind_run (Some (free (mem s) a heap)) (\<lambda>m.
              Some (Ret (s\<lparr>mem := m, g_statistics := st1\<rparr>)))))"

definition kmalloc_register_heap :: "Heap \<Rightarrow> kmstate \<Rightarrow> (nat result \<times> kmstate) outcome option" where
  "kmalloc_register_heap heap s =
     (if length (g_heaps s) = KMALLOC_MAX_HEAPS then Some (Ret (Inl ENOSPC, s))
      else callp (d_init_heap (g_driver s)) (\<lambda>init_heap.
        bind_run (Some (init_heap (mem s) (Some heap))) (\<lambda>r.
          case r of
            Inl e \<Rightarrow> Some Panic
          | Inr m \<Rightarrow> Some (Ret (Inr (length (g_heaps s)), s\<lparr>mem := m, g_heaps := g_heaps s @ [heap]\<rparr>)))))"

definition kmalloc_use_heap :: "nat \<Rightarrow> kmstate \<Rightarrow> unit result \<times> kmstate" where
  "kmalloc_use_heap hid s =
     (if hid \<ge> length (g_heaps s) then (Inl EINVAL, s)
      else (Inr (), s\<lparr>g_active_heap := Some hid\<rparr>))"

fun kmalloc_owns_va_from :: "addr \<Rightarrow> Heap list \<Rightarrow> bool" where
  "kmalloc_owns_va_from va [] = False"
| "kmalloc_owns_va_from va (h # hs) =
     (if heap_is_addr_inside va h then True else kmalloc_owns_va_from va hs)"

definition kmalloc_owns_va :: "addr \<Rightarrow> kmstate \<Rightarrow> bool" where
  "kmalloc_owns_va va s = kmalloc_owns_va_from va (g_heaps s)"

text \<open>\<open>_Alignof(max_align_t)\<close> is the compiler's, the argument \<open>max_align\<close>.\<close>

definition gallocator_driver :: "nat \<Rightarrow> KMallocDriver" where
  "gallocator_driver max_align = \<lparr>d_name = Some ''gallocator'', d_priority = 1,
     d_init = Some gallocator_init, d_init_heap = Some gallocator_init_heap,
     d_alloc_aligned = Some gallocator_alloc_aligned, d_realloc = None,
     d_allocation_size = Some gallocator_allocation_size,
     d_allocation_alignment = Some gallocator_allocation_alignment,
     d_is_valid_allocation = Some gallocator_is_valid_allocation,
     d_free = Some gallocator_free, default_alignment = max_align\<rparr>"

definition kmalloc_init :: "nat \<Rightarrow> kmstate \<Rightarrow> (int result \<times> kmstate) outcome option" where
  "kmalloc_init max_align s =
     (let s1 = s\<lparr>g_driver := gallocator_driver max_align\<rparr> in
      case kmalloc_check_driver (g_driver s1) of
        Inl e \<Rightarrow> Some (Ret (Inl e, s1))
      | Inr _ \<Rightarrow> callp (d_init (g_driver s1)) (\<lambda>st. Some (Ret (Inr st, s1))))"

text \<open>The heap that \<open>g_active_heap\<close> points to; a null pointer faults.\<close>

definition with_active_heap :: "kmstate \<Rightarrow> (Heap \<Rightarrow> 'r outcome option) \<Rightarrow> 'r outcome option" where
  "with_active_heap s k =
     (case g_active_heap s of
        None \<Rightarrow> Some Panic
      | Some i \<Rightarrow> if i < length (g_heaps s) then k (g_heaps s ! i) else Some Panic)"

definition kmalloc_aligned :: "nat \<Rightarrow> nat \<Rightarrow> kmstate \<Rightarrow> (addr option \<times> kmstate) outcome option" where
  "kmalloc_aligned sz alignment s =
     (if sz = 0 then Some (Ret (None, s))
      else if \<not> bw_is_power_of_two (word_of_nat alignment) then Some Panic
      else with_active_heap s (\<lambda>heap.
        bind_run (kmalloc_aligned_with_heap sz alignment heap s) (\<lambda>(a, s1).
          if (case a of None \<Rightarrow> 0 | Some p \<Rightarrow> p) mod alignment = 0 then Some (Ret (a, s1))
          else Some Panic)))"

definition kmalloc :: "nat \<Rightarrow> kmstate \<Rightarrow> (addr option \<times> kmstate) outcome option" where
  "kmalloc sz s = kmalloc_aligned sz (default_alignment (g_driver s)) s"

definition kcalloc :: "nat \<Rightarrow> kmstate \<Rightarrow> (addr option \<times> kmstate) outcome option" where
  "kcalloc sz s =
     bind_run (kmalloc sz s) (\<lambda>(a, s1).
       case a of
         None \<Rightarrow> Some (Ret (None, s1))
       | Some p \<Rightarrow> Some (Ret (Some p, s1\<lparr>mem := memset (mem s1) p 0 sz\<rparr>)))"

definition kfree :: "addr option \<Rightarrow> kmstate \<Rightarrow> kmstate outcome option" where
  "kfree a s =
     (case a of
        None \<Rightarrow> Some Panic
      | Some p \<Rightarrow> with_active_heap s (\<lambda>heap.
          if \<not> heap_is_addr_inside p heap then Some Panic
          else kfree_with_heap p heap s))"

text \<open>The branch of \<open>krealloc\<close> for a non-null address and a driver without \<open>realloc\<close>.\<close>

definition krealloc_copy :: "addr \<Rightarrow> nat \<Rightarrow> Heap \<Rightarrow> kmstate \<Rightarrow> (addr option \<times> kmstate) outcome option" where
  "krealloc_copy p sz heap s =
     callp (d_allocation_size (g_driver s)) (\<lambda>allocation_size.
       let res = ssize_bits (allocation_size (mem s) p heap) in
       if res = 0 \<or> res \<ge> 2147483648 then Some (Ret (None, s))
       else if res = sz then Some (Ret (Some p, s))
       else callp (d_allocation_alignment (g_driver s)) (\<lambda>allocation_alignment.
         let ares = ssize_bits (allocation_alignment (mem s) p heap) in
         if ares \<ge> 2147483648 then Some (Ret (None, s))
         else if \<not> bw_is_power_of_two (word_of_nat ares) then Some Panic
         else bind_run (kmalloc_aligned_with_heap sz ares heap s) (\<lambda>(r, s1).
           case r of
             None \<Rightarrow> Some (Ret (None, s1))
           | Some q \<Rightarrow>
               bind_run
                 (kfree_with_heap p heap (s1\<lparr>mem := memcpy (mem s1) q p (if res < sz then res else sz)\<rparr>))
                 (\<lambda>s2. Some (Ret (Some q, s2))))))"

definition krealloc :: "addr option \<Rightarrow> nat \<Rightarrow> kmstate \<Rightarrow> (addr option \<times> kmstate) outcome option" where
  "krealloc a sz s =
     (if sz = 0 then Some (Ret (None, s))
      else with_active_heap s (\<lambda>heap.
        case a of
          Some p \<Rightarrow>
            if \<not> heap_is_addr_inside p heap then Some (Ret (None, s))
            else (case d_realloc (g_driver s) of
                    Some realloc \<Rightarrow>
                      bind_run (realloc (mem s) p sz heap) (\<lambda>(r, m). Some (Ret (r, s\<lparr>mem := m\<rparr>)))
                  | None \<Rightarrow> krealloc_copy p sz heap s)
        | None \<Rightarrow> kmalloc_aligned_with_heap sz (default_alignment (g_driver s)) heap s))"

section \<open>What a driver promises\<close>

text \<open>
  \<open>inv m heap live\<close>: memory \<open>m\<close> is a heap of this driver whose allocations are \<open>live\<close>. The laws are
  those of the comments of \<open>KMallocDriver\<close>: allocations are aligned, inside the heap and apart, an
  operation keeps the contents of the other allocations, and a failed allocation changes nothing.
\<close>

locale kmalloc_driver =
  fixes drv :: KMallocDriver
    and inv :: "memory \<Rightarrow> Heap \<Rightarrow> live_map \<Rightarrow> bool"
    and alloc_aligned :: "memory \<Rightarrow> nat \<Rightarrow> nat \<Rightarrow> Heap \<Rightarrow> (addr option \<times> memory) outcome option"
    and allocation_size allocation_alignment :: "memory \<Rightarrow> addr \<Rightarrow> Heap \<Rightarrow> nat result"
    and free :: "memory \<Rightarrow> addr \<Rightarrow> Heap \<Rightarrow> memory outcome"
  assumes fields: "d_alloc_aligned drv = Some alloc_aligned"
    "d_allocation_size drv = Some allocation_size"
    "d_allocation_alignment drv = Some allocation_alignment"
    "d_free drv = Some free" "d_realloc drv = None"
    and alloc_returns: "inv m heap live \<Longrightarrow> 0 < sz \<Longrightarrow> sz < W32 \<Longrightarrow> al < W32 \<Longrightarrow> \<exists>k. al = 2 ^ k \<Longrightarrow>
      \<exists>r m'. alloc_aligned m sz al heap = Some (Ret (r, m'))"
    and alloc_null: "inv m heap live \<Longrightarrow> 0 < sz \<Longrightarrow> sz < W32 \<Longrightarrow> al < W32 \<Longrightarrow> \<exists>k. al = 2 ^ k \<Longrightarrow>
      alloc_aligned m sz al heap = Some (Ret (None, m')) \<Longrightarrow> m' = m"
    and alloc_some: "inv m heap live \<Longrightarrow> 0 < sz \<Longrightarrow> sz < W32 \<Longrightarrow> al < W32 \<Longrightarrow> \<exists>k. al = 2 ^ k \<Longrightarrow>
      alloc_aligned m sz al heap = Some (Ret (Some a, m')) \<Longrightarrow>
      live a = None \<and> inv m' heap (live(a \<mapsto> (sz, al))) \<and>
      (\<forall>b sz' al' x. live b = Some (sz', al') \<and> b \<le> x \<and> x < b + sz' \<longrightarrow> m' x = m x)"
    and meta: "inv m heap live \<Longrightarrow> live a = Some (sz, al) \<Longrightarrow>
      allocation_size m a heap = Inr sz \<and> allocation_alignment m a heap = Inr al"
    and block: "inv m heap live \<Longrightarrow> live a = Some (sz, al) \<Longrightarrow>
      0 < sz \<and> sz < W32 \<and> al < W32 \<and> (\<exists>k. al = 2 ^ k) \<and> al dvd a \<and> vaddr heap \<le> a \<and> 0 < a \<and>
      a + sz \<le> heap_end heap"
    and apart: "inv m heap live \<Longrightarrow> live a = Some (sz, al) \<Longrightarrow> live b = Some (sz', al') \<Longrightarrow> a \<noteq> b \<Longrightarrow>
      a + sz \<le> b \<or> b + sz' \<le> a"
    and client: "inv m heap live \<Longrightarrow> live a = Some (sz, al) \<Longrightarrow>
      (\<And>x. x < a \<or> a + sz \<le> x \<Longrightarrow> m' x = m x) \<Longrightarrow> inv m' heap live"
    and free_live: "inv m heap live \<Longrightarrow> live a = Some (sz, al) \<Longrightarrow>
      \<exists>m'. free m a heap = Ret m' \<and> inv m' heap (live(a := None)) \<and>
        (\<forall>b sz' al' x. live b = Some (sz', al') \<and> b \<noteq> a \<and> b \<le> x \<and> x < b + sz' \<longrightarrow> m' x = m x)"


section \<open>The module over any driver\<close>

lemma power_of_two_word: "al < W64 \<Longrightarrow> bw_is_power_of_two (word_of_nat al) \<longleftrightarrow> (\<exists>k. al = 2 ^ k)"
  by (simp add: bw_is_power_of_two_iff unat_of_nat take_bit_eq_mod)

lemma addr_inside_iff:
  "heap_end heap < W32 \<Longrightarrow> heap_is_addr_inside a heap \<longleftrightarrow> vaddr heap \<le> a \<and> a < heap_end heap"
  by (simp add: heap_is_addr_inside_def heap_end_def Let_def add32_exact mul32_exact)

definition active_heap_is :: "kmstate \<Rightarrow> Heap \<Rightarrow> bool" where
  "active_heap_is s heap \<longleftrightarrow>
     (\<exists>i. g_active_heap s = Some i \<and> i < length (g_heaps s) \<and> g_heaps s ! i = heap) \<and> heap_end heap < W32"

lemma active_heap_simps [simp]:
  "active_heap_is (s\<lparr>mem := m\<rparr>) heap = active_heap_is s heap"
  "active_heap_is (s\<lparr>g_statistics := st\<rparr>) heap = active_heap_is s heap"
  by (simp_all add: active_heap_is_def)

lemma with_active_heap: "active_heap_is s heap \<Longrightarrow> with_active_heap s k = k heap"
  by (auto simp: active_heap_is_def with_active_heap_def)

text \<open>Two memories agree on the contents of the allocations of a map.\<close>

definition keeps :: "live_map \<Rightarrow> memory \<Rightarrow> memory \<Rightarrow> bool" where
  "keeps live m m' \<longleftrightarrow> (\<forall>b sz al x. live b = Some (sz, al) \<and> b \<le> x \<and> x < b + sz \<longrightarrow> m' x = m x)"

lemma keepsD: "keeps live m m' \<Longrightarrow> live b = Some (sz, al) \<Longrightarrow> i < sz \<Longrightarrow> m' (b + i) = m (b + i)"
  unfolding keeps_def by (metis le_add1 nat_add_left_cancel_less)

lemma keeps_trans: "keeps live m m' \<Longrightarrow> keeps live m' m'' \<Longrightarrow> keeps live m m''"
  by (simp add: keeps_def)

lemma keeps_refl [simp]: "keeps live m m"
  by (simp add: keeps_def)

lemma keeps_mono: "live \<subseteq>\<^sub>m live' \<Longrightarrow> keeps live' m m' \<Longrightarrow> keeps live m m'"
  unfolding keeps_def map_le_def by (metis domIff option.distinct(1))

text \<open>The module runs driver \<open>drv\<close>, the heap in use is \<open>heap\<close> and holds the allocations \<open>live\<close>.\<close>

definition km_ok ::
    "KMallocDriver \<Rightarrow> (memory \<Rightarrow> Heap \<Rightarrow> live_map \<Rightarrow> bool) \<Rightarrow> kmstate \<Rightarrow> Heap \<Rightarrow> live_map \<Rightarrow> bool" where
  "km_ok drv hinv s heap live \<longleftrightarrow> g_driver s = drv \<and> active_heap_is s heap \<and> hinv (mem s) heap live"

context kmalloc_driver
begin

lemma with_heap_alloc:
  assumes ok: "km_ok drv inv s heap live" and sz: "0 < sz" "sz < W32" and al: "al < W32" "\<exists>k. al = 2 ^ k"
  shows "\<exists>r s'. kmalloc_aligned_with_heap sz al heap s = Some (Ret (r, s')) \<and>
    total_allocations (g_statistics s') = add32 (total_allocations (g_statistics s)) 1 \<and>
    total_frees (g_statistics s') = total_frees (g_statistics s) \<and>
    (case r of
       None \<Rightarrow> mem s' = mem s \<and> km_ok drv inv s' heap live
     | Some a \<Rightarrow> live a = None \<and> km_ok drv inv s' heap (live(a \<mapsto> (sz, al))) \<and> keeps live (mem s) (mem s'))"
proof -
  from ok have inv: "inv (mem s) heap live" and d: "g_driver s = drv" by (auto simp: km_ok_def)
  obtain r m' where r: "alloc_aligned (mem s) sz al heap = Some (Ret (r, m'))"
    using alloc_returns [OF inv sz al] by blast
  show ?thesis
  proof (cases r)
    case None
    then have "m' = mem s" using alloc_null [OF inv sz al] r by simp
    then show ?thesis using ok None r d
      by (simp add: kmalloc_aligned_with_heap_def fields km_ok_def Let_def)
  next
    case (Some a)
    then have "alloc_aligned (mem s) sz al heap = Some (Ret (Some a, m'))" using r by simp
    note new = alloc_some [OF inv sz al this]
    then show ?thesis using ok Some r d
      by (auto simp: kmalloc_aligned_with_heap_def fields km_ok_def Let_def keeps_def)
  qed
qed

lemma kmalloc_aligned_ok:
  assumes ok: "km_ok drv inv s heap live" and sz: "0 < sz" "sz < W32" and al: "al < W32" "\<exists>k. al = 2 ^ k"
  shows "\<exists>r s'. kmalloc_aligned sz al s = Some (Ret (r, s')) \<and>
    (case r of
       None \<Rightarrow> mem s' = mem s \<and> km_ok drv inv s' heap live
     | Some a \<Rightarrow> live a = None \<and> al dvd a \<and> km_ok drv inv s' heap (live(a \<mapsto> (sz, al))) \<and> keeps live (mem s) (mem s'))"
proof -
  have act: "active_heap_is s heap" using ok by (simp add: km_ok_def)
  have p: "bw_is_power_of_two (word_of_nat al)" using al by (simp add: power_of_two_word)
  obtain r s' where r: "kmalloc_aligned_with_heap sz al heap s = Some (Ret (r, s'))"
    and c: "case r of None \<Rightarrow> mem s' = mem s \<and> km_ok drv inv s' heap live
     | Some a \<Rightarrow> live a = None \<and> km_ok drv inv s' heap (live(a \<mapsto> (sz, al))) \<and> keeps live (mem s) (mem s')"
    using with_heap_alloc [OF assms] by blast
  have dv: "al dvd a" if "r = Some a" for a
    using c that block [of "mem s'" heap "live(a \<mapsto> (sz, al))" a sz al] by (simp add: km_ok_def)
  have "kmalloc_aligned sz al s = Some (Ret (r, s'))"
    using sz(1) p r dv by (auto simp: kmalloc_aligned_def with_active_heap [OF act] split: option.splits)
  then show ?thesis using c dv by (auto split: option.splits)
qed

lemma kfree_with_heap_ok:
  assumes ok: "km_ok drv inv s heap live" and a: "live a = Some (sz, al)"
  shows "\<exists>s'. kfree_with_heap a heap s = Some (Ret s') \<and> km_ok drv inv s' heap (live(a := None)) \<and>
    keeps (live(a := None)) (mem s) (mem s')"
proof -
  from ok have inv: "inv (mem s) heap live" and d: "g_driver s = drv" by (auto simp: km_ok_def)
  obtain m' where m': "free (mem s) a heap = Ret m'" "inv m' heap (live(a := None))"
    "\<forall>b sz' al' x. live b = Some (sz', al') \<and> b \<noteq> a \<and> b \<le> x \<and> x < b + sz' \<longrightarrow> m' x = mem s x"
    using free_live [OF inv a] by blast
  have "keeps (live(a := None)) (mem s) m'"
    unfolding keeps_def using m'(3) by (auto split: if_splits)
  then show ?thesis using ok m'(1,2) d
    by (simp add: kfree_with_heap_def fields km_ok_def Let_def)
qed

lemma live_inside:
  assumes ok: "km_ok drv inv s heap live" and a: "live a = Some (sz, al)"
  shows "heap_is_addr_inside a heap"
proof -
  have "heap_end heap < W32" using ok by (simp add: km_ok_def active_heap_is_def)
  then show ?thesis using block [of "mem s" heap live a sz al] a ok
    by (auto simp: addr_inside_iff km_ok_def)
qed

lemma kfree_ok:
  assumes ok: "km_ok drv inv s heap live" and a: "live a = Some (sz, al)"
  shows "\<exists>s'. kfree (Some a) s = Some (Ret s') \<and> km_ok drv inv s' heap (live(a := None)) \<and>
    keeps (live(a := None)) (mem s) (mem s')"
  using kfree_with_heap_ok [OF assms] live_inside [OF assms] ok
  by (auto simp: kfree_def km_ok_def with_active_heap)

lemma client_keeps:
  assumes inv: "inv m heap live" and a: "live a = Some (sz, al)"
    and out: "\<And>x. x < a \<or> a + sz \<le> x \<Longrightarrow> m' x = m x"
  shows "keeps (live(a := None)) m m'"
  unfolding keeps_def
proof (intro allI impI)
  fix b sz' al' x assume b: "(live(a := None)) b = Some (sz', al') \<and> b \<le> x \<and> x < b + sz'"
  then have "live b = Some (sz', al')" "b \<noteq> a" by (auto split: if_splits)
  then show "m' x = m x" using apart [OF inv a] b by (intro out) force
qed

lemma kcalloc_ok:
  assumes ok: "km_ok drv inv s heap live" and sz: "0 < sz" "sz < W32"
    and al: "default_alignment drv < W32" "\<exists>k. default_alignment drv = 2 ^ k"
  shows "\<exists>r s'. kcalloc sz s = Some (Ret (r, s')) \<and>
    (case r of
       None \<Rightarrow> mem s' = mem s \<and> km_ok drv inv s' heap live
     | Some a \<Rightarrow> live a = None \<and> km_ok drv inv s' heap (live(a \<mapsto> (sz, default_alignment drv))) \<and>
         keeps live (mem s) (mem s') \<and> (\<forall>i < sz. mem s' (a + i) = 0))"
proof -
  let ?al = "default_alignment drv"
  have d: "g_driver s = drv" using ok by (simp add: km_ok_def)
  obtain r s1 where r: "kmalloc_aligned sz ?al s = Some (Ret (r, s1))"
    and c: "case r of None \<Rightarrow> mem s1 = mem s \<and> km_ok drv inv s1 heap live
     | Some a \<Rightarrow> live a = None \<and> ?al dvd a \<and> km_ok drv inv s1 heap (live(a \<mapsto> (sz, ?al))) \<and> keeps live (mem s) (mem s1)"
    using kmalloc_aligned_ok [OF ok sz al] by blast
  show ?thesis
  proof (cases r)
    case None
    then show ?thesis using r c d by (simp add: kcalloc_def kmalloc_def)
  next
    case (Some a)
    let ?m = "memset (mem s1) a 0 sz"
    have c': "live a = None" "km_ok drv inv s1 heap (live(a \<mapsto> (sz, ?al)))" "keeps live (mem s) (mem s1)"
      using c Some by auto
    have out: "?m x = mem s1 x" if "x < a \<or> a + sz \<le> x" for x
      using that by (simp add: memset_eq fill_mem_other)
    have i1: "inv (mem s1) heap (live(a \<mapsto> (sz, ?al)))" using c'(2) by (simp add: km_ok_def)
    then have "inv ?m heap (live(a \<mapsto> (sz, ?al)))" by (rule client [where a = a]) (auto intro: out)
    moreover have "keeps live (mem s1) ?m"
      using client_keeps [OF i1, of a sz ?al ?m] out c'(1) by (simp add: fun_upd_idem)
    moreover have "?m (a + i) = 0" if "i < sz" for i using that by (simp add: memset_eq fill_mem_inside)
    ultimately show ?thesis using r Some c' d
      by (auto simp: kcalloc_def kmalloc_def km_ok_def intro: keeps_trans)
  qed
qed


text \<open>
  \<open>krealloc\<close> of a live allocation: null when the size cannot be served, with everything unchanged;
  otherwise a block of the new size and the same alignment that holds the old contents up to the
  smaller of the sizes, while the old block is gone and the other blocks keep their contents. An
  allocation of $2^{31}$ bytes or more is not resized (its size reads as negative).
\<close>

lemma krealloc_full:
  assumes ok: "km_ok drv inv s heap live" and a: "live a = Some (sz, al)"
    and n: "0 < n" "n < W32" and small: "sz < 2147483648" "al < 2147483648"
  shows "\<exists>r s'. krealloc (Some a) n s = Some (Ret (r, s')) \<and>
    (case r of
       None \<Rightarrow> mem s' = mem s \<and> km_ok drv inv s' heap live
     | Some b \<Rightarrow> km_ok drv inv s' heap ((live(a := None))(b \<mapsto> (n, al))) \<and>
         keeps (live(a := None)) (mem s) (mem s') \<and> (if n = sz then b = a else live b = None) \<and>
         (\<forall>i < min sz n. mem s' (b + i) = mem s (a + i)))"
proof -
  have act: "active_heap_is s heap" and inv: "inv (mem s) heap live" and d: "g_driver s = drv"
    using ok by (auto simp: km_ok_def)
  note blk = block [OF inv a] and mt = meta [OF inv a]
  have e: "krealloc (Some a) n s = krealloc_copy a n heap s"
    using n(1) live_inside [OF ok a] d by (simp add: krealloc_def with_active_heap [OF act] fields)
  show ?thesis
  proof (cases "n = sz")
    case True
    then have "krealloc_copy a n heap s = Some (Ret (Some a, s))"
      using mt d small blk by (simp add: krealloc_copy_def fields ssize_bits_def Let_def)
    moreover have "(live(a := None))(a \<mapsto> (n, al)) = live" using a True by (auto simp: fun_eq_iff)
    ultimately show ?thesis using e ok True by simp
  next
    case False
    have p: "bw_is_power_of_two (word_of_nat al)" using blk by (simp add: power_of_two_word)
    have al: "al < W32" "\<exists>k. al = 2 ^ k" using blk by auto
    obtain r s1 where r: "kmalloc_aligned_with_heap n al heap s = Some (Ret (r, s1))"
      and c: "case r of None \<Rightarrow> mem s1 = mem s \<and> km_ok drv inv s1 heap live
       | Some b \<Rightarrow> live b = None \<and> km_ok drv inv s1 heap (live(b \<mapsto> (n, al))) \<and> keeps live (mem s) (mem s1)"
      using with_heap_alloc [OF ok n al] by blast
    have step: "krealloc_copy a n heap s =
        (case r of None \<Rightarrow> Some (Ret (None, s1))
         | Some q \<Rightarrow> bind_run (kfree_with_heap a heap (s1\<lparr>mem := memcpy (mem s1) q a (min sz n)\<rparr>))
             (\<lambda>s2. Some (Ret (Some q, s2))))"
      using mt d small blk False p r
      by (simp add: krealloc_copy_def fields ssize_bits_def Let_def min_def split: option.split)
    show ?thesis
    proof (cases r)
      case None
      then show ?thesis using e step c by simp
    next
      case (Some b)
      then have b: "live b = None" "km_ok drv inv s1 heap (live(b \<mapsto> (n, al)))" "keeps live (mem s) (mem s1)"
        using c by auto
      have ab: "a \<noteq> b" using a b(1) by auto
      let ?live = "live(b \<mapsto> (n, al))" and ?k = "min sz n"
      let ?m = "memcpy (mem s1) b a ?k"
      have i1: "inv (mem s1) heap ?live" using b(2) by (simp add: km_ok_def)
      have dis: "b + ?k \<le> a \<or> a + ?k \<le> b"
        using apart [OF i1, of a sz al b n al] a ab by auto
      have cp: "?m x = (if b \<le> x \<and> x < b + ?k then mem s1 (a + (x - b)) else mem s1 x)" for x
        using dis by (simp add: memcpy_apply)
      have out: "?m x = mem s1 x" if "x < b \<or> b + n \<le> x" for x using that by (auto simp: cp)
      have i2: "inv ?m heap ?live" by (rule client [OF i1, of b n al]) (auto intro: out)
      have k2: "keeps (?live(b := None)) (mem s1) ?m" by (rule client_keeps [OF i1, of b n al]) (auto intro: out)
      have ok2: "km_ok drv inv (s1\<lparr>mem := ?m\<rparr>) heap ?live" using b(2) i2 by (simp add: km_ok_def)
      obtain s2 where s2: "kfree_with_heap a heap (s1\<lparr>mem := ?m\<rparr>) = Some (Ret s2)"
        "km_ok drv inv s2 heap (?live(a := None))" "keeps (?live(a := None)) ?m (mem s2)"
        using kfree_with_heap_ok [OF ok2, of a sz al] a ab by auto
      have maps: "?live(a := None) = (live(a := None))(b \<mapsto> (n, al))" "?live(b := None) = live"
        using ab b(1) by (auto simp: fun_eq_iff)
      have "keeps (live(a := None)) ?m (mem s2)"
        using s2(3) maps(1) b(1) by (intro keeps_mono [OF _ s2(3)]) (auto simp: map_le_def)
      moreover have "keeps (live(a := None)) (mem s) ?m"
        using keeps_trans [OF b(3)] k2 maps(2) by (intro keeps_mono [of "live(a := None)" live]) (auto simp: map_le_def)
      ultimately have "keeps (live(a := None)) (mem s) (mem s2)" by (meson keeps_trans)
      moreover have "mem s2 (b + i) = mem s (a + i)" if "i < ?k" for i
      proof -
        have "(?live(a := None)) b = Some (n, al)" using ab by simp
        then have "mem s2 (b + i) = ?m (b + i)" using that by (intro keepsD [OF s2(3)]) auto
        also have "\<dots> = mem s1 (a + i)" using that by (simp add: cp)
        also have "\<dots> = mem s (a + i)" using that by (intro keepsD [OF b(3) a]) auto
        finally show ?thesis .
      qed
      ultimately show ?thesis using e step Some s2 maps(1) b(1) False by auto
    qed
  qed
qed

lemma krealloc_ok:
  assumes ok: "km_ok drv inv s heap live" and a: "live a = Some (sz, al)"
    and n: "0 < n" "n < W32" and small: "sz < 2147483648" "al < 2147483648"
  shows "\<exists>r s'. krealloc (Some a) n s = Some (Ret (r, s')) \<and>
    (case r of
       None \<Rightarrow> mem s' = mem s \<and> km_ok drv inv s' heap live
     | Some b \<Rightarrow> km_ok drv inv s' heap ((live(a := None))(b \<mapsto> (n, al))) \<and>
         keeps (live(a := None)) (mem s) (mem s') \<and> (b = a \<or> live b = None) \<and>
         (\<forall>i < min sz n. mem s' (b + i) = mem s (a + i)))"
proof -
  obtain r s' where k: "krealloc (Some a) n s = Some (Ret (r, s'))"
    and c: "case r of
       None \<Rightarrow> mem s' = mem s \<and> km_ok drv inv s' heap live
     | Some b \<Rightarrow> km_ok drv inv s' heap ((live(a := None))(b \<mapsto> (n, al))) \<and>
         keeps (live(a := None)) (mem s) (mem s') \<and> (if n = sz then b = a else live b = None) \<and>
         (\<forall>i < min sz n. mem s' (b + i) = mem s (a + i))"
    using krealloc_full [OF assms] by blast
  show ?thesis
  proof (cases r)
    case None
    then show ?thesis using k c by simp
  next
    case (Some b)
    then have "b = a \<or> live b = None" using c by (simp split: if_splits)
    then show ?thesis using k c Some by (intro exI [of _ r] exI [of _ s']) simp
  qed
qed

end

section \<open>The general purpose allocator is a driver\<close>

lemma gallocator_block:
  assumes inv: "heap_inv m heap live" and a: "live a = Some (sz, al)"
  shows "0 < sz \<and> sz < W32 \<and> al < W32 \<and> (\<exists>k. al = 2 ^ k) \<and> al dvd a \<and> vaddr heap \<le> a \<and> 0 < a \<and>
    a + sz \<le> heap_end heap"
  using heap_inv_block(1) [OF assms] live_bounds [OF assms] by (auto simp: block_ok_def)

interpretation gd: kmalloc_driver "gallocator_driver max_align" heap_inv gallocator_alloc_aligned
    gallocator_allocation_size gallocator_allocation_alignment gallocator_free for max_align
proof (unfold_locales, goal_cases)
  case (6 m heap live sz al)
  then show ?case using alloc_aligned_contract by blast
next
  case (7 m heap live sz al m')
  then obtain k where "al = 2 ^ k" by blast
  with alloc_aligned_contract [of m heap live sz al k] 7 show ?case by auto
next
  case (8 m heap live sz al a m')
  then obtain k where "al = 2 ^ k" by blast
  with alloc_aligned_contract [of m heap live sz al k] 8 have
    "live a = None \<and> heap_inv m' heap (live(a \<mapsto> (sz, al))) \<and>
     (\<forall>b sz' al' x. live b = Some (sz', al') \<and> b - 16 \<le> x \<and> x < b + sz' \<longrightarrow> m' x = m x)" by auto
  then show ?case by (meson diff_le_self le_trans)
next
  case (9 m heap live a sz al)
  then show ?case using allocation_size_live by blast
next
  case (10 m heap live a sz al)
  then show ?case by (rule gallocator_block)
next
  case (11 m heap live a sz al b sz' al')
  then show ?case using live_apart [of m heap live a sz al b sz' al'] by linarith
next
  case (12 m heap live a sz al m')
  then show ?case by (rule client_write_inv)
next
  case (13 m heap live a sz al)
  then show ?case
    using gallocator_free_eq [OF 13 refl] free_mem_inv [OF 13 refl] by fastforce
qed (simp_all add: gallocator_driver_def)

end
