(* ===== verification/HeapExample.thy ===== *)
theory HeapExample
  imports Kmalloc
begin

text \<open>
  A concrete heap: one page at address 4096 of a zeroed memory, initialised by
  \<open>gallocator_init_heap\<close>. It shows that the hypotheses of the theorems on the allocator can be met.
\<close>

definition demo_heap :: Heap where
  "demo_heap = \<lparr>vaddr = 4096, pagespan = 1\<rparr>"

definition demo_mem :: memory where
  "demo_mem = (case gallocator_init_heap (\<lambda>_. 0) (Some demo_heap) of
     Ret (Inr m) \<Rightarrow> m | _ \<Rightarrow> (\<lambda>_. 0))"

lemma demo_heap_end: "heap_end demo_heap = 8192"
  by (simp add: heap_end_def demo_heap_def PAGESIZE_def)

lemma demo_inv_meta:
  "heap_inv demo_mem demo_heap Map.empty \<and>
   heap_meta demo_mem demo_heap = init_heap_meta demo_heap (pagespan demo_heap * PAGESIZE) 128"
proof -
  have "0 < pagespan demo_heap" "heap_end demo_heap < W32" by (simp add: demo_heap_def, simp add: demo_heap_end)
  then obtain m' where "gallocator_init_heap (\<lambda>_. 0) (Some demo_heap) = Ret (Inr m')" "heap_inv m' demo_heap Map.empty"
    "heap_meta m' demo_heap = init_heap_meta demo_heap (pagespan demo_heap * PAGESIZE) 128"
    using init_heap_contract [of demo_heap "\<lambda>_. 0"] by blast
  then show ?thesis by (simp add: demo_mem_def)
qed

lemmas demo_inv = demo_inv_meta [THEN conjunct1]
lemmas demo_meta = demo_inv_meta [THEN conjunct2]

lemma demo_mid_pool:
  "14 \<le> poolchunks (size_pool demo_mem demo_heap 100)" "chunksize (size_pool demo_mem demo_heap 100) = 64"
  "64 dvd poolstart (size_pool demo_mem demo_heap 100)"
proof -
  have c: "0 < pagespan demo_heap" "heap_end demo_heap < W32" by (simp add: demo_heap_def, simp add: demo_heap_end)
  have p: "size_pool demo_mem demo_heap 100 = mid_ctx (heap_meta demo_mem demo_heap)"
    by (simp add: alloc_ctx_for_size_def chunk_size_defs)
  show "14 \<le> poolchunks (size_pool demo_mem demo_heap 100)"
    using init_heap_meta_layout(5) [OF c] by (simp add: p) (simp add: demo_meta)
  show k: "chunksize (size_pool demo_mem demo_heap 100) = 64" unfolding p by (simp add: chunk_size_defs)
  show "64 dvd poolstart (size_pool demo_mem demo_heap 100)"
    using layout_pool(1) [OF heap_inv_layout(2) [OF demo_inv] pool_for_size [of 100]] k by (simp add: pool_ok_def)
qed

lemma demo_alloc:
  "\<exists>a m'. gallocator_alloc_aligned demo_mem 100 16 demo_heap = Some (Ret (Some a, m')) \<and>
     heap_inv m' demo_heap [a \<mapsto> (100, 16)]"
proof -
  let ?c = "size_pool demo_mem demo_heap 100"
  have n: "ceil_ratio 100 (chunksize ?c) = 2" by (simp add: demo_mid_pool ceil_ratio_def)
  have "\<not> used demo_mem ?c j" if "j < poolchunks ?c" for j
    using heap_inv_used [OF demo_inv pool_for_size that] by simp
  moreover have "aligned_at 16 ?c 1"
    using demo_mid_pool(2) dvd_trans [OF _ demo_mid_pool(3), of 16] by (simp add: aligned_at_def chunk_addr_def)
  ultimately have f: "fits demo_mem ?c 16 2 1" using demo_mid_pool(1) by (simp add: fits_def)
  obtain k where k: "16 = (2 :: nat) ^ k" by (rule that [of 4]) simp
  have sz: "0 < (100 :: nat)" "100 < (W32 :: nat)" "16 < (W32 :: nat)" by simp_all
  note contract = alloc_aligned_contract [OF demo_inv sz(1,2) k sz(3)]
  then obtain r m' where r: "gallocator_alloc_aligned demo_mem 100 16 demo_heap = Some (Ret (r, m'))" by blast
  show ?thesis
  proof (cases r)
    case None
    then have "\<forall>j. fits demo_mem ?c 16 2 j \<longrightarrow> \<not> j + 2 < poolchunks ?c"
      using contract r by (simp only: n Let_def) simp
    then show ?thesis using f demo_mid_pool(1) by fastforce
  next
    case (Some a)
    then have "heap_inv m' demo_heap [a \<mapsto> (100, 16)]" using contract r by simp
    then show ?thesis using r Some by blast
  qed
qed

text \<open>The module's state on that heap.\<close>

definition demo_state :: kmstate where
  "demo_state = \<lparr>mem = demo_mem, g_driver = gallocator_driver 16, g_heaps = [demo_heap],
     g_active_heap = Some 0,
     g_statistics = \<lparr>total_allocations = 0, total_frees = 0, total_allocated = 0, total_freed = 0\<rparr>\<rparr>"

lemma demo_km_ok: "km_ok (gallocator_driver 16) heap_inv demo_state demo_heap Map.empty"
  using demo_inv by (simp add: km_ok_def active_heap_is_def demo_state_def demo_heap_end)

end
