(* ===== verification/HeapProps.thy ===== *)
theory HeapProps
  imports HeapExample
begin

text \<open>
  What the allocator guarantees its clients: the contract of every operation of the general purpose
  allocator and of the \<open>kmalloc\<close> interface over it, and the safety of any sequence of calls.
\<close>

section \<open>Sequences of calls\<close>

text \<open>
  A step is one call of the interface, or a client writing a byte of an allocation it owns; the map
  of live allocations records what the client was given and has not freed.
\<close>

inductive km_step :: "kmstate \<times> live_map \<Rightarrow> kmstate \<times> live_map \<Rightarrow> bool" where
  step_malloc: "kmalloc_aligned sz al s = Some (Ret (Some a, s')) \<Longrightarrow> 0 < sz \<Longrightarrow> sz < W32 \<Longrightarrow> al < W32 \<Longrightarrow>
     \<exists>k. al = 2 ^ k \<Longrightarrow> km_step (s, live) (s', live(a \<mapsto> (sz, al)))"
| step_malloc_null: "kmalloc_aligned sz al s = Some (Ret (None, s')) \<Longrightarrow> 0 < sz \<Longrightarrow> sz < W32 \<Longrightarrow> al < W32 \<Longrightarrow>
     \<exists>k. al = 2 ^ k \<Longrightarrow> km_step (s, live) (s', live)"
| step_free: "live a = Some blk \<Longrightarrow> kfree (Some a) s = Some (Ret s') \<Longrightarrow> km_step (s, live) (s', live(a := None))"
| step_realloc: "live a = Some (sz, al) \<Longrightarrow> sz < 2147483648 \<Longrightarrow> al < 2147483648 \<Longrightarrow> 0 < n \<Longrightarrow> n < W32 \<Longrightarrow>
     krealloc (Some a) n s = Some (Ret (Some b, s')) \<Longrightarrow>
     km_step (s, live) (s', (live(a := None))(b \<mapsto> (n, al)))"
| step_realloc_null: "live a = Some (sz, al) \<Longrightarrow> sz < 2147483648 \<Longrightarrow> al < 2147483648 \<Longrightarrow> 0 < n \<Longrightarrow> n < W32 \<Longrightarrow>
     krealloc (Some a) n s = Some (Ret (None, s')) \<Longrightarrow> km_step (s, live) (s', live)"
| step_write: "live a = Some (sz, al) \<Longrightarrow> i < sz \<Longrightarrow> km_step (s, live) (s\<lparr>mem := (mem s)(a + i := v)\<rparr>, live)"

inductive_cases km_step_cases: "km_step p q"

abbreviation g_ok :: "nat \<Rightarrow> kmstate \<Rightarrow> Heap \<Rightarrow> live_map \<Rightarrow> bool" where
  "g_ok max_align \<equiv> km_ok (gallocator_driver max_align) heap_inv"

lemma g_ok_write:
  assumes "g_ok ma s heap live" and "live a = Some (sz, al)" and "i < sz"
  shows "g_ok ma (s\<lparr>mem := (mem s)(a + i := v)\<rparr>) heap live"
proof -
  have inv: "heap_inv (mem s) heap live" using assms(1) by (simp add: km_ok_def)
  have "heap_inv ((mem s)(a + i := v)) heap live"
    by (rule client_write_inv [OF inv assms(2)]) (use assms(3) in auto)
  then show ?thesis using assms(1) by (simp add: km_ok_def)
qed

lemma km_step_ok:
  assumes "km_step (s, live) (s', live')" and ok: "g_ok ma s heap live"
  shows "g_ok ma s' heap live'"
  using assms(1)
proof (cases rule: km_step.cases)
  case (step_malloc sz al a)
  then show ?thesis using gd.kmalloc_aligned_ok [OF ok, of sz al] by auto
next
  case (step_malloc_null sz al)
  then show ?thesis using gd.kmalloc_aligned_ok [OF ok, of sz al] by auto
next
  case (step_free a blk)
  then show ?thesis using gd.kfree_ok [OF ok, of a "fst blk" "snd blk"] by auto
next
  case (step_realloc a sz al n b)
  then show ?thesis using gd.krealloc_ok [OF ok, of a sz al n] by auto
next
  case (step_realloc_null a sz al n)
  then show ?thesis using gd.krealloc_ok [OF ok, of a sz al n] by auto
next
  case (step_write a sz al i v)
  then show ?thesis using g_ok_write [OF ok] by auto
qed

lemma km_steps_ok:
  assumes "km_step\<^sup>*\<^sup>* (s, live) (s', live')" and "g_ok ma s heap live"
  shows "g_ok ma s' heap live'"
  using assms by (induction rule: rtranclp_induct2) (auto intro: km_step_ok)

section \<open>Properties\<close>

text \<open>
  An initialised heap. For a heap of at least one page that ends below 4 GiB and whose memory
  behind the metadata is zero, \<open>gallocator_init_heap\<close> succeeds, writes only the metadata block and
  leaves a heap in which the bitmaps and the pools are disjoint, inside the heap and aligned, no chunk
  is marked and nothing is allocated.
\<close>

theorem gallocator_init_heap_ok:
  assumes "0 < pagespan heap" and "heap_end heap < W32"
    and "\<And>x. vaddr heap + 128 \<le> x \<Longrightarrow> x < heap_end heap \<Longrightarrow> m x = 0"
  shows "\<exists>m'. gallocator_init_heap m (Some heap) = Ret (Inr m') \<and> heap_inv m' heap Map.empty
    \<and> (\<forall>x. x < vaddr heap \<or> vaddr heap + heap_meta_size \<le> x \<longrightarrow> m' x = m x)"
  using init_heap_contract [OF assms(1,2), of m] assms(3) by blast

theorem gallocator_init_heap_ok_witness:
  "\<exists>m'. gallocator_init_heap (\<lambda>_. 0) (Some demo_heap) = Ret (Inr m') \<and> heap_inv m' demo_heap Map.empty
    \<and> (\<forall>x. x < vaddr demo_heap \<or> vaddr demo_heap + heap_meta_size \<le> x \<longrightarrow> m' x = 0)"
  by (rule gallocator_init_heap_ok) (simp_all add: demo_heap_end, simp add: demo_heap_def)



text \<open>
  Live allocations never share a byte: any two, with the 16 bytes of metadata in front of each,
  are apart, and each is aligned as requested and lies inside the heap behind its metadata block.
\<close>

theorem live_allocations_disjoint:
  assumes "heap_inv m heap live" and "live a = Some (sz, al)"
  shows "al dvd a \<and> vaddr heap + heap_meta_size + 16 \<le> a \<and> a + sz \<le> heap_end heap \<and>
    (\<forall>b sz' al'. live b = Some (sz', al') \<longrightarrow> b \<noteq> a \<longrightarrow> a + sz + 16 \<le> b \<or> b + sz' + 16 \<le> a)"
  using live_bounds [OF assms] heap_inv_block(1) [OF assms] live_apart [OF assms(1,2)]
  by (auto simp: block_ok_def)

theorem live_allocations_disjoint_witness:
  "\<exists>a m'. gallocator_alloc_aligned demo_mem 100 16 demo_heap = Some (Ret (Some a, m')) \<and>
     16 dvd a \<and> vaddr demo_heap + heap_meta_size + 16 \<le> a \<and> a + 100 \<le> heap_end demo_heap"
proof -
  obtain a m' where am: "gallocator_alloc_aligned demo_mem 100 16 demo_heap = Some (Ret (Some a, m'))"
    "heap_inv m' demo_heap [a \<mapsto> (100, 16)]" using demo_alloc by blast
  then show ?thesis using live_allocations_disjoint [OF am(2), of a 100 16] by auto
qed

text \<open>
  C3: Freeing. \<open>gallocator_free\<close> of a live allocation does not panic, gives back exactly its chunks
  (the invariant holds without it) and leaves the other allocations and their metadata alone; a second
  free of the same address panics.
\<close>

theorem gallocator_free_ok:
  assumes "heap_inv m heap live" and "live a = Some (sz, al)"
  shows "\<exists>m'. gallocator_free m a heap = Ret m' \<and> heap_inv m' heap (live(a := None)) \<and>
    gallocator_free m' a heap = Panic \<and>
    (\<forall>b sz' al' x. live b = Some (sz', al') \<and> b \<noteq> a \<and> b - 16 \<le> x \<and> x < b + sz' \<longrightarrow> m' x = m x)"
  using gallocator_free_eq [OF assms refl] free_mem_inv [OF assms refl] double_free_panics [OF assms]
  by auto

theorem gallocator_free_ok_witness:
  "\<exists>a m' m''. gallocator_alloc_aligned demo_mem 100 16 demo_heap = Some (Ret (Some a, m')) \<and>
     gallocator_free m' a demo_heap = Ret m'' \<and> heap_inv m'' demo_heap Map.empty \<and>
     gallocator_free m'' a demo_heap = Panic"
proof -
  obtain a m' where am: "gallocator_alloc_aligned demo_mem 100 16 demo_heap = Some (Ret (Some a, m'))"
    "heap_inv m' demo_heap [a \<mapsto> (100, 16)]" using demo_alloc by blast
  have "[a \<mapsto> (100, 16)](a := None) = Map.empty" by simp
  then show ?thesis using am gallocator_free_ok [OF am(2), of a 100 16] by auto
qed

text \<open>
  C4: \<open>krealloc\<close> of a live allocation of less than 2 GiB returns null with the memory unchanged, or a
  block of the new size and the old alignment that holds the old contents up to the smaller size; the
  old block is no longer allocated (unless it is the same) and every other allocation keeps its
  contents.
\<close>

theorem krealloc_preserves:
  assumes "km_ok (gallocator_driver ma) heap_inv s heap live" and "live a = Some (sz, al)"
    and "0 < n" and "n < W32" and "sz < 2147483648" and "al < 2147483648"
  shows "\<exists>r s'. krealloc (Some a) n s = Some (Ret (r, s')) \<and>
    (case r of
       None \<Rightarrow> mem s' = mem s \<and> km_ok (gallocator_driver ma) heap_inv s' heap live
     | Some b \<Rightarrow> km_ok (gallocator_driver ma) heap_inv s' heap ((live(a := None))(b \<mapsto> (n, al))) \<and>
         keeps (live(a := None)) (mem s) (mem s') \<and> (b = a \<or> live b = None) \<and>
         (\<forall>i < min sz n. mem s' (b + i) = mem s (a + i)))"
  by (rule gd.krealloc_ok [OF assms])

theorem krealloc_preserves_witness:
  "\<exists>a s1 r s2. kmalloc_aligned 100 16 demo_state = Some (Ret (Some a, s1)) \<and>
     krealloc (Some a) 200 s1 = Some (Ret (r, s2)) \<and>
     (case r of None \<Rightarrow> mem s2 = mem s1
      | Some b \<Rightarrow> \<forall>i < 100. mem s2 (b + i) = mem s1 (a + i))"
proof -
  have p: "\<exists>k. (16 :: nat) = 2 ^ k" by (rule exI [of _ 4]) simp
  obtain a m' where am: "gallocator_alloc_aligned demo_mem 100 16 demo_heap = Some (Ret (Some a, m'))"
    using demo_alloc by blast
  obtain r s1 where r: "kmalloc_aligned 100 16 demo_state = Some (Ret (r, s1))"
    and c: "case r of None \<Rightarrow> mem s1 = mem demo_state \<and> g_ok 16 s1 demo_heap Map.empty
     | Some a \<Rightarrow> Map.empty a = (None :: (nat \<times> nat) option) \<and> 16 dvd a \<and> g_ok 16 s1 demo_heap [a \<mapsto> (100, 16)] \<and>
         keeps Map.empty (mem demo_state) (mem s1)"
    using gd.kmalloc_aligned_ok [OF demo_km_ok _ _ _ p, of 100] by auto
  have "r \<noteq> None"
    using r am by (auto simp: kmalloc_aligned_def with_active_heap_def demo_state_def
        kmalloc_aligned_with_heap_def gallocator_driver_def Let_def split: if_splits)
  then obtain b where b: "r = Some b" by blast
  then have ok: "g_ok 16 s1 demo_heap [b \<mapsto> (100, 16)]" using c by simp
  from krealloc_preserves [OF ok, of b 100 16 200] show ?thesis using r b by (fastforce split: option.splits)
qed

text \<open>
  C1: Safety of every sequence of calls. From a state in which the allocator is set up, after any
  finite sequence of allocations, frees, reallocations and writes of clients into their own
  allocations, the heap invariant holds: all live allocations are aligned, inside the heap and
  pairwise disjoint.
\<close>

theorem kmalloc_sequences_safe:
  assumes "km_step\<^sup>*\<^sup>* (s, live) (s', live')" and "km_ok (gallocator_driver ma) heap_inv s heap live"
  shows "km_ok (gallocator_driver ma) heap_inv s' heap live' \<and>
    (\<forall>a sz al. live' a = Some (sz, al) \<longrightarrow> al dvd a \<and> vaddr heap \<le> a \<and> a + sz \<le> heap_end heap) \<and>
    (\<forall>a sz al b sz' al'. live' a = Some (sz, al) \<longrightarrow> live' b = Some (sz', al') \<longrightarrow> a \<noteq> b \<longrightarrow>
       a + sz \<le> b \<or> b + sz' \<le> a)"
proof -
  have ok: "g_ok ma s' heap live'" by (rule km_steps_ok [OF assms])
  then have inv: "heap_inv (mem s') heap live'" by (simp add: km_ok_def)
  show ?thesis using ok gd.block [OF inv] gd.apart [OF inv] by blast
qed

theorem kmalloc_sequences_safe_witness:
  "\<exists>a s1. kmalloc_aligned 100 16 demo_state = Some (Ret (Some a, s1)) \<and>
     km_step\<^sup>*\<^sup>* (demo_state, Map.empty) (s1\<lparr>mem := (mem s1)(a + 5 := 7)\<rparr>, [a \<mapsto> (100, 16)]) \<and>
     16 dvd a \<and> a + 100 \<le> heap_end demo_heap"
proof -
  have p: "\<exists>k. (16 :: nat) = 2 ^ k" by (rule exI [of _ 4]) simp
  obtain a m' where am: "gallocator_alloc_aligned demo_mem 100 16 demo_heap = Some (Ret (Some a, m'))"
    using demo_alloc by blast
  obtain r s1 where r: "kmalloc_aligned 100 16 demo_state = Some (Ret (r, s1))"
    using gd.kmalloc_aligned_ok [OF demo_km_ok _ _ _ p, of 100] by auto
  have "r \<noteq> None"
    using r am by (auto simp: kmalloc_aligned_def with_active_heap_def demo_state_def
        kmalloc_aligned_with_heap_def gallocator_driver_def Let_def split: if_splits)
  then obtain b where b: "r = Some b" by blast
  let ?s2 = "s1\<lparr>mem := (mem s1)(b + 5 := 7)\<rparr>"
  have "km_step (demo_state, Map.empty) (s1, [b \<mapsto> (100, 16)])"
    using step_malloc [of 100 16 demo_state b s1 Map.empty] r b p by simp
  moreover have "km_step (s1, [b \<mapsto> (100, 16)]) (?s2, [b \<mapsto> (100, 16)])"
    by (rule step_write [of _ b 100 16]) simp_all
  ultimately have steps: "km_step\<^sup>*\<^sup>* (demo_state, Map.empty) (?s2, [b \<mapsto> (100, 16)])" by auto
  from kmalloc_sequences_safe [OF steps demo_km_ok] have "16 dvd b" "b + 100 \<le> heap_end demo_heap" by auto
  then show ?thesis using r b steps by auto
qed

text \<open>
  C7: \<open>kcalloc\<close> returns null or a new allocation whose bytes are all zero, and keeps the contents of
  the existing allocations.
\<close>

theorem kcalloc_zeroed:
  assumes "km_ok (gallocator_driver ma) heap_inv s heap live" and "0 < sz" and "sz < W32"
    and "ma < W32" and "\<exists>k. ma = 2 ^ k"
  shows "\<exists>r s'. kcalloc sz s = Some (Ret (r, s')) \<and>
    (case r of
       None \<Rightarrow> mem s' = mem s \<and> km_ok (gallocator_driver ma) heap_inv s' heap live
     | Some a \<Rightarrow> live a = None \<and> km_ok (gallocator_driver ma) heap_inv s' heap (live(a \<mapsto> (sz, ma))) \<and>
         keeps live (mem s) (mem s') \<and> (\<forall>i < sz. mem s' (a + i) = 0))"
proof -
  have d: "default_alignment (gallocator_driver ma) = ma" by (simp add: gallocator_driver_def)
  show ?thesis using gd.kcalloc_ok [OF assms(1-3), unfolded d, OF assms(4,5)] .
qed

theorem kcalloc_zeroed_witness:
  "\<exists>r s'. kcalloc 100 demo_state = Some (Ret (r, s')) \<and> (\<forall>a. r = Some a \<longrightarrow> (\<forall>i < 100. mem s' (a + i) = 0))"
proof -
  have "\<exists>k. (16 :: nat) = 2 ^ k" by (rule exI [of _ 4]) simp
  from kcalloc_zeroed [OF demo_km_ok _ _ _ this, of 100] show ?thesis by (auto split: option.splits)
qed

end
