(* ===== verification/Falloc.thy ===== *)
theory Falloc
  imports Bitwise
begin

unbundle bit_operations_syntax

text \<open>
  The page frame allocator, \<^verbatim>\<open>kernel/mem/falloc.c\<close>. The static variables are the record
  \<open>falloc_state\<close>; the pool of 16384 64-bit words is a function from indices to words, one bit per
  4 KiB frame, set when the frame is taken. The free frames are those the abstraction \<open>free_frames\<close>
  contains.
\<close>

section \<open>State and operations\<close>

definition FRAMESIZE :: nat where "FRAMESIZE = 4096"

definition PAGEFRAME_POOL_SIZE :: nat where "PAGEFRAME_POOL_SIZE = 1024 * 16"

record MemoryRegion =
  start :: nat
  rsize :: nat
  perms :: u8

record falloc_state =
  g_pgframe_pool :: "nat \<Rightarrow> u64"
  g_pgframes_cnt :: nat
  g_pgframes_user_cursor :: nat
  g_pgframes_user_subcursor :: int

definition falloc_initial :: falloc_state where
  "falloc_initial = \<lparr>g_pgframe_pool = (\<lambda>_. 0), g_pgframes_cnt = 0,
     g_pgframes_user_cursor = PAGEFRAME_POOL_SIZE - 1, g_pgframes_user_subcursor = 63\<rparr>"

text \<open>The word and the bit of a frame: \<open>bit = base / PAGESIZE; i = bit / 64; bit -= i * 64\<close>.\<close>

definition frame_word :: "nat \<Rightarrow> nat" where
  "frame_word base = base div FRAMESIZE div 64 mod 65536"

definition frame_bit :: "nat \<Rightarrow> nat" where
  "frame_bit base = sub64 (base div FRAMESIZE) (frame_word base * 64)"

definition ffree_one :: "nat \<Rightarrow> falloc_state \<Rightarrow> falloc_state outcome" where
  "ffree_one base s =
     assert_outcome (base mod FRAMESIZE = 0)
       (Ret (s\<lparr>g_pgframe_pool := (g_pgframe_pool s)(frame_word base :=
                  bw_clear (g_pgframe_pool s (frame_word base)) (frame_bit base)),
               g_pgframes_cnt := add32 (g_pgframes_cnt s) 1\<rparr>))"

text \<open>The 64-bit \<open>frame\<close> is truncated to \<open>ptr\<close> by the call.\<close>

partial_function (option) add_available_loop ::
    "nat \<Rightarrow> nat \<Rightarrow> falloc_state \<Rightarrow> falloc_state outcome option" where
  "add_available_loop frame fin s =
     (if frame < fin then
        (case ffree_one (frame mod W32) s of
           Panic \<Rightarrow> Some Panic
         | Ret s1 \<Rightarrow> add_available_loop (add64 frame FRAMESIZE) fin s1)
      else Some (Ret s))"

definition pageframe_add_available :: "MemoryRegion \<Rightarrow> falloc_state \<Rightarrow> falloc_state outcome option" where
  "pageframe_add_available region s =
     add_available_loop (start region) (add64 (start region) (rsize region)) s"

fun add_regions :: "MemoryRegion list \<Rightarrow> falloc_state \<Rightarrow> falloc_state outcome option" where
  "add_regions [] s = Some (Ret s)"
| "add_regions (r # rs) s = bind_run (pageframe_add_available r s) (add_regions rs)"

definition falloc_init :: "MemoryRegion list \<Rightarrow> falloc_state \<Rightarrow> falloc_state outcome option" where
  "falloc_init regions s =
     bind_run (add_regions regions (s\<lparr>g_pgframe_pool := (\<lambda>_. - 1)\<rparr>)) (\<lambda>s1.
       if g_pgframes_cnt s1 = 0 then Some Panic else Some (Ret s1))"

text \<open>
  The two loops of \<open>falloc_one_user\<close> over the cursors, which are static variables and keep their
  values between calls. The inner loop gives the bit it stopped at and whether it was free.
\<close>

function user_inner :: "u64 \<Rightarrow> int \<Rightarrow> int \<times> bool" where
  "user_inner word sub =
     (if sub \<ge> 0 then
        (if \<not> bit word (nat sub) then (sub, True) else user_inner word (sub - 1))
      else (sub, False))"
  by pat_completeness auto
termination by (relation "measure (\<lambda>(word, sub). nat (sub + 1))") auto

declare user_inner.simps [simp del]

function user_outer :: "falloc_state \<Rightarrow> nat \<times> falloc_state" where
  "user_outer s =
     (if g_pgframes_user_cursor s \<ge> 1 then
        (let i = g_pgframes_user_cursor s;
             (sub, found) = user_inner (g_pgframe_pool s i) (g_pgframes_user_subcursor s)
         in if found then
              (add32 (mul32 (mul32 i 64) FRAMESIZE) (mul32 (nat sub) FRAMESIZE),
               s\<lparr>g_pgframe_pool := (g_pgframe_pool s)(i := bw_set (g_pgframe_pool s i) (nat sub)),
                 g_pgframes_cnt := sub32 (g_pgframes_cnt s) 1,
                 g_pgframes_user_subcursor := sub\<rparr>)
            else user_outer (s\<lparr>g_pgframes_user_subcursor := 63, g_pgframes_user_cursor := i - 1\<rparr>))
      else (0, s))"
  by pat_completeness auto
termination by (relation "measure g_pgframes_user_cursor") auto

declare user_outer.simps [simp del]

definition falloc_one_user :: "falloc_state \<Rightarrow> nat \<times> falloc_state" where
  "falloc_one_user s = user_outer s"

definition falloc_is_frame_available :: "nat \<Rightarrow> falloc_state \<Rightarrow> bool outcome" where
  "falloc_is_frame_available base s =
     assert_outcome (base mod FRAMESIZE = 0)
       (Ret (\<not> bit (g_pgframe_pool s (frame_word base)) (frame_bit base)))"

definition falloc_one_at :: "nat \<Rightarrow> falloc_state \<Rightarrow> (unit result \<times> falloc_state) outcome" where
  "falloc_one_at base s =
     assert_outcome (base mod FRAMESIZE = 0)
       (bind_outcome (falloc_is_frame_available base s) (\<lambda>available.
          if \<not> available then Ret (Inl ENOMEM, s)
          else Ret (Inr (), s\<lparr>g_pgframe_pool := (g_pgframe_pool s)(frame_word base :=
                 bw_set (g_pgframe_pool s (frame_word base)) (frame_bit base))\<rparr>)))"

definition falloc_get_free_frames_count :: "falloc_state \<Rightarrow> nat" where
  "falloc_get_free_frames_count s = g_pgframes_cnt s"

section \<open>Frames\<close>

text \<open>The frame number of an address, and the frames that are free.\<close>

definition frame_free :: "falloc_state \<Rightarrow> nat \<Rightarrow> bool" where
  "frame_free s f \<longleftrightarrow> \<not> bit (g_pgframe_pool s (f div 64)) (f mod 64)"

definition free_frames :: "falloc_state \<Rightarrow> nat set" where
  "free_frames s = {f. f < 1048576 \<and> frame_free s f}"

lemma frame_word_bit:
  assumes "base < W32"
  shows "frame_word base = base div FRAMESIZE div 64" and "frame_bit base = base div FRAMESIZE mod 64"
    and "base div FRAMESIZE < 1048576"
proof -
  show f: "base div FRAMESIZE < 1048576" using assms by (simp add: FRAMESIZE_def div_less_iff_less_mult)
  then have "base div FRAMESIZE div 64 < 65536" by (simp add: div_less_iff_less_mult)
  then show w: "frame_word base = base div FRAMESIZE div 64" by (simp add: frame_word_def)
  show "frame_bit base = base div FRAMESIZE mod 64"
    using f unfolding frame_bit_def w by (subst sub64_exact) (simp_all add: minus_div_mult_eq_mod)
qed

lemma available_iff_free:
  "base < W32 \<Longrightarrow> base mod FRAMESIZE = 0 \<Longrightarrow>
   falloc_is_frame_available base s = Ret (frame_free s (base div FRAMESIZE))"
  by (simp add: falloc_is_frame_available_def frame_free_def frame_word_bit)

lemma frame_eqI: "f div 64 = g div 64 \<Longrightarrow> f mod 64 = g mod 64 \<Longrightarrow> f = (g :: nat)"
  by (metis div_mult_mod_eq)

lemma frame_free_set:
  "frame_free (s\<lparr>g_pgframe_pool := (g_pgframe_pool s)(f div 64 := bw_set (g_pgframe_pool s (f div 64)) (f mod 64))\<rparr>) g
   \<longleftrightarrow> frame_free s g \<and> g \<noteq> f"
  using frame_eqI [of g f] by (auto simp: frame_free_def bit_bw_set)

lemma frame_free_cnt [simp]:
  "frame_free (s\<lparr>g_pgframes_cnt := n\<rparr>) = frame_free s"
  "frame_free (s\<lparr>g_pgframes_user_cursor := c\<rparr>) = frame_free s"
  "frame_free (s\<lparr>g_pgframes_user_subcursor := k\<rparr>) = frame_free s"
  by (simp_all add: frame_free_def fun_eq_iff)

text \<open>Allocation at an address takes exactly that frame, or fails when it is taken.\<close>

lemma falloc_one_at_spec:
  assumes "base < W32" and "base mod FRAMESIZE = 0"
  shows "\<exists>r s'. falloc_one_at base s = Ret (r, s') \<and>
    (if frame_free s (base div FRAMESIZE)
     then r = Inr () \<and> (\<forall>g. frame_free s' g \<longleftrightarrow> frame_free s g \<and> g \<noteq> base div FRAMESIZE)
     else r = Inl ENOMEM \<and> s' = s)"
  using assms available_iff_free [OF assms, of s] frame_free_set [of s "base div FRAMESIZE"]
  by (auto simp: falloc_one_at_def frame_word_bit)

text \<open>
  Freeing clears the bit of the frame; when it is in the lower half of its pool word, \<open>bw_clear\<close>
  clears the upper half as well.
\<close>

lemma ffree_one_spec:
  assumes "base < W32" and "base mod FRAMESIZE = 0"
  defines "f \<equiv> base div FRAMESIZE"
  shows "\<exists>s'. ffree_one base s = Ret s' \<and> g_pgframes_cnt s' = add32 (g_pgframes_cnt s) 1 \<and>
    (\<forall>g. frame_free s' g \<longleftrightarrow> frame_free s g \<or> g = f
         \<or> f mod 64 < 32 \<and> g div 64 = f div 64 \<and> 32 \<le> g mod 64)"
proof -
  let ?s = "s\<lparr>g_pgframe_pool := (g_pgframe_pool s)(f div 64 := bw_clear (g_pgframe_pool s (f div 64)) (f mod 64)),
     g_pgframes_cnt := add32 (g_pgframes_cnt s) 1\<rparr>"
  have r: "ffree_one base s = Ret ?s" using assms(1,2) by (simp add: ffree_one_def frame_word_bit f_def)
  have "frame_free ?s g \<longleftrightarrow> frame_free s g \<or> g = f
         \<or> f mod 64 < 32 \<and> g div 64 = f div 64 \<and> 32 \<le> g mod 64" for g
    using frame_eqI [of g f]
    by (cases "f mod 64 < 32") (auto simp: frame_free_def bit_bw_clear_low bit_bw_clear_high)
  then show ?thesis using r by (intro exI [of _ ?s]) simp
qed

section \<open>User frames\<close>

lemma user_inner_spec:
  assumes "-1 \<le> sub" and "sub < 64"
  shows "case user_inner w sub of (r, found) \<Rightarrow>
    (if found then 0 \<le> r \<and> r \<le> sub \<and> \<not> bit w (nat r) \<and> (\<forall>k. r < k \<and> k \<le> sub \<longrightarrow> bit w (nat k))
     else \<forall>k. 0 \<le> k \<and> k \<le> sub \<longrightarrow> bit w (nat k))"
  using assms
proof (induction w sub rule: user_inner.induct)
  case (1 w sub)
  consider "sub < 0" | "0 \<le> sub" "\<not> bit w (nat sub)" | "0 \<le> sub" "bit w (nat sub)" by linarith
  then show ?case
  proof cases
    case 1
    then show ?thesis by (subst user_inner.simps) auto
  next
    case 2
    then show ?thesis by (subst user_inner.simps) auto
  next
    case 3
    obtain r found where rf: "user_inner w (sub - 1) = (r, found)" by fastforce
    have step: "bit w (nat k)" if "\<forall>k. l < k \<and> k \<le> sub - 1 \<longrightarrow> bit w (nat k)" "l < k" "k \<le> sub" for k l
      using that 3(2) by (cases "k = sub") auto
    have "user_inner w sub = (r, found)" using 3 rf by (subst user_inner.simps) simp
    moreover have ih: "if found then 0 \<le> r \<and> r \<le> sub - 1 \<and> \<not> bit w (nat r)
         \<and> (\<forall>k. r < k \<and> k \<le> sub - 1 \<longrightarrow> bit w (nat k))
       else \<forall>k. -1 < k \<and> k \<le> sub - 1 \<longrightarrow> bit w (nat k)"
      using "1.IH" [OF 3(1)] 3 "1.prems" rf by (auto split: if_splits)
    moreover have "\<forall>k. (if found then r else -1) < k \<and> k \<le> sub \<longrightarrow> bit w (nat k)"
      using ih step by (cases found) (simp_all, blast+)
    ultimately show ?thesis by (cases found) auto
  qed
qed

text \<open>The position of the cursors, as a frame number: all frames searched so far lie above it.\<close>

definition cursor_ok :: "falloc_state \<Rightarrow> bool" where
  "cursor_ok s \<longleftrightarrow> g_pgframes_user_cursor s < PAGEFRAME_POOL_SIZE
     \<and> 0 \<le> g_pgframes_user_subcursor s \<and> g_pgframes_user_subcursor s < 64"

definition cursor_pos :: "falloc_state \<Rightarrow> nat" where
  "cursor_pos s = g_pgframes_user_cursor s * 64 + nat (g_pgframes_user_subcursor s)"

lemma user_outer_spec:
  assumes "cursor_ok s"
  shows "case user_outer s of (p, s') \<Rightarrow> cursor_ok s' \<and> cursor_pos s' \<le> cursor_pos s \<and>
    (if p = 0 then (\<forall>g. 64 \<le> g \<and> g \<le> cursor_pos s \<longrightarrow> \<not> frame_free s g)
        \<and> g_pgframe_pool s' = g_pgframe_pool s \<and> g_pgframes_cnt s' = g_pgframes_cnt s
     else \<exists>f. p = f * FRAMESIZE \<and> f = cursor_pos s' \<and> 64 \<le> f \<and> f < 1048576 \<and> frame_free s f
        \<and> (\<forall>g. f < g \<and> g \<le> cursor_pos s \<longrightarrow> \<not> frame_free s g)
        \<and> (\<forall>g. frame_free s' g \<longleftrightarrow> frame_free s g \<and> g \<noteq> f)
        \<and> g_pgframes_cnt s' = sub32 (g_pgframes_cnt s) 1)"
  using assms
proof (induction s rule: user_outer.induct)
  case (1 s)
  let ?i = "g_pgframes_user_cursor s" and ?sub = "g_pgframes_user_subcursor s"
  have c: "?i < 16384" "0 \<le> ?sub" "?sub < 64"
    using "1.prems" by (auto simp: cursor_ok_def PAGEFRAME_POOL_SIZE_def)
  show ?case
  proof (cases "?i \<ge> 1")
    case False
    then have "user_outer s = (0, s)" by (subst user_outer.simps) simp
    then show ?thesis using False "1.prems" c by (auto simp: cursor_pos_def)
  next
    case True
    obtain sub found where u: "user_inner (g_pgframe_pool s ?i) ?sub = (sub, found)" by fastforce
    note us = user_inner_spec [of ?sub "g_pgframe_pool s ?i"]
    have above: "\<not> frame_free s g" if "?i * 64 + nat l < g" "g \<le> cursor_pos s" "0 \<le> l"
      "\<forall>k. l < k \<and> k \<le> ?sub \<longrightarrow> bit (g_pgframe_pool s ?i) (nat k)" for g l
    proof -
      have "?i * 64 \<le> g" "g < ?i * 64 + 64" using that c by (simp_all add: cursor_pos_def)
      then have gd: "g div 64 = ?i" by (intro div_nat_eqI) simp_all
      then have g: "g div 64 = ?i" "g mod 64 = g - ?i * 64" by (simp_all add: modulo_nat_def)
      obtain d where d: "g = ?i * 64 + d" using \<open>?i * 64 \<le> g\<close> le_Suc_ex by blast
      then have "l < int d" "int d \<le> ?sub" using that(1,2,3) c by (simp_all add: cursor_pos_def)
      then have "bit (g_pgframe_pool s ?i) d" using spec [OF that(4), of "int d"] by simp
      then show ?thesis using g d by (simp add: frame_free_def)
    qed
    show ?thesis
    proof (cases found)
      case fnd: True
      let ?f = "?i * 64 + nat sub"
      let ?s = "s\<lparr>g_pgframe_pool := (g_pgframe_pool s)(?i := bw_set (g_pgframe_pool s ?i) (nat sub)),
                 g_pgframes_cnt := sub32 (g_pgframes_cnt s) 1, g_pgframes_user_subcursor := sub\<rparr>"
      have sb: "0 \<le> sub" "sub \<le> ?sub" "\<not> bit (g_pgframe_pool s ?i) (nat sub)"
        "\<forall>k. sub < k \<and> k \<le> ?sub \<longrightarrow> bit (g_pgframe_pool s ?i) (nat k)"
        using us c u fnd by auto
      have f: "?f div 64 = ?i" "?f mod 64 = nat sub" "?f < 1048576" using sb c by auto
      have p: "add32 (mul32 (mul32 ?i 64) FRAMESIZE) (mul32 (nat sub) FRAMESIZE) = ?f * FRAMESIZE"
        using c sb by (simp add: add32_exact mul32_exact FRAMESIZE_def)
      have o: "user_outer s = (?f * FRAMESIZE, ?s)"
        using True u fnd p by (subst user_outer.simps) (simp add: Let_def)
      have fr: "frame_free ?s g \<longleftrightarrow> frame_free s g \<and> g \<noteq> ?f" for g
        using frame_free_set [of s ?f g] f by (simp add: frame_free_def)
      have "frame_free s ?f" using f sb by (simp add: frame_free_def)
      moreover have "cursor_ok ?s" using c sb by (simp add: cursor_ok_def PAGEFRAME_POOL_SIZE_def)
      moreover have "cursor_pos ?s = ?f" "?f \<le> cursor_pos s" using sb by (simp_all add: cursor_pos_def nat_mono)
      moreover have "\<not> frame_free s g" if "?f < g" "g \<le> cursor_pos s" for g
        by (rule above [OF that sb(1) sb(4)])
      ultimately show ?thesis using o fr f True by (auto simp: FRAMESIZE_def)
    next
      case nf: False
      let ?s = "s\<lparr>g_pgframes_user_subcursor := 63, g_pgframes_user_cursor := ?i - 1\<rparr>"
      have all: "\<forall>k. 0 \<le> k \<and> k \<le> ?sub \<longrightarrow> bit (g_pgframe_pool s ?i) (nat k)"
        using us c u nf by auto
      have o: "user_outer s = user_outer ?s" using True u nf by (subst user_outer.simps) (simp add: Let_def)
      have ok: "cursor_ok ?s" using c by (simp add: cursor_ok_def PAGEFRAME_POOL_SIZE_def)
      have pos: "cursor_pos ?s < ?i * 64" "cursor_pos ?s < cursor_pos s" "Suc (cursor_pos ?s) = ?i * 64"
        using True by (simp_all add: cursor_pos_def)
      have ff: "frame_free ?s g \<longleftrightarrow> frame_free s g" for g by (simp add: frame_free_def)
      have skip: "\<not> frame_free s g" if "cursor_pos ?s < g" "g \<le> cursor_pos s" for g
      proof (cases "g = ?i * 64")
        case True
        then show ?thesis using spec [OF all, of 0] c by (simp add: frame_free_def)
      next
        case False
        then show ?thesis using that pos(3) all by (intro above [of 0]) auto
      qed
      obtain p s' where ps: "user_outer ?s = (p, s')" by fastforce
      note IH = "1.IH" [OF True refl u [symmetric] refl nf ok, unfolded ps prod.case]
      show ?thesis
      proof (cases "p = 0")
        case True
        then show ?thesis using IH o ps pos skip ff
          by (auto) (metis leI less_imp_le_nat le_eq_less_or_eq)
      next
        case False
        then show ?thesis using IH o ps pos skip ff
          by (auto) (metis leI less_imp_le_nat le_eq_less_or_eq)+
      qed
    qed
  qed
qed


section \<open>Registering the available memory\<close>

lemma add_available_loop_spec:
  assumes "fin \<le> W32" and "frame mod FRAMESIZE = 0"
  shows "\<exists>s'. add_available_loop frame fin s = Some (Ret s')
    \<and> (\<forall>g. frame_free s g \<or> frame \<le> g * FRAMESIZE \<and> g * FRAMESIZE < fin \<longrightarrow> frame_free s' g)"
  using assms(2)
proof (induction "fin - frame" arbitrary: frame s rule: less_induct)
  case less
  show ?case
  proof (cases "frame < fin")
    case False
    then show ?thesis by (subst add_available_loop.simps) (auto simp: less_le_trans)
  next
    case True
    then have fr: "frame < W32" "frame mod W32 = frame" using assms(1) by simp_all
    obtain s1 where s1: "ffree_one frame s = Ret s1"
      and f1: "\<And>g. frame_free s g \<or> g = frame div FRAMESIZE \<Longrightarrow> frame_free s1 g"
      using ffree_one_spec [OF fr(1) less.prems, of s] by blast
    have a: "add64 frame FRAMESIZE = frame + FRAMESIZE"
      using fr(1) by (intro add64_exact) (simp add: FRAMESIZE_def)
    have e: "add_available_loop frame fin s = add_available_loop (frame + FRAMESIZE) fin s1"
      using True s1 fr a by (subst add_available_loop.simps) simp
    have dec: "fin - (frame + FRAMESIZE) < fin - frame" using True by (simp add: FRAMESIZE_def)
    have al: "(frame + FRAMESIZE) mod FRAMESIZE = 0" using less.prems by simp
    obtain s' where s': "add_available_loop (frame + FRAMESIZE) fin s1 = Some (Ret s')"
      and f2: "\<And>g. frame_free s1 g \<or> frame + FRAMESIZE \<le> g * FRAMESIZE \<and> g * FRAMESIZE < fin \<Longrightarrow> frame_free s' g"
      using less.hyps [OF dec al, of s1] by blast
    have "frame_free s' g" if "frame_free s g \<or> frame \<le> g * FRAMESIZE \<and> g * FRAMESIZE < fin" for g
    proof (cases "frame_free s g \<or> g = frame div FRAMESIZE")
      case True
      then show ?thesis using f1 f2 by blast
    next
      case False
      have "frame = frame div FRAMESIZE * FRAMESIZE" using less.prems by (simp add: mod_eq_0_iff_dvd)
      then have "frame div FRAMESIZE < g" using that False
        by (metis le_neq_implies_less mult_le_cancel2 FRAMESIZE_def zero_less_numeral)
      then have "frame + FRAMESIZE \<le> g * FRAMESIZE"
        using \<open>frame = frame div FRAMESIZE * FRAMESIZE\<close>
        by (metis Suc_leI add.commute mult_Suc mult_le_mono1)
      then show ?thesis using f2 that False by blast
    qed
    then show ?thesis using e s' by auto
  qed
qed

lemma add_available_spec:
  assumes "start r + rsize r \<le> W32" and "start r mod FRAMESIZE = 0"
  shows "\<exists>s'. pageframe_add_available r s = Some (Ret s')
    \<and> (\<forall>g. frame_free s g \<or> start r \<le> g * FRAMESIZE \<and> g * FRAMESIZE < start r + rsize r \<longrightarrow> frame_free s' g)"
proof -
  have "add64 (start r) (rsize r) = start r + rsize r" using assms(1) by (intro add64_exact) simp
  then show ?thesis
    using add_available_loop_spec [OF assms, of s] by (simp add: pageframe_add_available_def)
qed

lemma add_regions_spec:
  assumes "\<And>r. r \<in> set rs \<Longrightarrow> start r + rsize r \<le> W32 \<and> start r mod FRAMESIZE = 0"
  shows "\<exists>s'. add_regions rs s = Some (Ret s') \<and>
    (\<forall>g. frame_free s g \<or> (\<exists>r \<in> set rs. start r \<le> g * FRAMESIZE \<and> g * FRAMESIZE < start r + rsize r)
       \<longrightarrow> frame_free s' g)"
  using assms
proof (induction rs arbitrary: s)
  case (Cons r rs)
  obtain s1 where s1: "pageframe_add_available r s = Some (Ret s1)"
    "\<forall>g. frame_free s g \<or> start r \<le> g * FRAMESIZE \<and> g * FRAMESIZE < start r + rsize r \<longrightarrow> frame_free s1 g"
    using add_available_spec [of r s] Cons.prems [of r] by auto
  obtain s2 where s2: "add_regions rs s1 = Some (Ret s2)"
    "\<forall>g. frame_free s1 g \<or> (\<exists>r \<in> set rs. start r \<le> g * FRAMESIZE \<and> g * FRAMESIZE < start r + rsize r)
       \<longrightarrow> frame_free s2 g"
    using Cons.IH [of s1] Cons.prems by auto
  show ?case using s1 s2 by auto
qed simp

end
