(* ===== verification/Mregmap.thy ===== *)
theory Mregmap
  imports Falloc
begin

unbundle bit_operations_syntax

text \<open>
  The memory region map of \<^verbatim>\<open>kernel/mem/mregmap.c\<close>, from which the page frame allocator learns the
  available memory. The array and its length are a list, the capacity is kept beside it; whether
  \<open>krealloc\<close> can serve a request is the argument \<open>can_realloc\<close>. \<open>mregmap_fix_overlaps\<close> and
  \<open>mregmap_add_reg\<close> call each other, their recursion is bounded by a fuel argument (\<open>None\<close> when it
  is used up).
\<close>

section \<open>Operations\<close>

record MemoryRegionMap =
  regions :: "MemoryRegion list"
  regions_capacity :: nat

definition mregmap_rm_region_at_index :: "nat \<Rightarrow> MemoryRegionMap \<Rightarrow> bool \<times> MemoryRegionMap" where
  "mregmap_rm_region_at_index idx rmap =
     (if idx \<ge> length (regions rmap) then (False, rmap)
      else (True, rmap\<lparr>regions := remove_at idx (regions rmap)\<rparr>))"

text \<open>
  After a successful enlargement the array has \<open>n\<close> more elements, whose values the caller writes;
  the model leaves them to the caller.
\<close>

definition mregmap_enlarge :: "(nat \<Rightarrow> bool) \<Rightarrow> nat \<Rightarrow> MemoryRegionMap \<Rightarrow> bool \<times> MemoryRegionMap" where
  "mregmap_enlarge can_realloc n rmap =
     (if length (regions rmap) + n > regions_capacity rmap then
        (if can_realloc (length (regions rmap) + n)
         then (True, rmap\<lparr>regions_capacity := length (regions rmap) + n\<rparr>)
         else (False, rmap))
      else (True, rmap))"

text \<open>\<open>None\<close> is \<open>MEMORY_AREA_SHRINK_SHOULD_RM\<close>, otherwise the shrunk region.\<close>

definition mreg_shrink :: "nat \<Rightarrow> MemoryRegion \<Rightarrow> MemoryRegion option" where
  "mreg_shrink sz region =
     (if sz \<ge> rsize region then None else Some (region\<lparr>rsize := rsize region - sz\<rparr>))"

text \<open>The bubble sort on the region starts.\<close>

function bubble_pass :: "nat \<Rightarrow> nat \<Rightarrow> MemoryRegion list \<Rightarrow> MemoryRegion list" where
  "bubble_pass k n xs =
     (if k < n then
        bubble_pass (k + 1) n
          (if start (xs ! k) > start (xs ! (k + 1))
           then xs[k := xs ! (k + 1), k + 1 := xs ! k] else xs)
      else xs)"
  by pat_completeness auto
termination by (relation "measure (\<lambda>(k, n, xs). n - k)") auto

declare bubble_pass.simps [simp del]

function bubble_sort_from :: "nat \<Rightarrow> MemoryRegion list \<Rightarrow> MemoryRegion list" where
  "bubble_sort_from i xs =
     (if i < length xs - 1 then bubble_sort_from (i + 1) (bubble_pass 0 (length xs - i - 1) xs) else xs)"
  by pat_completeness auto

lemma length_bubble_pass [simp]: "length (bubble_pass k n xs) = length xs"
proof (induction k n xs rule: bubble_pass.induct)
  case (1 k n xs)
  then show ?case by (subst bubble_pass.simps) (auto simp: Let_def)
qed

termination bubble_sort_from
  by (relation "measure (\<lambda>(i, xs). length xs - i)") auto

declare bubble_sort_from.simps [simp del]

definition sort_regions :: "MemoryRegion list \<Rightarrow> MemoryRegion list" where
  "sort_regions xs = bubble_sort_from 0 xs"

text \<open>What one iteration of \<open>mregmap_fix_overlaps\<close> decides about the region \<open>tmp\<close>.\<close>

datatype overlap_action =
    SplitTo MemoryRegion MemoryRegion
  | ReplaceBy MemoryRegion
  | RemoveIt
  | KeepIt

definition overlap_action :: "MemoryRegion \<Rightarrow> MemoryRegion \<Rightarrow> overlap_action" where
  "overlap_action region tmp =
     (let rend = add64 (start region) (rsize region);
          tend = add64 (start tmp) (rsize tmp) in
      if start region > start tmp then
        (if rend < tend then
           SplitTo (tmp\<lparr>start := rend, rsize := sub64 (rsize tmp) rend\<rparr>)
             \<lparr>start = start tmp, rsize = sub64 (start region) (start tmp), perms = perms tmp\<rparr>
         else if start region < tend then
           (case mreg_shrink (sub64 tend (start region) mod W32) tmp of
              None \<Rightarrow> RemoveIt
            | Some tmp1 \<Rightarrow> ReplaceBy tmp1)
         else KeepIt)
      else
        (if rend \<ge> tend then RemoveIt
         else if rend > start tmp then
           (case mreg_shrink (sub64 rend (start tmp) mod W32) tmp of
              Some tmp1 \<Rightarrow> ReplaceBy (tmp1\<lparr>start := rend\<rparr>)
            | None \<Rightarrow> RemoveIt)
         else KeepIt))"

fun mregmap_fix_overlaps ::
      "nat \<Rightarrow> (nat \<Rightarrow> bool) \<Rightarrow> MemoryRegion \<Rightarrow> nat \<Rightarrow> MemoryRegionMap \<Rightarrow> MemoryRegionMap option"
  and mregmap_add_reg ::
      "nat \<Rightarrow> (nat \<Rightarrow> bool) \<Rightarrow> MemoryRegion \<Rightarrow> MemoryRegionMap \<Rightarrow> (bool \<times> MemoryRegionMap) option" where
  "mregmap_fix_overlaps 0 can_realloc region i rmap = None"
| "mregmap_fix_overlaps (Suc fuel) can_realloc region i rmap =
     (if i < length (regions rmap) then
        Option.bind
          (case overlap_action region (regions rmap ! i) of
             SplitTo tmp newarea \<Rightarrow>
               Option.bind
                 (mregmap_add_reg fuel can_realloc newarea (rmap\<lparr>regions := (regions rmap)[i := tmp]\<rparr>))
                 (\<lambda>r. Some (snd r))
           | ReplaceBy tmp \<Rightarrow> Some (rmap\<lparr>regions := (regions rmap)[i := tmp]\<rparr>)
           | RemoveIt \<Rightarrow> Some (snd (mregmap_rm_region_at_index i rmap))
           | KeepIt \<Rightarrow> Some rmap)
          (\<lambda>rmap1. mregmap_fix_overlaps fuel can_realloc region (i + 1) rmap1)
      else Some rmap)"
| "mregmap_add_reg 0 can_realloc region rmap = None"
| "mregmap_add_reg (Suc fuel) can_realloc region rmap =
     Option.bind (mregmap_fix_overlaps fuel can_realloc region 0 rmap) (\<lambda>rmap1.
       case mregmap_enlarge can_realloc 1 rmap1 of
         (False, rmap2) \<Rightarrow> Some (False, rmap2)
       | (True, rmap2) \<Rightarrow> Some (True, rmap2\<lparr>regions := sort_regions (regions rmap2 @ [region])\<rparr>))"

text \<open>\<open>mregmap_init\<close> with the success of \<open>kmalloc\<close> as an argument.\<close>

definition mregmap_init :: "bool \<Rightarrow> nat \<Rightarrow> MemoryRegionMap \<Rightarrow> bool \<times> MemoryRegionMap" where
  "mregmap_init kmalloc_ok areas_count rmap =
     (if \<not> kmalloc_ok then (False, rmap)
      else (True, rmap\<lparr>regions := [], regions_capacity := areas_count\<rparr>))"

definition mregmap_rm_reg ::
    "nat \<Rightarrow> (nat \<Rightarrow> bool) \<Rightarrow> nat \<Rightarrow> nat \<Rightarrow> MemoryRegionMap \<Rightarrow> (bool \<times> MemoryRegionMap) option" where
  "mregmap_rm_reg fuel can_realloc st sz rmap =
     Option.bind (mregmap_fix_overlaps fuel can_realloc \<lparr>start = st, rsize = sz, perms = 0\<rparr> 0 rmap)
       (\<lambda>rmap1. Some (True, rmap1))"

text \<open>\<open>(start + (alignment - 1)) & ~(alignment - 1)\<close> in 64 bits.\<close>

definition aligned_start :: "nat \<Rightarrow> nat \<Rightarrow> nat" where
  "aligned_start alignment st =
     unat ((word_of_nat st + word_of_nat (alignment - 1)) AND NOT (word_of_nat (alignment - 1)) :: u64)"

function align_regs_from :: "nat \<Rightarrow> nat \<Rightarrow> MemoryRegionMap \<Rightarrow> MemoryRegionMap" where
  "align_regs_from alignment i rmap =
     (if i < length (regions rmap) then
        (let tmp = regions rmap ! i;
             al = aligned_start alignment (start tmp)
         in case mreg_shrink (sub64 al (start tmp)) tmp of
              None \<Rightarrow> snd (mregmap_rm_region_at_index i rmap)
            | Some tmp1 \<Rightarrow>
                align_regs_from alignment (i + 1)
                  (rmap\<lparr>regions := (regions rmap)[i := tmp1\<lparr>start := al\<rparr>]\<rparr>))
      else rmap)"
  by pat_completeness auto
termination by (relation "measure (\<lambda>(al, i, rmap). length (regions rmap) - i)") auto

declare align_regs_from.simps [simp del]

definition mregmap_align_regs :: "nat \<Rightarrow> MemoryRegionMap \<Rightarrow> bool \<times> MemoryRegionMap" where
  "mregmap_align_regs alignment rmap =
     (if \<not> bw_is_power_of_two (word_of_nat alignment) then (False, rmap)
      else (True, align_regs_from alignment 0 rmap))"

section \<open>The sort\<close>

lemma mset_swap_nth: "i < length xs \<Longrightarrow> j < length xs \<Longrightarrow> mset (xs[i := xs ! j, j := xs ! i]) = mset xs"
  by (rule mset_swap)

lemma mset_bubble_pass: "n < length xs \<Longrightarrow> mset (bubble_pass k n xs) = mset xs"
proof (induction k n xs rule: bubble_pass.induct)
  case (1 k n xs)
  show ?case
  proof (cases "k < n")
    case True
    then show ?thesis using 1
      by (subst bubble_pass.simps) (auto simp: Let_def mset_swap_nth)
  next
    case False
    then show ?thesis by (subst bubble_pass.simps) simp
  qed
qed

lemma mset_sort_regions: "mset (sort_regions xs) = mset xs"
proof -
  have "mset (bubble_sort_from i xs) = mset xs" for i
  proof (induction i xs rule: bubble_sort_from.induct)
    case (1 i xs)
    then show ?case
      by (subst bubble_sort_from.simps) (simp add: mset_bubble_pass)
  qed
  then show ?thesis by (simp add: sort_regions_def)
qed

text \<open>
  The invariant of a pass up to position \<open>n\<close>: the element at \<open>k\<close> is a largest one of the first \<open>k\<close>,
  and the elements after \<open>n\<close> stay.
\<close>

lemma bubble_pass_spec:
  assumes "n < length xs" and "k \<le> n" and "\<And>j. j < k \<Longrightarrow> start (xs ! j) \<le> start (xs ! k)"
  shows "\<forall>j < n. start (bubble_pass k n xs ! j) \<le> start (bubble_pass k n xs ! n)"
    and "\<forall>j > n. j < length xs \<longrightarrow> bubble_pass k n xs ! j = xs ! j"
proof -
  have "(\<forall>j < n. start (bubble_pass k n xs ! j) \<le> start (bubble_pass k n xs ! n))
    \<and> (\<forall>j > n. j < length xs \<longrightarrow> bubble_pass k n xs ! j = xs ! j)"
    using assms
  proof (induction k n xs rule: bubble_pass.induct)
    case (1 k n xs)
    show ?case
    proof (cases "k < n")
      case False
      then have "k = n" using "1.prems" by simp
      then show ?thesis using "1.prems" by (subst (1 2 3) bubble_pass.simps) auto
    next
      case True
      let ?xs = "if start (xs ! k) > start (xs ! (k + 1)) then xs[k := xs ! (k + 1), k + 1 := xs ! k] else xs"
      have e: "bubble_pass k n xs = bubble_pass (k + 1) n ?xs"
        using True by (subst bubble_pass.simps) simp
      have "start (?xs ! j) \<le> start (?xs ! (k + 1))" if "j < k + 1" for j
        using that True "1.prems"(1) "1.prems"(3) [of j] by (cases "j = k") (auto simp: nth_list_update)
      then have "(\<forall>j < n. start (bubble_pass (k + 1) n ?xs ! j) \<le> start (bubble_pass (k + 1) n ?xs ! n))
        \<and> (\<forall>j > n. j < length ?xs \<longrightarrow> bubble_pass (k + 1) n ?xs ! j = ?xs ! j)"
        using True "1.prems" by (intro "1.IH") auto
      moreover have "?xs ! j = xs ! j" if "n < j" for j using that True by auto
      ultimately show ?thesis unfolding e by (auto split: if_splits)
    qed
  qed
  then show "\<forall>j < n. start (bubble_pass k n xs ! j) \<le> start (bubble_pass k n xs ! n)"
    and "\<forall>j > n. j < length xs \<longrightarrow> bubble_pass k n xs ! j = xs ! j" by blast+
qed


lemma bubble_pass_prefix:
  "n < length xs \<Longrightarrow> a \<le> n \<Longrightarrow> \<exists>b \<le> n. bubble_pass k n xs ! a = xs ! b"
proof (induction k n xs arbitrary: a rule: bubble_pass.induct)
  case (1 k n xs)
  show ?case
  proof (cases "k < n")
    case False
    then show ?thesis using "1.prems" by (subst bubble_pass.simps) auto
  next
    case True
    let ?xs = "if start (xs ! k) > start (xs ! (k + 1)) then xs[k := xs ! (k + 1), k + 1 := xs ! k] else xs"
    have e: "bubble_pass k n xs = bubble_pass (k + 1) n ?xs"
      using True by (subst bubble_pass.simps) simp
    have len: "n < length ?xs" using "1.prems"(1) by simp
    obtain b where b: "b \<le> n" "bubble_pass (k + 1) n ?xs ! a = ?xs ! b"
      using "1.IH" [OF True len "1.prems"(2)] by blast
    have "\<exists>c \<le> n. ?xs ! b = xs ! c"
      using b(1) True "1.prems"(1)
      by (cases "b = k"; cases "b = k + 1") (auto simp: nth_list_update intro: exI [of _ k] exI [of _ "k + 1"])
    then show ?thesis using b e by auto
  qed
qed

definition tail_sorted :: "nat \<Rightarrow> MemoryRegion list \<Rightarrow> bool" where
  "tail_sorted i xs \<longleftrightarrow>
     (\<forall>a b. length xs - i \<le> b \<and> b < length xs \<and> a \<le> b \<longrightarrow> start (xs ! a) \<le> start (xs ! b))"

lemma bubble_pass_tail:
  assumes "tail_sorted i xs" and "i < length xs - 1"
  shows "tail_sorted (i + 1) (bubble_pass 0 (length xs - i - 1) xs)"
  unfolding tail_sorted_def
proof (intro allI impI)
  let ?n = "length xs - i - 1"
  let ?ys = "bubble_pass 0 ?n xs"
  fix a b assume ab: "length ?ys - (i + 1) \<le> b \<and> b < length ?ys \<and> a \<le> b"
  have n: "?n < length xs" using assms(2) by simp
  have sp: "\<forall>j < ?n. start (?ys ! j) \<le> start (?ys ! ?n)" "\<forall>j > ?n. j < length xs \<longrightarrow> ?ys ! j = xs ! j"
    using bubble_pass_spec [OF n le0] by simp_all
  show "start (?ys ! a) \<le> start (?ys ! b)"
  proof (cases "b = ?n")
    case True
    then show ?thesis using sp(1) ab by (cases "a = b") auto
  next
    case False
    then have b: "?n < b" "b < length xs" "?ys ! b = xs ! b" using ab sp(2) by auto
    obtain c where c: "c \<le> b" "?ys ! a = xs ! c"
    proof (cases "a \<le> ?n")
      case True
      then show ?thesis using bubble_pass_prefix [OF n True, of 0] b(1) that by (meson le_trans less_imp_le)
    next
      case False
      then show ?thesis using sp(2) ab that [of a] by auto
    qed
    then show ?thesis using assms b by (simp add: tail_sorted_def)
  qed
qed

lemma sort_regions_sorted: "sorted (map start (sort_regions xs))"
proof -
  have "tail_sorted (length ys - 1) ys" if "tail_sorted i xs" "ys = bubble_sort_from i xs" "i \<le> length xs - 1" for i ys
    using that
  proof (induction i xs arbitrary: ys rule: bubble_sort_from.induct)
    case (1 i xs)
    show ?case
    proof (cases "i < length xs - 1")
      case True
      then have "ys = bubble_sort_from (i + 1) (bubble_pass 0 (length xs - i - 1) xs)"
        using "1.prems"(2) by (simp add: bubble_sort_from.simps [of i xs])
      then show ?thesis using bubble_pass_tail [OF "1.prems"(1) True] True by (intro "1.IH") auto
    next
      case False
      then have "i = length xs - 1" "ys = xs"
        using "1.prems" by (auto simp: bubble_sort_from.simps [of i xs])
      then show ?thesis using "1.prems"(1) by simp
    qed
  qed
  from this [of 0 "sort_regions xs"] have t: "tail_sorted (length (sort_regions xs) - 1) (sort_regions xs)"
    by (auto simp: sort_regions_def tail_sorted_def)
  show ?thesis
  proof (rule sorted_iff_nth_mono [THEN iffD2], intro allI impI)
    fix i j assume ij: "i \<le> j" "j < length (map start (sort_regions xs))"
    then show "map start (sort_regions xs) ! i \<le> map start (sort_regions xs) ! j"
      using t unfolding tail_sorted_def by (cases "j = 0") auto
  qed
qed

section \<open>Cutting a range out of the map\<close>

definition region_bytes :: "MemoryRegion \<Rightarrow> nat set" where
  "region_bytes r = {start r ..< start r + rsize r}"

definition map_bytes :: "MemoryRegionMap \<Rightarrow> nat set" where
  "map_bytes rmap = (\<Union>r \<in> set (regions rmap). region_bytes r)"

text \<open>A region below 4 GiB that the cut neither contains nor lies strictly inside of.\<close>

definition trims :: "MemoryRegion \<Rightarrow> MemoryRegion \<Rightarrow> bool" where
  "trims region tmp \<longleftrightarrow> start tmp + rsize tmp < W32 \<and> start region + rsize region < W32
     \<and> \<not> (start region > start tmp \<and> start region + rsize region < start tmp + rsize tmp)
     \<and> \<not> (start region \<le> start tmp \<and> start region + rsize region \<ge> start tmp + rsize tmp)"

lemma overlap_action_trims:
  assumes "trims region tmp"
  shows "overlap_action region tmp = KeepIt \<and> region_bytes tmp \<inter> region_bytes region = {}
    \<or> (\<exists>tmp'. overlap_action region tmp = ReplaceBy tmp' \<and> region_bytes tmp' = region_bytes tmp - region_bytes region)"
proof -
  have e: "add64 (start region) (rsize region) = start region + rsize region"
    "add64 (start tmp) (rsize tmp) = start tmp + rsize tmp"
    using assms by (simp_all add: trims_def add64_exact)
  show ?thesis
  proof (cases "start region > start tmp")
    case True
    then show ?thesis using assms
      by (auto simp: overlap_action_def Let_def e trims_def sub64_exact mreg_shrink_def region_bytes_def)
  next
    case False
    then show ?thesis using assms
      by (auto simp: overlap_action_def Let_def e trims_def sub64_exact mreg_shrink_def region_bytes_def)
  qed
qed

lemma fix_overlaps_trims:
  assumes "\<And>r. r \<in> set (drop i (regions rmap)) \<Longrightarrow> trims region r" and "length (regions rmap) - i < fuel"
    and "\<And>r. r \<in> set (take i (regions rmap)) \<Longrightarrow> region_bytes r \<inter> region_bytes region = {}"
  shows "\<exists>rmap'. mregmap_fix_overlaps fuel can_realloc region i rmap = Some rmap'
    \<and> map_bytes rmap' = map_bytes rmap - region_bytes region"
  using assms
proof (induction fuel arbitrary: i rmap)
  case 0
  then show ?case by simp
next
  case (Suc fuel)
  show ?case
  proof (cases "i < length (regions rmap)")
    case False
    then have "map_bytes rmap \<inter> region_bytes region = {}" using Suc.prems(3) by (auto simp: map_bytes_def)
    then show ?thesis using False by auto
  next
    case True
    let ?tmp = "regions rmap ! i"
    have d: "drop i (regions rmap) = ?tmp # drop (Suc i) (regions rmap)" using True by (rule Cons_nth_drop_Suc [symmetric])
    have t: "take (Suc i) (regions rmap) = take i (regions rmap) @ [?tmp]" using True by (rule take_Suc_conv_app_nth)
    have all: "set (regions rmap) = set (take i (regions rmap)) \<union> {?tmp} \<union> set (drop (Suc i) (regions rmap))"
      using True by (subst id_take_nth_drop [OF True]) auto
    have "trims region ?tmp" using Suc.prems(1) d by simp
    from overlap_action_trims [OF this] show ?thesis
    proof (elim disjE conjE exE)
      assume a: "overlap_action region ?tmp = KeepIt" "region_bytes ?tmp \<inter> region_bytes region = {}"
      have "\<exists>rmap'. mregmap_fix_overlaps fuel can_realloc region (i + 1) rmap = Some rmap'
          \<and> map_bytes rmap' = map_bytes rmap - region_bytes region"
        using Suc.prems a True t d by (intro Suc.IH) auto
      then show ?thesis using True a by simp
    next
      fix tmp' assume a: "overlap_action region ?tmp = ReplaceBy tmp'"
        "region_bytes tmp' = region_bytes ?tmp - region_bytes region"
      let ?m = "rmap\<lparr>regions := (regions rmap)[i := tmp']\<rparr>"
      have rs: "take (i + 1) (regions ?m) = take i (regions rmap) @ [tmp']"
        "drop (i + 1) (regions ?m) = drop (Suc i) (regions rmap)"
        using True by (simp_all add: take_Suc_conv_app_nth take_update_swap list_update_append)
      have "\<exists>rmap'. mregmap_fix_overlaps fuel can_realloc region (i + 1) ?m = Some rmap'
          \<and> map_bytes rmap' = map_bytes ?m - region_bytes region"
      proof (rule Suc.IH)
        show "trims region r" if "r \<in> set (drop (i + 1) (regions ?m))" for r
          using that Suc.prems(1) d unfolding rs by auto
        show "region_bytes r \<inter> region_bytes region = {}" if "r \<in> set (take (i + 1) (regions ?m))" for r
          using that Suc.prems(3) a(2) unfolding rs by auto
      qed (use Suc.prems(2) True in simp)
      moreover have "set (regions ?m) = set (take i (regions rmap)) \<union> {tmp'} \<union> set (drop (Suc i) (regions rmap))"
        using rs by (metis append_take_drop_id set_append list.simps(15) empty_set Un_assoc)
      then have "map_bytes ?m - region_bytes region = map_bytes rmap - region_bytes region"
        unfolding map_bytes_def all using a(2) by auto
      ultimately show ?thesis using True a by simp
    qed
  qed
qed

end
