(* ===== verification/LinkedList.thy ===== *)
theory LinkedList
  imports Prelude
begin

text \<open>
  \<^verbatim>\<open>kernel/utils/linkedlist.c\<close>: the singly linked list of the kernel. The nodes live in a heap, a map
  from node addresses to \<open>LinkedListNode\<close> records; null is \<open>None\<close>. The result of \<open>kmalloc\<close> is an
  argument, a fresh address or \<open>None\<close>. \<open>ll_repr\<close> relates a list in the heap to the HOL list of its
  data, and every operation refines the corresponding list operation.
\<close>

section \<open>Operations\<close>

record LinkedListNode =
  data :: nat
  lnext :: "addr option"

record LinkedList =
  root :: "addr option"
  lend :: "addr option"

type_synonym node_heap = "addr \<rightharpoonup> LinkedListNode"

definition linkedlist_init :: LinkedList where
  "linkedlist_init = \<lparr>root = None, lend = None\<rparr>"

text \<open>An access to a node that is not in the heap is a fault, the outcome \<open>Panic\<close>.\<close>

definition linkedlist_add ::
    "addr option \<Rightarrow> nat \<Rightarrow> node_heap \<times> LinkedList \<Rightarrow> (unit result \<times> node_heap \<times> LinkedList) outcome" where
  "linkedlist_add new d hl =
     (case hl of (h, ll) \<Rightarrow>
       (case lend ll of
          Some e \<Rightarrow>
            (case h e of
               None \<Rightarrow> Panic
             | Some node \<Rightarrow>
                 let h1 = h(e \<mapsto> node\<lparr>lnext := new\<rparr>) in
                 (case new of
                    None \<Rightarrow> Ret (Inl ENOMEM, h1, ll)
                  | Some a \<Rightarrow> Ret (Inr (), h1(a \<mapsto> \<lparr>data = d, lnext = None\<rparr>), ll\<lparr>lend := Some a\<rparr>)))
        | None \<Rightarrow>
            let ll1 = ll\<lparr>root := new\<rparr> in
            (case new of
               None \<Rightarrow> Ret (Inl ENOMEM, h, ll1)
             | Some a \<Rightarrow> Ret (Inr (), h(a \<mapsto> \<lparr>data = d, lnext = None\<rparr>), ll1\<lparr>lend := Some a\<rparr>))))"

text \<open>Taking the node \<open>n\<close> out, the common part of the two removals; \<open>kfree(n)\<close> deletes the node.\<close>

definition unlink_node ::
    "addr option \<Rightarrow> addr \<Rightarrow> node_heap \<times> LinkedList \<Rightarrow> (node_heap \<times> LinkedList) outcome" where
  "unlink_node prev_node n hl =
     (case hl of (h, ll) \<Rightarrow>
       (case h n of
          None \<Rightarrow> Panic
        | Some node \<Rightarrow>
            let ll1 = (if lend ll = Some n then ll\<lparr>lend := prev_node\<rparr> else ll) in
            (case prev_node of
               Some p \<Rightarrow>
                 (case h p of
                    None \<Rightarrow> Panic
                  | Some pnode \<Rightarrow> Ret ((h(p \<mapsto> pnode\<lparr>lnext := lnext node\<rparr>))(n := None), ll1))
             | None \<Rightarrow> Ret (h(n := None), ll1\<lparr>root := lnext node\<rparr>))))"

partial_function (option) remove_by_data_loop ::
    "nat \<Rightarrow> addr option \<Rightarrow> addr option \<Rightarrow> node_heap \<times> LinkedList
      \<Rightarrow> (unit result \<times> node_heap \<times> LinkedList) outcome option" where
  "remove_by_data_loop d prev_node n hl =
     (case n of
        None \<Rightarrow> Some (Ret (Inl ENOENT, hl))
      | Some a \<Rightarrow>
          (case fst hl a of
             None \<Rightarrow> Some Panic
           | Some node \<Rightarrow>
               if data node = d then
                 Some (bind_outcome (unlink_node prev_node a hl) (\<lambda>hl1. Ret (Inr (), hl1)))
               else remove_by_data_loop d (Some a) (lnext node) hl))"

definition linkedlist_remove_by_data ::
    "nat \<Rightarrow> node_heap \<times> LinkedList \<Rightarrow> (unit result \<times> node_heap \<times> LinkedList) outcome option" where
  "linkedlist_remove_by_data d hl = remove_by_data_loop d None (root (snd hl)) hl"

fun walk_to :: "nat \<Rightarrow> addr option \<Rightarrow> addr option \<Rightarrow> node_heap \<Rightarrow> (addr option \<times> addr option) outcome" where
  "walk_to 0 prev_node n h = Ret (prev_node, n)"
| "walk_to (Suc k) prev_node n h =
     (case n of
        None \<Rightarrow> Ret (prev_node, n)
      | Some a \<Rightarrow>
          (case h a of
             None \<Rightarrow> Panic
           | Some node \<Rightarrow> walk_to k (Some a) (lnext node) h))"

definition linkedlist_remove_by_position ::
    "nat \<Rightarrow> node_heap \<times> LinkedList \<Rightarrow> (unit result \<times> node_heap \<times> LinkedList) outcome" where
  "linkedlist_remove_by_position pos hl =
     bind_outcome (walk_to pos None (root (snd hl)) (fst hl)) (\<lambda>(prev_node, n).
       case n of
         Some a \<Rightarrow> bind_outcome (unlink_node prev_node a hl) (\<lambda>hl1. Ret (Inr (), hl1))
       | None \<Rightarrow> Ret (Inl ENOENT, hl))"

section \<open>The list in the heap\<close>

text \<open>\<open>seg h p as xs\<close>: from \<open>p\<close> the nodes \<open>as\<close> are chained, hold \<open>xs\<close> and end in null.\<close>

fun seg :: "node_heap \<Rightarrow> addr option \<Rightarrow> addr list \<Rightarrow> nat list \<Rightarrow> bool" where
  "seg h p [] [] \<longleftrightarrow> p = None"
| "seg h p (a # as) (x # xs) \<longleftrightarrow>
     p = Some a \<and> (\<exists>node. h a = Some node \<and> data node = x \<and> seg h (lnext node) as xs)"
| "seg h p _ _ \<longleftrightarrow> False"

definition ll_at :: "node_heap \<times> LinkedList \<Rightarrow> addr list \<Rightarrow> nat list \<Rightarrow> bool" where
  "ll_at hl as xs \<longleftrightarrow> seg (fst hl) (root (snd hl)) as xs \<and> distinct as
     \<and> lend (snd hl) = (if as = [] then None else Some (last as))"

definition ll_repr :: "node_heap \<times> LinkedList \<Rightarrow> nat list \<Rightarrow> bool" where
  "ll_repr hl xs \<longleftrightarrow> (\<exists>as. ll_at hl as xs)"

lemma seg_length: "seg h p as xs \<Longrightarrow> length as = length xs"
  by (induction h p as xs rule: seg.induct) auto

lemma seg_cong: "(\<And>a. a \<in> set as \<Longrightarrow> h' a = h a) \<Longrightarrow> seg h p as xs \<Longrightarrow> seg h' p as xs"
  by (induction h p as xs rule: seg.induct) auto

lemma seg_dom: "seg h p as xs \<Longrightarrow> a \<in> set as \<Longrightarrow> \<exists>node. h a = Some node"
  by (induction h p as xs rule: seg.induct) auto

lemma seg_split:
  "seg h p (as @ bs) (xs @ ys) \<Longrightarrow> length as = length xs \<Longrightarrow> \<exists>q. seg h q bs ys"
  by (induction as xs arbitrary: p rule: list_induct2') auto

lemma seg_start: "seg h p as xs \<Longrightarrow> p = (if as = [] then None else Some (hd as))"
  by (cases as; cases xs) auto

text \<open>Appending a node to a chain: the last node gets the new address as its successor.\<close>

lemma seg_snoc:
  assumes "seg h p (as @ [e]) xs" and "distinct (as @ [e])" and "a \<notin> set (as @ [e])"
    and "h e = Some node"
  shows "seg (h(e \<mapsto> node\<lparr>lnext := Some a\<rparr>, a \<mapsto> \<lparr>data = d, lnext = None\<rparr>)) p (as @ [e, a]) (xs @ [d])"
  using assms
proof (induction as arbitrary: p xs)
  case Nil
  then show ?case by (cases xs rule: list.exhaust; cases "tl xs") auto
next
  case (Cons b as)
  then obtain x ys where xs: "xs = x # ys" by (cases xs) auto
  obtain bn where bn: "p = Some b" "h b = Some bn" "data bn = x" "seg h (lnext bn) (as @ [e]) ys"
    using Cons.prems(1) xs by auto
  have "b \<noteq> e" "b \<noteq> a" using Cons.prems by auto
  then show ?case using bn Cons.IH [OF bn(4)] Cons.prems by (auto simp: xs)
qed

text \<open>Unlinking the node after a non-empty prefix.\<close>

lemma seg_unlink:
  assumes "seg h p (as @ [q, n] @ bs) (xs @ [y, z] @ ys)" and "length as = length xs"
    and "distinct (as @ [q, n] @ bs)" and "h q = Some qn" and "h n = Some nn"
  shows "seg ((h(q \<mapsto> qn\<lparr>lnext := lnext nn\<rparr>))(n := None)) p (as @ [q] @ bs) (xs @ [y] @ ys)"
  using assms
proof (induction as xs arbitrary: p rule: list_induct2')
  case 1
  let ?h = "(h(q \<mapsto> qn\<lparr>lnext := lnext nn\<rparr>))(n := None)"
  have "seg h (lnext nn) bs ys" using 1 by auto
  then have "seg ?h (lnext nn) bs ys" by (rule seg_cong [rotated]) (use 1 in auto)
  then show ?case using 1 by (auto simp: fun_upd_def)
next
  case (4 a as x xs)
  obtain an where an: "p = Some a" "h a = Some an" "data an = x" "seg h (lnext an) (as @ [q, n] @ bs) (xs @ [y, z] @ ys)"
    using "4.prems"(1) by auto
  have "a \<noteq> q" "a \<noteq> n" using "4.prems"(3) by auto
  then show ?case using an 4 by auto
qed auto

section \<open>Refinement\<close>

lemma linkedlist_init_repr: "ll_repr (h, linkedlist_init) []"
  by (auto simp: ll_repr_def ll_at_def linkedlist_init_def intro: exI [of _ "[]"])

lemma ll_at_end:
  assumes "ll_at hl as xs"
  shows "lend (snd hl) = None \<longleftrightarrow> xs = []" and "root (snd hl) = None \<longleftrightarrow> xs = []"
  using assms seg_length [of "fst hl" "root (snd hl)" as xs]
  by (cases as; cases xs; auto simp: ll_at_def)+

lemma linkedlist_add_ok:
  assumes "ll_at (h, ll) as xs" and "h a = None"
  shows "\<exists>hl'. linkedlist_add (Some a) d (h, ll) = Ret (Inr (), hl') \<and> ll_at hl' (as @ [a]) (xs @ [d])"
proof (cases as rule: rev_cases)
  case Nil
  then have "xs = []" "lend ll = None" using assms(1) seg_length [of h "root ll" as xs] by (auto simp: ll_at_def)
  then show ?thesis using Nil by (simp add: linkedlist_add_def ll_at_def)
next
  case (snoc bs e)
  have sg: "seg h (root ll) (bs @ [e]) xs" "distinct (bs @ [e])" "lend ll = Some e"
    using assms(1) snoc by (auto simp: ll_at_def)
  obtain node where node: "h e = Some node" using seg_dom [OF sg(1), of e] by auto
  have fresh: "a \<notin> set (bs @ [e])" using seg_dom [OF sg(1)] assms(2) by fastforce
  then show ?thesis using seg_snoc [OF sg(1,2) fresh node, of d] sg node snoc
    by (auto simp: linkedlist_add_def ll_at_def)
qed

text \<open>When \<open>kmalloc\<close> fails the list stays as it is.\<close>

lemma linkedlist_add_nomem:
  assumes "ll_at (h, ll) as xs"
  shows "\<exists>hl'. linkedlist_add None d (h, ll) = Ret (Inl ENOMEM, hl') \<and> ll_at hl' as xs"
proof (cases as rule: rev_cases)
  case Nil
  then have "xs = []" "lend ll = None" using assms seg_length [of h "root ll" as xs] by (auto simp: ll_at_def)
  then show ?thesis using Nil by (simp add: linkedlist_add_def ll_at_def)
next
  case (snoc bs e)
  have sg: "seg h (root ll) (bs @ [e]) xs" "distinct (bs @ [e])" "lend ll = Some e"
    using assms snoc by (auto simp: ll_at_def)
  obtain node where node: "h e = Some node" using seg_dom [OF sg(1), of e] by auto
  have "seg h' p' cs' ys \<Longrightarrow> cs' = cs @ [e] \<Longrightarrow> h' e = Some node \<Longrightarrow> lnext node = None" for h' p' cs' cs ys
    by (induction h' p' cs' ys arbitrary: cs rule: seg.induct) (auto simp: Cons_eq_append_conv elim: seg.elims)
  then have "lnext node = None" using sg(1) node by blast
  then have "h(e \<mapsto> node\<lparr>lnext := None\<rparr>) = h" using node by (auto simp: fun_eq_iff)
  then show ?thesis using assms sg node snoc by (auto simp: linkedlist_add_def ll_at_def)
qed


abbreviation prev_of :: "addr list \<Rightarrow> addr option" where
  "prev_of as \<equiv> (if as = [] then None else Some (last as))"

lemma unlink_node_ok:
  assumes "ll_at hl (as @ a # bs) (xs @ x # ys)" and "length as = length xs"
  shows "\<exists>hl'. unlink_node (prev_of as) a hl = Ret hl' \<and> ll_at hl' (as @ bs) (xs @ ys)"
proof -
  obtain h ll where hl: "hl = (h, ll)" by (cases hl)
  have sg: "seg h (root ll) (as @ a # bs) (xs @ x # ys)" "distinct (as @ a # bs)"
    "lend ll = Some (last (a # bs))"
    using assms(1) by (auto simp: ll_at_def hl)
  obtain an where an: "h a = Some an" using seg_dom [OF sg(1), of a] by auto
  have lst: "bs \<noteq> [] \<Longrightarrow> last bs \<noteq> a" using sg(2) last_in_set [of bs] by auto
  show ?thesis
  proof (cases as rule: rev_cases)
    case Nil
    then have x: "xs = []" using assms(2) by simp
    have "seg h (lnext an) bs ys" using sg(1) an Nil x by auto
    then have "seg (h(a := None)) (lnext an) bs ys" by (rule seg_cong [rotated]) (use sg(2) in auto)
    moreover have "unlink_node None a hl =
        Ret (h(a := None), (if lend ll = Some a then ll\<lparr>lend := None\<rparr> else ll)\<lparr>root := lnext an\<rparr>)"
      using an by (simp add: unlink_node_def hl Let_def)
    ultimately show ?thesis using sg(2,3) lst unfolding Nil x append_Nil ll_at_def
      by (cases "bs = []") (simp_all del: split_paired_Ex)
  next
    case (snoc cs q)
    then obtain zs z where xs: "xs = zs @ [z]" "length cs = length zs"
      using assms(2) by (cases xs rule: rev_cases) auto
    obtain qn where qn: "h q = Some qn" using seg_dom [OF sg(1), of q] snoc by auto
    have "seg ((h(q \<mapsto> qn\<lparr>lnext := lnext an\<rparr>))(a := None)) (root ll) (cs @ [q] @ bs) (zs @ [z] @ ys)"
      using sg snoc xs an qn by (intro seg_unlink) auto
    moreover have "unlink_node (Some q) a hl = Ret ((h(q \<mapsto> qn\<lparr>lnext := lnext an\<rparr>))(a := None),
        if lend ll = Some a then ll\<lparr>lend := Some q\<rparr> else ll)"
      using an qn by (simp add: unlink_node_def hl Let_def)
    ultimately show ?thesis using sg(2,3) lst xs(1) snoc unfolding ll_at_def
      by (cases "bs = []") (simp_all del: split_paired_Ex)
  qed
qed

lemma remove_by_data_loop_ok:
  assumes "ll_at hl (as @ bs) (xs @ ys)" and "length as = length xs" and "d \<notin> set xs"
  shows "\<exists>r hl'. remove_by_data_loop d (prev_of as) (if bs = [] then None else Some (hd bs)) hl = Some (Ret (r, hl'))
    \<and> (if d \<in> set ys then r = Inr () \<and> (\<exists>cs. set cs \<subseteq> set (as @ bs) \<and> ll_at hl' cs (xs @ remove1 d ys))
        else r = Inl ENOENT \<and> hl' = hl)"
  using assms
proof (induction bs arbitrary: as xs ys)
  case Nil
  then have "ys = []" using seg_length [of "fst hl" "root (snd hl)" "as @ []" "xs @ ys"] by (auto simp: ll_at_def)
  then show ?case by (subst remove_by_data_loop.simps) simp
next
  case (Cons b bs)
  have sg: "seg (fst hl) (root (snd hl)) (as @ b # bs) (xs @ ys)" using Cons.prems(1) by (simp add: ll_at_def)
  from seg_split [OF sg Cons.prems(2)] obtain q where q: "seg (fst hl) q (b # bs) ys" by blast
  then obtain y zs node where y: "ys = y # zs" and node: "fst hl b = Some node" "data node = y" "seg (fst hl) (lnext node) bs zs"
    by (cases ys) auto
  have nxt: "lnext node = (if bs = [] then None else Some (hd bs))" by (rule seg_start [OF node(3)])
  show ?case
  proof (cases "y = d")
    case True
    obtain hl' where u: "unlink_node (prev_of as) b hl = Ret hl'" "ll_at hl' (as @ bs) (xs @ zs)"
      using unlink_node_ok [of hl as b bs xs y zs] Cons.prems y by auto
    then have "remove_by_data_loop d (prev_of as) (Some b) hl = Some (Ret (Inr (), hl'))"
      using node True by (subst remove_by_data_loop.simps) simp
    then show ?thesis using u(2) y True by (intro exI [of _ "Inr ()"] exI [of _ hl']) (auto intro!: exI [of _ "as @ bs"])
  next
    case False
    have step: "remove_by_data_loop d (prev_of as) (Some b) hl =
        remove_by_data_loop d (prev_of (as @ [b])) (if bs = [] then None else Some (hd bs)) hl"
      using node False nxt by (subst remove_by_data_loop.simps) simp
    have "\<exists>r hl'. remove_by_data_loop d (prev_of (as @ [b])) (if bs = [] then None else Some (hd bs)) hl = Some (Ret (r, hl'))
      \<and> (if d \<in> set zs then r = Inr () \<and> (\<exists>cs. set cs \<subseteq> set ((as @ [b]) @ bs) \<and> ll_at hl' cs ((xs @ [y]) @ remove1 d zs))
          else r = Inl ENOENT \<and> hl' = hl)"
      using Cons.prems y False by (intro Cons.IH) auto
    then show ?thesis using step y False by (auto split: if_splits)
  qed
qed

lemma linkedlist_remove_by_data_ok:
  assumes "ll_at hl as xs"
  shows "\<exists>r hl'. linkedlist_remove_by_data d hl = Some (Ret (r, hl')) \<and>
    (if d \<in> set xs then r = Inr () \<and> (\<exists>cs. set cs \<subseteq> set as \<and> ll_at hl' cs (remove1 d xs)) else r = Inl ENOENT \<and> hl' = hl)"
proof -
  have root: "root (snd hl) = (if as = [] then None else Some (hd as))"
    using assms seg_start [of "fst hl" "root (snd hl)" as xs] by (simp add: ll_at_def)
  have "\<exists>r hl'. remove_by_data_loop d (prev_of []) (if as = [] then None else Some (hd as)) hl = Some (Ret (r, hl'))
    \<and> (if d \<in> set xs then r = Inr () \<and> (\<exists>cs. set cs \<subseteq> set as \<and> ll_at hl' cs (remove1 d xs))
        else r = Inl ENOENT \<and> hl' = hl)"
    by (rule remove_by_data_loop_ok [of hl "[]" as "[]" xs d, unfolded append_Nil]) (use assms in simp_all)
  then show ?thesis by (simp only: linkedlist_remove_by_data_def root if_True simp_thms)
qed

lemma walk_to_ok:
  assumes "seg h n bs ys"
  shows "walk_to k (prev_of as) n h =
    Ret (prev_of (as @ take k bs), if k < length bs then Some (bs ! k) else None)"
  using assms
proof (induction k arbitrary: as n bs ys)
  case 0
  then show ?case using seg_start [OF 0] by (cases bs) (auto simp: hd_conv_nth)
next
  case (Suc k)
  show ?case
  proof (cases bs)
    case Nil
    then show ?thesis using Suc.prems by (cases ys) auto
  next
    case (Cons b cs)
    then obtain y zs node where y: "ys = y # zs" "n = Some b" "h b = Some node" "seg h (lnext node) cs zs"
      using Suc.prems by (cases ys) auto
    have "walk_to (Suc k) (prev_of as) n h = walk_to k (prev_of (as @ [b])) (lnext node) h" using y by simp
    also have "\<dots> = Ret (prev_of ((as @ [b]) @ take k cs), if k < length cs then Some (cs ! k) else None)"
      by (rule Suc.IH [OF y(4)])
    finally show ?thesis by (simp add: Cons)
  qed
qed

lemma linkedlist_remove_by_position_ok:
  assumes "ll_at hl as xs"
  shows "\<exists>r hl'. linkedlist_remove_by_position pos hl = Ret (r, hl') \<and>
    (if pos < length xs then r = Inr () \<and> (\<exists>cs. set cs \<subseteq> set as \<and> ll_at hl' cs (remove_at pos xs)) else r = Inl ENOENT \<and> hl' = hl)"
proof -
  have sg: "seg (fst hl) (root (snd hl)) as xs" using assms by (simp add: ll_at_def)
  have len: "length as = length xs" by (rule seg_length [OF sg])
  note w = walk_to_ok [OF sg, of pos "[]"]
  show ?thesis
  proof (cases "pos < length xs")
    case True
    have split: "ll_at hl (take pos as @ as ! pos # drop (Suc pos) as) (take pos xs @ xs ! pos # drop (Suc pos) xs)"
      using assms True len by (simp add: id_take_nth_drop [symmetric])
    have "length (take pos as) = length (take pos xs)" using len by simp
    from unlink_node_ok [OF split this] obtain hl' where
      "unlink_node (prev_of (take pos as)) (as ! pos) hl = Ret hl'"
      "ll_at hl' (take pos as @ drop (Suc pos) as) (take pos xs @ drop (Suc pos) xs)" by blast
    then show ?thesis using True len w
      by (auto simp: linkedlist_remove_by_position_def remove_at_def simp del: split_paired_Ex
          dest: in_set_takeD in_set_dropD intro!: exI [of _ hl'] exI [of _ "take pos as @ drop (Suc pos) as"])
  next
    case False
    then show ?thesis using w len by (auto simp: linkedlist_remove_by_position_def)
  qed
qed

end
