(* ===== verification/BaseProps.thy ===== *)
theory BaseProps
  imports Mregmap LinkedList
begin

text \<open>
  Properties of the page frame allocator, the memory region map it is set up from, and the linked list.
\<close>

section \<open>Frames\<close>

text \<open>
  C24: \<open>falloc_one_user\<close> gives out the highest free frame at or below its cursor, marks exactly that frame as taken
  and counts it; it returns null only when no frame from 64 (the frames of the first pool word are never given
  out) up to the cursor is free, and then changes no frame. The cursor only moves down.
\<close>
theorem falloc_one_user_ok:
  assumes "cursor_ok s"
  shows "case falloc_one_user s of (p, s') \<Rightarrow> cursor_ok s' \<and> cursor_pos s' \<le> cursor_pos s \<and>
    (if p = 0 then (\<forall>g. 64 \<le> g \<and> g \<le> cursor_pos s \<longrightarrow> \<not> frame_free s g)
        \<and> g_pgframe_pool s' = g_pgframe_pool s \<and> g_pgframes_cnt s' = g_pgframes_cnt s
     else \<exists>f. p = f * FRAMESIZE \<and> f = cursor_pos s' \<and> 64 \<le> f \<and> f < 1048576 \<and> frame_free s f
        \<and> (\<forall>g. f < g \<and> g \<le> cursor_pos s \<longrightarrow> \<not> frame_free s g)
        \<and> (\<forall>g. frame_free s' g \<longleftrightarrow> frame_free s g \<and> g \<noteq> f)
        \<and> g_pgframes_cnt s' = sub32 (g_pgframes_cnt s) 1)"
  unfolding falloc_one_user_def by (rule user_outer_spec [OF assms])

theorem falloc_one_user_ok_witness:
  "\<exists>p s'. falloc_one_user falloc_initial = (p, s') \<and> p = 1048575 * FRAMESIZE \<and> \<not> frame_free s' 1048575"
proof -
  have "cursor_ok falloc_initial" by (simp add: cursor_ok_def falloc_initial_def PAGEFRAME_POOL_SIZE_def)
  note spec = falloc_one_user_ok [OF this]
  obtain p s' where ps: "falloc_one_user falloc_initial = (p, s')" by fastforce
  have all: "frame_free falloc_initial g" for g by (simp add: frame_free_def falloc_initial_def)
  have pos: "cursor_pos falloc_initial = 1048575" by (simp add: cursor_pos_def falloc_initial_def PAGEFRAME_POOL_SIZE_def)
  have "p \<noteq> 0"
  proof
    assume "p = 0"
    then have "\<forall>g. 64 \<le> g \<and> g \<le> 1048575 \<longrightarrow> \<not> frame_free falloc_initial g" using spec unfolding ps pos by simp
    then have "\<not> frame_free falloc_initial 64" by (elim allE [of _ 64]) simp
    then show False using all [of 64] by simp
  qed
  then obtain f where "p = f * FRAMESIZE" "f = cursor_pos s'" "\<forall>g. f < g \<and> g \<le> 1048575 \<longrightarrow> \<not> frame_free falloc_initial g"
    "\<forall>g. frame_free s' g \<longleftrightarrow> frame_free falloc_initial g \<and> g \<noteq> f" "cursor_pos s' \<le> 1048575"
    using spec unfolding ps pos by auto
  moreover have "f = 1048575"
  proof (rule ccontr)
    assume "f \<noteq> 1048575"
    then have "f < 1048575" using calculation by simp
    then show False using calculation(3) all [of 1048575] by (elim allE [of _ 1048575]) simp
  qed
  ultimately show ?thesis using ps by (intro exI [of _ p] exI [of _ s']) simp
qed

text \<open>
  C17: what \<open>ffree_one\<close> frees. The frame becomes free and is counted once; but because \<open>bw_clear\<close> shifts a 32-bit
  one, freeing a frame whose bit is in the lower half of its pool word also frees the 32 frames of the upper half,
  which may be in use.
\<close>
theorem ffree_one_exact:
  assumes "base < W32" and "base mod FRAMESIZE = 0" and "f = base div FRAMESIZE"
  shows "\<exists>s'. ffree_one base s = Ret s' \<and> g_pgframes_cnt s' = add32 (g_pgframes_cnt s) 1 \<and>
    (\<forall>g. frame_free s' g \<longleftrightarrow> frame_free s g \<or> g = f
         \<or> f mod 64 < 32 \<and> g div 64 = f div 64 \<and> 32 \<le> g mod 64)"
  unfolding assms(3) by (rule ffree_one_spec [OF assms(1,2)])

theorem ffree_one_exact_witness:
  "\<forall>s. \<exists>s'. ffree_one (100 * 64 * FRAMESIZE) s = Ret s' \<and> frame_free s' 6400 \<and> frame_free s' 6440 \<and>
     (frame_free s' 6401 \<longleftrightarrow> frame_free s 6401)"
proof
  fix s
  have "100 * 64 * FRAMESIZE < W32" "100 * 64 * FRAMESIZE mod FRAMESIZE = 0" "6400 = 100 * 64 * FRAMESIZE div FRAMESIZE"
    by (simp_all add: FRAMESIZE_def)
  from ffree_one_exact [OF this, of s] obtain s' where s': "ffree_one (100 * 64 * FRAMESIZE) s = Ret s'"
    and f: "\<And>g. frame_free s' g \<longleftrightarrow> frame_free s g \<or> g = 6400 \<or> 6400 mod 64 < (32 :: nat) \<and> g div 64 = 6400 div 64 \<and> 32 \<le> g mod 64"
    by blast
  show "\<exists>s'. ffree_one (100 * 64 * FRAMESIZE) s = Ret s' \<and> frame_free s' 6400 \<and> frame_free s' 6440 \<and>
     (frame_free s' 6401 \<longleftrightarrow> frame_free s 6401)"
    using s' f [of 6400] f [of 6440] f [of 6401] by (intro exI [of _ s']) simp
qed

section \<open>Memory regions\<close>



section \<open>Lists\<close>

text \<open>
  C19: the linked list refines a list of its data. Adding appends, or leaves the list as it was when no node could
  be allocated; removing by value removes the first occurrence and removing by position the element there, both
  return -ENOENT and change nothing when there is none. All of them return.
\<close>
theorem linkedlist_refines_list:
  assumes "ll_repr hl xs" and "\<forall>a. new = Some a \<longrightarrow> fst hl a = None"
  shows "(\<exists>hl'. linkedlist_add new d hl = Ret (if new = None then Inl ENOMEM else Inr (), hl') \<and>
       ll_repr hl' (if new = None then xs else xs @ [d])) \<and>
    (\<exists>hl'. linkedlist_remove_by_data d hl = Some (Ret (if d \<in> set xs then Inr () else Inl ENOENT, hl')) \<and>
       ll_repr hl' (remove1 d xs)) \<and>
    (\<exists>hl'. linkedlist_remove_by_position i hl = Ret (if i < length xs then Inr () else Inl ENOENT, hl') \<and>
       ll_repr hl' (if i < length xs then remove_at i xs else xs))"
proof -
  obtain as where as: "ll_at hl as xs" using assms(1) by (auto simp: ll_repr_def)
  obtain h ll where hl: "hl = (h, ll)" by (cases hl)
  have "\<exists>hl'. linkedlist_add new d hl = Ret (if new = None then Inl ENOMEM else Inr (), hl') \<and>
      ll_repr hl' (if new = None then xs else xs @ [d])"
  proof (cases new)
    case None
    then show ?thesis using linkedlist_add_nomem [of h ll as xs d] as hl unfolding ll_repr_def by auto
  next
    case (Some a)
    then have "h a = None" using assms(2) hl by simp
    then show ?thesis using linkedlist_add_ok [of h ll as xs a d] as hl Some unfolding ll_repr_def by auto
  qed
  moreover have "\<exists>hl'. linkedlist_remove_by_data d hl = Some (Ret (if d \<in> set xs then Inr () else Inl ENOENT, hl')) \<and>
      ll_repr hl' (remove1 d xs)"
    using linkedlist_remove_by_data_ok [OF as, of d] as unfolding ll_repr_def
    by (cases "d \<in> set xs") (simp_all del: split_paired_Ex add: remove1_idem, blast+)
  moreover have "\<exists>hl'. linkedlist_remove_by_position i hl = Ret (if i < length xs then Inr () else Inl ENOENT, hl') \<and>
      ll_repr hl' (if i < length xs then remove_at i xs else xs)"
    using linkedlist_remove_by_position_ok [OF as, of i] as unfolding ll_repr_def
    by (cases "i < length xs") (simp_all del: split_paired_Ex, blast+)
  ultimately show ?thesis by blast
qed

theorem linkedlist_refines_list_witness:
  "\<exists>hl'. linkedlist_remove_by_data 7 ([8 \<mapsto> \<lparr>data = 7, lnext = Some 16\<rparr>, 16 \<mapsto> \<lparr>data = 9, lnext = None\<rparr>],
      \<lparr>root = Some 8, lend = Some 16\<rparr>) = Some (Ret (Inr (), hl')) \<and> ll_repr hl' [9]"
proof -
  let ?hl = "([8 \<mapsto> \<lparr>data = 7, lnext = Some 16\<rparr>, 16 \<mapsto> \<lparr>data = 9, lnext = None\<rparr>], \<lparr>root = Some 8, lend = Some 16\<rparr>)"
  have "ll_repr ?hl [7, 9]" unfolding ll_repr_def by (rule exI [of _ "[8, 16]"]) (simp add: ll_at_def)
  from linkedlist_refines_list [OF this, of None 7] show ?thesis by simp
qed

end
