(* ===== verification/Paging.thy ===== *)
theory Paging
  imports HeapExample Falloc
begin

unbundle bit_operations_syntax

text \<open>
  The page tables of the x86 port (\<^verbatim>\<open>arch/x86/mem/{pdpt,pd,pt}.c\<close> and their headers) and the list of
  tracked pages of an address space (\<^verbatim>\<open>kernel/mem/paging.c\<close>).

  The three kinds of table are objects of a typed store, one map from kernel virtual addresses to
  tables for each kind. The addresses come from \<open>kmalloc_aligned\<close> on the byte-level heap, which is
  part of the same state. A pointer to an entry is the address of its table with an index. Reading
  through a pointer at which there is no table of that kind is a page fault in the kernel: \<open>Panic\<close>.
\<close>

section \<open>Entries\<close>

record pte_t =
  pte_present :: bool
  pte_writable :: bool
  pte_user_access :: bool
  pte_writehrough :: bool
  pte_cache_disabled :: bool
  pte_accessed :: bool
  pte_dirty :: bool
  pte_pat_memtype :: bool
  pte_global :: bool
  pte_unused :: "3 word"
  pte_frame_base :: "50 word"
  pte_reserved :: bool
  pte_exec_disable :: bool

record pde_t =
  pde_present :: bool
  pde_writable :: bool
  pde_user_access :: bool
  pde_writehrough :: bool
  pde_cache_disabled :: bool
  pde_accessed :: bool
  pde_zero :: bool
  pde_page_size :: bool
  pde_ignored :: bool
  pde_unused :: "3 word"
  pde_table_base :: "50 word"
  pde_reserved :: bool
  pde_exec_disable :: bool

record pdpte_t =
  pdpte_present :: bool
  pdpte_reserved :: "2 word"
  pdpte_pwt :: bool
  pdpte_pcd :: bool
  pdpte_reserved2 :: "4 word"
  pdpte_ignored :: "3 word"
  pdpte_pd_base :: "51 word"
  pdpte_reserved3 :: bool

type_synonym pt_t = "pte_t list"
type_synonym pd_t = "pde_t list"
type_synonym pdpt_t = "pdpte_t list"

definition zero_pte :: pte_t where
  "zero_pte = \<lparr>pte_present = False, pte_writable = False, pte_user_access = False,
     pte_writehrough = False, pte_cache_disabled = False, pte_accessed = False, pte_dirty = False,
     pte_pat_memtype = False, pte_global = False, pte_unused = 0, pte_frame_base = 0,
     pte_reserved = False, pte_exec_disable = False\<rparr>"

definition zero_pde :: pde_t where
  "zero_pde = \<lparr>pde_present = False, pde_writable = False, pde_user_access = False,
     pde_writehrough = False, pde_cache_disabled = False, pde_accessed = False, pde_zero = False,
     pde_page_size = False, pde_ignored = False, pde_unused = 0, pde_table_base = 0,
     pde_reserved = False, pde_exec_disable = False\<rparr>"

definition zero_pdpte :: pdpte_t where
  "zero_pdpte = \<lparr>pdpte_present = False, pdpte_reserved = 0, pdpte_pwt = False, pdpte_pcd = False,
     pdpte_reserved2 = 0, pdpte_ignored = 0, pdpte_pd_base = 0, pdpte_reserved3 = False\<rparr>"

text \<open>\<open>memset(table, 0, sizeof(table))\<close> makes every entry zero.\<close>

definition pt_init :: pt_t where "pt_init = replicate 512 zero_pte"
definition pd_init :: pd_t where "pd_init = replicate 512 zero_pde"
definition pdpt_init :: pdpt_t where "pdpt_init = replicate 4 zero_pdpte"

text \<open>
  A base shifted left by 12 and converted to the 32-bit \<open>ptr\<close>; \<open>kimg_map_offset()\<close> is the argument
  \<open>off\<close>. A null pointer is \<open>None\<close>.
\<close>

definition mm_kpa2va :: "nat \<Rightarrow> addr \<Rightarrow> addr" where "mm_kpa2va off pa = add32 pa off"
definition mm_kva2pa :: "nat \<Rightarrow> addr \<Rightarrow> addr" where "mm_kva2pa off va = sub32 va off"

definition pte_set_frame_paddr :: "addr \<Rightarrow> pte_t \<Rightarrow> pte_t" where
  "pte_set_frame_paddr paddr pte = pte\<lparr>pte_frame_base := word_of_nat (paddr div 4096)\<rparr>"

definition pte_frame_paddr :: "pte_t \<Rightarrow> addr" where
  "pte_frame_paddr pte = (unat (pte_frame_base pte) * 4096) mod W32"

definition pte_from_vaddr :: "addr \<Rightarrow> nat" where
  "pte_from_vaddr va = (let off = va div (PAGESIZE * 512) * 512 in va div PAGESIZE - off)"

definition pde_set_pt_paddr :: "addr \<Rightarrow> pde_t \<Rightarrow> pde_t" where
  "pde_set_pt_paddr base pde = pde\<lparr>pde_table_base := word_of_nat (base div 4096)\<rparr>"

definition pde_set_pt_vaddr :: "nat \<Rightarrow> addr \<Rightarrow> pde_t \<Rightarrow> pde_t" where
  "pde_set_pt_vaddr off va pde = pde_set_pt_paddr (mm_kva2pa off va) pde"

definition pde_pt_paddr :: "pde_t \<Rightarrow> addr" where
  "pde_pt_paddr pde = (unat (pde_table_base pde) * 4096) mod W32"

definition pde_pt_vaddr :: "nat \<Rightarrow> pde_t \<Rightarrow> addr option" where
  "pde_pt_vaddr off pde =
     (let ptpaddr = pde_pt_paddr pde in if ptpaddr = 0 then None else Some (mm_kpa2va off ptpaddr))"

definition pde_from_vaddr :: "addr \<Rightarrow> nat" where
  "pde_from_vaddr va =
     (let off = va div (PAGESIZE * 512 * 512) * 512 in va div (PAGESIZE * 512) - off)"

definition pdpte_set_pd_paddr :: "addr \<Rightarrow> pdpte_t \<Rightarrow> pdpte_t" where
  "pdpte_set_pd_paddr paddr pdpte = pdpte\<lparr>pdpte_pd_base := word_of_nat (paddr div 4096)\<rparr>"

definition pdpte_set_pd_vaddr :: "nat \<Rightarrow> addr \<Rightarrow> pdpte_t \<Rightarrow> pdpte_t" where
  "pdpte_set_pd_vaddr off va pdpte = pdpte_set_pd_paddr (mm_kva2pa off va) pdpte"

definition pdpte_pd_paddr :: "pdpte_t \<Rightarrow> addr" where
  "pdpte_pd_paddr pdpte = (unat (pdpte_pd_base pdpte) * 4096) mod W32"

definition pdpte_pd_vaddr :: "nat \<Rightarrow> pdpte_t \<Rightarrow> addr option" where
  "pdpte_pd_vaddr off pdpte =
     (let pdpaddr = pdpte_pd_paddr pdpte in if pdpaddr = 0 then None else Some (mm_kpa2va off pdpaddr))"

definition GIB :: nat where "GIB = 1073741824"

definition pdpte_from_vaddr :: "addr \<Rightarrow> nat" where
  "pdpte_from_vaddr va = va div GIB"

section \<open>Tracked pages\<close>

text \<open>
  \<open>allocated_pages\<close> is the pointer, \<open>pages\<close> the array behind it (its length is the capacity); the
  first \<open>allocated_pages_size\<close> elements are in use.
\<close>

record PagingStruct =
  allocated_pages :: "addr option"
  pages :: "addr list"
  allocated_pages_size :: nat
  allocated_pages_capacity :: nat
  psdata :: "addr option"

definition pagingstruct_enlarge_allocated_pages ::
    "PagingStruct \<Rightarrow> kmstate \<Rightarrow> (unit result \<times> PagingStruct \<times> kmstate) outcome option" where
  "pagingstruct_enlarge_allocated_pages ps s =
     (let newcap = add32 (allocated_pages_capacity ps) 20 in
      bind_run (krealloc (allocated_pages ps) (mul32 newcap 4) s) (\<lambda>(tmp, s1).
        case tmp of
          None \<Rightarrow> Some (Ret (Inl ENOMEM, ps, s1))
        | Some p \<Rightarrow> Some (Ret (Inr (), ps\<lparr>allocated_pages := Some p, pages := pages ps @ replicate 20 0,
                                          allocated_pages_capacity := newcap\<rparr>, s1))))"

definition pagingstruct_init :: "kmstate \<Rightarrow> (unit result \<times> PagingStruct \<times> kmstate) outcome option" where
  "pagingstruct_init s =
     pagingstruct_enlarge_allocated_pages
       \<lparr>allocated_pages = None, pages = [], allocated_pages_size = 0, allocated_pages_capacity = 0,
        psdata = None\<rparr> s"

definition pagingstruct_destroy :: "PagingStruct \<Rightarrow> kmstate \<Rightarrow> (PagingStruct \<times> kmstate) outcome option" where
  "pagingstruct_destroy ps s =
     (let zeroed = ps\<lparr>allocated_pages := None, pages := [], allocated_pages_capacity := 0,
                      allocated_pages_size := 0\<rparr> in
      case allocated_pages ps of
        None \<Rightarrow> Some (Ret (zeroed, s))
      | Some p \<Rightarrow> bind_run (kfree (Some p) s) (\<lambda>s1. Some (Ret (zeroed, s1))))"

text \<open>The search for the place of a page: the first larger one; an equal one is a panic.\<close>

fun track_index :: "addr \<Rightarrow> addr list \<Rightarrow> nat \<Rightarrow> nat outcome" where
  "track_index v [] idx = Ret idx"
| "track_index v (va # rest) idx =
     (if va = v then Panic else if va > v then Ret idx else track_index v rest (idx + 1))"

text \<open>\<open>for (i = size; i > idx; --i) allocated_pages[i] = allocated_pages[i - 1]\<close>.\<close>

function shift_up :: "nat \<Rightarrow> nat \<Rightarrow> addr list \<Rightarrow> addr list" where
  "shift_up i idx xs = (if i > idx then shift_up (i - 1) idx (xs[i := xs ! (i - 1)]) else xs)"
  by pat_completeness auto
termination by (relation "measure (\<lambda>(i, idx, xs). i)") auto

declare shift_up.simps [simp del]

definition pagingstruct_track_page ::
    "addr \<Rightarrow> PagingStruct \<Rightarrow> kmstate \<Rightarrow> (unit result \<times> PagingStruct \<times> kmstate) outcome option" where
  "pagingstruct_track_page v ps s =
     bind_run
       (if allocated_pages_size ps = allocated_pages_capacity ps
        then pagingstruct_enlarge_allocated_pages ps s else Some (Ret (Inr (), ps, s)))
       (\<lambda>(st, ps1, s1).
         case st of
           Inl e \<Rightarrow> Some (Ret (Inl e, ps1, s1))
         | Inr _ \<Rightarrow>
             let n = allocated_pages_size ps1 in
             (case track_index v (take n (pages ps1)) 0 of
                Panic \<Rightarrow> Some Panic
              | Ret idx \<Rightarrow>
                  Some (Ret (Inr (), ps1\<lparr>pages := (shift_up n idx (pages ps1))[idx := v],
                                         allocated_pages_size := n + 1\<rparr>, s1))))"

section \<open>Lemmas\<close>

lemma PAGESIZE_eq [simp]: "PAGESIZE = 4096" by (simp add: PAGESIZE_def)

lemma shift_up_spec:
  "idx \<le> n \<Longrightarrow> n < length xs \<Longrightarrow>
   shift_up n idx xs = take (Suc idx) xs @ take (n - idx) (drop idx xs) @ drop (Suc n) xs"
proof (induction n arbitrary: xs)
  case 0
  then show ?case by (simp add: shift_up.simps [of 0])
next
  case (Suc n)
  show ?case
  proof (cases "idx = Suc n")
    case True
    then show ?thesis using Suc.prems by (simp add: shift_up.simps [of "Suc n"])
  next
    case False
    let ?ys = "xs[Suc n := xs ! n]"
    have i: "idx \<le> n" "n < length ?ys" using False Suc.prems by auto
    have "shift_up (Suc n) idx xs = shift_up n idx ?ys" using False Suc.prems by (simp add: shift_up.simps [of "Suc n"])
    also have "\<dots> = take (Suc idx) ?ys @ take (n - idx) (drop idx ?ys) @ drop (Suc n) ?ys"
      by (rule Suc.IH [OF i])
    also have "take (Suc idx) ?ys = take (Suc idx) xs" using i(1) by (simp add: take_update_cancel)
    also have "take (n - idx) (drop idx ?ys) = take (n - idx) (drop idx xs)"
      using i(1) by (simp add: drop_update_swap take_update_cancel)
    also have "drop (Suc n) ?ys = xs ! n # drop (Suc (Suc n)) xs"
      using Suc.prems by (simp add: drop_update_swap Cons_nth_drop_Suc [symmetric])
    also have "take (n - idx) (drop idx xs) @ xs ! n # drop (Suc (Suc n)) xs
        = take (Suc n - idx) (drop idx xs) @ drop (Suc (Suc n)) xs"
    proof -
      have "Suc n - idx = Suc (n - idx)" using i(1) by simp
      moreover have "drop idx xs ! (n - idx) = xs ! n" using i(1) Suc.prems by simp
      ultimately show ?thesis using i Suc.prems by (simp add: take_Suc_conv_app_nth)
    qed
    finally show ?thesis .
  qed
qed

lemma track_index_sorted:
  assumes "sorted_wrt (<) xs"
  shows "track_index v xs k = (if v \<in> set xs then Panic else Ret (k + length (takeWhile (\<lambda>x. x < v) xs)))"
  using assms by (induction xs arbitrary: k) (auto simp: not_less_iff_gr_or_eq)

lemma insert_at_split:
  fixes xs :: "nat list"
  assumes "sorted_wrt (<) xs" and "v \<notin> set xs"
  shows "sorted_wrt (<) (takeWhile (\<lambda>x. x < v) xs @ v # dropWhile (\<lambda>x. x < v) xs)"
  using assms by (induction xs) (auto dest: set_takeWhileD set_dropWhileD simp: not_less_iff_gr_or_eq)

lemma track_place:
  fixes idx n
  assumes n: "n < length xs" and idx: "idx \<le> n"
  shows "take (Suc n) ((shift_up n idx xs)[idx := v]) = take idx xs @ v # drop idx (take n xs)"
proof -
  have "(shift_up n idx xs)[idx := v] = take idx xs @ v # take (n - idx) (drop idx xs) @ drop (Suc n) xs"
    using n idx by (simp add: shift_up_spec take_Suc_conv_app_nth list_update_append)
  then show ?thesis using n idx
    by (simp add: min_def drop_take take_append) (simp add: Suc_diff_le)
qed

text \<open>The pages in use, and when the bookkeeping is consistent.\<close>

definition tracked :: "PagingStruct \<Rightarrow> addr list" where
  "tracked ps = take (allocated_pages_size ps) (pages ps)"

definition track_inv :: "PagingStruct \<Rightarrow> bool" where
  "track_inv ps \<longleftrightarrow> length (pages ps) = allocated_pages_capacity ps \<and>
     allocated_pages_size ps \<le> allocated_pages_capacity ps \<and> sorted_wrt (<) (tracked ps)"

lemma track_in_room:
  assumes inv: "track_inv ps" and room: "allocated_pages_size ps < allocated_pages_capacity ps"
  shows "pagingstruct_track_page v ps s =
    (if v \<in> set (tracked ps) then Some Panic
     else let idx = length (takeWhile (\<lambda>x. x < v) (tracked ps)) in
       Some (Ret (Inr (), ps\<lparr>pages := (shift_up (allocated_pages_size ps) idx (pages ps))[idx := v],
                              allocated_pages_size := allocated_pages_size ps + 1\<rparr>, s)))"
  using assms by (simp add: pagingstruct_track_page_def track_inv_def tracked_def [symmetric]
      track_index_sorted Let_def)

lemma track_insert:
  assumes inv: "track_inv ps" and room: "allocated_pages_size ps < allocated_pages_capacity ps"
    and new: "v \<notin> set (tracked ps)"
    and idx: "idx = length (takeWhile (\<lambda>x. x < v) (tracked ps))"
    and ps': "ps' = ps\<lparr>pages := (shift_up (allocated_pages_size ps) idx (pages ps))[idx := v],
                       allocated_pages_size := allocated_pages_size ps + 1\<rparr>"
  shows "track_inv ps'" and "set (tracked ps') = insert v (set (tracked ps))"
proof -
  let ?n = "allocated_pages_size ps"
  have n: "?n < length (pages ps)" using inv room by (simp add: track_inv_def)
  have le: "idx \<le> ?n" unfolding idx tracked_def
    by (metis length_take length_takeWhile_le min.cobounded2 min.commute order_trans)
  have t: "tracked ps' = take idx (pages ps) @ v # drop idx (tracked ps)"
    using track_place [OF n le] by (simp add: tracked_def ps')
  have "take idx (pages ps) = take idx (tracked ps)" using le by (simp add: tracked_def min_def)
  then have t2: "tracked ps' = takeWhile (\<lambda>x. x < v) (tracked ps) @ v # dropWhile (\<lambda>x. x < v) (tracked ps)"
    unfolding t idx by (simp add: takeWhile_eq_take [symmetric] dropWhile_eq_drop [symmetric])
  show "set (tracked ps') = insert v (set (tracked ps))"
    unfolding t2 by (metis Un_insert_right list.set(2) set_append takeWhile_dropWhile_id)
  have "length (pages ps') = length (pages ps)" using n le
    by (simp add: ps' shift_up_spec)
  then show "track_inv ps'" using inv room new insert_at_split [of "tracked ps" v] t2
    by (simp add: track_inv_def ps')
qed

end
