(* ===== verification/Mm.thy ===== *)
theory Mm
  imports Paging
begin

unbundle bit_operations_syntax

text \<open>
  Virtual memory: \<^verbatim>\<open>arch/x86/mem/mm.c\<close> (three-level PAE paging), the portable layer
  \<^verbatim>\<open>kernel/mem/mm.c\<close> above it and the page fault handler \<^verbatim>\<open>kernel/mem/pagefault.c\<close>. The state
  \<open>mmstate\<close> joins the heap, the frame allocator, the typed store of tables, the kernel's own paging
  structure and the control register \<open>cr3\<close>. \<open>invlpg\<close> and the NXE bit of \<open>EFER\<close> have no counterpart:
  the model has no translation cache.
\<close>

section \<open>State\<close>

record mmstate =
  mkm :: kmstate
  mfa :: falloc_state
  pdpts :: "addr \<rightharpoonup> pdpt_t"
  pds :: "addr \<rightharpoonup> pd_t"
  pts :: "addr \<rightharpoonup> pt_t"
  map_off :: nat
  cr3 :: addr
  g_kps :: PagingStruct

definition PAGE_X :: u16 where "PAGE_X = push_bit 0 1"
definition PAGE_W :: u16 where "PAGE_W = push_bit 1 1"
definition PAGE_R :: u16 where "PAGE_R = push_bit 2 1"
definition PAGE_USER :: u16 where "PAGE_USER = push_bit 3 1"
definition PAGE_PRESENT :: u16 where "PAGE_PRESENT = push_bit 4 1"

definition has_flag :: "u16 \<Rightarrow> u16 \<Rightarrow> bool" where
  "has_flag flags f = (flags AND f \<noteq> 0)"

definition read_obj :: "(addr \<rightharpoonup> 'a list) \<Rightarrow> addr \<Rightarrow> nat \<Rightarrow> 'a outcome" where
  "read_obj st a i = (case st a of None \<Rightarrow> Panic | Some t \<Rightarrow> if i < length t then Ret (t ! i) else Panic)"

definition write_obj :: "(addr \<rightharpoonup> 'a list) \<Rightarrow> addr \<Rightarrow> nat \<Rightarrow> 'a \<Rightarrow> (addr \<rightharpoonup> 'a list)" where
  "write_obj st a i v = (case st a of None \<Rightarrow> st | Some t \<Rightarrow> st(a \<mapsto> t[i := v]))"

section \<open>Walking the tables\<close>

definition pd_from_vaddr_abs :: "addr \<Rightarrow> addr \<Rightarrow> mmstate \<Rightarrow> addr option outcome" where
  "pd_from_vaddr_abs va pdpt s =
     bind_outcome (read_obj (pdpts s) pdpt (va div GIB)) (\<lambda>pdpte.
       let pd_base = pdpte_pd_paddr pdpte in
       Ret (if pd_base \<noteq> 0 then Some (mm_kpa2va (map_off s) pd_base) else None))"

definition pde_from_vaddr_abs :: "addr \<Rightarrow> addr \<Rightarrow> mmstate \<Rightarrow> (addr \<times> nat) option outcome" where
  "pde_from_vaddr_abs va pdpt s =
     bind_outcome (pd_from_vaddr_abs va pdpt s) (\<lambda>pd.
       Ret (case pd of None \<Rightarrow> None | Some p \<Rightarrow> Some (p, pde_from_vaddr va)))"

definition pt_from_vaddr_abs :: "addr \<Rightarrow> addr \<Rightarrow> mmstate \<Rightarrow> addr option outcome" where
  "pt_from_vaddr_abs va pdpt s =
     bind_outcome (pde_from_vaddr_abs va pdpt s) (\<lambda>pdep.
       case pdep of
         None \<Rightarrow> Ret None
       | Some (pd, i) \<Rightarrow> bind_outcome (read_obj (pds s) pd i) (\<lambda>pde.
           let pt_base = pde_pt_paddr pde in
           Ret (if pt_base \<noteq> 0 then Some (mm_kpa2va (map_off s) pt_base) else None)))"

definition pte_from_vaddr_abs :: "addr \<Rightarrow> addr \<Rightarrow> mmstate \<Rightarrow> (addr \<times> nat) option outcome" where
  "pte_from_vaddr_abs va pdpt s =
     bind_outcome (pt_from_vaddr_abs va pdpt s) (\<lambda>pt.
       Ret (case pt of None \<Rightarrow> None | Some p \<Rightarrow> Some (p, pte_from_vaddr va)))"

text \<open>\<open>ps->data\<close> as the table it points to; a null pointer faults.\<close>

definition with_data :: "PagingStruct \<Rightarrow> (addr \<Rightarrow> 'r outcome) \<Rightarrow> 'r outcome" where
  "with_data ps k = (case psdata ps of None \<Rightarrow> Panic | Some pdpt \<Rightarrow> k pdpt)"

definition mm_va2pa_arch :: "addr \<Rightarrow> PagingStruct \<Rightarrow> mmstate \<Rightarrow> addr option outcome" where
  "mm_va2pa_arch va ps s =
     with_data ps (\<lambda>pdpt. bind_outcome (pte_from_vaddr_abs va pdpt s) (\<lambda>p.
       case p of
         None \<Rightarrow> Ret None
       | Some (pt, i) \<Rightarrow> bind_outcome (read_obj (pts s) pt i) (\<lambda>pte.
           Ret (Some (add32 (pte_frame_paddr pte) (va mod PAGESIZE))))))"

definition mm_va2pa :: "addr \<Rightarrow> PagingStruct \<Rightarrow> mmstate \<Rightarrow> addr option outcome" where
  "mm_va2pa va ps s = mm_va2pa_arch va ps s"

section \<open>Mapping and flags\<close>

definition mm_set_pte_and_pde_flags :: "pte_t \<Rightarrow> pde_t \<Rightarrow> u16 \<Rightarrow> pte_t \<times> pde_t" where
  "mm_set_pte_and_pde_flags pte pde flags =
     (let pde1 = (if \<not> pde_writable pde \<and> has_flag flags PAGE_W then pde\<lparr>pde_writable := True\<rparr> else pde);
          pte1 = pte\<lparr>pte_writable := has_flag flags PAGE_W\<rparr>;
          pde2 = (if pde_exec_disable pde1 \<and> has_flag flags PAGE_X
                  then pde1\<lparr>pde_exec_disable := False\<rparr> else pde1);
          pte2 = pte1\<lparr>pte_exec_disable := \<not> has_flag flags PAGE_X\<rparr>;
          pde3 = pde2\<lparr>pde_user_access := has_flag flags PAGE_USER\<rparr>;
          pte3 = pte2\<lparr>pte_user_access := has_flag flags PAGE_USER\<rparr>
      in (pte3, pde3))"

text \<open>The two blocks of \<open>mm_map_page_arch\<close> that find a table or allocate a zeroed one.\<close>

definition map_get_pd :: "addr \<Rightarrow> addr \<Rightarrow> mmstate \<Rightarrow> (addr option \<times> mmstate) outcome option" where
  "map_get_pd va pdpt s =
     bind_run (Some (read_obj (pdpts s) pdpt (pdpte_from_vaddr va))) (\<lambda>pdpte.
       case pdpte_pd_vaddr (map_off s) pdpte of
         Some pd \<Rightarrow> Some (Ret (Some pd, s))
       | None \<Rightarrow>
           bind_run (kmalloc_aligned 4096 PAGESIZE (mkm s)) (\<lambda>(a, k).
             case a of
               None \<Rightarrow> Some (Ret (None, s\<lparr>mkm := k\<rparr>))
             | Some pd \<Rightarrow>
                 Some (Ret (Some pd, s\<lparr>mkm := k, pds := (pds s)(pd \<mapsto> pd_init),
                   pdpts := write_obj (pdpts s) pdpt (pdpte_from_vaddr va)
                              (pdpte_set_pd_vaddr (map_off s) pd pdpte)\<rparr>))))"

definition map_get_pt :: "addr \<Rightarrow> addr \<Rightarrow> mmstate \<Rightarrow> (addr option \<times> mmstate) outcome option" where
  "map_get_pt va pd s =
     bind_run (Some (read_obj (pds s) pd (pde_from_vaddr va))) (\<lambda>pde.
       case pde_pt_vaddr (map_off s) pde of
         Some pt \<Rightarrow> Some (Ret (Some pt, s))
       | None \<Rightarrow>
           bind_run (kmalloc_aligned 4096 PAGESIZE (mkm s)) (\<lambda>(a, k).
             case a of
               None \<Rightarrow> Some (Ret (None, s\<lparr>mkm := k\<rparr>))
             | Some pt \<Rightarrow>
                 Some (Ret (Some pt, s\<lparr>mkm := k, pts := (pts s)(pt \<mapsto> pt_init),
                   pds := write_obj (pds s) pd (pde_from_vaddr va)
                            (pde_set_pt_vaddr (map_off s) pt pde)\<rparr>))))"

definition map_entry :: "addr \<Rightarrow> addr \<Rightarrow> u16 \<Rightarrow> addr \<Rightarrow> addr \<Rightarrow> addr \<Rightarrow> mmstate \<Rightarrow> mmstate outcome" where
  "map_entry va paddr flags pdpt pd pt s =
     bind_outcome (read_obj (pdpts s) pdpt (pdpte_from_vaddr va)) (\<lambda>pdpte.
     bind_outcome (read_obj (pds s) pd (pde_from_vaddr va)) (\<lambda>pde.
     bind_outcome (read_obj (pts s) pt (pte_from_vaddr va)) (\<lambda>pte.
       let pte1 = pte_set_frame_paddr paddr pte;
           (pte2, pde2) = mm_set_pte_and_pde_flags (pte1\<lparr>pte_present := True\<rparr>) (pde\<lparr>pde_present := True\<rparr>) flags
       in Ret (s\<lparr>pdpts := write_obj (pdpts s) pdpt (pdpte_from_vaddr va) (pdpte\<lparr>pdpte_present := True\<rparr>),
                 pds := write_obj (pds s) pd (pde_from_vaddr va) pde2,
                 pts := write_obj (pts s) pt (pte_from_vaddr va) pte2\<rparr>))))"

definition mm_map_page_arch ::
    "addr \<Rightarrow> addr \<Rightarrow> u16 \<Rightarrow> PagingStruct \<Rightarrow> mmstate \<Rightarrow> (unit result \<times> mmstate) outcome option" where
  "mm_map_page_arch va paddr flags ps s =
     (case psdata ps of
        None \<Rightarrow> Some Panic
      | Some pdpt \<Rightarrow>
          bind_run (map_get_pd va pdpt s) (\<lambda>(pdo, s1).
            case pdo of
              None \<Rightarrow> Some (Ret (Inl ENOMEM, s1))
            | Some pd \<Rightarrow>
                bind_run (map_get_pt va pd s1) (\<lambda>(pto, s2).
                  case pto of
                    None \<Rightarrow> Some (Ret (Inl ENOMEM, s2))
                  | Some pt \<Rightarrow>
                      bind_run (Some (map_entry va paddr flags pdpt pd pt s2)) (\<lambda>s3.
                        Some (Ret (Inr (), s3))))))"

definition mm_map_page ::
    "addr \<Rightarrow> addr \<Rightarrow> u16 \<Rightarrow> PagingStruct \<Rightarrow> mmstate \<Rightarrow> (unit result \<times> mmstate) outcome option" where
  "mm_map_page va paddr flags ps s =
     (if va mod PAGESIZE \<noteq> 0 \<or> paddr mod PAGESIZE \<noteq> 0 then Some Panic
      else mm_map_page_arch va paddr flags ps s)"

definition mm_set_page_flags_arch ::
    "addr \<Rightarrow> u16 \<Rightarrow> PagingStruct \<Rightarrow> mmstate \<Rightarrow> (unit result \<times> mmstate) outcome" where
  "mm_set_page_flags_arch va flags ps s =
     assert_outcome (va mod PAGESIZE = 0)
      (with_data ps (\<lambda>pdpt.
        bind_outcome (read_obj (pdpts s) pdpt (pdpte_from_vaddr va)) (\<lambda>pdpte.
        case pdpte_pd_vaddr (map_off s) pdpte of
          None \<Rightarrow> Ret (Inl EINVAL, s)
        | Some pd \<Rightarrow>
            bind_outcome (read_obj (pds s) pd (pde_from_vaddr va)) (\<lambda>pde.
            case pde_pt_vaddr (map_off s) pde of
              None \<Rightarrow> Ret (Inl EINVAL, s)
            | Some pt \<Rightarrow>
                bind_outcome (read_obj (pts s) pt (pte_from_vaddr va)) (\<lambda>pte.
                if pte_frame_paddr pte = 0 then Ret (Inl EINVAL, s)
                else let (pte1, pde1) = mm_set_pte_and_pde_flags pte pde flags in
                  Ret (Inr (), s\<lparr>pds := write_obj (pds s) pd (pde_from_vaddr va) pde1,
                                 pts := write_obj (pts s) pt (pte_from_vaddr va) pte1\<rparr>))))))"

definition mm_set_page_flags ::
    "addr \<Rightarrow> u16 \<Rightarrow> PagingStruct \<Rightarrow> mmstate \<Rightarrow> (unit result \<times> mmstate) outcome" where
  "mm_set_page_flags va flags ps s = mm_set_page_flags_arch va flags ps s"

definition mm_rm_page_flags_arch ::
    "addr \<Rightarrow> u16 \<Rightarrow> PagingStruct \<Rightarrow> mmstate \<Rightarrow> (unit result \<times> mmstate) outcome" where
  "mm_rm_page_flags_arch va flags ps s =
     assert_outcome (va mod PAGESIZE = 0)
      (with_data ps (\<lambda>pdpt.
        bind_outcome (pte_from_vaddr_abs va pdpt s) (\<lambda>p.
        case p of
          None \<Rightarrow> Ret (Inl ENOENT, s)
        | Some (pt, i) \<Rightarrow>
            bind_outcome (read_obj (pts s) pt i) (\<lambda>pte.
            Ret (Inr (), s\<lparr>pts := write_obj (pts s) pt i
                   (pte\<lparr>pte_exec_disable := has_flag flags PAGE_X,
                        pte_writable := \<not> has_flag flags PAGE_W,
                        pte_user_access := \<not> has_flag flags PAGE_USER,
                        pte_present := \<not> has_flag flags PAGE_PRESENT\<rparr>)\<rparr>)))))"

definition mm_rm_page_flags ::
    "addr \<Rightarrow> u16 \<Rightarrow> PagingStruct \<Rightarrow> mmstate \<Rightarrow> (unit result \<times> mmstate) outcome" where
  "mm_rm_page_flags va flags ps s = mm_rm_page_flags_arch va flags ps s"

definition mm_new_user_page ::
    "addr \<Rightarrow> u16 \<Rightarrow> PagingStruct \<Rightarrow> mmstate \<Rightarrow> (unit result \<times> PagingStruct \<times> mmstate) outcome option" where
  "mm_new_user_page va flags ps s =
     (if va mod PAGESIZE \<noteq> 0 then Some Panic
      else let (paddr, fa) = falloc_one_user (mfa s); s1 = s\<lparr>mfa := fa\<rparr> in
        if paddr = 0 then Some (Ret (Inl ENOMEM, ps, s1))
        else bind_run (mm_map_page_arch va paddr (flags OR PAGE_USER) ps s1) (\<lambda>(st, s2).
          case st of
            Inl e \<Rightarrow> bind_run (Some (ffree_one paddr (mfa s2))) (\<lambda>fa2.
                       Some (Ret (Inl e, ps, s2\<lparr>mfa := fa2\<rparr>)))
          | Inr _ \<Rightarrow> bind_run (pagingstruct_track_page va ps (mkm s2)) (\<lambda>(st2, ps1, k).
                       case st2 of
                         Inl e \<Rightarrow> Some Panic
                       | Inr _ \<Rightarrow> Some (Ret (Inr (), ps1, s2\<lparr>mkm := k\<rparr>)))))"

section \<open>Address spaces\<close>

definition mm_init_paging_struct_arch ::
    "PagingStruct \<Rightarrow> mmstate \<Rightarrow> (unit result \<times> PagingStruct \<times> mmstate) outcome option" where
  "mm_init_paging_struct_arch ps s =
     bind_run (kmalloc_aligned 32 PAGESIZE (mkm s)) (\<lambda>(a, k).
       let ps1 = ps\<lparr>psdata := a\<rparr> in
       case a of
         None \<Rightarrow> bind_run (pagingstruct_destroy ps1 k) (\<lambda>(ps2, k2).
                   Some (Ret (Inl ENOMEM, ps2, s\<lparr>mkm := k2\<rparr>)))
       | Some p \<Rightarrow> Some (Ret (Inr (), ps1, s\<lparr>mkm := k, pdpts := (pdpts s)(p \<mapsto> pdpt_init)\<rparr>)))"

definition mm_init_paging_struct :: "mmstate \<Rightarrow> (unit result \<times> PagingStruct \<times> mmstate) outcome option" where
  "mm_init_paging_struct s =
     bind_run (pagingstruct_init (mkm s)) (\<lambda>(st, ps, k).
       case st of
         Inl e \<Rightarrow> Some (Ret (Inl e, ps, s\<lparr>mkm := k\<rparr>))
       | Inr _ \<Rightarrow> bind_run (mm_init_paging_struct_arch ps (s\<lparr>mkm := k\<rparr>)) (\<lambda>(st2, ps2, s2).
           case st2 of
             Inl e \<Rightarrow> bind_run (pagingstruct_destroy ps2 (mkm s2)) (\<lambda>(ps3, k3).
                        Some (Ret (Inl e, ps3, s2\<lparr>mkm := k3\<rparr>)))
           | Inr _ \<Rightarrow> Some (Ret (Inr (), ps2, s2))))"

text \<open>The three loops of \<open>mm_destroy_paging_struct_arch\<close>. A table passed to \<open>kfree\<close> leaves the store.\<close>

fun destroy_frames :: "addr list \<Rightarrow> PagingStruct \<Rightarrow> mmstate \<Rightarrow> mmstate outcome" where
  "destroy_frames [] ps s = Ret s"
| "destroy_frames (va # rest) ps s =
     with_data ps (\<lambda>pdpt.
       bind_outcome (pte_from_vaddr_abs va pdpt s) (\<lambda>p.
         case p of
           None \<Rightarrow> Panic
         | Some (pt, i) \<Rightarrow> bind_outcome (read_obj (pts s) pt i) (\<lambda>pte.
             let pte1 = (pte_set_frame_paddr 0 pte)\<lparr>pte_present := False\<rparr> in
             bind_outcome (ffree_one (pte_frame_paddr pte1) (mfa s)) (\<lambda>fa.
               destroy_frames rest ps (s\<lparr>pts := write_obj (pts s) pt i pte1, mfa := fa\<rparr>)))))"

fun destroy_pts :: "addr list \<Rightarrow> addr option \<Rightarrow> PagingStruct \<Rightarrow> mmstate \<Rightarrow> mmstate outcome option" where
  "destroy_pts [] pt ps s = Some (Ret s)"
| "destroy_pts (va # rest) pt ps s =
     bind_run (Some (with_data ps (\<lambda>pdpt. pt_from_vaddr_abs va pdpt s))) (\<lambda>pttmp.
       if pt = pttmp then destroy_pts rest pt ps s
       else bind_run (kfree pttmp (mkm s)) (\<lambda>k.
         destroy_pts rest pttmp ps (s\<lparr>mkm := k, pts := (pts s)(the pttmp := None)\<rparr>)))"

fun destroy_pds :: "addr list \<Rightarrow> addr option \<Rightarrow> PagingStruct \<Rightarrow> mmstate \<Rightarrow> mmstate outcome option" where
  "destroy_pds [] pd ps s = Some (Ret s)"
| "destroy_pds (va # rest) pd ps s =
     bind_run (Some (with_data ps (\<lambda>pdpt. pd_from_vaddr_abs va pdpt s))) (\<lambda>pdtmp.
       if pd = pdtmp then destroy_pds rest pd ps s
       else bind_run (kfree pdtmp (mkm s)) (\<lambda>k.
         destroy_pds rest pdtmp ps (s\<lparr>mkm := k, pds := (pds s)(the pdtmp := None)\<rparr>)))"

definition mm_destroy_paging_struct_arch ::
    "PagingStruct \<Rightarrow> mmstate \<Rightarrow> (PagingStruct \<times> mmstate) outcome option" where
  "mm_destroy_paging_struct_arch ps s =
     (let vs = take (allocated_pages_size ps) (pages ps) in
      bind_run (Some (destroy_frames vs ps s)) (\<lambda>s1.
      bind_run (destroy_pts vs None ps s1) (\<lambda>s2.
      bind_run (destroy_pds vs None ps s2) (\<lambda>s3.
        case psdata ps of
          None \<Rightarrow> Some (Ret (ps, s3))
        | Some p \<Rightarrow> bind_run (kfree (Some p) (mkm s3)) (\<lambda>k.
            Some (Ret (ps\<lparr>psdata := None\<rparr>, s3\<lparr>mkm := k, pdpts := (pdpts s3)(p := None)\<rparr>)))))))"

definition mm_destroy_paging_struct ::
    "PagingStruct \<Rightarrow> mmstate \<Rightarrow> (PagingStruct \<times> mmstate) outcome option" where
  "mm_destroy_paging_struct ps s =
     bind_run (mm_destroy_paging_struct_arch ps s) (\<lambda>(ps1, s1).
       bind_run (pagingstruct_destroy ps1 (mkm s1)) (\<lambda>(ps2, k). Some (Ret (ps2, s1\<lparr>mkm := k\<rparr>))))"

text \<open>\<open>kimg_vaddr()\<close> is a linker symbol, the argument \<open>kv\<close>.\<close>

definition mm_map_kernel_into_paging_struct_arch :: "addr \<Rightarrow> PagingStruct \<Rightarrow> mmstate \<Rightarrow> mmstate outcome" where
  "mm_map_kernel_into_paging_struct_arch kv ps s =
     with_data ps (\<lambda>pdpt. with_data (g_kps s) (\<lambda>kpdpt.
       bind_outcome (read_obj (pdpts s) kpdpt (pdpte_from_vaddr kv)) (\<lambda>kpdpte.
       bind_outcome (read_obj (pdpts s) pdpt (pdpte_from_vaddr kv)) (\<lambda>_.
         Ret (s\<lparr>pdpts := write_obj (pdpts s) pdpt (pdpte_from_vaddr kv) kpdpte\<rparr>)))))"

definition mm_map_kernel_into_paging_struct :: "addr \<Rightarrow> PagingStruct \<Rightarrow> mmstate \<Rightarrow> mmstate outcome" where
  "mm_map_kernel_into_paging_struct kv ps s = mm_map_kernel_into_paging_struct_arch kv ps s"

definition mm_load_paging_struct_arch :: "PagingStruct \<Rightarrow> mmstate \<Rightarrow> mmstate" where
  "mm_load_paging_struct_arch ps s =
     (let new_cr3 = mm_kva2pa (map_off s) (case psdata ps of None \<Rightarrow> 0 | Some p \<Rightarrow> p) in
      if new_cr3 = cr3 s then s else s\<lparr>cr3 := new_cr3\<rparr>)"

definition mm_load_paging_struct :: "PagingStruct \<Rightarrow> mmstate \<Rightarrow> mmstate" where
  "mm_load_paging_struct ps s = mm_load_paging_struct_arch ps s"

definition mm_load_kernel_paging_struct :: "mmstate \<Rightarrow> mmstate" where
  "mm_load_kernel_paging_struct s = mm_load_paging_struct_arch (g_kps s) s"

section \<open>Page faults\<close>

datatype PageFaultReason = PAGEFAULT_REASON_PROT_FAULT | PAGEFAULT_REASON_ABSENT
datatype PageFaultAction = PAGEFAULT_ACTION_READ | PAGEFAULT_ACTION_WRITE | PAGEFAULT_ACTION_EXEC

text \<open>Both branches of \<open>pagefault_handle_prot_fault\<close> panic, with different messages.\<close>

definition pagefault_handle_prot_fault :: "addr \<Rightarrow> nat \<Rightarrow> mmstate \<Rightarrow> mmstate outcome option" where
  "pagefault_handle_prot_fault faultaddr ring s = Some Panic"

definition pagefault_handle_absent_kernel_heap :: "addr \<Rightarrow> mmstate \<Rightarrow> mmstate outcome option" where
  "pagefault_handle_absent_kernel_heap faultaddr s =
     (let aligned_faultaddr = bytes_align_down64 faultaddr PAGESIZE;
          frame = sub32 aligned_faultaddr (map_off s)
      in bind_run (Some (falloc_one_at frame (mfa s))) (\<lambda>(st, fa).
           case st of
             Inl e \<Rightarrow> Some Panic
           | Inr _ \<Rightarrow>
               bind_run (mm_map_page aligned_faultaddr frame (PAGE_R OR PAGE_W) (g_kps s) (s\<lparr>mfa := fa\<rparr>)) (\<lambda>(st2, s2).
                 case st2 of
                   Inl e \<Rightarrow> Some Panic
                 | Inr _ \<Rightarrow>
                     Some (Ret (s2\<lparr>mkm := (mkm s2)\<lparr>mem := memset (mem (mkm s2)) aligned_faultaddr 0 PAGESIZE\<rparr>\<rparr>)))))"

text \<open>A kernel access outside the heap and any fault of ring 3 panic, whatever the address.\<close>

definition pagefault_handle_absent_kernel_bogus :: "addr \<Rightarrow> mmstate \<Rightarrow> mmstate outcome option" where
  "pagefault_handle_absent_kernel_bogus faultaddr s = (if faultaddr < PAGESIZE then Some Panic else Some Panic)"

definition handle_absent_user :: "addr \<Rightarrow> mmstate \<Rightarrow> mmstate outcome option" where
  "handle_absent_user faultaddr s = Some Panic"

definition pagefault_handle_absent :: "addr \<Rightarrow> nat \<Rightarrow> mmstate \<Rightarrow> mmstate outcome option" where
  "pagefault_handle_absent faultaddr ring s =
     (if ring = 0 then
        (if kmalloc_owns_va faultaddr (mkm s) then pagefault_handle_absent_kernel_heap faultaddr s
         else pagefault_handle_absent_kernel_bogus faultaddr s)
      else handle_absent_user faultaddr s)"

text \<open>
  \<open>us\<close> and \<open>ue\<close> are the bounds of the \<open>.useraccess\<close> section, \<open>stub\<close> the address of
  \<open>user_access_fault_stub\<close>; the result is the instruction pointer to resume at.
\<close>

definition pagefault_handle ::
    "addr \<Rightarrow> addr \<Rightarrow> addr \<Rightarrow> addr \<Rightarrow> addr \<Rightarrow> nat \<Rightarrow> PageFaultReason \<Rightarrow> mmstate \<Rightarrow> (addr \<times> mmstate) outcome option" where
  "pagefault_handle us ue stub faultaddr ip ring reason s =
     (let user_access = (ip \<ge> us \<and> ip < ue) in
      case reason of
        PAGEFAULT_REASON_PROT_FAULT \<Rightarrow>
          if user_access then Some (Ret (stub, s))
          else bind_run (pagefault_handle_prot_fault faultaddr ring s) (\<lambda>s1. Some (Ret (ip, s1)))
      | PAGEFAULT_REASON_ABSENT \<Rightarrow>
          if user_access \<and> \<not> kmalloc_owns_va faultaddr (mkm s) then Some (Ret (stub, s))
          else bind_run (pagefault_handle_absent faultaddr ring s) (\<lambda>s1. Some (Ret (ip, s1))))"

definition pagefault_reason :: "u32 \<Rightarrow> PageFaultReason" where
  "pagefault_reason code =
     (if code AND 1 \<noteq> 0 then PAGEFAULT_REASON_PROT_FAULT else PAGEFAULT_REASON_ABSENT)"

definition pagefault_isr ::
    "addr \<Rightarrow> addr \<Rightarrow> addr \<Rightarrow> addr \<Rightarrow> addr \<Rightarrow> u32 \<Rightarrow> u32 \<Rightarrow> mmstate \<Rightarrow> (addr \<times> mmstate) outcome option" where
  "pagefault_isr us ue stub cr2 xip xcs code s =
     pagefault_handle us ue stub cr2 xip (unat (xcs AND 3)) (pagefault_reason code) s"

end
