(* ===== verification/MmWalk.thy ===== *)
theory MmWalk
  imports Mm
begin

unbundle bit_operations_syntax

text \<open>
  What the page tables mean: the entries a virtual address selects (\<open>walk\<close>), the translation the
  processor derives from them (\<open>translate\<close>), the invariant of the tables of an address space, and the
  effect of \<open>mm_map_page_arch\<close> on all of these.
\<close>

section \<open>Indices\<close>

lemma index_eqs:
  "pdpte_from_vaddr va = va div 1073741824"
  "pde_from_vaddr va = va div 2097152 mod 512"
  "pte_from_vaddr va = va div 4096 mod 512"
proof -
  show "pdpte_from_vaddr va = va div 1073741824" by (simp add: pdpte_from_vaddr_def GIB_def)
  have "va div 1073741824 = va div 2097152 div 512" by (simp add: div_mult2_eq [symmetric])
  then show "pde_from_vaddr va = va div 2097152 mod 512"
    by (simp add: pde_from_vaddr_def minus_div_mult_eq_mod)
  have "va div 2097152 = va div 4096 div 512" by (simp add: div_mult2_eq [symmetric])
  then show "pte_from_vaddr va = va div 4096 mod 512"
    by (simp add: pte_from_vaddr_def minus_div_mult_eq_mod)
qed

lemma index_bounds:
  "va < W32 \<Longrightarrow> pdpte_from_vaddr va < 4" "pde_from_vaddr va < 512" "pte_from_vaddr va < 512"
  by (simp_all add: index_eqs div_less_iff_less_mult)

lemma same_page_iff:
  "va div 4096 = vb div 4096 \<longleftrightarrow> pdpte_from_vaddr va = pdpte_from_vaddr vb \<and>
     pde_from_vaddr va = pde_from_vaddr vb \<and> pte_from_vaddr va = pte_from_vaddr vb"
proof -
  have d: "x div 1073741824 = x div 4096 div 512 div 512" "x div 2097152 = x div 4096 div 512" for x :: nat
    by (simp_all add: div_mult2_eq [symmetric])
  show ?thesis unfolding index_eqs d by (metis div_mod_decomp)
qed

lemma same_region_iff:
  "va div 2097152 = vb div 2097152 \<longleftrightarrow> pdpte_from_vaddr va = pdpte_from_vaddr vb \<and>
     pde_from_vaddr va = pde_from_vaddr vb"
proof -
  have d: "x div 1073741824 = x div 2097152 div 512" for x :: nat by (simp add: div_mult2_eq [symmetric])
  show ?thesis unfolding index_eqs d by (metis div_mod_decomp)
qed

section \<open>Entries\<close>

definition pdpte_at :: "mmstate \<Rightarrow> addr \<Rightarrow> nat \<Rightarrow> pdpte_t" where
  "pdpte_at s pdpt i = the (pdpts s pdpt) ! i"

definition pd_at :: "mmstate \<Rightarrow> addr \<Rightarrow> nat \<Rightarrow> addr option" where
  "pd_at s pdpt i = pdpte_pd_vaddr (map_off s) (pdpte_at s pdpt i)"

definition pde_at :: "mmstate \<Rightarrow> addr \<Rightarrow> nat \<Rightarrow> nat \<Rightarrow> pde_t" where
  "pde_at s pdpt i j = the (pds s (the (pd_at s pdpt i))) ! j"

definition pt_at :: "mmstate \<Rightarrow> addr \<Rightarrow> nat \<Rightarrow> nat \<Rightarrow> addr option" where
  "pt_at s pdpt i j = (case pd_at s pdpt i of None \<Rightarrow> None
     | Some pd \<Rightarrow> pde_pt_vaddr (map_off s) (pde_at s pdpt i j))"

definition pte_at :: "mmstate \<Rightarrow> addr \<Rightarrow> nat \<Rightarrow> nat \<Rightarrow> nat \<Rightarrow> pte_t" where
  "pte_at s pdpt i j k = the (pts s (the (pt_at s pdpt i j))) ! k"

definition walk :: "mmstate \<Rightarrow> addr \<Rightarrow> addr \<Rightarrow> (pdpte_t \<times> pde_t \<times> pte_t) option" where
  "walk s pdpt va =
     (let i = pdpte_from_vaddr va; j = pde_from_vaddr va; k = pte_from_vaddr va in
      case pt_at s pdpt i j of None \<Rightarrow> None
      | Some pt \<Rightarrow> Some (pdpte_at s pdpt i, pde_at s pdpt i j, pte_at s pdpt i j k))"

text \<open>
  The address an access reaches, and whether it may write, execute and come from ring 3: every level
  has to be present, and a right is granted only where both levels that carry it grant it.
\<close>

definition translate :: "mmstate \<Rightarrow> addr \<Rightarrow> addr \<Rightarrow> (addr \<times> bool \<times> bool \<times> bool) option" where
  "translate s pdpt va =
     (case walk s pdpt va of None \<Rightarrow> None
      | Some (e, d, p) \<Rightarrow>
          if pdpte_present e \<and> pde_present d \<and> pte_present p
          then Some (add32 (pte_frame_paddr p) (va mod PAGESIZE),
                     pde_writable d \<and> pte_writable p,
                     \<not> pde_exec_disable d \<and> \<not> pte_exec_disable p,
                     pde_user_access d \<and> pte_user_access p)
          else None)"

lemma translate_at:
  assumes "pt_at s pdpt (pdpte_from_vaddr va) (pde_from_vaddr va) \<noteq> None"
    and "e = pdpte_at s pdpt (pdpte_from_vaddr va)" and "d = pde_at s pdpt (pdpte_from_vaddr va) (pde_from_vaddr va)"
    and "p = pte_at s pdpt (pdpte_from_vaddr va) (pde_from_vaddr va) (pte_from_vaddr va)"
  shows "translate s pdpt va =
    (if pdpte_present e \<and> pde_present d \<and> pte_present p
     then Some (add32 (pte_frame_paddr p) (va mod PAGESIZE), pde_writable d \<and> pte_writable p,
                \<not> pde_exec_disable d \<and> \<not> pte_exec_disable p, pde_user_access d \<and> pte_user_access p)
     else None)"
  using assms by (auto simp: translate_def walk_def Let_def)

section \<open>The invariant\<close>

text \<open>
  The tables reached from \<open>pdpt\<close> exist with their sizes, no two entries share a table, and a page that
  is present is reachable with the rights its own entry states.
\<close>

definition tables_ok :: "mmstate \<Rightarrow> addr \<Rightarrow> bool" where
  "tables_ok s pdpt \<longleftrightarrow>
     (\<exists>es. pdpts s pdpt = Some es \<and> length es = 4) \<and>
     (\<forall>i pd. i < 4 \<and> pd_at s pdpt i = Some pd \<longrightarrow> (\<exists>ds. pds s pd = Some ds \<and> length ds = 512)) \<and>
     (\<forall>i j pt. i < 4 \<and> j < 512 \<and> pt_at s pdpt i j = Some pt \<longrightarrow> (\<exists>ts. pts s pt = Some ts \<and> length ts = 512)) \<and>
     (\<forall>i i' pd. i < 4 \<and> i' < 4 \<and> pd_at s pdpt i = Some pd \<and> pd_at s pdpt i' = Some pd \<longrightarrow> i = i') \<and>
     (\<forall>i j i' j' pt. i < 4 \<and> i' < 4 \<and> j < 512 \<and> j' < 512 \<and> pt_at s pdpt i j = Some pt \<and>
        pt_at s pdpt i' j' = Some pt \<longrightarrow> i = i' \<and> j = j')"

definition entries_ok :: "mmstate \<Rightarrow> addr \<Rightarrow> bool" where
  "entries_ok s pdpt \<longleftrightarrow>
     (\<forall>i j k. i < 4 \<and> j < 512 \<and> k < 512 \<and> pt_at s pdpt i j \<noteq> None \<and> pte_present (pte_at s pdpt i j k) \<longrightarrow>
        pdpte_present (pdpte_at s pdpt i) \<and> pde_present (pde_at s pdpt i j) \<and>
        (pte_writable (pte_at s pdpt i j k) \<longrightarrow> pde_writable (pde_at s pdpt i j)) \<and>
        (\<not> pte_exec_disable (pte_at s pdpt i j k) \<longrightarrow> \<not> pde_exec_disable (pde_at s pdpt i j)))"

text \<open>
  The heap is well-formed, lies above the map offset, and the tables that are inside it are
  allocations of it.
\<close>

definition mm_ok :: "nat \<Rightarrow> Heap \<Rightarrow> live_map \<Rightarrow> mmstate \<Rightarrow> bool" where
  "mm_ok ma heap live s \<longleftrightarrow>
     km_ok (gallocator_driver ma) heap_inv (mkm s) heap live \<and>
     4096 dvd map_off s \<and> map_off s < vaddr heap \<and>
     (\<forall>a. a \<in> dom (pdpts s) \<union> dom (pds s) \<union> dom (pts s) \<longrightarrow>
        live a \<noteq> None \<or> a < vaddr heap \<or> heap_end heap \<le> a)"

text \<open>The heap and the frame allocator are not part of the tables.\<close>

lemma pdpte_at_frame [simp]: "pdpte_at (s\<lparr>mkm := k\<rparr>) = pdpte_at s" "pdpte_at (s\<lparr>mfa := f\<rparr>) = pdpte_at s"
  by (simp_all add: pdpte_at_def fun_eq_iff)

lemma pd_at_frame [simp]: "pd_at (s\<lparr>mkm := k\<rparr>) = pd_at s" "pd_at (s\<lparr>mfa := f\<rparr>) = pd_at s"
  by (simp_all add: pd_at_def fun_eq_iff)

lemma pde_at_frame [simp]: "pde_at (s\<lparr>mkm := k\<rparr>) = pde_at s" "pde_at (s\<lparr>mfa := f\<rparr>) = pde_at s"
  by (simp_all add: pde_at_def fun_eq_iff)

lemma pt_at_frame [simp]: "pt_at (s\<lparr>mkm := k\<rparr>) = pt_at s" "pt_at (s\<lparr>mfa := f\<rparr>) = pt_at s"
  by (simp_all add: pt_at_def fun_eq_iff split: option.splits)

lemma pte_at_frame [simp]: "pte_at (s\<lparr>mkm := k\<rparr>) = pte_at s" "pte_at (s\<lparr>mfa := f\<rparr>) = pte_at s"
  by (simp_all add: pte_at_def fun_eq_iff)

lemma tables_frame [simp]:
  "tables_ok (s\<lparr>mkm := k\<rparr>) = tables_ok s" "tables_ok (s\<lparr>mfa := f\<rparr>) = tables_ok s"
  "entries_ok (s\<lparr>mkm := k\<rparr>) = entries_ok s" "entries_ok (s\<lparr>mfa := f\<rparr>) = entries_ok s"
  "walk (s\<lparr>mkm := k\<rparr>) = walk s" "walk (s\<lparr>mfa := f\<rparr>) = walk s"
  "translate (s\<lparr>mkm := k\<rparr>) = translate s" "translate (s\<lparr>mfa := f\<rparr>) = translate s"
  "mm_ok ma heap live (s\<lparr>mfa := f\<rparr>) = mm_ok ma heap live s"
proof -
  show w: "walk (s\<lparr>mkm := k\<rparr>) = walk s" "walk (s\<lparr>mfa := f\<rparr>) = walk s"
    by (simp_all add: fun_eq_iff walk_def Let_def split: option.splits)
  show "translate (s\<lparr>mkm := k\<rparr>) = translate s" "translate (s\<lparr>mfa := f\<rparr>) = translate s"
    by (simp_all add: fun_eq_iff translate_def w)
qed (simp_all add: tables_ok_def entries_ok_def mm_ok_def fun_eq_iff)

section \<open>Addresses stored in entries\<close>

lemma base_roundtrip:
  assumes "a < W32"
  shows "unat (word_of_nat (a div 4096) :: 50 word) * 4096 mod W32 = a div 4096 * 4096"
    and "unat (word_of_nat (a div 4096) :: 51 word) * 4096 mod W32 = a div 4096 * 4096"
proof -
  have "a div 4096 < 1048576" using assms by (simp add: div_less_iff_less_mult)
  then show "unat (word_of_nat (a div 4096) :: 50 word) * 4096 mod W32 = a div 4096 * 4096"
    and "unat (word_of_nat (a div 4096) :: 51 word) * 4096 mod W32 = a div 4096 * 4096"
    by (simp_all add: unat_of_nat take_bit_nat_eq_self)
qed

lemma frame_roundtrip: "a < W32 \<Longrightarrow> 4096 dvd a \<Longrightarrow> pte_frame_paddr (pte_set_frame_paddr a p) = a"
  by (simp add: pte_frame_paddr_def pte_set_frame_paddr_def base_roundtrip)

lemma kva_roundtrip:
  assumes "4096 dvd off" "4096 dvd a" "off < a" "a < W32"
  shows "pde_pt_vaddr off (pde_set_pt_vaddr off a d) = Some a"
    and "pdpte_pd_vaddr off (pdpte_set_pd_vaddr off a e) = Some a"
proof -
  have s: "sub32 a off = a - off" using assms by (simp add: sub32_exact)
  have "4096 dvd a - off" using assms by simp
  then have d: "(a - off) div 4096 * 4096 = a - off" by simp
  have lt: "a - off < W32" using assms by simp
  have ad: "add32 (a - off) off = a" using assms by (simp add: add32_exact)
  show "pde_pt_vaddr off (pde_set_pt_vaddr off a d) = Some a"
    and "pdpte_pd_vaddr off (pdpte_set_pd_vaddr off a e) = Some a"
    using assms by (simp_all add: pde_pt_vaddr_def pde_set_pt_vaddr_def pde_set_pt_paddr_def pde_pt_paddr_def
        pdpte_pd_vaddr_def pdpte_set_pd_vaddr_def pdpte_set_pd_paddr_def pdpte_pd_paddr_def
        mm_kva2pa_def mm_kpa2va_def s base_roundtrip [OF lt] d ad)
qed

lemma zero_entries [simp]:
  "pde_pt_vaddr off zero_pde = None" "pte_present zero_pte = False"
  by (simp_all add: pde_pt_vaddr_def pde_pt_paddr_def zero_pde_def zero_pte_def)

lemma table_inits [simp]:
  "j < 512 \<Longrightarrow> pd_init ! j = zero_pde" "k < 512 \<Longrightarrow> pt_init ! k = zero_pte"
  "length pd_init = 512" "length pt_init = 512"
  by (simp_all add: pd_init_def pt_init_def)

text \<open>Changing flags of an entry does not change the table it refers to.\<close>

lemma entry_updates [simp]:
  "pde_pt_vaddr off (d\<lparr>pde_present := b\<rparr>) = pde_pt_vaddr off d"
  "pdpte_pd_vaddr off (e\<lparr>pdpte_present := b\<rparr>) = pdpte_pd_vaddr off e"
  "pde_pt_vaddr off (snd (mm_set_pte_and_pde_flags p d fl)) = pde_pt_vaddr off d"
  by (simp_all add: pde_pt_vaddr_def pde_pt_paddr_def pdpte_pd_vaddr_def pdpte_pd_paddr_def
      mm_set_pte_and_pde_flags_def Let_def)

section \<open>Memory for a new table\<close>

lemma new_table:
  assumes ok: "mm_ok ma heap live s"
  shows "\<exists>r k. kmalloc_aligned 4096 PAGESIZE (mkm s) = Some (Ret (r, k)) \<and>
    (case r of None \<Rightarrow> km_ok (gallocator_driver ma) heap_inv k heap live
     | Some a \<Rightarrow> live a = None \<and> km_ok (gallocator_driver ma) heap_inv k heap (live(a \<mapsto> (4096, 4096))) \<and>
         4096 dvd a \<and> map_off s < a \<and> a < W32 \<and> pds s a = None \<and> pts s a = None \<and> pdpts s a = None)"
proof -
  have km: "km_ok (gallocator_driver ma) heap_inv (mkm s) heap live" using ok by (simp add: mm_ok_def)
  have p: "\<exists>k. (4096 :: nat) = 2 ^ k" by (rule exI [of _ 12]) simp
  obtain r k where r: "kmalloc_aligned 4096 4096 (mkm s) = Some (Ret (r, k))"
    and c: "case r of None \<Rightarrow> mem k = mem (mkm s) \<and> km_ok (gallocator_driver ma) heap_inv k heap live
     | Some a \<Rightarrow> live a = None \<and> 4096 dvd a \<and> km_ok (gallocator_driver ma) heap_inv k heap (live(a \<mapsto> (4096, 4096))) \<and>
         keeps live (mem (mkm s)) (mem k)"
    using gd.kmalloc_aligned_ok [OF km _ _ _ p, of 4096] by auto
  show ?thesis
  proof (cases r)
    case None
    then show ?thesis using r c by auto
  next
    case (Some a)
    then have a: "live a = None" "4096 dvd a" and k: "km_ok (gallocator_driver ma) heap_inv k heap (live(a \<mapsto> (4096, 4096)))"
      using c by auto
    have inv: "heap_inv (mem k) heap (live(a \<mapsto> (4096, 4096)))" and e: "heap_end heap < W32"
      using k by (auto simp: km_ok_def active_heap_is_def)
    have b: "vaddr heap \<le> a" "a + 4096 \<le> heap_end heap" using gd.block [OF inv, of a 4096 4096] by auto
    have "a \<notin> dom (pdpts s) \<union> dom (pds s) \<union> dom (pts s)"
    proof
      assume "a \<in> dom (pdpts s) \<union> dom (pds s) \<union> dom (pts s)"
      then have "live a \<noteq> None \<or> a < vaddr heap \<or> heap_end heap \<le> a" using ok unfolding mm_ok_def by blast
      then show False using a b by auto
    qed
    then have "pds s a = None" "pts s a = None" "pdpts s a = None" by auto
    moreover have "map_off s < a" "a < W32" using ok b e by (auto simp: mm_ok_def)
    ultimately show ?thesis using r a k Some by auto
  qed
qed

section \<open>Effects on the tables\<close>

lemma read_obj_Some: "st a = Some t \<Longrightarrow> i < length t \<Longrightarrow> read_obj st a i = Ret (t ! i)"
  by (simp add: read_obj_def)

lemma write_obj_Some: "st a = Some t \<Longrightarrow> write_obj st a i v = st(a \<mapsto> t[i := v])"
  by (simp add: write_obj_def)

lemma dom_write_obj [simp]: "dom (write_obj st a i v) = dom st"
  by (auto simp: write_obj_def split: option.splits if_splits)

lemma tables_okD:
  assumes "tables_ok s pdpt"
  shows "\<exists>es. pdpts s pdpt = Some es \<and> length es = 4"
    and "i < 4 \<Longrightarrow> pd_at s pdpt i = Some pd \<Longrightarrow> \<exists>ds. pds s pd = Some ds \<and> length ds = 512"
    and "i < 4 \<Longrightarrow> j < 512 \<Longrightarrow> pt_at s pdpt i j = Some pt \<Longrightarrow> \<exists>ts. pts s pt = Some ts \<and> length ts = 512"
    and "i < 4 \<Longrightarrow> i' < 4 \<Longrightarrow> pd_at s pdpt i = Some pd \<Longrightarrow> pd_at s pdpt i' = Some pd \<Longrightarrow> i = i'"
    and "i < 4 \<Longrightarrow> i' < 4 \<Longrightarrow> j < 512 \<Longrightarrow> j' < 512 \<Longrightarrow> pt_at s pdpt i j = Some pt \<Longrightarrow>
      pt_at s pdpt i' j' = Some pt \<Longrightarrow> i = i' \<and> j = j'"
  using assms unfolding tables_ok_def by blast+

text \<open>
  Two states have the same view of an address space when they agree on every table pointer and every
  entry behind one.
\<close>

definition same_view :: "mmstate \<Rightarrow> mmstate \<Rightarrow> addr \<Rightarrow> bool" where
  "same_view s s' pdpt \<longleftrightarrow> (\<forall>i j. i < 4 \<and> j < 512 \<longrightarrow>
     pt_at s' pdpt i j = pt_at s pdpt i j \<and>
     (pt_at s pdpt i j \<noteq> None \<longrightarrow> pdpte_at s' pdpt i = pdpte_at s pdpt i \<and> pde_at s' pdpt i j = pde_at s pdpt i j \<and>
        (\<forall>k < 512. pte_at s' pdpt i j k = pte_at s pdpt i j k)))"

lemma same_view_walk:
  assumes "same_view s s' pdpt" and "va < W32"
  shows "walk s' pdpt va = walk s pdpt va"
  using assms index_bounds [of va] by (auto simp: same_view_def walk_def Let_def split: option.splits)

lemma same_view_entries: "same_view s s' pdpt \<Longrightarrow> entries_ok s pdpt \<Longrightarrow> entries_ok s' pdpt"
  unfolding same_view_def entries_ok_def by metis

lemma map_get_pd_new:
  assumes t: "tables_ok s pdpt" and i: "I < 4" and none: "pd_at s pdpt I = None"
    and pd: "4096 dvd map_off s" "4096 dvd pd" "map_off s < pd" "pd < W32" "pds s pd = None"
    and s': "s' = s\<lparr>mkm := k, pds := (pds s)(pd \<mapsto> pd_init),
               pdpts := write_obj (pdpts s) pdpt I (pdpte_set_pd_vaddr (map_off s) pd (pdpte_at s pdpt I))\<rparr>"
  shows "tables_ok s' pdpt" and "same_view s s' pdpt" and "pd_at s' pdpt I = Some pd"
proof -
  obtain es where es: "pdpts s pdpt = Some es" "length es = 4" using tables_okD(1) [OF t] by blast
  have e_at: "pdpte_at s' pdpt i = (if i = I then pdpte_set_pd_vaddr (map_off s) pd (pdpte_at s pdpt I) else pdpte_at s pdpt i)"
    if "i < 4" for i
    using es i that by (simp add: pdpte_at_def s' write_obj_Some nth_list_update)
  have d_at: "pd_at s' pdpt i = (if i = I then Some pd else pd_at s pdpt i)" if "i < 4" for i
    using that kva_roundtrip(2) [OF pd(1-4)] by (simp add: pd_at_def e_at) (simp add: s')
  have d_new: "pde_at s' pdpt I j = zero_pde" if "j < 512" for j
    using that i by (simp add: pde_at_def d_at) (simp add: s')
  have d_old: "pde_at s' pdpt i j = pde_at s pdpt i j" if "i < 4" "i \<noteq> I" "pd_at s pdpt i = Some p" for i j p
  proof -
    have "p \<noteq> pd" using tables_okD(2) [OF t that(1,3)] pd(5) by auto
    then show ?thesis using that by (simp add: pde_at_def d_at) (simp add: s')
  qed
  have t_at: "pt_at s' pdpt i j = pt_at s pdpt i j" if "i < 4" "j < 512" for i j
  proof (cases "i = I")
    case True
    then show ?thesis using that i none by (simp add: pt_at_def d_at d_new)
  next
    case False
    have off: "map_off s' = map_off s" by (simp add: s')
    show ?thesis using that False d_old [OF that(1) False] by (auto simp: pt_at_def d_at off split: option.splits)
  qed
  have p_at: "pte_at s' pdpt i j k = pte_at s pdpt i j k" if "i < 4" "j < 512" for i j k
    using that by (simp add: pte_at_def t_at) (simp add: s')
  have neI: "i \<noteq> I" if "pt_at s pdpt i j \<noteq> None" for i j using that none by (auto simp: pt_at_def)
  have dpd: "\<exists>p. pd_at s pdpt i = Some p" if "pt_at s pdpt i j \<noteq> None" for i j using that by (auto simp: pt_at_def split: option.splits)
  show "same_view s s' pdpt" unfolding same_view_def
    using t_at e_at neI dpd d_old p_at by metis
  show "pd_at s' pdpt I = Some pd" using d_at i by simp
  have pts': "pts s' = pts s" by (simp add: s')
  have pds': "pds s' q = (if q = pd then Some pd_init else pds s q)" for q by (simp add: s')
  show "tables_ok s' pdpt" unfolding tables_ok_def
  proof (intro conjI allI impI)
    show "\<exists>es. pdpts s' pdpt = Some es \<and> length es = 4" using es by (simp add: s' write_obj_Some)
  next
    fix i q assume a: "i < 4 \<and> pd_at s' pdpt i = Some q"
    then show "\<exists>ds. pds s' q = Some ds \<and> length ds = 512"
      using d_at [of i] tables_okD(2) [OF t, of i q] by (auto simp: pds' split: if_splits)
  next
    fix i j pt assume a: "i < 4 \<and> j < 512 \<and> pt_at s' pdpt i j = Some pt"
    then show "\<exists>ts. pts s' pt = Some ts \<and> length ts = 512"
      using t_at tables_okD(3) [OF t, of i j pt] by (auto simp: pts')
  next
    fix i i' q assume a: "i < 4 \<and> i' < 4 \<and> pd_at s' pdpt i = Some q \<and> pd_at s' pdpt i' = Some q"
    have "pd_at s pdpt n \<noteq> Some pd" if "n < 4" for n using tables_okD(2) [OF t that] pd(5) by auto
    then show "i = i'" using a d_at tables_okD(4) [OF t, of i i' q] by (auto split: if_splits)
  next
    fix i j i' j' pt
    assume a: "i < 4 \<and> i' < 4 \<and> j < 512 \<and> j' < 512 \<and> pt_at s' pdpt i j = Some pt \<and> pt_at s' pdpt i' j' = Some pt"
    then show "i = i'" "j = j'" using t_at tables_okD(5) [OF t, of i i' j j' pt] by auto
  qed
qed

lemma pt_at_pd: "pt_at s pdpt i j \<noteq> None \<Longrightarrow> \<exists>p. pd_at s pdpt i = Some p"
  by (auto simp: pt_at_def split: option.splits)

lemma translate_cong:
  assumes "va < W32"
    and "\<And>i j. i < 4 \<Longrightarrow> j < 512 \<Longrightarrow> pt_at s pdpt i j \<noteq> None \<Longrightarrow> pt_at s' pdpt i j \<noteq> None \<and>
           pdpte_at s' pdpt i = pdpte_at s pdpt i \<and> pde_at s' pdpt i j = pde_at s pdpt i j \<and>
           (\<forall>k < 512. pte_at s' pdpt i j k = pte_at s pdpt i j k)"
    and "\<And>i j k. i < 4 \<Longrightarrow> j < 512 \<Longrightarrow> k < 512 \<Longrightarrow> pt_at s pdpt i j = None \<Longrightarrow> pt_at s' pdpt i j \<noteq> None \<Longrightarrow>
           \<not> pte_present (pte_at s' pdpt i j k)"
  shows "translate s' pdpt va = translate s pdpt va"
proof (cases "pt_at s pdpt (pdpte_from_vaddr va) (pde_from_vaddr va)")
  case None
  then show ?thesis using assms(3) [of "pdpte_from_vaddr va" "pde_from_vaddr va" "pte_from_vaddr va"]
      index_bounds [of va] assms(1)
    by (auto simp: translate_def walk_def Let_def split: option.splits)
next
  case (Some pt)
  then show ?thesis using assms(2) [of "pdpte_from_vaddr va" "pde_from_vaddr va"] index_bounds [of va] assms(1)
    by (auto simp: translate_def walk_def Let_def split: option.splits)
qed

lemma map_get_pt_new:
  assumes t: "tables_ok s pdpt" and i: "I < 4" "J < 512" and pdI: "pd_at s pdpt I = Some pd"
    and none: "pt_at s pdpt I J = None"
    and pt: "4096 dvd map_off s" "4096 dvd pt" "map_off s < pt" "pt < W32" "pts s pt = None"
    and s': "s' = s\<lparr>mkm := k, pts := (pts s)(pt \<mapsto> pt_init),
               pds := write_obj (pds s) pd J (pde_set_pt_vaddr (map_off s) pt (pde_at s pdpt I J))\<rparr>"
  shows "tables_ok s' pdpt" and "entries_ok s pdpt \<Longrightarrow> entries_ok s' pdpt"
    and "va < W32 \<Longrightarrow> translate s' pdpt va = translate s pdpt va"
    and "pd_at s' pdpt I = Some pd" and "pt_at s' pdpt I J = Some pt"
proof -
  obtain ds where ds: "pds s pd = Some ds" "length ds = 512" using tables_okD(2) [OF t i(1) pdI] by blast
  have e_at: "pdpte_at s' pdpt i = pdpte_at s pdpt i" for i by (simp add: pdpte_at_def s')
  have d_at: "pd_at s' pdpt i = pd_at s pdpt i" for i by (simp add: pd_at_def e_at) (simp add: s')
  have pde: "pde_at s' pdpt i j = (if i = I \<and> j = J then pde_set_pt_vaddr (map_off s) pt (pde_at s pdpt I J)
      else pde_at s pdpt i j)" if "i < 4" "j < 512" "pd_at s pdpt i = Some p" for i j p
  proof -
    have "p = pd \<Longrightarrow> i = I" using tables_okD(4) [OF t, of i I p] that pdI i by auto
    then show ?thesis using that ds i pdI
      by (auto simp: pde_at_def d_at) (auto simp: s' write_obj_Some nth_list_update pde_at_def)
  qed
  have off: "map_off s' = map_off s" by (simp add: s')
  have t_at: "pt_at s' pdpt i j = (if i = I \<and> j = J then Some pt else pt_at s pdpt i j)" if "i < 4" "j < 512" for i j
    using that pdI pde [OF that] kva_roundtrip(1) [OF pt(1-4)]
    by (auto simp: pt_at_def d_at off split: option.splits)
  have p_new: "pte_at s' pdpt I J k = zero_pte" if "k < 512" for k
    using that i by (simp add: pte_at_def t_at) (simp add: s')
  have ptne: "pt_at s pdpt i j \<noteq> Some pt" if "i < 4" "j < 512" for i j
    using tables_okD(3) [OF t that] pt(5) by auto
  have p_old: "pte_at s' pdpt i j k = pte_at s pdpt i j k" if "i < 4" "j < 512" "pt_at s pdpt i j \<noteq> None" for i j k
  proof -
    have "\<not> (i = I \<and> j = J)" using that none by auto
    then show ?thesis using that ptne [OF that(1,2)] by (auto simp: pte_at_def t_at) (auto simp: s')
  qed
  have old: "pt_at s' pdpt i j \<noteq> None \<and> pdpte_at s' pdpt i = pdpte_at s pdpt i \<and> pde_at s' pdpt i j = pde_at s pdpt i j \<and>
      (\<forall>k < 512. pte_at s' pdpt i j k = pte_at s pdpt i j k)" if a: "i < 4" "j < 512" "pt_at s pdpt i j \<noteq> None" for i j
  proof -
    have "\<not> (i = I \<and> j = J)" using a none by auto
    moreover obtain p where "pd_at s pdpt i = Some p" using pt_at_pd [OF a(3)] by blast
    ultimately show ?thesis using a pde [of i j p] t_at [of i j] p_old [OF a] e_at by metis
  qed
  have new: "\<not> pte_present (pte_at s' pdpt i j k)" if "i < 4" "j < 512" "k < 512" "pt_at s pdpt i j = None" "pt_at s' pdpt i j \<noteq> None" for i j k
    using that t_at [of i j] p_new by (auto split: if_splits)
  show "va < W32 \<Longrightarrow> translate s' pdpt va = translate s pdpt va"
    by (rule translate_cong [OF _ old new])
  show "entries_ok s pdpt \<Longrightarrow> entries_ok s' pdpt" unfolding entries_ok_def using old new by metis
  show "pd_at s' pdpt I = Some pd" "pt_at s' pdpt I J = Some pt" using pdI i d_at t_at by auto
  show "tables_ok s' pdpt" unfolding tables_ok_def
  proof (intro conjI allI impI)
    show "\<exists>es. pdpts s' pdpt = Some es \<and> length es = 4" using tables_okD(1) [OF t] by (simp add: s')
  next
    fix i q assume a: "i < 4 \<and> pd_at s' pdpt i = Some q"
    then show "\<exists>ds. pds s' q = Some ds \<and> length ds = 512"
      using d_at [of i] tables_okD(2) [OF t, of i q] ds by (auto simp: s' write_obj_Some)
  next
    fix i j q assume a: "i < 4 \<and> j < 512 \<and> pt_at s' pdpt i j = Some q"
    then show "\<exists>ts. pts s' q = Some ts \<and> length ts = 512"
      using t_at [of i j] tables_okD(3) [OF t, of i j q] by (auto simp: s' split: if_splits)
  next
    fix i i' q assume a: "i < 4 \<and> i' < 4 \<and> pd_at s' pdpt i = Some q \<and> pd_at s' pdpt i' = Some q"
    then show "i = i'" using d_at tables_okD(4) [OF t, of i i' q] by auto
  next
    fix i j i' j' q
    assume a: "i < 4 \<and> i' < 4 \<and> j < 512 \<and> j' < 512 \<and> pt_at s' pdpt i j = Some q \<and> pt_at s' pdpt i' j' = Some q"
    then show "i = i'" "j = j'"
      using t_at [of i j] t_at [of i' j'] ptne [of i j] ptne [of i' j'] tables_okD(5) [OF t, of i i' j j' q]
      by (auto split: if_splits)
  qed
qed

section \<open>Writing the entry\<close>

lemma set_flags_rights:
  assumes "mm_set_pte_and_pde_flags p d fl = (p', d')"
  shows "pte_writable p' = has_flag fl PAGE_W" "has_flag fl PAGE_W \<Longrightarrow> pde_writable d'"
    "\<not> has_flag fl PAGE_W \<Longrightarrow> pde_writable d' = pde_writable d"
    "pte_exec_disable p' = (\<not> has_flag fl PAGE_X)" "has_flag fl PAGE_X \<Longrightarrow> \<not> pde_exec_disable d'"
    "\<not> has_flag fl PAGE_X \<Longrightarrow> pde_exec_disable d' = pde_exec_disable d"
    "pte_user_access p' = has_flag fl PAGE_USER" "pde_user_access d' = has_flag fl PAGE_USER"
    "pte_present p' = pte_present p" "pde_present d' = pde_present d" "pte_frame_paddr p' = pte_frame_paddr p"
    "pde_pt_vaddr off d' = pde_pt_vaddr off d"
  using assms by (auto simp: mm_set_pte_and_pde_flags_def Let_def pte_frame_paddr_def pde_pt_vaddr_def pde_pt_paddr_def
      split: if_splits)

text \<open>Replacing one entry of each level, without moving a table.\<close>

lemma entry_update:
  assumes t: "tables_ok s pdpt" and i: "I < 4" "J < 512" "K < 512"
    and pd: "pd_at s pdpt I = Some pd" and pt: "pt_at s pdpt I J = Some pt"
    and e': "\<And>off. pdpte_pd_vaddr off e' = pdpte_pd_vaddr off (pdpte_at s pdpt I)"
    and d': "\<And>off. pde_pt_vaddr off d' = pde_pt_vaddr off (pde_at s pdpt I J)"
    and s': "pdpts s' = write_obj (pdpts s) pdpt I e'" "pds s' = write_obj (pds s) pd J d'"
      "pts s' = write_obj (pts s) pt K p'" "map_off s' = map_off s"
  shows "tables_ok s' pdpt"
    and "i < 4 \<Longrightarrow> pdpte_at s' pdpt i = (if i = I then e' else pdpte_at s pdpt i)"
    and "i < 4 \<Longrightarrow> pd_at s' pdpt i = pd_at s pdpt i"
    and "i < 4 \<Longrightarrow> j < 512 \<Longrightarrow> pt_at s' pdpt i j = pt_at s pdpt i j"
    and "i < 4 \<Longrightarrow> j < 512 \<Longrightarrow> pt_at s pdpt i j \<noteq> None \<Longrightarrow>
      pde_at s' pdpt i j = (if i = I \<and> j = J then d' else pde_at s pdpt i j)"
    and "i < 4 \<Longrightarrow> j < 512 \<Longrightarrow> k < 512 \<Longrightarrow> pt_at s pdpt i j \<noteq> None \<Longrightarrow>
      pte_at s' pdpt i j k = (if i = I \<and> j = J \<and> k = K then p' else pte_at s pdpt i j k)"
proof -
  obtain es where es: "pdpts s pdpt = Some es" "length es = 4" using tables_okD(1) [OF t] by blast
  obtain ds where ds: "pds s pd = Some ds" "length ds = 512" using tables_okD(2) [OF t i(1) pd] by blast
  obtain ts where ts: "pts s pt = Some ts" "length ts = 512" using tables_okD(3) [OF t i(1,2) pt] by blast
  have e_at: "pdpte_at s' pdpt i = (if i = I then e' else pdpte_at s pdpt i)" if "i < 4" for i
    using es i that by (simp add: pdpte_at_def s' write_obj_Some nth_list_update)
  have d_at: "pd_at s' pdpt i = pd_at s pdpt i" if "i < 4" for i
    using that e' by (simp add: pd_at_def e_at s'(4))
  have pde: "pde_at s' pdpt i j = (if i = I \<and> j = J then d' else pde_at s pdpt i j)"
    if "i < 4" "j < 512" "pd_at s pdpt i = Some p" for i j p
  proof -
    have "p = pd \<Longrightarrow> i = I" using tables_okD(4) [OF t, of i I p] that pd i by auto
    then show ?thesis using that ds i pd
      by (auto simp: pde_at_def d_at) (auto simp: s' write_obj_Some nth_list_update)
  qed
  have t_at: "pt_at s' pdpt i j = pt_at s pdpt i j" if "i < 4" "j < 512" for i j
    using that pde [OF that] d' by (auto simp: pt_at_def d_at s'(4) split: option.splits)
  have pte: "pte_at s' pdpt i j k = (if i = I \<and> j = J \<and> k = K then p' else pte_at s pdpt i j k)"
    if "i < 4" "j < 512" "k < 512" "pt_at s pdpt i j = Some q" for i j k q
  proof -
    have "q = pt \<Longrightarrow> i = I \<and> j = J" using tables_okD(5) [OF t, of i I j J q] that pt i by auto
    then show ?thesis using that ts i pt
      by (auto simp: pte_at_def t_at) (auto simp: s' write_obj_Some nth_list_update)
  qed
  show "i < 4 \<Longrightarrow> pdpte_at s' pdpt i = (if i = I then e' else pdpte_at s pdpt i)" by (rule e_at)
  show "i < 4 \<Longrightarrow> pd_at s' pdpt i = pd_at s pdpt i" by (rule d_at)
  show "i < 4 \<Longrightarrow> j < 512 \<Longrightarrow> pt_at s' pdpt i j = pt_at s pdpt i j" by (rule t_at)
  show "i < 4 \<Longrightarrow> j < 512 \<Longrightarrow> pt_at s pdpt i j \<noteq> None \<Longrightarrow>
      pde_at s' pdpt i j = (if i = I \<and> j = J then d' else pde_at s pdpt i j)" using pde pt_at_pd by blast
  show "i < 4 \<Longrightarrow> j < 512 \<Longrightarrow> k < 512 \<Longrightarrow> pt_at s pdpt i j \<noteq> None \<Longrightarrow>
      pte_at s' pdpt i j k = (if i = I \<and> j = J \<and> k = K then p' else pte_at s pdpt i j k)" using pte by blast
  show "tables_ok s' pdpt" unfolding tables_ok_def
  proof (intro conjI allI impI)
    show "\<exists>es. pdpts s' pdpt = Some es \<and> length es = 4" using es by (simp add: s' write_obj_Some)
  next
    fix i q assume "i < 4 \<and> pd_at s' pdpt i = Some q"
    then show "\<exists>ds. pds s' q = Some ds \<and> length ds = 512"
      using d_at [of i] tables_okD(2) [OF t, of i q] ds by (auto simp: s' write_obj_Some)
  next
    fix i j q assume "i < 4 \<and> j < 512 \<and> pt_at s' pdpt i j = Some q"
    then show "\<exists>ts. pts s' q = Some ts \<and> length ts = 512"
      using t_at [of i j] tables_okD(3) [OF t, of i j q] ts by (auto simp: s' write_obj_Some)
  next
    fix i i' q assume "i < 4 \<and> i' < 4 \<and> pd_at s' pdpt i = Some q \<and> pd_at s' pdpt i' = Some q"
    then show "i = i'" using d_at tables_okD(4) [OF t, of i i' q] by auto
  next
    fix i j i' j' q
    assume "i < 4 \<and> i' < 4 \<and> j < 512 \<and> j' < 512 \<and> pt_at s' pdpt i j = Some q \<and> pt_at s' pdpt i' j' = Some q"
    then show "i = i'" "j = j'" using t_at tables_okD(5) [OF t, of i i' j j' q] by auto
  qed
qed

lemma read_pte:
  assumes t: "tables_ok s pdpt" and va: "va < W32" and pt: "pt_at s pdpt (pdpte_from_vaddr va) (pde_from_vaddr va) = Some pt"
  shows "read_obj (pts s) pt (pte_from_vaddr va) =
    Ret (pte_at s pdpt (pdpte_from_vaddr va) (pde_from_vaddr va) (pte_from_vaddr va))"
  using tables_okD(3) [OF t index_bounds(1) [OF va] index_bounds(2) pt] index_bounds(3) pt
  by (auto simp: read_obj_Some pte_at_def)

section \<open>Mapping a page\<close>

lemma map_get_pd_ok:
  assumes ok: "mm_ok ma heap live s" and t: "tables_ok s pdpt" and e: "entries_ok s pdpt" and va: "va < W32"
  shows "\<exists>r s' live'. map_get_pd va pdpt s = Some (Ret (r, s')) \<and> live \<subseteq>\<^sub>m live' \<and> mm_ok ma heap live' s' \<and>
    tables_ok s' pdpt \<and> entries_ok s' pdpt \<and> mfa s' = mfa s \<and>
    (\<forall>vb < W32. translate s' pdpt vb = translate s pdpt vb) \<and>
    (\<forall>pd. r = Some pd \<longrightarrow> pd_at s' pdpt (pdpte_from_vaddr va) = Some pd)"
proof -
  let ?I = "pdpte_from_vaddr va"
  have I: "?I < 4" using index_bounds va by simp
  obtain es where es: "pdpts s pdpt = Some es" "length es = 4" using tables_okD(1) [OF t] by blast
  have rd: "read_obj (pdpts s) pdpt ?I = Ret (pdpte_at s pdpt ?I)" using es I by (simp add: read_obj_Some pdpte_at_def)
  show ?thesis
  proof (cases "pd_at s pdpt ?I")
    case (Some pd)
    then have "map_get_pd va pdpt s = Some (Ret (Some pd, s))" by (simp add: map_get_pd_def rd pd_at_def)
    then show ?thesis using assms Some by (intro exI [of _ "Some pd"] exI [of _ s] exI [of _ live]) auto
  next
    case None
    then have n: "pdpte_pd_vaddr (map_off s) (pdpte_at s pdpt ?I) = None" by (simp add: pd_at_def)
    obtain r k where r: "kmalloc_aligned 4096 PAGESIZE (mkm s) = Some (Ret (r, k))"
      and c: "case r of None \<Rightarrow> km_ok (gallocator_driver ma) heap_inv k heap live
     | Some a \<Rightarrow> live a = None \<and> km_ok (gallocator_driver ma) heap_inv k heap (live(a \<mapsto> (4096, 4096))) \<and>
         4096 dvd a \<and> map_off s < a \<and> a < W32 \<and> pds s a = None \<and> pts s a = None \<and> pdpts s a = None"
      using new_table [OF ok] by blast
    show ?thesis
    proof (cases r)
      case None
      let ?s = "s\<lparr>mkm := k\<rparr>"
      have "map_get_pd va pdpt s = Some (Ret (None, ?s))" using r None n by (simp add: map_get_pd_def rd)
      moreover have "mm_ok ma heap live ?s" using ok c None by (simp add: mm_ok_def)
      ultimately show ?thesis using t e by (intro exI [of _ None] exI [of _ ?s] exI [of _ live]) auto
    next
      case (Some pd)
      let ?s = "s\<lparr>mkm := k, pds := (pds s)(pd \<mapsto> pd_init),
               pdpts := write_obj (pdpts s) pdpt ?I (pdpte_set_pd_vaddr (map_off s) pd (pdpte_at s pdpt ?I))\<rparr>"
      have pd: "live pd = None" "km_ok (gallocator_driver ma) heap_inv k heap (live(pd \<mapsto> (4096, 4096)))"
        "4096 dvd pd" "map_off s < pd" "pd < W32" "pds s pd = None" using c Some by auto
      have off: "4096 dvd map_off s" using ok by (simp add: mm_ok_def)
      have m: "map_get_pd va pdpt s = Some (Ret (Some pd, ?s))" using r Some n by (simp add: map_get_pd_def rd)
      have d: "dom (pdpts ?s) \<union> dom (pds ?s) \<union> dom (pts ?s) = insert pd (dom (pdpts s) \<union> dom (pds s) \<union> dom (pts s))" by simp
      have mok: "mm_ok ma heap (live(pd \<mapsto> (4096, 4096))) ?s" using ok pd(2) unfolding mm_ok_def d by auto
      note new = map_get_pd_new [where k = k, OF t I None off pd(3-6) refl]
      have "entries_ok ?s pdpt" by (rule same_view_entries [OF new(2) e])
      moreover have "translate ?s pdpt vb = translate s pdpt vb" if "vb < W32" for vb
        using same_view_walk [OF new(2) that] by (simp add: translate_def)
      moreover have "live \<subseteq>\<^sub>m live(pd \<mapsto> (4096, 4096))" using pd(1) by (auto simp: map_le_def)
      moreover have "mfa ?s = mfa s" by simp
      ultimately show ?thesis using m mok new(1,3) by blast
    qed
  qed
qed

lemma map_get_pt_ok:
  assumes ok: "mm_ok ma heap live s" and t: "tables_ok s pdpt" and e: "entries_ok s pdpt" and va: "va < W32"
    and pd: "pd_at s pdpt (pdpte_from_vaddr va) = Some pd"
  shows "\<exists>r s' live'. map_get_pt va pd s = Some (Ret (r, s')) \<and> live \<subseteq>\<^sub>m live' \<and> mm_ok ma heap live' s' \<and>
    tables_ok s' pdpt \<and> entries_ok s' pdpt \<and> mfa s' = mfa s \<and>
    (\<forall>vb < W32. translate s' pdpt vb = translate s pdpt vb) \<and>
    (\<forall>pt. r = Some pt \<longrightarrow> pd_at s' pdpt (pdpte_from_vaddr va) = Some pd \<and>
       pt_at s' pdpt (pdpte_from_vaddr va) (pde_from_vaddr va) = Some pt)"
proof -
  let ?I = "pdpte_from_vaddr va" and ?J = "pde_from_vaddr va"
  have I: "?I < 4" "?J < 512" using index_bounds va by auto
  obtain ds where ds: "pds s pd = Some ds" "length ds = 512" using tables_okD(2) [OF t I(1) pd] by blast
  have rd: "read_obj (pds s) pd ?J = Ret (pde_at s pdpt ?I ?J)" using ds I pd by (simp add: read_obj_Some pde_at_def)
  show ?thesis
  proof (cases "pt_at s pdpt ?I ?J")
    case (Some pt)
    then have "map_get_pt va pd s = Some (Ret (Some pt, s))" using pd by (simp add: map_get_pt_def rd pt_at_def)
    then show ?thesis using assms Some by (intro exI [of _ "Some pt"] exI [of _ s] exI [of _ live]) auto
  next
    case None
    then have n: "pde_pt_vaddr (map_off s) (pde_at s pdpt ?I ?J) = None" using pd by (simp add: pt_at_def)
    obtain r k where r: "kmalloc_aligned 4096 PAGESIZE (mkm s) = Some (Ret (r, k))"
      and c: "case r of None \<Rightarrow> km_ok (gallocator_driver ma) heap_inv k heap live
     | Some a \<Rightarrow> live a = None \<and> km_ok (gallocator_driver ma) heap_inv k heap (live(a \<mapsto> (4096, 4096))) \<and>
         4096 dvd a \<and> map_off s < a \<and> a < W32 \<and> pds s a = None \<and> pts s a = None \<and> pdpts s a = None"
      using new_table [OF ok] by blast
    show ?thesis
    proof (cases r)
      case None
      let ?s = "s\<lparr>mkm := k\<rparr>"
      have "map_get_pt va pd s = Some (Ret (None, ?s))" using r None n by (simp add: map_get_pt_def rd)
      moreover have "mm_ok ma heap live ?s" using ok c None by (simp add: mm_ok_def)
      ultimately show ?thesis using t e by (intro exI [of _ None] exI [of _ ?s] exI [of _ live]) auto
    next
      case (Some pt)
      let ?s = "s\<lparr>mkm := k, pts := (pts s)(pt \<mapsto> pt_init),
               pds := write_obj (pds s) pd ?J (pde_set_pt_vaddr (map_off s) pt (pde_at s pdpt ?I ?J))\<rparr>"
      have pt: "live pt = None" "km_ok (gallocator_driver ma) heap_inv k heap (live(pt \<mapsto> (4096, 4096)))"
        "4096 dvd pt" "map_off s < pt" "pt < W32" "pts s pt = None" using c Some by auto
      have off: "4096 dvd map_off s" using ok by (simp add: mm_ok_def)
      have m: "map_get_pt va pd s = Some (Ret (Some pt, ?s))" using r Some n by (simp add: map_get_pt_def rd)
      have d: "dom (pdpts ?s) \<union> dom (pds ?s) \<union> dom (pts ?s) = insert pt (dom (pdpts s) \<union> dom (pds s) \<union> dom (pts s))" by simp
      have mok: "mm_ok ma heap (live(pt \<mapsto> (4096, 4096))) ?s" using ok pt(2) unfolding mm_ok_def d by auto
      note new = map_get_pt_new [where k = k, OF t I pd None off pt(3-6) refl]
      have "live \<subseteq>\<^sub>m live(pt \<mapsto> (4096, 4096))" using pt(1) by (auto simp: map_le_def)
      moreover have "mfa ?s = mfa s" by simp
      ultimately show ?thesis using m mok new(1) new(2) [OF e] new(3-5) by blast
    qed
  qed
qed

text \<open>What a translation says apart from the access of ring 3.\<close>

definition kernel_view :: "(addr \<times> bool \<times> bool \<times> bool) option \<Rightarrow> (addr \<times> bool \<times> bool) option" where
  "kernel_view = map_option (\<lambda>(a, w, x, u). (a, w, x))"

definition user_right :: "(addr \<times> bool \<times> bool \<times> bool) option \<Rightarrow> bool" where
  "user_right t \<longleftrightarrow> (case t of Some (a, w, x, u) \<Rightarrow> u | None \<Rightarrow> False)"

lemma entry_update_view:
  assumes t: "tables_ok s pdpt" and ent: "entries_ok s pdpt" and va: "va < W32"
    and pd: "pd_at s pdpt (pdpte_from_vaddr va) = Some pd"
    and pt: "pt_at s pdpt (pdpte_from_vaddr va) (pde_from_vaddr va) = Some pt"
    and e: "e = pdpte_at s pdpt (pdpte_from_vaddr va)" and d: "d = pde_at s pdpt (pdpte_from_vaddr va) (pde_from_vaddr va)"
    and e': "\<And>off. pdpte_pd_vaddr off e' = pdpte_pd_vaddr off e" "pdpte_present e \<longrightarrow> pdpte_present e'"
    and d': "\<And>off. pde_pt_vaddr off d' = pde_pt_vaddr off d" "pde_present d \<longrightarrow> pde_present d'"
      "pde_writable d \<longrightarrow> pde_writable d'" "\<not> pde_exec_disable d \<longrightarrow> \<not> pde_exec_disable d'"
    and p': "pte_present p' \<longrightarrow> pdpte_present e' \<and> pde_present d'" "pte_writable p' \<longrightarrow> pde_writable d'"
      "\<not> pte_exec_disable p' \<longrightarrow> \<not> pde_exec_disable d'"
    and s': "pdpts s' = write_obj (pdpts s) pdpt (pdpte_from_vaddr va) e'"
      "pds s' = write_obj (pds s) pd (pde_from_vaddr va) d'"
      "pts s' = write_obj (pts s) pt (pte_from_vaddr va) p'" "map_off s' = map_off s"
  shows "tables_ok s' pdpt" and "entries_ok s' pdpt"
    and "\<forall>vb < W32. vb div 4096 = va div 4096 \<longrightarrow> translate s' pdpt vb =
           (if pte_present p' then Some (add32 (pte_frame_paddr p') (vb mod PAGESIZE), pte_writable p',
              \<not> pte_exec_disable p', pde_user_access d' \<and> pte_user_access p') else None)"
    and "\<forall>vb < W32. vb div 4096 \<noteq> va div 4096 \<longrightarrow>
           kernel_view (translate s' pdpt vb) = kernel_view (translate s pdpt vb)"
    and "\<forall>vb < W32. vb div 2097152 \<noteq> va div 2097152 \<longrightarrow> translate s' pdpt vb = translate s pdpt vb"
    and "\<forall>vb < W32. vb div 4096 \<noteq> va div 4096 \<and> pde_user_access d' \<and> user_right (translate s pdpt vb) \<longrightarrow>
           user_right (translate s' pdpt vb)"
proof -
  let ?I = "pdpte_from_vaddr va" and ?J = "pde_from_vaddr va" and ?K = "pte_from_vaddr va"
  have I: "?I < 4" "?J < 512" "?K < 512" using index_bounds va by auto
  note u = entry_update [OF t I pd pt e'(1) [unfolded e] d'(1) [unfolded d] s']
  have old: "pdpte_present (pdpte_at s pdpt i) \<and> pde_present (pde_at s pdpt i j) \<and>
        (pte_writable (pte_at s pdpt i j k) \<longrightarrow> pde_writable (pde_at s pdpt i j)) \<and>
        (\<not> pte_exec_disable (pte_at s pdpt i j k) \<longrightarrow> \<not> pde_exec_disable (pde_at s pdpt i j))"
    if "i < 4" "j < 512" "k < 512" "pt_at s pdpt i j \<noteq> None" "pte_present (pte_at s pdpt i j k)" for i j k
    using ent that unfolding entries_ok_def by blast
  show "tables_ok s' pdpt" by (rule u(1))
  show "entries_ok s' pdpt" unfolding entries_ok_def
  proof (intro allI impI, goal_cases)
    case (1 i j k)
    then have b: "i < 4" "j < 512" "k < 512" and p: "pt_at s pdpt i j \<noteq> None"
      and pr': "pte_present (pte_at s' pdpt i j k)" using u(4) by auto
    note e1 = u(2) [OF b(1)] and d1 = u(5) [OF b(1,2) p] and p1 = u(6) [OF b p]
    show ?case
    proof (cases "i = ?I \<and> j = ?J \<and> k = ?K")
      case True
      then show ?thesis using e1 d1 p1 pr' p' by simp
    next
      case False
      then have "pte_at s' pdpt i j k = pte_at s pdpt i j k" using p1 by auto
      then show ?thesis using e1 d1 old [OF b p] pr' e d e'(2) d'(2-4) by auto
    qed
  qed
  show "\<forall>vb < W32. vb div 4096 = va div 4096 \<longrightarrow> translate s' pdpt vb =
           (if pte_present p' then Some (add32 (pte_frame_paddr p') (vb mod PAGESIZE), pte_writable p',
              \<not> pte_exec_disable p', pde_user_access d' \<and> pte_user_access p') else None)"
  proof (intro allI impI)
    fix vb assume "vb < W32" and vb: "vb div 4096 = va div 4096"
    have ix: "pdpte_from_vaddr vb = ?I" "pde_from_vaddr vb = ?J" "pte_from_vaddr vb = ?K"
      using same_page_iff [of vb va] vb by auto
    have n: "pt_at s pdpt ?I ?J \<noteq> None" using pt by simp
    have n': "pt_at s' pdpt (pdpte_from_vaddr vb) (pde_from_vaddr vb) \<noteq> None" using pt u(4) I ix by simp
    show "translate s' pdpt vb = (if pte_present p' then Some (add32 (pte_frame_paddr p') (vb mod PAGESIZE), pte_writable p',
              \<not> pte_exec_disable p', pde_user_access d' \<and> pte_user_access p') else None)"
      unfolding translate_at [OF n' refl refl refl] unfolding ix u(2) [OF I(1)] u(5) [OF I(1,2) n] u(6) [OF I n]
      using p' by auto
  qed
  have oth: "kernel_view (translate s' pdpt vb) = kernel_view (translate s pdpt vb) \<and>
      (vb div 2097152 \<noteq> va div 2097152 \<longrightarrow> translate s' pdpt vb = translate s pdpt vb) \<and>
      (pde_user_access d' \<and> user_right (translate s pdpt vb) \<longrightarrow> user_right (translate s' pdpt vb))"
    if vb: "vb < W32" "vb div 4096 \<noteq> va div 4096" for vb
  proof -
    let ?i = "pdpte_from_vaddr vb" and ?j = "pde_from_vaddr vb" and ?k = "pte_from_vaddr vb"
    have b: "?i < 4" "?j < 512" "?k < 512" using index_bounds vb by auto
    have ne: "\<not> (?i = ?I \<and> ?j = ?J \<and> ?k = ?K)" using same_page_iff vb(2) by blast
    have rg: "vb div 2097152 \<noteq> va div 2097152 \<longleftrightarrow> \<not> (?i = ?I \<and> ?j = ?J)" using same_region_iff by blast
    show ?thesis
    proof (cases "pt_at s pdpt ?i ?j")
      case None
      then show ?thesis using u(4) [OF b(1,2)] by (simp add: translate_def walk_def)
    next
      case (Some q)
      then have p: "pt_at s pdpt ?i ?j \<noteq> None" by simp
      have p1: "pte_at s' pdpt ?i ?j ?k = pte_at s pdpt ?i ?j ?k" using u(6) [OF b p] ne by auto
      have p': "pt_at s' pdpt ?i ?j \<noteq> None" using p u(4) [OF b(1,2)] by simp
      note T = translate_at [OF p refl refl refl] and T' = translate_at [OF p' u(2) [OF b(1), symmetric]
          u(5) [OF b(1,2) p, symmetric] p1 [symmetric]]
      show ?thesis
      proof (cases "pte_present (pte_at s pdpt ?i ?j ?k)")
        case False
        then show ?thesis unfolding T T' by simp
      next
        case True
        then show ?thesis unfolding T T' using old [OF b p True] e d e'(2) d'(2-4) rg
            by (auto simp: kernel_view_def user_right_def)
      qed
    qed
  qed
  have "vb div 4096 \<noteq> va div 4096" if "vb div 2097152 \<noteq> va div 2097152" for vb
    using that same_page_iff same_region_iff by blast
  then show "\<forall>vb < W32. vb div 4096 \<noteq> va div 4096 \<longrightarrow>
       kernel_view (translate s' pdpt vb) = kernel_view (translate s pdpt vb)"
    and "\<forall>vb < W32. vb div 2097152 \<noteq> va div 2097152 \<longrightarrow> translate s' pdpt vb = translate s pdpt vb"
    and "\<forall>vb < W32. vb div 4096 \<noteq> va div 4096 \<and> pde_user_access d' \<and> user_right (translate s pdpt vb) \<longrightarrow>
           user_right (translate s' pdpt vb)"
    using oth by blast+
qed

lemma map_entry_ok:
  assumes t: "tables_ok s pdpt" and e: "entries_ok s pdpt" and va: "va < W32"
    and pa: "paddr < W32" "4096 dvd paddr"
    and pd: "pd_at s pdpt (pdpte_from_vaddr va) = Some pd"
    and pt: "pt_at s pdpt (pdpte_from_vaddr va) (pde_from_vaddr va) = Some pt"
  shows "\<exists>s'. map_entry va paddr fl pdpt pd pt s = Ret s' \<and> mkm s' = mkm s \<and> mfa s' = mfa s \<and>
    map_off s' = map_off s \<and> dom (pdpts s') = dom (pdpts s) \<and> dom (pds s') = dom (pds s) \<and> dom (pts s') = dom (pts s) \<and>
    tables_ok s' pdpt \<and> entries_ok s' pdpt \<and>
    (\<forall>vb < W32. vb div 4096 = va div 4096 \<longrightarrow> translate s' pdpt vb =
       Some (paddr + vb mod 4096, has_flag fl PAGE_W, has_flag fl PAGE_X, has_flag fl PAGE_USER)) \<and>
    (\<forall>vb < W32. vb div 4096 \<noteq> va div 4096 \<longrightarrow>
       kernel_view (translate s' pdpt vb) = kernel_view (translate s pdpt vb)) \<and>
    (\<forall>vb < W32. vb div 2097152 \<noteq> va div 2097152 \<longrightarrow> translate s' pdpt vb = translate s pdpt vb)"
proof -
  let ?I = "pdpte_from_vaddr va" and ?J = "pde_from_vaddr va" and ?K = "pte_from_vaddr va"
  have I: "?I < 4" "?J < 512" "?K < 512" using index_bounds va by auto
  let ?e = "pdpte_at s pdpt ?I" and ?d = "pde_at s pdpt ?I ?J" and ?p = "pte_at s pdpt ?I ?J ?K"
  obtain es where es: "pdpts s pdpt = Some es" "length es = 4" using tables_okD(1) [OF t] by blast
  obtain ds where ds: "pds s pd = Some ds" "length ds = 512" using tables_okD(2) [OF t I(1) pd] by blast
  obtain p' d' where pd': "mm_set_pte_and_pde_flags ((pte_set_frame_paddr paddr ?p)\<lparr>pte_present := True\<rparr>)
      (?d\<lparr>pde_present := True\<rparr>) fl = (p', d')" by (metis surj_pair)
  note fl = set_flags_rights [OF pd']
  let ?s = "s\<lparr>pdpts := write_obj (pdpts s) pdpt ?I (?e\<lparr>pdpte_present := True\<rparr>),
             pds := write_obj (pds s) pd ?J d', pts := write_obj (pts s) pt ?K p'\<rparr>"
  have r: "read_obj (pdpts s) pdpt ?I = Ret ?e" "read_obj (pds s) pd ?J = Ret ?d"
    using es ds I pd by (simp_all add: read_obj_Some pdpte_at_def pde_at_def)
  have m: "map_entry va paddr fl pdpt pd pt s = Ret ?s"
    by (simp add: map_entry_def r read_pte [OF t va pt] pd' Let_def)
  have fr: "pte_frame_paddr p' = paddr"
    using fl(11) pa by (simp add: pte_frame_paddr_def frame_roundtrip [unfolded pte_frame_paddr_def])
  have pr: "pte_present p'" "pde_present d'" using fl(9,10) by auto
  let ?e' = "?e\<lparr>pdpte_present := True\<rparr>"
  have e': "\<And>off. pdpte_pd_vaddr off ?e' = pdpte_pd_vaddr off ?e" "pdpte_present ?e \<longrightarrow> pdpte_present ?e'" by simp_all
  have d': "\<And>off. pde_pt_vaddr off d' = pde_pt_vaddr off ?d" "pde_present ?d \<longrightarrow> pde_present d'"
    "pde_writable ?d \<longrightarrow> pde_writable d'" "\<not> pde_exec_disable ?d \<longrightarrow> \<not> pde_exec_disable d'"
    "pte_present p' \<longrightarrow> pdpte_present ?e' \<and> pde_present d'" "pte_writable p' \<longrightarrow> pde_writable d'"
    "\<not> pte_exec_disable p' \<longrightarrow> \<not> pde_exec_disable d'"
    using fl pr by auto
  have s': "pdpts ?s = write_obj (pdpts s) pdpt ?I ?e'" "pds ?s = write_obj (pds s) pd ?J d'"
    "pts ?s = write_obj (pts s) pt ?K p'" "map_off ?s = map_off s" by simp_all
  note v = entry_update_view [OF t e va pd pt refl refl e' d' s']
  have a: "add32 paddr (vb mod PAGESIZE) = paddr + vb mod 4096" for vb
  proof -
    obtain q where "paddr = 4096 * q" using pa(2) by blast
    moreover have "vb mod 4096 < 4096" by simp
    ultimately show ?thesis using pa(1) by (simp add: add32_exact)
  qed
  have "\<forall>vb < W32. vb div 4096 = va div 4096 \<longrightarrow> translate ?s pdpt vb =
       Some (paddr + vb mod 4096, has_flag fl PAGE_W, has_flag fl PAGE_X, has_flag fl PAGE_USER)"
  proof (intro allI impI)
    fix vb assume vb: "vb < W32" "vb div 4096 = va div 4096"
    show "translate ?s pdpt vb = Some (paddr + vb mod 4096, has_flag fl PAGE_W, has_flag fl PAGE_X, has_flag fl PAGE_USER)"
      unfolding v(3) [rule_format, OF vb] using pr fl(1,4,7,8) a fr by simp
  qed
  then show ?thesis using m v(1,2,4,5) by (intro exI [of _ ?s]) simp
qed

lemma map_page_arch_ok:
  assumes ok: "mm_ok ma heap live s" and t: "tables_ok s pdpt" and e: "entries_ok s pdpt"
    and ps: "psdata ps = Some pdpt" and va: "va < W32" and pa: "paddr < W32" "4096 dvd paddr"
  shows "\<exists>r s' live'. mm_map_page_arch va paddr fl ps s = Some (Ret (r, s')) \<and>
    live \<subseteq>\<^sub>m live' \<and> mm_ok ma heap live' s' \<and> tables_ok s' pdpt \<and> entries_ok s' pdpt \<and> mfa s' = mfa s \<and>
    (case r of
       Inl err \<Rightarrow> err = ENOMEM \<and> (\<forall>vb < W32. translate s' pdpt vb = translate s pdpt vb)
     | Inr _ \<Rightarrow>
         (\<forall>vb < W32. vb div 4096 = va div 4096 \<longrightarrow> translate s' pdpt vb =
            Some (paddr + vb mod 4096, has_flag fl PAGE_W, has_flag fl PAGE_X, has_flag fl PAGE_USER)) \<and>
         (\<forall>vb < W32. vb div 4096 \<noteq> va div 4096 \<longrightarrow>
            kernel_view (translate s' pdpt vb) = kernel_view (translate s pdpt vb)) \<and>
         (\<forall>vb < W32. vb div 2097152 \<noteq> va div 2097152 \<longrightarrow> translate s' pdpt vb = translate s pdpt vb))"
proof -
  obtain r1 s1 live1 where 1: "map_get_pd va pdpt s = Some (Ret (r1, s1))" "live \<subseteq>\<^sub>m live1" "mm_ok ma heap live1 s1"
    "tables_ok s1 pdpt" "entries_ok s1 pdpt" "mfa s1 = mfa s" "\<forall>vb < W32. translate s1 pdpt vb = translate s pdpt vb"
    "\<forall>pd. r1 = Some pd \<longrightarrow> pd_at s1 pdpt (pdpte_from_vaddr va) = Some pd"
    using map_get_pd_ok [OF ok t e va] by blast
  show ?thesis
  proof (cases r1)
    case None
    then have "mm_map_page_arch va paddr fl ps s = Some (Ret (Inl ENOMEM, s1))"
      using 1(1) ps by (simp add: mm_map_page_arch_def)
    then show ?thesis using 1 by (intro exI [of _ "Inl ENOMEM"] exI [of _ s1] exI [of _ live1]) auto
  next
    case (Some pd)
    then have pd: "pd_at s1 pdpt (pdpte_from_vaddr va) = Some pd" using 1(8) by simp
    obtain r2 s2 live2 where 2: "map_get_pt va pd s1 = Some (Ret (r2, s2))" "live1 \<subseteq>\<^sub>m live2" "mm_ok ma heap live2 s2"
      "tables_ok s2 pdpt" "entries_ok s2 pdpt" "mfa s2 = mfa s1" "\<forall>vb < W32. translate s2 pdpt vb = translate s1 pdpt vb"
      "\<forall>pt. r2 = Some pt \<longrightarrow> pd_at s2 pdpt (pdpte_from_vaddr va) = Some pd \<and>
       pt_at s2 pdpt (pdpte_from_vaddr va) (pde_from_vaddr va) = Some pt"
      using map_get_pt_ok [OF 1(3-5) va pd] by blast
    have le: "live \<subseteq>\<^sub>m live2" using 1(2) 2(2) by (rule map_le_trans)
    have tr: "\<forall>vb < W32. translate s2 pdpt vb = translate s pdpt vb" using 1(7) 2(7) by simp
    show ?thesis
    proof (cases r2)
      case None
      then have "mm_map_page_arch va paddr fl ps s = Some (Ret (Inl ENOMEM, s2))"
        using 1(1) 2(1) ps Some by (simp add: mm_map_page_arch_def)
      then show ?thesis using 1 2 le tr by (intro exI [of _ "Inl ENOMEM"] exI [of _ s2] exI [of _ live2]) auto
    next
      case (Some pt)
      then have pt: "pd_at s2 pdpt (pdpte_from_vaddr va) = Some pd"
        "pt_at s2 pdpt (pdpte_from_vaddr va) (pde_from_vaddr va) = Some pt" using 2(8) by auto
      obtain s3 where 3: "map_entry va paddr fl pdpt pd pt s2 = Ret s3" "mkm s3 = mkm s2" "mfa s3 = mfa s2"
        "map_off s3 = map_off s2" "dom (pdpts s3) = dom (pdpts s2)" "dom (pds s3) = dom (pds s2)" "dom (pts s3) = dom (pts s2)"
        "tables_ok s3 pdpt" "entries_ok s3 pdpt"
        and tr3: "\<forall>vb < W32. vb div 4096 = va div 4096 \<longrightarrow> translate s3 pdpt vb =
            Some (paddr + vb mod 4096, has_flag fl PAGE_W, has_flag fl PAGE_X, has_flag fl PAGE_USER)"
          "\<forall>vb < W32. vb div 4096 \<noteq> va div 4096 \<longrightarrow>
            kernel_view (translate s3 pdpt vb) = kernel_view (translate s2 pdpt vb)"
          "\<forall>vb < W32. vb div 2097152 \<noteq> va div 2097152 \<longrightarrow> translate s3 pdpt vb = translate s2 pdpt vb"
        using map_entry_ok [OF 2(4,5) va pa pt] by blast
      have m: "mm_map_page_arch va paddr fl ps s = Some (Ret (Inr (), s3))"
        using 1(1) 2(1) 3(1) ps \<open>r1 = Some pd\<close> Some by (simp add: mm_map_page_arch_def)
      have "mm_ok ma heap live2 s3" using 2(3) 3(2,4-7) by (simp add: mm_ok_def)
      then show ?thesis using m le 3 1(6) 2(6) tr3 tr
        by (intro exI [of _ "Inr ()"] exI [of _ s3] exI [of _ live2]) simp
    qed
  qed
qed

section \<open>Translating an address in software\<close>

lemma pte_from_vaddr_abs_eq:
  assumes t: "tables_ok s pdpt" and va: "va < W32"
  shows "pte_from_vaddr_abs va pdpt s =
    Ret (map_option (\<lambda>pt. (pt, pte_from_vaddr va)) (pt_at s pdpt (pdpte_from_vaddr va) (pde_from_vaddr va)))"
proof -
  let ?I = "pdpte_from_vaddr va" and ?J = "pde_from_vaddr va"
  have I: "?I < 4" "?J < 512" using index_bounds va by auto
  obtain es where es: "pdpts s pdpt = Some es" "length es = 4" using tables_okD(1) [OF t] by blast
  have "va div GIB = ?I" by (simp add: pdpte_from_vaddr_def)
  then have pd: "pd_from_vaddr_abs va pdpt s = Ret (pd_at s pdpt ?I)"
    using es I by (simp add: pd_from_vaddr_abs_def read_obj_Some pd_at_def pdpte_at_def pdpte_pd_vaddr_def Let_def)
  have "pt_from_vaddr_abs va pdpt s = Ret (pt_at s pdpt ?I ?J)"
  proof (cases "pd_at s pdpt ?I")
    case None
    then show ?thesis by (simp add: pt_from_vaddr_abs_def pde_from_vaddr_abs_def pd pt_at_def)
  next
    case (Some q)
    obtain ds where ds: "pds s q = Some ds" "length ds = 512" using tables_okD(2) [OF t I(1) Some] by blast
    then show ?thesis using Some I
      by (simp add: pt_from_vaddr_abs_def pde_from_vaddr_abs_def pd pt_at_def read_obj_Some pde_at_def pde_pt_vaddr_def Let_def)
  qed
  then show ?thesis by (simp add: pte_from_vaddr_abs_def split: option.splits)
qed

lemma mm_va2pa_eq:
  assumes t: "tables_ok s pdpt" and ps: "psdata ps = Some pdpt" and va: "va < W32"
  shows "mm_va2pa va ps s = Ret (case walk s pdpt va of None \<Rightarrow> None
    | Some (e, d, p) \<Rightarrow> Some (add32 (pte_frame_paddr p) (va mod 4096)))"
  using pte_from_vaddr_abs_eq [OF t va] read_pte [OF t va] ps
  by (auto simp: mm_va2pa_def mm_va2pa_arch_def with_data_def walk_def Let_def split: option.splits)

lemma mm_va2pa_translate:
  assumes t: "tables_ok s pdpt" and ps: "psdata ps = Some pdpt" and va: "va < W32"
    and tr: "translate s pdpt va = Some (a, w, x, u)"
  shows "mm_va2pa va ps s = Ret (Some a)"
  using tr unfolding mm_va2pa_eq [OF t ps va] by (auto simp: translate_def split: option.splits if_splits)

end
