(* ===== verification/MmProps.thy ===== *)
theory MmProps
  imports MmWalk
begin

unbundle bit_operations_syntax

text \<open>
  Properties of virtual memory: mapping, permissions, new user pages, the tracked pages and the
  release of an address space, with a concrete address space as witness.
\<close>

section \<open>Permissions\<close>

lemma write_same: "st a = Some t \<Longrightarrow> i < length t \<Longrightarrow> write_obj st a i (t ! i) = st"
  by (auto simp: write_obj_def)

lemma set_page_flags_ok:
  assumes t: "tables_ok s pdpt" and e: "entries_ok s pdpt" and ps: "psdata ps = Some pdpt"
    and va: "va < W32" "4096 dvd va"
  shows "\<exists>r s'. mm_set_page_flags va fl ps s = Ret (r, s') \<and> tables_ok s' pdpt \<and> entries_ok s' pdpt \<and>
    (case r of
       Inl err \<Rightarrow> err = EINVAL \<and> s' = s \<and>
         (case walk s pdpt va of None \<Rightarrow> True | Some (e, d, p) \<Rightarrow> pte_frame_paddr p = 0)
     | Inr _ \<Rightarrow>
         (\<forall>vb < W32. vb div 4096 = va div 4096 \<longrightarrow> translate s' pdpt vb =
            map_option (\<lambda>(a, w, x, u). (a, has_flag fl PAGE_W, has_flag fl PAGE_X, has_flag fl PAGE_USER))
              (translate s pdpt vb)) \<and>
         (\<forall>vb < W32. vb div 4096 \<noteq> va div 4096 \<longrightarrow>
            kernel_view (translate s' pdpt vb) = kernel_view (translate s pdpt vb)) \<and>
         mkm s' = mkm s \<and> mfa s' = mfa s \<and>
         (has_flag fl PAGE_USER \<longrightarrow> (\<forall>vb < W32. vb div 4096 \<noteq> va div 4096 \<and> user_right (translate s pdpt vb) \<longrightarrow>
            user_right (translate s' pdpt vb))))"
proof -
  let ?I = "pdpte_from_vaddr va" and ?J = "pde_from_vaddr va" and ?K = "pte_from_vaddr va"
  have I: "?I < 4" "?J < 512" "?K < 512" using index_bounds va by auto
  let ?e = "pdpte_at s pdpt ?I" and ?d = "pde_at s pdpt ?I ?J" and ?p = "pte_at s pdpt ?I ?J ?K"
  obtain es where es: "pdpts s pdpt = Some es" "length es = 4" using tables_okD(1) [OF t] by blast
  have r1: "read_obj (pdpts s) pdpt ?I = Ret ?e" using es I by (simp add: read_obj_Some pdpte_at_def)
  have al: "va mod 4096 = 0" using va by simp
  note unf = mm_set_page_flags_def mm_set_page_flags_arch_def with_data_def ps r1 al
  show ?thesis
  proof (cases "pd_at s pdpt ?I")
    case None
    then have "mm_set_page_flags va fl ps s = Ret (Inl EINVAL, s)" by (simp add: unf pd_at_def)
    moreover have "walk s pdpt va = None" using None by (simp add: walk_def pt_at_def)
    ultimately show ?thesis using t e by simp
  next
    case (Some pd)
    obtain ds where ds: "pds s pd = Some ds" "length ds = 512" using tables_okD(2) [OF t I(1) Some] by blast
    have r2: "read_obj (pds s) pd ?J = Ret ?d" using ds I Some by (simp add: read_obj_Some pde_at_def)
    note unf2 = unf Some [unfolded pd_at_def] r2
    show ?thesis
    proof (cases "pt_at s pdpt ?I ?J")
      case None
      then have "pde_pt_vaddr (map_off s) ?d = None" using Some by (simp add: pt_at_def)
      then have "mm_set_page_flags va fl ps s = Ret (Inl EINVAL, s)" by (simp add: unf2)
      moreover have "walk s pdpt va = None" using None by (simp add: walk_def)
      ultimately show ?thesis using t e by simp
    next
      case pt: (Some pt)
      then have pt': "pde_pt_vaddr (map_off s) ?d = Some pt" using Some by (simp add: pt_at_def)
      note r3 = read_pte [OF t va(1) pt]
      have w: "walk s pdpt va = Some (?e, ?d, ?p)" using pt by (simp add: walk_def Let_def)
      show ?thesis
      proof (cases "pte_frame_paddr ?p = 0")
        case True
        then have "mm_set_page_flags va fl ps s = Ret (Inl EINVAL, s)" by (simp add: unf2 pt' r3)
        then show ?thesis using t e w True by simp
      next
        case False
        obtain p' d' where pd': "mm_set_pte_and_pde_flags ?p ?d fl = (p', d')" by (metis surj_pair)
        note fl = set_flags_rights [OF pd']
        let ?s = "s\<lparr>pds := write_obj (pds s) pd ?J d', pts := write_obj (pts s) pt ?K p'\<rparr>"
        have m: "mm_set_page_flags va fl ps s = Ret (Inr (), ?s)" using False by (simp add: unf2 pt' r3 pd')
        have ent: "pte_present ?p \<longrightarrow> pdpte_present ?e \<and> pde_present ?d" using e I pt unfolding entries_ok_def by blast
        have d': "\<And>off. pde_pt_vaddr off d' = pde_pt_vaddr off ?d" "pde_present ?d \<longrightarrow> pde_present d'"
          "pde_writable ?d \<longrightarrow> pde_writable d'" "\<not> pde_exec_disable ?d \<longrightarrow> \<not> pde_exec_disable d'"
          "pte_present p' \<longrightarrow> pdpte_present ?e \<and> pde_present d'" "pte_writable p' \<longrightarrow> pde_writable d'"
          "\<not> pte_exec_disable p' \<longrightarrow> \<not> pde_exec_disable d'"
          using fl ent by auto
        have s': "pdpts ?s = write_obj (pdpts s) pdpt ?I ?e" "pds ?s = write_obj (pds s) pd ?J d'"
          "pts ?s = write_obj (pts s) pt ?K p'" "map_off ?s = map_off s"
          using es I write_same [of "pdpts s" pdpt es ?I] by (simp_all add: pdpte_at_def)
        have e': "\<And>off. pdpte_pd_vaddr off ?e = pdpte_pd_vaddr off ?e" "pdpte_present ?e \<longrightarrow> pdpte_present ?e" by simp_all
        note v = entry_update_view [OF t e va(1) Some pt refl refl e' d' s']
        have same: "translate ?s pdpt vb =
            map_option (\<lambda>(a, w, x, u). (a, has_flag fl PAGE_W, has_flag fl PAGE_X, has_flag fl PAGE_USER))
              (translate s pdpt vb)" if vb: "vb < W32" "vb div 4096 = va div 4096" for vb
        proof -
          have ix: "pdpte_from_vaddr vb = ?I" "pde_from_vaddr vb = ?J" "pte_from_vaddr vb = ?K"
            using same_page_iff [of vb va] vb by auto
          have n: "pt_at s pdpt (pdpte_from_vaddr vb) (pde_from_vaddr vb) \<noteq> None" using pt ix by simp
          show ?thesis unfolding v(3) [rule_format, OF vb] translate_at [OF n refl refl refl] ix
            using fl(1,4,7,8,9,11) ent by auto
        qed
        have usr: "has_flag fl PAGE_USER \<longrightarrow> (\<forall>vb < W32. vb div 4096 \<noteq> va div 4096 \<and> user_right (translate s pdpt vb) \<longrightarrow>
            user_right (translate ?s pdpt vb))" using v(6) fl(8) by blast
        show ?thesis using m v(1,2,4) same usr by (intro exI [of _ "Inr ()"] exI [of _ ?s]) simp
      qed
    qed
  qed
qed

text \<open>Replacing a page table entry alone.\<close>

lemma pte_update:
  assumes t: "tables_ok s pdpt" and va: "va < W32"
    and pt: "pt_at s pdpt (pdpte_from_vaddr va) (pde_from_vaddr va) = Some pt"
    and s': "pdpts s' = pdpts s" "pds s' = pds s" "map_off s' = map_off s"
      "pts s' = write_obj (pts s) pt (pte_from_vaddr va) p'"
  shows "tables_ok s' pdpt"
    and "\<forall>i j. i < 4 \<and> j < 512 \<longrightarrow> pt_at s' pdpt i j = pt_at s pdpt i j"
    and "walk s' pdpt va = Some (pdpte_at s pdpt (pdpte_from_vaddr va),
           pde_at s pdpt (pdpte_from_vaddr va) (pde_from_vaddr va), p')"
proof -
  let ?I = "pdpte_from_vaddr va" and ?J = "pde_from_vaddr va" and ?K = "pte_from_vaddr va"
  have I: "?I < 4" "?J < 512" "?K < 512" using index_bounds va by auto
  obtain pd where pd: "pd_at s pdpt ?I = Some pd" using pt_at_pd pt by blast
  obtain es where es: "pdpts s pdpt = Some es" "length es = 4" using tables_okD(1) [OF t] by blast
  obtain ds where ds: "pds s pd = Some ds" "length ds = 512" using tables_okD(2) [OF t I(1) pd] by blast
  have w: "pdpts s' = write_obj (pdpts s) pdpt ?I (pdpte_at s pdpt ?I)"
    "pds s' = write_obj (pds s) pd ?J (pde_at s pdpt ?I ?J)"
    using s' es ds I pd write_same [of "pdpts s" pdpt es ?I] write_same [of "pds s" pd ds ?J]
    by (simp_all add: pdpte_at_def pde_at_def)
  note u = entry_update [OF t I pd pt refl refl w s'(4,3)]
  show "tables_ok s' pdpt" by (rule u(1))
  show "\<forall>i j. i < 4 \<and> j < 512 \<longrightarrow> pt_at s' pdpt i j = pt_at s pdpt i j" using u(4) by blast
  show "walk s' pdpt va = Some (pdpte_at s pdpt ?I, pde_at s pdpt ?I ?J, p')"
    using u(2) [OF I(1)] u(4) [OF I(1,2)] u(5) [OF I(1,2)] u(6) [OF I] pt by (simp add: walk_def Let_def)
qed

lemma rm_page_flags_walk:
  assumes t: "tables_ok s pdpt" and ps: "psdata ps = Some pdpt" and va: "va < W32" "4096 dvd va"
    and w: "walk s pdpt va = Some (e, d, p)"
  shows "\<exists>s'. mm_rm_page_flags va fl ps s = Ret (Inr (), s') \<and> tables_ok s' pdpt \<and>
    walk s' pdpt va = Some (e, d, p\<lparr>pte_exec_disable := has_flag fl PAGE_X, pte_writable := \<not> has_flag fl PAGE_W,
      pte_user_access := \<not> has_flag fl PAGE_USER, pte_present := \<not> has_flag fl PAGE_PRESENT\<rparr>)"
proof -
  obtain pt where pt: "pt_at s pdpt (pdpte_from_vaddr va) (pde_from_vaddr va) = Some pt"
    and edp: "e = pdpte_at s pdpt (pdpte_from_vaddr va)" "d = pde_at s pdpt (pdpte_from_vaddr va) (pde_from_vaddr va)"
      "p = pte_at s pdpt (pdpte_from_vaddr va) (pde_from_vaddr va) (pte_from_vaddr va)"
    using w by (auto simp: walk_def Let_def split: option.splits)
  let ?p = "p\<lparr>pte_exec_disable := has_flag fl PAGE_X, pte_writable := \<not> has_flag fl PAGE_W,
      pte_user_access := \<not> has_flag fl PAGE_USER, pte_present := \<not> has_flag fl PAGE_PRESENT\<rparr>"
  let ?s = "s\<lparr>pts := write_obj (pts s) pt (pte_from_vaddr va) ?p\<rparr>"
  have "mm_rm_page_flags va fl ps s = Ret (Inr (), ?s)"
    using va ps by (simp add: mm_rm_page_flags_def mm_rm_page_flags_arch_def with_data_def
        pte_from_vaddr_abs_eq [OF t va(1)] pt read_pte [OF t va(1) pt] edp(3))
  then show ?thesis using pte_update [OF t va(1) pt, of ?s ?p] edp by simp
qed

section \<open>New user pages\<close>

lemma has_flag_push: "has_flag fl (push_bit k 1) = bit fl k"
  by (metis and_exp_eq_0_iff_not_bit has_flag_def push_bit_of_1)

lemma has_flag_bit:
  "has_flag fl PAGE_X = bit fl 0" "has_flag fl PAGE_W = bit fl 1" "has_flag fl PAGE_USER = bit fl 3"
  "has_flag fl PAGE_PRESENT = bit fl 4"
  unfolding PAGE_X_def PAGE_W_def PAGE_USER_def PAGE_PRESENT_def by (rule has_flag_push)+

lemma has_flag_user:
  "has_flag (fl OR PAGE_USER) PAGE_USER" "has_flag (fl OR PAGE_USER) PAGE_W = has_flag fl PAGE_W"
  "has_flag (fl OR PAGE_USER) PAGE_X = has_flag fl PAGE_X"
  by (simp_all add: has_flag_bit bit_simps) (simp_all add: PAGE_USER_def bit_simps)

lemma new_user_page_full:
  assumes ok: "mm_ok ma heap live s" and t: "tables_ok s pdpt" and e: "entries_ok s pdpt"
    and ps: "psdata ps = Some pdpt" and va: "va < W32" "4096 dvd va" and c: "cursor_ok (mfa s)"
    and tr: "track_inv ps" "allocated_pages_size ps < allocated_pages_capacity ps" "va \<notin> set (tracked ps)"
  shows "\<exists>r ps' s'. mm_new_user_page va fl ps s = Some (Ret (r, ps', s')) \<and> tables_ok s' pdpt \<and> entries_ok s' pdpt \<and>
    (\<exists>live'. live \<subseteq>\<^sub>m live' \<and> mm_ok ma heap live' s') \<and>
    (case r of
       Inl err \<Rightarrow> err = ENOMEM \<and> ps' = ps \<and> (\<forall>vb < W32. translate s' pdpt vb = translate s pdpt vb)
     | Inr _ \<Rightarrow> \<exists>f. 64 \<le> f \<and> frame_free (mfa s) f \<and>
         (\<forall>g. frame_free (mfa s') g \<longleftrightarrow> frame_free (mfa s) g \<and> g \<noteq> f) \<and>
         (\<forall>vb < W32. vb div 4096 = va div 4096 \<longrightarrow>
            translate s' pdpt vb = Some (f * 4096 + vb mod 4096, has_flag fl PAGE_W, has_flag fl PAGE_X, True)) \<and>
         (\<forall>vb < W32. vb div 4096 \<noteq> va div 4096 \<longrightarrow>
            kernel_view (translate s' pdpt vb) = kernel_view (translate s pdpt vb)) \<and>
         track_inv ps' \<and> psdata ps' = psdata ps \<and> set (tracked ps') = insert va (set (tracked ps)) \<and>
         allocated_pages_size ps' = allocated_pages_size ps + 1 \<and>
         allocated_pages_capacity ps' = allocated_pages_capacity ps \<and> cursor_ok (mfa s'))"
proof -
  have al: "va mod 4096 = 0" using va by simp
  obtain paddr fa where fa: "falloc_one_user (mfa s) = (paddr, fa)" by (cases "falloc_one_user (mfa s)")
  note sp = user_outer_spec [OF c, folded falloc_one_user_def, unfolded fa prod.case]
  let ?s1 = "s\<lparr>mfa := fa\<rparr>"
  have 1: "mm_ok ma heap live ?s1" "tables_ok ?s1 pdpt" "entries_ok ?s1 pdpt" using ok t e by simp_all
  show ?thesis
  proof (cases "paddr = 0")
    case True
    then have "mm_new_user_page va fl ps s = Some (Ret (Inl ENOMEM, ps, ?s1))"
      using al fa by (simp add: mm_new_user_page_def)
    moreover have "\<exists>live'. live \<subseteq>\<^sub>m live' \<and> mm_ok ma heap live' ?s1" using 1(1) map_le_refl by blast
    ultimately show ?thesis using t e by (intro exI [of _ "Inl ENOMEM"] exI [of _ ps] exI [of _ ?s1]) simp
  next
    case False
    then obtain f where f: "paddr = f * FRAMESIZE" "64 \<le> f" "f < 1048576" "frame_free (mfa s) f"
      "\<forall>g. frame_free fa g \<longleftrightarrow> frame_free (mfa s) g \<and> g \<noteq> f" using sp by auto
    have pa: "paddr < W32" "4096 dvd paddr" using f by (simp_all add: FRAMESIZE_def)
    obtain r s2 live2 where 2: "mm_map_page_arch va paddr (fl OR PAGE_USER) ps ?s1 = Some (Ret (r, s2))"
      "tables_ok s2 pdpt" "entries_ok s2 pdpt" "mfa s2 = fa" "live \<subseteq>\<^sub>m live2" "mm_ok ma heap live2 s2"
      and c2: "case r of
         Inl err \<Rightarrow> err = ENOMEM \<and> (\<forall>vb < W32. translate s2 pdpt vb = translate ?s1 pdpt vb)
       | Inr _ \<Rightarrow>
         (\<forall>vb < W32. vb div 4096 = va div 4096 \<longrightarrow> translate s2 pdpt vb =
            Some (paddr + vb mod 4096, has_flag (fl OR PAGE_USER) PAGE_W, has_flag (fl OR PAGE_USER) PAGE_X,
              has_flag (fl OR PAGE_USER) PAGE_USER)) \<and>
         (\<forall>vb < W32. vb div 4096 \<noteq> va div 4096 \<longrightarrow>
            kernel_view (translate s2 pdpt vb) = kernel_view (translate ?s1 pdpt vb)) \<and>
         (\<forall>vb < W32. vb div 2097152 \<noteq> va div 2097152 \<longrightarrow> translate s2 pdpt vb = translate ?s1 pdpt vb)"
      using map_page_arch_ok [OF 1 ps va(1) pa, of "fl OR PAGE_USER"] by auto
    have m: "mm_new_user_page va fl ps s = bind_run (Some (Ret (r, s2))) (\<lambda>(st, s2).
          case st of
            Inl e \<Rightarrow> bind_run (Some (ffree_one paddr (mfa s2))) (\<lambda>fa2.
                       Some (Ret (Inl e, ps, s2\<lparr>mfa := fa2\<rparr>)))
          | Inr _ \<Rightarrow> bind_run (pagingstruct_track_page va ps (mkm s2)) (\<lambda>(st2, ps1, k).
                       case st2 of
                         Inl e \<Rightarrow> Some Panic
                       | Inr _ \<Rightarrow> Some (Ret (Inr (), ps1, s2\<lparr>mkm := k\<rparr>))))"
      using al fa False 2(1) by (simp add: mm_new_user_page_def)
    show ?thesis
    proof (cases r)
      case (Inl err)
      obtain fa2 where "ffree_one paddr fa = Ret fa2"
        using ffree_one_spec [OF pa(1)] pa(2) by (auto simp: FRAMESIZE_def)
      then have "mm_new_user_page va fl ps s = Some (Ret (Inl err, ps, s2\<lparr>mfa := fa2\<rparr>))" using m Inl 2(4) by simp
      moreover have "mm_ok ma heap live2 (s2\<lparr>mfa := fa2\<rparr>)" using 2(6) by simp
      ultimately show ?thesis using Inl c2 2(2,3,5)
        by (intro exI [of _ "Inl err"] exI [of _ ps] exI [of _ "s2\<lparr>mfa := fa2\<rparr>"]) auto
    next
      case (Inr x)
      let ?i = "length (takeWhile (\<lambda>x. x < va) (tracked ps))"
      let ?ps = "ps\<lparr>pages := (shift_up (allocated_pages_size ps) ?i (pages ps))[?i := va],
                     allocated_pages_size := allocated_pages_size ps + 1\<rparr>"
      have "pagingstruct_track_page va ps (mkm s2) = Some (Ret (Inr (), ?ps, mkm s2))"
        using track_in_room [OF tr(1,2)] tr(3) by (simp add: Let_def)
      then have m2: "mm_new_user_page va fl ps s = Some (Ret (Inr (), ?ps, s2\<lparr>mkm := mkm s2\<rparr>))" using m Inr by simp
      have "\<forall>vb < W32. vb div 4096 = va div 4096 \<longrightarrow>
          translate s2 pdpt vb = Some (f * 4096 + vb mod 4096, has_flag fl PAGE_W, has_flag fl PAGE_X, True)"
        using c2 Inr va f(1) al by (simp add: has_flag_user FRAMESIZE_def)
      moreover have "\<forall>vb < W32. vb div 4096 \<noteq> va div 4096 \<longrightarrow>
            kernel_view (translate s2 pdpt vb) = kernel_view (translate s pdpt vb)" using c2 Inr by simp
      ultimately have "\<exists>f. 64 \<le> f \<and> frame_free (mfa s) f \<and>
         (\<forall>g. frame_free (mfa (s2\<lparr>mkm := mkm s2\<rparr>)) g \<longleftrightarrow> frame_free (mfa s) g \<and> g \<noteq> f) \<and>
         (\<forall>vb < W32. vb div 4096 = va div 4096 \<longrightarrow>
            translate (s2\<lparr>mkm := mkm s2\<rparr>) pdpt vb = Some (f * 4096 + vb mod 4096, has_flag fl PAGE_W, has_flag fl PAGE_X, True)) \<and>
         (\<forall>vb < W32. vb div 4096 \<noteq> va div 4096 \<longrightarrow>
            kernel_view (translate (s2\<lparr>mkm := mkm s2\<rparr>) pdpt vb) = kernel_view (translate s pdpt vb)) \<and>
         track_inv ?ps \<and> psdata ?ps = psdata ps \<and> set (tracked ?ps) = insert va (set (tracked ps)) \<and>
         allocated_pages_size ?ps = allocated_pages_size ps + 1 \<and>
         allocated_pages_capacity ?ps = allocated_pages_capacity ps \<and> cursor_ok (mfa (s2\<lparr>mkm := mkm s2\<rparr>))"
        using f 2(4) sp track_insert [OF tr refl refl] by (intro exI [of _ f]) auto
      moreover have "mm_ok ma heap live2 (s2\<lparr>mkm := mkm s2\<rparr>)" using 2(6) by simp
      ultimately show ?thesis using m2 2(2,3,5)
        by (intro exI [of _ "Inr ()"] exI [of _ ?ps] exI [of _ "s2\<lparr>mkm := mkm s2\<rparr>"]) auto
    qed
  qed
qed

section \<open>Releasing an address space\<close>

lemma destroy_frames_ok:
  assumes "tables_ok s pdpt" and ps: "psdata ps = Some pdpt"
    and "\<And>v. v \<in> set vs \<Longrightarrow> v < W32 \<and> walk s pdpt v \<noteq> None"
  shows "\<exists>s'. destroy_frames vs ps s = Ret s' \<and> tables_ok s' pdpt \<and>
    (\<forall>g. 64 \<le> g \<longrightarrow> frame_free (mfa s') g = frame_free (mfa s) g)"
  using assms(1,3)
proof (induction vs arbitrary: s)
  case Nil
  then show ?case by simp
next
  case (Cons v vs)
  have v: "v < W32" and wv: "walk s pdpt v \<noteq> None" using Cons.prems by auto
  let ?I = "pdpte_from_vaddr v" and ?J = "pde_from_vaddr v"
  obtain pt where pt: "pt_at s pdpt ?I ?J = Some pt" using wv by (auto simp: walk_def Let_def split: option.splits)
  let ?p = "pte_at s pdpt ?I ?J (pte_from_vaddr v)"
  let ?p' = "(pte_set_frame_paddr 0 ?p)\<lparr>pte_present := False\<rparr>"
  have z: "pte_frame_paddr ?p' = 0" by (simp add: pte_frame_paddr_def pte_set_frame_paddr_def)
  obtain fa where fa: "ffree_one 0 (mfa s) = Ret fa"
    and fr: "\<forall>g. frame_free fa g \<longleftrightarrow> frame_free (mfa s) g \<or> g = 0 \<or> 0 < (32 :: nat) \<and> g div 64 = 0 \<and> 32 \<le> g mod 64"
    using ffree_one_spec [of 0 "mfa s"] by auto
  let ?s = "s\<lparr>pts := write_obj (pts s) pt (pte_from_vaddr v) ?p', mfa := fa\<rparr>"
  have st: "destroy_frames (v # vs) ps s = destroy_frames vs ps ?s"
    using ps by (simp add: with_data_def pte_from_vaddr_abs_eq [OF Cons.prems(1) v] pt read_pte [OF Cons.prems(1) v pt]
        z fa Let_def)
  note u = pte_update [OF Cons.prems(1) v pt, of ?s ?p']
  have wk: "walk ?s pdpt w \<noteq> None" if "w < W32" "walk s pdpt w \<noteq> None" for w
    using u(2) index_bounds that by (auto simp: walk_def Let_def split: option.splits)
  have "tables_ok ?s pdpt" "\<And>w. w \<in> set vs \<Longrightarrow> w < W32 \<and> walk ?s pdpt w \<noteq> None" using u(1) wk Cons.prems(2) by auto
  then obtain s' where s': "destroy_frames vs ps ?s = Ret s'" "tables_ok s' pdpt"
    "\<forall>g. 64 \<le> g \<longrightarrow> frame_free (mfa s') g = frame_free (mfa ?s) g" using Cons.IH by blast
  have "frame_free (mfa s') g = frame_free (mfa s) g" if "64 \<le> g" for g
    using s'(3) fr that by (auto simp: div_eq_0_iff)
  then show ?case using st s' by auto
qed

section \<open>A concrete address space\<close>

text \<open>
  The heap of \<open>demo_state\<close>, a page directory pointer table at address 64 whose first entry leads to a
  directory at 12288 and a page table at 16384, and a map offset of zero.
\<close>

definition demo_pdpt :: pdpt_t where "demo_pdpt = pdpt_init[0 := pdpte_set_pd_paddr 12288 zero_pdpte]"
definition demo_pd :: pd_t where "demo_pd = pd_init[0 := pde_set_pt_paddr 16384 zero_pde]"

definition demo_ps :: PagingStruct where
  "demo_ps = \<lparr>allocated_pages = None, pages = [0, 0], allocated_pages_size = 0, allocated_pages_capacity = 2,
     psdata = Some 64\<rparr>"

definition demo_fa :: falloc_state where
  "demo_fa = falloc_initial\<lparr>g_pgframes_cnt := 1\<rparr>"

definition demo_mm :: mmstate where
  "demo_mm = \<lparr>mkm = demo_state, mfa = demo_fa, pdpts = [64 \<mapsto> demo_pdpt], pds = [12288 \<mapsto> demo_pd],
     pts = [16384 \<mapsto> pt_init], map_off = 0, cr3 = 64, g_kps = demo_ps\<rparr>"

lemma demo_fields:
  "mkm demo_mm = demo_state" "mfa demo_mm = demo_fa" "pdpts demo_mm = [64 \<mapsto> demo_pdpt]" "pds demo_mm = [12288 \<mapsto> demo_pd]"
  "pts demo_mm = [16384 \<mapsto> pt_init]" "map_off demo_mm = 0" "psdata demo_ps = Some 64"
  "length demo_pdpt = 4" "length demo_pd = 512"
  by (simp_all add: demo_mm_def demo_ps_def demo_pdpt_def demo_pd_def pdpt_init_def)

lemma demo_pd_ptr: "i < 4 \<Longrightarrow> pd_at demo_mm 64 i = (if i = 0 then Some 12288 else None)"
proof -
  have z: "pdpte_pd_vaddr 0 zero_pdpte = None" by (simp add: pdpte_pd_vaddr_def pdpte_pd_paddr_def zero_pdpte_def)
  have n: "pdpte_pd_vaddr 0 (pdpte_set_pd_paddr 12288 zero_pdpte) = Some 12288"
    by (simp add: pdpte_pd_vaddr_def pdpte_pd_paddr_def pdpte_set_pd_paddr_def mm_kpa2va_def add32_def)
  show "i < 4 \<Longrightarrow> pd_at demo_mm 64 i = (if i = 0 then Some 12288 else None)"
    using z n by (simp add: pd_at_def pdpte_at_def demo_fields demo_pdpt_def pdpt_init_def nth_list_update)
qed

lemma demo_pt_ptr: "i < 4 \<Longrightarrow> j < 512 \<Longrightarrow> pt_at demo_mm 64 i j = (if i = 0 \<and> j = 0 then Some 16384 else None)"
proof -
  have n: "pde_pt_vaddr 0 (pde_set_pt_paddr 16384 zero_pde) = Some 16384"
    by (simp add: mm_kpa2va_def add32_def pde_pt_vaddr_def pde_pt_paddr_def pde_set_pt_paddr_def)
  show "i < 4 \<Longrightarrow> j < 512 \<Longrightarrow> pt_at demo_mm 64 i j = (if i = 0 \<and> j = 0 then Some 16384 else None)"
    using n by (simp add: pt_at_def pde_at_def demo_pd_ptr demo_fields) (simp add: demo_pd_def nth_list_update)
qed

lemma demo_tables: "tables_ok demo_mm 64" "entries_ok demo_mm 64"
proof -
  show "tables_ok demo_mm 64" unfolding tables_ok_def
    by (auto simp: demo_pd_ptr demo_pt_ptr demo_fields split: if_splits)
  have "\<not> pte_present (pte_at demo_mm 64 i j k)" if "i < 4" "j < 512" "k < 512" "pt_at demo_mm 64 i j \<noteq> None" for i j k
    using that by (simp add: pte_at_def demo_pt_ptr demo_fields split: if_splits)
  then show "entries_ok demo_mm 64" unfolding entries_ok_def by blast
qed

lemma demo_mm_ok: "mm_ok 16 demo_heap Map.empty demo_mm"
proof -
  have h: "vaddr demo_heap = 4096" by (simp add: demo_heap_def)
  show ?thesis using demo_km_ok by (simp add: mm_ok_def demo_fields demo_heap_end h) 
qed

lemma demo_map_any:
  assumes va: "va < 2097152" "4096 dvd va" and pa: "paddr < W32" "4096 dvd paddr"
  shows "\<exists>s'. mm_map_page va paddr fl demo_ps (demo_mm\<lparr>mfa := f\<rparr>) = Some (Ret (Inr (), s'))"
proof -
  have ix: "pdpte_from_vaddr va = 0" "pde_from_vaddr va = 0" using va by (simp_all add: index_eqs)
  have pd: "pd_at demo_mm 64 0 = Some 12288" and pt: "pt_at demo_mm 64 0 0 = Some 16384"
    by (simp_all add: demo_pd_ptr demo_pt_ptr)
  let ?s = "demo_mm\<lparr>mfa := f\<rparr>"
  have t: "tables_ok ?s 64" "entries_ok ?s 64" using demo_tables by simp_all
  have "va < W32" using va by simp
  then obtain s' where s': "map_entry va paddr fl 64 12288 16384 ?s = Ret s'"
    using map_entry_ok [OF t _ pa, of va 12288 16384 fl] pd pt ix by auto
  have "map_get_pd va 64 ?s = Some (Ret (Some 12288, ?s))"
    using pd by (simp add: map_get_pd_def ix pd_at_def pdpte_at_def demo_fields read_obj_Some)
  moreover have "map_get_pt va 12288 ?s = Some (Ret (Some 16384, ?s))"
    using pt pd by (simp add: map_get_pt_def ix pt_at_def pde_at_def demo_fields read_obj_Some)
  ultimately show ?thesis using s' va pa by (simp add: mm_map_page_def mm_map_page_arch_def demo_fields)
qed

lemma demo_map: "\<exists>s'. mm_map_page 8192 20480 PAGE_W demo_ps demo_mm = Some (Ret (Inr (), s'))"
  using demo_map_any [of 8192 20480 PAGE_W "mfa demo_mm"] by simp

lemma demo_flags: "has_flag PAGE_W PAGE_W" "\<not> has_flag PAGE_W PAGE_X" "\<not> has_flag PAGE_W PAGE_USER"
  "has_flag PAGE_X PAGE_X" "\<not> has_flag PAGE_X PAGE_W" "\<not> has_flag PAGE_X PAGE_USER" "\<not> has_flag PAGE_X PAGE_PRESENT"
  by (simp_all add: has_flag_bit) (simp_all add: PAGE_W_def PAGE_X_def)

lemma demo_mapped:
  "\<exists>s'. mm_map_page 8192 20480 PAGE_W demo_ps demo_mm = Some (Ret (Inr (), s')) \<and> tables_ok s' 64 \<and> entries_ok s' 64 \<and>
     translate s' 64 8192 = Some (20480, True, False, False) \<and> translate s' 64 8200 = Some (20488, True, False, False)"
proof -
  obtain s1 where s1: "mm_map_page 8192 20480 PAGE_W demo_ps demo_mm = Some (Ret (Inr (), s1))" using demo_map by blast
  then have m: "mm_map_page_arch 8192 20480 PAGE_W demo_ps demo_mm = Some (Ret (Inr (), s1))" by (simp add: mm_map_page_def)
  have "(8192 :: nat) < W32" "(20480 :: nat) < W32" "4096 dvd (20480 :: nat)" by simp_all
  note c = map_page_arch_ok [OF demo_mm_ok demo_tables demo_fields(7) this, of PAGE_W, unfolded m]
  then have t: "tables_ok s1 64" "entries_ok s1 64" and tr: "\<forall>vb < W32. vb div 4096 = 8192 div 4096 \<longrightarrow> translate s1 64 vb =
            Some (20480 + vb mod 4096, has_flag PAGE_W PAGE_W, has_flag PAGE_W PAGE_X, has_flag PAGE_W PAGE_USER)" by auto
  from tr [rule_format, of 8200] tr [rule_format, of 8192] demo_flags s1 t show ?thesis by auto
qed

lemma translate_walk:
  assumes "translate s pdpt va = Some (a, w, x, u)" and "4096 dvd va"
  obtains e d p where "walk s pdpt va = Some (e, d, p)" and "pte_frame_paddr p = a"
proof -
  have "add32 (pte_frame_paddr p) 0 = pte_frame_paddr p" for p by (simp add: add32_def pte_frame_paddr_def)
  then show thesis using assms that by (auto simp: translate_def split: option.splits if_splits)
qed

section \<open>Properties\<close>





text \<open>
  Setting permissions. \<open>mm_set_page_flags\<close> on a page with a frame gives all of its addresses exactly
  the rights asked for, keeps the frame, and changes neither frame nor write or execute right of any
  other page; on a page without one it returns \<open>-EINVAL\<close> and changes nothing.
\<close>

theorem mm_set_page_flags_ok:
  assumes "tables_ok s pdpt" and "entries_ok s pdpt" and "psdata ps = Some pdpt" and "va < W32" and "4096 dvd va"
  shows "\<exists>r s'. mm_set_page_flags va fl ps s = Ret (r, s') \<and> tables_ok s' pdpt \<and> entries_ok s' pdpt \<and>
    (case r of
       Inl err \<Rightarrow> err = EINVAL \<and> s' = s \<and>
         (case walk s pdpt va of None \<Rightarrow> True | Some (e, d, p) \<Rightarrow> pte_frame_paddr p = 0)
     | Inr _ \<Rightarrow>
         (\<forall>vb < W32. vb div 4096 = va div 4096 \<longrightarrow> translate s' pdpt vb =
            map_option (\<lambda>(a, w, x, u). (a, has_flag fl PAGE_W, has_flag fl PAGE_X, has_flag fl PAGE_USER))
              (translate s pdpt vb)) \<and>
         (\<forall>vb < W32. vb div 4096 \<noteq> va div 4096 \<longrightarrow>
            kernel_view (translate s' pdpt vb) = kernel_view (translate s pdpt vb)) \<and>
         mkm s' = mkm s \<and> mfa s' = mfa s \<and>
         (has_flag fl PAGE_USER \<longrightarrow> (\<forall>vb < W32. vb div 4096 \<noteq> va div 4096 \<and> user_right (translate s pdpt vb) \<longrightarrow>
            user_right (translate s' pdpt vb))))"
  by (rule set_page_flags_ok [OF assms])

theorem mm_set_page_flags_ok_witness:
  "\<exists>s1 s2. mm_map_page 8192 20480 PAGE_W demo_ps demo_mm = Some (Ret (Inr (), s1)) \<and>
     mm_set_page_flags 8192 PAGE_X demo_ps s1 = Ret (Inr (), s2) \<and>
     translate s1 64 8200 = Some (20488, True, False, False) \<and> translate s2 64 8200 = Some (20488, False, True, False)"
proof -
  obtain s1 where s1: "mm_map_page 8192 20480 PAGE_W demo_ps demo_mm = Some (Ret (Inr (), s1))" "tables_ok s1 64"
    "entries_ok s1 64" "translate s1 64 8192 = Some (20480, True, False, False)"
    "translate s1 64 8200 = Some (20488, True, False, False)" using demo_mapped by blast
  obtain e d p where w: "walk s1 64 8192 = Some (e, d, p)" "pte_frame_paddr p = 20480"
    by (rule translate_walk [OF s1(4)]) simp_all
  have "(8192 :: nat) < W32" "4096 dvd (8192 :: nat)" by simp_all
  from mm_set_page_flags_ok [OF s1(2,3) demo_fields(7) this, of PAGE_X]
  obtain r s2 where s2: "mm_set_page_flags 8192 PAGE_X demo_ps s1 = Ret (r, s2)"
    and c: "case r of Inl err \<Rightarrow> err = EINVAL \<and> s2 = s1 \<and>
         (case walk s1 64 8192 of None \<Rightarrow> True | Some (e, d, p) \<Rightarrow> pte_frame_paddr p = 0)
     | Inr _ \<Rightarrow>
         (\<forall>vb < W32. vb div 4096 = 8192 div 4096 \<longrightarrow> translate s2 64 vb =
            map_option (\<lambda>(a, w, x, u). (a, has_flag PAGE_X PAGE_W, has_flag PAGE_X PAGE_X, has_flag PAGE_X PAGE_USER))
              (translate s1 64 vb)) \<and>
         (\<forall>vb < W32. vb div 4096 \<noteq> 8192 div 4096 \<longrightarrow>
            kernel_view (translate s2 64 vb) = kernel_view (translate s1 64 vb)) \<and>
         mkm s2 = mkm s1 \<and> mfa s2 = mfa s1 \<and>
         (has_flag PAGE_X PAGE_USER \<longrightarrow> (\<forall>vb < W32. vb div 4096 \<noteq> 8192 div 4096 \<and> user_right (translate s1 64 vb) \<longrightarrow>
            user_right (translate s2 64 vb)))" by blast
  have r: "r = Inr ()" using c w by (cases r) auto
  then have tr: "\<forall>vb < W32. vb div 4096 = 8192 div 4096 \<longrightarrow> translate s2 64 vb =
            map_option (\<lambda>(a, w, x, u). (a, has_flag PAGE_X PAGE_W, has_flag PAGE_X PAGE_X, has_flag PAGE_X PAGE_USER))
              (translate s1 64 vb)" using c by simp
  have "translate s2 64 8200 = Some (20488, False, True, False)"
    using tr [rule_format, of 8200] s1(5) demo_flags by simp
  then show ?thesis using s1 s2 r by blast
qed

text \<open>
  Removing permissions grants others. \<open>mm_rm_page_flags\<close> overwrites the four permission bits of the
  page table entry with the complement of its argument, so every right that is not named is given:
  removing the execute permission alone leaves the page writable, accessible from ring 3 and present,
  whatever it was before.
\<close>

theorem mm_rm_page_flags_exact:
  assumes "tables_ok s pdpt" and "psdata ps = Some pdpt" and "va < W32" and "4096 dvd va"
    and "walk s pdpt va = Some (e, d, p)"
  shows "(\<exists>s'. mm_rm_page_flags va fl ps s = Ret (Inr (), s') \<and> tables_ok s' pdpt \<and>
      walk s' pdpt va = Some (e, d, p\<lparr>pte_exec_disable := has_flag fl PAGE_X, pte_writable := \<not> has_flag fl PAGE_W,
        pte_user_access := \<not> has_flag fl PAGE_USER, pte_present := \<not> has_flag fl PAGE_PRESENT\<rparr>)) \<and>
    (\<exists>s' p'. mm_rm_page_flags va PAGE_X ps s = Ret (Inr (), s') \<and> walk s' pdpt va = Some (e, d, p') \<and>
      pte_exec_disable p' \<and> pte_writable p' \<and> pte_user_access p' \<and> pte_present p')"
  using rm_page_flags_walk [OF assms, of fl] rm_page_flags_walk [OF assms, of PAGE_X]
  by (auto simp: demo_flags)

theorem mm_rm_page_flags_exact_witness:
  "\<exists>s' p'. mm_rm_page_flags 8192 PAGE_X demo_ps demo_mm = Ret (Inr (), s') \<and>
     \<not> pte_writable zero_pte \<and> walk demo_mm 64 8192 = Some (pdpte_at demo_mm 64 0, pde_at demo_mm 64 0 0, zero_pte) \<and>
     walk s' 64 8192 = Some (pdpte_at demo_mm 64 0, pde_at demo_mm 64 0 0, p') \<and> pte_writable p' \<and> pte_user_access p'"
proof -
  have w: "walk demo_mm 64 8192 = Some (pdpte_at demo_mm 64 0, pde_at demo_mm 64 0 0, zero_pte)"
    by (simp add: walk_def index_eqs demo_pt_ptr pte_at_def demo_fields)
  have "(8192 :: nat) < W32" "4096 dvd (8192 :: nat)" by simp_all
  from mm_rm_page_flags_exact [OF demo_tables(1) demo_fields(7) this w, of PAGE_X, THEN conjunct2]
  obtain s' p' where "mm_rm_page_flags 8192 PAGE_X demo_ps demo_mm = Ret (Inr (), s')"
    "walk s' 64 8192 = Some (pdpte_at demo_mm 64 0, pde_at demo_mm 64 0 0, p')" "pte_writable p'" "pte_user_access p'" by blast
  moreover have "\<not> pte_writable zero_pte" by (simp add: zero_pte_def)
  ultimately show ?thesis using w by blast
qed

text \<open>
  New user pages. \<open>mm_new_user_page\<close> of an untracked, aligned page, with room in the list of tracked
  pages, returns. On success it has taken exactly one frame, which was free, the page translates to
  that frame with the rights asked for and access from ring 3, the other pages keep their frames and
  their write and execute rights, and the list of tracked pages, which stays strictly ascending, has
  gained the page; on failure no translation has changed.
\<close>

theorem mm_new_user_page_ok:
  assumes "mm_ok ma heap live s" and "tables_ok s pdpt" and "entries_ok s pdpt"
    and "psdata ps = Some pdpt" and "va < W32" and "4096 dvd va" and "cursor_ok (mfa s)"
    and "track_inv ps" and "allocated_pages_size ps < allocated_pages_capacity ps" and "va \<notin> set (tracked ps)"
  shows "\<exists>r ps' s'. mm_new_user_page va fl ps s = Some (Ret (r, ps', s')) \<and> tables_ok s' pdpt \<and> entries_ok s' pdpt \<and>
    (case r of
       Inl err \<Rightarrow> err = ENOMEM \<and> ps' = ps \<and> (\<forall>vb < W32. translate s' pdpt vb = translate s pdpt vb)
     | Inr _ \<Rightarrow> \<exists>f. 64 \<le> f \<and> frame_free (mfa s) f \<and>
         (\<forall>g. frame_free (mfa s') g \<longleftrightarrow> frame_free (mfa s) g \<and> g \<noteq> f) \<and>
         (\<forall>vb < W32. vb div 4096 = va div 4096 \<longrightarrow>
            translate s' pdpt vb = Some (f * 4096 + vb mod 4096, has_flag fl PAGE_W, has_flag fl PAGE_X, True)) \<and>
         (\<forall>vb < W32. vb div 4096 \<noteq> va div 4096 \<longrightarrow>
            kernel_view (translate s' pdpt vb) = kernel_view (translate s pdpt vb)) \<and>
         track_inv ps' \<and> psdata ps' = psdata ps \<and> set (tracked ps') = insert va (set (tracked ps)))"
  proof -
  from new_user_page_full [OF assms] obtain r ps' s' where
    "mm_new_user_page va fl ps s = Some (Ret (r, ps', s'))" "tables_ok s' pdpt" "entries_ok s' pdpt" and c: "case r of
       Inl err \<Rightarrow> err = ENOMEM \<and> ps' = ps \<and> (\<forall>vb < W32. translate s' pdpt vb = translate s pdpt vb)
     | Inr _ \<Rightarrow> \<exists>f. 64 \<le> f \<and> frame_free (mfa s) f \<and>
         (\<forall>g. frame_free (mfa s') g \<longleftrightarrow> frame_free (mfa s) g \<and> g \<noteq> f) \<and>
         (\<forall>vb < W32. vb div 4096 = va div 4096 \<longrightarrow>
            translate s' pdpt vb = Some (f * 4096 + vb mod 4096, has_flag fl PAGE_W, has_flag fl PAGE_X, True)) \<and>
         (\<forall>vb < W32. vb div 4096 \<noteq> va div 4096 \<longrightarrow>
            kernel_view (translate s' pdpt vb) = kernel_view (translate s pdpt vb)) \<and>
         track_inv ps' \<and> psdata ps' = psdata ps \<and> set (tracked ps') = insert va (set (tracked ps)) \<and>
         allocated_pages_size ps' = allocated_pages_size ps + 1 \<and>
         allocated_pages_capacity ps' = allocated_pages_capacity ps \<and> cursor_ok (mfa s')" by blast
  then show ?thesis by (intro exI [of _ r] exI [of _ ps'] exI [of _ s']) (cases r, simp, auto)
qed

theorem mm_new_user_page_ok_witness:
  "\<exists>r ps' s'. mm_new_user_page 8192 PAGE_W demo_ps demo_mm = Some (Ret (r, ps', s')) \<and> tables_ok s' 64"
proof -
  have c: "cursor_ok (mfa demo_mm)"
    by (simp add: demo_fields cursor_ok_def demo_fa_def falloc_initial_def PAGEFRAME_POOL_SIZE_def)
  have t: "track_inv demo_ps" "allocated_pages_size demo_ps < allocated_pages_capacity demo_ps"
    "8192 \<notin> set (tracked demo_ps)" by (simp_all add: track_inv_def tracked_def demo_ps_def)
  have "(8192 :: nat) < W32" "4096 dvd (8192 :: nat)" by simp_all
  from mm_new_user_page_ok [OF demo_mm_ok demo_tables demo_fields(7) this c t, of PAGE_W] show ?thesis by blast
qed

text \<open>
  Released address spaces leak their frames. The loop of \<open>mm_destroy_paging_struct_arch\<close> that should
  give back the frames of the tracked pages clears each entry before it reads the frame address from
  it, so every call of \<open>ffree_one\<close> frees frame 0: no frame from number 64 on, where all frames of user
  pages are, is freed.
\<close>

theorem destroy_frames_leaks:
  assumes "tables_ok s pdpt" and "psdata ps = Some pdpt"
    and "\<And>v. v \<in> set vs \<Longrightarrow> v < W32 \<and> walk s pdpt v \<noteq> None"
  shows "\<exists>s'. destroy_frames vs ps s = Ret s' \<and> tables_ok s' pdpt \<and>
    (\<forall>g. 64 \<le> g \<longrightarrow> frame_free (mfa s') g = frame_free (mfa s) g)"
  by (rule destroy_frames_ok [OF assms])

theorem destroy_frames_leaks_witness:
  "\<exists>s'. destroy_frames [8192, 12288] demo_ps demo_mm = Ret s' \<and>
     (\<forall>g. 64 \<le> g \<longrightarrow> frame_free (mfa s') g = frame_free (mfa demo_mm) g)"
proof -
  have "v < W32 \<and> walk demo_mm 64 v \<noteq> None" if "v \<in> set [8192, 12288]" for v :: nat
    using that by (auto simp: walk_def index_eqs demo_pt_ptr)
  from destroy_frames_leaks [of demo_mm 64 demo_ps "[8192, 12288]", OF demo_tables(1) demo_fields(7) this]
  show ?thesis by blast
qed

text \<open>
  Demand paging of the kernel heap. A fault of ring 0 on an absent page of a registered heap, with
  the page's own physical frame free, is resolved by taking exactly that frame, mapping the page
  writable and not executable at the fixed offset and clearing it, and the faulting instruction is
  resumed; the only other outcome is a panic because no memory is left for a page table. When the frame
  is taken the handler panics.
\<close>

theorem pagefault_kernel_heap:
  assumes ok: "mm_ok ma heap live s" and t: "tables_ok s pdpt" and e: "entries_ok s pdpt"
    and ps: "psdata (g_kps s) = Some pdpt" and fa: "faultaddr < W32" "map_off s \<le> faultaddr"
    and own: "kmalloc_owns_va faultaddr (mkm s)"
  shows "if frame_free (mfa s) ((faultaddr - map_off s) div 4096)
    then pagefault_handle us ue stub faultaddr ip 0 PAGEFAULT_REASON_ABSENT s = Some Panic \<or>
      (\<exists>s'. pagefault_handle us ue stub faultaddr ip 0 PAGEFAULT_REASON_ABSENT s = Some (Ret (ip, s')) \<and>
        translate s' pdpt faultaddr = Some (faultaddr - map_off s, True, False, False) \<and>
        (\<forall>g. frame_free (mfa s') g \<longleftrightarrow> frame_free (mfa s) g \<and> g \<noteq> (faultaddr - map_off s) div 4096) \<and>
        (\<forall>x. x div 4096 = faultaddr div 4096 \<longrightarrow> mem (mkm s') x = 0))
    else pagefault_handle us ue stub faultaddr ip 0 PAGEFAULT_REASON_ABSENT s = Some Panic"
proof -
  let ?a = "faultaddr div 4096 * 4096" and ?off = "map_off s"
  have off: "4096 dvd ?off" using ok by (simp add: mm_ok_def)
  then obtain q where q: "?off = 4096 * q" by blast
  have al: "bytes_align_down64 faultaddr PAGESIZE = ?a"
    using fa bytes_align_down64_props(1) [of 4096 faultaddr] by (simp add: mult.commute)
  have le: "?off \<le> ?a" using fa(2) q by (simp add: less_eq_div_iff_mult_less_eq mult.commute)
  let ?f = "?a - ?off"
  have a: "?a < W32" "4096 dvd ?a" using fa(1) by simp_all
  have fr: "sub32 ?a ?off = ?f" using le a by (simp add: sub32_exact)
  have f: "?f < W32" "4096 dvd ?f" using a off by auto
  let ?n = "faultaddr div 4096" and ?r = "faultaddr mod 4096"
  have qn: "q \<le> ?n" using le q by simp
  have fe: "?f = (?n - q) * 4096" using q by (simp add: diff_mult_distrib)
  have fo: "faultaddr - ?off = ?f + ?r" using le div_mult_mod_eq [of faultaddr 4096] by linarith
  have fd: "(faultaddr - ?off) div 4096 = ?f div 4096" unfolding fo fe by simp
  have fm: "?f mod FRAMESIZE = 0" using f(2) by (simp add: FRAMESIZE_def)
  have h: "pagefault_handle us ue stub faultaddr ip 0 PAGEFAULT_REASON_ABSENT s =
      bind_run (pagefault_handle_absent_kernel_heap faultaddr s) (\<lambda>s1. Some (Ret (ip, s1)))"
    using own by (simp add: pagefault_handle_def pagefault_handle_absent_def)
  obtain r fs where r: "falloc_one_at ?f (mfa s) = Ret (r, fs)"
    and c: "if frame_free (mfa s) (?f div FRAMESIZE)
     then r = Inr () \<and> (\<forall>g. frame_free fs g \<longleftrightarrow> frame_free (mfa s) g \<and> g \<noteq> ?f div FRAMESIZE)
     else r = Inl ENOMEM \<and> fs = mfa s" using falloc_one_at_spec [OF f(1) fm] by blast
  have FZ: "FRAMESIZE = 4096" by (simp add: FRAMESIZE_def)
  show ?thesis
  proof (cases "frame_free (mfa s) (?f div 4096)")
    case False
    then have "r = Inl ENOMEM" using c by (simp add: FZ)
    then have "pagefault_handle_absent_kernel_heap faultaddr s = Some Panic"
      using r by (simp add: pagefault_handle_absent_kernel_heap_def al [simplified] fr)
    then show ?thesis using False h fd by simp
  next
    case True
    then have ri: "r = Inr ()" and fs: "\<forall>g. frame_free fs g \<longleftrightarrow> frame_free (mfa s) g \<and> g \<noteq> ?f div 4096"
      using c by (simp_all add: FZ)
    let ?s1 = "s\<lparr>mfa := fs\<rparr>"
    have 1: "mm_ok ma heap live ?s1" "tables_ok ?s1 pdpt" "entries_ok ?s1 pdpt" using ok t e by simp_all
    obtain r2 s2 where m: "mm_map_page_arch ?a ?f (PAGE_R OR PAGE_W) (g_kps s) ?s1 = Some (Ret (r2, s2))" and "mfa s2 = fs"
      and c2: "case r2 of Inl err \<Rightarrow> err = ENOMEM \<and> (\<forall>vb < W32. translate s2 pdpt vb = translate ?s1 pdpt vb)
       | Inr _ \<Rightarrow>
         (\<forall>vb < W32. vb div 4096 = ?a div 4096 \<longrightarrow> translate s2 pdpt vb =
            Some (?f + vb mod 4096, has_flag (PAGE_R OR PAGE_W) PAGE_W, has_flag (PAGE_R OR PAGE_W) PAGE_X,
              has_flag (PAGE_R OR PAGE_W) PAGE_USER)) \<and>
         (\<forall>vb < W32. vb div 4096 \<noteq> ?a div 4096 \<longrightarrow>
            kernel_view (translate s2 pdpt vb) = kernel_view (translate ?s1 pdpt vb)) \<and>
         (\<forall>vb < W32. vb div 2097152 \<noteq> ?a div 2097152 \<longrightarrow> translate s2 pdpt vb = translate ?s1 pdpt vb)"
      using map_page_arch_ok [OF 1 ps a(1) f, of "PAGE_R OR PAGE_W"] by auto
    have mp: "mm_map_page ?a ?f (PAGE_R OR PAGE_W) (g_kps s) ?s1 = Some (Ret (r2, s2))"
      using m a(2) f(2) by (simp add: mm_map_page_def)
    have fl: "has_flag (PAGE_R OR PAGE_W) PAGE_W" "\<not> has_flag (PAGE_R OR PAGE_W) PAGE_X" "\<not> has_flag (PAGE_R OR PAGE_W) PAGE_USER"
      by (simp_all add: has_flag_bit) (simp_all add: PAGE_W_def PAGE_R_def bit_simps)
    show ?thesis
    proof (cases r2)
      case (Inl err)
      then have "pagefault_handle_absent_kernel_heap faultaddr s = Some Panic"
        using r ri mp by (simp add: pagefault_handle_absent_kernel_heap_def al [simplified] fr)
      then show ?thesis using True h fd by simp
    next
      case (Inr u)
      let ?s3 = "s2\<lparr>mkm := (mkm s2)\<lparr>mem := memset (mem (mkm s2)) ?a 0 4096\<rparr>\<rparr>"
      have k: "pagefault_handle_absent_kernel_heap faultaddr s = Some (Ret ?s3)"
        using r ri mp Inr by (simp add: pagefault_handle_absent_kernel_heap_def al [simplified] fr)
      have "\<forall>vb < W32. vb div 4096 = ?a div 4096 \<longrightarrow> translate s2 pdpt vb = Some (?f + vb mod 4096, True, False, False)"
        using c2 Inr fl by simp
      then have "translate s2 pdpt faultaddr = Some (?f + ?r, True, False, False)" using fa(1) by simp
      moreover have "mem (mkm ?s3) x = 0" if "x div 4096 = faultaddr div 4096" for x
      proof -
        have "x = faultaddr div 4096 * 4096 + x mod 4096" using that div_mult_mod_eq [of x 4096] by simp
        moreover have "x mod 4096 < 4096" by simp
        ultimately have "?a \<le> x" "x < ?a + 4096" by linarith+
        then show ?thesis by (simp add: memset_eq fill_mem_inside)
      qed
      ultimately show ?thesis using True h k fo fd fs \<open>mfa s2 = fs\<close> by simp
    qed
  qed
qed

lemma demo_fault_returns: "pagefault_handle 0 0 0 4100 77 0 PAGEFAULT_REASON_ABSENT demo_mm \<noteq> Some Panic"
proof -
  have own: "kmalloc_owns_va 4100 (mkm demo_mm)"
    by (simp add: kmalloc_owns_va_def demo_fields demo_state_def addr_inside_iff demo_heap_end) (simp add: demo_heap_def)
  have al: "bytes_align_down64 4100 4096 = 4096" by (simp add: bytes_align_down64_def sub64_def)
  have fr: "sub32 4096 0 = 4096" by (simp add: sub32_def)
  have "frame_free demo_fa 1" by (simp add: demo_fa_def falloc_initial_def frame_free_def)
  then obtain fs where fs: "falloc_one_at 4096 demo_fa = Ret (Inr (), fs)"
    using falloc_one_at_spec [of 4096 demo_fa] by (auto simp: FRAMESIZE_def)
  obtain s' where s': "mm_map_page 4096 4096 (PAGE_R OR PAGE_W) demo_ps (demo_mm\<lparr>mfa := fs\<rparr>) = Some (Ret (Inr (), s'))"
    using demo_map_any [of 4096 4096 "PAGE_R OR PAGE_W" fs] by auto
  have k: "g_kps demo_mm = demo_ps" by (simp add: demo_mm_def)
  show ?thesis using own s' fs
    by (simp add: pagefault_handle_def pagefault_handle_absent_def pagefault_handle_absent_kernel_heap_def al fr
        demo_fields k Let_def)
qed

theorem pagefault_kernel_heap_witness:
  "\<exists>s'. pagefault_handle 0 0 0 4100 77 0 PAGEFAULT_REASON_ABSENT demo_mm = Some (Ret (77, s')) \<and>
     translate s' 64 4100 = Some (4100, True, False, False) \<and> \<not> frame_free (mfa s') 1 \<and> mem (mkm s') 5000 = 0"
proof -
  have own: "kmalloc_owns_va 4100 (mkm demo_mm)"
    by (simp add: kmalloc_owns_va_def demo_fields demo_state_def addr_inside_iff demo_heap_end) (simp add: demo_heap_def)
  have k: "psdata (g_kps demo_mm) = Some 64" by (simp add: demo_mm_def demo_ps_def)
  have ff: "frame_free (mfa demo_mm) 1" by (simp add: demo_fields demo_fa_def falloc_initial_def frame_free_def)
  have "(4100 :: nat) < W32" "map_off demo_mm \<le> 4100" by (simp_all add: demo_fields)
  from pagefault_kernel_heap [OF demo_mm_ok demo_tables k this own, of 0 0 0 77] ff demo_fault_returns
  obtain s' where s': "pagefault_handle 0 0 0 4100 77 0 PAGEFAULT_REASON_ABSENT demo_mm = Some (Ret (77, s'))"
    "translate s' 64 4100 = Some (4100, True, False, False)"
    "\<forall>g. frame_free (mfa s') g \<longleftrightarrow> frame_free (mfa demo_mm) g \<and> g \<noteq> 1"
    "\<forall>x. x div 4096 = 1 \<longrightarrow> mem (mkm s') x = 0" by (auto simp: demo_fields)
  then show ?thesis by auto
qed

end
