(* ===== verification/Builtins.thy ===== *)
theory Builtins
  imports Prelude "HOL-Library.Signed_Division"
begin

unbundle bit_operations_syntax

text \<open>
  The compiler support routines for 64-bit division on the 32-bit target
  (\<^verbatim>\<open>drivers/core/builtins\<close>): shift-and-subtract division without branches, and the signed versions
  on top of it. They are proved equal to division and remainder of the library.
\<close>

section \<open>The routines\<close>

text \<open>
  \<open>__builtin_clzll\<close>: the number of leading zero bits. The compiler leaves the result for 0 open; the
  theorems below only use it on numbers other than 0.
\<close>

fun clz_below :: "nat \<Rightarrow> u64 \<Rightarrow> nat" where
  "clz_below 0 x = 0"
| "clz_below (Suc k) x = (if bit x k then 0 else Suc (clz_below k x))"

definition clz :: "u64 \<Rightarrow> nat" where "clz x = clz_below 64 x"

text \<open>\<open>u8 shr = clz(d) - clz(n)\<close>: the difference is an \<open>int\<close> and is truncated to 8 bits.\<close>

definition div_shift :: "u64 \<Rightarrow> u64 \<Rightarrow> nat" where
  "div_shift n d = nat ((int (clz d) - int (clz n)) mod 256)"

text \<open>One iteration of the loop, on the remainder, the shifted dividend and the carry.\<close>

definition udiv_step :: "u64 \<Rightarrow> u64 \<times> u64 \<times> u64 \<Rightarrow> u64 \<times> u64 \<times> u64" where
  "udiv_step d st =
     (let (r, n, carry) = st;
          r1 = push_bit 1 r OR drop_bit 63 n;
          n1 = push_bit 1 n OR carry;
          s = signed_drop_bit 63 (d - r1 - 1);
          carry1 = s AND 1;
          r2 = r1 - (d AND s)
      in (r2, n1, carry1))"

primrec udiv_loop :: "nat \<Rightarrow> u64 \<Rightarrow> u64 \<times> u64 \<times> u64 \<Rightarrow> u64 \<times> u64 \<times> u64" where
  "udiv_loop 0 d st = st"
| "udiv_loop (Suc shr) d st = udiv_loop shr d (udiv_step d st)"

definition udivdi3 :: "u64 \<Rightarrow> u64 \<Rightarrow> u64" where
  "udivdi3 n d =
     (let shr = div_shift n d in
      if shr > 63 then 0
      else if shr = 63 then n
      else let shr1 = shr + 1;
               (r, n1, carry) = udiv_loop shr1 d (drop_bit shr1 n, push_bit (64 - shr1) n, 0)
           in push_bit 1 n1 OR carry)"

definition umoddi3 :: "u64 \<Rightarrow> u64 \<Rightarrow> u64" where
  "umoddi3 n d =
     (let shr = div_shift n d in
      if shr > 63 then n
      else if shr = 63 then 0
      else let shr1 = shr + 1;
               (r, n1, carry) = udiv_loop shr1 d (drop_bit shr1 n, push_bit (64 - shr1) n, 0)
           in r)"

definition divdi3 :: "64 word \<Rightarrow> 64 word \<Rightarrow> 64 word" where
  "divdi3 a b =
     (let s_a = signed_drop_bit 63 a;
          s_b = signed_drop_bit 63 b;
          a_u = (a XOR s_a) + (- s_a);
          b_u = (b XOR s_b) + (- s_b);
          s_a1 = s_a XOR s_b
      in (udivdi3 a_u b_u XOR s_a1) + (- s_a1))"

definition moddi3 :: "64 word \<Rightarrow> 64 word \<Rightarrow> 64 word" where
  "moddi3 a b =
     (let s = signed_drop_bit 63 b;
          b_u = (b XOR s) + (- s);
          s1 = signed_drop_bit 63 a;
          a_u = (a XOR s1) + (- s1);
          res = umoddi3 a_u b_u
      in (res XOR s1) + (- s1))"

section \<open>Leading zeros\<close>

lemma clz_below_le: "clz_below k x \<le> k"
  by (induction k) auto

lemma bit_as_odd: "bit x k \<longleftrightarrow> odd (unat x div 2 ^ k)" for x :: u64
  by (simp add: bit_unsigned_iff flip: bit_iff_odd)

lemma clz_below_bounds:
  "unat x mod 2 ^ k < 2 ^ (k - clz_below k x) \<and>
   (clz_below k x < k \<longrightarrow> 2 ^ (k - clz_below k x - 1) \<le> unat x mod 2 ^ k)"
proof (induction k)
  case 0
  then show ?case by simp
next
  case (Suc k)
  have m: "unat x mod 2 ^ Suc k = unat x mod 2 ^ k + (if bit x k then 2 ^ k else 0)"
    using mod_mult2_eq [of "unat x" "2 ^ k" 2] by (simp add: bit_as_odd odd_iff_mod_2_eq_one mult.commute)
  show ?case
  proof (cases "bit x k")
    case True
    then show ?thesis using m by simp
  next
    case False
    then show ?thesis using m Suc clz_below_le [of k x] by (simp add: Suc_diff_le)
  qed
qed

lemma clz_bounds:
  assumes "x \<noteq> 0"
  shows "clz x < 64" and "unat x < 2 ^ (64 - clz x)" and "2 ^ (63 - clz x) \<le> unat x"
proof -
  have m: "unat x mod 2 ^ 64 = unat x" using unsigned_less [of x, where ?'a = nat] by simp
  have b: "unat x < 2 ^ (64 - clz x)" "clz x < 64 \<longrightarrow> 2 ^ (63 - clz x) \<le> unat x"
    using clz_below_bounds [of x 64] m by (simp_all add: clz_def)
  have "unat x \<noteq> 0" using assms by (simp add: unat_gt_0)
  then show "clz x < 64" using b(1) clz_below_le [of 64 x] by (cases "clz x = 64") (auto simp: clz_def)
  then show "2 ^ (63 - clz x) \<le> unat x" using b by simp
  show "unat x < 2 ^ (64 - clz x)" by (rule b(1))
qed

section \<open>One step\<close>

lemma shl1: "unat (push_bit 1 x :: u64) = 2 * unat x mod 2 ^ 64"
  by (simp add: push_bit_eq_mult unat_word_ariths mult.commute)

lemma or_low:
  fixes x y :: u64
  assumes "unat y < 2"
  shows "unat (push_bit 1 x OR y) = (2 * unat x + unat y) mod 2 ^ 64"
proof -
  have "unat y = unat (0 :: u64) \<or> unat y = unat (1 :: u64)" using assms by (simp add: less_2_cases_iff)
  then have "y = 0 \<or> y = 1" by (simp only: word_unat_eq_iff)
  moreover have "push_bit 1 x OR 1 = push_bit 1 x + 1"
    by (simp add: or_one_eq)
  moreover have "(2 * unat x mod 2 ^ 64 + 1) mod 2 ^ 64 = (2 * unat x + 1) mod 2 ^ 64" by (rule mod_add_left_eq)
  ultimately show ?thesis by (auto simp: shl1 unat_word_ariths mult.commute)
qed

lemma top_bit: "unat (drop_bit 63 x :: u64) = unat x div 2 ^ 63"
  by (simp add: drop_bit_eq_div unat_div_distrib)

text \<open>The sign mask: all ones exactly when the subtraction went below zero.\<close>

lemma sign_mask: "signed_drop_bit 63 (x :: u64) = (if 2 ^ 63 \<le> unat x then - 1 else 0)"
proof -
  have "bit x 63 \<longleftrightarrow> 2 ^ 63 \<le> unat x"
  proof -
    have "unat x div 2 ^ 63 < 2" using unsigned_less [of x, where ?'a = nat] by (simp add: div_less_iff_less_mult)
    then have "odd (unat x div 2 ^ 63) \<longleftrightarrow> 1 \<le> unat x div 2 ^ 63" by (cases "unat x div 2 ^ 63") auto
    also have "\<dots> \<longleftrightarrow> 2 ^ 63 \<le> unat x" by (simp add: less_eq_div_iff_mult_less_eq)
    finally show ?thesis by (simp add: bit_as_odd)
  qed
  moreover have "signed_drop_bit 63 x = (if bit x 63 then - 1 else 0)"
    by (rule bit_word_eqI) (auto simp: bit_signed_drop_bit_iff not_le)
  ultimately show ?thesis by simp
qed

lemma udiv_step_spec:
  assumes st: "udiv_step d (r, n, c) = (r', n', c')" and c: "unat c < 2" and r: "unat r < 2 ^ 63"
    and lt: "2 * unat r + unat n div 2 ^ 63 < unat d \<longrightarrow> unat d - (2 * unat r + unat n div 2 ^ 63) \<le> 2 ^ 63"
    and ge: "unat d \<le> 2 * unat r + unat n div 2 ^ 63 \<longrightarrow> 2 * unat r + unat n div 2 ^ 63 - unat d < 2 ^ 63"
  shows "unat n' = (2 * unat n + unat c) mod 2 ^ 64"
    and "unat c' = (if unat d \<le> 2 * unat r + unat n div 2 ^ 63 then 1 else 0)"
    and "unat r' = 2 * unat r + unat n div 2 ^ 63 - (if unat d \<le> 2 * unat r + unat n div 2 ^ 63 then unat d else 0)"
proof -
  let ?b = "unat n div 2 ^ 63" and ?r1 = "push_bit 1 r OR drop_bit 63 n"
  let ?R = "2 * unat r + ?b" and ?s = "signed_drop_bit 63 (d - ?r1 - 1)"
  have b: "?b < 2" using unsigned_less [of n, where ?'a = nat] by (simp add: div_less_iff_less_mult)
  have R: "?R < 2 ^ 64" using r b by simp
  have r1: "unat ?r1 = ?R" using or_low [of "drop_bit 63 n" r] b R by (simp only: top_bit) simp
  have D: "unat d < 2 ^ 64" using unsigned_less [of d, where ?'a = nat] by simp
  have "unat (d - ?r1 - 1) = (if unat d \<le> ?R then unat d + 2 ^ 64 - ?R - 1 else unat d - ?R - 1)"
    using R by (auto simp only: unat_sub_if' r1) (auto split: if_splits)
  then have m: "2 ^ 63 \<le> unat (d - ?r1 - 1) \<longleftrightarrow> unat d \<le> ?R" using lt ge by (auto split: if_splits)
  have s: "?s = (if unat d \<le> ?R then - 1 else 0)" unfolding sign_mask m ..
  have e: "r' = ?r1 - (d AND ?s)" "n' = push_bit 1 n OR c" "c' = ?s AND 1"
    using st by (auto simp: udiv_step_def Let_def)
  show "unat n' = (2 * unat n + unat c) mod 2 ^ 64" using e(2) or_low [OF c] by simp
  show "unat c' = (if unat d \<le> ?R then 1 else 0)" unfolding e s by simp
  show "unat r' = ?R - (if unat d \<le> ?R then unat d else 0)"
    unfolding e s using r1 by (auto simp: unat_sub word_le_nat_alt)
qed

section \<open>The loop\<close>

text \<open>
  Before an iteration with \<open>k\<close> left, the upper \<open>k\<close> bits of the shifted dividend are the bits \<open>b\<close> still
  to be divided, the lower bits are the quotient bits \<open>q\<close> found so far without the pending carry.
\<close>

lemma split_dividend:
  fixes n b q c :: nat
  assumes n: "n = b * 2 ^ (63 - j) + q" and j: "j \<le> 62" and b: "b < 2 ^ Suc j" and q: "q < 2 ^ (62 - j)" and c: "c < 2"
  shows "n div 2 ^ 63 = b div 2 ^ j"
    and "(2 * n + c) mod 2 ^ 64 = b mod 2 ^ j * 2 ^ (64 - j) + (2 * q + c)"
    and "2 * q + c < 2 ^ (63 - j)"
proof -
  let ?P = "2 ^ (63 - j) :: nat" and ?t = "b div 2 ^ j" and ?l = "b mod 2 ^ j"
  have "63 - j = Suc (62 - j)" "64 - j = Suc (63 - j)" using j by auto
  then have P: "?P = 2 * 2 ^ (62 - j)" "2 ^ (64 - j) = 2 * ?P" by (simp_all only: power_Suc)
  have P2: "2 ^ j * ?P = (2 ^ 63 :: nat)" using j by (simp only: power_add [symmetric]) simp
  show q2: "2 * q + c < ?P" using q c P(1) by linarith
  have t: "?t < 2" using b by (simp add: div_less_iff_less_mult)
  have l: "?l < 2 ^ j" by simp
  define m where "m = ?l * ?P + q"
  have "Suc ?l * ?P \<le> 2 ^ j * ?P" using l by (intro mult_le_mono1 Suc_leI)
  then have m: "m < 2 ^ 63" using P(1) P2 q unfolding m_def by (simp del: power_Suc)
  have "b * ?P = ?t * (2 ^ j * ?P) + ?l * ?P"
    by (metis div_mult_mod_eq distrib_right mult.assoc)
  then have nm: "n = ?t * 2 ^ 63 + m" using n P2 by (simp add: m_def)
  show "n div 2 ^ 63 = ?t" using nm m by simp
  have "2 * n + c = ?t * 2 ^ 64 + (2 * m + c)" using nm by simp
  moreover have "2 * m + c < 2 ^ 64" using m c by simp
  ultimately have "(2 * n + c) mod 2 ^ 64 = 2 * m + c" by (simp only: mod_mult_self3 mod_less)
  also have "2 * m + c = ?l * 2 ^ (64 - j) + (2 * q + c)" by (simp add: m_def P(2) algebra_simps)
  finally show "(2 * n + c) mod 2 ^ 64 = ?l * 2 ^ (64 - j) + (2 * q + c)" .
qed

lemma div_mod_step:
  fixes R b D :: nat
  assumes "0 < D" and "R1 = 2 * R + b div 2 ^ j" and "t = (if D \<le> R1 then 1 else 0)"
  shows "(R * 2 ^ Suc j + b) mod D = ((R1 - t * D) * 2 ^ j + b mod 2 ^ j) mod D"
    and "(R * 2 ^ Suc j + b) div D = t * 2 ^ j + ((R1 - t * D) * 2 ^ j + b mod 2 ^ j) div D"
proof -
  have tD: "t * D \<le> R1" using assms(3) by simp
  have "b = b div 2 ^ j * 2 ^ j + b mod 2 ^ j" by (rule div_mult_mod_eq [symmetric])
  then have "R * 2 ^ Suc j + b = R1 * 2 ^ j + b mod 2 ^ j" unfolding assms(2) by (simp add: algebra_simps)
  also have "R1 * 2 ^ j = (R1 - t * D) * 2 ^ j + t * 2 ^ j * D"
    using tD by (simp add: diff_mult_distrib)
  finally have e: "R * 2 ^ Suc j + b = ((R1 - t * D) * 2 ^ j + b mod 2 ^ j) + t * 2 ^ j * D" by simp
  show "(R * 2 ^ Suc j + b) mod D = ((R1 - t * D) * 2 ^ j + b mod 2 ^ j) mod D" unfolding e by simp
  show "(R * 2 ^ Suc j + b) div D = t * 2 ^ j + ((R1 - t * D) * 2 ^ j + b mod 2 ^ j) div D"
    unfolding e using assms(1) by simp
qed

lemma udiv_loop_spec:
  assumes "udiv_loop k d (r, n, c) = (r', n', c')" and "k \<le> 63" and "unat d \<le> 2 ^ 63 \<or> k \<le> 1 \<and> 2 ^ 63 \<le> 2 * unat r + unat n div 2 ^ 63"
    and "unat r < unat d" and "unat r < 2 ^ 63" and "unat c < 2"
    and "unat n = b * 2 ^ (64 - k) + q" and "b < 2 ^ k" and "q < 2 ^ (63 - k)"
  shows "unat r' = (unat r * 2 ^ k + b) mod unat d \<and>
    2 * unat n' + unat c' = (2 * q + unat c) * 2 ^ k + (unat r * 2 ^ k + b) div unat d \<and> unat n' < 2 ^ 63 \<and> unat c' < 2"
  using assms
proof (induction k arbitrary: r n c b q)
  case 0
  then show ?case by simp
next
  case (Suc j)
  obtain r1 n1 c1 where st: "udiv_step d (r, n, c) = (r1, n1, c1)" by (metis prod_cases3)
  let ?D = "unat d"
  have j: "j \<le> 62" and e: "64 - Suc j = 63 - j" "63 - Suc j = 62 - j" using Suc.prems(2) by auto
  have D: "?D < 2 ^ 64" using unsigned_less [of d, where ?'a = nat] by simp
  note sp = split_dividend [OF Suc.prems(7) [unfolded e] j Suc.prems(8) Suc.prems(9) [unfolded e] Suc.prems(6)]
  let ?R = "2 * unat r + unat n div 2 ^ 63"
  have b2: "unat n div 2 ^ 63 < 2" using unsigned_less [of n, where ?'a = nat] by (simp add: div_less_iff_less_mult)
  have lt: "?R < ?D \<longrightarrow> ?D - ?R \<le> 2 ^ 63" using Suc.prems(3) D by auto
  have ge: "?D \<le> ?R \<longrightarrow> ?R - ?D < 2 ^ 63" using Suc.prems(3,4,5) b2 by auto
  note s = udiv_step_spec [OF st Suc.prems(6,5) lt ge]
  define t where "t = (if ?D \<le> ?R then 1 else 0 :: nat)"
  have c1: "unat c1 = t" and r1: "unat r1 = ?R - t * ?D" and n1: "unat n1 = b mod 2 ^ j * 2 ^ (64 - j) + (2 * q + unat c)"
    using s sp(2) by (simp_all add: t_def)
  have D0: "0 < ?D" using Suc.prems(4) by simp
  have dv: "?R = 2 * unat r + b div 2 ^ j" using sp(1) by simp
  note dm = div_mod_step [OF D0 dv t_def]
  have r1lt: "unat r1 < ?D" using r1 Suc.prems(4) b2 by (auto simp: t_def)
  have tl: "udiv_loop j d (r1, n1, c1) = (r', n', c')" using Suc.prems(1) st by simp
  show ?case
  proof (cases "j = 0")
    case True
    then have f: "r' = r1" "n' = n1" "c' = c1" using tl by auto
    have "unat n1 = 2 * q + unat c" "unat r1 < ?D" using n1 True r1lt by simp_all
    then show ?thesis using f dm r1 c1 sp(3) True r1lt by (auto simp: t_def)
  next
    case False
    then have D63: "?D \<le> 2 ^ 63" using Suc.prems(3) by auto
    then have r163: "unat r1 < 2 ^ 63" using r1lt by simp
    have "unat c1 < 2" "j \<le> 63" "b mod 2 ^ j < 2 ^ j" using c1 j by (auto simp: t_def)
    from Suc.IH [OF tl this(2) disjI1 [OF D63] r1lt r163 this(1) n1 this(3) sp(3)]
    show ?thesis using dm c1 r1 by (auto simp: algebra_simps)
  qed
qed

section \<open>Division\<close>

lemma udiv_both:
  assumes n: "n \<noteq> 0" and d: "d \<noteq> 0"
  shows "unat (udivdi3 n d) = unat n div unat d" and "unat (umoddi3 n d) = unat n mod unat d"
proof -
  let ?N = "unat n" and ?D = "unat d" and ?a = "clz d" and ?b = "clz n"
  note cn = clz_bounds [OF n] and cd = clz_bounds [OF d]
  have "unat (udivdi3 n d) = ?N div ?D \<and> unat (umoddi3 n d) = ?N mod ?D"
  proof (cases "?a < ?b")
    case True
    then have "(int ?a - int ?b) mod 256 = 256 + (int ?a - int ?b)" using cn(1) cd(1)
      by (intro mod_pos_pos_trivial [of "256 + (int ?a - int ?b)" 256, simplified]) auto
    then have s: "div_shift n d > 63" using cn(1) cd(1) True unfolding div_shift_def by linarith
    have "(2 :: nat) ^ (64 - ?b) \<le> 2 ^ (63 - ?a)" using True cn(1) by (intro power_increasing) auto
    then have "?N < ?D" using cn(2) cd(3) by linarith
    then show ?thesis using s by (simp add: udivdi3_def umoddi3_def Let_def)
  next
    case ab: False
    then have s: "div_shift n d = ?a - ?b" using cd(1) by (simp add: div_shift_def)
    show ?thesis
    proof (cases "?a - ?b = 63")
      case True
      then have "?a = 63" using cd(1) by simp
      then have "?D = 1" using cd(2,3) by simp
      then show ?thesis using s True by (simp add: udivdi3_def umoddi3_def Let_def)
    next
      case False
      define k where "k = ?a - ?b + 1"
      have k: "k \<le> 63" "0 < k" "64 - ?b = k + (63 - ?a)" using False ab cd(1) by (auto simp: k_def)
      obtain r' n' c' where l: "udiv_loop k d (drop_bit k n, push_bit (64 - k) n, 0) = (r', n', c')" by (metis prod_cases3)
      have r: "unat (drop_bit k n) = ?N div 2 ^ k" unfolding unsigned_drop_bit_eq using unsigned_less [of n, where ?'a = nat]
        by (simp add: drop_bit_eq_div take_bit_nat_eq_self)
      have "?N * 2 ^ (64 - k) mod 2 ^ 64 = ?N mod 2 ^ k * 2 ^ (64 - k)"
        using mult_mod_left [of ?N "2 ^ k" "2 ^ (64 - k)"] k(1) by (simp add: power_add [symmetric])
      then have m: "unat (push_bit (64 - k) n) = ?N mod 2 ^ k * 2 ^ (64 - k) + 0"
        unfolding unsigned_push_bit_eq by (simp add: push_bit_eq_mult take_bit_eq_mod)
      have rd: "?N div 2 ^ k < 2 ^ (63 - ?a)" using cn(2) by (simp add: div_less_iff_less_mult k(3) power_add mult.commute)
      also have "(2 :: nat) ^ (63 - ?a) \<le> 2 ^ 63" by (intro power_increasing) auto
      finally have r63: "unat (drop_bit k n) < 2 ^ 63" unfolding r .
      have rlt: "unat (drop_bit k n) < ?D" using rd cd(3) unfolding r by linarith
      have cond: "?D \<le> 2 ^ 63 \<or> k \<le> 1 \<and> 2 ^ 63 \<le> 2 * unat (drop_bit k n) + unat (push_bit (64 - k) n) div 2 ^ 63"
      proof (cases "?D \<le> 2 ^ 63")
        case D: False
        have "?a = 0"
        proof (rule ccontr)
          assume "?a \<noteq> 0"
          then have "(2 :: nat) ^ (64 - ?a) \<le> 2 ^ 63" by (intro power_increasing) auto
          then show False using cd(2) D by linarith
        qed
        then have "k = 1" "?b = 0" using ab by (auto simp: k_def)
        then show ?thesis using cn(3) unfolding r m by simp
      qed simp
      have z: "unat (0 :: u64) < 2" "?N mod 2 ^ k < 2 ^ k" "(0 :: nat) < 2 ^ (63 - k)" by simp_all
      from udiv_loop_spec [OF l k(1) cond rlt r63 z(1) m z(2,3)]
      have f: "unat r' = ?N mod ?D" "2 * unat n' + unat c' = ?N div ?D" "unat c' < 2" by (simp_all add: r div_mult_mod_eq)
      have "?N < 2 ^ 64" using unsigned_less [of n, where ?'a = nat] by simp
      then have "?N div ?D < 2 ^ 64" by (rule le_less_trans [OF div_le_dividend])
      then have "unat (push_bit 1 n' OR c') = ?N div ?D" using or_low [OF f(3), of n'] f(2) by simp
      moreover have "\<not> 63 < ?a - ?b" using cd(1) by simp
      ultimately show ?thesis using s False l f(1) unfolding k_def by (simp add: udivdi3_def umoddi3_def Let_def)
    qed
  qed
  then show "unat (udivdi3 n d) = ?N div ?D" "unat (umoddi3 n d) = ?N mod ?D" by auto
qed

lemma neg_mask: "signed_drop_bit 63 x = (if sint x < 0 then - 1 else 0)" for x :: u64
proof -
  have "bit x 63 \<longleftrightarrow> sint x < 0" using bit_last_iff [of x] by simp
  moreover have "signed_drop_bit 63 x = (if bit x 63 then - 1 else 0)"
    by (rule bit_word_eqI) (auto simp: bit_signed_drop_bit_iff not_le)
  ultimately show ?thesis by simp
qed

lemma cond_negate: "(x XOR signed_drop_bit 63 a) + (- signed_drop_bit 63 a) = (if sint a < 0 then - x else x)" for x a :: u64
proof (cases "sint a < 0")
  case True
  have "x XOR - 1 = NOT x" by simp
  moreover have "NOT x + 1 = - x" by (rule minus_eq_not_plus_1 [symmetric])
  ultimately show ?thesis using True unfolding neg_mask by (simp only: if_True minus_minus)
qed (simp add: neg_mask)

lemma abs_word: "unat (if sint a < 0 then - a else a) = nat \<bar>sint a\<bar>" for a :: u64
proof (cases "sint a < 0")
  case True
  have "uint (- a) = uint (word_of_int (- sint a) :: u64)" by simp
  also have "\<dots> = take_bit 64 (- sint a)" by (simp only: uint_word_of_int_eq) simp
  also have "\<dots> = - sint a" using True sint_greater_eq [of a] by (intro take_bit_int_eq_self) simp_all
  finally show ?thesis using True by (simp add: unat_eq_nat_uint)
next
  case False
  have "sint a < 2 ^ 63" using sint_less [of a] by simp
  then have "take_bit 64 (sint a) = sint a" using False by (intro take_bit_int_eq_self) simp_all
  then have "uint a = sint a" using uint_sint [of a] by simp
  then show ?thesis using False by (simp add: unat_eq_nat_uint)
qed

lemma unat_nat_word: "unat x = nat z \<Longrightarrow> 0 \<le> z \<Longrightarrow> x = word_of_int z" for x :: u64
proof -
  assume "unat x = nat z" "0 \<le> z"
  then have "uint x = z" by (metis int_nat_eq uint_nat)
  then show ?thesis by (metis word_of_int_uint)
qed

lemma abs_word_zero: "(if sint a < 0 then - a else a) = 0 \<longleftrightarrow> a = 0" for a :: u64
  by auto

section \<open>Properties\<close>



text \<open>
  Signed division. \<open>__divdi3\<close> and \<open>__moddi3\<close> compute the quotient rounded towards zero and the
  remainder with the sign of the dividend, wrapped to 64 bits (which matters only for the least number
  divided by -1).
\<close>

theorem divdi3_moddi3_correct:
  assumes "a \<noteq> 0" and "b \<noteq> 0"
  shows "divdi3 a b = word_of_int (sint a sdiv sint b) \<and> moddi3 a b = word_of_int (sint a smod sint b)"
proof -
  let ?a = "if sint a < 0 then - a else a" and ?b = "if sint b < 0 then - b else b"
  have snz: "sint a \<noteq> 0" "sint b \<noteq> 0" using assms by (simp_all add: signed_eq_0_iff)
  have nz: "?a \<noteq> 0" "?b \<noteq> 0" using assms abs_word_zero by auto
  have u: "unat (udivdi3 ?a ?b) = nat (\<bar>sint a\<bar> div \<bar>sint b\<bar>)" "unat (umoddi3 ?a ?b) = nat (\<bar>sint a\<bar> mod \<bar>sint b\<bar>)"
    using udiv_both [OF nz] by (simp_all add: abs_word nat_div_distrib nat_mod_distrib del: if_split)
  have w: "udivdi3 ?a ?b = word_of_int (\<bar>sint a\<bar> div \<bar>sint b\<bar>)" "umoddi3 ?a ?b = word_of_int (\<bar>sint a\<bar> mod \<bar>sint b\<bar>)"
  proof -
    have "0 < \<bar>sint b\<bar>" using snz by simp
    then have "0 \<le> \<bar>sint a\<bar> div \<bar>sint b\<bar>" "0 \<le> \<bar>sint a\<bar> mod \<bar>sint b\<bar>"
      by (simp_all add: div_int_pos_iff del: zero_less_abs_iff)
    then show "udivdi3 ?a ?b = word_of_int (\<bar>sint a\<bar> div \<bar>sint b\<bar>)" "umoddi3 ?a ?b = word_of_int (\<bar>sint a\<bar> mod \<bar>sint b\<bar>)"
      using unat_nat_word [OF u(1)] unat_nat_word [OF u(2)] by blast+
  qed
  let ?s = "signed_drop_bit 63 a XOR signed_drop_bit 63 b"
  have s: "(x XOR ?s) + (- ?s) = (if (sint a < 0) = (sint b < 0) then x else - x)" for x :: u64
    using cond_negate [of x a] cond_negate [of x b] by (auto simp: neg_mask)
  have d: "divdi3 a b = (if (sint a < 0) = (sint b < 0) then udivdi3 ?a ?b else - udivdi3 ?a ?b)"
    unfolding divdi3_def Let_def cond_negate s ..
  have m: "moddi3 a b = (if sint a < 0 then - umoddi3 ?a ?b else umoddi3 ?a ?b)"
    unfolding moddi3_def Let_def cond_negate ..
  show ?thesis using snz unfolding d m w signed_divide_int_def signed_modulo_int_def by (auto simp: sgn_if)
qed

theorem divdi3_moddi3_correct_witness:
  "divdi3 (- 7) 2 = - 3 \<and> moddi3 (- 7) 2 = - 1"
  using divdi3_moddi3_correct [of "- 7" 2] by (simp add: signed_divide_int_def signed_modulo_int_def)

end
