(* ===== verification/Stdlib.thy ===== *)
theory Stdlib
  imports KString
begin

text \<open>
  Conversions between numbers and text, \<^verbatim>\<open>kernel/kstdlib/stdlib.c\<close>. Characters are signed
  (\<open>sint\<close> of the byte), \<open>int\<close> and \<open>long\<close> have 32 bits and \<open>long long\<close> has 64. Undefined behaviour (a
  signed overflow, a write behind the end of the local array \<open>tmpbuff\<close>, a division by zero) is the
  outcome \<open>Panic\<close>; a loop over a string without terminator is \<open>None\<close>.
\<close>

section \<open>Absolute values\<close>

definition llabs :: "int \<Rightarrow> int outcome" where
  "llabs n = (if n < 0 then (if n = - (2 ^ 63) then Panic else Ret (- n)) else Ret n)"

text \<open>
  The narrower versions widen their argument, so \<open>llabs\<close> never overflows, and convert the result back,
  which wraps.
\<close>

definition labs :: "int \<Rightarrow> int outcome" where
  "labs n = bind_outcome (llabs n) (\<lambda>r. Ret (sint (word_of_int r :: 32 word)))"

definition abs_int :: "int \<Rightarrow> int outcome" where
  "abs_int n = labs n"

section \<open>Printing\<close>

definition digit_char :: "nat \<Rightarrow> u8" where
  "digit_char tmp = (if tmp < 10 then word_of_nat (tmp + 48) else word_of_nat (tmp + 55))"

text \<open>
  The loop that fills \<open>tmpbuff[21]\<close>, least significant digit first. Every iteration stores a byte, so
  it ends after at most 21 of them.
\<close>

function digits_loop :: "nat \<Rightarrow> nat \<Rightarrow> u8 list \<Rightarrow> u8 list outcome" where
  "digits_loop n base buf =
     (if n = 0 then Ret buf
      else if base = 0 \<or> length buf \<ge> 21 then Panic
      else digits_loop (n div base) base (buf @ [digit_char (n mod base)]))"
  by pat_completeness auto
termination by (relation "measure (\<lambda>(n, base, buf). 21 - length buf)") auto

declare digits_loop.simps [simp del]

text \<open>\<open>while (digits) { str[revstart - digits] = tmpbuff[digits - 1]; --digits; }\<close>\<close>

primrec reverse_into :: "nat \<Rightarrow> memory \<Rightarrow> addr \<Rightarrow> nat \<Rightarrow> u8 list \<Rightarrow> memory" where
  "reverse_into 0 m str revstart buf = m"
| "reverse_into (Suc digits) m str revstart buf =
     reverse_into digits (m(str + (revstart - Suc digits) := buf ! digits)) str revstart buf"

definition ulltoa :: "nat \<Rightarrow> memory \<Rightarrow> addr \<Rightarrow> nat \<Rightarrow> memory outcome" where
  "ulltoa n m str base =
     (if n = 0 then Ret (m(str := 48, str + 1 := 0))
      else bind_outcome (digits_loop n base []) (\<lambda>buf.
        let revstart = length buf;
            m1 = reverse_into (length buf) m str revstart buf
        in Ret (m1(str + revstart := 0))))"

definition ultoa :: "nat \<Rightarrow> memory \<Rightarrow> addr \<Rightarrow> nat \<Rightarrow> memory outcome" where
  "ultoa n m str base = ulltoa n m str base"

definition utoa :: "nat \<Rightarrow> memory \<Rightarrow> addr \<Rightarrow> nat \<Rightarrow> memory outcome" where
  "utoa n m str base = ultoa n m str base"

definition lltoa :: "int \<Rightarrow> memory \<Rightarrow> addr \<Rightarrow> nat \<Rightarrow> memory outcome" where
  "lltoa n m str base =
     (if n = 0 then Ret (m(str := 48, str + 1 := 0))
      else
        bind_outcome
          (if n < 0 then bind_outcome (llabs n) (\<lambda>n1. Ret (n1, 1 :: nat, m(str := 45))) else Ret (n, 0, m))
          (\<lambda>(n1, revstart0, m0).
            bind_outcome (digits_loop (nat n1) base []) (\<lambda>buf.
              let revstart = revstart0 + length buf;
                  m1 = reverse_into (length buf) m0 str revstart buf
              in Ret (m1(str + revstart := 0)))))"

definition ltoa :: "int \<Rightarrow> memory \<Rightarrow> addr \<Rightarrow> nat \<Rightarrow> memory outcome" where
  "ltoa n m str base = lltoa n m str base"

definition itoa :: "int \<Rightarrow> memory \<Rightarrow> addr \<Rightarrow> nat \<Rightarrow> memory outcome" where
  "itoa n m str base = ltoa n m str base"

section \<open>Parsing\<close>

definition isbasedigit :: "int \<Rightarrow> int \<Rightarrow> bool" where
  "isbasedigit c base =
     (if base \<ge> 2 \<and> base \<le> 10 then c \<ge> 48 \<and> c \<le> 48 + base - 1
      else if base \<ge> 11 \<and> base \<le> 32 then
        (c \<ge> 48 \<and> c \<le> 57) \<or> (c \<ge> 65 \<and> c \<le> 65 + base - 11) \<or> (c \<ge> 97 \<and> c \<le> 97 + base - 11)
      else False)"

definition digit_value :: "int \<Rightarrow> int" where
  "digit_value c = (if c \<le> 57 then c - 48 else if c \<ge> 97 \<and> c \<le> 118 then c - 97 + 10 else c - 65 + 10)"

partial_function (option) skip_spaces :: "memory \<Rightarrow> addr \<Rightarrow> addr option" where
  "skip_spaces m str = (if isspace (sint (m str)) then skip_spaces m (str + 1) else Some str)"

text \<open>The digits of an \<open>unsigned long\<close>; the result is \<open>None\<close> inside when the overflow check fires.\<close>

partial_function (option) strtoul_loop :: "memory \<Rightarrow> int \<Rightarrow> addr \<Rightarrow> nat \<Rightarrow> (nat option \<times> addr) option" where
  "strtoul_loop m base str out =
     (let c = sint (m str) in
      if c = 0 then Some (Some out, str)
      else if \<not> isbasedigit c base then Some (Some out, str)
      else let tmp = nat ((int out * base + digit_value c) mod 4294967296) in
        if tmp < out then Some (None, str)
        else strtoul_loop m base (str + 1) tmp)"

text \<open>
  The results are the status, the address stored in \<open>*endptr\<close> and the number stored in \<open>*dst\<close>
  (\<open>None\<close> when nothing is stored).
\<close>

definition strtoul :: "memory \<Rightarrow> addr \<Rightarrow> int \<Rightarrow> (unit result \<times> addr option \<times> nat option) outcome option" where
  "strtoul m str base =
     (if (base < 2 \<and> base \<noteq> 0) \<or> base > 36 then Some (Ret (Inr (), None, None))
      else if base = 0 then Some Panic
      else Option.bind (skip_spaces m str) (\<lambda>str1.
        let neg = sint (m str1) = 45;
            str2 = (if neg then str1 + 1 else str1)
        in if \<not> isbasedigit (sint (m str2)) base then Some (Ret (Inl EINVAL, Some str, None))
           else Option.bind (strtoul_loop m base str2 0) (\<lambda>(r, fin).
             case r of
               None \<Rightarrow> Some (Ret (Inl ERANGE, Some str, Some 4294967295))
             | Some out \<Rightarrow> Some (Ret (Inr (), Some fin, Some (if neg then sub32 0 out else out))))))"

text \<open>The digits of a \<open>long\<close>; a sum outside its range is undefined.\<close>

partial_function (option) strtol_loop :: "memory \<Rightarrow> int \<Rightarrow> addr \<Rightarrow> int \<Rightarrow> (int option \<times> addr) outcome option" where
  "strtol_loop m base str out =
     (let c = sint (m str) in
      if c = 0 then Some (Ret (Some out, str))
      else if \<not> isbasedigit c base then Some (Ret (Some out, str))
      else let tmp = out * base + digit_value c in
        if tmp \<ge> 2147483648 then Some Panic
        else if tmp < out then Some (Ret (None, str))
        else strtol_loop m base (str + 1) tmp)"

definition strtol :: "memory \<Rightarrow> addr \<Rightarrow> int \<Rightarrow> (unit result \<times> addr option \<times> int option) outcome option" where
  "strtol m str base =
     (if (base < 2 \<and> base \<noteq> 0) \<or> base > 36 then Some (Ret (Inr (), None, None))
      else if base = 0 then Some Panic
      else Option.bind (skip_spaces m str) (\<lambda>str1.
        let neg = sint (m str1) = 45;
            str2 = (if neg then str1 + 1 else str1)
        in if \<not> isbasedigit (sint (m str2)) base then Some (Ret (Inl EINVAL, Some str, None))
           else bind_run (strtol_loop m base str2 0) (\<lambda>(r, fin).
             case r of
               None \<Rightarrow> Some (Ret (Inl ERANGE, Some str, Some (if neg then - 2147483648 else 2147483647)))
             | Some out \<Rightarrow> Some (Ret (Inr (), Some fin, Some (if neg then - out else out))))))"

section \<open>The digits of a number\<close>

text \<open>Reference: the digits of a number in a base, least significant first.\<close>

fun digits_of :: "nat \<Rightarrow> nat \<Rightarrow> nat list" where
  "digits_of base n = (if n = 0 \<or> base < 2 then [] else n mod base # digits_of base (n div base))"

declare digits_of.simps [simp del]

fun value_of :: "nat \<Rightarrow> nat list \<Rightarrow> nat" where
  "value_of base [] = 0"
| "value_of base (d # ds) = d + base * value_of base ds"

lemma digits_of_0 [simp]: "digits_of base 0 = []"
  by (simp add: digits_of.simps)

lemma value_digits: "2 \<le> base \<Longrightarrow> value_of base (digits_of base n) = n"
proof (induction base n rule: digits_of.induct)
  case (1 base n)
  then show ?case by (subst digits_of.simps) auto
qed

lemma digits_less: "2 \<le> base \<Longrightarrow> d \<in> set (digits_of base n) \<Longrightarrow> d < base"
proof (induction base n rule: digits_of.induct)
  case (1 base n)
  then show ?case by (subst (asm) (2) digits_of.simps) (auto split: if_splits)
qed

lemma digits_loop_eq:
  assumes "2 \<le> base" and "length buf + length (digits_of base n) \<le> 21"
  shows "digits_loop n base buf = Ret (buf @ map digit_char (digits_of base n))"
  using assms
proof (induction n base buf rule: digits_loop.induct)
  case (1 n base buf)
  show ?case
  proof (cases "n = 0")
    case True
    then show ?thesis by (simp add: digits_loop.simps)
  next
    case False
    have d: "digits_of base n = n mod base # digits_of base (n div base)"
      using False "1.prems"(1) by (subst digits_of.simps) simp
    then have l: "length buf < 21" using "1.prems"(2) by simp
    then have "digits_loop n base buf = digits_loop (n div base) base (buf @ [digit_char (n mod base)])"
      using False "1.prems"(1) by (subst digits_loop.simps) simp
    also have "\<dots> = Ret ((buf @ [digit_char (n mod base)]) @ map digit_char (digits_of base (n div base)))"
      using "1.IH" False l "1.prems" d by simp
    finally show ?thesis using d by simp
  qed
qed

lemma digits_loop_overflow:
  assumes "2 \<le> base" and "21 < length buf + length (digits_of base n)" and "length buf \<le> 21"
  shows "digits_loop n base buf = Panic"
  using assms
proof (induction n base buf rule: digits_loop.induct)
  case (1 n base buf)
  have "n \<noteq> 0" using "1.prems"(2,3) by (intro notI) simp
  then have d: "digits_of base n = n mod base # digits_of base (n div base)"
    using "1.prems"(1) by (subst digits_of.simps) simp
  show ?case
  proof (cases "length buf = 21")
    case True
    then show ?thesis using \<open>n \<noteq> 0\<close> by (subst digits_loop.simps) simp
  next
    case False
    then show ?thesis using "1.IH" "1.prems" d \<open>n \<noteq> 0\<close> by (subst digits_loop.simps) simp
  qed
qed

lemma reverse_into_apply:
  assumes "k \<le> length buf" and "revstart = off + length buf"
  shows "reverse_into k m str revstart buf x =
    (if str + (revstart - k) \<le> x \<and> x < str + revstart then buf ! (str + revstart - 1 - x) else m x)"
  using assms by (induction k arbitrary: m) (auto simp: fun_upd_def)

lemma sint_small: "k < 128 \<Longrightarrow> sint (word_of_nat k :: u8) = int k"
  by (simp add: signed_of_nat signed_take_bit_int_eq_self)

lemma digit_char_sint: "d < 36 \<Longrightarrow> sint (digit_char d) = (if d < 10 then int d + 48 else int d + 55)"
  using sint_small [of "d + 48"] sint_small [of "d + 55"] unfolding digit_char_def
  by (auto simp del: of_nat_add)

lemma digit_char_nonzero: "d < 36 \<Longrightarrow> digit_char d \<noteq> 0"
  using digit_char_sint [of d] by (auto split: if_splits)

lemma isbasedigit_char: "d < base \<Longrightarrow> 2 \<le> base \<Longrightarrow> base \<le> 32 \<Longrightarrow> isbasedigit (sint (digit_char d)) (int base)"
  by (auto simp: digit_char_sint isbasedigit_def)

lemma digit_value_char: "d < 32 \<Longrightarrow> digit_value (sint (digit_char d)) = int d"
  by (auto simp: digit_char_sint digit_value_def)

text \<open>The text of a number: its digits, most significant first, or a single zero.\<close>

definition number_text :: "nat \<Rightarrow> nat \<Rightarrow> u8 list" where
  "number_text base n = (if n = 0 then [48] else map digit_char (rev (digits_of base n)))"

lemma ulltoa_text:
  assumes base: "2 \<le> base" "base \<le> 36" and len: "length (digits_of base n) \<le> 21"
  shows "\<exists>m'. ulltoa n m str base = Ret m' \<and> cstring m' str (number_text base n) \<and>
    (\<forall>x. x < str \<or> str + length (number_text base n) < x \<longrightarrow> m' x = m x)"
proof (cases "n = 0")
  case True
  then show ?thesis by (auto simp: ulltoa_def number_text_def cstring_def)
next
  case False
  let ?buf = "map digit_char (digits_of base n)" and ?k = "length (digits_of base n)"
  let ?m = "(reverse_into ?k m str ?k ?buf)(str + ?k := 0)"
  have u: "ulltoa n m str base = Ret ?m"
    using False digits_loop_eq [of base "[]" n] base len by (simp add: ulltoa_def Let_def)
  have r: "?k \<le> length ?buf" "?k = 0 + length ?buf" by simp_all
  have at: "?m x = (if x = str + ?k then 0
      else if str + (?k - ?k) \<le> x \<and> x < str + ?k then ?buf ! (str + ?k - 1 - x) else m x)" for x
    unfolding fun_upd_apply reverse_into_apply [OF r] ..
  have t: "number_text base n = map digit_char (rev (digits_of base n))" using False by (simp add: number_text_def)
  have "?m (str + i) = number_text base n ! i" if "i < ?k" for i
  proof -
    have "?m (str + i) = ?buf ! (?k - 1 - i)" using that at [of "str + i"] by auto
    then show ?thesis using that by (simp add: t rev_nth)
  qed
  moreover have "0 \<notin> set (number_text base n)"
  proof -
    have "\<And>d. d \<in> set (digits_of base n) \<Longrightarrow> digit_char d \<noteq> 0"
      using digits_less [OF base(1)] digit_char_nonzero base(2) by (meson less_le_trans)
    then show ?thesis unfolding t by force
  qed
  moreover have "length (number_text base n) = ?k" by (simp add: t)
  ultimately show ?thesis using u at by (intro exI [of _ ?m]) (auto simp: cstring_def)
qed

text \<open>Reading digits, most significant first.\<close>

lemma foldl_ge: "2 \<le> base \<Longrightarrow> out \<le> foldl (\<lambda>acc d. acc * base + d) out ds" for out :: nat
proof (induction ds arbitrary: out)
  case (Cons d ds)
  have "out \<le> out * base + d" using Cons.prems by (simp add: trans_le_add1)
  also have "\<dots> \<le> foldl (\<lambda>acc d. acc * base + d) (out * base + d) ds" by (rule Cons.IH [OF Cons.prems])
  finally show ?case by simp
qed simp

lemma foldl_value: "foldl (\<lambda>acc d. acc * base + d) out (rev ds) = out * base ^ length ds + value_of base ds" for out :: nat
  by (induction ds arbitrary: out) (simp_all add: algebra_simps)

lemma strtoul_loop_digits:
  assumes base: "2 \<le> base" "base \<le> 32" and ds: "\<forall>d \<in> set ds. d < base"
    and m: "cstring m str (map digit_char ds)" and v: "foldl (\<lambda>acc d. acc * base + d) out ds < W32"
  shows "strtoul_loop m (int base) str out = Some (Some (foldl (\<lambda>acc d. acc * base + d) out ds), str + length ds)"
  using ds m v
proof (induction ds arbitrary: str out)
  case Nil
  then have "m str = 0" by (simp add: cstring_def)
  then show ?case by (subst strtoul_loop.simps) simp
next
  case (Cons d ds)
  have ms: "m str = digit_char d" using Cons.prems(2) by (auto simp: cstring_def)
  have d: "d < base" "d < 32" using Cons.prems(1) base by auto
  let ?t = "out * base + d"
  have t: "?t < W32" using foldl_ge [OF base(1), of ?t ds] Cons.prems(3) by simp
  have e: "nat ((int out * int base + int d) mod 4294967296) = ?t"
  proof -
    have "int out * int base + int d = int ?t" by simp
    then have "(int out * int base + int d) mod 4294967296 = int (?t mod 4294967296)" by (simp only: zmod_int) simp
    then show ?thesis using t by (simp only: nat_int mod_less)
  qed
  have nz: "sint (digit_char d) \<noteq> 0" using digit_char_sint [of d] d by auto
  have ge: "out \<le> ?t" using base by (simp add: trans_le_add1)
  have tail: "cstring m (str + 1) (map digit_char ds)"
    using Cons.prems(2) unfolding cstring_def by (auto simp: nth_Cons split: nat.splits)
  have "strtoul_loop m (int base) str out = strtoul_loop m (int base) (str + 1) ?t"
    using nz isbasedigit_char [OF d(1) base] e ge by (subst strtoul_loop.simps) (simp add: ms digit_value_char d Let_def)
  also have "\<dots> = Some (Some (foldl (\<lambda>acc d. acc * base + d) ?t ds), str + 1 + length ds)"
    by (rule Cons.IH) (use Cons.prems tail in auto)
  finally show ?case by simp
qed

lemma digits_length_gt: "2 \<le> base \<Longrightarrow> base ^ k \<le> n \<Longrightarrow> k < length (digits_of base n)"
proof (induction k arbitrary: n)
  case 0
  then show ?case by (subst digits_of.simps) simp
next
  case (Suc k)
  have "n \<noteq> 0" using Suc.prems by (metis le_zero_eq not_numeral_le_zero power_not_zero)
  moreover have "base ^ k \<le> n div base" using Suc.prems by (simp add: less_eq_div_iff_mult_less_eq mult.commute)
  ultimately show ?case using Suc by (subst digits_of.simps) simp
qed

lemma digits_length_le: "2 \<le> base \<Longrightarrow> n < base ^ k \<Longrightarrow> length (digits_of base n) \<le> k"
proof (induction k arbitrary: n)
  case (Suc k)
  have "n div base < base ^ k" using Suc.prems by (simp add: div_less_iff_less_mult mult.commute)
  then show ?case using Suc by (subst digits_of.simps) auto
qed simp

lemma strtoul_digits:
  assumes base: "2 \<le> base" "base \<le> 32" and ds: "\<forall>d \<in> set ds. d < base" "ds \<noteq> []"
    and m: "cstring m str (map digit_char ds)" and v: "foldl (\<lambda>acc d. acc * base + d) 0 ds < W32"
  shows "strtoul m str (int base) = Some (Ret (Inr (), Some (str + length ds), Some (foldl (\<lambda>acc d. acc * base + d) 0 ds)))"
proof -
  obtain d ds' where dd: "ds = d # ds'" using ds(2) by (cases ds) auto
  have d: "d < base" "d < 32" using ds dd base by auto
  have ms: "m str = digit_char d" using m dd by (auto simp: cstring_def)
  have sp: "\<not> isspace (sint (digit_char d))" "sint (digit_char d) \<noteq> 45" using digit_char_sint [of d] d by (auto simp: isspace_def)
  have "skip_spaces m str = Some str" using sp by (subst skip_spaces.simps) (simp add: ms)
  then show ?thesis using base sp(2) isbasedigit_char [OF d(1) base] strtoul_loop_digits [OF base ds(1) m v]
    by (simp add: strtoul_def ms)
qed

section \<open>Properties\<close>



text \<open>
  The digit buffer is too small. A number with more than 21 digits in the base (in base 2 every
  number from $2^{21}$ on) makes \<open>ulltoa\<close> write behind the end of its local buffer of 21 bytes.
\<close>

theorem ulltoa_buffer_overflow:
  assumes "2 \<le> base" and "base ^ 21 \<le> n"
  shows "ulltoa n m str base = Panic"
proof -
  have "n \<noteq> 0" using assms by (metis le_zero_eq not_numeral_le_zero power_not_zero)
  moreover have "digits_loop n base [] = Panic"
    using digits_loop_overflow [of base "[]" n] digits_length_gt [OF assms] assms(1) by simp
  ultimately show ?thesis by (simp add: ulltoa_def)
qed

theorem ulltoa_buffer_overflow_witness: "ulltoa 2097152 (\<lambda>_. 0) 100 2 = Panic"
  by (rule ulltoa_buffer_overflow) simp_all

text \<open>
  Overflow is not always noticed. \<open>strtoul\<close> compares the new value with the old one after the
  multiplication has wrapped, so a text that does not fit can be accepted: 5000000000 is read as
  705032704 without an error.
\<close>

theorem strtoul_misses_overflow:
  assumes "cstring m str (map digit_char [5, 0, 0, 0, 0, 0, 0, 0, 0, 0])"
  shows "strtoul m str 10 = Some (Ret (Inr (), Some (str + 10), Some 705032704))"
proof -
  have c: "m (str + i) = digit_char (if i = 0 then 5 else 0)" if "i < 10" for i
  proof -
    have "m (str + i) = map digit_char [5, 0, 0, 0, 0, 0, 0, 0, 0, 0] ! i" using assms that by (intro cstring_nth) auto
    also have "\<dots> = digit_char ([5, 0, 0, 0, 0, 0, 0, 0, 0, 0] ! i)" using that by (intro nth_map) simp
    also have "[5, 0, 0, 0, 0, 0, 0, 0, 0, 0] ! i = (if i = 0 then 5 else 0 :: nat)"
      using that by (auto simp: nth_Cons split: nat.splits)
    finally show ?thesis .
  qed
  have "length (map digit_char [5, 0, 0, 0, 0, 0, 0, 0, 0, 0]) = 10" by simp
  then have z: "m (str + 10) = 0" using cstring_zero [OF assms] by (simp only:)
  have d: "sint (digit_char 0) = 48" "sint (digit_char 5) = 53" by (simp_all add: digit_char_sint)
  note st = strtoul_loop.simps [of m 10]
  have i: "isbasedigit 48 10" "isbasedigit 53 10" "digit_value 48 = 0" "digit_value 53 = 5"
    by (simp_all add: isbasedigit_def digit_value_def)
  have step: "strtoul_loop m 10 (str + i) out = strtoul_loop m 10 (str + (i + 1)) (out * 10)"
    if "0 < i" "i < 10" "out * 10 < W32" for i out
    using that c [of i] i d by (subst st) (simp add: Let_def zmod_int nat_mod_distrib nat_mult_distrib)
  have first: "strtoul_loop m 10 str 0 = strtoul_loop m 10 (str + 1) 5"
    using c [of 0] i d by (subst st) simp
  have last: "strtoul_loop m 10 (str + 9) 500000000 = strtoul_loop m 10 (str + 10) 705032704"
    using c [of 9] i d by (subst st) (simp add: add.commute)
  have e: "strtoul_loop m 10 (str + 10) 705032704 = Some (Some 705032704, str + 10)"
    using z by (subst st) simp
  have "strtoul_loop m 10 str 0 = Some (Some 705032704, str + 10)"
    using first step [of 1 5] step [of 2 50] step [of 3 500] step [of 4 5000] step [of 5 50000] step [of 6 500000]
      step [of 7 5000000] step [of 8 50000000] last e by simp
  moreover have "skip_spaces m str = Some str" using c [of 0] d by (subst skip_spaces.simps) (simp add: isspace_def)
  ultimately show ?thesis using c [of 0] d i by (simp add: strtoul_def)
qed

theorem strtoul_misses_overflow_witness:
  "strtoul (\<lambda>x. if x = 0 then 53 else if x < 10 then 48 else 0) 0 10 = Some (Ret (Inr (), Some 10, Some 705032704))"
proof -
  have "cstring (\<lambda>x. if x = 0 then 53 else if x < 10 then 48 else 0) 0 (map digit_char [5, 0, 0, 0, 0, 0, 0, 0, 0, 0])"
    by (auto simp: cstring_def digit_char_def nth_Cons split: nat.splits)
  from strtoul_misses_overflow [OF this] show ?thesis by simp
qed

end
