(* ===== verification/Sha1.thy ===== *)
theory Sha1
  imports Bitwise
begin

text \<open>
  \<^verbatim>\<open>drivers/crypto/sha1/sha1.c\<close>: the SHA-1 driver. The block buffer is an array of 80 words that the
  code also addresses by byte; it is the list of its 320 bytes, with little-endian word accessors. The
  message behind a pointer is the list of its remaining bytes. The reference definition is RFC 3174,
  over the padded message as a list of bytes.
\<close>

section \<open>The block buffer\<close>

definition ld32 :: "u8 list \<Rightarrow> nat \<Rightarrow> u32" where
  "ld32 b i = ucast (b ! (4 * i)) OR push_bit 8 (ucast (b ! (4 * i + 1)))
     OR push_bit 16 (ucast (b ! (4 * i + 2))) OR push_bit 24 (ucast (b ! (4 * i + 3)))"

definition le_bytes :: "u32 \<Rightarrow> u8 list" where
  "le_bytes w = [ucast w, ucast (drop_bit 8 w), ucast (drop_bit 16 w), ucast (drop_bit 24 w)]"

definition st32 :: "u8 list \<Rightarrow> nat \<Rightarrow> u32 \<Rightarrow> u8 list" where
  "st32 b i w = b[4 * i := ucast w, 4 * i + 1 := ucast (drop_bit 8 w),
     4 * i + 2 := ucast (drop_bit 16 w), 4 * i + 3 := ucast (drop_bit 24 w)]"

text \<open>\<open>memset\<close> and \<open>memcpy\<close> into a buffer, at a byte offset.\<close>

definition put_bytes :: "u8 list \<Rightarrow> nat \<Rightarrow> u8 list \<Rightarrow> u8 list" where
  "put_bytes b off xs = take off b @ xs @ drop (off + length xs) b"

lemma length_le_bytes [simp]: "length (le_bytes w) = 4"
  by (simp add: le_bytes_def)

section \<open>The driver\<close>

definition SHA1_DIGEST_SIZE :: nat where "SHA1_DIGEST_SIZE = 20"

type_synonym sha1_regs = "u32 \<times> u32 \<times> u32 \<times> u32 \<times> u32"

record SHA1Context =
  regs :: sha1_regs
  block_buf :: "u8 list"
  block_size :: size_t
  extra_buf :: "u8 list"
  extra_has :: bool
  msg_buf :: "u8 list"
  msg_initsize :: size_t
  msg_size :: size_t

definition sha1_pad :: "SHA1Context \<Rightarrow> SHA1Context outcome" where
  "sha1_pad ctx =
     assert_outcome (block_size ctx \<le> 64)
      (let n = block_size ctx;
           paddingsize = 64 - n;
           msgbits = word_of_nat (mul32 (msg_initsize ctx) 8) :: u64;
           hi = bw_u32_flip_endianness (ucast (drop_bit 32 msgbits AND 0xFFFFFFFF));
           lo = bw_u32_flip_endianness (ucast (msgbits AND 0xFFFFFFFF))
       in if paddingsize \<ge> 1 \<and> paddingsize \<le> 8 then
            Ret (ctx\<lparr>block_buf := put_bytes ((block_buf ctx)[n := push_bit 7 1]) (n + 1) (replicate (paddingsize - 1) 0),
                     block_size := 64,
                     extra_buf := st32 (st32 (put_bytes (extra_buf ctx) 0 (replicate 48 0)) 14 hi) 15 lo,
                     extra_has := True\<rparr>)
          else
            Ret (ctx\<lparr>block_buf := st32 (st32 ((put_bytes (block_buf ctx) n (replicate paddingsize 0))[n := push_bit 7 1])
                                       14 hi) 15 lo,
                     block_size := 64\<rparr>))"

definition SHA1_PROCESS_BLOCK_SWP :: "u32 \<Rightarrow> u32 \<Rightarrow> nat \<Rightarrow> u8 list \<Rightarrow> sha1_regs \<Rightarrow> sha1_regs" where
  "SHA1_PROCESS_BLOCK_SWP f k t buf r =
     (case r of (a, b, c, d, e) \<Rightarrow>
        (bw_u32_rotl a 5 + f + e + ld32 buf t + k, a, bw_u32_rotl b 30, c, d))"

definition sha1_process_block_1 :: "u8 list \<Rightarrow> sha1_regs \<Rightarrow> sha1_regs" where
  "sha1_process_block_1 buf =
     fold (\<lambda>t r. case r of (a, b, c, d, e) \<Rightarrow>
       SHA1_PROCESS_BLOCK_SWP ((b AND c) OR (NOT b AND d)) 0x5A827999 t buf r) [0..<20]"

definition sha1_process_block_2 :: "u8 list \<Rightarrow> sha1_regs \<Rightarrow> sha1_regs" where
  "sha1_process_block_2 buf =
     fold (\<lambda>t r. case r of (a, b, c, d, e) \<Rightarrow>
       SHA1_PROCESS_BLOCK_SWP (b XOR c XOR d) 0x6ED9EBA1 t buf r) [20..<40]"

definition sha1_process_block_3 :: "u8 list \<Rightarrow> sha1_regs \<Rightarrow> sha1_regs" where
  "sha1_process_block_3 buf =
     fold (\<lambda>t r. case r of (a, b, c, d, e) \<Rightarrow>
       SHA1_PROCESS_BLOCK_SWP ((b AND c) OR (b AND d) OR (c AND d)) 0x8F1BBCDC t buf r) [40..<60]"

definition sha1_process_block_4 :: "u8 list \<Rightarrow> sha1_regs \<Rightarrow> sha1_regs" where
  "sha1_process_block_4 buf =
     fold (\<lambda>t r. case r of (a, b, c, d, e) \<Rightarrow>
       SHA1_PROCESS_BLOCK_SWP (b XOR c XOR d) 0xCA62C1D6 t buf r) [60..<80]"

definition add_regs :: "sha1_regs \<Rightarrow> sha1_regs \<Rightarrow> sha1_regs" where
  "add_regs r s = (case r of (h0, h1, h2, h3, h4) \<Rightarrow> case s of (a, b, c, d, e) \<Rightarrow>
     (h0 + a, h1 + b, h2 + c, h3 + d, h4 + e))"

definition flip_block :: "u8 list \<Rightarrow> u8 list" where
  "flip_block buf = fold (\<lambda>i b. st32 b i (bw_u32_flip_endianness (ld32 b i))) [0..<16] buf"

definition expand_block :: "u8 list \<Rightarrow> u8 list" where
  "expand_block buf =
     fold (\<lambda>i b. st32 b i (bw_u32_rotl (ld32 b (i - 3) XOR ld32 b (i - 8) XOR ld32 b (i - 14) XOR ld32 b (i - 16)) 1))
       [16..<80] buf"

function sha1_process_block :: "SHA1Context \<Rightarrow> SHA1Context outcome" where
  "sha1_process_block ctx =
     (if block_size ctx \<noteq> 64 then Panic
      else
        let buf = expand_block (flip_block (block_buf ctx));
            r = sha1_process_block_4 buf (sha1_process_block_3 buf
                  (sha1_process_block_2 buf (sha1_process_block_1 buf (regs ctx))));
            ctx1 = ctx\<lparr>regs := add_regs (regs ctx) r, block_buf := buf, block_size := 0\<rparr>
        in if extra_has ctx then
             sha1_process_block (ctx1\<lparr>extra_has := False, block_buf := put_bytes buf 0 (take 64 (extra_buf ctx)),
                                      block_size := 64\<rparr>)
           else Ret ctx1)"
  by pat_completeness auto
termination by (relation "measure (\<lambda>ctx. if extra_has ctx then 1 else 0)") (auto simp: Let_def)

declare sha1_process_block.simps [simp del]

definition sha1_create_context :: "u8 list \<Rightarrow> size_t \<Rightarrow> SHA1Context" where
  "sha1_create_context msg msglen =
     \<lparr>regs = (0x67452301, 0xEFCDAB89, 0x98BADCFE, 0x10325476, 0xC3D2E1F0),
      block_buf = replicate 320 0, block_size = 0, extra_buf = replicate 64 0, extra_has = False,
      msg_buf = msg, msg_initsize = msglen, msg_size = msglen\<rparr>"

definition sha1_read_block :: "SHA1Context \<Rightarrow> size_t \<times> SHA1Context" where
  "sha1_read_block ctx =
     (let rd = (if msg_size ctx \<ge> 64 then 64 else msg_size ctx)
      in (rd, ctx\<lparr>block_buf := put_bytes (block_buf ctx) 0 (take rd (msg_buf ctx)), block_size := rd,
                  msg_buf := drop rd (msg_buf ctx), msg_size := msg_size ctx - rd\<rparr>))"

lemma process_block_msg:
  "sha1_process_block ctx = Ret ctx' \<Longrightarrow>
   msg_size ctx' = msg_size ctx \<and> msg_buf ctx' = msg_buf ctx \<and> msg_initsize ctx' = msg_initsize ctx"
proof (induction ctx rule: sha1_process_block.induct)
  case (1 ctx)
  then show ?case
    by (subst (asm) (2) sha1_process_block.simps) (auto simp: Let_def split: if_splits)
qed

function sha1_chew_loop :: "SHA1Context \<Rightarrow> SHA1Context outcome" where
  "sha1_chew_loop ctx =
     (if fst (sha1_read_block ctx) = 64 then
        (case sha1_process_block (snd (sha1_read_block ctx)) of
           Panic \<Rightarrow> Panic
         | Ret ctx1 \<Rightarrow> sha1_chew_loop ctx1)
      else Ret (snd (sha1_read_block ctx)))"
  by pat_completeness auto
termination
  by (relation "measure msg_size")
    (auto simp: sha1_read_block_def Let_def split: if_splits dest!: process_block_msg)

declare sha1_chew_loop.simps [simp del]

definition sha1_chew :: "u8 list \<Rightarrow> size_t \<Rightarrow> (unit result \<times> u8 list) outcome" where
  "sha1_chew buf buflen =
     bind_outcome (sha1_chew_loop (sha1_create_context buf buflen)) (\<lambda>ctx.
     bind_outcome (sha1_pad ctx) (\<lambda>ctx1.
     bind_outcome (sha1_process_block ctx1) (\<lambda>ctx2.
       case regs ctx2 of (h0, h1, h2, h3, h4) \<Rightarrow>
         Ret (Inr (), take SHA1_DIGEST_SIZE (concat (map (\<lambda>h. le_bytes (bw_u32_flip_endianness h)) [h0, h1, h2, h3, h4]))))))"

section \<open>RFC 3174\<close>

definition be32 :: "u8 list \<Rightarrow> u32" where
  "be32 xs = (push_bit 24 (ucast (xs ! 0)) OR push_bit 16 (ucast (xs ! 1)) OR push_bit 8 (ucast (xs ! 2))
     OR ucast (xs ! 3))"

definition be_bytes :: "u32 \<Rightarrow> u8 list" where
  "be_bytes w = [ucast (drop_bit 24 w), ucast (drop_bit 16 w), ucast (drop_bit 8 w), ucast w]"

lemma length_be_bytes [simp]: "length (be_bytes w) = 4"
  by (simp add: be_bytes_def)

text \<open>Section 4: the padded message.\<close>

definition rfc_padding :: "nat \<Rightarrow> u8 list" where
  "rfc_padding n =
     0x80 # replicate ((119 - n mod 64) mod 64) 0 @ be_bytes (word_of_nat (8 * n div 2 ^ 32)) @ be_bytes (word_of_nat (8 * n))"

text \<open>Section 5: the functions and constants; section 6.1: the message schedule and a block.\<close>

definition rfc_f :: "nat \<Rightarrow> u32 \<Rightarrow> u32 \<Rightarrow> u32 \<Rightarrow> u32" where
  "rfc_f t b c d =
     (if t < 20 then (b AND c) OR (NOT b AND d)
      else if t < 40 then b XOR c XOR d
      else if t < 60 then (b AND c) OR (b AND d) OR (c AND d)
      else b XOR c XOR d)"

definition rfc_k :: "nat \<Rightarrow> u32" where
  "rfc_k t = (if t < 20 then 0x5A827999 else if t < 40 then 0x6ED9EBA1 else if t < 60 then 0x8F1BBCDC else 0xCA62C1D6)"

fun rfc_w :: "(nat \<Rightarrow> u32) \<Rightarrow> nat \<Rightarrow> u32" where
  "rfc_w M t = (if t < 16 then M t
     else word_rotl 1 (rfc_w M (t - 3) XOR rfc_w M (t - 8) XOR rfc_w M (t - 14) XOR rfc_w M (t - 16)))"

declare rfc_w.simps [simp del]

definition rfc_round :: "(nat \<Rightarrow> u32) \<Rightarrow> nat \<Rightarrow> sha1_regs \<Rightarrow> sha1_regs" where
  "rfc_round M t r = (case r of (a, b, c, d, e) \<Rightarrow>
     (word_rotl 5 a + rfc_f t b c d + e + rfc_w M t + rfc_k t, a, word_rotl 30 b, c, d))"

definition rfc_block :: "u8 list \<Rightarrow> sha1_regs \<Rightarrow> sha1_regs" where
  "rfc_block blk h = add_regs h (fold (rfc_round (\<lambda>t. be32 (drop (4 * t) blk))) [0..<80] h)"

function rfc_blocks :: "u8 list \<Rightarrow> sha1_regs \<Rightarrow> sha1_regs" where
  "rfc_blocks xs h = (if length xs < 64 then h else rfc_blocks (drop 64 xs) (rfc_block (take 64 xs) h))"
  by pat_completeness auto
termination by (relation "measure (\<lambda>(xs, h). length xs)") auto

declare rfc_blocks.simps [simp del]

definition rfc_sha1 :: "u8 list \<Rightarrow> u8 list" where
  "rfc_sha1 msg =
     (case rfc_blocks (msg @ rfc_padding (length msg)) (0x67452301, 0xEFCDAB89, 0x98BADCFE, 0x10325476, 0xC3D2E1F0) of
        (h0, h1, h2, h3, h4) \<Rightarrow> concat (map be_bytes [h0, h1, h2, h3, h4]))"


section \<open>The buffer and the bytes\<close>

lemma rotl_eq:
  assumes "0 < r" and "r < 32"
  shows "bw_u32_rotl n r = word_rotl r n"
proof (rule bit_word_eqI)
  fix j assume j: "j < LENGTH(32)"
  have "bit (bw_u32_rotl n r) j \<longleftrightarrow> (r \<le> j \<and> bit n (j - r)) \<or> bit n (32 - r + j)"
    using j by (simp only: bw_u32_rotl_def bit_or_iff bit_push_bit_iff bit_drop_bit_eq comp_def) auto
  also have "\<dots> \<longleftrightarrow> bit n ((j + 32 - r) mod 32)"
  proof (cases "r \<le> j")
    case True
    then have "j + 32 - r = (j - r) + 32" by simp
    then have "(j + 32 - r) mod 32 = j - r" using j by (simp only: mod_add_self2) simp
    moreover have "\<not> bit n (32 - r + j)" using True assms by (auto dest: bit_imp_le_length)
    ultimately show ?thesis using True by simp
  next
    case False
    then have "(j + 32 - r) mod 32 = 32 - r + j" using j assms by simp
    then show ?thesis using False by simp
  qed
  finally show "bit (bw_u32_rotl n r) j = bit (word_rotl r n) j"
    using j assms by (simp add: bit_word_rotl_iff)
qed

lemma byte_masks:
  "bit (0xFF :: u32) j \<longleftrightarrow> j < 8" "bit (0xFF00 :: u32) j \<longleftrightarrow> 8 \<le> j \<and> j < 16"
  "bit (0xFF0000 :: u32) j \<longleftrightarrow> 16 \<le> j \<and> j < 24" "bit (0xFF000000 :: u32) j \<longleftrightarrow> 24 \<le> j \<and> j < 32"
proof -
  have m: "(0xFF :: u32) = mask 8" "(0xFF00 :: u32) = push_bit 8 (mask 8)" "(0xFF0000 :: u32) = push_bit 16 (mask 8)"
    "(0xFF000000 :: u32) = push_bit 24 (mask 8)"
    by (simp_all add: mask_eq_exp_minus_1 push_bit_eq_mult)
  show "bit (0xFF :: u32) j \<longleftrightarrow> j < 8" "bit (0xFF00 :: u32) j \<longleftrightarrow> 8 \<le> j \<and> j < 16"
    "bit (0xFF0000 :: u32) j \<longleftrightarrow> 16 \<le> j \<and> j < 24" "bit (0xFF000000 :: u32) j \<longleftrightarrow> 24 \<le> j \<and> j < 32"
    unfolding m by (auto simp: bit_simps)
qed

lemma bit_flip:
  "bit (bw_u32_flip_endianness n) j \<longleftrightarrow>
     j < 8 \<and> bit n (24 + j) \<or> 8 \<le> j \<and> j < 16 \<and> bit n (8 + j) \<or> 16 \<le> j \<and> j < 24 \<and> bit n (j - 8)
     \<or> 24 \<le> j \<and> j < 32 \<and> bit n (j - 24)"
  unfolding bw_u32_flip_endianness_def
  by (simp only: bit_or_iff bit_and_iff bit_push_bit_iff bit_drop_bit_eq comp_def byte_masks) auto

lemma byte_region:
  fixes j :: nat
  obtains "j < 8" | "8 \<le> j" "j < 16" | "16 \<le> j" "j < 24" | "24 \<le> j" "j < 32" | "32 \<le> j"
  by linarith

lemma bit_bytes4:
  "bit (ucast x OR push_bit 8 (ucast y) OR push_bit 16 (ucast z) OR push_bit 24 (ucast u) :: u32) j \<longleftrightarrow>
     j < 8 \<and> bit x j \<or> 8 \<le> j \<and> j < 16 \<and> bit y (j - 8) \<or> 16 \<le> j \<and> j < 24 \<and> bit z (j - 16)
     \<or> 24 \<le> j \<and> j < 32 \<and> bit u (j - 24)"
  for x y z u :: u8
  by (rule byte_region [of j]) (auto simp: bit_simps dest: bit_imp_le_length)

lemma length_st32 [simp]: "length (st32 b i w) = length b"
  by (simp add: st32_def)

lemma ucast_bytes:
  "ucast (ucast w :: u8) OR push_bit 8 (ucast (ucast (drop_bit 8 w) :: u8))
     OR push_bit 16 (ucast (ucast (drop_bit 16 w) :: u8)) OR push_bit 24 (ucast (ucast (drop_bit 24 w) :: u8)) = w" (is "?l = w")
  for w :: u32
proof (rule bit_word_eqI)
  fix j assume "j < LENGTH(32)"
  then show "bit ?l j = bit w j"
    unfolding bit_bytes4 by (cases rule: byte_region [of j]) (simp_all add: bit_simps less_diff_conv2)
qed

lemma ld32_st32_same: "4 * i + 3 < length b \<Longrightarrow> ld32 (st32 b i w) i = w"
  using ucast_bytes [of w] by (simp add: ld32_def st32_def nth_list_update)

lemma ld32_st32_other: "i \<noteq> j \<Longrightarrow> ld32 (st32 b i w) j = ld32 b j"
proof -
  assume "i \<noteq> j"
  then have "4 * i + p \<noteq> 4 * j + q" if "p < 4" "q < 4" for p q using that by linarith
  from this [of 0 0] this [of 0 1] this [of 0 2] this [of 0 3] this [of 1 0] this [of 1 1] this [of 1 2] this [of 1 3]
    this [of 2 0] this [of 2 1] this [of 2 2] this [of 2 3] this [of 3 0] this [of 3 1] this [of 3 2] this [of 3 3]
  show ?thesis by (simp add: ld32_def st32_def)
qed

lemma ld32_st32:
  "4 * i + 3 < length b \<Longrightarrow> ld32 (st32 b i w) j = (if i = j then w else ld32 b j)"
  by (simp add: ld32_st32_same ld32_st32_other)

lemma flip_bytes:
  "bw_u32_flip_endianness (ucast x OR push_bit 8 (ucast y) OR push_bit 16 (ucast z) OR push_bit 24 (ucast u))
     = push_bit 24 (ucast x) OR push_bit 16 (ucast y) OR push_bit 8 (ucast z) OR ucast u"
  for x y z u :: u8
proof -
  have "push_bit 24 (ucast x) OR push_bit 16 (ucast y) OR push_bit 8 (ucast z) OR ucast u
    = (ucast u OR push_bit 8 (ucast z) OR push_bit 16 (ucast y) OR push_bit 24 (ucast x) :: u32)"
    by (simp only: or.commute or.left_commute or.assoc)
  moreover have "bw_u32_flip_endianness (ucast x OR push_bit 8 (ucast y) OR push_bit 16 (ucast z) OR push_bit 24 (ucast u)) =
    (ucast u OR push_bit 8 (ucast z) OR push_bit 16 (ucast y) OR push_bit 24 (ucast x) :: u32)" (is "?l = ?r")
  proof (rule bit_word_eqI)
    fix j :: nat assume "j < LENGTH(32)"
    then show "bit ?l j = bit ?r j"
      unfolding bit_flip bit_bytes4
      by (cases rule: byte_region [of j]) (simp_all add: less_diff_conv2 le_diff_conv2)
  qed
  ultimately show ?thesis by simp
qed

lemma flip_ld32: "4 * i + 3 < length b \<Longrightarrow> bw_u32_flip_endianness (ld32 b i) = be32 (drop (4 * i) b)"
  by (simp add: ld32_def be32_def flip_bytes)

lemma le_bytes_flip: "le_bytes (bw_u32_flip_endianness h) = be_bytes h"
  unfolding le_bytes_def be_bytes_def
  by (simp, intro conjI; rule bit_word_eqI; auto simp: bit_flip bit_simps)

section \<open>One block\<close>

lemma flip_prefix:
  assumes "length b = 320" and "n \<le> 80"
  shows "length (fold (\<lambda>i b. st32 b i (bw_u32_flip_endianness (ld32 b i))) [0..<n] b) = 320 \<and>
    (\<forall>j. ld32 (fold (\<lambda>i b. st32 b i (bw_u32_flip_endianness (ld32 b i))) [0..<n] b) j
       = (if j < n then bw_u32_flip_endianness (ld32 b j) else ld32 b j))"
  using assms(2)
proof (induction n)
  case 0
  then show ?case using assms(1) by simp
next
  case (Suc n)
  then show ?case by (auto simp: ld32_st32 less_Suc_eq)
qed

lemma flip_block_spec:
  assumes "length b = 320"
  shows "length (flip_block b) = 320" and "j < 16 \<Longrightarrow> ld32 (flip_block b) j = be32 (drop (4 * j) (take 64 b))"
proof -
  note f = flip_prefix [OF assms, of 16, folded flip_block_def]
  show "length (flip_block b) = 320" using f by simp
  assume j: "j < 16"
  have "be32 (drop (4 * j) b) = be32 (drop (4 * j) (take 64 b))"
    using j assms by (simp add: be32_def)
  then show "ld32 (flip_block b) j = be32 (drop (4 * j) (take 64 b))"
    using f j assms by (simp add: flip_ld32)
qed

lemma expand_prefix:
  assumes "length b = 320" and M: "\<And>j. j < 16 \<Longrightarrow> ld32 b j = M j" and "16 \<le> n" and "n \<le> 80"
  shows "length (fold (\<lambda>i b. st32 b i (bw_u32_rotl (ld32 b (i - 3) XOR ld32 b (i - 8) XOR ld32 b (i - 14) XOR ld32 b (i - 16)) 1))
       [16..<n] b) = 320 \<and>
    (\<forall>j < n. ld32 (fold (\<lambda>i b. st32 b i (bw_u32_rotl (ld32 b (i - 3) XOR ld32 b (i - 8) XOR ld32 b (i - 14) XOR ld32 b (i - 16)) 1))
       [16..<n] b) j = rfc_w M j)"
  using assms(3,4)
proof (induction n rule: nat_induct_at_least)
  case base
  then show ?case using assms by (simp add: rfc_w.simps)
next
  case (Suc n)
  then show ?case
    by (auto simp: ld32_st32 less_Suc_eq rfc_w.simps [of M n] rotl_eq)
qed

lemma expand_block_spec:
  assumes "length b = 320"
  shows "length (expand_block (flip_block b)) = 320"
    and "t < 80 \<Longrightarrow> ld32 (expand_block (flip_block b)) t = rfc_w (\<lambda>j. be32 (drop (4 * j) (take 64 b))) t"
proof -
  note e = expand_prefix [of "flip_block b" "\<lambda>j. be32 (drop (4 * j) (take 64 b))" 80, folded expand_block_def]
  show "length (expand_block (flip_block b)) = 320"
    and "t < 80 \<Longrightarrow> ld32 (expand_block (flip_block b)) t = rfc_w (\<lambda>j. be32 (drop (4 * j) (take 64 b))) t"
    using e flip_block_spec [OF assms] by auto
qed

lemma rounds_spec:
  assumes "\<And>t. t < 80 \<Longrightarrow> ld32 buf t = rfc_w M t"
  shows "sha1_process_block_4 buf (sha1_process_block_3 buf (sha1_process_block_2 buf (sha1_process_block_1 buf r)))
    = fold (rfc_round M) [0..<80] r"
proof -
  have "[0..<80] = [0..<20] @ [20..<40] @ [40..<60] @ [60..<(80::nat)]"
    using upt_add_eq_append [of 0 20 60] upt_add_eq_append [of 20 40 40] upt_add_eq_append [of 20 40 20]
      upt_add_eq_append [of 20 20 40] upt_add_eq_append [of 40 60 20] by simp
  moreover have "sha1_process_block_1 buf x = fold (rfc_round M) [0..<20] x" for x
    unfolding sha1_process_block_1_def
    by (rule fold_cong) (auto simp: fun_eq_iff SHA1_PROCESS_BLOCK_SWP_def rfc_round_def rfc_f_def rfc_k_def assms rotl_eq)
  moreover have "sha1_process_block_2 buf x = fold (rfc_round M) [20..<40] x" for x
    unfolding sha1_process_block_2_def
    by (rule fold_cong) (auto simp: fun_eq_iff SHA1_PROCESS_BLOCK_SWP_def rfc_round_def rfc_f_def rfc_k_def assms rotl_eq)
  moreover have "sha1_process_block_3 buf x = fold (rfc_round M) [40..<60] x" for x
    unfolding sha1_process_block_3_def
    by (rule fold_cong) (auto simp: fun_eq_iff SHA1_PROCESS_BLOCK_SWP_def rfc_round_def rfc_f_def rfc_k_def assms rotl_eq)
  moreover have "sha1_process_block_4 buf x = fold (rfc_round M) [60..<80] x" for x
    unfolding sha1_process_block_4_def
    by (rule fold_cong) (auto simp: fun_eq_iff SHA1_PROCESS_BLOCK_SWP_def rfc_round_def rfc_f_def rfc_k_def assms rotl_eq)
  ultimately show ?thesis by simp
qed

lemma process_block_once:
  assumes "block_size ctx = 64" and len: "length (block_buf ctx) = 320" and "\<not> extra_has ctx"
  shows "\<exists>buf. length buf = 320 \<and> sha1_process_block ctx
    = Ret (ctx\<lparr>regs := rfc_block (take 64 (block_buf ctx)) (regs ctx), block_buf := buf, block_size := 0\<rparr>)"
proof -
  note r = rounds_spec [OF expand_block_spec(2) [OF len], of "regs ctx"]
  show ?thesis using assms expand_block_spec(1) [OF len]
    by (intro exI [of _ "expand_block (flip_block (block_buf ctx))"], subst sha1_process_block.simps)
      (simp add: Let_def r rfc_block_def)
qed

lemma process_block_extra:
  assumes "block_size ctx = 64" and len: "length (block_buf ctx) = 320" and "extra_has ctx" and ex: "length (extra_buf ctx) = 64"
  shows "\<exists>buf. length buf = 320 \<and> sha1_process_block ctx
    = Ret (ctx\<lparr>regs := rfc_block (extra_buf ctx) (rfc_block (take 64 (block_buf ctx)) (regs ctx)), block_buf := buf,
        block_size := 0, extra_has := False\<rparr>)"
proof -
  note r = rounds_spec [OF expand_block_spec(2) [OF len], of "regs ctx"]
  define buf where "buf = expand_block (flip_block (block_buf ctx))"
  define ctx1 where "ctx1 = ctx\<lparr>regs := rfc_block (take 64 (block_buf ctx)) (regs ctx), extra_has := False,
    block_buf := put_bytes buf 0 (extra_buf ctx), block_size := 64\<rparr>"
  have "sha1_process_block ctx = sha1_process_block ctx1"
    using assms by (subst sha1_process_block.simps) (simp add: Let_def r rfc_block_def buf_def ctx1_def)
  moreover have "length (block_buf ctx1) = 320" "take 64 (block_buf ctx1) = extra_buf ctx"
    using expand_block_spec(1) [OF len] ex by (simp_all add: ctx1_def put_bytes_def buf_def)
  ultimately obtain buf' where "length buf' = 320" "sha1_process_block ctx
    = Ret (ctx1\<lparr>regs := rfc_block (extra_buf ctx) (regs ctx1), block_buf := buf', block_size := 0\<rparr>)"
    using process_block_once [of ctx1] by (auto simp: ctx1_def)
  then show ?thesis by (intro exI [of _ buf']) (cases ctx, simp add: ctx1_def)
qed

section \<open>The whole message\<close>

lemma rfc_blocks_append:
  "rfc_blocks (xs @ ys) h = rfc_blocks (drop (length xs - length xs mod 64) xs @ ys) (rfc_blocks xs h)"
proof (induction xs h rule: rfc_blocks.induct)
  case (1 xs h)
  show ?case
  proof (cases "length xs < 64")
    case True
    then show ?thesis by (simp add: rfc_blocks.simps [of xs])
  next
    case False
    let ?t = "drop 64 xs"
    have m: "length ?t mod 64 = length xs mod 64" using False by (simp add: le_mod_geq)
    have "64 + (length ?t - length ?t mod 64) = length xs - length xs mod 64"
      using False m mod_less_eq_dividend [of "length ?t" 64] by simp
    then have d: "drop (length ?t - length ?t mod 64) ?t = drop (length xs - length xs mod 64) xs"
      by (simp add: add.commute)
    have "rfc_blocks (xs @ ys) h = rfc_blocks (?t @ ys) (rfc_block (take 64 xs) h)"
      using False by (subst rfc_blocks.simps) simp
    also have "\<dots> = rfc_blocks (drop (length ?t - length ?t mod 64) ?t @ ys) (rfc_blocks ?t (rfc_block (take 64 xs) h))"
      using "1.IH" False by blast
    also have "rfc_blocks ?t (rfc_block (take 64 xs) h) = rfc_blocks xs h"
      using False by (subst (2) rfc_blocks.simps) simp
    finally show ?thesis by (simp only: d)
  qed
qed

lemma chew_loop_spec:
  assumes "length (block_buf ctx) = 320" and "length (msg_buf ctx) = msg_size ctx" and "\<not> extra_has ctx"
  shows "\<exists>ctx'. sha1_chew_loop ctx = Ret ctx' \<and> regs ctx' = rfc_blocks (msg_buf ctx) (regs ctx) \<and>
    block_size ctx' = msg_size ctx mod 64 \<and> length (block_buf ctx') = 320 \<and>
    take (msg_size ctx mod 64) (block_buf ctx') = drop (msg_size ctx - msg_size ctx mod 64) (msg_buf ctx) \<and>
    extra_buf ctx' = extra_buf ctx \<and> \<not> extra_has ctx' \<and> msg_initsize ctx' = msg_initsize ctx"
  using assms
proof (induction ctx rule: sha1_chew_loop.induct)
  case (1 ctx)
  let ?n = "msg_size ctx"
  show ?case
  proof (cases "?n \<ge> 64")
    case False
    then show ?thesis using 1(2-)
      by (subst sha1_chew_loop.simps) (simp add: sha1_read_block_def Let_def put_bytes_def rfc_blocks.simps)
  next
    case True
    let ?rd = "snd (sha1_read_block ctx)"
    have rd: "block_size ?rd = 64" "length (block_buf ?rd) = 320" "\<not> extra_has ?rd" "fst (sha1_read_block ctx) = 64"
      "take 64 (block_buf ?rd) = take 64 (msg_buf ctx)" "regs ?rd = regs ctx" "msg_buf ?rd = drop 64 (msg_buf ctx)"
      "msg_size ?rd = ?n - 64" "extra_buf ?rd = extra_buf ctx" "msg_initsize ?rd = msg_initsize ctx"
      using True 1(2-) by (simp_all add: sha1_read_block_def put_bytes_def)
    obtain buf where buf: "length buf = 320" and p: "sha1_process_block ?rd
      = Ret (?rd\<lparr>regs := rfc_block (take 64 (block_buf ?rd)) (regs ?rd), block_buf := buf, block_size := 0\<rparr>)"
      using process_block_once [OF rd(1-3)] by blast
    define c where "c = ?rd\<lparr>regs := rfc_block (take 64 (block_buf ?rd)) (regs ?rd), block_buf := buf, block_size := 0\<rparr>"
    have c: "length (block_buf c) = 320" "length (msg_buf c) = msg_size c" "\<not> extra_has c"
      "regs c = rfc_block (take 64 (msg_buf ctx)) (regs ctx)" "msg_size c = ?n - 64" "msg_buf c = drop 64 (msg_buf ctx)"
      "extra_buf c = extra_buf ctx" "msg_initsize c = msg_initsize ctx"
      using rd buf 1(2-) True by (simp_all add: c_def)
    have IH: "\<exists>ctx'. sha1_chew_loop c = Ret ctx' \<and> regs ctx' = rfc_blocks (msg_buf c) (regs c) \<and>
      block_size ctx' = msg_size c mod 64 \<and> length (block_buf ctx') = 320 \<and>
      take (msg_size c mod 64) (block_buf ctx') = drop (msg_size c - msg_size c mod 64) (msg_buf c) \<and>
      extra_buf ctx' = extra_buf c \<and> \<not> extra_has ctx' \<and> msg_initsize ctx' = msg_initsize c"
      using "1.IH" [OF rd(4) p [folded c_def] c(1-3)] .
    have l: "sha1_chew_loop ctx = sha1_chew_loop c" using rd(4) p by (subst sha1_chew_loop.simps) (simp add: c_def)
    have b: "rfc_blocks (msg_buf ctx) (regs ctx) = rfc_blocks (msg_buf c) (regs c)"
      using True 1(3) c by (subst rfc_blocks.simps) simp
    have m: "(?n - 64) mod 64 = ?n mod 64" using True by (metis le_mod_geq)
    have "64 + (?n - 64 - ?n mod 64) = ?n - ?n mod 64"
      using True m by (metis Nat.add_diff_assoc le_add_diff_inverse mod_less_eq_dividend)
    then show ?thesis using IH unfolding l b by (simp add: c m add.commute)
  qed
qed

lemma st32_tail:
  assumes "64 \<le> length b"
  shows "take 64 (st32 (st32 b 14 hi) 15 lo) = take 56 b @ le_bytes hi @ le_bytes lo"
proof (rule nth_equalityI)
  show "length (take 64 (st32 (st32 b 14 hi) 15 lo)) = length (take 56 b @ le_bytes hi @ le_bytes lo)"
    using assms by (simp add: le_bytes_def)
  fix i assume "i < length (take 64 (st32 (st32 b 14 hi) 15 lo))"
  then have i: "i < 64" using assms by simp
  then consider "i < 56" | "i = 56" | "i = 57" | "i = 58" | "i = 59" | "i = 60" | "i = 61" | "i = 62" | "i = 63"
    by linarith
  then show "take 64 (st32 (st32 b 14 hi) 15 lo) ! i = (take 56 b @ le_bytes hi @ le_bytes lo) ! i"
    using assms by cases (simp_all add: st32_def le_bytes_def nth_append nth_list_update)
qed

text \<open>The bit count, in the \<open>size_t\<close> product and its two halves.\<close>

lemma length_bytes:
  assumes "n < 2 ^ 29"
  shows "le_bytes (bw_u32_flip_endianness (ucast (drop_bit 32 (word_of_nat (mul32 n 8) :: u64) AND 0xFFFFFFFF)))
      = be_bytes (word_of_nat (8 * n div 2 ^ 32))"
    and "le_bytes (bw_u32_flip_endianness (ucast ((word_of_nat (mul32 n 8) :: u64) AND 0xFFFFFFFF)))
      = be_bytes (word_of_nat (8 * n))"
proof -
  have m: "mul32 n 8 = 8 * n" "8 * n div 2 ^ 32 = 0" using assms by (simp_all add: mul32_exact)
  have mask: "(0xFFFFFFFF :: u64) = mask 32" by (simp add: mask_eq_exp_minus_1)
  have u: "unat (word_of_nat (8 * n) :: u64) = 8 * n"
    using assms by (simp only: unsigned_of_nat) (simp add: take_bit_eq_mod)
  have "unat (drop_bit 32 (word_of_nat (8 * n) :: u64)) = 0"
    unfolding unsigned_drop_bit_eq u using assms by (simp add: drop_bit_eq_div take_bit_eq_mod)
  then have z: "drop_bit 32 (word_of_nat (8 * n) :: u64) = 0" by (simp add: unsigned_eq_0_iff)
  show "le_bytes (bw_u32_flip_endianness (ucast (drop_bit 32 (word_of_nat (mul32 n 8) :: u64) AND 0xFFFFFFFF)))
      = be_bytes (word_of_nat (8 * n div 2 ^ 32))"
    unfolding le_bytes_flip m(1) z m(2) by simp
  have "ucast ((word_of_nat k :: u64) AND 0xFFFFFFFF) = (word_of_nat k :: u32)" for k
    unfolding mask by (rule bit_word_eqI) (simp add: bit_simps)
  then show "le_bytes (bw_u32_flip_endianness (ucast ((word_of_nat (mul32 n 8) :: u64) AND 0xFFFFFFFF)))
      = be_bytes (word_of_nat (8 * n))"
    unfolding le_bytes_flip m(1) by (simp only:)
qed

text \<open>After the padding, the one or two last blocks are the rest of the message with the padding of the RFC.\<close>

lemma pad_one_block:
  assumes "block_size ctx < 56" and "length (block_buf ctx) = 320" and n: "msg_initsize ctx < 2 ^ 29"
    and mod: "msg_initsize ctx mod 64 = block_size ctx"
  shows "\<exists>ctx'. sha1_pad ctx = Ret ctx' \<and> block_size ctx' = 64 \<and> length (block_buf ctx') = 320 \<and> regs ctx' = regs ctx \<and>
    extra_has ctx' = extra_has ctx \<and>
    take 64 (block_buf ctx') = take (block_size ctx) (block_buf ctx) @ rfc_padding (msg_initsize ctx)"
proof -
  let ?k = "block_size ctx"
  let ?b = "(put_bytes (block_buf ctx) ?k (replicate (64 - ?k) 0))[?k := push_bit 7 1]"
  have e: "(119 - ?k) mod 64 = 55 - ?k"
  proof -
    have "119 - ?k = (55 - ?k) + 64" using assms(1) by simp
    then show ?thesis using assms(1) by (simp only: mod_add_self2) simp
  qed
  have "take 56 ?b = take ?k (block_buf ctx) @ 0x80 # replicate (55 - ?k) 0"
  proof (rule nth_equalityI)
    show "length (take 56 ?b) = length (take ?k (block_buf ctx) @ 0x80 # replicate (55 - ?k) 0)"
      using assms by (simp add: put_bytes_def)
    fix i assume "i < length (take 56 ?b)"
    then have "i < 56" by simp
    then show "take 56 ?b ! i = (take ?k (block_buf ctx) @ 0x80 # replicate (55 - ?k) 0) ! i"
      using assms by (cases i ?k rule: linorder_cases)
        (simp_all add: put_bytes_def nth_append nth_list_update push_bit_eq_mult nth_Cons' diff_less_mono)
  qed
  moreover have "length ?b = 320" using assms by (simp add: put_bytes_def)
  moreover have "\<not> 64 - ?k \<le> 8" using assms(1) by simp
  ultimately show ?thesis
    using assms length_bytes [OF n] st32_tail [of ?b]
    by (simp add: sha1_pad_def Let_def rfc_padding_def e)
qed

lemma pad_two_blocks:
  assumes "56 \<le> block_size ctx" "block_size ctx < 64" and "length (block_buf ctx) = 320"
    and ex: "extra_buf ctx = replicate 64 0" and n: "msg_initsize ctx < 2 ^ 29"
    and mod: "msg_initsize ctx mod 64 = block_size ctx"
  shows "\<exists>ctx'. sha1_pad ctx = Ret ctx' \<and> block_size ctx' = 64 \<and> length (block_buf ctx') = 320 \<and> regs ctx' = regs ctx \<and>
    extra_has ctx' \<and> length (extra_buf ctx') = 64 \<and>
    take 64 (block_buf ctx') @ extra_buf ctx' = take (block_size ctx) (block_buf ctx) @ rfc_padding (msg_initsize ctx)"
proof -
  let ?k = "block_size ctx"
  let ?b = "put_bytes ((block_buf ctx)[?k := push_bit 7 1]) (?k + 1) (replicate (63 - ?k) 0)"
  let ?x = "put_bytes (replicate 64 0) 0 (replicate 48 0) :: u8 list"
  have e: "(119 - ?k) mod 64 = (63 - ?k) + 56" using assms(1,2) by simp
  have r: "replicate ((63 - ?k) + 56) 0 = replicate (63 - ?k) 0 @ replicate 56 (0 :: u8)" by (rule replicate_add)
  have b: "take 64 ?b = take ?k (block_buf ctx) @ 0x80 # replicate (63 - ?k) 0"
  proof (rule nth_equalityI)
    show "length (take 64 ?b) = length (take ?k (block_buf ctx) @ 0x80 # replicate (63 - ?k) 0)"
      using assms by (simp add: put_bytes_def)
    fix i assume "i < length (take 64 ?b)"
    then have "i < 64" by simp
    then show "take 64 ?b ! i = (take ?k (block_buf ctx) @ 0x80 # replicate (63 - ?k) 0) ! i"
      using assms by (cases i ?k rule: linorder_cases)
        (simp_all add: put_bytes_def nth_append nth_list_update push_bit_eq_mult nth_Cons' diff_less_mono)
  qed
  have x: "?x = replicate 64 0" by (simp add: put_bytes_def flip: replicate_add)
  have t: "st32 (st32 ?x 14 hi) 15 lo = replicate 56 0 @ le_bytes hi @ le_bytes lo" for hi lo
    using st32_tail [of ?x hi lo] by (simp add: x)
  have "length ?b = 320" using assms by (simp add: put_bytes_def)
  moreover have "1 \<le> 64 - ?k" "64 - ?k \<le> 8" using assms(1,2) by simp_all
  ultimately show ?thesis
    using assms(2,3) length_bytes [OF n] b mod
    by (simp add: sha1_pad_def Let_def rfc_padding_def e r t ex del: add_diff_assoc2 diff_add_assoc2)
qed

lemma rfc_blocks_one: "length xs = 64 \<Longrightarrow> rfc_blocks xs h = rfc_block xs h"
  by (simp add: rfc_blocks.simps [of xs] rfc_blocks.simps [of "[]"])

lemma rfc_blocks_two:
  "length xs = 64 \<Longrightarrow> length ys = 64 \<Longrightarrow> rfc_blocks (xs @ ys) h = rfc_block ys (rfc_block xs h)"
  by (simp add: rfc_blocks.simps [of "xs @ ys"] rfc_blocks_one)

lemma sha1_chew_correct:
  assumes "length msg < 2 ^ 29"
  shows "sha1_chew msg (length msg) = Ret (Inr (), rfc_sha1 msg)"
proof -
  let ?h = "(0x67452301, 0xEFCDAB89, 0x98BADCFE, 0x10325476, 0xC3D2E1F0) :: sha1_regs"
  let ?n = "length msg" and ?c = "sha1_create_context msg (length msg)"
  let ?q = "?n - ?n mod 64"
  obtain c1 where c1: "sha1_chew_loop ?c = Ret c1" "regs c1 = rfc_blocks msg ?h" "block_size c1 = ?n mod 64"
    "length (block_buf c1) = 320" "take (?n mod 64) (block_buf c1) = drop ?q msg" "extra_buf c1 = replicate 64 0"
    "\<not> extra_has c1" "msg_initsize c1 = ?n"
    using chew_loop_spec [of ?c] by (auto simp: sha1_create_context_def)
  have rest: "rfc_blocks (msg @ rfc_padding ?n) ?h = rfc_blocks (drop ?q msg @ rfc_padding ?n) (regs c1)"
    using rfc_blocks_append [of msg] c1(2) by simp
  have "\<exists>c2 c3. sha1_pad c1 = Ret c2 \<and> sha1_process_block c2 = Ret c3 \<and> regs c3 = rfc_blocks (msg @ rfc_padding ?n) ?h"
  proof (cases "?n mod 64 < 56")
    case True
    then obtain c2 where c2: "sha1_pad c1 = Ret c2" "block_size c2 = 64" "length (block_buf c2) = 320" "regs c2 = regs c1"
      "\<not> extra_has c2" "take 64 (block_buf c2) = drop ?q msg @ rfc_padding ?n"
      using pad_one_block [of c1] c1 assms by auto
    moreover have "length (take 64 (block_buf c2)) = 64" using c2(3) by simp
    ultimately show ?thesis
      using process_block_once [of c2] rest rfc_blocks_one [of "take 64 (block_buf c2)"] by auto
  next
    case False
    then obtain c2 where c2: "sha1_pad c1 = Ret c2" "block_size c2 = 64" "length (block_buf c2) = 320" "regs c2 = regs c1"
      "extra_has c2" "length (extra_buf c2) = 64" "take 64 (block_buf c2) @ extra_buf c2 = drop ?q msg @ rfc_padding ?n"
      using pad_two_blocks [of c1] c1 assms by auto
    moreover have "length (take 64 (block_buf c2)) = 64" using c2(3) by simp
    ultimately show ?thesis
      using process_block_extra [of c2] rest rfc_blocks_two [of "take 64 (block_buf c2)" "extra_buf c2"] by auto
  qed
  then obtain c2 c3 where "sha1_pad c1 = Ret c2" "sha1_process_block c2 = Ret c3"
    "regs c3 = rfc_blocks (msg @ rfc_padding ?n) ?h" by blast
  then show ?thesis
    using c1(1) by (simp add: sha1_chew_def rfc_sha1_def le_bytes_flip SHA1_DIGEST_SIZE_def split: prod.splits)
qed

section \<open>Properties\<close>

text \<open>
  C9: the SHA-1 driver implements RFC 3174. For every message shorter than $2^{29}$ bytes (where the
  bit count fits the \<open>size_t\<close> product of the code) \<open>sha1_chew\<close> returns 0 and stores the digest of the RFC.
\<close>
theorem sha1_chew_rfc3174:
  assumes "length msg < 2 ^ 29"
  shows "sha1_chew msg (length msg) = Ret (Inr (), rfc_sha1 msg)"
  by (rule sha1_chew_correct [OF assms])

theorem sha1_chew_rfc3174_witness:
  "sha1_chew [0x61, 0x62, 0x63] 3 = Ret (Inr (), rfc_sha1 [0x61, 0x62, 0x63])"
  using sha1_chew_rfc3174 [of "[0x61, 0x62, 0x63]"] by (simp add: numeral_3_eq_3)

end
