(* ===== verification/Hashing.thy ===== *)
theory Hashing
  imports Kmalloc Sha1
begin

text \<open>
  \<^verbatim>\<open>kernel/crypto/hashing.c\<close>: the registry of hashing functions, a dynamic array of
  \<open>HashingFunction\<close> records on the kernel heap. \<open>g_hash_funcs\<close> is the address of the array and
  \<open>hash_funcs\<close> its contents, whose length is \<open>g_hash_func_count\<close>. A pointer to an element is the
  address of the array with an index; following it after the array has moved is a fault.
\<close>

section \<open>State\<close>

record HashingFunction =
  hname :: string
  digest_size :: size_t
  chew :: "u8 list \<Rightarrow> size_t \<Rightarrow> (unit result \<times> u8 list) outcome"
  security_priority :: nat
  speed_priority :: nat
  refcount :: nat

record hstate =
  hkm :: kmstate
  g_hash_funcs :: "addr option"
  hash_funcs :: "HashingFunction list"

type_synonym hf_ptr = "addr \<times> nat"

text \<open>\<open>sizeof(HashingFunction)\<close>: six words.\<close>

definition hashfunc_size :: nat where "hashfunc_size = 24"

definition blank_hashfunc :: HashingFunction where
  "blank_hashfunc = \<lparr>hname = [], digest_size = 0, chew = (\<lambda>_ _. Panic), security_priority = 0,
     speed_priority = 0, refcount = 0\<rparr>"

definition hf_deref :: "hf_ptr \<Rightarrow> hstate \<Rightarrow> HashingFunction outcome" where
  "hf_deref p s =
     (if g_hash_funcs s = Some (fst p) \<and> snd p < length (hash_funcs s) then Ret (hash_funcs s ! snd p) else Panic)"

definition hf_store :: "hf_ptr \<Rightarrow> HashingFunction \<Rightarrow> hstate \<Rightarrow> hstate outcome" where
  "hf_store p f s =
     (if g_hash_funcs s = Some (fst p) \<and> snd p < length (hash_funcs s)
      then Ret (s\<lparr>hash_funcs := (hash_funcs s)[snd p := f]\<rparr>) else Panic)"

text \<open>
  \<open>for (e = &xs[i]; e < xs + count - 1; ++e) *e = *(e + 1)\<close>, the removal of an array element that this
  module and the hash table share.
\<close>

function shift_down :: "nat \<Rightarrow> 'a list \<Rightarrow> 'a list" where
  "shift_down i xs = (if i < length xs - 1 then shift_down (i + 1) (xs[i := xs ! (i + 1)]) else xs)"
  by pat_completeness auto
termination by (relation "measure (\<lambda>(i, xs). length xs - i)") auto

declare shift_down.simps [simp del]

section \<open>Operations\<close>

definition hashing_new_hashfunc :: "hstate \<Rightarrow> (hf_ptr option \<times> hstate) outcome option" where
  "hashing_new_hashfunc s =
     bind_run (krealloc (g_hash_funcs s) (mul32 (length (hash_funcs s) + 1) hashfunc_size) (hkm s)) (\<lambda>(tmp, km).
       case tmp of
         None \<Rightarrow> Some (Ret (None, s\<lparr>hkm := km\<rparr>))
       | Some p \<Rightarrow> Some (Ret (Some (p, length (hash_funcs s)),
           s\<lparr>hkm := km, g_hash_funcs := Some p, hash_funcs := hash_funcs s @ [blank_hashfunc]\<rparr>)))"

definition hashing_shrink_hashfuncs :: "hstate \<Rightarrow> (unit result \<times> hstate) outcome option" where
  "hashing_shrink_hashfuncs s =
     bind_run (krealloc (g_hash_funcs s) (mul32 (sub32 (length (hash_funcs s)) 1) hashfunc_size) (hkm s)) (\<lambda>(tmp, km).
       case tmp of
         None \<Rightarrow> Some (Ret (Inl ENOMEM, s\<lparr>hkm := km\<rparr>))
       | Some p \<Rightarrow> Some (Ret (Inr (),
           s\<lparr>hkm := km, g_hash_funcs := Some p, hash_funcs := butlast (hash_funcs s)\<rparr>)))"

definition hashing_register_hashfunc :: "HashingFunction \<Rightarrow> hstate \<Rightarrow> (unit result \<times> hstate) outcome option" where
  "hashing_register_hashfunc hashfunc s =
     bind_run (hashing_new_hashfunc s) (\<lambda>(newfunc, s1).
       case newfunc of
         None \<Rightarrow> Some (Ret (Inl ENOMEM, s1))
       | Some p \<Rightarrow> bind_run (Some (hf_store p hashfunc s1)) (\<lambda>s2. Some (Ret (Inr (), s2))))"

fun find_name :: "string \<Rightarrow> HashingFunction list \<Rightarrow> nat \<Rightarrow> nat option" where
  "find_name name [] i = None"
| "find_name name (f # fs) i = (if hname f = name then Some i else find_name name fs (i + 1))"

text \<open>When no function has the name, \<open>func\<close> stays null and reading \<open>func->refcount\<close> faults.\<close>

definition hashing_unregister_hashfunc :: "string \<Rightarrow> hstate \<Rightarrow> (unit result \<times> hstate) outcome option" where
  "hashing_unregister_hashfunc name s =
     (case find_name name (hash_funcs s) 0 of
        None \<Rightarrow> Some Panic
      | Some i \<Rightarrow>
          if refcount (hash_funcs s ! i) \<noteq> 0 then Some (Ret (Inl EBUSY, s))
          else bind_run (hashing_shrink_hashfuncs (s\<lparr>hash_funcs := shift_down i (hash_funcs s)\<rparr>)) (\<lambda>(_, s1).
            Some (Ret (Inr (), s1))))"

fun best_from :: "HashingFunction list \<Rightarrow> nat \<Rightarrow> nat \<Rightarrow> nat \<Rightarrow> nat" where
  "best_from [] i best prio = best"
| "best_from (f # fs) i best prio =
     (if speed_priority f > prio then best_from fs (i + 1) i (speed_priority f) else best_from fs (i + 1) best prio)"

definition hashing_best_func_by_speed :: "hstate \<Rightarrow> hf_ptr option outcome" where
  "hashing_best_func_by_speed s =
     (case g_hash_funcs s of
        None \<Rightarrow> Ret None
      | Some p \<Rightarrow>
          (case hash_funcs s of
             [] \<Rightarrow> Panic
           | f # fs \<Rightarrow> Ret (Some (p, best_from fs 1 0 (speed_priority f)))))"

definition hashing_increase_refcount :: "hf_ptr \<Rightarrow> hstate \<Rightarrow> hstate outcome" where
  "hashing_increase_refcount p s =
     bind_outcome (hf_deref p s) (\<lambda>f. hf_store p (f\<lparr>refcount := add32 (refcount f) 1\<rparr>) s)"

definition hashing_decrease_refcount :: "hf_ptr \<Rightarrow> hstate \<Rightarrow> (unit result \<times> hstate) outcome" where
  "hashing_decrease_refcount p s =
     bind_outcome (hf_deref p s) (\<lambda>f.
       if refcount f = 0 then Ret (Inl ENOENT, s)
       else bind_outcome (hf_store p (f\<lparr>refcount := refcount f - 1\<rparr>) s) (\<lambda>s1. Ret (Inr (), s1)))"

text \<open>The SHA-1 driver registers itself.\<close>

definition sha1_hashfunc :: HashingFunction where
  "sha1_hashfunc = \<lparr>hname = ''sha1'', digest_size = SHA1_DIGEST_SIZE, chew = sha1_chew,
     security_priority = 100, speed_priority = 1000, refcount = 0\<rparr>"

definition sha1_main :: "hstate \<Rightarrow> (unit result \<times> hstate) outcome option" where
  "sha1_main s = hashing_register_hashfunc sha1_hashfunc s"

definition sha1_exit :: "hstate \<Rightarrow> (unit result \<times> hstate) outcome option" where
  "sha1_exit s = hashing_unregister_hashfunc ''sha1'' s"

section \<open>Lemmas\<close>

lemma shift_down_eq:
  "i < length xs \<Longrightarrow> shift_down i xs = take i xs @ drop (i + 1) xs @ [last xs]"
proof (induction i xs rule: shift_down.induct)
  case (1 i xs)
  show ?case
  proof (cases "i < length xs - 1")
    case True
    let ?ys = "xs[i := xs ! (i + 1)]"
    have "shift_down i xs = shift_down (i + 1) ?ys" using True by (subst shift_down.simps) simp
    also have "\<dots> = take (i + 1) ?ys @ drop (i + 2) ?ys @ [last ?ys]" using "1.IH" True by simp
    also have "take (i + 1) ?ys = take i xs @ [xs ! (i + 1)]"
      using True by (simp add: take_Suc_conv_app_nth)
    also have "last ?ys = last xs" using True by (subst last_list_update) auto
    finally show ?thesis using True Cons_nth_drop_Suc [of "i + 1" xs] by simp
  next
    case False
    then have i: "i = length xs - 1" "xs \<noteq> []" using "1.prems" by auto
    then have "xs = take i xs @ [last xs]" using append_butlast_last_id [of xs] by (simp add: butlast_conv_take)
    then show ?thesis using False i by (subst shift_down.simps) simp
  qed
qed

lemma butlast_shift_down:
  assumes "i < length xs"
  shows "butlast (shift_down i xs) = take i xs @ drop (i + 1) xs"
  using assms by (simp add: shift_down_eq butlast_append)

lemma length_shift_down [simp]: "i < length xs \<Longrightarrow> length (shift_down i xs) = length xs"
  by (simp add: shift_down_eq)

lemma find_name_spec:
  "find_name name fs i = None \<longleftrightarrow> (\<forall>f \<in> set fs. hname f \<noteq> name)"
  "find_name name fs i = Some j \<Longrightarrow> i \<le> j \<and> j < i + length fs \<and> hname (fs ! (j - i)) = name \<and>
    (\<forall>k < j - i. hname (fs ! k) \<noteq> name)"
proof (induction fs arbitrary: i)
  case Nil
  { case 1 then show ?case by simp }
  { case 2 then show ?case by simp }
next
  case (Cons f fs)
  { case 1 then show ?case using Cons(1) by simp }
  { case 2
    show ?case
    proof (cases "hname f = name")
      case True then show ?thesis using 2 by simp
    next
      case False
      then have "i + 1 \<le> j \<and> j < i + 1 + length fs \<and> hname (fs ! (j - (i + 1))) = name \<and>
        (\<forall>k < j - (i + 1). hname (fs ! k) \<noteq> name)"
        using Cons(2) [of "i + 1"] 2 by simp
      moreover have "hname ((f # fs) ! k) \<noteq> name" if "k < j - i" for k
        using that False calculation by (cases k) auto
      ultimately show ?thesis by (auto simp: nth_Cons')
    qed }
qed

lemma best_from_spec:
  assumes "best < i"
  shows "let b = best_from fs i best prio in
    (b = best \<and> (\<forall>f \<in> set fs. speed_priority f \<le> prio) \<or>
     i \<le> b \<and> b < i + length fs \<and> prio < speed_priority (fs ! (b - i)) \<and>
     (\<forall>f \<in> set fs. speed_priority f \<le> speed_priority (fs ! (b - i))))"
  using assms
proof (induction fs arbitrary: i best prio)
  case Nil
  then show ?case by simp
next
  case (Cons f fs)
  show ?case
  proof (cases "speed_priority f > prio")
    case True
    then show ?thesis using Cons.IH [of i "i + 1" "speed_priority f"] by (auto simp: Let_def nth_Cons')
  next
    case False
    then show ?thesis using Cons.IH [of best "i + 1" prio] Cons.prems by (auto simp: Let_def nth_Cons')
  qed
qed

lemma best_func_fastest:
  assumes "g_hash_funcs s = Some p" and "hash_funcs s \<noteq> []"
  shows "\<exists>i < length (hash_funcs s). hashing_best_func_by_speed s = Ret (Some (p, i)) \<and>
    (\<forall>f \<in> set (hash_funcs s). speed_priority f \<le> speed_priority (hash_funcs s ! i))"
proof -
  obtain f fs where fs: "hash_funcs s = f # fs" using assms(2) by (cases "hash_funcs s") auto
  show ?thesis
    using best_from_spec [of 0 1 fs "speed_priority f"] assms(1) fs
    by (auto simp: hashing_best_func_by_speed_def Let_def nth_Cons')
qed

section \<open>Properties\<close>

text \<open>
  Unregistering the only hashing function does not remove it. \<open>hashing_unregister_hashfunc\<close> returns
  0, but shrinking the array to no elements is a \<open>krealloc\<close> of size 0, which returns null, so the
  function stays registered and is still the best one.
\<close>
theorem unregister_last_keeps:
  assumes "hash_funcs s = [f]" and "hname f = name" and "refcount f = 0" and "g_hash_funcs s = Some p"
  shows "\<exists>s'. hashing_unregister_hashfunc name s = Some (Ret (Inr (), s')) \<and> hash_funcs s' = [f] \<and>
    hashing_best_func_by_speed s' = Ret (Some (p, 0))"
proof -
  have "shift_down 0 [f] = [f]" by (simp add: shift_down.simps)
  moreover have "sub32 1 1 = 0" "mul32 0 hashfunc_size = 0" by (simp_all add: sub32_def mul32_def)
  ultimately show ?thesis
    using assms by (simp add: hashing_unregister_hashfunc_def hashing_shrink_hashfuncs_def krealloc_def
        hashing_best_func_by_speed_def)
qed

definition one_func_state :: "kmstate \<Rightarrow> hstate" where
  "one_func_state km = \<lparr>hkm = km, g_hash_funcs = Some 4096, hash_funcs = [sha1_hashfunc]\<rparr>"

theorem unregister_last_keeps_witness:
  "\<forall>km. \<exists>s'. sha1_exit (one_func_state km) = Some (Ret (Inr (), s')) \<and> hash_funcs s' = [sha1_hashfunc] \<and>
    hashing_best_func_by_speed s' = Ret (Some (4096, 0))"
proof
  fix km
  show "\<exists>s'. sha1_exit (one_func_state km) = Some (Ret (Inr (), s')) \<and> hash_funcs s' = [sha1_hashfunc] \<and>
    hashing_best_func_by_speed s' = Ret (Some (4096, 0))"
    using unregister_last_keeps [of "one_func_state km" sha1_hashfunc "''sha1''" 4096]
    by (simp add: sha1_exit_def one_func_state_def sha1_hashfunc_def)
qed

end
