(* ===== verification/KmallocUse.thy ===== *)
theory KmallocUse
  imports Kmalloc
begin

text \<open>
  What the clients of \<^verbatim>\<open>kernel/mem/kmalloc.c\<close> use: the invariant of the module running the general purpose
  allocator, on a heap small enough for \<open>krealloc\<close> not to mistake sizes for error codes, and the behaviour
  of \<open>krealloc\<close> on a pointer that may be null.
\<close>

text \<open>A string on the kernel heap: its address and its characters.\<close>

type_synonym kstr = "addr \<times> string"

definition small_heap :: "nat \<Rightarrow> Heap \<Rightarrow> bool" where
  "small_heap ma heap \<longleftrightarrow> heap_end heap - vaddr heap < 2147483632 \<and> ma < 2147483648 \<and> (\<exists>k. ma = 2 ^ k)"

abbreviation km_heap :: "nat \<Rightarrow> kmstate \<Rightarrow> Heap \<Rightarrow> live_map \<Rightarrow> bool" where
  "km_heap ma \<equiv> km_ok (gallocator_driver ma) heap_inv"

lemma live_small:
  assumes "km_heap ma km heap live" and "small_heap ma heap" and "live a = Some (sz, al)"
  shows "sz < 2147483632"
  using gd.block [of "mem km" heap live a sz al] assms by (fastforce simp: km_ok_def small_heap_def)

lemma realloc_any:
  assumes ok: "km_heap ma km heap live" and small: "small_heap ma heap"
    and p: "\<forall>q. p = Some q \<longrightarrow> (\<exists>sz. live q = Some (sz, ma))" and n: "0 < n" "n < 2147483648"
  shows "\<exists>r km'. krealloc p n km = Some (Ret (r, km')) \<and>
    (case r of
       None \<Rightarrow> km_heap ma km' heap live
     | Some b \<Rightarrow> km_heap ma km' heap ((case p of None \<Rightarrow> live | Some q \<Rightarrow> live(q := None))(b \<mapsto> (n, ma))) \<and>
         (p = Some b \<or> live b = None))"
proof (cases p)
  case (Some q)
  then obtain sz where q: "live q = Some (sz, ma)" using p by blast
  show ?thesis
    using gd.krealloc_ok [OF ok q, of n] n live_small [OF ok small q] small Some
    by (fastforce simp: small_heap_def split: option.splits)
next
  case None
  have d: "g_driver km = gallocator_driver ma" and act: "active_heap_is km heap" using ok by (auto simp: km_ok_def)
  have al: "default_alignment (gallocator_driver ma) = ma" by (simp add: gallocator_driver_def)
  have "krealloc p n km = kmalloc_aligned_with_heap n ma heap km"
    using n None d al by (simp add: krealloc_def with_active_heap [OF act])
  moreover have "\<exists>k. ma = 2 ^ k" "ma < W32" "n < W32" using small n by (auto simp: small_heap_def)
  ultimately show ?thesis
    using gd.with_heap_alloc [OF ok n(1), of ma] None by (fastforce split: option.splits)
qed

lemma km_live_addr:
  assumes "km_heap ma km heap live" and "live a = Some (sz, al)"
  shows "0 < a \<and> a < W32"
  using gd.block [of "mem km" heap live a sz al] assms by (fastforce simp: km_ok_def active_heap_is_def)

text \<open>Allocations with the default alignment, and releasing them, seen as changes of the live map.\<close>

lemma use_kcalloc:
  assumes "km_heap ma km heap live" and "small_heap ma heap" and "0 < sz" "sz < W32"
  shows "\<exists>r km'. kcalloc sz km = Some (Ret (r, km')) \<and>
    (case r of None \<Rightarrow> km_heap ma km' heap live
     | Some a \<Rightarrow> live a = None \<and> km_heap ma km' heap (live(a \<mapsto> (sz, ma))))"
proof -
  have al: "default_alignment (gallocator_driver ma) = ma" by (simp add: gallocator_driver_def)
  have "ma < W32" "\<exists>k. ma = 2 ^ k" using assms(2) by (auto simp: small_heap_def)
  then show ?thesis using gd.kcalloc_ok [OF assms(1,3,4)] unfolding al by (fastforce split: option.splits)
qed

lemma use_kmalloc:
  assumes "km_heap ma km heap live" and "small_heap ma heap" and "0 < sz" "sz < W32"
  shows "\<exists>r km'. kmalloc sz km = Some (Ret (r, km')) \<and>
    (case r of None \<Rightarrow> km_heap ma km' heap live
     | Some a \<Rightarrow> live a = None \<and> km_heap ma km' heap (live(a \<mapsto> (sz, ma))))"
proof -
  have al: "default_alignment (g_driver km) = ma" using assms(1) by (simp add: km_ok_def gallocator_driver_def)
  have "ma < W32" "\<exists>k. ma = 2 ^ k" using assms(2) by (auto simp: small_heap_def)
  then show ?thesis using gd.kmalloc_aligned_ok [OF assms(1,3,4), of ma] unfolding kmalloc_def al by (fastforce split: option.splits)
qed

lemma use_kfree:
  assumes "km_heap ma km heap live" and "live a = Some (sz, al)"
  shows "\<exists>km'. kfree (Some a) km = Some (Ret km') \<and> km_heap ma km' heap (live(a := None))"
  using gd.kfree_ok [OF assms] by blast

text \<open>
  \<open>owns ma now before xs\<close>: the allocations \<open>now\<close> are those \<open>before\<close> and, apart from them, the blocks \<open>xs\<close>. Freeing
  these blocks one after the other leaves the allocations from before.
\<close>

definition owns :: "nat \<Rightarrow> live_map \<Rightarrow> live_map \<Rightarrow> addr list \<Rightarrow> bool" where
  "owns ma now before xs \<longleftrightarrow> distinct xs \<and> (\<forall>a \<in> set xs. \<exists>sz. now a = Some (sz, ma)) \<and> before = (\<lambda>a. if a \<in> set xs then None else now a)"

lemma owns_Nil [simp]: "owns ma now before [] \<longleftrightarrow> now = before"
  by (auto simp: owns_def)

lemma owns_new: "owns ma now before xs \<Longrightarrow> now a = None \<Longrightarrow> owns ma (now(a \<mapsto> (sz, ma))) before (a # xs)"
  by (auto simp: owns_def)

lemma owns_Cons:
  "owns ma now before (a # xs) \<Longrightarrow> (\<exists>sz. now a = Some (sz, ma)) \<and> owns ma (now(a := None)) before xs"
  by (auto simp: owns_def)

lemma owns_perm:
  assumes "mset xs = mset ys"
  shows "owns ma now before xs \<longleftrightarrow> owns ma now before ys"
proof -
  have "set xs = set ys" "distinct xs = distinct ys"
    using assms by (auto dest: mset_eq_setD mset_eq_imp_distinct_iff)
  then show ?thesis by (simp add: owns_def)
qed

lemma owns_keep:
  assumes "owns ma now before xs" and "now a = None"
  shows "owns ma (now(a \<mapsto> (sz, ma))) (before(a \<mapsto> (sz, ma))) xs" and "before a = None"
  using assms by (auto simp: owns_def fun_eq_iff)

primrec kfree_all :: "addr list \<Rightarrow> kmstate \<Rightarrow> kmstate outcome option" where
  "kfree_all [] km = Some (Ret km)"
| "kfree_all (a # as) km = bind_run (kfree (Some a) km) (kfree_all as)"

lemma kfree_all_ok:
  "km_heap ma km heap now \<Longrightarrow> owns ma now before xs \<Longrightarrow> \<exists>km'. kfree_all xs km = Some (Ret km') \<and> km_heap ma km' heap before"
proof (induction xs arbitrary: km now)
  case (Cons a xs)
  obtain sz where sz: "now a = Some (sz, ma)" and o: "owns ma (now(a := None)) before xs"
    using owns_Cons [OF Cons.prems(2)] by blast
  obtain km1 where "kfree (Some a) km = Some (Ret km1)" "km_heap ma km1 heap (now(a := None))"
    using use_kfree [OF Cons.prems(1) sz] by blast
  then show ?case using Cons.IH o by fastforce
qed simp

lemma kfree_all_append: "kfree_all (xs @ ys) km = bind_run (kfree_all xs km) (kfree_all ys)"
proof (induction xs arbitrary: km)
  case (Cons a xs)
  show ?case
  proof (cases "kfree (Some a) km")
    case (Some r)
    then show ?thesis using Cons by (cases r) auto
  qed simp
qed simp

text \<open>What follows an allocation is shown for both of its results.\<close>

lemma after_kmalloc:
  assumes "km_heap ma km heap live" and "small_heap ma heap" and "0 < sz" "sz < W32"
    and "\<And>km'. km_heap ma km' heap live \<Longrightarrow> P (k (None, km'))"
    and "\<And>a km'. km_heap ma km' heap (live(a \<mapsto> (sz, ma))) \<Longrightarrow> live a = None \<Longrightarrow> P (k (Some a, km'))"
  shows "P (bind_run (kmalloc sz km) k)"
proof -
  obtain r km' where "kmalloc sz km = Some (Ret (r, km'))" "case r of None \<Rightarrow> km_heap ma km' heap live
      | Some a \<Rightarrow> live a = None \<and> km_heap ma km' heap (live(a \<mapsto> (sz, ma)))"
    using use_kmalloc [OF assms(1-4)] by blast
  then show ?thesis using assms(5,6) by (cases r) auto
qed

lemma after_kcalloc:
  assumes "km_heap ma km heap live" and "small_heap ma heap" and "0 < sz" "sz < W32"
    and "\<And>km'. km_heap ma km' heap live \<Longrightarrow> P (k (None, km'))"
    and "\<And>a km'. km_heap ma km' heap (live(a \<mapsto> (sz, ma))) \<Longrightarrow> live a = None \<Longrightarrow> P (k (Some a, km'))"
  shows "P (bind_run (kcalloc sz km) k)"
proof -
  obtain r km' where "kcalloc sz km = Some (Ret (r, km'))" "case r of None \<Rightarrow> km_heap ma km' heap live
      | Some a \<Rightarrow> live a = None \<and> km_heap ma km' heap (live(a \<mapsto> (sz, ma)))"
    using use_kcalloc [OF assms(1-4)] by blast
  then show ?thesis using assms(5,6) by (cases r) auto
qed

lemma bind_run_Ret: "bind_run m f = Some (Ret y) \<Longrightarrow> \<exists>x. m = Some (Ret x) \<and> f x = Some (Ret y)"
  by (cases m; cases "the m") (auto simp: bind_run_def)

end
