(* ===== verification/HashTable.thy ===== *)
theory HashTable
  imports Hashing KmallocUse
begin

text \<open>
  \<^verbatim>\<open>kernel/utils/hashtable.c\<close>: the kernel's hash table of 64-bit keys and values. A slot is the
  address of its entry array with its contents, whose length is \<open>entry_count\<close>; the table is the address
  of its slot array with the slots. Every allocation goes through the model of \<open>krealloc\<close>, \<open>kcalloc\<close>
  and \<open>kfree\<close>, and the hash is computed by the registered function. \<open>kernel_map\<close> is the contract of a
  finite map that clients rely on; the table is proved to meet it.
\<close>

section \<open>Types\<close>

record HashTableEntry =
  ekey :: u64
  evalue :: u64

record HashTableSlot =
  entries_ptr :: "addr option"
  entries :: "HashTableEntry list"

record HashTable =
  slots_ptr :: "addr option"
  slots :: "HashTableSlot list"
  slot_capacity :: size_t
  biggest_slot_entry_count :: size_t
  slot_entry_count_threshold :: size_t
  hashfunc :: "hf_ptr option"

type_synonym ht_state = "HashTable \<times> hstate"

definition INITIAL_HASHTABLE_SLOTS :: nat where "INITIAL_HASHTABLE_SLOTS = 8"
definition INITIAL_ENLARGE_THRESHOLD :: nat where "INITIAL_ENLARGE_THRESHOLD = 4"
definition slot_bytes :: nat where "slot_bytes = 8"
definition entry_bytes :: nat where "entry_bytes = 16"

definition zero_hashtable :: HashTable where
  "zero_hashtable = \<lparr>slots_ptr = None, slots = [], slot_capacity = 0, biggest_slot_entry_count = 0,
     slot_entry_count_threshold = 0, hashfunc = None\<rparr>"

definition zero_slot :: HashTableSlot where
  "zero_slot = \<lparr>entries_ptr = None, entries = []\<rparr>"

section \<open>Operations\<close>

definition hashtable_maybe_enlarge :: "ht_state \<Rightarrow> (unit result \<times> ht_state) outcome option" where
  "hashtable_maybe_enlarge st = (case st of (ht, s) \<Rightarrow>
     if biggest_slot_entry_count ht < slot_entry_count_threshold ht then Some (Ret (Inr (), st))
     else bind_run (krealloc (slots_ptr ht) (mul32 (mul32 (slot_capacity ht) 2) slot_bytes) (hkm s)) (\<lambda>(tmp, km).
       case tmp of
         None \<Rightarrow> Some (Ret (Inl ENOMEM, ht, s\<lparr>hkm := km\<rparr>))
       | Some p \<Rightarrow> Some (Ret (Inr (),
           ht\<lparr>slots_ptr := Some p, slots := slots ht @ replicate (slot_capacity ht) zero_slot,
              slot_capacity := mul32 (slot_capacity ht) 2,
              slot_entry_count_threshold := mul32 (slot_entry_count_threshold ht) 2\<rparr>, s\<lparr>hkm := km\<rparr>))))"

text \<open>The eight bytes of the key in memory.\<close>

definition key_bytes :: "u64 \<Rightarrow> u8 list" where
  "key_bytes k = map (\<lambda>i. ucast (drop_bit (8 * i) k)) [0..<8]"

definition fold_digest :: "u8 list \<Rightarrow> nat \<Rightarrow> u32" where
  "fold_digest digest n = fold (\<lambda>i hashidx. hashidx XOR ld32 digest i) [0..<n] 0"

text \<open>A null or stale \<open>hashfunc\<close> faults, and so does the remainder by a capacity of zero.\<close>

definition hashtable_key_to_slot_idx :: "u64 \<Rightarrow> ht_state \<Rightarrow> nat result outcome" where
  "hashtable_key_to_slot_idx key st = (case st of (ht, s) \<Rightarrow>
     (case hashfunc ht of
        None \<Rightarrow> Panic
      | Some p \<Rightarrow>
          bind_outcome (hf_deref p s) (\<lambda>f.
            assert_outcome (digest_size f mod 4 = 0)
             (bind_outcome (chew f (key_bytes key) 8) (\<lambda>(res, digest).
               case res of
                 Inl e \<Rightarrow> Ret (Inl e)
               | Inr _ \<Rightarrow>
                   if slot_capacity ht = 0 then Panic
                   else Ret (Inr (unat (fold_digest digest (digest_size f div 4)) mod slot_capacity ht)))))))"

fun hashtable_find_entry :: "u64 \<Rightarrow> HashTableEntry list \<Rightarrow> nat \<Rightarrow> nat option" where
  "hashtable_find_entry key [] i = None"
| "hashtable_find_entry key (e # es) i =
     (if ekey e = key then Some i else hashtable_find_entry key es (i + 1))"

definition hashtable_add_value_to_slot ::
    "u64 \<Rightarrow> u64 \<Rightarrow> HashTableSlot \<Rightarrow> kmstate \<Rightarrow> (unit result \<times> HashTableSlot \<times> kmstate) outcome option" where
  "hashtable_add_value_to_slot key val slot km =
     (case hashtable_find_entry key (entries slot) 0 of
        Some i \<Rightarrow> Some (Ret (Inr (), slot\<lparr>entries := (entries slot)[i := (entries slot ! i)\<lparr>evalue := val\<rparr>]\<rparr>, km))
      | None \<Rightarrow>
          bind_run (krealloc (entries_ptr slot) (mul32 (length (entries slot) + 1) entry_bytes) km) (\<lambda>(tmp, km1).
            case tmp of
              None \<Rightarrow> Some (Ret (Inl ENOMEM, slot, km1))
            | Some p \<Rightarrow> Some (Ret (Inr (),
                slot\<lparr>entries_ptr := Some p, entries := entries slot @ [\<lparr>ekey = key, evalue = val\<rparr>]\<rparr>, km1))))"

definition hashtable_init :: "hstate \<Rightarrow> (unit result \<times> ht_state) outcome option" where
  "hashtable_init s =
     bind_run (Some (hashing_best_func_by_speed s)) (\<lambda>hf.
       case hf of
         None \<Rightarrow> Some (Ret (Inl ENODEV, zero_hashtable, s))
       | Some p \<Rightarrow>
           let ht = zero_hashtable\<lparr>hashfunc := Some p\<rparr> in
           bind_run (kcalloc (mul32 slot_bytes INITIAL_HASHTABLE_SLOTS) (hkm s)) (\<lambda>(sp, km).
             case sp of
               None \<Rightarrow> Some (Ret (Inl ENOMEM, ht, s\<lparr>hkm := km\<rparr>))
             | Some a \<Rightarrow>
                 bind_run (Some (hashing_increase_refcount p (s\<lparr>hkm := km\<rparr>))) (\<lambda>s1.
                   Some (Ret (Inr (),
                     ht\<lparr>slots_ptr := Some a, slots := replicate INITIAL_HASHTABLE_SLOTS zero_slot,
                        slot_capacity := INITIAL_HASHTABLE_SLOTS,
                        slot_entry_count_threshold := INITIAL_ENLARGE_THRESHOLD\<rparr>, s1)))))"

definition hashtable_insert :: "u64 \<Rightarrow> u64 \<Rightarrow> ht_state \<Rightarrow> (unit result \<times> ht_state) outcome option" where
  "hashtable_insert key val st =
     bind_run (hashtable_maybe_enlarge st) (\<lambda>(r, st1).
       case r of
         Inl e \<Rightarrow> Some (Ret (Inl e, st1))
       | Inr _ \<Rightarrow>
           bind_run (Some (hashtable_key_to_slot_idx key st1)) (\<lambda>hash_res.
             case hash_res of
               Inl e \<Rightarrow> Some (Ret (Inl e, st1))
             | Inr i \<Rightarrow>
                 (case st1 of (ht, s) \<Rightarrow>
                   if i < length (slots ht) then
                     bind_run (hashtable_add_value_to_slot key val (slots ht ! i) (hkm s)) (\<lambda>(r2, slot, km).
                       Some (Ret (r2, ht\<lparr>slots := (slots ht)[i := slot]\<rparr>, s\<lparr>hkm := km\<rparr>)))
                   else Some Panic)))"

definition hashtable_find :: "u64 \<Rightarrow> ht_state \<Rightarrow> u64 result outcome" where
  "hashtable_find key st =
     bind_outcome (hashtable_key_to_slot_idx key st) (\<lambda>hash_res.
       case hash_res of
         Inl e \<Rightarrow> Ret (Inl e)
       | Inr i \<Rightarrow>
           if i < length (slots (fst st)) then
             (let slot = slots (fst st) ! i in
              case hashtable_find_entry key (entries slot) 0 of
                None \<Rightarrow> Ret (Inl ENOENT)
              | Some j \<Rightarrow> Ret (Inr (evalue (entries slot ! j))))
           else Panic)"

definition remove_from_slot :: "nat \<Rightarrow> HashTableSlot \<Rightarrow> kmstate \<Rightarrow> (HashTableSlot \<times> kmstate) outcome option" where
  "remove_from_slot j slot km =
     (let es = shift_down j (entries slot) in
      if length es = 1 then
        bind_run (kfree (entries_ptr slot) km) (\<lambda>km1. Some (Ret (\<lparr>entries_ptr = None, entries = butlast es\<rparr>, km1)))
      else
        bind_run (krealloc (entries_ptr slot) (mul32 (length es - 1) entry_bytes) km) (\<lambda>(tmp, km1).
          case tmp of
            None \<Rightarrow> Some Panic
          | Some p \<Rightarrow> Some (Ret (\<lparr>entries_ptr = Some p, entries = butlast es\<rparr>, km1))))"

definition hashtable_remove :: "u64 \<Rightarrow> ht_state \<Rightarrow> (unit result \<times> ht_state) outcome option" where
  "hashtable_remove key st =
     bind_run (Some (hashtable_key_to_slot_idx key st)) (\<lambda>hash_res.
       case hash_res of
         Inl e \<Rightarrow> Some (Ret (Inl e, st))
       | Inr i \<Rightarrow>
           (case st of (ht, s) \<Rightarrow>
             if i < length (slots ht) then
               (case hashtable_find_entry key (entries (slots ht ! i)) 0 of
                  None \<Rightarrow> Some (Ret (Inl ENOENT, st))
                | Some j \<Rightarrow>
                    bind_run (remove_from_slot j (slots ht ! i) (hkm s)) (\<lambda>(slot, km).
                      Some (Ret (Inr (), ht\<lparr>slots := (slots ht)[i := slot]\<rparr>, s\<lparr>hkm := km\<rparr>))))
             else Some Panic))"

fun destroy_slots :: "HashTableSlot list \<Rightarrow> kmstate \<Rightarrow> kmstate outcome option" where
  "destroy_slots [] km = Some (Ret km)"
| "destroy_slots (slot # rest) km =
     (case entries_ptr slot of
        None \<Rightarrow> destroy_slots rest km
      | Some p \<Rightarrow> bind_run (kfree (Some p) km) (\<lambda>km1. destroy_slots rest km1))"

definition hashtable_destroy :: "ht_state \<Rightarrow> ht_state outcome option" where
  "hashtable_destroy st = (case st of (ht, s) \<Rightarrow>
     bind_run (destroy_slots (slots ht) (hkm s)) (\<lambda>km.
     bind_run (case slots_ptr ht of None \<Rightarrow> Some (Ret km) | Some p \<Rightarrow> kfree (Some p) km) (\<lambda>km1.
       case hashfunc ht of
         None \<Rightarrow> Some Panic
       | Some p \<Rightarrow>
           bind_run (Some (hashing_decrease_refcount p (s\<lparr>hkm := km1\<rparr>))) (\<lambda>(_, s1).
             Some (Ret (zero_hashtable, s1))))))"

section \<open>Entry lists as maps\<close>

definition entry_map :: "HashTableEntry list \<Rightarrow> u64 \<rightharpoonup> u64" where
  "entry_map es = map_of (map (\<lambda>e. (ekey e, evalue e)) es)"

lemma entry_map_simps [simp]:
  "entry_map [] = Map.empty"
  "entry_map (e # es) = (entry_map es)(ekey e \<mapsto> evalue e)"
  by (simp_all add: entry_map_def)

lemma entry_map_append: "entry_map (xs @ ys) = entry_map ys ++ entry_map xs"
  by (simp add: entry_map_def)

lemma entry_map_None: "entry_map es k = None \<longleftrightarrow> k \<notin> ekey ` set es"
  by (auto simp: entry_map_def map_of_eq_None_iff image_iff)

lemma find_entry_None: "hashtable_find_entry k es i = None \<longleftrightarrow> entry_map es k = None"
  by (induction es arbitrary: i) auto

lemma find_entry_Some:
  "hashtable_find_entry k es i = Some j \<Longrightarrow>
   i \<le> j \<and> j < i + length es \<and> ekey (es ! (j - i)) = k \<and> entry_map es k = Some (evalue (es ! (j - i)))"
proof (induction es arbitrary: i)
  case Nil
  then show ?case by simp
next
  case (Cons e es)
  show ?case
  proof (cases "ekey e = k")
    case True
    then show ?thesis using Cons.prems by auto
  next
    case False
    then show ?thesis using Cons.IH [of "i + 1"] Cons.prems by (auto simp: nth_Cons')
  qed
qed

lemma split_at: "j < length es \<Longrightarrow> es = take j es @ es ! j # drop (j + 1) es"
  by (simp add: id_take_nth_drop)

lemma entry_map_update:
  assumes j: "j < length es" and "distinct (map ekey es)"
  shows "entry_map (es[j := (es ! j)\<lparr>evalue := v\<rparr>]) = (entry_map es)(ekey (es ! j) \<mapsto> v)"
    and "entry_map (take j es @ drop (j + 1) es) = (entry_map es)(ekey (es ! j) := None)"
proof -
  let ?x = "take j es" and ?y = "drop (j + 1) es" and ?k = "ekey (es ! j)"
  have es: "es = ?x @ es ! j # ?y" by (rule split_at [OF j])
  then have "distinct (map ekey (?x @ es ! j # ?y))" using assms(2) by simp
  then have nx: "?k \<notin> ekey ` set ?x" and ny: "?k \<notin> ekey ` set ?y" by auto
  have x: "entry_map ?x ?k = None" and y: "entry_map ?y ?k = None"
    using nx ny entry_map_None [of ?x] entry_map_None [of ?y] by blast+
  have m: "entry_map es = (entry_map ?y)(?k \<mapsto> evalue (es ! j)) ++ entry_map ?x"
    using arg_cong [OF es, of entry_map] by (simp add: entry_map_append)
  have u: "es[j := (es ! j)\<lparr>evalue := v\<rparr>] = ?x @ (es ! j)\<lparr>evalue := v\<rparr> # ?y" using j by (simp add: upd_conv_take_nth_drop)
  show "entry_map (es[j := (es ! j)\<lparr>evalue := v\<rparr>]) = (entry_map es)(?k \<mapsto> v)"
    unfolding u m using x by (auto simp: entry_map_append map_add_def fun_eq_iff split: option.splits)
  show "entry_map (?x @ ?y) = (entry_map es)(?k := None)"
    unfolding m using x y by (auto simp: entry_map_append map_add_def fun_eq_iff split: option.splits)
qed

lemma entry_map_snoc:
  "entry_map es k = None \<Longrightarrow> entry_map (es @ [\<lparr>ekey = k, evalue = v\<rparr>]) = (entry_map es)(k \<mapsto> v)"
  by (auto simp: entry_map_append map_add_def fun_eq_iff split: option.splits)

section \<open>The invariant\<close>

definition hash_fun_ok :: "HashingFunction \<Rightarrow> bool" where
  "hash_fun_ok f \<longleftrightarrow> digest_size f mod 4 = 0 \<and> (\<forall>k. \<exists>d. chew f (key_bytes k) 8 = Ret (Inr (), d))"

definition ht_idx :: "ht_state \<Rightarrow> u64 \<Rightarrow> nat" where
  "ht_idx st k = (case hashtable_key_to_slot_idx k st of Ret (Inr i) \<Rightarrow> i | _ \<Rightarrow> 0)"

definition ht_lookup :: "ht_state \<Rightarrow> u64 \<rightharpoonup> u64" where
  "ht_lookup st k = entry_map (entries (slots (fst st) ! ht_idx st k)) k"

definition slot_ok :: "nat \<Rightarrow> live_map \<Rightarrow> (u64 \<Rightarrow> bool) \<Rightarrow> HashTableSlot \<Rightarrow> bool" where
  "slot_ok ma live mine slot \<longleftrightarrow>
     (case entries_ptr slot of None \<Rightarrow> entries slot = []
      | Some p \<Rightarrow> entries slot \<noteq> [] \<and> live p = Some (length (entries slot) * 16, ma)) \<and>
     distinct (map ekey (entries slot)) \<and> (\<forall>e \<in> set (entries slot). mine (ekey e))"

definition ht_owns :: "ht_state \<Rightarrow> addr set" where
  "ht_owns st = {p. slots_ptr (fst st) = Some p} \<union>
     {p. \<exists>i < length (slots (fst st)). entries_ptr (slots (fst st) ! i) = Some p}"

definition hash_ready :: "ht_state \<Rightarrow> bool" where
  "hash_ready st \<longleftrightarrow>
     (\<exists>p f. hashfunc (fst st) = Some p \<and> hf_deref p (snd st) = Ret f \<and> hash_fun_ok f) \<and>
     slot_capacity (fst st) = length (slots (fst st)) \<and> slots (fst st) \<noteq> [] \<and>
     biggest_slot_entry_count (fst st) < slot_entry_count_threshold (fst st)"

definition ptrs_apart :: "HashTable \<Rightarrow> bool" where
  "ptrs_apart ht \<longleftrightarrow>
     (\<forall>i j p. i < length (slots ht) \<and> j < length (slots ht) \<and> entries_ptr (slots ht ! i) = Some p \<and>
        entries_ptr (slots ht ! j) = Some p \<longrightarrow> i = j) \<and>
     (\<forall>i p. i < length (slots ht) \<and> entries_ptr (slots ht ! i) = Some p \<longrightarrow> slots_ptr ht \<noteq> Some p)"

definition ht_inv :: "nat \<Rightarrow> Heap \<Rightarrow> ht_state \<Rightarrow> live_map \<Rightarrow> bool" where
  "ht_inv ma heap st live \<longleftrightarrow>
     km_heap ma (hkm (snd st)) heap live \<and> small_heap ma heap \<and> hash_ready st \<and>
     (\<exists>sp. slots_ptr (fst st) = Some sp \<and> live sp \<noteq> None) \<and> ptrs_apart (fst st) \<and>
     (\<forall>i < length (slots (fst st)). slot_ok ma live (\<lambda>k. ht_idx st k = i) (slots (fst st) ! i))"

lemma idx_ready:
  assumes "hash_ready st"
  shows "hashtable_key_to_slot_idx k st = Ret (Inr (ht_idx st k)) \<and> ht_idx st k < length (slots (fst st))"
proof -
  obtain p f where f: "hashfunc (fst st) = Some p" "hf_deref p (snd st) = Ret f" "hash_fun_ok f"
    "slot_capacity (fst st) = length (slots (fst st))" "slots (fst st) \<noteq> []"
    using assms by (auto simp: hash_ready_def)
  obtain d where "chew f (key_bytes k) 8 = Ret (Inr (), d)" "digest_size f mod 4 = 0"
    using f(3) by (auto simp: hash_fun_ok_def)
  then have "hashtable_key_to_slot_idx k st =
    Ret (Inr (unat (fold_digest d (digest_size f div 4)) mod length (slots (fst st))))"
    using f by (cases st) (simp add: hashtable_key_to_slot_idx_def)
  then show ?thesis using f(5) by (simp add: ht_idx_def)
qed

section \<open>One slot\<close>

text \<open>Only the allocation of the slot's entries changes, and a new address was free before.\<close>

definition slot_frame :: "live_map \<Rightarrow> live_map \<Rightarrow> HashTableSlot \<Rightarrow> HashTableSlot \<Rightarrow> bool" where
  "slot_frame live live' slot slot' \<longleftrightarrow>
     (\<forall>a. entries_ptr slot \<noteq> Some a \<and> entries_ptr slot' \<noteq> Some a \<longrightarrow> live' a = live a) \<and>
     (\<forall>b. entries_ptr slot' = Some b \<longrightarrow> entries_ptr slot = Some b \<or> live b = None)"

lemma slot_size:
  assumes "km_heap ma km heap live" and "small_heap ma heap" and "slot_ok ma live mine slot"
  shows "length (entries slot) * 16 < 2147483632"
proof (cases "entries_ptr slot")
  case None
  then show ?thesis using assms(3) by (simp add: slot_ok_def)
next
  case (Some p)
  then show ?thesis using live_small [OF assms(1,2), of p] assms(3) by (simp add: slot_ok_def)
qed

lemma slot_live:
  "slot_ok ma live mine slot \<Longrightarrow> \<forall>q. entries_ptr slot = Some q \<longrightarrow> (\<exists>sz. live q = Some (sz, ma))"
  by (auto simp: slot_ok_def)

lemma add_value_ok:
  assumes ok: "km_heap ma km heap live" and small: "small_heap ma heap" and slot: "slot_ok ma live mine slot"
    and k: "mine k"
  shows "\<exists>r slot' km' live'. hashtable_add_value_to_slot k v slot km = Some (Ret (r, slot', km')) \<and>
    km_heap ma km' heap live' \<and> slot_ok ma live' mine slot' \<and> slot_frame live live' slot slot' \<and>
    (case r of Inl e \<Rightarrow> e = ENOMEM \<and> slot' = slot
     | Inr _ \<Rightarrow> entry_map (entries slot') = (entry_map (entries slot))(k \<mapsto> v))"
proof (cases "hashtable_find_entry k (entries slot) 0")
  case (Some j)
  let ?es = "(entries slot)[j := (entries slot ! j)\<lparr>evalue := v\<rparr>]"
  have j: "j < length (entries slot)" "ekey (entries slot ! j) = k" using find_entry_Some [OF Some] by auto
  have dist: "distinct (map ekey (entries slot))" using slot by (simp add: slot_ok_def)
  have keys: "map ekey ?es = map ekey (entries slot)" by (simp add: map_update list_update_same_conv j(1))
  then have "set (map ekey ?es) = set (map ekey (entries slot))" by (simp only:)
  moreover have "\<forall>x \<in> set (map ekey (entries slot)). mine x" using slot by (simp add: slot_ok_def)
  ultimately have "\<forall>x \<in> set (map ekey ?es). mine x" by (simp only:)
  then have "\<forall>e \<in> set ?es. mine (ekey e)" by simp
  then have "slot_ok ma live mine (slot\<lparr>entries := ?es\<rparr>)"
    using slot keys by (auto simp: slot_ok_def split: option.splits)
  then show ?thesis
    using Some ok entry_map_update(1) [OF j(1) dist, of v] j(2)
    by (simp add: hashtable_add_value_to_slot_def) (auto simp: slot_frame_def)
next
  case None
  let ?n = "(length (entries slot) + 1) * 16"
  have n: "0 < ?n" "?n < 2147483648" using slot_size [OF ok small slot] by simp_all
  then have m: "mul32 (length (entries slot) + 1) entry_bytes = ?n" by (simp add: entry_bytes_def mul32_exact)
  have new: "entry_map (entries slot) k = None" using None by (simp add: find_entry_None)
  obtain r km' where r: "krealloc (entries_ptr slot) ?n km = Some (Ret (r, km'))"
    and c: "case r of None \<Rightarrow> km_heap ma km' heap live
     | Some b \<Rightarrow> km_heap ma km' heap
           ((case entries_ptr slot of None \<Rightarrow> live | Some q \<Rightarrow> live(q := None))(b \<mapsto> (?n, ma))) \<and>
         (entries_ptr slot = Some b \<or> live b = None)"
    using realloc_any [OF ok small slot_live [OF slot] n] by blast
  show ?thesis
  proof (cases r)
    case None
    then show ?thesis using r c slot m \<open>hashtable_find_entry k (entries slot) 0 = None\<close>
      by (simp add: hashtable_add_value_to_slot_def) (auto simp: slot_frame_def)
  next
    case (Some b)
    let ?slot = "slot\<lparr>entries_ptr := Some b, entries := entries slot @ [\<lparr>ekey = k, evalue = v\<rparr>]\<rparr>"
    let ?live = "(case entries_ptr slot of None \<Rightarrow> live | Some q \<Rightarrow> live(q := None))(b \<mapsto> (?n, ma))"
    have "hashtable_add_value_to_slot k v slot km = Some (Ret (Inr (), ?slot, km'))"
      using r Some m None by (simp add: hashtable_add_value_to_slot_def)
    moreover have "slot_ok ma ?live mine ?slot"
      using slot k new by (auto simp: slot_ok_def entry_map_None split: option.splits)
    moreover have "slot_frame live ?live slot ?slot" using c Some by (auto simp: slot_frame_def split: option.splits)
    moreover have "entry_map (entries ?slot) = (entry_map (entries slot))(k \<mapsto> v)"
      using entry_map_snoc [OF new] by simp
    moreover have "km_heap ma km' heap ?live" using c Some by simp
    ultimately show ?thesis by (intro exI [of _ "Inr ()"] exI [of _ ?slot] exI [of _ km'] exI [of _ ?live]) simp
  qed
qed

lemma remove_from_slot_ok:
  assumes ok: "km_heap ma km heap live" and small: "small_heap ma heap" and slot: "slot_ok ma live mine slot"
    and j: "j < length (entries slot)"
  shows "(2 \<le> length (entries slot) \<and> remove_from_slot j slot km = Some Panic) \<or>
    (\<exists>slot' km' live'. remove_from_slot j slot km = Some (Ret (slot', km')) \<and>
      km_heap ma km' heap live' \<and> slot_ok ma live' mine slot' \<and> slot_frame live live' slot slot' \<and>
      entry_map (entries slot') = (entry_map (entries slot))(ekey (entries slot ! j) := None))"
proof -
  let ?es = "take j (entries slot) @ drop (j + 1) (entries slot)"
  have dist: "distinct (map ekey (entries slot))" using slot by (simp add: slot_ok_def)
  have es: "butlast (shift_down j (entries slot)) = ?es" by (rule butlast_shift_down [OF j])
  have em: "entry_map ?es = (entry_map (entries slot))(ekey (entries slot ! j) := None)"
    by (rule entry_map_update(2) [OF j dist])
  have "distinct (map ekey (take j (entries slot) @ entries slot ! j # drop (j + 1) (entries slot)))"
    using dist split_at [OF j] by simp
  then have d': "distinct (map ekey ?es)" by auto
  have sub: "set ?es \<subseteq> set (entries slot)" using set_take_subset set_drop_subset by fastforce
  have len: "length ?es = length (entries slot) - 1" using j by simp
  obtain p where p: "entries_ptr slot = Some p" "live p = Some (length (entries slot) * 16, ma)"
    using slot j by (auto simp: slot_ok_def split: option.splits)
  show ?thesis
  proof (cases "length (entries slot) = 1")
    case True
    obtain km' where km: "kfree (Some p) km = Some (Ret km')" "km_heap ma km' heap (live(p := None))"
      using gd.kfree_ok [OF ok p(2)] by blast
    let ?slot = "\<lparr>entries_ptr = None, entries = ?es\<rparr>"
    have "?es = []" using len True by auto
    then have "slot_ok ma (live(p := None)) mine ?slot" by (simp only: slot_ok_def) simp
    moreover have "slot_frame live (live(p := None)) slot ?slot" using p by (auto simp: slot_frame_def)
    moreover have "remove_from_slot j slot km = Some (Ret (?slot, km'))"
      using True km p es j by (simp add: remove_from_slot_def Let_def)
    ultimately show ?thesis using km(2) em by (intro disjI2 exI [of _ ?slot] exI [of _ km'] exI [of _ "live(p := None)"]) simp
  next
    case False
    then have two: "2 \<le> length (entries slot)" using j by linarith
    let ?n = "(length (entries slot) - 1) * 16"
    have n: "0 < ?n" "?n < 2147483648" using two slot_size [OF ok small slot] by simp_all
    then have m: "mul32 (length (entries slot) - 1) entry_bytes = ?n" by (simp add: entry_bytes_def mul32_exact)
    obtain r km' where r: "krealloc (entries_ptr slot) ?n km = Some (Ret (r, km'))"
      and c: "case r of None \<Rightarrow> km_heap ma km' heap live
       | Some b \<Rightarrow> km_heap ma km' heap
             ((case entries_ptr slot of None \<Rightarrow> live | Some q \<Rightarrow> live(q := None))(b \<mapsto> (?n, ma))) \<and>
           (entries_ptr slot = Some b \<or> live b = None)"
      using realloc_any [OF ok small slot_live [OF slot] n] by blast
    show ?thesis
    proof (cases r)
      case None
      then show ?thesis using r m two j False by (simp add: remove_from_slot_def Let_def)
    next
      case (Some b)
      let ?slot = "\<lparr>entries_ptr = Some b, entries = ?es\<rparr>"
      let ?live = "(live(p := None))(b \<mapsto> (?n, ma))"
      have "remove_from_slot j slot km = Some (Ret (?slot, km'))"
        using r Some m False j es by (simp add: remove_from_slot_def Let_def)
      moreover have "?es \<noteq> []" using len two by auto
      then have "slot_ok ma ?live mine ?slot"
        using d' sub slot len by (auto simp: slot_ok_def simp del: append_is_Nil_conv)
      moreover have "slot_frame live ?live slot ?slot" using c Some p by (auto simp: slot_frame_def)
      moreover have "km_heap ma km' heap ?live" using c Some p by simp
      ultimately show ?thesis using em
        by (intro disjI2 exI [of _ ?slot] exI [of _ km'] exI [of _ ?live]) simp
    qed
  qed
qed

section \<open>The table\<close>

lemma idx_cong:
  assumes "hashfunc ht' = hashfunc ht" and "slot_capacity ht' = slot_capacity ht"
    and "g_hash_funcs s' = g_hash_funcs s" and "hash_funcs s' = hash_funcs s"
  shows "hashtable_key_to_slot_idx k (ht', s') = hashtable_key_to_slot_idx k (ht, s)"
  unfolding hashtable_key_to_slot_idx_def hf_deref_def prod.case assms by (rule refl)

lemma table_slot_update:
  assumes inv: "ht_inv ma heap (ht, s) live" and i: "i < length (slots ht)"
    and km: "km_heap ma km heap live'" and slot: "slot_ok ma live' (\<lambda>k. ht_idx (ht, s) k = i) slot'"
    and frame: "slot_frame live live' (slots ht ! i) slot'"
  defines "st' \<equiv> (ht\<lparr>slots := (slots ht)[i := slot']\<rparr>, s\<lparr>hkm := km\<rparr>)"
  shows "ht_inv ma heap st' live'"
    and "\<And>a. a \<notin> ht_owns (ht, s) \<Longrightarrow> live a \<noteq> None \<Longrightarrow> live' a = live a \<and> a \<notin> ht_owns st'"
    and "ht_lookup st' = (\<lambda>k. if ht_idx (ht, s) k = i then entry_map (entries slot') k else ht_lookup (ht, s) k)"
proof -
  have idx: "ht_idx st' k = ht_idx (ht, s) k" for k
    unfolding st'_def ht_idx_def by (subst idx_cong [of _ ht _ s]) simp_all
  have ready: "hash_ready (ht, s)" and apart: "ptrs_apart ht" and small: "small_heap ma heap"
    using inv by (simp_all add: ht_inv_def)
  obtain sp where sp: "slots_ptr ht = Some sp" "live sp \<noteq> None" using inv by (auto simp: ht_inv_def)
  have oks: "slot_ok ma live (\<lambda>k. ht_idx (ht, s) k = j) (slots ht ! j)" if "j < length (slots ht)" for j
    using inv that by (simp add: ht_inv_def)
  have other: "live' p = live p \<and> entries_ptr slot' \<noteq> Some p"
    if "j < length (slots ht)" "j \<noteq> i" "entries_ptr (slots ht ! j) = Some p" for j p
  proof -
    have "entries_ptr (slots ht ! i) \<noteq> Some p" using apart that i unfolding ptrs_apart_def by blast
    moreover have "live p \<noteq> None" using oks [OF that(1)] that(3) by (auto simp: slot_ok_def)
    ultimately show ?thesis using frame unfolding slot_frame_def by auto
  qed
  have spo: "live' sp = live sp \<and> entries_ptr slot' \<noteq> Some sp"
  proof -
    have "entries_ptr (slots ht ! i) \<noteq> Some sp" using apart sp(1) i unfolding ptrs_apart_def by blast
    then show ?thesis using frame sp(2) unfolding slot_frame_def by auto
  qed
  have "hash_ready st'" using ready by (auto simp: hash_ready_def st'_def hf_deref_def split: if_splits)
  moreover have "ptrs_apart (fst st')"
    unfolding ptrs_apart_def st'_def fst_conv
  proof (intro conjI allI impI; elim conjE)
    fix a b p
    assume h: "a < length (slots (ht\<lparr>slots := (slots ht)[i := slot']\<rparr>))"
      "b < length (slots (ht\<lparr>slots := (slots ht)[i := slot']\<rparr>))"
      "entries_ptr (slots (ht\<lparr>slots := (slots ht)[i := slot']\<rparr>) ! a) = Some p"
      "entries_ptr (slots (ht\<lparr>slots := (slots ht)[i := slot']\<rparr>) ! b) = Some p"
    consider "a = i" "b = i" | "a = i" "b \<noteq> i" | "a \<noteq> i" "b = i" | "a \<noteq> i" "b \<noteq> i" by blast
    then show "a = b"
    proof cases
      case 4
      then show ?thesis using h apart unfolding ptrs_apart_def by simp
    qed (use h other i in auto)
  next
    fix a p
    assume "a < length (slots (ht\<lparr>slots := (slots ht)[i := slot']\<rparr>))"
      "entries_ptr (slots (ht\<lparr>slots := (slots ht)[i := slot']\<rparr>) ! a) = Some p"
    then show "slots_ptr (ht\<lparr>slots := (slots ht)[i := slot']\<rparr>) \<noteq> Some p"
      using apart spo sp i unfolding ptrs_apart_def by (cases "a = i") auto
  qed
  moreover have "slot_ok ma live' (\<lambda>k. ht_idx st' k = j) (slots (fst st') ! j)" if "j < length (slots (fst st'))" for j
  proof (cases "j = i")
    case True
    then show ?thesis using slot i by (simp add: idx) (simp add: st'_def)
  next
    case False
    then show ?thesis using oks [of j] other [of j] that
      by (simp add: idx) (auto simp: st'_def slot_ok_def split: option.splits)
  qed
  ultimately show "ht_inv ma heap st' live'"
    using km small sp spo by (auto simp: ht_inv_def st'_def)
  show "live' a = live a \<and> a \<notin> ht_owns st'" if a: "a \<notin> ht_owns (ht, s)" "live a \<noteq> None" for a
  proof -
    have n: "entries_ptr (slots ht ! i) \<noteq> Some a" using a(1) i by (auto simp: ht_owns_def)
    then have "entries_ptr slot' \<noteq> Some a" using frame a(2) by (auto simp: slot_frame_def)
    then show ?thesis using frame n a(1) unfolding slot_frame_def
      by (auto simp: ht_owns_def st'_def) (metis nth_list_update_eq nth_list_update_neq)
  qed
  have "ht_idx (ht, s) k < length (slots ht)" for k using idx_ready [OF ready, of k] by simp
  then show "ht_lookup st' = (\<lambda>k. if ht_idx (ht, s) k = i then entry_map (entries slot') k else ht_lookup (ht, s) k)"
    using i by (auto simp: ht_lookup_def idx fun_eq_iff) (auto simp: st'_def)
qed

section \<open>The contract of a map\<close>

text \<open>
  What a client of the table relies on. \<open>inv st live\<close>: the state is well formed while the heap holds the
  allocations \<open>live\<close>, of which the map owns \<open>owns st\<close>. A lookup never changes anything; an insertion
  either stores the value or fails for want of memory and changes nothing; a removal may panic (the
  code asserts that shrinking an array succeeds). The allocations of others are left alone.
\<close>

locale kernel_map =
  fixes inv :: "'st \<Rightarrow> live_map \<Rightarrow> bool"
    and owns :: "'st \<Rightarrow> addr set"
    and lookup :: "'st \<Rightarrow> u64 \<rightharpoonup> u64"
    and ins :: "u64 \<Rightarrow> u64 \<Rightarrow> 'st \<Rightarrow> (unit result \<times> 'st) outcome option"
    and fnd :: "u64 \<Rightarrow> 'st \<Rightarrow> u64 result outcome"
    and rem :: "u64 \<Rightarrow> 'st \<Rightarrow> (unit result \<times> 'st) outcome option"
  assumes fnd: "inv st live \<Longrightarrow> fnd k st = Ret (case lookup st k of None \<Rightarrow> Inl ENOENT | Some v \<Rightarrow> Inr v)"
    and ins: "inv st live \<Longrightarrow> \<exists>r st' live'. ins k v st = Some (Ret (r, st')) \<and> inv st' live' \<and>
      (\<forall>a. a \<notin> owns st \<and> live a \<noteq> None \<longrightarrow> live' a = live a \<and> a \<notin> owns st') \<and>
      (case r of Inl e \<Rightarrow> e = ENOMEM \<and> lookup st' = lookup st | Inr _ \<Rightarrow> lookup st' = (lookup st)(k \<mapsto> v))"
    and rem_absent: "inv st live \<Longrightarrow> lookup st k = None \<Longrightarrow> rem k st = Some (Ret (Inl ENOENT, st))"
    and rem_present: "inv st live \<Longrightarrow> lookup st k \<noteq> None \<Longrightarrow> rem k st = Some Panic \<or>
      (\<exists>st' live'. rem k st = Some (Ret (Inr (), st')) \<and> inv st' live' \<and>
        (\<forall>a. a \<notin> owns st \<and> live a \<noteq> None \<longrightarrow> live' a = live a \<and> a \<notin> owns st') \<and>
        lookup st' = (lookup st)(k := None))"

text \<open>A client's sequence of calls, and what it does to the abstract map given the results returned.\<close>

datatype map_op = Put u64 u64 | Del u64

fun run_ops ::
    "(u64 \<Rightarrow> u64 \<Rightarrow> 'st \<Rightarrow> (unit result \<times> 'st) outcome option) \<Rightarrow>
     (u64 \<Rightarrow> 'st \<Rightarrow> (unit result \<times> 'st) outcome option) \<Rightarrow> map_op list \<Rightarrow> 'st \<Rightarrow>
     (unit result list \<times> 'st) outcome option" where
  "run_ops ins rem [] st = Some (Ret ([], st))"
| "run_ops ins rem (op # ops) st =
     bind_run (case op of Put k v \<Rightarrow> ins k v st | Del k \<Rightarrow> rem k st) (\<lambda>(r, st1).
     bind_run (run_ops ins rem ops st1) (\<lambda>(rs, st2). Some (Ret (r # rs, st2))))"

fun spec_op :: "map_op \<Rightarrow> unit result \<Rightarrow> (u64 \<rightharpoonup> u64) \<Rightarrow> (u64 \<rightharpoonup> u64)" where
  "spec_op (Put k v) r m = (if r = Inr () then m(k \<mapsto> v) else m)"
| "spec_op (Del k) r m = m(k := None)"

fun spec_ops :: "map_op list \<Rightarrow> unit result list \<Rightarrow> (u64 \<rightharpoonup> u64) \<Rightarrow> (u64 \<rightharpoonup> u64)" where
  "spec_ops (op # ops) (r # rs) m = spec_ops ops rs (spec_op op r m)"
| "spec_ops _ _ m = m"

context kernel_map
begin

lemma op_refines:
  assumes "inv st live"
  shows "(case op of Put k v \<Rightarrow> ins k v st | Del k \<Rightarrow> rem k st) = Some Panic \<and> (\<exists>k. op = Del k) \<or>
    (\<exists>r st' live'. (case op of Put k v \<Rightarrow> ins k v st | Del k \<Rightarrow> rem k st) = Some (Ret (r, st')) \<and>
       inv st' live' \<and> lookup st' = spec_op op r (lookup st))"
proof (cases op)
  case (Put k v)
  obtain r st' live' where r: "ins k v st = Some (Ret (r, st'))" "inv st' live'"
    "case r of Inl e \<Rightarrow> e = ENOMEM \<and> lookup st' = lookup st | Inr _ \<Rightarrow> lookup st' = (lookup st)(k \<mapsto> v)"
    using ins [OF assms, of k v] by blast
  then have "lookup st' = spec_op op r (lookup st)" using Put by (cases r) auto
  then show ?thesis using r Put by auto
next
  case (Del k)
  show ?thesis
  proof (cases "lookup st k")
    case None
    then have "rem k st = Some (Ret (Inl ENOENT, st))" "(lookup st)(k := None) = lookup st"
      using rem_absent [OF assms] by auto
    then show ?thesis using assms Del by auto
  next
    case (Some v)
    then have "lookup st k \<noteq> None" by simp
    from rem_present [OF assms this] show ?thesis
    proof
      assume "rem k st = Some Panic"
      then show ?thesis using Del by simp
    next
      assume "\<exists>st' live'. rem k st = Some (Ret (Inr (), st')) \<and> inv st' live' \<and>
        (\<forall>a. a \<notin> owns st \<and> live a \<noteq> None \<longrightarrow> live' a = live a \<and> a \<notin> owns st') \<and>
        lookup st' = (lookup st)(k := None)"
      then obtain st' live' where "rem k st = Some (Ret (Inr (), st'))" "inv st' live'"
        "lookup st' = (lookup st)(k := None)" by blast
      then show ?thesis using Del by (intro disjI2 exI [of _ "Inr ()"] exI [of _ st'] exI [of _ live']) simp
    qed
  qed
qed

lemma run_ops_refines:
  "inv st live \<Longrightarrow>
   (\<exists>rs st' live'. run_ops ins rem ops st = Some (Ret (rs, st')) \<and> inv st' live' \<and> length rs = length ops \<and>
      lookup st' = spec_ops ops rs (lookup st)) \<or>
   run_ops ins rem ops st = Some Panic \<and> (\<exists>k. Del k \<in> set ops)"
proof (induction ops arbitrary: st live)
  case Nil
  then show ?case by auto
next
  case (Cons op ops)
  from op_refines [OF Cons.prems, of op] show ?case
  proof
    assume "(case op of Put k v \<Rightarrow> ins k v st | Del k \<Rightarrow> rem k st) = Some Panic \<and> (\<exists>k. op = Del k)"
    then show ?case by auto
  next
    assume "\<exists>r st' live'. (case op of Put k v \<Rightarrow> ins k v st | Del k \<Rightarrow> rem k st) = Some (Ret (r, st')) \<and>
       inv st' live' \<and> lookup st' = spec_op op r (lookup st)"
    then obtain r st1 live1 where
      r: "(case op of Put k v \<Rightarrow> ins k v st | Del k \<Rightarrow> rem k st) = Some (Ret (r, st1))"
      and i: "inv st1 live1" and l: "lookup st1 = spec_op op r (lookup st)" by blast
    from Cons.IH [OF i] show ?case
    proof
      assume "\<exists>rs st' live'. run_ops ins rem ops st1 = Some (Ret (rs, st')) \<and> inv st' live' \<and> length rs = length ops \<and>
        lookup st' = spec_ops ops rs (lookup st1)"
      then obtain rs st' live' where rs: "run_ops ins rem ops st1 = Some (Ret (rs, st'))" "inv st' live'"
        "length rs = length ops" "lookup st' = spec_ops ops rs (lookup st1)" by blast
      then show ?case using r l by (intro disjI1 exI [of _ "r # rs"] exI [of _ st'] exI [of _ live']) simp
    next
      assume "run_ops ins rem ops st1 = Some Panic \<and> (\<exists>k. Del k \<in> set ops)"
      then show ?case using r by auto
    qed
  qed
qed

end

section \<open>The table meets the contract\<close>

lemma ht_find_ok:
  assumes "ht_inv ma heap st live"
  shows "hashtable_find k st = Ret (case ht_lookup st k of None \<Rightarrow> Inl ENOENT | Some v \<Rightarrow> Inr v)"
proof -
  have r: "hash_ready st" using assms by (simp add: ht_inv_def)
  note i = idx_ready [OF r, of k]
  show ?thesis
  proof (cases "hashtable_find_entry k (entries (slots (fst st) ! ht_idx st k)) 0")
    case None
    then have "ht_lookup st k = None" unfolding ht_lookup_def find_entry_None .
    then show ?thesis using i None by (simp add: hashtable_find_def)
  next
    case (Some j)
    then show ?thesis using i find_entry_Some [OF Some] by (simp add: hashtable_find_def ht_lookup_def)
  qed
qed

lemma ht_insert_ok:
  assumes inv: "ht_inv ma heap st live"
  shows "\<exists>r st' live'. hashtable_insert k v st = Some (Ret (r, st')) \<and> ht_inv ma heap st' live' \<and>
      (\<forall>a. a \<notin> ht_owns st \<and> live a \<noteq> None \<longrightarrow> live' a = live a \<and> a \<notin> ht_owns st') \<and>
      (case r of Inl e \<Rightarrow> e = ENOMEM \<and> ht_lookup st' = ht_lookup st | Inr _ \<Rightarrow> ht_lookup st' = (ht_lookup st)(k \<mapsto> v))"
proof (cases st)
  case (Pair ht s)
  let ?i = "ht_idx (ht, s) k"
  have ready: "hash_ready (ht, s)" and km: "km_heap ma (hkm s) heap live" and small: "small_heap ma heap"
    using inv Pair by (simp_all add: ht_inv_def)
  have i: "?i < length (slots ht)" "hashtable_key_to_slot_idx k (ht, s) = Ret (Inr ?i)"
    using idx_ready [OF ready, of k] by simp_all
  have slot: "slot_ok ma live (\<lambda>k. ht_idx (ht, s) k = ?i) (slots ht ! ?i)"
    using inv Pair i(1) by (simp add: ht_inv_def)
  have enl: "hashtable_maybe_enlarge (ht, s) = Some (Ret (Inr (), ht, s))"
    using ready by (simp add: hashtable_maybe_enlarge_def hash_ready_def)
  obtain r slot' km' live' where
    a: "hashtable_add_value_to_slot k v (slots ht ! ?i) (hkm s) = Some (Ret (r, slot', km'))"
    and ok: "km_heap ma km' heap live'" "slot_ok ma live' (\<lambda>k. ht_idx (ht, s) k = ?i) slot'"
      "slot_frame live live' (slots ht ! ?i) slot'"
    and c: "case r of Inl e \<Rightarrow> e = ENOMEM \<and> slot' = slots ht ! ?i
     | Inr _ \<Rightarrow> entry_map (entries slot') = (entry_map (entries (slots ht ! ?i)))(k \<mapsto> v)"
    using add_value_ok [OF km small slot, of k v] by blast
  let ?st = "(ht\<lparr>slots := (slots ht)[?i := slot']\<rparr>, s\<lparr>hkm := km'\<rparr>)"
  have e: "hashtable_insert k v st = Some (Ret (r, ?st))"
    using Pair enl i a by (simp add: hashtable_insert_def)
  note u = table_slot_update [OF inv [unfolded Pair] i(1) ok]
  have "case r of Inl e \<Rightarrow> e = ENOMEM \<and> ht_lookup ?st = ht_lookup st | Inr _ \<Rightarrow> ht_lookup ?st = (ht_lookup st)(k \<mapsto> v)"
    using c unfolding u(3) Pair by (cases r) (auto simp: fun_eq_iff ht_lookup_def)
  then show ?thesis using e u(1,2) Pair by (intro exI [of _ r] exI [of _ ?st] exI [of _ live']) simp
qed

lemma ht_remove_ok:
  assumes inv: "ht_inv ma heap st live"
  shows "ht_lookup st k = None \<Longrightarrow> hashtable_remove k st = Some (Ret (Inl ENOENT, st))"
    and "ht_lookup st k \<noteq> None \<Longrightarrow> hashtable_remove k st = Some Panic \<or>
      (\<exists>st' live'. hashtable_remove k st = Some (Ret (Inr (), st')) \<and> ht_inv ma heap st' live' \<and>
        (\<forall>a. a \<notin> ht_owns st \<and> live a \<noteq> None \<longrightarrow> live' a = live a \<and> a \<notin> ht_owns st') \<and>
        ht_lookup st' = (ht_lookup st)(k := None))"
proof -
  obtain ht s where st: "st = (ht, s)" by (cases st)
  let ?i = "ht_idx (ht, s) k"
  have ready: "hash_ready (ht, s)" and km: "km_heap ma (hkm s) heap live" and small: "small_heap ma heap"
    using inv st by (simp_all add: ht_inv_def)
  have i: "?i < length (slots ht)" "hashtable_key_to_slot_idx k (ht, s) = Ret (Inr ?i)"
    using idx_ready [OF ready, of k] by simp_all
  have slot: "slot_ok ma live (\<lambda>k. ht_idx (ht, s) k = ?i) (slots ht ! ?i)"
    using inv st i(1) by (simp add: ht_inv_def)
  have f: "hashtable_find_entry k (entries (slots ht ! ?i)) 0 = None \<longleftrightarrow> ht_lookup st k = None"
    by (simp add: find_entry_None st ht_lookup_def)
  show "hashtable_remove k st = Some (Ret (Inl ENOENT, st))" if "ht_lookup st k = None"
    using that f i by (simp add: hashtable_remove_def st)
  assume "ht_lookup st k \<noteq> None"
  then obtain j where j: "hashtable_find_entry k (entries (slots ht ! ?i)) 0 = Some j" using f by auto
  then have jl: "j < length (entries (slots ht ! ?i))" "ekey (entries (slots ht ! ?i) ! j) = k"
    using find_entry_Some [OF j] by auto
  have r: "hashtable_remove k st = bind_run (remove_from_slot j (slots ht ! ?i) (hkm s)) (\<lambda>(slot, km).
      Some (Ret (Inr (), ht\<lparr>slots := (slots ht)[?i := slot]\<rparr>, s\<lparr>hkm := km\<rparr>)))"
    using i j by (simp add: hashtable_remove_def st)
  from remove_from_slot_ok [OF km small slot jl(1), unfolded jl(2)]
  show "hashtable_remove k st = Some Panic \<or>
      (\<exists>st' live'. hashtable_remove k st = Some (Ret (Inr (), st')) \<and> ht_inv ma heap st' live' \<and>
        (\<forall>a. a \<notin> ht_owns st \<and> live a \<noteq> None \<longrightarrow> live' a = live a \<and> a \<notin> ht_owns st') \<and>
        ht_lookup st' = (ht_lookup st)(k := None))"
  proof
    assume "2 \<le> length (entries (slots ht ! ?i)) \<and> remove_from_slot j (slots ht ! ?i) (hkm s) = Some Panic"
    then show ?thesis using r by simp
  next
    assume "\<exists>slot' km' live'. remove_from_slot j (slots ht ! ?i) (hkm s) = Some (Ret (slot', km')) \<and>
      km_heap ma km' heap live' \<and> slot_ok ma live' (\<lambda>k. ht_idx (ht, s) k = ?i) slot' \<and>
      slot_frame live live' (slots ht ! ?i) slot' \<and>
      entry_map (entries slot') = (entry_map (entries (slots ht ! ?i)))(k := None)"
    then obtain slot' km' live' where q: "remove_from_slot j (slots ht ! ?i) (hkm s) = Some (Ret (slot', km'))"
      "km_heap ma km' heap live'" "slot_ok ma live' (\<lambda>k. ht_idx (ht, s) k = ?i) slot'"
      "slot_frame live live' (slots ht ! ?i) slot'"
      and m: "entry_map (entries slot') = (entry_map (entries (slots ht ! ?i)))(k := None)"
      by blast
    let ?st = "(ht\<lparr>slots := (slots ht)[?i := slot']\<rparr>, s\<lparr>hkm := km'\<rparr>)"
    note u = table_slot_update [OF inv [unfolded st] i(1) q(2-4)]
    have "ht_lookup ?st = (ht_lookup st)(k := None)" unfolding u(3) st using m by (auto simp: fun_eq_iff ht_lookup_def)
    then show ?thesis using r q(1) u(1,2) st
      by (intro disjI2 exI [of _ ?st] exI [of _ live']) simp
  qed
qed

interpretation ht: kernel_map "ht_inv ma heap" ht_owns ht_lookup hashtable_insert hashtable_find hashtable_remove
  for ma heap
  by unfold_locales (rule ht_find_ok ht_insert_ok ht_remove_ok; assumption)+

lemma sha1_hash_fun_ok: "hash_fun_ok sha1_hashfunc"
proof -
  have "chew sha1_hashfunc (key_bytes k) 8 = Ret (Inr (), rfc_sha1 (key_bytes k))" for k
    using sha1_chew_correct [of "key_bytes k"] by (simp add: sha1_hashfunc_def key_bytes_def)
  then show ?thesis unfolding hash_fun_ok_def by (simp add: sha1_hashfunc_def SHA1_DIGEST_SIZE_def)
qed

lemma hf_store_ready: "hash_fun_ok f \<Longrightarrow> hash_fun_ok (f\<lparr>refcount := n\<rparr>)"
  by (simp add: hash_fun_ok_def)

lemma hashtable_init_ok:
  assumes km: "km_heap ma (hkm s) heap live" and small: "small_heap ma heap"
    and p: "g_hash_funcs s = Some p" and fs: "hash_funcs s \<noteq> []" "\<forall>f \<in> set (hash_funcs s). hash_fun_ok f"
  shows "\<exists>r st live'. hashtable_init s = Some (Ret (r, st)) \<and>
    (case r of Inl e \<Rightarrow> e = ENOMEM | Inr _ \<Rightarrow> ht_inv ma heap st live' \<and> ht_lookup st = Map.empty \<and> live \<subseteq>\<^sub>m live')"
proof -
  obtain i where i: "i < length (hash_funcs s)" "hashing_best_func_by_speed s = Ret (Some (p, i))"
    using best_func_fastest [OF p fs(1)] by blast
  have al: "default_alignment (gallocator_driver ma) = ma" by (simp add: gallocator_driver_def)
  have n: "mul32 slot_bytes INITIAL_HASHTABLE_SLOTS = 64" by (simp add: mul32_def slot_bytes_def INITIAL_HASHTABLE_SLOTS_def)
  have "ma < W32" "\<exists>k. ma = 2 ^ k" using small by (auto simp: small_heap_def)
  then obtain r km' where r: "kcalloc 64 (hkm s) = Some (Ret (r, km'))"
    and c: "case r of None \<Rightarrow> mem km' = mem (hkm s) \<and> km_heap ma km' heap live
     | Some a \<Rightarrow> live a = None \<and> km_heap ma km' heap (live(a \<mapsto> (64, ma))) \<and>
         keeps live (mem (hkm s)) (mem km') \<and> (\<forall>i < 64. mem km' (a + i) = 0)"
    using gd.kcalloc_ok [OF km, of 64] unfolding al by auto
  show ?thesis
  proof (cases r)
    case None
    then show ?thesis using i r n by (simp add: hashtable_init_def Let_def)
  next
    case (Some a)
    let ?s = "s\<lparr>hkm := km'\<rparr>"
    define s1 where "s1 = ?s\<lparr>hash_funcs := (hash_funcs s)[i := (hash_funcs s ! i)
      \<lparr>refcount := add32 (refcount (hash_funcs s ! i)) 1\<rparr>]\<rparr>"
    have s1: "hashing_increase_refcount (p, i) ?s = Ret s1" "hkm s1 = km'" "g_hash_funcs s1 = Some p"
      using p i(1) by (simp_all add: hashing_increase_refcount_def hf_deref_def hf_store_def s1_def)
    have f1: "i < length (hash_funcs s1)" "hash_fun_ok (hash_funcs s1 ! i)"
      using i(1) fs(2) hf_store_ready by (simp_all add: s1_def)
    let ?ht = "zero_hashtable\<lparr>hashfunc := Some (p, i), slots_ptr := Some a, slots := replicate 8 zero_slot,
      slot_capacity := 8, slot_entry_count_threshold := 4\<rparr>"
    have "hashtable_init s = Some (Ret (Inr (), ?ht, s1))"
      using i r n Some s1(1) by (simp add: hashtable_init_def Let_def INITIAL_HASHTABLE_SLOTS_def
          INITIAL_ENLARGE_THRESHOLD_def)
    moreover have ready: "hash_ready (?ht, s1)"
      using s1 f1 by (simp add: hash_ready_def hf_deref_def zero_hashtable_def)
    have "ht_inv ma heap (?ht, s1) (live(a \<mapsto> (64, ma)))"
      using ready c Some small s1(2)
      by (simp add: ht_inv_def) (auto simp: ptrs_apart_def zero_slot_def slot_ok_def nth_replicate)
    moreover have "ht_lookup (?ht, s1) = Map.empty"
      using idx_ready [OF ready] by (simp add: fun_eq_iff ht_lookup_def) (simp add: zero_slot_def)
    moreover have "live \<subseteq>\<^sub>m live(a \<mapsto> (64, ma))" using c Some by (auto simp: map_le_def)
    ultimately show ?thesis by (intro exI [of _ "Inr ()"] exI [of _ "(?ht, s1)"] exI [of _ "live(a \<mapsto> (64, ma))"]) simp
  qed
qed

lemma run_ops_capacity:
  "run_ops hashtable_insert hashtable_remove ops st = Some (Ret (rs, st')) \<Longrightarrow>
   biggest_slot_entry_count (fst st) < slot_entry_count_threshold (fst st) \<Longrightarrow>
   slot_capacity (fst st') = slot_capacity (fst st) \<and>
   biggest_slot_entry_count (fst st') < slot_entry_count_threshold (fst st')"
proof (induction ops arbitrary: st rs)
  case Nil
  then show ?case by simp
next
  case (Cons op ops)
  let ?m = "case op of Put k v \<Rightarrow> hashtable_insert k v st | Del k \<Rightarrow> hashtable_remove k st"
  obtain r st1 where r: "?m = Some (Ret (r, st1))"
    using Cons.prems(1) by (auto simp: bind_run_def split: Option.bind_splits outcome.splits)
  have "slot_capacity (fst st1) = slot_capacity (fst st) \<and>
    biggest_slot_entry_count (fst st1) = biggest_slot_entry_count (fst st) \<and>
    slot_entry_count_threshold (fst st1) = slot_entry_count_threshold (fst st)"
    using r Cons.prems(2)
    by (cases st; cases op)
      (auto simp: hashtable_insert_def hashtable_maybe_enlarge_def hashtable_remove_def bind_run_def
        split: Option.bind_splits outcome.splits sum.splits if_splits option.splits prod.splits)
  moreover obtain rs' where "run_ops hashtable_insert hashtable_remove ops st1 = Some (Ret (rs', st'))"
    using Cons.prems(1) r by (auto simp: bind_run_def split: Option.bind_splits outcome.splits)
  ultimately show ?case using Cons.IH [of st1 rs'] Cons.prems(2) by simp
qed

end
