(* ===== verification/VfsFdt.thy ===== *)
theory VfsFdt
  imports HashTable
begin

text \<open>
  \<^verbatim>\<open>kernel/fs/vfs_fdt.c\<close>: the system-wide table of open files, a hash table from a process file
  descriptor and a process id to a \<open>FileDescriptor\<close> object on the kernel heap. The objects are a map
  from their addresses; an access to an address without an object is a fault. \<open>int\<close> and \<open>pid_t\<close> are
  their 32 bits.
\<close>

section \<open>State and operations\<close>

record FileDescriptor =
  fd_num :: u32
  fd_pid :: u32
  fd_flags :: u32
  fd_off :: int
  fd_vnode :: "addr option"

record fdt_state =
  fdt_ht :: ht_state
  fd_objs :: "addr \<rightharpoonup> FileDescriptor"

definition filedescriptor_size :: nat where "filedescriptor_size = 20"

definition zero_fd :: FileDescriptor where
  "zero_fd = \<lparr>fd_num = 0, fd_pid = 0, fd_flags = 0, fd_off = 0, fd_vnode = None\<rparr>"

definition vfs_fdt_combo_to_hashkey :: "u32 \<Rightarrow> u32 \<Rightarrow> u64" where
  "vfs_fdt_combo_to_hashkey procfd pid = push_bit 32 (scast procfd) OR ucast pid"

definition vfs_fdt_init :: "fdt_state \<Rightarrow> (unit result \<times> fdt_state) outcome option" where
  "vfs_fdt_init t =
     bind_run (hashtable_init (snd (fdt_ht t))) (\<lambda>(r, ht). Some (Ret (r, t\<lparr>fdt_ht := ht\<rparr>)))"

definition set_km :: "kmstate \<Rightarrow> fdt_state \<Rightarrow> fdt_state" where
  "set_km km t = t\<lparr>fdt_ht := (fst (fdt_ht t), (snd (fdt_ht t))\<lparr>hkm := km\<rparr>)\<rparr>"

abbreviation fdt_km :: "fdt_state \<Rightarrow> kmstate" where
  "fdt_km t \<equiv> hkm (snd (fdt_ht t))"

definition vfs_fdt_new_sysfd :: "u32 \<Rightarrow> u32 \<Rightarrow> fdt_state \<Rightarrow> (addr option \<times> fdt_state) outcome option" where
  "vfs_fdt_new_sysfd procfd pid t =
     bind_run (kcalloc filedescriptor_size (fdt_km t)) (\<lambda>(sysfd, km).
       let t1 = set_km km t in
       case sysfd of
         None \<Rightarrow> Some (Ret (None, t1))
       | Some a \<Rightarrow>
           let t2 = t1\<lparr>fd_objs := (fd_objs t1)(a \<mapsto> zero_fd)\<rparr> in
           bind_run (hashtable_insert (vfs_fdt_combo_to_hashkey procfd pid) (word_of_nat a) (fdt_ht t2)) (\<lambda>(st, ht).
             let t3 = t2\<lparr>fdt_ht := ht\<rparr> in
             case st of
               Inl e \<Rightarrow>
                 bind_run (kfree (Some a) (fdt_km t3)) (\<lambda>km1.
                   Some (Ret (None, (set_km km1 t3)\<lparr>fd_objs := (fd_objs t3)(a := None)\<rparr>)))
             | Inr _ \<Rightarrow>
                 Some (Ret (Some a, t3\<lparr>fd_objs := (fd_objs t3)(a \<mapsto> zero_fd\<lparr>fd_pid := pid, fd_num := procfd\<rparr>)\<rparr>))))"

text \<open>The value is converted to a pointer: its low 32 bits, null for 0.\<close>

definition val_to_ptr :: "u64 \<Rightarrow> addr option" where
  "val_to_ptr v = (if unat v mod W32 = 0 then None else Some (unat v mod W32))"

definition vfs_fdt_get_sysfd :: "u32 \<Rightarrow> u32 \<Rightarrow> fdt_state \<Rightarrow> addr option outcome" where
  "vfs_fdt_get_sysfd procfd pid t =
     bind_outcome (hashtable_find (vfs_fdt_combo_to_hashkey procfd pid) (fdt_ht t)) (\<lambda>find_res.
       case find_res of
         Inl e \<Rightarrow> Ret None
       | Inr v \<Rightarrow> Ret (val_to_ptr v))"

definition vfs_fdt_free_sysfd :: "addr \<Rightarrow> fdt_state \<Rightarrow> fdt_state outcome option" where
  "vfs_fdt_free_sysfd sysfd t =
     (case fd_objs t sysfd of
        None \<Rightarrow> Some Panic
      | Some f \<Rightarrow>
          bind_run (hashtable_remove (vfs_fdt_combo_to_hashkey (fd_num f) (fd_pid f)) (fdt_ht t)) (\<lambda>(_, ht).
            let t1 = t\<lparr>fdt_ht := ht\<rparr> in
            bind_run (kfree (Some sysfd) (fdt_km t1)) (\<lambda>km.
              Some (Ret ((set_km km t1)\<lparr>fd_objs := (fd_objs t1)(sysfd := None)\<rparr>)))))"

section \<open>The table as a map\<close>

lemma hashkey_inj:
  "vfs_fdt_combo_to_hashkey fd pid = vfs_fdt_combo_to_hashkey fd' pid' \<longleftrightarrow> fd = fd' \<and> pid = pid'"
proof
  assume k: "vfs_fdt_combo_to_hashkey fd pid = vfs_fdt_combo_to_hashkey fd' pid'"
  have lo: "bit (vfs_fdt_combo_to_hashkey f p) n = bit p n" if "n < 32" for f p n
    using that by (simp add: vfs_fdt_combo_to_hashkey_def bit_simps)
  have hi: "bit (vfs_fdt_combo_to_hashkey f p) (n + 32) = bit f n" if "n < 32" for f p n
    using that by (auto simp: vfs_fdt_combo_to_hashkey_def bit_simps dest: bit_imp_le_length)
  have "pid = pid'"
  proof (rule bit_word_eqI)
    fix n assume "n < LENGTH(32)"
    then show "bit pid n = bit pid' n" using lo [of n fd pid] lo [of n fd' pid'] k by simp
  qed
  moreover have "fd = fd'"
  proof (rule bit_word_eqI)
    fix n assume "n < LENGTH(32)"
    then show "bit fd n = bit fd' n" using hi [of n fd pid] hi [of n fd' pid'] k by simp
  qed
  ultimately show "fd = fd' \<and> pid = pid'" by simp
qed simp

definition fdt_lookup :: "fdt_state \<Rightarrow> u32 \<Rightarrow> u32 \<Rightarrow> addr option" where
  "fdt_lookup t fd pid = Option.bind (ht_lookup (fdt_ht t) (vfs_fdt_combo_to_hashkey fd pid)) val_to_ptr"

text \<open>
  Every address in the table is that of a live \<open>FileDescriptor\<close> with the numbers it is filed under, which
  the hash table's own allocations do not overlap.
\<close>

definition fdt_inv :: "nat \<Rightarrow> Heap \<Rightarrow> fdt_state \<Rightarrow> live_map \<Rightarrow> bool" where
  "fdt_inv ma heap t live \<longleftrightarrow>
     ht_inv ma heap (fdt_ht t) live \<and>
     (\<forall>k v. ht_lookup (fdt_ht t) k = Some v \<longrightarrow>
        (\<exists>a f. val_to_ptr v = Some a \<and> fd_objs t a = Some f \<and>
           vfs_fdt_combo_to_hashkey (fd_num f) (fd_pid f) = k)) \<and>
     (\<forall>a f. fd_objs t a = Some f \<longrightarrow> live a = Some (filedescriptor_size, ma) \<and> a \<notin> ht_owns (fdt_ht t))"

lemma ht_inv_frame:
  assumes inv: "ht_inv ma heap (ht, s) live" and km: "km_heap ma km heap live'"
    and same: "\<forall>a \<in> ht_owns (ht, s). live' a = live a"
  shows "ht_inv ma heap (ht, s\<lparr>hkm := km\<rparr>) live'" and "ht_lookup (ht, s\<lparr>hkm := km\<rparr>) = ht_lookup (ht, s)"
    and "ht_owns (ht, s\<lparr>hkm := km\<rparr>) = ht_owns (ht, s)"
proof -
  have idx: "ht_idx (ht, s\<lparr>hkm := km\<rparr>) k = ht_idx (ht, s) k" for k
    unfolding ht_idx_def by (subst idx_cong [of _ ht _ s]) simp_all
  show "ht_lookup (ht, s\<lparr>hkm := km\<rparr>) = ht_lookup (ht, s)" by (simp add: ht_lookup_def idx fun_eq_iff)
  show "ht_owns (ht, s\<lparr>hkm := km\<rparr>) = ht_owns (ht, s)" by (simp add: ht_owns_def)
  have "hf_deref p (s\<lparr>hkm := km\<rparr>) = hf_deref p s" for p by (simp add: hf_deref_def)
  then have "hash_ready (ht, s\<lparr>hkm := km\<rparr>)" using inv by (simp add: ht_inv_def hash_ready_def)
  moreover have "slot_ok ma live' (\<lambda>k. ht_idx (ht, s) k = i) (slots ht ! i)" if "i < length (slots ht)" for i
  proof -
    have "live' p = live p" if "entries_ptr (slots ht ! i) = Some p" for p
      using that \<open>i < length (slots ht)\<close> same by (auto simp: ht_owns_def)
    moreover have "slot_ok ma live (\<lambda>k. ht_idx (ht, s) k = i) (slots ht ! i)" using inv that by (simp add: ht_inv_def)
    ultimately show ?thesis by (simp add: slot_ok_def split: option.splits)
  qed
  moreover have "\<exists>sp. slots_ptr ht = Some sp \<and> live' sp \<noteq> None"
    using inv same by (auto simp: ht_inv_def ht_owns_def)
  ultimately show "ht_inv ma heap (ht, s\<lparr>hkm := km\<rparr>) live'"
    using inv km by (simp add: ht_inv_def idx)
qed

lemma val_to_ptr_of_nat: "0 < a \<Longrightarrow> a < W32 \<Longrightarrow> val_to_ptr (word_of_nat a) = Some a"
  by (simp add: val_to_ptr_def unat_of_nat)

lemma owned_live: "ht_inv ma heap st live \<Longrightarrow> a \<in> ht_owns st \<Longrightarrow> live a \<noteq> None"
  by (fastforce simp: ht_inv_def ht_owns_def slot_ok_def split: option.splits)

lemma new_sysfd_ok:
  assumes inv: "fdt_inv ma heap t live"
  shows "\<exists>r t' live'. vfs_fdt_new_sysfd fd pid t = Some (Ret (r, t')) \<and> fdt_inv ma heap t' live' \<and>
    (case r of
       None \<Rightarrow> fd_objs t' = fd_objs t \<and> fdt_lookup t' = fdt_lookup t
     | Some a \<Rightarrow> fd_objs t a = None \<and> fd_objs t' = (fd_objs t)(a \<mapsto> zero_fd\<lparr>fd_pid := pid, fd_num := fd\<rparr>) \<and>
         (\<forall>fd' pid'. fdt_lookup t' fd' pid' = (if fd' = fd \<and> pid' = pid then Some a else fdt_lookup t fd' pid')))"
proof -
  obtain ht s where hs: "fdt_ht t = (ht, s)" by (cases "fdt_ht t")
  let ?k = "vfs_fdt_combo_to_hashkey fd pid"
  have hinv: "ht_inv ma heap (ht, s) live" using inv hs by (simp add: fdt_inv_def)
  have km: "km_heap ma (hkm s) heap live" and small: "small_heap ma heap" using hinv by (simp_all add: ht_inv_def)
  have al: "default_alignment (gallocator_driver ma) = ma" by (simp add: gallocator_driver_def)
  have "ma < W32" "\<exists>k. ma = 2 ^ k" using small by (auto simp: small_heap_def)
  then obtain r km1 where r: "kcalloc 20 (hkm s) = Some (Ret (r, km1))"
    and c: "case r of None \<Rightarrow> mem km1 = mem (hkm s) \<and> km_heap ma km1 heap live
     | Some a \<Rightarrow> live a = None \<and> km_heap ma km1 heap (live(a \<mapsto> (20, ma))) \<and>
         keeps live (mem (hkm s)) (mem km1) \<and> (\<forall>i < 20. mem km1 (a + i) = 0)"
    using gd.kcalloc_ok [OF km, of 20] unfolding al by auto
  show ?thesis
  proof (cases r)
    case None
    then have "km_heap ma km1 heap live" using c by simp
    note f = ht_inv_frame [OF hinv this, simplified]
    have "vfs_fdt_new_sysfd fd pid t = Some (Ret (None, set_km km1 t))"
      using r None hs by (simp add: vfs_fdt_new_sysfd_def filedescriptor_size_def)
    moreover have "fdt_inv ma heap (set_km km1 t) live" using inv f hs by (simp add: fdt_inv_def set_km_def)
    moreover have "fdt_lookup (set_km km1 t) = fdt_lookup t"
      using f(2) hs by (simp add: fdt_lookup_def set_km_def fun_eq_iff)
    ultimately show ?thesis by (intro exI [of _ None] exI [of _ "set_km km1 t"] exI [of _ live]) (simp add: set_km_def)
  next
    case (Some a)
    let ?live = "live(a \<mapsto> (20, ma))"
    have km1: "km_heap ma km1 heap ?live" and la: "live a = None" using c Some by auto
    have oa: "a \<notin> ht_owns (ht, s)" using owned_live [OF hinv, of a] la by auto
    have "\<forall>b \<in> ht_owns (ht, s). ?live b = live b" using oa by auto
    note f = ht_inv_frame [OF hinv km1 this]
    have new: "fd_objs t a = None" using inv la by (fastforce simp: fdt_inv_def)
    have av: "val_to_ptr (word_of_nat a) = Some a"
      using km_live_addr [OF km1, of a] by (intro val_to_ptr_of_nat) auto
    obtain r2 st2 live2 where i: "hashtable_insert ?k (word_of_nat a) (ht, s\<lparr>hkm := km1\<rparr>) = Some (Ret (r2, st2))"
      and inv2: "ht_inv ma heap st2 live2"
      and fr: "\<And>b. b \<notin> ht_owns (ht, s) \<Longrightarrow> ?live b \<noteq> None \<Longrightarrow> live2 b = ?live b \<and> b \<notin> ht_owns st2"
      and l2: "case r2 of Inl e \<Rightarrow> e = ENOMEM \<and> ht_lookup st2 = ht_lookup (ht, s)
        | Inr _ \<Rightarrow> ht_lookup st2 = (ht_lookup (ht, s))(?k \<mapsto> word_of_nat a)"
      using ht_insert_ok [OF f(1), of ?k "word_of_nat a"] unfolding f(2,3) by blast
    have objs: "live2 b = Some (20, ma) \<and> b \<notin> ht_owns st2" if "fd_objs t b = Some g" for b g
      using that inv new fr [of b] hs by (cases "b = a") (auto simp: fdt_inv_def filedescriptor_size_def)
    have a2: "live2 a = Some (20, ma)" "a \<notin> ht_owns st2" using fr [OF oa] by auto
    show ?thesis
    proof (cases r2)
      case (Inl e)
      obtain ht2 s2 where st2: "st2 = (ht2, s2)" by (cases st2)
      have "km_heap ma (hkm s2) heap live2" using inv2 st2 by (simp add: ht_inv_def)
      then obtain km3 where k3: "kfree (Some a) (hkm s2) = Some (Ret km3)" "km_heap ma km3 heap (live2(a := None))"
        using gd.kfree_ok [of _ _ _ live2 a] a2(1) by blast
      have "\<forall>b \<in> ht_owns (ht2, s2). (live2(a := None)) b = live2 b" using a2(2) st2 by auto
      note g = ht_inv_frame [OF inv2 [unfolded st2] k3(2) this]
      let ?t = "t\<lparr>fdt_ht := (ht2, s2\<lparr>hkm := km3\<rparr>)\<rparr>"
      have "vfs_fdt_new_sysfd fd pid t = Some (Ret (None, ?t))"
        using r Some hs i Inl st2 k3(1) new
        by (cases t) (simp add: vfs_fdt_new_sysfd_def filedescriptor_size_def set_km_def Let_def fun_upd_idem)
      moreover have lk: "ht_lookup (ht2, s2\<lparr>hkm := km3\<rparr>) = ht_lookup (ht, s)" using g(2) l2 Inl st2 by simp
      moreover have "fdt_inv ma heap ?t (live2(a := None))"
        unfolding fdt_inv_def
      proof (intro conjI allI impI)
        show "ht_inv ma heap (fdt_ht ?t) (live2(a := None))" using g(1) by (simp add: fun_upd_def)
      next
        fix k v assume "ht_lookup (fdt_ht ?t) k = Some v"
        then have "ht_lookup (fdt_ht t) k = Some v" using lk hs by simp
        then show "\<exists>b h. val_to_ptr v = Some b \<and> fd_objs ?t b = Some h \<and>
            vfs_fdt_combo_to_hashkey (fd_num h) (fd_pid h) = k" using inv unfolding fdt_inv_def by simp
      next
        fix b h assume b: "fd_objs ?t b = Some h"
        then have "b \<noteq> a" using new by auto
        then show "(live2(a := None)) b = Some (filedescriptor_size, ma)" "b \<notin> ht_owns (fdt_ht ?t)"
          using b objs [of b h] g(3) st2 by (auto simp: filedescriptor_size_def)
      qed
      ultimately show ?thesis using hs
        by (intro exI [of _ None] exI [of _ ?t] exI [of _ "live2(a := None)"]) (simp add: fdt_lookup_def fun_eq_iff)
    next
      case (Inr u)
      let ?f = "zero_fd\<lparr>fd_pid := pid, fd_num := fd\<rparr>"
      let ?t = "t\<lparr>fdt_ht := st2, fd_objs := (fd_objs t)(a \<mapsto> ?f)\<rparr>"
      have lk: "ht_lookup st2 = (ht_lookup (ht, s))(?k \<mapsto> word_of_nat a)" using l2 Inr by simp
      have "vfs_fdt_new_sysfd fd pid t = Some (Ret (Some a, ?t))"
        using r Some hs i Inr
        by (cases t) (simp add: vfs_fdt_new_sysfd_def filedescriptor_size_def set_km_def Let_def)
      moreover have "fdt_inv ma heap ?t live2"
        unfolding fdt_inv_def
      proof (intro conjI allI impI)
        show "ht_inv ma heap (fdt_ht ?t) live2" using inv2 by simp
      next
        fix k v assume kv: "ht_lookup (fdt_ht ?t) k = Some v"
        show "\<exists>b h. val_to_ptr v = Some b \<and> fd_objs ?t b = Some h \<and>
            vfs_fdt_combo_to_hashkey (fd_num h) (fd_pid h) = k"
        proof (cases "k = ?k")
          case True
          then show ?thesis using kv lk av by simp
        next
          case False
          then have "ht_lookup (fdt_ht t) k = Some v" using kv lk hs by simp
          then obtain b h where "val_to_ptr v = Some b" "fd_objs t b = Some h"
            "vfs_fdt_combo_to_hashkey (fd_num h) (fd_pid h) = k"
            using inv unfolding fdt_inv_def by blast
          then show ?thesis using new by (intro exI [of _ b] exI [of _ h]) auto
        qed
      next
        fix b h assume b: "fd_objs ?t b = Some h"
        show "live2 b = Some (filedescriptor_size, ma)" "b \<notin> ht_owns (fdt_ht ?t)"
          using b objs [of b h] a2 by (auto simp: filedescriptor_size_def split: if_splits)
      qed
      moreover have "fdt_lookup ?t fd' pid' = (if fd' = fd \<and> pid' = pid then Some a else fdt_lookup t fd' pid')" for fd' pid'
        using lk av hs by (auto simp: fdt_lookup_def hashkey_inj)
      ultimately show ?thesis using new by (intro exI [of _ "Some a"] exI [of _ ?t] exI [of _ live2]) simp
    qed
  qed
qed

lemma get_sysfd_eq:
  assumes "fdt_inv ma heap t live"
  shows "vfs_fdt_get_sysfd fd pid t = Ret (fdt_lookup t fd pid)"
  using ht_find_ok [of ma heap "fdt_ht t" live] assms
  by (simp add: vfs_fdt_get_sysfd_def fdt_inv_def fdt_lookup_def split: option.split)

lemma free_sysfd_ok:
  assumes inv: "fdt_inv ma heap t live" and a: "fd_objs t a = Some f"
  shows "vfs_fdt_free_sysfd a t = Some Panic \<or>
    (\<exists>t' live'. vfs_fdt_free_sysfd a t = Some (Ret t') \<and> fdt_inv ma heap t' live' \<and>
      fd_objs t' = (fd_objs t)(a := None) \<and>
      (\<forall>fd pid. fdt_lookup t' fd pid = (if fd = fd_num f \<and> pid = fd_pid f then None else fdt_lookup t fd pid)))"
proof -
  let ?k = "vfs_fdt_combo_to_hashkey (fd_num f) (fd_pid f)"
  have hinv: "ht_inv ma heap (fdt_ht t) live" using inv by (simp add: fdt_inv_def)
  have objs: "live b = Some (20, ma) \<and> b \<notin> ht_owns (fdt_ht t)" if "fd_objs t b = Some g" for b g
    using that inv by (auto simp: fdt_inv_def filedescriptor_size_def)
  consider "hashtable_remove ?k (fdt_ht t) = Some Panic" |
    r st2 live2 where "hashtable_remove ?k (fdt_ht t) = Some (Ret (r, st2))" "ht_inv ma heap st2 live2"
      "\<forall>b. b \<notin> ht_owns (fdt_ht t) \<and> live b \<noteq> None \<longrightarrow> live2 b = live b \<and> b \<notin> ht_owns st2"
      "ht_lookup st2 = (ht_lookup (fdt_ht t))(?k := None)"
  proof (cases "ht_lookup (fdt_ht t) ?k")
    case None
    then have "(ht_lookup (fdt_ht t))(?k := None) = ht_lookup (fdt_ht t)" by auto
    then show ?thesis using ht_remove_ok(1) [OF hinv None] hinv that(2) by auto
  next
    case (Some v)
    then show ?thesis using ht_remove_ok(2) [OF hinv, of ?k] that by blast
  qed
  then show ?thesis
  proof cases
    case 1
    then show ?thesis using a by (simp add: vfs_fdt_free_sysfd_def)
  next
    case (2 r st2 live2)
    obtain ht2 s2 where st2: "st2 = (ht2, s2)" by (cases st2)
    have o2: "live2 b = Some (20, ma) \<and> b \<notin> ht_owns st2" if "fd_objs t b = Some g" for b g
      using objs [OF that] 2(3) by simp
    have "km_heap ma (hkm s2) heap live2" using 2(2) st2 by (simp add: ht_inv_def)
    then obtain km3 where k3: "kfree (Some a) (hkm s2) = Some (Ret km3)" "km_heap ma km3 heap (live2(a := None))"
      using gd.kfree_ok [of _ _ _ live2 a] o2 [OF a] by blast
    have "\<forall>b \<in> ht_owns (ht2, s2). (live2(a := None)) b = live2 b" using o2 [OF a] st2 by auto
    note g = ht_inv_frame [OF 2(2) [unfolded st2] k3(2) this]
    let ?t = "t\<lparr>fdt_ht := (ht2, s2\<lparr>hkm := km3\<rparr>), fd_objs := (fd_objs t)(a := None)\<rparr>"
    have lk: "ht_lookup (ht2, s2\<lparr>hkm := km3\<rparr>) = (ht_lookup (fdt_ht t))(?k := None)" using g(2) 2(4) st2 by simp
    have "vfs_fdt_free_sysfd a t = Some (Ret ?t)"
      using a 2(1) st2 k3(1) by (simp add: vfs_fdt_free_sysfd_def set_km_def Let_def)
    moreover have "fdt_inv ma heap ?t (live2(a := None))"
      unfolding fdt_inv_def
    proof (intro conjI allI impI)
      show "ht_inv ma heap (fdt_ht ?t) (live2(a := None))" using g(1) by (simp add: fun_upd_def)
    next
      fix k v assume "ht_lookup (fdt_ht ?t) k = Some v"
      then have kv: "k \<noteq> ?k" "ht_lookup (fdt_ht t) k = Some v" using lk by (auto split: if_splits)
      then obtain b h where b: "val_to_ptr v = Some b" "fd_objs t b = Some h"
        "vfs_fdt_combo_to_hashkey (fd_num h) (fd_pid h) = k"
        using inv unfolding fdt_inv_def by blast
      then have "b \<noteq> a" using a kv(1) by auto
      then show "\<exists>b h. val_to_ptr v = Some b \<and> fd_objs ?t b = Some h \<and>
          vfs_fdt_combo_to_hashkey (fd_num h) (fd_pid h) = k" using b by auto
    next
      fix b h assume "fd_objs ?t b = Some h"
      then have "b \<noteq> a" "fd_objs t b = Some h" by (auto split: if_splits)
      then show "(live2(a := None)) b = Some (filedescriptor_size, ma)" "b \<notin> ht_owns (fdt_ht ?t)"
        using o2 g(3) st2 by (auto simp: filedescriptor_size_def)
    qed
    ultimately show ?thesis using lk
      by (intro disjI2 exI [of _ ?t] exI [of _ "live2(a := None)"]) (simp add: fdt_lookup_def hashkey_inj)
  qed
qed

end
