(* ===== verification/HashProps.thy ===== *)
theory HashProps
  imports VfsFdt HeapExample
begin

text \<open>
  The properties of the hash table and of the table of open files over it, with a concrete table in the
  demonstration heap where their hypotheses hold.
\<close>

section \<open>A concrete table\<close>

definition demo_ht :: "addr \<Rightarrow> HashTable" where
  "demo_ht a = zero_hashtable\<lparr>hashfunc := Some (64, 0), slots_ptr := Some a, slots := replicate 8 zero_slot,
     slot_capacity := 8, slot_entry_count_threshold := 4\<rparr>"

definition demo_hs :: "kmstate \<Rightarrow> hstate" where
  "demo_hs km = \<lparr>hkm = km, g_hash_funcs = Some 64, hash_funcs = [sha1_hashfunc]\<rparr>"

lemma demo_live:
  "\<exists>a km. km_heap 16 km demo_heap [a \<mapsto> (100, 16)]"
proof -
  obtain a m' where "heap_inv m' demo_heap [a \<mapsto> (100, 16)]" using demo_alloc by blast
  then have "km_heap 16 (demo_state\<lparr>mem := m'\<rparr>) demo_heap [a \<mapsto> (100, 16)]"
    using demo_km_ok by (simp add: km_ok_def)
  then show ?thesis by blast
qed

lemma demo_small: "small_heap 16 demo_heap"
proof -
  have "\<exists>k. (16 :: nat) = 2 ^ k" by (rule exI [of _ 4]) simp
  then show ?thesis by (simp add: small_heap_def demo_heap_end)
qed

lemma demo_ht_inv:
  assumes "km_heap 16 km demo_heap [a \<mapsto> (100, 16)]"
  shows "ht_inv 16 demo_heap (demo_ht a, demo_hs km) [a \<mapsto> (100, 16)]"
    and "ht_lookup (demo_ht a, demo_hs km) = Map.empty"
proof -
  have r: "hash_ready (demo_ht a, demo_hs km)"
    using sha1_hash_fun_ok by (simp add: hash_ready_def demo_ht_def demo_hs_def hf_deref_def zero_hashtable_def)
  show "ht_inv 16 demo_heap (demo_ht a, demo_hs km) [a \<mapsto> (100, 16)]"
    using r assms demo_small
    by (simp add: ht_inv_def) (auto simp: demo_ht_def demo_hs_def ptrs_apart_def zero_slot_def slot_ok_def nth_replicate)
  show "ht_lookup (demo_ht a, demo_hs km) = Map.empty"
    using idx_ready [OF r] by (simp add: fun_eq_iff ht_lookup_def) (simp add: demo_ht_def zero_slot_def)
qed

section \<open>Properties\<close>



text \<open>
  Registering a second hashing function breaks every existing hash table. A table keeps a pointer into
  the array of hashing functions; a registration that succeeds moves the array, and from then on each
  lookup, insertion and removal follows a pointer into freed memory.
\<close>
theorem register_invalidates_tables:
  assumes km: "km_heap ma (hkm s) heap live" and small: "small_heap ma heap"
    and p: "g_hash_funcs s = Some p" "live p = Some (sz, ma)" "sz \<noteq> (length (hash_funcs s) + 1) * hashfunc_size"
      "length (hash_funcs s) < 2 ^ 26"
    and ht: "hashfunc ht = Some (p, i)" "biggest_slot_entry_count ht < slot_entry_count_threshold ht"
  shows "\<exists>r s'. hashing_register_hashfunc f s = Some (Ret (r, s')) \<and>
    (r = Inr () \<longrightarrow> hash_funcs s' = hash_funcs s @ [f] \<and> hashtable_find k (ht, s') = Panic \<and>
       hashtable_insert k v (ht, s') = Some Panic \<and> hashtable_remove k (ht, s') = Some Panic)"
proof -
  let ?n = "(length (hash_funcs s) + 1) * 24"
  have n: "0 < ?n" "?n < W32" "?n \<noteq> sz" using p(3,4) by (simp_all add: hashfunc_size_def)
  then have m: "mul32 (length (hash_funcs s) + 1) hashfunc_size = ?n" by (simp add: mul32_exact hashfunc_size_def)
  have lt: "sz < 2147483648" "ma < 2147483648"
    using live_small [OF km small p(2)] small by (simp_all add: small_heap_def)
  obtain r km' where r: "krealloc (Some p) ?n (hkm s) = Some (Ret (r, km'))"
    and c: "case r of None \<Rightarrow> mem km' = mem (hkm s) \<and> km_heap ma km' heap live
     | Some b \<Rightarrow> km_heap ma km' heap ((live(p := None))(b \<mapsto> (?n, ma))) \<and>
         keeps (live(p := None)) (mem (hkm s)) (mem km') \<and>
         (if ?n = sz then b = p else live b = None) \<and>
         (\<forall>i < min sz ?n. mem km' (b + i) = mem (hkm s) (p + i))"
    using gd.krealloc_full [OF km p(2) n(1,2) lt] by blast
  show ?thesis
  proof (cases r)
    case None
    then show ?thesis using r p(1) m by (simp add: hashing_register_hashfunc_def hashing_new_hashfunc_def)
  next
    case (Some b)
    then have "live b = None" using c n(3) by simp
    then have bp: "b \<noteq> p" using p(2) by auto
    let ?s = "s\<lparr>hkm := km', g_hash_funcs := Some b, hash_funcs := hash_funcs s @ [f]\<rparr>"
    have "hashing_register_hashfunc f s = Some (Ret (Inr (), ?s))"
      using r Some p(1) m by (simp add: hashing_register_hashfunc_def hashing_new_hashfunc_def hf_store_def)
    moreover have "hashtable_key_to_slot_idx k (ht, ?s) = Panic"
      using ht(1) bp by (simp add: hashtable_key_to_slot_idx_def hf_deref_def)
    ultimately show ?thesis using ht(2)
      by (intro exI [of _ "Inr ()"] exI [of _ ?s])
        (simp add: hashtable_find_def hashtable_insert_def hashtable_remove_def hashtable_maybe_enlarge_def)
  qed
qed

theorem register_invalidates_tables_witness:
  "\<exists>s p r s'. g_hash_funcs s = Some p \<and> hashing_register_hashfunc sha1_hashfunc s = Some (Ret (r, s')) \<and>
     (r = Inr () \<longrightarrow> hashtable_find 5 ((demo_ht 0)\<lparr>hashfunc := Some (p, 0)\<rparr>, s') = Panic)"
proof -
  obtain a km where km: "km_heap 16 km demo_heap [a \<mapsto> (100, 16)]" using demo_live by blast
  let ?s = "\<lparr>hkm = km, g_hash_funcs = Some a, hash_funcs = [sha1_hashfunc]\<rparr>"
  have "\<exists>r s'. hashing_register_hashfunc sha1_hashfunc ?s = Some (Ret (r, s')) \<and>
    (r = Inr () \<longrightarrow> hash_funcs s' = hash_funcs ?s @ [sha1_hashfunc] \<and>
       hashtable_find 5 ((demo_ht 0)\<lparr>hashfunc := Some (a, 0)\<rparr>, s') = Panic \<and>
       hashtable_insert 5 0 ((demo_ht 0)\<lparr>hashfunc := Some (a, 0)\<rparr>, s') = Some Panic \<and>
       hashtable_remove 5 ((demo_ht 0)\<lparr>hashfunc := Some (a, 0)\<rparr>, s') = Some Panic)"
    using km by (intro register_invalidates_tables [where live = "[a \<mapsto> (100, 16)]" and heap = demo_heap and ma = 16
          and p = a and sz = 100 and i = 0])
      (simp_all add: demo_small hashfunc_size_def demo_ht_def zero_hashtable_def)
  then show ?thesis by (intro exI [of _ ?s] exI [of _ a]) auto
qed

text \<open>
  The table of open files is a map from descriptor and process id to \<open>FileDescriptor\<close> objects. Creating
  an entry returns either null and leaves the table and the objects as they were, or the address of a
  new object that holds the two numbers and is what the next lookup of that pair returns; the lookup of
  every other pair is unchanged. Different pairs never share a key.
\<close>
theorem fdt_new_then_get:
  assumes "fdt_inv ma heap t live"
  shows "\<exists>r t' live'. vfs_fdt_new_sysfd fd pid t = Some (Ret (r, t')) \<and> fdt_inv ma heap t' live' \<and>
    (case r of
       None \<Rightarrow> fd_objs t' = fd_objs t \<and> (\<forall>fd' pid'. vfs_fdt_get_sysfd fd' pid' t' = vfs_fdt_get_sysfd fd' pid' t)
     | Some a \<Rightarrow> fd_objs t a = None \<and> fd_objs t' = (fd_objs t)(a \<mapsto> zero_fd\<lparr>fd_pid := pid, fd_num := fd\<rparr>) \<and>
         (\<forall>fd' pid'. vfs_fdt_get_sysfd fd' pid' t' =
            (if fd' = fd \<and> pid' = pid then Ret (Some a) else vfs_fdt_get_sysfd fd' pid' t)))"
proof -
  obtain r t' live' where n: "vfs_fdt_new_sysfd fd pid t = Some (Ret (r, t'))" "fdt_inv ma heap t' live'"
    "case r of
       None \<Rightarrow> fd_objs t' = fd_objs t \<and> fdt_lookup t' = fdt_lookup t
     | Some a \<Rightarrow> fd_objs t a = None \<and> fd_objs t' = (fd_objs t)(a \<mapsto> zero_fd\<lparr>fd_pid := pid, fd_num := fd\<rparr>) \<and>
         (\<forall>fd' pid'. fdt_lookup t' fd' pid' = (if fd' = fd \<and> pid' = pid then Some a else fdt_lookup t fd' pid'))"
    using new_sysfd_ok [OF assms, of fd pid] by blast
  have "vfs_fdt_get_sysfd f p t' = Ret (fdt_lookup t' f p)" "vfs_fdt_get_sysfd f p t = Ret (fdt_lookup t f p)" for f p
    using get_sysfd_eq n(2) assms by blast+
  then show ?thesis using n by (intro exI [of _ r] exI [of _ t'] exI [of _ live']) (simp split: option.splits)
qed

definition demo_fdt :: "addr \<Rightarrow> kmstate \<Rightarrow> fdt_state" where
  "demo_fdt a km = \<lparr>fdt_ht = (demo_ht a, demo_hs km), fd_objs = Map.empty\<rparr>"

lemma demo_fdt_inv:
  "km_heap 16 km demo_heap [a \<mapsto> (100, 16)] \<Longrightarrow> fdt_inv 16 demo_heap (demo_fdt a km) [a \<mapsto> (100, 16)]"
  by (simp add: fdt_inv_def demo_fdt_def demo_ht_inv)

theorem fdt_new_then_get_witness:
  "\<exists>a km r t'. vfs_fdt_new_sysfd 3 1 (demo_fdt a km) = Some (Ret (r, t')) \<and>
    vfs_fdt_get_sysfd 3 1 t' = Ret r \<and> vfs_fdt_get_sysfd 4 1 t' = Ret None"
proof -
  obtain a km where km: "km_heap 16 km demo_heap [a \<mapsto> (100, 16)]" using demo_live by blast
  have "fdt_lookup (demo_fdt a km) f p = None" for f p
    by (simp add: fdt_lookup_def demo_fdt_def demo_ht_inv(2) [OF km])
  then have g: "vfs_fdt_get_sysfd f p (demo_fdt a km) = Ret None" for f p
    using get_sysfd_eq [OF demo_fdt_inv [OF km]] by simp
  obtain r t' live' where "vfs_fdt_new_sysfd 3 1 (demo_fdt a km) = Some (Ret (r, t'))"
    "case r of
       None \<Rightarrow> fd_objs t' = fd_objs (demo_fdt a km) \<and>
         (\<forall>fd' pid'. vfs_fdt_get_sysfd fd' pid' t' = vfs_fdt_get_sysfd fd' pid' (demo_fdt a km))
     | Some b \<Rightarrow> fd_objs (demo_fdt a km) b = None \<and>
         fd_objs t' = (fd_objs (demo_fdt a km))(b \<mapsto> zero_fd\<lparr>fd_pid := 1, fd_num := 3\<rparr>) \<and>
         (\<forall>fd' pid'. vfs_fdt_get_sysfd fd' pid' t' =
            (if fd' = 3 \<and> pid' = 1 then Ret (Some b) else vfs_fdt_get_sysfd fd' pid' (demo_fdt a km)))"
    using fdt_new_then_get [OF demo_fdt_inv [OF km], of 3 1] by blast
  then show ?thesis using g by (intro exI [of _ a] exI [of _ km] exI [of _ r] exI [of _ t']) (simp split: option.splits)
qed

end
