(* ===== verification/Bitmap.thy ===== *)
theory Bitmap
  imports Kmalloc
begin

text \<open>
  \<^verbatim>\<open>kernel/utils/bitmap.c\<close>: a bitmap of units with a search cursor, used for the DMA windows of
  processes. \<open>bits\<close> is the array behind \<open>start\<close>; bit \<open>j\<close> of the map is bit \<open>j mod 8\<close> of byte \<open>j div 8\<close>.
\<close>

section \<open>Operations\<close>

record Bitmap =
  bm_start :: "addr option"
  bits :: "u8 list"
  bm_size :: size_t
  byte_cursor :: size_t
  bit_cursor :: nat

abbreviation BITMAP_NOT_INIT :: "Bitmap \<Rightarrow> bool" where
  "BITMAP_NOT_INIT bm \<equiv> bm_size bm = 0"

text \<open>
  The two nested loops of \<open>bitmap_mark_bitmap\<close>; \<open>bt\<close> is the parameter \<open>bit\<close>, at which the inner loop starts
  in every byte. The result is \<open>None\<close> for -1.
\<close>

function mark_loop :: "nat \<Rightarrow> nat \<Rightarrow> nat \<Rightarrow> nat \<Rightarrow> Bitmap \<Rightarrow> Bitmap option" where
  "mark_loop bt i k n bm =
     (if i < bm_size bm then
        if k < 8 then
          let bm1 = bm\<lparr>bits := (bits bm)[i := bits bm ! i OR push_bit k 1]\<rparr>;
              n1 = sub32 n 1
          in if n1 = 0 then Some bm1 else mark_loop bt i (k + 1) n1 bm1
        else mark_loop bt (i + 1) bt n bm
      else None)"
  by pat_completeness auto
termination
  by (relation "(\<lambda>(bt, i, k, n, bm). bm_size bm - i) <*mlex*> measure (\<lambda>(bt, i, k, n, bm). 8 - k)")
    (auto simp: wf_mlex intro: mlex_less mlex_leq)

declare mark_loop.simps [simp del]

definition bitmap_mark_bitmap :: "nat \<Rightarrow> nat \<Rightarrow> nat \<Rightarrow> Bitmap \<Rightarrow> Bitmap option" where
  "bitmap_mark_bitmap byte bt n bm = mark_loop bt byte bt n bm"

definition bitmap_init :: "size_t \<Rightarrow> Bitmap \<Rightarrow> kmstate \<Rightarrow> (unit result \<times> Bitmap \<times> kmstate) outcome option" where
  "bitmap_init units bm km =
     (if units = 0 then Some (Ret (Inl EINVAL, bm, km))
      else
        let size = ceil_ratio units 8 in
        bind_run (kcalloc size km) (\<lambda>(p, km1).
          case p of
            None \<Rightarrow> Some (Ret (Inl ENOMEM, bm\<lparr>bm_start := None\<rparr>, km1))
          | Some a \<Rightarrow> Some (Ret (Inr (),
              \<lparr>bm_start = Some a, bits = replicate size 0, bm_size = size, byte_cursor = 0, bit_cursor = 0\<rparr>, km1))))"

text \<open>The cursor after a hit.\<close>

definition advance_cursor :: "Bitmap \<Rightarrow> Bitmap" where
  "advance_cursor bm =
     (let bit1 = bit_cursor bm + 1 in
      if bit1 = 8 then
        bm\<lparr>byte_cursor := (if byte_cursor bm + 1 = bm_size bm then 0 else byte_cursor bm + 1), bit_cursor := 0\<rparr>
      else bm\<lparr>bit_cursor := bit1\<rparr>)"

function search_loop :: "nat \<Rightarrow> nat \<Rightarrow> nat \<Rightarrow> nat \<Rightarrow> Bitmap \<Rightarrow> (nat result \<times> Bitmap) outcome" where
  "search_loop n found byte_start bit_start bm =
     (if byte_cursor bm < bm_size bm then
        if bit_cursor bm < 8 then
          if \<not> bit (bits bm ! byte_cursor bm) (bit_cursor bm) then
            let bs = (if found = 0 then byte_cursor bm else byte_start);
                bt = (if found = 0 then bit_cursor bm else bit_start)
            in if found + 1 \<noteq> n then
                 search_loop n (found + 1) bs bt (bm\<lparr>bit_cursor := bit_cursor bm + 1\<rparr>)
               else
                 (case bitmap_mark_bitmap bs bt n bm of
                    None \<Rightarrow> Panic
                  | Some bm1 \<Rightarrow> Ret (Inr (bs * 8 + bt), advance_cursor bm1))
          else search_loop n 0 byte_start bit_start (bm\<lparr>bit_cursor := bit_cursor bm + 1\<rparr>)
        else search_loop n found byte_start bit_start (bm\<lparr>byte_cursor := byte_cursor bm + 1, bit_cursor := 0\<rparr>)
      else Ret (Inl ENOMEM, bm))"
  by pat_completeness auto
termination
  by (relation "(\<lambda>(n, f, a, b, bm). bm_size bm - byte_cursor bm) <*mlex*> measure (\<lambda>(n, f, a, b, bm). 8 - bit_cursor bm)")
    (auto simp: wf_mlex intro: mlex_less mlex_leq)

declare search_loop.simps [simp del]

definition bitmap_first_n_free_and_mark :: "nat \<Rightarrow> Bitmap \<Rightarrow> (nat result \<times> Bitmap) outcome" where
  "bitmap_first_n_free_and_mark n bm = search_loop n 0 0 0 bm"

section \<open>Marking\<close>

definition bmbit :: "Bitmap \<Rightarrow> nat \<Rightarrow> bool" where
  "bmbit bm j = bit (bits bm ! (j div 8)) (j mod 8)"

definition bitmap_ok :: "Bitmap \<Rightarrow> bool" where
  "bitmap_ok bm \<longleftrightarrow> length (bits bm) = bm_size bm \<and> bm_size bm < 2 ^ 29 \<and> byte_cursor bm \<le> bm_size bm \<and> bit_cursor bm < 8"

lemma bmbit_cursor [simp]:
  "bmbit (bm\<lparr>byte_cursor := x\<rparr>) j = bmbit bm j" "bmbit (bm\<lparr>bit_cursor := y\<rparr>) j = bmbit bm j"
  by (simp_all add: bmbit_def)

lemma bmbit_set:
  assumes "i < length (bits bm)" and "k < 8"
  shows "bmbit (bm\<lparr>bits := (bits bm)[i := bits bm ! i OR push_bit k 1]\<rparr>) j \<longleftrightarrow> bmbit bm j \<or> j = 8 * i + k"
proof (cases "j div 8 = i")
  case True
  then have "j = 8 * i + k \<longleftrightarrow> j mod 8 = k" using assms(2) by presburger
  moreover have "bit (push_bit k 1 :: u8) (j mod 8) \<longleftrightarrow> j mod 8 = k" using assms(2) by (auto simp: bit_simps)
  ultimately show ?thesis using True assms(1) by (simp add: bmbit_def bit_or_iff)
next
  case False
  moreover from this have "j \<noteq> 8 * i + k" using assms(2) by auto
  ultimately show ?thesis using assms(1) by (simp add: bmbit_def)
qed

text \<open>When the run does not cross a byte, or starts at a byte, exactly the units of the run are marked.\<close>

lemma mark_loop_contiguous:
  assumes "length (bits bm) = bm_size bm" "bm_size bm < 2 ^ 29" "0 < n" "k \<le> 8" "8 * i + k + n \<le> 8 * bm_size bm"
    and "bt = 0 \<or> k + n \<le> 8"
  shows "\<exists>bs. mark_loop bt i k n bm = Some (bm\<lparr>bits := bs\<rparr>) \<and> length bs = bm_size bm \<and>
    (\<forall>j. bmbit (bm\<lparr>bits := bs\<rparr>) j \<longleftrightarrow> bmbit bm j \<or> 8 * i + k \<le> j \<and> j < 8 * i + k + n)"
  using assms
proof (induction bt i k n bm rule: mark_loop.induct)
  case (1 bt i k n bm)
  have i: "i < bm_size bm" using "1.prems" by linarith
  have nw: "sub32 n 1 = n - 1" using "1.prems" by (intro sub32_exact) auto
  show ?case
  proof (cases "k < 8")
    case True
    let ?bm = "bm\<lparr>bits := (bits bm)[i := bits bm ! i OR push_bit k 1]\<rparr>"
    have set: "bmbit ?bm j \<longleftrightarrow> bmbit bm j \<or> j = 8 * i + k" for j using i "1.prems"(1) True by (intro bmbit_set) auto
    show ?thesis
    proof (cases "n = 1")
      case True
      then have "mark_loop bt i k n bm = Some ?bm"
        using i \<open>k < 8\<close> nw by (subst mark_loop.simps) (simp add: Let_def)
      then show ?thesis using set True "1.prems"(1) by auto
    next
      case False
      then have e: "mark_loop bt i k n bm = mark_loop bt i (k + 1) (n - 1) ?bm"
        using i True nw "1.prems"(3) by (subst mark_loop.simps) (simp add: Let_def)
      have "\<exists>bs. mark_loop bt i (k + 1) (n - 1) ?bm = Some (?bm\<lparr>bits := bs\<rparr>) \<and> length bs = bm_size ?bm \<and>
        (\<forall>j. bmbit (?bm\<lparr>bits := bs\<rparr>) j \<longleftrightarrow> bmbit ?bm j \<or> 8 * i + (k + 1) \<le> j \<and> j < 8 * i + (k + 1) + (n - 1))"
        using "1.prems" i True False nw by (intro "1.IH"(1) [of ?bm "n - 1", unfolded nw]) auto
      then obtain bs where bs: "mark_loop bt i (k + 1) (n - 1) ?bm = Some (?bm\<lparr>bits := bs\<rparr>)" "length bs = bm_size ?bm"
        "\<And>j. bmbit (?bm\<lparr>bits := bs\<rparr>) j \<longleftrightarrow> bmbit ?bm j \<or> 8 * i + (k + 1) \<le> j \<and> j < 8 * i + (k + 1) + (n - 1)"
        by blast
      have "bmbit (bm\<lparr>bits := bs\<rparr>) j \<longleftrightarrow> bmbit bm j \<or> 8 * i + k \<le> j \<and> j < 8 * i + k + n" for j
        using bs(3) [of j] set [of j] "1.prems"(3) by auto
      then show ?thesis using e bs by auto
    qed
  next
    case False
    then have k: "k = 8" "bt = 0" using "1.prems" by auto
    have e: "mark_loop bt i k n bm = mark_loop bt (i + 1) 0 n bm"
      using i k by (subst mark_loop.simps) simp
    have "\<exists>bs. mark_loop bt (i + 1) bt n bm = Some (bm\<lparr>bits := bs\<rparr>) \<and> length bs = bm_size bm \<and>
      (\<forall>j. bmbit (bm\<lparr>bits := bs\<rparr>) j \<longleftrightarrow> bmbit bm j \<or> 8 * (i + 1) + bt \<le> j \<and> j < 8 * (i + 1) + bt + n)"
      using "1.prems" i k by (intro "1.IH"(2)) auto
    then show ?thesis using e k by auto
  qed
qed

section \<open>Searching\<close>

lemma search_loop_spec:
  assumes "search_loop n found bs bt bm = Ret (r, bm')" and "0 < n" and "bit_cursor bm \<le> 8" and "byte_cursor bm \<le> bm_size bm"
    and "found < n" and "found \<le> 8 * byte_cursor bm + bit_cursor bm"
    and "0 < found \<longrightarrow> bt < 8 \<and> 8 * bs + bt + found = 8 * byte_cursor bm + bit_cursor bm"
    and "\<forall>j. 8 * byte_cursor bm + bit_cursor bm \<le> j + found \<and> j < 8 * byte_cursor bm + bit_cursor bm \<longrightarrow> \<not> bmbit bm j"
  shows "case r of
     Inl e \<Rightarrow> e = ENOMEM \<and> bits bm' = bits bm \<and> bm_size bm' = bm_size bm \<and> byte_cursor bm' = bm_size bm
   | Inr s \<Rightarrow> s + n \<le> 8 * bm_size bm \<and> (\<forall>j. s \<le> j \<and> j < s + n \<longrightarrow> \<not> bmbit bm j) \<and>
       (\<exists>bm1 bm2. bitmap_mark_bitmap (s div 8) (s mod 8) n bm1 = Some bm2 \<and> bm' = advance_cursor bm2 \<and>
         bits bm1 = bits bm \<and> bm_size bm1 = bm_size bm \<and> bm_start bm1 = bm_start bm \<and>
         8 * byte_cursor bm1 + bit_cursor bm1 + 1 = s + n \<and> bit_cursor bm1 < 8)"
  using assms
proof (induction n found bs bt bm rule: search_loop.induct)
  case (1 n found bs bt bm)
  note pre = "1.prems"
  show ?case
  proof (cases "byte_cursor bm < bm_size bm")
    case False
    then have "search_loop n found bs bt bm = Ret (Inl ENOMEM, bm)" by (subst search_loop.simps) simp
    then show ?thesis using pre False by auto
  next
    case in_byte: True
    show ?thesis
    proof (cases "bit_cursor bm < 8")
      case False
      let ?bm = "bm\<lparr>byte_cursor := byte_cursor bm + 1, bit_cursor := 0\<rparr>"
      have "search_loop n found bs bt bm = search_loop n found bs bt ?bm"
        using in_byte False by (subst search_loop.simps) simp
      then have e: "search_loop n found bs bt ?bm = Ret (r, bm')" using pre(1) by simp
      from False pre(3) have "bit_cursor bm = 8" by simp
      then show ?thesis using "1.IH"(3) [OF in_byte False e pre(2)] pre in_byte by (cases r) (simp_all add: algebra_simps)
    next
      case in_bit: True
      let ?p = "8 * byte_cursor bm + bit_cursor bm"
      let ?bm = "bm\<lparr>bit_cursor := bit_cursor bm + 1\<rparr>"
      have cur: "bit (bits bm ! byte_cursor bm) (bit_cursor bm) = bmbit bm ?p"
        using in_bit by (simp add: bmbit_def)
      show ?thesis
      proof (cases "bmbit bm ?p")
        case True
        then have "search_loop n found bs bt bm = search_loop n 0 bs bt ?bm"
          using in_byte in_bit cur by (subst search_loop.simps) simp
        then have e: "search_loop n 0 bs bt ?bm = Ret (r, bm')" using pre(1) by simp
        have "\<forall>j. Suc ?p \<le> j \<and> j < Suc ?p \<longrightarrow> \<not> bmbit bm j" by auto
        then show ?thesis using "1.IH"(2) [OF in_byte in_bit _ e pre(2)] True cur in_byte in_bit pre(2) by (cases r) simp_all
      next
        case False
        define bs' where "bs' = (if found = 0 then byte_cursor bm else bs)"
        define bt' where "bt' = (if found = 0 then bit_cursor bm else bt)"
        have st: "bt' < 8" "8 * bs' + bt' + found = ?p" using pre(7) in_bit by (auto simp: bs'_def bt'_def)
        have fr: "\<not> bmbit bm j" if "8 * bs' + bt' \<le> j" "j \<le> ?p" for j
        proof (cases "j = ?p")
          case False
          then show ?thesis using that st pre(8) [rule_format, of j] by linarith
        qed (use \<open>\<not> bmbit bm ?p\<close> in simp)
        show ?thesis
        proof (cases "found + 1 = n")
          case False
          then have "search_loop n found bs bt bm = search_loop n (found + 1) bs' bt' ?bm"
            using in_byte in_bit cur \<open>\<not> bmbit bm ?p\<close> by (subst search_loop.simps) (simp add: bs'_def bt'_def Let_def)
          then have e: "search_loop n (found + 1) bs' bt' ?bm = Ret (r, bm')" using pre(1) by simp
          have "\<forall>j. ?p + 1 \<le> j + (found + 1) \<and> j < ?p + 1 \<longrightarrow> \<not> bmbit bm j" using fr st by auto
          then show ?thesis
            using "1.IH"(1) [OF in_byte in_bit _ bs'_def bt'_def False e pre(2)] st pre(5,6) False cur in_byte in_bit
              \<open>\<not> bmbit bm ?p\<close> by (cases r) simp_all
        next
          case True
          then have e: "search_loop n found bs bt bm = (case bitmap_mark_bitmap bs' bt' n bm of
              None \<Rightarrow> Panic | Some bm1 \<Rightarrow> Ret (Inr (bs' * 8 + bt'), advance_cursor bm1))"
            using in_byte in_bit cur \<open>\<not> bmbit bm ?p\<close>
            by (subst search_loop.simps) (cases "found = 0"; simp add: bs'_def bt'_def Let_def split: option.splits)
          then obtain bm2 where m: "bitmap_mark_bitmap bs' bt' n bm = Some bm2" "r = Inr (bs' * 8 + bt')" "bm' = advance_cursor bm2"
            using pre(1) by (auto split: option.splits)
          have "(bs' * 8 + bt') div 8 = bs'" "(bs' * 8 + bt') mod 8 = bt'" using st(1) by simp_all
          moreover have "bs' * 8 + bt' + n = ?p + 1" using st True by simp
          ultimately show ?thesis using m in_byte in_bit fr by auto
        qed
      qed
    qed
  qed
qed

section \<open>Properties\<close>

text \<open>
  A request that returns unit \<open>s\<close> had found \<open>n\<close> free units from \<open>s\<close> inside the map. When the run does not
  cross a byte border, or starts at one, exactly these units become marked, and the map stays well formed
  with its cursor inside.
\<close>
theorem bitmap_alloc_exact:
  assumes ok: "bitmap_ok bm" and n: "0 < n"
    and r: "bitmap_first_n_free_and_mark n bm = Ret (Inr s, bm')"
  shows "s + n \<le> 8 * bm_size bm \<and> (\<forall>j. s \<le> j \<and> j < s + n \<longrightarrow> \<not> bmbit bm j) \<and>
    (s mod 8 = 0 \<or> s mod 8 + n \<le> 8 \<longrightarrow>
       bitmap_ok bm' \<and> (\<forall>j. bmbit bm' j \<longleftrightarrow> bmbit bm j \<or> s \<le> j \<and> j < s + n))"
proof -
  have e: "search_loop n 0 0 0 bm = Ret (Inr s, bm')" using r by (simp add: bitmap_first_n_free_and_mark_def)
  have "case Inr s :: nat result of
     Inl e \<Rightarrow> e = ENOMEM \<and> bits bm' = bits bm \<and> bm_size bm' = bm_size bm \<and> byte_cursor bm' = bm_size bm
   | Inr s \<Rightarrow> s + n \<le> 8 * bm_size bm \<and> (\<forall>j. s \<le> j \<and> j < s + n \<longrightarrow> \<not> bmbit bm j) \<and>
       (\<exists>bm1 bm2. bitmap_mark_bitmap (s div 8) (s mod 8) n bm1 = Some bm2 \<and> bm' = advance_cursor bm2 \<and>
         bits bm1 = bits bm \<and> bm_size bm1 = bm_size bm \<and> bm_start bm1 = bm_start bm \<and>
         8 * byte_cursor bm1 + bit_cursor bm1 + 1 = s + n \<and> bit_cursor bm1 < 8)"
    by (rule search_loop_spec [OF e n]) (use ok n in \<open>auto simp: bitmap_ok_def\<close>)
  then obtain bm1 bm2 where b: "s + n \<le> 8 * bm_size bm" "\<forall>j. s \<le> j \<and> j < s + n \<longrightarrow> \<not> bmbit bm j"
    "bitmap_mark_bitmap (s div 8) (s mod 8) n bm1 = Some bm2" "bm' = advance_cursor bm2"
    "bits bm1 = bits bm" "bm_size bm1 = bm_size bm" "8 * byte_cursor bm1 + bit_cursor bm1 + 1 = s + n" "bit_cursor bm1 < 8"
    by auto
  have "bitmap_ok bm' \<and> (\<forall>j. bmbit bm' j \<longleftrightarrow> bmbit bm j \<or> s \<le> j \<and> j < s + n)" if "s mod 8 = 0 \<or> s mod 8 + n \<le> 8"
  proof -
    have "\<exists>bs. mark_loop (s mod 8) (s div 8) (s mod 8) n bm1 = Some (bm1\<lparr>bits := bs\<rparr>) \<and> length bs = bm_size bm1 \<and>
      (\<forall>j. bmbit (bm1\<lparr>bits := bs\<rparr>) j \<longleftrightarrow> bmbit bm1 j \<or> 8 * (s div 8) + s mod 8 \<le> j \<and> j < 8 * (s div 8) + s mod 8 + n)"
      using ok b n that by (intro mark_loop_contiguous) (auto simp: bitmap_ok_def)
    then obtain bs where bs: "bm2 = bm1\<lparr>bits := bs\<rparr>" "length bs = bm_size bm1"
      "\<And>j. bmbit bm2 j \<longleftrightarrow> bmbit bm1 j \<or> s \<le> j \<and> j < s + n"
      using b(3) by (auto simp: bitmap_mark_bitmap_def)
    have "bmbit bm' j = bmbit bm2 j" for j using b(4) by (simp add: advance_cursor_def Let_def)
    moreover have "bmbit bm1 j = bmbit bm j" for j using b(5) by (simp add: bmbit_def)
    moreover have "bitmap_ok bm'"
    proof -
      have "byte_cursor bm1 < bm_size bm1" using b(1,6,7) by linarith
      then show ?thesis using ok b bs(1,2) by (auto simp: bitmap_ok_def advance_cursor_def Let_def)
    qed
    ultimately show ?thesis using bs(3) by simp
  qed
  then show ?thesis using b(1,2) by blast
qed

definition demo_bitmap :: "u8 list \<Rightarrow> Bitmap" where
  "demo_bitmap bs = \<lparr>bm_start = Some 64, bits = bs, bm_size = length bs, byte_cursor = 0, bit_cursor = 0\<rparr>"

lemmas bitmap_eval = bitmap_first_n_free_and_mark_def search_loop.simps bitmap_mark_bitmap_def mark_loop.simps
  advance_cursor_def demo_bitmap_def bmbit_def sub32_def Let_def push_bit_eq_mult

theorem bitmap_alloc_exact_witness:
  "\<exists>bm'. bitmap_first_n_free_and_mark 3 (demo_bitmap [3, 0]) = Ret (Inr 2, bm') \<and> bitmap_ok bm' \<and>
     (\<forall>j. bmbit bm' j \<longleftrightarrow> bmbit (demo_bitmap [3, 0]) j \<or> 2 \<le> j \<and> j < 5)"
proof -
  let ?bm' = "\<lparr>bm_start = Some 64, bits = [31, 0], bm_size = 2, byte_cursor = 0, bit_cursor = 5\<rparr>"
  have "bitmap_first_n_free_and_mark 3 (demo_bitmap [3, 0]) = Ret (Inr 2, ?bm')" by (simp add: bitmap_eval)
  moreover have "bitmap_ok (demo_bitmap [3, 0])" by (simp add: bitmap_ok_def demo_bitmap_def)
  ultimately show ?thesis using bitmap_alloc_exact [of "demo_bitmap [3, 0]" 3 2 ?bm'] by simp
qed

text \<open>
  The marking loop starts every byte at the first byte's bit. In a map of two bytes with unit 0 taken, a
  request for nine units returns units 1 to 9 but leaves unit 8 unmarked, so that after a request for five
  units the next request for one unit is given unit 8 again; a request for all fifteen free units panics.
\<close>
theorem bitmap_marks_wrong_units:
  "(\<exists>b1 b2 b3. bitmap_first_n_free_and_mark 9 (demo_bitmap [1, 0]) = Ret (Inr 1, b1) \<and> \<not> bmbit b1 8 \<and>
     bitmap_first_n_free_and_mark 5 b1 = Ret (Inr 11, b2) \<and> bitmap_first_n_free_and_mark 1 b2 = Ret (Inr 8, b3)) \<and>
   bitmap_first_n_free_and_mark 15 (demo_bitmap [1, 0]) = Panic"
proof
  let ?b1 = "\<lparr>bm_start = Some 64, bits = [255, 6], bm_size = 2, byte_cursor = 1, bit_cursor = 2\<rparr>"
  let ?b2 = "\<lparr>bm_start = Some 64, bits = [255, 254], bm_size = 2, byte_cursor = 0, bit_cursor = 0\<rparr>"
  let ?b3 = "\<lparr>bm_start = Some 64, bits = [255, 255], bm_size = 2, byte_cursor = 1, bit_cursor = 1\<rparr>"
  have "bitmap_first_n_free_and_mark 9 (demo_bitmap [1, 0]) = Ret (Inr 1, ?b1)" by (simp add: bitmap_eval)
  moreover have "\<not> bmbit ?b1 8" by (simp add: bitmap_eval)
  moreover have "bitmap_first_n_free_and_mark 5 ?b1 = Ret (Inr 11, ?b2)" by (simp add: bitmap_eval)
  moreover have "bitmap_first_n_free_and_mark 1 ?b2 = Ret (Inr 8, ?b3)" by (simp add: bitmap_eval)
  ultimately show "\<exists>b1 b2 b3. bitmap_first_n_free_and_mark 9 (demo_bitmap [1, 0]) = Ret (Inr 1, b1) \<and> \<not> bmbit b1 8 \<and>
     bitmap_first_n_free_and_mark 5 b1 = Ret (Inr 11, b2) \<and> bitmap_first_n_free_and_mark 1 b2 = Ret (Inr 8, b3)" by blast
  show "bitmap_first_n_free_and_mark 15 (demo_bitmap [1, 0]) = Panic" by (simp add: bitmap_eval)
qed

text \<open>
  A request that fails leaves the cursor at the end of the map, and from then on every request fails, for
  however few units and however many are free.
\<close>
theorem bitmap_failure_is_final:
  assumes ok: "bitmap_ok bm" and n: "0 < n" and r: "bitmap_first_n_free_and_mark n bm = Ret (Inl e, bm')"
  shows "bits bm' = bits bm \<and> bitmap_first_n_free_and_mark m bm' = Ret (Inl ENOMEM, bm')"
proof -
  have s: "search_loop n 0 0 0 bm = Ret (Inl e, bm')" using r by (simp add: bitmap_first_n_free_and_mark_def)
  have "case Inl e :: nat result of
     Inl e \<Rightarrow> e = ENOMEM \<and> bits bm' = bits bm \<and> bm_size bm' = bm_size bm \<and> byte_cursor bm' = bm_size bm
   | Inr s \<Rightarrow> s + n \<le> 8 * bm_size bm \<and> (\<forall>j. s \<le> j \<and> j < s + n \<longrightarrow> \<not> bmbit bm j) \<and>
       (\<exists>bm1 bm2. bitmap_mark_bitmap (s div 8) (s mod 8) n bm1 = Some bm2 \<and> bm' = advance_cursor bm2 \<and>
         bits bm1 = bits bm \<and> bm_size bm1 = bm_size bm \<and> bm_start bm1 = bm_start bm \<and>
         8 * byte_cursor bm1 + bit_cursor bm1 + 1 = s + n \<and> bit_cursor bm1 < 8)"
    by (rule search_loop_spec [OF s n]) (use ok n in \<open>auto simp: bitmap_ok_def\<close>)
  then have "bits bm' = bits bm" "byte_cursor bm' = bm_size bm'" by simp_all
  then show ?thesis by (simp add: bitmap_first_n_free_and_mark_def search_loop.simps)
qed

theorem bitmap_failure_is_final_witness:
  "\<exists>bm'. bitmap_first_n_free_and_mark 9 (demo_bitmap [0]) = Ret (Inl ENOMEM, bm') \<and> bits bm' = [0] \<and>
     bitmap_first_n_free_and_mark 1 bm' = Ret (Inl ENOMEM, bm')"
proof -
  let ?bm' = "\<lparr>bm_start = Some 64, bits = [0], bm_size = 1, byte_cursor = 1, bit_cursor = 0\<rparr>"
  have "bitmap_first_n_free_and_mark 9 (demo_bitmap [0]) = Ret (Inl ENOMEM, ?bm')" by (simp add: bitmap_eval)
  moreover have "bitmap_ok (demo_bitmap [0])" by (simp add: bitmap_ok_def demo_bitmap_def)
  ultimately show ?thesis using bitmap_failure_is_final [of "demo_bitmap [0]" 9 ENOMEM ?bm' 1] by simp
qed

end
