(* ===== verification/Ringsched.thy ===== *)
theory Ringsched
  imports Prelude
begin

text \<open>
  \<^verbatim>\<open>drivers/schedulers/ringsched/ringsched.c\<close>: the round-robin scheduler over the array of processes
  (null entries are free process ids). A scheduler is a record of function pointers
  (\<^verbatim>\<open>include/dxgmx/proc/sched.h\<close>) that read the array behind \<open>procs\<close> and keep a private index. The search
  for the next process has no other exit than a process, so it is a partial function.
\<close>

section \<open>The scheduler\<close>

type_synonym procs_t = "addr option list"

record Scheduler =
  sched_name :: string
  sched_priority :: nat
  sched_current :: "procs_t \<Rightarrow> nat \<Rightarrow> addr option outcome"
  sched_next :: "procs_t \<Rightarrow> nat \<Rightarrow> (addr \<times> nat) option"
  sched_reset :: "nat"

partial_function (option) next_loop :: "procs_t \<Rightarrow> nat \<Rightarrow> (addr \<times> nat) option" where
  "next_loop procs newidx =
     (if newidx \<ge> length procs then next_loop procs 0
      else case procs ! newidx of
             None \<Rightarrow> next_loop procs (newidx + 1)
           | Some p \<Rightarrow> Some (p, newidx))"

definition ringsched_next_proc :: "procs_t \<Rightarrow> nat \<Rightarrow> (addr \<times> nat) option" where
  "ringsched_next_proc procs cur = next_loop procs (cur + 1)"

definition ringsched_current_proc :: "procs_t \<Rightarrow> nat \<Rightarrow> addr option outcome" where
  "ringsched_current_proc procs cur = (if cur < length procs then Ret (procs ! cur) else Panic)"

definition ringsched_reset :: nat where "ringsched_reset = 0"

definition g_ringsched :: Scheduler where
  "g_ringsched = \<lparr>sched_name = ''ringscheduler'', sched_priority = 100, sched_current = ringsched_current_proc,
     sched_next = ringsched_next_proc, sched_reset = ringsched_reset\<rparr>"

section \<open>The search\<close>

lemma next_loop_Some:
  assumes eq: "next_loop procs i = Some r"
  shows "\<exists>j < length procs. procs ! j \<noteq> None"
proof (rule next_loop.raw_induct [where P = "\<lambda>procs i r. \<exists>j < length procs. procs ! j \<noteq> None", OF _ eq])
  fix loop procs i r
  assume IH: "\<And>procs i r. loop procs i = Some r \<Longrightarrow> \<exists>j < length procs. procs ! j \<noteq> None"
    and body: "(if length procs \<le> i then loop procs 0
       else case procs ! i of None \<Rightarrow> loop procs (i + 1) | Some p \<Rightarrow> Some (p, i)) = Some r"
  show "\<exists>j < length procs. procs ! j \<noteq> None"
  proof (cases "length procs \<le> i")
    case True
    then show ?thesis using body IH by auto
  next
    case False
    then have "i < length procs" by simp
    then show ?thesis using body IH by (cases "procs ! i") (auto intro!: exI [of _ i])
  qed
qed

lemma next_loop_empty: "\<forall>p \<in> set procs. p = None \<Longrightarrow> next_loop procs i = None"
  using next_loop_Some [of procs i] nth_mem by (cases "next_loop procs i") fastforce+

lemma next_loop_found:
  "i \<le> j \<Longrightarrow> j < length procs \<Longrightarrow> procs ! j = Some p \<Longrightarrow> \<forall>k. i \<le> k \<and> k < j \<longrightarrow> procs ! k = None \<Longrightarrow>
   next_loop procs i = Some (p, j)"
proof (induction "j - i" arbitrary: i)
  case 0
  then show ?case by (simp add: next_loop.simps)
next
  case (Suc d)
  then have "i < j" by simp
  then have "procs ! i = None" using Suc.prems by simp
  moreover have "next_loop procs (i + 1) = Some (p, j)"
    using Suc.hyps(2) \<open>i < j\<close> Suc.prems by (intro Suc.hyps(1)) auto
  ultimately show ?case using \<open>i < j\<close> Suc.prems(2) by (subst next_loop.simps) simp
qed

lemma next_loop_wrap:
  "i \<le> length procs \<Longrightarrow> \<forall>k. i \<le> k \<and> k < length procs \<longrightarrow> procs ! k = None \<Longrightarrow>
   next_loop procs i = next_loop procs 0"
proof (induction "length procs - i" arbitrary: i)
  case 0
  then show ?case by (subst next_loop.simps) simp
next
  case (Suc d)
  then have "i < length procs" by simp
  moreover have "next_loop procs (i + 1) = next_loop procs 0"
    using Suc.hyps(2) Suc.prems calculation by (intro Suc.hyps(1)) auto
  ultimately show ?case using Suc.prems by (subst next_loop.simps) simp
qed

text \<open>The cyclic distance from the current index to the index chosen.\<close>

definition ring_dist :: "nat \<Rightarrow> nat \<Rightarrow> nat \<Rightarrow> nat" where
  "ring_dist n i j = (if i < j then j - i else n - i + j)"

lemma next_proc_spec:
  assumes cur: "cur < length procs" and ex: "\<exists>p \<in> set procs. p \<noteq> None"
  shows "\<exists>p j. ringsched_next_proc procs cur = Some (p, j) \<and> j < length procs \<and> procs ! j = Some p \<and>
    (\<forall>k < length procs. procs ! k \<noteq> None \<longrightarrow> ring_dist (length procs) cur j \<le> ring_dist (length procs) cur k)"
proof -
  let ?n = "length procs"
  show ?thesis
  proof (cases "\<exists>k. cur < k \<and> k < ?n \<and> procs ! k \<noteq> None")
    case True
    define j where "j = (LEAST k. cur < k \<and> k < ?n \<and> procs ! k \<noteq> None)"
    have j: "cur < j" "j < ?n" "procs ! j \<noteq> None"
      unfolding j_def using LeastI_ex [OF True] by auto
    have least: "j \<le> k" if "cur < k" "k < ?n" "procs ! k \<noteq> None" for k
      unfolding j_def using that by (intro Least_le) simp
    obtain p where p: "procs ! j = Some p" using j(3) by blast
    have "procs ! k = None" if "cur < k" "k < j" for k using least [of k] that j(2) by (cases "procs ! k") auto
    then have "ringsched_next_proc procs cur = Some (p, j)"
      unfolding ringsched_next_proc_def using j p by (intro next_loop_found) auto
    moreover have "ring_dist ?n cur j \<le> ring_dist ?n cur k" if "k < ?n" "procs ! k \<noteq> None" for k
      using j least [of k] that cur by (auto simp: ring_dist_def)
    ultimately show ?thesis using p j by blast
  next
    case False
    obtain k where "k < ?n" "procs ! k \<noteq> None" using ex by (metis in_set_conv_nth)
    then have e: "\<exists>k. k < ?n \<and> procs ! k \<noteq> None" by blast
    define j where "j = (LEAST k. k < ?n \<and> procs ! k \<noteq> None)"
    have j: "j < ?n" "procs ! j \<noteq> None" unfolding j_def using LeastI_ex [OF e] by auto
    have least: "j \<le> k" if "k < ?n" "procs ! k \<noteq> None" for k unfolding j_def using that by (intro Least_le) simp
    obtain p where p: "procs ! j = Some p" using j(2) by blast
    have "next_loop procs (cur + 1) = next_loop procs 0" using cur False by (intro next_loop_wrap) force+
    moreover have "procs ! k = None" if "k < j" for k using least [of k] that j(1) by (cases "procs ! k") auto
    then have "next_loop procs 0 = Some (p, j)" using j p by (intro next_loop_found) auto
    ultimately have "ringsched_next_proc procs cur = Some (p, j)" by (simp add: ringsched_next_proc_def)
    moreover have "ring_dist ?n cur j \<le> ring_dist ?n cur k" if "k < ?n" "procs ! k \<noteq> None" for k
      using False j least [OF that] that cur by (auto simp: ring_dist_def)
    ultimately show ?thesis using p j by blast
  qed
qed

text \<open>Calling the scheduler \<open>m\<close> times in a row.\<close>

fun next_times :: "nat \<Rightarrow> procs_t \<Rightarrow> nat \<Rightarrow> nat option" where
  "next_times 0 procs cur = Some cur"
| "next_times (Suc m) procs cur =
     (case ringsched_next_proc procs cur of None \<Rightarrow> None | Some (p, j) \<Rightarrow> next_times m procs j)"

lemma reach_by_distance:
  assumes "j < length procs" and "procs ! j = Some p"
  shows "cur < length procs \<Longrightarrow> \<exists>m. 0 < m \<and> m \<le> ring_dist (length procs) cur j \<and> next_times m procs cur = Some j"
proof (induction "ring_dist (length procs) cur j" arbitrary: cur rule: less_induct)
  case less
  let ?n = "length procs"
  have ex: "\<exists>p \<in> set procs. p \<noteq> None" using assms by (metis nth_mem option.distinct(1))
  obtain q k where k: "ringsched_next_proc procs cur = Some (q, k)" "k < ?n" "procs ! k = Some q"
    "ring_dist ?n cur k \<le> ring_dist ?n cur j"
    using next_proc_spec [OF less.prems ex] assms by auto
  show ?case
  proof (cases "k = j")
    case True
    then show ?thesis using k less.prems by (intro exI [of _ 1]) (auto simp: ring_dist_def)
  next
    case False
    then have d: "ring_dist ?n k j < ring_dist ?n cur j" and d1: "ring_dist ?n k j + 1 \<le> ring_dist ?n cur j"
      using k(2,4) less.prems assms(1) by (auto simp: ring_dist_def split: if_splits)
    obtain m where "0 < m" "m \<le> ring_dist ?n k j" "next_times m procs k = Some j"
      using less.hyps [OF d k(2)] by blast
    then show ?thesis using k(1) d1 by (intro exI [of _ "Suc m"]) simp
  qed
qed

section \<open>Properties\<close>

text \<open>
  C12: as long as some process exists, the scheduler's search ends, and it picks the first process after the
  current one in ring order; with no process at all it never returns.
\<close>
theorem ringsched_next_terminates:
  assumes "cur < length procs"
  shows "if \<exists>p \<in> set procs. p \<noteq> None
    then \<exists>p j. ringsched_next_proc procs cur = Some (p, j) \<and> j < length procs \<and> procs ! j = Some p \<and>
      (\<forall>k < length procs. procs ! k \<noteq> None \<longrightarrow> ring_dist (length procs) cur j \<le> ring_dist (length procs) cur k)
    else ringsched_next_proc procs cur = None"
  using next_proc_spec [OF assms] next_loop_empty [of procs "cur + 1"]
  by (auto simp: ringsched_next_proc_def)

theorem ringsched_next_terminates_witness:
  "\<exists>p j. ringsched_next_proc [Some 8, None, Some 16, None] 2 = Some (p, j) \<and>
     [Some 8, None, Some 16, None] ! j = Some p"
  using ringsched_next_terminates [of 2 "[Some 8, None, Some 16, None]"] by auto

text \<open>
  C11: the scheduler is fair. Whatever process is current, every process in the array is chosen after at most
  as many calls as the array is long.
\<close>
theorem ringsched_fair:
  assumes "cur < length procs" and "j < length procs" and "procs ! j = Some p"
  shows "\<exists>m. 0 < m \<and> m \<le> length procs \<and> next_times m procs cur = Some j"
proof -
  have "ring_dist (length procs) cur j \<le> length procs" using assms by (auto simp: ring_dist_def)
  then show ?thesis using reach_by_distance [OF assms(2,3,1)] by (meson le_trans)
qed

theorem ringsched_fair_witness:
  "\<exists>m. 0 < m \<and> m \<le> 4 \<and> next_times m [Some 8, None, Some 16, Some 24] 2 = Some 2"
  using ringsched_fair [of 2 "[Some 8, None, Some 16, Some 24]" 2 16] by (simp add: eval_nat_numeral)

end
