(* ===== verification/Proc.thy ===== *)
theory Proc
  imports MmWalk Bitmap Ringsched KmallocUse
begin

text \<open>
  Processes: \<^verbatim>\<open>kernel/proc/proc.c\<close>, \<^verbatim>\<open>kernel/proc/procm.c\<close> and the DMA windows of processes,
  \<^verbatim>\<open>kernel/mem/dma.c\<close>. Process objects are a map from addresses; an array on the kernel heap is its address
  with its contents. The address of the process whose code the processor executes is the field \<open>running\<close>:
  a function that switches to another process returns the state in which that process continues. Loading
  a program and spawning, which rest on the file system, are in the theories Elf and Spawn.
\<close>

section \<open>State\<close>

datatype ProcessState = PROC_NEVER_RAN | PROC_RUNNING | PROC_YIELDED | PROC_PREEMPTED | PROC_BLOCKED

record Process =
  proc_path :: "addr option"
  proc_pid :: nat
  paging_struct :: "(addr \<times> PagingStruct) option"
  dma_heap :: Heap
  dma_bitmap :: Bitmap
  fds_ptr :: "addr option"
  fds :: "bool list"
  fd_last_free_idx :: nat
  inst_ptr :: addr
  stack_top :: addr
  stack_pagespan :: nat
  stack_ptr :: addr
  kstack_top :: addr
  zombie :: bool
  exit_status :: int
  proc_state :: ProcessState

record procm_state =
  pmm :: mmstate
  proc_objs :: "addr \<rightharpoonup> Process"
  g_procs_ptr :: "addr option"
  g_procs :: procs_t
  g_last_free_proc_idx :: nat
  g_proc_count :: nat
  g_schedulers_ptr :: "addr option"
  g_schedulers :: "(addr \<times> Scheduler) list"
  g_active_sched :: "(addr \<times> Scheduler) option"
  g_current_proc_idx :: nat
  tss_esp0 :: addr
  running :: "addr option"

definition MIB :: nat where "MIB = 1048576"
definition PROC_HIGH_ADDRESS :: addr where "PROC_HIGH_ADDRESS = 3221225472"
definition PROC_KSTACK_SIZE :: nat where "PROC_KSTACK_SIZE = PAGESIZE"
definition PROC_STACK_SIZE :: nat where "PROC_STACK_SIZE = 2 * PAGESIZE"
definition PAGE_RW :: u16 where "PAGE_RW = PAGE_R OR PAGE_W"

definition zero_bitmap :: Bitmap where
  "zero_bitmap = \<lparr>bm_start = None, bits = [], bm_size = 0, byte_cursor = 0, bit_cursor = 0\<rparr>"

definition zero_process :: Process where
  "zero_process = \<lparr>proc_path = None, proc_pid = 0, paging_struct = None, dma_heap = \<lparr>vaddr = 0, pagespan = 0\<rparr>,
     dma_bitmap = zero_bitmap, fds_ptr = None, fds = [], fd_last_free_idx = 0, inst_ptr = 0, stack_top = 0,
     stack_pagespan = 0, stack_ptr = 0, kstack_top = 0, zombie = False, exit_status = 0,
     proc_state = PROC_NEVER_RAN\<rparr>"

definition with_proc :: "addr \<Rightarrow> procm_state \<Rightarrow> (Process \<Rightarrow> 'r outcome option) \<Rightarrow> 'r outcome option" where
  "with_proc a s k = (case proc_objs s a of None \<Rightarrow> Some Panic | Some p \<Rightarrow> k p)"

definition put_proc :: "addr \<Rightarrow> Process \<Rightarrow> procm_state \<Rightarrow> procm_state" where
  "put_proc a p s = s\<lparr>proc_objs := (proc_objs s)(a \<mapsto> p)\<rparr>"

definition set_pkm :: "kmstate \<Rightarrow> procm_state \<Rightarrow> procm_state" where
  "set_pkm km s = s\<lparr>pmm := (pmm s)\<lparr>mkm := km\<rparr>\<rparr>"

section \<open>File descriptors of a process\<close>

definition proc_enlarge_fds :: "Process \<Rightarrow> kmstate \<Rightarrow> (unit result \<times> Process \<times> kmstate) outcome option" where
  "proc_enlarge_fds p km =
     bind_run (krealloc (fds_ptr p) (add32 (length (fds p)) 4) km) (\<lambda>(tmp, km1).
       case tmp of
         None \<Rightarrow> Some (Ret (Inl ENOMEM, p, km1))
       | Some a \<Rightarrow> Some (Ret (Inr (), p\<lparr>fds_ptr := Some a, fds := fds p @ replicate 4 False\<rparr>, km1)))"

definition proc_init :: "kmstate \<Rightarrow> (unit result \<times> Process \<times> kmstate) outcome option" where
  "proc_init km =
     bind_run (proc_enlarge_fds zero_process km) (\<lambda>(st, p, km1).
       case st of
         Inl e \<Rightarrow> Some (Ret (Inl ENOMEM, p, km1))
       | Inr _ \<Rightarrow> Some (Ret (Inr (), p\<lparr>fd_last_free_idx := 0, proc_state := PROC_NEVER_RAN,
           dma_heap := \<lparr>vaddr = 2 * MIB, pagespan = 2 * MIB div PAGESIZE\<rparr>\<rparr>, km1)))"

text \<open>
  The scan of \<open>proc_new_fd\<close>: the index where it stops, or \<open>None\<close> when the index has come round to its
  starting point. An index below \<open>fd_count\<close> has a successor in \<open>size_t\<close>.
\<close>

function fd_scan :: "nat \<Rightarrow> nat \<Rightarrow> bool list \<Rightarrow> nat option" where
  "fd_scan st0 idx fs =
     (if idx < length fs \<and> fs ! idx then
        (if idx + 1 = st0 then None else fd_scan st0 (idx + 1) fs)
      else Some idx)"
  by pat_completeness auto
termination by (relation "measure (\<lambda>(st0, idx, fs). length fs - idx)") auto

declare fd_scan.simps [simp del]

definition proc_new_fd :: "Process \<Rightarrow> kmstate \<Rightarrow> (nat result \<times> Process \<times> kmstate) outcome option" where
  "proc_new_fd p km =
     (case fd_scan (fd_last_free_idx p) (fd_last_free_idx p) (fds p) of
        None \<Rightarrow> Some (Ret (Inl EOVERFLOW, p, km))
      | Some i \<Rightarrow>
          let p1 = p\<lparr>fd_last_free_idx := i\<rparr> in
          bind_run (if i = length (fds p) then proc_enlarge_fds p1 km else Some (Ret (Inr (), p1, km))) (\<lambda>(st, p2, km1).
            case st of
              Inl e \<Rightarrow> Some (Ret (Inl ENOMEM, p2, km1))
            | Inr _ \<Rightarrow>
                if i < length (fds p2)
                then Some (Ret (Inr i, p2\<lparr>fds := (fds p2)[i := True], fd_last_free_idx := i + 1\<rparr>, km1))
                else Some Panic))"

definition proc_free_fd :: "nat \<Rightarrow> Process \<Rightarrow> Process" where
  "proc_free_fd fd p = (if fd \<ge> length (fds p) then p else p\<lparr>fds := (fds p)[fd := False]\<rparr>)"

section \<open>Stacks and release\<close>

definition proc_create_kernel_stack :: "Process \<Rightarrow> kmstate \<Rightarrow> (unit result \<times> Process \<times> kmstate) outcome option" where
  "proc_create_kernel_stack p km =
     bind_run (kmalloc_aligned PROC_KSTACK_SIZE 4 km) (\<lambda>(a, km1).
       case a of
         None \<Rightarrow> Some (Ret (Inl ENOMEM, p, km1))
       | Some b \<Rightarrow> Some (Ret (Inr (), p\<lparr>kstack_top := add32 b PROC_KSTACK_SIZE\<rparr>, km1)))"

definition proc_destroy_kernel_stack :: "Process \<Rightarrow> kmstate \<Rightarrow> (Process \<times> kmstate) outcome option" where
  "proc_destroy_kernel_stack p km =
     (if kstack_top p = 0 then Some (Ret (p, km))
      else let b = sub32 (kstack_top p) PROC_KSTACK_SIZE in
        bind_run (kfree (if b = 0 then None else Some b) km) (\<lambda>km1. Some (Ret (p\<lparr>kstack_top := 0\<rparr>, km1))))"

fun map_stack_pages :: "nat \<Rightarrow> nat \<Rightarrow> PagingStruct \<Rightarrow> mmstate \<Rightarrow> (unit result \<times> PagingStruct \<times> mmstate) outcome option" where
  "map_stack_pages 0 i ps s = Some (Ret (Inr (), ps, s))"
| "map_stack_pages (Suc n) i ps s =
     bind_run (mm_new_user_page (PROC_HIGH_ADDRESS - PAGESIZE - (i + 1) * PAGESIZE) PAGE_RW ps s) (\<lambda>(st, ps1, s1).
       case st of
         Inl e \<Rightarrow> Some (Ret (Inl e, ps1, s1))
       | Inr _ \<Rightarrow> map_stack_pages n (i + 1) ps1 s1)"

definition proc_create_stack :: "Process \<Rightarrow> mmstate \<Rightarrow> (unit result \<times> Process \<times> mmstate) outcome option" where
  "proc_create_stack p s =
     (case paging_struct p of
        None \<Rightarrow> Some Panic
      | Some (a, ps) \<Rightarrow>
          bind_run (map_stack_pages (PROC_STACK_SIZE div PAGESIZE) 0 ps s) (\<lambda>(st, ps1, s1).
            let p1 = p\<lparr>paging_struct := Some (a, ps1)\<rparr> in
            case st of
              Inl e \<Rightarrow> Some (Ret (Inl e, p1, s1))
            | Inr _ \<Rightarrow> Some (Ret (Inr (), p1\<lparr>stack_top := PROC_HIGH_ADDRESS - PAGESIZE,
                stack_pagespan := PROC_STACK_SIZE div PAGESIZE, stack_ptr := PROC_HIGH_ADDRESS - PAGESIZE\<rparr>, s1))))"

definition free_path :: "Process \<Rightarrow> mmstate \<Rightarrow> (Process \<times> mmstate) outcome option" where
  "free_path p s =
     (case proc_path p of
        None \<Rightarrow> Some (Ret (p, s))
      | Some a \<Rightarrow> bind_run (kfree (Some a) (mkm s)) (\<lambda>km. Some (Ret (p\<lparr>proc_path := None\<rparr>, s\<lparr>mkm := km\<rparr>))))"

definition free_paging :: "Process \<Rightarrow> mmstate \<Rightarrow> (Process \<times> mmstate) outcome option" where
  "free_paging p s =
     (case paging_struct p of
        None \<Rightarrow> Some (Ret (p, s))
      | Some (a, ps) \<Rightarrow>
          bind_run (mm_destroy_paging_struct ps s) (\<lambda>(_, s1).
          bind_run (kfree (Some a) (mkm s1)) (\<lambda>km. Some (Ret (p\<lparr>paging_struct := None\<rparr>, s1\<lparr>mkm := km\<rparr>)))))"

definition free_fds :: "Process \<Rightarrow> mmstate \<Rightarrow> (Process \<times> mmstate) outcome option" where
  "free_fds p s =
     (case fds_ptr p of
        None \<Rightarrow> Some (Ret (p, s))
      | Some a \<Rightarrow> bind_run (kfree (Some a) (mkm s)) (\<lambda>km.
          Some (Ret (p\<lparr>fds_ptr := None, fds := [], fd_last_free_idx := 0\<rparr>, s\<lparr>mkm := km\<rparr>))))"

definition proc_free :: "Process \<Rightarrow> mmstate \<Rightarrow> (Process \<times> mmstate) outcome option" where
  "proc_free p s =
     bind_run (free_path p s) (\<lambda>(p1, s1).
     bind_run (free_paging p1 s1) (\<lambda>(p2, s2).
     bind_run (free_fds p2 s2) (\<lambda>(p3, s3).
     bind_run (proc_destroy_kernel_stack p3 (mkm s3)) (\<lambda>(p4, km). Some (Ret (p4, s3\<lparr>mkm := km\<rparr>))))))"

section \<open>Switching\<close>

definition load_tables :: "Process \<Rightarrow> procm_state \<Rightarrow> procm_state outcome" where
  "load_tables p s =
     (case paging_struct p of
        None \<Rightarrow> Panic
      | Some (_, ps) \<Rightarrow> Ret (s\<lparr>pmm := mm_load_paging_struct ps (pmm s), tss_esp0 := kstack_top p\<rparr>))"

definition proc_enter_initial :: "addr \<Rightarrow> procm_state \<Rightarrow> procm_state outcome option" where
  "proc_enter_initial a s =
     with_proc a s (\<lambda>p.
       let p1 = p\<lparr>proc_state := PROC_RUNNING\<rparr>; s1 = put_proc a p1 s in
       bind_run (Some (load_tables p1 s1)) (\<lambda>s2. Some (Ret (s2\<lparr>running := Some a\<rparr>))))"

definition proc_switch :: "addr \<Rightarrow> addr \<Rightarrow> procm_state \<Rightarrow> procm_state outcome option" where
  "proc_switch cur nxt s =
     with_proc nxt s (\<lambda>n.
       if proc_state n = PROC_RUNNING then Some Panic
       else if proc_state n = PROC_NEVER_RAN then proc_enter_initial nxt s
       else bind_run (Some (load_tables n s)) (\<lambda>s1. Some (Ret (s1\<lparr>running := Some nxt\<rparr>))))"

section \<open>The process table\<close>

function pid_scan :: "nat \<Rightarrow> nat \<Rightarrow> procs_t \<Rightarrow> nat result" where
  "pid_scan st0 idx procs =
     (if idx < length procs \<and> procs ! idx \<noteq> None then
        (if idx + 1 = st0 then Inl EOVERFLOW else pid_scan st0 (idx + 1) procs)
      else Inr idx)"
  by pat_completeness auto
termination by (relation "measure (\<lambda>(st0, idx, procs). length procs - idx)") auto

declare pid_scan.simps [simp del]

definition procm_available_pid :: "procm_state \<Rightarrow> nat result \<times> procm_state" where
  "procm_available_pid s =
     (case pid_scan (g_last_free_proc_idx s) (g_last_free_proc_idx s) (g_procs s) of
        Inl e \<Rightarrow> (Inl e, s)
      | Inr i \<Rightarrow> (Inr (i + 1), s\<lparr>g_last_free_proc_idx := i + 1\<rparr>))"

definition procm_add_proc_to_pool :: "addr \<Rightarrow> procm_state \<Rightarrow> (unit result \<times> procm_state) outcome option" where
  "procm_add_proc_to_pool a s =
     with_proc a s (\<lambda>p.
       let pid_idx = sub32 (proc_pid p) 1; n = length (g_procs s) in
       if pid_idx > n then Some Panic
       else
         bind_run
           (if pid_idx = n then
              bind_run (krealloc (g_procs_ptr s) (add32 (mul32 n 4) 64) (mkm (pmm s))) (\<lambda>(tmp, km).
                case tmp of
                  None \<Rightarrow> Some (Ret (Inl ENOMEM, set_pkm km s))
                | Some q \<Rightarrow> Some (Ret (Inr (), (set_pkm km s)\<lparr>g_procs_ptr := Some q,
                    g_procs := g_procs s @ replicate 16 None\<rparr>)))
            else Some (Ret (Inr (), s)))
           (\<lambda>(st, s1).
             case st of
               Inl e \<Rightarrow> Some (Ret (Inl e, s1))
             | Inr _ \<Rightarrow> Some (Ret (Inr (), s1\<lparr>g_proc_count := add32 (g_proc_count s1) 1,
                 g_procs := (g_procs s1)[pid_idx := Some a]\<rparr>))))"

definition procm_kill :: "addr \<Rightarrow> procm_state \<Rightarrow> (unit result \<times> procm_state) outcome option" where
  "procm_kill a s =
     with_proc a s (\<lambda>p.
       let i = sub32 (proc_pid p) 1 in
       if i < length (g_procs s) then
         let s1 = s\<lparr>g_procs := (g_procs s)[i := None], g_last_free_proc_idx := i,
                    g_proc_count := sub32 (g_proc_count s) 1\<rparr> in
         bind_run (proc_free p (pmm s1)) (\<lambda>(_, mm1).
         bind_run (kfree (Some a) (mkm mm1)) (\<lambda>km.
           Some (Ret (Inr (), s1\<lparr>pmm := mm1\<lparr>mkm := km\<rparr>, proc_objs := (proc_objs s1)(a := None)\<rparr>))))
       else Some Panic)"

definition procm_try_kill_proc :: "addr \<Rightarrow> addr \<Rightarrow> procm_state \<Rightarrow> (unit result \<times> procm_state) outcome option" where
  "procm_try_kill_proc target acting s =
     (if acting = target then
        (if g_proc_count s = 1 then Some Panic else Some (Ret (Inl EINVAL, s)))
      else procm_kill target s)"

section \<open>Schedulers\<close>

definition procm_sched_register :: "addr \<Rightarrow> Scheduler \<Rightarrow> procm_state \<Rightarrow> (unit result \<times> procm_state) outcome option" where
  "procm_sched_register a sched s =
     bind_run (krealloc (g_schedulers_ptr s) (mul32 (length (g_schedulers s) + 1) 4) (mkm (pmm s))) (\<lambda>(tmp, km).
       case tmp of
         None \<Rightarrow> Some (Ret (Inl ENOMEM, set_pkm km s))
       | Some q \<Rightarrow> Some (Ret (Inr (), (set_pkm km s)\<lparr>g_schedulers_ptr := Some q,
           g_schedulers := g_schedulers s @ [(a, sched)]\<rparr>)))"

text \<open>The later elements are moved down over the first match and the count decreases.\<close>

fun remove_first :: "addr \<Rightarrow> (addr \<times> 'a) list \<Rightarrow> (addr \<times> 'a) list option" where
  "remove_first a [] = None"
| "remove_first a (x # xs) = (if fst x = a then Some xs else map_option ((#) x) (remove_first a xs))"

definition procm_sched_unregister :: "addr \<Rightarrow> procm_state \<Rightarrow> unit result \<times> procm_state" where
  "procm_sched_unregister a s =
     (case remove_first a (g_schedulers s) of
        None \<Rightarrow> (Inl ENOENT, s)
      | Some ss \<Rightarrow> (Inr (), s\<lparr>g_schedulers := ss\<rparr>))"

fun best_sched :: "(addr \<times> Scheduler) list \<Rightarrow> addr \<times> Scheduler \<Rightarrow> addr \<times> Scheduler" where
  "best_sched [] best = best"
| "best_sched (x # xs) best =
     best_sched xs (if sched_priority (snd x) > sched_priority (snd best) then x else best)"

definition procm_init :: "procm_state \<Rightarrow> procm_state outcome option" where
  "procm_init s =
     (case g_schedulers s of
        [] \<Rightarrow> Some Panic
      | first # _ \<Rightarrow>
          let s1 = s\<lparr>g_active_sched := Some (best_sched (g_schedulers s) first)\<rparr> in
          bind_run (kcalloc 4 (mkm (pmm s1))) (\<lambda>(q, km).
            case q of
              None \<Rightarrow> Some Panic
            | Some a \<Rightarrow> Some (Ret ((set_pkm km s1)\<lparr>g_procs_ptr := Some a, g_procs := [None],
                g_last_free_proc_idx := 0\<rparr>))))"

definition procm_sched_current_proc :: "procm_state \<Rightarrow> addr outcome" where
  "procm_sched_current_proc s =
     (case g_active_sched s of
        None \<Rightarrow> Panic
      | Some (_, sched) \<Rightarrow>
          bind_outcome (sched_current sched (g_procs s) (g_current_proc_idx s)) (\<lambda>p.
            case p of None \<Rightarrow> Panic | Some a \<Rightarrow> Ret a))"

definition procm_sched_start :: "procm_state \<Rightarrow> procm_state outcome option" where
  "procm_sched_start s =
     (if length (g_procs s) = 0 then Some Panic
      else if length (g_procs s) > 1 then Some Panic
      else case g_active_sched s of
             None \<Rightarrow> Some Panic
           | Some (_, sched) \<Rightarrow>
               let s1 = s\<lparr>g_current_proc_idx := sched_reset sched\<rparr> in
               bind_run (Some (procm_sched_current_proc s1)) (\<lambda>pid1. proc_enter_initial pid1 s1))"

text \<open>\<open>while ((next = next_proc(sched))->zombie) procm_try_kill_proc(next, current)\<close>.\<close>

partial_function (option) reap_loop :: "Scheduler \<Rightarrow> addr \<Rightarrow> procm_state \<Rightarrow> (addr \<times> procm_state) outcome option" where
  "reap_loop sched cur s =
     (case sched_next sched (g_procs s) (g_current_proc_idx s) of
        None \<Rightarrow> None
      | Some (nxt, i) \<Rightarrow>
          let s1 = s\<lparr>g_current_proc_idx := i\<rparr> in
          (case proc_objs s1 nxt of
             None \<Rightarrow> Some Panic
           | Some n \<Rightarrow>
               if zombie n then
                 Option.bind (procm_try_kill_proc nxt cur s1) (\<lambda>r.
                   case r of Panic \<Rightarrow> Some Panic | Ret x \<Rightarrow> reap_loop sched cur (snd x))
               else Some (Ret (nxt, s1))))"

definition procm_sched_yield :: "procm_state \<Rightarrow> procm_state outcome option" where
  "procm_sched_yield s =
     (case g_active_sched s of
        None \<Rightarrow> Some Panic
      | Some (_, sched) \<Rightarrow>
          bind_run (Some (procm_sched_current_proc s)) (\<lambda>cur.
          with_proc cur s (\<lambda>c.
            let s1 = put_proc cur (c\<lparr>proc_state := PROC_YIELDED\<rparr>) s in
            bind_run (reap_loop sched cur s1) (\<lambda>(nxt, s2). proc_switch cur nxt s2))))"

definition procm_mark_dead :: "int \<Rightarrow> addr \<Rightarrow> procm_state \<Rightarrow> procm_state outcome option" where
  "procm_mark_dead st a s =
     with_proc a s (\<lambda>p. Some (Ret (put_proc a (p\<lparr>exit_status := st, zombie := True\<rparr>) s)))"

definition sys_exit :: "int \<Rightarrow> procm_state \<Rightarrow> procm_state outcome option" where
  "sys_exit status s =
     bind_run (Some (procm_sched_current_proc s)) (\<lambda>cur.
     bind_run (procm_mark_dead status cur s) (\<lambda>s1. procm_sched_yield s1))"

section \<open>DMA windows\<close>

fun dma_map_pages :: "nat \<Rightarrow> nat \<Rightarrow> addr \<Rightarrow> addr \<Rightarrow> u16 \<Rightarrow> PagingStruct \<Rightarrow> mmstate \<Rightarrow> (unit result \<times> mmstate) outcome option" where
  "dma_map_pages 0 i va paddr flags ps s = Some (Ret (Inr (), s))"
| "dma_map_pages (Suc n) i va paddr flags ps s =
     bind_run (mm_map_page (add32 va (mul32 i PAGESIZE)) (add32 paddr (mul32 i PAGESIZE)) flags ps s) (\<lambda>(st, s1).
       case st of
         Inl e \<Rightarrow> Some (Ret (Inl e, s1))
       | Inr _ \<Rightarrow> dma_map_pages n (i + 1) va paddr flags ps s1)"

definition dma_map_range ::
    "addr \<Rightarrow> size_t \<Rightarrow> u16 \<Rightarrow> Process \<Rightarrow> mmstate \<Rightarrow> (addr result \<times> Process \<times> mmstate) outcome option" where
  "dma_map_range paddr n flags p s =
     (if paddr mod PAGESIZE \<noteq> 0 then Some Panic
      else
        bind_run
          (if BITMAP_NOT_INIT (dma_bitmap p) then bitmap_init (pagespan (dma_heap p)) (dma_bitmap p) (mkm s)
           else Some (Ret (Inr (), dma_bitmap p, mkm s)))
          (\<lambda>(st, bm, km).
            let p1 = p\<lparr>dma_bitmap := bm\<rparr>; s1 = s\<lparr>mkm := km\<rparr> in
            case st of
              Inl e \<Rightarrow> Some (Ret (Inl e, p1, s1))
            | Inr _ \<Rightarrow>
                let pages = (bytes_align_up64 n PAGESIZE mod W32) div PAGESIZE in
                bind_run (Some (bitmap_first_n_free_and_mark pages bm)) (\<lambda>(r, bm1).
                  let p2 = p1\<lparr>dma_bitmap := bm1\<rparr> in
                  case r of
                    Inl e \<Rightarrow> Some (Ret (Inl ENOMEM, p2, s1))
                  | Inr first \<Rightarrow>
                      (case paging_struct p2 of
                         None \<Rightarrow> if pages = 0 then Some (Ret (Inr (add32 (vaddr (dma_heap p)) (mul32 first PAGESIZE)), p2, s1)) else Some Panic
                       | Some (_, ps) \<Rightarrow>
                           let va = add32 (vaddr (dma_heap p)) (mul32 first PAGESIZE) in
                           bind_run (dma_map_pages pages 0 va paddr flags ps s1) (\<lambda>(st2, s2).
                             case st2 of
                               Inl e \<Rightarrow> Some (Ret (Inl e, p2, s2))
                             | Inr _ \<Rightarrow> Some (Ret (Inr va, p2, s2)))))))"

end
