(* ===== verification/ProcProps.thy ===== *)
theory ProcProps
  imports Proc HeapExample
begin

text \<open>
  Properties of processes: file descriptor numbers, process ids and the table of processes, and switching
  through the scheduler.
\<close>

section \<open>Descriptors\<close>

definition fds_ok :: "nat \<Rightarrow> Process \<Rightarrow> live_map \<Rightarrow> bool" where
  "fds_ok ma p live \<longleftrightarrow> fd_last_free_idx p \<le> length (fds p) \<and>
     (\<forall>q. fds_ptr p = Some q \<longrightarrow> live q = Some (length (fds p), ma)) \<and> (fds_ptr p = None \<longrightarrow> fds p = [])"

text \<open>Apart from the array of descriptors at \<open>p\<close>, every allocation stays.\<close>

definition keeps_others :: "addr option \<Rightarrow> live_map \<Rightarrow> live_map \<Rightarrow> bool" where
  "keeps_others p live live' \<longleftrightarrow> (\<forall>q. p \<noteq> Some q \<and> live q \<noteq> None \<longrightarrow> live' q = live q)"

lemma keeps_others_refl [simp]: "keeps_others p live live"
  by (simp add: keeps_others_def)

lemma fd_scan_spec:
  "st0 \<le> idx \<Longrightarrow> idx \<le> length fs \<Longrightarrow>
   \<exists>i. fd_scan st0 idx fs = Some i \<and> idx \<le> i \<and> i \<le> length fs \<and> (i < length fs \<longrightarrow> \<not> fs ! i) \<and> (\<forall>k. idx \<le> k \<and> k < i \<longrightarrow> fs ! k)"
proof (induction st0 idx fs rule: fd_scan.induct)
  case (1 st0 idx fs)
  show ?case
  proof (cases "idx < length fs \<and> fs ! idx")
    case True
    then have "fd_scan st0 idx fs = fd_scan st0 (idx + 1) fs" using "1.prems" by (subst fd_scan.simps) simp
    moreover obtain i where i: "fd_scan st0 (idx + 1) fs = Some i" "idx + 1 \<le> i" "i \<le> length fs"
      "i < length fs \<longrightarrow> \<not> fs ! i" "\<forall>k. idx + 1 \<le> k \<and> k < i \<longrightarrow> fs ! k"
      using "1.IH" True "1.prems" by force
    moreover have "fs ! k" if "idx \<le> k" "k < i" for k using that True i(5) by (cases "k = idx") auto
    ultimately show ?thesis by force
  next
    case False
    then show ?thesis using "1.prems" by (subst fd_scan.simps) auto
  qed
qed

lemma enlarge_fds_ok:
  assumes km: "km_heap ma km heap live" and small: "small_heap ma heap" and p: "fds_ok ma p live"
  shows "\<exists>r p' km' live'. proc_enlarge_fds p km = Some (Ret (r, p', km')) \<and> km_heap ma km' heap live' \<and> fds_ok ma p' live' \<and>
    (case r of Inl e \<Rightarrow> e = ENOMEM \<and> p' = p
     | Inr _ \<Rightarrow> fds p' = fds p @ replicate 4 False \<and> fd_last_free_idx p' = fd_last_free_idx p) \<and>
    proc_pid p' = proc_pid p \<and> keeps_others (fds_ptr p) live live'"
proof -
  have live: "\<forall>q. fds_ptr p = Some q \<longrightarrow> (\<exists>sz. live q = Some (sz, ma))" using p by (auto simp: fds_ok_def)
  have "length (fds p) < 2147483632"
  proof (cases "fds_ptr p")
    case None
    then show ?thesis using p by (simp add: fds_ok_def)
  next
    case (Some q)
    then show ?thesis using live_small [OF km small, of q] p by (simp add: fds_ok_def)
  qed
  then have n: "0 < length (fds p) + 4" "length (fds p) + 4 < 2147483648" "add32 (length (fds p)) 4 = length (fds p) + 4"
    by (simp_all add: add32_exact)
  obtain r km' where r: "krealloc (fds_ptr p) (length (fds p) + 4) km = Some (Ret (r, km'))"
    and c: "case r of None \<Rightarrow> km_heap ma km' heap live
     | Some b \<Rightarrow> km_heap ma km' heap
          ((case fds_ptr p of None \<Rightarrow> live | Some q \<Rightarrow> live(q := None))(b \<mapsto> (length (fds p) + 4, ma))) \<and>
         (fds_ptr p = Some b \<or> live b = None)"
    using realloc_any [OF km small live n(1,2)] by blast
  show ?thesis
  proof (cases r)
    case None
    then show ?thesis using r c n(3) p
      by (intro exI [of _ "Inl ENOMEM"] exI [of _ p] exI [of _ km'] exI [of _ live]) (simp add: proc_enlarge_fds_def)
  next
    case (Some b)
    let ?p = "p\<lparr>fds_ptr := Some b, fds := fds p @ replicate 4 False\<rparr>"
    let ?live = "(case fds_ptr p of None \<Rightarrow> live | Some q \<Rightarrow> live(q := None))(b \<mapsto> (length (fds p) + 4, ma))"
    have "keeps_others (fds_ptr p) live ?live" using c Some by (auto simp: keeps_others_def split: option.splits)
    moreover have "fds_ok ma ?p ?live" using p by (simp add: fds_ok_def)
    ultimately show ?thesis using r c n(3) Some
      by (intro exI [of _ "Inr ()"] exI [of _ ?p] exI [of _ km'] exI [of _ ?live]) (simp add: proc_enlarge_fds_def)
  qed
qed

lemma new_fd_ok:
  assumes km: "km_heap ma km heap live" and small: "small_heap ma heap" and p: "fds_ok ma p live"
  shows "\<exists>r p' km' live'. proc_new_fd p km = Some (Ret (r, p', km')) \<and> km_heap ma km' heap live' \<and> fds_ok ma p' live' \<and>
    (case r of Inl e \<Rightarrow> e = ENOMEM \<and> fds p' = fds p
     | Inr fd \<Rightarrow> fd_last_free_idx p \<le> fd \<and> fd_last_free_idx p' = fd + 1 \<and> fd < length (fds p') \<and> fds p' ! fd \<and>
         (fd < length (fds p) \<longrightarrow> \<not> fds p ! fd) \<and> length (fds p) \<le> length (fds p') \<and>
         (\<forall>i < length (fds p). i \<noteq> fd \<longrightarrow> fds p' ! i = fds p ! i)) \<and>
    proc_pid p' = proc_pid p \<and> keeps_others (fds_ptr p) live live'"
proof -
  have l: "fd_last_free_idx p \<le> length (fds p)" using p by (simp add: fds_ok_def)
  obtain i where i: "fd_scan (fd_last_free_idx p) (fd_last_free_idx p) (fds p) = Some i" "fd_last_free_idx p \<le> i"
    "i \<le> length (fds p)" "i < length (fds p) \<longrightarrow> \<not> fds p ! i"
    using fd_scan_spec [OF order_refl l] by blast
  let ?p1 = "p\<lparr>fd_last_free_idx := i\<rparr>"
  have p1: "fds_ok ma ?p1 live" using p i(3) by (simp add: fds_ok_def)
  show ?thesis
  proof (cases "i = length (fds p)")
    case False
    let ?p2 = "?p1\<lparr>fds := (fds p)[i := True], fd_last_free_idx := i + 1\<rparr>"
    have "proc_new_fd p km = Some (Ret (Inr i, ?p2, km))" using False i by (simp add: proc_new_fd_def Let_def)
    moreover have "fds_ok ma ?p2 live" using p i False by (auto simp: fds_ok_def)
    ultimately show ?thesis using km i False by (intro exI [of _ "Inr i"] exI [of _ ?p2] exI [of _ km] exI [of _ live]) simp
  next
    case True
    obtain r p2 km' live' where e: "proc_enlarge_fds ?p1 km = Some (Ret (r, p2, km'))" "km_heap ma km' heap live'"
      "fds_ok ma p2 live'"
      and c: "case r of Inl e \<Rightarrow> e = ENOMEM \<and> p2 = ?p1
        | Inr _ \<Rightarrow> fds p2 = fds ?p1 @ replicate 4 False \<and> fd_last_free_idx p2 = fd_last_free_idx ?p1"
      and o: "proc_pid p2 = proc_pid p" "keeps_others (fds_ptr p) live live'"
      using enlarge_fds_ok [OF km small p1] by auto
    show ?thesis
    proof (cases r)
      case (Inl e')
      then show ?thesis using e c i(1) True o
        by (intro exI [of _ "Inl ENOMEM"] exI [of _ p2] exI [of _ km'] exI [of _ live']) (simp add: proc_new_fd_def Let_def)
    next
      case (Inr u)
      let ?p3 = "p2\<lparr>fds := (fds p2)[i := True], fd_last_free_idx := i + 1\<rparr>"
      have f: "fds p2 = fds p @ replicate 4 False" using c Inr by simp
      have "proc_new_fd p km = Some (Ret (Inr i, ?p3, km'))"
        using e(1) Inr i(1) True f by (simp add: proc_new_fd_def Let_def)
      moreover have "fds_ok ma ?p3 live'" using e(3) f True by (auto simp: fds_ok_def)
      ultimately show ?thesis using e(2) i f True o
        by (intro exI [of _ "Inr i"] exI [of _ ?p3] exI [of _ km'] exI [of _ live']) (simp add: nth_append)
    qed
  qed
qed

lemma new_fd_last:
  assumes "proc_new_fd p km = Some (Ret (Inr fd, p', km'))" and "fd_last_free_idx p \<le> length (fds p)"
  shows "fd_last_free_idx p \<le> fd \<and> fd_last_free_idx p' = fd + 1 \<and> fd < length (fds p')"
proof -
  obtain i where i: "fd_scan (fd_last_free_idx p) (fd_last_free_idx p) (fds p) = Some i" "fd_last_free_idx p \<le> i"
    using fd_scan_spec [OF order_refl assms(2)] by blast
  then show ?thesis using assms(1)
    by (auto simp: proc_new_fd_def Let_def bind_run_def split: Option.bind_splits outcome.splits sum.splits if_splits)
qed

lemma fold_free_fd:
  "fd_last_free_idx (fold proc_free_fd xs p) = fd_last_free_idx p \<and> length (fds (fold proc_free_fd xs p)) = length (fds p)"
  by (induction xs arbitrary: p) (auto simp: proc_free_fd_def)

section \<open>Process ids\<close>

lemma pid_scan_spec:
  "st0 \<le> idx \<Longrightarrow> \<exists>i. pid_scan st0 idx procs = Inr i \<and> idx \<le> i \<and> (i < length procs \<longrightarrow> procs ! i = None) \<and>
     (idx \<le> length procs \<longrightarrow> i \<le> length procs)"
proof (induction st0 idx procs rule: pid_scan.induct)
  case (1 st0 idx procs)
  show ?case
  proof (cases "idx < length procs \<and> procs ! idx \<noteq> None")
    case True
    then have "pid_scan st0 idx procs = pid_scan st0 (idx + 1) procs" using "1.prems" by (subst pid_scan.simps) simp
    moreover obtain i where "pid_scan st0 (idx + 1) procs = Inr i" "idx + 1 \<le> i" "i < length procs \<longrightarrow> procs ! i = None"
      "idx + 1 \<le> length procs \<longrightarrow> i \<le> length procs"
      using "1.IH" True "1.prems" by force
    ultimately show ?thesis using True by force
  next
    case False
    then show ?thesis using "1.prems" by (subst pid_scan.simps) auto
  qed
qed

lemma available_pid_eq:
  "\<exists>i. procm_available_pid s = (Inr (i + 1), s\<lparr>g_last_free_proc_idx := i + 1\<rparr>) \<and> g_last_free_proc_idx s \<le> i \<and>
     (i < length (g_procs s) \<longrightarrow> g_procs s ! i = None) \<and>
     (g_last_free_proc_idx s \<le> length (g_procs s) \<longrightarrow> i \<le> length (g_procs s))"
  using pid_scan_spec [OF order_refl, of "g_last_free_proc_idx s" "g_procs s"]
  by (auto simp: procm_available_pid_def)

text \<open>Every process in the table stands at the index of its id.\<close>

definition table_ok :: "procm_state \<Rightarrow> bool" where
  "table_ok s \<longleftrightarrow> length (g_procs s) < 2 ^ 29 \<and>
     (\<forall>i a. i < length (g_procs s) \<and> g_procs s ! i = Some a \<longrightarrow> (\<exists>p. proc_objs s a = Some p \<and> proc_pid p = i + 1))"

section \<open>Properties\<close>

text \<open>
  C20: \<open>proc_new_fd\<close> always returns. On success the descriptor was free and is now taken, every other
  descriptor of the table is unchanged and the table only grows; for want of memory it returns -ENOMEM and
  the table is unchanged.
\<close>
theorem proc_new_fd_fresh:
  assumes "km_heap ma km heap live" and "small_heap ma heap" and "fds_ok ma p live"
  shows "\<exists>r p' km' live'. proc_new_fd p km = Some (Ret (r, p', km')) \<and> km_heap ma km' heap live' \<and> fds_ok ma p' live' \<and>
    (case r of Inl e \<Rightarrow> e = ENOMEM \<and> fds p' = fds p
     | Inr fd \<Rightarrow> fd < length (fds p') \<and> fds p' ! fd \<and> (fd < length (fds p) \<longrightarrow> \<not> fds p ! fd) \<and>
         length (fds p) \<le> length (fds p') \<and> (\<forall>i < length (fds p). i \<noteq> fd \<longrightarrow> fds p' ! i = fds p ! i))"
proof -
  obtain r p' km' live' where n: "proc_new_fd p km = Some (Ret (r, p', km'))" "km_heap ma km' heap live'" "fds_ok ma p' live'"
    and c: "case r of Inl e \<Rightarrow> e = ENOMEM \<and> fds p' = fds p
     | Inr fd \<Rightarrow> fd_last_free_idx p \<le> fd \<and> fd_last_free_idx p' = fd + 1 \<and> fd < length (fds p') \<and> fds p' ! fd \<and>
         (fd < length (fds p) \<longrightarrow> \<not> fds p ! fd) \<and> length (fds p) \<le> length (fds p') \<and>
         (\<forall>i < length (fds p). i \<noteq> fd \<longrightarrow> fds p' ! i = fds p ! i)"
    using new_fd_ok [OF assms] by blast
  then show ?thesis by (intro exI [of _ r] exI [of _ p'] exI [of _ km'] exI [of _ live']) (cases r; simp)
qed

lemma demo_alloc_live: "\<exists>a km. km_heap 16 km demo_heap [a \<mapsto> (100, 16)]"
proof -
  obtain a m' where "heap_inv m' demo_heap [a \<mapsto> (100, 16)]" using demo_alloc by blast
  then have "km_heap 16 (demo_state\<lparr>mem := m'\<rparr>) demo_heap [a \<mapsto> (100, 16)]"
    using demo_km_ok by (simp add: km_ok_def)
  then show ?thesis by blast
qed

theorem proc_new_fd_fresh_witness:
  "\<exists>a km r p' km'. proc_new_fd (zero_process\<lparr>fds_ptr := Some a, fds := replicate 100 True\<rparr>) km = Some (Ret (r, p', km')) \<and>
     (case r of Inl e \<Rightarrow> e = ENOMEM | Inr fd \<Rightarrow> fds p' ! fd \<and> fds p' ! 5)"
proof -
  obtain a km where km: "km_heap 16 km demo_heap [a \<mapsto> (100, 16)]" using demo_alloc_live by blast
  have "\<exists>k. (16 :: nat) = 2 ^ k" by (rule exI [of _ 4]) simp
  then have small: "small_heap 16 demo_heap" by (simp add: small_heap_def demo_heap_end)
  let ?p = "zero_process\<lparr>fds_ptr := Some a, fds := replicate 100 True\<rparr>"
  have "fds_ok 16 ?p [a \<mapsto> (100, 16)]" by (simp add: fds_ok_def zero_process_def)
  from proc_new_fd_fresh [OF km small this] obtain r p' km' where
    "proc_new_fd ?p km = Some (Ret (r, p', km'))"
    "case r of Inl e \<Rightarrow> e = ENOMEM \<and> fds p' = fds ?p
     | Inr fd \<Rightarrow> fd < length (fds p') \<and> fds p' ! fd \<and> (fd < length (fds ?p) \<longrightarrow> \<not> fds ?p ! fd) \<and>
         length (fds ?p) \<le> length (fds p') \<and> (\<forall>i < length (fds ?p). i \<noteq> fd \<longrightarrow> fds p' ! i = fds ?p ! i)"
    by blast
  then show ?thesis
    by (intro exI [of _ a] exI [of _ km] exI [of _ r] exI [of _ p'] exI [of _ km'])
      (cases r; auto simp: nth_append)
qed

text \<open>
  A closed descriptor number is never handed out again. Whatever descriptors a process closes between two
  successful calls of \<open>proc_new_fd\<close>, the second number is larger than the first, so the table of a process that
  keeps opening and closing files grows without bound.
\<close>
theorem fds_never_reused:
  assumes "fd_last_free_idx p \<le> length (fds p)" and "proc_new_fd p km = Some (Ret (Inr a, p1, km1))"
    and "proc_new_fd (fold proc_free_fd closed p1) km2 = Some (Ret (Inr b, p2, km3))"
  shows "a < b"
proof -
  have a: "fd_last_free_idx p1 = a + 1" "a < length (fds p1)" using new_fd_last [OF assms(2,1)] by auto
  let ?q = "fold proc_free_fd closed p1"
  have "fd_last_free_idx ?q \<le> length (fds ?q)" using a fold_free_fd [of closed p1] by simp
  from new_fd_last [OF assms(3) this] show ?thesis using a(1) fold_free_fd [of closed p1] by simp
qed

theorem fds_never_reused_witness:
  "\<exists>p1 p2. \<forall>km. proc_new_fd (zero_process\<lparr>fds := replicate 4 False\<rparr>) km = Some (Ret (Inr 0, p1, km)) \<and>
     proc_new_fd (proc_free_fd 0 p1) km = Some (Ret (Inr 1, p2, km)) \<and> (0 :: nat) < 1"
proof -
  let ?p = "zero_process\<lparr>fds := replicate 4 False\<rparr>"
  let ?p1 = "zero_process\<lparr>fds := [True, False, False, False], fd_last_free_idx := 1\<rparr>"
  let ?p2 = "zero_process\<lparr>fds := [False, True, False, False], fd_last_free_idx := 2\<rparr>"
  have r: "replicate 4 False = [False, False, False, False]" by (simp add: eval_nat_numeral)
  have s: "proc_new_fd ?p km = Some (Ret (Inr 0, ?p1, km))" "proc_new_fd (proc_free_fd 0 ?p1) km = Some (Ret (Inr 1, ?p2, km))" for km
    by (simp_all add: proc_new_fd_def proc_free_fd_def fd_scan.simps zero_process_def Let_def r)
  have "fd_last_free_idx ?p \<le> length (fds ?p)" by (simp add: zero_process_def)
  from fds_never_reused [OF this s(1), of "[0]" _ 1 ?p2] have "(0 :: nat) < 1" using s(2) by simp
  then show ?thesis using s by blast
qed

text \<open>
  C13: process ids are unique. Giving a new process the id \<open>procm_available_pid\<close> returns and adding it to the
  table keeps every process at the index of its own id: the entry it takes was free and no other entry changes.
  Only growing the table can fail.
\<close>
theorem procm_pids_unique:
  assumes ok: "table_ok s" and last: "g_last_free_proc_idx s \<le> length (g_procs s)"
    and pid: "procm_available_pid s = (Inr pid, s1)" and p: "proc_objs s a = Some p" "\<forall>i. i < length (g_procs s) \<longrightarrow> g_procs s ! i \<noteq> Some a"
    and r: "procm_add_proc_to_pool a (put_proc a (p\<lparr>proc_pid := pid\<rparr>) s1) = Some (Ret (r, s2))"
  shows "(case r of Inl e \<Rightarrow> g_procs s2 = g_procs s
     | Inr _ \<Rightarrow> (pid - 1 < length (g_procs s) \<longrightarrow> g_procs s ! (pid - 1) = None) \<and> g_procs s2 ! (pid - 1) = Some a \<and>
         pid - 1 < length (g_procs s2) \<and> (\<forall>i < length (g_procs s). i \<noteq> pid - 1 \<longrightarrow> g_procs s2 ! i = g_procs s ! i) \<and>
         (length (g_procs s) < 2 ^ 29 - 16 \<longrightarrow> table_ok s2))"
proof -
  obtain i where i: "pid = i + 1" "s1 = s\<lparr>g_last_free_proc_idx := i + 1\<rparr>" "i < length (g_procs s) \<longrightarrow> g_procs s ! i = None"
    "i \<le> length (g_procs s)"
    using available_pid_eq [of s] pid last by auto
  have si: "sub32 (i + 1) 1 = i" using i(4) ok by (subst sub32_exact) (auto simp: table_ok_def)
  have "case r of Inl e \<Rightarrow> g_procs s2 = g_procs s
    | Inr _ \<Rightarrow> g_procs s2 = (g_procs s @ (if i = length (g_procs s) then replicate 16 None else []))[i := Some a] \<and>
        proc_objs s2 = (proc_objs s)(a \<mapsto> p\<lparr>proc_pid := i + 1\<rparr>)"
    using r i(1,2,4) p(1) si
    by (auto simp: procm_add_proc_to_pool_def with_proc_def put_proc_def set_pkm_def Let_def bind_run_def
        split: Option.bind_splits outcome.splits sum.splits if_splits option.splits prod.splits)
  moreover
  { define ext :: procs_t where "ext = (if i = length (g_procs s) then replicate 16 None else [])"
    assume g1: "g_procs s2 = (g_procs s @ (if i = length (g_procs s) then replicate 16 None else []))[i := Some a]"
      and o: "proc_objs s2 = (proc_objs s)(a \<mapsto> p\<lparr>proc_pid := i + 1\<rparr>)"
    have g: "g_procs s2 = (g_procs s @ ext)[i := Some a]" "ext = [] \<and> i < length (g_procs s) \<or> ext = replicate 16 None"
      using g1 i(4) by (auto simp: ext_def)
    have il: "i < length (g_procs s @ ext)" using g(2) i(4) by auto
    have old: "g_procs s2 ! k = g_procs s ! k" if "k < length (g_procs s)" "k \<noteq> i" for k
      using that g(1) by (simp add: nth_append)
    have new: "g_procs s2 ! k = None" if "length (g_procs s) \<le> k" "k < length (g_procs s2)" "k \<noteq> i" for k
      using that g by (auto simp: nth_append)
    have "table_ok s2" if "length (g_procs s) < 2 ^ 29 - 16"
      unfolding table_ok_def
    proof (intro conjI allI impI; (elim conjE)?)
      show "length (g_procs s2) < 2 ^ 29" using g that by auto
    next
      fix k b assume k: "k < length (g_procs s2)" "g_procs s2 ! k = Some b"
      show "\<exists>q. proc_objs s2 b = Some q \<and> proc_pid q = k + 1"
      proof (cases "k = i")
        case True
        then show ?thesis using k g(1) il o by simp
      next
        case False
        then have "k < length (g_procs s)" using new k False by (metis linorder_not_less option.distinct(1))
        then have "g_procs s ! k = Some b" "b \<noteq> a" using old False k(2) p(2) by auto
        then show ?thesis using ok \<open>k < length (g_procs s)\<close> o by (simp add: table_ok_def)
      qed
    qed
    then have "g_procs s2 ! i = Some a \<and> i < length (g_procs s2) \<and>
      (\<forall>k < length (g_procs s). k \<noteq> i \<longrightarrow> g_procs s2 ! k = g_procs s ! k) \<and>
      (length (g_procs s) < 2 ^ 29 - 16 \<longrightarrow> table_ok s2)"
      using g(1) il old by auto }
  ultimately show ?thesis using i(1,3) by (cases r) auto
qed

definition demo_procm :: "kmstate \<Rightarrow> mmstate \<Rightarrow> procm_state" where
  "demo_procm km mm = \<lparr>pmm = mm\<lparr>mkm := km\<rparr>, proc_objs = [100 \<mapsto> zero_process\<lparr>proc_pid := 1\<rparr>, 200 \<mapsto> zero_process],
     g_procs_ptr = Some 64, g_procs = [Some 100, None], g_last_free_proc_idx = 0, g_proc_count = 1,
     g_schedulers_ptr = None, g_schedulers = [], g_active_sched = None, g_current_proc_idx = 0, tss_esp0 = 0,
     running = None\<rparr>"

theorem procm_pids_unique_witness:
  "\<forall>km mm. \<exists>s1 s2. procm_available_pid (demo_procm km mm) = (Inr 2, s1) \<and>
     procm_add_proc_to_pool 200 (put_proc 200 (zero_process\<lparr>proc_pid := 2\<rparr>) s1) = Some (Ret (Inr (), s2)) \<and>
     table_ok s2 \<and> g_procs s2 ! 1 = Some 200 \<and> g_procs s2 ! 0 = Some 100"
proof (intro allI)
  fix km mm
  let ?s = "demo_procm km mm"
  let ?tb = "?s\<lparr>g_last_free_proc_idx := 2\<rparr>"
  let ?ta = "put_proc 200 (zero_process\<lparr>proc_pid := 2\<rparr>) ?tb"
  let ?tc = "?ta\<lparr>g_proc_count := 2, g_procs := [Some 100, Some 200]\<rparr>"
  have ok: "table_ok ?s"
    by (auto simp: table_ok_def demo_procm_def nth_Cons' less_Suc_eq split: if_splits)
  have a: "procm_available_pid ?s = (Inr 2, ?tb)"
    by (simp add: procm_available_pid_def demo_procm_def pid_scan.simps)
  have b: "procm_add_proc_to_pool 200 ?ta = Some (Ret (Inr (), ?tc))"
    by (simp add: procm_add_proc_to_pool_def with_proc_def put_proc_def demo_procm_def sub32_def add32_def)
  have "case Inr () :: unit result of Inl e \<Rightarrow> g_procs ?tc = g_procs ?s
     | Inr _ \<Rightarrow> (2 - 1 < length (g_procs ?s) \<longrightarrow> g_procs ?s ! (2 - 1) = None) \<and> g_procs ?tc ! (2 - 1) = Some 200 \<and>
         2 - 1 < length (g_procs ?tc) \<and> (\<forall>i < length (g_procs ?s). i \<noteq> 2 - 1 \<longrightarrow> g_procs ?tc ! i = g_procs ?s ! i) \<and>
         (length (g_procs ?s) < 2 ^ 29 - 16 \<longrightarrow> table_ok ?tc)"
    by (rule procm_pids_unique [where s = ?s and ?s1.0 = ?tb and p = zero_process and a = 200, OF ok _ a _ _ b])
      (auto simp: demo_procm_def nth_Cons' less_Suc_eq split: if_splits)
  then show "\<exists>s1 s2. procm_available_pid ?s = (Inr 2, s1) \<and>
     procm_add_proc_to_pool 200 (put_proc 200 (zero_process\<lparr>proc_pid := 2\<rparr>) s1) = Some (Ret (Inr (), s2)) \<and>
     table_ok s2 \<and> g_procs s2 ! 1 = Some 200 \<and> g_procs s2 ! 0 = Some 100"
    using a b by (intro exI [of _ ?tb] exI [of _ ?tc]) (simp add: demo_procm_def)
qed

text \<open>
  A spawn that fails to grow the table makes the next one panic. With the table full, the failed addition
  leaves the free index one past the table, so the id of the next process is beyond the range that
  \<open>procm_add_proc_to_pool\<close> asserts.
\<close>
theorem procm_failed_spawn_panics:
  assumes "g_last_free_proc_idx s = length (g_procs s)" and "length (g_procs s) < 2 ^ 30"
    and "procm_available_pid s = (Inr pid, s1)" and "proc_objs s a = Some p"
    and "procm_add_proc_to_pool a (put_proc a (p\<lparr>proc_pid := pid\<rparr>) s1) = Some (Ret (Inl e, s2))"
    and "proc_objs s2 b = Some q"
  shows "\<exists>pid' s3. procm_available_pid s2 = (Inr pid', s3) \<and>
    procm_add_proc_to_pool b (put_proc b (q\<lparr>proc_pid := pid'\<rparr>) s3) = Some Panic"
proof -
  let ?n = "length (g_procs s)"
  have one: "pid = ?n + 1" "s1 = s\<lparr>g_last_free_proc_idx := ?n + 1\<rparr>"
    using assms(1,3) by (auto simp: procm_available_pid_def pid_scan.simps)
  have "sub32 (?n + 1) 1 = ?n" using assms(2) by (subst sub32_exact) auto
  then have s2: "g_procs s2 = g_procs s" "g_last_free_proc_idx s2 = ?n + 1"
    using assms(4,5) one
    by (auto simp: procm_add_proc_to_pool_def with_proc_def put_proc_def set_pkm_def Let_def bind_run_def
        split: Option.bind_splits outcome.splits sum.splits if_splits option.splits prod.splits)
  have "procm_available_pid s2 = (Inr (?n + 2), s2\<lparr>g_last_free_proc_idx := ?n + 2\<rparr>)"
    using s2 by (simp add: procm_available_pid_def pid_scan.simps)
  moreover have "sub32 (?n + 2) 1 = ?n + 1" using assms(2) by (subst sub32_exact) auto
  then have "procm_add_proc_to_pool b (put_proc b (q\<lparr>proc_pid := ?n + 2\<rparr>) (s2\<lparr>g_last_free_proc_idx := ?n + 2\<rparr>)) = Some Panic"
    using s2 by (simp add: procm_add_proc_to_pool_def with_proc_def put_proc_def)
  ultimately show ?thesis by blast
qed

text \<open>A driver that never finds memory, to run out of it.\<close>

definition no_memory_km :: kmstate where
  "no_memory_km = demo_state\<lparr>g_driver := (gallocator_driver 16)\<lparr>d_alloc_aligned := Some (\<lambda>m sz al h. Some (Ret (None, m)))\<rparr>\<rparr>"

theorem procm_failed_spawn_panics_witness:
  "\<forall>mm. \<exists>s1 s2 s3. let s = (demo_procm no_memory_km mm)\<lparr>g_procs_ptr := None, g_procs := [Some 100], g_last_free_proc_idx := 1\<rparr> in
     procm_available_pid s = (Inr 2, s1) \<and>
     procm_add_proc_to_pool 200 (put_proc 200 (zero_process\<lparr>proc_pid := 2\<rparr>) s1) = Some (Ret (Inl ENOMEM, s2)) \<and>
     procm_available_pid s2 = (Inr 3, s3) \<and>
     procm_add_proc_to_pool 200 (put_proc 200 (zero_process\<lparr>proc_pid := 3\<rparr>) s3) = Some Panic"
proof
  fix mm
  define s where "s = (demo_procm no_memory_km mm)\<lparr>g_procs_ptr := None, g_procs := [Some 100], g_last_free_proc_idx := 1\<rparr>"
  define s1 where "s1 = s\<lparr>g_last_free_proc_idx := 2\<rparr>"
  let ?s0 = "put_proc 200 (zero_process\<lparr>proc_pid := 2\<rparr>) s1"
  have a: "procm_available_pid s = (Inr 2, s1)"
    by (simp add: procm_available_pid_def s_def s1_def demo_procm_def pid_scan.simps)
  have "\<exists>km. krealloc None 68 no_memory_km = Some (Ret (None, km))"
    by (simp add: krealloc_def with_active_heap_def no_memory_km_def demo_state_def kmalloc_aligned_with_heap_def Let_def)
  then obtain km where km: "krealloc None 68 no_memory_km = Some (Ret (None, km))" by blast
  have b: "procm_add_proc_to_pool 200 ?s0 = Some (Ret (Inl ENOMEM, set_pkm km ?s0))"
    using km by (simp add: procm_add_proc_to_pool_def with_proc_def put_proc_def s_def s1_def demo_procm_def sub32_def
        add32_def mul32_def)
  have p: "proc_objs s 200 = Some zero_process" "g_last_free_proc_idx s = length (g_procs s)" "length (g_procs s) < 2 ^ 30"
    "proc_objs (set_pkm km ?s0) 200 = Some (zero_process\<lparr>proc_pid := 2\<rparr>)"
    by (simp_all add: s_def s1_def demo_procm_def put_proc_def set_pkm_def)
  obtain pid' s3 where c: "procm_available_pid (set_pkm km ?s0) = (Inr pid', s3)"
    "procm_add_proc_to_pool 200 (put_proc 200 (zero_process\<lparr>proc_pid := 2, proc_pid := pid'\<rparr>) s3) = Some Panic"
    using procm_failed_spawn_panics [OF p(2,3) a p(1) b p(4)] by blast
  have "pid' = 3" using c(1) by (auto simp: procm_available_pid_def set_pkm_def put_proc_def s1_def s_def demo_procm_def pid_scan.simps)
  then show "\<exists>s1 s2 s3. let s = (demo_procm no_memory_km mm)\<lparr>g_procs_ptr := None, g_procs := [Some 100], g_last_free_proc_idx := 1\<rparr> in
     procm_available_pid s = (Inr 2, s1) \<and>
     procm_add_proc_to_pool 200 (put_proc 200 (zero_process\<lparr>proc_pid := 2\<rparr>) s1) = Some (Ret (Inl ENOMEM, s2)) \<and>
     procm_available_pid s2 = (Inr 3, s3) \<and>
     procm_add_proc_to_pool 200 (put_proc 200 (zero_process\<lparr>proc_pid := 3\<rparr>) s3) = Some Panic"
    using a b c unfolding Let_def s_def [symmetric] by (intro exI [of _ s1] exI [of _ "set_pkm km ?s0"] exI [of _ s3]) simp
qed

text \<open>
  Yielding switches to the next process in ring order. When that process is alive and has already run,
  \<open>procm_sched_yield\<close> marks the current one as yielded, loads the other's tables and kernel stack and continues
  it; the state field of the process that now runs still says it has yielded.
\<close>
theorem yield_switches:
  assumes sched: "g_active_sched s = Some (x, g_ringsched)" and cur: "g_current_proc_idx s < length (g_procs s)"
    and c: "g_procs s ! g_current_proc_idx s = Some c" "proc_objs s c = Some cp"
    and n: "ringsched_next_proc (g_procs s) (g_current_proc_idx s) = Some (nx, j)" "proc_objs s nx = Some np"
      "nx \<noteq> c" "\<not> zombie np" "proc_state np = PROC_YIELDED" "paging_struct np = Some (pa, ps)"
  shows "\<exists>s'. procm_sched_yield s = Some (Ret s') \<and> running s' = Some nx \<and> g_current_proc_idx s' = j \<and>
    cr3 (pmm s') = mm_kva2pa (map_off (pmm s)) (case psdata ps of None \<Rightarrow> 0 | Some p \<Rightarrow> p) \<and>
    tss_esp0 s' = kstack_top np \<and> proc_objs s' c = Some (cp\<lparr>proc_state := PROC_YIELDED\<rparr>) \<and>
    proc_objs s' nx = Some np \<and> g_procs s' = g_procs s"
proof -
  let ?s1 = "put_proc c (cp\<lparr>proc_state := PROC_YIELDED\<rparr>) s"
  have cp: "procm_sched_current_proc s = Ret c"
    using sched cur c by (simp add: procm_sched_current_proc_def g_ringsched_def ringsched_current_proc_def)
  have "reap_loop g_ringsched c ?s1 = Some (Ret (nx, ?s1\<lparr>g_current_proc_idx := j\<rparr>))"
    using n by (subst reap_loop.simps) (simp add: g_ringsched_def put_proc_def Let_def)
  moreover have "proc_switch c nx (?s1\<lparr>g_current_proc_idx := j\<rparr>) =
    Some (Ret (?s1\<lparr>g_current_proc_idx := j, pmm := mm_load_paging_struct ps (pmm s), tss_esp0 := kstack_top np,
      running := Some nx\<rparr>))"
    using n by (simp add: proc_switch_def with_proc_def put_proc_def load_tables_def)
  ultimately show ?thesis
    using sched cp c(2) n by (simp add: procm_sched_yield_def with_proc_def Let_def)
      (simp add: put_proc_def mm_load_paging_struct_def mm_load_paging_struct_arch_def Let_def)
qed

definition demo_two :: "mmstate \<Rightarrow> procm_state" where
  "demo_two mm = (demo_procm no_memory_km mm)\<lparr>g_procs := [Some 100, Some 200], g_active_sched := Some (8, g_ringsched),
     proc_objs := [100 \<mapsto> zero_process\<lparr>proc_pid := 1, proc_state := PROC_RUNNING\<rparr>,
       200 \<mapsto> zero_process\<lparr>proc_pid := 2, proc_state := PROC_YIELDED, kstack_top := 4096,
         paging_struct := Some (300, \<lparr>allocated_pages = None, pages = [], allocated_pages_size = 0,
           allocated_pages_capacity = 0, psdata = Some 8192\<rparr>)\<rparr>]\<rparr>"

theorem yield_switches_witness:
  "\<forall>mm. \<exists>s'. procm_sched_yield (demo_two mm) = Some (Ret s') \<and> running s' = Some 200 \<and> tss_esp0 s' = 4096"
proof
  fix mm
  have n: "ringsched_next_proc (g_procs (demo_two mm)) (g_current_proc_idx (demo_two mm)) = Some (200, 1)"
    by (simp add: ringsched_next_proc_def demo_two_def demo_procm_def next_loop.simps)
  let ?ps = "\<lparr>allocated_pages = None, pages = [], allocated_pages_size = 0, allocated_pages_capacity = 0, psdata = Some 8192\<rparr>"
  let ?np = "zero_process\<lparr>proc_pid := 2, proc_state := PROC_YIELDED, kstack_top := 4096, paging_struct := Some (300, ?ps)\<rparr>"
  let ?cp = "zero_process\<lparr>proc_pid := 1, proc_state := PROC_RUNNING\<rparr>"
  have h: "g_active_sched (demo_two mm) = Some (8, g_ringsched)" "g_current_proc_idx (demo_two mm) < length (g_procs (demo_two mm))"
    "g_procs (demo_two mm) ! g_current_proc_idx (demo_two mm) = Some 100" "proc_objs (demo_two mm) 100 = Some ?cp"
    "proc_objs (demo_two mm) 200 = Some ?np" "(200 :: nat) \<noteq> 100" "\<not> zombie ?np" "proc_state ?np = PROC_YIELDED"
    "paging_struct ?np = Some (300, ?ps)"
    by (simp_all add: demo_two_def demo_procm_def zero_process_def)
  have "kstack_top ?np = 4096" by simp
  then show "\<exists>s'. procm_sched_yield (demo_two mm) = Some (Ret s') \<and> running s' = Some 200 \<and> tss_esp0 s' = 4096"
    using yield_switches [OF h(1-4) n h(5-9)] by auto
qed

end
