(* ===== verification/KList.thy ===== *)
theory KList
  imports KmallocUse LinkedList
begin

text \<open>
  Linked lists on the kernel heap: the operations of \<^verbatim>\<open>kernel/utils/linkedlist.c\<close> with their calls of \<open>kmalloc\<close>
  and \<open>kfree\<close>, and the walk \<open>FOR_EACH_ENTRY_IN_LL\<close> of \<^verbatim>\<open>include/dxgmx/utils/linkedlist.h\<close>.
\<close>

type_synonym list_heap = "kmstate \<times> node_heap"

text \<open>The data of the nodes in order; the body of the loop is skipped for null.\<close>

partial_function (option) ll_walk :: "node_heap \<Rightarrow> addr option \<Rightarrow> nat list \<Rightarrow> nat list outcome option" where
  "ll_walk h p acc =
     (case p of
        None \<Rightarrow> Some (Ret (rev acc))
      | Some a \<Rightarrow> (case h a of None \<Rightarrow> Some Panic | Some n \<Rightarrow> ll_walk h (lnext n) (if data n = 0 then acc else data n # acc)))"

definition kl_add :: "nat \<Rightarrow> LinkedList \<Rightarrow> list_heap \<Rightarrow> (unit result \<times> LinkedList \<times> list_heap) outcome option" where
  "kl_add d ll s =
     bind_run (kmalloc 8 (fst s)) (\<lambda>(new, km).
     bind_run (Some (linkedlist_add new d (snd s, ll))) (\<lambda>(r, h, ll1). Some (Ret (r, ll1, km, h))))"

text \<open>The removals free the node they unlink: the one that has left the heap of nodes.\<close>

definition freed_node :: "node_heap \<Rightarrow> addr list \<Rightarrow> addr option" where
  "freed_node h as = find (\<lambda>a. h a = None) as"

partial_function (option) ll_addrs :: "node_heap \<Rightarrow> addr option \<Rightarrow> addr list \<Rightarrow> addr list outcome option" where
  "ll_addrs h p acc =
     (case p of
        None \<Rightarrow> Some (Ret (rev acc))
      | Some a \<Rightarrow> (case h a of None \<Rightarrow> Some Panic | Some n \<Rightarrow> ll_addrs h (lnext n) (a # acc)))"

definition kl_release :: "LinkedList \<Rightarrow> (unit result \<times> node_heap \<times> LinkedList) outcome option \<Rightarrow> list_heap
    \<Rightarrow> (unit result \<times> LinkedList \<times> list_heap) outcome option" where
  "kl_release ll run s =
     bind_run (ll_addrs (snd s) (root ll) []) (\<lambda>as.
     bind_run run (\<lambda>(r, h, ll1).
       case freed_node h as of
         None \<Rightarrow> Some (Ret (r, ll1, fst s, h))
       | Some n \<Rightarrow> bind_run (kfree (Some n) (fst s)) (\<lambda>km. Some (Ret (r, ll1, km, h)))))"

definition kl_remove :: "nat \<Rightarrow> LinkedList \<Rightarrow> list_heap \<Rightarrow> (unit result \<times> LinkedList \<times> list_heap) outcome option" where
  "kl_remove d ll s = kl_release ll (linkedlist_remove_by_data d (snd s, ll)) s"

definition kl_remove_first :: "LinkedList \<Rightarrow> list_heap \<Rightarrow> (unit result \<times> LinkedList \<times> list_heap) outcome option" where
  "kl_remove_first ll s = kl_release ll (Some (linkedlist_remove_by_position 0 (snd s, ll))) s"

lemma ll_walk_ok: "seg h p as xs \<Longrightarrow> ll_walk h p acc = Some (Ret (rev acc @ filter (\<lambda>x. x \<noteq> 0) xs))"
proof (induction h p as xs arbitrary: acc rule: seg.induct)
  case (2 h p a as x xs)
  then show ?case by (subst ll_walk.simps) auto
qed (auto simp: ll_walk.simps)

lemma ll_addrs_ok: "seg h p as xs \<Longrightarrow> ll_addrs h p acc = Some (Ret (rev acc @ as))"
proof (induction h p as xs arbitrary: acc rule: seg.induct)
  case (2 h p a as x xs)
  then show ?case by (subst ll_addrs.simps) auto
qed (auto simp: ll_addrs.simps)

text \<open>Removing the first node of a list takes its data off and leaves the rest as it was.\<close>

lemma kl_remove_first_ok:
  assumes "ll_at (snd s, ll) (a # as) (x # xs)" and "kl_remove_first ll s = Some (Ret (r, ll1, s1))"
  shows "r = Inr () \<and> ll_at (snd s1, ll1) as xs"
proof -
  obtain h ll' where u: "unlink_node None a (snd s, ll) = Ret (h, ll')" "ll_at (h, ll') as xs"
    using unlink_node_ok [of "(snd s, ll)" "[]" a as "[]" x xs] assms(1) by auto
  have "root ll = Some a" "ll_addrs (snd s) (root ll) [] = Some (Ret (a # as))"
    using assms(1) ll_addrs_ok [of "snd s" "root ll" "a # as" "x # xs" "[]"] by (auto simp: ll_at_def)
  then have "kl_remove_first ll s = (case freed_node h (a # as) of
       None \<Rightarrow> Some (Ret (Inr (), ll', fst s, h))
     | Some n \<Rightarrow> bind_run (kfree (Some n) (fst s)) (\<lambda>km. Some (Ret (Inr (), ll', km, h))))"
    using u(1) by (simp add: kl_remove_first_def kl_release_def linkedlist_remove_by_position_def)
  then show ?thesis using assms(2) u(2)
    by (auto simp: bind_run_def split: option.splits Option.bind_splits outcome.splits)
qed

text \<open>
  Appending: the new node is a new allocation, so it is none of the nodes in use, all of which are allocated.
\<close>

definition nodes_live :: "node_heap \<Rightarrow> live_map \<Rightarrow> bool" where
  "nodes_live h live \<longleftrightarrow> (\<forall>a. h a \<noteq> None \<longrightarrow> live a \<noteq> None)"

lemma linkedlist_add_nodes:
  "linkedlist_add new d (h, ll) = Ret (r, h', ll') \<Longrightarrow> h' a \<noteq> None \<Longrightarrow> h a \<noteq> None \<or> new = Some a"
  by (auto simp: linkedlist_add_def Let_def split: option.splits if_splits)

lemma kl_add_ok:
  assumes "km_heap ma (fst s) heap live" and "small_heap ma heap" and "ll_at (snd s, ll) as xs" and "nodes_live (snd s) live"
  shows "\<exists>r ll' km h. kl_add d ll s = Some (Ret (r, ll', km, h)) \<and>
    (case r of
       Inl e \<Rightarrow> e = ENOMEM \<and> km_heap ma km heap live \<and> ll_at (h, ll') as xs \<and> nodes_live h live
     | Inr _ \<Rightarrow> \<exists>a. live a = None \<and> km_heap ma km heap (live(a \<mapsto> (8, ma))) \<and> ll_at (h, ll') (as @ [a]) (xs @ [d])
         \<and> nodes_live h (live(a \<mapsto> (8, ma))))"
proof -
  obtain new km where new: "kmalloc 8 (fst s) = Some (Ret (new, km))"
    and c: "case new of None \<Rightarrow> km_heap ma km heap live | Some a \<Rightarrow> live a = None \<and> km_heap ma km heap (live(a \<mapsto> (8, ma)))"
    using use_kmalloc [OF assms(1,2), of 8] by auto
  show ?thesis
  proof (cases new)
    case None
    obtain h ll' where l: "linkedlist_add None d (snd s, ll) = Ret (Inl ENOMEM, h, ll')" "ll_at (h, ll') as xs"
      using linkedlist_add_nomem [OF assms(3), of d] by auto
    then have "nodes_live h live" using assms(4) linkedlist_add_nodes [OF l(1)] by (fastforce simp: nodes_live_def)
    then show ?thesis using new None c l by (simp add: kl_add_def)
  next
    case (Some a)
    have a: "live a = None" "km_heap ma km heap (live(a \<mapsto> (8, ma)))" using c Some by simp_all
    then have "snd s a = None" using assms(4) by (auto simp: nodes_live_def)
    then obtain h ll' where l: "linkedlist_add (Some a) d (snd s, ll) = Ret (Inr (), h, ll')" "ll_at (h, ll') (as @ [a]) (xs @ [d])"
      using linkedlist_add_ok [OF assms(3), of a d] by auto
    then have "nodes_live h (live(a \<mapsto> (8, ma)))" using assms(4) linkedlist_add_nodes [OF l(1)] by (fastforce simp: nodes_live_def)
    then show ?thesis using new Some a l by (auto simp: kl_add_def)
  qed
qed

end
