(* ===== verification/Path.thy ===== *)
theory Path
  imports Prelude
begin

text \<open>
  \<^verbatim>\<open>kernel/fs/path.c\<close>: in-place rewriting of path strings. A C string is the list of its characters without
  the terminator; every loop of the code stays within the terminator, so moving the characters (with it) to
  the left is dropping characters from the list.
\<close>

section \<open>Operations\<close>

abbreviation slash :: char where "slash \<equiv> CHR ''/''"
abbreviation dot :: char where "dot \<equiv> CHR ''.''"

definition path_make_relative :: "string option \<Rightarrow> string option \<Rightarrow> unit result \<times> string option" where
  "path_make_relative path mntpoint =
     (case (path, mntpoint) of
        (Some p, Some m) \<Rightarrow>
          if length m > length p then (Inl EINVAL, path)
          else if length m = 1 \<and> hd m = slash then (Inr (), path)
          else if length (filter (\<lambda>i. p ! i = m ! i) [0..<length m]) \<noteq> length m then (Inl ENAMETOOLONG, path)
          else (Inr (), Some (drop (length m) p))
      | _ \<Rightarrow> (Inl EINVAL, path))"

text \<open>\<open>strrchr\<close>; without a slash the code computes an offset from null, a fault.\<close>

fun last_slash :: "string \<Rightarrow> nat \<Rightarrow> nat option" where
  "last_slash [] i = None"
| "last_slash (c # cs) i =
     (case last_slash cs (i + 1) of Some j \<Rightarrow> Some j | None \<Rightarrow> if c = slash then Some i else None)"

definition path_make_filename :: "string \<Rightarrow> string outcome" where
  "path_make_filename p =
     (case last_slash p 0 of None \<Rightarrow> Panic | Some off \<Rightarrow> Ret (drop (off + 1) p))"

definition delete_at :: "nat \<Rightarrow> nat \<Rightarrow> 'a list \<Rightarrow> 'a list" where
  "delete_at i k xs = take i xs @ drop (i + k) xs"

lemma length_delete_at: "i + k \<le> length xs \<Longrightarrow> length (delete_at i k xs) = length xs - k"
  by (simp add: delete_at_def)

text \<open>First pass: when a slash follows a slash it is deleted and the index stays.\<close>

function dedup_pass :: "nat \<Rightarrow> bool \<Rightarrow> string \<Rightarrow> string" where
  "dedup_pass i hit_del path =
     (if i < length path then
        if path ! i = slash then
          if hit_del then dedup_pass i True (delete_at i 1 path)
          else dedup_pass (i + 1) True path
        else dedup_pass (i + 1) False path
      else path)"
  by pat_completeness auto
termination by (relation "measure (\<lambda>(i, h, p). length p - i)") (auto simp: length_delete_at)

declare dedup_pass.simps [simp del]

text \<open>Second pass: a dot before a slash is deleted with it, a dot at the end is deleted; the index always advances.\<close>

function dot_pass :: "nat \<Rightarrow> string \<Rightarrow> string" where
  "dot_pass i path =
     (if i < length path then
        if path ! i \<noteq> dot then dot_pass (i + 1) path
        else if i < length path - 1 \<and> path ! (i + 1) = slash then dot_pass (i + 1) (delete_at i 2 path)
        else if i = length path - 1 then dot_pass (i + 1) (butlast path)
        else dot_pass (i + 1) path
      else path)"
  by pat_completeness auto
termination by (relation "measure (\<lambda>(i, p). length p - i)") (auto simp: length_delete_at)

declare dot_pass.simps [simp del]

definition path_make_canonical :: "string \<Rightarrow> string" where
  "path_make_canonical path =
     (let p1 = dot_pass 0 (dedup_pass 0 False path) in
      if length p1 > 1 \<and> last p1 = slash then butlast p1 else p1)"

section \<open>Lemmas\<close>

fun squash :: "string \<Rightarrow> string" where
  "squash (a # b # cs) = (if a = slash \<and> b = slash then squash (b # cs) else a # squash (b # cs))"
| "squash cs = cs"

fun no_double :: "string \<Rightarrow> bool" where
  "no_double (a # b # cs) \<longleftrightarrow> \<not> (a = slash \<and> b = slash) \<and> no_double (b # cs)"
| "no_double _ \<longleftrightarrow> True"

lemma squash_hd: "cs \<noteq> [] \<Longrightarrow> squash cs \<noteq> [] \<and> hd (squash cs) = hd cs"
  by (induction cs rule: squash.induct) auto

lemma squash_no_double: "no_double (squash cs)"
proof (induction cs rule: squash.induct)
  case (1 a b cs)
  then show ?case using squash_hd [of "b # cs"] by (cases "squash (b # cs)") auto
qed auto

text \<open>The first pass is \<open>squash\<close>.\<close>

lemma dedup_pass_eq:
  "i \<le> length path \<Longrightarrow> (hit \<longrightarrow> 0 < i \<and> path ! (i - 1) = slash) \<Longrightarrow> (\<not> hit \<longrightarrow> i = 0 \<or> path ! (i - 1) \<noteq> slash) \<Longrightarrow>
   dedup_pass i hit path = take (i - 1) path @ squash (drop (i - 1) path)"
proof (induction i hit path rule: dedup_pass.induct)
  case (1 i hit path)
  show ?case
  proof (cases "i < length path")
    case False
    then have "i = length path" using "1.prems" by simp
    then have "drop (i - 1) path = (if path = [] then [] else [last path])"
      by (cases path rule: rev_cases) auto
    then have "squash (drop (i - 1) path) = drop (i - 1) path" by (simp split: if_splits)
    then show ?thesis using False by (subst dedup_pass.simps) simp
  next
    case True
    have dr: "drop i path = path ! i # drop (i + 1) path" using True by (simp add: Cons_nth_drop_Suc)
    have dr1: "drop (i - 1) path = path ! (i - 1) # drop i path" if "0 < i"
      using that True Cons_nth_drop_Suc [of "i - 1" path] by simp
    have tk: "take i path = take (i - 1) path @ [path ! (i - 1)]" if "0 < i"
      using that True take_Suc_conv_app_nth [of "i - 1" path] by simp
    show ?thesis
    proof (cases "path ! i = slash")
      case slash_i: True
      show ?thesis
      proof (cases hit)
        case True
        let ?q = "delete_at i 1 path"
        have i0: "0 < i" "path ! (i - 1) = slash" using True "1.prems" by auto
        have q: "i \<le> length ?q" "?q ! (i - 1) = slash" "take (i - 1) ?q = take (i - 1) path"
          "drop (i - 1) ?q = slash # drop (i + 1) path"
          using \<open>i < length path\<close> i0 by (simp_all add: delete_at_def nth_append tk)
        have "dedup_pass i hit path = dedup_pass i True ?q"
          using \<open>i < length path\<close> slash_i True by (subst dedup_pass.simps) simp
        also have "\<dots> = take (i - 1) path @ squash (slash # drop (i + 1) path)"
          using "1.IH"(1) [OF \<open>i < length path\<close> slash_i True] q i0 by simp
        finally show ?thesis using dr dr1 [OF i0(1)] i0(2) slash_i by simp
      next
        case False
        have "dedup_pass i hit path = dedup_pass (i + 1) True path"
          using \<open>i < length path\<close> slash_i False by (subst dedup_pass.simps) simp
        also have "\<dots> = take i path @ squash (drop i path)"
          using "1.IH"(2) [OF \<open>i < length path\<close> slash_i False] \<open>i < length path\<close> slash_i by simp
        finally show ?thesis using False "1.prems"(3) dr dr1 tk by (cases "i = 0") auto
      qed
    next
      case False
      have "dedup_pass i hit path = dedup_pass (i + 1) False path"
        using \<open>i < length path\<close> False by (subst dedup_pass.simps) simp
      also have "\<dots> = take i path @ squash (drop i path)"
        using "1.IH"(3) [OF \<open>i < length path\<close> False] \<open>i < length path\<close> False by simp
      finally show ?thesis using False dr dr1 tk by (cases "i = 0") auto
    qed
  qed
qed

lemma dedup_pass_squash: "dedup_pass 0 False path = squash path"
  using dedup_pass_eq [of 0 path False] by simp

lemma dot_pass_no_dot: "dot \<notin> set path \<Longrightarrow> dot_pass i path = path"
proof (induction i path rule: dot_pass.induct)
  case (1 i path)
  have "path ! i \<noteq> dot" if "i < length path" using "1.prems" that nth_mem by metis
  then show ?case using "1.IH"(1) "1.prems" by (subst dot_pass.simps) auto
qed

lemma squash_set: "set (squash cs) = set cs"
  by (induction cs rule: squash.induct) auto

lemma squash_idem: "no_double cs \<Longrightarrow> squash cs = cs"
  by (induction cs rule: squash.induct) auto

lemma no_double_butlast: "no_double cs \<Longrightarrow> no_double (butlast cs)"
  by (induction cs rule: no_double.induct) (auto split: if_splits)

lemma matching_all:
  "length (filter P [0..<n]) = n \<longleftrightarrow> (\<forall>i < n. P i)"
proof -
  have "length (filter P [0..<n]) = n \<longleftrightarrow> filter P [0..<n] = [0..<n]"
    using length_filter_less [of _ "[0..<n]" P] by (metis (no_types, lifting) diff_zero filter_True length_upt nat_less_le)
  then show ?thesis by (metis atLeastLessThan_iff filter_id_conv set_upt zero_le)
qed

section \<open>Properties\<close>

text \<open>
  On paths without dots \<open>path_make_canonical\<close> produces the canonical form: runs of slashes become one
  slash, a trailing slash goes (except for the root), and doing it again changes nothing.
\<close>
theorem path_canonical_no_dots:
  assumes "dot \<notin> set path"
  shows "path_make_canonical path =
      (if length (squash path) > 1 \<and> last (squash path) = slash then butlast (squash path) else squash path) \<and>
    no_double (path_make_canonical path) \<and> path_make_canonical (path_make_canonical path) = path_make_canonical path"
proof -
  have d: "dot_pass 0 (dedup_pass 0 False p) = squash p" if "dot \<notin> set p" for p
    using that squash_set [of p] by (simp add: dedup_pass_squash dot_pass_no_dot)
  let ?c = "path_make_canonical path"
  have c: "?c = (if length (squash path) > 1 \<and> last (squash path) = slash then butlast (squash path) else squash path)"
    using d [OF assms] by (simp add: path_make_canonical_def Let_def)
  have nd: "no_double ?c" unfolding c using squash_no_double [of path] no_double_butlast by auto
  have "set ?c \<subseteq> set path" unfolding c using squash_set [of path] by (auto dest: in_set_butlastD)
  then have "dot \<notin> set ?c" using assms by auto
  moreover have "\<not> (length ?c > 1 \<and> last ?c = slash)"
  proof
    assume h: "length ?c > 1 \<and> last ?c = slash"
    show False
    proof (cases "length (squash path) > 1 \<and> last (squash path) = slash")
      case False
      then show ?thesis using h c by auto
    next
      case True
      obtain xs where xs: "squash path = xs @ [slash]" using True
        by (metis append_butlast_last_id length_0_conv not_one_less_zero)
      then obtain ys where ys: "xs = ys @ [slash]" using h c True
        by (metis append_butlast_last_id butlast_snoc length_0_conv not_one_less_zero)
      have "\<not> no_double (zs @ [slash, slash])" for zs by (induction zs rule: no_double.induct) auto
      then show ?thesis using squash_no_double [of path] xs ys by auto
    qed
  qed
  moreover have "path_make_canonical q = q" if "dot \<notin> set q" "no_double q" "\<not> (length q > 1 \<and> last q = slash)" for q
    using d [OF that(1)] squash_idem [OF that(2)] that(3) by (auto simp: path_make_canonical_def Let_def)
  ultimately have "path_make_canonical ?c = ?c" using nd by blast
  then show ?thesis using c nd by blast
qed

theorem path_canonical_no_dots_witness:
  "path_make_canonical ''//usr///bin/'' = ''/usr/bin'' \<and> no_double (path_make_canonical ''//usr///bin/'')"
  using path_canonical_no_dots [of "''//usr///bin/''"] by simp

text \<open>
  With dots \<open>path_make_canonical\<close> names other files. A dot before a slash is deleted with the slash even
  when it ends a name, and two dots lose one: \<^verbatim>\<open>/a./b\<close> becomes \<^verbatim>\<open>/ab\<close>, \<^verbatim>\<open>/a/../b\<close> becomes \<^verbatim>\<open>/a/.b\<close> and
  \<^verbatim>\<open>/name.\<close> becomes \<^verbatim>\<open>/name\<close>; of two current-directory components in a row one stays.
\<close>
theorem path_canonical_breaks_names:
  "path_make_canonical ''/a./b'' = ''/ab'' \<and> path_make_canonical ''/a/../b'' = ''/a/.b'' \<and>
   path_make_canonical ''/name.'' = ''/name'' \<and> path_make_canonical ''/a/././b'' = ''/a/./b''"
  by (simp add: path_make_canonical_def dedup_pass_squash dot_pass.simps delete_at_def)

text \<open>
  \<open>path_make_relative\<close> strips the mount point from a path that starts with it and rejects every other path;
  a mount point on the root leaves the path as it is.
\<close>
theorem path_relative_ok:
  "path_make_relative (Some p) (Some m) =
     (if length m > length p then (Inl EINVAL, Some p)
      else if m = ''/'' then (Inr (), Some p)
      else if take (length m) p = m then (Inr (), Some (drop (length m) p))
      else (Inl ENAMETOOLONG, Some p))"
proof -
  have "length (filter (\<lambda>i. p ! i = m ! i) [0..<length m]) = length m \<longleftrightarrow> take (length m) p = m" if "length m \<le> length p"
    unfolding matching_all using that by (auto simp: list_eq_iff_nth_eq)
  moreover have "length m = 1 \<and> hd m = slash \<longleftrightarrow> m = ''/''" by (cases m) auto
  ultimately show ?thesis by (simp add: path_make_relative_def not_less)
qed

end
