(* ===== verification/User.thy ===== *)
theory User
  imports Prelude
begin

text \<open>
  Access to user memory, \<^verbatim>\<open>arch/x86/user/user32.S\<close>. User memory maps an address to its byte, or to \<open>None\<close>
  where an access faults; a fault inside these routines makes them return \<open>-EFAULT\<close>
  (\<open>user_access_fault_stub\<close>). Every load is of four bytes although only the lowest one is used, so a load
  faults when one of the four bytes does.
\<close>

section \<open>Operations\<close>

type_synonym user_mem = "addr \<Rightarrow> u8 option"

definition user_load :: "user_mem \<Rightarrow> addr \<Rightarrow> u8 option" where
  "user_load um a =
     (if um (add32 a 1) = None \<or> um (add32 a 2) = None \<or> um (add32 a 3) = None then None else um a)"

text \<open>The loop of \<open>user_strnlen\<close>, with the number of bytes that may still be read.\<close>

fun strnlen_loop :: "user_mem \<Rightarrow> addr \<Rightarrow> nat \<Rightarrow> nat \<Rightarrow> nat result" where
  "strnlen_loop um str 0 ecx = Inr ecx"
| "strnlen_loop um str (Suc k) ecx =
     (case user_load um str of
        None \<Rightarrow> Inl EFAULT
      | Some b \<Rightarrow> if b = 0 then Inr ecx else strnlen_loop um (add32 str 1) k (ecx + 1))"

definition user_strnlen :: "user_mem \<Rightarrow> addr \<Rightarrow> nat \<Rightarrow> nat result" where
  "user_strnlen um str n = strnlen_loop um str n 0"

text \<open>The bytes that \<open>user_copy_from\<close> writes to the destination.\<close>

fun user_copy_from :: "user_mem \<Rightarrow> addr \<Rightarrow> nat \<Rightarrow> u8 list result" where
  "user_copy_from um src 0 = Inr []"
| "user_copy_from um src (Suc k) =
     (case user_load um src of
        None \<Rightarrow> Inl EFAULT
      | Some b \<Rightarrow> (case user_copy_from um (add32 src 1) k of Inl e \<Rightarrow> Inl e | Inr bs \<Rightarrow> Inr (b # bs)))"

text \<open>
  The string that \<open>user_copy_str_from\<close> leaves at the destination for a nonzero \<open>maxn\<close>; when the terminator is
  not among the first \<open>maxn\<close> bytes the last byte copied is overwritten by one.
\<close>

fun copy_str_loop :: "user_mem \<Rightarrow> addr \<Rightarrow> nat \<Rightarrow> u8 list result" where
  "copy_str_loop um src 0 = Inr []"
| "copy_str_loop um src (Suc k) =
     (case user_load um src of
        None \<Rightarrow> Inl EFAULT
      | Some b \<Rightarrow>
          if b = 0 then Inr []
          else (case copy_str_loop um (add32 src 1) k of
                  Inl e \<Rightarrow> Inl e
                | Inr bs \<Rightarrow> Inr (if k = 0 then [] else b # bs)))"

definition to_string :: "u8 list \<Rightarrow> string" where
  "to_string bs = map (\<lambda>b. char_of (unat b)) bs"

definition user_copy_str_from :: "user_mem \<Rightarrow> addr \<Rightarrow> nat \<Rightarrow> string result" where
  "user_copy_str_from um src maxn =
     (case copy_str_loop um src maxn of Inl e \<Rightarrow> Inl e | Inr bs \<Rightarrow> Inr (to_string bs))"

fun user_copy_to :: "user_mem \<Rightarrow> addr \<Rightarrow> u8 list \<Rightarrow> unit result \<times> user_mem" where
  "user_copy_to um dest [] = (Inr (), um)"
| "user_copy_to um dest (b # bs) =
     (if um dest = None then (Inl EFAULT, um) else user_copy_to (um(dest \<mapsto> b)) (add32 dest 1) bs)"

section \<open>Strings in user memory\<close>

text \<open>\<open>user_holds um p bs\<close>: the nonzero bytes \<open>bs\<close> and a terminator are at \<open>p\<close> and can be loaded.\<close>

fun user_holds :: "user_mem \<Rightarrow> addr \<Rightarrow> u8 list \<Rightarrow> bool" where
  "user_holds um p [] \<longleftrightarrow> user_load um p = Some 0"
| "user_holds um p (b # bs) \<longleftrightarrow> b \<noteq> 0 \<and> user_load um p = Some b \<and> user_holds um (add32 p 1) bs"

lemma strnlen_loop_holds: "user_holds um p bs \<Longrightarrow> strnlen_loop um p n k = Inr (k + min (length bs) n)"
  by (induction um p n k arbitrary: bs rule: strnlen_loop.induct) (case_tac bs; auto)+

lemma user_strnlen_holds: "user_holds um p bs \<Longrightarrow> user_strnlen um p n = Inr (min (length bs) n)"
  by (simp add: user_strnlen_def strnlen_loop_holds)

lemma user_copy_from_holds: "user_holds um p bs \<Longrightarrow> user_copy_from um p (length bs + 1) = Inr (bs @ [0])"
  by (induction um p bs rule: user_holds.induct) auto

text \<open>The copied string is cut to \<open>maxn - 1\<close> characters without an error.\<close>

lemma copy_str_loop_holds: "user_holds um p bs \<Longrightarrow> copy_str_loop um p n = Inr (take (n - 1) bs)"
proof (induction um p n arbitrary: bs rule: copy_str_loop.induct)
  case (2 um src k)
  show ?case
  proof (cases bs)
    case Nil
    then show ?thesis using "2.prems" by simp
  next
    case (Cons b cs)
    then show ?thesis using "2.prems" "2.IH" [of b cs] by (cases k) auto
  qed
qed simp

lemma user_copy_str_from_holds:
  "user_holds um p bs \<Longrightarrow> user_copy_str_from um p n = Inr (to_string (take (n - 1) bs))"
  by (simp add: user_copy_str_from_def copy_str_loop_holds)

end
