(* ===== verification/Fs.thy ===== *)
theory Fs
  imports VfsFdt KList Path User Proc
begin

text \<open>
  Mounted filesystems and their cached vnodes: \<^verbatim>\<open>kernel/fs/fs.c\<close>, \<^verbatim>\<open>kernel/fs/vnode.c\<close>,
  \<^verbatim>\<open>kernel/user.c\<close> and the data types of \<^verbatim>\<open>include/dxgmx/fs\<close>. Objects are maps from addresses; all linked
  lists share one heap of nodes. A string on the kernel heap is its address with its characters. The
  functions of filesystem drivers are behind pointers: \<open>drivers\<close> and \<open>node_ops\<close> give, for the address of a
  \<open>FileSystemDriver\<close> or \<open>VirtualNodeOperations\<close> record, its functions, which may change the whole state.
  The pointers a driver keeps for itself (\<open>data\<close> of a vnode, \<open>driver_ctx\<close> of a filesystem) are in \<open>priv\<close>.
  A vnode or filesystem on the heap holds its address; freeing it takes it out of the map.
\<close>

section \<open>Types\<close>

record VirtualNode =
  vn_name :: "kstr option"
  vn_n :: nat
  vn_size :: size_t
  vn_mode :: u32
  vn_uid :: nat
  vn_gid :: nat
  vn_ref_count :: size_t
  vn_flags :: u8
  vn_parent :: "addr option"
  vn_owner :: "addr option"
  vn_ops :: "addr option"

record FileSystem =
  mntsrc :: "kstr option"
  mntpoint :: "kstr option"
  fs_args :: "kstr option"
  fs_flags :: nat
  fs_driver :: "addr option"
  vnode_ll :: LinkedList

record 'x vfs_state =
  fdt :: fdt_state
  nodes :: node_heap
  fs_objs :: "addr \<rightharpoonup> FileSystem"
  vnodes :: "addr \<rightharpoonup> VirtualNode"
  g_filesystems_ll :: LinkedList
  g_fs_drivers_ptr :: "addr option"
  g_fs_drivers :: "addr list"
  priv :: 'x

record 'x VirtualNodeOperations =
  op_open :: "addr \<Rightarrow> u32 \<Rightarrow> 'x vfs_state \<Rightarrow> (unit result \<times> 'x vfs_state) outcome option"
  op_read :: "addr \<Rightarrow> addr \<Rightarrow> size_t \<Rightarrow> int \<Rightarrow> 'x vfs_state \<Rightarrow> (int result \<times> 'x vfs_state) outcome option"
  op_write :: "addr \<Rightarrow> addr \<Rightarrow> size_t \<Rightarrow> int \<Rightarrow> 'x vfs_state \<Rightarrow> (int result \<times> 'x vfs_state) outcome option"
  op_ioctl :: "addr \<Rightarrow> int \<Rightarrow> addr \<Rightarrow> 'x vfs_state \<Rightarrow> (int \<times> 'x vfs_state) outcome option"
  op_mmap :: "(addr \<Rightarrow> addr \<Rightarrow> size_t \<Rightarrow> int \<Rightarrow> int \<Rightarrow> int \<Rightarrow> 'x vfs_state \<Rightarrow> (addr \<times> 'x vfs_state) outcome option) option"

record 'x FileSystemDriver =
  drv_name :: string
  generic_probe :: bool
  drv_init :: "addr \<Rightarrow> 'x vfs_state \<Rightarrow> (unit result \<times> 'x vfs_state) outcome option"
  drv_destroy :: "addr \<Rightarrow> 'x vfs_state \<Rightarrow> 'x vfs_state outcome option"
  drv_mkfile :: "addr option \<Rightarrow> string \<Rightarrow> u32 \<Rightarrow> nat \<Rightarrow> nat \<Rightarrow> addr \<Rightarrow> 'x vfs_state \<Rightarrow> (nat result \<times> 'x vfs_state) outcome option"
  drv_rmnode :: "addr \<Rightarrow> 'x vfs_state \<Rightarrow> (unit result \<times> 'x vfs_state) outcome option"
  drv_vnode_ops :: "addr option"

record 'x fs_env =
  drivers :: "addr \<Rightarrow> 'x FileSystemDriver"
  node_ops :: "addr \<Rightarrow> 'x VirtualNodeOperations"
  user_memory :: user_mem

definition PATH_MAX :: nat where "PATH_MAX = 512"
definition S_IFDIR :: u32 where "S_IFDIR = 0x4000"
definition VNODE_PENDING_RM :: u8 where "VNODE_PENDING_RM = 1"

abbreviation vkm :: "'x vfs_state \<Rightarrow> kmstate" where "vkm s \<equiv> fdt_km (fdt s)"

definition set_vkm :: "kmstate \<Rightarrow> 'x vfs_state \<Rightarrow> 'x vfs_state" where
  "set_vkm km s = s\<lparr>fdt := set_km km (fdt s)\<rparr>"

definition vkfree :: "addr option \<Rightarrow> 'x vfs_state \<Rightarrow> 'x vfs_state outcome option" where
  "vkfree a s = bind_run (kfree a (vkm s)) (\<lambda>km. Some (Ret (set_vkm km s)))"

definition free_kstr :: "kstr option \<Rightarrow> 'x vfs_state \<Rightarrow> 'x vfs_state outcome option" where
  "free_kstr str s = (case str of None \<Rightarrow> Some (Ret s) | Some (a, _) \<Rightarrow> vkfree (Some a) s)"

definition with_fs :: "addr \<Rightarrow> 'x vfs_state \<Rightarrow> (FileSystem \<Rightarrow> 'r outcome option) \<Rightarrow> 'r outcome option" where
  "with_fs a s k = (case fs_objs s a of None \<Rightarrow> Some Panic | Some f \<Rightarrow> k f)"

definition with_vnode :: "addr \<Rightarrow> 'x vfs_state \<Rightarrow> (VirtualNode \<Rightarrow> 'r outcome option) \<Rightarrow> 'r outcome option" where
  "with_vnode a s k = (case vnodes s a of None \<Rightarrow> Some Panic | Some v \<Rightarrow> k v)"

definition with_ptr :: "'a option \<Rightarrow> ('a \<Rightarrow> 'r outcome option) \<Rightarrow> 'r outcome option" where
  "with_ptr p k = (case p of None \<Rightarrow> Some Panic | Some a \<Rightarrow> k a)"

section \<open>Linked lists on the kernel heap\<close>

definition ll_entries :: "LinkedList \<Rightarrow> 'x vfs_state \<Rightarrow> nat list outcome option" where
  "ll_entries ll s = ll_walk (nodes s) (root ll) []"

definition on_lists :: "(unit result \<times> LinkedList \<times> list_heap) outcome option \<Rightarrow> 'x vfs_state
    \<Rightarrow> (unit result \<times> LinkedList \<times> 'x vfs_state) outcome option" where
  "on_lists run s = bind_run run (\<lambda>(r, ll, km, h). Some (Ret (r, ll, (set_vkm km s)\<lparr>nodes := h\<rparr>)))"

definition ll_add :: "nat \<Rightarrow> LinkedList \<Rightarrow> 'x vfs_state \<Rightarrow> (unit result \<times> LinkedList \<times> 'x vfs_state) outcome option" where
  "ll_add d ll s = on_lists (kl_add d ll (vkm s, nodes s)) s"

definition ll_remove :: "nat \<Rightarrow> LinkedList \<Rightarrow> 'x vfs_state \<Rightarrow> (unit result \<times> LinkedList \<times> 'x vfs_state) outcome option" where
  "ll_remove d ll s = on_lists (kl_remove d ll (vkm s, nodes s)) s"

definition ll_remove_first :: "LinkedList \<Rightarrow> 'x vfs_state \<Rightarrow> (unit result \<times> LinkedList \<times> 'x vfs_state) outcome option" where
  "ll_remove_first ll s = on_lists (kl_remove_first ll (vkm s, nodes s)) s"

section \<open>Strings from user space\<close>

definition user_strndup :: "'x fs_env \<Rightarrow> addr \<Rightarrow> nat \<Rightarrow> 'x vfs_state \<Rightarrow> (kstr result \<times> 'x vfs_state) outcome option" where
  "user_strndup E str maxn s =
     (case user_strnlen (user_memory E) str maxn of
        Inl e \<Rightarrow> Some (Ret (Inl e, s))
      | Inr len \<Rightarrow>
          if len = maxn then Some (Ret (Inl ENAMETOOLONG, s))
          else bind_run (kmalloc (len + 1) (vkm s)) (\<lambda>(p, km).
            let s1 = set_vkm km s in
            case p of
              None \<Rightarrow> Some (Ret (Inl ENOMEM, s1))
            | Some a \<Rightarrow>
                (case user_copy_from (user_memory E) str (len + 1) of
                   Inl e \<Rightarrow> Some (Ret (Inl e, s1))
                 | Inr bs \<Rightarrow> Some (Ret (Inr (a, to_string (takeWhile (\<lambda>b. b \<noteq> 0) bs)), s1)))))"

section \<open>Reference counts\<close>

definition vnode_increase_refcount :: "addr \<Rightarrow> 'x vfs_state \<Rightarrow> 'x vfs_state outcome option" where
  "vnode_increase_refcount a s =
     with_vnode a s (\<lambda>v. Some (Ret (s\<lparr>vnodes := (vnodes s)(a \<mapsto> v\<lparr>vn_ref_count := add32 (vn_ref_count v) 1\<rparr>)\<rparr>)))"

definition vnode_decrease_refcount :: "'x fs_env \<Rightarrow> addr \<Rightarrow> 'x vfs_state \<Rightarrow> 'x vfs_state outcome option" where
  "vnode_decrease_refcount E a s =
     with_vnode a s (\<lambda>v.
       if vn_ref_count v = 0 then Some Panic
       else
         let v1 = v\<lparr>vn_ref_count := vn_ref_count v - 1\<rparr>;
             s1 = s\<lparr>vnodes := (vnodes s)(a \<mapsto> v1)\<rparr>
         in if vn_ref_count v1 = 0 \<and> vn_flags v1 AND VNODE_PENDING_RM \<noteq> 0 then
              with_ptr (vn_owner v1) (\<lambda>ow. with_fs ow s1 (\<lambda>f. with_ptr (fs_driver f) (\<lambda>d.
                bind_run (drv_rmnode (drivers E d) a s1) (\<lambda>(_, s2). Some (Ret s2)))))
            else Some (Ret s1))"

section \<open>The vnode cache\<close>

text \<open>
  The path of a vnode, built from its name backwards over its parents into a buffer of \<open>PATH_MAX\<close> bytes. An
  empty name in front of which no slash goes makes the copying loop run past the buffer, a fault.
\<close>

function vnode_path :: "(addr \<rightharpoonup> VirtualNode) \<Rightarrow> addr \<Rightarrow> bool \<Rightarrow> string \<Rightarrow> string outcome" where
  "vnode_path vs a addslash tmp =
     (case vs a of
        None \<Rightarrow> Panic
      | Some v \<Rightarrow>
          (case vn_name v of
             None \<Rightarrow> Panic
           | Some (_, name) \<Rightarrow>
               let cur_len = length name + (if addslash then 1 else 0) in
               if length tmp + cur_len \<ge> PATH_MAX then Ret tmp
               else if cur_len = 0 then Panic
               else
                 let tmp1 = name @ (if addslash then ''/'' else []) @ tmp in
                 (case vn_parent v of
                    None \<Rightarrow> Ret tmp1
                  | Some par \<Rightarrow>
                      vnode_path vs par (case vs par of None \<Rightarrow> False | Some pv \<Rightarrow> vn_parent pv \<noteq> None) tmp1)))"
  by pat_completeness auto
termination by (relation "measure (\<lambda>(vs, a, sl, tmp). PATH_MAX - length tmp)") (auto simp: PATH_MAX_def neq_Nil_conv split: if_splits)

declare vnode_path.simps [simp del]

fun find_vnode :: "(addr \<rightharpoonup> VirtualNode) \<Rightarrow> string \<Rightarrow> addr list \<Rightarrow> addr option outcome" where
  "find_vnode vs path [] = Ret None"
| "find_vnode vs path (a # as) =
     bind_outcome (vnode_path vs a False []) (\<lambda>tmp. if tmp = path then Ret (Some a) else find_vnode vs path as)"

definition fs_lookup_vnode_cached_relative :: "string \<Rightarrow> addr \<Rightarrow> 'x vfs_state \<Rightarrow> addr option outcome option" where
  "fs_lookup_vnode_cached_relative path fs s =
     with_fs fs s (\<lambda>f. bind_run (ll_entries (vnode_ll f) s) (\<lambda>as. Some (find_vnode (vnodes s) path as)))"

definition vnode_size :: nat where "vnode_size = 48"

definition fs_new_vnode_cache :: "'x fs_env \<Rightarrow> string \<Rightarrow> addr \<Rightarrow> 'x vfs_state \<Rightarrow> (addr option \<times> 'x vfs_state) outcome option" where
  "fs_new_vnode_cache E name fs s =
     bind_run (kcalloc vnode_size (vkm s)) (\<lambda>(p, km).
       let s1 = set_vkm km s in
       case p of
         None \<Rightarrow> Some (Ret (None, s1))
       | Some a \<Rightarrow>
           bind_run (kmalloc (length name) (vkm s1)) (\<lambda>(q, km2).
             let s2 = set_vkm km2 s1 in
             with_fs fs s2 (\<lambda>f. with_ptr (fs_driver f) (\<lambda>d.
               case q of
                 None \<Rightarrow> bind_run (vkfree (Some a) s2) (\<lambda>s3. Some (Ret (None, s3)))
               | Some b \<Rightarrow>
                   let v = \<lparr>vn_name = Some (b, name), vn_n = 0, vn_size = 0, vn_mode = 0, vn_uid = 0, vn_gid = 0,
                            vn_ref_count = 0, vn_flags = 0, vn_parent = None, vn_owner = Some fs,
                            vn_ops = drv_vnode_ops (drivers E d)\<rparr> in
                   bind_run (ll_add a (vnode_ll f) s2) (\<lambda>(r, ll, s3).
                     let s4 = s3\<lparr>fs_objs := (fs_objs s3)(fs \<mapsto> f\<lparr>vnode_ll := ll\<rparr>)\<rparr> in
                     case r of
                       Inl e \<Rightarrow> bind_run (vkfree (Some b) s4) (\<lambda>s5. bind_run (vkfree (Some a) s5) (\<lambda>s6. Some (Ret (None, s6))))
                     | Inr _ \<Rightarrow> Some (Ret (Some a, s4\<lparr>vnodes := (vnodes s4)(a \<mapsto> v)\<rparr>)))))))"

definition fs_free_cached_vnode :: "addr \<Rightarrow> addr \<Rightarrow> 'x vfs_state \<Rightarrow> (unit result \<times> 'x vfs_state) outcome option" where
  "fs_free_cached_vnode a fs s =
     with_fs fs s (\<lambda>f.
     bind_run (ll_remove a (vnode_ll f) s) (\<lambda>(_, ll, s1).
     with_vnode a s1 (\<lambda>v.
       let s2 = s1\<lparr>fs_objs := (fs_objs s1)(fs \<mapsto> f\<lparr>vnode_ll := ll\<rparr>)\<rparr> in
       bind_run (vkfree (map_option fst (vn_name v)) s2) (\<lambda>s3.
       bind_run (vkfree (Some a) s3) (\<lambda>s4. Some (Ret (Inr (), s4\<lparr>vnodes := (vnodes s4)(a := None)\<rparr>)))))))"

partial_function (option) free_vnodes_loop :: "addr \<Rightarrow> 'x vfs_state \<Rightarrow> 'x vfs_state outcome option" where
  "free_vnodes_loop fs s =
     (case fs_objs s fs of
        None \<Rightarrow> Some Panic
      | Some f \<Rightarrow>
          (case root (vnode_ll f) of
             None \<Rightarrow> Some Panic
           | Some n \<Rightarrow>
               (case nodes s n of
                  None \<Rightarrow> Some Panic
                | Some node \<Rightarrow>
                    let a = data node in
                    (case vnodes s a of
                       None \<Rightarrow> Some Panic
                     | Some v \<Rightarrow>
                         Option.bind (bind_run (vkfree (map_option fst (vn_name v)) s) (\<lambda>s1.
                             bind_run (vkfree (Some a) s1) (\<lambda>s2.
                             bind_run (ll_remove_first (vnode_ll f) (s2\<lparr>vnodes := (vnodes s2)(a := None)\<rparr>)) (\<lambda>(r, ll, s3).
                               Some (Ret (r, s3\<lparr>fs_objs := (fs_objs s3)(fs \<mapsto> f\<lparr>vnode_ll := ll\<rparr>)\<rparr>))))))
                           (\<lambda>out. case out of
                                  Panic \<Rightarrow> Some Panic
                                | Ret x \<Rightarrow> (case fst x of Inl e \<Rightarrow> Some (Ret (snd x)) | Inr _ \<Rightarrow> free_vnodes_loop fs (snd x)))))))"

definition fs_free_all_cached_vnodes :: "addr \<Rightarrow> 'x vfs_state \<Rightarrow> 'x vfs_state outcome option" where
  "fs_free_all_cached_vnodes fs s =
     with_fs fs s (\<lambda>f. case root (vnode_ll f) of None \<Rightarrow> Some (Ret s) | Some _ \<Rightarrow> free_vnodes_loop fs s)"

definition fs_relative :: "string \<Rightarrow> FileSystem \<Rightarrow> string result" where
  "fs_relative path f =
     (case path_make_relative (Some (path_make_canonical path)) (map_option snd (mntpoint f)) of
        (Inl e, _) \<Rightarrow> Inl e
      | (Inr _, p) \<Rightarrow> Inr (the p))"

definition fs_lookup_vnode :: "string \<Rightarrow> addr \<Rightarrow> 'x vfs_state \<Rightarrow> addr result outcome option" where
  "fs_lookup_vnode path fs s =
     with_fs fs s (\<lambda>f.
       case fs_relative path f of
         Inl e \<Rightarrow> Some (Ret (Inl e))
       | Inr tmp \<Rightarrow>
           bind_run (fs_lookup_vnode_cached_relative tmp fs s) (\<lambda>r.
             Some (Ret (case r of None \<Rightarrow> Inl ENOENT | Some a \<Rightarrow> Inr a))))"

definition fs_get_dir_vnode_for_file :: "string \<Rightarrow> addr \<Rightarrow> 'x vfs_state \<Rightarrow> addr option outcome option" where
  "fs_get_dir_vnode_for_file path fs s =
     (case last_slash path 0 of
        None \<Rightarrow> Some Panic
      | Some i \<Rightarrow> fs_lookup_vnode_cached_relative (if i + 1 > 1 then take i path else take (i + 1) path) fs s)"

fun find_ino :: "(addr \<rightharpoonup> VirtualNode) \<Rightarrow> nat \<Rightarrow> addr list \<Rightarrow> addr option outcome" where
  "find_ino vs ino [] = Ret None"
| "find_ino vs ino (a # as) =
     (case vs a of None \<Rightarrow> Panic | Some v \<Rightarrow> if vn_n v = ino then Ret (Some a) else find_ino vs ino as)"

definition fs_ino_to_vnode :: "nat \<Rightarrow> addr \<Rightarrow> 'x vfs_state \<Rightarrow> addr option outcome option" where
  "fs_ino_to_vnode ino fs s =
     with_fs fs s (\<lambda>f. bind_run (ll_entries (vnode_ll f) s) (\<lambda>as. Some (find_ino (vnodes s) ino as)))"

definition fs_mkfile :: "'x fs_env \<Rightarrow> string \<Rightarrow> u32 \<Rightarrow> nat \<Rightarrow> nat \<Rightarrow> addr \<Rightarrow> 'x vfs_state
    \<Rightarrow> (nat result \<times> 'x vfs_state) outcome option" where
  "fs_mkfile E path mode uid gid fs s =
     with_fs fs s (\<lambda>f.
       case fs_relative path f of
         Inl e \<Rightarrow> Some (Ret (Inl e, s))
       | Inr tmp \<Rightarrow>
           bind_run (fs_get_dir_vnode_for_file tmp fs s) (\<lambda>parent.
           bind_run (Some (path_make_filename tmp)) (\<lambda>name.
             with_ptr (fs_driver f) (\<lambda>d. drv_mkfile (drivers E d) parent name mode uid gid fs s))))"

end
