(* ===== verification/Vfs.thy ===== *)
theory Vfs
  imports Fs
begin

text \<open>
  The virtual filesystem, \<^verbatim>\<open>kernel/fs/vfs.c\<close>: mounting, drivers, and the operations on open files. The process an
  operation acts for is an argument and, where the operation changes it, part of the result. \<open>off_t\<close> is a signed
  32-bit number; an addition keeps the low 32 bits. \<open>int\<close> results that are not errors are the value of \<open>Inr\<close>.
\<close>

section \<open>Constants\<close>

definition VFS_TYPE_MAX :: nat where "VFS_TYPE_MAX = 32"
definition O_RDONLY :: u32 where "O_RDONLY = 1"
definition O_WRONLY :: u32 where "O_WRONLY = 2"
definition O_CREAT :: u32 where "O_CREAT = 8"
definition O_APPEND :: u32 where "O_APPEND = 0x80"
definition SEEK_SET :: int where "SEEK_SET = 1"
definition SEEK_CUR :: int where "SEEK_CUR = 2"
definition SEEK_END :: int where "SEEK_END = 3"
definition filesystem_size :: nat where "filesystem_size = 32"

definition to_off :: "int \<Rightarrow> int" where
  "to_off x = sint (word_of_int x :: u32)"

section \<open>Filesystems and drivers\<close>

definition put_fs :: "addr \<Rightarrow> FileSystem \<Rightarrow> 'x vfs_state \<Rightarrow> 'x vfs_state" where
  "put_fs a f s = s\<lparr>fs_objs := (fs_objs s)(a \<mapsto> f)\<rparr>"

definition zero_fs :: FileSystem where
  "zero_fs = \<lparr>mntsrc = None, mntpoint = None, fs_args = None, fs_flags = 0, fs_driver = None, vnode_ll = linkedlist_init\<rparr>"

text \<open>The label \<open>out_err\<close>.\<close>

definition new_fs_err :: "addr \<Rightarrow> FileSystem \<Rightarrow> errno \<Rightarrow> 'x vfs_state \<Rightarrow> (addr result \<times> 'x vfs_state) outcome option" where
  "new_fs_err a f e s =
     bind_run (free_kstr (mntsrc f) s) (\<lambda>s1.
     bind_run (free_kstr (mntpoint f) s1) (\<lambda>s2.
     bind_run (free_kstr (fs_args f) s2) (\<lambda>s3.
     bind_run (vkfree (Some a) s3) (\<lambda>s4. Some (Ret (Inl e, s4\<lparr>fs_objs := (fs_objs s4)(a := None)\<rparr>))))))"

definition vfs_new_fs :: "'x fs_env \<Rightarrow> addr \<Rightarrow> addr \<Rightarrow> addr option \<Rightarrow> 'x vfs_state \<Rightarrow> (addr result \<times> 'x vfs_state) outcome option" where
  "vfs_new_fs E src dest args s =
     bind_run (kcalloc filesystem_size (vkm s)) (\<lambda>(newfs, km).
       let s0 = set_vkm km s in
       case newfs of
         None \<Rightarrow> Some (Ret (Inl ENOMEM, s0))
       | Some a \<Rightarrow>
           bind_run (user_strndup E src PATH_MAX (put_fs a zero_fs s0)) (\<lambda>(r, s1).
             case r of Inl e \<Rightarrow> new_fs_err a zero_fs e s1
             | Inr src_str \<Rightarrow>
           let f1 = zero_fs\<lparr>mntsrc := Some src_str\<rparr> in
           bind_run (user_strndup E dest PATH_MAX (put_fs a f1 s1)) (\<lambda>(r, s2).
             case r of Inl e \<Rightarrow> new_fs_err a f1 e s2
             | Inr dest_str \<Rightarrow>
           let f2 = f1\<lparr>mntpoint := Some dest_str\<rparr> in
           bind_run (case args of
                       None \<Rightarrow> Some (Ret (Inr None, put_fs a f2 s2))
                     | Some p \<Rightarrow> bind_run (user_strndup E p PATH_MAX (put_fs a f2 s2)) (\<lambda>(r, s3).
                         Some (Ret (case r of Inl e \<Rightarrow> Inl e | Inr t \<Rightarrow> Inr (Some t), s3)))) (\<lambda>(r, s3).
             case r of Inl e \<Rightarrow> new_fs_err a f2 e s3
             | Inr args_str \<Rightarrow>
           let f3 = f2\<lparr>fs_args := args_str\<rparr> in
           bind_run (ll_add a (g_filesystems_ll s3) (put_fs a f3 s3)) (\<lambda>(st, ll, s4).
             let s5 = s4\<lparr>g_filesystems_ll := ll\<rparr> in
             case st of Inl _ \<Rightarrow> new_fs_err a f3 ENOMEM s5 | Inr _ \<Rightarrow> Some (Ret (Inr a, s5)))))))"

definition vfs_free_fs :: "addr \<Rightarrow> 'x vfs_state \<Rightarrow> 'x vfs_state outcome option" where
  "vfs_free_fs fs s =
     bind_run (ll_remove fs (g_filesystems_ll s) s) (\<lambda>(st, ll, s1).
       let s2 = s1\<lparr>g_filesystems_ll := ll\<rparr> in
       case st of
         Inl _ \<Rightarrow> Some (Ret s2)
       | Inr _ \<Rightarrow>
           with_fs fs s2 (\<lambda>f.
             bind_run (vkfree (map_option fst (mntsrc f)) s2) (\<lambda>s3.
             bind_run (vkfree (map_option fst (mntpoint f)) s3) (\<lambda>s4.
             bind_run (free_kstr (fs_args f) s4) (\<lambda>s5.
             bind_run (vkfree (Some fs) s5) (\<lambda>s6. Some (Ret (s6\<lparr>fs_objs := (fs_objs s6)(fs := None)\<rparr>))))))))"

text \<open>\<open>*newfs_driver = driver\<close> fills the new last entry of the array.\<close>

definition vfs_new_fs_driver :: "addr \<Rightarrow> 'x vfs_state \<Rightarrow> (unit result \<times> 'x vfs_state) outcome option" where
  "vfs_new_fs_driver d s =
     bind_run (krealloc (g_fs_drivers_ptr s) (mul32 (add32 (length (g_fs_drivers s)) 1) 4) (vkm s)) (\<lambda>(tmp, km).
       let s1 = set_vkm km s in
       case tmp of
         None \<Rightarrow> Some (Ret (Inl ENOMEM, s1))
       | Some a \<Rightarrow> Some (Ret (Inr (), s1\<lparr>g_fs_drivers_ptr := Some a, g_fs_drivers := g_fs_drivers s @ [d]\<rparr>)))"

section \<open>Finding a filesystem\<close>

text \<open>\<open>strstr(path, mntpoint) == path\<close>: the first occurrence is at the start.\<close>

definition is_prefix :: "string \<Rightarrow> string \<Rightarrow> bool" where
  "is_prefix m path \<longleftrightarrow> take (length m) path = m"

fun topmost_loop :: "(addr \<rightharpoonup> FileSystem) \<Rightarrow> string \<Rightarrow> (addr \<times> string) option \<Rightarrow> addr list \<Rightarrow> addr option outcome" where
  "topmost_loop fss path fs_hit [] = Ret (map_option fst fs_hit)"
| "topmost_loop fss path fs_hit (a # as) =
     (case fss a of
        None \<Rightarrow> Panic
      | Some f \<Rightarrow>
          (case mntpoint f of
             None \<Rightarrow> Panic
           | Some (_, m) \<Rightarrow>
               topmost_loop fss path
                 (if is_prefix m path then
                    (case fs_hit of
                       None \<Rightarrow> Some (a, m)
                     | Some (h, cur) \<Rightarrow> if length m \<ge> length cur then Some (a, m) else Some (h, cur))
                  else fs_hit) as))"

definition vfs_topmost_fs_for_path :: "string \<Rightarrow> 'x vfs_state \<Rightarrow> addr outcome option" where
  "vfs_topmost_fs_for_path path s =
     bind_run (ll_entries (g_filesystems_ll s) s) (\<lambda>as.
     bind_run (Some (topmost_loop (fs_objs s) path None as)) (\<lambda>hit.
       case hit of None \<Rightarrow> Some Panic | Some a \<Rightarrow> Some (Ret a)))"

fun find_src_or_dest :: "(addr \<rightharpoonup> FileSystem) \<Rightarrow> string \<Rightarrow> addr list \<Rightarrow> addr option outcome" where
  "find_src_or_dest fss t [] = Ret None"
| "find_src_or_dest fss t (a # as) =
     (case fss a of
        None \<Rightarrow> Panic
      | Some f \<Rightarrow>
          if map_option snd (mntsrc f) = Some t \<or> map_option snd (mntpoint f) = Some t then Ret (Some a)
          else find_src_or_dest fss t as)"

definition vfs_find_fs_by_src_or_dest :: "string \<Rightarrow> 'x vfs_state \<Rightarrow> addr option outcome option" where
  "vfs_find_fs_by_src_or_dest t s =
     bind_run (ll_entries (g_filesystems_ll s) s) (\<lambda>as. Some (find_src_or_dest (fs_objs s) t as))"

section \<open>Mounting\<close>

text \<open>
  The loop over the registered drivers. The outcome of the last probe is \<open>-ENOENT\<close> when the loop ends without a
  match. The array of drivers is the one the loop starts with: \<open>init\<close> does not register drivers.
\<close>

fun probe_loop :: "'x fs_env \<Rightarrow> addr \<Rightarrow> string option \<Rightarrow> addr list \<Rightarrow> unit result \<Rightarrow> 'x vfs_state
    \<Rightarrow> (unit result \<times> 'x vfs_state) outcome option" where
  "probe_loop E fs safe_type [] st s = Some (Ret (st, s))"
| "probe_loop E fs safe_type (d # ds) st s =
     with_fs fs s (\<lambda>f.
       let s1 = put_fs fs (f\<lparr>fs_driver := Some d\<rparr>) s in
       case safe_type of
         Some t \<Rightarrow>
           if drv_name (drivers E d) = t then drv_init (drivers E d) fs s1
           else probe_loop E fs safe_type ds (Inl ENOENT) s1
       | None \<Rightarrow>
           if generic_probe (drivers E d) then
             bind_run (drv_init (drivers E d) fs s1) (\<lambda>(st1, s2).
               if st1 = Inl ENOENT then probe_loop E fs safe_type ds st1 s2 else Some (Ret (st1, s2)))
           else probe_loop E fs safe_type ds (Inl ENOENT) s1)"

definition vfs_mount :: "'x fs_env \<Rightarrow> addr \<Rightarrow> addr \<Rightarrow> addr option \<Rightarrow> addr option \<Rightarrow> nat \<Rightarrow> 'x vfs_state
    \<Rightarrow> (unit result \<times> 'x vfs_state) outcome option" where
  "vfs_mount E src dest type args flags s =
     bind_run (vfs_new_fs E src dest args s) (\<lambda>(fsres, s1).
       case fsres of
         Inl e \<Rightarrow> Some (Ret (Inl e, s1))
       | Inr fs \<Rightarrow>
           with_fs fs s1 (\<lambda>f.
           let s2 = put_fs fs (f\<lparr>fs_flags := flags\<rparr>) s1 in
           bind_run (case type of
                       None \<Rightarrow> Some (Ret (Inr None, s2))
                     | Some p \<Rightarrow> bind_run (user_strndup E p VFS_TYPE_MAX s2) (\<lambda>(r, s3).
                         Some (Ret (case r of Inl e \<Rightarrow> Inl e | Inr t \<Rightarrow> Inr (Some t), s3)))) (\<lambda>(r, s3).
             case r of
               Inl e \<Rightarrow> bind_run (vfs_free_fs fs s3) (\<lambda>s4. Some (Ret (Inl e, s4)))
             | Inr safe_type \<Rightarrow>
                 bind_run (probe_loop E fs (map_option snd safe_type) (g_fs_drivers s3) (Inl ENOENT) s3) (\<lambda>(st, s4).
                 bind_run (case st of Inl _ \<Rightarrow> vfs_free_fs fs s4 | Inr _ \<Rightarrow> Some (Ret s4)) (\<lambda>s5.
                 bind_run (free_kstr safe_type s5) (\<lambda>s6. Some (Ret (st, s6))))))))"

definition vfs_unmount :: "'x fs_env \<Rightarrow> string option \<Rightarrow> 'x vfs_state \<Rightarrow> (unit result \<times> 'x vfs_state) outcome option" where
  "vfs_unmount E src_or_dest s =
     (case src_or_dest of
        None \<Rightarrow> Some (Ret (Inl EINVAL, s))
      | Some t \<Rightarrow>
          bind_run (vfs_find_fs_by_src_or_dest t s) (\<lambda>r.
            case r of
              None \<Rightarrow> Some (Ret (Inl ENOENT, s))
            | Some fs \<Rightarrow>
                with_fs fs s (\<lambda>f. with_ptr (fs_driver f) (\<lambda>d.
                  bind_run (drv_destroy (drivers E d) fs s) (\<lambda>s1.
                  bind_run (vfs_free_fs fs s1) (\<lambda>s2. Some (Ret (Inr (), s2))))))))"

definition vfs_register_fs_driver :: "'x fs_env \<Rightarrow> addr \<Rightarrow> 'x vfs_state \<Rightarrow> (unit result \<times> 'x vfs_state) outcome option" where
  "vfs_register_fs_driver E d s =
     (if \<exists>x\<in>set (g_fs_drivers s). drv_name (drivers E x) = drv_name (drivers E d) then Some (Ret (Inl EEXIST, s))
      else vfs_new_fs_driver d s)"

fun driver_in_use :: "(addr \<rightharpoonup> FileSystem) \<Rightarrow> addr \<Rightarrow> addr list \<Rightarrow> bool outcome" where
  "driver_in_use fss d [] = Ret False"
| "driver_in_use fss d (a # as) =
     (case fss a of None \<Rightarrow> Panic | Some f \<Rightarrow> if fs_driver f = Some d then Ret True else driver_in_use fss d as)"

definition vfs_unregister_fs_driver :: "addr \<Rightarrow> 'x vfs_state \<Rightarrow> (unit result \<times> 'x vfs_state) outcome option" where
  "vfs_unregister_fs_driver d s =
     (if d \<notin> set (g_fs_drivers s) then Some (Ret (Inl ENOENT, s))
      else bind_run (ll_entries (g_filesystems_ll s) s) (\<lambda>as.
           bind_run (Some (driver_in_use (fs_objs s) d as)) (\<lambda>used.
             if used then Some (Ret (Inl EBUSY, s))
             else Some (Ret (Inr (), s\<lparr>g_fs_drivers := remove1 d (g_fs_drivers s)\<rparr>)))))"

text \<open>
  The string literals of \<open>vfs_init\<close> are at the addresses \<open>hdap0\<close>, \<open>slash_str\<close>, \<open>devfs\<close> and \<open>slash_dev\<close>. The result of
  the second mount is dropped; logging the mounts walks the list.
\<close>

definition vfs_init :: "'x fs_env \<Rightarrow> addr \<Rightarrow> addr \<Rightarrow> addr \<Rightarrow> addr \<Rightarrow> 'x vfs_state \<Rightarrow> (unit result \<times> 'x vfs_state) outcome option" where
  "vfs_init E hdap0 slash_str devfs slash_dev s =
     bind_run (vfs_fdt_init (fdt s)) (\<lambda>(st, t).
       case st of
         Inl _ \<Rightarrow> Some Panic
       | Inr _ \<Rightarrow>
           bind_run (vfs_mount E hdap0 slash_str None None 0 (s\<lparr>fdt := t, g_filesystems_ll := linkedlist_init\<rparr>)) (\<lambda>(st, s1).
             case st of
               Inl _ \<Rightarrow> Some Panic
             | Inr _ \<Rightarrow>
                 bind_run (vfs_mount E devfs slash_dev (Some devfs) None 0 s1) (\<lambda>(_, s2).
                 bind_run (ll_entries (g_filesystems_ll s2) s2) (\<lambda>_. Some (Ret (Inr (), s2))))))"

section \<open>Open files\<close>

definition vfs_rmfile :: "'x fs_env \<Rightarrow> addr \<Rightarrow> 'x vfs_state \<Rightarrow> (unit result \<times> 'x vfs_state) outcome option" where
  "vfs_rmfile E path s =
     (case user_copy_str_from (user_memory E) path PATH_MAX of
        Inl e \<Rightarrow> Some (Ret (Inl e, s))
      | Inr safe_path \<Rightarrow>
          if take 1 safe_path \<noteq> ''/'' then Some (Ret (Inl EINVAL, s))
          else bind_run (vfs_topmost_fs_for_path safe_path s) (\<lambda>fs.
               bind_run (fs_lookup_vnode safe_path fs s) (\<lambda>vnode_res.
                 case vnode_res of
                   Inl e \<Rightarrow> Some (Ret (Inl e, s))
                 | Inr vnode \<Rightarrow>
                     with_vnode vnode s (\<lambda>v.
                       if vn_mode v AND S_IFDIR \<noteq> 0 then Some (Ret (Inl EISDIR, s))
                       else
                         let v1 = v\<lparr>vn_flags := vn_flags v OR VNODE_PENDING_RM\<rparr>;
                             s1 = s\<lparr>vnodes := (vnodes s)(vnode \<mapsto> v1)\<rparr>
                         in if vn_ref_count v1 = 0 then
                              with_ptr (vn_owner v1) (\<lambda>ow. with_fs ow s1 (\<lambda>f. with_ptr (fs_driver f) (\<lambda>d.
                                drv_rmnode (drivers E d) vnode s1)))
                            else Some (Ret (Inr (), s1))))))"

definition proc_fd :: "nat \<Rightarrow> u32" where "proc_fd i = word_of_nat i"

abbreviation pid_of :: "Process \<Rightarrow> u32" where "pid_of p \<equiv> word_of_nat (proc_pid p)"

text \<open>The part of \<open>vfs_open\<close> after the vnode has been found. A descriptor number above \<open>INT_MAX\<close> would be negative.\<close>

definition open_vnode :: "'x fs_env \<Rightarrow> addr \<Rightarrow> u32 \<Rightarrow> Process \<Rightarrow> 'x vfs_state
    \<Rightarrow> (u32 result \<times> Process \<times> 'x vfs_state) outcome option" where
  "open_vnode E vnode flags p s =
     bind_run (proc_new_fd p (vkm s)) (\<lambda>(r, p1, km).
       let s1 = set_vkm km s in
       case r of
         Inl e \<Rightarrow> Some (Ret (Inl e, p1, s1))
       | Inr i \<Rightarrow>
           let procfd = proc_fd i in
           if sint procfd < 0 then Some (Ret (Inr procfd, p1, s1))
           else
             bind_run (vfs_fdt_new_sysfd procfd (pid_of p1) (fdt s1)) (\<lambda>(sysfd, t).
               let s2 = s1\<lparr>fdt := t\<rparr> in
               case sysfd of
                 None \<Rightarrow> Some (Ret (Inl ENOMEM, proc_free_fd i p1, s2))
               | Some a \<Rightarrow>
                   with_vnode vnode s2 (\<lambda>v. with_ptr (vn_ops v) (\<lambda>ops.
                     bind_run (op_open (node_ops E ops) vnode flags s2) (\<lambda>(st, s3).
                       case st of
                         Inl e \<Rightarrow>
                           bind_run (vfs_fdt_free_sysfd a (fdt s3)) (\<lambda>t3.
                             Some (Ret (Inl e, proc_free_fd i p1, s3\<lparr>fdt := t3\<rparr>)))
                       | Inr _ \<Rightarrow>
                           with_ptr (fd_objs (fdt s3) a) (\<lambda>fd.
                             let fd1 = fd\<lparr>fd_flags := flags, fd_vnode := Some vnode\<rparr>;
                                 s4 = s3\<lparr>fdt := (fdt s3)\<lparr>fd_objs := (fd_objs (fdt s3))(a \<mapsto> fd1)\<rparr>\<rparr>
                             in bind_run (vnode_increase_refcount vnode s4) (\<lambda>s5.
                                  Some (Ret (Inr procfd, p1, s5)))))))))"

definition vfs_open :: "'x fs_env \<Rightarrow> addr \<Rightarrow> u32 \<Rightarrow> u32 \<Rightarrow> Process \<Rightarrow> 'x vfs_state
    \<Rightarrow> (u32 result \<times> Process \<times> 'x vfs_state) outcome option" where
  "vfs_open E path flags mode p s =
     (case user_copy_str_from (user_memory E) path PATH_MAX of
        Inl e \<Rightarrow> Some (Ret (Inl e, p, s))
      | Inr safe_path \<Rightarrow>
          if take 1 safe_path \<noteq> ''/'' then Some (Ret (Inl EINVAL, p, s))
          else bind_run (vfs_topmost_fs_for_path safe_path s) (\<lambda>fs.
               bind_run (fs_lookup_vnode safe_path fs s) (\<lambda>vnode_res.
                 if vnode_res = Inl ENOENT then
                   if flags AND O_CREAT \<noteq> 0 then
                     bind_run (fs_mkfile E safe_path mode 0 0 fs s) (\<lambda>(tmp, s1).
                       case tmp of
                         Inl e \<Rightarrow> Some (Ret (Inl e, p, s1))
                       | Inr _ \<Rightarrow>
                           bind_run (fs_lookup_vnode safe_path fs s1) (\<lambda>again.
                             case again of
                               Inl _ \<Rightarrow> Some Panic
                             | Inr _ \<Rightarrow> Some (Ret (Inl ENOENT, p, s1))))
                   else Some (Ret (Inl ENOENT, p, s))
                 else
                   (case vnode_res of
                      Inl e \<Rightarrow> Some (Ret (Inl e, p, s))
                    | Inr vnode \<Rightarrow> open_vnode E vnode flags p s))))"

text \<open>The entry of the open-file table a descriptor of the process names, and its \<open>FileDescriptor\<close>.\<close>

definition get_sysfd :: "u32 \<Rightarrow> Process \<Rightarrow> 'x vfs_state \<Rightarrow> (addr \<times> FileDescriptor) option outcome option" where
  "get_sysfd fd p s =
     bind_run (Some (vfs_fdt_get_sysfd fd (pid_of p) (fdt s))) (\<lambda>r.
       case r of
         None \<Rightarrow> Some (Ret None)
       | Some a \<Rightarrow> (case fd_objs (fdt s) a of None \<Rightarrow> Some Panic | Some f \<Rightarrow> Some (Ret (Some (a, f)))))"

definition put_fd :: "addr \<Rightarrow> FileDescriptor \<Rightarrow> 'x vfs_state \<Rightarrow> 'x vfs_state" where
  "put_fd a f s = s\<lparr>fdt := (fdt s)\<lparr>fd_objs := (fd_objs (fdt s))(a \<mapsto> f)\<rparr>\<rparr>"

text \<open>\<open>sysfd->off += n\<close> after a transfer, on the descriptor as the driver left it.\<close>

definition advance_off :: "addr \<Rightarrow> int \<Rightarrow> 'x vfs_state \<Rightarrow> (int result \<times> 'x vfs_state) outcome option" where
  "advance_off a n s =
     with_ptr (fd_objs (fdt s) a) (\<lambda>f. Some (Ret (Inr n, put_fd a (f\<lparr>fd_off := to_off (fd_off f + n)\<rparr>) s)))"

definition vfs_read :: "'x fs_env \<Rightarrow> u32 \<Rightarrow> addr \<Rightarrow> size_t \<Rightarrow> Process \<Rightarrow> 'x vfs_state \<Rightarrow> (int result \<times> 'x vfs_state) outcome option" where
  "vfs_read E fd buf n p s =
     (if sint fd < 0 then Some (Ret (Inl EINVAL, s))
      else bind_run (get_sysfd fd p s) (\<lambda>r.
        case r of
          None \<Rightarrow> Some (Ret (Inl EBADF, s))
        | Some (a, f) \<Rightarrow>
            with_ptr (fd_vnode f) (\<lambda>vnode. with_vnode vnode s (\<lambda>v.
              if vn_mode v AND S_IFDIR \<noteq> 0 then Some (Ret (Inl EISDIR, s))
              else if fd_flags f AND O_RDONLY = 0 then Some (Ret (Inl EBADF, s))
              else if n = 0 then Some (Ret (Inr 0, s))
              else with_ptr (vn_ops v) (\<lambda>ops.
                bind_run (op_read (node_ops E ops) vnode buf n (fd_off f) s) (\<lambda>(rd, s1).
                  case rd of Inl e \<Rightarrow> Some (Ret (Inl e, s1)) | Inr k \<Rightarrow> advance_off a k s1))))))"

definition vfs_ioctl :: "'x fs_env \<Rightarrow> u32 \<Rightarrow> int \<Rightarrow> addr \<Rightarrow> Process \<Rightarrow> 'x vfs_state \<Rightarrow> (int result \<times> 'x vfs_state) outcome option" where
  "vfs_ioctl E fd req d p s =
     (if sint fd < 0 then Some (Ret (Inl EINVAL, s))
      else bind_run (get_sysfd fd p s) (\<lambda>r.
        case r of
          None \<Rightarrow> Some (Ret (Inl EBADF, s))
        | Some (a, f) \<Rightarrow>
            with_ptr (fd_vnode f) (\<lambda>vnode. with_vnode vnode s (\<lambda>v. with_ptr (vn_ops v) (\<lambda>ops.
              bind_run (op_ioctl (node_ops E ops) vnode req d s) (\<lambda>(r, s1). Some (Ret (Inr r, s1))))))))"

definition vfs_write :: "'x fs_env \<Rightarrow> u32 \<Rightarrow> addr \<Rightarrow> size_t \<Rightarrow> Process \<Rightarrow> 'x vfs_state \<Rightarrow> (int result \<times> 'x vfs_state) outcome option" where
  "vfs_write E fd buf n p s =
     (if sint fd < 0 then Some (Ret (Inl EINVAL, s))
      else bind_run (get_sysfd fd p s) (\<lambda>r.
        case r of
          None \<Rightarrow> Some (Ret (Inl EBADF, s))
        | Some (a, f) \<Rightarrow>
            with_ptr (fd_vnode f) (\<lambda>vnode. with_vnode vnode s (\<lambda>v.
              if vn_mode v AND S_IFDIR \<noteq> 0 then Some (Ret (Inl EISDIR, s))
              else if fd_flags f AND O_WRONLY = 0 then Some (Ret (Inl EBADF, s))
              else if fd_flags f AND O_APPEND \<noteq> 0 then Some Panic
              else if n = 0 then Some (Ret (Inr 0, s))
              else with_ptr (vn_ops v) (\<lambda>ops.
                bind_run (op_write (node_ops E ops) vnode buf n (fd_off f) s) (\<lambda>(wr, s1).
                  case wr of Inl e \<Rightarrow> Some (Ret (Inl e, s1)) | Inr k \<Rightarrow> advance_off a k s1))))))"

text \<open>The new offset of a seek from \<open>base\<close>, \<open>SEEK_CUR\<close> and \<open>SEEK_END\<close>.\<close>

definition seek_to :: "int \<Rightarrow> int \<Rightarrow> int result" where
  "seek_to base off =
     (let res = to_off (base + off) in
      if res < 0 then (if off < 0 then Inl EINVAL else Inl EOVERFLOW) else Inr res)"

definition vfs_lseek :: "u32 \<Rightarrow> int \<Rightarrow> int \<Rightarrow> Process \<Rightarrow> 'x vfs_state \<Rightarrow> (int result \<times> 'x vfs_state) outcome option" where
  "vfs_lseek fd off whence p s =
     (if sint fd < 0 then Some (Ret (Inl EINVAL, s))
      else bind_run (get_sysfd fd p s) (\<lambda>r.
        case r of
          None \<Rightarrow> Some (Ret (Inl EBADF, s))
        | Some (a, f) \<Rightarrow>
            bind_run
              (if whence = SEEK_SET then Some (Ret (if off < 0 then Inl EINVAL else Inr off))
               else if whence = SEEK_CUR then Some (Ret (seek_to (fd_off f) off))
               else if whence = SEEK_END then
                 with_ptr (fd_vnode f) (\<lambda>vnode. with_vnode vnode s (\<lambda>v. Some (Ret (seek_to (int (vn_size v)) off))))
               else Some (Ret (Inl EINVAL))) (\<lambda>r.
              case r of
                Inl e \<Rightarrow> Some (Ret (Inl e, s))
              | Inr res \<Rightarrow> Some (Ret (Inr res, put_fd a (f\<lparr>fd_off := res\<rparr>) s)))))"

definition vfs_close :: "'x fs_env \<Rightarrow> u32 \<Rightarrow> Process \<Rightarrow> 'x vfs_state \<Rightarrow> (unit result \<times> Process \<times> 'x vfs_state) outcome option" where
  "vfs_close E fd p s =
     (if sint fd < 0 then Some (Ret (Inl EINVAL, p, s))
      else bind_run (get_sysfd fd p s) (\<lambda>r.
        case r of
          None \<Rightarrow> Some (Ret (Inl ENOENT, p, s))
        | Some (a, f) \<Rightarrow>
            with_ptr (fd_vnode f) (\<lambda>vnode.
            bind_run (vnode_decrease_refcount E vnode s) (\<lambda>s1.
            bind_run (vfs_fdt_free_sysfd a (fdt s1)) (\<lambda>t.
              Some (Ret (Inr (), proc_free_fd (unat fd) p, s1\<lparr>fdt := t\<rparr>)))))))"

text \<open>The error is the positive number \<open>EBADF\<close> as a pointer.\<close>

definition vfs_mmap :: "'x fs_env \<Rightarrow> addr \<Rightarrow> size_t \<Rightarrow> int \<Rightarrow> int \<Rightarrow> u32 \<Rightarrow> int \<Rightarrow> Process \<Rightarrow> 'x vfs_state
    \<Rightarrow> (addr \<times> 'x vfs_state) outcome option" where
  "vfs_mmap E a len prot flags fd off p s =
     bind_run (get_sysfd fd p s) (\<lambda>r.
       case r of
         None \<Rightarrow> Some (Ret (errno_code EBADF, s))
       | Some (_, f) \<Rightarrow>
           with_ptr (fd_vnode f) (\<lambda>vnode. with_vnode vnode s (\<lambda>v. with_ptr (vn_ops v) (\<lambda>ops.
             with_ptr (op_mmap (node_ops E ops)) (\<lambda>mm. mm vnode a len prot flags off s)))))"

end
