(* ===== verification/VfsProps.thy ===== *)
theory VfsProps
  imports Vfs HashProps ProcProps
begin

text \<open>
  Properties of the virtual filesystem: which mount owns_path a path, opening, seeking and closing files, and what
  happens when a file is created or a filesystem's vnodes are released.
\<close>

section \<open>Walking the lists\<close>

lemma ll_entries_ok:
  assumes "ll_repr (nodes s, ll) xs" and "0 \<notin> set xs"
  shows "ll_entries ll s = Some (Ret xs)"
proof -
  have "filter (\<lambda>x. x \<noteq> 0) xs = xs" using assms(2) by (induction xs) auto
  then show ?thesis using assms(1) ll_walk_ok [of "nodes s" "root ll" _ xs "[]"]
    by (auto simp: ll_repr_def ll_at_def ll_entries_def)
qed

section \<open>The owner of a path\<close>

definition mnt_of :: "(addr \<rightharpoonup> FileSystem) \<Rightarrow> addr \<Rightarrow> string option" where
  "mnt_of fss a = map_option snd (Option.bind (fss a) mntpoint)"

definition topmost_step :: "(addr \<rightharpoonup> FileSystem) \<Rightarrow> string \<Rightarrow> (addr \<times> string) option \<Rightarrow> addr \<Rightarrow> (addr \<times> string) option" where
  "topmost_step fss path hit a =
     (let m = the (mnt_of fss a) in
      if is_prefix m path then
        (case hit of None \<Rightarrow> Some (a, m) | Some (h, cur) \<Rightarrow> if length m \<ge> length cur then Some (a, m) else Some (h, cur))
      else hit)"

lemma topmost_loop_foldl:
  "\<forall>a \<in> set as. mnt_of fss a \<noteq> None \<Longrightarrow>
   topmost_loop fss path hit as = Ret (map_option fst (foldl (topmost_step fss path) hit as))"
proof (induction as arbitrary: hit)
  case (Cons a as)
  obtain f c m where f: "fss a = Some f" "mntpoint f = Some (c, m)"
    using Cons.prems by (cases "fss a") (auto simp: mnt_of_def split: Option.bind_splits)
  then have "topmost_loop fss path hit (a # as) = topmost_loop fss path (topmost_step fss path hit a) as"
    by (simp add: topmost_step_def mnt_of_def)
  then show ?case using Cons by simp
qed simp

text \<open>\<open>owns_path fss path as i\<close>: the mount at position \<open>i\<close> has the longest mount point that is a prefix, the latest of them.\<close>

definition owns_path :: "(addr \<rightharpoonup> FileSystem) \<Rightarrow> string \<Rightarrow> addr list \<Rightarrow> nat \<Rightarrow> bool" where
  "owns_path fss path as i \<longleftrightarrow> i < length as \<and> is_prefix (the (mnt_of fss (as ! i))) path \<and>
     (\<forall>j < length as. is_prefix (the (mnt_of fss (as ! j))) path \<longrightarrow>
        length (the (mnt_of fss (as ! j))) < length (the (mnt_of fss (as ! i))) \<or>
        length (the (mnt_of fss (as ! j))) = length (the (mnt_of fss (as ! i))) \<and> j \<le> i)"

lemma owns_snoc:
  "owns_path fss path as i \<Longrightarrow>
   owns_path fss path (as @ [a]) (if is_prefix (the (mnt_of fss a)) path \<and> length (the (mnt_of fss a)) \<ge> length (the (mnt_of fss (as ! i)))
     then length as else i)"
  by (force simp: owns_path_def nth_append less_Suc_eq)

lemma foldl_topmost:
  "case foldl (topmost_step fss path) None as of
     None \<Rightarrow> \<forall>a \<in> set as. \<not> is_prefix (the (mnt_of fss a)) path
   | Some (h, m) \<Rightarrow> \<exists>i. owns_path fss path as i \<and> as ! i = h \<and> the (mnt_of fss h) = m"
proof (induction as rule: rev_induct)
  case (snoc a as)
  show ?case
  proof (cases "foldl (topmost_step fss path) None as")
    case None
    then have b: "\<forall>b \<in> set as. \<not> is_prefix (the (mnt_of fss b)) path" using snoc by simp
    then have "is_prefix (the (mnt_of fss a)) path \<Longrightarrow> owns_path fss path (as @ [a]) (length as)"
      by (auto simp: owns_path_def nth_append)
    moreover have "topmost_step fss path None a = (if is_prefix (the (mnt_of fss a)) path then Some (a, the (mnt_of fss a)) else None)"
      by (simp add: topmost_step_def Let_def)
    ultimately show ?thesis using None b by (auto intro!: exI [of _ "length as"])
  next
    case (Some hm)
    obtain h m where hm: "hm = (h, m)" by (cases hm)
    then obtain i where i: "owns_path fss path as i" "as ! i = h" "the (mnt_of fss h) = m" using snoc Some by auto
    then have il: "i < length as" by (simp add: owns_path_def)
    have "topmost_step fss path (Some (h, m)) a = (if is_prefix (the (mnt_of fss a)) path \<and> length m \<le> length (the (mnt_of fss a))
        then Some (a, the (mnt_of fss a)) else Some (h, m))"
      by (simp add: topmost_step_def Let_def)
    then show ?thesis using owns_snoc [OF i(1), of a] i il Some hm by (force simp: nth_append split: if_splits)
  qed
qed simp

lemma topmost_ok:
  assumes "ll_repr (nodes s, g_filesystems_ll s) ms" and "0 \<notin> set ms"
    and "\<forall>a \<in> set ms. mnt_of (fs_objs s) a \<noteq> None"
  shows "if \<exists>a \<in> set ms. is_prefix (the (mnt_of (fs_objs s) a)) path
    then \<exists>i. owns_path (fs_objs s) path ms i \<and> vfs_topmost_fs_for_path path s = Some (Ret (ms ! i))
    else vfs_topmost_fs_for_path path s = Some Panic"
proof -
  have "vfs_topmost_fs_for_path path s =
      (case foldl (topmost_step (fs_objs s) path) None ms of None \<Rightarrow> Some Panic | Some hm \<Rightarrow> Some (Ret (fst hm)))"
    by (simp add: vfs_topmost_fs_for_path_def ll_entries_ok [OF assms(1,2)] topmost_loop_foldl [OF assms(3)] split: option.split)
  then show ?thesis using foldl_topmost [where fss = "fs_objs s" and path = path and as = ms]
    by (fastforce simp: owns_path_def split: option.splits)
qed

section \<open>The open-file table\<close>

lemma fdt_inv_frame:
  assumes inv: "fdt_inv ma heap t live" and km: "km_heap ma km heap live'"
    and same: "\<forall>b. b \<in> ht_owns (fdt_ht t) \<or> fd_objs t b \<noteq> None \<longrightarrow> live' b = live b"
  shows "fdt_inv ma heap (set_km km t) live'" and "fdt_lookup (set_km km t) = fdt_lookup t"
    and "fd_objs (set_km km t) = fd_objs t"
proof -
  obtain ht s where hs: "fdt_ht t = (ht, s)" by (cases "fdt_ht t")
  have hinv: "ht_inv ma heap (ht, s) live" using inv hs by (simp add: fdt_inv_def)
  have "\<forall>b \<in> ht_owns (ht, s). live' b = live b" using same hs by simp
  note f = ht_inv_frame [OF hinv km this]
  show "fdt_inv ma heap (set_km km t) live'"
    using inv f hs same unfolding fdt_inv_def set_km_def by (auto simp: hs)
  show "fdt_lookup (set_km km t) = fdt_lookup t" using f(2) hs by (simp add: fdt_lookup_def set_km_def fun_eq_iff)
  show "fd_objs (set_km km t) = fd_objs t" by (simp add: set_km_def)
qed

lemma lookup_object:
  assumes "fdt_inv ma heap t live" and "fdt_lookup t fd pid = Some a"
  shows "\<exists>f. fd_objs t a = Some f \<and> fd_num f = fd \<and> fd_pid f = pid"
proof -
  obtain v where v: "ht_lookup (fdt_ht t) (vfs_fdt_combo_to_hashkey fd pid) = Some v" "val_to_ptr v = Some a"
    using assms(2) by (auto simp: fdt_lookup_def bind_eq_Some_conv)
  then show ?thesis using assms(1) unfolding fdt_inv_def by (metis hashkey_inj option.inject)
qed

lemma get_sysfd_ok:
  assumes "fdt_inv ma heap (fdt s) live"
  shows "get_sysfd fd p s = Some (Ret (map_option (\<lambda>a. (a, the (fd_objs (fdt s) a))) (fdt_lookup (fdt s) fd (pid_of p))))"
proof (cases "fdt_lookup (fdt s) fd (pid_of p)")
  case None
  then show ?thesis using get_sysfd_eq [OF assms] by (simp add: get_sysfd_def)
next
  case (Some a)
  then show ?thesis using get_sysfd_eq [OF assms] lookup_object [OF assms Some] by (auto simp: get_sysfd_def)
qed

text \<open>Changing flags, offset or vnode of an open file keeps the table.\<close>

lemma put_fd_inv:
  assumes inv: "fdt_inv ma heap t live" and a: "fd_objs t a = Some f" and f: "fd_num g = fd_num f" "fd_pid g = fd_pid f"
  shows "fdt_inv ma heap (t\<lparr>fd_objs := (fd_objs t)(a \<mapsto> g)\<rparr>) live" and
    "fdt_lookup (t\<lparr>fd_objs := (fd_objs t)(a \<mapsto> g)\<rparr>) = fdt_lookup t"
proof -
  let ?t = "t\<lparr>fd_objs := (fd_objs t)(a \<mapsto> g)\<rparr>"
  show "fdt_inv ma heap ?t live" unfolding fdt_inv_def
  proof (intro conjI allI impI)
    show "ht_inv ma heap (fdt_ht ?t) live" using inv by (simp add: fdt_inv_def)
  next
    fix k v assume "ht_lookup (fdt_ht ?t) k = Some v"
    then have "ht_lookup (fdt_ht t) k = Some v" by simp
    then obtain b h where "val_to_ptr v = Some b" "fd_objs t b = Some h" "vfs_fdt_combo_to_hashkey (fd_num h) (fd_pid h) = k"
      using inv unfolding fdt_inv_def by blast
    then show "\<exists>b h. val_to_ptr v = Some b \<and> fd_objs ?t b = Some h \<and> vfs_fdt_combo_to_hashkey (fd_num h) (fd_pid h) = k"
      using a f by (cases "b = a") auto
  next
    fix b h assume "fd_objs ?t b = Some h"
    then have "\<exists>h. fd_objs t b = Some h" using a by (auto split: if_splits)
    then show "live b = Some (filedescriptor_size, ma)" "b \<notin> ht_owns (fdt_ht ?t)"
      using inv unfolding fdt_inv_def by auto
  qed
  show "fdt_lookup ?t = fdt_lookup t" by (simp add: fdt_lookup_def fun_eq_iff)
qed

section \<open>Offsets\<close>

lemma to_off_eq: "to_off x = (x + 2147483648) mod 4294967296 - 2147483648"
  by (simp add: to_off_def signed_of_int signed_take_bit_eq_take_bit_shift take_bit_eq_mod)

lemma to_off_self: "-2147483648 \<le> x \<Longrightarrow> x < 2147483648 \<Longrightarrow> to_off x = x"
  by (simp add: to_off_eq)

lemma seek_to_ok:
  assumes "0 \<le> base" "base < 2147483648" "-2147483648 \<le> off" "off < 2147483648"
  shows "seek_to base off =
    (if base + off < 0 then Inl EINVAL else if base + off \<ge> 2147483648 then Inl EOVERFLOW else Inr (base + off))"
proof (cases "base + off < 2147483648")
  case True
  then show ?thesis using assms to_off_self [of "base + off"] by (simp add: seek_to_def Let_def)
next
  case False
  have "to_off (base + off) = base + off - 4294967296"
    using False assms mod_pos_pos_trivial [of "base + off - 2147483648" 4294967296]
      mod_add_self2 [of "base + off - 2147483648" 4294967296] by (simp add: to_off_eq ac_simps)
  then show ?thesis using False assms by (simp add: seek_to_def Let_def)
qed

section \<open>Opening and closing\<close>

text \<open>
  The process owns its array of descriptors, which neither the hash table nor an open file overlaps.
\<close>

definition vfs_proc_inv :: "nat \<Rightarrow> Heap \<Rightarrow> Process \<Rightarrow> 'x vfs_state \<Rightarrow> live_map \<Rightarrow> bool" where
  "vfs_proc_inv ma heap p s live \<longleftrightarrow> fdt_inv ma heap (fdt s) live \<and> fds_ok ma p live \<and>
     (\<forall>q. fds_ptr p = Some q \<longrightarrow> q \<notin> ht_owns (fdt_ht (fdt s)) \<and> fd_objs (fdt s) q = None)"

lemma fdt_inv_km: "fdt_inv ma heap t live \<Longrightarrow> km_heap ma (fdt_km t) heap live \<and> small_heap ma heap"
  by (cases "fdt_ht t") (simp add: fdt_inv_def ht_inv_def)

lemma proc_new_fd_vfs:
  assumes inv: "vfs_proc_inv ma heap p s live"
  shows "\<exists>r p1 km live1. proc_new_fd p (vkm s) = Some (Ret (r, p1, km)) \<and> fdt_inv ma heap (fdt (set_vkm km s)) live1 \<and>
    fdt_lookup (fdt (set_vkm km s)) = fdt_lookup (fdt s) \<and> fd_objs (fdt (set_vkm km s)) = fd_objs (fdt s) \<and>
    proc_pid p1 = proc_pid p \<and>
    (case r of Inl e \<Rightarrow> e = ENOMEM \<and> fds p1 = fds p
     | Inr fd \<Rightarrow> fd < length (fds p1) \<and> fds p1 ! fd \<and> (fd < length (fds p) \<longrightarrow> \<not> fds p ! fd) \<and> fd < 2147483648)"
proof -
  have f: "fdt_inv ma heap (fdt s) live" and p: "fds_ok ma p live" using inv by (simp_all add: vfs_proc_inv_def)
  have km: "km_heap ma (vkm s) heap live" and small: "small_heap ma heap" using fdt_inv_km [OF f] by simp_all
  obtain r p1 km1 live1 where n: "proc_new_fd p (vkm s) = Some (Ret (r, p1, km1))" "km_heap ma km1 heap live1"
      "fds_ok ma p1 live1"
    and c: "case r of Inl e \<Rightarrow> e = ENOMEM \<and> fds p1 = fds p
     | Inr fd \<Rightarrow> fd_last_free_idx p \<le> fd \<and> fd_last_free_idx p1 = fd + 1 \<and> fd < length (fds p1) \<and> fds p1 ! fd \<and>
         (fd < length (fds p) \<longrightarrow> \<not> fds p ! fd) \<and> length (fds p) \<le> length (fds p1) \<and>
         (\<forall>i < length (fds p). i \<noteq> fd \<longrightarrow> fds p1 ! i = fds p ! i)"
    and o: "proc_pid p1 = proc_pid p" "keeps_others (fds_ptr p) live live1"
    using new_fd_ok [OF km small p] by blast
  have "\<forall>b. b \<in> ht_owns (fdt_ht (fdt s)) \<or> fd_objs (fdt s) b \<noteq> None \<longrightarrow> live1 b = live b"
  proof (intro allI impI)
    fix b assume b: "b \<in> ht_owns (fdt_ht (fdt s)) \<or> fd_objs (fdt s) b \<noteq> None"
    then have "live b \<noteq> None" using f owned_live [of ma heap "fdt_ht (fdt s)" live b] by (auto simp: fdt_inv_def)
    moreover have "fds_ptr p \<noteq> Some b" using b inv by (auto simp: vfs_proc_inv_def)
    ultimately show "live1 b = live b" using o(2) by (simp add: keeps_others_def)
  qed
  note fr = fdt_inv_frame [OF f n(2) this]
  have "length (fds p1) < 2147483648"
    using n(3) live_small [OF n(2) small] by (cases "fds_ptr p1") (fastforce simp: fds_ok_def)+
  then show ?thesis using n(1) c o(1) fr
    by (intro exI [of _ r] exI [of _ p1] exI [of _ km1] exI [of _ live1]) (auto simp: set_vkm_def split: sum.splits)
qed

text \<open>A driver whose \<open>open\<close> succeeds and changes nothing but the driver's own data.\<close>

definition plain_open :: "'x fs_env \<Rightarrow> addr \<Rightarrow> addr \<Rightarrow> u32 \<Rightarrow> bool" where
  "plain_open E ops vnode flags \<longleftrightarrow>
     (\<forall>s. \<exists>x. op_open (node_ops E ops) vnode flags s = Some (Ret (Inr (), s\<lparr>priv := x\<rparr>)))"

lemma sint_proc_fd: "i < 2147483648 \<Longrightarrow> \<not> sint (proc_fd i) < 0"
  by (simp add: proc_fd_def signed_of_nat signed_take_bit_eq_if_positive bit_iff_odd)

text \<open>What a successful open leaves: \<open>fd\<close> names a new open file at offset 0 on \<open>vnode\<close>, which has one more reference.\<close>

definition opened :: "u32 \<Rightarrow> u32 \<Rightarrow> addr \<Rightarrow> Process \<Rightarrow> 'x vfs_state \<Rightarrow> Process \<Rightarrow> 'x vfs_state \<Rightarrow> bool" where
  "opened fd flags vnode p s p1 s1 \<longleftrightarrow>
     (\<exists>i a v. fd = proc_fd i \<and> i < 2147483648 \<and> i < length (fds p1) \<and> fds p1 ! i \<and> (i < length (fds p) \<longrightarrow> \<not> fds p ! i) \<and>
        proc_pid p1 = proc_pid p \<and> fd_objs (fdt s) a = None \<and>
        fd_objs (fdt s1) = (fd_objs (fdt s))(a \<mapsto>
          \<lparr>fd_num = fd, fd_pid = pid_of p, fd_flags = flags, fd_off = 0, fd_vnode = Some vnode\<rparr>) \<and>
        (\<forall>fd' pid'. fdt_lookup (fdt s1) fd' pid' =
           (if fd' = fd \<and> pid' = pid_of p then Some a else fdt_lookup (fdt s) fd' pid')) \<and>
        vnodes s vnode = Some v \<and>
        vnodes s1 = (vnodes s)(vnode \<mapsto> v\<lparr>vn_ref_count := add32 (vn_ref_count v) 1\<rparr>))"

lemma open_vnode_ok:
  assumes inv: "vfs_proc_inv ma heap p s live" and v: "vnodes s vnode = Some v" "vn_ops v = Some ops"
    and po: "plain_open E ops vnode flags"
  shows "\<exists>r p1 s1 live1. open_vnode E vnode flags p s = Some (Ret (r, p1, s1)) \<and> fdt_inv ma heap (fdt s1) live1 \<and>
    (case r of Inl e \<Rightarrow> e = ENOMEM \<and> vnodes s1 = vnodes s \<and> fdt_lookup (fdt s1) = fdt_lookup (fdt s) \<and> fd_objs (fdt s1) = fd_objs (fdt s)
     | Inr fd \<Rightarrow> opened fd flags vnode p s p1 s1)"
proof -
  obtain r p1 km live1 where n: "proc_new_fd p (vkm s) = Some (Ret (r, p1, km))" "fdt_inv ma heap (fdt (set_vkm km s)) live1"
      "fdt_lookup (fdt (set_vkm km s)) = fdt_lookup (fdt s)" "fd_objs (fdt (set_vkm km s)) = fd_objs (fdt s)" "proc_pid p1 = proc_pid p"
    and c: "case r of Inl e \<Rightarrow> e = ENOMEM \<and> fds p1 = fds p
     | Inr fd \<Rightarrow> fd < length (fds p1) \<and> fds p1 ! fd \<and> (fd < length (fds p) \<longrightarrow> \<not> fds p ! fd) \<and> fd < 2147483648"
    using proc_new_fd_vfs [OF inv] by blast
  let ?s1 = "set_vkm km s"
  have vn: "vnodes ?s1 = vnodes s" by (simp add: set_vkm_def)
  show ?thesis
  proof (cases r)
    case (Inl e)
    then show ?thesis using n c vn
      by (intro exI [of _ "Inl e"] exI [of _ p1] exI [of _ ?s1] exI [of _ live1]) (simp add: open_vnode_def)
  next
    case (Inr i)
    let ?fd = "proc_fd i"
    have ns: "\<not> sint ?fd < 0" using c Inr by (intro sint_proc_fd) simp
    obtain q t live2 where q: "vfs_fdt_new_sysfd ?fd (pid_of p) (fdt ?s1) = Some (Ret (q, t))" "fdt_inv ma heap t live2"
      and d: "case q of None \<Rightarrow> fd_objs t = fd_objs (fdt ?s1) \<and> fdt_lookup t = fdt_lookup (fdt ?s1)
       | Some a \<Rightarrow> fd_objs (fdt ?s1) a = None \<and> fd_objs t = (fd_objs (fdt ?s1))(a \<mapsto> zero_fd\<lparr>fd_pid := pid_of p, fd_num := ?fd\<rparr>) \<and>
         (\<forall>fd' pid'. fdt_lookup t fd' pid' = (if fd' = ?fd \<and> pid' = pid_of p then Some a else fdt_lookup (fdt ?s1) fd' pid'))"
      using new_sysfd_ok [OF n(2), of ?fd "pid_of p"] by blast
    let ?s2 = "?s1\<lparr>fdt := t\<rparr>"
    show ?thesis
    proof (cases q)
      case None
      then have "open_vnode E vnode flags p s = Some (Ret (Inl ENOMEM, proc_free_fd i p1, ?s2))"
        using n(1,5) Inr ns q(1) by (simp add: open_vnode_def Let_def)
      then show ?thesis using q(2) d None n(3,4) vn by (auto simp: fun_eq_iff)
    next
      case (Some a)
      obtain x where x: "op_open (node_ops E ops) vnode flags ?s2 = Some (Ret (Inr (), ?s2\<lparr>priv := x\<rparr>))"
        using po by (auto simp: plain_open_def)
      let ?f = "\<lparr>fd_num = ?fd, fd_pid = pid_of p, fd_flags = flags, fd_off = 0, fd_vnode = Some vnode\<rparr>"
      let ?t = "t\<lparr>fd_objs := (fd_objs t)(a \<mapsto> ?f)\<rparr>"
      let ?s5 = "?s2\<lparr>priv := x, fdt := ?t, vnodes := (vnodes s)(vnode \<mapsto> v\<lparr>vn_ref_count := add32 (vn_ref_count v) 1\<rparr>)\<rparr>"
      have ta: "fd_objs t a = Some (zero_fd\<lparr>fd_pid := pid_of p, fd_num := ?fd\<rparr>)" using d Some by simp
      have "open_vnode E vnode flags p s = Some (Ret (Inr ?fd, p1, ?s5))"
        using n(1,5) Inr ns q(1) Some x v vn ta
        by (simp add: open_vnode_def Let_def with_vnode_def with_ptr_def vnode_increase_refcount_def zero_fd_def)
      moreover have "fdt_inv ma heap ?t live2" and lk: "fdt_lookup ?t = fdt_lookup t"
        using put_fd_inv [OF q(2) ta, of ?f] by simp_all
      moreover have "opened ?fd flags vnode p s p1 ?s5"
        unfolding opened_def using c Inr n(3,4,5) d Some lk v(1)
        by (intro exI [of _ i] exI [of _ a] exI [of _ v]) simp
      ultimately show ?thesis by (intro exI [of _ "Inr ?fd"] exI [of _ p1] exI [of _ ?s5] exI [of _ live2]) simp
    qed
  qed
qed

lemma close_ok:
  assumes inv: "fdt_inv ma heap (fdt s) live" and fd: "\<not> sint fd < 0" "fdt_lookup (fdt s) fd (pid_of p) = Some a"
    and f: "fd_objs (fdt s) a = Some f" "fd_vnode f = Some vnode" and v: "vnodes s vnode = Some v" "0 < vn_ref_count v"
    and last: "vn_ref_count v = 1 \<longrightarrow> vn_flags v AND VNODE_PENDING_RM = 0"
  shows "vfs_close E fd p s = Some Panic \<or>
    (\<exists>s1 live1. vfs_close E fd p s = Some (Ret (Inr (), proc_free_fd (unat fd) p, s1)) \<and> fdt_inv ma heap (fdt s1) live1 \<and>
       fd_objs (fdt s1) = (fd_objs (fdt s))(a := None) \<and>
       (\<forall>fd' pid'. fdt_lookup (fdt s1) fd' pid' = (if fd' = fd \<and> pid' = pid_of p then None else fdt_lookup (fdt s) fd' pid')) \<and>
       vnodes s1 = (vnodes s)(vnode \<mapsto> v\<lparr>vn_ref_count := vn_ref_count v - 1\<rparr>))"
proof -
  let ?s1 = "s\<lparr>vnodes := (vnodes s)(vnode \<mapsto> v\<lparr>vn_ref_count := vn_ref_count v - 1\<rparr>)\<rparr>"
  have num: "fd_num f = fd" "fd_pid f = pid_of p" using lookup_object [OF inv fd(2)] f(1) by auto
  have "vnode_decrease_refcount E vnode s = Some (Ret ?s1)"
    using v last by (auto simp: vnode_decrease_refcount_def with_vnode_def Let_def)
  then have c: "vfs_close E fd p s = bind_run (vfs_fdt_free_sysfd a (fdt s)) (\<lambda>t.
      Some (Ret (Inr (), proc_free_fd (unat fd) p, ?s1\<lparr>fdt := t\<rparr>)))"
    using fd f by (simp add: vfs_close_def get_sysfd_ok [OF inv] with_ptr_def)
  from free_sysfd_ok [OF inv f(1)] show ?thesis
  proof (elim disjE exE conjE)
    fix t live1 assume t: "vfs_fdt_free_sysfd a (fdt s) = Some (Ret t)" "fdt_inv ma heap t live1"
      "fd_objs t = (fd_objs (fdt s))(a := None)"
      "\<forall>fd pid. fdt_lookup t fd pid = (if fd = fd_num f \<and> pid = fd_pid f then None else fdt_lookup (fdt s) fd pid)"
    then show ?thesis using c num by (intro disjI2 exI [of _ "?s1\<lparr>fdt := t\<rparr>"] exI [of _ live1]) simp
  qed (simp add: c)
qed

section \<open>Releasing the vnodes\<close>

lemma vkfree_frame: "vkfree a s = Some (Ret s1) \<Longrightarrow> \<exists>km. s1 = set_vkm km s"
  by (auto simp: vkfree_def bind_run_def split: Option.bind_splits outcome.splits)

lemma ll_remove_first_ok:
  assumes "ll_at (nodes s, ll) (a # as) (x # xs)" and "ll_remove_first ll s = Some (Ret (r, ll1, s1))"
  shows "r = Inr () \<and> ll_at (nodes s1, ll1) as xs \<and> fs_objs s1 = fs_objs s"
proof -
  obtain km h where "kl_remove_first ll (vkm s, nodes s) = Some (Ret (r, ll1, km, h))" "s1 = (set_vkm km s)\<lparr>nodes := h\<rparr>"
    using assms(2) by (auto simp: ll_remove_first_def on_lists_def bind_run_def split: Option.bind_splits outcome.splits)
  then show ?thesis using kl_remove_first_ok [of "(vkm s, nodes s)"] assms(1) by (auto simp: set_vkm_def)
qed

lemma free_vnodes_loop_faults:
  "ll_at (nodes s, vnode_ll f) as xs \<Longrightarrow> fs_objs s fs = Some f \<Longrightarrow> free_vnodes_loop fs s \<noteq> Some (Ret s')"
proof (induction xs arbitrary: s f as)
  case Nil
  then have "root (vnode_ll f) = None" using ll_at_end(2) by fastforce
  then show ?case using Nil.prems(2) by (subst free_vnodes_loop.simps) simp
next
  case (Cons x xs)
  then obtain a bs where as: "as = a # bs" by (cases as) (auto simp: ll_at_def)
  obtain n where n: "root (vnode_ll f) = Some a" "nodes s a = Some n" "data n = x" using Cons.prems(1) as by (auto simp: ll_at_def)
  have first: "r = Inr () \<and> ll_at (nodes s3, ll) bs xs \<and> fs_objs s3 = fs_objs s2"
    if "vkfree b s = Some (Ret s1)" "vkfree c s1 = Some (Ret s2)"
      "ll_remove_first (vnode_ll f) (s2\<lparr>vnodes := vs\<rparr>) = Some (Ret (r, ll, s3))" for b c s1 s2 vs r ll s3
  proof -
    have "nodes s2 = nodes s" using that(1,2) by (auto simp: set_vkm_def dest!: vkfree_frame)
    then have "ll_at (nodes (s2\<lparr>vnodes := vs\<rparr>), vnode_ll f) (a # bs) (x # xs)" using Cons.prems(1) as by simp
    from ll_remove_first_ok [OF this that(3)] show ?thesis by simp
  qed
  have step: "free_vnodes_loop fs (s3\<lparr>fs_objs := (fs_objs s3)(fs \<mapsto> f\<lparr>vnode_ll := ll\<rparr>)\<rparr>) \<noteq> Some (Ret s')"
    if "vkfree b s = Some (Ret s1)" "vkfree c s1 = Some (Ret s2)"
      "ll_remove_first (vnode_ll f) (s2\<lparr>vnodes := vs\<rparr>) = Some (Ret (r, ll, s3))" for b c s1 s2 vs r ll s3
    using first [OF that] by (intro Cons.IH [of _ "f\<lparr>vnode_ll := ll\<rparr>" bs]) simp_all
  show ?case using n Cons.prems(2)
    by (subst free_vnodes_loop.simps)
      (auto simp: Let_def bind_run_def step split: option.splits outcome.splits sum.splits Option.bind_splits dest: first)
qed

section \<open>Properties\<close>

text \<open>
  C15: the filesystem that owns a path is the one with the longest mount point that is a prefix of the path, and
  of several mounts on the same point the latest. When no mount point is a prefix (nothing on the root) the
  kernel panics.
\<close>
theorem vfs_topmost_owner:
  assumes "ll_repr (nodes s, g_filesystems_ll s) ms" and "0 \<notin> set ms"
    and "\<forall>a \<in> set ms. mnt_of (fs_objs s) a \<noteq> None"
  shows "if \<exists>a \<in> set ms. is_prefix (the (mnt_of (fs_objs s) a)) path
    then \<exists>i. owns_path (fs_objs s) path ms i \<and> vfs_topmost_fs_for_path path s = Some (Ret (ms ! i))
    else vfs_topmost_fs_for_path path s = Some Panic"
  by (rule topmost_ok [OF assms])

definition demo_vnode :: "addr \<Rightarrow> string \<Rightarrow> addr option \<Rightarrow> VirtualNode" where
  "demo_vnode a name par = \<lparr>vn_name = Some (a, name), vn_n = 1, vn_size = 10, vn_mode = 0, vn_uid = 0, vn_gid = 0,
     vn_ref_count = 0, vn_flags = 0, vn_parent = par, vn_owner = Some 40, vn_ops = Some 5\<rparr>"

definition demo_fs :: "string \<Rightarrow> LinkedList \<Rightarrow> FileSystem" where
  "demo_fs m ll = \<lparr>mntsrc = None, mntpoint = Some (48, m), fs_args = None, fs_flags = 0, fs_driver = Some 4, vnode_ll = ll\<rparr>"

text \<open>Two mounts, on \<^verbatim>\<open>/\<close> and on \<^verbatim>\<open>/dev\<close>; the first one caches its root and the file \<^verbatim>\<open>/x\<close>.\<close>

definition demo_vfs :: "fdt_state \<Rightarrow> unit vfs_state" where
  "demo_vfs t = \<lparr>fdt = t,
     nodes = [8 \<mapsto> \<lparr>data = 40, lnext = Some 16\<rparr>, 16 \<mapsto> \<lparr>data = 44, lnext = None\<rparr>,
              24 \<mapsto> \<lparr>data = 60, lnext = Some 32\<rparr>, 32 \<mapsto> \<lparr>data = 70, lnext = None\<rparr>],
     fs_objs = [40 \<mapsto> demo_fs ''/'' \<lparr>root = Some 24, lend = Some 32\<rparr>, 44 \<mapsto> demo_fs ''/dev'' linkedlist_init],
     vnodes = [60 \<mapsto> demo_vnode 64 ''/'' None, 70 \<mapsto> demo_vnode 74 ''x'' (Some 60)],
     g_filesystems_ll = \<lparr>root = Some 8, lend = Some 16\<rparr>, g_fs_drivers_ptr = None, g_fs_drivers = [], priv = ()\<rparr>"

lemma demo_mounts: "ll_repr (nodes (demo_vfs t), g_filesystems_ll (demo_vfs t)) [40, 44]"
  unfolding ll_repr_def by (rule exI [of _ "[8, 16]"]) (simp add: ll_at_def demo_vfs_def)

lemma demo_cache: "ll_repr (nodes (demo_vfs t), \<lparr>root = Some 24, lend = Some 32\<rparr>) [60, 70]"
  unfolding ll_repr_def by (rule exI [of _ "[24, 32]"]) (simp add: ll_at_def demo_vfs_def)

lemma demo_mnt: "mnt_of (fs_objs (demo_vfs t)) 40 = Some ''/''" "mnt_of (fs_objs (demo_vfs t)) 44 = Some ''/dev''"
  by (simp_all add: mnt_of_def demo_vfs_def demo_fs_def)

theorem vfs_topmost_owner_witness:
  "\<forall>t. vfs_topmost_fs_for_path ''/dev/tty'' (demo_vfs t) = Some (Ret 44)"
proof
  fix t
  have "if \<exists>a \<in> set [40, 44]. is_prefix (the (mnt_of (fs_objs (demo_vfs t)) a)) ''/dev/tty''
    then \<exists>i. owns_path (fs_objs (demo_vfs t)) ''/dev/tty'' [40, 44] i \<and>
      vfs_topmost_fs_for_path ''/dev/tty'' (demo_vfs t) = Some (Ret ([40, 44] ! i))
    else vfs_topmost_fs_for_path ''/dev/tty'' (demo_vfs t) = Some Panic"
    by (rule vfs_topmost_owner [OF demo_mounts]) (simp_all add: demo_mnt)
  then obtain i where i: "owns_path (fs_objs (demo_vfs t)) ''/dev/tty'' [40, 44] i"
    "vfs_topmost_fs_for_path ''/dev/tty'' (demo_vfs t) = Some (Ret ([40, 44] ! i))"
    by (auto simp: demo_mnt is_prefix_def)
  have "i = 1" using i(1) by (auto simp: owns_path_def less_Suc_eq demo_mnt is_prefix_def)
  then show "vfs_topmost_fs_for_path ''/dev/tty'' (demo_vfs t) = Some (Ret 44)" using i(2) by simp
qed

text \<open>
  C27: \<open>vfs_lseek\<close> moves the offset of an open file to the position asked for, relative to the start, the current
  offset or the end of the file, and returns it; a negative position is -EINVAL and one that does not fit
  \<open>off_t\<close> is -EOVERFLOW, both without a change.
\<close>
theorem vfs_lseek_ok:
  assumes "\<not> sint fd < 0" and "vfs_fdt_get_sysfd fd (pid_of p) (fdt s) = Ret (Some a)" and "fd_objs (fdt s) a = Some f"
    and "fd_vnode f = Some vnode" and "vnodes s vnode = Some v"
    and "0 \<le> fd_off f" "fd_off f < 2147483648" "vn_size v < 2147483648" "-2147483648 \<le> off" "off < 2147483648"
    and "whence = SEEK_SET \<and> base = 0 \<or> whence = SEEK_CUR \<and> base = fd_off f \<or> whence = SEEK_END \<and> base = int (vn_size v)"
  shows "vfs_lseek fd off whence p s = Some (Ret
    (if base + off < 0 then (Inl EINVAL, s)
     else if base + off \<ge> 2147483648 then (Inl EOVERFLOW, s)
     else (Inr (base + off), put_fd a (f\<lparr>fd_off := base + off\<rparr>) s)))"
proof -
  have "get_sysfd fd p s = Some (Ret (Some (a, f)))" using assms(2,3) by (simp add: get_sysfd_def)
  then show ?thesis using assms seek_to_ok [of base off]
    by (elim disjE) (auto simp: vfs_lseek_def SEEK_SET_def SEEK_CUR_def SEEK_END_def with_ptr_def with_vnode_def)
qed

definition demo_hash :: HashingFunction where
  "demo_hash = \<lparr>hname = ''zero'', digest_size = 4, chew = (\<lambda>_ _. Ret (Inr (), [0, 0, 0, 0])), security_priority = 0,
     speed_priority = 0, refcount = 1\<rparr>"

text \<open>A table of open files in which descriptor 3 of process 1 is the file \<^verbatim>\<open>/x\<close> at offset 4.\<close>

definition demo_open :: "kmstate \<Rightarrow> fdt_state" where
  "demo_open km = \<lparr>fdt_ht = (\<lparr>slots_ptr = Some 200, slots = [\<lparr>entries_ptr = Some 300,
       entries = [\<lparr>ekey = vfs_fdt_combo_to_hashkey 3 1, evalue = 400\<rparr>]\<rparr>], slot_capacity = 1, biggest_slot_entry_count = 0,
       slot_entry_count_threshold = 4, hashfunc = Some (64, 0)\<rparr>, \<lparr>hkm = km, g_hash_funcs = Some 64, hash_funcs = [demo_hash]\<rparr>),
     fd_objs = [400 \<mapsto> \<lparr>fd_num = 3, fd_pid = 1, fd_flags = 1, fd_off = 4, fd_vnode = Some 70\<rparr>]\<rparr>"

lemma demo_open_get: "vfs_fdt_get_sysfd 3 1 (demo_open km) = Ret (Some 400)"
  by (simp add: vfs_fdt_get_sysfd_def demo_open_def hashtable_find_def hashtable_key_to_slot_idx_def hf_deref_def
      demo_hash_def val_to_ptr_def)

theorem vfs_lseek_ok_witness:
  "\<forall>km. vfs_lseek 3 (-6) SEEK_END (zero_process\<lparr>proc_pid := 1\<rparr>) (demo_vfs (demo_open km)) = Some (Ret (Inr 4,
     put_fd 400 \<lparr>fd_num = 3, fd_pid = 1, fd_flags = 1, fd_off = 4, fd_vnode = Some 70\<rparr> (demo_vfs (demo_open km)))) \<and>
   vfs_lseek 3 (-6) SEEK_CUR (zero_process\<lparr>proc_pid := 1\<rparr>) (demo_vfs (demo_open km)) =
     Some (Ret (Inl EINVAL, demo_vfs (demo_open km)))"
proof
  fix km
  let ?s = "demo_vfs (demo_open km)" and ?p = "zero_process\<lparr>proc_pid := 1\<rparr>"
  let ?f = "\<lparr>fd_num = 3, fd_pid = 1, fd_flags = 1, fd_off = 4, fd_vnode = Some 70\<rparr>"
  have h: "\<not> sint (3 :: u32) < 0" "vfs_fdt_get_sysfd 3 (pid_of ?p) (fdt ?s) = Ret (Some 400)" "fd_objs (fdt ?s) 400 = Some ?f"
    "fd_vnode ?f = Some 70" "vnodes ?s 70 = Some (demo_vnode 74 ''x'' (Some 60))"
    using demo_open_get [of km] by (simp_all add: demo_vfs_def, simp_all add: demo_open_def)
  have "vfs_lseek 3 (-6) SEEK_END ?p ?s = Some (Ret (Inr 4, put_fd 400 ?f ?s))"
    using vfs_lseek_ok [OF h, of "-6" SEEK_END 10] by (simp add: demo_vnode_def)
  moreover have "vfs_lseek 3 (-6) SEEK_CUR ?p ?s = Some (Ret (Inl EINVAL, ?s))"
    using vfs_lseek_ok [OF h, of "-6" SEEK_CUR 4] by (simp add: demo_vnode_def)
  ultimately show "vfs_lseek 3 (-6) SEEK_END ?p ?s = Some (Ret (Inr 4, put_fd 400 ?f ?s)) \<and>
    vfs_lseek 3 (-6) SEEK_CUR ?p ?s = Some (Ret (Inl EINVAL, ?s))" by blast
qed


text \<open>User memory that holds \<^verbatim>\<open>/x\<close> at 100 and \<^verbatim>\<open>/devx\<close> at 200, and a driver whose \<open>open\<close> does nothing.\<close>

definition demo_env :: "unit fs_env" where
  "demo_env = \<lparr>
     drivers = (\<lambda>_. \<lparr>drv_name = ''demo'', generic_probe = False, drv_init = (\<lambda>_ s. Some (Ret (Inr (), s))),
       drv_destroy = (\<lambda>_ s. Some (Ret s)), drv_mkfile = (\<lambda>_ _ _ _ _ _ s. Some (Ret (Inl ENOSYS, s))),
       drv_rmnode = (\<lambda>_ s. Some (Ret (Inl ENOSYS, s))), drv_vnode_ops = Some 5\<rparr>),
     node_ops = (\<lambda>_. \<lparr>op_open = (\<lambda>_ _ s. Some (Ret (Inr (), s))), op_read = (\<lambda>_ _ _ _ s. Some (Ret (Inr 0, s))),
       op_write = (\<lambda>_ _ _ _ s. Some (Ret (Inr 0, s))), op_ioctl = (\<lambda>_ _ _ s. Some (Ret (0, s))), op_mmap = None\<rparr>),
     user_memory = (\<lambda>a. Some (if a = 100 then 47 else if a = 101 then 120 else
       if 200 \<le> a \<and> a < 205 then [47, 100, 101, 118, 120] ! (a - 200) else 0))\<rparr>"

lemma demo_path_x: "user_copy_str_from (user_memory demo_env) 100 PATH_MAX = Inr ''/x''"
proof -
  have "user_holds (user_memory demo_env) 100 [47, 120]"
    by (simp add: demo_env_def user_load_def add32_def)
  from user_copy_str_from_holds [OF this, of PATH_MAX] show ?thesis by (simp add: PATH_MAX_def to_string_def char_of_def bit_Suc_0_iff)
qed

lemma demo_path_devx: "user_copy_str_from (user_memory demo_env) 200 PATH_MAX = Inr ''/devx''"
proof -
  have "user_holds (user_memory demo_env) 200 [47, 100, 101, 118, 120]"
    by (simp add: demo_env_def user_load_def add32_def)
  from user_copy_str_from_holds [OF this, of PATH_MAX] show ?thesis by (simp add: PATH_MAX_def to_string_def char_of_def bit_Suc_0_iff)
qed

lemma demo_topmost_x: "vfs_topmost_fs_for_path ''/x'' (demo_vfs t) = Some (Ret 40)"
  using ll_entries_ok [OF demo_mounts, of t]
  by (simp add: vfs_topmost_fs_for_path_def) (simp add: demo_vfs_def demo_fs_def is_prefix_def)

lemma demo_lookup_x: "fs_lookup_vnode ''/x'' 40 (demo_vfs t) = Some (Ret (Inr 70))"
proof -
  have "ll_entries \<lparr>root = Some 24, lend = Some 32\<rparr> (demo_vfs t) = Some (Ret [60, 70])"
    by (rule ll_entries_ok [OF demo_cache]) simp
  moreover have "path_make_canonical ''/x'' = ''/x''"
    by (simp add: path_make_canonical_def dedup_pass_squash dot_pass.simps)
  ultimately show ?thesis
    by (simp add: fs_lookup_vnode_def with_fs_def fs_relative_def path_make_relative_def fs_lookup_vnode_cached_relative_def
        demo_vfs_def demo_fs_def demo_vnode_def vnode_path.simps PATH_MAX_def)
qed

lemma demo_topmost_devx: "vfs_topmost_fs_for_path ''/devx'' (demo_vfs t) = Some (Ret 44)"
  using ll_entries_ok [OF demo_mounts, of t]
  by (simp add: vfs_topmost_fs_for_path_def) (simp add: demo_vfs_def demo_fs_def is_prefix_def)

lemma demo_relative_devx: "fs_relative ''/devx'' (demo_fs ''/dev'' linkedlist_init) = Inr ''x''"
proof -
  have "path_make_canonical ''/devx'' = ''/devx''"
    by (simp add: path_make_canonical_def dedup_pass_squash dot_pass.simps)
  then show ?thesis by (simp add: fs_relative_def path_make_relative_def demo_fs_def upt_rec numeral_eq_Suc)
qed

lemma demo_lookup_devx: "fs_lookup_vnode ''/devx'' 44 (demo_vfs t) = Some (Ret (Inl ENOENT))"
proof -
  have "fs_objs (demo_vfs t) 44 = Some (demo_fs ''/dev'' linkedlist_init)" by (simp add: demo_vfs_def)
  moreover have "ll_entries linkedlist_init (demo_vfs t) = Some (Ret [])"
    by (simp add: ll_entries_def linkedlist_init_def ll_walk.simps)
  ultimately show ?thesis using demo_relative_devx
    by (simp add: fs_lookup_vnode_def with_fs_def fs_lookup_vnode_cached_relative_def) (simp add: demo_fs_def)
qed




text \<open>
  A mount point that is a prefix of the path but does not end at a component boundary lets a program stop
  the kernel: what is left of the path has no slash, and creating the file trips the assertion in
  \<open>fs_get_dir_vnode_for_file\<close>. With the usual mount of devfs, \<^verbatim>\<open>open("/devx", O_CREAT)\<close> panics.
\<close>
theorem vfs_open_create_panics:
  assumes "user_copy_str_from (user_memory E) upath PATH_MAX = Inr path" and "take 1 path = ''/''"
    and "vfs_topmost_fs_for_path path s = Some (Ret fs)" and "fs_lookup_vnode path fs s = Some (Ret (Inl ENOENT))"
    and "fs_objs s fs = Some f" and "fs_relative path f = Inr rest" and "slash \<notin> set rest" and "flags AND O_CREAT \<noteq> 0"
  shows "vfs_open E upath flags mode p s = Some Panic"
proof -
  have "last_slash r i = None" if "slash \<notin> set r" for r i using that by (induction r i rule: last_slash.induct) auto
  then have "fs_mkfile E path mode 0 0 fs s = Some Panic"
    using assms(5-7) by (simp add: fs_mkfile_def with_fs_def fs_get_dir_vnode_for_file_def)
  then show ?thesis using assms(1-4,8) by (simp add: vfs_open_def)
qed

theorem vfs_open_create_panics_witness:
  "\<forall>t. vfs_open demo_env 200 O_CREAT 0 zero_process (demo_vfs t) = Some Panic"
proof
  fix t
  have "fs_objs (demo_vfs t) 44 = Some (demo_fs ''/dev'' linkedlist_init)" by (simp add: demo_vfs_def)
  from vfs_open_create_panics [OF demo_path_devx _ demo_topmost_devx demo_lookup_devx this demo_relative_devx]
  show "vfs_open demo_env 200 O_CREAT 0 zero_process (demo_vfs t) = Some Panic" by (simp add: O_CREAT_def)
qed

text \<open>
  C33: \<open>fs_free_all_cached_vnodes\<close> never returns on a filesystem with cached vnodes: after removing the last one its
  loop reads the list's root once more, a null pointer. The FAT and ramfs drivers call it when they are unmounted.
\<close>
theorem free_all_vnodes_faults:
  assumes "ll_repr (nodes s, vnode_ll f) xs" and "xs \<noteq> []" and "fs_objs s fs = Some f"
  shows "fs_free_all_cached_vnodes fs s \<noteq> Some (Ret s')"
proof -
  obtain as where as: "ll_at (nodes s, vnode_ll f) as xs" using assms(1) by (auto simp: ll_repr_def)
  then obtain n where "root (vnode_ll f) = Some n" using ll_at_end(2) [OF as] assms(2) by auto
  then show ?thesis using free_vnodes_loop_faults [OF as assms(3)] assms(3)
    by (simp add: fs_free_all_cached_vnodes_def with_fs_def)
qed

theorem free_all_vnodes_faults_witness:
  "\<forall>t s'. fs_free_all_cached_vnodes 40 (demo_vfs t) \<noteq> Some (Ret s')"
proof (intro allI)
  fix t s'
  let ?f = "demo_fs ''/'' \<lparr>root = Some 24, lend = Some 32\<rparr>"
  have "fs_objs (demo_vfs t) 40 = Some ?f" by (simp add: demo_vfs_def)
  moreover have "vnode_ll ?f = \<lparr>root = Some 24, lend = Some 32\<rparr>" by (simp add: demo_fs_def)
  ultimately show "fs_free_all_cached_vnodes 40 (demo_vfs t) \<noteq> Some (Ret s')"
    using free_all_vnodes_faults [of "demo_vfs t" ?f "[60, 70]"] demo_cache [of t] by simp
qed

end
