(* ===== verification/Stdio.thy ===== *)
theory Stdio
  imports Stdlib
begin

text \<open>
  Formatted output, \<^verbatim>\<open>kernel/kstdlib/stdio.c\<close>, and \<^verbatim>\<open>kernel/utils/uuid.c\<close>. A C string is the list of its bytes
  without the terminator. On i686 a \<open>va_list\<close> is a sequence of 32-bit words: a \<open>long long\<close> takes two, the low
  one first; an argument that is not there is a fault, the outcome \<open>Panic\<close>, and so is a read behind the end of
  the format. \<open>cstr\<close> gives the string at an address. The text of a floating point number is an argument
  (\<open>ftext\<close>): its arithmetic is not modelled.
\<close>

section \<open>Flags, lengths and padding\<close>

datatype PrintfLengthSpecifier =
    PRINTF_LEN_NONE | PRINTF_LEN_hh | PRINTF_LEN_h | PRINTF_LEN_l | PRINTF_LEN_ll | PRINTF_LEN_j | PRINTF_LEN_z
  | PRINTF_LEN_t | PRINTF_LEN_L

datatype PrintfParseStatus = PRINTF_PARSE_CONTINUE | PRINTF_PARSE_INVALID | PRINTF_PARSE_DONE

definition PRINTF_FLAG_LEFT_JUSTIFY :: u8 where "PRINTF_FLAG_LEFT_JUSTIFY = 1"
definition PRINTF_FLAG_FORCE_SIGN :: u8 where "PRINTF_FLAG_FORCE_SIGN = 2"
definition PRINTF_FLAG_WHITESPACE :: u8 where "PRINTF_FLAG_WHITESPACE = 4"
definition PRINTF_FLAG_HASHTAG :: u8 where "PRINTF_FLAG_HASHTAG = 8"
definition PRITNF_FLAG_PAD_ZERO :: u8 where "PRITNF_FLAG_PAD_ZERO = 16"

abbreviation ch :: "char \<Rightarrow> u8" where "ch c \<equiv> of_char c"

definition printf_parse_flags :: "u8 \<Rightarrow> u8 \<Rightarrow> PrintfParseStatus \<times> u8" where
  "printf_parse_flags c flags =
     (if c = ch CHR ''-'' then (PRINTF_PARSE_CONTINUE, flags OR PRINTF_FLAG_LEFT_JUSTIFY)
      else if c = ch CHR ''+'' then (PRINTF_PARSE_CONTINUE, flags OR PRINTF_FLAG_FORCE_SIGN)
      else if c = ch CHR '' '' then (PRINTF_PARSE_CONTINUE, flags OR PRINTF_FLAG_WHITESPACE)
      else if c = ch CHR ''#'' then (PRINTF_PARSE_CONTINUE, flags OR PRINTF_FLAG_HASHTAG)
      else if c = ch CHR ''0'' then (PRINTF_PARSE_CONTINUE, flags OR PRITNF_FLAG_PAD_ZERO)
      else (PRINTF_PARSE_DONE, flags))"

definition only_none :: "PrintfLengthSpecifier \<Rightarrow> PrintfLengthSpecifier \<Rightarrow> PrintfParseStatus \<times> PrintfLengthSpecifier" where
  "only_none new len = (if len \<noteq> PRINTF_LEN_NONE then (PRINTF_PARSE_INVALID, len) else (PRINTF_PARSE_CONTINUE, new))"

definition printf_parse_length :: "u8 \<Rightarrow> PrintfLengthSpecifier \<Rightarrow> PrintfParseStatus \<times> PrintfLengthSpecifier" where
  "printf_parse_length c len =
     (if c = ch CHR ''l'' then
        if len = PRINTF_LEN_l then (PRINTF_PARSE_CONTINUE, PRINTF_LEN_ll) else only_none PRINTF_LEN_l len
      else if c = ch CHR ''h'' then
        if len = PRINTF_LEN_h then (PRINTF_PARSE_CONTINUE, PRINTF_LEN_hh) else only_none PRINTF_LEN_h len
      else if c = ch CHR ''j'' then only_none PRINTF_LEN_j len
      else if c = ch CHR ''z'' then only_none PRINTF_LEN_z len
      else if c = ch CHR ''t'' then only_none PRINTF_LEN_t len
      else if c = ch CHR ''L'' then only_none PRINTF_LEN_L len
      else (PRINTF_PARSE_DONE, len))"

text \<open>
  The padding loop: one iteration moves the text one byte to the right (the first byte stays) and stores the
  padding character at \<open>i\<close>. The buffer is zeroed behind the text, so the result is terminated.
\<close>

fun pad_loop :: "nat \<Rightarrow> nat \<Rightarrow> u8 \<Rightarrow> u8 list \<Rightarrow> u8 list" where
  "pad_loop 0 i c buf = buf"
| "pad_loop (Suc k) i c buf = pad_loop k (i + 1) c (((case buf of [] \<Rightarrow> 0 | b # _ \<Rightarrow> b) # buf)[i := c])"

definition printf_apply_flags_and_width :: "u8 list \<Rightarrow> nat \<Rightarrow> u8 \<Rightarrow> nat \<Rightarrow> u8 list" where
  "printf_apply_flags_and_width buf bufmax flags width =
     (let width1 = (if width > bufmax then bufmax else width);
          buflen = length buf
      in if width1 > buflen then
           pad_loop (width1 - buflen) 0 (if flags AND PRITNF_FLAG_PAD_ZERO \<noteq> 0 then ch CHR ''0'' else ch CHR '' '') buf
         else buf)"

section \<open>The pieces of a conversion\<close>

text \<open>The character at the start of what is left of the format, 0 at its end.\<close>

definition cur :: "u8 list \<Rightarrow> u8" where
  "cur fmt = (case fmt of [] \<Rightarrow> 0 | c # _ \<Rightarrow> c)"

fun parse_flags :: "u8 list \<Rightarrow> u8 \<Rightarrow> u8 \<times> u8 list" where
  "parse_flags [] flags = (flags, [])"
| "parse_flags (c # cs) flags =
     (case printf_parse_flags c flags of
        (PRINTF_PARSE_CONTINUE, flags1) \<Rightarrow> parse_flags cs flags1
      | _ \<Rightarrow> (flags, c # cs))"

definition is_digit :: "u8 \<Rightarrow> bool" where
  "is_digit c = isdigit (sint c)"

definition digit_of :: "u8 \<Rightarrow> nat" where
  "digit_of c = unat c - 48"

fun parse_width :: "u8 list \<Rightarrow> nat \<Rightarrow> nat \<times> u8 list" where
  "parse_width [] width = (width, [])"
| "parse_width (c # cs) width =
     (if is_digit c then parse_width cs ((width * 10 + digit_of c) mod 65536) else (width, c # cs))"

fun parse_precision :: "u8 list \<Rightarrow> int \<Rightarrow> int \<times> u8 list" where
  "parse_precision [] precision = (precision, [])"
| "parse_precision (c # cs) precision =
     (if is_digit c then parse_precision cs (precision * 10 + int (digit_of c)) else (precision, c # cs))"

text \<open>The label \<open>reprocess_length\<close>: \<open>None\<close> for an invalid length, after which the conversion is abandoned.\<close>

fun parse_length :: "u8 list \<Rightarrow> PrintfLengthSpecifier \<Rightarrow> PrintfLengthSpecifier option \<times> u8 list" where
  "parse_length [] len = (Some len, [])"
| "parse_length (c # cs) len =
     (case printf_parse_length c len of
        (PRINTF_PARSE_INVALID, _) \<Rightarrow> (None, c # cs)
      | (PRINTF_PARSE_CONTINUE, len1) \<Rightarrow> parse_length cs len1
      | (PRINTF_PARSE_DONE, _) \<Rightarrow> (Some len, c # cs))"

type_synonym va_list = "u32 list"

definition va_word :: "va_list \<Rightarrow> (u32 \<times> va_list) outcome" where
  "va_word ap = (case ap of [] \<Rightarrow> Panic | w # ws \<Rightarrow> Ret (w, ws))"

definition va_dword :: "va_list \<Rightarrow> (u64 \<times> va_list) outcome" where
  "va_dword ap = (case ap of lo # hi # ws \<Rightarrow> Ret (word_cat hi lo, ws) | _ \<Rightarrow> Panic)"

text \<open>The text a conversion function leaves in the zeroed \<open>tmpbuf[50]\<close>.\<close>

definition tmpbuf_text :: "(memory \<Rightarrow> addr \<Rightarrow> nat \<Rightarrow> memory outcome) \<Rightarrow> nat \<Rightarrow> u8 list outcome" where
  "tmpbuf_text toa base =
     bind_outcome (toa (\<lambda>_. 0) 0 base) (\<lambda>m. Ret (takeWhile (\<lambda>b. b \<noteq> 0) (map m [0..<50])))"

definition conv_word :: "(u32 \<Rightarrow> memory \<Rightarrow> addr \<Rightarrow> nat \<Rightarrow> memory outcome) \<Rightarrow> nat \<Rightarrow> va_list \<Rightarrow> (u8 list \<times> va_list) outcome" where
  "conv_word toa base ap =
     bind_outcome (va_word ap) (\<lambda>(w, ap1). bind_outcome (tmpbuf_text (toa w) base) (\<lambda>t. Ret (t, ap1)))"

definition conv_dword :: "(u64 \<Rightarrow> memory \<Rightarrow> addr \<Rightarrow> nat \<Rightarrow> memory outcome) \<Rightarrow> nat \<Rightarrow> va_list \<Rightarrow> (u8 list \<times> va_list) outcome" where
  "conv_dword toa base ap =
     bind_outcome (va_dword ap) (\<lambda>(w, ap1). bind_outcome (tmpbuf_text (toa w) base) (\<lambda>t. Ret (t, ap1)))"

section \<open>One conversion\<close>

text \<open>\<open>%d\<close> and \<open>%i\<close>, \<open>%x\<close> and \<open>%X\<close>, \<open>%u\<close>: the text before padding. The lengths \<open>j\<close>, \<open>t\<close> and \<open>L\<close> of \<open>%u\<close> print nothing.\<close>

definition conv_d :: "PrintfLengthSpecifier \<Rightarrow> va_list \<Rightarrow> (u8 list \<times> va_list) outcome" where
  "conv_d len ap =
     (if len = PRINTF_LEN_l then conv_word (\<lambda>w. ltoa (sint w)) 10 ap
      else if len = PRINTF_LEN_ll then conv_dword (\<lambda>w. lltoa (sint w)) 10 ap
      else conv_word (\<lambda>w. itoa (sint w)) 10 ap)"

definition conv_x :: "PrintfLengthSpecifier \<Rightarrow> va_list \<Rightarrow> (u8 list \<times> va_list) outcome" where
  "conv_x len ap =
     (if len = PRINTF_LEN_l then conv_word (\<lambda>w. ultoa (unat w)) 16 ap
      else if len = PRINTF_LEN_ll then conv_dword (\<lambda>w. ulltoa (unat w)) 16 ap
      else conv_word (\<lambda>w. utoa (unat w)) 16 ap)"

definition conv_u :: "PrintfLengthSpecifier \<Rightarrow> va_list \<Rightarrow> (u8 list \<times> va_list) outcome" where
  "conv_u len ap =
     (case len of
        PRINTF_LEN_l \<Rightarrow> conv_word (\<lambda>w. ultoa (unat w)) 10 ap
      | PRINTF_LEN_ll \<Rightarrow> conv_dword (\<lambda>w. ulltoa (unat w)) 10 ap
      | PRINTF_LEN_j \<Rightarrow> Ret ([], ap)
      | PRINTF_LEN_t \<Rightarrow> Ret ([], ap)
      | PRINTF_LEN_L \<Rightarrow> Ret ([], ap)
      | _ \<Rightarrow> conv_word (\<lambda>w. utoa (unat w)) 10 ap)"

definition padded :: "nat \<Rightarrow> u8 \<Rightarrow> nat \<Rightarrow> (u8 list \<times> va_list) outcome \<Rightarrow> (u8 list \<times> nat \<times> va_list) outcome" where
  "padded bufmax flags width r =
     bind_outcome r (\<lambda>(t, ap).
       let t1 = printf_apply_flags_and_width t bufmax flags width in Ret (t1, length t1, ap))"

text \<open>
  The switch on the specifier: the output text, the length the code takes it to have, and the remaining
  arguments. An unknown specifier prints nothing. \<open>__LDBL_DIG__ + __LDBL_DECIMAL_DIG__ + 3\<close> is 42.
\<close>

definition convert ::
    "(u32 \<Rightarrow> u8 list) \<Rightarrow> (bool \<Rightarrow> int \<Rightarrow> va_list \<Rightarrow> (u8 list \<times> va_list) outcome) \<Rightarrow> u8 \<Rightarrow> PrintfLengthSpecifier
      \<Rightarrow> u8 \<Rightarrow> nat \<Rightarrow> int \<Rightarrow> va_list \<Rightarrow> (u8 list \<times> nat \<times> va_list) outcome" where
  "convert cstr ftext c len flags width precision ap =
     (if c = ch CHR ''i'' \<or> c = ch CHR ''d'' then padded 21 flags width (conv_d len ap)
      else if c = ch CHR ''x'' \<or> c = ch CHR ''X'' then padded 21 flags width (conv_x len ap)
      else if c = ch CHR ''p'' then padded 21 PRITNF_FLAG_PAD_ZERO 8 (conv_word (\<lambda>w. ultoa (unat w)) 16 ap)
      else if c = ch CHR ''u'' then padded 21 flags width (conv_u len ap)
      else if c = ch CHR ''F'' \<or> c = ch CHR ''f'' then padded 42 flags width (ftext (len = PRINTF_LEN_L) precision ap)
      else if c = ch CHR ''s'' then
        bind_outcome (va_word ap) (\<lambda>(w, ap1).
          let s = cstr w in
          Ret (s, if precision \<noteq> -1 \<and> nat (precision mod 4294967296) \<le> length s then nat (precision mod 4294967296) else length s, ap1))
      else if c = ch CHR ''c'' then
        bind_outcome (va_word ap) (\<lambda>(w, ap1). let b = ucast w :: u8 in Ret (if b = 0 then [] else [b], 1, ap1))
      else Ret ([], 0, ap))"

text \<open>
  From the character after the percent sign to the specifier: \<open>None\<close> when the length is invalid, otherwise what
  \<open>convert\<close> needs; and the rest of the format, which starts at the character the loop then steps over. A star as
  the precision is not skipped.
\<close>

definition width_arg :: "u8 list \<Rightarrow> va_list \<Rightarrow> (nat \<times> u8 list \<times> va_list) outcome" where
  "width_arg fmt ap =
     (if cur fmt = ch CHR ''*'' then bind_outcome (va_word ap) (\<lambda>(w, ap1). Ret (unat w mod 65536, tl fmt, ap1))
      else case parse_width fmt 0 of (width, f) \<Rightarrow> Ret (width, f, ap))"

definition precision_arg :: "u8 list \<Rightarrow> va_list \<Rightarrow> (int \<times> u8 list \<times> va_list) outcome" where
  "precision_arg fmt ap =
     (if cur fmt = ch CHR ''.'' then
        if cur (tl fmt) = ch CHR ''*'' then bind_outcome (va_word ap) (\<lambda>(w, ap1). Ret (int (unat w), tl fmt, ap1))
        else case parse_precision (tl fmt) 0 of (precision, f) \<Rightarrow> Ret (precision, f, ap)
      else Ret (-1, fmt, ap))"

definition parse_spec ::
    "u8 list \<Rightarrow> va_list \<Rightarrow> ((u8 \<times> nat \<times> int \<times> PrintfLengthSpecifier) option \<times> u8 list \<times> va_list) outcome" where
  "parse_spec fmt ap =
     (case parse_flags fmt 0 of (flags, f1) \<Rightarrow>
      bind_outcome (width_arg f1 ap) (\<lambda>(width, f2, ap1).
      bind_outcome (precision_arg f2 ap1) (\<lambda>(precision, f3, ap2).
      case parse_length f3 PRINTF_LEN_NONE of (len, f4) \<Rightarrow>
        Ret (map_option (\<lambda>l. (flags, width, precision, l)) len, f4, ap2))))"

lemma parse_flags_length: "parse_flags fmt flags = (fl, f) \<Longrightarrow> length f \<le> length fmt"
proof (induction fmt flags rule: parse_flags.induct)
  case (2 c cs flags)
  obtain st fl1 where "printf_parse_flags c flags = (st, fl1)" by fastforce
  then show ?case using 2 by (cases st) auto
qed auto

lemma parse_width_length: "parse_width fmt w = (w', f) \<Longrightarrow> length f \<le> length fmt"
  by (induction fmt w rule: parse_width.induct) (auto simp: Let_def split: if_splits)

lemma parse_precision_length: "parse_precision fmt p = (p', f) \<Longrightarrow> length f \<le> length fmt"
  by (induction fmt p rule: parse_precision.induct) (auto simp: Let_def split: if_splits)

lemma parse_length_length: "parse_length fmt len = (l, f) \<Longrightarrow> length f \<le> length fmt"
proof (induction fmt len rule: parse_length.induct)
  case (2 c cs len)
  obtain st l1 where "printf_parse_length c len = (st, l1)" by fastforce
  then show ?case using 2 by (cases st) auto
qed auto

lemma width_arg_length: "width_arg fmt ap = Ret (w, f, ap1) \<Longrightarrow> length f \<le> length fmt"
  using parse_width_length by (auto simp: width_arg_def bind_outcome_Ret_iff split: if_splits prod.splits)

lemma precision_arg_length: "precision_arg fmt ap = Ret (p, f, ap1) \<Longrightarrow> length f \<le> length fmt"
  using parse_precision_length [of "tl fmt" 0]
  by (fastforce simp: precision_arg_def bind_outcome_Ret_iff split: if_splits prod.splits)

lemma parse_spec_length:
  assumes "parse_spec fmt ap = Ret (spec, f, ap1)"
  shows "length f \<le> length fmt"
proof -
  obtain flags f1 where f1: "parse_flags fmt 0 = (flags, f1)" by fastforce
  obtain width f2 apw where w: "width_arg f1 ap = Ret (width, f2, apw)"
    using assms by (cases "width_arg f1 ap") (auto simp: parse_spec_def f1)
  obtain precision f3 app where p: "precision_arg f2 apw = Ret (precision, f3, app)"
    using assms by (cases "precision_arg f2 apw") (auto simp: parse_spec_def f1 w)
  obtain len f4 where l: "parse_length f3 PRINTF_LEN_NONE = (len, f4)" by fastforce
  then have "f = f4" using assms by (simp add: parse_spec_def f1 w p)
  then show ?thesis
    using parse_flags_length [OF f1] width_arg_length [OF w] precision_arg_length [OF p] parse_length_length [OF l] by simp
qed

section \<open>The loop\<close>

text \<open>
  The text in the destination and the returned count. \<open>n - 1\<close> wraps for \<open>n = 0\<close>; the count that is passed to
  \<open>strncat\<close> when the output does not fit, \<open>outbuf_len - (outbuf_len - n + 1)\<close>, is \<open>n - 1\<close>.
\<close>

function vsnprintf_loop ::
    "(u32 \<Rightarrow> u8 list) \<Rightarrow> (bool \<Rightarrow> int \<Rightarrow> va_list \<Rightarrow> (u8 list \<times> va_list) outcome) \<Rightarrow> nat \<Rightarrow> u8 list \<Rightarrow> u8 list \<Rightarrow> nat \<Rightarrow> va_list
      \<Rightarrow> (nat \<times> u8 list) outcome" where
  "vsnprintf_loop cstr ftext n fmt dest written ap =
     (case fmt of
        [] \<Rightarrow> Ret (written, dest)
      | c # rest \<Rightarrow>
          if written \<ge> sub32 n 1 then Ret (written, dest)
          else if c \<noteq> ch CHR ''%'' then vsnprintf_loop cstr ftext n rest (dest @ [c]) (written + 1) ap
          else
            (case parse_spec rest ap of
               Panic \<Rightarrow> Panic
             | Ret (None, f, ap1) \<Rightarrow>
                 (if f = [] then Panic else vsnprintf_loop cstr ftext n (tl f) dest written ap1)
             | Ret (Some (flags, width, precision, len), f, ap1) \<Rightarrow>
                 (case convert cstr ftext (cur f) len flags width precision ap1 of
                    Panic \<Rightarrow> Panic
                  | Ret (out, outbuf_len, ap2) \<Rightarrow>
                      if add32 written outbuf_len > sub32 n 1
                      then Ret (add32 written outbuf_len, dest @ take (sub32 n 1) out)
                      else if f = [] then Panic
                      else vsnprintf_loop cstr ftext n (tl f) (dest @ take outbuf_len out) (add32 written outbuf_len) ap2)))"
  by pat_completeness auto
termination
proof (relation "measure (\<lambda>(cstr, ftext, n, fmt, dest, written, ap). length fmt)", goal_cases)
  case (3 cstr ftext n fmt dest written ap c rest r spec x ap1)
  then show ?case using parse_spec_length [of rest ap] by (auto simp: le_less_trans)
next
  case (4 cstr ftext n fmt dest written ap c rest)
  then show ?case using parse_spec_length [of rest ap] by (auto simp: le_less_trans)
qed auto

declare vsnprintf_loop.simps [simp del]

definition vsnprintf ::
    "(u32 \<Rightarrow> u8 list) \<Rightarrow> (bool \<Rightarrow> int \<Rightarrow> va_list \<Rightarrow> (u8 list \<times> va_list) outcome) \<Rightarrow> nat \<Rightarrow> u8 list \<Rightarrow> va_list
      \<Rightarrow> (nat \<times> u8 list) outcome" where
  "vsnprintf cstr ftext n fmt ap = vsnprintf_loop cstr ftext n fmt [] 0 ap"

definition vsprintf ::
    "(u32 \<Rightarrow> u8 list) \<Rightarrow> (bool \<Rightarrow> int \<Rightarrow> va_list \<Rightarrow> (u8 list \<times> va_list) outcome) \<Rightarrow> u8 list \<Rightarrow> va_list \<Rightarrow> (nat \<times> u8 list) outcome" where
  "vsprintf cstr ftext fmt ap = vsnprintf cstr ftext 2147483647 fmt ap"

text \<open>The variadic functions pass on the words behind their last named parameter.\<close>

definition snprintf ::
    "(u32 \<Rightarrow> u8 list) \<Rightarrow> (bool \<Rightarrow> int \<Rightarrow> va_list \<Rightarrow> (u8 list \<times> va_list) outcome) \<Rightarrow> nat \<Rightarrow> u8 list \<Rightarrow> va_list
      \<Rightarrow> (nat \<times> u8 list) outcome" where
  "snprintf cstr ftext n fmt ap = vsnprintf cstr ftext n fmt ap"

definition sprintf ::
    "(u32 \<Rightarrow> u8 list) \<Rightarrow> (bool \<Rightarrow> int \<Rightarrow> va_list \<Rightarrow> (u8 list \<times> va_list) outcome) \<Rightarrow> u8 list \<Rightarrow> va_list \<Rightarrow> (nat \<times> u8 list) outcome" where
  "sprintf cstr ftext fmt ap = vsprintf cstr ftext fmt ap"

section \<open>UUIDs\<close>

definition UUID_LENGTH :: nat where "UUID_LENGTH = 36"

definition UUID_FMT :: "u8 list" where
  "UUID_FMT = map of_char ''%08X-%04X-%04X-%04X-%012X''"

text \<open>Without a destination the call is refused; the 16-bit arguments are promoted, the last one is two words.\<close>

definition uuid_format ::
    "(u32 \<Rightarrow> u8 list) \<Rightarrow> (bool \<Rightarrow> int \<Rightarrow> va_list \<Rightarrow> (u8 list \<times> va_list) outcome) \<Rightarrow> u32 \<Rightarrow> u16 \<Rightarrow> u16 \<Rightarrow> u16 \<Rightarrow> u64 \<Rightarrow> bool
      \<Rightarrow> (nat \<times> u8 list) result outcome" where
  "uuid_format cstr ftext a b c d e dest =
     (if \<not> dest then Ret (Inl EINVAL)
      else bind_outcome (snprintf cstr ftext (UUID_LENGTH + 1) UUID_FMT
              [a, ucast b, ucast c, ucast d, ucast e, ucast (drop_bit 32 e)]) (\<lambda>r. Ret (Inr r)))"

definition uuid_gen :: "bool \<Rightarrow> unit result outcome" where
  "uuid_gen dest = Panic"

section \<open>Lemmas\<close>

lemma pad_loop_eq: "pad_loop k i c (replicate i c @ buf) = replicate (i + k) c @ buf"
proof (induction k arbitrary: i)
  case (Suc k)
  have "(((case replicate i c @ buf of [] \<Rightarrow> 0 | b # _ \<Rightarrow> b) # (replicate i c @ buf))[i := c]) = replicate (i + 1) c @ buf"
  proof (cases i)
    case (Suc j)
    then have hd: "(case replicate i c @ buf of [] \<Rightarrow> 0 | b # _ \<Rightarrow> b) = c" by simp
    have "(replicate (Suc i) c @ buf) ! i = c" by (simp add: nth_append del: replicate_Suc)
    then have "(replicate (Suc i) c @ buf)[i := c] = replicate (Suc i) c @ buf" by (metis list_update_id)
    then show ?thesis unfolding hd by simp
  qed simp
  then show ?case using Suc.IH [of "i + 1"] by simp
qed simp

lemma apply_width_eq:
  "printf_apply_flags_and_width buf bufmax flags width =
     replicate (min width bufmax - length buf) (if flags AND PRITNF_FLAG_PAD_ZERO \<noteq> 0 then ch CHR ''0'' else ch CHR '' '') @ buf"
  using pad_loop_eq [of _ 0 _ buf] by (auto simp: printf_apply_flags_and_width_def Let_def min_def)

lemma takeWhile_cstring:
  assumes "cstring m 0 xs" and "length xs < k"
  shows "takeWhile (\<lambda>b. b \<noteq> 0) (map m [0..<k]) = xs"
proof -
  have "map m [0..<k] = map m [0..<length xs] @ map m [length xs..<k]"
    using assms(2) upt_add_eq_append [of 0 "length xs" "k - length xs"] by simp
  moreover have "map m [0..<length xs] = xs" using assms(1) by (auto simp: cstring_def intro: nth_equalityI)
  moreover have "[length xs..<k] = length xs # [Suc (length xs)..<k]" using assms(2) by (simp add: upt_conv_Cons)
  ultimately have "map m [0..<k] = xs @ m (length xs) # map m [Suc (length xs)..<k]" by simp
  then show ?thesis using assms(1) by (auto simp: cstring_def takeWhile_append)
qed

lemma tmpbuf_number:
  assumes "2 \<le> base" "base \<le> 36" "length (digits_of base n) \<le> 21"
  shows "tmpbuf_text (ulltoa n) base = Ret (number_text base n)"
proof -
  obtain m where m: "ulltoa n (\<lambda>_. 0) 0 base = Ret m" "cstring m 0 (number_text base n)"
    using ulltoa_text [OF assms, of "\<lambda>_. 0" 0] by blast
  moreover have "length (number_text base n) < 50" using assms(3) by (simp add: number_text_def)
  ultimately show ?thesis by (simp add: tmpbuf_text_def takeWhile_cstring)
qed

end
