(* ===== verification/StdioProps.thy ===== *)
theory StdioProps
  imports Stdio
begin

text \<open>
  Properties of formatted output: when it stays inside the destination, when it does not, and the text of a
  UUID.
\<close>

section \<open>Lemmas\<close>

lemma literal_run:
  assumes "ch CHR ''%'' \<notin> set xs" and "w + length xs \<le> sub32 n 1"
  shows "vsnprintf_loop cstr ftext n (xs @ rest) dest w ap = vsnprintf_loop cstr ftext n rest (dest @ xs) (w + length xs) ap"
  using assms
proof (induction xs arbitrary: dest w)
  case (Cons x xs)
  have "vsnprintf_loop cstr ftext n ((x # xs) @ rest) dest w ap = vsnprintf_loop cstr ftext n (xs @ rest) (dest @ [x]) (w + 1) ap"
    using Cons.prems by (subst vsnprintf_loop.simps) simp
  then show ?case using Cons.IH [of "w + 1" "dest @ [x]"] Cons.prems by simp
qed simp

lemma length_tmpbuf: "tmpbuf_text toa base = Ret t \<Longrightarrow> length t \<le> 50"
  using length_takeWhile_le [of "\<lambda>b. b \<noteq> 0" "map m [0..<50]" for m]
  by (auto simp: tmpbuf_text_def bind_outcome_Ret_iff)

lemma length_conv:
  "conv_word toa base ap = Ret (t, ap1) \<Longrightarrow> length t \<le> 50"
  "conv_dword toa2 base ap = Ret (t, ap1) \<Longrightarrow> length t \<le> 50"
  using length_tmpbuf by (auto simp: conv_word_def conv_dword_def bind_outcome_Ret_iff)

lemma length_convs:
  "conv_d len ap = Ret (t, ap1) \<Longrightarrow> length t \<le> 50"
  "conv_x len ap = Ret (t, ap1) \<Longrightarrow> length t \<le> 50"
  "conv_u len ap = Ret (t, ap1) \<Longrightarrow> length t \<le> 50"
  by (auto simp: conv_d_def conv_x_def conv_u_def split: if_splits PrintfLengthSpecifier.splits dest: length_conv)

lemma length_padded:
  assumes "padded bufmax flags width r = Ret (out, k, ap)" and "bufmax \<le> 50" and "\<forall>t ap1. r = Ret (t, ap1) \<longrightarrow> length t \<le> 50"
  shows "k \<le> 100"
  using assms by (auto simp: padded_def bind_outcome_Ret_iff Let_def apply_width_eq)

lemma convert_length:
  assumes c: "convert cstr ftext c len flags width precision ap = Ret (out, k, ap2)"
    and s: "\<forall>a. length (cstr a) < 2147483648"
    and f: "\<forall>b p ap t ap1. ftext b p ap = Ret (t, ap1) \<longrightarrow> length t \<le> 50"
  shows "k < 2147483648"
proof -
  have p: "k < 2147483648" if "padded b fl w r = Ret (out, k, ap2)" "b \<le> 50" "\<forall>t ap1. r = Ret (t, ap1) \<longrightarrow> length t \<le> 50" for b fl w r
    using length_padded [OF that] by simp
  have t: "\<forall>t ap1. conv_d len ap = Ret (t, ap1) \<longrightarrow> length t \<le> 50" "\<forall>t ap1. conv_x len ap = Ret (t, ap1) \<longrightarrow> length t \<le> 50"
    "\<forall>t ap1. conv_u len ap = Ret (t, ap1) \<longrightarrow> length t \<le> 50"
    "\<forall>t ap1. conv_word (\<lambda>w. ultoa (unat w)) 16 ap = Ret (t, ap1) \<longrightarrow> length t \<le> 50"
    by (intro allI impI, erule length_convs length_conv)+
  have ft: "\<forall>t ap1. ftext (len = PRINTF_LEN_L) precision ap = Ret (t, ap1) \<longrightarrow> length t \<le> 50" using f by simp
  consider "padded 21 flags width (conv_d len ap) = Ret (out, k, ap2)" | "padded 21 flags width (conv_x len ap) = Ret (out, k, ap2)"
    | "padded 21 PRITNF_FLAG_PAD_ZERO 8 (conv_word (\<lambda>w. ultoa (unat w)) 16 ap) = Ret (out, k, ap2)"
    | "padded 21 flags width (conv_u len ap) = Ret (out, k, ap2)"
    | "padded 42 flags width (ftext (len = PRINTF_LEN_L) precision ap) = Ret (out, k, ap2)"
    | "k \<le> length out" "\<exists>a. out = cstr a" | "k \<le> 1"
    using c by (auto simp: convert_def bind_outcome_Ret_iff Let_def split: if_splits)
  then show ?thesis
  proof cases
    case 6
    then show ?thesis using s by (metis le_less_trans)
  qed (use p t ft in auto)
qed

text \<open>While the loop runs, the text is no longer than the count and the count stays below the size.\<close>

lemma vsnprintf_loop_fits:
  assumes "0 < n" "n \<le> 2147483648" and "\<forall>a. length (cstr a) < 2147483648"
    and "\<forall>b p ap t ap1. ftext b p ap = Ret (t, ap1) \<longrightarrow> length t \<le> 50"
    and "vsnprintf_loop cstr ftext n fmt dest w ap = Ret (r, out)" and "length dest \<le> w" "w \<le> n - 1" and "r < n"
  shows "length out \<le> r"
  using assms
proof (induction cstr ftext n fmt dest w ap rule: vsnprintf_loop.induct)
  case (1 cstr ftext n fmt dest w ap)
  have n1: "sub32 n 1 = n - 1" using "1.prems"(1,2) by (intro sub32_exact) simp_all
  note pre = "1.prems"(1-4)
  show ?case
  proof (cases fmt)
    case Nil
    then show ?thesis using "1.prems"(5,6) by (simp add: vsnprintf_loop.simps)
  next
    case (Cons c rest)
    note step = "1.prems"(5) [unfolded Cons, simplified vsnprintf_loop.simps [of cstr ftext n "c # rest"] list.case n1]
    consider "w \<ge> n - 1" | "w < n - 1" "c \<noteq> ch CHR ''%''" | "w < n - 1" "c = ch CHR ''%''" by linarith
    then show ?thesis
    proof cases
      case 1
      then show ?thesis using step "1.prems"(6) by simp
    next
      case 2
      then have "vsnprintf_loop cstr ftext n rest (dest @ [c]) (w + 1) ap = Ret (r, out)" using step by simp
      then show ?thesis using 2 "1.IH"(1) [OF Cons _ _ pre] "1.prems"(6,8) n1 by simp
    next
      case 3
      then obtain spec f ap1 where sp: "parse_spec rest ap = Ret (spec, f, ap1)"
        using step by (cases "parse_spec rest ap") auto
      show ?thesis
      proof (cases spec)
        case None
        then have "vsnprintf_loop cstr ftext n (tl f) dest w ap1 = Ret (r, out)" "f \<noteq> []"
          using step sp 3 by (auto split: if_splits)
        then show ?thesis using 3 "1.IH"(2) [OF Cons _ _ sp _ _ _ _ pre] None "1.prems"(6-) n1 by simp
      next
        case (Some x)
        obtain flags width precision len where x: "x = (flags, width, precision, len)" by (cases x)
        obtain o1 k ap2 where cv: "convert cstr ftext (cur f) len flags width precision ap1 = Ret (o1, k, ap2)"
          using step sp 3 Some x by (cases "convert cstr ftext (cur f) len flags width precision ap1") auto
        have a: "add32 w k = w + k"
          using convert_length [OF cv pre(3,4)] 3 pre(2) by (intro add32_exact) simp
        show ?thesis
        proof (cases "w + k > n - 1")
          case True
          then show ?thesis using step sp 3 Some x cv a "1.prems"(8) by auto
        next
          case False
          then have "vsnprintf_loop cstr ftext n (tl f) (dest @ take k o1) (w + k) ap2 = Ret (r, out)" "f \<noteq> []"
            using step sp 3 Some x cv a by (auto split: if_splits)
          then show ?thesis using False 3 "1.IH"(3) [OF Cons _ _ sp _ _ _ _ _ _ cv _ _ _ _ pre] Some x a "1.prems"(6-) n1 by simp
        qed
      qed
    qed
  qed
qed

section \<open>Hexadecimal fields\<close>

text \<open>A number in at least \<open>k\<close> hexadecimal digits, with zeros in front.\<close>

definition hex_pad :: "nat \<Rightarrow> nat \<Rightarrow> u8 list" where
  "hex_pad k v = replicate (k - length (number_text 16 v)) 48 @ number_text 16 v"

lemma length_hex_pad: "v < 16 ^ k \<Longrightarrow> 0 < k \<Longrightarrow> length (hex_pad k v) = k"
  using digits_length_le [of 16 v k] by (auto simp: hex_pad_def number_text_def)

lemma conv_x_text: "conv_x PRINTF_LEN_NONE (a # ap) = Ret (number_text 16 (unat a), ap)"
proof -
  have "unat a < 16 ^ 8" using unsigned_less [of a] by simp
  then have "length (digits_of 16 (unat a)) \<le> 21" using digits_length_le [of 16 "unat a" 8] by simp
  then show ?thesis
    using tmpbuf_number [of 16 "unat a"]
    by (simp add: conv_x_def conv_word_def va_word_def utoa_def [abs_def] ultoa_def [abs_def])
qed

lemma hex_field:
  assumes "parse_spec fmt (a # ap) = Ret (Some (PRITNF_FLAG_PAD_ZERO, k, -1, PRINTF_LEN_NONE), ch CHR ''X'' # rest, a # ap)"
    and "0 < k" "k \<le> 21" "unat a < 16 ^ k" "w + k \<le> sub32 n 1" "sub32 n 1 < 2147483648"
  shows "vsnprintf_loop cstr ftext n (ch CHR ''%'' # fmt) dest w (a # ap) =
    vsnprintf_loop cstr ftext n rest (dest @ hex_pad k (unat a)) (w + k) ap"
proof -
  have l: "length (hex_pad k (unat a)) = k" by (rule length_hex_pad [OF assms(4,2)])
  have p: "PRITNF_FLAG_PAD_ZERO AND PRITNF_FLAG_PAD_ZERO \<noteq> 0" by (simp add: PRITNF_FLAG_PAD_ZERO_def)
  have "padded 21 PRITNF_FLAG_PAD_ZERO k (conv_x PRINTF_LEN_NONE (a # ap)) = Ret (hex_pad k (unat a), k, ap)"
    using assms(3) l p by (simp add: padded_def conv_x_text Let_def apply_width_eq min_def hex_pad_def)
  then have c: "convert cstr ftext (ch CHR ''X'') PRINTF_LEN_NONE PRITNF_FLAG_PAD_ZERO k (-1) (a # ap) = Ret (hex_pad k (unat a), k, ap)"
    by (simp add: convert_def)
  have "add32 w k = w + k" using assms(5,6) by (intro add32_exact) simp
  then show ?thesis using assms(1,2,5) c l
    by (subst vsnprintf_loop.simps) (simp add: cur_def)
qed

lemmas spec_simps = parse_spec_def printf_parse_flags_def width_arg_def precision_arg_def printf_parse_length_def
  cur_def is_digit_def isdigit_def digit_of_def PRITNF_FLAG_PAD_ZERO_def

lemma hex_spec:
  "parse_spec (map of_char ''08X'' @ rest) ap = Ret (Some (PRITNF_FLAG_PAD_ZERO, 8, -1, PRINTF_LEN_NONE), ch CHR ''X'' # rest, ap)"
  "parse_spec (map of_char ''04X'' @ rest) ap = Ret (Some (PRITNF_FLAG_PAD_ZERO, 4, -1, PRINTF_LEN_NONE), ch CHR ''X'' # rest, ap)"
  "parse_spec (map of_char ''012X'' @ rest) ap = Ret (Some (PRITNF_FLAG_PAD_ZERO, 12, -1, PRINTF_LEN_NONE), ch CHR ''X'' # rest, ap)"
  by (simp_all add: spec_simps)

section \<open>Properties\<close>



text \<open>
  When a string does not fit behind other output, \<open>vsnprintf\<close> writes behind the end of the destination. The
  number of bytes it still may append is computed as \<open>n - 1\<close> without what has been written before, so the text
  with its terminator takes more than the \<open>n\<close> bytes the caller allows.
\<close>
theorem vsnprintf_overflows:
  assumes "ch CHR ''%'' \<notin> set xs" and "xs \<noteq> []" and "length xs < n - 1" and "n - 1 < length xs + length (cstr p)"
    and "length xs + length (cstr p) < W32"
  shows "vsnprintf cstr ftext n (xs @ map of_char ''%s'') (p # ap) =
      Ret (length xs + length (cstr p), xs @ take (n - 1) (cstr p)) \<and> n < length (xs @ take (n - 1) (cstr p)) + 1"
proof -
  have n1: "sub32 n 1 = n - 1" using assms by (intro sub32_exact) simp_all
  have sp: "parse_spec [ch CHR ''s''] (p # ap) = Ret (Some (0, 0, -1, PRINTF_LEN_NONE), [ch CHR ''s''], p # ap)"
    by (simp add: spec_simps)
  have cv: "convert cstr ftext (ch CHR ''s'') PRINTF_LEN_NONE 0 0 (-1) (p # ap) = Ret (cstr p, length (cstr p), ap)"
    by (simp add: convert_def va_word_def Let_def)
  have "vsnprintf cstr ftext n (xs @ map of_char ''%s'') (p # ap) =
      vsnprintf_loop cstr ftext n (map of_char ''%s'') xs (length xs) (p # ap)"
    unfolding vsnprintf_def using literal_run [OF assms(1), of 0 n cstr ftext _ "[]"] assms(3) n1 by simp
  also have "\<dots> = Ret (length xs + length (cstr p), xs @ take (n - 1) (cstr p))"
    using assms(3-5) n1 sp cv by (subst vsnprintf_loop.simps) (simp add: cur_def add32_exact del: One_nat_def)
  finally show ?thesis using assms(2-4) by (cases xs) (auto simp: min_def)
qed

text \<open>
  \<open>"ab%s"\<close> with a string of four characters and room for six bytes: seven are written.
\<close>
theorem vsnprintf_overflows_witness:
  "vsnprintf (\<lambda>a. [99, 100, 101, 102]) (\<lambda>b p ap. Panic) 6 ([97, 98] @ map of_char ''%s'') [4096] =
     Ret (6, [97, 98, 99, 100, 101, 102]) \<and> 6 < length [97 :: u8, 98, 99, 100, 101, 102] + (1 :: nat)"
  using vsnprintf_overflows [of "[97, 98]" 6 "\<lambda>a. [99, 100, 101, 102]" 4096 "\<lambda>b p ap. Panic" "[]"]
  by simp

lemma uuid_format_eq:
  "uuid_format cstr ftext a b c d e True = Ret (Inr (36,
     hex_pad 8 (unat a) @ [45] @ hex_pad 4 (unat b) @ [45] @ hex_pad 4 (unat c) @ [45] @ hex_pad 4 (unat d) @ [45] @
     hex_pad 12 (unat e mod 4294967296)))"
proof -
  let ?f = "map of_char" and ?v = "vsnprintf_loop cstr ftext 37"
  have n1: "sub32 37 1 = 36" by (simp add: sub32_def)
  have u: "unat (ucast x :: u32) = unat x" "unat (ucast x :: u32) < 16 ^ 4" for x :: u16
  proof -
    have "unat x < 2 ^ LENGTH(16)" by (rule unsigned_less)
    then show "unat (ucast x :: u32) = unat x" "unat (ucast x :: u32) < 16 ^ 4"
      by (simp_all add: unsigned_ucast_eq take_bit_nat_eq_self)
  qed
  have e: "unat (ucast e :: u32) = unat e mod 4294967296" "unat (ucast e :: u32) < 16 ^ 12"
    using unsigned_less [of "ucast e :: u32"] by (simp_all add: unsigned_ucast_eq take_bit_eq_mod)
  have a: "unat a < 16 ^ 8" using unsigned_less [of a] by simp
  have dash: "?v (?f ''-'' @ rest) dst w ap = ?v rest (dst @ [45]) (w + 1) ap" if "w < 36" for rest dst w ap
    using that literal_run [of "?f ''-''" w 37 cstr ftext rest dst ap] n1 by simp
  have f: "UUID_FMT = ?f ''%'' @ ?f ''08X'' @ ?f ''-'' @ ?f ''%'' @ ?f ''04X'' @ ?f ''-'' @ ?f ''%'' @ ?f ''04X'' @ ?f ''-'' @ ?f ''%'' @ ?f ''04X'' @
      ?f ''-'' @ ?f ''%'' @ ?f ''012X'' @ []"
    by (simp add: UUID_FMT_def)
  have fld: "?v (?f ''%'' @ ?f ''08X'' @ rest) dst w (x # ap) = ?v rest (dst @ hex_pad 8 (unat x)) (w + 8) ap"
    if "unat x < 16 ^ 8" "w + 8 \<le> 36" for x rest dst w ap
    using hex_field [OF hex_spec(1) _ _ that(1), of w 37] that n1 by simp
  have fld4: "?v (?f ''%'' @ ?f ''04X'' @ rest) dst w (x # ap) = ?v rest (dst @ hex_pad 4 (unat x)) (w + 4) ap"
    if "unat x < 16 ^ 4" "w + 4 \<le> 36" for x rest dst w ap
    using hex_field [OF hex_spec(2) _ _ that(1), of w 37] that n1 by simp
  have fld12: "?v (?f ''%'' @ ?f ''012X'' @ rest) dst w (x # ap) = ?v rest (dst @ hex_pad 12 (unat x)) (w + 12) ap"
    if "unat x < 16 ^ 12" "w + 12 \<le> 36" for x rest dst w ap
    using hex_field [OF hex_spec(3) _ _ that(1), of w 37] that n1 by simp
  have nil: "?v [] dst w ap = Ret (w, dst)" for dst w ap by (subst vsnprintf_loop.simps) simp
  have le: "(0::nat) + 8 \<le> 36" "(0::nat) + 8 < 36" "(0::nat) + 8 + 1 + 4 \<le> 36" "(0::nat) + 8 + 1 + 4 < 36"
    "(0::nat) + 8 + 1 + 4 + 1 + 4 \<le> 36" "(0::nat) + 8 + 1 + 4 + 1 + 4 < 36" "(0::nat) + 8 + 1 + 4 + 1 + 4 + 1 + 4 \<le> 36"
    "(0::nat) + 8 + 1 + 4 + 1 + 4 + 1 + 4 < 36" "(0::nat) + 8 + 1 + 4 + 1 + 4 + 1 + 4 + 1 + 12 \<le> 36" by simp_all
  have "?v UUID_FMT [] 0 [a, ucast b, ucast c, ucast d, ucast e, ucast (drop_bit 32 e)] = Ret (36,
     hex_pad 8 (unat a) @ [45] @ hex_pad 4 (unat b) @ [45] @ hex_pad 4 (unat c) @ [45] @ hex_pad 4 (unat d) @ [45] @
     hex_pad 12 (unat e mod 4294967296))"
    unfolding f by (simp only: fld [OF a] fld4 [OF u(2)] fld12 [OF e(2)] dash nil le u(1) e(1) append_assoc append_Nil) simp
  then show ?thesis by (simp add: uuid_format_def snprintf_def vsnprintf_def UUID_LENGTH_def)
qed

text \<open>
  A formatted UUID has 36 characters: the five numbers as 8, 4, 4, 4 and 12 hexadecimal digits with dashes
  between them. Of the last, 64-bit number only the lower half is printed, because the format asks for an
  \<open>unsigned int\<close>.
\<close>
theorem uuid_format_text:
  "uuid_format cstr ftext a b c d e True = Ret (Inr (36,
     hex_pad 8 (unat a) @ [45] @ hex_pad 4 (unat b) @ [45] @ hex_pad 4 (unat c) @ [45] @ hex_pad 4 (unat d) @ [45] @
     hex_pad 12 (unat e mod 4294967296)))"
  by (rule uuid_format_eq)

end
