(* ===== verification/Timekeep.thy ===== *)
theory Timekeep
  imports Prelude
begin

text \<open>
  Time: \<^verbatim>\<open>kernel/time/timekeep.c\<close>, \<^verbatim>\<open>kernel/time/timer.c\<close>, \<open>sleep_ms\<close> of \<^verbatim>\<open>kernel/kstdlib/time.c\<close> and the
  comparison of \<^verbatim>\<open>include/dxgmx/time.h\<close>. The functions of a time source are behind pointers: \<open>sources\<close> gives
  them for the address of a \<open>TimeSource\<close>; they work on a state of their own. The list of the registered
  sources is the list of their addresses, and whether its new node can be allocated is an argument.
\<close>

section \<open>Points in time\<close>

text \<open>\<open>tv_sec\<close> is 64 bits wide and does not wrap; \<open>tv_nsec\<close> has 32 bits.\<close>

record timespec =
  tv_sec :: int
  tv_nsec :: int

definition to_i32 :: "int \<Rightarrow> int" where
  "to_i32 i = signed_take_bit 31 i"

definition TIMESPEC_MS :: "timespec \<Rightarrow> int" where
  "TIMESPEC_MS t = tv_sec t * 1000 + (if tv_nsec t \<ge> 0 then tv_nsec t div 1000000 else - ((- tv_nsec t) div 1000000))"

definition TIMESPEC_IS_FIRST_BIGGER :: "timespec \<Rightarrow> timespec \<Rightarrow> bool" where
  "TIMESPEC_IS_FIRST_BIGGER a b \<longleftrightarrow> TIMESPEC_MS a > TIMESPEC_MS b"

section \<open>Time sources and timers\<close>

record 'x TimeSource =
  ts_name :: string
  priority :: nat
  ts_init :: "'x \<Rightarrow> unit result \<times> 'x"
  ts_destroy :: "'x \<Rightarrow> int \<times> 'x"
  ts_now :: "'x \<Rightarrow> timespec"

text \<open>\<open>now\<close> of a timer: the function of a source, or \<open>timer_stub_now\<close> for \<open>None\<close>.\<close>

record Timer =
  starting_ts :: timespec
  now_fn :: "addr option"

record 'x tk_state =
  g_uptime_timer :: Timer
  g_timesources :: "addr list"
  g_best_timesource :: "addr option"
  tk_priv :: 'x

definition timer_stub_now :: timespec where
  "timer_stub_now = \<lparr>tv_sec = 0, tv_nsec = 0\<rparr>"

definition TIMER_DORMANT :: Timer where
  "TIMER_DORMANT = \<lparr>starting_ts = \<lparr>tv_sec = 0, tv_nsec = 0\<rparr>, now_fn = None\<rparr>"

definition timer_now :: "(addr \<Rightarrow> 'x TimeSource) \<Rightarrow> addr option \<Rightarrow> 'x \<Rightarrow> timespec" where
  "timer_now sources f x = (case f of None \<Rightarrow> timer_stub_now | Some a \<Rightarrow> ts_now (sources a) x)"

definition timekeep_get_best_timesource :: "'x tk_state \<Rightarrow> addr option" where
  "timekeep_get_best_timesource s = g_best_timesource s"

definition timer_start :: "(addr \<Rightarrow> 'x TimeSource) \<Rightarrow> 'x tk_state \<Rightarrow> Timer outcome" where
  "timer_start sources s =
     (case timekeep_get_best_timesource s of
        None \<Rightarrow> Panic
      | Some a \<Rightarrow> Ret \<lparr>starting_ts = timer_now sources (Some a) (tk_priv s), now_fn = Some a\<rparr>)"

definition timer_diff :: "timespec \<Rightarrow> timespec \<Rightarrow> timespec" where
  "timer_diff now t0 =
     (let sec = tv_sec now - tv_sec t0;
          nsecdiff = to_i32 (tv_nsec now - tv_nsec t0)
      in if nsecdiff < 0 then \<lparr>tv_sec = sec - 1, tv_nsec = to_i32 (1000000000 + nsecdiff)\<rparr>
         else \<lparr>tv_sec = sec, tv_nsec = to_i32 nsecdiff\<rparr>)"

definition timer_elapsed :: "(addr \<Rightarrow> 'x TimeSource) \<Rightarrow> Timer \<Rightarrow> 'x tk_state \<Rightarrow> timespec" where
  "timer_elapsed sources t s = timer_diff (timer_now sources (now_fn t) (tk_priv s)) (starting_ts t)"

section \<open>The time keeper\<close>

definition timekeep_register_timesource ::
    "(addr \<Rightarrow> 'x TimeSource) \<Rightarrow> bool \<Rightarrow> addr \<Rightarrow> 'x tk_state \<Rightarrow> unit result \<times> 'x tk_state" where
  "timekeep_register_timesource sources node ts s =
     (if \<not> node then (Inl ENOMEM, s)
      else
        let s1 = s\<lparr>g_timesources := g_timesources s @ [ts]\<rparr> in
        (case ts_init (sources ts) (tk_priv s1) of
           (Inl e, x) \<Rightarrow> (Inl e, s1\<lparr>tk_priv := x, g_timesources := remove1 ts (g_timesources s1)\<rparr>)
         | (Inr _, x) \<Rightarrow> (Inr (), s1\<lparr>tk_priv := x\<rparr>)))"

definition timekeep_unregister_timesource ::
    "(addr \<Rightarrow> 'x TimeSource) \<Rightarrow> addr \<Rightarrow> 'x tk_state \<Rightarrow> unit result \<times> 'x tk_state" where
  "timekeep_unregister_timesource sources ts s =
     (case ts_destroy (sources ts) (tk_priv s) of
        (_, x) \<Rightarrow>
          let s1 = s\<lparr>tk_priv := x\<rparr> in
          if ts \<in> set (g_timesources s1) then (Inr (), s1\<lparr>g_timesources := remove1 ts (g_timesources s1)\<rparr>)
          else (Inl ENOENT, s1))"

fun best_source :: "(addr \<Rightarrow> 'x TimeSource) \<Rightarrow> addr option \<Rightarrow> addr list \<Rightarrow> addr option" where
  "best_source sources best [] = best"
| "best_source sources best (ts # tss) =
     best_source sources
       (case best of
          None \<Rightarrow> Some ts
        | Some b \<Rightarrow> if priority (sources ts) > priority (sources b) then Some ts else Some b) tss"

definition timekeep_init :: "(addr \<Rightarrow> 'x TimeSource) \<Rightarrow> 'x tk_state \<Rightarrow> (unit result \<times> 'x tk_state) outcome" where
  "timekeep_init sources s =
     (let s1 = s\<lparr>g_best_timesource := best_source sources (g_best_timesource s) (g_timesources s)\<rparr> in
      if length (g_timesources s) = 0 then Panic
      else bind_outcome (timer_start sources s1) (\<lambda>t. Ret (Inr (), s1\<lparr>g_uptime_timer := t\<rparr>)))"

definition timekeep_uptime :: "(addr \<Rightarrow> 'x TimeSource) \<Rightarrow> 'x tk_state \<Rightarrow> timespec" where
  "timekeep_uptime sources s = timer_elapsed sources (g_uptime_timer s) s"

text \<open>
  The request that \<open>sleep_ms\<close> hands to \<open>nanosleep\<close>: the product of milliseconds wraps at 32 bits, the
  subtraction is done in 64 bits and its result cut to the 32 bits of \<open>tv_nsec\<close>.
\<close>

definition sleep_ms_request :: "nat \<Rightarrow> timespec" where
  "sleep_ms_request ms =
     (let sec = int (ms div 1000)
      in \<lparr>tv_sec = sec, tv_nsec = to_i32 (int (mul32 ms 1000000) - sec * 1000000000)\<rparr>)"

section \<open>Properties\<close>

definition timespec_ok :: "timespec \<Rightarrow> bool" where
  "timespec_ok t \<longleftrightarrow> 0 \<le> tv_nsec t \<and> tv_nsec t < 1000000000"

definition to_ns :: "timespec \<Rightarrow> int" where
  "to_ns t = tv_sec t * 1000000000 + tv_nsec t"

lemma to_i32_small: "- 2147483648 \<le> i \<Longrightarrow> i < 2147483648 \<Longrightarrow> to_i32 i = i"
  by (simp add: to_i32_def signed_take_bit_int_eq_self)

lemma to_i32_mod: "0 \<le> r \<Longrightarrow> r < 2147483648 \<Longrightarrow> to_i32 (4294967296 * k + r) = r"
proof -
  assume r: "0 \<le> r" "r < 2147483648"
  have "to_i32 (4294967296 * k + r) = to_i32 r"
    unfolding to_i32_def signed_take_bit_eq_take_bit_shift by (simp add: take_bit_eq_mod add.assoc)
  then show ?thesis using r by (simp add: to_i32_small)
qed

lemma timer_diff_exact:
  assumes "timespec_ok now" and "timespec_ok t0"
  shows "timespec_ok (timer_diff now t0) \<and> to_ns (timer_diff now t0) = to_ns now - to_ns t0"
  using assms by (auto simp: timespec_ok_def timer_diff_def to_ns_def to_i32_small Let_def algebra_simps)

lemma best_source_max:
  "best_source sources (Some b) tss = Some c \<Longrightarrow>
     c \<in> insert b (set tss) \<and> (\<forall>a \<in> insert b (set tss). priority (sources a) \<le> priority (sources c))"
  by (induction tss arbitrary: b) (fastforce split: if_splits)+

lemma best_source_Some: "\<exists>c. best_source sources (Some b) tss = Some c"
  by (induction tss arbitrary: b) auto

text \<open>
  Timers measure exactly. The time a started timer reports is the difference between the two readings of its
  source in nanoseconds, and its nanoseconds are again between 0 and $10^9$.
\<close>
theorem timer_elapsed_exact:
  assumes "timer_start sources s = Ret t"
    and "\<forall>a. timespec_ok (ts_now (sources a) (tk_priv s)) \<and> timespec_ok (ts_now (sources a) (tk_priv s'))"
  shows "\<exists>a. g_best_timesource s = Some a \<and> timespec_ok (timer_elapsed sources t s') \<and>
    to_ns (timer_elapsed sources t s') = to_ns (ts_now (sources a) (tk_priv s')) - to_ns (ts_now (sources a) (tk_priv s))"
proof -
  obtain a where a: "g_best_timesource s = Some a"
    using assms(1) by (auto simp: timer_start_def timekeep_get_best_timesource_def split: option.splits)
  then have t: "t = \<lparr>starting_ts = ts_now (sources a) (tk_priv s), now_fn = Some a\<rparr>"
    using assms(1) by (simp add: timer_start_def timekeep_get_best_timesource_def timer_now_def)
  show ?thesis
    using a assms(2) timer_diff_exact by (simp add: t timer_elapsed_def timer_now_def)
qed

text \<open>
  A source that stood at 1.9 seconds and now stands at 3.2 seconds: 1.3 seconds have passed.
\<close>
theorem timer_elapsed_exact_witness:
  "let src = (\<lambda>a :: addr. \<lparr>ts_name = ''pit'', priority = 100, ts_init = Pair (Inr ()), ts_destroy = Pair 0, ts_now = (\<lambda>x. x)\<rparr>);
       s = \<lparr>g_uptime_timer = TIMER_DORMANT, g_timesources = [8], g_best_timesource = Some 8,
            tk_priv = \<lparr>tv_sec = 1, tv_nsec = 900000000\<rparr>\<rparr>;
       s' = s\<lparr>tk_priv := \<lparr>tv_sec = 3, tv_nsec = 200000000\<rparr>\<rparr>
   in \<exists>t. timer_start src s = Ret t \<and> to_ns (timer_elapsed src t s') = 1300000000"
proof -
  let ?src = "\<lambda>a :: addr. \<lparr>ts_name = ''pit'', priority = 100, ts_init = Pair (Inr ()), ts_destroy = Pair 0, ts_now = (\<lambda>x. x)\<rparr>"
  let ?s = "\<lparr>g_uptime_timer = TIMER_DORMANT, g_timesources = [8 :: addr], g_best_timesource = Some 8,
            tk_priv = \<lparr>tv_sec = 1, tv_nsec = 900000000\<rparr>\<rparr>"
  let ?s' = "?s\<lparr>tk_priv := \<lparr>tv_sec = 3, tv_nsec = 200000000\<rparr>\<rparr>"
  obtain t where t: "timer_start ?src ?s = Ret t"
    by (simp add: timer_start_def timekeep_get_best_timesource_def)
  have "to_ns (timer_elapsed ?src t ?s') = 1300000000"
    using timer_elapsed_exact [of ?src ?s t ?s', OF t] by (simp add: timespec_ok_def to_ns_def)
  then show ?thesis using t by (auto simp: Let_def)
qed

text \<open>
  C40: \<open>sleep_ms\<close> asks for exactly the time it was given, for every 32-bit number of milliseconds: the wrap-around of
  its product and the truncation of its difference cancel out.
\<close>
theorem sleep_ms_request_exact:
  "timespec_ok (sleep_ms_request ms) \<and> to_ns (sleep_ms_request ms) = int ms * 1000000"
proof -
  let ?q = "int (ms div 1000)" and ?r = "int (ms mod 1000)"
  have ms: "int ms = ?q * 1000 + ?r" by (metis div_mult_mod_eq of_nat_add of_nat_mult of_nat_numeral)
  have r: "0 \<le> ?r * 1000000" "?r * 1000000 < 1000000000" by simp_all
  have "int (mul32 ms 1000000) = int ms * 1000000 - 4294967296 * (int ms * 1000000 div 4294967296)"
    by (simp add: mul32_def zmod_int minus_div_mult_eq_mod [symmetric] mult.commute)
  then have "int (mul32 ms 1000000) - ?q * 1000000000 = 4294967296 * (- (int ms * 1000000 div 4294967296)) + ?r * 1000000"
    using ms by (simp add: algebra_simps)
  then have "to_i32 (int (mul32 ms 1000000) - ?q * 1000000000) = ?r * 1000000"
    by (simp only:) (rule to_i32_mod; use r in linarith)
  then show ?thesis
    using ms r by (simp add: sleep_ms_request_def timespec_ok_def to_ns_def Let_def)
qed

text \<open>
  \<open>timekeep_init\<close> panics without a source, otherwise the uptime runs on a registered source of the highest priority.
\<close>
theorem timekeep_init_best:
  assumes "g_best_timesource s = None" and "g_timesources s \<noteq> []"
  shows "\<exists>s' a. timekeep_init sources s = Ret (Inr (), s') \<and> g_best_timesource s' = Some a \<and> a \<in> set (g_timesources s) \<and>
    (\<forall>b \<in> set (g_timesources s). priority (sources b) \<le> priority (sources a)) \<and> now_fn (g_uptime_timer s') = Some a"
proof -
  obtain b tss where l: "g_timesources s = b # tss" using assms(2) by (cases "g_timesources s") auto
  obtain c where c: "best_source sources (Some b) tss = Some c" using best_source_Some by blast
  show ?thesis
    using c best_source_max [OF c] assms(1)
    by (auto simp: timekeep_init_def l timer_start_def timekeep_get_best_timesource_def Let_def)
qed

end
