(* ===== verification/Ps2kbd.thy ===== *)
theory Ps2kbd
  imports Timekeep
begin

text \<open>
  The PS/2 keyboard driver, \<^verbatim>\<open>drivers/input/ps2kbd/ps2kbd.c\<close>: the interrupt handler that decodes scan code set 2
  into key events, the ring of the last 64 events, and the reading side, which finds the next event by its time.
  The handler gets the byte from the controller and the uptime as arguments. A read behind the end of a keycode
  table is a fault, the outcome \<open>Panic\<close>.
\<close>

section \<open>State\<close>

record InputEvent =
  ev_time :: timespec
  ev_action :: u8
  ev_value :: u32

record kbd =
  g_special_key :: bool
  g_release_modif :: bool
  g_ongoing_sequence :: bool
  g_sequence_count :: u8
  g_cached_events :: "InputEvent list"
  g_cached_event_idx :: nat

record LastReadInfo =
  info_idx :: nat
  info_time :: timespec

definition CACHED_EVENT_COUNT :: nat where "CACHED_EVENT_COUNT = 64"
definition KBD_KEY_PRESS :: u8 where "KBD_KEY_PRESS = 1"
definition KBD_KEY_RELEASE :: u8 where "KBD_KEY_RELEASE = 2"
definition KEY_SS :: u32 where "KEY_SS = 14"
definition KEY_BREAK :: u32 where "KEY_BREAK = 102"

text \<open>The entries of the two tables by scan code; the others are 0.\<close>

definition g_keycode_map :: "(nat \<times> u32) list" where
  "g_keycode_map =
    [(118, 1), (5, 2), (6, 3), (4, 4), (12, 5), (3, 6), (11, 7), (131, 8),
     (10, 9), (1, 10), (9, 11), (120, 12), (7, 13), (14, 16), (22, 17), (30, 18),
     (38, 19), (37, 20), (46, 21), (54, 22), (61, 23), (62, 24), (70, 25), (69, 26),
     (78, 27), (85, 28), (102, 29), (13, 31), (21, 32), (29, 33), (36, 34), (45, 35),
     (44, 36), (53, 37), (60, 38), (67, 39), (68, 40), (77, 41), (84, 42), (91, 43),
     (93, 44), (88, 46), (28, 47), (27, 48), (35, 49), (43, 50), (52, 51), (51, 52),
     (59, 53), (66, 54), (75, 55), (76, 56), (82, 57), (90, 58), (18, 60), (26, 61),
     (34, 62), (33, 63), (42, 64), (50, 65), (49, 66), (58, 67), (65, 68), (73, 69),
     (74, 70), (89, 71), (20, 74), (17, 76), (41, 77), (126, 84), (119, 85), (124, 86),
     (123, 87), (108, 88), (117, 89), (125, 90), (121, 91), (107, 92), (115, 93), (116, 94),
     (105, 95), (114, 96), (122, 97), (112, 98), (113, 99)]"

definition g_special_keycode_map :: "(nat \<times> u32) list" where
  "g_special_keycode_map =
    [(31, 75), (17, 78), (39, 83), (47, 255), (20, 79), (112, 255), (108, 59), (125, 30),
     (113, 15), (105, 73), (122, 45), (117, 72), (107, 80), (114, 81), (116, 82), (74, 100),
     (90, 101)]"

definition keycode :: "(nat \<times> u32) list \<Rightarrow> nat \<Rightarrow> u8 \<Rightarrow> u32 outcome" where
  "keycode m cap data =
     (if unat data \<ge> cap then Panic
      else Ret (case map_of m (unat data) of None \<Rightarrow> 0 | Some key \<Rightarrow> key))"

text \<open>The static variables at boot.\<close>

definition zero_event :: InputEvent where
  "zero_event = \<lparr>ev_time = \<lparr>tv_sec = 0, tv_nsec = 0\<rparr>, ev_action = 0, ev_value = 0\<rparr>"

definition kbd_boot :: kbd where
  "kbd_boot = \<lparr>g_special_key = False, g_release_modif = False, g_ongoing_sequence = False, g_sequence_count = 0,
               g_cached_events = replicate CACHED_EVENT_COUNT zero_event, g_cached_event_idx = 0\<rparr>"

section \<open>The ring of events\<close>

definition ps2kbd_cache_event :: "InputEvent \<Rightarrow> kbd \<Rightarrow> kbd" where
  "ps2kbd_cache_event ev k =
     (let i = (if g_cached_event_idx k \<ge> CACHED_EVENT_COUNT then 0 else g_cached_event_idx k)
      in k\<lparr>g_cached_events := (g_cached_events k)[i := ev], g_cached_event_idx := i + 1\<rparr>)"

text \<open>The two search loops, as the first hit among the indices in the order they are tried.\<close>

definition ps2kbd_earliest_event :: "kbd \<Rightarrow> timespec \<Rightarrow> nat \<Rightarrow> (InputEvent \<times> nat) option" where
  "ps2kbd_earliest_event k ts idx =
     map_option (\<lambda>i. (g_cached_events k ! i, i))
       (find (\<lambda>i. TIMESPEC_IS_FIRST_BIGGER (ev_time (g_cached_events k ! i)) ts)
          ([idx..<CACHED_EVENT_COUNT] @ [0..<idx]))"

section \<open>The interrupt handler\<close>

definition sequence_byte :: "timespec \<Rightarrow> u8 \<Rightarrow> kbd \<Rightarrow> kbd" where
  "sequence_byte now data k0 =
     (let k = k0\<lparr>g_sequence_count := g_sequence_count k0 + 1\<rparr> in
      if g_sequence_count k = 8 then
        let k1 = k\<lparr>g_sequence_count := 0, g_ongoing_sequence := False\<rparr> in
        if data = 0x77 then
          ps2kbd_cache_event \<lparr>ev_time = now, ev_action = KBD_KEY_RELEASE, ev_value = KEY_BREAK\<rparr>
            (ps2kbd_cache_event \<lparr>ev_time = now, ev_action = KBD_KEY_PRESS, ev_value = KEY_BREAK\<rparr> k1)
        else k1
      else if g_sequence_count k = 6 \<and> data = 0x12 then
        ps2kbd_cache_event \<lparr>ev_time = now, ev_action = KBD_KEY_RELEASE, ev_value = KEY_SS\<rparr>
          (k\<lparr>g_sequence_count := 0, g_ongoing_sequence := False, g_special_key := False, g_release_modif := False\<rparr>)
      else if g_sequence_count k = 4 \<and> data = 0x7C then
        ps2kbd_cache_event \<lparr>ev_time = now, ev_action = KBD_KEY_PRESS, ev_value = KEY_SS\<rparr>
          (k\<lparr>g_sequence_count := 0, g_ongoing_sequence := False, g_special_key := False\<rparr>)
      else k)"

definition key_byte :: "timespec \<Rightarrow> u8 \<Rightarrow> kbd \<Rightarrow> kbd outcome" where
  "key_byte now data k =
     bind_outcome (if g_special_key k then keycode g_special_keycode_map 126 data else keycode g_keycode_map 132 data)
       (\<lambda>key. Ret
          ((ps2kbd_cache_event
             \<lparr>ev_time = now, ev_action = (if g_release_modif k then KBD_KEY_RELEASE else KBD_KEY_PRESS), ev_value = key\<rparr> k)
             \<lparr>g_special_key := False, g_release_modif := False\<rparr>))"

definition kbd_isr :: "timespec \<Rightarrow> u8 \<Rightarrow> kbd \<Rightarrow> kbd outcome" where
  "kbd_isr now data k =
     (if g_ongoing_sequence k then Ret (sequence_byte now data k)
      else if data = 0xE1 then Ret (k\<lparr>g_ongoing_sequence := True, g_sequence_count := 1\<rparr>)
      else if data = 0xE0 then Ret (k\<lparr>g_special_key := True\<rparr>)
      else if data = 0xF0 then Ret (k\<lparr>g_release_modif := True\<rparr>)
      else if data = 0x12 \<and> g_special_key k then Ret (k\<lparr>g_ongoing_sequence := True, g_sequence_count := 2\<rparr>)
      else if (data = 0x12 \<or> data = 0x7C) \<and> g_special_key k \<and> g_release_modif k
        then Ret (k\<lparr>g_ongoing_sequence := True, g_sequence_count := 3\<rparr>)
      else key_byte now data k)"

fun kbd_run :: "(timespec \<times> u8) list \<Rightarrow> kbd \<Rightarrow> kbd outcome" where
  "kbd_run [] k = Ret k"
| "kbd_run ((now, data) # bs) k = bind_outcome (kbd_isr now data k) (kbd_run bs)"

section \<open>The device file\<close>

text \<open>\<open>info\<close> is the allocation for \<open>LastReadInfo\<close>, or \<open>None\<close> when there was no memory.\<close>

definition ps2kbd_vnode_open :: "timespec \<Rightarrow> bool \<Rightarrow> LastReadInfo result" where
  "ps2kbd_vnode_open uptime allocated =
     (if \<not> allocated then Inl ENOMEM else Inr \<lparr>info_idx = 0, info_time = uptime\<rparr>)"

definition read_one :: "kbd \<Rightarrow> LastReadInfo \<Rightarrow> (InputEvent \<times> LastReadInfo) option" where
  "read_one k info =
     (case ps2kbd_earliest_event k (info_time info) (info_idx info) of
        None \<Rightarrow> None
      | Some (ev, i) \<Rightarrow> Some (ev, info\<lparr>info_time := ev_time ev, info_idx := i\<rparr>))"

text \<open>
  The reading loop. Each element of the first argument is what the keyboard sends during one call of
  \<open>procm_sched_yield\<close>; when they are used up the reader is still waiting, \<open>Ret None\<close>. The result lists the events in
  the order they are copied to user memory, each to the start of the buffer.
\<close>

function read_loop ::
    "(timespec \<times> u8) list list \<Rightarrow> nat \<Rightarrow> InputEvent list \<Rightarrow> LastReadInfo \<Rightarrow> kbd \<Rightarrow> (InputEvent list \<times> LastReadInfo \<times> kbd) option outcome" where
  "read_loop waits 0 copied info k = Ret (Some (copied, info, k))"
| "read_loop waits (Suc left) copied info k =
     (case read_one k info of
        Some (ev, info1) \<Rightarrow> read_loop waits left (copied @ [ev]) info1 k
      | None \<Rightarrow>
          (case waits of
             [] \<Rightarrow> Ret None
           | bs # ws \<Rightarrow> (case kbd_run bs k of Panic \<Rightarrow> Panic | Ret k1 \<Rightarrow> read_loop ws (Suc left) copied info k1)))"
  by pat_completeness auto
termination by (relation "measure (\<lambda>(waits, left, copied, info, k). length waits + left)") auto

definition sizeof_InputEvent :: nat where "sizeof_InputEvent = 20"

definition ps2kbd_vnode_read ::
    "(timespec \<times> u8) list list \<Rightarrow> nat \<Rightarrow> LastReadInfo \<Rightarrow> kbd \<Rightarrow> ((nat \<times> InputEvent list) result \<times> LastReadInfo \<times> kbd) option outcome" where
  "ps2kbd_vnode_read waits n info k =
     (if n mod sizeof_InputEvent \<noteq> 0 then Ret (Some (Inl EINVAL, info, k))
      else bind_outcome (read_loop waits (n div sizeof_InputEvent) [] info k)
        (\<lambda>r. Ret (map_option (\<lambda>(copied, info1, k1). (Inr (n, copied), info1, k1)) r)))"

definition ps2kbd_vnode_write :: "nat result" where "ps2kbd_vnode_write = Inl EINVAL"
definition ps2kbd_vnode_ioctl :: "nat result" where "ps2kbd_vnode_ioctl = Inl EINVAL"
definition ps2kbd_vnode_mmap :: addr where "ps2kbd_vnode_mmap = 0"

section \<open>The keyboard and a reader as a state machine\<close>

inductive kbd_reach :: "kbd \<Rightarrow> LastReadInfo \<Rightarrow> InputEvent list \<Rightarrow> bool" where
  boot: "ps2kbd_vnode_open uptime True = Inr info \<Longrightarrow> kbd_reach kbd_boot info []"
| isr: "kbd_reach k info copied \<Longrightarrow> kbd_isr now data k = Ret k1 \<Longrightarrow> kbd_reach k1 info copied"
| read: "kbd_reach k info copied \<Longrightarrow> read_one k info = Some (ev, info1) \<Longrightarrow> kbd_reach k info1 (copied @ [ev])"

end
