(* ===== verification/Ps2kbdProps.thy ===== *)
theory Ps2kbdProps
  imports Ps2kbd
begin

text \<open>
  Properties of the keyboard driver: the decoder reads back every sequence of key strokes, its state stays
  well-formed whatever the keyboard sends, readers get the events in order and each at most once.
\<close>

section \<open>Well-formed states\<close>

definition kbd_ok :: "kbd \<Rightarrow> bool" where
  "kbd_ok k \<longleftrightarrow> length (g_cached_events k) = CACHED_EVENT_COUNT \<and> g_cached_event_idx k \<le> CACHED_EVENT_COUNT
     \<and> (if g_ongoing_sequence k then 1 \<le> g_sequence_count k \<and> g_sequence_count k < 8 else g_sequence_count k = 0)"

definition info_ok :: "LastReadInfo \<Rightarrow> bool" where
  "info_ok info \<longleftrightarrow> info_idx info < CACHED_EVENT_COUNT"

lemma cache_event_facts [simp]:
  "g_special_key (ps2kbd_cache_event ev k) = g_special_key k"
  "g_release_modif (ps2kbd_cache_event ev k) = g_release_modif k"
  "g_ongoing_sequence (ps2kbd_cache_event ev k) = g_ongoing_sequence k"
  "g_sequence_count (ps2kbd_cache_event ev k) = g_sequence_count k"
  "length (g_cached_events (ps2kbd_cache_event ev k)) = length (g_cached_events k)"
  by (simp_all add: ps2kbd_cache_event_def Let_def)

lemma cache_event_idx: "g_cached_event_idx (ps2kbd_cache_event ev k) \<le> CACHED_EVENT_COUNT"
  by (simp add: ps2kbd_cache_event_def Let_def CACHED_EVENT_COUNT_def)

lemma cache_event_ok [simp]: "kbd_ok k \<Longrightarrow> kbd_ok (ps2kbd_cache_event ev k)"
  by (simp add: kbd_ok_def cache_event_idx)

lemma count_step:
  fixes c :: u8
  assumes "1 \<le> c" "c < 8" "c + 1 \<noteq> 8"
  shows "1 \<le> c + 1 \<and> c + 1 < 8"
proof -
  have c: "1 \<le> unat c" "unat c < 8" using assms by (simp_all add: word_le_nat_alt word_less_nat_alt)
  then have u: "unat (c + 1) = unat c + 1" by (simp add: unat_word_ariths)
  moreover have "unat (c + 1) \<noteq> 8" using assms(3) by (auto simp: word_unat_eq_iff)
  ultimately show ?thesis using c by (simp add: word_le_nat_alt word_less_nat_alt)
qed

lemma sequence_byte_ok:
  assumes "kbd_ok k" and "g_ongoing_sequence k"
  shows "kbd_ok (sequence_byte now data k)"
proof -
  have c: "1 \<le> g_sequence_count k" "g_sequence_count k < 8" using assms by (simp_all add: kbd_ok_def)
  show ?thesis
    using assms count_step [OF c] by (auto simp: sequence_byte_def Let_def kbd_ok_def cache_event_idx)
qed

lemma kbd_isr_ok:
  assumes "kbd_ok k" and "kbd_isr now data k = Ret k1"
  shows "kbd_ok k1"
proof (cases "g_ongoing_sequence k")
  case True
  then show ?thesis using assms sequence_byte_ok [of k now data] by (auto simp: kbd_isr_def)
next
  case False
  then show ?thesis using assms
    by (auto simp: kbd_isr_def key_byte_def bind_outcome_Ret_iff kbd_ok_def cache_event_idx split: if_splits)
qed

lemma kbd_boot_ok: "kbd_ok kbd_boot"
  by (simp add: kbd_ok_def kbd_boot_def)

lemma read_one_some:
  assumes "read_one k info = Some (ev, info1)" and "info_ok info"
  shows "info_ok info1 \<and> info_time info1 = ev_time ev \<and> TIMESPEC_MS (info_time info) < TIMESPEC_MS (ev_time ev)
    \<and> ev = g_cached_events k ! info_idx info1"
proof -
  obtain i where f: "find (\<lambda>i. TIMESPEC_IS_FIRST_BIGGER (ev_time (g_cached_events k ! i)) (info_time info))
      ([info_idx info..<CACHED_EVENT_COUNT] @ [0..<info_idx info]) = Some i"
    and ev: "ev = g_cached_events k ! i" "info1 = info\<lparr>info_time := ev_time ev, info_idx := i\<rparr>"
    using assms(1) by (auto simp: read_one_def ps2kbd_earliest_event_def split: option.splits)
  have "i \<in> set ([info_idx info..<CACHED_EVENT_COUNT] @ [0..<info_idx info])"
    using f by (metis find_Some_iff nth_mem)
  moreover have "TIMESPEC_IS_FIRST_BIGGER (ev_time (g_cached_events k ! i)) (info_time info)"
    using f by (auto simp: find_Some_iff)
  ultimately show ?thesis using ev assms(2) by (auto simp: info_ok_def TIMESPEC_IS_FIRST_BIGGER_def)
qed

lemma reach_invariant:
  "kbd_reach k info copied \<Longrightarrow> kbd_ok k \<and> info_ok info \<and>
     sorted_wrt (\<lambda>a b. TIMESPEC_MS (ev_time a) < TIMESPEC_MS (ev_time b)) copied \<and>
     (\<forall>ev \<in> set copied. TIMESPEC_MS (ev_time ev) \<le> TIMESPEC_MS (info_time info))"
proof (induction rule: kbd_reach.induct)
  case (boot uptime info)
  then show ?case by (auto simp: kbd_boot_ok ps2kbd_vnode_open_def info_ok_def CACHED_EVENT_COUNT_def)
next
  case (isr k info copied now data k1)
  then show ?case using kbd_isr_ok by blast
next
  case (read k info copied ev info1)
  then show ?case using read_one_some [OF read(2)] by (fastforce simp: sorted_wrt_append)
qed

section \<open>Key strokes\<close>

text \<open>
  What a keyboard sends in scan code set 2: a key is one code, or one behind \<open>0xE0\<close>; a release has \<open>0xF0\<close> in front
  of the code. Print screen and pause have sequences of their own, and pause has no release.
\<close>

datatype kkey = Plain u8 | Extended u8 | PrintScreen
datatype stroke = Press kkey | Release kkey | PauseBreak

fun scancode :: "stroke \<Rightarrow> u8 list" where
  "scancode (Press (Plain c)) = [c]"
| "scancode (Release (Plain c)) = [0xF0, c]"
| "scancode (Press (Extended c)) = [0xE0, c]"
| "scancode (Release (Extended c)) = [0xE0, 0xF0, c]"
| "scancode (Press PrintScreen) = [0xE0, 0x12, 0xE0, 0x7C]"
| "scancode (Release PrintScreen) = [0xE0, 0xF0, 0x7C, 0xE0, 0xF0, 0x12]"
| "scancode PauseBreak = [0xE1, 0x14, 0x77, 0xE1, 0xF0, 0x14, 0xF0, 0x77]"

fun key_ok :: "kkey \<Rightarrow> bool" where
  "key_ok (Plain c) \<longleftrightarrow> unat c < 132"
| "key_ok (Extended c) \<longleftrightarrow> unat c < 126 \<and> c \<noteq> 0x12 \<and> c \<noteq> 0x7C"
| "key_ok PrintScreen \<longleftrightarrow> True"

fun stroke_ok :: "stroke \<Rightarrow> bool" where
  "stroke_ok (Press key) \<longleftrightarrow> key_ok key"
| "stroke_ok (Release key) \<longleftrightarrow> key_ok key"
| "stroke_ok PauseBreak \<longleftrightarrow> True"

fun key_value :: "kkey \<Rightarrow> u32" where
  "key_value (Plain c) = (case map_of g_keycode_map (unat c) of None \<Rightarrow> 0 | Some v \<Rightarrow> v)"
| "key_value (Extended c) = (case map_of g_special_keycode_map (unat c) of None \<Rightarrow> 0 | Some v \<Rightarrow> v)"
| "key_value PrintScreen = KEY_SS"

fun stroke_events :: "stroke \<Rightarrow> timespec \<Rightarrow> InputEvent list" where
  "stroke_events (Press key) t = [\<lparr>ev_time = t, ev_action = KBD_KEY_PRESS, ev_value = key_value key\<rparr>]"
| "stroke_events (Release key) t = [\<lparr>ev_time = t, ev_action = KBD_KEY_RELEASE, ev_value = key_value key\<rparr>]"
| "stroke_events PauseBreak t =
     [\<lparr>ev_time = t, ev_action = KBD_KEY_PRESS, ev_value = KEY_BREAK\<rparr>, \<lparr>ev_time = t, ev_action = KBD_KEY_RELEASE, ev_value = KEY_BREAK\<rparr>]"

text \<open>The bytes of a stroke, each with the uptime at its interrupt.\<close>

definition arrives :: "(timespec \<times> u8) list \<Rightarrow> stroke \<Rightarrow> bool" where
  "arrives bs st \<longleftrightarrow> map snd bs = scancode st \<and> stroke_ok st"

definition idle :: "kbd \<Rightarrow> bool" where
  "idle k \<longleftrightarrow> \<not> g_special_key k \<and> \<not> g_release_modif k \<and> \<not> g_ongoing_sequence k \<and> g_sequence_count k = 0"

lemma idle_fold: "idle k \<Longrightarrow> idle (fold ps2kbd_cache_event evs k)"
  by (induction evs arbitrary: k) (simp_all add: idle_def)

lemma plain_codes:
  fixes c :: u8
  assumes "unat c < 132"
  shows "c \<noteq> 0xE1" "c \<noteq> 0xE0" "c \<noteq> 0xF0"
  using assms by auto

lemma map_snd_Cons: "map snd bs = d # ds \<longleftrightarrow> (\<exists>t cs. bs = (t, d) # cs \<and> map snd cs = ds)"
  by (cases bs) auto

lemma cache_commute:
  "(ps2kbd_cache_event ev (k\<lparr>g_special_key := a, g_release_modif := b\<rparr>)) = (ps2kbd_cache_event ev k)\<lparr>g_special_key := a, g_release_modif := b\<rparr>"
  by (simp add: ps2kbd_cache_event_def Let_def)

lemma kbd_stroke:
  assumes "idle k" and "arrives bs st"
  shows "kbd_run bs k = Ret (fold ps2kbd_cache_event (stroke_events st (fst (last bs))) k)"
proof -
  note defs = kbd_isr_def key_byte_def sequence_byte_def keycode_def ps2kbd_cache_event_def Let_def
  note a = assms(2) [unfolded arrives_def]
  obtain i evs where k: "k = \<lparr>g_special_key = False, g_release_modif = False, g_ongoing_sequence = False, g_sequence_count = 0,
      g_cached_events = evs, g_cached_event_idx = i\<rparr>"
    using assms(1) by (cases k) (simp add: idle_def)
  show ?thesis
  proof (cases st)
    case (Press key)
    then show ?thesis using a plain_codes
      by (cases key) (auto simp: k map_snd_Cons defs)
  next
    case (Release key)
    then show ?thesis using a plain_codes
      by (cases key) (auto simp: k map_snd_Cons defs)
  next
    case PauseBreak
    then show ?thesis using a by (auto simp: k map_snd_Cons defs)
  qed
qed

lemma kbd_run_append: "kbd_run (as @ bs) k = bind_outcome (kbd_run as k) (kbd_run bs)"
proof (induction as arbitrary: k)
  case (Cons a as)
  show ?case by (cases a; cases "kbd_isr (fst a) (snd a) k") (use Cons in auto)
qed simp

lemma kbd_strokes:
  assumes "idle k" and "list_all2 arrives bss sts"
  shows "kbd_run (concat bss) k =
    Ret (fold ps2kbd_cache_event (concat (map2 (\<lambda>bs st. stroke_events st (fst (last bs))) bss sts)) k)"
  using assms(2,1)
proof (induction arbitrary: k rule: list_all2_induct)
  case (Cons bs bss st sts)
  show ?case
    using Cons.IH [OF idle_fold [OF Cons.prems]] kbd_stroke [OF Cons.prems Cons.hyps(1)] by (simp add: kbd_run_append)
qed simp

section \<open>The ring\<close>

definition ring_after :: "InputEvent list \<Rightarrow> kbd" where
  "ring_after h = fold ps2kbd_cache_event h kbd_boot"

lemma ring_after_snoc: "ring_after (h @ [ev]) = ps2kbd_cache_event ev (ring_after h)"
  by (simp add: ring_after_def)

lemma ring_idx: "g_cached_event_idx (ring_after h) = (if h = [] then 0 else (length h - 1) mod 64 + 1)"
proof (induction h rule: rev_induct)
  case (snoc ev h)
  have "g_cached_event_idx (ring_after (h @ [ev])) =
      (if g_cached_event_idx (ring_after h) \<ge> 64 then 0 else g_cached_event_idx (ring_after h)) + 1"
    by (simp only: ring_after_snoc) (simp add: ps2kbd_cache_event_def Let_def CACHED_EVENT_COUNT_def)
  then show ?case using snoc by (cases h) (auto simp: mod_Suc)
qed (simp add: ring_after_def kbd_boot_def)

lemma ring_next: "(if g_cached_event_idx (ring_after h) \<ge> CACHED_EVENT_COUNT then 0 else g_cached_event_idx (ring_after h)) = length h mod 64"
  by (cases h) (auto simp: ring_idx CACHED_EVENT_COUNT_def mod_Suc)

lemma ring_length: "length (g_cached_events (ring_after h)) = 64"
  by (induction h rule: rev_induct) (simp_all add: ring_after_snoc, simp add: ring_after_def kbd_boot_def CACHED_EVENT_COUNT_def)

lemma ring_events: "g_cached_events (ring_after (h @ [ev])) = (g_cached_events (ring_after h))[length h mod 64 := ev]"
  using ring_next [of h] by (simp add: ring_after_snoc ps2kbd_cache_event_def Let_def)

lemma ring_holds:
  "m < length h \<Longrightarrow> length h \<le> m + 64 \<Longrightarrow> g_cached_events (ring_after h) ! (m mod 64) = h ! m"
proof (induction h rule: rev_induct)
  case (snoc ev h)
  show ?case
  proof (cases "m = length h")
    case True
    then show ?thesis by (simp add: ring_events ring_length nth_list_update)
  next
    case False
    then have m: "m < length h" using snoc.prems by simp
    have "m mod 64 \<noteq> length h mod 64"
    proof
      assume "m mod 64 = length h mod 64"
      then have "64 dvd length h - m" using m mod_eq_dvd_iff_nat [of m "length h" 64] by simp
      then have "64 \<le> length h - m" using m by (intro dvd_imp_le) simp_all
      then show False using snoc.prems by simp
    qed
    then show ?thesis using snoc m by (simp add: ring_events nth_list_update nth_append)
  qed
qed simp

lemma ring_slot: "i < 64 \<Longrightarrow> g_cached_events (ring_after h) ! i \<in> insert zero_event (set h)"
proof (induction h rule: rev_induct)
  case (snoc ev h)
  then show ?case by (auto simp: ring_events nth_list_update ring_length)
qed (simp add: ring_after_def kbd_boot_def CACHED_EVENT_COUNT_def)

lemma find_cyclic:
  assumes "i < 64" and "\<not> P i"
  shows "find P ([i..<64] @ [0..<i]) = find P ([Suc i..<64] @ [0..<i])"
  using assms by (simp add: upt_conv_Cons)

lemma next_slot:
  assumes "i < (64 :: nat)" and "\<not> P i" and "P (Suc i mod 64)"
  shows "find P ([i..<64] @ [0..<i]) = Some (Suc i mod 64)"
proof (cases "Suc i = 64")
  case True
  then have "[0..<i] = 0 # [1..<i]" by (simp add: upt_conv_Cons)
  then show ?thesis using find_cyclic [where P = P and i = i] assms(1,2) assms(3) True by simp
next
  case False
  then have "[Suc i..<64] = Suc i # [Suc (Suc i)..<64]" using assms(1) by (intro upt_conv_Cons) simp
  moreover have "Suc i mod 64 = Suc i" using assms(1) False by simp
  ultimately show ?thesis using find_cyclic [where P = P and i = i] assms(1,2) assms(3) by simp
qed

section \<open>Properties\<close>

text \<open>
  C24: the state of the driver is well-formed whatever bytes arrive and whatever is read: the ring has its 64 slots, its
  cursor and the positions of the readers lie in it, and a started sequence has seen between one and seven bytes, so
  that it ends with its eighth byte at the latest.
\<close>
theorem kbd_reach_typed:
  assumes "kbd_reach k info copied"
  shows "length (g_cached_events k) = 64 \<and> g_cached_event_idx k \<le> 64 \<and> info_idx info < 64 \<and>
    (if g_ongoing_sequence k then 1 \<le> g_sequence_count k \<and> g_sequence_count k < 8 else g_sequence_count k = 0)"
  using reach_invariant [OF assms] by (simp add: kbd_ok_def info_ok_def CACHED_EVENT_COUNT_def)

text \<open>
  The first byte of the pause key, after boot.
\<close>
theorem kbd_reach_typed_witness:
  "\<exists>k. kbd_isr \<lparr>tv_sec = 5, tv_nsec = 0\<rparr> 0xE1 kbd_boot = Ret k \<and> g_ongoing_sequence k \<and> length (g_cached_events k) = 64 \<and>
     g_cached_event_idx k \<le> 64 \<and> 1 \<le> g_sequence_count k \<and> g_sequence_count k < 8"
proof -
  let ?k = "kbd_boot\<lparr>g_ongoing_sequence := True, g_sequence_count := 1\<rparr>"
  have i: "kbd_isr \<lparr>tv_sec = 5, tv_nsec = 0\<rparr> 0xE1 kbd_boot = Ret ?k"
    by (simp add: kbd_isr_def kbd_boot_def)
  have "kbd_reach kbd_boot \<lparr>info_idx = 0, info_time = \<lparr>tv_sec = 5, tv_nsec = 0\<rparr>\<rparr> []"
    by (rule kbd_reach.boot [of "\<lparr>tv_sec = 5, tv_nsec = 0\<rparr>"]) (simp add: ps2kbd_vnode_open_def)
  then have "kbd_reach ?k \<lparr>info_idx = 0, info_time = \<lparr>tv_sec = 5, tv_nsec = 0\<rparr>\<rparr> []"
    using i by (rule kbd_reach.isr)
  from kbd_reach_typed [OF this] show ?thesis using i by simp
qed

definition at_sec :: "int \<Rightarrow> timespec" where
  "at_sec n = \<lparr>tv_sec = n, tv_nsec = 0\<rparr>"

text \<open>
  C23: the decoder inverts the keyboard's encoding. From an idle state, the bytes of any sequence of key strokes leave
  exactly the events of these strokes in the ring, in order and each with the time of its last byte, and nothing else
  has changed.
\<close>
theorem kbd_decodes_strokes:
  assumes "idle k" and "list_all2 arrives bss sts"
  shows "kbd_run (concat bss) k =
    Ret (fold ps2kbd_cache_event (concat (map2 (\<lambda>bs st. stroke_events st (fst (last bs))) bss sts)) k)"
  by (rule kbd_strokes [OF assms])

text \<open>
  Pressing A, releasing it and pressing the right arrow key.
\<close>
theorem kbd_decodes_strokes_witness:
  "kbd_run [(at_sec 10, 0x1C), (at_sec 20, 0xF0), (at_sec 21, 0x1C), (at_sec 30, 0xE0), (at_sec 31, 0x74)] kbd_boot =
     Ret (fold ps2kbd_cache_event [\<lparr>ev_time = at_sec 10, ev_action = 1, ev_value = 0x2F\<rparr>, \<lparr>ev_time = at_sec 21, ev_action = 2, ev_value = 0x2F\<rparr>,
       \<lparr>ev_time = at_sec 31, ev_action = 1, ev_value = 0x52\<rparr>] kbd_boot)"
proof -
  have "kbd_run (concat [[(at_sec 10, 0x1C)], [(at_sec 20, 0xF0), (at_sec 21, 0x1C)], [(at_sec 30, 0xE0), (at_sec 31, 0x74)]]) kbd_boot =
      Ret (fold ps2kbd_cache_event (concat (map2 (\<lambda>bs st. stroke_events st (fst (last bs)))
        [[(at_sec 10, 0x1C :: u8)], [(at_sec 20, 0xF0), (at_sec 21, 0x1C)], [(at_sec 30, 0xE0), (at_sec 31, 0x74)]]
        [Press (Plain 0x1C), Release (Plain 0x1C), Press (Extended 0x74)])) kbd_boot)"
    by (rule kbd_decodes_strokes) (simp_all add: idle_def kbd_boot_def arrives_def)
  then show ?thesis
    by (simp add: KBD_KEY_PRESS_def KBD_KEY_RELEASE_def g_keycode_map_def g_special_keycode_map_def del: fold.simps kbd_run.simps)
qed

text \<open>
  Readers are served in order. A reader that was given event number \<open>m\<close> and asks again before the ring has
  overwritten that event gets exactly event number \<open>m + 1\<close>, or nothing while there is none. The events must be at
  least a millisecond apart.
\<close>
theorem ps2kbd_reads_in_order:
  assumes "sorted_wrt (\<lambda>a b. TIMESPEC_MS (ev_time a) < TIMESPEC_MS (ev_time b)) h"
    and "\<forall>ev \<in> set h. 0 \<le> TIMESPEC_MS (ev_time ev)" and "m < length h" and "length h \<le> m + 64"
  shows "read_one (ring_after h) \<lparr>info_idx = m mod 64, info_time = ev_time (h ! m)\<rparr> =
    (if m + 1 < length h then Some (h ! (m + 1), \<lparr>info_idx = (m + 1) mod 64, info_time = ev_time (h ! (m + 1))\<rparr>) else None)"
proof -
  let ?E = "g_cached_events (ring_after h)"
  let ?P = "\<lambda>i. TIMESPEC_IS_FIRST_BIGGER (ev_time (?E ! i)) (ev_time (h ! m))"
  have e: "?E ! (m mod 64) = h ! m" by (rule ring_holds [OF assms(3,4)])
  then have np: "\<not> ?P (m mod 64)" by (simp add: TIMESPEC_IS_FIRST_BIGGER_def)
  show ?thesis
  proof (cases "m + 1 < length h")
    case True
    then have e1: "?E ! (Suc (m mod 64) mod 64) = h ! (m + 1)"
      using ring_holds [of "m + 1" h] assms(4) by (simp add: mod_Suc_eq)
    have "TIMESPEC_MS (ev_time (h ! m)) < TIMESPEC_MS (ev_time (h ! (m + 1)))"
      using assms(1) True by (intro sorted_wrt_nth_less [OF assms(1)]) simp_all
    then have "?P (Suc (m mod 64) mod 64)" by (simp only: e1) (simp add: TIMESPEC_IS_FIRST_BIGGER_def)
    then have "find ?P ([m mod 64..<64] @ [0..<m mod 64]) = Some (Suc (m mod 64) mod 64)"
      using np by (intro next_slot) simp_all
    then show ?thesis using True e1
      by (simp add: read_one_def ps2kbd_earliest_event_def CACHED_EVENT_COUNT_def mod_Suc_eq)
  next
    case False
    then have m: "m = length h - 1" using assms(3) by simp
    have le: "TIMESPEC_MS (ev_time ev) \<le> TIMESPEC_MS (ev_time (h ! m))" if "ev \<in> set h" for ev
    proof -
      obtain j where j: "j < length h" "ev = h ! j" using \<open>ev \<in> set h\<close> by (auto simp: in_set_conv_nth)
      then have "j < m \<or> j = m" using m by auto
      then show ?thesis using sorted_wrt_nth_less [OF assms(1) _ assms(3), of j] j by auto
    qed
    have "TIMESPEC_MS (ev_time zero_event) \<le> TIMESPEC_MS (ev_time (h ! m))"
      using assms(2,3) by (simp add: zero_event_def TIMESPEC_MS_def)
    then have "\<not> ?P i" if "i < 64" for i
      using le ring_slot [OF that, of h] by (auto simp: TIMESPEC_IS_FIRST_BIGGER_def not_less)
    then have "find ?P ([m mod 64..<64] @ [0..<m mod 64]) = None"
      using mod_less_divisor [of 64 m] by (auto simp: find_None_iff)
    then show ?thesis using False by (simp add: read_one_def ps2kbd_earliest_event_def CACHED_EVENT_COUNT_def)
  qed
qed

text \<open>
  Two events, one and two seconds after boot; the reader has had the first one.
\<close>
theorem ps2kbd_reads_in_order_witness:
  "let e = (\<lambda>t. \<lparr>ev_time = \<lparr>tv_sec = t, tv_nsec = 0\<rparr>, ev_action = 1, ev_value = 47\<rparr>)
   in read_one (ring_after [e 1, e 2]) \<lparr>info_idx = 0, info_time = \<lparr>tv_sec = 1, tv_nsec = 0\<rparr>\<rparr> =
        Some (e 2, \<lparr>info_idx = 1, info_time = \<lparr>tv_sec = 2, tv_nsec = 0\<rparr>\<rparr>)"
proof -
  let ?e = "\<lambda>t. \<lparr>ev_time = \<lparr>tv_sec = t, tv_nsec = 0\<rparr>, ev_action = 1, ev_value = 47\<rparr>"
  show ?thesis
    using ps2kbd_reads_in_order [of "[?e 1, ?e 2]" 0] by (simp add: TIMESPEC_MS_def Let_def)
qed

text \<open>
  No event is delivered twice or out of order. Whatever the keyboard sends between the reads, the times of the
  events that a reader is given increase strictly, by the millisecond. Two events of the same millisecond, as the
  press and the release that the pause key always makes, therefore never both reach a reader.
\<close>
theorem ps2kbd_delivers_once:
  assumes "kbd_reach k info copied"
  shows "sorted_wrt (\<lambda>a b. TIMESPEC_MS (ev_time a) < TIMESPEC_MS (ev_time b)) copied"
  using reach_invariant [OF assms] by simp

text \<open>
  A key is pressed one second after the reader has opened the device, and read.
\<close>
theorem ps2kbd_delivers_once_witness:
  "\<exists>k info ev. kbd_reach k info [ev] \<and> ev_value ev = 0x2F \<and> sorted_wrt (\<lambda>a b. TIMESPEC_MS (ev_time a) < TIMESPEC_MS (ev_time b)) [ev]"
proof -
  let ?i = "\<lparr>info_idx = 0, info_time = \<lparr>tv_sec = 5, tv_nsec = 0\<rparr>\<rparr>"
  let ?ev = "\<lparr>ev_time = \<lparr>tv_sec = 6, tv_nsec = 0\<rparr>, ev_action = 1, ev_value = 0x2F\<rparr>"
  have isr: "kbd_isr \<lparr>tv_sec = 6, tv_nsec = 0\<rparr> 0x1C kbd_boot = Ret (ps2kbd_cache_event ?ev kbd_boot)"
    by (simp add: kbd_isr_def key_byte_def keycode_def kbd_boot_def g_keycode_map_def ps2kbd_cache_event_def KBD_KEY_PRESS_def)
  have "read_one (ps2kbd_cache_event ?ev kbd_boot) ?i = Some (?ev, ?i\<lparr>info_time := ev_time ?ev\<rparr>)"
    by (simp add: read_one_def ps2kbd_earliest_event_def ps2kbd_cache_event_def kbd_boot_def CACHED_EVENT_COUNT_def Let_def
        upt_conv_Cons TIMESPEC_IS_FIRST_BIGGER_def TIMESPEC_MS_def)
  moreover have "kbd_reach kbd_boot ?i []"
    by (rule kbd_reach.boot [of "\<lparr>tv_sec = 5, tv_nsec = 0\<rparr>"]) (simp add: ps2kbd_vnode_open_def)
  ultimately have "kbd_reach (ps2kbd_cache_event ?ev kbd_boot) (?i\<lparr>info_time := ev_time ?ev\<rparr>) ([] @ [?ev])"
    using isr by (blast intro: kbd_reach.intros)
  from this ps2kbd_delivers_once [OF this] show ?thesis by force
qed

text \<open>
  The answers of the keyboard to commands are not key codes: an acknowledgement that arrives at the handler makes it
  read behind the end of the table.
\<close>

lemma kbd_ack_out_of_bounds: "idle k \<Longrightarrow> kbd_isr now 0xFA k = Panic"
  by (simp add: idle_def kbd_isr_def key_byte_def keycode_def)

end
