(* ===== verification/Bytes.thy ===== *)
theory Bytes
  imports Prelude
begin

text \<open>
  Little-endian fields of on-disk structures: what reading a \<open>u16\<close> or \<open>u32\<close> member of a packed structure gives
  when the structure lies over a buffer of bytes.
\<close>

definition le16 :: "u8 list \<Rightarrow> nat \<Rightarrow> u16" where
  "le16 bs i = word_cat (bs ! (i + 1)) (bs ! i)"

definition le32 :: "u8 list \<Rightarrow> nat \<Rightarrow> u32" where
  "le32 bs i = word_cat (le16 bs (i + 2)) (le16 bs i)"

definition slice :: "nat \<Rightarrow> nat \<Rightarrow> u8 list \<Rightarrow> u8 list" where
  "slice i n bs = take n (drop i bs)"

lemma le16_drop: "k + i + 1 < length bs \<Longrightarrow> le16 (drop k bs) i = le16 bs (k + i)"
  by (simp add: le16_def)

lemma length_slice [simp]: "i + n \<le> length bs \<Longrightarrow> length (slice i n bs) = n"
  by (simp add: slice_def)

lemma slice_nth [simp]: "j < n \<Longrightarrow> i + n \<le> length bs \<Longrightarrow> slice i n bs ! j = bs ! (i + j)"
  by (simp add: slice_def)

end
