(* ===== verification/Mbr.thy ===== *)
theory Mbr
  imports Bytes Stdio KmallocUse
begin

text \<open>
  Partition tables: \<^verbatim>\<open>kernel/storage/mbr.c\<close> and \<^verbatim>\<open>kernel/storage/partition.c\<close> over the modelled kernel heap. The
  functions of a block device are behind pointers: for the address of a \<open>BlockDevice\<close>, \<open>dev_read\<close> gives the bytes
  of \<open>n\<close> sectors from a sector on, or an error, and may change the driver's own state; \<open>dev_write\<close> takes bytes.
\<close>

section \<open>Block devices\<close>

record BlockDevice =
  bd_name :: "kstr option"
  bd_type :: "kstr option"
  sectorsize :: nat
  bd_uuid :: "kstr option"
  bd_sector_count :: nat

record MountableBlockDevice =
  mb_suffix :: "kstr option"
  mb_offset :: nat
  mb_uuid :: "kstr option"
  mb_sector_count :: nat
  mb_sectorsize :: nat
  mb_parent :: addr

record 'x blkdev_ops =
  dev_read :: "addr \<Rightarrow> nat \<Rightarrow> nat \<Rightarrow> 'x \<Rightarrow> u8 list result \<times> 'x"
  dev_write :: "addr \<Rightarrow> nat \<Rightarrow> nat \<Rightarrow> u8 list \<Rightarrow> 'x \<Rightarrow> int result \<times> 'x"

section \<open>The master boot record\<close>

record MBRPartition =
  drive_attrs :: u8
  chs_head_start :: u8
  chs_start_sector :: u8
  chs_start_cylinder :: u16
  system_id :: u8
  chs_ending_head :: u8
  chs_ending_sector :: u8
  chs_ending_cylinder :: u16
  lba_start :: u32
  sector_count :: u32

record MBR =
  bootstrap :: "u8 list"
  uid :: u32
  reserved :: u16
  partitions :: "MBRPartition list"
  signature :: u16

text \<open>
  The packed structures over the bytes of a sector. The bit-fields of six and ten bits share two bytes, the sector
  in the low bits.
\<close>

definition mbr_partition_at :: "u8 list \<Rightarrow> nat \<Rightarrow> MBRPartition" where
  "mbr_partition_at bs i =
     \<lparr>drive_attrs = bs ! i, chs_head_start = bs ! (i + 1),
      chs_start_sector = bs ! (i + 2) AND 0x3F, chs_start_cylinder = drop_bit 6 (le16 bs (i + 2)),
      system_id = bs ! (i + 4), chs_ending_head = bs ! (i + 5),
      chs_ending_sector = bs ! (i + 6) AND 0x3F, chs_ending_cylinder = drop_bit 6 (le16 bs (i + 6)),
      lba_start = le32 bs (i + 8), sector_count = le32 bs (i + 12)\<rparr>"

definition mbr_of_bytes :: "u8 list \<Rightarrow> MBR" where
  "mbr_of_bytes bs =
     \<lparr>bootstrap = slice 0 440 bs, uid = le32 bs 440, reserved = le16 bs 444,
      partitions = map (\<lambda>k. mbr_partition_at bs (446 + 16 * k)) [0..<4], signature = le16 bs 510\<rparr>"

text \<open>
  Devices with sectors of more than 512 bytes are read through a buffer. A device that delivers fewer than 512 bytes
  leaves a part of the structure unset; using it is the outcome \<open>Panic\<close>.
\<close>

definition mbr_read :: "'x blkdev_ops \<Rightarrow> addr \<Rightarrow> BlockDevice \<Rightarrow> kmstate \<times> 'x \<Rightarrow> (MBR result \<times> kmstate \<times> 'x) outcome option" where
  "mbr_read E dev bd s =
     (case s of (km, x) \<Rightarrow>
      if sectorsize bd > 512 then
        bind_run (kmalloc (sectorsize bd) km) (\<lambda>(buf, km1).
          case buf of
            None \<Rightarrow> Some (Ret (Inl ENOMEM, km1, x))
          | Some b \<Rightarrow>
              (case dev_read E dev 0 1 x of
                 (Inl e, x1) \<Rightarrow> bind_run (kfree (Some b) km1) (\<lambda>km2. Some (Ret (Inl e, km2, x1)))
               | (Inr bs, x1) \<Rightarrow>
                   if length bs < 512 then Some Panic
                   else bind_run (kfree (Some b) km1) (\<lambda>km2. Some (Ret (Inr (mbr_of_bytes bs), km2, x1)))))
      else
        (case dev_read E dev 0 1 x of
           (Inl e, x1) \<Rightarrow> Some (Ret (Inl e, km, x1))
         | (Inr bs, x1) \<Rightarrow> if length bs < 512 then Some Panic else Some (Ret (Inr (mbr_of_bytes bs), km, x1))))"

definition mbr_validate :: "MBR \<Rightarrow> unit result" where
  "mbr_validate m =
     (if signature m \<noteq> 0xAA55 then Inl EINVAL
      else if reserved m \<noteq> 0 \<and> signature m \<noteq> 0x5A5A then Inl EINVAL
      else Inr ())"

text \<open>\<open>UUID_FMT\<close> has no strings and no floating point numbers; their texts are not used.\<close>

abbreviation uuid_text :: "u32 \<Rightarrow> u16 \<Rightarrow> u16 \<Rightarrow> u16 \<Rightarrow> u64 \<Rightarrow> bool \<Rightarrow> (nat \<times> u8 list) result outcome" where
  "uuid_text \<equiv> uuid_format (\<lambda>_. []) (\<lambda>_ _ _. Panic)"

definition mbr_uuid_for_disk :: "MBR \<Rightarrow> bool \<Rightarrow> (nat \<times> u8 list) result outcome" where
  "mbr_uuid_for_disk m dest = uuid_text (uid m) 0 0 0 0 dest"

definition mbr_uuid_for_part :: "MBR option \<Rightarrow> nat \<Rightarrow> bool \<Rightarrow> (nat \<times> u8 list) result outcome" where
  "mbr_uuid_for_part mp part_idx dest =
     (case mp of
        None \<Rightarrow> Ret (Inl EINVAL)
      | Some m \<Rightarrow>
          if \<not> dest \<or> part_idx \<ge> 4 then Ret (Inl EINVAL)
          else
            let mbrpart = partitions m ! part_idx;
                partchecksum = word_cat (chs_head_start mbrpart) (drive_attrs mbrpart) :: u16;
                x = (\<lambda>i. ucast (bootstrap m ! i) :: u16)
            in uuid_text (uid m) partchecksum (x 0 XOR x 1 XOR x 2 XOR x 3) (x 4 XOR x 5 XOR x 6 XOR x 7)
                 (word_of_nat (part_idx + 1)) True)"

section \<open>Partition tables\<close>

record Partition =
  p_lba :: nat
  p_sector_count :: nat
  p_suffix :: "kstr option"
  p_uuid :: "kstr option"

record PartitionTable =
  pt_type :: "string option"
  pt_partitions :: "addr option"
  pt_entries :: "Partition list"
  partition_count :: nat

definition zero_partition :: Partition where
  "zero_partition = \<lparr>p_lba = 0, p_sector_count = 0, p_suffix = None, p_uuid = None\<rparr>"

definition zero_pt :: PartitionTable where
  "zero_pt = \<lparr>pt_type = None, pt_partitions = None, pt_entries = [], partition_count = 0\<rparr>"

definition sizeof_Partition :: nat where "sizeof_Partition = 24"

text \<open>The loop that counts the decimal digits; 0 has none.\<close>

fun dig_count :: "nat \<Rightarrow> nat" where
  "dig_count tmpn = (if tmpn = 0 then 0 else 1 + dig_count (tmpn div 10))"

declare dig_count.simps [simp del]

definition chars :: "u8 list \<Rightarrow> string" where
  "chars bs = map (\<lambda>b. char_of (unat b)) bs"

definition partition_generate_suffix :: "nat \<Rightarrow> kmstate \<Rightarrow> (kstr option \<times> kmstate) outcome option" where
  "partition_generate_suffix n km =
     bind_run (kcalloc (dig_count n + 2) km) (\<lambda>(p, km1).
       case p of
         None \<Rightarrow> Some (Ret (None, km1))
       | Some a \<Rightarrow> bind_run (Some (tmpbuf_text (itoa (int n)) 10)) (\<lambda>t. Some (Ret (Some (a, ''p'' @ chars t), km1))))"

primrec free_entries :: "Partition list \<Rightarrow> kmstate \<Rightarrow> kmstate outcome option" where
  "free_entries [] km = Some (Ret km)"
| "free_entries (part # parts) km =
     bind_run (case p_suffix part of None \<Rightarrow> Some (Ret km) | Some (a, _) \<Rightarrow> kfree (Some a) km) (\<lambda>km1.
     bind_run (case p_uuid part of None \<Rightarrow> Some (Ret km1) | Some (a, _) \<Rightarrow> kfree (Some a) km1) (free_entries parts))"

definition partitiontable_destroy :: "PartitionTable \<Rightarrow> kmstate \<Rightarrow> kmstate outcome option" where
  "partitiontable_destroy pt km =
     bind_run (free_entries (take (partition_count pt) (pt_entries pt)) km) (\<lambda>km1.
       case pt_partitions pt of None \<Rightarrow> Some (Ret km1) | Some a \<Rightarrow> kfree (Some a) km1)"

definition unallocated :: "MBRPartition \<Rightarrow> bool" where
  "unallocated mbrpart \<longleftrightarrow> lba_start mbrpart = 0 \<or> sector_count mbrpart = 0"

definition set_entry :: "nat \<Rightarrow> (Partition \<Rightarrow> Partition) \<Rightarrow> PartitionTable \<Rightarrow> PartitionTable" where
  "set_entry idx f pt = pt\<lparr>pt_entries := (pt_entries pt)[idx := f (pt_entries pt ! idx)]\<rparr>"

fun fill_partitions :: "MBR \<Rightarrow> MBRPartition list \<Rightarrow> nat \<Rightarrow> PartitionTable \<Rightarrow> kmstate
    \<Rightarrow> (unit result \<times> PartitionTable \<times> kmstate) outcome option" where
  "fill_partitions m [] idx pt km = Some (Ret (Inr (), pt, km))"
| "fill_partitions m (mbrpart # rest) idx pt km =
     (if unallocated mbrpart then fill_partitions m rest idx pt km
      else
        bind_run (partition_generate_suffix idx km) (\<lambda>(sfx, km1).
          let pt1 = set_entry idx (\<lambda>p. p\<lparr>p_suffix := sfx\<rparr>) pt in
          if sfx = None then bind_run (partitiontable_destroy pt1 km1) (\<lambda>km2. Some (Ret (Inl ENOMEM, pt1, km2)))
          else
            bind_run (kmalloc (UUID_LENGTH + 1) km1) (\<lambda>(u, km2).
              case u of
                None \<Rightarrow> bind_run (partitiontable_destroy pt1 km2) (\<lambda>km3. Some (Ret (Inl ENOMEM, pt1, km3)))
              | Some a \<Rightarrow>
                  bind_run (Some (mbr_uuid_for_part (Some m) idx True)) (\<lambda>r.
                    let text = (case r of Inl _ \<Rightarrow> [] | Inr (_, t) \<Rightarrow> t);
                        pt2 = set_entry idx (\<lambda>p. p\<lparr>p_uuid := Some (a, chars text), p_lba := unat (lba_start mbrpart),
                                p_sector_count := unat (sector_count mbrpart)\<rparr>) pt1
                    in fill_partitions m rest (idx + 1) pt2 km2))))"

definition partitiontable_try_create_mbr :: "'x blkdev_ops \<Rightarrow> addr \<Rightarrow> BlockDevice \<Rightarrow> PartitionTable \<Rightarrow> kmstate \<times> 'x
    \<Rightarrow> (unit result \<times> PartitionTable \<times> kmstate \<times> 'x) outcome option" where
  "partitiontable_try_create_mbr E dev bd pt s =
     bind_run (mbr_read E dev bd s) (\<lambda>(r, km, x).
       case r of
         Inl e \<Rightarrow> Some (Ret (Inl e, pt, km, x))
       | Inr m \<Rightarrow>
           (case mbr_validate m of
              Inl e \<Rightarrow> Some (Ret (Inl e, pt, km, x))
            | Inr _ \<Rightarrow>
                let count = length (filter (\<lambda>p. \<not> unallocated p) (partitions m));
                    pt1 = pt\<lparr>partition_count := count, pt_type := Some ''mbr''\<rparr>
                in if count = 0 then Some (Ret (Inr (), pt1, km, x))
                   else
                     bind_run (kcalloc (sizeof_Partition * count) km) (\<lambda>(p, km1).
                       let pt2 = pt1\<lparr>pt_partitions := p, pt_entries := replicate count zero_partition\<rparr> in
                       if p = None then Some (Ret (Inl ENOMEM, pt2, km1, x))
                       else
                         bind_run (fill_partitions m (partitions m) 0 pt2 km1) (\<lambda>(st, pt3, km2).
                           Some (Ret (st, pt3, km2, x))))))"

definition partitiontable_create :: "'x blkdev_ops \<Rightarrow> addr \<Rightarrow> BlockDevice \<Rightarrow> PartitionTable \<Rightarrow> kmstate \<times> 'x
    \<Rightarrow> (unit result \<times> PartitionTable \<times> kmstate \<times> 'x) outcome option" where
  "partitiontable_create E dev bd pt s = partitiontable_try_create_mbr E dev bd pt s"

text \<open>Reading and writing through a partition: the sector is moved by the partition's offset, in 64 bits.\<close>

definition partition_generic_read :: "'x blkdev_ops \<Rightarrow> MountableBlockDevice \<Rightarrow> nat \<Rightarrow> nat \<Rightarrow> 'x \<Rightarrow> u8 list result \<times> 'x" where
  "partition_generic_read E mb lba n x = dev_read E (mb_parent mb) (add64 (mb_offset mb) lba) n x"

definition partition_generic_write :: "'x blkdev_ops \<Rightarrow> MountableBlockDevice \<Rightarrow> nat \<Rightarrow> nat \<Rightarrow> u8 list \<Rightarrow> 'x \<Rightarrow> int result \<times> 'x" where
  "partition_generic_write E mb lba n src x = dev_write E (mb_parent mb) (add64 (mb_offset mb) lba) n src x"

end
