(* ===== verification/Blkdevm.thy ===== *)
theory Blkdevm
  imports Mbr KList
begin

text \<open>
  The block device manager, \<^verbatim>\<open>kernel/storage/blkdevm.c\<close>, and \<^verbatim>\<open>kernel/storage/blkdev_drv.c\<close>: drivers with their
  devices, and the partitions that can be mounted. Objects are maps from addresses; freeing an object takes it out.
\<close>

section \<open>State\<close>

record 'x blk_state =
  bk_km :: kmstate
  bk_nodes :: node_heap
  g_blkdev_drivers :: LinkedList
  g_mountable_blkdevs :: LinkedList
  drv_blkdevs :: "addr \<Rightarrow> LinkedList"
  blkdevs :: "addr \<rightharpoonup> BlockDevice"
  mblkdevs :: "addr \<rightharpoonup> MountableBlockDevice"
  bk_priv :: 'x

text \<open>\<open>init\<close> and \<open>destroy\<close> of a driver, which may be null and may change the whole state.\<close>

record 'x BlockDeviceDriver =
  bdrv_init :: "('x blk_state \<Rightarrow> (unit result \<times> 'x blk_state) outcome option) option"
  bdrv_destroy :: "('x blk_state \<Rightarrow> (unit result \<times> 'x blk_state) outcome option) option"

definition sizeof_BlockDevice :: nat where "sizeof_BlockDevice = 36"
definition sizeof_MountableBlockDevice :: nat where "sizeof_MountableBlockDevice = 40"
definition MAX_BLKDEV_NAME_LEN :: nat where "MAX_BLKDEV_NAME_LEN = 128"

definition bk_heap :: "'x blk_state \<Rightarrow> list_heap" where
  "bk_heap s = (bk_km s, bk_nodes s)"

definition set_heap :: "list_heap \<Rightarrow> 'x blk_state \<Rightarrow> 'x blk_state" where
  "set_heap kh s = s\<lparr>bk_km := fst kh, bk_nodes := snd kh\<rparr>"

definition bk_kfree :: "addr option \<Rightarrow> 'x blk_state \<Rightarrow> 'x blk_state outcome option" where
  "bk_kfree a s = bind_run (kfree a (bk_km s)) (\<lambda>km. Some (Ret (s\<lparr>bk_km := km\<rparr>)))"

section \<open>Devices of a driver\<close>

definition zero_blkdev :: BlockDevice where
  "zero_blkdev = \<lparr>bd_name = None, bd_type = None, sectorsize = 0, bd_uuid = None, bd_sector_count = 0\<rparr>"

definition blkdevdrv_new_blkdev :: "addr \<Rightarrow> 'x blk_state \<Rightarrow> (addr option \<times> 'x blk_state) outcome option" where
  "blkdevdrv_new_blkdev drv s =
     bind_run (kcalloc sizeof_BlockDevice (bk_km s)) (\<lambda>(p, km).
       let s1 = s\<lparr>bk_km := km\<rparr> in
       case p of
         None \<Rightarrow> Some (Ret (None, s1))
       | Some dev \<Rightarrow>
           bind_run (kl_add dev (drv_blkdevs s1 drv) (bk_heap s1)) (\<lambda>(r, ll, kh).
             let s2 = (set_heap kh s1)\<lparr>drv_blkdevs := (drv_blkdevs s1)(drv := ll)\<rparr> in
             case r of
               Inl e \<Rightarrow> bind_run (bk_kfree (Some dev) s2) (\<lambda>s3. Some (Ret (None, s3)))
             | Inr _ \<Rightarrow> Some (Ret (Some dev, s2\<lparr>blkdevs := (blkdevs s2)(dev \<mapsto> zero_blkdev)\<rparr>))))"

definition blkdevdrv_free_blkdev :: "addr \<Rightarrow> addr \<Rightarrow> 'x blk_state \<Rightarrow> (unit result \<times> 'x blk_state) outcome option" where
  "blkdevdrv_free_blkdev dev drv s =
     bind_run (bk_kfree (Some dev) s) (\<lambda>s1.
     bind_run (kl_remove dev (drv_blkdevs s1 drv) (bk_heap s1)) (\<lambda>(r, ll, kh).
       Some (Ret (r, (set_heap kh s1)\<lparr>drv_blkdevs := (drv_blkdevs s1)(drv := ll), blkdevs := (blkdevs s1)(dev := None)\<rparr>))))"

section \<open>Mountable devices\<close>

definition zero_mblkdev :: MountableBlockDevice where
  "zero_mblkdev = \<lparr>mb_suffix = None, mb_offset = 0, mb_uuid = None, mb_sector_count = 0, mb_sectorsize = 0, mb_parent = 0\<rparr>"

definition blkdevm_new_mountable_blkdev :: "'x blk_state \<Rightarrow> (addr option \<times> 'x blk_state) outcome option" where
  "blkdevm_new_mountable_blkdev s =
     bind_run (kcalloc sizeof_MountableBlockDevice (bk_km s)) (\<lambda>(p, km).
       let s1 = s\<lparr>bk_km := km\<rparr> in
       case p of
         None \<Rightarrow> Some (Ret (None, s1))
       | Some d \<Rightarrow>
           bind_run (kl_add d (g_mountable_blkdevs s1) (bk_heap s1)) (\<lambda>(r, ll, kh).
             let s2 = (set_heap kh s1)\<lparr>g_mountable_blkdevs := ll\<rparr> in
             case r of
               Inl e \<Rightarrow> bind_run (bk_kfree (Some d) s2) (\<lambda>s3. Some (Ret (None, s3)))
             | Inr _ \<Rightarrow> Some (Ret (Some d, s2\<lparr>mblkdevs := (mblkdevs s2)(d \<mapsto> zero_mblkdev)\<rparr>))))"

definition blkdevm_free_mountable_blkdev :: "addr \<Rightarrow> 'x blk_state \<Rightarrow> 'x blk_state outcome option" where
  "blkdevm_free_mountable_blkdev d s =
     bind_run (kl_remove d (g_mountable_blkdevs s) (bk_heap s)) (\<lambda>(_, ll, kh).
     bind_run (bk_kfree (Some d) ((set_heap kh s)\<lparr>g_mountable_blkdevs := ll\<rparr>)) (\<lambda>s1.
       Some (Ret (s1\<lparr>mblkdevs := (mblkdevs s1)(d := None)\<rparr>))))"

text \<open>The body of the loop; the walk then reads the successor from a node that the body may have freed.\<close>

definition free_child :: "addr \<Rightarrow> addr \<Rightarrow> 'x blk_state \<Rightarrow> 'x blk_state outcome option" where
  "free_child blkdev d s =
     (case mblkdevs s d of
        None \<Rightarrow> Some Panic
      | Some mb \<Rightarrow>
          if mb_parent mb = blkdev then
            bind_run (bk_kfree (map_option fst (mb_suffix mb)) s) (blkdevm_free_mountable_blkdev d)
          else Some (Ret s))"

partial_function (option) free_children_loop :: "addr \<Rightarrow> addr option \<Rightarrow> 'x blk_state \<Rightarrow> 'x blk_state outcome option" where
  "free_children_loop blkdev p s =
     (case p of
        None \<Rightarrow> Some (Ret s)
      | Some a \<Rightarrow>
          (case bk_nodes s a of
             None \<Rightarrow> Some Panic
           | Some n \<Rightarrow>
               Option.bind (if data n = 0 then Some (Ret s) else free_child blkdev (data n) s)
                 (\<lambda>out. case out of
                    Panic \<Rightarrow> Some Panic
                  | Ret s1 \<Rightarrow>
                      (case bk_nodes s1 a of
                         None \<Rightarrow> Some Panic
                       | Some n1 \<Rightarrow> free_children_loop blkdev (lnext n1) s1))))"

definition blkdevm_free_blkdev_children :: "addr \<Rightarrow> 'x blk_state \<Rightarrow> 'x blk_state outcome option" where
  "blkdevm_free_blkdev_children blkdev s = free_children_loop blkdev (root (g_mountable_blkdevs s)) s"

section \<open>Drivers\<close>

definition blkdevm_register_blkdev_driver ::
    "(addr \<Rightarrow> 'x BlockDeviceDriver) \<Rightarrow> addr \<Rightarrow> 'x blk_state \<Rightarrow> (unit result \<times> 'x blk_state) outcome option" where
  "blkdevm_register_blkdev_driver D drv s =
     bind_run (kl_add drv (g_blkdev_drivers s) (bk_heap s)) (\<lambda>(r, ll, kh).
       let s1 = (set_heap kh s)\<lparr>g_blkdev_drivers := ll\<rparr> in
       case r of
         Inl e \<Rightarrow> Some (Ret (Inl e, s1))
       | Inr _ \<Rightarrow>
           (case bdrv_init (D drv) of
              None \<Rightarrow> Some (Ret (Inr (), s1))
            | Some init \<Rightarrow>
                bind_run (init s1) (\<lambda>(st, s2).
                  case st of
                    Inl e \<Rightarrow>
                      bind_run (kl_remove drv (g_blkdev_drivers s2) (bk_heap s2)) (\<lambda>(_, ll2, kh2).
                        Some (Ret (Inl e, (set_heap kh2 s2)\<lparr>g_blkdev_drivers := ll2\<rparr>)))
                  | Inr _ \<Rightarrow> Some (Ret (Inr (), s2)))))"

definition blkdevm_unregister_blkdev_driver ::
    "(addr \<Rightarrow> 'x BlockDeviceDriver) \<Rightarrow> addr \<Rightarrow> 'x blk_state \<Rightarrow> (unit result \<times> 'x blk_state) outcome option" where
  "blkdevm_unregister_blkdev_driver D drv s =
     bind_run (kl_remove drv (g_blkdev_drivers s) (bk_heap s)) (\<lambda>(r, ll, kh).
       let s1 = (set_heap kh s)\<lparr>g_blkdev_drivers := ll\<rparr> in
       case r of
         Inl e \<Rightarrow> Some (Ret (Inl e, s1))
       | Inr _ \<Rightarrow> (case bdrv_destroy (D drv) of None \<Rightarrow> Some (Ret (Inr (), s1)) | Some destroy \<Rightarrow> destroy s1))"

section \<open>Partitions\<close>

definition new_partition :: "addr \<Rightarrow> BlockDevice \<Rightarrow> Partition \<Rightarrow> kstr \<Rightarrow> MountableBlockDevice" where
  "new_partition dev bd part suffix =
     \<lparr>mb_suffix = Some suffix, mb_offset = p_lba part, mb_uuid = None, mb_sector_count = p_sector_count part,
      mb_sectorsize = sectorsize bd, mb_parent = dev\<rparr>"

text \<open>The loop over the entries, with \<open>strdup\<close>; \<open>pt\<close> is released on the error paths.\<close>

fun add_partitions :: "addr \<Rightarrow> BlockDevice \<Rightarrow> PartitionTable \<Rightarrow> Partition list \<Rightarrow> 'x blk_state
    \<Rightarrow> (unit result \<times> 'x blk_state) outcome option" where
  "add_partitions dev bd pt [] s = Some (Ret (Inr (), s))"
| "add_partitions dev bd pt (part # parts) s =
     (case p_suffix part of
        None \<Rightarrow> Some Panic
      | Some (_, text) \<Rightarrow>
          bind_run (kmalloc (length text) (bk_km s)) (\<lambda>(p, km).
            let s1 = s\<lparr>bk_km := km\<rparr> in
            case p of
              None \<Rightarrow> bind_run (partitiontable_destroy pt (bk_km s1)) (\<lambda>km2. Some (Ret (Inl ENOMEM, s1\<lparr>bk_km := km2\<rparr>)))
            | Some b \<Rightarrow>
                bind_run (blkdevm_new_mountable_blkdev s1) (\<lambda>(q, s2).
                  case q of
                    None \<Rightarrow>
                      bind_run (bk_kfree (Some b) s2) (\<lambda>s3.
                      bind_run (partitiontable_destroy pt (bk_km s3)) (\<lambda>km2. Some (Ret (Inl ENOMEM, s3\<lparr>bk_km := km2\<rparr>))))
                  | Some d \<Rightarrow>
                      add_partitions dev bd pt parts
                        (s2\<lparr>mblkdevs := (mblkdevs s2)(d \<mapsto> new_partition dev bd part (b, text))\<rparr>))))"

definition blkdevm_enumerate_partitions ::
    "'x blkdev_ops \<Rightarrow> addr \<Rightarrow> 'x blk_state \<Rightarrow> (unit result \<times> 'x blk_state) outcome option" where
  "blkdevm_enumerate_partitions E dev s =
     (case blkdevs s dev of
        None \<Rightarrow> Some Panic
      | Some bd \<Rightarrow>
          bind_run (partitiontable_create E dev bd zero_pt (bk_km s, bk_priv s)) (\<lambda>(r, pt, km, x).
            let s1 = s\<lparr>bk_km := km, bk_priv := x\<rparr> in
            case r of
              Inl e \<Rightarrow> Some (Ret (Inl e, s1))
            | Inr _ \<Rightarrow>
                bind_run (blkdevm_free_blkdev_children dev s1) (\<lambda>s2.
                bind_run (add_partitions dev bd pt (take (partition_count pt) (pt_entries pt)) s2) (\<lambda>(st, s3).
                  case st of
                    Inl e \<Rightarrow> Some (Ret (Inl e, s3))
                  | Inr _ \<Rightarrow>
                      bind_run (partitiontable_destroy pt (bk_km s3)) (\<lambda>km2. Some (Ret (Inr (), s3\<lparr>bk_km := km2\<rparr>)))))))"

section \<open>Lookup\<close>

fun find_dev :: "(BlockDevice \<Rightarrow> kstr option) \<Rightarrow> string \<Rightarrow> (addr \<rightharpoonup> BlockDevice) \<Rightarrow> addr list \<Rightarrow> addr option outcome" where
  "find_dev key t devs [] = Ret None"
| "find_dev key t devs (d # ds) =
     (case devs d of
        None \<Rightarrow> Panic
      | Some bd \<Rightarrow> (case key bd of
            None \<Rightarrow> find_dev key t devs ds
          | Some (_, text) \<Rightarrow> if text = t then Ret (Some d) else find_dev key t devs ds))"

fun find_in_drivers :: "(BlockDevice \<Rightarrow> kstr option) \<Rightarrow> string \<Rightarrow> 'x blk_state \<Rightarrow> addr list \<Rightarrow> addr option outcome option" where
  "find_in_drivers key t s [] = Some (Ret None)"
| "find_in_drivers key t s (drv # drvs) =
     bind_run (ll_walk (bk_nodes s) (root (drv_blkdevs s drv)) []) (\<lambda>ds.
     bind_run (Some (find_dev key t (blkdevs s) ds)) (\<lambda>r.
       case r of Some d \<Rightarrow> Some (Ret (Some d)) | None \<Rightarrow> find_in_drivers key t s drvs))"

definition blkdevm_find_raw_blkdev_by_name :: "string \<Rightarrow> 'x blk_state \<Rightarrow> addr option outcome option" where
  "blkdevm_find_raw_blkdev_by_name name s =
     bind_run (ll_walk (bk_nodes s) (root (g_blkdev_drivers s)) []) (find_in_drivers bd_name name s)"

definition blkdevm_find_raw_blkdev_by_uuid :: "string \<Rightarrow> 'x blk_state \<Rightarrow> addr option outcome option" where
  "blkdevm_find_raw_blkdev_by_uuid uuid s =
     bind_run (ll_walk (bk_nodes s) (root (g_blkdev_drivers s)) []) (find_in_drivers bd_uuid uuid s)"

text \<open>
  \<open>sizeof\<close> of a string literal counts its terminator: six characters are skipped. An \<open>id\<close> of only the five
  characters would be read behind its end.
\<close>

definition raw_uuid :: "string \<Rightarrow> string option outcome" where
  "raw_uuid ident =
     (if take 5 ident \<noteq> ''UUID='' then Ret None
      else if length ident < 6 then Panic
      else Ret (Some (drop 6 ident)))"

definition blkdevm_find_raw_blkdev :: "string \<Rightarrow> 'x blk_state \<Rightarrow> addr option outcome option" where
  "blkdevm_find_raw_blkdev ident s =
     bind_run (Some (raw_uuid ident)) (\<lambda>u.
       case u of None \<Rightarrow> blkdevm_find_raw_blkdev_by_name ident s | Some uuid \<Rightarrow> blkdevm_find_raw_blkdev_by_uuid uuid s)"

text \<open>Comparing with a null \<open>uuid\<close> is a fault.\<close>

fun find_muuid :: "string \<Rightarrow> (addr \<rightharpoonup> MountableBlockDevice) \<Rightarrow> addr list \<Rightarrow> addr option outcome" where
  "find_muuid t mbs [] = Ret None"
| "find_muuid t mbs (d # ds) =
     (case mbs d of
        None \<Rightarrow> Panic
      | Some mb \<Rightarrow> (case mb_uuid mb of
            None \<Rightarrow> Panic
          | Some (_, text) \<Rightarrow> if text = t then Ret (Some d) else find_muuid t mbs ds))"

definition blkdevm_find_mountable_blkdev_by_uuid :: "string \<Rightarrow> 'x blk_state \<Rightarrow> addr option outcome option" where
  "blkdevm_find_mountable_blkdev_by_uuid uuid s =
     bind_run (ll_walk (bk_nodes s) (root (g_mountable_blkdevs s)) []) (\<lambda>ds. Some (find_muuid uuid (mblkdevs s) ds))"

text \<open>The name of a partition: that of its device and its suffix, in a buffer of \<open>MAX_BLKDEV_NAME_LEN\<close> characters.\<close>

fun find_mname :: "string \<Rightarrow> 'x blk_state \<Rightarrow> addr list \<Rightarrow> addr option outcome" where
  "find_mname t s [] = Ret None"
| "find_mname t s (d # ds) =
     (case mblkdevs s d of
        None \<Rightarrow> Panic
      | Some mb \<Rightarrow>
          (case blkdevs s (mb_parent mb) of
             None \<Rightarrow> Panic
           | Some bd \<Rightarrow>
               (case bd_name bd of
                  None \<Rightarrow> Panic
                | Some (_, name) \<Rightarrow>
                    if length name > MAX_BLKDEV_NAME_LEN then find_mname t s ds
                    else
                      (case mb_suffix mb of
                         None \<Rightarrow> Panic
                       | Some (_, suffix) \<Rightarrow>
                           if name @ take (MAX_BLKDEV_NAME_LEN - length name) suffix = t then Ret (Some d)
                           else find_mname t s ds))))"

definition blkdevm_find_mountable_blkdev_by_name :: "string \<Rightarrow> 'x blk_state \<Rightarrow> addr option outcome option" where
  "blkdevm_find_mountable_blkdev_by_name name s =
     bind_run (ll_walk (bk_nodes s) (root (g_mountable_blkdevs s)) []) (\<lambda>ds. Some (find_mname name s ds))"

definition blkdevm_find_mountable_blkdev :: "string \<Rightarrow> 'x blk_state \<Rightarrow> addr option outcome option" where
  "blkdevm_find_mountable_blkdev ident s =
     bind_run (Some (raw_uuid ident)) (\<lambda>u.
       case u of
         None \<Rightarrow> blkdevm_find_mountable_blkdev_by_name ident s
       | Some uuid \<Rightarrow> blkdevm_find_mountable_blkdev_by_uuid uuid s)"

end
