(* ===== verification/MbrProps.thy ===== *)
theory MbrProps
  imports Mbr StdioProps HeapExample
begin

text \<open>
  Properties of partition tables: what is read from a master boot record, and that building and releasing a table
  leaves the allocations of the kernel heap as they were.
\<close>

section \<open>The blocks of a table\<close>

lemma bind_run_return [simp]: "bind_run r (\<lambda>x. Some (Ret x)) = r"
  by (cases r; cases "the r") (auto simp: bind_run_def)

lemma bind_run_assoc: "bind_run (bind_run r f) g = bind_run r (\<lambda>x. bind_run (f x) g)"
  by (cases r; cases "the r") (auto simp: bind_run_def)

definition kstr_addr :: "kstr option \<Rightarrow> addr list" where
  "kstr_addr s = (case s of None \<Rightarrow> [] | Some (a, _) \<Rightarrow> [a])"

definition entry_addrs :: "Partition \<Rightarrow> addr list" where
  "entry_addrs p = kstr_addr (p_suffix p) @ kstr_addr (p_uuid p)"

definition owned :: "PartitionTable \<Rightarrow> addr list" where
  "owned pt = concat (map entry_addrs (pt_entries pt)) @ (case pt_partitions pt of None \<Rightarrow> [] | Some a \<Rightarrow> [a])"

lemma kfree_all_nil: "kfree_all [] = (\<lambda>km. Some (Ret km))"
  by (rule ext) simp

lemma kfree_all_single: "kfree_all [a] = kfree (Some a)"
  by (rule ext) (simp add: kfree_all_nil del: kfree_all.simps(1))

lemma kfree_kstr: "(case s of None \<Rightarrow> Some (Ret km) | Some (a, _) \<Rightarrow> kfree (Some a) km) = kfree_all (kstr_addr s) km"
  by (cases s) (auto simp: kstr_addr_def kfree_all_single kfree_all_nil simp del: kfree_all.simps)

lemma free_entries_all: "free_entries ps km = kfree_all (concat (map entry_addrs ps)) km"
proof (induction ps arbitrary: km)
  case (Cons p ps)
  have "free_entries ps = kfree_all (concat (map entry_addrs ps))" using Cons by auto
  then have "free_entries (p # ps) km =
      bind_run (kfree_all (kstr_addr (p_suffix p)) km) (\<lambda>km1.
        bind_run (kfree_all (kstr_addr (p_uuid p)) km1) (kfree_all (concat (map entry_addrs ps))))"
    by (simp only: free_entries.simps kfree_kstr)
  also have "\<dots> = bind_run (kfree_all (kstr_addr (p_suffix p)) km)
      (kfree_all (kstr_addr (p_uuid p) @ concat (map entry_addrs ps)))"
    by (rule arg_cong [where f = "bind_run _"]) (rule ext, simp only: kfree_all_append)
  also have "\<dots> = kfree_all (entry_addrs p @ concat (map entry_addrs ps)) km"
    by (simp only: entry_addrs_def append_assoc kfree_all_append [of "kstr_addr (p_suffix p)"])
  finally show ?case by simp
qed simp

lemma destroy_all:
  assumes "length (pt_entries pt) = partition_count pt"
  shows "partitiontable_destroy pt km = kfree_all (owned pt) km"
proof -
  have "(case pt_partitions pt of None \<Rightarrow> Some (Ret km) | Some a \<Rightarrow> kfree (Some a) km) =
      kfree_all (case pt_partitions pt of None \<Rightarrow> [] | Some a \<Rightarrow> [a]) km" for km
    by (cases "pt_partitions pt") (simp_all add: kfree_all_single del: kfree_all.simps(2))
  then show ?thesis using assms
    by (simp add: partitiontable_destroy_def owned_def free_entries_all kfree_all_append)
qed

section \<open>Suffixes\<close>

lemma itoa_ulltoa: "itoa (int n) = ulltoa n"
  by (auto simp: fun_eq_iff itoa_def ltoa_def lltoa_def ulltoa_def)

lemma small_number: "n < 10 \<Longrightarrow> tmpbuf_text (itoa (int n)) 10 = Ret [48 + word_of_nat n]"
proof -
  assume n: "n < 10"
  have d: "digits_of 10 n = (if n = 0 then [] else [n])"
    using n by (simp add: digits_of.simps [of 10 n] digits_of.simps [of 10 "n div 10"])
  have "number_text 10 n = [48 + word_of_nat n]"
    using n d by (simp add: number_text_def digit_char_def add.commute)
  then show ?thesis using tmpbuf_number [of 10 n] d by (simp add: itoa_ulltoa)
qed

definition suffix_text :: "nat \<Rightarrow> string" where
  "suffix_text n = [''p0'', ''p1'', ''p2'', ''p3''] ! n"

lemma suffix_ok:
  assumes "km_heap ma km heap live" and "small_heap ma heap" and "n < 4"
  shows "\<exists>r km'. partition_generate_suffix n km = Some (Ret (r, km')) \<and>
    (case r of None \<Rightarrow> km_heap ma km' heap live
     | Some (a, t) \<Rightarrow> t = suffix_text n \<and> live a = None \<and> (\<exists>sz. km_heap ma km' heap (live(a \<mapsto> (sz, ma)))))"
proof -
  have "dig_count n + 2 < W32" using assms(3)
    by (simp add: dig_count.simps [of n] dig_count.simps [of 0])
  then obtain r km' where r: "kcalloc (dig_count n + 2) km = Some (Ret (r, km'))"
    and c: "case r of None \<Rightarrow> km_heap ma km' heap live
      | Some a \<Rightarrow> live a = None \<and> km_heap ma km' heap (live(a \<mapsto> (dig_count n + 2, ma)))"
    using use_kcalloc [OF assms(1,2), of "dig_count n + 2"] by auto
  have t: "''p'' @ chars [48 + word_of_nat n] = suffix_text n"
  proof -
    consider "n = 0" | "n = 1" | "n = 2" | "n = 3" using assms(3) by linarith
    then show ?thesis by cases (simp_all add: chars_def suffix_text_def char_of_def bit_Suc_0_iff)
  qed
  show ?thesis
    using r c small_number [of n] assms(3) t by (cases r) (auto simp: partition_generate_suffix_def)
qed

section \<open>Filling the table\<close>

lemma set_entry_facts [simp]:
  "length (pt_entries (set_entry i f pt)) = length (pt_entries pt)"
  "partition_count (set_entry i f pt) = partition_count pt"
  "pt_partitions (set_entry i f pt) = pt_partitions pt"
  "pt_type (set_entry i f pt) = pt_type pt"
  by (simp_all add: set_entry_def)

lemma set_entry_nth: "i < length (pt_entries pt) \<Longrightarrow> pt_entries (set_entry i f pt) ! j = (if i = j then f (pt_entries pt ! i) else pt_entries pt ! j)"
  by (simp add: set_entry_def nth_list_update)

lemma owned_set_entry:
  assumes "i < length (pt_entries pt)"
  shows "mset (owned (set_entry i f pt)) + mset (entry_addrs (pt_entries pt ! i)) = mset (owned pt) + mset (entry_addrs (f (pt_entries pt ! i)))"
proof -
  let ?l = "pt_entries pt"
  have "?l = take i ?l @ ?l ! i # drop (Suc i) ?l" by (rule id_take_nth_drop [OF assms])
  then have "mset (concat (map entry_addrs ?l)) =
      mset (concat (map entry_addrs (take i ?l))) + mset (entry_addrs (?l ! i)) + mset (concat (map entry_addrs (drop (Suc i) ?l)))"
    by (metis concat.simps(2) concat_append list.map(2) map_append mset_append add.assoc)
  moreover have "mset (concat (map entry_addrs (?l[i := f (?l ! i)]))) =
      mset (concat (map entry_addrs (take i ?l))) + mset (entry_addrs (f (?l ! i))) + mset (concat (map entry_addrs (drop (Suc i) ?l)))"
    by (simp add: upd_conv_take_nth_drop [OF assms])
  ultimately show ?thesis by (simp add: owned_def set_entry_def)
qed

definition entry_view :: "Partition \<Rightarrow> nat \<times> nat \<times> string option" where
  "entry_view p = (p_lba p, p_sector_count p, map_option snd (p_suffix p))"

definition mbr_view :: "nat \<Rightarrow> MBRPartition \<Rightarrow> nat \<times> nat \<times> string option" where
  "mbr_view i q = (unat (lba_start q), unat (sector_count q), Some (suffix_text i))"

definition fill_inv :: "nat \<Rightarrow> Heap \<Rightarrow> live_map \<Rightarrow> nat \<Rightarrow> PartitionTable \<Rightarrow> kmstate \<Rightarrow> bool" where
  "fill_inv ma heap before idx pt km \<longleftrightarrow>
     (\<exists>now. km_heap ma km heap now \<and> owns ma now before (owned pt)) \<and> length (pt_entries pt) = partition_count pt
     \<and> (\<forall>j. idx \<le> j \<and> j < partition_count pt \<longrightarrow> pt_entries pt ! j = zero_partition)"

lemma fill_inv_destroy:
  "fill_inv ma heap before idx pt km \<Longrightarrow> \<exists>km'. partitiontable_destroy pt km = Some (Ret km') \<and> km_heap ma km' heap before"
  using kfree_all_ok by (force simp: fill_inv_def destroy_all)

text \<open>Putting a new block into an entry.\<close>

lemma owned_new:
  assumes "owns ma now before (owned pt)" and "i < length (pt_entries pt)" and "now a = None"
    and "entry_addrs (f (pt_entries pt ! i)) = xs @ a # ys" and "entry_addrs (pt_entries pt ! i) = xs @ ys"
  shows "owns ma (now(a \<mapsto> (sz, ma))) before (owned (set_entry i f pt))"
proof -
  have "mset (owned (set_entry i f pt)) = mset (a # owned pt)"
    using owned_set_entry [OF assms(2), of f] assms(4,5) by simp
  then show ?thesis using owns_perm owns_new [OF assms(1,3)] by blast
qed

lemma uuid_part_ret: "\<exists>r. mbr_uuid_for_part mp i d = Ret r"
  by (auto simp: mbr_uuid_for_part_def uuid_format_eq Let_def split: option.split)

lemma fill_partitions_ok:
  assumes "fill_inv ma heap before idx pt km" and "small_heap ma heap"
    and "idx + length (filter (\<lambda>p. \<not> unallocated p) rest) = partition_count pt" and "partition_count pt \<le> 4"
  shows "\<exists>r pt' km'. fill_partitions m rest idx pt km = Some (Ret (r, pt', km')) \<and>
    (case r of
       Inl e \<Rightarrow> e = ENOMEM \<and> km_heap ma km' heap before
     | Inr _ \<Rightarrow> fill_inv ma heap before (partition_count pt) pt' km' \<and> partition_count pt' = partition_count pt \<and>
         map entry_view (pt_entries pt') = map entry_view (take idx (pt_entries pt)) @
           map2 mbr_view [idx..<partition_count pt] (filter (\<lambda>p. \<not> unallocated p) rest))"
  using assms
proof (induction rest arbitrary: idx pt km)
  case Nil
  then show ?case by (simp add: fill_inv_def)
next
  case (Cons q rest)
  show ?case
  proof (cases "unallocated q")
    case True
    then have "idx + length (filter (\<lambda>p. \<not> unallocated p) rest) = partition_count pt" using Cons.prems(3) by simp
    moreover have "fill_partitions m (q # rest) idx pt km = fill_partitions m rest idx pt km"
      "filter (\<lambda>p. \<not> unallocated p) (q # rest) = filter (\<lambda>p. \<not> unallocated p) rest" using True by simp_all
    ultimately show ?thesis using Cons.IH [OF Cons.prems(1,2) _ Cons.prems(4)] by (simp only:)
  next
    case False
    then have idx: "idx < partition_count pt" "idx < 4" using Cons.prems(3,4) by simp_all
    obtain now where km: "km_heap ma km heap now" and o: "owns ma now before (owned pt)"
      and len: "length (pt_entries pt) = partition_count pt"
      and z: "\<forall>j. idx \<le> j \<and> j < partition_count pt \<longrightarrow> pt_entries pt ! j = zero_partition"
      using Cons.prems(1) by (auto simp: fill_inv_def)
    have zi: "pt_entries pt ! idx = zero_partition" using z idx by simp
    obtain sfx km1 where s: "partition_generate_suffix idx km = Some (Ret (sfx, km1))"
      and sc: "case sfx of None \<Rightarrow> km_heap ma km1 heap now
        | Some (a, t) \<Rightarrow> t = suffix_text idx \<and> now a = None \<and> (\<exists>sz. km_heap ma km1 heap (now(a \<mapsto> (sz, ma))))"
      using suffix_ok [OF km Cons.prems(2) idx(2)] by blast
    let ?f = "\<lambda>p. p\<lparr>p_suffix := sfx\<rparr>"
    let ?pt1 = "set_entry idx ?f pt"
    show ?thesis
    proof (cases sfx)
      case None
      then have same: "?pt1 = pt"
        using zi by (simp add: set_entry_def zero_partition_def list_update_same_conv len idx)
      have "fill_inv ma heap before idx pt km1" using Cons.prems(1) sc None o by (auto simp: fill_inv_def)
      then obtain km2 where "partitiontable_destroy pt km1 = Some (Ret km2)" "km_heap ma km2 heap before"
        using fill_inv_destroy by blast
      then show ?thesis using s None False same by (simp add: Let_def)
    next
      case (Some at)
      obtain a t where at: "at = (a, t)" by fastforce
      obtain sz where t: "t = suffix_text idx" and a: "now a = None" and km1: "km_heap ma km1 heap (now(a \<mapsto> (sz, ma)))"
        using sc Some at by auto
      have o1: "owns ma (now(a \<mapsto> (sz, ma))) before (owned ?pt1)"
        by (rule owned_new [where xs = "[]" and ys = "[]", OF o _ a])
          (simp_all add: len idx zi entry_addrs_def kstr_addr_def zero_partition_def Some at)
      have e1: "pt_entries ?pt1 ! idx = zero_partition\<lparr>p_suffix := Some (a, t)\<rparr>"
        using zi idx len Some at by (simp add: set_entry_nth)
      obtain u km2 where u: "kmalloc (UUID_LENGTH + 1) km1 = Some (Ret (u, km2))"
        and uc: "case u of None \<Rightarrow> km_heap ma km2 heap (now(a \<mapsto> (sz, ma)))
          | Some b \<Rightarrow> (now(a \<mapsto> (sz, ma))) b = None \<and> km_heap ma km2 heap (now(a \<mapsto> (sz, ma), b \<mapsto> (UUID_LENGTH + 1, ma)))"
        using use_kmalloc [OF km1 Cons.prems(2), of "UUID_LENGTH + 1"] by (auto simp: UUID_LENGTH_def)
      show ?thesis
      proof (cases u)
        case None
        have "fill_inv ma heap before (partition_count pt) ?pt1 km2"
          using uc None o1 len by (auto simp: fill_inv_def)
        then obtain km3 where "partitiontable_destroy ?pt1 km2 = Some (Ret km3)" "km_heap ma km3 heap before"
          using fill_inv_destroy by blast
        then show ?thesis using s u None Some False by (simp add: Let_def)
      next
        case (Some b)
        obtain r where r: "mbr_uuid_for_part (Some m) idx True = Ret r" using uuid_part_ret by blast
        let ?text = "case r of Inl _ \<Rightarrow> [] | Inr (_, t) \<Rightarrow> t"
        let ?g = "\<lambda>p. p\<lparr>p_uuid := Some (b, chars ?text), p_lba := unat (lba_start q), p_sector_count := unat (sector_count q)\<rparr>"
        let ?pt2 = "set_entry idx ?g ?pt1"
        have o2: "owns ma (now(a \<mapsto> (sz, ma), b \<mapsto> (UUID_LENGTH + 1, ma))) before (owned ?pt2)"
          by (rule owned_new [where xs = "[a]" and ys = "[]", OF o1])
            (use uc Some in \<open>simp_all add: len idx e1 entry_addrs_def kstr_addr_def zero_partition_def\<close>)
        have n2: "pt_entries ?pt2 ! j = (if j = idx then ?g (zero_partition\<lparr>p_suffix := Some (a, t)\<rparr>) else pt_entries pt ! j)" for j
          using e1 idx len by (simp add: set_entry_nth)
        have inv2: "fill_inv ma heap before (idx + 1) ?pt2 km2"
          using uc Some o2 len z n2 by (auto simp: fill_inv_def)
        have step: "fill_partitions m (q # rest) idx pt km = fill_partitions m rest (idx + 1) ?pt2 km2"
          using False s u r Some \<open>sfx = Some at\<close> by (simp add: Let_def)
        have tk: "map entry_view (take (idx + 1) (pt_entries ?pt2)) = map entry_view (take idx (pt_entries pt)) @ [mbr_view idx q]"
        proof -
          have "take idx (pt_entries ?pt2) = take idx (pt_entries pt)"
            using n2 len idx by (intro nth_equalityI) simp_all
          moreover have "entry_view (pt_entries ?pt2 ! idx) = mbr_view idx q"
            by (simp add: n2 entry_view_def mbr_view_def t)
          ultimately show ?thesis using len idx by (simp add: take_Suc_conv_app_nth)
        qed
        have "[idx..<partition_count pt] = idx # [idx + 1..<partition_count pt]" using idx by (simp add: upt_conv_Cons)
        moreover have "idx + 1 + length (filter (\<lambda>p. \<not> unallocated p) rest) = partition_count ?pt2"
          using Cons.prems(3) False by simp
        moreover have "filter (\<lambda>p. \<not> unallocated p) (q # rest) = q # filter (\<lambda>p. \<not> unallocated p) rest" using False by simp
        moreover have "partition_count ?pt2 = partition_count pt" by simp
        ultimately show ?thesis
          using Cons.IH [OF inv2 Cons.prems(2)] Cons.prems(4) tk unfolding step by (simp only: list.map zip_Cons_Cons append_assoc prod.case append.simps)
      qed
    qed
  qed
qed

section \<open>Reading a table\<close>

lemma mbr_read_ok:
  assumes "km_heap ma km heap live" and "small_heap ma heap" and "sectorsize bd < W32"
    and "dev_read E dev 0 1 x = (Inr bs, x1)" and "512 \<le> length bs"
  shows "\<exists>r km' x'. mbr_read E dev bd (km, x) = Some (Ret (r, km', x')) \<and> km_heap ma km' heap live
    \<and> (r = Inl ENOMEM \<or> r = Inr (mbr_of_bytes bs))"
proof (cases "sectorsize bd > 512")
  case True
  then have "0 < sectorsize bd" by simp
  then obtain buf km1 where b: "kmalloc (sectorsize bd) km = Some (Ret (buf, km1))"
    and c: "case buf of None \<Rightarrow> km_heap ma km1 heap live
      | Some a \<Rightarrow> live a = None \<and> km_heap ma km1 heap (live(a \<mapsto> (sectorsize bd, ma)))"
    using use_kmalloc [OF assms(1,2) _ assms(3)] by blast
  show ?thesis
  proof (cases buf)
    case None
    then show ?thesis using True b c by (simp add: mbr_read_def)
  next
    case (Some a)
    then have a: "live a = None" "km_heap ma km1 heap (live(a \<mapsto> (sectorsize bd, ma)))" using c by simp_all
    moreover have "(live(a \<mapsto> (sectorsize bd, ma)))(a := None) = live" using a(1) by (auto simp: fun_eq_iff)
    ultimately obtain km2 where "kfree (Some a) km1 = Some (Ret km2)" "km_heap ma km2 heap live"
      using use_kfree [OF a(2), of a] by auto
    then show ?thesis using True b Some assms(4,5) by (simp add: mbr_read_def)
  qed
qed (use assms in \<open>simp add: mbr_read_def\<close>)

lemma partitiontable_create_full:
  assumes "km_heap ma km heap live" and "small_heap ma heap" and "sectorsize bd < W32"
    and "dev_read E dev 0 1 x = (Inr bs, x1)" and "512 \<le> length bs" and "mbr_validate (mbr_of_bytes bs) = Inr ()"
  shows "\<exists>r pt km' x'. partitiontable_create E dev bd zero_pt (km, x) = Some (Ret (r, pt, km', x')) \<and>
    (case r of
       Inl e \<Rightarrow> e = ENOMEM \<and> km_heap ma km' heap live
     | Inr _ \<Rightarrow>
         (let used_entries = filter (\<lambda>p. \<not> unallocated p) (partitions (mbr_of_bytes bs)) in
            map entry_view (pt_entries pt) = map2 mbr_view [0..<length used_entries] used_entries) \<and>
         fill_inv ma heap live (partition_count pt) pt km')"
proof -
  let ?m = "mbr_of_bytes bs" and ?P = "\<lambda>p. \<not> unallocated p"
  let ?used = "filter ?P (partitions ?m)"
  let ?pt1 = "zero_pt\<lparr>partition_count := length ?used, pt_type := Some ''mbr''\<rparr>"
  have four: "length ?used \<le> 4"
    using length_filter_le [of ?P "partitions ?m"] by (simp add: mbr_of_bytes_def)
  obtain r km1 x' where rd: "mbr_read E dev bd (km, x) = Some (Ret (r, km1, x'))" and km1: "km_heap ma km1 heap live"
    and r: "r = Inl ENOMEM \<or> r = Inr ?m"
    using mbr_read_ok [OF assms(1-5)] by blast
  note defs = partitiontable_create_def partitiontable_try_create_mbr_def
  show ?thesis
  proof (cases "r = Inl ENOMEM")
    case True
    then show ?thesis using rd km1 by (simp add: defs)
  next
    case False
    then have rm: "r = Inr ?m" using r by simp
    show ?thesis
    proof (cases "length ?used = 0")
      case True
      then show ?thesis using rd km1 rm assms(6)
        by (simp add: defs Let_def zero_pt_def filter_empty_conv fill_inv_def owned_def)
    next
      case count: False
      have "0 < sizeof_Partition * length ?used" "sizeof_Partition * length ?used < W32"
        using count four by (simp_all add: sizeof_Partition_def filter_empty_conv)
      then obtain p km2 where p: "kcalloc (sizeof_Partition * length ?used) km1 = Some (Ret (p, km2))"
        and c: "case p of None \<Rightarrow> km_heap ma km2 heap live
          | Some a \<Rightarrow> live a = None \<and> km_heap ma km2 heap (live(a \<mapsto> (sizeof_Partition * length ?used, ma)))"
        using use_kcalloc [OF km1 assms(2)] by blast
      let ?pt2 = "?pt1\<lparr>pt_partitions := p, pt_entries := replicate (length ?used) zero_partition\<rparr>"
      have run: "partitiontable_create E dev bd zero_pt (km, x) =
          (if p = None then Some (Ret (Inl ENOMEM, ?pt2, km2, x'))
           else bind_run (fill_partitions ?m (partitions ?m) 0 ?pt2 km2) (\<lambda>(st, pt3, km2). Some (Ret (st, pt3, km2, x'))))"
        unfolding defs using rd rm assms(6) p count by (simp add: Let_def)
      show ?thesis
      proof (cases p)
        case None
        then show ?thesis using run c by simp
      next
        case (Some a)
        have "owned ?pt2 = [a]" using Some by (simp add: owned_def entry_addrs_def kstr_addr_def zero_partition_def)
        moreover have "owns ma (live(a \<mapsto> (sizeof_Partition * length ?used, ma))) live [a]"
          by (rule owns_new) (use c Some in simp_all)
        ultimately have "fill_inv ma heap live 0 ?pt2 km2"
          using c Some by (auto simp: fill_inv_def)
        moreover have pc: "partition_count ?pt2 = length ?used" by simp
        ultimately have "\<exists>st pt km3. fill_partitions ?m (partitions ?m) 0 ?pt2 km2 = Some (Ret (st, pt, km3)) \<and>
            (case st of Inl e \<Rightarrow> e = ENOMEM \<and> km_heap ma km3 heap live
             | Inr _ \<Rightarrow> fill_inv ma heap live (length ?used) pt km3 \<and> partition_count pt = length ?used \<and>
                map entry_view (pt_entries pt) = map2 mbr_view [0..<length ?used] ?used)"
          using fill_partitions_ok [of ma heap live 0 ?pt2 km2 "partitions ?m" ?m] assms(2) four
          by (simp only: pc take_0 list.map append_Nil add_0)
        then obtain st pt km3 where f: "fill_partitions ?m (partitions ?m) 0 ?pt2 km2 = Some (Ret (st, pt, km3))"
          and fc: "case st of Inl e \<Rightarrow> e = ENOMEM \<and> km_heap ma km3 heap live
             | Inr _ \<Rightarrow> fill_inv ma heap live (length ?used) pt km3 \<and> partition_count pt = length ?used \<and>
                map entry_view (pt_entries pt) = map2 mbr_view [0..<length ?used] ?used"
          by blast
        then show ?thesis using run Some by (cases st) (simp_all add: Let_def)
      qed
    qed
  qed
qed

text \<open>
  C21: reading a partition table. From a device whose first sector is a valid master boot record, the call returns. Its
  table has exactly the entries of the record that are in use, in order, with their first sectors and sizes and the
  suffixes \<open>p0\<close>, \<open>p1\<close> and so on, and releasing the table frees everything that was allocated for it. When memory runs
  out on the way, the error is \<open>-ENOMEM\<close> and nothing stays allocated either.
\<close>
theorem partitiontable_create_ok:
  assumes "km_heap ma km heap live" and "small_heap ma heap" and "sectorsize bd < W32"
    and "dev_read E dev 0 1 x = (Inr bs, x1)" and "512 \<le> length bs" and "mbr_validate (mbr_of_bytes bs) = Inr ()"
  shows "\<exists>r pt km' x'. partitiontable_create E dev bd zero_pt (km, x) = Some (Ret (r, pt, km', x')) \<and>
    (case r of
       Inl e \<Rightarrow> e = ENOMEM \<and> km_heap ma km' heap live
     | Inr _ \<Rightarrow>
         (let used_entries = filter (\<lambda>p. \<not> unallocated p) (partitions (mbr_of_bytes bs)) in
            map entry_view (pt_entries pt) = map2 mbr_view [0..<length used_entries] used_entries) \<and>
         (\<exists>km2. partitiontable_destroy pt km' = Some (Ret km2) \<and> km_heap ma km2 heap live))"
proof -
  obtain r pt km' x' where run: "partitiontable_create E dev bd zero_pt (km, x) = Some (Ret (r, pt, km', x'))"
    and c: "case r of
       Inl e \<Rightarrow> e = ENOMEM \<and> km_heap ma km' heap live
     | Inr _ \<Rightarrow>
         (let used_entries = filter (\<lambda>p. \<not> unallocated p) (partitions (mbr_of_bytes bs)) in
            map entry_view (pt_entries pt) = map2 mbr_view [0..<length used_entries] used_entries) \<and>
         fill_inv ma heap live (partition_count pt) pt km'"
    using partitiontable_create_full [OF assms] by blast
  then show ?thesis using fill_inv_destroy by (cases r) (force simp: Let_def)+
qed

text \<open>
  A disk with one partition, of 4096 sectors from sector 2048 on.
\<close>

definition demo_sector :: "u8 list" where
  "demo_sector = replicate 446 0 @ [0x80, 0, 0, 0, 0x0C, 0, 0, 0, 0, 8, 0, 0, 0, 16, 0, 0] @ replicate 48 0 @ [0x55, 0xAA]"

definition demo_disk :: BlockDevice where
  "demo_disk = \<lparr>bd_name = Some (72, ''hda''), bd_type = None, sectorsize = 512, bd_uuid = None, bd_sector_count = 100000\<rparr>"

definition demo_ops :: "unit blkdev_ops" where
  "demo_ops = \<lparr>dev_read = (\<lambda>_ _ _ x. (Inr demo_sector, x)), dev_write = (\<lambda>_ _ _ _ x. (Inl EIO, x))\<rparr>"

lemma demo_disk_small: "small_heap 16 demo_heap"
  unfolding small_heap_def demo_heap_end by (simp add: demo_heap_def) (rule exI [of _ 4], simp)

lemma demo_reads: "dev_read demo_ops 64 0 1 () = (Inr demo_sector, ())" "512 \<le> length demo_sector" "sectorsize demo_disk < W32"
  by (simp_all add: demo_ops_def demo_sector_def demo_disk_def)

lemma demo_valid: "mbr_validate (mbr_of_bytes demo_sector) = Inr ()"
  by (simp add: mbr_validate_def mbr_of_bytes_def le16_def nth_append word_cat_eq demo_sector_def)

lemma demo_used: "filter (\<lambda>p. \<not> unallocated p) (partitions (mbr_of_bytes demo_sector)) = [mbr_partition_at demo_sector 446]"
  by (simp add: mbr_of_bytes_def upt_conv_Cons unallocated_def mbr_partition_at_def le32_def le16_def nth_append word_cat_eq demo_sector_def)

lemma demo_partition: "lba_start (mbr_partition_at demo_sector 446) = 2048" "sector_count (mbr_partition_at demo_sector 446) = 4096"
  by (simp_all add: mbr_partition_at_def le32_def le16_def nth_append word_cat_eq demo_sector_def)

theorem partitiontable_create_ok_witness:
  "\<exists>r pt km'. partitiontable_create demo_ops 64 demo_disk zero_pt (demo_state, ()) = Some (Ret (r, pt, km', ())) \<and>
     (case r of Inl e \<Rightarrow> e = ENOMEM | Inr _ \<Rightarrow> map entry_view (pt_entries pt) = [(2048, 4096, Some ''p0'')])"
proof -
  have one: "map2 mbr_view [0..<length [q]] [q] = [mbr_view 0 q]" for q by simp
  have w: "mbr_view 0 (mbr_partition_at demo_sector 446) = (2048, 4096, Some ''p0'')"
    by (simp add: mbr_view_def demo_partition suffix_text_def)
  show ?thesis
    using partitiontable_create_ok [where E = demo_ops and dev = 64, OF demo_km_ok demo_disk_small demo_reads(3,1,2) demo_valid]
    unfolding demo_used Let_def one w by (auto split: sum.splits)
qed

text \<open>
  The comment in \<open>mbr_validate\<close> allows the mark \<open>0x5A5A\<close> of copy-protected disks, but the code compares the
  signature with it: such a disk is rejected.
\<close>

lemma mbr_copy_protected_rejected:
  "signature m = 0xAA55 \<Longrightarrow> reserved m = 0x5A5A \<Longrightarrow> mbr_validate m = Inl EINVAL"
  by (simp add: mbr_validate_def)

end
