(* ===== verification/BlkdevProps.thy ===== *)
theory BlkdevProps
  imports Blkdevm MbrProps
begin

text \<open>
  The block device manager end to end: after the partitions of a disk have been enumerated, each of them is found
  under its name.
\<close>

section \<open>Invariant\<close>

text \<open>The heap, its list nodes, and the list \<open>ds\<close> of the devices that can be mounted.\<close>

definition blk_ok :: "nat \<Rightarrow> Heap \<Rightarrow> live_map \<Rightarrow> 'x blk_state \<Rightarrow> addr list \<Rightarrow> bool" where
  "blk_ok ma heap live s ds \<longleftrightarrow> km_heap ma (bk_km s) heap live \<and> nodes_live (bk_nodes s) live
     \<and> (\<exists>as. ll_at (bk_nodes s, g_mountable_blkdevs s) as ds) \<and> (\<forall>d \<in> set ds. d \<noteq> 0 \<and> live d \<noteq> None)"

definition pt_live :: "nat \<Rightarrow> live_map \<Rightarrow> PartitionTable \<Rightarrow> bool" where
  "pt_live ma live pt \<longleftrightarrow> distinct (owned pt) \<and> (\<forall>a \<in> set (owned pt). \<exists>sz. live a = Some (sz, ma))
     \<and> length (pt_entries pt) = partition_count pt"

lemma pt_live_mono: "pt_live ma live pt \<Longrightarrow> live a = None \<Longrightarrow> pt_live ma (live(a \<mapsto> v)) pt"
  unfolding pt_live_def by (auto; metis option.distinct(1))

lemma pt_live_destroy:
  assumes "pt_live ma live pt" and "km_heap ma km heap live"
  shows "\<exists>km' live'. partitiontable_destroy pt km = Some (Ret km') \<and> km_heap ma km' heap live'"
proof -
  have "owns ma live (\<lambda>a. if a \<in> set (owned pt) then None else live a) (owned pt)"
    using assms(1) by (auto simp: owns_def pt_live_def)
  from kfree_all_ok [OF assms(2) this] show ?thesis
    using assms(1) by (auto simp: destroy_all pt_live_def)
qed

lemma live_nonzero: "km_heap ma km heap live \<Longrightarrow> live a = Some (sz, al) \<Longrightarrow> a \<noteq> 0"
  using km_live_addr by blast

lemma new_mountable_ok:
  assumes "blk_ok ma heap live s ds" and "small_heap ma heap"
  shows "\<exists>q s'. blkdevm_new_mountable_blkdev s = Some (Ret (q, s')) \<and>
    (case q of
       None \<Rightarrow> km_heap ma (bk_km s') heap live
     | Some d \<Rightarrow> live d = None \<and> d \<noteq> 0 \<and> mblkdevs s' = (mblkdevs s)(d \<mapsto> zero_mblkdev) \<and> blkdevs s' = blkdevs s \<and>
         (\<exists>a. a \<noteq> d \<and> live a = None \<and> blk_ok ma heap (live(d \<mapsto> (40, ma), a \<mapsto> (8, ma))) s' (ds @ [d])))"
proof -
  obtain as where inv: "km_heap ma (bk_km s) heap live" "nodes_live (bk_nodes s) live"
    "ll_at (bk_nodes s, g_mountable_blkdevs s) as ds" "\<forall>d \<in> set ds. d \<noteq> 0 \<and> live d \<noteq> None"
    using assms(1) by (auto simp: blk_ok_def)
  obtain p km where p: "kcalloc sizeof_MountableBlockDevice (bk_km s) = Some (Ret (p, km))"
    and c: "case p of None \<Rightarrow> km_heap ma km heap live | Some d \<Rightarrow> live d = None \<and> km_heap ma km heap (live(d \<mapsto> (40, ma)))"
    using use_kcalloc [OF inv(1) assms(2), of 40] unfolding sizeof_MountableBlockDevice_def by auto
  show ?thesis
  proof (cases p)
    case None
    then show ?thesis using p c by (simp add: blkdevm_new_mountable_blkdev_def)
  next
    case (Some d)
    let ?live1 = "live(d \<mapsto> (40, ma))"
    have d: "live d = None" "km_heap ma km heap ?live1" using c Some by simp_all
    have d0: "d \<noteq> 0" by (rule live_nonzero [OF d(2)]) simp
    have "nodes_live (bk_nodes s) ?live1" using inv(2) by (auto simp: nodes_live_def)
    then obtain r ll km2 h where k: "kl_add d (g_mountable_blkdevs s) (km, bk_nodes s) = Some (Ret (r, ll, km2, h))"
      and kc: "case r of
        Inl e \<Rightarrow> e = ENOMEM \<and> km_heap ma km2 heap ?live1 \<and> ll_at (h, ll) as ds \<and> nodes_live h ?live1
      | Inr _ \<Rightarrow> \<exists>a. ?live1 a = None \<and> km_heap ma km2 heap (?live1(a \<mapsto> (8, ma))) \<and> ll_at (h, ll) (as @ [a]) (ds @ [d])
         \<and> nodes_live h (?live1(a \<mapsto> (8, ma)))"
      using kl_add_ok [of ma "(km, bk_nodes s)" heap ?live1 "g_mountable_blkdevs s" as ds d] d(2) assms(2) inv(3) by auto
    show ?thesis
    proof (cases r)
      case (Inl e)
      have "?live1(d := None) = live" using d(1) by (auto simp: fun_eq_iff)
      then obtain km3 where "kfree (Some d) km2 = Some (Ret km3)" "km_heap ma km3 heap live"
        using use_kfree [of ma km2 heap ?live1 d] kc Inl by auto
      then show ?thesis using p Some k Inl
        by (simp add: blkdevm_new_mountable_blkdev_def bk_heap_def set_heap_def bk_kfree_def Let_def)
    next
      case (Inr u)
      then obtain a where a: "?live1 a = None" "km_heap ma km2 heap (?live1(a \<mapsto> (8, ma)))" "ll_at (h, ll) (as @ [a]) (ds @ [d])"
        "nodes_live h (?live1(a \<mapsto> (8, ma)))" using kc by auto
      have "\<forall>d' \<in> set (ds @ [d]). d' \<noteq> 0 \<and> (?live1(a \<mapsto> (8, ma))) d' \<noteq> None" using inv(4) d0 by auto
      then show ?thesis using p Some k Inr a d d0
        by (auto simp: blkdevm_new_mountable_blkdev_def bk_heap_def set_heap_def Let_def blk_ok_def split: if_splits)
    qed
  qed
qed

section \<open>Adding the partitions of a table\<close>

text \<open>What \<open>find_mname\<close> sees in an entry: its full name, or that the device's name is too long for one.\<close>

definition named :: "'x blk_state \<Rightarrow> addr \<Rightarrow> string option \<Rightarrow> bool" where
  "named s d t \<longleftrightarrow> (\<exists>mb bd a name b suffix. mblkdevs s d = Some mb \<and> blkdevs s (mb_parent mb) = Some bd
     \<and> bd_name bd = Some (a, name) \<and> mb_suffix mb = Some (b, suffix)
     \<and> t = (if length name > 128 then None else Some (name @ take (128 - length name) suffix)))"

lemma find_mname_skip:
  "\<forall>d \<in> set ds. \<exists>n. named s d n \<and> n \<noteq> Some t \<Longrightarrow> find_mname t s (ds @ es) = find_mname t s es"
  by (induction ds) (auto simp: named_def MAX_BLKDEV_NAME_LEN_def split: if_splits)

lemma find_mname_hit: "named s d (Some t) \<Longrightarrow> find_mname t s (d # ds) = Ret (Some d)"
  by (auto simp: named_def MAX_BLKDEV_NAME_LEN_def split: if_splits)

definition is_partition :: "addr \<Rightarrow> BlockDevice \<Rightarrow> Partition \<Rightarrow> MountableBlockDevice \<Rightarrow> bool" where
  "is_partition dev bd p mb \<longleftrightarrow> mb_offset mb = p_lba p \<and> mb_sector_count mb = p_sector_count p \<and> mb_sectorsize mb = sectorsize bd
     \<and> mb_parent mb = dev \<and> map_option snd (mb_suffix mb) = map_option snd (p_suffix p)"

lemma add_partitions_ok:
  assumes "blk_ok ma heap live s ds" and "small_heap ma heap" and "pt_live ma live pt"
    and "\<forall>p \<in> set parts. \<exists>a t. p_suffix p = Some (a, t) \<and> t \<noteq> [] \<and> length t < 10"
  shows "\<exists>r s'. add_partitions dev bd pt parts s = Some (Ret (r, s')) \<and> (r = Inl ENOMEM \<or>
    (r = Inr () \<and> blkdevs s' = blkdevs s \<and> (\<exists>live' es. blk_ok ma heap live' s' (ds @ es) \<and> pt_live ma live' pt \<and>
       (\<forall>d. live d \<noteq> None \<longrightarrow> mblkdevs s' d = mblkdevs s d) \<and>
       list_all2 (\<lambda>p d. \<exists>mb. mblkdevs s' d = Some mb \<and> is_partition dev bd p mb) parts es)))"
  using assms
proof (induction parts arbitrary: live s ds)
  case Nil
  then show ?case by (auto intro!: exI [of _ live] exI [of _ "[]"])
next
  case (Cons p parts)
  obtain pa t where t: "p_suffix p = Some (pa, t)" "t \<noteq> []" "length t < 10" using Cons.prems(4) by auto
  have km: "km_heap ma (bk_km s) heap live" using Cons.prems(1) by (simp add: blk_ok_def)
  obtain b km1 where b: "kmalloc (length t) (bk_km s) = Some (Ret (b, km1))"
    and bc: "case b of None \<Rightarrow> km_heap ma km1 heap live | Some x \<Rightarrow> live x = None \<and> km_heap ma km1 heap (live(x \<mapsto> (length t, ma)))"
    using use_kmalloc [OF km Cons.prems(2), of "length t"] t by auto
  show ?case
  proof (cases b)
    case None
    then obtain km2 where "partitiontable_destroy pt km1 = Some (Ret km2)"
      using pt_live_destroy [OF Cons.prems(3)] bc by fastforce
    then show ?thesis using b None t by simp
  next
    case (Some x)
    let ?live1 = "live(x \<mapsto> (length t, ma))" and ?s1 = "s\<lparr>bk_km := km1\<rparr>"
    have x: "live x = None" "km_heap ma km1 heap ?live1" using bc Some by simp_all
    have ok1: "blk_ok ma heap ?live1 ?s1 ds"
      using Cons.prems(1) x by (auto simp: blk_ok_def nodes_live_def)
    have pt1: "pt_live ma ?live1 pt" by (rule pt_live_mono [OF Cons.prems(3) x(1)])
    obtain q s2 where q: "blkdevm_new_mountable_blkdev ?s1 = Some (Ret (q, s2))"
      and qc: "case q of
        None \<Rightarrow> km_heap ma (bk_km s2) heap ?live1
      | Some d \<Rightarrow> ?live1 d = None \<and> d \<noteq> 0 \<and> mblkdevs s2 = (mblkdevs ?s1)(d \<mapsto> zero_mblkdev) \<and> blkdevs s2 = blkdevs ?s1 \<and>
         (\<exists>a. a \<noteq> d \<and> ?live1 a = None \<and> blk_ok ma heap (?live1(d \<mapsto> (40, ma), a \<mapsto> (8, ma))) s2 (ds @ [d]))"
      using new_mountable_ok [OF ok1 Cons.prems(2)] by blast
    show ?thesis
    proof (cases q)
      case None
      have "?live1(x := None) = live" using x(1) by (auto simp: fun_eq_iff)
      then obtain km3 where km3: "kfree (Some x) (bk_km s2) = Some (Ret km3)" "km_heap ma km3 heap live"
        using use_kfree [of ma "bk_km s2" heap ?live1 x] qc None by auto
      obtain km4 where "partitiontable_destroy pt km3 = Some (Ret km4)"
        using pt_live_destroy [OF Cons.prems(3) km3(2)] by blast
      then show ?thesis using b Some t q None km3(1) by (simp add: bk_kfree_def Let_def)
    next
      case (Some d)
      then obtain a where d: "?live1 d = None" "mblkdevs s2 = (mblkdevs s)(d \<mapsto> zero_mblkdev)" "blkdevs s2 = blkdevs s"
        and a: "a \<noteq> d" "?live1 a = None" and ok2: "blk_ok ma heap (?live1(d \<mapsto> (40, ma), a \<mapsto> (8, ma))) s2 (ds @ [d])"
        using qc by auto
      let ?live2 = "?live1(d \<mapsto> (40, ma), a \<mapsto> (8, ma))"
      let ?s3 = "s2\<lparr>mblkdevs := (mblkdevs s2)(d \<mapsto> new_partition dev bd p (x, t))\<rparr>"
      have ok3: "blk_ok ma heap ?live2 ?s3 (ds @ [d])" using ok2 by (simp add: blk_ok_def)
      have pt2: "pt_live ma ?live2 pt" by (rule pt_live_mono [OF pt_live_mono [OF pt1 d(1)]]) (use a in simp)
      have rest: "\<forall>p \<in> set parts. \<exists>a t. p_suffix p = Some (a, t) \<and> t \<noteq> [] \<and> length t < 10" using Cons.prems(4) by simp
      have step: "add_partitions dev bd pt (p # parts) s = add_partitions dev bd pt parts ?s3"
        using b \<open>b = Some x\<close> t q Some by (simp add: Let_def)
      obtain r s' where run: "add_partitions dev bd pt parts ?s3 = Some (Ret (r, s'))"
        and res: "r = Inl ENOMEM \<or> (r = Inr () \<and> blkdevs s' = blkdevs ?s3 \<and> (\<exists>live' es. blk_ok ma heap live' s' ((ds @ [d]) @ es) \<and> pt_live ma live' pt \<and>
          (\<forall>d. ?live2 d \<noteq> None \<longrightarrow> mblkdevs s' d = mblkdevs ?s3 d) \<and>
          list_all2 (\<lambda>p d. \<exists>mb. mblkdevs s' d = Some mb \<and> is_partition dev bd p mb) parts es))"
        using Cons.IH [OF ok3 Cons.prems(2) pt2 rest] by blast
      show ?thesis
      proof (cases "r = Inl ENOMEM")
        case True
        then show ?thesis using run step by simp
      next
        case False
        then obtain live' es where f: "r = Inr ()" "blkdevs s' = blkdevs ?s3" "blk_ok ma heap live' s' ((ds @ [d]) @ es)" "pt_live ma live' pt"
          "\<forall>d. ?live2 d \<noteq> None \<longrightarrow> mblkdevs s' d = mblkdevs ?s3 d"
          "list_all2 (\<lambda>p d. \<exists>mb. mblkdevs s' d = Some mb \<and> is_partition dev bd p mb) parts es"
          using res by blast
        have "mblkdevs s' d = Some (new_partition dev bd p (x, t))" using f(5) a(1) by simp
        then have new: "\<exists>mb. mblkdevs s' d = Some mb \<and> is_partition dev bd p mb"
          using t by (simp add: is_partition_def new_partition_def)
        have old: "\<forall>e. live e \<noteq> None \<longrightarrow> mblkdevs s' e = mblkdevs s e"
        proof (intro allI impI)
          fix e assume e: "live e \<noteq> None"
          then have "e \<noteq> d" "?live2 e \<noteq> None" using d(1) by (auto split: if_splits)
          then show "mblkdevs s' e = mblkdevs s e" using f(5) d(2) by simp
        qed
        have "blk_ok ma heap live' s' (ds @ (d # es))" using f(3) by simp
        moreover have "list_all2 (\<lambda>p d. \<exists>mb. mblkdevs s' d = Some mb \<and> is_partition dev bd p mb) (p # parts) (d # es)"
          using new f(6) by simp
        moreover have "blkdevs s' = blkdevs s" using f(2) d(3) by simp
        ultimately have "blkdevs s' = blkdevs s \<and> (\<exists>live' es. blk_ok ma heap live' s' (ds @ es) \<and> pt_live ma live' pt \<and>
            (\<forall>d. live d \<noteq> None \<longrightarrow> mblkdevs s' d = mblkdevs s d) \<and>
            list_all2 (\<lambda>p d. \<exists>mb. mblkdevs s' d = Some mb \<and> is_partition dev bd p mb) (p # parts) es)"
          using f(4) old by blast
        then show ?thesis unfolding step using run f(1) by (intro exI [of _ r] exI [of _ s'] conjI disjI2) simp_all
      qed
    qed
  qed
qed

section \<open>Enumerating and finding\<close>

lemma free_children_none:
  "seg (bk_nodes s) p as ds \<Longrightarrow> \<forall>d \<in> set ds. \<exists>mb. mblkdevs s d = Some mb \<and> mb_parent mb \<noteq> dev \<Longrightarrow>
     free_children_loop dev p s = Some (Ret s)"
proof (induction "bk_nodes s" p as ds rule: seg.induct)
  case (2 p a as x xs)
  then show ?case by (subst free_children_loop.simps) (auto simp: free_child_def)
qed (auto simp: free_children_loop.simps)

lemma walk_ok:
  assumes "blk_ok ma heap live s ds"
  shows "ll_walk (bk_nodes s) (root (g_mountable_blkdevs s)) [] = Some (Ret ds)"
proof -
  obtain as where l: "ll_at (bk_nodes s, g_mountable_blkdevs s) as ds" "0 \<notin> set ds" using assms by (auto simp: blk_ok_def)
  have "filter (\<lambda>x. x \<noteq> 0) ds = ds" using l(2) by (induction ds) auto
  then show ?thesis using l(1) ll_walk_ok [of "bk_nodes s" "root (g_mountable_blkdevs s)" as ds "[]"] by (simp add: ll_at_def)
qed

lemma suffix_inj: "i < 4 \<Longrightarrow> j < 4 \<Longrightarrow> suffix_text i = suffix_text j \<longleftrightarrow> i = j"
  by (auto simp: suffix_text_def less_Suc_eq numeral_eq_Suc)

lemma suffix_length: "i < 4 \<Longrightarrow> length (suffix_text i) = 2"
  by (auto simp: suffix_text_def less_Suc_eq numeral_eq_Suc)

text \<open>The partitions that a record describes, as the entries of the table.\<close>

lemma entries_nth:
  assumes "map entry_view (pt_entries pt) = map2 mbr_view [0..<n] us" and "length us = n" and "i < n"
  shows "length (pt_entries pt) = n \<and> p_lba (pt_entries pt ! i) = unat (lba_start (us ! i))
    \<and> p_sector_count (pt_entries pt ! i) = unat (sector_count (us ! i)) \<and> map_option snd (p_suffix (pt_entries pt ! i)) = Some (suffix_text i)"
proof -
  have l: "length (pt_entries pt) = n" using arg_cong [OF assms(1), of length] assms(2) by simp
  have "entry_view (pt_entries pt ! i) = mbr_view i (us ! i)"
    using arg_cong [OF assms(1), of "\<lambda>xs. xs ! i"] assms(2,3) l by simp
  then show ?thesis using l by (simp add: entry_view_def mbr_view_def)
qed

text \<open>Looking for a name among entries of which the \<open>i\<close>-th is the first that has it.\<close>

lemma find_mname_nth:
  assumes "i < length ds" and "named s (ds ! i) (Some t)" and "\<forall>j < i. \<exists>n. named s (ds ! j) n \<and> n \<noteq> Some t"
  shows "find_mname t s ds = Ret (Some (ds ! i))"
proof -
  have "ds = take i ds @ ds ! i # drop (Suc i) ds" by (rule id_take_nth_drop [OF assms(1)])
  moreover have "\<forall>d \<in> set (take i ds). \<exists>n. named s d n \<and> n \<noteq> Some t"
    using assms(1,3) by (auto simp: in_set_conv_nth)
  ultimately show ?thesis using find_mname_skip [of "take i ds" s t "ds ! i # drop (Suc i) ds"] find_mname_hit [OF assms(2)] by metis
qed

lemma enumerate_ok:
  assumes "blk_ok ma heap live s ds" and "small_heap ma heap" and "blkdevs s dev = Some bd" and "sectorsize bd < W32"
    and "dev_read E dev 0 1 (bk_priv s) = (Inr bs, x1)" and "512 \<le> length bs" and "mbr_validate (mbr_of_bytes bs) = Inr ()"
    and "\<forall>d \<in> set ds. \<exists>mb. mblkdevs s d = Some mb \<and> mb_parent mb \<noteq> dev"
  shows "\<exists>r s'. blkdevm_enumerate_partitions E dev s = Some (Ret (r, s')) \<and> (r = Inl ENOMEM \<or>
    (r = Inr () \<and> blkdevs s' = blkdevs s \<and> (\<exists>es.
       ll_walk (bk_nodes s') (root (g_mountable_blkdevs s')) [] = Some (Ret (ds @ es)) \<and>
       (\<forall>d \<in> set ds. mblkdevs s' d = mblkdevs s d) \<and>
       (let us = filter (\<lambda>p. \<not> unallocated p) (partitions (mbr_of_bytes bs)) in
          length es = length us \<and> (\<forall>i < length us. \<exists>mb. mblkdevs s' (es ! i) = Some mb \<and>
            mb_offset mb = unat (lba_start (us ! i)) \<and> mb_sector_count mb = unat (sector_count (us ! i)) \<and>
            mb_parent mb = dev \<and> map_option snd (mb_suffix mb) = Some (suffix_text i))))))"
proof -
  let ?used = "filter (\<lambda>p. \<not> unallocated p) (partitions (mbr_of_bytes bs))"
  obtain as where inv: "km_heap ma (bk_km s) heap live" "nodes_live (bk_nodes s) live"
    "ll_at (bk_nodes s, g_mountable_blkdevs s) as ds" "\<forall>d \<in> set ds. d \<noteq> 0 \<and> live d \<noteq> None"
    using assms(1) by (auto simp: blk_ok_def)
  have four: "length ?used \<le> 4"
    using length_filter_le [of "\<lambda>p. \<not> unallocated p" "partitions (mbr_of_bytes bs)"] by (simp add: mbr_of_bytes_def)
  obtain r pt km1 x' where c: "partitiontable_create E dev bd zero_pt (bk_km s, bk_priv s) = Some (Ret (r, pt, km1, x'))"
    and cc: "case r of
       Inl e \<Rightarrow> e = ENOMEM \<and> km_heap ma km1 heap live
     | Inr _ \<Rightarrow> (let used_entries = ?used in
            map entry_view (pt_entries pt) = map2 mbr_view [0..<length used_entries] used_entries) \<and>
         fill_inv ma heap live (partition_count pt) pt km1"
    using partitiontable_create_full [OF inv(1) assms(2,4,5,6,7)] by blast
  show ?thesis
  proof (cases r)
    case (Inl e)
    then show ?thesis using assms(3) c cc by (simp add: blkdevm_enumerate_partitions_def)
  next
    case (Inr u)
    let ?s1 = "s\<lparr>bk_km := km1, bk_priv := x'\<rparr>"
    have view: "map entry_view (pt_entries pt) = map2 mbr_view [0..<length ?used] ?used"
      and fi: "fill_inv ma heap live (partition_count pt) pt km1" using cc Inr by (simp_all add: Let_def)
    obtain now where now: "km_heap ma km1 heap now" "owns ma now live (owned pt)" and len: "length (pt_entries pt) = partition_count pt"
      using fi by (auto simp: fill_inv_def)
    have sub: "now a \<noteq> None" if "live a \<noteq> None" for a using now(2) that by (auto simp: owns_def split: if_splits)
    have ptl: "pt_live ma now pt" using now(2) len by (simp add: pt_live_def owns_def)
    have ok1: "blk_ok ma heap now ?s1 ds"
      using now(1) inv(2-4) sub by (auto simp: blk_ok_def nodes_live_def)
    have fc: "blkdevm_free_blkdev_children dev ?s1 = Some (Ret ?s1)"
      unfolding blkdevm_free_blkdev_children_def
      by (rule free_children_none [where as = as and ds = ds]) (use inv(3) assms(8) in \<open>auto simp: ll_at_def\<close>)
    have sfx: "\<forall>p \<in> set (pt_entries pt). \<exists>a t. p_suffix p = Some (a, t) \<and> t \<noteq> [] \<and> length t < 10"
    proof
      fix p assume "p \<in> set (pt_entries pt)"
      then obtain i where i: "i < length (pt_entries pt)" "p = pt_entries pt ! i" by (auto simp: in_set_conv_nth)
      have "length (pt_entries pt) = length ?used" using arg_cong [OF view, of length] by simp
      then have "map_option snd (p_suffix p) = Some (suffix_text i)" "i < 4" using entries_nth [OF view _, of i] i four by auto
      then show "\<exists>a t. p_suffix p = Some (a, t) \<and> t \<noteq> [] \<and> length t < 10" using suffix_length [of i] by (cases "p_suffix p") fastforce+
    qed
    have run: "blkdevm_enumerate_partitions E dev s =
        bind_run (add_partitions dev bd pt (pt_entries pt) ?s1) (\<lambda>(st, s3).
          case st of Inl e \<Rightarrow> Some (Ret (Inl e, s3))
          | Inr _ \<Rightarrow> bind_run (partitiontable_destroy pt (bk_km s3)) (\<lambda>km2. Some (Ret (Inr (), s3\<lparr>bk_km := km2\<rparr>))))"
      using assms(3) c Inr fc len by (simp add: blkdevm_enumerate_partitions_def)
    obtain st s3 where ap: "add_partitions dev bd pt (pt_entries pt) ?s1 = Some (Ret (st, s3))"
      and ac: "st = Inl ENOMEM \<or> (st = Inr () \<and> blkdevs s3 = blkdevs ?s1 \<and> (\<exists>live' es. blk_ok ma heap live' s3 (ds @ es) \<and> pt_live ma live' pt \<and>
         (\<forall>d. now d \<noteq> None \<longrightarrow> mblkdevs s3 d = mblkdevs ?s1 d) \<and>
         list_all2 (\<lambda>p d. \<exists>mb. mblkdevs s3 d = Some mb \<and> is_partition dev bd p mb) (pt_entries pt) es))"
      using add_partitions_ok [OF ok1 assms(2) ptl sfx, of dev bd] by blast
    show ?thesis
    proof (cases "st = Inl ENOMEM")
      case True
      then show ?thesis using run ap by simp
    next
      case False
      then obtain live' es where st: "st = Inr ()" "blkdevs s3 = blkdevs s" and ok3: "blk_ok ma heap live' s3 (ds @ es)" and pl: "pt_live ma live' pt"
        and old: "\<forall>d. now d \<noteq> None \<longrightarrow> mblkdevs s3 d = mblkdevs s d"
        and new: "list_all2 (\<lambda>p d. \<exists>mb. mblkdevs s3 d = Some mb \<and> is_partition dev bd p mb) (pt_entries pt) es"
        using ac by auto
      obtain km4 where km4: "partitiontable_destroy pt (bk_km s3) = Some (Ret km4)"
        using pt_live_destroy [OF pl, of "bk_km s3" heap] ok3 unfolding blk_ok_def by blast
      let ?s4 = "s3\<lparr>bk_km := km4\<rparr>"
      have l: "length (pt_entries pt) = length ?used" using arg_cong [OF view, of length] by simp
      have "\<forall>i < length ?used. \<exists>mb. mblkdevs ?s4 (es ! i) = Some mb \<and>
            mb_offset mb = unat (lba_start (?used ! i)) \<and> mb_sector_count mb = unat (sector_count (?used ! i)) \<and>
            mb_parent mb = dev \<and> map_option snd (mb_suffix mb) = Some (suffix_text i)"
        using list_all2_nthD [OF new] entries_nth [OF view refl] l by (fastforce simp: is_partition_def)
      moreover have "length es = length ?used" using list_all2_lengthD [OF new] l by simp
      moreover have "\<forall>d \<in> set ds. mblkdevs ?s4 d = mblkdevs s d" using old sub inv(4) by auto
      moreover have "ll_walk (bk_nodes ?s4) (root (g_mountable_blkdevs ?s4)) [] = Some (Ret (ds @ es))"
        using walk_ok [OF ok3] by simp
      moreover have "blkdevm_enumerate_partitions E dev s = Some (Ret (Inr (), ?s4))" using run ap st(1) km4 by simp
      moreover have "blkdevs ?s4 = blkdevs s" using st(2) by simp
      ultimately show ?thesis unfolding Let_def by blast
    qed
  qed
qed

text \<open>
  C22: partitions are found under their names. When the disk \<open>N\<close> with a valid master boot record has not been enumerated
  before and nothing else has one of the new names, \<open>blkdevm_enumerate_partitions\<close> returns \<open>-ENOMEM\<close> or 0, and in the
  second case looking for the disk's name followed by \<open>p0\<close>, \<open>p1\<close> and so on yields, for every entry in use of the
  record, a device with the first sector and the size of that entry on that disk.
\<close>
theorem enumerate_then_find:
  assumes "blk_ok ma heap live s ds" and "small_heap ma heap" and "blkdevs s dev = Some bd" and "sectorsize bd < W32"
    and "dev_read E dev 0 1 (bk_priv s) = (Inr bs, x1)" and "512 \<le> length bs" and "mbr_validate (mbr_of_bytes bs) = Inr ()"
    and "\<forall>d \<in> set ds. \<exists>mb. mblkdevs s d = Some mb \<and> mb_parent mb \<noteq> dev"
    and "bd_name bd = Some (a, name)" and "length name \<le> 126"
    and "\<forall>d \<in> set ds. \<exists>n. named s d n \<and> (\<forall>i < 4. n \<noteq> Some (name @ suffix_text i))"
  shows "\<exists>r s'. blkdevm_enumerate_partitions E dev s = Some (Ret (r, s')) \<and> (r = Inl ENOMEM \<or> (r = Inr () \<and>
    (let us = filter (\<lambda>p. \<not> unallocated p) (partitions (mbr_of_bytes bs)) in
       \<forall>i < length us. \<exists>d mb. blkdevm_find_mountable_blkdev_by_name (name @ suffix_text i) s' = Some (Ret (Some d)) \<and>
         mblkdevs s' d = Some mb \<and> mb_parent mb = dev \<and>
         mb_offset mb = unat (lba_start (us ! i)) \<and> mb_sector_count mb = unat (sector_count (us ! i)))))"
proof -
  let ?us = "filter (\<lambda>p. \<not> unallocated p) (partitions (mbr_of_bytes bs))"
  have four: "length ?us \<le> 4"
    using length_filter_le [of "\<lambda>p. \<not> unallocated p" "partitions (mbr_of_bytes bs)"] by (simp add: mbr_of_bytes_def)
  obtain r s' where run: "blkdevm_enumerate_partitions E dev s = Some (Ret (r, s'))"
    and res: "r = Inl ENOMEM \<or> (r = Inr () \<and> blkdevs s' = blkdevs s \<and> (\<exists>es.
       ll_walk (bk_nodes s') (root (g_mountable_blkdevs s')) [] = Some (Ret (ds @ es)) \<and>
       (\<forall>d \<in> set ds. mblkdevs s' d = mblkdevs s d) \<and>
       (let us = ?us in
          length es = length us \<and> (\<forall>i < length us. \<exists>mb. mblkdevs s' (es ! i) = Some mb \<and>
            mb_offset mb = unat (lba_start (us ! i)) \<and> mb_sector_count mb = unat (sector_count (us ! i)) \<and>
            mb_parent mb = dev \<and> map_option snd (mb_suffix mb) = Some (suffix_text i)))))"
    using enumerate_ok [OF assms(1-8)] by (elim exE conjE) (rule that)
  have found: "\<forall>i < length ?us. \<exists>d mb. blkdevm_find_mountable_blkdev_by_name (name @ suffix_text i) s' = Some (Ret (Some d)) \<and>
         mblkdevs s' d = Some mb \<and> mb_parent mb = dev \<and>
         mb_offset mb = unat (lba_start (?us ! i)) \<and> mb_sector_count mb = unat (sector_count (?us ! i))" if ret: "r = Inr ()"
  proof (intro allI impI)
    fix i assume i: "i < length ?us"
    obtain es where bl: "blkdevs s' = blkdevs s" and w: "ll_walk (bk_nodes s') (root (g_mountable_blkdevs s')) [] = Some (Ret (ds @ es))"
      and old: "\<forall>d \<in> set ds. mblkdevs s' d = mblkdevs s d" and len: "length es = length ?us"
      and new: "\<forall>i < length ?us. \<exists>mb. mblkdevs s' (es ! i) = Some mb \<and>
            mb_offset mb = unat (lba_start (?us ! i)) \<and> mb_sector_count mb = unat (sector_count (?us ! i)) \<and>
            mb_parent mb = dev \<and> map_option snd (mb_suffix mb) = Some (suffix_text i)"
      using res ret unfolding Let_def by (elim disjE) (simp, blast)
    have nm: "named s' (es ! j) (Some (name @ suffix_text j))" if jl: "j < length ?us" for j
    proof -
      obtain mb where "mblkdevs s' (es ! j) = Some mb" "mb_parent mb = dev" "map_option snd (mb_suffix mb) = Some (suffix_text j)"
        using new [rule_format, OF jl] by blast
      moreover have "length (suffix_text j) = 2" using suffix_length [of j] jl four by simp
      ultimately show ?thesis using assms(3,9,10) bl by (auto simp: named_def)
    qed
    have "\<forall>j < length ds + i. \<exists>n. named s' ((ds @ es) ! j) n \<and> n \<noteq> Some (name @ suffix_text i)"
    proof (intro allI impI)
      fix j assume j: "j < length ds + i"
      show "\<exists>n. named s' ((ds @ es) ! j) n \<and> n \<noteq> Some (name @ suffix_text i)"
      proof (cases "j < length ds")
        case True
        then have "ds ! j \<in> set ds" by simp
        then obtain n where "named s (ds ! j) n" "n \<noteq> Some (name @ suffix_text i)" using assms(11) i four by fastforce
        moreover have "named s' (ds ! j) n"
          using \<open>named s (ds ! j) n\<close> \<open>ds ! j \<in> set ds\<close> old bl by (simp add: named_def)
        ultimately show ?thesis using True by (auto simp: nth_append)
      next
        case False
        then have "j - length ds < length ?us" "j - length ds \<noteq> i" using j i by simp_all
        then have "named s' (es ! (j - length ds)) (Some (name @ suffix_text (j - length ds)))"
          "suffix_text (j - length ds) \<noteq> suffix_text i" using nm suffix_inj i four by simp_all
        then show ?thesis using False by (auto simp: nth_append)
      qed
    qed
    then have "find_mname (name @ suffix_text i) s' (ds @ es) = Ret (Some (es ! i))"
      using find_mname_nth [of "length ds + i" "ds @ es" s' "name @ suffix_text i"] nm [OF i] i len by simp
    then have "blkdevm_find_mountable_blkdev_by_name (name @ suffix_text i) s' = Some (Ret (Some (es ! i)))"
      using w by (simp add: blkdevm_find_mountable_blkdev_by_name_def)
    then show "\<exists>d mb. blkdevm_find_mountable_blkdev_by_name (name @ suffix_text i) s' = Some (Ret (Some d)) \<and>
         mblkdevs s' d = Some mb \<and> mb_parent mb = dev \<and>
         mb_offset mb = unat (lba_start (?us ! i)) \<and> mb_sector_count mb = unat (sector_count (?us ! i))"
      using new [rule_format, OF i] by blast
  qed
  have "r = Inl ENOMEM \<or> r = Inr ()" using res by blast
  then show ?thesis using run found unfolding Let_def by blast
qed

text \<open>
  The disk \<open>hda\<close> with one partition, on a heap of one page: if there is enough memory, \<open>hdap0\<close> is found.
\<close>
theorem enumerate_then_find_witness:
  "let s = \<lparr>bk_km = demo_state, bk_nodes = Map.empty, g_blkdev_drivers = linkedlist_init, g_mountable_blkdevs = linkedlist_init,
            drv_blkdevs = (\<lambda>_. linkedlist_init), blkdevs = [64 \<mapsto> demo_disk], mblkdevs = Map.empty, bk_priv = ()\<rparr>
   in \<exists>r s'. blkdevm_enumerate_partitions demo_ops 64 s = Some (Ret (r, s')) \<and> (r = Inl ENOMEM \<or>
     (\<exists>d mb. blkdevm_find_mountable_blkdev_by_name ''hdap0'' s' = Some (Ret (Some d)) \<and> mblkdevs s' d = Some mb \<and>
        mb_parent mb = 64 \<and> mb_offset mb = 2048 \<and> mb_sector_count mb = 4096))"
proof -
  let ?s = "\<lparr>bk_km = demo_state, bk_nodes = Map.empty, g_blkdev_drivers = linkedlist_init, g_mountable_blkdevs = linkedlist_init,
            drv_blkdevs = (\<lambda>_. linkedlist_init), blkdevs = [64 \<mapsto> demo_disk], mblkdevs = Map.empty, bk_priv = ()\<rparr>"
  have ok: "blk_ok 16 demo_heap Map.empty ?s []"
    using demo_km_ok linkedlist_init_repr [of Map.empty] by (simp add: blk_ok_def nodes_live_def ll_repr_def)
  have "\<exists>r s'. blkdevm_enumerate_partitions demo_ops 64 ?s = Some (Ret (r, s')) \<and> (r = Inl ENOMEM \<or> (r = Inr () \<and>
    (let us = filter (\<lambda>p. \<not> unallocated p) (partitions (mbr_of_bytes demo_sector)) in
       \<forall>i < length us. \<exists>d mb. blkdevm_find_mountable_blkdev_by_name (''hda'' @ suffix_text i) s' = Some (Ret (Some d)) \<and>
         mblkdevs s' d = Some mb \<and> mb_parent mb = 64 \<and>
         mb_offset mb = unat (lba_start (us ! i)) \<and> mb_sector_count mb = unat (sector_count (us ! i)))))"
    by (rule enumerate_then_find [OF ok demo_disk_small _ demo_reads(3) _ demo_reads(2) demo_valid])
      (simp_all add: demo_ops_def demo_disk_def)
  then show ?thesis unfolding demo_used Let_def
    by (auto simp: demo_partition suffix_text_def)
qed

end
