(* ===== verification/FatCore.thy ===== *)
theory FatCore
  imports Mbr User Bitwise
begin

text \<open>
  The FAT32 driver without directories: \<^verbatim>\<open>drivers/fs/fat/fat.c\<close> and \<^verbatim>\<open>drivers/fs/fat/fat_read.c\<close>. The partition is read
  through the modelled \<open>partition_generic_read\<close>; the device below it is a function from sectors to bytes or an error
  that does not change. Buffers are allocated and freed on the modelled heap, their contents are lists of bytes. A
  division by zero and the use of bytes that were not read are faults, the outcome \<open>Panic\<close>.
\<close>

section \<open>On-disk structures and the context\<close>

datatype FatType = FAT12 | FAT16 | FAT32

record FatBootRecord =
  bpb_sectorsize :: nat
  bpb_sectors_per_cluster :: nat
  bpb_reserved_sector_count :: nat
  bpb_fat_count :: nat
  bpb_root_dir_entries_count :: nat
  bpb_sector_count16 :: nat
  bpb_sectors_per_fat16 :: nat
  bpb_sectors_count32 :: nat

record Fat32BootRecord =
  bpb_sectors_per_fat32 :: nat
  bpb_root_dir_cluster :: nat

definition bpb_of :: "u8 list \<Rightarrow> FatBootRecord" where
  "bpb_of bs =
     \<lparr>bpb_sectorsize = unat (le16 bs 11), bpb_sectors_per_cluster = unat (bs ! 13), bpb_reserved_sector_count = unat (le16 bs 14),
      bpb_fat_count = unat (bs ! 16), bpb_root_dir_entries_count = unat (le16 bs 17), bpb_sector_count16 = unat (le16 bs 19),
      bpb_sectors_per_fat16 = unat (le16 bs 22), bpb_sectors_count32 = unat (le32 bs 32)\<rparr>"

definition bpb32_of :: "u8 list \<Rightarrow> Fat32BootRecord" where
  "bpb32_of bs = \<lparr>bpb_sectors_per_fat32 = unat (le32 bs 36), bpb_root_dir_cluster = unat (le32 bs 44)\<rparr>"

record FAT32Ctx =
  c_sectorsize :: nat
  c_sectors_per_fat :: nat
  c_sectors_per_cluster :: nat
  c_sector_count :: nat
  c_data_sector_count :: nat
  c_cluster_count :: nat
  c_root_dir_sector_count :: nat
  c_root_dir_cluster :: nat
  c_reserved_sector_count :: nat
  c_first_data_sector :: nat
  c_type :: FatType
  c_clustersize :: nat
  c_entries_per_clusterdir :: nat
  c_blkdev :: MountableBlockDevice

record FATEntryLoc =
  loc_cluster :: nat
  loc_offset :: nat
  loc_read_next :: bool

text \<open>A call of \<open>part->read\<close>: the bytes of \<open>n\<close> sectors from \<open>lba\<close> on.\<close>

definition part_read :: "unit blkdev_ops \<Rightarrow> MountableBlockDevice \<Rightarrow> nat \<Rightarrow> nat \<Rightarrow> u8 list result" where
  "part_read E mb lba n = fst (partition_generic_read E mb lba n ())"

section \<open>The file allocation table\<close>

definition fat_entry_for_clus :: "unit blkdev_ops \<Rightarrow> nat \<Rightarrow> FAT32Ctx \<Rightarrow> nat result outcome" where
  "fat_entry_for_clus E clus ctx =
     (let fat_offset = (if c_type ctx = FAT32 then mul32 clus 4 else mul32 clus 2) in
      if c_sectorsize ctx = 0 then Panic
      else
        let sec = add32 (c_reserved_sector_count ctx) (fat_offset div c_sectorsize ctx);
            off = fat_offset mod c_sectorsize ctx
        in case part_read E (c_blkdev ctx) sec 1 of
             Inl e \<Rightarrow> Ret (Inl e)
           | Inr bs \<Rightarrow> if length bs < off + 4 then Panic else Ret (Inr (unat (le32 bs off))))"

definition FAT_CLUSTER_FREE :: int where "FAT_CLUSTER_FREE = 0"
definition FAT_CLUSTER_USED :: int where "FAT_CLUSTER_USED = 1"
definition FAT_CLUSTER_RESERVED :: int where "FAT_CLUSTER_RESERVED = 2"
definition FAT_CLUSTER_BAD :: int where "FAT_CLUSTER_BAD = 3"
definition FAT_CLUSTER_EOF :: int where "FAT_CLUSTER_EOF = 4"
definition FAT_CLUSTER_BROKEN :: int where "FAT_CLUSTER_BROKEN = 5"

definition fat_cluster_type :: "unit blkdev_ops \<Rightarrow> nat \<Rightarrow> FAT32Ctx \<Rightarrow> int result outcome" where
  "fat_cluster_type E cluster ctx =
     bind_outcome (fat_entry_for_clus E cluster ctx) (\<lambda>r.
       case r of
         Inl e \<Rightarrow> Ret (Inl e)
       | Inr fat \<Rightarrow> Ret (Inr
           (if fat = 0 then FAT_CLUSTER_FREE
            else if fat \<le> c_cluster_count ctx then FAT_CLUSTER_USED
            else if fat \<le> 0xFFFFFF6 then FAT_CLUSTER_RESERVED
            else if fat = 0xFFFFFF7 then FAT_CLUSTER_BAD
            else if fat \<ge> 0xFFFFFF8 then FAT_CLUSTER_EOF
            else FAT_CLUSTER_BROKEN)))"

definition fat_cluster_to_sector :: "nat \<Rightarrow> FAT32Ctx \<Rightarrow> nat" where
  "fat_cluster_to_sector cluster ctx =
     add32 (mul32 (sub32 cluster 2) (c_sectors_per_cluster ctx)) (c_first_data_sector ctx)"

definition fat_read_one_cluster :: "unit blkdev_ops \<Rightarrow> nat \<Rightarrow> FAT32Ctx \<Rightarrow> u8 list result" where
  "fat_read_one_cluster E clus ctx =
     part_read E (c_blkdev ctx) (fat_cluster_to_sector clus ctx) (c_sectors_per_cluster ctx)"

text \<open>The offset of a location is a \<open>u8\<close>.\<close>

definition fat_advance_loc :: "FAT32Ctx \<Rightarrow> FATEntryLoc \<Rightarrow> FATEntryLoc" where
  "fat_advance_loc ctx loc =
     (if loc_offset loc + 1 = c_entries_per_clusterdir ctx then loc\<lparr>loc_offset := 0, loc_read_next := True\<rparr>
      else loc\<lparr>loc_offset := (loc_offset loc + 1) mod 256, loc_read_next := False\<rparr>)"

definition fat_advance_loc_clus :: "unit blkdev_ops \<Rightarrow> FATEntryLoc \<Rightarrow> FAT32Ctx \<Rightarrow> FATEntryLoc result outcome" where
  "fat_advance_loc_clus E loc ctx =
     bind_outcome (fat_entry_for_clus E (loc_cluster loc) ctx) (\<lambda>r.
       case r of
         Inl e \<Rightarrow> Ret (Inl e)
       | Inr nxt \<Rightarrow>
           if 2 \<le> nxt \<and> nxt \<le> c_cluster_count ctx then Ret (Inr (loc\<lparr>loc_cluster := nxt, loc_read_next := False\<rparr>))
           else Ret (Inl EINVAL))"

text \<open>An error of the table read is converted to \<open>u32\<close>, and so is no valid cluster.\<close>

definition fat_next_clus :: "unit blkdev_ops \<Rightarrow> nat \<Rightarrow> FAT32Ctx \<Rightarrow> nat result outcome" where
  "fat_next_clus E clus ctx =
     bind_outcome (fat_entry_for_clus E clus ctx) (\<lambda>r.
       let next_clus = (case r of Inl e \<Rightarrow> 4294967296 - errno_code e | Inr v \<Rightarrow> v) in
       if 2 \<le> next_clus \<and> next_clus \<le> c_cluster_count ctx then Ret (Inr next_clus) else Ret (Inl EINVAL))"

section \<open>Mounting\<close>

definition fat_parse :: "u8 list \<Rightarrow> MountableBlockDevice \<Rightarrow> FAT32Ctx outcome" where
  "fat_parse bs mb =
     (let bpb = bpb_of bs; bpb32 = bpb32_of bs;
          spf = (if bpb_sectors_per_fat16 bpb = 0 then bpb_sectors_per_fat32 bpb32 else bpb_sector_count16 bpb);
          total = max (bpb_sector_count16 bpb) (bpb_sectors_count32 bpb)
      in if bpb_sectorsize bpb = 0 \<or> bpb_sectors_per_cluster bpb = 0 then Panic
         else
           let root = ((bpb_root_dir_entries_count bpb * 32 + (bpb_sectorsize bpb - 1)) div bpb_sectorsize bpb) mod 65536;
               before = add32 (add32 (bpb_reserved_sector_count bpb) (mul32 (bpb_fat_count bpb) spf)) root;
               data_sectors = sub32 total before;
               clusters = data_sectors div bpb_sectors_per_cluster bpb;
               type = (if clusters < 4085 then FAT12 else if clusters < 65525 then FAT16 else FAT32);
               csize = bpb_sectors_per_cluster bpb * bpb_sectorsize bpb
           in Ret \<lparr>c_sectorsize = bpb_sectorsize bpb, c_sectors_per_fat = spf, c_sectors_per_cluster = bpb_sectors_per_cluster bpb,
                   c_sector_count = total, c_data_sector_count = data_sectors, c_cluster_count = clusters,
                   c_root_dir_sector_count = root,
                   c_root_dir_cluster = (if type = FAT32 then bpb_root_dir_cluster bpb32 else 0),
                   c_reserved_sector_count = bpb_reserved_sector_count bpb, c_first_data_sector = before, c_type = type,
                   c_clustersize = csize, c_entries_per_clusterdir = csize div 32, c_blkdev = mb\<rparr>)"

text \<open>The calls around a buffer for one sector: its bytes are given to \<open>k\<close>.\<close>

definition with_sector :: "unit blkdev_ops \<Rightarrow> MountableBlockDevice \<Rightarrow> kmstate \<Rightarrow> (u8 list \<Rightarrow> 'r result outcome)
    \<Rightarrow> ('r result \<times> kmstate) outcome option" where
  "with_sector E mb km k =
     bind_run (kmalloc (mb_sectorsize mb) km) (\<lambda>(buf, km1).
       case buf of
         None \<Rightarrow> Some (Ret (Inl ENOMEM, km1))
       | Some b \<Rightarrow>
           (case part_read E mb 0 1 of
              Inl e \<Rightarrow> bind_run (kfree (Some b) km1) (\<lambda>km2. Some (Ret (Inl e, km2)))
            | Inr bs \<Rightarrow>
                if length bs < 90 then Some Panic
                else bind_run (Some (k bs)) (\<lambda>r. bind_run (kfree (Some b) km1) (\<lambda>km2. Some (Ret (r, km2))))))"

definition fat_parse_metadata :: "unit blkdev_ops \<Rightarrow> MountableBlockDevice \<Rightarrow> kmstate \<Rightarrow> (FAT32Ctx result \<times> kmstate) outcome option" where
  "fat_parse_metadata E mb km =
     with_sector E mb km (\<lambda>bs. bind_outcome (fat_parse bs mb) (\<lambda>ctx. Ret (Inr ctx)))"

definition fat_validate_sector :: "u8 list \<Rightarrow> MountableBlockDevice \<Rightarrow> unit result" where
  "fat_validate_sector bs mb =
     (let bpb = bpb_of bs; bpb32 = bpb32_of bs in
      if bpb_sectorsize bpb \<noteq> mb_sectorsize mb then Inl EINVAL
      else if ((bpb_sectors_per_fat16 bpb = 0 \<and> bpb_sectors_per_fat32 bpb32 \<noteq> 0) \<or> bpb_sectors_per_fat16 bpb \<noteq> 0)
          \<and> bpb_sectorsize bpb \<in> {512, 1024, 2048, 4096} then Inr ()
      else Inl EINVAL)"

definition fat_validate :: "unit blkdev_ops \<Rightarrow> MountableBlockDevice \<Rightarrow> kmstate \<Rightarrow> (unit result \<times> kmstate) outcome option" where
  "fat_validate E mb km = with_sector E mb km (\<lambda>bs. Ret (fat_validate_sector bs mb))"

section \<open>Reading a file\<close>

primrec skip_clusters :: "unit blkdev_ops \<Rightarrow> FAT32Ctx \<Rightarrow> nat \<Rightarrow> nat \<Rightarrow> nat result outcome" where
  "skip_clusters E ctx 0 cluster = Ret (Inr cluster)"
| "skip_clusters E ctx (Suc k) cluster =
     bind_outcome (fat_next_clus E cluster ctx) (\<lambda>r.
       case r of Inl e \<Rightarrow> Ret (Inl e) | Inr c \<Rightarrow> skip_clusters E ctx k c)"

text \<open>The loop that reads the clusters, and after each of them steps on in the table; \<open>acc\<close> is what is in the buffer.\<close>

partial_function (option) read_clusters :: "unit blkdev_ops \<Rightarrow> FAT32Ctx \<Rightarrow> nat \<Rightarrow> nat \<Rightarrow> u8 list \<Rightarrow> u8 list result outcome option" where
  "read_clusters E ctx working_size cluster acc =
     (if working_size = 0 then Some (Ret (Inr acc))
      else
        (case fat_read_one_cluster E cluster ctx of
           Inl e \<Rightarrow> Some (Ret (Inl e))
         | Inr bs \<Rightarrow>
             (case fat_next_clus E cluster ctx of
                Panic \<Rightarrow> Some Panic
              | Ret (Inl e) \<Rightarrow> Some (Ret (Inl e))
              | Ret (Inr c) \<Rightarrow> read_clusters E ctx (sub32 working_size (c_clustersize ctx)) c (acc @ bs))))"

text \<open>
  \<open>vn\<close> and \<open>vsize\<close> are the first cluster and the size of the file, \<open>off\<close> is the offset as the unsigned number it is
  compared as. The copy starts at \<open>off\<close> in the buffer; outside of the buffer it is a fault. Its result is not looked at.
\<close>

definition fat_read :: "unit blkdev_ops \<Rightarrow> nat \<Rightarrow> nat \<Rightarrow> FAT32Ctx \<Rightarrow> addr \<Rightarrow> nat \<Rightarrow> nat \<Rightarrow> user_mem \<times> kmstate
    \<Rightarrow> (nat result \<times> user_mem \<times> kmstate) outcome option" where
  "fat_read E vn vsize ctx buf n off s =
     (if n = 0 \<or> off \<ge> vsize then Some (Ret (Inr 0, s))
      else
        let um = fst s; km = snd s; n1 = min n (vsize - off) in
        bind_run (kmalloc (c_sectorsize ctx) km) (\<lambda>(p, km1).
          case p of
            None \<Rightarrow> Some (Ret (Inl ENOMEM, um, km1))
          | Some fatbuf \<Rightarrow>
              if c_clustersize ctx = 0 then Some Panic
              else
                bind_run (Some (skip_clusters E ctx (off div c_clustersize ctx) vn)) (\<lambda>sk.
                  case sk of
                    Inl e \<Rightarrow> bind_run (kfree (Some fatbuf) km1) (\<lambda>km2. Some (Ret (Inl e, um, km2)))
                  | Inr cluster \<Rightarrow>
                      let working_size = bytes_align_up64 (add32 n1 (off mod c_clustersize ctx)) (c_clustersize ctx) mod 4294967296 in
                      bind_run (kmalloc working_size km1) (\<lambda>(q, km2).
                        case q of
                          None \<Rightarrow> bind_run (kfree (Some fatbuf) km2) (\<lambda>km3. Some (Ret (Inl ENOMEM, um, km3)))
                        | Some clusbuf \<Rightarrow>
                            bind_run (read_clusters E ctx working_size cluster []) (\<lambda>rd.
                              case rd of
                                Inl e \<Rightarrow>
                                  bind_run (kfree (Some clusbuf) km2) (\<lambda>km3.
                                  bind_run (kfree (Some fatbuf) km3) (\<lambda>km4. Some (Ret (Inl e, um, km4))))
                              | Inr bytes \<Rightarrow>
                                  if off + n1 > length bytes then Some Panic
                                  else
                                    let um1 = snd (user_copy_to um buf (slice off n1 bytes)) in
                                    bind_run (kfree (Some fatbuf) km2) (\<lambda>km3.
                                    bind_run (kfree (Some clusbuf) km3) (\<lambda>km4. Some (Ret (Inr n1, um1, km4)))))))))"

end
