(* ===== verification/FatDir.thy ===== *)
theory FatDir
  imports FatCore KString
begin

text \<open>
  Directories of the FAT32 driver, \<^verbatim>\<open>drivers/fs/fat/fat_dir.c\<close>, up to the reading of one entry into a vnode. An entry
  is its 32 bytes; \<open>FATEntry\<close> and \<open>FATLFNEntry\<close> are the two packed structures over them. Characters of the target
  are signed. The name buffer of a long name is a list of bytes; a write outside of it is the outcome \<open>Panic\<close>.
\<close>

section \<open>Directory entries\<close>

record FATEntry =
  e_name :: "u8 list"
  e_ext :: "u8 list"
  e_attributes :: u8
  e_cluster_hi :: u16
  e_cluster_lo :: u16
  e_file_size :: u32

record FATLFNEntry =
  l_order :: u8
  l_name1 :: "u16 list"
  l_name2 :: "u16 list"
  l_name3 :: "u16 list"

definition entry_of :: "u8 list \<Rightarrow> FATEntry" where
  "entry_of bs =
     \<lparr>e_name = slice 0 8 bs, e_ext = slice 8 3 bs, e_attributes = bs ! 11, e_cluster_hi = le16 bs 20,
      e_cluster_lo = le16 bs 26, e_file_size = le32 bs 28\<rparr>"

definition lfn_of :: "u8 list \<Rightarrow> FATLFNEntry" where
  "lfn_of bs =
     \<lparr>l_order = bs ! 0, l_name1 = map (\<lambda>k. le16 bs (1 + 2 * k)) [0..<5], l_name2 = map (\<lambda>k. le16 bs (14 + 2 * k)) [0..<6],
      l_name3 = map (\<lambda>k. le16 bs (28 + 2 * k)) [0..<2]\<rparr>"

definition FAT_ENTRY_VOL_ID :: u8 where "FAT_ENTRY_VOL_ID = 0x08"
definition FAT_ENTRY_DIR :: u8 where "FAT_ENTRY_DIR = 0x10"
definition FAT_ENTRY_LFN :: u8 where "FAT_ENTRY_LFN = 0x0F"

definition fat_read_one_entry :: "u8 list \<Rightarrow> nat \<Rightarrow> u8 list outcome" where
  "fat_read_one_entry clustersrc idx =
     (if length clustersrc < idx * 32 + 32 then Panic else Ret (slice (idx * 32) 32 clustersrc))"

definition fat_entry_is_last_in_dir :: "FATEntry \<Rightarrow> bool" where
  "fat_entry_is_last_in_dir e \<longleftrightarrow> e_name e ! 0 = 0"

definition fat_is_entry_deleted :: "FATEntry \<Rightarrow> bool" where
  "fat_is_entry_deleted e \<longleftrightarrow> e_name e ! 0 = 0xE5"

definition fat_is_dot_or_dotdot :: "u8 list \<Rightarrow> bool" where
  "fat_is_dot_or_dotdot name =
     (if name ! 1 = 32 then name ! 0 = 46
      else if name ! 2 = 32 then name ! 0 = 46 \<and> name ! 1 = 46
      else False)"

section \<open>Legacy names\<close>

abbreviation until_space :: "u8 list \<Rightarrow> u8 list" where
  "until_space \<equiv> takeWhile (\<lambda>c. c \<noteq> 32)"

definition fat_legacy_name_size :: "FATEntry \<Rightarrow> nat" where
  "fat_legacy_name_size e =
     (let size1 = length (until_space (e_name e));
          size2 = size1 + length (until_space (e_ext e))
      in (if until_space (e_ext e) \<noteq> [] then size2 + 1 else size2) + 1)"

definition lower :: "u8 \<Rightarrow> u8" where
  "lower c = (if isupper (sint c) then word_of_int (tolower (sint c)) else c)"

definition c_str :: "u8 list \<Rightarrow> u8 list" where
  "c_str bs = takeWhile (\<lambda>c. c \<noteq> 0) bs"

text \<open>The characters in front of the terminator that the destination holds.\<close>

definition fat_copy_legacy_name :: "FATEntry \<Rightarrow> u8 list" where
  "fat_copy_legacy_name e =
     (let nm = map lower (until_space (e_name e));
          ext = map lower (until_space (e_ext e));
          has_ext = (until_space (e_ext e) \<noteq> [])
      in if has_ext then c_str nm @ [46] @ c_str ext else c_str nm)"

section \<open>Long names\<close>

definition fat_lfn_entries_count :: "FATLFNEntry \<Rightarrow> nat" where
  "fat_lfn_entries_count l = unat (l_order l AND NOT 0x40)"

definition fat_lfn_name_size :: "FATLFNEntry \<Rightarrow> nat" where
  "fat_lfn_name_size l = unat (l_order l AND NOT 0x40) * 13 + 1"

text \<open>One group of characters, read until a terminator or padding.\<close>

definition lfn_chars :: "u16 list \<Rightarrow> u8 list" where
  "lfn_chars cs = map ucast (takeWhile (\<lambda>c. \<not> (c = 0 \<or> c = 0xFFFF)) cs)"

definition lfn_part :: "FATLFNEntry \<Rightarrow> u8 list" where
  "lfn_part l = lfn_chars (l_name1 l) @ lfn_chars (l_name2 l) @ lfn_chars (l_name3 l)"

definition put_name :: "nat \<Rightarrow> u8 list \<Rightarrow> u8 list \<Rightarrow> u8 list outcome" where
  "put_name i bs dest =
     (if i + length bs \<le> length dest then Ret (take i dest @ bs @ drop (i + length bs) dest) else Panic)"

text \<open>The next cluster is looked up when the location says so. The location is advanced even if the cluster is not a good one.\<close>

definition fat_dir_next :: "unit blkdev_ops \<Rightarrow> FAT32Ctx \<Rightarrow> FATEntryLoc \<Rightarrow> (unit result \<times> FATEntryLoc) outcome" where
  "fat_dir_next E ctx loc =
     (if \<not> loc_read_next loc then Ret (Inr (), loc)
      else bind_outcome (fat_advance_loc_clus E loc ctx) (\<lambda>r.
        case r of
          Inl e \<Rightarrow> Ret (Inl e, loc)
        | Inr loc1 \<Rightarrow>
            bind_outcome (fat_cluster_type E (loc_cluster loc1) ctx) (\<lambda>type.
              if type = Inr FAT_CLUSTER_USED \<or> type = Inr FAT_CLUSTER_EOF then Ret (Inr (), loc1) else Ret (Inl EINVAL, loc1))))"

text \<open>In the middle of a long name the next cluster is read as well: its bytes in the buffer.\<close>

definition lfn_next_cluster :: "unit blkdev_ops \<Rightarrow> FAT32Ctx \<Rightarrow> FATEntryLoc \<Rightarrow> u8 list
    \<Rightarrow> (u8 list result \<times> FATEntryLoc) outcome" where
  "lfn_next_cluster E ctx loc clusbuf =
     (if \<not> loc_read_next loc then Ret (Inr clusbuf, loc)
      else bind_outcome (fat_dir_next E ctx loc) (\<lambda>(r, loc1).
        case r of
          Inl e \<Rightarrow> Ret (Inl e, loc1)
        | Inr _ \<Rightarrow> Ret (fat_read_one_cluster E (loc_cluster loc1) ctx, loc1)))"

function fat_read_lfns :: "unit blkdev_ops \<Rightarrow> FAT32Ctx \<Rightarrow> nat \<Rightarrow> nat \<Rightarrow> u8 list \<Rightarrow> FATEntryLoc \<Rightarrow> u8 list \<Rightarrow> u8 list
    \<Rightarrow> ((u8 list \<times> u8 list) result \<times> FATEntryLoc) outcome" where
  "fat_read_lfns E ctx total_lfns lfn_entries_read clusbuf loc dest entry =
     (if e_attributes (entry_of entry) \<noteq> FAT_ENTRY_LFN then Ret (Inr (dest, entry), loc)
      else if lfn_entries_read \<ge> total_lfns then Ret (Inl EINVAL, loc)
      else
        (case put_name ((total_lfns - lfn_entries_read - 1) * 13) (lfn_part (lfn_of entry)) dest of
           Panic \<Rightarrow> Panic
         | Ret dest1 \<Rightarrow>
             (case lfn_next_cluster E ctx loc clusbuf of
                Panic \<Rightarrow> Panic
              | Ret (Inl e, loc1) \<Rightarrow> Ret (Inl e, loc1)
              | Ret (Inr clusbuf1, loc1) \<Rightarrow>
                  (case fat_read_one_entry clusbuf1 (loc_offset loc1) of
                     Panic \<Rightarrow> Panic
                   | Ret entry1 \<Rightarrow>
                       fat_read_lfns E ctx total_lfns (lfn_entries_read + 1) clusbuf1 (fat_advance_loc ctx loc1) dest1 entry1))))"
  by pat_completeness auto
termination by (relation "measure (\<lambda>(E, ctx, total_lfns, rd, _). total_lfns - rd)") auto

declare fat_read_lfns.simps [simp del]

section \<open>From an entry to a vnode\<close>

record dir_vnode =
  dv_name :: "kstr option"
  dv_n :: nat
  dv_size :: nat
  dv_mode :: u32

definition zero_dir_vnode :: dir_vnode where
  "zero_dir_vnode = \<lparr>dv_name = None, dv_n = 0, dv_size = 0, dv_mode = 0\<rparr>"

definition FAT_FILE_MODE :: u32 where "FAT_FILE_MODE = 0x1C0 OR 0x20 OR 0x8 OR 4 OR 1"
definition FAT_DIR_MODE :: u32 where "FAT_DIR_MODE = FAT_FILE_MODE OR 0x4000"

definition name_str :: "u8 list \<Rightarrow> string" where
  "name_str bs = map (\<lambda>b. char_of (unat b)) (c_str bs)"

text \<open>The end of every path: the buffers are freed and \<open>st\<close> is returned.\<close>

definition dir_exit :: "addr list \<Rightarrow> 'r \<Rightarrow> FATEntryLoc \<Rightarrow> dir_vnode \<Rightarrow> kmstate
    \<Rightarrow> (('r \<times> FATEntryLoc \<times> dir_vnode) \<times> kmstate) outcome option" where
  "dir_exit bufs st loc v km = bind_run (kfree_all bufs km) (\<lambda>km1. Some (Ret ((st, loc, v), km1)))"

text \<open>The end of the function, after the long name: the fields of the entry, and its own name if there was no long one.\<close>

definition fat_fill_vnode :: "addr \<Rightarrow> addr \<Rightarrow> u8 list \<Rightarrow> FATEntryLoc \<Rightarrow> kstr option \<Rightarrow> kmstate
    \<Rightarrow> ((unit result \<times> FATEntryLoc \<times> dir_vnode) \<times> kmstate) outcome option" where
  "fat_fill_vnode fatbuf clusbuf raw loc name km =
     (let entry = entry_of raw;
          v = \<lparr>dv_name = name, dv_n = unat (word_cat (e_cluster_hi entry) (e_cluster_lo entry) :: u32), dv_size = 0,
               dv_mode = (if e_attributes entry AND FAT_ENTRY_DIR \<noteq> 0 then FAT_DIR_MODE else FAT_FILE_MODE)\<rparr>
      in case name of
           Some _ \<Rightarrow> dir_exit [fatbuf, clusbuf] (Inr ()) loc (v\<lparr>dv_size := unat (e_file_size entry)\<rparr>) km
         | None \<Rightarrow>
             bind_run (kmalloc (fat_legacy_name_size entry) km) (\<lambda>(p, km1).
               case p of
                 None \<Rightarrow> dir_exit [fatbuf, clusbuf] (Inr ()) loc v km1
               | Some a \<Rightarrow>
                   dir_exit [fatbuf, clusbuf] (Inr ()) loc
                     (v\<lparr>dv_name := Some (a, name_str (fat_copy_legacy_name entry)), dv_size := unat (e_file_size entry)\<rparr>) km1))"

text \<open>An entry that was read from the cluster in \<open>clusbuf\<close>, whose bytes are \<open>clus\<close>; \<open>loc\<close> is where it was.\<close>

definition fat_parse_entry :: "unit blkdev_ops \<Rightarrow> FAT32Ctx \<Rightarrow> addr \<Rightarrow> addr \<Rightarrow> u8 list \<Rightarrow> u8 list \<Rightarrow> FATEntryLoc \<Rightarrow> kmstate
    \<Rightarrow> ((unit result \<times> FATEntryLoc \<times> dir_vnode) \<times> kmstate) outcome option" where
  "fat_parse_entry E ctx fatbuf clusbuf clus raw loc km =
     (let entry = entry_of raw; bufs = [fatbuf, clusbuf]; v0 = zero_dir_vnode; loc1 = fat_advance_loc ctx loc in
      if fat_entry_is_last_in_dir entry then dir_exit bufs (Inl ENOENT) loc v0 km
      else if fat_is_entry_deleted entry \<or> fat_is_dot_or_dotdot (e_name entry) then dir_exit bufs (Inl EAGAIN) loc1 v0 km
      else if e_attributes entry = FAT_ENTRY_LFN then
        bind_run (kcalloc (fat_lfn_name_size (lfn_of raw)) km) (\<lambda>(p, km1).
          case p of
            None \<Rightarrow> dir_exit bufs (Inl ENOMEM) loc1 v0 km1
          | Some a \<Rightarrow>
              bind_run (Some (fat_read_lfns E ctx (fat_lfn_entries_count (lfn_of raw)) 0 clus loc1
                  (replicate (fat_lfn_name_size (lfn_of raw)) 0) raw)) (\<lambda>(r, loc2).
                case r of
                  Inl e \<Rightarrow> dir_exit (a # bufs) (Inl e) loc2 v0 km1
                | Inr (dest, raw1) \<Rightarrow> fat_fill_vnode fatbuf clusbuf raw1 loc2 (Some (a, name_str dest)) km1))
      else if e_attributes entry = FAT_ENTRY_VOL_ID then dir_exit bufs (Inl EAGAIN) loc1 v0 km
      else fat_fill_vnode fatbuf clusbuf raw loc1 None km)"

definition fat_dir_entry_to_vnode :: "unit blkdev_ops \<Rightarrow> FAT32Ctx \<Rightarrow> FATEntryLoc \<Rightarrow> kmstate
    \<Rightarrow> ((unit result \<times> FATEntryLoc \<times> dir_vnode) \<times> kmstate) outcome option" where
  "fat_dir_entry_to_vnode E ctx loc km =
     bind_run (kmalloc (mb_sectorsize (c_blkdev ctx)) km) (\<lambda>(p, km1).
       case p of
         None \<Rightarrow> Some (Ret ((Inl ENOMEM, loc, zero_dir_vnode), km1))
       | Some fatbuf \<Rightarrow>
           bind_run (Some (fat_dir_next E ctx loc)) (\<lambda>(nx, loc1).
             case nx of
               Inl e \<Rightarrow> dir_exit [fatbuf] (Inl e) loc1 zero_dir_vnode km1
             | Inr _ \<Rightarrow>
                 bind_run (kmalloc (c_clustersize ctx) km1) (\<lambda>(q, km2).
                   case q of
                     None \<Rightarrow> dir_exit [fatbuf] (Inl ENOMEM) loc1 zero_dir_vnode km2
                   | Some clusbuf \<Rightarrow>
                       (case fat_read_one_cluster E (loc_cluster loc1) ctx of
                          Inl e \<Rightarrow> dir_exit [fatbuf, clusbuf] (Inl e) loc1 zero_dir_vnode km2
                        | Inr clus \<Rightarrow>
                            bind_run (Some (fat_read_one_entry clus (loc_offset loc1))) (\<lambda>raw.
                              fat_parse_entry E ctx fatbuf clusbuf clus raw loc1 km2)))))"

end
