(* ===== verification/FatDirProps.thy ===== *)
theory FatDirProps
  imports FatDir MbrProps
begin

text \<open>
  What \<^verbatim>\<open>drivers/fs/fat/fat_dir.c\<close> achieves: a legacy name fits into the buffer that is allocated for it, a long
  name written in the standard way is read back, and the entry reader leaves nothing allocated but the name.
\<close>

section \<open>Legacy names\<close>

lemma length_c_str: "length (c_str bs) \<le> length bs"
  by (simp add: c_str_def length_takeWhile_le)

lemma lower_nonzero: "c \<noteq> 0 \<Longrightarrow> lower c \<noteq> 0"
proof (rule notI)
  assume c: "c \<noteq> 0" and "lower c = 0"
  then have up: "65 \<le> sint c" and "c + 32 = 0" by (auto simp: lower_def isupper_def tolower_def split: if_splits)
  then have "c = - 32" by (simp add: eq_neg_iff_add_eq_0)
  then show False using up by simp
qed

lemma legacy_name_fits:
  "length (fat_copy_legacy_name e) + 1 \<le> fat_legacy_name_size e"
  using length_c_str [of "map lower (until_space (e_name e))"] length_c_str [of "map lower (until_space (e_ext e))"]
  by (simp add: fat_copy_legacy_name_def fat_legacy_name_size_def Let_def)

section \<open>Long names\<close>

definition lo_byte :: "u16 \<Rightarrow> u8" where "lo_byte u = ucast u"
definition hi_byte :: "u16 \<Rightarrow> u8" where "hi_byte u = ucast (drop_bit 8 u)"
definition unit_bytes :: "u16 \<Rightarrow> u8 list" where "unit_bytes u = [lo_byte u, hi_byte u]"

text \<open>The standard layout: thirteen characters per entry, a terminator and padding after the name.\<close>

definition lfn_units :: "u8 list \<Rightarrow> u16 list" where
  "lfn_units piece = (if length piece = 13 then map ucast piece else map ucast piece @ 0 # replicate (12 - length piece) 0xFFFF)"

definition lfn_entry :: "u8 \<Rightarrow> u8 \<Rightarrow> u16 list \<Rightarrow> u8 list" where
  "lfn_entry ord chk us =
     ord # concat (map unit_bytes (take 5 us)) @ [0x0F, 0, chk] @ concat (map unit_bytes (take 6 (drop 5 us))) @ [0, 0]
       @ concat (map unit_bytes (drop 11 us))"

definition lfn_chunk :: "u8 list \<Rightarrow> nat \<Rightarrow> u8 list" where
  "lfn_chunk name k = take 13 (drop (13 * k) name)"

definition lfn_count :: "u8 list \<Rightarrow> nat" where
  "lfn_count name = (length name + 12) div 13"

text \<open>The entries of a name are stored last part first; the first one has bit 6 of its order set.\<close>

definition lfn_entries :: "u8 \<Rightarrow> u8 list \<Rightarrow> u8 list list" where
  "lfn_entries chk name =
     map (\<lambda>k. lfn_entry (word_of_nat (lfn_count name - k) OR (if k = 0 then 0x40 else 0)) chk (lfn_units (lfn_chunk name (lfn_count name - 1 - k))))
       [0..<lfn_count name]"

lemma cat_unit_bytes [simp]: "word_cat (hi_byte u) (lo_byte u) = (u :: u16)"
  by (rule bit_word_eqI) (auto simp: lo_byte_def hi_byte_def bit_word_cat_iff bit_unsigned_iff bit_drop_bit_eq)

lemma lfn_of_entry:
  assumes "length us = 13"
  shows "lfn_of (lfn_entry ord chk us) =
    \<lparr>l_order = ord, l_name1 = take 5 us, l_name2 = take 6 (drop 5 us), l_name3 = drop 11 us\<rparr>"
    and "e_attributes (entry_of (lfn_entry ord chk us)) = FAT_ENTRY_LFN" and "length (lfn_entry ord chk us) = 32"
proof -
  obtain a b c d e f g h i j k l m where us: "us = [a, b, c, d, e, f, g, h, i, j, k, l, m]"
    using assms by (auto simp: length_Suc_conv numeral_eq_Suc)
  show "lfn_of (lfn_entry ord chk us) =
      \<lparr>l_order = ord, l_name1 = take 5 us, l_name2 = take 6 (drop 5 us), l_name3 = drop 11 us\<rparr>"
    by (simp add: us lfn_of_def lfn_entry_def unit_bytes_def le16_def upt_rec numeral_nat)
  show "e_attributes (entry_of (lfn_entry ord chk us)) = FAT_ENTRY_LFN" "length (lfn_entry ord chk us) = 32"
    by (simp_all add: us entry_of_def lfn_entry_def unit_bytes_def FAT_ENTRY_LFN_def)
qed

lemma narrow_wide [simp]: "(ucast (ucast c :: u16) :: u8) = c"
  by (rule bit_word_eqI) (simp add: bit_unsigned_iff)

lemma ucast_unit: "c \<noteq> 0 \<Longrightarrow> (ucast (c :: u8) :: u16) \<noteq> 0 \<and> (ucast c :: u16) \<noteq> 0xFFFF"
proof (intro conjI notI)
  assume "c \<noteq> 0" and "(ucast c :: u16) = 0"
  then show False using narrow_wide [of c] by simp
next
  assume *: "(ucast c :: u16) = 0xFFFF"
  then have "c = 0xFF" using narrow_wide [of c] by simp
  then show False using * by simp
qed

lemma lfn_chars_padded:
  assumes "0 \<notin> set c" and "set p \<subseteq> {0, 0xFFFF}"
  shows "lfn_chars (map ucast c @ p) = c"
  using assms
proof (induction c)
  case Nil
  then show ?case by (cases p) (auto simp: lfn_chars_def)
next
  case (Cons x c)
  then have "x \<noteq> 0" by auto
  then show ?case using Cons ucast_unit [of x] by (auto simp: lfn_chars_def)
qed

lemma lfn_part_units:
  assumes "length piece \<le> 13" and "0 \<notin> set piece"
  shows "lfn_part (lfn_of (lfn_entry ord chk (lfn_units piece))) = piece"
proof -
  obtain p where us: "lfn_units piece = map ucast piece @ p" and p: "set p \<subseteq> {0, 0xFFFF}" "length (lfn_units piece) = 13"
  proof (cases "length piece = 13")
    case True
    then show ?thesis by (intro that [of "[]"]) (simp_all add: lfn_units_def)
  next
    case False
    then show ?thesis using assms(1) by (intro that [of "0 # replicate (12 - length piece) 0xFFFF"]) (auto simp: lfn_units_def)
  qed
  have *: "lfn_chars (take k (drop i (lfn_units piece))) = take k (drop i piece)" for i k
    using lfn_chars_padded [of "take k (drop i piece)" "take (k - (length piece - i)) (drop (i - length piece) p)"] assms(2) p(1)
    by (auto simp: us take_map drop_map dest: in_set_takeD in_set_dropD)
  have "lfn_chars (take 5 (lfn_units piece)) = take 5 piece" "lfn_chars (drop 11 (lfn_units piece)) = take 2 (drop 11 piece)"
    using * [of 5 0] * [of 2 11] p(2) by simp_all
  moreover have "take 5 piece @ drop 5 (take 11 piece) @ drop 11 piece = piece"
    using append_take_drop_id [of 5 "take 11 piece"] append_take_drop_id [of 11 piece] by (simp flip: append_assoc)
  ultimately show ?thesis using assms(1) * [of 6 5] p(2)
    by (simp add: lfn_of_entry(1) lfn_part_def take_drop)
qed

text \<open>The buffer after the last \<open>k\<close> of \<open>n\<close> parts were left out.\<close>

definition name_buffer :: "u8 list \<Rightarrow> u8 list" where
  "name_buffer name = name @ replicate (lfn_count name * 13 + 1 - length name) 0"

lemma lfn_count_bounds: "length name \<le> lfn_count name * 13" "name \<noteq> [] \<Longrightarrow> 0 < lfn_count name"
  "length name > 13 * (lfn_count name - 1) \<or> name = []"
  by (auto simp: lfn_count_def neq_Nil_conv)

lemma put_chunk:
  assumes "k < lfn_count name"
  shows "put_name (k * 13) (lfn_chunk name k)
      (replicate (13 * Suc k) 0 @ drop (13 * Suc k) (name_buffer name)) =
    Ret (replicate (13 * k) 0 @ drop (13 * k) (name_buffer name))"
proof -
  let ?b = "name_buffer name" and ?c = "lfn_chunk name k"
  have len: "length ?b = lfn_count name * 13 + 1" using lfn_count_bounds(1) [of name] by (simp add: name_buffer_def)
  have c: "length ?c = min 13 (length name - 13 * k)" by (simp add: lfn_chunk_def)
  have "13 * k \<le> length name"
    using assms lfn_count_bounds(3) [of name] by (auto simp: lfn_count_def)
  then have "take 13 (drop (13 * k) ?b) = ?c @ replicate (13 - length ?c) 0"
    using assms lfn_count_bounds(1) [of name] by (auto simp: name_buffer_def c lfn_chunk_def min_def)
  moreover have "drop (13 * k) ?b = take 13 (drop (13 * k) ?b) @ drop (13 * Suc k) ?b"
    using append_take_drop_id [of 13 "drop (13 * k) ?b"] by (simp add: add.commute)
  moreover have "13 * Suc k \<le> lfn_count name * 13" using assms by simp
  ultimately show ?thesis
    using c len by (auto simp: put_name_def algebra_simps)
qed

lemma lfn_entries_nth:
  assumes "k < lfn_count name" and "0 \<notin> set name"
  shows "lfn_part (lfn_of (lfn_entries chk name ! k)) = lfn_chunk name (lfn_count name - 1 - k)"
    and "e_attributes (entry_of (lfn_entries chk name ! k)) = FAT_ENTRY_LFN"
proof -
  let ?p = "lfn_chunk name (lfn_count name - 1 - k)"
  have p: "length ?p \<le> 13" "0 \<notin> set ?p" "length (lfn_units ?p) = 13"
    using assms(2) by (auto simp: lfn_chunk_def lfn_units_def dest: in_set_takeD in_set_dropD)
  show "lfn_part (lfn_of (lfn_entries chk name ! k)) = ?p" "e_attributes (entry_of (lfn_entries chk name ! k)) = FAT_ENTRY_LFN"
    using assms(1) p lfn_part_units [OF p(1,2)] lfn_of_entry(2) [OF p(3)] by (simp_all add: lfn_entries_def)
qed

text \<open>The position after \<open>k\<close> entries of a name of \<open>n\<close> entries that starts at index \<open>p\<close> of its cluster.\<close>

definition lfn_loc :: "FAT32Ctx \<Rightarrow> nat \<Rightarrow> nat \<Rightarrow> nat \<Rightarrow> nat \<Rightarrow> FATEntryLoc" where
  "lfn_loc ctx c p n k =
     (if k < n then \<lparr>loc_cluster = c, loc_offset = p + k + 1, loc_read_next = False\<rparr>
      else fat_advance_loc ctx \<lparr>loc_cluster = c, loc_offset = p + n, loc_read_next = False\<rparr>)"

text \<open>The entries of a name and the entry of its file lie one after the other in a cluster.\<close>

definition lfn_stored :: "FAT32Ctx \<Rightarrow> u8 \<Rightarrow> u8 list \<Rightarrow> nat \<Rightarrow> u8 list \<Rightarrow> u8 list \<Rightarrow> bool" where
  "lfn_stored ctx chk name p clus short \<longleftrightarrow>
     (\<forall>k < lfn_count name. slice ((p + k) * 32) 32 clus = lfn_entries chk name ! k) \<and>
     slice ((p + lfn_count name) * 32) 32 clus = short \<and> (p + lfn_count name + 1) * 32 \<le> length clus \<and>
     p + lfn_count name < c_entries_per_clusterdir ctx \<and> c_entries_per_clusterdir ctx \<le> 256 \<and>
     e_attributes (entry_of short) \<noteq> FAT_ENTRY_LFN \<and> 0 \<notin> set name"

lemma lfn_loc_next:
  assumes "k < n" and "p + n < c_entries_per_clusterdir ctx" and "c_entries_per_clusterdir ctx \<le> 256"
  shows "fat_advance_loc ctx (lfn_loc ctx c p n k) = lfn_loc ctx c p n (Suc k)"
proof (cases "Suc k < n")
  case True
  then show ?thesis using assms by (simp add: lfn_loc_def fat_advance_loc_def)
next
  case False
  then have "Suc k = n" using assms(1) by simp
  then show ?thesis by (auto simp: lfn_loc_def)
qed

lemma read_lfns:
  assumes st: "lfn_stored ctx chk name p clus short" and "k \<le> lfn_count name"
  shows "fat_read_lfns E ctx (lfn_count name) k clus (lfn_loc ctx c p (lfn_count name) k)
      (replicate (13 * (lfn_count name - k)) 0 @ drop (13 * (lfn_count name - k)) (name_buffer name)) (slice ((p + k) * 32) 32 clus) =
    Ret (Inr (name_buffer name, short), lfn_loc ctx c p (lfn_count name) (lfn_count name))"
  using assms(2)
proof (induction "lfn_count name - k" arbitrary: k)
  case 0
  then have k: "k = lfn_count name" by simp
  show ?case using st by (subst fat_read_lfns.simps) (simp add: k lfn_stored_def)
next
  case (Suc m)
  let ?n = "lfn_count name" and ?e = "slice ((p + k) * 32) 32 clus" and ?j = "lfn_count name - 1 - k"
  have k: "k < ?n" and j: "?n - k = Suc ?j" "?j = ?n - Suc k" "?j < ?n" using Suc.hyps(2) by simp_all
  have e: "lfn_part (lfn_of ?e) = lfn_chunk name ?j" "e_attributes (entry_of ?e) = FAT_ENTRY_LFN"
    using lfn_entries_nth [OF k, of chk] st k by (simp_all add: lfn_stored_def)
  have put: "put_name ((?n - k - 1) * 13) (lfn_part (lfn_of ?e)) (replicate (13 * (?n - k)) 0 @ drop (13 * (?n - k)) (name_buffer name)) =
      Ret (replicate (13 * (?n - Suc k)) 0 @ drop (13 * (?n - Suc k)) (name_buffer name))"
    using put_chunk [OF j(3)] by (simp only: e j(1) j(2) [symmetric] diff_Suc_1)
  have nx: "lfn_next_cluster E ctx (lfn_loc ctx c p ?n k) clus = Ret (Inr clus, lfn_loc ctx c p ?n k)"
    using k by (simp add: lfn_next_cluster_def lfn_loc_def)
  have rd: "fat_read_one_entry clus (loc_offset (lfn_loc ctx c p ?n k)) = Ret (slice ((p + Suc k) * 32) 32 clus)"
    using k st by (simp add: fat_read_one_entry_def lfn_loc_def lfn_stored_def)
  have adv: "fat_advance_loc ctx (lfn_loc ctx c p ?n k) = lfn_loc ctx c p ?n (Suc k)"
    using lfn_loc_next [OF k] st by (simp add: lfn_stored_def)
  have IH: "fat_read_lfns E ctx ?n (Suc k) clus (lfn_loc ctx c p ?n (Suc k))
      (replicate (13 * (?n - Suc k)) 0 @ drop (13 * (?n - Suc k)) (name_buffer name)) (slice ((p + Suc k) * 32) 32 clus) =
    Ret (Inr (name_buffer name, short), lfn_loc ctx c p ?n ?n)"
    using Suc.hyps(2) k by (intro Suc.hyps(1)) simp_all
  have nk: "(?n \<le> k) = False" using k by simp
  show ?case
    by (subst fat_read_lfns.simps) (simp only: e(2) put nx rd adv IH nk Suc_eq_plus1 [symmetric] outcome.case prod.case sum.case simp_thms if_False)
qed

section \<open>Safety\<close>

text \<open>A mounted volume with directory clusters of at most 256 entries, on a device that delivers whole sectors.\<close>

definition fat_ctx_ok :: "unit blkdev_ops \<Rightarrow> FAT32Ctx \<Rightarrow> bool" where
  "fat_ctx_ok E ctx \<longleftrightarrow>
     c_type ctx = FAT32 \<and> c_sectorsize ctx \<in> {512, 1024, 2048, 4096} \<and> mb_sectorsize (c_blkdev ctx) = c_sectorsize ctx \<and>
     0 < c_sectors_per_cluster ctx \<and> c_clustersize ctx = c_sectors_per_cluster ctx * c_sectorsize ctx \<and>
     c_entries_per_clusterdir ctx = c_clustersize ctx div 32 \<and> c_clustersize ctx \<le> 8192 \<and>
     (\<forall>lba n bs. part_read E (c_blkdev ctx) lba n = Inr bs \<longrightarrow> length bs = n * c_sectorsize ctx)"

lemma four_apart: "4 dvd (a :: nat) \<Longrightarrow> 4 dvd b \<Longrightarrow> a < b \<Longrightarrow> a + 4 \<le> b"
  by presburger

lemma fat_entry_safe:
  assumes ok: "fat_ctx_ok E ctx"
  shows "fat_entry_for_clus E clus ctx \<noteq> Panic"
proof -
  let ?fo = "mul32 clus 4"
  have ss: "4 dvd c_sectorsize ctx" "0 < c_sectorsize ctx" using ok by (auto simp: fat_ctx_ok_def)
  have "4 dvd ?fo" by (simp add: mul32_def dvd_mod)
  then have "4 dvd ?fo mod c_sectorsize ctx" using ss by (simp add: dvd_mod)
  moreover have "?fo mod c_sectorsize ctx < c_sectorsize ctx" using ss by simp
  ultimately have "?fo mod c_sectorsize ctx + 4 \<le> c_sectorsize ctx" using ss(1) four_apart by blast
  then show ?thesis using ok by (auto simp: fat_entry_for_clus_def fat_ctx_ok_def Let_def split: sum.splits)
qed

lemma fat_advance_loc_clus_safe:
  assumes "fat_ctx_ok E ctx"
  shows "\<exists>r. fat_advance_loc_clus E loc ctx = Ret r \<and> (\<forall>loc1. r = Inr loc1 \<longrightarrow> loc_offset loc1 = loc_offset loc)"
  using fat_entry_safe [OF assms, of "loc_cluster loc"]
  by (cases "fat_entry_for_clus E (loc_cluster loc) ctx") (auto simp: fat_advance_loc_clus_def split: sum.splits)

lemma fat_cluster_type_safe: "fat_ctx_ok E ctx \<Longrightarrow> \<exists>r. fat_cluster_type E clus ctx = Ret r"
  using fat_entry_safe [of E ctx clus]
  by (cases "fat_entry_for_clus E clus ctx") (auto simp: fat_cluster_type_def split: sum.splits)

lemma fat_dir_next_safe:
  assumes ok: "fat_ctx_ok E ctx"
  shows "\<exists>r loc1. fat_dir_next E ctx loc = Ret (r, loc1) \<and> loc_offset loc1 = loc_offset loc"
proof -
  obtain r where r: "fat_advance_loc_clus E loc ctx = Ret r" "\<forall>loc1. r = Inr loc1 \<longrightarrow> loc_offset loc1 = loc_offset loc"
    using fat_advance_loc_clus_safe [OF ok] by blast
  show ?thesis
  proof (cases r)
    case (Inr loc1)
    obtain t where "fat_cluster_type E (loc_cluster loc1) ctx = Ret t" using fat_cluster_type_safe [OF ok] by blast
    then show ?thesis using r Inr by (simp add: fat_dir_next_def)
  qed (simp add: fat_dir_next_def r(1))
qed

lemma lfn_next_safe:
  assumes ok: "fat_ctx_ok E ctx"
  shows "\<exists>r loc1. lfn_next_cluster E ctx loc clus = Ret (r, loc1) \<and> loc_offset loc1 = loc_offset loc \<and>
      (\<forall>bs. r = Inr bs \<longrightarrow> bs = clus \<or> length bs = c_clustersize ctx)"
proof -
  obtain r loc1 where nx: "fat_dir_next E ctx loc = Ret (r, loc1)" "loc_offset loc1 = loc_offset loc"
    using fat_dir_next_safe [OF ok] by blast
  have "fat_read_one_cluster E (loc_cluster loc1) ctx = Inr bs \<Longrightarrow> length bs = c_clustersize ctx" for bs
    using ok by (auto simp: fat_read_one_cluster_def fat_ctx_ok_def)
  then show ?thesis by (cases r) (auto simp: lfn_next_cluster_def nx)
qed

lemma fat_advance_loc_bound:
  assumes "fat_ctx_ok E ctx" and "loc_offset loc < c_entries_per_clusterdir ctx"
  shows "loc_offset (fat_advance_loc ctx loc) < c_entries_per_clusterdir ctx"
  using assms by (auto simp: fat_ctx_ok_def fat_advance_loc_def)

lemma entry_in_cluster:
  assumes "fat_ctx_ok E ctx" and "i < c_entries_per_clusterdir ctx" and "c_clustersize ctx \<le> length clus"
  shows "\<exists>raw. fat_read_one_entry clus i = Ret raw"
proof -
  have "(i + 1) * 32 \<le> c_clustersize ctx" using assms(1,2) by (auto simp: fat_ctx_ok_def)
  then show ?thesis using assms(3) by (simp add: fat_read_one_entry_def)
qed

lemma length_lfn_part: "length (lfn_part (lfn_of raw)) \<le> 13"
proof -
  have "length (lfn_chars us) \<le> length us" for us by (simp add: lfn_chars_def length_takeWhile_le)
  from this [of "l_name1 (lfn_of raw)"] this [of "l_name2 (lfn_of raw)"] this [of "l_name3 (lfn_of raw)"]
  show ?thesis by (simp add: lfn_part_def lfn_of_def)
qed

lemma fat_read_lfns_safe:
  assumes "fat_ctx_ok E ctx" and "loc_offset loc < c_entries_per_clusterdir ctx" and "c_clustersize ctx \<le> length clus"
    and "length dest = n * 13 + 1"
  shows "\<exists>r loc1. fat_read_lfns E ctx n k clus loc dest raw = Ret (r, loc1) \<and> (\<forall>d e. r = Inr (d, e) \<longrightarrow> length d = n * 13 + 1)"
  using assms(2-4)
proof (induction "n - k" arbitrary: k clus loc dest raw)
  case 0
  then show ?case by (subst fat_read_lfns.simps) simp
next
  case (Suc m)
  then have k: "k < n" by simp
  obtain j where j: "n - k - 1 = j" "j < n" using k by auto
  have "j * 13 + length (lfn_part (lfn_of raw)) \<le> length dest"
    using Suc.prems(3) length_lfn_part [of raw] j(2) by simp
  then obtain dest1 where put: "put_name (j * 13) (lfn_part (lfn_of raw)) dest = Ret dest1" "length dest1 = n * 13 + 1"
    using Suc.prems(3) by (auto simp: put_name_def)
  obtain r loc1 where nx: "lfn_next_cluster E ctx loc clus = Ret (r, loc1)" "loc_offset loc1 = loc_offset loc"
    "\<forall>bs. r = Inr bs \<longrightarrow> bs = clus \<or> length bs = c_clustersize ctx"
    using lfn_next_safe [OF assms(1)] by blast
  show ?case
  proof (cases r)
    case (Inr bs)
    then have bs: "c_clustersize ctx \<le> length bs" using nx(3) Suc.prems(2) by auto
    obtain raw1 where raw1: "fat_read_one_entry bs (loc_offset loc1) = Ret raw1"
      using entry_in_cluster [OF assms(1) _ bs] Suc.prems(1) nx(2) by auto
    have "m = n - Suc k" using Suc.hyps(2) by simp
    from Suc.hyps(1) [OF this _ bs put(2), of "fat_advance_loc ctx loc1" raw1]
    show ?thesis using k nx(1,2) raw1 Inr put j(1) fat_advance_loc_bound [OF assms(1), of loc1] Suc.prems
      by (subst fat_read_lfns.simps) auto
  qed (use k nx put j(1) Suc.prems(3) in \<open>subst fat_read_lfns.simps, auto\<close>)
qed

section \<open>What stays allocated\<close>

text \<open>After the call the name of the vnode is the only new allocation, and there is none after an error.\<close>

definition dir_left :: "nat \<Rightarrow> live_map \<Rightarrow> unit result \<Rightarrow> dir_vnode \<Rightarrow> live_map \<Rightarrow> bool" where
  "dir_left ma live st v live' \<longleftrightarrow>
     (case st of
        Inl _ \<Rightarrow> live' = live
      | Inr _ \<Rightarrow>
          (case dv_name v of
             None \<Rightarrow> live' = live
           | Some (a, _) \<Rightarrow> live a = None \<and> (\<exists>sz. live' = live(a \<mapsto> (sz, ma)))))"

definition dir_returns :: "nat \<Rightarrow> Heap \<Rightarrow> live_map \<Rightarrow> ((unit result \<times> FATEntryLoc \<times> dir_vnode) \<times> kmstate) outcome option \<Rightarrow> bool" where
  "dir_returns ma heap live run \<longleftrightarrow>
     (\<exists>st loc v km' live'. run = Some (Ret ((st, loc, v), km')) \<and> km_heap ma km' heap live' \<and> dir_left ma live st v live')"

lemma dir_exit_returns:
  assumes "km_heap ma km heap now" and "owns ma now before bufs" and "dir_left ma live st v before"
  shows "dir_returns ma heap live (dir_exit bufs st loc v km)"
  using kfree_all_ok [OF assms(1,2)] assms(3) by (auto simp: dir_returns_def dir_exit_def)

lemma legacy_size_bounds: "0 < fat_legacy_name_size e" "fat_legacy_name_size (entry_of raw) < W32"
proof -
  have "length (until_space (e_name (entry_of raw))) \<le> 8" "length (until_space (e_ext (entry_of raw))) \<le> 3"
    using length_takeWhile_le [of _ "e_name (entry_of raw)"] length_takeWhile_le [of _ "e_ext (entry_of raw)"]
    by (fastforce simp: entry_of_def slice_def intro: order_trans)+
  then show "fat_legacy_name_size (entry_of raw) < W32" by (simp add: fat_legacy_name_size_def Let_def)
qed (simp add: fat_legacy_name_size_def Let_def)

lemma fill_returns:
  assumes "km_heap ma km heap now" and small: "small_heap ma heap"
    and "owns ma now (case name of None \<Rightarrow> live | Some (a, _) \<Rightarrow> live(a \<mapsto> (sz, ma))) [f, c]"
    and "\<forall>a nm. name = Some (a, nm) \<longrightarrow> live a = None"
  shows "dir_returns ma heap live (fat_fill_vnode f c raw loc name km)"
proof (cases name)
  case None
  let ?P = "dir_returns ma heap live" and ?e = "entry_of raw"
  have o: "owns ma now live [f, c]" using assms(3) None by simp
  have "dir_returns ma heap live (dir_exit [f, c] (Inr ()) l v k)" if "km_heap ma k heap now" "dv_name v = None" for l v k
    using dir_exit_returns [OF that(1) o] that(2) by (simp add: dir_left_def)
  moreover have "dir_returns ma heap live (dir_exit [f, c] (Inr ()) l v k)"
    if "km_heap ma k heap (now(a \<mapsto> (sz, ma)))" "now a = None" "dv_name v = Some (a, nm)" for a sz nm l v k
    by (rule dir_exit_returns [OF that(1) owns_keep(1) [OF o that(2)]])
      (use owns_keep(2) [OF o that(2)] that(3) in \<open>auto simp: dir_left_def\<close>)
  ultimately show ?thesis
    unfolding fat_fill_vnode_def Let_def None option.case
    by - (rule after_kmalloc [OF assms(1) small legacy_size_bounds], simp_all)
next
  case (Some x)
  then obtain a nm where x: "name = Some (a, nm)" by (cases x) auto
  show ?thesis
    unfolding fat_fill_vnode_def Let_def x option.case
    by (rule dir_exit_returns [OF assms(1)]) (use assms(3,4) x in \<open>auto simp: dir_left_def\<close>)
qed

lemma parse_returns:
  assumes ok: "fat_ctx_ok E ctx" and km: "km_heap ma km heap now" and small: "small_heap ma heap" and o: "owns ma now live [f, c]"
    and loc: "loc_offset loc < c_entries_per_clusterdir ctx" and clus: "c_clustersize ctx \<le> length clus"
  shows "dir_returns ma heap live (fat_parse_entry E ctx f c clus raw loc km)"
proof -
  let ?n = "fat_lfn_entries_count (lfn_of raw)"
  have size: "fat_lfn_name_size (lfn_of raw) = ?n * 13 + 1" "?n < 256"
    using unsigned_less [of "l_order (lfn_of raw) AND NOT 0x40"] by (simp_all add: fat_lfn_name_size_def fat_lfn_entries_count_def)
  obtain r loc2 where lfn: "fat_read_lfns E ctx ?n 0 clus (fat_advance_loc ctx loc) (replicate (?n * 13 + 1) 0) raw = Ret (r, loc2)"
    using fat_read_lfns_safe [OF ok fat_advance_loc_bound [OF ok loc] clus, of "replicate (?n * 13 + 1) 0" ?n 0 raw] by auto
  have exit: "dir_returns ma heap live (dir_exit [f, c] (Inl e) l v k)" if "km_heap ma k heap now" for e l v k
    using dir_exit_returns [OF that o] by (simp add: dir_left_def)
  have long: "dir_returns ma heap live (bind_run (kcalloc (?n * 13 + 1) km) (\<lambda>(p, km1).
          case p of
            None \<Rightarrow> dir_exit [f, c] (Inl ENOMEM) l v km1
          | Some a \<Rightarrow>
              (case r of
                  Inl e \<Rightarrow> dir_exit [a, f, c] (Inl e) loc2 v km1
                | Inr (dest, raw1) \<Rightarrow> fat_fill_vnode f c raw1 loc2 (Some (a, name_str dest)) km1)))" for l v
  proof (rule after_kcalloc [OF km small])
    fix a km1 assume k: "km_heap ma km1 heap (now(a \<mapsto> (?n * 13 + 1, ma)))" and a: "now a = None"
    have "dir_returns ma heap live (dir_exit [a, f, c] (Inl e) loc2 v km1)" for e
      using dir_exit_returns [OF k owns_new [OF o a]] by (simp add: dir_left_def)
    moreover have "dir_returns ma heap live (fat_fill_vnode f c raw1 loc2 (Some (a, nm)) km1)" for raw1 nm
      using fill_returns [OF k small, where name = "Some (a, nm)" and live = live and sz = "?n * 13 + 1"] owns_keep [OF o a] by simp
    ultimately show "dir_returns ma heap live (case (Some a, km1) of (p, km1) \<Rightarrow> (case p of
            None \<Rightarrow> dir_exit [f, c] (Inl ENOMEM) l v km1
          | Some a \<Rightarrow>
              (case r of
                  Inl e \<Rightarrow> dir_exit [a, f, c] (Inl e) loc2 v km1
                | Inr (dest, raw1) \<Rightarrow> fat_fill_vnode f c raw1 loc2 (Some (a, name_str dest)) km1)))"
      by (auto split: sum.split)
  qed (use size exit in auto)
  show ?thesis
    unfolding fat_parse_entry_def Let_def size(1) lfn bind_run_simps prod.case
    using long exit [OF km] fill_returns [OF km small, where name = None and live = live] o by simp
qed

lemma fat_dir_entry_returns:
  assumes ok: "fat_ctx_ok E ctx" and km: "km_heap ma km heap live" and small: "small_heap ma heap"
    and loc: "loc_offset loc < c_entries_per_clusterdir ctx"
  shows "dir_returns ma heap live (fat_dir_entry_to_vnode E ctx loc km)"
proof -
  have size: "0 < mb_sectorsize (c_blkdev ctx)" "mb_sectorsize (c_blkdev ctx) < W32" "0 < c_clustersize ctx" "c_clustersize ctx < W32"
    using ok by (auto simp: fat_ctx_ok_def)
  obtain nx loc1 where nx: "fat_dir_next E ctx loc = Ret (nx, loc1)" "loc_offset loc1 = loc_offset loc"
    using fat_dir_next_safe [OF ok] by blast
  have exit: "dir_returns ma heap live (dir_exit [f] (Inl e) l v k)"
    if "km_heap ma k heap (live(f \<mapsto> (sz, ma)))" "live f = None" for f e l v k sz
    using dir_exit_returns [OF that(1), where bufs = "[f]" and before = live] that(2) owns_new [of ma live live "[]" f]
    by (simp add: dir_left_def)
  let ?rest = "\<lambda>f (q, km2). case q of
      None \<Rightarrow> dir_exit [f] (Inl ENOMEM) loc1 zero_dir_vnode km2
    | Some c \<Rightarrow>
        (case fat_read_one_cluster E (loc_cluster loc1) ctx of
           Inl e \<Rightarrow> dir_exit [f, c] (Inl e) loc1 zero_dir_vnode km2
         | Inr clus \<Rightarrow> bind_run (Some (fat_read_one_entry clus (loc_offset loc1))) (\<lambda>raw. fat_parse_entry E ctx f c clus raw loc1 km2))"
  have "dir_returns ma heap live (?rest f (Some c, km2))"
    if k: "km_heap ma km2 heap (now(c \<mapsto> (sz, ma)))" and c: "now c = None" and o: "owns ma now live [f]" for f c km2 now sz
  proof (cases "fat_read_one_cluster E (loc_cluster loc1) ctx")
    case (Inl e)
    have "owns ma (now(c \<mapsto> (sz, ma))) live [f, c]" using owns_new [OF o c] owns_perm [of "[c, f]" "[f, c]"] by simp
    from dir_exit_returns [OF k this] show ?thesis using Inl by (simp add: dir_left_def)
  next
    case (Inr clus)
    have o2: "owns ma (now(c \<mapsto> (sz, ma))) live [f, c]" using owns_new [OF o c] owns_perm [of "[c, f]" "[f, c]"] by simp
    have len: "c_clustersize ctx \<le> length clus" using ok Inr by (auto simp: fat_read_one_cluster_def fat_ctx_ok_def)
    have off: "loc_offset loc1 < c_entries_per_clusterdir ctx" using loc nx(2) by simp
    obtain raw where "fat_read_one_entry clus (loc_offset loc1) = Ret raw" using entry_in_cluster [OF ok off len] by blast
    then show ?thesis using Inr parse_returns [OF ok k small o2 off len] by simp
  qed
  then have inner: "dir_returns ma heap live (bind_run (kmalloc (c_clustersize ctx) km1) (?rest f))"
    if "km_heap ma km1 heap (live(f \<mapsto> (sz, ma)))" "live f = None" for f km1 sz
    using exit [OF _ that(2)] owns_new [of ma live live "[]" f] that(2)
    by - (rule after_kmalloc [OF that(1) small size(3,4)], simp_all)
  show ?thesis
    unfolding fat_dir_entry_to_vnode_def
  proof (rule after_kmalloc [OF km small size(1,2)], goal_cases)
    case (1 km1)
    then show ?case by (auto simp: dir_returns_def dir_left_def)
  next
    case (2 f km1)
    show ?case using inner [OF 2] exit [OF 2] nx(1) by (cases nx) (simp_all only: prod.case option.case nx(1) bind_run_simps sum.case)
  qed
qed

section \<open>Reading a long name\<close>

lemma dir_exit_value: "dir_exit bufs st loc v km = Some (Ret ((st1, loc1, v1), km1)) \<Longrightarrow> st1 = st \<and> loc1 = loc \<and> v1 = v"
  by (auto simp: dir_exit_def dest!: bind_run_Ret)

lemma name_str_buffer: "0 \<notin> set name \<Longrightarrow> name_str (name_buffer name) = map (\<lambda>b. char_of (unat b)) name"
proof -
  assume "0 \<notin> set name"
  then have "takeWhile (\<lambda>c. c \<noteq> 0) (name @ replicate (Suc k) 0) = name" for k
    by (subst takeWhile_append2) auto
  moreover have "lfn_count name * 13 + 1 - length name = Suc (lfn_count name * 13 - length name)"
    using lfn_count_bounds(1) [of name] by simp
  ultimately show ?thesis by (simp add: name_str_def c_str_def name_buffer_def del: replicate.simps)
qed

text \<open>The vnode of a file, from its short entry and the name.\<close>

definition file_vnode :: "kstr option \<Rightarrow> FATEntry \<Rightarrow> dir_vnode" where
  "file_vnode nm e =
     \<lparr>dv_name = nm, dv_n = unat (word_cat (e_cluster_hi e) (e_cluster_lo e) :: u32), dv_size = unat (e_file_size e),
      dv_mode = (if e_attributes e AND FAT_ENTRY_DIR \<noteq> 0 then FAT_DIR_MODE else FAT_FILE_MODE)\<rparr>"

lemma order_byte:
  assumes "0 < n" "n \<le> 20"
  shows "unat ((word_of_nat n OR 0x40 :: u8) AND NOT 0x40) = n \<and> (word_of_nat n OR 0x40 :: u8) \<notin> {0, 0xE5, 46}"
proof -
  have "list_all (\<lambda>n. unat ((word_of_nat n OR 0x40 :: u8) AND NOT 0x40) = n \<and> (word_of_nat n OR 0x40 :: u8) \<notin> {0, 0xE5, 46}) [1..<21]"
    by code_simp
  then show ?thesis using assms by (auto simp: list_all_iff)
qed

lemma first_lfn_entry:
  fixes name :: "u8 list" and chk :: u8
  assumes "name \<noteq> []" and "length name \<le> 255" and nz: "0 \<notin> set name"
  defines "raw \<equiv> lfn_entries chk name ! 0"
  shows "fat_lfn_entries_count (lfn_of raw) = lfn_count name" and "fat_lfn_name_size (lfn_of raw) = lfn_count name * 13 + 1"
    and "\<not> fat_entry_is_last_in_dir (entry_of raw)" and "\<not> fat_is_entry_deleted (entry_of raw)"
    and "\<not> fat_is_dot_or_dotdot (e_name (entry_of raw))"
proof -
  let ?n = "lfn_count name" and ?c = "lfn_chunk name (lfn_count name - 1)"
  have n: "0 < ?n" "?n \<le> 20" using assms(1,2) lfn_count_bounds(2) [of name] by (auto simp: lfn_count_def)
  have us: "length (lfn_units ?c) = 13" by (auto simp: lfn_units_def lfn_chunk_def)
  let ?ord = "word_of_nat ?n OR 0x40 :: u8"
  have raw: "raw = lfn_entry ?ord chk (lfn_units ?c)" using n by (simp add: raw_def lfn_entries_def)
  have ord: "unat (?ord AND NOT 0x40) = ?n" "?ord \<noteq> 0" "?ord \<noteq> 0xE5" "?ord \<noteq> 46"
    using order_byte [OF n] by auto
  have o0: "l_order (lfn_of raw) = ?ord" "e_name (entry_of raw) ! 0 = ?ord"
    using lfn_of_entry(1,3) [OF us] by (simp_all add: raw entry_of_def slice_def lfn_entry_def)
  show "fat_lfn_entries_count (lfn_of raw) = ?n" "fat_lfn_name_size (lfn_of raw) = ?n * 13 + 1"
    "\<not> fat_entry_is_last_in_dir (entry_of raw)" "\<not> fat_is_entry_deleted (entry_of raw)"
    "\<not> fat_is_dot_or_dotdot (e_name (entry_of raw))"
    using ord o0 by (simp_all add: fat_lfn_entries_count_def fat_lfn_name_size_def fat_entry_is_last_in_dir_def
      fat_is_entry_deleted_def fat_is_dot_or_dotdot_def)
qed

lemma fill_value:
  assumes "fat_fill_vnode f c raw loc (Some nm) km = Some (Ret ((st, loc1, v), km1))"
  shows "st = Inr () \<and> loc1 = loc \<and> v = file_vnode (Some nm) (entry_of raw)"
  using assms dir_exit_value by (fastforce simp: fat_fill_vnode_def Let_def file_vnode_def)

text \<open>The result of the entry reader at the first entry of a stored name.\<close>

lemma long_name_value:
  assumes st: "lfn_stored ctx chk name (loc_offset loc) clus short" and nm: "name \<noteq> []" "length name \<le> 255"
    and rd: "fat_read_one_cluster E (loc_cluster loc) ctx = Inr clus" "\<not> loc_read_next loc"
    and run: "fat_dir_entry_to_vnode E ctx loc km = Some (Ret ((res, loc1, v), km1))"
  shows "res = Inl ENOMEM \<or> res = Inr () \<and>
    loc1 = fat_advance_loc ctx \<lparr>loc_cluster = loc_cluster loc, loc_offset = loc_offset loc + lfn_count name, loc_read_next = False\<rparr> \<and>
    (\<exists>a. v = file_vnode (Some (a, map (\<lambda>b. char_of (unat b)) name)) (entry_of short))"
proof -
  let ?n = "lfn_count name" and ?p = "loc_offset loc" and ?raw = "lfn_entries chk name ! 0"
  have n: "0 < ?n" and nz: "0 \<notin> set name" using lfn_count_bounds(2) nm st by (auto simp: lfn_stored_def)
  note first = first_lfn_entry [OF nm nz, of chk]
  have raw: "slice ((?p + 0) * 32) 32 clus = ?raw" "fat_read_one_entry clus ?p = Ret ?raw"
    using st n by (auto simp: lfn_stored_def fat_read_one_entry_def)
  have lfn: "e_attributes (entry_of ?raw) = FAT_ENTRY_LFN" by (rule lfn_entries_nth(2) [OF n nz])
  have adv: "fat_advance_loc ctx loc = lfn_loc ctx (loc_cluster loc) ?p ?n 0"
    using st n rd(2) by (cases loc) (auto simp: lfn_loc_def fat_advance_loc_def lfn_stored_def)
  have len: "length (name_buffer name) = ?n * 13 + 1" using lfn_count_bounds(1) [of name] by (simp add: name_buffer_def)
  have buf: "replicate (13 * (?n - 0)) 0 @ drop (13 * (?n - 0)) (name_buffer name) = replicate (?n * 13 + 1) 0"
    using len lfn_count_bounds(1) [of name] by (simp add: name_buffer_def replicate_append_same algebra_simps)
  have read: "fat_read_lfns E ctx ?n 0 clus (fat_advance_loc ctx loc) (replicate (?n * 13 + 1) 0) ?raw =
      Ret (Inr (name_buffer name, short), lfn_loc ctx (loc_cluster loc) ?p ?n ?n)"
    using read_lfns [OF st, of 0 E "loc_cluster loc"] by (simp only: buf raw(1) adv le0)
  obtain p km2 where p: "(case p of None \<Rightarrow> Some (Ret ((Inl ENOMEM, loc, zero_dir_vnode), km2))
      | Some f \<Rightarrow> bind_run (kmalloc (c_clustersize ctx) km2) (\<lambda>(q, km2). case q of
          None \<Rightarrow> dir_exit [f] (Inl ENOMEM) loc zero_dir_vnode km2
        | Some c \<Rightarrow> fat_parse_entry E ctx f c clus ?raw loc km2)) = Some (Ret ((res, loc1, v), km1))"
    using run rd by (auto simp: fat_dir_entry_to_vnode_def fat_dir_next_def raw(2) dest!: bind_run_Ret cong: option.case_cong)
  show ?thesis
  proof (cases p)
    case (Some f)
    then obtain q km3 where q: "(case q of None \<Rightarrow> dir_exit [f] (Inl ENOMEM) loc zero_dir_vnode km3
        | Some c \<Rightarrow> fat_parse_entry E ctx f c clus ?raw loc km3) = Some (Ret ((res, loc1, v), km1))"
      using p by (auto dest!: bind_run_Ret)
    show ?thesis
    proof (cases q)
      case (Some c)
      then obtain w km4 where "(case w of None \<Rightarrow> dir_exit [f, c] (Inl ENOMEM) (fat_advance_loc ctx loc) zero_dir_vnode km4
          | Some a \<Rightarrow> fat_fill_vnode f c short (lfn_loc ctx (loc_cluster loc) ?p ?n ?n) (Some (a, name_str (name_buffer name))) km4)
          = Some (Ret ((res, loc1, v), km1))"
        using q first lfn read by (auto simp: fat_parse_entry_def dest!: bind_run_Ret cong: option.case_cong)
      then show ?thesis
        by (cases w) (auto simp: name_str_buffer [OF nz] lfn_loc_def dest!: dir_exit_value fill_value)
    qed (use q in \<open>auto dest!: dir_exit_value\<close>)
  qed (use p in auto)
qed

section \<open>A directory with one file\<close>

definition demo_name :: "u8 list" where
  "demo_name = [104, 101, 108, 108, 111, 46, 116, 120, 116]"

definition demo_short :: "u8 list" where
  "demo_short = [72, 69, 76, 76, 79, 32, 32, 32, 84, 88, 84, 0x20] @ replicate 14 0 @ [3, 0, 10, 0, 0, 0]"

definition demo_dir :: "u8 list" where
  "demo_dir = lfn_entries 0 demo_name ! 0 @ demo_short @ replicate 448 0"

definition fat_ops :: "unit blkdev_ops" where
  "fat_ops = \<lparr>dev_read = (\<lambda>_ lba n x. (Inr (if lba = 2032 \<and> n = 1 then demo_dir else replicate (n * 512) 0), x)),
     dev_write = (\<lambda>_ _ _ _ x. (Inl EIO, x))\<rparr>"

definition fat_ctx :: FAT32Ctx where
  "fat_ctx = \<lparr>c_sectorsize = 512, c_sectors_per_fat = 1000, c_sectors_per_cluster = 1, c_sector_count = 102032,
     c_data_sector_count = 100000, c_cluster_count = 100000, c_root_dir_sector_count = 0, c_root_dir_cluster = 2,
     c_reserved_sector_count = 32, c_first_data_sector = 2032, c_type = FAT32, c_clustersize = 512, c_entries_per_clusterdir = 16,
     c_blkdev = \<lparr>mb_suffix = None, mb_offset = 0, mb_uuid = None, mb_sector_count = 102032, mb_sectorsize = 512, mb_parent = 64\<rparr>\<rparr>"

definition root_loc :: FATEntryLoc where
  "root_loc = \<lparr>loc_cluster = 2, loc_offset = 0, loc_read_next = False\<rparr>"

lemma demo_count: "lfn_count demo_name = 1"
  by (simp add: lfn_count_def demo_name_def)

lemma demo_entry: "length (lfn_entries 0 demo_name ! 0) = 32" "length demo_short = 32" "length demo_dir = 512"
  using lfn_of_entry(3) [of "lfn_units (lfn_chunk demo_name 0)"]
  by (simp_all add: demo_dir_def demo_short_def lfn_entries_def demo_count lfn_units_def lfn_chunk_def)

lemma fat_ctx_fine: "fat_ctx_ok fat_ops fat_ctx"
  by (auto simp: fat_ctx_ok_def fat_ctx_def fat_ops_def part_read_def partition_generic_read_def demo_entry)

lemma demo_stored: "lfn_stored fat_ctx 0 demo_name 0 demo_dir demo_short"
proof -
  have "0 \<notin> set demo_name" "e_attributes (entry_of demo_short) \<noteq> FAT_ENTRY_LFN"
    by (simp_all add: demo_name_def demo_short_def entry_of_def FAT_ENTRY_LFN_def)
  then show ?thesis using demo_entry by (simp add: lfn_stored_def demo_count slice_def demo_dir_def fat_ctx_def)
qed

lemma demo_root: "fat_read_one_cluster fat_ops 2 fat_ctx = Inr demo_dir"
  by (simp add: fat_read_one_cluster_def fat_cluster_to_sector_def fat_ctx_def fat_ops_def part_read_def partition_generic_read_def
      add64_def add32_def mul32_def sub32_def)

section \<open>Properties\<close>



text \<open>
  C26: long names round trip: when the entries of a long name are stored in a directory cluster, last part first and
  followed by the entry of the file, reading the first of them gives the vnode of the file with exactly that name, and the
  location is the one after the file's entry; or there is no memory for it.
\<close>
theorem fat_long_names:
  assumes "fat_ctx_ok E ctx" and "km_heap ma km heap live" and "small_heap ma heap"
    and st: "lfn_stored ctx chk name (loc_offset loc) clus short" "name \<noteq> []" "length name \<le> 255"
    and rd: "fat_read_one_cluster E (loc_cluster loc) ctx = Inr clus" "\<not> loc_read_next loc"
  shows "\<exists>st loc1 v km1. fat_dir_entry_to_vnode E ctx loc km = Some (Ret ((st, loc1, v), km1)) \<and>
    (st = Inl ENOMEM \<or> st = Inr () \<and>
      loc1 = fat_advance_loc ctx \<lparr>loc_cluster = loc_cluster loc, loc_offset = loc_offset loc + lfn_count name, loc_read_next = False\<rparr> \<and>
      (\<exists>a. v = file_vnode (Some (a, map (\<lambda>b. char_of (unat b)) name)) (entry_of short)))"
proof -
  have "loc_offset loc < c_entries_per_clusterdir ctx" using st(1) by (simp add: lfn_stored_def)
  from fat_dir_entry_returns [OF assms(1-3) this] show ?thesis
    using long_name_value [OF st rd] unfolding dir_returns_def by blast
qed

text \<open>
  The entry of \<open>hello.txt\<close>, of ten bytes in cluster 3.
\<close>
theorem fat_long_names_witness:
  "\<exists>st loc1 v km1. fat_dir_entry_to_vnode fat_ops fat_ctx root_loc demo_state = Some (Ret ((st, loc1, v), km1)) \<and>
    (st = Inl ENOMEM \<or> st = Inr () \<and> loc_offset loc1 = 2 \<and> (\<exists>a. dv_name v = Some (a, ''hello.txt'')) \<and> dv_n v = 3 \<and> dv_size v = 10)"
proof -
  have e: "entry_of demo_short = \<lparr>e_name = [72, 69, 76, 76, 79, 32, 32, 32], e_ext = [84, 88, 84], e_attributes = 0x20,
      e_cluster_hi = 0, e_cluster_lo = 3, e_file_size = 10\<rparr>"
    by (simp add: entry_of_def demo_short_def slice_def le16_def le32_def nth_append word_cat_eq)
  have nm: "map (\<lambda>b. char_of (unat b)) demo_name = ''hello.txt''" by (simp add: demo_name_def char_of_def bit_0)
  have rd: "fat_read_one_cluster fat_ops (loc_cluster root_loc) fat_ctx = Inr demo_dir" "\<not> loc_read_next root_loc"
    by (simp_all add: root_loc_def demo_root)
  have st: "lfn_stored fat_ctx 0 demo_name (loc_offset root_loc) demo_dir demo_short" "demo_name \<noteq> []" "length demo_name \<le> 255"
    using demo_stored by (simp_all add: root_loc_def demo_name_def)
  show ?thesis
    using fat_long_names [OF fat_ctx_fine demo_km_ok demo_disk_small st rd] unfolding e nm
    by (auto simp: file_vnode_def demo_count root_loc_def fat_advance_loc_def fat_ctx_def word_cat_eq)
qed

end
