(* ===== verification/FatReadProps.thy ===== *)
theory FatReadProps
  imports FatDirProps
begin

text \<open>
  What \<^verbatim>\<open>drivers/fs/fat/fat_read.c\<close> and the sector arithmetic of \<^verbatim>\<open>drivers/fs/fat/fat.c\<close> achieve: where the clusters
  of a volume lie, which reads succeed and with which bytes, and that every read that reaches the last cluster of its
  file fails.
\<close>

section \<open>The data region\<close>

text \<open>
  A boot record whose sector counts fit together: the sectors in front of the data region are not more than all sectors.
\<close>

definition bpb_sound :: "u8 list \<Rightarrow> bool" where
  "bpb_sound bs \<longleftrightarrow>
     0 < bpb_sectorsize (bpb_of bs) \<and> 0 < bpb_sectors_per_cluster (bpb_of bs) \<and>
     bpb_sectors_per_fat16 (bpb_of bs) = 0 \<and> bpb_root_dir_entries_count (bpb_of bs) = 0 \<and>
     bpb_reserved_sector_count (bpb_of bs) + bpb_fat_count (bpb_of bs) * bpb_sectors_per_fat32 (bpb32_of bs)
       \<le> max (bpb_sector_count16 (bpb_of bs)) (bpb_sectors_count32 (bpb_of bs))"

lemma total_sectors: "max (bpb_sector_count16 (bpb_of bs)) (bpb_sectors_count32 (bpb_of bs)) < W32"
proof -
  have "unat (le16 bs 19) < 65536" using unsigned_less [of "le16 bs 19"] by simp
  moreover have "unat (le32 bs 32) < W32" using unsigned_less [of "le32 bs 32"] by simp
  ultimately show ?thesis by (simp add: bpb_of_def)
qed

lemma fat_parse_sound:
  assumes "bpb_sound bs"
  shows "\<exists>ctx. fat_parse bs mb = Ret ctx \<and>
    c_first_data_sector ctx = bpb_reserved_sector_count (bpb_of bs) + bpb_fat_count (bpb_of bs) * bpb_sectors_per_fat32 (bpb32_of bs) \<and>
    c_sectors_per_cluster ctx = bpb_sectors_per_cluster (bpb_of bs) \<and>
    c_cluster_count ctx = (c_sector_count ctx - c_first_data_sector ctx) div c_sectors_per_cluster ctx \<and>
    c_first_data_sector ctx \<le> c_sector_count ctx \<and> c_sector_count ctx < W32"
proof -
  let ?b = "bpb_of bs" and ?t = "max (bpb_sector_count16 (bpb_of bs)) (bpb_sectors_count32 (bpb_of bs))"
  let ?f = "bpb_reserved_sector_count ?b + bpb_fat_count ?b * bpb_sectors_per_fat32 (bpb32_of bs)"
  have s: "?f \<le> ?t" "0 < bpb_sectorsize ?b" "0 < bpb_sectors_per_cluster ?b" "bpb_sectors_per_fat16 ?b = 0" "bpb_root_dir_entries_count ?b = 0"
    using assms by (simp_all add: bpb_sound_def)
  have t: "?t < W32" by (rule total_sectors)
  have f: "?f < W32" using order.strict_trans1 [OF s(1) t] .
  have before: "add32 (add32 (bpb_reserved_sector_count ?b) (mul32 (bpb_fat_count ?b) (bpb_sectors_per_fat32 (bpb32_of bs)))) 0 = ?f"
  proof -
    have "mul32 (bpb_fat_count ?b) (bpb_sectors_per_fat32 (bpb32_of bs)) = bpb_fat_count ?b * bpb_sectors_per_fat32 (bpb32_of bs)"
      using f by (intro mul32_exact) simp
    then show ?thesis using f by (simp add: add32_exact)
  qed
  have root: "((bpb_root_dir_entries_count ?b * 32 + (bpb_sectorsize ?b - 1)) div bpb_sectorsize ?b) mod 65536 = 0"
    using s(2,5) by simp
  have "sub32 ?t ?f = ?t - ?f" using s(1) t by (rule sub32_exact)
  then show ?thesis using s t by (simp add: fat_parse_def Let_def root before)
qed

lemma cluster_in_volume:
  assumes "2 \<le> c" "c < cc + 2" "c < W32" and "cc = (n - f) div spc" and "0 < spc" "f \<le> n" "n < W32"
    and "c_sectors_per_cluster ctx = spc" "c_first_data_sector ctx = f"
  shows "fat_cluster_to_sector c ctx = f + (c - 2) * spc" and "f + (c - 2) * spc + spc \<le> n"
proof -
  have "c - 1 = Suc (c - 2)" using assms(1) by simp
  then have "(c - 2) * spc + spc = (c - 1) * spc" by simp
  also have "\<dots> \<le> cc * spc" using assms(2) by (intro mult_right_mono) simp_all
  also have "\<dots> \<le> n - f" using assms(4) by simp
  finally show le: "f + (c - 2) * spc + spc \<le> n" using assms(6) by simp
  have "sub32 c 2 = c - 2" using assms(1,3) by (rule sub32_exact)
  then show "fat_cluster_to_sector c ctx = f + (c - 2) * spc"
    using le assms(5,7-9) by (simp add: fat_cluster_to_sector_def mul32_exact add32_exact)
qed

section \<open>Chains of clusters\<close>

definition fat_chain :: "unit blkdev_ops \<Rightarrow> FAT32Ctx \<Rightarrow> nat list \<Rightarrow> bool" where
  "fat_chain E ctx cs \<longleftrightarrow> (\<forall>i. Suc i < length cs \<longrightarrow> fat_next_clus E (cs ! i) ctx = Ret (Inr (cs ! Suc i)))"

lemma fat_chain_Cons:
  "fat_chain E ctx (c # d # cs) \<longleftrightarrow> fat_next_clus E c ctx = Ret (Inr d) \<and> fat_chain E ctx (d # cs)"
  by (auto simp: fat_chain_def less_Suc_eq_0_disj)

lemma skip_chain:
  "fat_chain E ctx cs \<Longrightarrow> k < length cs \<Longrightarrow> skip_clusters E ctx k (cs ! 0) = Ret (Inr (cs ! k))"
proof (induction k arbitrary: cs)
  case (Suc k)
  then obtain c d ds where cs: "cs = c # d # ds" by (cases cs; cases "tl cs") auto
  then show ?case using Suc.IH [of "d # ds"] Suc.prems by (simp add: fat_chain_Cons)
qed simp

text \<open>The loop over the clusters \<open>cs\<close> of a file, whose bytes are \<open>bss\<close>; \<open>nx\<close> is what follows the last of them.\<close>

lemma read_chain:
  assumes "cs \<noteq> []" and "fat_chain E ctx cs" and "fat_next_clus E (last cs) ctx = Ret nx"
    and "list_all2 (\<lambda>c bs. fat_read_one_cluster E c ctx = Inr bs) cs bss"
    and "0 < c_clustersize ctx" and "length cs * c_clustersize ctx < W32"
  shows "read_clusters E ctx (length cs * c_clustersize ctx) (cs ! 0) acc =
    Some (Ret (case nx of Inl e \<Rightarrow> Inl e | Inr _ \<Rightarrow> Inr (acc @ concat bss)))"
  using assms
proof (induction cs arbitrary: acc bss)
  case (Cons c cs)
  obtain b bs where bss: "bss = b # bs" "fat_read_one_cluster E c ctx = Inr b"
    "list_all2 (\<lambda>c bs. fat_read_one_cluster E c ctx = Inr bs) cs bs"
    using Cons.prems(4) by (auto simp: list_all2_Cons1)
  have sz: "sub32 (length (c # cs) * c_clustersize ctx) (c_clustersize ctx) = length cs * c_clustersize ctx"
    using Cons.prems(6) by (subst sub32_exact) simp_all
  show ?case
  proof (cases cs)
    case Nil
    then show ?thesis using Cons.prems bss sz
      by (subst read_clusters.simps) (auto simp: read_clusters.simps [of _ _ 0] split: sum.split)
  next
    case (Cons d ds)
    have "fat_next_clus E c ctx = Ret (Inr d)" "fat_chain E ctx cs"
      using \<open>fat_chain E ctx (c # cs)\<close> Cons by (simp_all add: fat_chain_Cons)
    moreover have "read_clusters E ctx (length cs * c_clustersize ctx) (cs ! 0) (acc @ b) =
        Some (Ret (case nx of Inl e \<Rightarrow> Inl e | Inr _ \<Rightarrow> Inr ((acc @ b) @ concat bs)))"
      using Cons.IH [of bs "acc @ b"] Cons.prems bss(3) Cons calculation(2) by simp
    ultimately show ?thesis using Cons bss(1,2) sz \<open>0 < c_clustersize ctx\<close>
      by (subst read_clusters.simps) (simp del: mult_Suc split: sum.split)
  qed
qed simp

section \<open>Reads\<close>

text \<open>What a read of \<open>n\<close> bytes from \<open>off\<close> on asks for: the clusters that hold these bytes.\<close>

definition clusters_for :: "FAT32Ctx \<Rightarrow> nat \<Rightarrow> nat" where
  "clusters_for ctx m = (m + (c_clustersize ctx - 1)) div c_clustersize ctx"

lemma working_size:
  assumes "0 < c_clustersize ctx" and "m + c_clustersize ctx < W32"
  shows "bytes_align_up64 m (c_clustersize ctx) = clusters_for ctx m * c_clustersize ctx"
    and "clusters_for ctx m * c_clustersize ctx < m + c_clustersize ctx" and "m \<le> clusters_for ctx m * c_clustersize ctx"
proof -
  let ?c = "c_clustersize ctx" and ?u = "bytes_align_up64 m (c_clustersize ctx)"
  have u: "?c dvd ?u" "m \<le> ?u" "?u < m + ?c" using bytes_align_up64_props [of ?c m] assms by simp_all
  obtain k where k: "?u = ?c * k" using u(1) by blast
  have "clusters_for ctx m = k"
    unfolding clusters_for_def
  proof (rule div_nat_eqI)
    show "?c * k \<le> m + (?c - 1)" using u(3) k assms(1) by simp
    show "m + (?c - 1) < ?c * Suc k" using u(2) k assms(1) by simp
  qed
  then show "?u = clusters_for ctx m * ?c" using k by simp
  then show "clusters_for ctx m * ?c < m + ?c" "m \<le> clusters_for ctx m * ?c" using u by simp_all
qed

lemma fat_read_result:
  assumes km: "km_heap ma km heap live" and small: "small_heap ma heap"
    and sizes: "0 < c_sectorsize ctx" "c_sectorsize ctx < W32" "0 < c_clustersize ctx" "vsize + c_clustersize ctx < W32"
    and n: "0 < n" "off < c_clustersize ctx" "off < vsize"
    and m: "m = min n (vsize - off)"
    and cs: "length cs = clusters_for ctx (off + m)" "fat_chain E ctx cs" "fat_next_clus E (last cs) ctx = Ret nx"
    and rd: "list_all2 (\<lambda>c bs. fat_read_one_cluster E c ctx = Inr bs \<and> length bs = c_clustersize ctx) cs bss"
  shows "\<exists>r um' km'. fat_read E (cs ! 0) vsize ctx buf n off (um, km) = Some (Ret (r, um', km')) \<and> km_heap ma km' heap live \<and>
    (r = Inl ENOMEM \<and> um' = um \<or>
     (case nx of
        Inl e \<Rightarrow> r = Inl e \<and> um' = um
      | Inr _ \<Rightarrow> r = Inr m \<and> um' = snd (user_copy_to um buf (slice off m (concat bss)))))"
proof -
  let ?w = "clusters_for ctx (off + m) * c_clustersize ctx"
  have om: "off + m \<le> vsize" "0 < m" using m n by simp_all
  have fits: "off + m + c_clustersize ctx < W32" using om(1) sizes(4) by simp
  have w: "bytes_align_up64 (add32 m (off mod c_clustersize ctx)) (c_clustersize ctx) mod W32 = ?w" "0 < ?w" "?w < W32" "off + m \<le> ?w"
  proof -
    show "off + m \<le> ?w" "?w < W32" using working_size(2,3) [OF sizes(3) fits] fits by linarith+
    then show "0 < ?w" using om(2) by linarith
    show "bytes_align_up64 (add32 m (off mod c_clustersize ctx)) (c_clustersize ctx) mod W32 = ?w"
      using working_size(1) [OF sizes(3) fits] \<open>?w < W32\<close> fits n(2) by (simp add: add32_exact add.commute)
  qed
  have ne: "cs \<noteq> []" using w(2) cs(1) by auto
  have "list_all2 (\<lambda>c bs. fat_read_one_cluster E c ctx = Inr bs) cs bss"
    using rd by (rule list_all2_mono) simp
  from read_chain [OF ne cs(2,3) this sizes(3), of "[]"]
  have loop: "read_clusters E ctx ?w (cs ! 0) [] = Some (Ret (case nx of Inl e \<Rightarrow> Inl e | Inr _ \<Rightarrow> Inr (concat bss)))"
    using w(3) cs(1) by (simp split: sum.split)
  have "length (concat bss) = length cs * c_clustersize ctx"
    using rd by (induction rule: list_all2_induct) simp_all
  then have len: "\<not> length (concat bss) < off + m" using w(4) cs(1) by simp
  let ?good = "\<lambda>run. \<exists>r um' km'. run = Some (Ret (r, um', km')) \<and> km_heap ma km' heap live \<and>
    (r = Inl ENOMEM \<and> um' = um \<or>
     (case nx of
        Inl e \<Rightarrow> r = Inl e \<and> um' = um
      | Inr _ \<Rightarrow> r = Inr m \<and> um' = snd (user_copy_to um buf (slice off m (concat bss)))))"
  have free1: "\<exists>km'. kfree (Some f) k = Some (Ret km') \<and> km_heap ma km' heap live"
    if "km_heap ma k heap (live(f \<mapsto> (sz, ma)))" "live f = None" for f k sz
    using use_kfree [OF that(1), of f] that(2) by (simp add: fun_upd_idem)
  let ?rest = "\<lambda>f (q, km2). case q of
      None \<Rightarrow> bind_run (kfree (Some f) km2) (\<lambda>km3. Some (Ret (Inl ENOMEM, um, km3)))
    | Some c \<Rightarrow> bind_run (read_clusters E ctx ?w (cs ! 0) []) (\<lambda>rd.
        case rd of
          Inl e \<Rightarrow> bind_run (kfree (Some c) km2) (\<lambda>km3. bind_run (kfree (Some f) km3) (\<lambda>km4. Some (Ret (Inl e, um, km4))))
        | Inr bytes \<Rightarrow>
            if off + m > length bytes then Some Panic
            else
              let um1 = snd (user_copy_to um buf (slice off m bytes)) in
              bind_run (kfree (Some f) km2) (\<lambda>km3. bind_run (kfree (Some c) km3) (\<lambda>km4. Some (Ret (Inr m, um1, km4)))))"
  have both: "\<exists>km3 km4. kfree (Some x) k = Some (Ret km3) \<and> kfree (Some y) km3 = Some (Ret km4) \<and> km_heap ma km4 heap live"
    if k: "km_heap ma k heap now" and o: "owns ma now live [x, y]" for x y k now
    using kfree_all_ok [OF k o] by (auto dest!: bind_run_Ret)
  have inner: "?good (bind_run (kmalloc ?w km1) (?rest f))"
    if f: "km_heap ma km1 heap (live(f \<mapsto> (sz, ma)))" "live f = None" for f km1 sz
  proof (rule after_kmalloc [OF f(1) small w(2,3)], goal_cases)
    case (1 km2)
    then show ?case using free1 [OF 1 f(2)] by auto
  next
    case (2 c km2)
    have o: "owns ma ((live(f \<mapsto> (sz, ma)))(c \<mapsto> (?w, ma))) live [c, f]"
    proof -
      have "owns ma (live(f \<mapsto> (sz, ma))) live [f]" using owns_new [of ma live live "[]" f] f(2) by simp
      from owns_new [where a = c, OF this 2(2)] show ?thesis .
    qed
    then have o2: "owns ma ((live(f \<mapsto> (sz, ma)))(c \<mapsto> (?w, ma))) live [f, c]"
      using owns_perm [of "[c, f]" "[f, c]"] by simp
    show ?case using both [OF 2(1) o] both [OF 2(1) o2] len by (cases nx) (auto simp: loop)
  qed
  have skip: "skip_clusters E ctx (off div c_clustersize ctx) (cs ! 0) = Ret (Inr (cs ! 0))" using n(2) by simp
  have "?good (bind_run (kmalloc (c_sectorsize ctx) km) (\<lambda>(p, km1). case p of
      None \<Rightarrow> Some (Ret (Inl ENOMEM, um, km1)) | Some f \<Rightarrow> bind_run (kmalloc ?w km1) (?rest f)))"
    by (rule after_kmalloc [OF km small sizes(1,2)]) (use inner in simp_all)
  moreover have "fat_read E (cs ! 0) vsize ctx buf n off (um, km) =
      bind_run (kmalloc (c_sectorsize ctx) km) (\<lambda>(p, km1). case p of
        None \<Rightarrow> Some (Ret (Inl ENOMEM, um, km1)) | Some f \<Rightarrow> bind_run (kmalloc ?w km1) (?rest f))"
    using n sizes(3) w(1) by (simp add: fat_read_def Let_def skip flip: m cong: option.case_cong)
  ultimately show ?thesis by simp
qed

section \<open>A file of two clusters\<close>

definition demo_fat_sector :: "u8 list" where
  "demo_fat_sector = replicate 12 0 @ [4, 0, 0, 0, 0xFF, 0xFF, 0xFF, 0x0F] @ replicate 492 0"

definition demo_boot :: "u8 list" where
  "demo_boot = replicate 11 0 @ [0, 2, 1, 32, 0, 2, 0, 0, 0, 0, 0, 0, 0] @ replicate 8 0 @ [0x90, 0x8E, 1, 0, 0xE8, 3, 0, 0] @ replicate 4 0
     @ [2, 0, 0, 0] @ replicate 464 0"

definition file_ops :: "unit blkdev_ops" where
  "file_ops = \<lparr>dev_read = (\<lambda>_ lba n x. (Inr (if lba = 32 then demo_fat_sector else replicate (n * 512) 0x41), x)),
     dev_write = (\<lambda>_ _ _ _ x. (Inl EIO, x))\<rparr>"

lemma fat_ctx_size: "c_clustersize fat_ctx = 512"
  by (simp add: fat_ctx_def)

lemma file_next: "fat_next_clus file_ops 3 fat_ctx = Ret (Inr 4)" "fat_next_clus file_ops 4 fat_ctx = Ret (Inl EINVAL)"
  by (simp_all add: fat_next_clus_def fat_entry_for_clus_def fat_ctx_def file_ops_def part_read_def partition_generic_read_def
      demo_fat_sector_def le32_def le16_def nth_append word_cat_eq mul32_def add32_def add64_def)

lemma file_cluster: "c \<in> {3, 4} \<Longrightarrow> fat_read_one_cluster file_ops c fat_ctx = Inr (replicate 512 0x41)"
  by (auto simp: fat_read_one_cluster_def fat_cluster_to_sector_def fat_ctx_def file_ops_def part_read_def partition_generic_read_def
      mul32_def add32_def sub32_def add64_def)

section \<open>Properties\<close>

text \<open>
  The data region of a mounted volume: when the sector counts of the boot record fit together, the cluster numbers
  2 up to the last one address exactly the groups of sectors behind the tables, without any wrap-around, and no cluster
  reaches over the end of the volume.
\<close>
theorem fat_clusters_in_volume:
  assumes "bpb_sound bs"
  shows "\<exists>ctx. fat_parse bs mb = Ret ctx \<and>
    (\<forall>c. 2 \<le> c \<and> c < c_cluster_count ctx + 2 \<and> c < W32 \<longrightarrow>
       fat_cluster_to_sector c ctx = c_first_data_sector ctx + (c - 2) * c_sectors_per_cluster ctx \<and>
       fat_cluster_to_sector c ctx + c_sectors_per_cluster ctx \<le> c_sector_count ctx)"
proof -
  obtain ctx where ctx: "fat_parse bs mb = Ret ctx" "c_sectors_per_cluster ctx = bpb_sectors_per_cluster (bpb_of bs)"
    "c_cluster_count ctx = (c_sector_count ctx - c_first_data_sector ctx) div c_sectors_per_cluster ctx"
    "c_first_data_sector ctx \<le> c_sector_count ctx" "c_sector_count ctx < W32"
    using fat_parse_sound [OF assms] by blast
  have "0 < c_sectors_per_cluster ctx" using assms ctx(2) by (simp add: bpb_sound_def)
  from cluster_in_volume [OF _ _ _ ctx(3) this ctx(4,5) refl refl] show ?thesis using ctx(1) by auto
qed

text \<open>
  A volume of 102032 sectors whose data starts at sector 2032.
\<close>
theorem fat_clusters_in_volume_witness:
  "\<exists>ctx. fat_parse demo_boot (c_blkdev fat_ctx) = Ret ctx \<and> fat_cluster_to_sector 100001 ctx + 1 \<le> 102032"
proof -
  have b: "bpb_of demo_boot = \<lparr>bpb_sectorsize = 512, bpb_sectors_per_cluster = 1, bpb_reserved_sector_count = 32, bpb_fat_count = 2,
      bpb_root_dir_entries_count = 0, bpb_sector_count16 = 0, bpb_sectors_per_fat16 = 0, bpb_sectors_count32 = 102032\<rparr>"
    "bpb32_of demo_boot = \<lparr>bpb_sectors_per_fat32 = 1000, bpb_root_dir_cluster = 2\<rparr>"
    by (simp_all add: bpb_of_def bpb32_of_def demo_boot_def le32_def le16_def nth_append word_cat_eq)
  have "bpb_sound demo_boot" by (simp add: bpb_sound_def b)
  from fat_clusters_in_volume [OF this, of "c_blkdev fat_ctx"]
  obtain ctx where ctx: "fat_parse demo_boot (c_blkdev fat_ctx) = Ret ctx"
    "\<forall>c. 2 \<le> c \<and> c < c_cluster_count ctx + 2 \<and> c < W32 \<longrightarrow>
       fat_cluster_to_sector c ctx = c_first_data_sector ctx + (c - 2) * c_sectors_per_cluster ctx \<and>
       fat_cluster_to_sector c ctx + c_sectors_per_cluster ctx \<le> c_sector_count ctx"
    by (elim exE conjE) (rule that)
  have "c_cluster_count ctx = 100000" "c_sectors_per_cluster ctx = 1" "c_sector_count ctx = 102032"
    using ctx(1) by (auto simp: fat_parse_def b Let_def add32_def mul32_def sub32_def)
  then show ?thesis using ctx(1) spec [OF ctx(2), of 100001] by simp
qed



text \<open>
  The same file read to its end: the read of all of its two clusters fails.
\<close>

lemma fat_read_to_end_fails:
  "\<exists>r um' km'. fat_read file_ops 3 600 fat_ctx 4096 600 0 (\<lambda>_. Some 0, demo_state) = Some (Ret (r, um', km')) \<and> r \<in> {Inl ENOMEM, Inl EINVAL}"
proof -
  have s: "0 < c_sectorsize fat_ctx" "c_sectorsize fat_ctx < W32" "0 < c_clustersize fat_ctx" "600 + c_clustersize fat_ctx < W32"
    "0 < (600 :: nat)" "0 < c_clustersize fat_ctx" "0 < (600 :: nat)" "(600 :: nat) = min 600 (600 - 0)"
    by (simp_all add: fat_ctx_def)
  have cs: "length [3, 4] = clusters_for fat_ctx (0 + 600)" "fat_chain file_ops fat_ctx [3, 4]"
    "fat_next_clus file_ops (last [3, 4]) fat_ctx = Ret (Inl EINVAL)"
    "list_all2 (\<lambda>c bs. fat_read_one_cluster file_ops c fat_ctx = Inr bs \<and> length bs = c_clustersize fat_ctx) [3, 4]
       [replicate 512 0x41, replicate 512 0x41]"
    by (simp_all add: clusters_for_def fat_ctx_size fat_chain_def file_next file_cluster less_Suc_eq)
  from fat_read_result [OF demo_km_ok demo_disk_small s cs, of 4096 "\<lambda>_. Some 0"] show ?thesis by auto
qed

end
