(* ===== verification/FatFs.thy ===== *)
theory FatFs
  imports FatDir Fs
begin

text \<open>
  The FAT32 driver as a filesystem driver of the virtual filesystem: the caching of directories of
  \<^verbatim>\<open>drivers/fs/fat/fat_dir.c\<close> and the driver functions of \<^verbatim>\<open>drivers/fs/fat/fat.c\<close>. \<open>driver_ctx\<close> gives the pointer that
  a mounted filesystem keeps for its driver, the address of its context and the context once it is filled. The block
  device below the filesystem and the search for it are the environment \<open>fat_env\<close>.
\<close>

record fat_priv =
  driver_ctx :: "addr \<rightharpoonup> addr \<times> FAT32Ctx option"
  fat_user :: user_mem

record fat_env =
  fat_dev :: "unit blkdev_ops"
  find_mountable :: "kstr option \<Rightarrow> MountableBlockDevice option"

type_synonym fat_state = "fat_priv vfs_state"

definition S_IFMT :: u32 where "S_IFMT = 0xF000"

definition FAT32_CTX :: "addr \<Rightarrow> fat_state \<Rightarrow> FAT32Ctx option" where
  "FAT32_CTX fs s = (case driver_ctx (priv s) fs of Some (_, Some ctx) \<Rightarrow> Some ctx | _ \<Rightarrow> None)"

definition set_ctx :: "addr \<Rightarrow> (addr \<times> FAT32Ctx option) option \<Rightarrow> fat_state \<Rightarrow> fat_state" where
  "set_ctx fs c s = s\<lparr>priv := (priv s)\<lparr>driver_ctx := (driver_ctx (priv s))(fs := c)\<rparr>\<rparr>"

section \<open>Caching a directory\<close>

text \<open>
  One entry becomes a cached vnode. The name that the reader allocated is freed again. An entry that was read without
  memory for its name has none; copying it is a fault.
\<close>

definition fat_cache_entry :: "fat_priv fs_env \<Rightarrow> addr \<Rightarrow> addr \<Rightarrow> dir_vnode \<Rightarrow> fat_state \<Rightarrow> (addr option \<times> fat_state) outcome option" where
  "fat_cache_entry E dirv fs v s =
     bind_run
       (case dv_name v of
          Some (_, name) \<Rightarrow> fs_new_vnode_cache E name fs s
        | None \<Rightarrow> bind_run (kcalloc vnode_size (vkm s)) (\<lambda>(p, km).
            case p of None \<Rightarrow> Some (Ret (None, set_vkm km s)) | Some _ \<Rightarrow> Some Panic))
       (\<lambda>(cached, s1).
         bind_run (vkfree (map_option fst (dv_name v)) s1) (\<lambda>s2.
           case cached of
             None \<Rightarrow> Some (Ret (None, s2))
           | Some a \<Rightarrow>
               with_vnode a s2 (\<lambda>vn. Some (Ret (Some a, s2\<lparr>vnodes := (vnodes s2)(a \<mapsto>
                 vn\<lparr>vn_n := dv_n v, vn_mode := dv_mode v, vn_size := dv_size v, vn_parent := Some dirv\<rparr>)\<rparr>)))))"

definition fat_start :: "nat \<Rightarrow> FATEntryLoc" where
  "fat_start n = \<lparr>loc_cluster = n, loc_offset = 0, loc_read_next = False\<rparr>"

text \<open>The loop, with the recursion into subdirectories; the result of a subdirectory is not looked at.\<close>

partial_function (option) fat_enumerate :: "fat_env \<Rightarrow> fat_priv fs_env \<Rightarrow> addr \<Rightarrow> addr \<Rightarrow> FATEntryLoc \<Rightarrow> fat_state
    \<Rightarrow> (unit result \<times> fat_state) outcome option" where
  "fat_enumerate F E dirv fs loc s =
     (case FAT32_CTX fs s of
        None \<Rightarrow> Some Panic
      | Some ctx \<Rightarrow>
          Option.bind (fat_dir_entry_to_vnode (fat_dev F) ctx loc (vkm s)) (\<lambda>out.
            case out of
              Panic \<Rightarrow> Some Panic
            | Ret ((Inl e, loc1, v), km1) \<Rightarrow>
                if e = EAGAIN then fat_enumerate F E dirv fs loc1 (set_vkm km1 s)
                else if e = ENOENT then Some (Ret (Inr (), set_vkm km1 s))
                else Some (Ret (Inl e, set_vkm km1 s))
            | Ret ((Inr _, loc1, v), km1) \<Rightarrow>
                Option.bind (fat_cache_entry E dirv fs v (set_vkm km1 s)) (\<lambda>out2.
                  case out2 of
                    Panic \<Rightarrow> Some Panic
                  | Ret (None, s2) \<Rightarrow> fat_enumerate F E dirv fs loc1 s2
                  | Ret (Some a, s2) \<Rightarrow>
                      if dv_mode v AND S_IFMT = S_IFDIR then
                        Option.bind (fat_enumerate F E a fs (fat_start (dv_n v)) s2) (\<lambda>out3.
                          case out3 of Panic \<Rightarrow> Some Panic | Ret r \<Rightarrow> fat_enumerate F E dirv fs loc1 (snd r))
                      else fat_enumerate F E dirv fs loc1 s2)))"

definition fat_enumerate_and_cache_dir :: "fat_env \<Rightarrow> fat_priv fs_env \<Rightarrow> addr \<Rightarrow> addr \<Rightarrow> fat_state
    \<Rightarrow> (unit result \<times> fat_state) outcome option" where
  "fat_enumerate_and_cache_dir F E dirv fs s =
     with_vnode dirv s (\<lambda>d.
       if vn_mode d AND S_IFMT \<noteq> S_IFDIR then Some Panic else fat_enumerate F E dirv fs (fat_start (vn_n d)) s)"

definition fat_cache_root_vnode :: "fat_priv fs_env \<Rightarrow> addr \<Rightarrow> fat_state \<Rightarrow> (unit result \<times> fat_state) outcome option" where
  "fat_cache_root_vnode E fs s =
     with_ptr (FAT32_CTX fs s) (\<lambda>ctx.
     bind_run (fs_new_vnode_cache E ''/'' fs s) (\<lambda>(r, s1).
       case r of
         None \<Rightarrow> Some (Ret (Inl ENOMEM, s1))
       | Some a \<Rightarrow>
           with_vnode a s1 (\<lambda>vn. Some (Ret (Inr (), s1\<lparr>vnodes := (vnodes s1)(a \<mapsto>
             vn\<lparr>vn_n := c_root_dir_cluster ctx, vn_parent := None, vn_mode := FAT_DIR_MODE, vn_size := 0\<rparr>)\<rparr>)))))"

section \<open>The driver\<close>

primrec free_vnode_names :: "addr list \<Rightarrow> fat_state \<Rightarrow> fat_state outcome option" where
  "free_vnode_names [] s = Some (Ret s)"
| "free_vnode_names (a # as) s =
     with_vnode a s (\<lambda>v. bind_run (vkfree (map_option fst (vn_name v)) s) (free_vnode_names as))"

definition fat_destroy :: "addr \<Rightarrow> fat_state \<Rightarrow> fat_state outcome option" where
  "fat_destroy fs s =
     bind_run
       (case driver_ctx (priv s) fs of
          None \<Rightarrow> Some (Ret s)
        | Some (a, _) \<Rightarrow> bind_run (vkfree (Some a) s) (\<lambda>s1. Some (Ret (set_ctx fs None s1))))
       (\<lambda>s1.
         with_fs fs s1 (\<lambda>f.
         bind_run (ll_entries (vnode_ll f) s1) (\<lambda>as.
         bind_run (free_vnode_names as s1) (\<lambda>s2. fs_free_all_cached_vnodes fs s2))))"

abbreviation destroy_with :: "addr \<Rightarrow> errno \<Rightarrow> fat_state \<Rightarrow> (unit result \<times> fat_state) outcome option" where
  "destroy_with fs e s \<equiv> bind_run (fat_destroy fs s) (\<lambda>s1. Some (Ret (Inl e, s1)))"

definition fat32ctx_size :: nat where "fat32ctx_size = 56"

text \<open>The end of \<open>fat_init\<close>, from the root directory on.\<close>

definition fat_cache_tree :: "fat_env \<Rightarrow> fat_priv fs_env \<Rightarrow> addr \<Rightarrow> fat_state \<Rightarrow> (unit result \<times> fat_state) outcome option" where
  "fat_cache_tree F E fs s =
     bind_run (fat_cache_root_vnode E fs s) (\<lambda>(r, s1).
       case r of
         Inl e \<Rightarrow> destroy_with fs e s1
       | Inr _ \<Rightarrow>
           bind_run (fs_lookup_vnode ''/'' fs s1) (\<lambda>rv.
             case rv of
               Inl e \<Rightarrow> Some Panic
             | Inr rootv \<Rightarrow>
                 bind_run (fat_enumerate_and_cache_dir F E rootv fs s1) (\<lambda>(r2, s2).
                   case r2 of Inl e \<Rightarrow> destroy_with fs e s2 | Inr _ \<Rightarrow> Some (Ret (Inr (), s2)))))"

definition fat_init :: "fat_env \<Rightarrow> fat_priv fs_env \<Rightarrow> addr \<Rightarrow> fat_state \<Rightarrow> (unit result \<times> fat_state) outcome option" where
  "fat_init F E fs s =
     with_fs fs s (\<lambda>f.
       case find_mountable F (mntsrc f) of
         None \<Rightarrow> Some (Ret (Inl ENOTBLK, s))
       | Some mb \<Rightarrow>
           bind_run (fat_validate (fat_dev F) mb (vkm s)) (\<lambda>(r, km1).
             case r of
               Inl e \<Rightarrow> Some (Ret (Inl e, set_vkm km1 s))
             | Inr _ \<Rightarrow>
                 bind_run (kmalloc fat32ctx_size km1) (\<lambda>(p, km2).
                   case p of
                     None \<Rightarrow> Some (Ret (Inl ENOMEM, set_vkm km2 s))
                   | Some a \<Rightarrow>
                       bind_run (fat_parse_metadata (fat_dev F) mb km2) (\<lambda>(r2, km3).
                         let s3 = set_vkm km3 s in
                         case r2 of
                           Inl e \<Rightarrow> destroy_with fs e (set_ctx fs (Some (a, None)) s3)
                         | Inr ctx \<Rightarrow>
                             let s4 = set_ctx fs (Some (a, Some ctx)) s3 in
                             if c_type ctx \<noteq> FAT32 then destroy_with fs EINVAL s4
                             else fat_cache_tree F E fs s4))))"

text \<open>A read through the vnode; the bytes go to the user memory of the state.\<close>

definition fat_vnode_read :: "fat_env \<Rightarrow> addr \<Rightarrow> addr \<Rightarrow> size_t \<Rightarrow> int \<Rightarrow> fat_state \<Rightarrow> (int result \<times> fat_state) outcome option" where
  "fat_vnode_read F a buf n off s =
     with_vnode a s (\<lambda>v.
       if n = 0 \<or> nat (off mod 4294967296) \<ge> vn_size v then Some (Ret (Inr 0, s))
       else with_ptr (vn_owner v) (\<lambda>fs. with_ptr (FAT32_CTX fs s) (\<lambda>ctx.
         bind_run (fat_read (fat_dev F) (vn_n v) (vn_size v) ctx buf n (nat (off mod 4294967296)) (fat_user (priv s), vkm s))
           (\<lambda>(r, um, km). Some (Ret (case r of Inl e \<Rightarrow> Inl e | Inr k \<Rightarrow> Inr (int k),
             (set_vkm km s)\<lparr>priv := (priv s)\<lparr>fat_user := um\<rparr>\<rparr>))))))"

definition g_fatfs_vnode_ops :: "fat_env \<Rightarrow> fat_priv VirtualNodeOperations" where
  "g_fatfs_vnode_ops F =
     \<lparr>op_open = (\<lambda>_ _ s. Some (Ret (Inr (), s))), op_read = fat_vnode_read F, op_write = (\<lambda>_ _ _ _ _. Some Panic),
      op_ioctl = (\<lambda>_ _ _ s. Some (Ret (- 1, s))), op_mmap = None\<rparr>"

definition g_fatfs_driver :: "fat_env \<Rightarrow> fat_priv fs_env \<Rightarrow> addr \<Rightarrow> fat_priv FileSystemDriver" where
  "g_fatfs_driver F E ops =
     \<lparr>drv_name = ''fatfs'', generic_probe = True, drv_init = fat_init F E, drv_destroy = fat_destroy,
      drv_mkfile = (\<lambda>_ _ _ _ _ _ _. Some Panic), drv_rmnode = (\<lambda>_ _. Some Panic), drv_vnode_ops = Some ops\<rparr>"

section \<open>Mounting away from the root\<close>

text \<open>
  The root directory is looked up by the path of the root, not relative to the mount point: on every longer mount point
  the lookup fails and the assertion after it panics.
\<close>

lemma lookup_root_fails:
  assumes "fs_objs s fs = Some f" and "mntpoint f = Some (a, m)" and "1 < length m"
  shows "fs_lookup_vnode ''/'' fs s = Some (Ret (Inl EINVAL))"
proof -
  have "path_make_canonical ''/'' = ''/''"
    by (simp add: path_make_canonical_def dedup_pass_squash dot_pass.simps)
  then show ?thesis using assms by (simp add: fs_lookup_vnode_def with_fs_def fs_relative_def path_make_relative_def)
qed

lemma fat_mount_off_root_panics:
  assumes "fat_cache_root_vnode E fs s = Some (Ret (Inr (), s1))"
    and "fs_objs s1 fs = Some f" and "mntpoint f = Some (a, m)" and "1 < length m"
  shows "fat_cache_tree F E fs s = Some Panic"
  using lookup_root_fails [OF assms(2-4)] assms(1) by (simp add: fat_cache_tree_def)

end
