(* ===== verification/RamFs.thy ===== *)
theory RamFs
  imports Fs
begin

text \<open>
  The in-memory filesystem, \<^verbatim>\<open>drivers/fs/ramfs/ramfs.c\<close>, and the filesystem of devices on top of it,
  \<^verbatim>\<open>drivers/fs/devfs/devfs.c\<close>, as drivers of the modelled virtual filesystem. The pointer that a filesystem keeps for
  its driver leads to the address and the contents of its metadata. A block fresh from \<open>kmalloc\<close> is not cleared: what the
  metadata holds before it is set is an argument. The use of unset entries, and writing outside of a block, are faults,
  the outcome \<open>Panic\<close>.
\<close>

section \<open>Files in memory\<close>

record RamFsFileData =
  fd_data :: "addr option"
  fd_used :: bool

record RamFsMetadata =
  rf_files_ptr :: "addr option"
  rf_files :: "RamFsFileData list"
  file_capacity :: nat
  file_cursor :: nat

record ram_priv =
  ram_ctx :: "addr \<rightharpoonup> addr \<times> RamFsMetadata"
  vn_data :: "addr \<rightharpoonup> addr"
  ram_user :: user_mem

type_synonym ram_state = "ram_priv vfs_state"

definition zero_file :: RamFsFileData where
  "zero_file = \<lparr>fd_data = None, fd_used = False\<rparr>"

definition ramfilesize :: nat where "ramfilesize = 8"
definition rammetasize :: nat where "rammetasize = 12"

definition set_ram :: "addr \<Rightarrow> (addr \<times> RamFsMetadata) option \<Rightarrow> ram_state \<Rightarrow> ram_state" where
  "set_ram fs m s = s\<lparr>priv := (priv s)\<lparr>ram_ctx := (ram_ctx (priv s))(fs := m)\<rparr>\<rparr>"

definition ramfs_enlarge_files :: "nat \<Rightarrow> RamFsMetadata \<Rightarrow> kmstate \<Rightarrow> (unit result \<times> RamFsMetadata \<times> kmstate) outcome option" where
  "ramfs_enlarge_files newcount meta km =
     bind_run (krealloc (rf_files_ptr meta) (mul32 ramfilesize newcount) km) (\<lambda>(tmp, km1).
       case tmp of
         None \<Rightarrow> Some (Ret (Inl ENOMEM, meta, km1))
       | Some a \<Rightarrow>
           if newcount < file_capacity meta \<or> length (rf_files meta) < file_capacity meta then Some Panic
           else Some (Ret (Inr (),
             meta\<lparr>rf_files_ptr := Some a,
                  rf_files := take (file_capacity meta) (rf_files meta) @ replicate (newcount - file_capacity meta) zero_file,
                  file_capacity := newcount\<rparr>, km1)))"

text \<open>The search for a free slot from the cursor on; the file number is one more than the index of the slot.\<close>

function ramfs_scan :: "RamFsMetadata \<Rightarrow> nat option \<times> RamFsMetadata" where
  "ramfs_scan meta =
     (if file_cursor meta < file_capacity meta then
        let i = file_cursor meta; meta1 = meta\<lparr>file_cursor := i + 1\<rparr> in
        if \<not> fd_used (rf_files meta ! i)
        then (Some (i + 1), meta1\<lparr>rf_files := (rf_files meta)[i := (rf_files meta ! i)\<lparr>fd_used := True\<rparr>]\<rparr>)
        else ramfs_scan meta1
      else (None, meta))"
  by pat_completeness auto
termination by (relation "measure (\<lambda>meta. file_capacity meta - file_cursor meta)") auto

declare ramfs_scan.simps [simp del]

definition ramfs_find_next_avail_fd :: "RamFsMetadata \<Rightarrow> kmstate \<Rightarrow> (nat result \<times> RamFsMetadata \<times> kmstate) outcome option" where
  "ramfs_find_next_avail_fd meta km =
     (case ramfs_scan meta of
        (Some n, meta1) \<Rightarrow> Some (Ret (Inr n, meta1, km))
      | (None, meta1) \<Rightarrow>
          bind_run (ramfs_enlarge_files (mul32 (file_capacity meta1) 2) meta1 km) (\<lambda>(r, meta2, km1).
            Some (Ret (case r of Inl e \<Rightarrow> Inl ENOMEM | Inr _ \<Rightarrow> Inr (file_cursor meta2), meta2, km1))))"

definition ramfs_mkfile :: "ram_priv fs_env \<Rightarrow> addr option \<Rightarrow> string \<Rightarrow> u32 \<Rightarrow> nat \<Rightarrow> nat \<Rightarrow> addr \<Rightarrow> ram_state
    \<Rightarrow> (nat result \<times> ram_state) outcome option" where
  "ramfs_mkfile E dir name mode uid gid fs s =
     with_ptr (ram_ctx (priv s) fs) (\<lambda>(ma, meta).
     bind_run (fs_new_vnode_cache E name fs s) (\<lambda>(v, s1).
       case v of
         None \<Rightarrow> Some (Ret (Inl ENOMEM, s1))
       | Some a \<Rightarrow>
           bind_run (ramfs_find_next_avail_fd meta (vkm s1)) (\<lambda>(r, meta1, km).
             let s2 = set_ram fs (Some (ma, meta1)) (set_vkm km s1) in
             case r of
               Inl e \<Rightarrow> bind_run (fs_free_cached_vnode a fs s2) (\<lambda>(_, s3). Some (Ret (Inl e, s3)))
             | Inr n \<Rightarrow>
                 with_vnode a s2 (\<lambda>vn.
                   if n = 0 \<or> n > length (rf_files meta1) then Some Panic
                   else
                     let s3 = s2\<lparr>vnodes := (vnodes s2)(a \<mapsto> vn\<lparr>vn_n := n, vn_mode := mode, vn_size := 0, vn_uid := uid,
                                  vn_gid := gid, vn_parent := dir\<rparr>)\<rparr>
                     in Some (Ret (Inr n, set_ram fs (Some (ma, meta1\<lparr>rf_files := (rf_files meta1)[n - 1 :=
                          \<lparr>fd_data = None, fd_used = True\<rparr>]\<rparr>)) s3))))))"

primrec free_file_data :: "RamFsFileData list \<Rightarrow> ram_state \<Rightarrow> ram_state outcome option" where
  "free_file_data [] s = Some (Ret s)"
| "free_file_data (d # ds) s =
     bind_run (case fd_data d of None \<Rightarrow> Some (Ret s) | Some a \<Rightarrow> vkfree (Some a) s) (free_file_data ds)"

definition ramfs_destroy :: "addr \<Rightarrow> ram_state \<Rightarrow> ram_state outcome option" where
  "ramfs_destroy fs s =
     with_ptr (ram_ctx (priv s) fs) (\<lambda>(ma, meta).
       if length (rf_files meta) < file_capacity meta then Some Panic
       else
         bind_run (free_file_data (take (file_capacity meta) (rf_files meta)) s) (\<lambda>s1.
         bind_run (case rf_files_ptr meta of None \<Rightarrow> Some (Ret s1) | Some p \<Rightarrow> vkfree (Some p) s1) (\<lambda>s2.
         bind_run (vkfree (Some ma) s2) (\<lambda>s3. fs_free_all_cached_vnodes fs (set_ram fs None s3)))))"

definition RAMFS_DIR_MODE :: u32 where "RAMFS_DIR_MODE = 0x1C0 OR 0x20 OR 0x8 OR 4 OR 1 OR 0x4000"

text \<open>\<open>fresh\<close> is what the block of the metadata holds when it is allocated.\<close>

definition ramfs_init :: "RamFsMetadata \<Rightarrow> ram_priv fs_env \<Rightarrow> addr \<Rightarrow> ram_state \<Rightarrow> (unit result \<times> ram_state) outcome option" where
  "ramfs_init fresh E fs s =
     bind_run (kmalloc rammetasize (vkm s)) (\<lambda>(p, km).
       case p of
         None \<Rightarrow> Some (Ret (Inl ENOMEM, set_vkm km s))
       | Some ma \<Rightarrow>
           bind_run (ramfs_enlarge_files 8 (fresh\<lparr>file_cursor := 0\<rparr>) km) (\<lambda>(r, meta, km1).
             let s1 = set_ram fs (Some (ma, meta)) (set_vkm km1 s) in
             case r of
               Inl e \<Rightarrow> bind_run (ramfs_destroy fs s1) (\<lambda>s2. Some (Ret (Inl ENOMEM, s2)))
             | Inr _ \<Rightarrow>
                 bind_run (ramfs_mkfile E None ''/'' RAMFS_DIR_MODE 0 0 fs s1) (\<lambda>(r2, s2).
                   case r2 of
                     Inl e \<Rightarrow> bind_run (ramfs_destroy fs s2) (\<lambda>s3. Some (Ret (Inl e, s3)))
                   | Inr _ \<Rightarrow> Some (Ret (Inr (), s2)))))"

definition ramfs_rmnode :: "addr \<Rightarrow> ram_state \<Rightarrow> (unit result \<times> ram_state) outcome option" where
  "ramfs_rmnode a s =
     with_vnode a s (\<lambda>v.
     with_ptr (vn_owner v) (\<lambda>fs.
     with_ptr (ram_ctx (priv s) fs) (\<lambda>(ma, meta).
       if vn_mode v AND S_IFDIR \<noteq> 0 then Some Panic
       else if vn_n v = 0 \<or> vn_n v > length (rf_files meta) then Some Panic
       else
         let i = vn_n v - 1 in
         bind_run (case fd_data (rf_files meta ! i) of None \<Rightarrow> Some (Ret s) | Some d \<Rightarrow> vkfree (Some d) s) (\<lambda>s1.
           fs_free_cached_vnode a fs (set_ram fs (Some (ma, meta\<lparr>file_cursor := i, rf_files := (rf_files meta)[i := zero_file]\<rparr>)) s1)))))"

text \<open>
  Nothing gives a file data or a size, so a read ends at the size test. Behind it the bytes are those of the kernel
  memory at the data; for a file without data the copy routine faults on the null pointer and nothing is copied.
\<close>

definition ramfs_read :: "addr \<Rightarrow> addr \<Rightarrow> size_t \<Rightarrow> int \<Rightarrow> ram_state \<Rightarrow> (int result \<times> ram_state) outcome option" where
  "ramfs_read a buf n off s =
     with_vnode a s (\<lambda>v.
       let uoff = nat (off mod 4294967296) in
       if n = 0 \<or> uoff \<ge> vn_size v then Some (Ret (Inr 0, s))
       else with_ptr (vn_owner v) (\<lambda>fs. with_ptr (ram_ctx (priv s) fs) (\<lambda>(ma, meta).
         let n1 = min n (vn_size v - uoff) in
         if vn_n v = 0 \<or> vn_n v > length (rf_files meta) then Some Panic
         else
           let um = (case fd_data (rf_files meta ! (vn_n v - 1)) of
                       None \<Rightarrow> ram_user (priv s)
                     | Some d \<Rightarrow> snd (user_copy_to (ram_user (priv s)) buf (map (\<lambda>i. mem (vkm s) (d + uoff + i)) [0..<n1])))
           in Some (Ret (Inr (int n1), s\<lparr>priv := (priv s)\<lparr>ram_user := um\<rparr>\<rparr>)))))"

definition g_ramfs_vnode_ops :: "ram_priv VirtualNodeOperations" where
  "g_ramfs_vnode_ops =
     \<lparr>op_open = (\<lambda>_ _ s. Some (Ret (Inr (), s))), op_read = ramfs_read, op_write = (\<lambda>_ _ _ _ s. Some (Ret (Inr 0, s))),
      op_ioctl = (\<lambda>_ _ _ s. Some (Ret (- 1, s))), op_mmap = None\<rparr>"

definition g_ramfs_driver :: "RamFsMetadata \<Rightarrow> ram_priv fs_env \<Rightarrow> addr \<Rightarrow> ram_priv FileSystemDriver" where
  "g_ramfs_driver fresh E ops =
     \<lparr>drv_name = ''ramfs'', generic_probe = False, drv_init = ramfs_init fresh E, drv_destroy = ramfs_destroy,
      drv_mkfile = ramfs_mkfile E, drv_rmnode = ramfs_rmnode, drv_vnode_ops = Some ops\<rparr>"

section \<open>Files of devices\<close>

record DevFSEntry =
  de_name :: kstr
  de_mode :: u32
  de_uid :: nat
  de_gid :: nat
  de_ops :: "addr option"
  de_data :: "addr option"

record devfs_entries =
  g_entries_ptr :: "addr option"
  g_entries :: "DevFSEntry list"

definition devfs_entry_size :: nat where "devfs_entry_size = 24"

definition devfs_enlarge_entries :: "devfs_entries \<Rightarrow> kmstate \<Rightarrow> (unit result \<times> devfs_entries \<times> kmstate) outcome option" where
  "devfs_enlarge_entries d km =
     bind_run (krealloc (g_entries_ptr d) (mul32 (length (g_entries d) + 1) devfs_entry_size) km) (\<lambda>(tmp, km1).
       case tmp of
         None \<Rightarrow> Some (Ret (Inl ENOMEM, d, km1))
       | Some a \<Rightarrow> Some (Ret (Inr (), d\<lparr>g_entries_ptr := Some a\<rparr>, km1)))"

text \<open>
  The size that is asked for: the comparison binds weaker than the sum, so it is 0 or 1. Then a slash, unless the name has
  one, and the name are copied, with the terminator; a name with a slash is appended to the unset block.
\<close>

definition devfs_name_size :: "string \<Rightarrow> nat" where
  "devfs_name_size name =
     (let first = (case name of [] \<Rightarrow> 0 | c # _ \<Rightarrow> (of_char c :: int)) in
      if (int (length name) + 1 + (if first < 128 then first else first - 256)) mod 4294967296 \<noteq> 47 then 1 else 0)"

definition devfs_register :: "string \<Rightarrow> u32 \<Rightarrow> nat \<Rightarrow> nat \<Rightarrow> addr option \<Rightarrow> addr option \<Rightarrow> devfs_entries \<Rightarrow> kmstate
    \<Rightarrow> (unit result \<times> devfs_entries \<times> kmstate) outcome option" where
  "devfs_register name mode uid gid ops dat d km =
     bind_run (kmalloc (devfs_name_size name) km) (\<lambda>(p, km1).
       case p of
         None \<Rightarrow> Some (Ret (Inl ENOMEM, d, km1))
       | Some a \<Rightarrow>
           if (name \<noteq> [] \<and> hd name = slash) \<or> length name + 2 > devfs_name_size name then Some Panic
           else
             bind_run (devfs_enlarge_entries d km1) (\<lambda>(r, d1, km2).
               case r of
                 Inl e \<Rightarrow> bind_run (kfree (Some a) km2) (\<lambda>km3. Some (Ret (Inl ENOMEM, d1, km3)))
               | Inr _ \<Rightarrow>
                   Some (Ret (Inr (), d1\<lparr>g_entries := g_entries d1 @ [\<lparr>de_name = (a, slash # name), de_mode = mode, de_uid = uid,
                     de_gid = gid, de_ops = ops, de_data = dat\<rparr>]\<rparr>, km2))))"

fun devfs_add_entries :: "ram_priv fs_env \<Rightarrow> addr \<Rightarrow> DevFSEntry list \<Rightarrow> ram_state \<Rightarrow> (unit result \<times> ram_state) outcome option" where
  "devfs_add_entries E fs [] s = Some (Ret (Inr (), s))"
| "devfs_add_entries E fs (e # es) s =
     with_fs fs s (\<lambda>f. with_ptr (mntpoint f) (\<lambda>(_, mnt).
       if length mnt + 1 + length (snd (de_name e)) + 1 > PATH_MAX then devfs_add_entries E fs es s
       else
         bind_run (fs_mkfile E (mnt @ [slash] @ snd (de_name e)) (de_mode e) (de_uid e) (de_gid e) fs s) (\<lambda>(r, s1).
           case r of
             Inl _ \<Rightarrow> devfs_add_entries E fs es s1
           | Inr n \<Rightarrow>
               bind_run (fs_ino_to_vnode n fs s1) (\<lambda>v.
               with_ptr v (\<lambda>a. with_vnode a s1 (\<lambda>vn.
                 devfs_add_entries E fs es (s1\<lparr>vnodes := (vnodes s1)(a \<mapsto> vn\<lparr>vn_ops := de_ops e\<rparr>),
                   priv := (priv s1)\<lparr>vn_data := (vn_data (priv s1))(a := de_data e)\<rparr>\<rparr>)))))))"

definition devfs_init :: "RamFsMetadata \<Rightarrow> ram_priv fs_env \<Rightarrow> DevFSEntry list \<Rightarrow> addr \<Rightarrow> ram_state \<Rightarrow> (unit result \<times> ram_state) outcome option" where
  "devfs_init fresh E es fs s =
     bind_run (ramfs_init fresh E fs s) (\<lambda>(r, s1).
       case r of Inl e \<Rightarrow> Some (Ret (Inl e, s1)) | Inr _ \<Rightarrow> devfs_add_entries E fs es s1)"

definition g_devfs_driver :: "RamFsMetadata \<Rightarrow> ram_priv fs_env \<Rightarrow> DevFSEntry list \<Rightarrow> addr \<Rightarrow> ram_priv FileSystemDriver" where
  "g_devfs_driver fresh E es ops =
     \<lparr>drv_name = ''devfs'', generic_probe = False, drv_init = devfs_init fresh E es, drv_destroy = ramfs_destroy,
      drv_mkfile = ramfs_mkfile E, drv_rmnode = ramfs_rmnode, drv_vnode_ops = Some ops\<rparr>"

end
