(* ===== verification/RamFsProps.thy ===== *)
theory RamFsProps
  imports RamFs HeapExample
begin

text \<open>
  File numbers of \<^verbatim>\<open>drivers/fs/ramfs/ramfs.c\<close>: which slot a new file gets, and what happens when all slots are in
  use. Then the registration of \<^verbatim>\<open>drivers/fs/devfs/devfs.c\<close>.
\<close>

definition ram_ok :: "RamFsMetadata \<Rightarrow> bool" where
  "ram_ok meta \<longleftrightarrow> file_capacity meta = length (rf_files meta) \<and> file_cursor meta \<le> file_capacity meta \<and>
     0 < file_capacity meta \<and> file_capacity meta < 134217728"

abbreviation slot_used :: "RamFsMetadata \<Rightarrow> nat \<Rightarrow> bool" where
  "slot_used meta i \<equiv> fd_used (rf_files meta ! i)"

definition used_from :: "RamFsMetadata \<Rightarrow> nat \<Rightarrow> nat \<Rightarrow> bool" where
  "used_from meta i j \<longleftrightarrow> (\<forall>k. i \<le> k \<and> k < j \<longrightarrow> slot_used meta k)"

lemma used_from_empty [simp]: "used_from meta i i"
  by (auto simp: used_from_def)

lemma used_from_step: "slot_used meta i \<Longrightarrow> used_from (meta\<lparr>file_cursor := c\<rparr>) (Suc i) j \<Longrightarrow> used_from meta i j"
  by (auto simp: used_from_def) (metis Suc_leI le_neq_implies_less)

text \<open>Both results of the search.\<close>

lemma ramfs_scan_spec:
  assumes "file_capacity meta = length (rf_files meta)" and "file_cursor meta \<le> file_capacity meta"
  shows "case ramfs_scan meta of
      (Some n, meta1) \<Rightarrow> file_cursor meta < n \<and> n \<le> file_capacity meta \<and> \<not> slot_used meta (n - 1) \<and> used_from meta (file_cursor meta) (n - 1) \<and>
        meta1 = meta\<lparr>file_cursor := n, rf_files := (rf_files meta)[n - 1 := (rf_files meta ! (n - 1))\<lparr>fd_used := True\<rparr>]\<rparr>
    | (None, meta1) \<Rightarrow> used_from meta (file_cursor meta) (file_capacity meta) \<and> meta1 = meta\<lparr>file_cursor := file_capacity meta\<rparr>"
  using assms
proof (induction meta rule: ramfs_scan.induct)
  case (1 meta)
  consider (full) "file_cursor meta = file_capacity meta" | (free) "file_cursor meta < file_capacity meta" "\<not> slot_used meta (file_cursor meta)"
    | (used) "file_cursor meta < file_capacity meta" "slot_used meta (file_cursor meta)"
    using 1(3) by linarith
  then show ?case
  proof cases
    case full
    then show ?thesis by (subst ramfs_scan.simps) simp
  next
    case free
    then show ?thesis by (subst ramfs_scan.simps) (simp add: Let_def)
  next
    case used
    let ?m = "meta\<lparr>file_cursor := file_cursor meta + 1\<rparr>"
    have eq: "ramfs_scan meta = ramfs_scan ?m" using used by (subst ramfs_scan.simps) (simp add: Let_def)
    obtain r meta1 where m: "ramfs_scan ?m = (r, meta1)" by (cases "ramfs_scan ?m")
    have "case ramfs_scan ?m of
        (Some n, meta1) \<Rightarrow> file_cursor ?m < n \<and> n \<le> file_capacity ?m \<and> \<not> slot_used ?m (n - 1) \<and> used_from ?m (file_cursor ?m) (n - 1) \<and>
          meta1 = ?m\<lparr>file_cursor := n, rf_files := (rf_files ?m)[n - 1 := (rf_files ?m ! (n - 1))\<lparr>fd_used := True\<rparr>]\<rparr>
      | (None, meta1) \<Rightarrow> used_from ?m (file_cursor ?m) (file_capacity ?m) \<and> meta1 = ?m\<lparr>file_cursor := file_capacity ?m\<rparr>"
      using used 1(2,3) by (intro 1(1) [OF _ refl refl]) simp_all
    then show ?thesis unfolding eq m
      using used_from_step [OF used(2)] by (cases r) auto
  qed
qed

lemma enlarge_spec:
  assumes "ramfs_enlarge_files newcount meta km = Some (Ret (Inr u, meta1, km1))"
  shows "\<exists>a. meta1 = meta\<lparr>rf_files_ptr := Some a,
      rf_files := take (file_capacity meta) (rf_files meta) @ replicate (newcount - file_capacity meta) zero_file, file_capacity := newcount\<rparr>"
  using assms by (auto simp: ramfs_enlarge_files_def dest!: bind_run_Ret split: option.splits if_splits)

text \<open>
  The number of a new file. If a slot from the cursor on is free, the file gets the first such slot, which is marked
  as used. If there is none the table is doubled, but the file gets the last slot of the old table, which stays as it is:
  it already belongs to a file when the cursor had not passed it.
\<close>
theorem ramfs_file_number:
  assumes "ram_ok meta" and "ramfs_find_next_avail_fd meta km = Some (Ret (Inr n, meta1, km1))"
  shows "if used_from meta (file_cursor meta) (file_capacity meta)
    then n = file_capacity meta \<and> rf_files meta1 = rf_files meta @ replicate (file_capacity meta) zero_file
    else file_cursor meta < n \<and> n \<le> file_capacity meta \<and> \<not> slot_used meta (n - 1) \<and> used_from meta (file_cursor meta) (n - 1) \<and>
      rf_files meta1 = (rf_files meta)[n - 1 := (rf_files meta ! (n - 1))\<lparr>fd_used := True\<rparr>]"
proof -
  have ok: "file_capacity meta = length (rf_files meta)" "file_cursor meta \<le> file_capacity meta" "file_capacity meta < 134217728"
    using assms(1) by (simp_all add: ram_ok_def)
  obtain r meta2 where r: "ramfs_scan meta = (r, meta2)" by (cases "ramfs_scan meta")
  show ?thesis
  proof (cases r)
    case (Some k)
    have k: "file_cursor meta < k" "k \<le> file_capacity meta" "\<not> slot_used meta (k - 1)" "used_from meta (file_cursor meta) (k - 1)"
      "meta2 = meta\<lparr>file_cursor := k, rf_files := (rf_files meta)[k - 1 := (rf_files meta ! (k - 1))\<lparr>fd_used := True\<rparr>]\<rparr>"
      using ramfs_scan_spec [OF ok(1,2)] r Some by simp_all
    have "n = k" "meta1 = meta2" using assms(2) r Some by (simp_all add: ramfs_find_next_avail_fd_def)
    moreover have "\<not> used_from meta (file_cursor meta) (file_capacity meta)"
      using k(1-3) by (auto simp: used_from_def intro!: exI [of _ "k - 1"])
    ultimately show ?thesis using k by simp
  next
    case None
    then have m: "meta2 = meta\<lparr>file_cursor := file_capacity meta\<rparr>" and u: "used_from meta (file_cursor meta) (file_capacity meta)"
      using ramfs_scan_spec [OF ok(1,2)] r by simp_all
    have two: "mul32 (file_capacity meta) 2 = 2 * file_capacity meta" using ok(3) by (simp add: mul32_exact)
    obtain q meta3 where e: "ramfs_enlarge_files (2 * file_capacity meta) meta2 km = Some (Ret (q, meta3, km1))"
      "meta1 = meta3" "(case q of Inl e \<Rightarrow> Inl ENOMEM | Inr _ \<Rightarrow> Inr (file_cursor meta3)) = (Inr n :: nat result)"
      using assms(2) r None two m by (auto simp: ramfs_find_next_avail_fd_def dest!: bind_run_Ret)
    obtain w where "q = Inr w" using e(3) by (cases q) simp_all
    with enlarge_spec [OF e(1) [unfolded this]] e(2,3) u m ok(1) show ?thesis by auto
  qed
qed

text \<open>
  The second file of a filesystem that holds its root directory.
\<close>

definition demo_free :: RamFsMetadata where
  "demo_free = \<lparr>rf_files_ptr = None, rf_files = \<lparr>fd_data = None, fd_used = True\<rparr> # replicate 7 zero_file, file_capacity = 8, file_cursor = 1\<rparr>"

theorem ramfs_file_number_witness:
  "\<exists>n meta1. ramfs_find_next_avail_fd demo_free demo_state = Some (Ret (Inr n, meta1, demo_state)) \<and> n = 2 \<and> slot_used meta1 1"
proof -
  have "ramfs_scan demo_free = (Some 2, demo_free\<lparr>file_cursor := 2, rf_files := (rf_files demo_free)[1 := zero_file\<lparr>fd_used := True\<rparr>]\<rparr>)"
    by (subst ramfs_scan.simps) (simp add: demo_free_def zero_file_def Let_def)
  then obtain meta1 where r: "ramfs_find_next_avail_fd demo_free demo_state = Some (Ret (Inr 2, meta1, demo_state))"
    by (simp add: ramfs_find_next_avail_fd_def)
  have "ram_ok demo_free" "\<not> used_from demo_free (file_cursor demo_free) (file_capacity demo_free)"
    by (auto simp: ram_ok_def demo_free_def zero_file_def used_from_def intro!: exI [of _ 1])
  then show ?thesis using ramfs_file_number [OF _ r] r by (simp add: demo_free_def)
qed

section \<open>Device files\<close>

text \<open>
  No name can be registered: the comparison in the argument of \<open>kmalloc\<close> makes it ask for at most one byte, and at least
  two are written.
\<close>

lemma devfs_register_overflows:
  "devfs_register name mode uid gid ops dat d km \<noteq> Some (Ret (Inr (), d1, km1))"
  by (auto simp: devfs_register_def devfs_name_size_def Let_def dest!: bind_run_Ret split: option.splits if_splits)

end
