(* ===== verification/Ksyms.thy ===== *)
theory Ksyms
  imports Stdlib Bytes KmallocUse MbrProps
begin

text \<open>
  The table of kernel symbols, \<^verbatim>\<open>kernel/ksyms.c\<close>. The contents of the section with the symbols are a list of bytes,
  positions in it stand for the pointers into it. Reading behind the section and writing behind the allocated table
  are faults, the outcome \<open>Panic\<close>.
\<close>

section \<open>Loading\<close>

record KernelSymbol =
  sym_addr :: nat
  sym_str :: nat
  sym_strlen :: nat

record ksyms_state =
  g_ksyms_entries_cnt :: nat
  g_ksyms_available :: bool
  g_ksyms_table :: "KernelSymbol list"

definition zero_symbol :: KernelSymbol where
  "zero_symbol = \<lparr>sym_addr = 0, sym_str = 0, sym_strlen = 0\<rparr>"

definition kernelsymbol_size :: nat where "kernelsymbol_size = 12"

definition ksyms_magic :: "u8 list" where
  "ksyms_magic = [49, 66, 65, 68, 65, 68, 68, 52, 10]"

text \<open>The buffer of nine characters, with eight of them copied from the section.\<close>

definition buf_mem :: "u8 list \<Rightarrow> memory" where
  "buf_mem bs = (\<lambda>i. if i < length bs then bs ! i else 0)"

definition read_hex :: "u8 list \<Rightarrow> nat \<Rightarrow> (unit result \<times> nat option) outcome option" where
  "read_hex ks i =
     (if i + 8 > length ks then Some Panic
      else bind_run (strtoul (buf_mem (slice i 8 ks)) 0 16) (\<lambda>(st, _, dst). Some (Ret (st, dst))))"

text \<open>The length of a name, up to the line feed.\<close>

function name_length :: "u8 list \<Rightarrow> nat \<Rightarrow> nat \<Rightarrow> nat outcome" where
  "name_length ks i len =
     (if i + len \<ge> length ks then Panic
      else if ks ! (i + len) \<noteq> 10 then name_length ks i (len + 1)
      else Ret len)"
  by pat_completeness auto
termination by (relation "measure (\<lambda>(ks, i, len). length ks - (i + len))") auto

declare name_length.simps [simp del]

text \<open>The loop over the \<open>k\<close> entries that are left; \<open>i\<close> is the index of the next one, \<open>pos\<close> its position in the section.\<close>

primrec load_entries :: "nat \<Rightarrow> u8 list \<Rightarrow> nat \<Rightarrow> nat \<Rightarrow> KernelSymbol list \<Rightarrow> (unit result \<times> KernelSymbol list) outcome option" where
  "load_entries 0 ks i pos table = Some (Ret (Inr (), table))"
| "load_entries (Suc k) ks i pos table =
     bind_run (read_hex ks pos) (\<lambda>(st, a).
       case st of
         Inl e \<Rightarrow> Some (Ret (Inl e, table))
       | Inr _ \<Rightarrow>
           (case a of
              None \<Rightarrow> Some Panic
            | Some a \<Rightarrow>
                bind_run (Some (name_length ks (pos + 11) 0)) (\<lambda>len.
                  if i \<ge> length table then Some Panic
                  else load_entries k ks (i + 1) (pos + 11 + len + 1)
                         (table[i := \<lparr>sym_addr = a, sym_str = pos + 11, sym_strlen = len\<rparr>]))))"

definition ksyms_load :: "u8 list \<Rightarrow> ksyms_state \<Rightarrow> kmstate \<Rightarrow> (unit result \<times> ksyms_state \<times> kmstate) outcome option" where
  "ksyms_load ks s km =
     (if length ks < 18 then Some Panic
      else if take 9 ks \<noteq> ksyms_magic then Some (Ret (Inl EINVAL, s, km))
      else
        bind_run (read_hex ks 9) (\<lambda>(st, cnt).
          let s1 = (case cnt of None \<Rightarrow> s | Some n \<Rightarrow> s\<lparr>g_ksyms_entries_cnt := n\<rparr>) in
          if st \<noteq> Inr () \<or> ks ! 17 \<noteq> 10 then Some (Ret (st, s1, km))
          else
            let n = g_ksyms_entries_cnt s1 in
            bind_run (kmalloc (mul32 n kernelsymbol_size) km) (\<lambda>(p, km1).
              case p of
                None \<Rightarrow> Some (Ret (Inl ENOMEM, s1\<lparr>g_ksyms_table := []\<rparr>, km1))
              | Some _ \<Rightarrow>
                  bind_run (load_entries n ks 0 18 (replicate (mul32 n kernelsymbol_size div kernelsymbol_size) zero_symbol)) (\<lambda>(r, table).
                    case r of
                      Inl e \<Rightarrow> Some (Ret (Inl e, s1\<lparr>g_ksyms_table := table\<rparr>, km1))
                    | Inr _ \<Rightarrow> Some (Ret (Inr (), s1\<lparr>g_ksyms_table := table, g_ksyms_available := True\<rparr>, km1))))))"

section \<open>Lookup\<close>

text \<open>The binary search: the index of the entry that was looked at last.\<close>

function ksyms_search :: "KernelSymbol list \<Rightarrow> nat \<Rightarrow> int \<Rightarrow> int \<Rightarrow> nat option \<Rightarrow> nat option" where
  "ksyms_search table a l r ksym =
     (if l \<le> r then
        let m = (l + r) div 2; k = nat m in
        if sym_addr (table ! k) < a then ksyms_search table a (m + 1) r (Some k)
        else if sym_addr (table ! k) > a then ksyms_search table a l (m - 1) (Some k)
        else Some k
      else ksym)"
  by pat_completeness auto
termination by (relation "measure (\<lambda>(t, a, l, r, k). nat (r - l + 1))") (auto simp: div_less_iff_less_mult)

declare ksyms_search.simps [simp del]

text \<open>The conversion of the last index to a signed integer.\<close>

definition ksym_i32 :: "int \<Rightarrow> int" where
  "ksym_i32 x = (x + 2147483648) mod 4294967296 - 2147483648"

text \<open>The characters that are copied, the count that is returned and the offset into the symbol.\<close>

definition ksyms_get_symbol_name :: "u8 list \<Rightarrow> ksyms_state \<Rightarrow> nat \<Rightarrow> nat \<Rightarrow> (u8 list \<times> nat \<times> nat option) outcome" where
  "ksyms_get_symbol_name ks s a n =
     (if \<not> g_ksyms_available s then Ret ([], 0, None)
      else
        (case ksyms_search (g_ksyms_table s) a 0 (ksym_i32 (int (g_ksyms_entries_cnt s) - 1)) None of
           None \<Rightarrow> Panic
         | Some m \<Rightarrow>
             let j = (if sym_addr (g_ksyms_table s ! m) > a \<and> m > 0 then m - 1 else m);
                 sym = g_ksyms_table s ! j;
                 wr = (if sym_strlen sym < n then sym_strlen sym else n);
                 text = takeWhile (\<lambda>c. c \<noteq> 0) (slice (sym_str sym) wr ks)
             in Ret (text @ replicate (wr - length text) 0, wr, Some (sub32 a (sym_addr sym)))))"

section \<open>The search\<close>

definition sorted_symbols :: "KernelSymbol list \<Rightarrow> bool" where
  "sorted_symbols table \<longleftrightarrow> (\<forall>i j. i < j \<and> j < length table \<longrightarrow> sym_addr (table ! i) < sym_addr (table ! j))"

lemma sorted_lt: "sorted_symbols table \<Longrightarrow> i < j \<Longrightarrow> j < length table \<Longrightarrow> sym_addr (table ! i) < sym_addr (table ! j)"
  by (simp add: sorted_symbols_def)

lemma ksyms_search_spec:
  "sorted_symbols table \<Longrightarrow> 0 \<le> l \<Longrightarrow> l \<le> r + 1 \<Longrightarrow> r < int (length table) \<Longrightarrow>
    \<forall>i. int i < l \<longrightarrow> sym_addr (table ! i) < a \<Longrightarrow> \<forall>i. r < int i \<and> i < length table \<longrightarrow> a < sym_addr (table ! i) \<Longrightarrow>
    l \<le> r \<or> (\<exists>x < length table. k = Some x \<and> (int x + 1 = l \<and> sym_addr (table ! x) < a \<or> int x = r + 1 \<and> a < sym_addr (table ! x))) \<Longrightarrow>
    \<exists>m < length table. ksyms_search table a l r k = Some m \<and>
      (sym_addr (table ! m) = a \<or>
       sym_addr (table ! m) < a \<and> (\<forall>i. m < i \<and> i < length table \<longrightarrow> a < sym_addr (table ! i)) \<or>
       a < sym_addr (table ! m) \<and> (\<forall>i < m. sym_addr (table ! i) < a))"
proof (induction table a l r k rule: ksyms_search.induct)
  case (1 table a l r k)
  show ?case
  proof (cases "l \<le> r")
    case False
    then have "l = r + 1" using "1.prems"(3) by simp
    with False "1.prems" show ?thesis by (subst ksyms_search.simps) auto
  next
    case True
    let ?m = "(l + r) div 2" and ?k = "nat ((l + r) div 2)"
    have m: "l \<le> ?m" "?m \<le> r" "int ?k = ?m" "?k < length table" using True "1.prems"(2,4) by auto
    have lt: "sym_addr (table ! i) < sym_addr (table ! ?k)" if "i < ?k" for i
      by (rule sorted_lt [OF "1.prems"(1) that m(4)])
    have gt: "sym_addr (table ! ?k) < sym_addr (table ! i)" if "?k < i" "i < length table" for i
      by (rule sorted_lt [OF "1.prems"(1) that])
    consider (less) "sym_addr (table ! ?k) < a" | (greater) "a < sym_addr (table ! ?k)" | (eq) "sym_addr (table ! ?k) = a"
      by linarith
    then show ?thesis
    proof cases
      case less
      have "ksyms_search table a l r k = ksyms_search table a (?m + 1) r (Some ?k)"
        using True less by (subst ksyms_search.simps) (simp add: Let_def)
      moreover have "\<exists>m < length table. ksyms_search table a (?m + 1) r (Some ?k) = Some m \<and>
          (sym_addr (table ! m) = a \<or>
           sym_addr (table ! m) < a \<and> (\<forall>i. m < i \<and> i < length table \<longrightarrow> a < sym_addr (table ! i)) \<or>
           a < sym_addr (table ! m) \<and> (\<forall>i < m. sym_addr (table ! i) < a))"
      proof (rule "1.IH"(1) [OF True refl refl less])
        show "\<forall>i. int i < ?m + 1 \<longrightarrow> sym_addr (table ! i) < a"
        proof (intro allI impI)
          fix i assume "int i < ?m + 1"
          then have "i < ?k \<or> i = ?k" using m(3) by linarith
          then show "sym_addr (table ! i) < a" using lt [of i] less by auto
        qed
      qed (use m less "1.prems"(1,2,4,6) in auto)
      ultimately show ?thesis by simp
    next
      case greater
      have "ksyms_search table a l r k = ksyms_search table a l (?m - 1) (Some ?k)"
        using True greater by (subst ksyms_search.simps) (simp add: Let_def)
      moreover have "\<exists>m < length table. ksyms_search table a l (?m - 1) (Some ?k) = Some m \<and>
          (sym_addr (table ! m) = a \<or>
           sym_addr (table ! m) < a \<and> (\<forall>i. m < i \<and> i < length table \<longrightarrow> a < sym_addr (table ! i)) \<or>
           a < sym_addr (table ! m) \<and> (\<forall>i < m. sym_addr (table ! i) < a))"
      proof (rule "1.IH"(2) [OF True refl refl _ greater])
        show "\<forall>i. ?m - 1 < int i \<and> i < length table \<longrightarrow> a < sym_addr (table ! i)"
        proof (intro allI impI, elim conjE)
          fix i assume "?m - 1 < int i" "i < length table"
          then have "?k < i \<or> i = ?k" using m(3) by linarith
          then show "a < sym_addr (table ! i)" using gt [of i] greater \<open>i < length table\<close> by auto
        qed
      qed (use m greater "1.prems"(1,2,4,5) in auto)
      ultimately show ?thesis by simp
    next
      case eq
      then show ?thesis using True m(4) by (subst ksyms_search.simps) (simp add: Let_def)
    qed
  qed
qed

lemma i32_last: "0 < n \<Longrightarrow> n < 2147483648 \<Longrightarrow> ksym_i32 (int n - 1) = int n - 1"
  by (simp add: ksym_i32_def)

section \<open>Parsing\<close>

text \<open>Eight hexadecimal digits, as \<^verbatim>\<open>nm\<close> and \<^verbatim>\<open>printf\<close> write them.\<close>

definition hex_digits :: "nat \<Rightarrow> nat list" where
  "hex_digits v = map (\<lambda>k. v div 16 ^ (7 - k) mod 16) [0..<8]"

definition hex8 :: "nat \<Rightarrow> u8 list" where
  "hex8 v = map digit_char (hex_digits v)"

lemma hex_digits_val:
  assumes "v < W32"
  shows "foldl (\<lambda>acc d. acc * 16 + d) 0 (hex_digits v) = v"
proof -
  have split: "x div 16 ^ k = x div 16 ^ Suc k * 16 + x div 16 ^ k mod 16" for x k :: nat
    by (simp only: power_Suc2 div_mult2_eq) simp
  have v: "hex_digits v = [v div 16 ^ 7 mod 16, v div 16 ^ 6 mod 16, v div 16 ^ 5 mod 16, v div 16 ^ 4 mod 16,
      v div 16 ^ 3 mod 16, v div 16 ^ 2 mod 16, v div 16 ^ 1 mod 16, v div 16 ^ 0 mod 16]"
    by (simp add: hex_digits_def upt_conv_Cons)
  have "v div 16 ^ 7 mod 16 = v div 16 ^ 7" using assms by (simp add: less_mult_imp_div_less)
  then show ?thesis unfolding v using split [of v 6] split [of v 5] split [of v 4] split [of v 3] split [of v 2] split [of v 1] split [of v 0]
    by simp
qed

lemma read_hex_digits:
  assumes "slice i 8 ks = hex8 v" and "i + 8 \<le> length ks" and v: "v < W32"
  shows "read_hex ks i = Some (Ret (Inr (), Some v))"
proof -
  have d: "\<forall>d \<in> set (hex_digits v). d < 16" by (auto simp: hex_digits_def)
  have ne: "hex_digits v \<noteq> []" by (simp add: hex_digits_def)
  have "0 \<notin> set (hex8 v)" using d digit_char_nonzero by (fastforce simp: hex8_def)
  then have "cstring (buf_mem (hex8 v)) 0 (map digit_char (hex_digits v))"
    by (simp add: cstring_def buf_mem_def flip: hex8_def)
  from strtoul_digits [of 16, OF _ _ d ne this] hex_digits_val [OF v] v
  have "strtoul (buf_mem (hex8 v)) 0 16 = Some (Ret (Inr (), Some (length (hex_digits v)), Some v))" by simp
  then show ?thesis using assms(1,2) by (simp add: read_hex_def)
qed

text \<open>A symbol in the section: its address, two spaces around the type character, its name and a line feed.\<close>

definition symbol_line :: "nat \<times> u8 \<times> u8 list \<Rightarrow> u8 list" where
  "symbol_line sy = (case sy of (a, t, name) \<Rightarrow> hex8 a @ [32, t, 32] @ name @ [10])"

definition symbols_section :: "(nat \<times> u8 \<times> u8 list) list \<Rightarrow> u8 list" where
  "symbols_section sys = ksyms_magic @ hex8 (length sys) @ [10] @ concat (map symbol_line sys)"

lemma name_length_ok:
  "ks ! (i + len + length name) = 10 \<Longrightarrow> \<forall>k < length name. ks ! (i + len + k) = name ! k \<Longrightarrow> 10 \<notin> set name \<Longrightarrow>
   i + len + length name < length ks \<Longrightarrow> name_length ks i len = Ret (len + length name)"
proof (induction name arbitrary: len)
  case Nil
  then show ?case by (subst name_length.simps) simp
next
  case (Cons c name)
  have "ks ! (i + len) = c" using Cons.prems(2) by (metis add_0_right length_greater_0_conv list.distinct(1) nth_Cons_0)
  then have "ks ! (i + len) \<noteq> 10" using Cons.prems(3) by auto
  moreover have "name_length ks i (len + 1) = Ret (len + 1 + length name)"
  proof (rule Cons.IH)
    show "\<forall>k < length name. ks ! (i + (len + 1) + k) = name ! k"
      using Cons.prems(2) by (metis Suc_less_eq add.assoc add_Suc_right length_Cons nth_Cons_Suc plus_1_eq_Suc)
  qed (use Cons.prems in auto)
  ultimately show ?case using Cons.prems(4) by (subst name_length.simps) simp
qed

fun symbol_entries :: "nat \<Rightarrow> (nat \<times> u8 \<times> u8 list) list \<Rightarrow> KernelSymbol list" where
  "symbol_entries pos [] = []"
| "symbol_entries pos ((a, t, name) # sys) =
     \<lparr>sym_addr = a, sym_str = pos + 11, sym_strlen = length name\<rparr> # symbol_entries (pos + 12 + length name) sys"

lemma length_symbol_entries [simp]: "length (symbol_entries pos sys) = length sys"
  by (induction pos sys rule: symbol_entries.induct) simp_all

lemma length_hex8 [simp]: "length (hex8 v) = 8"
  by (simp add: hex8_def hex_digits_def)

lemma load_entries_step:
  "read_hex ks pos = Some (Ret (Inr (), Some a)) \<Longrightarrow> name_length ks (pos + 11) 0 = Ret len \<Longrightarrow> i < length table \<Longrightarrow>
   load_entries (Suc k) ks i pos table =
     load_entries k ks (i + 1) (pos + 11 + len + 1) (table[i := \<lparr>sym_addr = a, sym_str = pos + 11, sym_strlen = len\<rparr>])"
  by simp

lemma load_entries_ok:
  "\<forall>(a, t, name) \<in> set sys. a < W32 \<and> 10 \<notin> set name \<Longrightarrow> i + length sys \<le> length table \<Longrightarrow>
   load_entries (length sys) (pre @ concat (map symbol_line sys) @ post) i (length pre) table =
     Some (Ret (Inr (), take i table @ symbol_entries (length pre) sys @ drop (i + length sys) table))"
proof (induction sys arbitrary: pre i table)
  case (Cons sy sys)
  obtain a t name where sy: "sy = (a, t, name)" by (cases sy)
  let ?ks = "pre @ concat (map symbol_line (sy # sys)) @ post"
  have ks: "?ks = pre @ hex8 a @ [32, t, 32] @ name @ [10] @ concat (map symbol_line sys) @ post"
    by (simp add: sy symbol_line_def)
  let ?e = "\<lparr>sym_addr = a, sym_str = length pre + 11, sym_strlen = length name\<rparr>"
  have a: "a < W32" "10 \<notin> set name" using Cons.prems(1) sy by auto
  have rd: "read_hex ?ks (length pre) = Some (Ret (Inr (), Some a))"
    unfolding ks by (rule read_hex_digits) (simp_all add: slice_def a)
  have nl: "name_length ?ks (length pre + 11) 0 = Ret (length name)"
    using name_length_ok [of ?ks "length pre + 11" 0 name] a(2) unfolding ks by (simp add: nth_append)
  have pos: "length pre + 11 + length name + 1 = length (pre @ symbol_line sy)" by (simp add: sy symbol_line_def)
  have rec: "load_entries (length sys) ?ks (i + 1) (length (pre @ symbol_line sy)) (table[i := ?e]) =
      Some (Ret (Inr (), take i table @ symbol_entries (length pre) (sy # sys) @ drop (i + length (sy # sys)) table))"
  proof -
    have "load_entries (length sys) ((pre @ symbol_line sy) @ concat (map symbol_line sys) @ post) (i + 1) (length (pre @ symbol_line sy)) (table[i := ?e]) =
        Some (Ret (Inr (), take (i + 1) (table[i := ?e]) @ symbol_entries (length (pre @ symbol_line sy)) sys @ drop (i + 1 + length sys) (table[i := ?e])))"
      by (rule Cons.IH) (use Cons.prems in auto)
    moreover have "symbol_entries (length pre) (sy # sys) = ?e # symbol_entries (length (pre @ symbol_line sy)) sys"
    proof -
      have "length pre + 12 + length name = length (pre @ symbol_line sy)" using pos by simp
      then show ?thesis by (simp only: sy symbol_entries.simps)
    qed
    ultimately show ?thesis using Cons.prems(2) by (simp add: take_Suc_conv_app_nth)
  qed
  have "i < length table" using Cons.prems(2) by simp
  from load_entries_step [OF rd nl this] show ?case by (simp only: length_Cons pos rec)
qed simp

lemma entries_names:
  "map (\<lambda>e. (sym_addr e, slice (sym_str e) (sym_strlen e) (pre @ concat (map symbol_line sys) @ post))) (symbol_entries (length pre) sys) =
   map (\<lambda>(a, t, name). (a, name)) sys"
proof (induction sys arbitrary: pre)
  case (Cons sy sys)
  obtain a t name where sy: "sy = (a, t, name)" by (cases sy)
  let ?ks = "pre @ concat (map symbol_line (sy # sys)) @ post"
  have "?ks = pre @ hex8 a @ [32, t, 32] @ name @ [10] @ concat (map symbol_line sys) @ post"
    by (simp add: sy symbol_line_def)
  then have "slice (length pre + 11) (length name) ?ks = name" by (simp only: slice_def) simp
  moreover have "length pre + 12 + length name = length (pre @ symbol_line sy)" by (simp add: sy symbol_line_def)
  moreover have "map (\<lambda>e. (sym_addr e, slice (sym_str e) (sym_strlen e) ?ks)) (symbol_entries (length (pre @ symbol_line sy)) sys) =
      map (\<lambda>(a, t, name). (a, name)) sys"
    using Cons [of "pre @ symbol_line sy"] by simp
  ultimately show ?case
    by (simp only: sy symbol_entries.simps list.map prod.case KernelSymbol.simps)
qed simp

section \<open>Properties\<close>

lemma ksyms_load_returns:
  assumes km: "km_heap ma km heap live" and small: "small_heap ma heap"
    and sys: "sys \<noteq> []" "12 * length sys < W32" "\<forall>(a, t, name) \<in> set sys. a < W32 \<and> 10 \<notin> set name"
    and ks: "ks = symbols_section sys @ rest"
  shows "\<exists>r s1 km1. ksyms_load ks s km = Some (Ret (r, s1, km1)) \<and>
    (r = Inl ENOMEM \<or> r = Inr () \<and> s1 = \<lparr>g_ksyms_entries_cnt = length sys, g_ksyms_available = True, g_ksyms_table = symbol_entries 18 sys\<rparr>)"
proof -
  let ?n = "length sys" and ?sz = "mul32 (length sys) kernelsymbol_size"
  let ?pre = "ksyms_magic @ hex8 (length sys) @ [10]"
  have n: "?n < W32" "?sz = 12 * ?n" "0 < ?sz" "?sz < W32"
    using sys(1,2) by (simp_all add: kernelsymbol_size_def mul32_exact)
  have pre: "length ?pre = 18" by (simp add: ksyms_magic_def)
  have ks2: "ks = ?pre @ concat (map symbol_line sys) @ rest" by (simp add: ks symbols_section_def)
  have len: "18 \<le> length ks" "ks ! 17 = 10" "take 9 ks = ksyms_magic"
    by (simp_all add: ks2 ksyms_magic_def nth_append)
  have cnt: "read_hex ks 9 = Some (Ret (Inr (), Some ?n))"
    by (rule read_hex_digits [OF _ _ n(1)]) (simp_all add: ks2 slice_def ksyms_magic_def)
  have "load_entries ?n ks 0 18 (replicate ?n zero_symbol) = Some (Ret (Inr (), symbol_entries 18 sys))"
    using load_entries_ok [OF sys(3), of 0 "replicate ?n zero_symbol" ?pre rest] unfolding pre ks2 [symmetric] by simp
  moreover have "?sz div kernelsymbol_size = ?n" unfolding n(2) by (simp add: kernelsymbol_size_def)
  moreover obtain p km1 where "kmalloc ?sz km = Some (Ret (p, km1))" using use_kmalloc [OF km small n(3,4)] by blast
  ultimately show ?thesis using len cnt by (cases p; cases s) (simp_all add: ksyms_load_def Let_def)
qed


definition demo_symbols :: "(nat \<times> u8 \<times> u8 list) list" where
  "demo_symbols = [(0x100000, 84, [97, 98]), (0x100040, 116, [99])]"

definition no_ksyms :: ksyms_state where
  "no_ksyms = \<lparr>g_ksyms_entries_cnt = 0, g_ksyms_available = False, g_ksyms_table = []\<rparr>"


text \<open>
  C29: the lookup of an address finds the symbol it belongs to: in a table in ascending order, the name that is copied
  (cut off at the given size) and the offset are those of the last symbol that does not start behind the address, or of the
  first symbol when all of them do.
\<close>
theorem ksyms_lookup:
  assumes sorted: "sorted_symbols (g_ksyms_table s)" and "g_ksyms_available s"
    and n: "0 < length (g_ksyms_table s)" "length (g_ksyms_table s) < 2147483648" "g_ksyms_entries_cnt s = length (g_ksyms_table s)"
  shows "\<exists>j < length (g_ksyms_table s). (\<forall>i. j < i \<and> i < length (g_ksyms_table s) \<longrightarrow> a < sym_addr (g_ksyms_table s ! i)) \<and>
    (sym_addr (g_ksyms_table s ! j) \<le> a \<or> j = 0) \<and>
    (\<exists>text. ksyms_get_symbol_name ks s a k =
      Ret (text, min (sym_strlen (g_ksyms_table s ! j)) k, Some (sub32 a (sym_addr (g_ksyms_table s ! j)))) \<and>
      (0 \<notin> set (slice (sym_str (g_ksyms_table s ! j)) (sym_strlen (g_ksyms_table s ! j)) ks) \<longrightarrow>
       sym_str (g_ksyms_table s ! j) + sym_strlen (g_ksyms_table s ! j) \<le> length ks \<longrightarrow>
       text = take k (slice (sym_str (g_ksyms_table s ! j)) (sym_strlen (g_ksyms_table s ! j)) ks)))"
proof -
  let ?t = "g_ksyms_table s"
  obtain m where m: "m < length ?t" "ksyms_search ?t a 0 (int (length ?t) - 1) None = Some m"
    "sym_addr (?t ! m) = a \<or> sym_addr (?t ! m) < a \<and> (\<forall>i. m < i \<and> i < length ?t \<longrightarrow> a < sym_addr (?t ! i)) \<or>
      a < sym_addr (?t ! m) \<and> (\<forall>i < m. sym_addr (?t ! i) < a)"
    using ksyms_search_spec [OF sorted, of 0 "int (length ?t) - 1" a None] n(1) by auto
  obtain j where j: "j = (if sym_addr (?t ! m) > a \<and> m > 0 then m - 1 else m)" by simp
  have last: "\<forall>i. j < i \<and> i < length ?t \<longrightarrow> a < sym_addr (?t ! i)"
  proof (intro allI impI, elim conjE)
    fix i assume i: "j < i" "i < length ?t"
    show "a < sym_addr (?t ! i)"
    proof (cases "m < i")
      case True
      then show ?thesis using m(3) i(2) sorted_lt [OF sorted True i(2)] by auto
    next
      case False
      then have "i = m \<and> a < sym_addr (?t ! m)" using i(1) unfolding j by (auto split: if_splits)
      then show ?thesis by simp
    qed
  qed
  have first: "sym_addr (?t ! j) \<le> a \<or> j = 0"
    using m(3) unfolding j by (cases "a < sym_addr (?t ! m) \<and> 0 < m") (auto simp: less_imp_le)
  have jn: "j < length ?t" using m(1) by (auto simp: j)
  let ?e = "?t ! j"
  let ?wr = "if sym_strlen ?e < k then sym_strlen ?e else k"
  let ?tw = "takeWhile (\<lambda>c. c \<noteq> 0) (slice (sym_str ?e) ?wr ks)"
  have get: "ksyms_get_symbol_name ks s a k = Ret (?tw @ replicate (?wr - length ?tw) 0, ?wr, Some (sub32 a (sym_addr ?e)))"
    using assms(2) m(2) n i32_last [OF n(1,2)] by (simp only: ksyms_get_symbol_name_def Let_def option.case n(3) j simp_thms if_False)
  have copied: "?tw @ replicate (?wr - length ?tw) 0 = take k (slice (sym_str ?e) (sym_strlen ?e) ks)"
    if "0 \<notin> set (slice (sym_str ?e) (sym_strlen ?e) ks)" "sym_str ?e + sym_strlen ?e \<le> length ks"
  proof -
    have sl: "slice (sym_str ?e) ?wr ks = take k (slice (sym_str ?e) (sym_strlen ?e) ks)" by (simp add: slice_def)
    then have "0 \<notin> set (slice (sym_str ?e) ?wr ks)" using that(1) by (metis in_set_takeD)
    then have tw: "?tw = slice (sym_str ?e) ?wr ks" by (auto simp: takeWhile_eq_all_conv)
    have "length (slice (sym_str ?e) ?wr ks) = ?wr" using that(2) by simp
    then have "?wr - length (slice (sym_str ?e) ?wr ks) = 0" by (simp only: diff_self_eq_0)
    then show ?thesis unfolding tw by (simp only: replicate_0 append_Nil2 sl)
  qed
  have "?wr = min (sym_strlen ?e) k" by simp
  then show ?thesis using jn last first get copied by (intro exI [of _ j] conjI exI) auto
qed

text \<open>
  An address inside the second of two symbols.
\<close>

definition demo_ksyms :: ksyms_state where
  "demo_ksyms = \<lparr>g_ksyms_entries_cnt = 2, g_ksyms_available = True,
     g_ksyms_table = [\<lparr>sym_addr = 0x100000, sym_str = 0, sym_strlen = 2\<rparr>, \<lparr>sym_addr = 0x100040, sym_str = 2, sym_strlen = 1\<rparr>]\<rparr>"

theorem ksyms_lookup_witness:
  "\<exists>text. ksyms_get_symbol_name [97, 98, 99] demo_ksyms 0x100044 8 = Ret (text, 1, Some 4)"
proof -
  have d: "sorted_symbols (g_ksyms_table demo_ksyms)" "g_ksyms_available demo_ksyms" "0 < length (g_ksyms_table demo_ksyms)"
    "length (g_ksyms_table demo_ksyms) < 2147483648" "g_ksyms_entries_cnt demo_ksyms = length (g_ksyms_table demo_ksyms)"
    by (auto simp: demo_ksyms_def sorted_symbols_def nth_Cons split: nat.splits)
  obtain j xs where j: "j < length (g_ksyms_table demo_ksyms)"
    "\<forall>i. j < i \<and> i < length (g_ksyms_table demo_ksyms) \<longrightarrow> 0x100044 < sym_addr (g_ksyms_table demo_ksyms ! i)"
    "ksyms_get_symbol_name [97, 98, 99] demo_ksyms 0x100044 8 =
      Ret (xs, min (sym_strlen (g_ksyms_table demo_ksyms ! j)) 8, Some (sub32 0x100044 (sym_addr (g_ksyms_table demo_ksyms ! j))))"
    using ksyms_lookup [OF d, where a = "0x100044" and ks = "[97, 98, 99]" and k = 8] by (elim exE conjE) (rule that)
  have "j = 1" using j(1) j(2) [rule_format, of 1] by (cases j) (auto simp: demo_ksyms_def)
  then show ?thesis using j(3) by (simp add: demo_ksyms_def sub32_def)
qed

end
