(* ===== verification/PciNames.thy ===== *)
theory PciNames
  imports Prelude
begin

text \<open>
  The names of device classes that \<^verbatim>\<open>drivers/buses/pci/pci.c\<close> logs: one definition for each inner \<open>switch\<close> of
  \<open>pci_class_to_string\<close>.
\<close>

definition mass_storage_controller_name :: "u8 \<Rightarrow> string" where
  "mass_storage_controller_name c =
     (if c = 0 then ''SCSI Bus controller''
      else if c = 1 then ''IDE controller''
      else if c = 2 then ''Floppy Disk controller''
      else if c = 3 then ''IPI Bus controller''
      else if c = 4 then ''RAID controller''
      else if c = 5 then ''ATA controller''
      else if c = 6 then ''SATA controller''
      else if c = 7 then ''Serial Attached SCSI controller''
      else if c = 8 then ''NVM controller''
      else if c = 128 then ''Generic mass storage controller''
      else ''Unknown mass storage controller'')"

definition network_controller_name :: "u8 \<Rightarrow> string" where
  "network_controller_name c =
     (if c = 0 then ''Ethernet controller''
      else if c = 1 then ''Token Ring controller''
      else if c = 2 then ''FDDI controller''
      else if c = 3 then ''ATM controller''
      else if c = 4 then ''ISDN controller''
      else if c = 5 then ''WorldFip controller''
      else if c = 6 then ''PICMG controller''
      else if c = 7 then ''Infiniband controller''
      else if c = 8 then ''Fabric controller''
      else if c = 128 then ''Generic network controller''
      else ''Unknown network controller'')"

definition display_controller_name :: "u8 \<Rightarrow> string" where
  "display_controller_name c =
     (if c = 0 then ''VGA Compatible controller''
      else if c = 1 then ''XGA Compatible controller''
      else if c = 2 then ''3D controller''
      else if c = 128 then ''Generic display controller''
      else ''Unknown display controller'')"

definition multimedia_controller_name :: "u8 \<Rightarrow> string" where
  "multimedia_controller_name c =
     (if c = 0 then ''Multimedia video controller''
      else if c = 1 then ''Multimedia audio controller''
      else if c = 2 then ''Computer telephony controller''
      else if c = 3 then ''Audio device''
      else if c = 128 then ''Generic multimedia controller''
      else ''Unknown multimedia controller'')"

definition memory_controller_name :: "u8 \<Rightarrow> string" where
  "memory_controller_name c =
     (if c = 0 then ''RAM memory''
      else if c = 1 then ''FLASH memory''
      else if c = 2 then ''CXL memory controller''
      else if c = 128 then ''Generic memory controller''
      else ''Unknown memory controller'')"

definition bridge_name :: "u8 \<Rightarrow> string" where
  "bridge_name c =
     (if c = 0 then ''Host bridge''
      else if c = 1 then ''ISA bridge''
      else if c = 2 then ''EISA bridge''
      else if c = 3 then ''MicroChanngel bridge''
      else if c = 4 then ''PCI bridge''
      else if c = 5 then ''PCMCIA bridge''
      else if c = 6 then ''NuBus bridge''
      else if c = 7 then ''CardBus bridge''
      else if c = 8 then ''RACEway bridge''
      else if c = 9 then ''Semi transparent PCI-to-PCI bridge''
      else if c = 10 then ''Infiniband to PCI host bridge''
      else if c = 128 then ''Generic bridge''
      else ''Unknown bridge'')"

definition communication_controller_name :: "u8 \<Rightarrow> string" where
  "communication_controller_name c =
     (if c = 0 then ''Serial controller''
      else if c = 1 then ''Parallel controller''
      else if c = 2 then ''Multiport serial controller''
      else if c = 3 then ''Modem''
      else if c = 4 then ''GPIB controller''
      else if c = 5 then ''Smart Card controller''
      else if c = 128 then ''Generic communication device''
      else ''Unknown communication device'')"

definition generic_system_peripheral_name :: "u8 \<Rightarrow> string" where
  "generic_system_peripheral_name c =
     (if c = 0 then ''PIC''
      else if c = 1 then ''DMA controller''
      else if c = 2 then ''Timer''
      else if c = 3 then ''RTC''
      else if c = 4 then ''PCI hot-plug controller''
      else if c = 5 then ''SD host controller''
      else if c = 6 then ''IOMMU''
      else if c = 128 then ''Generic system peripheral''
      else if c = 144 then ''Timing card''
      else ''Unknown system peripheral'')"

definition input_device_controller_name :: "u8 \<Rightarrow> string" where
  "input_device_controller_name c =
     (if c = 0 then ''Keyboard controller''
      else if c = 1 then ''Digitizer pen''
      else if c = 2 then ''Mouse controller''
      else if c = 3 then ''Scanner controller''
      else if c = 4 then ''Gameport controller''
      else if c = 128 then ''Generic input device controller''
      else ''Unknown input device controller'')"

definition docking_station_name :: "u8 \<Rightarrow> string" where
  "docking_station_name c =
     (if c = 0 \<or> c = 128 then ''Generic docking station''
      else ''Unknown docking station'')"

definition processor_name :: "u8 \<Rightarrow> string" where
  "processor_name c =
     (if c = 0 then ''i386''
      else if c = 1 then ''i486''
      else if c = 2 then ''Pentium''
      else if c = 16 then ''Alpha''
      else if c = 32 then ''PPC''
      else if c = 48 then ''MIPS''
      else if c = 64 then ''Co-processor''
      else ''Unknown processor'')"

definition serial_bus_controller_name :: "u8 \<Rightarrow> string" where
  "serial_bus_controller_name c =
     (if c = 0 then ''FireWire''
      else if c = 1 then ''ACCESS bus''
      else if c = 2 then ''SSA''
      else if c = 3 then ''USB controller''
      else if c = 4 then ''Fibre channel''
      else if c = 5 then ''SMBus''
      else if c = 6 then ''InfiniBand''
      else if c = 7 then ''IPMI interface''
      else if c = 8 then ''SERCOS interface''
      else if c = 9 then ''CANBUS''
      else if c = 128 then ''Generic serial bus controller''
      else ''Unknown serial bus controller'')"

definition wireless_controller_name :: "u8 \<Rightarrow> string" where
  "wireless_controller_name c =
     (if c = 0 then ''IRDA controller''
      else if c = 1 then ''Consumer IR controller''
      else if c = 16 then ''RF controller''
      else if c = 17 then ''Bluetooth controller''
      else if c = 18 then ''Broadband controller''
      else if c = 32 then ''802.1a controller''
      else if c = 33 then ''802.1b controller''
      else if c = 128 then ''Generic wireless controller''
      else ''Unknown wireless controller'')"

definition intelligent_controller_name :: "u8 \<Rightarrow> string" where
  "intelligent_controller_name c =
     (if c = 0 then ''I2O''
      else ''Unknown intelligent controller'')"

definition satellite_communication_controller_name :: "u8 \<Rightarrow> string" where
  "satellite_communication_controller_name c =
     (if c = 1 then ''Satellite TV controller''
      else if c = 2 then ''Satellite audio controller''
      else if c = 3 then ''Satellite voice controller''
      else if c = 4 then ''Satellite data controller''
      else ''Unknown satellite controller'')"

definition encryption_controller_name :: "u8 \<Rightarrow> string" where
  "encryption_controller_name c =
     (if c = 0 then ''Network & computing encryption device''
      else if c = 1 then ''Entertainment encryption device''
      else if c = 128 then ''Generic encryption controller''
      else ''Unknown encryption controller'')"

definition signal_processing_controller_name :: "u8 \<Rightarrow> string" where
  "signal_processing_controller_name c =
     (if c = 0 then ''DPIO module''
      else if c = 1 then ''Performance counters''
      else if c = 16 then ''Communication synchronizer''
      else if c = 32 then ''Signal processing management''
      else if c = 128 then ''Generic signal processing controller''
      else ''Unknown signal processing controller'')"

definition pci_class_to_string :: "u8 \<Rightarrow> u8 \<Rightarrow> string" where
  "pci_class_to_string c subclass =
     (if c = 1 then mass_storage_controller_name subclass
      else if c = 2 then network_controller_name subclass
      else if c = 3 then display_controller_name subclass
      else if c = 4 then multimedia_controller_name subclass
      else if c = 5 then memory_controller_name subclass
      else if c = 6 then bridge_name subclass
      else if c = 7 then communication_controller_name subclass
      else if c = 8 then generic_system_peripheral_name subclass
      else if c = 9 then input_device_controller_name subclass
      else if c = 10 then docking_station_name subclass
      else if c = 11 then processor_name subclass
      else if c = 12 then serial_bus_controller_name subclass
      else if c = 13 then wireless_controller_name subclass
      else if c = 14 then intelligent_controller_name subclass
      else if c = 15 then satellite_communication_controller_name subclass
      else if c = 16 then encryption_controller_name subclass
      else if c = 17 then signal_processing_controller_name subclass
      else if c = 18 then ''Generic processing accelerator''
      else if c = 19 then ''Generic non-essential instrumentation''
      else if c = 64 then ''Generic coprocessor''
      else if c = 255 then ''Vendor specific''
      else ''???'')"

end
