(* ===== verification/Pci.thy ===== *)
theory Pci
  imports PciNames KList Bytes
begin

text \<open>
  The PCI bus driver, \<^verbatim>\<open>drivers/buses/pci/pci.c\<close> and \<^verbatim>\<open>pci_x86.c\<close>. The configuration space is a parameter: what a
  read of the data port returns after the given word has been written to the address port. Devices are a map from
  addresses; the messages of the log are kept.
\<close>

section \<open>State\<close>

record PCIDevice =
  pd_bus :: u8
  pd_dev :: u8
  pd_func :: u8
  pd_vendor_id :: u16
  pd_device_id :: u16
  pd_class :: u8
  pd_subclass :: u8
  pd_revision_id :: u8
  pd_progif :: u8
  pd_header_type :: u8
  pd_driver :: addr

datatype pci_msg = Found u8 u8 u8 string | RegisterFailed u8 u8 u8 errno | NoRootBus

record 'x pci_state =
  pc_km :: kmstate
  pc_nodes :: node_heap
  g_pci_devs :: LinkedList
  g_pci_dev_drivers :: LinkedList
  pci_devs :: "addr \<rightharpoonup> PCIDevice"
  pci_log :: "pci_msg list"
  pc_priv :: 'x

text \<open>\<open>probe\<close> may change the whole state.\<close>

record 'x PCIDeviceDriver =
  pdrv_class :: u8
  pdrv_subclass :: u8
  pdrv_probe :: "addr \<Rightarrow> 'x pci_state \<Rightarrow> (int \<times> 'x pci_state) outcome option"

type_synonym pci_config = "u32 \<Rightarrow> u32"

definition sizeof_PCIDevice :: nat where "sizeof_PCIDevice = 20"

definition set_pci_heap :: "list_heap \<Rightarrow> 'x pci_state \<Rightarrow> 'x pci_state" where
  "set_pci_heap kh s = s\<lparr>pc_km := fst kh, pc_nodes := snd kh\<rparr>"

definition pci_klog :: "pci_msg \<Rightarrow> 'x pci_state \<Rightarrow> 'x pci_state" where
  "pci_klog m s = s\<lparr>pci_log := pci_log s @ [m]\<rparr>"

section \<open>Configuration space\<close>

text \<open>The register word: offset, three bits of the function, five of the device, the bus and the enable bit.\<close>

definition pci_register :: "u8 \<Rightarrow> u8 \<Rightarrow> u8 \<Rightarrow> u8 \<Rightarrow> u32" where
  "pci_register bus dev func offset =
     ucast offset OR push_bit 8 (ucast (func AND 7)) OR push_bit 11 (ucast (dev AND 31)) OR push_bit 16 (ucast bus) OR push_bit 31 1"

definition pci_read_4bytes :: "pci_config \<Rightarrow> u8 \<Rightarrow> u8 \<Rightarrow> u8 \<Rightarrow> u8 \<Rightarrow> u32" where
  "pci_read_4bytes cfg bus dev func offset =
     (if offset AND 3 \<noteq> 0 then 0 else cfg (pci_register bus dev func offset))"

definition pci_read_vendor_id :: "pci_config \<Rightarrow> u8 \<Rightarrow> u8 \<Rightarrow> u8 \<Rightarrow> u16" where
  "pci_read_vendor_id cfg bus dev func = ucast (pci_read_4bytes cfg bus dev func 0 AND 0xFFFF)"

definition pci_read_header_type :: "pci_config \<Rightarrow> u8 \<Rightarrow> u8 \<Rightarrow> u8 \<Rightarrow> u8" where
  "pci_read_header_type cfg bus dev func = ucast (drop_bit 16 (pci_read_4bytes cfg bus dev func 0xC) AND 0xFF)"

definition pci_device_is_multifunction :: "pci_config \<Rightarrow> u8 \<Rightarrow> u8 \<Rightarrow> bool" where
  "pci_device_is_multifunction cfg bus dev \<longleftrightarrow> pci_read_header_type cfg bus dev 0 AND push_bit 7 1 \<noteq> 0"

definition pci_device_is_host_bridge :: "pci_config \<Rightarrow> u8 \<Rightarrow> u8 \<Rightarrow> u8 \<Rightarrow> bool" where
  "pci_device_is_host_bridge cfg bus dev func \<longleftrightarrow>
     (let tmp = pci_read_4bytes cfg bus dev func 0x8;
          c = (ucast (drop_bit 24 tmp AND 0xFF) :: u8);
          subclass = (ucast (drop_bit 16 tmp AND 0xFF) :: u8)
      in c = 6 \<and> subclass = 0)"

section \<open>Devices\<close>

text \<open>The fields that are read from the configuration space; \<open>driver\<close> keeps the value it had.\<close>

definition pci_read_device :: "pci_config \<Rightarrow> u8 \<Rightarrow> u8 \<Rightarrow> u8 \<Rightarrow> addr \<Rightarrow> PCIDevice" where
  "pci_read_device cfg bus dev func drv =
     (let tmp0 = pci_read_4bytes cfg bus dev func 0;
          tmp8 = pci_read_4bytes cfg bus dev func 0x8;
          tmpC = pci_read_4bytes cfg bus dev func 0xC
      in \<lparr>pd_bus = bus, pd_dev = dev, pd_func = func,
          pd_vendor_id = ucast (tmp0 AND 0xFFFF), pd_device_id = ucast (drop_bit 16 tmp0 AND 0xFFFF),
          pd_class = ucast (drop_bit 24 tmp8 AND 0xFF), pd_subclass = ucast (drop_bit 16 tmp8 AND 0xFF),
          pd_revision_id = ucast (tmp8 AND 0xFF), pd_progif = ucast (drop_bit 8 tmp8 AND 0xFF),
          pd_header_type = ucast (drop_bit 16 tmpC AND 0xFF), pd_driver = drv\<rparr>)"

text \<open>
  \<open>kmalloc\<close> does not clear the device, so its driver is what the block held: the word at offset 16.
\<close>

definition pci_register_device :: "pci_config \<Rightarrow> u8 \<Rightarrow> u8 \<Rightarrow> u8 \<Rightarrow> 'x pci_state \<Rightarrow> (unit result \<times> 'x pci_state) outcome option" where
  "pci_register_device cfg bus dev func s =
     bind_run (kmalloc sizeof_PCIDevice (pc_km s)) (\<lambda>(p, km).
       let s1 = s\<lparr>pc_km := km\<rparr> in
       case p of
         None \<Rightarrow> Some (Ret (Inl ENOMEM, s1))
       | Some device \<Rightarrow>
           bind_run (kl_add device (g_pci_devs s1) (pc_km s1, pc_nodes s1)) (\<lambda>(r, ll, kh).
             let s2 = (set_pci_heap kh s1)\<lparr>g_pci_devs := ll\<rparr> in
             case r of
               Inl e \<Rightarrow> bind_run (kfree (Some device) (pc_km s2)) (\<lambda>km3. Some (Ret (Inl ENOMEM, s2\<lparr>pc_km := km3\<rparr>)))
             | Inr _ \<Rightarrow>
                 let d = pci_read_device cfg bus dev func (read32 (mem (pc_km s2)) (device + 16)) in
                 Some (Ret (Inr (), pci_klog (Found bus dev func (pci_class_to_string (pd_class d) (pd_subclass d)))
                   (s2\<lparr>pci_devs := (pci_devs s2)(device \<mapsto> d)\<rparr>)))))"

text \<open>
  The two nested loops of \<open>pci_enumerate_bus\<close>: \<open>func\<close> 0 is the head of the outer loop, 8 the end of the inner one. The
  enumeration of the bus behind a host bridge is the same procedure, and it need not end.
\<close>

partial_function (option) pci_enum_loop :: "pci_config \<Rightarrow> u8 \<Rightarrow> nat \<Rightarrow> nat \<Rightarrow> 'x pci_state \<Rightarrow> 'x pci_state outcome option" where
  "pci_enum_loop cfg bus dev func s =
     (let d = of_nat dev; f = of_nat func in
      if dev \<ge> 32 then Some (Ret s)
      else if func = 0 then
        (if pci_read_vendor_id cfg bus d 0 = 0xFFFF then pci_enum_loop cfg bus (dev + 1) 0 s
         else
           Option.bind (pci_register_device cfg bus d 0 s) (\<lambda>out.
             case out of
               Panic \<Rightarrow> Some Panic
             | Ret (st, s1) \<Rightarrow>
                 (case st of
                    Inl e \<Rightarrow> Some (Ret (pci_klog (RegisterFailed bus d 0 e) s1))
                  | Inr _ \<Rightarrow>
                      if \<not> pci_device_is_multifunction cfg bus d then pci_enum_loop cfg bus (dev + 1) 0 s1
                      else pci_enum_loop cfg bus dev 1 s1)))
      else if func \<ge> 8 then pci_enum_loop cfg bus (dev + 1) 0 s
      else if pci_read_vendor_id cfg bus d f = 0xFFFF then pci_enum_loop cfg bus dev (func + 1) s
      else
        Option.bind (pci_register_device cfg bus d f s) (\<lambda>out.
          case out of
            Panic \<Rightarrow> Some Panic
          | Ret (st, s1) \<Rightarrow>
              let s2 = (case st of Inl e \<Rightarrow> pci_klog (RegisterFailed bus d f e) s1 | Inr _ \<Rightarrow> s1) in
              if pci_device_is_host_bridge cfg bus d f then
                Option.bind (pci_enum_loop cfg f 0 0 s2) (\<lambda>out2.
                  case out2 of
                    Panic \<Rightarrow> Some Panic
                  | Ret s3 \<Rightarrow> pci_enum_loop cfg bus dev (func + 1) s3)
              else pci_enum_loop cfg bus dev (func + 1) s2))"

definition pci_enumerate_bus :: "pci_config \<Rightarrow> u8 \<Rightarrow> 'x pci_state \<Rightarrow> 'x pci_state outcome option" where
  "pci_enumerate_bus cfg bus s = pci_enum_loop cfg bus 0 0 s"

definition pci_enumerate_devices :: "pci_config \<Rightarrow> 'x pci_state \<Rightarrow> (unit result \<times> 'x pci_state) outcome option" where
  "pci_enumerate_devices cfg s =
     (if pci_read_vendor_id cfg 0 0 0 = 0xFFFF then Some (Ret (Inl ENODEV, pci_klog NoRootBus s))
      else bind_run (pci_enumerate_bus cfg 0 s) (\<lambda>s1. Some (Ret (Inr (), s1))))"

section \<open>Drivers\<close>

text \<open>The walk over the devices reads the lists and the devices again after every probe.\<close>

partial_function (option) pci_probe_loop ::
    "'x PCIDeviceDriver \<Rightarrow> addr \<Rightarrow> addr option \<Rightarrow> 'x pci_state \<Rightarrow> 'x pci_state outcome option" where
  "pci_probe_loop driver a p s =
     (case p of
        None \<Rightarrow> Some (Ret s)
      | Some n \<Rightarrow>
          (case pc_nodes s n of
             None \<Rightarrow> Some Panic
           | Some node \<Rightarrow>
               if data node = 0 then pci_probe_loop driver a (lnext node) s
               else
                 (case pci_devs s (data node) of
                    None \<Rightarrow> Some Panic
                  | Some dev \<Rightarrow>
                      if pd_class dev = pdrv_class driver \<and> pd_subclass dev = pdrv_subclass driver \<and> pd_driver dev = 0 then
                        Option.bind (pdrv_probe driver (data node) s) (\<lambda>out.
                          case out of
                            Panic \<Rightarrow> Some Panic
                          | Ret (st, s1) \<Rightarrow>
                              if st = 0 then
                                (case pci_devs s1 (data node) of
                                   None \<Rightarrow> Some Panic
                                 | Some dev1 \<Rightarrow> Some (Ret (s1\<lparr>pci_devs := (pci_devs s1)(data node \<mapsto> dev1\<lparr>pd_driver := a\<rparr>)\<rparr>)))
                              else
                                (case pc_nodes s1 n of
                                   None \<Rightarrow> Some Panic
                                 | Some node1 \<Rightarrow> pci_probe_loop driver a (lnext node1) s1))
                      else pci_probe_loop driver a (lnext node) s)))"

definition pci_register_device_driver ::
    "'x PCIDeviceDriver \<Rightarrow> addr \<Rightarrow> 'x pci_state \<Rightarrow> (unit result \<times> 'x pci_state) outcome option" where
  "pci_register_device_driver driver a s =
     bind_run (kl_add a (g_pci_dev_drivers s) (pc_km s, pc_nodes s)) (\<lambda>(r, ll, kh).
       let s1 = (set_pci_heap kh s)\<lparr>g_pci_dev_drivers := ll\<rparr> in
       case r of
         Inl e \<Rightarrow> Some (Ret (Inl ENOMEM, s1))
       | Inr _ \<Rightarrow> bind_run (pci_probe_loop driver a (root (g_pci_devs s1)) s1) (\<lambda>s2. Some (Ret (Inr (), s2))))"

fun pci_unbind :: "addr \<Rightarrow> addr list \<Rightarrow> (addr \<rightharpoonup> PCIDevice) \<Rightarrow> (addr \<rightharpoonup> PCIDevice) outcome" where
  "pci_unbind a [] devs = Ret devs"
| "pci_unbind a (d # ds) devs =
     (case devs d of
        None \<Rightarrow> Panic
      | Some dev \<Rightarrow> pci_unbind a ds (if pd_driver dev = a then devs(d \<mapsto> dev\<lparr>pd_driver := 0\<rparr>) else devs))"

definition pci_unregister_device_driver :: "addr \<Rightarrow> 'x pci_state \<Rightarrow> (unit result \<times> 'x pci_state) outcome option" where
  "pci_unregister_device_driver a s =
     bind_run (ll_walk (pc_nodes s) (root (g_pci_devs s)) []) (\<lambda>ds.
     bind_run (Some (pci_unbind a ds (pci_devs s))) (\<lambda>devs.
       let s1 = s\<lparr>pci_devs := devs\<rparr> in
       bind_run (kl_remove a (g_pci_dev_drivers s1) (pc_km s1, pc_nodes s1)) (\<lambda>(r, ll, kh).
         Some (Ret (r, (set_pci_heap kh s1)\<lparr>g_pci_dev_drivers := ll\<rparr>)))))"

text \<open>The negative error number is returned as an unsigned word.\<close>

definition pci_read_bar4 :: "pci_config \<Rightarrow> PCIDevice \<Rightarrow> u32" where
  "pci_read_bar4 cfg dev =
     (if pd_header_type dev \<noteq> 0 then - of_nat (errno_code EINVAL)
      else pci_read_4bytes cfg (pd_bus dev) (pd_dev dev) (pd_func dev) 0x20)"

end
