(* ===== verification/PciProps.thy ===== *)
theory PciProps
  imports Pci MbrProps HashProps
begin

text \<open>
  Properties of the PCI bus driver. The configuration space is given byte for byte, as the PCI specification lays it
  out; the enumeration is compared with the list of functions that this space describes.
\<close>

section \<open>The configuration space as bytes\<close>

type_synonym pci_bytes = "u8 \<Rightarrow> u8 \<Rightarrow> u8 \<Rightarrow> nat \<Rightarrow> u8"

definition pci_space :: "pci_bytes \<Rightarrow> pci_config" where
  "pci_space B w =
     (if bit w 31 then
        (let b = ucast (drop_bit 16 w); df = (ucast (drop_bit 8 w) :: u8); d = drop_bit 3 df; f = df AND 7; n = unat ((ucast w :: u8) AND 0xFC)
         in le32 (map (B b d f) [n, n + 1, n + 2, n + 3]) 0)
      else 0xFFFFFFFF)"

definition vendor_of :: "pci_bytes \<Rightarrow> u8 \<Rightarrow> u8 \<Rightarrow> u8 \<Rightarrow> u16" where
  "vendor_of B b d f = word_cat (B b d f 1) (B b d f 0)"

definition describes :: "pci_bytes \<Rightarrow> u8 \<times> u8 \<times> u8 \<Rightarrow> PCIDevice \<Rightarrow> bool" where
  "describes B p dev \<longleftrightarrow> (case p of (b, d, f) \<Rightarrow>
     pd_bus dev = b \<and> pd_dev dev = d \<and> pd_func dev = f \<and> pd_vendor_id dev = vendor_of B b d f \<and>
     pd_device_id dev = word_cat (B b d f 3) (B b d f 2) \<and> pd_class dev = B b d f 11 \<and> pd_subclass dev = B b d f 10 \<and>
     pd_progif dev = B b d f 9 \<and> pd_revision_id dev = B b d f 8 \<and> pd_header_type dev = B b d f 14)"

lemma low_bits:
  assumes "(x :: u8) < of_nat (2 ^ k)" and "k < 8" and "k \<le> n"
  shows "\<not> bit x n"
proof -
  have "unat x < unat (of_nat (2 ^ k) :: u8)" using assms(1) by (simp add: word_less_nat_alt)
  moreover have "unat (of_nat (2 ^ k) :: u8) \<le> 2 ^ k" by (simp only: unat_of_nat mod_less_eq_dividend)
  ultimately have "unat x < 2 ^ k" by simp
  then have "take_bit k (unat x) = unat x" by (simp add: take_bit_nat_eq_self)
  then have "take_bit k x = x" by (metis unsigned_take_bit_eq unsigned_word_eqI)
  then show ?thesis using assms(3) by (metis bit_take_bit_iff not_le)
qed

lemma u8_bit_bound: "bit (x :: u8) n \<Longrightarrow> n < 8"
  using bit_imp_le_length by fastforce

lemma register_bit:
  assumes "n < 32"
  shows "bit (pci_register bus dev func off) n \<longleftrightarrow>
    bit off n \<or> 8 \<le> n \<and> bit (func AND mask 3) (n - 8) \<or> 11 \<le> n \<and> bit (dev AND mask 5) (n - 11) \<or> 16 \<le> n \<and> bit bus (n - 16) \<or> n = 31"
proof -
  have m: "(7 :: u8) = mask 3" "(31 :: u8) = mask 5" by (simp_all add: mask_eq_exp_minus_1)
  show ?thesis using assms unfolding pci_register_def m
    by (simp only: bit_or_iff bit_push_bit_iff bit_unsigned_iff bit_1_iff possible_bit_word) (auto dest: u8_bit_bound)
qed

lemma register_fields:
  assumes "dev < 32" and "func < 8"
  shows "ucast (drop_bit 16 (pci_register bus dev func off)) = bus"
    "drop_bit 3 (ucast (drop_bit 8 (pci_register bus dev func off)) :: u8) = dev"
    "ucast (drop_bit 8 (pci_register bus dev func off)) AND (7 :: u8) = func"
    "ucast (pci_register bus dev func off) = off"
    "bit (pci_register bus dev func off) 31"
proof -
  have d: "bit dev n \<Longrightarrow> n < 5" and f: "bit func n \<Longrightarrow> n < 3" for n
    using low_bits [of dev 5 n] low_bits [of func 3 n] assms by (force simp: not_less)+
  have m: "(7 :: u8) = mask 3" by (simp add: mask_eq_exp_minus_1)
  show "ucast (drop_bit 16 (pci_register bus dev func off)) = bus"
    by (rule bit_word_eqI) (auto simp: register_bit bit_unsigned_iff bit_drop_bit_eq bit_and_iff bit_mask_iff dest: u8_bit_bound)
  show "drop_bit 3 (ucast (drop_bit 8 (pci_register bus dev func off)) :: u8) = dev"
    by (rule bit_word_eqI)
      (use d f in \<open>auto simp: register_bit bit_unsigned_iff bit_drop_bit_eq bit_and_iff bit_mask_iff dest: u8_bit_bound\<close>)
  show "ucast (drop_bit 8 (pci_register bus dev func off)) AND (7 :: u8) = func"
    unfolding m by (rule bit_word_eqI)
      (use d f in \<open>auto simp: register_bit bit_unsigned_iff bit_drop_bit_eq bit_and_iff bit_mask_iff dest: u8_bit_bound\<close>)
  show "ucast (pci_register bus dev func off) = off"
    by (rule bit_word_eqI) (auto simp: register_bit bit_unsigned_iff dest: u8_bit_bound)
  show "bit (pci_register bus dev func off) 31"
    by (simp add: register_bit)
qed

lemma read_space:
  assumes "dev < 32" and "func < 8"
  shows "pci_read_4bytes (pci_space B) bus dev func 0 = le32 (map (B bus dev func) [0, 1, 2, 3]) 0"
    "pci_read_4bytes (pci_space B) bus dev func 8 = le32 (map (B bus dev func) [8, 9, 10, 11]) 0"
    "pci_read_4bytes (pci_space B) bus dev func 12 = le32 (map (B bus dev func) [12, 13, 14, 15]) 0"
  unfolding pci_read_4bytes_def pci_space_def Let_def register_fields [OF assms]
  using register_fields(5) [OF assms] by (simp add: numeral_2_eq_2 numeral_3_eq_3, simp, simp)

lemma fields_of_le32:
  fixes bs :: "u8 list"
  defines "x \<equiv> le32 bs 0"
  shows "ucast (x AND 0xFFFF) = (word_cat (bs ! 1) (bs ! 0) :: u16)"
    "ucast (drop_bit 16 x AND 0xFFFF) = (word_cat (bs ! 3) (bs ! 2) :: u16)"
    "ucast (drop_bit 24 x AND 0xFF) = bs ! 3" "ucast (drop_bit 16 x AND 0xFF) = bs ! 2"
    "ucast (drop_bit 8 x AND 0xFF) = bs ! 1" "ucast (x AND 0xFF) = bs ! 0"
proof -
  have m: "(0xFF :: u32) = mask 8" "(0xFFFF :: u32) = mask 16" by (simp_all add: mask_eq_exp_minus_1)
  note b = x_def le32_def le16_def m bit_unsigned_iff bit_and_iff bit_mask_iff bit_drop_bit_eq bit_word_cat_iff numeral_2_eq_2 numeral_3_eq_3
  show "ucast (x AND 0xFFFF) = (word_cat (bs ! 1) (bs ! 0) :: u16)" by (rule bit_word_eqI) (auto simp: b dest: u8_bit_bound)
  show "ucast (drop_bit 16 x AND 0xFFFF) = (word_cat (bs ! 3) (bs ! 2) :: u16)" by (rule bit_word_eqI) (auto simp: b dest: u8_bit_bound)
  show "ucast (drop_bit 24 x AND 0xFF) = bs ! 3" by (rule bit_word_eqI) (auto simp: b dest: u8_bit_bound)
  show "ucast (drop_bit 16 x AND 0xFF) = bs ! 2" by (rule bit_word_eqI) (auto simp: b dest: u8_bit_bound)
  show "ucast (drop_bit 8 x AND 0xFF) = bs ! 1" by (rule bit_word_eqI) (auto simp: b dest: u8_bit_bound)
  show "ucast (x AND 0xFF) = bs ! 0" by (rule bit_word_eqI) (auto simp: b dest: u8_bit_bound)
qed

lemma vendor_space: "dev < 32 \<Longrightarrow> func < 8 \<Longrightarrow> pci_read_vendor_id (pci_space B) bus dev func = vendor_of B bus dev func"
  by (simp add: pci_read_vendor_id_def read_space fields_of_le32 vendor_of_def)

lemma multi_space: "dev < 32 \<Longrightarrow> pci_device_is_multifunction (pci_space B) bus dev \<longleftrightarrow> bit (B bus dev 0 14) 7"
  using and_exp_eq_0_iff_not_bit [of "B bus dev 0 14" 7]
  by (simp add: pci_device_is_multifunction_def pci_read_header_type_def read_space fields_of_le32 push_bit_of_1)

lemma bridge_space:
  "dev < 32 \<Longrightarrow> func < 8 \<Longrightarrow>
     pci_device_is_host_bridge (pci_space B) bus dev func \<longleftrightarrow> B bus dev func 11 = 6 \<and> B bus dev func 10 = 0"
  by (simp add: pci_device_is_host_bridge_def Let_def read_space fields_of_le32)

lemma device_space:
  "dev < 32 \<Longrightarrow> func < 8 \<Longrightarrow> describes B (bus, dev, func) (pci_read_device (pci_space B) bus dev func drv)"
  by (simp add: describes_def pci_read_device_def Let_def read_space fields_of_le32 vendor_of_def)

section \<open>The enumeration\<close>

text \<open>
  What the space describes: the functions of a bus, with those of the buses behind host bridges after each bridge, down to
  the nesting depth \<open>k\<close>; \<open>pci_nested\<close> says that the bridges are nested less deep than that.
\<close>

definition present :: "pci_bytes \<Rightarrow> u8 \<Rightarrow> u8 \<Rightarrow> u8 \<Rightarrow> bool" where
  "present B b d f \<longleftrightarrow> vendor_of B b d f \<noteq> 0xFFFF"

definition multi :: "pci_bytes \<Rightarrow> u8 \<Rightarrow> u8 \<Rightarrow> bool" where
  "multi B b d \<longleftrightarrow> bit (B b d 0 14) 7"

definition bridge :: "pci_bytes \<Rightarrow> u8 \<Rightarrow> u8 \<Rightarrow> u8 \<Rightarrow> bool" where
  "bridge B b d f \<longleftrightarrow> B b d f 11 = 6 \<and> B b d f 10 = 0"

definition func_part :: "(u8 \<Rightarrow> (u8 \<times> u8 \<times> u8) list) \<Rightarrow> pci_bytes \<Rightarrow> u8 \<Rightarrow> nat \<Rightarrow> nat \<Rightarrow> (u8 \<times> u8 \<times> u8) list" where
  "func_part L B b dev func =
     (let d = of_nat dev; f = of_nat func in
      if \<not> present B b d f then [] else (b, d, f) # (if bridge B b d f then L f else []))"

definition dev_part :: "(u8 \<Rightarrow> (u8 \<times> u8 \<times> u8) list) \<Rightarrow> pci_bytes \<Rightarrow> u8 \<Rightarrow> nat \<Rightarrow> (u8 \<times> u8 \<times> u8) list" where
  "dev_part L B b dev =
     (let d = of_nat dev in
      if \<not> present B b d 0 then []
      else (b, d, 0) # (if multi B b d then concat (map (func_part L B b dev) [1..<8]) else []))"

primrec pci_listing :: "nat \<Rightarrow> pci_bytes \<Rightarrow> u8 \<Rightarrow> (u8 \<times> u8 \<times> u8) list" where
  "pci_listing 0 B b = []"
| "pci_listing (Suc k) B b = concat (map (dev_part (pci_listing k B) B b) [0..<32])"

primrec pci_nested :: "nat \<Rightarrow> pci_bytes \<Rightarrow> u8 \<Rightarrow> bool" where
  "pci_nested 0 B b = False"
| "pci_nested (Suc k) B b =
     (\<forall>dev \<in> set [0..<32]. \<forall>func \<in> set [1..<8]. let d = of_nat dev; f = of_nat func in
       present B b d 0 \<and> multi B b d \<and> present B b d f \<and> bridge B b d f \<longrightarrow> pci_nested k B f)"

definition pci_ok :: "nat \<Rightarrow> Heap \<Rightarrow> live_map \<Rightarrow> 'x pci_state \<Rightarrow> addr list \<Rightarrow> bool" where
  "pci_ok ma heap live s ds \<longleftrightarrow> km_heap ma (pc_km s) heap live \<and> nodes_live (pc_nodes s) live \<and>
     (\<exists>as. ll_at (pc_nodes s, g_pci_devs s) as ds) \<and> (\<forall>d \<in> set ds. 0 < d \<and> live d \<noteq> None)"

definition failed :: "'x pci_state \<Rightarrow> bool" where
  "failed s \<longleftrightarrow> (\<exists>b d f e. RegisterFailed b d f e \<in> set (pci_log s))"

text \<open>From \<open>s\<close> to \<open>s'\<close> the devices of \<open>L\<close> are appended to \<open>ds\<close>, unless a failure is logged.\<close>

definition added :: "nat \<Rightarrow> Heap \<Rightarrow> pci_bytes \<Rightarrow> (u8 \<times> u8 \<times> u8) list \<Rightarrow> addr list \<Rightarrow> 'x pci_state \<Rightarrow> 'x pci_state \<Rightarrow> bool" where
  "added ma heap B L ds s s' \<longleftrightarrow> (\<exists>live es. pci_ok ma heap live s' (ds @ es) \<and> set (pci_log s) \<subseteq> set (pci_log s') \<and>
     (\<forall>a \<in> set ds. pci_devs s' a = pci_devs s a) \<and>
     (\<not> failed s' \<longrightarrow> list_all2 (\<lambda>p a. \<exists>dev. pci_devs s' a = Some dev \<and> describes B p dev) L es))"

lemma added_refl: "pci_ok ma heap live s ds \<Longrightarrow> added ma heap B [] ds s s"
  unfolding added_def by (intro exI [of _ live] exI [of _ "[]"]) simp

lemma failed_mono: "set (pci_log s) \<subseteq> set (pci_log s') \<Longrightarrow> failed s \<Longrightarrow> failed s'"
  unfolding failed_def by blast

lemma added_trans:
  assumes "added ma heap B L ds s s1"
    and "\<And>live es. pci_ok ma heap live s1 (ds @ es) \<Longrightarrow> \<exists>s2. run = Some (Ret s2) \<and> added ma heap B L2 (ds @ es) s1 s2"
  shows "\<exists>s2. run = Some (Ret s2) \<and> added ma heap B (L @ L2) ds s s2"
proof -
  obtain live es where 1: "pci_ok ma heap live s1 (ds @ es)" "set (pci_log s) \<subseteq> set (pci_log s1)" "\<forall>a \<in> set ds. pci_devs s1 a = pci_devs s a"
    "\<not> failed s1 \<longrightarrow> list_all2 (\<lambda>p a. \<exists>dev. pci_devs s1 a = Some dev \<and> describes B p dev) L es"
    using assms(1) by (auto simp: added_def)
  obtain s2 where s2: "run = Some (Ret s2)" "added ma heap B L2 (ds @ es) s1 s2" using assms(2) [OF 1(1)] by blast
  obtain live2 es2 where 2: "pci_ok ma heap live2 s2 ((ds @ es) @ es2)" "set (pci_log s1) \<subseteq> set (pci_log s2)"
    "\<forall>a \<in> set (ds @ es). pci_devs s2 a = pci_devs s1 a"
    "\<not> failed s2 \<longrightarrow> list_all2 (\<lambda>p a. \<exists>dev. pci_devs s2 a = Some dev \<and> describes B p dev) L2 es2"
    using s2(2) unfolding added_def by (elim exE conjE) (rule that)
  have "list_all2 (\<lambda>p a. \<exists>dev. pci_devs s2 a = Some dev \<and> describes B p dev) (L @ L2) (es @ es2)" if "\<not> failed s2"
  proof (rule list_all2_appendI)
    have "\<not> failed s1" using that failed_mono [OF 2(2)] by blast
    then have "list_all2 (\<lambda>p a. \<exists>dev. pci_devs s1 a = Some dev \<and> describes B p dev) L es" using 1(4) by blast
    then show "list_all2 (\<lambda>p a. \<exists>dev. pci_devs s2 a = Some dev \<and> describes B p dev) L es"
      by (rule list.rel_mono_strong) (use 2(3) in auto)
  qed (use 2(4) that in blast)
  then show ?thesis using s2(1) 1(2,3) 2 unfolding added_def
    by (intro exI [of _ s2] conjI exI [of _ live2] exI [of _ "es @ es2"]) auto
qed

text \<open>After a logged failure the state only has to be in order.\<close>

lemma added_failed:
  "pci_ok ma heap live s' ds \<Longrightarrow> set (pci_log s) \<subseteq> set (pci_log s') \<Longrightarrow> \<forall>a \<in> set ds. pci_devs s' a = pci_devs s a \<Longrightarrow>
   failed s' \<Longrightarrow> added ma heap B L ds s s'"
  unfolding added_def by (intro exI [of _ live] exI [of _ "[]"]) simp

lemma kl_add_failed_nodes:
  assumes "kl_add d ll (km, nodes) = Some (Ret (Inl e, ll', km', h))" and "h a \<noteq> None"
  shows "nodes a \<noteq> None"
  using assms by (auto simp: kl_add_def bind_run_def linkedlist_add_def Let_def
      split: option.splits Option.bind_splits outcome.splits if_splits)

lemma register_device_ok:
  assumes ok: "pci_ok ma heap live s ds" and small: "small_heap ma heap" and "d < 32" "f < 8"
  shows "\<exists>r s1. pci_register_device (pci_space B) b d f s = Some (Ret (r, s1)) \<and>
    (case r of
       Inl e \<Rightarrow> added ma heap B [(b, d, f)] ds s (pci_klog (RegisterFailed b d f e) s1) \<and> failed (pci_klog (RegisterFailed b d f e) s1)
     | Inr _ \<Rightarrow> added ma heap B [(b, d, f)] ds s s1)"
proof -
  obtain as where inv: "km_heap ma (pc_km s) heap live" "nodes_live (pc_nodes s) live" "ll_at (pc_nodes s, g_pci_devs s) as ds"
    "\<forall>d \<in> set ds. 0 < d \<and> live d \<noteq> None" using ok by (auto simp: pci_ok_def)
  obtain p km where p: "kmalloc sizeof_PCIDevice (pc_km s) = Some (Ret (p, km))"
    "case p of None \<Rightarrow> km_heap ma km heap live | Some a \<Rightarrow> live a = None \<and> km_heap ma km heap (live(a \<mapsto> (sizeof_PCIDevice, ma)))"
    using use_kmalloc [OF inv(1) small, of sizeof_PCIDevice] by (auto simp: sizeof_PCIDevice_def)
  show ?thesis
  proof (cases p)
    case None
    have "pci_ok ma heap live (pci_klog (RegisterFailed b d f ENOMEM) (s\<lparr>pc_km := km\<rparr>)) ds"
      using inv p(2) None by (auto simp: pci_ok_def pci_klog_def)
    then show ?thesis using p(1) None
      by (auto simp: pci_register_device_def intro!: added_failed) (auto simp: pci_klog_def failed_def)
  next
    case (Some a)
    let ?live = "live(a \<mapsto> (sizeof_PCIDevice, ma))"
    have a: "live a = None" "km_heap ma km heap ?live" using p(2) Some by auto
    have "0 < a" using km_live_addr [OF a(2), of a] by simp
    have nl: "nodes_live (pc_nodes s) ?live" using inv(2) by (auto simp: nodes_live_def)
    obtain r ll km1 h where l: "kl_add a (g_pci_devs s) (km, pc_nodes s) = Some (Ret (r, ll, km1, h))"
      and c: "case r of
         Inl e \<Rightarrow> e = ENOMEM \<and> km_heap ma km1 heap ?live \<and> ll_at (h, ll) as ds \<and> nodes_live h ?live
       | Inr _ \<Rightarrow> \<exists>n. ?live n = None \<and> km_heap ma km1 heap (?live(n \<mapsto> (8, ma))) \<and> ll_at (h, ll) (as @ [n]) (ds @ [a])
           \<and> nodes_live h (?live(n \<mapsto> (8, ma)))"
      using kl_add_ok [of ma "(km, pc_nodes s)" heap ?live "g_pci_devs s" as ds a] a(2) small inv(3) nl by auto
    show ?thesis
    proof (cases r)
      case (Inl e)
      obtain km3 where km3: "kfree (Some a) km1 = Some (Ret km3)" "km_heap ma km3 heap (?live(a := None))"
        using use_kfree [of ma km1 heap ?live a] c Inl by auto
      have live: "?live(a := None) = live" using a(1) by auto
      let ?s = "s\<lparr>pc_nodes := h, g_pci_devs := ll, pc_km := km3\<rparr>"
      have "nodes_live h live" using kl_add_failed_nodes [OF l [unfolded Inl]] inv(2) by (simp add: nodes_live_def)
      then have "pci_ok ma heap live (pci_klog (RegisterFailed b d f ENOMEM) ?s) ds"
        using km3(2) live inv c Inl by (auto simp: pci_ok_def pci_klog_def)
      then show ?thesis using p(1) Some l Inl km3(1)
        by (auto simp: pci_register_device_def set_pci_heap_def Let_def intro!: added_failed) (auto simp: pci_klog_def failed_def)
    next
      case (Inr u)
      let ?d = "pci_read_device (pci_space B) b d f (read32 (mem km1) (a + 16))"
      let ?s = "pci_klog (Found b d f (pci_class_to_string (pd_class ?d) (pd_subclass ?d)))
        (s\<lparr>pc_km := km1, pc_nodes := h, g_pci_devs := ll, pci_devs := (pci_devs s)(a \<mapsto> ?d)\<rparr>)"
      obtain n where n: "?live n = None" "km_heap ma km1 heap (?live(n \<mapsto> (8, ma)))" "ll_at (h, ll) (as @ [n]) (ds @ [a])"
        "nodes_live h (?live(n \<mapsto> (8, ma)))" using c Inr by auto
      have "pci_ok ma heap (?live(n \<mapsto> (8, ma))) ?s (ds @ [a])"
        using n inv(4) \<open>0 < a\<close> by (auto simp: pci_ok_def pci_klog_def)
      moreover have "a \<notin> set ds" using inv(4) a(1) by auto
      moreover have "describes B (b, d, f) ?d" by (rule device_space [OF assms(3,4)])
      ultimately have "added ma heap B [(b, d, f)] ds s ?s" unfolding added_def
        by (intro exI [of _ "?live(n \<mapsto> (8, ma))"] exI [of _ "[a]"]) (auto simp: pci_klog_def)
      then show ?thesis using p(1) Some l Inr by (simp add: pci_register_device_def set_pci_heap_def Let_def)
    qed
  qed
qed

lemma added_any: "added ma heap B L ds s s' \<Longrightarrow> failed s' \<Longrightarrow> added ma heap B L' ds s s'"
  by (auto simp: added_def)

definition rest_of :: "(u8 \<Rightarrow> (u8 \<times> u8 \<times> u8) list) \<Rightarrow> pci_bytes \<Rightarrow> u8 \<Rightarrow> nat \<Rightarrow> nat \<Rightarrow> (u8 \<times> u8 \<times> u8) list" where
  "rest_of L B b dev func =
     (if func = 0 then concat (map (dev_part L B b) [dev..<32])
      else concat (map (func_part L B b dev) [func..<8]) @ concat (map (dev_part L B b) [dev + 1..<32]))"

lemma rest_dev: "dev < 32 \<Longrightarrow> rest_of L B b dev 0 = dev_part L B b dev @ rest_of L B b (dev + 1) 0"
  by (simp add: rest_of_def upt_conv_Cons)

lemma rest_func: "0 < func \<Longrightarrow> func < 8 \<Longrightarrow> rest_of L B b dev func = func_part L B b dev func @ rest_of L B b dev (func + 1)"
  by (simp add: rest_of_def upt_conv_Cons)

lemma rest_end: "8 \<le> func \<Longrightarrow> rest_of L B b dev func = rest_of L B b (dev + 1) 0"
  by (simp add: rest_of_def)

lemma rest_multi:
  "dev < 32 \<Longrightarrow> present B b (of_nat dev) 0 \<Longrightarrow> multi B b (of_nat dev) \<Longrightarrow>
     rest_of L B b dev 0 = [(b, of_nat dev, 0)] @ rest_of L B b dev 1"
  by (simp add: rest_dev dev_part_def Let_def) (simp add: rest_of_def)

lemma small_u8: "(n :: nat) < 32 \<Longrightarrow> (of_nat n :: u8) < 32" "(n :: nat) < 8 \<Longrightarrow> (of_nat n :: u8) < 8"
  by (simp_all add: word_less_nat_alt unat_of_nat take_bit_eq_mod)

lemma enum_loop_ok:
  fixes s :: "'x pci_state"
  assumes small: "small_heap ma heap"
    and sub: "\<And>f (s :: 'x pci_state) live ds. Q f \<Longrightarrow> pci_ok ma heap live s ds \<Longrightarrow>
      \<exists>s'. pci_enum_loop (pci_space B) f 0 0 s = Some (Ret s') \<and> added ma heap B (L f) ds s s'"
    and nest: "\<And>dev func. dev < 32 \<Longrightarrow> 0 < func \<Longrightarrow> func < 8 \<Longrightarrow> present B b (of_nat dev) 0 \<Longrightarrow> multi B b (of_nat dev) \<Longrightarrow>
      present B b (of_nat dev) (of_nat func) \<Longrightarrow> bridge B b (of_nat dev) (of_nat func) \<Longrightarrow> Q (of_nat func)"
  shows "pci_ok ma heap live s ds \<Longrightarrow> func = 0 \<or> dev < 32 \<and> present B b (of_nat dev) 0 \<and> multi B b (of_nat dev) \<Longrightarrow>
    \<exists>s'. pci_enum_loop (pci_space B) b dev func s = Some (Ret s') \<and> added ma heap B (rest_of L B b dev func) ds s s'"
proof (induction "(32 - dev) * 10 + (9 - func)" arbitrary: dev func s live ds rule: less_induct)
  case less
  let ?c = "pci_space B" and ?d = "of_nat dev :: u8" and ?f = "of_nat func :: u8"
  note ok = less.prems(1) and pos = less.prems(2)
  have outer: "\<exists>s'. pci_enum_loop ?c b (dev + 1) 0 s1 = Some (Ret s') \<and> added ma heap B (rest_of L B b (dev + 1) 0) xs s1 s'"
    if "pci_ok ma heap live1 s1 xs" "dev < 32" for live1 xs and s1 :: "'x pci_state"
    by (rule less.hyps [OF _ that(1)]) (use that(2) in \<open>simp_all add: algebra_simps\<close>)
  have inner: "\<exists>s'. pci_enum_loop ?c b dev (func + 1) s1 = Some (Ret s') \<and> added ma heap B (rest_of L B b dev (func + 1)) xs s1 s'"
    if "pci_ok ma heap live1 s1 xs" "dev < 32 \<and> present B b ?d 0 \<and> multi B b ?d" "func < 8" for live1 xs and s1 :: "'x pci_state"
    by (rule less.hyps [OF _ that(1)]) (use that in simp_all)
  consider (finish) "32 \<le> dev" | (dev) "dev < 32" "func = 0" | (behind) "dev < 32" "8 \<le> func" | (func) "dev < 32" "0 < func" "func < 8"
    by linarith
  then show ?case
  proof cases
    case finish
    have "func = 0" using finish pos by auto
    moreover have "rest_of L B b dev 0 = []" using finish by (simp add: rest_of_def)
    ultimately show ?thesis using finish added_refl [OF ok] by (subst pci_enum_loop.simps) (simp add: Let_def)
  next
    case behind
    have "pci_enum_loop ?c b dev func s = pci_enum_loop ?c b (dev + 1) 0 s"
      using behind by (subst pci_enum_loop.simps) (simp add: Let_def)
    then show ?thesis using outer [OF ok behind(1)] rest_end [OF behind(2)] by metis
  next
    case dev
    have d: "?d < 32" "(0 :: u8) < 8" using small_u8(1) [OF dev(1)] by simp_all
    show ?thesis
    proof (cases "present B b ?d 0")
      case False
      have "pci_enum_loop ?c b dev func s = pci_enum_loop ?c b (dev + 1) 0 s"
        using dev False vendor_space [OF d] by (subst pci_enum_loop.simps) (simp add: Let_def present_def)
      moreover have "rest_of L B b dev func = rest_of L B b (dev + 1) 0"
        using dev False by (simp add: rest_dev dev_part_def)
      ultimately show ?thesis using outer [OF ok dev(1)] by metis
    next
      case True
      obtain r s1 where reg: "pci_register_device ?c b ?d 0 s = Some (Ret (r, s1))"
        and c: "case r of Inl e \<Rightarrow> added ma heap B [(b, ?d, 0)] ds s (pci_klog (RegisterFailed b ?d 0 e) s1) \<and> failed (pci_klog (RegisterFailed b ?d 0 e) s1)
          | Inr _ \<Rightarrow> added ma heap B [(b, ?d, 0)] ds s s1"
        using register_device_ok [OF ok small d] by blast
      show ?thesis
      proof (cases r)
        case (Inl e)
        have "pci_enum_loop ?c b dev func s = Some (Ret (pci_klog (RegisterFailed b ?d 0 e) s1))"
          using dev True vendor_space [OF d] reg Inl by (subst pci_enum_loop.simps) (simp add: Let_def present_def)
        then show ?thesis using c Inl added_any by fastforce
      next
        case (Inr u)
        have a: "added ma heap B [(b, ?d, 0)] ds s s1" using c Inr by simp
        show ?thesis
        proof (cases "multi B b ?d")
          case False
          have "pci_enum_loop ?c b dev func s = pci_enum_loop ?c b (dev + 1) 0 s1"
            using dev True False vendor_space [OF d] multi_space [OF d(1)] reg Inr
            by (subst pci_enum_loop.simps) (simp add: Let_def present_def multi_def)
          moreover have "rest_of L B b dev func = [(b, ?d, 0)] @ rest_of L B b (dev + 1) 0"
            using dev True False by (simp add: rest_dev dev_part_def Let_def)
          moreover have "\<exists>s2. pci_enum_loop ?c b (dev + 1) 0 s1 = Some (Ret s2) \<and>
              added ma heap B ([(b, ?d, 0)] @ rest_of L B b (dev + 1) 0) ds s s2"
            by (rule added_trans [OF a], rule outer [OF _ dev(1)])
          ultimately show ?thesis by simp
        next
          case m: True
          have "pci_enum_loop ?c b dev func s = pci_enum_loop ?c b dev (func + 1) s1"
            using dev True m vendor_space [OF d] multi_space [OF d(1)] reg Inr
            by (subst pci_enum_loop.simps) (simp add: Let_def present_def multi_def)
          moreover have "rest_of L B b dev func = [(b, ?d, 0)] @ rest_of L B b dev (func + 1)"
            using rest_multi [OF dev(1) True m] dev(2) by simp
          moreover have "\<exists>s2. pci_enum_loop ?c b dev (func + 1) s1 = Some (Ret s2) \<and>
              added ma heap B ([(b, ?d, 0)] @ rest_of L B b dev (func + 1)) ds s s2"
            by (rule added_trans [OF a], rule inner) (use dev True m in simp_all)
          ultimately show ?thesis by simp
        qed
      qed
    qed
  next
    case func
    then have pm: "dev < 32 \<and> present B b ?d 0 \<and> multi B b ?d" using pos by auto
    have d: "?d < 32" "?f < 8" using small_u8(1) [OF func(1)] small_u8(2) [OF func(3)] by simp_all
    show ?thesis
    proof (cases "present B b ?d ?f")
      case False
      have "pci_enum_loop ?c b dev func s = pci_enum_loop ?c b dev (func + 1) s"
        using func False vendor_space [OF d] by (subst pci_enum_loop.simps) (simp add: Let_def present_def)
      moreover have "rest_of L B b dev func = rest_of L B b dev (func + 1)"
        using func False by (simp add: rest_func func_part_def)
      ultimately show ?thesis using inner [OF ok pm func(3)] by metis
    next
      case True
      obtain r s1 where reg: "pci_register_device ?c b ?d ?f s = Some (Ret (r, s1))"
        and c: "case r of Inl e \<Rightarrow> added ma heap B [(b, ?d, ?f)] ds s (pci_klog (RegisterFailed b ?d ?f e) s1) \<and> failed (pci_klog (RegisterFailed b ?d ?f e) s1)
          | Inr _ \<Rightarrow> added ma heap B [(b, ?d, ?f)] ds s s1"
        using register_device_ok [OF ok small d] by blast
      obtain s2 where s2: "s2 = (case r of Inl e \<Rightarrow> pci_klog (RegisterFailed b ?d ?f e) s1 | Inr _ \<Rightarrow> s1)" by blast
      have a: "added ma heap B [(b, ?d, ?f)] ds s s2" using c s2 by (cases r) simp_all
      show ?thesis
      proof (cases "bridge B b ?d ?f")
        case False
        have "pci_enum_loop ?c b dev func s = pci_enum_loop ?c b dev (func + 1) s2"
          using func True False vendor_space [OF d] bridge_space [OF d] reg s2
          by (subst pci_enum_loop.simps) (cases r; auto simp: Let_def present_def bridge_def)
        moreover have "rest_of L B b dev func = [(b, ?d, ?f)] @ rest_of L B b dev (func + 1)"
          using func True False by (simp add: rest_func func_part_def Let_def)
        moreover have "\<exists>s3. pci_enum_loop ?c b dev (func + 1) s2 = Some (Ret s3) \<and>
            added ma heap B ([(b, ?d, ?f)] @ rest_of L B b dev (func + 1)) ds s s3"
          by (rule added_trans [OF a], rule inner [OF _ pm func(3)])
        ultimately show ?thesis by simp
      next
        case br: True
        have Q: "Q ?f" using nest [OF func(1-3)] pm True br by blast
        have "\<exists>s3. pci_enum_loop ?c ?f 0 0 s2 = Some (Ret s3) \<and> added ma heap B ([(b, ?d, ?f)] @ L ?f) ds s s3"
          by (rule added_trans [OF a], rule sub [OF Q])
        then obtain s3 where s3: "pci_enum_loop ?c ?f 0 0 s2 = Some (Ret s3)" "added ma heap B ([(b, ?d, ?f)] @ L ?f) ds s s3"
          by blast
        have "pci_enum_loop ?c b dev func s = pci_enum_loop ?c b dev (func + 1) s3"
          using func True br vendor_space [OF d] bridge_space [OF d] reg s2 s3(1)
          by (subst pci_enum_loop.simps) (cases r; simp add: Let_def present_def bridge_def)
        moreover have "rest_of L B b dev func = ([(b, ?d, ?f)] @ L ?f) @ rest_of L B b dev (func + 1)"
          using func True br by (simp add: rest_func func_part_def Let_def)
        moreover have "\<exists>s4. pci_enum_loop ?c b dev (func + 1) s3 = Some (Ret s4) \<and>
            added ma heap B (([(b, ?d, ?f)] @ L ?f) @ rest_of L B b dev (func + 1)) ds s s4"
          by (rule added_trans [OF s3(2)], rule inner [OF _ pm func(3)])
        ultimately show ?thesis by simp
      qed
    qed
  qed
qed

lemma enumerate_bus_ok:
  fixes s :: "'x pci_state"
  assumes "small_heap ma heap"
  shows "pci_nested k B b \<Longrightarrow> pci_ok ma heap live s ds \<Longrightarrow>
    \<exists>s'. pci_enum_loop (pci_space B) b 0 0 s = Some (Ret s') \<and> added ma heap B (pci_listing k B b) ds s s'"
proof (induction k arbitrary: b live s ds)
  case (Suc k)
  have "\<exists>s'. pci_enum_loop (pci_space B) b 0 0 s = Some (Ret s') \<and> added ma heap B (rest_of (pci_listing k B) B b 0 0) ds s s'"
  proof (rule enum_loop_ok [OF assms, where Q = "pci_nested k B"])
    fix dev func :: nat
    assume "dev < 32" "0 < func" "func < 8" "present B b (of_nat dev) 0" "multi B b (of_nat dev)"
      "present B b (of_nat dev) (of_nat func)" "bridge B b (of_nat dev) (of_nat func)"
    then show "pci_nested k B (of_nat func)" using Suc.prems(1) by (auto simp: Let_def)
  qed (use Suc in auto)
  then show ?case by (simp add: rest_of_def)
qed simp

text \<open>
  C30: the enumeration finds exactly the functions that the configuration space has. When host bridges are nested at most
  \<open>k\<close> deep, it returns; the known devices stay, and the new ones are the functions with a vendor, in the order of the
  listing, each with the fields that the space has for it, unless a failure to register one is logged.
\<close>
theorem pci_enumeration_exact:
  assumes "pci_ok ma heap live s ds" and "small_heap ma heap" and "pci_nested k B 0" and "vendor_of B 0 0 0 \<noteq> 0xFFFF"
  shows "\<exists>s' es. pci_enumerate_devices (pci_space B) s = Some (Ret (Inr (), s')) \<and>
    ll_walk (pc_nodes s') (root (g_pci_devs s')) [] = Some (Ret (ds @ es)) \<and> (\<forall>a \<in> set ds. pci_devs s' a = pci_devs s a) \<and>
    (failed s' \<or> list_all2 (\<lambda>p a. \<exists>dev. pci_devs s' a = Some dev \<and> describes B p dev) (pci_listing k B 0) es)"
proof -
  obtain s' where e: "pci_enum_loop (pci_space B) 0 0 0 s = Some (Ret s')" and "added ma heap B (pci_listing k B 0) ds s s'"
    using enumerate_bus_ok [OF assms(2,3,1)] by blast
  then obtain live' es where a: "pci_ok ma heap live' s' (ds @ es)" "\<forall>a \<in> set ds. pci_devs s' a = pci_devs s a"
    "\<not> failed s' \<longrightarrow> list_all2 (\<lambda>p a. \<exists>dev. pci_devs s' a = Some dev \<and> describes B p dev) (pci_listing k B 0) es"
    unfolding added_def by blast
  obtain as where l: "ll_at (pc_nodes s', g_pci_devs s') as (ds @ es)" "\<forall>d \<in> set (ds @ es). 0 < d"
    using a(1) by (auto simp: pci_ok_def)
  have "filter (\<lambda>x. x \<noteq> 0) xs = xs" if "\<forall>d \<in> set xs. 0 < d" for xs :: "nat list" using that by (induction xs) auto
  then have "ll_walk (pc_nodes s') (root (g_pci_devs s')) [] = Some (Ret (ds @ es))"
    using l ll_walk_ok [of "pc_nodes s'" "root (g_pci_devs s')" as "ds @ es" "[]"] by (simp add: ll_at_def)
  moreover have "pci_enumerate_devices (pci_space B) s = Some (Ret (Inr (), s'))"
    using e vendor_space [of 0 0 B 0] assms(4) by (simp add: pci_enumerate_devices_def pci_enumerate_bus_def)
  ultimately show ?thesis using a by blast
qed

text \<open>A bus with a host bridge at device 0, and a device 1 with two functions.\<close>

definition demo_bytes :: pci_bytes where
  "demo_bytes b d f n =
     (if b = 0 \<and> d = 0 \<and> f = 0 then [0x86, 0x80, 0x37, 0x12, 0, 0, 0, 0, 2, 0, 0, 6, 0, 0, 0, 0] ! n
      else if b = 0 \<and> d = 1 \<and> f < 2 then [0x86, 0x80, 0x10, 0x70, 0, 0, 0, 0, 0, 0x80, 1, if f = 0 then 6 else 1, 0, 0, 0x80, 0] ! n
      else 0xFF)"

definition demo_pci :: "unit pci_state" where
  "demo_pci = \<lparr>pc_km = demo_state, pc_nodes = Map.empty, g_pci_devs = linkedlist_init, g_pci_dev_drivers = linkedlist_init,
     pci_devs = Map.empty, pci_log = [], pc_priv = ()\<rparr>"

lemma demo_pci_ok: "pci_ok 16 demo_heap (\<lambda>_. None) demo_pci []"
  using demo_km_ok by (auto simp: pci_ok_def demo_pci_def nodes_live_def ll_at_def linkedlist_init_def)

lemma demo_listing: "pci_listing 1 demo_bytes 0 = [(0, 0, 0), (0, 1, 0), (0, 1, 1)]"
  by code_simp

lemma demo_nested: "pci_nested 1 demo_bytes 0"
  by code_simp

theorem pci_enumeration_exact_witness:
  "\<exists>s' es. pci_enumerate_devices (pci_space demo_bytes) demo_pci = Some (Ret (Inr (), s')) \<and> (failed s' \<or> length es = 3 \<and>
     (\<exists>dev. pci_devs s' (es ! 2) = Some dev \<and> pd_dev dev = 1 \<and> pd_func dev = 1 \<and> pd_class dev = 1 \<and> pd_subclass dev = 1))"
proof -
  have v: "vendor_of demo_bytes 0 0 0 \<noteq> 0xFFFF" by code_simp
  obtain s' es where s': "pci_enumerate_devices (pci_space demo_bytes) demo_pci = Some (Ret (Inr (), s'))"
    "failed s' \<or> list_all2 (\<lambda>p a. \<exists>dev. pci_devs s' a = Some dev \<and> describes demo_bytes p dev) (pci_listing 1 demo_bytes 0) es"
    using pci_enumeration_exact [OF demo_pci_ok demo_disk_small demo_nested v] by (elim exE conjE) (rule that)
  have "length es = 3 \<and> (\<exists>dev. pci_devs s' (es ! 2) = Some dev \<and> describes demo_bytes (0, 1, 1) dev)" if "\<not> failed s'"
    using s'(2) that list_all2_nthD [of _ "[(0, 0, 0), (0, 1, 0), (0, 1, 1)]" es 2] list_all2_lengthD
    unfolding demo_listing by fastforce
  moreover have "B (0 :: u8) (1 :: u8) (1 :: u8) (11 :: nat) = 1 \<and> B 0 1 1 10 = 1" if "B = demo_bytes" for B
    unfolding that by code_simp
  ultimately show ?thesis using s'(1) by (auto simp: describes_def)
qed

section \<open>Drivers\<close>

text \<open>Appending to one list leaves the other lists on the same heap as they are.\<close>

lemma kl_add_other:
  assumes km: "km_heap ma (fst s) heap live" and small: "small_heap ma heap" and ll: "ll_at (snd s, ll) bs ys"
    and nl: "nodes_live (snd s) live" and other: "ll_at (snd s, ll2) as xs" and dis: "set as \<inter> set bs = {}"
    and run: "kl_add d ll s = Some (Ret (r, ll', km', h))"
  shows "ll_at (h, ll2) as xs"
proof -
  obtain new km1 where k: "kmalloc 8 (fst s) = Some (Ret (new, km1))"
    and c: "case new of None \<Rightarrow> km_heap ma km1 heap live | Some a \<Rightarrow> live a = None \<and> km_heap ma km1 heap (live(a \<mapsto> (8, ma)))"
    using use_kmalloc [OF km small, of 8] by auto
  note new = k and fresh = c
  have add: "linkedlist_add new d (snd s, ll) = Ret (r, h, ll')"
    using run new by (auto simp: kl_add_def bind_run_def split: outcome.splits)
  have "h c = snd s c" if "c \<in> set as" for c
  proof -
    have "snd s c \<noteq> None" using seg_dom [of "snd s" "root ll2" as xs c] other that by (auto simp: ll_at_def)
    then have "new \<noteq> Some c" using nl fresh by (auto simp: nodes_live_def)
    moreover have "lend ll \<noteq> Some c"
    proof
      assume "lend ll = Some c"
      then have "bs \<noteq> []" "c = last bs" using ll by (auto simp: ll_at_def split: if_splits)
      then show False using that dis last_in_set [of bs] by blast
    qed
    ultimately show ?thesis using add by (auto simp: linkedlist_add_def Let_def split: option.splits if_splits)
  qed
  then show ?thesis using other seg_cong [of as h "snd s"] by (simp add: ll_at_def)
qed

definition takes :: "'x PCIDeviceDriver \<Rightarrow> (addr \<Rightarrow> int) \<Rightarrow> (addr \<rightharpoonup> PCIDevice) \<Rightarrow> addr \<Rightarrow> bool" where
  "takes driver P devs d \<longleftrightarrow> (case devs d of None \<Rightarrow> False
     | Some dev \<Rightarrow> pd_class dev = pdrv_class driver \<and> pd_subclass dev = pdrv_subclass driver \<and> pd_driver dev = 0 \<and> P d = 0)"

lemma probe_loop_ok:
  assumes probe: "\<And>d. pdrv_probe driver d s = Some (Ret (P d, s))"
  shows "seg (pc_nodes s) p as ds \<Longrightarrow> \<forall>d \<in> set ds. 0 < d \<and> pci_devs s d \<noteq> None \<Longrightarrow>
    \<exists>s'. pci_probe_loop driver a p s = Some (Ret s') \<and>
      pci_devs s' = (case find (takes driver P (pci_devs s)) ds of
        None \<Rightarrow> pci_devs s | Some d \<Rightarrow> (pci_devs s)(d \<mapsto> (the (pci_devs s d))\<lparr>pd_driver := a\<rparr>))"
proof (induction "pc_nodes s" p as ds rule: seg.induct)
  case (2 p n as x xs)
  then obtain node where node: "p = Some n" "pc_nodes s n = Some node" "data node = x" "seg (pc_nodes s) (lnext node) as xs" by auto
  obtain dev where dev: "pci_devs s x = Some dev" "0 < x" using "2.prems"(2) by auto
  obtain s' where s': "pci_probe_loop driver a (lnext node) s = Some (Ret s')"
    "pci_devs s' = (case find (takes driver P (pci_devs s)) xs of
      None \<Rightarrow> pci_devs s | Some d \<Rightarrow> (pci_devs s)(d \<mapsto> (the (pci_devs s d))\<lparr>pd_driver := a\<rparr>))"
    using "2.hyps" [of node] "2.prems"(2) node(4) by auto
  show ?case
  proof (cases "takes driver P (pci_devs s) x")
    case True
    then show ?thesis using node(1-3) dev probe [of x]
      by (subst pci_probe_loop.simps) (auto simp: takes_def)
  next
    case False
    have "pci_probe_loop driver a p s = pci_probe_loop driver a (lnext node) s"
      using False node(1-3) dev probe [of x] by (subst pci_probe_loop.simps) (auto simp: takes_def)
    then show ?thesis using s' False by auto
  qed
qed (auto simp: pci_probe_loop.simps)


text \<open>An IDE controller without a driver, and a driver that accepts it.\<close>

definition demo_ide :: PCIDevice where
  "demo_ide = \<lparr>pd_bus = 0, pd_dev = 1, pd_func = 1, pd_vendor_id = 0x8086, pd_device_id = 0x7010, pd_class = 1, pd_subclass = 1,
     pd_revision_id = 0, pd_progif = 0x80, pd_header_type = 0, pd_driver = 0\<rparr>"

definition demo_driver :: "unit PCIDeviceDriver" where
  "demo_driver = \<lparr>pdrv_class = 1, pdrv_subclass = 1, pdrv_probe = \<lambda>d t. Some (Ret (0, t))\<rparr>"


end
