(* ===== verification/PortIo.thy ===== *)
theory PortIo
  imports Prelude
begin

text \<open>
  Port input and output, \<^verbatim>\<open>arch/x86/include/dxgmx/x86/portio.h\<close>. The hardware behind the ports is a parameter: its
  state and what a read or write of each width does.
\<close>

record 'd port_io =
  io_inb :: "u16 \<Rightarrow> 'd \<Rightarrow> u8 \<times> 'd"
  io_inw :: "u16 \<Rightarrow> 'd \<Rightarrow> u16 \<times> 'd"
  io_outb :: "u8 \<Rightarrow> u16 \<Rightarrow> 'd \<Rightarrow> 'd"
  io_outw :: "u16 \<Rightarrow> u16 \<Rightarrow> 'd \<Rightarrow> 'd"

definition port_outb :: "'d port_io \<Rightarrow> u8 \<Rightarrow> u16 \<Rightarrow> 'd \<Rightarrow> 'd" where
  "port_outb P value p d = io_outb P value p d"

definition port_inb :: "'d port_io \<Rightarrow> u16 \<Rightarrow> 'd \<Rightarrow> u8 \<times> 'd" where
  "port_inb P p d = io_inb P p d"

definition port_outw :: "'d port_io \<Rightarrow> u16 \<Rightarrow> u16 \<Rightarrow> 'd \<Rightarrow> 'd" where
  "port_outw P value p d = io_outw P value p d"

definition port_inw :: "'d port_io \<Rightarrow> u16 \<Rightarrow> 'd \<Rightarrow> u16 \<times> 'd" where
  "port_inw P p d = io_inw P p d"

end
