(* ===== verification/Pic.thy ===== *)
theory Pic
  imports PortIo
begin

text \<open>
  The interrupt controllers, \<^verbatim>\<open>arch/x86/int/pic.c\<close>, and the end of an interrupt in \<^verbatim>\<open>arch/x86/int/interrupts.c\<close>. A
  reference model of two 8259 controllers in cascade, from their data sheet, is what the code is checked against.
\<close>

section \<open>Operations\<close>

definition PIC_MASTER_PORT_COMMAND :: u16 where "PIC_MASTER_PORT_COMMAND = 0x20"
definition PIC_MASTER_PORT_DATA :: u16 where "PIC_MASTER_PORT_DATA = 0x21"
definition PIC_SLAVE_PORT_COMMAND :: u16 where "PIC_SLAVE_PORT_COMMAND = 0xA0"
definition PIC_SLAVE_PORT_DATA :: u16 where "PIC_SLAVE_PORT_DATA = 0xA1"
definition PIC_OWC3_READ_IRR :: u8 where "PIC_OWC3_READ_IRR = 0xA"
definition PIC_OWC3_READ_ISR :: u8 where "PIC_OWC3_READ_ISR = 0xB"
definition PIC_ICW1_ICW4_NEEDED :: u8 where "PIC_ICW1_ICW4_NEEDED = 1"
definition PIC_ICW1_INIT :: u8 where "PIC_ICW1_INIT = 16"
definition PIC_ICW4_8086 :: u8 where "PIC_ICW4_8086 = 1"

lemmas pic_ports = PIC_MASTER_PORT_COMMAND_def PIC_MASTER_PORT_DATA_def PIC_SLAVE_PORT_COMMAND_def PIC_SLAVE_PORT_DATA_def

definition pic8259_remap :: "'d port_io \<Rightarrow> u8 \<Rightarrow> u8 \<Rightarrow> 'd \<Rightarrow> 'd" where
  "pic8259_remap P master_offset slave_offset d =
     (let (master_mask, d) = port_inb P PIC_MASTER_PORT_DATA d;
          (slave_mask, d) = port_inb P PIC_SLAVE_PORT_DATA d;
          d = port_outb P (PIC_ICW1_INIT OR PIC_ICW1_ICW4_NEEDED) PIC_MASTER_PORT_COMMAND d;
          d = port_outb P (PIC_ICW1_INIT OR PIC_ICW1_ICW4_NEEDED) PIC_SLAVE_PORT_COMMAND d;
          d = port_outb P master_offset PIC_MASTER_PORT_DATA d;
          d = port_outb P slave_offset PIC_SLAVE_PORT_DATA d;
          d = port_outb P 4 PIC_MASTER_PORT_DATA d;
          d = port_outb P 2 PIC_SLAVE_PORT_DATA d;
          d = port_outb P PIC_ICW4_8086 PIC_MASTER_PORT_DATA d;
          d = port_outb P PIC_ICW4_8086 PIC_SLAVE_PORT_DATA d;
          d = port_outb P master_mask PIC_MASTER_PORT_DATA d
      in port_outb P slave_mask PIC_SLAVE_PORT_DATA d)"

text \<open>The port and the line of a controller for an interrupt line of the system.\<close>

definition pic_line :: "u8 \<Rightarrow> u16 \<times> u8" where
  "pic_line irqline = (if irqline \<ge> 8 then (PIC_SLAVE_PORT_DATA, irqline - 8) else (PIC_MASTER_PORT_DATA, irqline))"

definition pic8259_mask_irq_line :: "'d port_io \<Rightarrow> u8 \<Rightarrow> 'd \<Rightarrow> 'd" where
  "pic8259_mask_irq_line P irqline d =
     (let (port, line) = pic_line irqline;
          (m, d) = port_inb P port d
      in port_outb P (m OR push_bit (unat line) 1) port d)"

definition pic8259_unmask_irq_line :: "'d port_io \<Rightarrow> u8 \<Rightarrow> 'd \<Rightarrow> 'd" where
  "pic8259_unmask_irq_line P irqline d =
     (let (port, line) = pic_line irqline;
          (m, d) = port_inb P port d
      in port_outb P (m AND NOT (push_bit (unat line) 1)) port d)"

definition pic8259_set_mask :: "'d port_io \<Rightarrow> u8 \<Rightarrow> u8 \<Rightarrow> 'd \<Rightarrow> 'd" where
  "pic8259_set_mask P m pic d = port_outb P m (if pic = 0 then PIC_MASTER_PORT_DATA else PIC_SLAVE_PORT_DATA) d"

definition pic8259_get_isr :: "'d port_io \<Rightarrow> u8 \<Rightarrow> 'd \<Rightarrow> u8 \<times> 'd" where
  "pic8259_get_isr P pic d =
     (let port = (if pic = 0 then PIC_MASTER_PORT_COMMAND else PIC_SLAVE_PORT_COMMAND) in
      port_inb P port (port_outb P PIC_OWC3_READ_ISR port d))"

definition pic8259_get_irr :: "'d port_io \<Rightarrow> u8 \<Rightarrow> 'd \<Rightarrow> u8 \<times> 'd" where
  "pic8259_get_irr P pic d =
     (let port = (if pic = 0 then PIC_MASTER_PORT_COMMAND else PIC_SLAVE_PORT_COMMAND) in
      port_inb P port (port_outb P PIC_OWC3_READ_IRR port d))"

definition pic8259_signal_eoi :: "'d port_io \<Rightarrow> u8 \<Rightarrow> 'd \<Rightarrow> 'd" where
  "pic8259_signal_eoi P pic d =
     (if pic = 0 then port_outb P 0x20 PIC_MASTER_PORT_COMMAND d
      else port_outb P 0x20 PIC_SLAVE_PORT_COMMAND (port_outb P 0x20 PIC_MASTER_PORT_COMMAND d))"

definition pic8259_disable :: "'d port_io \<Rightarrow> u8 \<Rightarrow> 'd \<Rightarrow> 'd" where
  "pic8259_disable P pic d = port_outb P 0xFF (if pic = 0 then PIC_MASTER_PORT_DATA else PIC_SLAVE_PORT_DATA) d"

definition pic8259_get_pics_count :: u8 where "pic8259_get_pics_count = 2"

definition pic8259_get_mask :: "'d port_io \<Rightarrow> 'd \<Rightarrow> u16 \<times> 'd" where
  "pic8259_get_mask P d =
     (let (s, d) = port_inb P PIC_SLAVE_PORT_DATA d;
          (m, d) = port_inb P PIC_MASTER_PORT_DATA d
      in (push_bit 8 (ucast s) OR ucast m, d))"

definition interrupts_irq_done :: "'d port_io \<Rightarrow> 'd \<Rightarrow> 'd" where
  "interrupts_irq_done P d =
     (let (isr, d) = pic8259_get_isr P 1 d;
          d = (if isr \<noteq> 0 then pic8259_signal_eoi P 1 d else d)
      in pic8259_signal_eoi P 0 d)"

definition idt_is_irq_spurious :: "'d port_io \<Rightarrow> 'd \<Rightarrow> bool \<times> 'd" where
  "idt_is_irq_spurious P d =
     (let (isr1, d) = pic8259_get_isr P 0 d;
          (isr2, d) = pic8259_get_isr P 1 d
      in (isr1 = 0 \<and> isr2 = 0, d))"

section \<open>The reference controllers\<close>

text \<open>
  \<open>icw\<close> is the initialisation word the controller expects next, 1 when it is not being initialised.
\<close>

record pic8259 =
  icw :: nat
  icw1 :: u8
  vector_base :: u8
  cascade :: u8
  icw4 :: u8
  imr :: u8
  irr :: u8
  isr :: u8
  read_isr :: bool

text \<open>The lowest line in service has the highest priority; a nonspecific end of interrupt clears it.\<close>

definition clear_highest :: "u8 \<Rightarrow> u8" where
  "clear_highest x = x AND (x - 1)"

definition pic_command :: "u8 \<Rightarrow> pic8259 \<Rightarrow> pic8259" where
  "pic_command v u =
     (if bit v 4 then u\<lparr>icw := 2, icw1 := v, imr := 0, isr := 0, read_isr := False\<rparr>
      else if bit v 3 then (if bit v 1 then u\<lparr>read_isr := bit v 0\<rparr> else u)
      else if v AND 0xE0 = 0x20 then u\<lparr>isr := clear_highest (isr u)\<rparr>
      else u)"

definition pic_data :: "u8 \<Rightarrow> pic8259 \<Rightarrow> pic8259" where
  "pic_data v u =
     (if icw u = 2 then u\<lparr>vector_base := v AND 0xF8, icw := (if bit (icw1 u) 1 then (if bit (icw1 u) 0 then 4 else 1) else 3)\<rparr>
      else if icw u = 3 then u\<lparr>cascade := v, icw := (if bit (icw1 u) 0 then 4 else 1)\<rparr>
      else if icw u = 4 then u\<lparr>icw4 := v, icw := 1\<rparr>
      else u\<lparr>imr := v\<rparr>)"

type_synonym pics = "pic8259 \<times> pic8259"

definition pic_out :: "u8 \<Rightarrow> u16 \<Rightarrow> pics \<Rightarrow> pics" where
  "pic_out v p d =
     (if p = 0x20 then (pic_command v (fst d), snd d)
      else if p = 0x21 then (pic_data v (fst d), snd d)
      else if p = 0xA0 then (fst d, pic_command v (snd d))
      else if p = 0xA1 then (fst d, pic_data v (snd d))
      else d)"

definition pic_in :: "u16 \<Rightarrow> pics \<Rightarrow> u8" where
  "pic_in p d =
     (if p = 0x20 then (if read_isr (fst d) then isr (fst d) else irr (fst d))
      else if p = 0x21 then imr (fst d)
      else if p = 0xA0 then (if read_isr (snd d) then isr (snd d) else irr (snd d))
      else if p = 0xA1 then imr (snd d)
      else 0xFF)"

definition pic_io :: "pics port_io" where
  "pic_io = \<lparr>io_inb = (\<lambda>p d. (pic_in p d, d)), io_inw = (\<lambda>p d. (ucast (pic_in p d), d)), io_outb = pic_out,
     io_outw = (\<lambda>v p d. pic_out (ucast v) p d)\<rparr>"

section \<open>Properties\<close>

lemma pic_io_simps [simp]:
  "port_inb pic_io p d = (pic_in p d, d)" "port_outb pic_io v p d = pic_out v p d"
  by (simp_all add: port_inb_def port_outb_def pic_io_def)

lemma pic_ports_out [simp]:
  "pic_out v PIC_MASTER_PORT_COMMAND (m, s) = (pic_command v m, s)" "pic_out v PIC_MASTER_PORT_DATA (m, s) = (pic_data v m, s)"
  "pic_out v PIC_SLAVE_PORT_COMMAND (m, s) = (m, pic_command v s)" "pic_out v PIC_SLAVE_PORT_DATA (m, s) = (m, pic_data v s)"
  by (simp_all add: pic_out_def pic_ports)

lemma pic_ports_in [simp]:
  "pic_in PIC_MASTER_PORT_COMMAND (m, s) = (if read_isr m then isr m else irr m)" "pic_in PIC_MASTER_PORT_DATA (m, s) = imr m"
  "pic_in PIC_SLAVE_PORT_COMMAND (m, s) = (if read_isr s then isr s else irr s)" "pic_in PIC_SLAVE_PORT_DATA (m, s) = imr s"
  by (simp_all add: pic_in_def pic_ports)

lemma pic_init:
  "pic_data k (pic_data 1 (pic_data c (pic_data off (pic_command 0x11 u)))) =
     u\<lparr>icw := 1, icw1 := 0x11, imr := k, isr := 0, read_isr := False, vector_base := off AND 0xF8, cascade := c, icw4 := 1\<rparr>"
  by (simp add: pic_command_def pic_data_def)

text \<open>
  C0: the controllers are set up as intended: after \<open>pic8259_remap\<close> both are initialised, deliver their interrupts from
  the given vectors on, know how they are connected, work in 8086 mode, and have the masks they had before.
\<close>
theorem pic_remap_programs:
  "pic8259_remap pic_io mo so (m, s) =
    (m\<lparr>icw := 1, icw1 := 0x11, imr := imr m, isr := 0, read_isr := False, vector_base := mo AND 0xF8, cascade := 4, icw4 := 1\<rparr>,
     s\<lparr>icw := 1, icw1 := 0x11, imr := imr s, isr := 0, read_isr := False, vector_base := so AND 0xF8, cascade := 2, icw4 := 1\<rparr>)"
proof -
  have "PIC_ICW1_INIT OR PIC_ICW1_ICW4_NEEDED = 0x11" by (simp add: PIC_ICW1_INIT_def PIC_ICW1_ICW4_NEEDED_def)
  then show ?thesis by (simp add: pic8259_remap_def PIC_ICW4_8086_def pic_init)
qed

lemma get_isr: "pic8259_get_isr pic_io 0 (m, s) = (isr m, (m\<lparr>read_isr := True\<rparr>, s))"
    "pic8259_get_isr pic_io 1 (m, s) = (isr s, (m, s\<lparr>read_isr := True\<rparr>))"
proof -
  have "pic_command PIC_OWC3_READ_ISR u = u\<lparr>read_isr := True\<rparr>" for u
    by (simp add: pic_command_def PIC_OWC3_READ_ISR_def)
  then show "pic8259_get_isr pic_io 0 (m, s) = (isr m, (m\<lparr>read_isr := True\<rparr>, s))"
    "pic8259_get_isr pic_io 1 (m, s) = (isr s, (m, s\<lparr>read_isr := True\<rparr>))" by (simp_all add: pic8259_get_isr_def)
qed

lemma pic_eoi: "pic_command 0x20 u = u\<lparr>isr := clear_highest (isr u)\<rparr>"
  by (simp add: pic_command_def)

lemma clear_one: "clear_highest (push_bit k 1) = 0"
proof -
  have "push_bit k 1 - 1 = (mask k :: u8)" by (simp add: mask_eq_exp_minus_1 push_bit_of_1)
  then show ?thesis unfolding clear_highest_def by (intro bit_word_eqI) (auto simp: bit_simps)
qed

text \<open>
  C0: the end of an interrupt. With one line of the master in service and none of the slave, that line is released. With a line
  of the slave in service both its line and the cascade line of the master are released, but the second end of interrupt that
  the code sends to the master also releases the line of highest priority among the others in service there.
\<close>
theorem irq_done_releases:
  "interrupts_irq_done pic_io (m, s) =
     (if isr s = 0 then (m\<lparr>isr := clear_highest (isr m)\<rparr>, s\<lparr>read_isr := True\<rparr>)
      else (m\<lparr>isr := clear_highest (clear_highest (isr m))\<rparr>, s\<lparr>read_isr := True, isr := clear_highest (isr s)\<rparr>))"
  by (simp add: interrupts_irq_done_def get_isr pic8259_signal_eoi_def pic_eoi)

end
