(* ===== verification/X86.thy ===== *)
theory X86
  imports Prelude
begin

text \<open>
  The part of the processor that the assembly of the kernel uses: registers, the stack and a few instructions. Code is a
  list of instructions. The delivery of an interrupt is what the processor does according to its manual.
\<close>

section \<open>State\<close>

datatype reg = EAX | ECX | EDX | EBX | ESP | EBP | ESI | EDI
datatype sreg = CS | SS | DS | ES | FS | GS

record cpu =
  regs :: "reg \<Rightarrow> nat"
  sregs :: "sreg \<Rightarrow> nat"
  eip :: nat
  eflags :: nat
  ram :: memory

datatype instr =
    Push reg | PushImm nat | Pushf | Pop reg | Popf | Load nat reg reg | Store reg nat reg
  | MovImm16 nat reg | MovSeg reg sreg | AddImm nat reg | Cld | Leave | Iret

definition set_reg :: "reg \<Rightarrow> nat \<Rightarrow> cpu \<Rightarrow> cpu" where
  "set_reg r v c = c\<lparr>regs := (regs c)(r := v)\<rparr>"

definition push32 :: "nat \<Rightarrow> cpu \<Rightarrow> cpu" where
  "push32 v c = (let sp = sub32 (regs c ESP) 4 in c\<lparr>regs := (regs c)(ESP := sp), ram := write32 (ram c) sp v\<rparr>)"

definition top32 :: "cpu \<Rightarrow> nat" where
  "top32 c = read32 (ram c) (regs c ESP)"

definition drop32 :: "cpu \<Rightarrow> cpu" where
  "drop32 c = c\<lparr>regs := (regs c)(ESP := add32 (regs c ESP) 4)\<rparr>"

definition privilege :: "nat \<Rightarrow> nat" where
  "privilege sel = sel mod 4"

text \<open>A return to an outer ring takes the stack of that ring from the current one.\<close>

definition iret :: "cpu \<Rightarrow> cpu" where
  "iret c =
     (let c1 = drop32 c; c2 = drop32 c1; c3 = drop32 c2;
          r = c3\<lparr>eip := top32 c, sregs := (sregs c)(CS := top32 c1 mod 65536), eflags := top32 c2\<rparr> in
      if privilege (top32 c1) > privilege (sregs c CS) then
        let c4 = drop32 c3 in
        r\<lparr>regs := (regs c)(ESP := top32 c3), sregs := (sregs r)(SS := top32 c4 mod 65536)\<rparr>
      else r)"

text \<open>\<open>Leave\<close> is the near return.\<close>

fun step :: "instr \<Rightarrow> cpu \<Rightarrow> cpu" where
  "step (Push r) c = push32 (regs c r) c"
| "step (PushImm v) c = push32 v c"
| "step Pushf c = push32 (eflags c) c"
| "step (Pop r) c = set_reg r (top32 c) (drop32 c)"
| "step Popf c = (drop32 c)\<lparr>eflags := top32 c\<rparr>"
| "step (Load off base dst) c = set_reg dst (read32 (ram c) (add32 (regs c base) off)) c"
| "step (Store src off base) c = c\<lparr>ram := write32 (ram c) (add32 (regs c base) off) (regs c src)\<rparr>"
| "step (MovImm16 v r) c = set_reg r (regs c r div 65536 * 65536 + v mod 65536) c"
| "step (MovSeg r s) c = c\<lparr>sregs := (sregs c)(s := regs c r mod 65536)\<rparr>"
| "step (AddImm v r) c = set_reg r (add32 (regs c r) v) c"
| "step Cld c = c\<lparr>eflags := eflags c - eflags c div 1024 mod 2 * 1024\<rparr>"
| "step Leave c = (drop32 c)\<lparr>eip := top32 c\<rparr>"
| "step Iret c = iret c"

definition exec :: "instr list \<Rightarrow> cpu \<Rightarrow> cpu" where
  "exec code c = fold step code c"

text \<open>
  Delivery: from an outer ring the stack switches to the one in the task state segment; the flags, the code segment, the
  instruction pointer and, for some vectors, an error code are pushed. An interrupt gate clears the interrupt flag.
\<close>

definition clear_if :: "nat \<Rightarrow> nat" where
  "clear_if f = f - f div 512 mod 2 * 512"

definition deliver :: "nat \<Rightarrow> nat \<Rightarrow> nat \<Rightarrow> bool \<Rightarrow> nat option \<Rightarrow> nat \<Rightarrow> cpu \<Rightarrow> cpu" where
  "deliver ss0 esp0 kcs int_gate code handler c =
     (let outer = privilege (sregs c CS) > privilege kcs;
          c1 = (if outer then push32 (regs c ESP) (push32 (sregs c SS) (c\<lparr>regs := (regs c)(ESP := esp0), sregs := (sregs c)(SS := ss0)\<rparr>)) else c);
          c2 = push32 (eip c) (push32 (sregs c CS) (push32 (eflags c) c1));
          c3 = (case code of None \<Rightarrow> c2 | Some e \<Rightarrow> push32 e c2)
      in c3\<lparr>eip := handler, sregs := (sregs c3)(CS := kcs), eflags := (if int_gate then clear_if (eflags c) else eflags c)\<rparr>)"

section \<open>Stack arithmetic\<close>

named_theorems cpu_simps \<open>single steps of the processor\<close>

text \<open>A state by its registers, flags, instruction pointer and memory; a step changes each of them once.\<close>

definition cpu_at :: "cpu \<Rightarrow> (reg \<Rightarrow> nat) \<Rightarrow> (sreg \<Rightarrow> nat) \<Rightarrow> nat \<Rightarrow> nat \<Rightarrow> memory \<Rightarrow> cpu" where
  "cpu_at c R S I F M = c\<lparr>regs := R, sregs := S, eip := I, eflags := F, ram := M\<rparr>"

lemma cpu_at_self: "c = cpu_at c (regs c) (sregs c) (eip c) (eflags c) (ram c)"
  by (simp add: cpu_at_def)

lemma cpu_at_fields [cpu_simps]:
  "regs (cpu_at c R S I F M) = R" "sregs (cpu_at c R S I F M) = S" "eip (cpu_at c R S I F M) = I"
  "eflags (cpu_at c R S I F M) = F" "ram (cpu_at c R S I F M) = M"
  by (simp_all add: cpu_at_def)

lemma step_at [cpu_simps]:
  "step (Push r) (cpu_at c R S I F M) = cpu_at c (R(ESP := sub32 (R ESP) 4)) S I F (write32 M (sub32 (R ESP) 4) (R r))"
  "step (PushImm v) (cpu_at c R S I F M) = cpu_at c (R(ESP := sub32 (R ESP) 4)) S I F (write32 M (sub32 (R ESP) 4) v)"
  "step Pushf (cpu_at c R S I F M) = cpu_at c (R(ESP := sub32 (R ESP) 4)) S I F (write32 M (sub32 (R ESP) 4) F)"
  "step (Pop r) (cpu_at c R S I F M) = cpu_at c (R(ESP := add32 (R ESP) 4, r := read32 M (R ESP))) S I F M"
  "step Popf (cpu_at c R S I F M) = cpu_at c (R(ESP := add32 (R ESP) 4)) S I (read32 M (R ESP)) M"
  "step (Load off b r) (cpu_at c R S I F M) = cpu_at c (R(r := read32 M (add32 (R b) off))) S I F M"
  "step (Store r off b) (cpu_at c R S I F M) = cpu_at c R S I F (write32 M (add32 (R b) off) (R r))"
  "step (MovImm16 v r) (cpu_at c R S I F M) = cpu_at c (R(r := R r div 65536 * 65536 + v mod 65536)) S I F M"
  "step (MovSeg r s) (cpu_at c R S I F M) = cpu_at c R (S(s := R r mod 65536)) I F M"
  "step (AddImm v r) (cpu_at c R S I F M) = cpu_at c (R(r := add32 (R r) v)) S I F M"
  "step Cld (cpu_at c R S I F M) = cpu_at c R S I (F - F div 1024 mod 2 * 1024) M"
  "step Leave (cpu_at c R S I F M) = cpu_at c (R(ESP := add32 (R ESP) 4)) S (read32 M (R ESP)) F M"
  by (simp_all add: step.simps cpu_at_def push32_def set_reg_def drop32_def top32_def Let_def)

lemma iret_at [cpu_simps]:
  "step Iret (cpu_at c R S I F M) =
     (let sp = R ESP; sel = read32 M (add32 sp 4) mod 65536 in
      if privilege (read32 M (add32 sp 4)) > privilege (S CS) then
        cpu_at c (R(ESP := read32 M (add32 (add32 (add32 sp 4) 4) 4)))
          (S(CS := sel, SS := read32 M (add32 (add32 (add32 (add32 sp 4) 4) 4) 4) mod 65536)) (read32 M sp) (read32 M (add32 (add32 sp 4) 4)) M
      else cpu_at c (R(ESP := add32 (add32 (add32 sp 4) 4) 4)) (S(CS := sel)) (read32 M sp) (read32 M (add32 (add32 sp 4) 4)) M)"
  by (simp add: step.simps iret_def cpu_at_def drop32_def top32_def Let_def)

declare step.simps [simp del]

lemma exec_Nil [simp]: "exec [] c = c" and exec_Cons [simp]: "exec (i # is) c = exec is (step i c)"
  and exec_append: "exec (xs @ ys) c = exec ys (exec xs c)"
  by (simp_all add: exec_def)

text \<open>A stack pointer that stays far enough away from the ends of the address space.\<close>

lemma sub32_down [simp]: "k \<le> sp \<Longrightarrow> sp < W32 \<Longrightarrow> sub32 sp k = sp - k"
  by (rule sub32_exact)

lemma add32_up: "sp + k < W32 \<Longrightarrow> add32 sp k = sp + k"
  by (rule add32_exact)

end
