(* ===== verification/Switch.thy ===== *)
theory Switch
  imports X86
begin

text \<open>
  Switching between tasks, \<^verbatim>\<open>arch/x86/task.c\<close>, and entering user mode, the end of \<^verbatim>\<open>arch/x86/user/user32.S\<close>, as
  instructions of the processor.
\<close>

section \<open>Code\<close>

definition task_switch_code :: "instr list" where
  "task_switch_code =
     [Push EBX, Push ESI, Push EDI, Push EBP, Pushf,
      Load 0x18 ESP EBX, Store ESP 0 EBX,
      Load 0x1C ESP EBX, Load 0 EBX ESP,
      Popf, Pop EBP, Pop EDI, Pop ESI, Pop EBX, Leave]"

definition GDT_KERNEL_CS :: nat where "GDT_KERNEL_CS = 0x8"
definition GDT_KERNEL_DS :: nat where "GDT_KERNEL_DS = 0x10"
definition GDT_USER_CS :: nat where "GDT_USER_CS = 0x18"
definition GDT_USER_DS :: nat where "GDT_USER_DS = 0x20"
definition GDT_TSS :: nat where "GDT_TSS = 0x28"

definition user_enter_code :: "instr list" where
  "user_enter_code =
     [Load 4 ESP EBX, Load 8 ESP ECX,
      MovImm16 (GDT_USER_DS + 3) EAX, MovSeg EAX DS, MovSeg EAX ES, MovSeg EAX FS, MovSeg EAX GS,
      Push EAX, Push ECX, Pushf, PushImm (GDT_USER_CS + 3), Push EBX, Iret]"

section \<open>Saving and restoring a context\<close>

definition cpu_ok :: "cpu \<Rightarrow> bool" where
  "cpu_ok c \<longleftrightarrow> (\<forall>r. regs c r < W32) \<and> eip c < W32 \<and> eflags c < W32"

text \<open>What \<open>task_switch\<close> leaves for the task that it stops: its registers below the stack pointer and that pointer in its context.\<close>

definition saved :: "memory \<Rightarrow> addr \<Rightarrow> cpu \<Rightarrow> bool" where
  "saved m ctx c \<longleftrightarrow> (let sp = regs c ESP - 20 in
     read32 m ctx = sp \<and> read32 m sp = eflags c \<and> read32 m (sp + 4) = regs c EBP \<and> read32 m (sp + 8) = regs c EDI \<and>
     read32 m (sp + 12) = regs c ESI \<and> read32 m (sp + 16) = regs c EBX \<and> read32 m (sp + 20) = read32 (ram c) (regs c ESP))"

definition apart :: "addr \<Rightarrow> addr \<Rightarrow> nat \<Rightarrow> bool" where
  "apart ctx a n \<longleftrightarrow> ctx + 4 \<le> a \<or> a + n \<le> ctx"

definition save_code :: "instr list" where "save_code = take 7 task_switch_code"
definition load_code :: "instr list" where "load_code = drop 7 task_switch_code"

lemma switch_split: "exec task_switch_code c = exec load_code (exec save_code c)"
  by (simp add: save_code_def load_code_def flip: exec_append)

text \<open>The memory after the first half.\<close>

definition save_mem :: "memory \<Rightarrow> nat \<Rightarrow> addr \<Rightarrow> (reg \<Rightarrow> nat) \<Rightarrow> nat \<Rightarrow> memory" where
  "save_mem M s prev R F =
     write32 (write32 (write32 (write32 (write32 (write32 M (s + 16) (R EBX)) (s + 12) (R ESI)) (s + 8) (R EDI)) (s + 4) (R EBP)) s F) prev s"

lemma save_phase:
  assumes sp: "regs c ESP = s + 20" "s + 64 < W32"
    and args: "read32 (ram c) (s + 24) = prev" "prev < W32"
  shows "exec save_code c = cpu_at c ((regs c)(ESP := s, EBX := prev)) (sregs c) (eip c) (eflags c) (save_mem (ram c) s prev (regs c) (eflags c))"
proof -
  have "exec save_code (cpu_at c (regs c) (sregs c) (eip c) (eflags c) (ram c)) =
      cpu_at c ((regs c)(ESP := s, EBX := prev)) (sregs c) (eip c) (eflags c) (save_mem (ram c) s prev (regs c) (eflags c))"
    using sp args
    by (simp add: save_code_def task_switch_code_def cpu_simps add32_up read32_write32_other save_mem_def fun_upd_twist ac_simps)
  then show ?thesis unfolding cpu_at_self [symmetric] .
qed

lemma save_mem_reads:
  assumes "apart prev s 32"
  shows "read32 (save_mem M s prev R F) s = F mod W32" "read32 (save_mem M s prev R F) (s + 4) = R EBP mod W32"
    "read32 (save_mem M s prev R F) (s + 8) = R EDI mod W32" "read32 (save_mem M s prev R F) (s + 12) = R ESI mod W32"
    "read32 (save_mem M s prev R F) (s + 16) = R EBX mod W32" "read32 (save_mem M s prev R F) (s + 20) = read32 M (s + 20)"
    "read32 (save_mem M s prev R F) (s + 28) = read32 M (s + 28)" "read32 (save_mem M s prev R F) prev = s mod W32"
proof -
  have p: "prev + 4 \<le> s + k \<or> s + k + 4 \<le> prev" if "k \<le> 28" for k using assms that by (auto simp: apart_def)
  note p0 = p [of 0, simplified]
  show "read32 (save_mem M s prev R F) s = F mod W32" using p0 by (simp add: save_mem_def read32_write32_other read32_write32_same)
  show "read32 (save_mem M s prev R F) (s + 4) = R EBP mod W32" using p [of 4] by (simp add: save_mem_def read32_write32_other read32_write32_same)
  show "read32 (save_mem M s prev R F) (s + 8) = R EDI mod W32" using p [of 8] by (simp add: save_mem_def read32_write32_other read32_write32_same)
  show "read32 (save_mem M s prev R F) (s + 12) = R ESI mod W32" using p [of 12] by (simp add: save_mem_def read32_write32_other read32_write32_same)
  show "read32 (save_mem M s prev R F) (s + 16) = R EBX mod W32" using p [of 16] by (simp add: save_mem_def read32_write32_other read32_write32_same)
  show "read32 (save_mem M s prev R F) (s + 20) = read32 M (s + 20)" using p [of 20] by (simp add: save_mem_def read32_write32_other)
  show "read32 (save_mem M s prev R F) (s + 28) = read32 M (s + 28)" using p [of 28] by (simp add: save_mem_def read32_write32_other)
  show "read32 (save_mem M s prev R F) prev = s mod W32" by (simp add: save_mem_def read32_write32_same)
qed

text \<open>The second half, from the context of the next task.\<close>

lemma load_phase:
  assumes nxt: "read32 M (R ESP + 28) = nxt" "R ESP + 32 < W32" "nxt < W32" and n: "read32 M nxt = n" "n + 32 < W32"
  shows "exec load_code (cpu_at c R S I F M) =
    cpu_at c (R(EBP := read32 M (n + 4), EDI := read32 M (n + 8), ESI := read32 M (n + 12), EBX := read32 M (n + 16), ESP := n + 24))
      S (read32 M (n + 20)) (read32 M n) M"
  using assms by (simp add: load_code_def task_switch_code_def cpu_simps add32_up ac_simps)

lemma switch_memory: "ram (exec task_switch_code c) = ram (exec save_code c)"
proof -
  have "ram (exec load_code (cpu_at x (regs x) (sregs x) (eip x) (eflags x) (ram x))) = ram x" for x
    by (simp add: load_code_def task_switch_code_def cpu_simps)
  then show ?thesis unfolding switch_split cpu_at_self [symmetric] .
qed

text \<open>
  C35: a task that \<open>task_switch\<close> stopped continues where it was. When, after a switch from the task of \<open>prev\<close>, any code has run that leaves the saved
  words on its stack and its context as they are, and then switches to \<open>prev\<close>, the processor returns from the first call:
  with its stack pointer, the registers a caller relies on and its flags.
\<close>
theorem task_switch_resumes:
  assumes c: "cpu_ok c" "regs c ESP = s + 20" "s + 64 < W32" "read32 (ram c) (s + 24) = prev" "apart prev s 32" "prev < W32"
    and d: "regs d ESP = t + 20" "t + 64 < W32" "read32 (ram d) (t + 24) = other" "read32 (ram d) (t + 28) = prev" "other < W32"
    and kept: "\<forall>a. s \<le> a \<and> a < s + 24 \<or> prev \<le> a \<and> a < prev + 4 \<longrightarrow> ram d a = ram (exec task_switch_code c) a"
    and free: "apart other s 24" "apart other prev 4" "apart other t 32" "t + 20 \<le> s \<or> s + 24 \<le> t" "apart prev t 20"
  shows "let r = exec task_switch_code d in
    regs r ESP = regs c ESP + 4 \<and> eip r = read32 (ram c) (regs c ESP) \<and> eflags r = eflags c \<and>
    regs r EBX = regs c EBX \<and> regs r ESI = regs c ESI \<and> regs r EDI = regs c EDI \<and> regs r EBP = regs c EBP"
proof -
  let ?M = "save_mem (ram d) t other (regs d) (eflags d)"
  have sc: "ram (exec task_switch_code c) = save_mem (ram c) s prev (regs c) (eflags c)"
    using save_phase [OF c(2-4,6)] by (simp add: switch_memory cpu_simps)
  have m: "?M a = ram d a" if "s \<le> a \<and> a < s + 24 \<or> prev \<le> a \<and> a < prev + 4" for a
    using that free by (auto simp: save_mem_def apart_def write32_other)
  have w: "read32 ?M a = read32 (save_mem (ram c) s prev (regs c) (eflags c)) a" if "s \<le> a \<and> a + 4 \<le> s + 24 \<or> a = prev" for a
    by (rule read32_cong) (use that m kept sc in auto)
  note rd = save_mem_reads [OF c(5)]
  have lt: "regs c r < W32" "eflags c < W32" for r using c(1) by (simp_all add: cpu_ok_def)
  have vals: "read32 ?M prev = s" "read32 ?M s = eflags c" "read32 ?M (s + 4) = regs c EBP" "read32 ?M (s + 8) = regs c EDI"
    "read32 ?M (s + 12) = regs c ESI" "read32 ?M (s + 16) = regs c EBX" "read32 ?M (s + 20) = read32 (ram c) (s + 20)"
    using w [of prev] w [of s] w [of "s + 4"] w [of "s + 8"] w [of "s + 12"] w [of "s + 16"] w [of "s + 20"] rd lt c(3)
    by simp_all
  have nxt: "read32 ?M (t + 28) = prev" using save_mem_reads(7) [OF free(3)] d(4) by simp
  have "exec task_switch_code d = cpu_at d (((regs d)(ESP := t, EBX := other))(EBP := read32 ?M (s + 4), EDI := read32 ?M (s + 8),
      ESI := read32 ?M (s + 12), EBX := read32 ?M (s + 16), ESP := s + 24)) (sregs d) (read32 ?M (s + 20)) (read32 ?M s) ?M"
    unfolding switch_split save_phase [OF d(1-3,5)]
    by (rule load_phase [where nxt = prev]) (use nxt c(3,6) d(2) vals(1) in simp_all)
  then show ?thesis unfolding vals c(2) by (simp add: cpu_simps)
qed

text \<open>A task at 1000 is stopped, another one at 9000 switches back to it.\<close>

definition demo_task :: cpu where
  "demo_task = \<lparr>regs = (\<lambda>_. 7)(ESP := 1020, EBX := 11, EBP := 12), sregs = (\<lambda>_. 0x10), eip = 0, eflags = 0x202,
     ram = write32 (write32 (write32 (\<lambda>_. 0) 1020 0x1234) 1024 5000) 1028 5004\<rparr>"

definition demo_other :: cpu where
  "demo_other = \<lparr>regs = (\<lambda>_. 1)(ESP := 9020), sregs = (\<lambda>_. 0x10), eip = 0, eflags = 2,
     ram = write32 (write32 (ram (exec task_switch_code demo_task)) 9024 5004) 9028 5000\<rparr>"

theorem task_switch_resumes_witness:
  "eip (exec task_switch_code demo_other) = 0x1234 \<and> regs (exec task_switch_code demo_other) ESP = 1024 \<and>
   regs (exec task_switch_code demo_other) EBX = 11 \<and> eflags (exec task_switch_code demo_other) = 0x202"
proof -
  have f: "regs demo_task = (\<lambda>_. 7)(ESP := 1020, EBX := 11, EBP := 12)" "eip demo_task = 0" "eflags demo_task = 0x202"
    "read32 (ram demo_task) 1020 = 0x1234" "read32 (ram demo_task) 1024 = 5000"
    by (simp_all add: demo_task_def mem_simps)
  have g: "regs demo_other ESP = 9020" "read32 (ram demo_other) 9024 = 5004" "read32 (ram demo_other) 9028 = 5000"
    by (simp_all add: demo_other_def mem_simps)
  have "let r = exec task_switch_code demo_other in
    regs r ESP = regs demo_task ESP + 4 \<and> eip r = read32 (ram demo_task) (regs demo_task ESP) \<and> eflags r = eflags demo_task \<and>
    regs r EBX = regs demo_task EBX \<and> regs r ESI = regs demo_task ESI \<and> regs r EDI = regs demo_task EDI \<and> regs r EBP = regs demo_task EBP"
    by (rule task_switch_resumes [where s = 1000 and prev = 5000 and t = 9000 and other = 5004])
      (simp_all add: f g cpu_ok_def apart_def, simp add: demo_other_def write32_other)
  then show ?thesis by (simp add: f Let_def)
qed

section \<open>Entering user mode\<close>

lemma user_enter_run:
  assumes sp: "regs c ESP = s + 20" "s + 64 < W32" and sel: "sel < 65536" "csel < 65536" "privilege csel > privilege (sregs c CS)"
    and f: "eflags c < W32" "regs c EAX < W32"
  shows "\<exists>R M. exec [Load 4 ESP EBX, Load 8 ESP ECX, MovImm16 sel EAX, MovSeg EAX DS, MovSeg EAX ES, MovSeg EAX FS, MovSeg EAX GS,
      Push EAX, Push ECX, Pushf, PushImm csel, Push EBX, Iret] c =
    cpu_at c (R(ESP := read32 (ram c) (s + 28))) ((sregs c)(DS := sel, ES := sel, FS := sel, GS := sel, CS := csel, SS := sel))
      (read32 (ram c) (s + 24)) (eflags c) M \<and> (\<forall>a. s + 20 \<le> a \<longrightarrow> M a = ram c a)"
proof -
  let ?ip = "read32 (ram c) (s + 24)" and ?sp = "read32 (ram c) (s + 28)" and ?ax = "regs c EAX div 65536 * 65536 + sel"
  let ?M = "write32 (write32 (write32 (write32 (write32 (ram c) (s + 16) ?ax) (s + 12) ?sp) (s + 8) (eflags c)) (s + 4) csel) s ?ip"
  have ax: "?ax mod 65536 = sel" using sel(1) by simp
  have "regs c EAX div 65536 < 65536" using f(2) by (simp add: less_mult_imp_div_less)
  then have "?ax < W32" using sel(1) by linarith
  then have M: "read32 ?M s = ?ip" "read32 ?M (s + 4) = csel" "read32 ?M (s + 8) = eflags c" "read32 ?M (s + 12) = ?sp" "read32 ?M (s + 16) = ?ax"
    using f sel by (simp_all add: mem_simps)
  have "exec [Load 4 ESP EBX, Load 8 ESP ECX, MovImm16 sel EAX, MovSeg EAX DS, MovSeg EAX ES, MovSeg EAX FS, MovSeg EAX GS,
      Push EAX, Push ECX, Pushf, PushImm csel, Push EBX] (cpu_at c (regs c) (sregs c) (eip c) (eflags c) (ram c)) =
    cpu_at c ((regs c)(EBX := ?ip, ECX := ?sp, EAX := ?ax, ESP := s)) ((sregs c)(DS := sel, ES := sel, FS := sel, GS := sel)) (eip c) (eflags c) ?M"
    using sp sel(1) ax by (simp add: cpu_simps add32_up ac_simps fun_upd_twist)
  then have "exec [Load 4 ESP EBX, Load 8 ESP ECX, MovImm16 sel EAX, MovSeg EAX DS, MovSeg EAX ES, MovSeg EAX FS, MovSeg EAX GS,
      Push EAX, Push ECX, Pushf, PushImm csel, Push EBX, Iret] c =
    step Iret (cpu_at c ((regs c)(EBX := ?ip, ECX := ?sp, EAX := ?ax, ESP := s)) ((sregs c)(DS := sel, ES := sel, FS := sel, GS := sel)) (eip c) (eflags c) ?M)"
    unfolding cpu_at_self [symmetric] by simp
  also have "\<dots> = cpu_at c ((regs c)(EBX := ?ip, ECX := ?sp, EAX := ?ax, ESP := ?sp))
      ((sregs c)(DS := sel, ES := sel, FS := sel, GS := sel, CS := csel, SS := sel)) ?ip (eflags c) ?M"
    unfolding iret_at Let_def using sp(2) sel M ax by (simp add: add32_up add.commute)
  finally show ?thesis using sp(2) by (intro exI conjI) (assumption, simp add: write32_other)
qed

text \<open>
  C0: \<open>user_enter_arch\<close> leaves the kernel for the given instruction and stack pointer: the processor is then in ring 3 with
  the user segments in all segment registers and the flags it had, and only the stack of the kernel has been written.
\<close>
theorem user_enter_ring3:
  assumes "cpu_ok c" and "regs c ESP = s + 20" "s + 64 < W32" and "sregs c CS = GDT_KERNEL_CS"
  shows "let r = exec user_enter_code c in
    eip r = read32 (ram c) (regs c ESP + 4) \<and> regs r ESP = read32 (ram c) (regs c ESP + 8) \<and> eflags r = eflags c \<and>
    privilege (sregs r CS) = 3 \<and> (\<forall>x. x \<noteq> CS \<longrightarrow> sregs r x = GDT_USER_DS + 3) \<and>
    (\<forall>a. s + 20 \<le> a \<longrightarrow> ram r a = ram c a)"
proof -
  let ?sel = "GDT_USER_DS + 3"
  have sel: "?sel < 65536" "GDT_USER_CS + 3 < 65536" "privilege (GDT_USER_CS + 3) = 3" "privilege (sregs c CS) = 0"
    by (simp_all add: assms(4) GDT_USER_DS_def GDT_USER_CS_def GDT_KERNEL_CS_def privilege_def)
  obtain R M where r: "exec user_enter_code c = cpu_at c (R(ESP := read32 (ram c) (s + 28)))
      ((sregs c)(DS := ?sel, ES := ?sel, FS := ?sel, GS := ?sel, CS := GDT_USER_CS + 3, SS := ?sel)) (read32 (ram c) (s + 24)) (eflags c) M"
    "\<forall>a. s + 20 \<le> a \<longrightarrow> M a = ram c a"
    using user_enter_run [OF assms(2,3) sel(1,2)] sel(3,4) assms(1) unfolding user_enter_code_def cpu_ok_def by auto
  have "((sregs c)(DS := ?sel, ES := ?sel, FS := ?sel, GS := ?sel, CS := GDT_USER_CS + 3, SS := ?sel)) x = ?sel" if "x \<noteq> CS" for x
    using that by (cases x) simp_all
  then show ?thesis unfolding r(1) Let_def cpu_at_fields using assms(2) sel(3) r(2) by (simp add: add.commute)
qed


definition demo_kernel :: cpu where
  "demo_kernel = \<lparr>regs = (\<lambda>_. 7)(ESP := 1020), sregs = (\<lambda>_. 0x10)(CS := GDT_KERNEL_CS), eip = 0, eflags = 0x202,
     ram = write32 (write32 (\<lambda>_. 0) 1024 0x8048000) 1028 0xBFFFF000\<rparr>"

theorem user_enter_ring3_witness:
  "eip (exec user_enter_code demo_kernel) = 0x8048000 \<and> regs (exec user_enter_code demo_kernel) ESP = 0xBFFFF000 \<and>
   privilege (sregs (exec user_enter_code demo_kernel) CS) = 3"
proof -
  have f: "cpu_ok demo_kernel" "regs demo_kernel ESP = 1000 + 20" "sregs demo_kernel CS = GDT_KERNEL_CS"
    "read32 (ram demo_kernel) 1024 = 0x8048000" "read32 (ram demo_kernel) 1028 = 0xBFFFF000"
    by (simp_all add: demo_kernel_def cpu_ok_def mem_simps)
  from user_enter_ring3 [OF f(1,2) _ f(3)] show ?thesis by (simp add: Let_def f(2,4,5))
qed

end
