(* ===== verification/Idt.thy ===== *)
theory Idt
  imports Pic Switch
begin

text \<open>
  Interrupts: the descriptor table and the entry code of \<^verbatim>\<open>arch/x86/int/idt.c\<close>, the handlers of
  \<^verbatim>\<open>arch/x86/int/exceptions.c\<close>, \<^verbatim>\<open>arch/x86/int/interrupts.c\<close> and the system calls of \<^verbatim>\<open>arch/x86/syscalls.c\<close> and
  \<^verbatim>\<open>kernel/syscalls/syscalls.c\<close>. The entry points \<open>int0\<close> to \<open>int255\<close> are a function from the vector to the address.
\<close>

section \<open>State\<close>

datatype x86isr =
    Stub_trap | Stub_irq
  | Divbyzero_isr | Debug_isr | Breakpoint_isr | Overflow_isr | Boundrange_exceeded_isr | Invalid_opcode_isr
  | Fpu_not_available_isr | Double_fault_isr | Invalid_tss_isr | Segment_absent_isr | Stack_seg_fault
  | General_prot_fault_isr | Pagefault_stub_isr | X87floating_point_err_isr | Alignment_check_isr | Machine_check_isr
  | Simdfloating_point_err_isr | Virt_err_isr | Control_prot_isr | Hypervisor_injection_exception_isr
  | Vmm_comm_exception_isr | Security_err_isr
  | Registered_isr nat

record IDTEntry =
  base_0_15 :: u16
  idt_selector :: u16
  idt_unused :: u8
  idt_type :: "5 word"
  idt_privilege :: "2 word"
  idt_present :: bool
  base_16_31 :: u16

record 'd idt_state =
  g_isrs :: "x86isr option list"
  g_idt :: "IDTEntry list"
  g_isr_offset :: u8
  idtr_limit :: u16
  irqs_enabled :: bool
  idt_ports :: 'd

definition zero_idte :: IDTEntry where
  "zero_idte = \<lparr>base_0_15 = 0, idt_selector = 0, idt_unused = 0, idt_type = 0, idt_privilege = 0, idt_present = False, base_16_31 = 0\<rparr>"

definition idt_boot :: "'d \<Rightarrow> 'd idt_state" where
  "idt_boot d = \<lparr>g_isrs = replicate 256 None, g_idt = replicate 256 zero_idte, g_isr_offset = 0, idtr_limit = 0,
     irqs_enabled = False, idt_ports = d\<rparr>"

section \<open>Gates\<close>

definition IDT_INT32_GATE :: u8 where "IDT_INT32_GATE = 0xE"
definition IDT_TRAP32_GATE :: u8 where "IDT_TRAP32_GATE = 0xF"
definition IDT_PRIVL0 :: u8 where "IDT_PRIVL0 = 0"
definition IDT_PRIVL3 :: u8 where "IDT_PRIVL3 = push_bit 5 3"
definition IDT_INT_PRESENT :: u8 where "IDT_INT_PRESENT = push_bit 7 1"

definition idt_encode_flags :: "u16 \<Rightarrow> u8 \<Rightarrow> IDTEntry \<Rightarrow> IDTEntry" where
  "idt_encode_flags selector flags e =
     e\<lparr>idt_selector := selector, idt_type := ucast (flags AND 31), idt_privilege := ucast (drop_bit 5 (flags AND 0x60)),
       idt_present := (flags AND push_bit 7 1 \<noteq> 0)\<rparr>"

definition idt_encode_entry :: "u32 \<Rightarrow> u16 \<Rightarrow> u8 \<Rightarrow> IDTEntry \<Rightarrow> IDTEntry" where
  "idt_encode_entry base selector flags e =
     e\<lparr>base_0_15 := ucast (base AND 0xFFFF), base_16_31 := ucast (drop_bit 16 (base AND 0xFFFF0000)), idt_selector := selector,
       idt_unused := 0, idt_type := ucast (flags AND 31), idt_privilege := ucast (drop_bit 5 (flags AND 0x60)),
       idt_present := (flags AND push_bit 7 1 \<noteq> 0)\<rparr>"

definition idt_encode_absent :: "u32 \<Rightarrow> IDTEntry \<Rightarrow> IDTEntry" where
  "idt_encode_absent base e =
     e\<lparr>base_0_15 := ucast (base AND 0xFFFF), base_16_31 := ucast (drop_bit 16 (base AND 0xFFFF0000)), idt_unused := 0, idt_present := False\<rparr>"

definition set_gate :: "nat \<Rightarrow> (IDTEntry \<Rightarrow> IDTEntry) \<Rightarrow> 'd idt_state \<Rightarrow> 'd idt_state" where
  "set_gate n f s = s\<lparr>g_idt := (g_idt s)[n := f (g_idt s ! n)]\<rparr>"

definition set_isr :: "nat \<Rightarrow> x86isr option \<Rightarrow> 'd idt_state \<Rightarrow> 'd idt_state" where
  "set_isr n cb s = s\<lparr>g_isrs := (g_isrs s)[n := cb]\<rparr>"

definition idt_register_trap_isr :: "u8 \<Rightarrow> u8 \<Rightarrow> x86isr option \<Rightarrow> 'd idt_state \<Rightarrow> int \<times> 'd idt_state" where
  "idt_register_trap_isr n ring cb s =
     (if ring \<noteq> 0 \<and> ring \<noteq> 3 then (-1, s)
      else
        let flags = IDT_TRAP32_GATE OR IDT_INT_PRESENT OR (if ring = 0 then IDT_PRIVL0 else IDT_PRIVL3) in
        (0, set_gate (unat n) (idt_encode_flags (of_nat GDT_KERNEL_CS) flags) (set_isr (unat n) cb s)))"

definition idt_register_irq_isr :: "u8 \<Rightarrow> x86isr option \<Rightarrow> 'd idt_state \<Rightarrow> int \<times> 'd idt_state" where
  "idt_register_irq_isr n cb s =
     (0, set_gate (unat n) (idt_encode_flags (of_nat GDT_KERNEL_CS) (IDT_INT32_GATE OR IDT_INT_PRESENT OR IDT_PRIVL0)) (set_isr (unat n) cb s))"

definition interrupts_reqister_irq_isr :: "u8 \<Rightarrow> x86isr option \<Rightarrow> 'd idt_state \<Rightarrow> int \<times> 'd idt_state" where
  "interrupts_reqister_irq_isr n cb s = idt_register_irq_isr n cb s"

definition interrupts_reqister_trap_isr :: "u8 \<Rightarrow> u8 \<Rightarrow> x86isr option \<Rightarrow> 'd idt_state \<Rightarrow> int \<times> 'd idt_state" where
  "interrupts_reqister_trap_isr n ring cb s = idt_register_trap_isr n ring cb s"

section \<open>Exceptions\<close>

definition exception_handlers :: "(u8 \<times> x86isr) list" where
  "exception_handlers =
     [(0x0, Divbyzero_isr), (0x1, Debug_isr), (0x3, Breakpoint_isr), (0x4, Overflow_isr), (0x5, Boundrange_exceeded_isr),
      (0x6, Invalid_opcode_isr), (0x7, Fpu_not_available_isr), (0x8, Double_fault_isr), (0xA, Invalid_tss_isr),
      (0xB, Segment_absent_isr), (0xC, Stack_seg_fault), (0xD, General_prot_fault_isr), (0xE, Pagefault_stub_isr),
      (0x10, X87floating_point_err_isr), (0x11, Alignment_check_isr), (0x12, Machine_check_isr),
      (0x13, Simdfloating_point_err_isr), (0x14, Virt_err_isr), (0x15, Control_prot_isr),
      (0x1C, Hypervisor_injection_exception_isr), (0x1D, Vmm_comm_exception_isr), (0x1E, Security_err_isr)]"

definition exceptions_set_up_common_handlers :: "'d idt_state \<Rightarrow> 'd idt_state" where
  "exceptions_set_up_common_handlers s = fold (\<lambda>(n, cb) s. snd (idt_register_trap_isr n 0 (Some cb) s)) exception_handlers s"

text \<open>What a handler does: it panics, or returns and has logged a warning or not. A general protection fault never returns.\<close>

fun exception_isr :: "x86isr \<Rightarrow> bool outcome option" where
  "exception_isr Stub_trap = Some (Ret False)"
| "exception_isr Divbyzero_isr = Some Panic"
| "exception_isr Debug_isr = Some (Ret True)"
| "exception_isr Breakpoint_isr = Some (Ret True)"
| "exception_isr Overflow_isr = Some (Ret True)"
| "exception_isr Boundrange_exceeded_isr = Some Panic"
| "exception_isr Invalid_opcode_isr = Some Panic"
| "exception_isr Fpu_not_available_isr = Some Panic"
| "exception_isr Double_fault_isr = Some Panic"
| "exception_isr Invalid_tss_isr = Some Panic"
| "exception_isr Segment_absent_isr = Some Panic"
| "exception_isr Stack_seg_fault = Some Panic"
| "exception_isr General_prot_fault_isr = Some Panic"
| "exception_isr Pagefault_stub_isr = Some Panic"
| "exception_isr X87floating_point_err_isr = Some Panic"
| "exception_isr Alignment_check_isr = Some Panic"
| "exception_isr Machine_check_isr = Some Panic"
| "exception_isr Simdfloating_point_err_isr = Some Panic"
| "exception_isr Virt_err_isr = Some Panic"
| "exception_isr Control_prot_isr = Some (Ret True)"
| "exception_isr Hypervisor_injection_exception_isr = Some (Ret True)"
| "exception_isr Vmm_comm_exception_isr = Some (Ret True)"
| "exception_isr Security_err_isr = Some Panic"
| "exception_isr Stub_irq = None"
| "exception_isr (Registered_isr n) = None"

section \<open>Initialisation\<close>

definition ISA_IRQ :: u8 where "ISA_IRQ = IDT_INT32_GATE OR IDT_PRIVL0 OR IDT_INT_PRESENT"

definition init_gate :: "(nat \<Rightarrow> u32) \<Rightarrow> nat \<Rightarrow> 'd idt_state \<Rightarrow> 'd idt_state" where
  "init_gate ints n s =
     set_gate n (if 32 \<le> n \<and> n < 48 then idt_encode_entry (ints n) (of_nat GDT_KERNEL_CS) ISA_IRQ else idt_encode_absent (ints n)) s"

definition idt_init :: "'d port_io \<Rightarrow> (nat \<Rightarrow> u32) \<Rightarrow> 'd idt_state \<Rightarrow> 'd idt_state" where
  "idt_init P ints s0 =
     (let s1 = s0\<lparr>g_isr_offset := 32\<rparr>;
          s2 = fold (\<lambda>i. set_isr i (Some Stub_trap)) [0..<32] s1;
          s3 = fold (\<lambda>i. set_isr i (Some Stub_irq)) [32..<48] s2;
          s4 = fold (init_gate ints) [0..<256] s3;
          s5 = s4\<lparr>idtr_limit := 256 * 8 - 1, idt_ports := pic8259_remap P (g_isr_offset s4) (g_isr_offset s4 + 8) (idt_ports s4)\<rparr>;
          s6 = exceptions_set_up_common_handlers s5;
          s7 = s6\<lparr>idt_ports := pic8259_set_mask P 0 1 (pic8259_set_mask P 0 0 (idt_ports s6))\<rparr>
      in s7\<lparr>irqs_enabled := True\<rparr>)"

section \<open>Entry code\<close>

definition PUSH_REGISTERS_INT :: "instr list" where
  "PUSH_REGISTERS_INT = [Push EAX, Push ECX, Push EDX, Push EBX, Push EBP, Push ESI, Push EDI]"

definition POP_REGISTERS_INT :: "instr list" where
  "POP_REGISTERS_INT = [Pop EDI, Pop ESI, Pop EBP, Pop EBX, Pop EDX, Pop ECX, Pop EAX]"

definition int_common_exit :: "instr list" where
  "int_common_exit = [AddImm 4 ESP] @ POP_REGISTERS_INT @ [AddImm 4 ESP, Iret]"

datatype entry_kind = INT_ENTRY_CODE | INT_ENTRY | INT_ENTRY_MAYBE_SPURIOUS

definition entry_kind_of :: "nat \<Rightarrow> entry_kind" where
  "entry_kind_of n =
     (if n \<in> {8, 10, 11, 12, 13, 14, 17, 30} then INT_ENTRY_CODE
      else if n \<in> {39, 47} then INT_ENTRY_MAYBE_SPURIOUS
      else INT_ENTRY)"

definition int_prologue :: "entry_kind \<Rightarrow> instr list" where
  "int_prologue kind = (if kind = INT_ENTRY_CODE then [] else [PushImm 0]) @ PUSH_REGISTERS_INT @ [Push ESP, Cld]"

text \<open>
  A call of a C function: it gets the address of the frame from the stack and returns with the stack as it was; the
  registers \<open>eax\<close>, \<open>ecx\<close> and \<open>edx\<close> are its own. \<open>ra\<close> is the return address that the call pushes.
\<close>

type_synonym c_function = "addr \<Rightarrow> memory \<Rightarrow> memory \<times> nat \<times> nat \<times> nat"

definition call_c :: "nat \<Rightarrow> c_function \<Rightarrow> cpu \<Rightarrow> cpu" where
  "call_c ra h c =
     (let c1 = push32 ra c; (m, a, cx, dx) = h (read32 (ram c1) (add32 (regs c1 ESP) 4)) (ram c1) in
      c\<lparr>regs := (regs c)(EAX := a, ECX := cx, EDX := dx), ram := m\<rparr>)"

definition int_entry :: "entry_kind \<Rightarrow> nat \<Rightarrow> c_function \<Rightarrow> c_function \<Rightarrow> cpu \<Rightarrow> cpu" where
  "int_entry kind ra spurious cb c =
     (let c1 = exec (int_prologue kind) c in
      if kind = INT_ENTRY_MAYBE_SPURIOUS then
        let c2 = call_c ra spurious c1 in
        if regs c2 EAX = 1 then exec int_common_exit c2 else exec int_common_exit (call_c ra cb c2)
      else exec int_common_exit (call_c ra cb c1))"

section \<open>System calls\<close>

type_synonym syscall = "nat list \<Rightarrow> memory \<Rightarrow> nat \<times> memory"

definition sys_undefined :: "nat \<Rightarrow> nat" where
  "sys_undefined sysn = sub32 0 (errno_code ENOSYS)"

definition syscalls_do_handle :: "syscall list \<Rightarrow> nat \<Rightarrow> nat list \<Rightarrow> memory \<Rightarrow> nat \<times> memory" where
  "syscalls_do_handle entries n args m =
     (if n \<ge> length entries then (sys_undefined n, m) else (entries ! n) args m)"

text \<open>The handler of vector 0x80; the values left in the registers of a C function are arbitrary.\<close>

definition x86syscall_isr :: "syscall list \<Rightarrow> nat \<times> nat \<times> nat \<Rightarrow> c_function" where
  "x86syscall_isr entries junk frame m =
     (let arg = (\<lambda>off. read32 m (add32 frame off));
          (r, m1) = syscalls_do_handle entries (arg 24) [arg 12, arg 20, arg 16, arg 4, arg 0, arg 8] m
      in (write32 m1 (add32 frame 24) r, junk))"

definition syscalls_arch_init :: "'d idt_state \<Rightarrow> int \<times> 'd idt_state" where
  "syscalls_arch_init s = (0, snd (idt_register_trap_isr 0x80 3 (Some (Registered_isr 0x80)) s))"

end
