(* ===== verification/IdtProps.thy ===== *)
theory IdtProps
  imports Idt
begin

text \<open>
  Properties of the interrupt entry: every gate that is present leads to a handler, an interrupted program does not notice
  an interrupt, and a system call gets its arguments and gives its result in the registers.
\<close>

section \<open>Gates\<close>

definition gate_base :: "IDTEntry \<Rightarrow> u32" where
  "gate_base e = push_bit 16 (ucast (base_16_31 e)) OR ucast (base_0_15 e)"

lemma gate_base_split:
  "push_bit 16 (ucast (ucast (drop_bit 16 (b AND 0xFFFF0000)) :: u16)) OR ucast (ucast (b AND 0xFFFF) :: u16) = (b :: u32)"
proof -
  have m: "0xFFFF = (mask 16 :: u32)" "0xFFFF0000 = (push_bit 16 (mask 16) :: u32)" by (simp_all add: mask_eq_exp_minus_1)
  have lo: "bit (0xFFFF :: u32) n \<longleftrightarrow> n < 16" for n unfolding m(1) bit_mask_iff by (auto simp: possible_bit_word)
  have hi: "bit (0xFFFF0000 :: u32) n \<longleftrightarrow> 16 \<le> n \<and> n < 32" for n
    unfolding m(2) bit_push_bit_iff bit_mask_iff by (auto simp: possible_bit_word)
  show ?thesis
  proof (rule bit_word_eqI)
    fix n assume "n < LENGTH(32)"
    then have n: "n < 32" "16 \<le> n \<Longrightarrow> 16 + (n - 16) = n" by simp_all
    show "bit (push_bit 16 (ucast (ucast (drop_bit 16 (b AND 0xFFFF0000)) :: u16)) OR ucast (ucast (b AND 0xFFFF) :: u16) :: u32) n \<longleftrightarrow> bit b n"
      using n unfolding bit_or_iff bit_push_bit_iff bit_unsigned_iff bit_drop_bit_eq comp_def bit_and_iff lo hi by auto
  qed
qed

definition idt_inv :: "(nat \<Rightarrow> u32) \<Rightarrow> nat set \<Rightarrow> 'd idt_state \<Rightarrow> bool" where
  "idt_inv ints U s \<longleftrightarrow> length (g_idt s) = 256 \<and> length (g_isrs s) = 256 \<and>
     (\<forall>n < 256. let e = g_idt s ! n in
        gate_base e = ints n \<and>
        (idt_present e \<longrightarrow> g_isrs s ! n \<noteq> None \<and> idt_selector e = 8 \<and> idt_type e \<in> {14, 15} \<and>
           idt_privilege e = (if n \<in> U then 3 else 0)))"

lemma encode_flags_simps:
  "gate_base (idt_encode_flags sel flags e) = gate_base e" "idt_selector (idt_encode_flags sel flags e) = sel"
  "idt_type (idt_encode_flags sel flags e) = ucast (flags AND 31)"
  "idt_privilege (idt_encode_flags sel flags e) = ucast (drop_bit 5 (flags AND 0x60))"
  by (simp_all add: idt_encode_flags_def gate_base_def)

lemmas gate_flags = IDT_TRAP32_GATE_def IDT_INT32_GATE_def IDT_INT_PRESENT_def IDT_PRIVL0_def IDT_PRIVL3_def GDT_KERNEL_CS_def

lemma inv_register:
  assumes "idt_inv ints U s" and "n < 256" and "ucast (flags AND 31) \<in> {14, 15 :: 5 word}"
    and "ucast (drop_bit 5 (flags AND 0x60)) = (if n \<in> V then 3 else 0 :: 2 word)" and "\<forall>k. k \<noteq> n \<longrightarrow> (k \<in> V \<longleftrightarrow> k \<in> U)"
  shows "idt_inv ints V (set_gate n (idt_encode_flags 8 flags) (set_isr n (Some cb) s))"
proof -
  have "let e = g_idt (set_gate n (idt_encode_flags 8 flags) (set_isr n (Some cb) s)) ! k in
        gate_base e = ints k \<and>
        (idt_present e \<longrightarrow> g_isrs (set_gate n (idt_encode_flags 8 flags) (set_isr n (Some cb) s)) ! k \<noteq> None \<and> idt_selector e = 8 \<and>
           idt_type e \<in> {14, 15} \<and> idt_privilege e = (if k \<in> V then 3 else 0))" if "k < 256" for k
    using assms that by (cases "k = n") (auto simp: idt_inv_def set_gate_def set_isr_def Let_def encode_flags_simps)
  then show ?thesis using assms(1) by (simp add: idt_inv_def set_gate_def set_isr_def)
qed

lemma inv_trap:
  assumes "idt_inv ints U s" and "idt_register_trap_isr n ring (Some cb) s = (r, s')"
  shows "idt_inv ints (if ring = 3 then insert (unat n) U else if ring = 0 then U - {unat n} else U) s'"
proof -
  have n: "unat n < 256" using unsigned_less [of n] by simp
  show ?thesis
  proof (cases "ring = 0 \<or> ring = 3")
    case True
    then show ?thesis using assms inv_register [OF assms(1) n]
      by (auto simp: idt_register_trap_isr_def gate_flags split: if_splits)
  qed (use assms in \<open>auto simp: idt_register_trap_isr_def\<close>)
qed

lemma inv_irq:
  assumes "idt_inv ints U s" and "idt_register_irq_isr n (Some cb) s = (r, s')"
  shows "idt_inv ints (U - {unat n}) s'"
proof -
  have n: "unat n < 256" using unsigned_less [of n] by simp
  then show ?thesis using assms inv_register [OF assms(1) n]
    by (auto simp: idt_register_irq_isr_def gate_flags)
qed

lemma fold_set_isr:
  "k < length (g_isrs s) \<Longrightarrow> g_isrs (fold (\<lambda>i. set_isr i v) xs s) ! k = (if k \<in> set xs then v else g_isrs s ! k) \<and>
    length (g_isrs (fold (\<lambda>i. set_isr i v) xs s)) = length (g_isrs s) \<and> g_idt (fold (\<lambda>i. set_isr i v) xs s) = g_idt s"
  by (induction xs arbitrary: s) (auto simp: set_isr_def nth_list_update)

definition first_gate :: "(nat \<Rightarrow> u32) \<Rightarrow> nat \<Rightarrow> IDTEntry \<Rightarrow> IDTEntry" where
  "first_gate ints n = (if 32 \<le> n \<and> n < 48 then idt_encode_entry (ints n) 8 0x8E else idt_encode_absent (ints n))"

lemma fold_init_gate:
  "distinct xs \<Longrightarrow> \<forall>x \<in> set xs. x < length (g_idt s) \<Longrightarrow>
    g_idt (fold (init_gate ints) xs s) ! k = (if k \<in> set xs then first_gate ints k (g_idt s ! k) else g_idt s ! k) \<and>
    length (g_idt (fold (init_gate ints) xs s)) = length (g_idt s) \<and> g_isrs (fold (init_gate ints) xs s) = g_isrs s"
proof (induction xs arbitrary: s)
  case (Cons x xs)
  have "init_gate ints x s = set_gate x (first_gate ints x) s"
    by (simp add: init_gate_def first_gate_def ISA_IRQ_def gate_flags)
  then show ?case using Cons.IH [of "init_gate ints x s"] Cons.prems by (auto simp: set_gate_def nth_list_update)
qed simp

lemma first_gate_base: "gate_base (first_gate ints n e) = ints n"
  using gate_base_split [of "ints n"] by (simp add: first_gate_def gate_base_def idt_encode_entry_def idt_encode_absent_def)

lemma inv_exceptions:
  "idt_inv ints {} s \<Longrightarrow> idt_inv ints {} (fold (\<lambda>(n, cb) s. snd (idt_register_trap_isr n 0 (Some cb) s)) xs s)"
proof (induction xs arbitrary: s)
  case (Cons x xs)
  obtain n cb where x: "x = (n, cb)" by (cases x)
  have "idt_inv ints {} (snd (idt_register_trap_isr n 0 (Some cb) s))"
    using inv_trap [OF Cons.prems, of n 0 cb] by (cases "idt_register_trap_isr n 0 (Some cb) s") auto
  then show ?case using Cons.IH x by simp
qed simp

lemma inv_init: "idt_inv ints {} (idt_init P ints (idt_boot d))"
proof -
  let ?s1 = "(idt_boot d)\<lparr>g_isr_offset := 32\<rparr>"
  let ?s2 = "fold (\<lambda>i. set_isr i (Some Stub_trap)) [0..<32] ?s1"
  let ?s3 = "fold (\<lambda>i. set_isr i (Some Stub_irq)) [32..<48] ?s2"
  let ?s4 = "fold (init_gate ints) [0..<256] ?s3"
  have boot: "g_idt ?s1 = replicate 256 zero_idte" "g_isrs ?s1 = replicate 256 None" by (simp_all add: idt_boot_def)
  have 2: "g_isrs ?s2 ! k = (if k < 32 then Some Stub_trap else None)" "length (g_isrs ?s2) = 256" "g_idt ?s2 = replicate 256 zero_idte"
    if "k < 256" for k using fold_set_isr [of k ?s1 "Some Stub_trap" "[0..<32]"] boot that by (auto simp del: upt_rec_numeral)
  have 3: "g_isrs ?s3 ! k = (if k < 32 then Some Stub_trap else if k < 48 then Some Stub_irq else None)" "length (g_isrs ?s3) = 256"
      "g_idt ?s3 = replicate 256 zero_idte"
    if "k < 256" for k using fold_set_isr [of k ?s2 "Some Stub_irq" "[32..<48]"] 2 [OF that] that by (auto simp del: upt_rec_numeral)
  have 4: "g_idt ?s4 ! k = first_gate ints k zero_idte" "length (g_idt ?s4) = 256" "g_isrs ?s4 = g_isrs ?s3"
    if "k < 256" for k using fold_init_gate [of "[0..<256]" ?s3 ints k] 3 [OF that] that by (auto simp del: upt_rec_numeral)
  have "idt_inv ints {} (?s4\<lparr>idtr_limit := l, idt_ports := p\<rparr>)" for l p
  proof -
    have "length (g_isrs ?s4) = 256" "length (g_idt ?s4) = 256" using 3(2) [of 0] 4(2,3) [of 0] by simp_all
    moreover have "let e = g_idt ?s4 ! n in gate_base e = ints n \<and>
        (idt_present e \<longrightarrow> g_isrs ?s4 ! n \<noteq> None \<and> idt_selector e = 8 \<and> idt_type e \<in> {14, 15} \<and> idt_privilege e = 0)" if "n < 256" for n
      using 3(1) [OF that] 4(1,3) [OF that] first_gate_base [of ints n]
      by (auto simp: Let_def first_gate_def idt_encode_entry_def idt_encode_absent_def)
    ultimately show ?thesis by (simp add: idt_inv_def)
  qed
  note i = inv_exceptions [OF this, where xs = exception_handlers]
  show ?thesis unfolding idt_init_def Let_def exceptions_set_up_common_handlers_def
    using i unfolding idt_inv_def by simp
qed

text \<open>The states that registrations of handlers reach, with the vectors that ring 3 may call.\<close>

inductive idt_reach :: "'d port_io \<Rightarrow> (nat \<Rightarrow> u32) \<Rightarrow> nat set \<Rightarrow> 'd idt_state \<Rightarrow> bool" for P ints where
  init: "idt_reach P ints {} (idt_init P ints (idt_boot d))"
| trap: "idt_reach P ints U s \<Longrightarrow> idt_register_trap_isr n ring (Some cb) s = (r, s') \<Longrightarrow>
    idt_reach P ints (if ring = 3 then insert (unat n) U else if ring = 0 then U - {unat n} else U) s'"
| irq: "idt_reach P ints U s \<Longrightarrow> idt_register_irq_isr n (Some cb) s = (r, s') \<Longrightarrow> idt_reach P ints (U - {unat n}) s'"


definition demo_ints :: "nat \<Rightarrow> u32" where "demo_ints n = of_nat (16 * n)"

definition demo_pic :: pic8259 where
  "demo_pic = \<lparr>icw = 1, icw1 = 0, vector_base = 8, cascade = 0, icw4 = 0, imr = 0xFF, irr = 0, isr = 0, read_isr = False\<rparr>"

definition demo_idt :: "pics idt_state" where
  "demo_idt = snd (idt_register_trap_isr 0x80 3 (Some (Registered_isr 0x80)) (idt_init pic_io demo_ints (idt_boot (demo_pic, demo_pic))))"


section \<open>The interrupt frame\<close>

text \<open>The registers in the frame at \<open>g + 8\<close>.\<close>

fun slot :: "reg \<Rightarrow> nat" where
  "slot EDI = 8" | "slot ESI = 12" | "slot EBP = 16" | "slot EBX = 20" | "slot EDX = 24" | "slot ECX = 28" | "slot EAX = 32" | "slot ESP = 36"

definition frame_mem :: "memory \<Rightarrow> nat \<Rightarrow> (reg \<Rightarrow> nat) \<Rightarrow> memory" where
  "frame_mem M g R =
     write32 (write32 (write32 (write32 (write32 (write32 (write32 M (g + 32) (R EAX)) (g + 28) (R ECX)) (g + 24) (R EDX)) (g + 20) (R EBX))
       (g + 16) (R EBP)) (g + 12) (R ESI)) (g + 8) (R EDI)"

lemma push_run:
  assumes "R ESP = g + 36" and "g + 100 < W32"
  shows "exec (PUSH_REGISTERS_INT @ [Push ESP, Cld]) (cpu_at c R S I F M) =
    cpu_at c (R(ESP := g + 4)) S I (F - F div 1024 mod 2 * 1024) (write32 (frame_mem M g R) (g + 4) (g + 8))"
  using assms by (simp add: PUSH_REGISTERS_INT_def cpu_simps frame_mem_def ac_simps)

lemma frame_reads:
  assumes "\<forall>r. R r < W32" and "r \<noteq> ESP"
  shows "read32 (frame_mem M g R) (g + slot r) = R r"
  using assms by (cases r) (simp_all add: frame_mem_def mem_simps)

lemma frame_above: "g + 36 \<le> a \<Longrightarrow> frame_mem M g R a = M a"
  by (simp add: frame_mem_def write32_other)

definition resumed :: "memory \<Rightarrow> nat \<Rightarrow> reg \<Rightarrow> nat" where
  "resumed m g = (\<lambda>r. if r = ESP then g + 40 else read32 m (g + slot r))"

lemma exit_run:
  assumes "R ESP = g + 4" and "g + 100 < W32"
  shows "exec int_common_exit (cpu_at c R S I F m) = step Iret (cpu_at c (resumed m g) S I F m)"
proof -
  have "exec ([AddImm 4 ESP] @ POP_REGISTERS_INT @ [AddImm 4 ESP]) (cpu_at c R S I F m) = cpu_at c (resumed m g) S I F m"
    using assms by (simp add: POP_REGISTERS_INT_def cpu_simps add32_up)
      (rule arg_cong [where f = "\<lambda>R. cpu_at c R S I F m"], rule ext, rename_tac r, case_tac r; simp add: resumed_def ac_simps)
  then show ?thesis by (simp add: int_common_exit_def exec_append)
qed

text \<open>What a handler gets: its frame, with the values of the interrupted program.\<close>

definition call_mem :: "memory \<Rightarrow> nat \<Rightarrow> nat \<Rightarrow> (reg \<Rightarrow> nat) \<Rightarrow> memory" where
  "call_mem M g ra R = write32 (write32 (frame_mem M g R) (g + 4) (g + 8)) g ra"

lemma call_run:
  assumes "R ESP = g + 4" and "g + 100 < W32" and "read32 m (g + 4) = g + 8" and "h (g + 8) (write32 m g ra) = (m1, a, cx, dx)"
  shows "call_c ra h (cpu_at c R S I F m) = cpu_at c (R(EAX := a, ECX := cx, EDX := dx)) S I F m1"
  using assms unfolding call_c_def cpu_at_def push32_def by (simp add: Let_def add32_up mem_simps ac_simps)

text \<open>Handlers leave the frame and what the processor has pushed alone; both words of a call are below it.\<close>

definition keeps_frame :: "c_function \<Rightarrow> bool" where
  "keeps_frame h \<longleftrightarrow> (\<forall>f M. let (m, a, cx, dx) = h f M in \<forall>x. f - 4 \<le> x \<and> x < f + 56 \<longrightarrow> m x = M x)"

lemma keeps_frameD:
  assumes "keeps_frame h" and "h f M = (m, a, cx, dx)" and "f - 4 \<le> x" "x < f + 56"
  shows "m x = M x"
proof -
  have "let (m, a, cx, dx) = h f M in \<forall>x. f - 4 \<le> x \<and> x < f + 56 \<longrightarrow> m x = M x"
    using assms(1) unfolding keeps_frame_def by blast
  then show ?thesis using assms(2-4) by simp
qed

lemma frame_ESP [simp]: "frame_mem M g (R(ESP := v)) = frame_mem M g R"
  by (simp add: frame_mem_def)

definition stacked :: "entry_kind \<Rightarrow> memory \<Rightarrow> nat \<Rightarrow> memory" where
  "stacked kind M g = (if kind = INT_ENTRY_CODE then M else write32 M (g + 36) 0)"

lemma prologue_run:
  assumes "R ESP = (if kind = INT_ENTRY_CODE then g + 36 else g + 40)" and "g + 100 < W32"
  shows "exec (int_prologue kind) (cpu_at c R S I F M) =
    cpu_at c (R(ESP := g + 4)) S I (F - F div 1024 mod 2 * 1024) (write32 (frame_mem (stacked kind M g) g R) (g + 4) (g + 8))"
proof (cases "kind = INT_ENTRY_CODE")
  case True
  then show ?thesis using assms push_run [of R g c S I F M] by (simp add: int_prologue_def stacked_def)
next
  case False
  then have "exec (int_prologue kind) (cpu_at c R S I F M) =
      exec (PUSH_REGISTERS_INT @ [Push ESP, Cld]) (cpu_at c (R(ESP := g + 36)) S I F (write32 M (g + 36) 0))"
    using assms by (simp add: int_prologue_def cpu_simps add.commute)
  then show ?thesis using False push_run [of "R(ESP := g + 36)" g c S I F "write32 M (g + 36) 0"] assms(2) by (simp add: stacked_def)
qed

text \<open>
  After the entry code and the handlers the processor returns with the registers that are in the frame, which still are
  those of the interrupted program.
\<close>

lemma entry_run:
  assumes R: "R ESP = (if kind = INT_ENTRY_CODE then g + 36 else g + 40)" "g + 100 < W32"
    and keeps: "keeps_frame h" "keeps_frame sp"
  shows "\<exists>m. int_entry kind ra sp h (cpu_at c R S I F M) = step Iret (cpu_at c (resumed m g) S I (F - F div 1024 mod 2 * 1024) m) \<and>
    (\<forall>a. g + 8 \<le> a \<and> a < g + 60 \<longrightarrow> m a = frame_mem (stacked kind M g) g R a)"
proof -
  let ?F = "F - F div 1024 mod 2 * 1024" and ?m = "write32 (frame_mem (stacked kind M g) g R) (g + 4) (g + 8)"
  have p: "exec (int_prologue kind) (cpu_at c R S I F M) = cpu_at c (R(ESP := g + 4)) S I ?F ?m"
    by (rule prologue_run [where R = R and g = g]) (fact R)+
  have ptr: "read32 ?m (g + 4) = g + 8" using R(2) by (simp add: mem_simps)
  have call: "\<exists>R' m'. call_c ra f (cpu_at c Q S I ?F mm) = cpu_at c R' S I ?F m' \<and> R' ESP = g + 4 \<and>
      (\<forall>a. g + 4 \<le> a \<and> a < g + 60 \<longrightarrow> m' a = mm a)"
    if "Q ESP = g + 4" "read32 mm (g + 4) = g + 8" "keeps_frame f" for f Q mm
  proof -
    obtain m' a cx dx where f: "f (g + 8) (write32 mm g ra) = (m', a, cx, dx)" by (cases "f (g + 8) (write32 mm g ra)") auto
    have "m' x = mm x" if "g + 4 \<le> x" "x < g + 60" for x
      using keeps_frameD [OF \<open>keeps_frame f\<close> f, of x] that by (simp add: write32_other)
    moreover have "call_c ra f (cpu_at c Q S I ?F mm) = cpu_at c (Q(EAX := a, ECX := cx, EDX := dx)) S I ?F m'"
      by (rule call_run [where R = Q and g = g and h = f and m = mm]) (use that R(2) f in simp_all)
    ultimately show ?thesis using that(1) by (intro exI conjI) (assumption, simp_all)
  qed
  have fin: "\<exists>m. exec int_common_exit (cpu_at c Q S I ?F mm) = step Iret (cpu_at c (resumed m g) S I ?F m) \<and>
      (\<forall>a. g + 8 \<le> a \<and> a < g + 60 \<longrightarrow> m a = frame_mem (stacked kind M g) g R a)"
    if "Q ESP = g + 4" "\<forall>a. g + 4 \<le> a \<and> a < g + 60 \<longrightarrow> mm a = ?m a" for Q mm
    using exit_run [where R = Q and g = g, OF that(1) R(2)] that(2) by (intro exI [of _ mm]) (auto simp: write32_other)
  obtain R1 m1 where 1: "call_c ra sp (cpu_at c (R(ESP := g + 4)) S I ?F ?m) = cpu_at c R1 S I ?F m1" "R1 ESP = g + 4"
    "\<forall>a. g + 4 \<le> a \<and> a < g + 60 \<longrightarrow> m1 a = ?m a" using call [OF _ ptr keeps(2), of "R(ESP := g + 4)"] by auto
  have "read32 m1 (g + 4) = read32 ?m (g + 4)" by (rule read32_cong) (use 1(3) in auto)
  then have "read32 m1 (g + 4) = g + 8" using ptr by (rule trans)
  then obtain R2 m2 where 2: "call_c ra h (cpu_at c R1 S I ?F m1) = cpu_at c R2 S I ?F m2" "R2 ESP = g + 4"
    "\<forall>a. g + 4 \<le> a \<and> a < g + 60 \<longrightarrow> m2 a = m1 a" using call [where Q = R1 and mm = m1 and f = h, OF 1(2) _ keeps(1)] by auto
  obtain R3 m3 where 3: "call_c ra h (cpu_at c (R(ESP := g + 4)) S I ?F ?m) = cpu_at c R3 S I ?F m3" "R3 ESP = g + 4"
    "\<forall>a. g + 4 \<le> a \<and> a < g + 60 \<longrightarrow> m3 a = ?m a" using call [OF _ ptr keeps(1), of "R(ESP := g + 4)"] by auto
  have e: "int_entry kind ra sp h (cpu_at c R S I F M) =
      (if kind = INT_ENTRY_MAYBE_SPURIOUS then
         if R1 EAX = 1 then exec int_common_exit (cpu_at c R1 S I ?F m1) else exec int_common_exit (cpu_at c R2 S I ?F m2)
       else exec int_common_exit (cpu_at c R3 S I ?F m3))"
    unfolding int_entry_def Let_def p 1(1) 2(1) 3(1) cpu_at_fields ..
  have f1: "\<exists>m. exec int_common_exit (cpu_at c R1 S I ?F m1) = step Iret (cpu_at c (resumed m g) S I ?F m) \<and>
      (\<forall>a. g + 8 \<le> a \<and> a < g + 60 \<longrightarrow> m a = frame_mem (stacked kind M g) g R a)" by (rule fin [where Q = R1 and mm = m1, OF 1(2,3)])
  have f3: "\<exists>m. exec int_common_exit (cpu_at c R3 S I ?F m3) = step Iret (cpu_at c (resumed m g) S I ?F m) \<and>
      (\<forall>a. g + 8 \<le> a \<and> a < g + 60 \<longrightarrow> m a = frame_mem (stacked kind M g) g R a)" by (rule fin [where Q = R3 and mm = m3, OF 3(2,3)])
  have f2: "\<exists>m. exec int_common_exit (cpu_at c R2 S I ?F m2) = step Iret (cpu_at c (resumed m g) S I ?F m) \<and>
      (\<forall>a. g + 8 \<le> a \<and> a < g + 60 \<longrightarrow> m a = frame_mem (stacked kind M g) g R a)" by (rule fin [where Q = R2 and mm = m2, OF 2(2)]) (use 1(3) 2(3) in simp)
  show ?thesis unfolding e using f1 f2 f3 by (simp only: split: if_split) blast
qed

section \<open>Delivery and return\<close>

definition outer_ring :: "cpu \<Rightarrow> bool" where
  "outer_ring c \<longleftrightarrow> privilege (sregs c CS) > privilege GDT_KERNEL_CS"

text \<open>The frame lies where the stack of the kernel is: below the interrupted kernel code, or at the top that the task state segment gives.\<close>

definition frame_at :: "cpu \<Rightarrow> nat \<Rightarrow> nat \<Rightarrow> bool" where
  "frame_at c esp0 g \<longleftrightarrow> g + 100 < W32 \<and> (if outer_ring c then esp0 = g + 60 else regs c ESP = g + 52)"

definition sregs_ok :: "cpu \<Rightarrow> bool" where
  "sregs_ok c \<longleftrightarrow> (\<forall>x. sregs c x < 65536)"

definition returns_to :: "memory \<Rightarrow> nat \<Rightarrow> cpu \<Rightarrow> bool" where
  "returns_to M g c \<longleftrightarrow> read32 M (g + 40) = eip c \<and> read32 M (g + 44) = sregs c CS \<and> read32 M (g + 48) = eflags c \<and>
     (outer_ring c \<longrightarrow> read32 M (g + 52) = regs c ESP \<and> read32 M (g + 56) = sregs c SS)"

lemma deliver_at:
  "deliver ss0 esp0 kcs gate code handler (cpu_at c R S I F M) =
     (let outer = privilege (S CS) > privilege kcs;
          c1 = (if outer then push32 (R ESP) (push32 (S SS) (cpu_at c (R(ESP := esp0)) (S(SS := ss0)) I F M)) else cpu_at c R S I F M);
          c2 = push32 I (push32 (S CS) (push32 F c1));
          c3 = (case code of None \<Rightarrow> c2 | Some e \<Rightarrow> push32 e c2)
      in c3\<lparr>eip := handler, sregs := (sregs c3)(CS := kcs), eflags := (if gate then clear_if F else F)\<rparr>)"
proof -
  have "(cpu_at c R S I F M)\<lparr>regs := R', sregs := S'\<rparr> = cpu_at c R' S' I F M" for R' S' by (simp add: cpu_at_def)
  then show ?thesis unfolding deliver_def Let_def cpu_at_fields by (simp only:)
qed

lemma push_at: "push32 v (cpu_at c R S I F M) = cpu_at c (R(ESP := sub32 (R ESP) 4)) S I F (write32 M (sub32 (R ESP) 4) v)"
  by (simp add: push32_def cpu_at_def Let_def)

lemma update_at: "(cpu_at c R S I F M)\<lparr>eip := i, sregs := s, eflags := f\<rparr> = cpu_at c R s i f M"
  by (simp add: cpu_at_def)

lemma deliver_run:
  assumes ok: "cpu_ok c" "sregs_ok c" and g: "frame_at c esp0 g"
  shows "\<exists>M F. deliver ss0 esp0 GDT_KERNEL_CS gate code handler c =
      cpu_at c ((regs c)(ESP := if code = None then g + 40 else g + 36))
        ((sregs c)(SS := if outer_ring c then ss0 else sregs c SS, CS := GDT_KERNEL_CS)) handler F M \<and> returns_to M g c"
proof -
  have lt: "regs c r < W32" "eip c < W32" "eflags c < W32" "sregs c x < W32" for r x
    using ok by (auto simp: cpu_ok_def sregs_ok_def intro: less_trans)
  let ?k = "write32 (write32 (write32 (ram c) (g + 48) (eflags c)) (g + 44) (sregs c CS)) (g + 40) (eip c)"
  let ?u = "write32 (write32 (write32 (write32 (write32 (ram c) (g + 56) (sregs c SS)) (g + 52) (regs c ESP)) (g + 48) (eflags c))
    (g + 44) (sregs c CS)) (g + 40) (eip c)"
  let ?w = "\<lambda>M. case code of None \<Rightarrow> M | Some e \<Rightarrow> write32 M (g + 36) e"
  let ?R = "(regs c)(ESP := if code = None then g + 40 else g + 36)"
  let ?F = "if gate then clear_if (eflags c) else eflags c"
  have "deliver ss0 esp0 GDT_KERNEL_CS gate code handler (cpu_at c (regs c) (sregs c) (eip c) (eflags c) (ram c)) =
      cpu_at c ?R ((sregs c)(SS := if outer_ring c then ss0 else sregs c SS, CS := GDT_KERNEL_CS)) handler ?F
        (?w (if outer_ring c then ?u else ?k))"
  proof (cases "outer_ring c")
    case True
    then show ?thesis using g unfolding deliver_at outer_ring_def frame_at_def
      by (cases code) (simp_all add: push_at update_at cpu_at_fields Let_def add.commute)
  next
    case False
    then show ?thesis using g unfolding deliver_at outer_ring_def frame_at_def
      by (cases code) (simp_all add: push_at update_at cpu_at_fields Let_def add.commute)
  qed
  moreover have "returns_to (?w (if outer_ring c then ?u else ?k)) g c"
    using lt g by (cases code) (auto simp: returns_to_def frame_at_def mem_simps)
  ultimately show ?thesis unfolding cpu_at_self [symmetric] by blast
qed

text \<open>The last instruction of the entry code: the interrupted program runs on with the registers in the frame.\<close>

lemma return_run:
  assumes ok: "sregs_ok c" and g: "g + 100 < W32" and m: "returns_to m g c"
  shows "step Iret (cpu_at c (resumed m g) ((sregs c)(SS := if outer_ring c then ss0 else sregs c SS, CS := GDT_KERNEL_CS)) I F m) =
    cpu_at c ((resumed m g)(ESP := if outer_ring c then regs c ESP else g + 52)) (sregs c) (eip c) (eflags c) m"
proof -
  have s: "sregs c x mod 65536 = sregs c x" for x using ok by (simp add: sregs_ok_def)
  have e: "resumed m g ESP = g + 40" by (simp add: resumed_def)
  show ?thesis
    using m g unfolding iret_at Let_def e outer_ring_def returns_to_def
    by (auto simp: add32_up add.commute s intro!: arg_cong [where f = "\<lambda>S. cpu_at c _ S _ _ _"] ext)
qed

text \<open>
  C32: an interrupted program does not notice the interrupt. Whatever it runs, in the kernel or in ring 3, whatever the vector, with or
  without an error code where its entry code expects that: after delivery, the entry code and a handler that leaves its frame alone, all registers, segment
  registers and flags and the instruction pointer are those at the interruption.
\<close>
theorem int_transparent:
  assumes "cpu_ok c" and "sregs_ok c" and "frame_at c esp0 g" and "code = None \<longleftrightarrow> kind \<noteq> INT_ENTRY_CODE"
    and "keeps_frame h" and "keeps_frame spurious"
  shows "let r = int_entry kind ra spurious h (deliver ss0 esp0 GDT_KERNEL_CS gate code handler c) in
    regs r = regs c \<and> sregs r = sregs c \<and> eip r = eip c \<and> eflags r = eflags c"
proof -
  obtain M F where d: "deliver ss0 esp0 GDT_KERNEL_CS gate code handler c =
      cpu_at c ((regs c)(ESP := if code = None then g + 40 else g + 36))
        ((sregs c)(SS := if outer_ring c then ss0 else sregs c SS, CS := GDT_KERNEL_CS)) handler F M" and M: "returns_to M g c"
    using deliver_run [OF assms(1-3)] by blast
  have g: "g + 100 < W32" using assms(3) by (simp add: frame_at_def)
  let ?R = "(regs c)(ESP := if code = None then g + 40 else g + 36)"
  obtain m where r: "int_entry kind ra spurious h (deliver ss0 esp0 GDT_KERNEL_CS gate code handler c) =
      step Iret (cpu_at c (resumed m g) ((sregs c)(SS := if outer_ring c then ss0 else sregs c SS, CS := GDT_KERNEL_CS)) handler
        (F - F div 1024 mod 2 * 1024) m)"
    and m: "\<forall>a. g + 8 \<le> a \<and> a < g + 60 \<longrightarrow> m a = frame_mem (stacked kind M g) g ?R a"
  proof -
    have "?R ESP = (if kind = INT_ENTRY_CODE then g + 36 else g + 40)" using assms(4) by simp
    from entry_run [where kind = kind and R = ?R and g = g and c = c and M = M and F = F and ra = ra and I = handler and
      S = "(sregs c)(SS := if outer_ring c then ss0 else sregs c SS, CS := GDT_KERNEL_CS)", OF this g assms(5,6)] show thesis unfolding d [symmetric] by (elim exE conjE) (rule that)
  qed
  have above: "m a = M a" if "g + 40 \<le> a" "a < g + 60" for a
    using m that by (simp add: frame_above stacked_def write32_other)
  have rd: "read32 m (g + k) = read32 M (g + k)" if "40 \<le> k" "k \<le> 56" for k
    by (rule read32_cong) (use above that in auto)
  have "returns_to m g c" using M by (simp add: returns_to_def rd)
  note r = r [unfolded return_run [OF assms(2) g this]]
  have "((resumed m g)(ESP := if outer_ring c then regs c ESP else g + 52)) x = regs c x" for x
  proof (cases "x = ESP")
    case False
    have k: "8 \<le> slot x" "slot x \<le> 32" using False by (cases x; simp)+
    have "read32 m (g + slot x) = read32 (frame_mem (stacked kind M g) g ?R) (g + slot x)"
      by (rule read32_cong) (use m k in auto)
    also have "\<dots> = regs c x" using frame_reads [OF _ False, of "regs c"] assms(1) by (simp add: cpu_ok_def)
    finally show ?thesis using False by (simp add: resumed_def)
  qed (use assms(3) in \<open>simp add: frame_at_def\<close>)
  then have "(resumed m g)(ESP := if outer_ring c then regs c ESP else g + 52) = regs c" by (rule ext)
  then show ?thesis unfolding r Let_def cpu_at_fields by blast
qed

definition demo_user :: cpu where
  "demo_user = \<lparr>regs = (\<lambda>_. 7)(EAX := 1, EBX := 3, ESP := 0x8000), sregs = (\<lambda>_. 0x23)(CS := 0x1B), eip = 0x4000, eflags = 0x202, ram = \<lambda>_. 0\<rparr>"

definition demo_isr :: c_function where
  "demo_isr f m = (if 200 \<le> f then write32 m (f - 100) 5 else m, 1, 2, 3)"

lemma demo_isr_keeps: "keeps_frame demo_isr"
proof -
  have "write32 M (f - 100) 5 x = M x" if "200 \<le> f" "f - 4 \<le> x" for f x M by (rule write32_other) (use that in linarith)
  then show ?thesis by (auto simp: keeps_frame_def demo_isr_def)
qed

theorem int_transparent_witness:
  "regs (int_entry INT_ENTRY 0x111 demo_isr demo_isr (deliver 0x10 0x9000 GDT_KERNEL_CS True None 0x5000 demo_user)) EBX = 3"
proof -
  have "cpu_ok demo_user" "sregs_ok demo_user" "frame_at demo_user 0x9000 (0x9000 - 60)"
    by (simp_all add: demo_user_def cpu_ok_def sregs_ok_def frame_at_def outer_ring_def privilege_def GDT_KERNEL_CS_def)
  from int_transparent [OF this _ demo_isr_keeps demo_isr_keeps, of None INT_ENTRY] show ?thesis
    by (simp add: Let_def demo_user_def)
qed

section \<open>System calls\<close>

lemma entry_plain:
  assumes R: "R ESP = g + 40" "g + 100 < W32"
    and h: "h (g + 8) (write32 (write32 (frame_mem (write32 M (g + 36) 0) g R) (g + 4) (g + 8)) g ra) = (m, a, cx, dx)"
  shows "int_entry INT_ENTRY ra sp h (cpu_at c R S I F M) = step Iret (cpu_at c (resumed m g) S I (F - F div 1024 mod 2 * 1024) m)"
proof -
  let ?F = "F - F div 1024 mod 2 * 1024" and ?m = "write32 (frame_mem (write32 M (g + 36) 0) g R) (g + 4) (g + 8)"
  have p: "exec (int_prologue INT_ENTRY) (cpu_at c R S I F M) = cpu_at c (R(ESP := g + 4)) S I ?F ?m"
    using prologue_run [where R = R and g = g and kind = INT_ENTRY and M = M] R by (simp add: stacked_def)
  have q: "call_c ra h (cpu_at c (R(ESP := g + 4)) S I ?F ?m) = cpu_at c ((R(ESP := g + 4))(EAX := a, ECX := cx, EDX := dx)) S I ?F m"
    by (rule call_run [where R = "R(ESP := g + 4)" and g = g and h = h and m = ?m]) (use R h in \<open>simp_all add: mem_simps\<close>)
  have e: "exec int_common_exit (cpu_at c ((R(ESP := g + 4))(EAX := a, ECX := cx, EDX := dx)) S I ?F m) =
      step Iret (cpu_at c (resumed m g) S I ?F m)"
    by (rule exit_run [where R = "(R(ESP := g + 4))(EAX := a, ECX := cx, EDX := dx)" and g = g]) (use R in simp_all)
  show ?thesis unfolding int_entry_def Let_def p q e by simp
qed

text \<open>System calls that leave the stack of the kernel above the call alone.\<close>

definition keeps_words :: "syscall list \<Rightarrow> nat \<Rightarrow> nat \<Rightarrow> bool" where
  "keeps_words entries lo hi \<longleftrightarrow> (\<forall>e \<in> set entries. \<forall>args m x. lo \<le> x \<and> x < hi \<longrightarrow> snd (e args m) x = m x)"

lemma do_handle_keeps:
  assumes "keeps_words entries lo hi" and "lo \<le> x" "x < hi"
  shows "snd (syscalls_do_handle entries n args m) x = m x"
  using assms by (simp add: syscalls_do_handle_def keeps_words_def)

text \<open>
  C33: \<open>int 0x80\<close> is a function call from ring 3: the handler of the number in \<open>eax\<close> runs on the words in \<open>ebx\<close>, \<open>ecx\<close>, \<open>edx\<close>, \<open>esi\<close>,
  \<open>edi\<close> and \<open>ebp\<close>, and the program continues after the instruction with the result in \<open>eax\<close> and everything else as it was. A number
  that is out of range gives \<open>-ENOSYS\<close>.
\<close>
theorem syscall_call_return:
  assumes "cpu_ok c" and "sregs_ok c" and "frame_at c esp0 g" and "keeps_words entries (g + 4) (g + 60)"
  shows "let d = deliver ss0 esp0 GDT_KERNEL_CS gate None handler c;
      M = ram (push32 ra (exec (int_prologue INT_ENTRY) d));
      (v, M') = syscalls_do_handle entries (regs c EAX) [regs c EBX, regs c ECX, regs c EDX, regs c ESI, regs c EDI, regs c EBP] M;
      r = int_entry INT_ENTRY ra spurious (x86syscall_isr entries junk) d in
    regs r = (regs c)(EAX := v mod W32) \<and> sregs r = sregs c \<and> eip r = eip c \<and> eflags r = eflags c \<and>
    (\<forall>a. g + 60 \<le> a \<longrightarrow> ram r a = M' a) \<and> (length entries \<le> regs c EAX \<longrightarrow> v = sub32 0 (errno_code ENOSYS))"
proof -
  have g: "g + 100 < W32" using assms(3) by (simp add: frame_at_def)
  let ?R = "(regs c)(ESP := g + 40)"
  let ?S = "(sregs c)(SS := if outer_ring c then ss0 else sregs c SS, CS := GDT_KERNEL_CS)"
  obtain N F where d: "deliver ss0 esp0 GDT_KERNEL_CS gate None handler c = cpu_at c ?R ?S handler F N" and N: "returns_to N g c"
    using deliver_run [OF assms(1-3), of ss0 gate None handler] by auto
  let ?P = "write32 (frame_mem (write32 N (g + 36) 0) g ?R) (g + 4) (g + 8)"
  let ?M = "write32 ?P g ra"
  have p: "exec (int_prologue INT_ENTRY) (cpu_at c ?R ?S handler F N) = cpu_at c (?R(ESP := g + 4)) ?S handler (F - F div 1024 mod 2 * 1024) ?P"
    using prologue_run [where R = ?R and g = g and kind = INT_ENTRY and M = N] g by (simp add: stacked_def)
  have M: "ram (push32 ra (exec (int_prologue INT_ENTRY) (cpu_at c ?R ?S handler F N))) = ?M"
    unfolding p push_at using g by (simp add: cpu_at_fields)
  have arg: "read32 ?M (g + slot x) = regs c x" if "x \<noteq> ESP" for x
  proof -
    have k: "8 \<le> slot x" using that by (cases x; simp)
    have "read32 ?M (g + slot x) = read32 (frame_mem (write32 N (g + 36) 0) g ?R) (g + slot x)"
      by (rule read32_cong) (use k in \<open>simp add: write32_other\<close>)
    also have "\<dots> = regs c x" using frame_reads [OF _ that, of "regs c"] assms(1) by (simp add: cpu_ok_def)
    finally show ?thesis .
  qed
  obtain v M' where v: "syscalls_do_handle entries (regs c EAX) [regs c EBX, regs c ECX, regs c EDX, regs c ESI, regs c EDI, regs c EBP] ?M = (v, M')"
    by (cases "syscalls_do_handle entries (regs c EAX) [regs c EBX, regs c ECX, regs c EDX, regs c ESI, regs c EDI, regs c EBP] ?M")
  have M': "M' x = ?M x" if "g + 4 \<le> x" "x < g + 60" for x
    using do_handle_keeps [OF assms(4) that, of "regs c EAX" "[regs c EBX, regs c ECX, regs c EDX, regs c ESI, regs c EDI, regs c EBP]" ?M] v by simp
  let ?m = "write32 M' (g + 32) v"
  have args: "read32 ?M (g + 32) = regs c EAX" "read32 ?M (g + 20) = regs c EBX" "read32 ?M (g + 28) = regs c ECX"
      "read32 ?M (g + 24) = regs c EDX" "read32 ?M (g + 12) = regs c ESI" "read32 ?M (g + 8) = regs c EDI" "read32 ?M (g + 16) = regs c EBP"
    using arg [of EAX] arg [of EBX] arg [of ECX] arg [of EDX] arg [of ESI] arg [of EDI] arg [of EBP] by simp_all
  have h: "x86syscall_isr entries junk (g + 8) ?M = (?m, junk)"
    using g args v by (simp add: x86syscall_isr_def add32_up add.assoc)
  obtain a cx dx where junk: "junk = (a, cx, dx)" by (cases junk)
  have above: "?m x = N x" if "g + 40 \<le> x" "x < g + 60" for x
    using M' [of x] that by (simp add: write32_other frame_above)
  have rd: "read32 ?m (g + k) = read32 N (g + k)" if "40 \<le> k" "k \<le> 56" for k
    by (rule read32_cong) (use above that in auto)
  have "returns_to ?m g c" using N by (simp add: returns_to_def rd)
  note ret = return_run [where ?ss0.0 = ss0 and I = handler and F = "F - F div 1024 mod 2 * 1024", OF assms(2) g this]
  have run: "int_entry INT_ENTRY ra spurious (x86syscall_isr entries junk) (cpu_at c ?R ?S handler F N) =
      cpu_at c ((resumed ?m g)(ESP := if outer_ring c then regs c ESP else g + 52)) (sregs c) (eip c) (eflags c) ?m"
    by (rule trans [OF _ ret], rule entry_plain [where R = ?R and g = g and M = N and h = "x86syscall_isr entries junk"]) (use g h junk in simp_all)
  have "((resumed ?m g)(ESP := if outer_ring c then regs c ESP else g + 52)) x = ((regs c)(EAX := v mod W32)) x" for x
  proof -
    have low: "read32 ?m (g + slot x) = regs c x" if "x \<noteq> ESP" "x \<noteq> EAX"
    proof -
      have k: "8 \<le> slot x" "slot x \<le> 28" using that by (cases x; simp)+
      have "read32 ?m (g + slot x) = read32 ?M (g + slot x)" by (rule read32_cong) (use k M' in \<open>simp add: write32_other\<close>)
      then show ?thesis using arg [OF that(1)] by simp
    qed
    have "read32 ?m (g + 32) = v mod W32" by (simp add: mem_simps)
    then show ?thesis using low assms(3) by (auto simp: resumed_def frame_at_def)
  qed
  then have regs: "(resumed ?m g)(ESP := if outer_ring c then regs c ESP else g + 52) = (regs c)(EAX := v mod W32)" by (rule ext)
  have mem: "\<forall>a. g + 60 \<le> a \<longrightarrow> ?m a = M' a" by (simp add: write32_other)
  have err: "length entries \<le> regs c EAX \<longrightarrow> v = sub32 0 (errno_code ENOSYS)"
    using v by (auto simp: syscalls_do_handle_def sys_undefined_def)
  show ?thesis unfolding Let_def d M v run prod.case regs cpu_at_fields using mem err by blast
qed

text \<open>A system call that adds its first two arguments.\<close>

definition demo_calls :: "syscall list" where
  "demo_calls = [\<lambda>args m. (0, m), \<lambda>args m. (args ! 0 + args ! 1, m)]"

theorem syscall_call_return_witness:
  "regs (int_entry INT_ENTRY 0x111 demo_isr (x86syscall_isr demo_calls (0, 0, 0)) (deliver 0x10 0x9000 GDT_KERNEL_CS False None 0x5000 demo_user)) EAX = 10"
proof -
  have ok: "cpu_ok demo_user" "sregs_ok demo_user" "frame_at demo_user 0x9000 0x8FC4" "keeps_words demo_calls (0x8FC4 + 4) (0x8FC4 + 60)"
    by (auto simp: demo_user_def cpu_ok_def sregs_ok_def frame_at_def outer_ring_def privilege_def GDT_KERNEL_CS_def keeps_words_def demo_calls_def)
  have r: "regs demo_user EAX = 1" "regs demo_user EBX = 3" "regs demo_user ECX = 7" by (simp_all add: demo_user_def)
  have h: "syscalls_do_handle demo_calls (Suc 0) (3 # 7 # xs) m = (10, m)" for xs m by (simp add: syscalls_do_handle_def demo_calls_def)
  from syscall_call_return [OF ok, where ?ss0.0 = "0x10" and gate = False and handler = "0x5000" and ra = "0x111" and spurious = demo_isr and junk = "(0, 0, 0)"] show ?thesis by (simp add: Let_def r h)
qed

end
