(* ===== verification/Gdt.thy ===== *)
theory Gdt
  imports Switch
begin

text \<open>
  Segments and the task state, \<^verbatim>\<open>arch/x86/gdt.c\<close>, and the use that \<^verbatim>\<open>arch/x86/task.c\<close> makes of them. The table that the boot
  code leaves is a parameter.
\<close>

section \<open>State\<close>

record GDTEntry =
  limit_lo :: u16
  base_lo :: "24 word"
  access_byte :: u8
  limit_hi :: "4 word"
  gdt_reserved :: bool
  longmode :: bool
  bits32 :: bool
  granularity :: bool
  base_hi :: u8

record TssEntry =
  prev_tss :: u32
  esp0 :: u32
  ss0 :: u32
  esp1 :: u32
  ss1 :: u32
  esp2 :: u32
  ss2 :: u32
  tss_cr3 :: u32
  tss_eip :: u32
  tss_eflags :: u32
  tss_regs :: "u32 list"
  tss_sregs :: "u32 list"
  ldt :: u32
  tss_trap :: u16
  iomap_base :: u16

record gdt_state =
  boot_gdt :: "GDTEntry list"
  g_tss :: TssEntry
  task_register :: nat

definition GDT_ENTRIES_CNT :: nat where "GDT_ENTRIES_CNT = 6"

text \<open>Eight general registers and six segment registers.\<close>

definition zero_tss :: TssEntry where
  "zero_tss = \<lparr>prev_tss = 0, esp0 = 0, ss0 = 0, esp1 = 0, ss1 = 0, esp2 = 0, ss2 = 0, tss_cr3 = 0, tss_eip = 0, tss_eflags = 0,
     tss_regs = replicate 8 0, tss_sregs = replicate 6 0, ldt = 0, tss_trap = 0, iomap_base = 0\<rparr>"

definition sizeof_tss :: u32 where "sizeof_tss = 104"

section \<open>Operations\<close>

definition gdt_encode_entry_base_and_limit :: "u32 \<Rightarrow> u32 \<Rightarrow> GDTEntry \<Rightarrow> GDTEntry" where
  "gdt_encode_entry_base_and_limit base limit e =
     e\<lparr>limit_lo := ucast (limit AND 0xFFFF), base_lo := ucast (base AND 0xFFFFFF), limit_hi := ucast (drop_bit 16 (limit AND 0xF0000)),
       base_hi := ucast (drop_bit 24 (base AND 0xFF000000))\<rparr>"

text \<open>The bits \<open>accessed\<close>, \<open>exec\<close> and \<open>present\<close> of the access byte; \<open>tss\<close> is the address of the task state.\<close>

definition gdt_tss_entry :: "u32 \<Rightarrow> GDTEntry \<Rightarrow> GDTEntry" where
  "gdt_tss_entry tss e =
     (let e1 = gdt_encode_entry_base_and_limit tss sizeof_tss e in e1\<lparr>access_byte := set_bit 7 (set_bit 3 (set_bit 0 (access_byte e1)))\<rparr>)"

definition gdt_finish_init :: "u32 \<Rightarrow> nat \<Rightarrow> gdt_state \<Rightarrow> gdt_state outcome" where
  "gdt_finish_init tss boot_gdt_size s =
     (if boot_gdt_size \<noteq> GDT_ENTRIES_CNT * 8 then Panic
      else
        let n = GDT_TSS div 8 in
        Ret (s\<lparr>boot_gdt := (boot_gdt s)[n := gdt_tss_entry tss (boot_gdt s ! n)], g_tss := zero_tss\<lparr>ss0 := of_nat GDT_KERNEL_DS\<rparr>,
          task_register := GDT_TSS\<rparr>))"

definition tss_set_esp0 :: "u32 \<Rightarrow> gdt_state \<Rightarrow> gdt_state" where
  "tss_set_esp0 esp s = s\<lparr>g_tss := (g_tss s)\<lparr>esp0 := esp\<rparr>\<rparr>"

definition tss_get_esp0 :: "gdt_state \<Rightarrow> u32" where
  "tss_get_esp0 s = esp0 (g_tss s)"

definition task_set_impending_stack_top :: "u32 \<Rightarrow> gdt_state \<Rightarrow> int \<times> gdt_state" where
  "task_set_impending_stack_top sp s = (0, tss_set_esp0 sp s)"

section \<open>What the processor reads\<close>

definition seg_base :: "GDTEntry \<Rightarrow> u32" where
  "seg_base e = push_bit 24 (ucast (base_hi e)) OR ucast (base_lo e)"

definition seg_limit :: "GDTEntry \<Rightarrow> u32" where
  "seg_limit e = push_bit 16 (ucast (limit_hi e)) OR ucast (limit_lo e)"

lemma seg_base_encode: "seg_base (gdt_encode_entry_base_and_limit base limit e) = base"
proof -
  have m: "0xFFFFFF = (mask 24 :: u32)" "0xFF000000 = (push_bit 24 (mask 8) :: u32)" by (simp_all add: mask_eq_exp_minus_1)
  have lo: "bit (0xFFFFFF :: u32) n \<longleftrightarrow> n < 24" for n unfolding m(1) bit_mask_iff by (auto simp: possible_bit_word)
  have hi: "bit (0xFF000000 :: u32) n \<longleftrightarrow> 24 \<le> n \<and> n < 32" for n
    unfolding m(2) bit_push_bit_iff bit_mask_iff by (auto simp: possible_bit_word)
  have "push_bit 24 (ucast (ucast (drop_bit 24 (base AND 0xFF000000)) :: u8)) OR ucast (ucast (base AND 0xFFFFFF) :: 24 word) = base"
  proof (rule bit_word_eqI)
    fix n assume "n < LENGTH(32)"
    then have n: "n < 32" "24 \<le> n \<Longrightarrow> 24 + (n - 24) = n" by simp_all
    show "bit (push_bit 24 (ucast (ucast (drop_bit 24 (base AND 0xFF000000)) :: u8)) OR ucast (ucast (base AND 0xFFFFFF) :: 24 word) :: u32) n
        \<longleftrightarrow> bit base n"
      using n unfolding bit_or_iff bit_push_bit_iff bit_unsigned_iff bit_drop_bit_eq comp_def bit_and_iff lo hi by auto
  qed
  then show ?thesis by (simp add: seg_base_def gdt_encode_entry_base_and_limit_def)
qed

lemma seg_limit_encode: "limit < 0x100000 \<Longrightarrow> seg_limit (gdt_encode_entry_base_and_limit base limit e) = limit"
proof -
  assume "limit < 0x100000"
  then have "unat limit < 2 ^ 20" by (simp add: word_less_nat_alt)
  then have "take_bit 20 limit = limit" by (intro word_unat_eq_iff [THEN iffD2]) (simp add: unsigned_take_bit_eq take_bit_nat_eq_self)
  then have high: "n < 20" if "bit limit n" for n using that by (metis bit_take_bit_iff)
  have m: "0xFFFF = (mask 16 :: u32)" "0xF0000 = (push_bit 16 (mask 4) :: u32)" by (simp_all add: mask_eq_exp_minus_1)
  have lo: "bit (0xFFFF :: u32) n \<longleftrightarrow> n < 16" for n unfolding m(1) bit_mask_iff by (auto simp: possible_bit_word)
  have hi: "bit (0xF0000 :: u32) n \<longleftrightarrow> 16 \<le> n \<and> n < 20" for n
    unfolding m(2) bit_push_bit_iff bit_mask_iff by (auto simp: possible_bit_word)
  have "push_bit 16 (ucast (ucast (drop_bit 16 (limit AND 0xF0000)) :: 4 word)) OR ucast (ucast (limit AND 0xFFFF) :: u16) = limit"
  proof (rule bit_word_eqI)
    fix n assume "n < LENGTH(32)"
    then have n: "n < 32" "16 \<le> n \<Longrightarrow> 16 + (n - 16) = n" by simp_all
    show "bit (push_bit 16 (ucast (ucast (drop_bit 16 (limit AND 0xF0000)) :: 4 word)) OR ucast (ucast (limit AND 0xFFFF) :: u16) :: u32) n
        \<longleftrightarrow> bit limit n"
      using n high [of n] unfolding bit_or_iff bit_push_bit_iff bit_unsigned_iff bit_drop_bit_eq comp_def bit_and_iff lo hi by auto
  qed
  then show ?thesis by (simp add: seg_limit_def gdt_encode_entry_base_and_limit_def)
qed

text \<open>
  The bytes of the task state, and the test of the processor for a port access from ring 3: the bit of the port in the map
  at \<open>iomap_base\<close>, two bytes of which have to lie within the limit of the segment.
\<close>

definition tss_words :: "TssEntry \<Rightarrow> u32 list" where
  "tss_words t =
     [prev_tss t, esp0 t, ss0 t, esp1 t, ss1 t, esp2 t, ss2 t, tss_cr3 t, tss_eip t, tss_eflags t] @ tss_regs t @ tss_sregs t @
     [ldt t, ucast (tss_trap t) OR push_bit 16 (ucast (iomap_base t))]"

definition port_denied :: "TssEntry \<Rightarrow> nat \<Rightarrow> bool" where
  "port_denied t p = (let k = unat (iomap_base t) + p div 8 in bit (tss_words t ! (k div 4)) (8 * (k mod 4) + p mod 8))"

definition user_may_use_port :: "GDTEntry \<Rightarrow> TssEntry \<Rightarrow> nat \<Rightarrow> bool" where
  "user_may_use_port e t p \<longleftrightarrow> unat (iomap_base t) + p div 8 + 1 \<le> unat (seg_limit e) \<and> \<not> port_denied t p"

lemma finish_init_facts:
  assumes "gdt_finish_init tss n s = Ret s'" and "length (boot_gdt s) = 6"
  shows "g_tss s' = zero_tss\<lparr>ss0 := of_nat GDT_KERNEL_DS\<rparr>" "boot_gdt s' ! 5 = gdt_tss_entry tss (boot_gdt s ! 5)"
    "task_register s' div 8 = 5"
  using assms by (auto simp: gdt_finish_init_def GDT_TSS_def Let_def split: if_splits)

lemma tss_entry_fields:
  "seg_base (gdt_tss_entry tss e) = tss" "seg_limit (gdt_tss_entry tss e) = 104"
proof -
  have f: "seg_base (e\<lparr>access_byte := a\<rparr>) = seg_base e" "seg_limit (e\<lparr>access_byte := a\<rparr>) = seg_limit e" for e a
    by (simp_all add: seg_base_def seg_limit_def)
  show "seg_base (gdt_tss_entry tss e) = tss" by (simp add: gdt_tss_entry_def Let_def f seg_base_encode)
  show "seg_limit (gdt_tss_entry tss e) = 104" by (simp add: gdt_tss_entry_def Let_def f seg_limit_encode sizeof_tss_def)
qed

lemma tss_words_zero:
  assumes "3 \<le> k" "k < 26"
  shows "tss_words (zero_tss\<lparr>ss0 := x, esp0 := y\<rparr>) ! k = 0"
proof -
  have t: "tss_words (zero_tss\<lparr>ss0 := x, esp0 := y\<rparr>) = [0, y, x] @ (replicate 7 0 @ replicate 8 0 @ replicate 6 0 @ replicate 2 0)"
    by (simp add: tss_words_def zero_tss_def, simp add: numeral_eq_Suc)
  have "replicate 7 0 @ replicate 8 0 @ replicate 6 0 @ replicate 2 0 = replicate 23 (0 :: u32)"
    by (simp flip: replicate_add)
  then show ?thesis unfolding t using assms by (simp add: nth_append)
qed


definition demo_gdt :: gdt_state where
  "demo_gdt = \<lparr>boot_gdt = replicate 6 \<lparr>limit_lo = 0, base_lo = 0, access_byte = 0, limit_hi = 0, gdt_reserved = False, longmode = False,
     bits32 = False, granularity = False, base_hi = 0\<rparr>, g_tss = zero_tss, task_register = 0\<rparr>"


end
