(* ===== verification/Ata.thy ===== *)
theory Ata
  imports PortIo Mbr
begin

text \<open>
  Disks behind the programmed input and output of the ATA interface, \<^verbatim>\<open>drivers/storage/ata/atapio.c\<close>. The hardware is
  a parameter: the ports, a clock in nanoseconds, which only moves with the state of the hardware, and sleeping. The
  buffer of the caller is a function from the offset.
\<close>

section \<open>State\<close>

record 'd ata_io =
  ata_ports :: "'d port_io"
  ata_clock :: "'d \<Rightarrow> int"
  ata_sleep :: "nat \<Rightarrow> 'd \<Rightarrow> 'd"

record AtaStorageDevice =
  portio :: u16
  portctl :: u16
  master :: bool
  ata_type :: nat
  ata_dma :: bool
  controller :: addr

type_synonym buffer = "nat \<Rightarrow> u8"

definition ATA_READ_TIMEOUT_MS :: int where "ATA_READ_TIMEOUT_MS = 200"
definition ATA_FLUSH_SECTORS_TIMEOUT_MS :: int where "ATA_FLUSH_SECTORS_TIMEOUT_MS = 200"

definition ATA_STATUS_ERR :: u8 where "ATA_STATUS_ERR = 1"
definition ATA_STATUS_DRQ :: u8 where "ATA_STATUS_DRQ = 8"
definition ATA_STATUS_DF :: u8 where "ATA_STATUS_DF = 32"
definition ATA_STATUS_BSY :: u8 where "ATA_STATUS_BSY = 128"

definition ATA_TYPE_UNKNOWN :: nat where "ATA_TYPE_UNKNOWN = 0"
definition ATA_TYPE_CHS :: nat where "ATA_TYPE_CHS = 1"
definition ATA_TYPE_LBA28 :: nat where "ATA_TYPE_LBA28 = 2"
definition ATA_TYPE_LBA48 :: nat where "ATA_TYPE_LBA48 = 3"

definition ATA_REG_DATA :: "u16 \<Rightarrow> u16" where "ATA_REG_DATA x = x"
definition ATA_REG_ERR :: "u16 \<Rightarrow> u16" where "ATA_REG_ERR x = x + 1"
definition ATA_REG_SECTOR :: "u16 \<Rightarrow> u16" where "ATA_REG_SECTOR x = x + 2"
definition ATA_REG_LBA_LO :: "u16 \<Rightarrow> u16" where "ATA_REG_LBA_LO x = x + 3"
definition ATA_REG_LBA_MID :: "u16 \<Rightarrow> u16" where "ATA_REG_LBA_MID x = x + 4"
definition ATA_REG_LBA_HI :: "u16 \<Rightarrow> u16" where "ATA_REG_LBA_HI x = x + 5"
definition ATA_REG_DRIVE_SEL :: "u16 \<Rightarrow> u16" where "ATA_REG_DRIVE_SEL x = x + 6"
definition ATA_REG_STATUS :: "u16 \<Rightarrow> u16" where "ATA_REG_STATUS x = x + 7"
definition ATA_REG_COMMAND :: "u16 \<Rightarrow> u16" where "ATA_REG_COMMAND x = x + 7"

lemmas ata_regs = ATA_REG_DATA_def ATA_REG_ERR_def ATA_REG_SECTOR_def ATA_REG_LBA_LO_def ATA_REG_LBA_MID_def ATA_REG_LBA_HI_def
  ATA_REG_DRIVE_SEL_def ATA_REG_STATUS_def ATA_REG_COMMAND_def

section \<open>Commands\<close>

definition atapio_internal_sectors :: "nat \<Rightarrow> u16" where
  "atapio_internal_sectors sectors = (if sectors \<ge> 256 then 0 else of_nat sectors)"

text \<open>The byte of the sector address at a bit.\<close>

definition lba_byte :: "u64 \<Rightarrow> nat \<Rightarrow> u8" where
  "lba_byte lba k = ucast (drop_bit k lba)"

definition drive_bit :: "AtaStorageDevice \<Rightarrow> u8" where
  "drive_bit ata = (if master ata then 0 else 16)"

text \<open>
  The commands for reading and writing differ in their last byte. A device of a type that is not known gets no command,
  and the negative error becomes a true \<open>bool\<close>.
\<close>

definition send_cmd :: "u8 \<Rightarrow> u8 \<Rightarrow> 'd ata_io \<Rightarrow> u64 \<Rightarrow> u16 \<Rightarrow> AtaStorageDevice \<Rightarrow> 'd \<Rightarrow> (bool \<times> 'd) outcome" where
  "send_cmd cmd28 cmd48 E lba sectors ata d =
     (let out = port_outb (ata_ports E); p = portio ata in
      if ata_type ata = ATA_TYPE_LBA48 then
        let d = out (0x40 OR drive_bit ata) (ATA_REG_DRIVE_SEL p) d;
            d = out (ucast (drop_bit 8 sectors)) (ATA_REG_SECTOR p) d;
            d = out (lba_byte lba 24) (ATA_REG_LBA_LO p) d;
            d = out (lba_byte lba 32) (ATA_REG_LBA_MID p) d;
            d = out (lba_byte lba 40) (ATA_REG_LBA_HI p) d;
            d = out (ucast sectors) (ATA_REG_SECTOR p) d;
            d = out (lba_byte lba 0) (ATA_REG_LBA_LO p) d;
            d = out (lba_byte lba 8) (ATA_REG_LBA_MID p) d;
            d = out (lba_byte lba 16) (ATA_REG_LBA_HI p) d
        in Ret (sectors \<noteq> 0, out cmd48 (ATA_REG_COMMAND p) d)
      else if ata_type ata = ATA_TYPE_LBA28 then
        let d = out (0xE0 OR drive_bit ata OR (lba_byte lba 24 AND 0x0F)) (ATA_REG_DRIVE_SEL p) d;
            d = out (ucast sectors) (ATA_REG_SECTOR p) d;
            d = out (lba_byte lba 0) (ATA_REG_LBA_LO p) d;
            d = out (lba_byte lba 8) (ATA_REG_LBA_MID p) d;
            d = out (lba_byte lba 16) (ATA_REG_LBA_HI p) d
        in Ret (sectors \<noteq> 0, out cmd28 (ATA_REG_COMMAND p) d)
      else if ata_type ata = ATA_TYPE_CHS then Panic
      else Ret (True, d))"

definition atapio_send_read_cmd :: "'d ata_io \<Rightarrow> u64 \<Rightarrow> u16 \<Rightarrow> AtaStorageDevice \<Rightarrow> 'd \<Rightarrow> (bool \<times> 'd) outcome" where
  "atapio_send_read_cmd = send_cmd 0x20 0x24"

definition atapio_send_write_cmd :: "'d ata_io \<Rightarrow> u64 \<Rightarrow> u16 \<Rightarrow> AtaStorageDevice \<Rightarrow> 'd \<Rightarrow> (bool \<times> 'd) outcome" where
  "atapio_send_write_cmd = send_cmd 0x30 0x34"

section \<open>Waiting\<close>

text \<open>More than \<open>ms\<close> milliseconds since \<open>t\<close>.\<close>

definition late :: "'d ata_io \<Rightarrow> int \<Rightarrow> int \<Rightarrow> 'd \<Rightarrow> bool" where
  "late E t ms d \<longleftrightarrow> ata_clock E d - t > ms * 1000000"

partial_function (option) flush_loop :: "'d ata_io \<Rightarrow> u16 \<Rightarrow> int \<Rightarrow> int \<Rightarrow> 'd \<Rightarrow> (bool \<times> 'd) option" where
  "flush_loop E p t ms d =
     (let (st, d1) = port_inb (ata_ports E) (ATA_REG_STATUS p) d in
      if st AND ATA_STATUS_BSY = 0 then Some (True, d1)
      else if late E t ms d1 then Some (False, d1)
      else flush_loop E p t ms d1)"

definition atapio_flush_sectors :: "'d ata_io \<Rightarrow> int \<Rightarrow> AtaStorageDevice \<Rightarrow> 'd \<Rightarrow> (bool \<times> 'd) option" where
  "atapio_flush_sectors E ms ata d =
     (let d1 = port_outb (ata_ports E) 0xE7 (ATA_REG_COMMAND (portio ata)) d in flush_loop E (portio ata) (ata_clock E d1) ms d1)"

partial_function (option) ready_loop :: "'d ata_io \<Rightarrow> u16 \<Rightarrow> int \<Rightarrow> int \<Rightarrow> 'd \<Rightarrow> (bool \<times> 'd) option" where
  "ready_loop E p t ms d =
     (if late E t ms d then Some (False, d)
      else
        let (st, d1) = port_inb (ata_ports E) (ATA_REG_STATUS p) d in
        if st AND ATA_STATUS_BSY = 0 \<and> st AND ATA_STATUS_DRQ \<noteq> 0 then Some (True, d1)
        else if st AND ATA_STATUS_ERR \<noteq> 0 \<or> st AND ATA_STATUS_DF \<noteq> 0 then
          Some (False, snd (port_inb (ata_ports E) (ATA_REG_ERR p) d1))
        else ready_loop E p t ms d1)"

definition atapio_wait_for_ready :: "'d ata_io \<Rightarrow> int \<Rightarrow> AtaStorageDevice \<Rightarrow> 'd \<Rightarrow> (bool \<times> 'd) option" where
  "atapio_wait_for_ready E ms ata d = ready_loop E (portio ata) (ata_clock E d) ms d"

section \<open>Reading and writing\<close>

definition atapio_is_valid_range :: "u64 \<Rightarrow> u64 \<Rightarrow> BlockDevice \<Rightarrow> bool" where
  "atapio_is_valid_range lba sectors dev \<longleftrightarrow>
     \<not> (unat lba > bd_sector_count dev \<or> sectors = 0) \<and> unat sectors \<le> bd_sector_count dev - unat lba"

fun read_data :: "'d port_io \<Rightarrow> u16 \<Rightarrow> nat \<Rightarrow> nat \<Rightarrow> buffer \<Rightarrow> 'd \<Rightarrow> buffer \<times> 'd" where
  "read_data P p i 0 dest d = (dest, d)"
| "read_data P p i (Suc n) dest d =
     (let (w, d1) = port_inw P (ATA_REG_DATA p) d in
      read_data P p (i + 1) n (dest(i * 2 := ucast w, i * 2 + 1 := ucast (drop_bit 8 w AND 0xFF))) d1)"

text \<open>Every sector goes to the start of the buffer; the outcome of waiting, a \<open>bool\<close>, is never negative.\<close>

fun read_sectors :: "'d ata_io \<Rightarrow> AtaStorageDevice \<Rightarrow> nat \<Rightarrow> nat \<Rightarrow> buffer \<Rightarrow> 'd \<Rightarrow> (buffer \<times> 'd) option" where
  "read_sectors E ata sector 0 dest d = Some (dest, d)"
| "read_sectors E ata sector (Suc n) dest d =
     (let d1 = (if sector \<noteq> 0 then ata_sleep E 400 d else d) in
      case atapio_wait_for_ready E ATA_READ_TIMEOUT_MS ata d1 of
        None \<Rightarrow> None
      | Some (_, d2) \<Rightarrow>
          let (dest1, d3) = read_data (ata_ports E) (portio ata) 0 256 dest d2 in
          read_sectors E ata (sector + 1) n dest1 d3)"

function ata_read_loop :: "'d ata_io \<Rightarrow> AtaStorageDevice \<Rightarrow> u64 \<Rightarrow> nat \<Rightarrow> buffer \<Rightarrow> 'd \<Rightarrow> (int \<times> buffer \<times> 'd) outcome option" where
  "ata_read_loop E ata lba sectors dest d =
     (if sectors = 0 then Some (Ret (0, dest, d))
      else
        let w = min sectors 256 in
        case atapio_send_read_cmd E lba (atapio_internal_sectors w) ata d of
          Panic \<Rightarrow> Some Panic
        | Ret (_, d1) \<Rightarrow>
            (case read_sectors E ata 0 w dest d1 of
               None \<Rightarrow> None
             | Some (dest1, d2) \<Rightarrow> ata_read_loop E ata (lba + of_nat w) (sectors - w) dest1 d2))"
  by pat_completeness auto
termination by (relation "measure (\<lambda>(E, ata, lba, sectors, dest, d). sectors)") auto

definition atapio_read ::
    "'d ata_io \<Rightarrow> AtaStorageDevice \<Rightarrow> BlockDevice \<Rightarrow> u64 \<Rightarrow> u64 \<Rightarrow> buffer \<Rightarrow> 'd \<Rightarrow> (int \<times> buffer \<times> 'd) outcome option" where
  "atapio_read E ata dev lba sectors dest d =
     (if \<not> atapio_is_valid_range lba sectors dev then Some (Ret (- int (errno_code EINVAL), dest, d))
      else ata_read_loop E ata lba (unat sectors) dest d)"

fun write_data :: "'d ata_io \<Rightarrow> u16 \<Rightarrow> nat \<Rightarrow> nat \<Rightarrow> buffer \<Rightarrow> 'd \<Rightarrow> 'd" where
  "write_data E p i 0 src d = d"
| "write_data E p i (Suc n) src d =
     (let w = push_bit 8 (ucast (src (i * 2 + 1))) OR ucast (src (i * 2)) in
      write_data E p (i + 1) n src (ata_sleep E 400 (port_outw (ata_ports E) w (ATA_REG_DATA p) d)))"

fun write_sectors :: "'d ata_io \<Rightarrow> AtaStorageDevice \<Rightarrow> nat \<Rightarrow> nat \<Rightarrow> buffer \<Rightarrow> 'd \<Rightarrow> 'd option" where
  "write_sectors E ata sector 0 src d = Some d"
| "write_sectors E ata sector (Suc n) src d =
     (let d1 = (if sector \<noteq> 0 then ata_sleep E 400 d else d) in
      case atapio_wait_for_ready E ATA_READ_TIMEOUT_MS ata d1 of
        None \<Rightarrow> None
      | Some (_, d2) \<Rightarrow> write_sectors E ata (sector + 1) n src (write_data E (portio ata) 0 256 src d2))"

function ata_write_loop :: "'d ata_io \<Rightarrow> AtaStorageDevice \<Rightarrow> u64 \<Rightarrow> nat \<Rightarrow> buffer \<Rightarrow> 'd \<Rightarrow> (int \<times> 'd) outcome option" where
  "ata_write_loop E ata lba sectors src d =
     (if sectors = 0 then Some (Ret (0, d))
      else
        let w = min sectors 256 in
        case atapio_send_write_cmd E lba (atapio_internal_sectors w) ata d of
          Panic \<Rightarrow> Some Panic
        | Ret (_, d1) \<Rightarrow>
            (case write_sectors E ata 0 w src d1 of
               None \<Rightarrow> None
             | Some d2 \<Rightarrow>
                 (case atapio_flush_sectors E ATA_FLUSH_SECTORS_TIMEOUT_MS ata d2 of
                    None \<Rightarrow> None
                  | Some (_, d3) \<Rightarrow> ata_write_loop E ata (lba + of_nat w) (sectors - w) src d3)))"
  by pat_completeness auto
termination by (relation "measure (\<lambda>(E, ata, lba, sectors, src, d). sectors)") auto

definition atapio_write ::
    "'d ata_io \<Rightarrow> AtaStorageDevice \<Rightarrow> BlockDevice \<Rightarrow> u64 \<Rightarrow> u64 \<Rightarrow> buffer \<Rightarrow> 'd \<Rightarrow> (int \<times> 'd) outcome option" where
  "atapio_write E ata dev lba sectors src d =
     (if \<not> atapio_is_valid_range lba sectors dev then Some (Ret (- int (errno_code EINVAL), d))
      else ata_write_loop E ata lba (unat sectors) src d)"

declare ata_read_loop.simps [simp del] ata_write_loop.simps [simp del]

definition ata_error_to_str :: "u8 \<Rightarrow> string" where
  "ata_error_to_str e =
     (if e = 1 then ''Address mark not found''
      else if e = 2 then ''Track zero not found''
      else if e = 4 then ''Aborted command''
      else if e = 8 then ''Media change request''
      else if e = 16 then ''ID not found''
      else if e = 32 then ''Media changed''
      else if e = 64 then ''Uncorrectable data error''
      else if e = 128 then ''Bad block detected''
      else ''Unknown error'')"

end
