(* ===== verification/Ide.thy ===== *)
theory Ide
  imports Ata Blkdevm Pci Idt
begin

text \<open>
  IDE controllers, \<^verbatim>\<open>drivers/storage/ata/ide.c\<close>: finding the drives on both buses, their identification, and the driver as
  the PCI bus and the block device manager see it. What is only logged is left out.
\<close>

section \<open>State\<close>

text \<open>\<open>extra\<close> of a block device is the address of its ATA device. The ports are the private state of the block devices.\<close>

record 'd ide_state =
  ide_blk :: "'d blk_state"
  bd_extra :: "addr \<rightharpoonup> addr"
  atadevs :: "addr \<rightharpoonup> AtaStorageDevice"
  ide_idt :: "unit idt_state"

record 'd ide_env =
  ide_io :: "'d ata_io"
  ide_ops :: "'d blkdev_ops"
  ide_pata :: kstr
  g_ata_driver :: addr

definition sizeof_AtaStorageDevice :: nat where "sizeof_AtaStorageDevice = 12"
definition ATA_CMD_IDENT :: u8 where "ATA_CMD_IDENT = 0xEC"
definition IRQ_ATA1 :: u8 where "IRQ_ATA1 = 0x2E"
definition IRQ_ATA2 :: u8 where "IRQ_ATA2 = 0x2F"

definition zero_atadev :: AtaStorageDevice where
  "zero_atadev = \<lparr>portio = 0, portctl = 0, master = False, ata_type = ATA_TYPE_UNKNOWN, ata_dma = False, controller = 0\<rparr>"

definition neg_errno :: "errno \<Rightarrow> int" where
  "neg_errno e = - int (errno_code e)"

text \<open>The drivers of the interrupts only acknowledge them.\<close>

definition ata_primary_isr :: "'p port_io \<Rightarrow> 'p \<Rightarrow> 'p" where
  "ata_primary_isr = interrupts_irq_done"

definition ata_secondary_isr :: "'p port_io \<Rightarrow> 'p \<Rightarrow> 'p" where
  "ata_secondary_isr = interrupts_irq_done"

section \<open>Block devices of the driver\<close>

text \<open>The loop of the names: the devices of the driver in order, those without a type or a name skipped.\<close>

fun next_suffix :: "(addr \<rightharpoonup> BlockDevice) \<Rightarrow> addr list \<Rightarrow> nat \<Rightarrow> nat outcome" where
  "next_suffix devs [] suffix = Ret suffix"
| "next_suffix devs (a # as) suffix =
     (case devs a of
        None \<Rightarrow> Panic
      | Some bd \<Rightarrow>
          (case (bd_type bd, bd_name bd) of
             (Some (_, t), Some (_, name)) \<Rightarrow>
               if t = ''pata'' then
                 if length name < 2 then Panic
                 else
                   let c = (if length name = 2 then 0 else of_char (name ! 2)) in
                   next_suffix devs as (if c \<ge> suffix then c + 1 else suffix)
               else next_suffix devs as suffix
           | _ \<Rightarrow> next_suffix devs as suffix))"

definition ide_generate_drive_name :: "addr \<Rightarrow> addr \<Rightarrow> 'd ide_state \<Rightarrow> (bool \<times> 'd ide_state) outcome option" where
  "ide_generate_drive_name dev drv s =
     (let b = ide_blk s in
      bind_run (ll_walk (bk_nodes b) (root (drv_blkdevs b drv)) []) (\<lambda>ds.
      bind_run (Some (next_suffix (blkdevs b) ds 97)) (\<lambda>suffix.
        if suffix > 122 then Some (Ret (False, s))
        else
          bind_run (kmalloc 4 (bk_km b)) (\<lambda>(p, km).
            let b1 = b\<lparr>bk_km := km\<rparr> in
            case p of
              None \<Rightarrow> Some (Ret (False, s\<lparr>ide_blk := b1\<rparr>))
            | Some a \<Rightarrow>
                (case blkdevs b1 dev of
                   None \<Rightarrow> Some Panic
                 | Some bd \<Rightarrow>
                     Some (Ret (True, s\<lparr>ide_blk := b1\<lparr>blkdevs := (blkdevs b1)(dev \<mapsto> bd\<lparr>bd_name := Some (a, [CHR ''h'', CHR ''d'', char_of suffix])\<rparr>)\<rparr>\<rparr>)))))))"

definition ide_new_blkdev :: "addr \<Rightarrow> 'd ide_state \<Rightarrow> (addr option \<times> 'd ide_state) outcome option" where
  "ide_new_blkdev drv s =
     bind_run (blkdevdrv_new_blkdev drv (ide_blk s)) (\<lambda>(p, b).
       let s1 = s\<lparr>ide_blk := b\<rparr> in
       case p of
         None \<Rightarrow> Some (Ret (None, s1))
       | Some dev \<Rightarrow>
           bind_run (kcalloc sizeof_AtaStorageDevice (bk_km b)) (\<lambda>(q, km).
             let b2 = b\<lparr>bk_km := km\<rparr> in
             case q of
               None \<Rightarrow> bind_run (blkdevdrv_free_blkdev dev drv b2) (\<lambda>(_, b3). Some (Ret (None, s1\<lparr>ide_blk := b3\<rparr>)))
             | Some e \<Rightarrow>
                 Some (Ret (Some dev, s1\<lparr>ide_blk := b2, bd_extra := (bd_extra s1)(dev \<mapsto> e), atadevs := (atadevs s1)(e \<mapsto> zero_atadev)\<rparr>))))"

definition ide_free_blkdev :: "addr \<Rightarrow> addr \<Rightarrow> 'd ide_state \<Rightarrow> (int \<times> 'd ide_state) outcome option" where
  "ide_free_blkdev dev drv s =
     (let b = ide_blk s in
      case blkdevs b dev of
        None \<Rightarrow> Some Panic
      | Some bd \<Rightarrow>
          bind_run (bk_kfree (bd_extra s dev) b) (\<lambda>b1.
          bind_run (case bd_name bd of None \<Rightarrow> Some (Ret b1) | Some (a, _) \<Rightarrow> bk_kfree (Some a) b1) (\<lambda>b2.
          bind_run (blkdevdrv_free_blkdev dev drv b2) (\<lambda>(_, b3). Some (Ret (0, s\<lparr>ide_blk := b3\<rparr>))))))"

section \<open>Identification\<close>

definition ide_select_drive :: "'d ata_io \<Rightarrow> bool \<Rightarrow> u16 \<Rightarrow> 'd \<Rightarrow> 'd" where
  "ide_select_drive E m bus d = ata_sleep E 1000000 (port_outb (ata_ports E) (if m then 0xA0 else 0xB0) (ATA_REG_DRIVE_SEL bus) d)"

partial_function (option) busy_loop :: "'d ata_io \<Rightarrow> u16 \<Rightarrow> int \<Rightarrow> 'd \<Rightarrow> (errno option \<times> 'd) option" where
  "busy_loop E bus t d =
     (let (st, d1) = port_inb (ata_ports E) (ATA_REG_STATUS bus) d in
      if st AND ATA_STATUS_BSY = 0 then Some (None, d1)
      else if late E t 200 d1 then Some (Some ETIMEDOUT, d1)
      else busy_loop E bus t d1)"

partial_function (option) drq_loop :: "'d ata_io \<Rightarrow> u16 \<Rightarrow> int \<Rightarrow> 'd \<Rightarrow> (errno option \<times> 'd) option" where
  "drq_loop E bus t d =
     (if late E t 200 d then Some (Some ETIMEDOUT, d)
      else
        let (st, d1) = port_inb (ata_ports E) (ATA_REG_STATUS bus) d in
        if st AND ATA_STATUS_ERR \<noteq> 0 then Some (Some EIO, snd (port_inb (ata_ports E) (ATA_REG_ERR bus) d1))
        else if st AND ATA_STATUS_DRQ \<noteq> 0 then Some (None, d1)
        else drq_loop E bus t d1)"

text \<open>The part of the identification that only uses the ports, up to the data: an error or none.\<close>

definition ident_handshake :: "'d ata_io \<Rightarrow> u16 \<Rightarrow> bool \<Rightarrow> 'd \<Rightarrow> (errno option \<times> 'd) option" where
  "ident_handshake E bus m d0 =
     (let P = ata_ports E;
          d = ide_select_drive E m bus d0;
          (st, d) = port_inb P (ATA_REG_STATUS bus) d in
      if st = 0 then Some (Some ENODEV, d)
      else
        let d = port_outw P 0 (ATA_REG_SECTOR bus) d;
            d = port_outw P 0 (ATA_REG_LBA_LO bus) d;
            d = port_outw P 0 (ATA_REG_LBA_MID bus) d;
            d = port_outw P 0 (ATA_REG_LBA_HI bus) d;
            d = port_outb P ATA_CMD_IDENT (ATA_REG_COMMAND bus) d;
            (st, d) = port_inb P (ATA_REG_STATUS bus) d in
        if st = 0 then Some (Some ENODEV, d)
        else
          let (a, d) = port_inb P (ATA_REG_LBA_MID bus) d;
              (b, d) = port_inb P (ATA_REG_LBA_HI bus) d in
          if a = 0x14 \<and> b = 0xEB \<or> a = 0x69 \<and> b = 0x96 \<or> a = 0x3C \<and> b = 0xC3 then Some (Some EINVAL, d)
          else
            Option.bind (busy_loop E bus (ata_clock E d) d) (\<lambda>(e, d).
              case e of
                Some e \<Rightarrow> Some (Some e, d)
              | None \<Rightarrow>
                  let (lbamid, d) = port_inb P (ATA_REG_LBA_MID bus) d;
                      (lbahi, d) = port_inb P (ATA_REG_LBA_HI bus) d in
                  if lbamid \<noteq> 0 \<or> lbahi \<noteq> 0 then Some (Some EINVAL, d) else drq_loop E bus (ata_clock E d) d))"

fun drain :: "'d port_io \<Rightarrow> u16 \<Rightarrow> nat \<Rightarrow> 'd \<Rightarrow> 'd" where
  "drain P bus 0 d = d"
| "drain P bus (Suc n) d = drain P bus n (snd (port_inw P (ATA_REG_DATA bus) d))"

text \<open>
  A word in the upper half of 32 bits is an \<open>int\<close> in C: stored in 64 bits it brings its sign along. The loop counts on by
  itself over the words it reads inside.
\<close>

definition high_word :: "u16 \<Rightarrow> u64" where
  "high_word w = scast (push_bit 16 (ucast w) :: u32)"

record identified =
  id_sectors :: u64
  id_type :: nat
  id_dma :: bool

function ident_loop :: "'d port_io \<Rightarrow> u16 \<Rightarrow> nat \<Rightarrow> identified \<Rightarrow> 'd \<Rightarrow> identified \<times> 'd" where
  "ident_loop P bus i r d =
     (if i \<ge> 256 then (r, d)
      else
        let (val, d1) = port_inw P (ATA_REG_DATA bus) d in
        if i = 60 then
          let (w, d2) = port_inw P (ATA_REG_DATA bus) d1 in
          ident_loop P bus (i + 2) (r\<lparr>id_sectors := ucast val OR high_word w\<rparr>) d2
        else if i = 83 then
          ident_loop P bus (i + 1) (if val AND push_bit 10 1 \<noteq> 0 then r\<lparr>id_type := ATA_TYPE_LBA48\<rparr> else r) d1
        else if i = 88 then
          ident_loop P bus (i + 1) (r\<lparr>id_dma := (drop_bit 8 val \<noteq> 0)\<rparr>) d1
        else if i = 100 \<and> id_type r = ATA_TYPE_LBA48 then
          let (w1, d2) = port_inw P (ATA_REG_DATA bus) d1;
              tmp = ucast val OR push_bit 16 (ucast w1) :: u32;
              (w2, d3) = port_inw P (ATA_REG_DATA bus) d2;
              (w3, d4) = port_inw P (ATA_REG_DATA bus) d3
          in ident_loop P bus (i + 4) (r\<lparr>id_sectors := push_bit 32 (ucast w2 OR high_word w3) OR ucast tmp\<rparr>) d4
        else ident_loop P bus (i + 1) r d1)"
  by pat_completeness auto
termination by (relation "measure (\<lambda>(P, bus, i, r, d). 256 - i)") auto

declare ident_loop.simps [simp del]

definition set_priv :: "'d \<Rightarrow> 'd ide_state \<Rightarrow> 'd ide_state" where
  "set_priv d s = s\<lparr>ide_blk := (ide_blk s)\<lparr>bk_priv := d\<rparr>\<rparr>"

definition ide_identify_drive ::
    "'d ide_env \<Rightarrow> u16 \<Rightarrow> u16 \<Rightarrow> addr \<Rightarrow> bool \<Rightarrow> addr \<Rightarrow> 'd ide_state \<Rightarrow> (int \<times> 'd ide_state) outcome option" where
  "ide_identify_drive E bus ctl pcidev m drv s0 =
     (let P = ata_ports (ide_io E) in
      Option.bind (ident_handshake (ide_io E) bus m (bk_priv (ide_blk s0))) (\<lambda>(e, d).
        let s = set_priv d s0 in
        case e of
          Some e \<Rightarrow> Some (Ret (neg_errno e, s))
        | None \<Rightarrow>
            bind_run (ide_new_blkdev drv s) (\<lambda>(p, s1).
              case p of
                None \<Rightarrow> Some (Ret (neg_errno ENOMEM, set_priv (drain P bus 256 (bk_priv (ide_blk s1))) s1))
              | Some dev \<Rightarrow>
                  bind_run (ide_generate_drive_name dev drv s1) (\<lambda>(ok, s2).
                    if \<not> ok then
                      bind_run (ide_free_blkdev dev drv s2) (\<lambda>(_, s3).
                        Some (Ret (neg_errno ENOMEM, set_priv (drain P bus 256 (bk_priv (ide_blk s3))) s3)))
                    else
                      (case (blkdevs (ide_blk s2) dev, bd_extra s2 dev) of
                         (Some bd, Some x) \<Rightarrow>
                           let (r, d1) = ident_loop P bus 0 \<lparr>id_sectors = 0, id_type = ATA_TYPE_UNKNOWN, id_dma = False\<rparr> (bk_priv (ide_blk s2));
                               ata = \<lparr>portio = bus, portctl = ctl, master = m,
                                 ata_type = (if id_type r = ATA_TYPE_UNKNOWN then ATA_TYPE_LBA28 else id_type r), ata_dma = id_dma r, controller = pcidev\<rparr>;
                               bd1 = bd\<lparr>bd_type := Some (ide_pata E), sectorsize := 512, bd_sector_count := unat (id_sectors r)\<rparr>;
                               b3 = (ide_blk s2)\<lparr>bk_priv := d1, blkdevs := (blkdevs (ide_blk s2))(dev \<mapsto> bd1)\<rparr>;
                               s3 = s2\<lparr>ide_blk := b3, atadevs := (atadevs s2)(x \<mapsto> ata)\<rparr>
                           in bind_run (blkdevm_enumerate_partitions (ide_ops E) dev b3) (\<lambda>(_, b4). Some (Ret (1, s3\<lparr>ide_blk := b4\<rparr>)))
                       | _ \<Rightarrow> Some Panic)))))"

section \<open>The driver\<close>

definition ide_enumerate_bus :: "'d ide_env \<Rightarrow> u16 \<Rightarrow> u16 \<Rightarrow> addr \<Rightarrow> addr \<Rightarrow> 'd ide_state \<Rightarrow> (int \<times> 'd ide_state) outcome option" where
  "ide_enumerate_bus E bus ctl dev drv s =
     bind_run (ide_identify_drive E bus ctl dev True drv s) (\<lambda>(_, s1).
     bind_run (ide_identify_drive E bus ctl dev False drv s1) (\<lambda>(_, s2). Some (Ret (0, s2))))"

text \<open>The interface mode of the device changes nothing: both buses are used at their compatibility ports.\<close>

definition ide_probe_pci_device :: "'d ide_env \<Rightarrow> addr \<Rightarrow> 'd ide_state \<Rightarrow> (int \<times> 'd ide_state) outcome option" where
  "ide_probe_pci_device E dev s =
     (let (_, i1) = interrupts_reqister_irq_isr IRQ_ATA1 (Some (Registered_isr (unat IRQ_ATA1))) (ide_idt s);
          (_, i2) = interrupts_reqister_irq_isr IRQ_ATA2 (Some (Registered_isr (unat IRQ_ATA2))) i1 in
      bind_run (ide_enumerate_bus E 0x1F0 0x3F6 dev (g_ata_driver E) (s\<lparr>ide_idt := i2\<rparr>)) (\<lambda>(_, s1).
      bind_run (ide_enumerate_bus E 0x170 0x376 dev (g_ata_driver E) s1) (\<lambda>(_, s2). Some (Ret (0, s2)))))"

text \<open>For the PCI bus the state of the driver is private; the memory allocator is shared.\<close>

definition ide_probe :: "'d ide_env \<Rightarrow> addr \<Rightarrow> 'd ide_state pci_state \<Rightarrow> (int \<times> 'd ide_state pci_state) outcome option" where
  "ide_probe E dev s =
     (let x = pc_priv s in
      bind_run (ide_probe_pci_device E dev (x\<lparr>ide_blk := (ide_blk x)\<lparr>bk_km := pc_km s\<rparr>\<rparr>)) (\<lambda>(r, x1).
        Some (Ret (r, s\<lparr>pc_km := bk_km (ide_blk x1), pc_priv := x1\<rparr>))))"

definition ide_pci_driver :: "'d ide_env \<Rightarrow> 'd ide_state PCIDeviceDriver" where
  "ide_pci_driver E = \<lparr>pdrv_class = 1, pdrv_subclass = 1, pdrv_probe = ide_probe E\<rparr>"

definition ide_blkdev_driver :: "addr \<Rightarrow> 'd BlockDeviceDriver" where
  "ide_blkdev_driver a = \<lparr>bdrv_init = None, bdrv_destroy = None\<rparr>"

definition ide_main :: "'d ide_env \<Rightarrow> addr \<Rightarrow> 'd ide_state pci_state \<Rightarrow> (unit result \<times> 'd ide_state pci_state) outcome option" where
  "ide_main E driver s =
     bind_run (pci_register_device_driver (ide_pci_driver E) driver s) (\<lambda>(st, s1).
       case st of
         Inl e \<Rightarrow> Some (Ret (Inl e, s1))
       | Inr _ \<Rightarrow>
           let x = pc_priv s1 in
           bind_run (blkdevm_register_blkdev_driver ide_blkdev_driver (g_ata_driver E) ((ide_blk x)\<lparr>bk_km := pc_km s1\<rparr>)) (\<lambda>(st, b).
             let s2 = s1\<lparr>pc_km := bk_km b, pc_priv := x\<lparr>ide_blk := b\<rparr>\<rparr> in
             case st of
               Inl e \<Rightarrow> bind_run (pci_unregister_device_driver driver s2) (\<lambda>(_, s3). Some (Ret (Inl e, s3)))
             | Inr _ \<Rightarrow> Some (Ret (Inr (), s2))))"

definition ide_exit :: "'d ide_env \<Rightarrow> 'd ide_state \<Rightarrow> (int \<times> 'd ide_state) outcome option" where
  "ide_exit E s =
     bind_run (blkdevm_unregister_blkdev_driver ide_blkdev_driver (g_ata_driver E) (ide_blk s)) (\<lambda>(_, b). Some (Ret (0, s\<lparr>ide_blk := b\<rparr>)))"

end
