(* ===== verification/AtaProps.thy ===== *)
theory AtaProps
  imports Ata
begin

text \<open>
  The disk driver against a reference drive: one drive on the bus, from the ATA standard, that is always ready at once.
\<close>

section \<open>The reference drive\<close>

text \<open>
  The registers keep the value that was written before, for the addresses of 48 bits. A transfer has the sector, the word
  in it and the number of sectors that are left.
\<close>

datatype transfer = Idle | Reading nat nat nat | Writing nat nat nat

record pio_drive =
  disk :: "nat \<Rightarrow> nat \<Rightarrow> u16"
  is_slave :: bool
  sel :: u8
  r_count :: "u8 \<times> u8"
  r_lo :: "u8 \<times> u8"
  r_mid :: "u8 \<times> u8"
  r_hi :: "u8 \<times> u8"
  xfer :: transfer

definition selected :: "pio_drive \<Rightarrow> bool" where
  "selected d \<longleftrightarrow> bit (sel d) 4 = is_slave d"

definition lba28_of :: "pio_drive \<Rightarrow> nat" where
  "lba28_of d = unat (sel d AND 0x0F) * 2 ^ 24 + unat (fst (r_hi d)) * 2 ^ 16 + unat (fst (r_mid d)) * 2 ^ 8 + unat (fst (r_lo d))"

definition lba48_of :: "pio_drive \<Rightarrow> nat" where
  "lba48_of d = unat (snd (r_hi d)) * 2 ^ 40 + unat (snd (r_mid d)) * 2 ^ 32 + unat (snd (r_lo d)) * 2 ^ 24 +
     unat (fst (r_hi d)) * 2 ^ 16 + unat (fst (r_mid d)) * 2 ^ 8 + unat (fst (r_lo d))"

text \<open>A count of 0 stands for 256 sectors, in commands with 48 bits for 65536.\<close>

definition count28_of :: "pio_drive \<Rightarrow> nat" where
  "count28_of d = (let n = unat (fst (r_count d)) in if n = 0 then 256 else n)"

definition count48_of :: "pio_drive \<Rightarrow> nat" where
  "count48_of d = (let n = unat (snd (r_count d)) * 256 + unat (fst (r_count d)) in if n = 0 then 65536 else n)"

definition pio_command :: "u8 \<Rightarrow> pio_drive \<Rightarrow> pio_drive" where
  "pio_command c d =
     (if \<not> selected d then d
      else if c = 0x20 then d\<lparr>xfer := Reading (lba28_of d) 0 (count28_of d)\<rparr>
      else if c = 0x24 then d\<lparr>xfer := Reading (lba48_of d) 0 (count48_of d)\<rparr>
      else if c = 0x30 then d\<lparr>xfer := Writing (lba28_of d) 0 (count28_of d)\<rparr>
      else if c = 0x34 then d\<lparr>xfer := Writing (lba48_of d) 0 (count48_of d)\<rparr>
      else d\<lparr>xfer := Idle\<rparr>)"

definition pio_outb :: "u16 \<Rightarrow> u8 \<Rightarrow> u16 \<Rightarrow> pio_drive \<Rightarrow> pio_drive" where
  "pio_outb base v p d =
     (if p = base + 2 then d\<lparr>r_count := (v, fst (r_count d))\<rparr>
      else if p = base + 3 then d\<lparr>r_lo := (v, fst (r_lo d))\<rparr>
      else if p = base + 4 then d\<lparr>r_mid := (v, fst (r_mid d))\<rparr>
      else if p = base + 5 then d\<lparr>r_hi := (v, fst (r_hi d))\<rparr>
      else if p = base + 6 then d\<lparr>sel := v\<rparr>
      else if p = base + 7 then pio_command v d
      else d)"

definition pio_status :: "pio_drive \<Rightarrow> u8" where
  "pio_status d = (if \<not> selected d then 0 else if xfer d = Idle then 0x40 else 0x48)"

definition pio_inb :: "u16 \<Rightarrow> u16 \<Rightarrow> pio_drive \<Rightarrow> u8 \<times> pio_drive" where
  "pio_inb base p d = (if p = base + 7 then pio_status d else 0, d)"

text \<open>After a word of a sector comes the next one, after the last one the next sector.\<close>

definition advance :: "(nat \<Rightarrow> nat \<Rightarrow> nat \<Rightarrow> transfer) \<Rightarrow> nat \<Rightarrow> nat \<Rightarrow> nat \<Rightarrow> transfer" where
  "advance C s i r = (if i + 1 < 256 then C s (i + 1) r else if r = 1 then Idle else C (s + 1) 0 (r - 1))"

definition pio_inw :: "u16 \<Rightarrow> u16 \<Rightarrow> pio_drive \<Rightarrow> u16 \<times> pio_drive" where
  "pio_inw base p d =
     (case xfer d of
        Reading s i r \<Rightarrow> if p = base \<and> selected d then (disk d s i, d\<lparr>xfer := advance Reading s i r\<rparr>) else (0, d)
      | _ \<Rightarrow> (0, d))"

definition pio_outw :: "u16 \<Rightarrow> u16 \<Rightarrow> u16 \<Rightarrow> pio_drive \<Rightarrow> pio_drive" where
  "pio_outw base v p d =
     (case xfer d of
        Writing s i r \<Rightarrow>
          if p = base \<and> selected d then d\<lparr>disk := (disk d)(s := (disk d s)(i := v)), xfer := advance Writing s i r\<rparr> else d
      | _ \<Rightarrow> d)"

definition pio_io :: "u16 \<Rightarrow> pio_drive ata_io" where
  "pio_io base =
     \<lparr>ata_ports = \<lparr>io_inb = pio_inb base, io_inw = pio_inw base, io_outb = pio_outb base, io_outw = pio_outw base\<rparr>,
      ata_clock = \<lambda>_. 0, ata_sleep = \<lambda>_ d. d\<rparr>"

section \<open>Commands\<close>

lemma pio_ports [simp]:
  "port_outb (ata_ports (pio_io base)) = pio_outb base" "port_inb (ata_ports (pio_io base)) = pio_inb base"
  "port_inw (ata_ports (pio_io base)) = pio_inw base" "port_outw (ata_ports (pio_io base)) = pio_outw base"
  "ata_sleep (pio_io base) n d = d" "ata_clock (pio_io base) d = 0"
  by (simp_all add: pio_io_def port_outb_def port_inb_def port_inw_def port_outw_def fun_eq_iff)

definition addressable :: "AtaStorageDevice \<Rightarrow> nat \<Rightarrow> nat \<Rightarrow> bool" where
  "addressable ata lba n \<longleftrightarrow>
     ata_type ata = ATA_TYPE_LBA28 \<and> lba + n \<le> 2 ^ 28 \<or> ata_type ata = ATA_TYPE_LBA48 \<and> lba + n \<le> 2 ^ 48 \<and> n < 256"

lemma unat_lba_byte: "unat (lba_byte lba k) = unat lba div 2 ^ k mod 256"
proof -
  have "unat lba mod 2 ^ 64 = unat lba" using unsigned_less [of lba] by (intro mod_less) simp
  then show ?thesis unfolding lba_byte_def unsigned_ucast_eq unsigned_drop_bit_eq by (simp add: drop_bit_eq_div take_bit_eq_mod)
qed

lemma digits:
  fixes a :: nat
  shows "a mod 2 ^ 24 = (a div 2 ^ 16 mod 256) * 2 ^ 16 + (a div 2 ^ 8 mod 256) * 2 ^ 8 + a mod 256"
    and "a mod 2 ^ 28 = (a div 2 ^ 24 mod 16) * 2 ^ 24 + a mod 2 ^ 24"
    and "a mod 2 ^ 48 = (a div 2 ^ 40 mod 256) * 2 ^ 40 + (a div 2 ^ 32 mod 256) * 2 ^ 32 + (a div 2 ^ 24 mod 256) * 2 ^ 24 + a mod 2 ^ 24"
proof -
  have d: "a mod (b * c) = b * (a div b mod c) + a mod b" for b c by (rule mod_mult2_eq)
  show "a mod 2 ^ 24 = (a div 2 ^ 16 mod 256) * 2 ^ 16 + (a div 2 ^ 8 mod 256) * 2 ^ 8 + a mod 256"
    using d [of "2 ^ 16" 256] d [of "2 ^ 8" 256] by simp
  show "a mod 2 ^ 28 = (a div 2 ^ 24 mod 16) * 2 ^ 24 + a mod 2 ^ 24" using d [of "2 ^ 24" 16] by simp
  show "a mod 2 ^ 48 = (a div 2 ^ 40 mod 256) * 2 ^ 40 + (a div 2 ^ 32 mod 256) * 2 ^ 32 + (a div 2 ^ 24 mod 256) * 2 ^ 24 + a mod 2 ^ 24"
    using d [of "2 ^ 40" 256] d [of "2 ^ 32" 256] d [of "2 ^ 24" 256] by simp
qed

lemma power_numeral_simps:
  "2 ^ 8 = (256 :: nat)" "2 ^ 16 = (65536 :: nat)" "2 ^ 24 = (16777216 :: nat)" "2 ^ 32 = (4294967296 :: nat)" "2 ^ 40 = (1099511627776 :: nat)"
  by simp_all

lemma sel_simps:
  "(0xE0 OR drive_bit ata OR (x AND 0x0F)) AND 0x0F = x AND 0x0F" "bit (0xE0 OR drive_bit ata OR (x AND 0x0F)) 4 = (\<not> master ata)"
  "bit (0x40 OR drive_bit ata) 4 = (\<not> master ata)"
proof -
  have m: "0x0F = (mask 4 :: u8)" by (simp add: mask_eq_exp_minus_1)
  have e: "0xE0 AND 0x0F = (0 :: u8)" "drive_bit ata AND 0x0F = 0" by (simp_all add: drive_bit_def)
  show "(0xE0 OR drive_bit ata OR (x AND 0x0F)) AND 0x0F = x AND 0x0F"
    by (simp only: bit.conj_disj_distrib2 e) (simp add: and.assoc)
  have b: "bit (0xE0 :: u8) 4 = False" "bit (0x40 :: u8) 4 = False" "bit (drive_bit ata) 4 = (\<not> master ata)" by (simp_all add: drive_bit_def)
  show "bit (0xE0 OR drive_bit ata OR (x AND 0x0F)) 4 = (\<not> master ata)"
    unfolding bit_or_iff b m bit_and_iff bit_mask_iff by simp
  show "bit (0x40 OR drive_bit ata) 4 = (\<not> master ata)" unfolding bit_or_iff b by simp
qed

lemma unat_low4: "unat (x AND 0x0F :: u8) = unat x mod 16"
proof -
  have "x AND 0x0F = take_bit 4 x" by (simp add: take_bit_eq_mask mask_eq_exp_minus_1)
  then have "unat (x AND 0x0F) = take_bit 4 (unat x)" by (simp only: unsigned_take_bit_eq)
  then show ?thesis by (simp add: take_bit_eq_mod)
qed

lemma pio_outb_regs:
  "pio_outb base v (ATA_REG_SECTOR base) d = d\<lparr>r_count := (v, fst (r_count d))\<rparr>"
  "pio_outb base v (ATA_REG_LBA_LO base) d = d\<lparr>r_lo := (v, fst (r_lo d))\<rparr>"
  "pio_outb base v (ATA_REG_LBA_MID base) d = d\<lparr>r_mid := (v, fst (r_mid d))\<rparr>"
  "pio_outb base v (ATA_REG_LBA_HI base) d = d\<lparr>r_hi := (v, fst (r_hi d))\<rparr>"
  "pio_outb base v (ATA_REG_DRIVE_SEL base) d = d\<lparr>sel := v\<rparr>"
  "pio_outb base v (ATA_REG_COMMAND base) d = pio_command v d"
  by (simp_all add: pio_outb_def ata_regs)

definition attached :: "AtaStorageDevice \<Rightarrow> u16 \<Rightarrow> pio_drive \<Rightarrow> bool" where
  "attached ata base d \<longleftrightarrow> portio ata = base \<and> is_slave d = (\<not> master ata)"

text \<open>What a command leaves behind, for the two commands of a direction \<open>C\<close>.\<close>

definition command_of :: "u8 \<Rightarrow> u8 \<Rightarrow> (nat \<Rightarrow> nat \<Rightarrow> nat \<Rightarrow> transfer) \<Rightarrow> bool" where
  "command_of c28 c48 C \<longleftrightarrow> c28 = 0x20 \<and> c48 = 0x24 \<and> C = Reading \<or> c28 = 0x30 \<and> c48 = 0x34 \<and> C = Writing"

lemma send_run:
  assumes "attached ata base d" and "addressable ata (unat lba) n" and "0 < n" and "command_of c28 c48 C"
  shows "\<exists>b d1. send_cmd c28 c48 (pio_io base) lba (atapio_internal_sectors (min n 256)) ata d = Ret (b, d1) \<and>
    disk d1 = disk d \<and> attached ata base d1 \<and> selected d1 \<and> xfer d1 = C (unat lba) 0 (min n 256)"
proof -
  let ?w = "min n 256"
  have base: "portio ata = base" "is_slave d = (\<not> master ata)" using assms(1) by (simp_all add: attached_def)
  show ?thesis
  proof (cases "ata_type ata = ATA_TYPE_LBA28")
    case True
    then have "unat lba < 2 ^ 28" using assms(2,3) by (auto simp: addressable_def ATA_TYPE_LBA28_def ATA_TYPE_LBA48_def)
    then have l: "unat lba mod 2 ^ 28 = unat lba" by simp
    have m: "unat lba div 2 ^ 24 mod 256 mod 16 = unat lba div 2 ^ 24 mod 16" by (simp add: mod_mod_cancel)
    have lba: "unat (lba_byte lba 24 AND 0x0F) * 2 ^ 24 + unat (lba_byte lba 16) * 2 ^ 16 + unat (lba_byte lba 8) * 2 ^ 8 + unat (lba_byte lba 0) = unat lba"
      unfolding unat_low4 unat_lba_byte m using digits(1,2) [of "unat lba"] l unfolding power_0 div_by_1 by linarith
    note lba = lba [unfolded power_numeral_simps]
    have cnt: "(let k = unat (ucast (atapio_internal_sectors ?w) :: u8) in if k = 0 then 256 else k) = ?w"
      using assms(3) by (simp add: atapio_internal_sectors_def unsigned_ucast_eq take_bit_eq_mod unsigned_of_nat Let_def)
    show ?thesis
      using True base assms(4)
      by (auto simp: send_cmd_def Let_def pio_outb_regs ATA_TYPE_LBA28_def ATA_TYPE_LBA48_def pio_command_def selected_def sel_simps command_of_def
          lba28_of_def lba count28_of_def cnt [unfolded Let_def] attached_def)
  next
    case False
    then have t: "ata_type ata = ATA_TYPE_LBA48" "unat lba < 2 ^ 48" "n < 256" using assms(2,3) by (auto simp: addressable_def)
    then have l: "unat lba mod 2 ^ 48 = unat lba" by simp
    have lba: "unat (lba_byte lba 40) * 2 ^ 40 + unat (lba_byte lba 32) * 2 ^ 32 + unat (lba_byte lba 24) * 2 ^ 24 +
        unat (lba_byte lba 16) * 2 ^ 16 + unat (lba_byte lba 8) * 2 ^ 8 + unat (lba_byte lba 0) = unat lba"
      unfolding unat_lba_byte using digits(1,3) [of "unat lba"] l unfolding power_0 div_by_1 by linarith
    note lba = lba [unfolded power_numeral_simps]
    have u: "unat (atapio_internal_sectors ?w) = n" using t(3) by (simp add: atapio_internal_sectors_def unsigned_of_nat take_bit_eq_mod)
    have w: "?w = n" using t(3) by simp
    have cnt: "unat (ucast (drop_bit 8 (atapio_internal_sectors n)) :: u8) = 0" "unat (ucast (atapio_internal_sectors n) :: u8) = n"
      using t(3) unfolding unsigned_ucast_eq unsigned_drop_bit_eq u [unfolded w] by (simp_all add: drop_bit_eq_div take_bit_eq_mod)
    show ?thesis
      using t(1) base assms(3,4)
      by (auto simp: send_cmd_def Let_def pio_outb_regs ATA_TYPE_LBA28_def ATA_TYPE_LBA48_def pio_command_def selected_def sel_simps command_of_def
          lba48_of_def lba count48_of_def cnt w attached_def)
  qed
qed

section \<open>Transfers\<close>

definition w_byte :: "u16 \<Rightarrow> nat \<Rightarrow> u8" where
  "w_byte w k = (if k mod 2 = 0 then ucast w else ucast (drop_bit 8 w AND 0xFF))"

definition sector_bytes :: "(nat \<Rightarrow> u16) \<Rightarrow> nat \<Rightarrow> u8" where
  "sector_bytes ws k = w_byte (ws (k div 2)) k"

text \<open>A buffer with the bytes of a sector from a word on.\<close>

definition filled :: "(nat \<Rightarrow> u16) \<Rightarrow> nat \<Rightarrow> nat \<Rightarrow> buffer \<Rightarrow> buffer" where
  "filled ws i n dest = (\<lambda>k. if i * 2 \<le> k \<and> k < (i + n) * 2 then sector_bytes ws k else dest k)"

lemma filled_step:
  "filled ws (i + 1) n (dest(i * 2 := ucast (ws i), i * 2 + 1 := ucast (drop_bit 8 (ws i) AND 0xFF))) = filled ws i (Suc n) dest"
proof
  fix k
  have "k = i * 2 \<or> k = i * 2 + 1 \<or> k < i * 2 \<or> (i + 1) * 2 \<le> k" by presburger
  then show "filled ws (i + 1) n (dest(i * 2 := ucast (ws i), i * 2 + 1 := ucast (drop_bit 8 (ws i) AND 0xFF))) k = filled ws i (Suc n) dest k"
    by (elim disjE) (auto simp: filled_def sector_bytes_def w_byte_def)
qed

definition after :: "(nat \<Rightarrow> nat \<Rightarrow> nat \<Rightarrow> transfer) \<Rightarrow> nat \<Rightarrow> nat \<Rightarrow> nat \<Rightarrow> transfer" where
  "after C s i r = (if i < 256 then C s i r else if r = 1 then Idle else C (s + 1) 0 (r - 1))"

lemma read_data_run:
  assumes "selected d" and "xfer d = Reading s i r" and "i + n \<le> 256" and "0 < n"
  shows "read_data (ata_ports (pio_io base)) base i n dest d = (filled (disk d s) i n dest, d\<lparr>xfer := after Reading s (i + n) r\<rparr>)"
  using assms
proof (induction n arbitrary: i dest d)
  case (Suc n)
  let ?d1 = "d\<lparr>xfer := advance Reading s i r\<rparr>"
  have w: "pio_inw base base d = (disk d s i, ?d1)" using Suc.prems by (simp add: pio_inw_def)
  have dest: "filled (disk d s) (i + 1) n (dest(i * 2 := ucast (disk d s i), i * 2 + 1 := ucast (drop_bit 8 (disk d s i) AND 0xFF)))
      = filled (disk d s) i (Suc n) dest" by (rule filled_step)
  show ?case
  proof (cases "n = 0")
    case True
    have f: "filled ws (i + 1) 0 b = b" for ws b by (rule ext) (auto simp: filled_def)
    show ?thesis using True w dest [unfolded True f] Suc.prems by (auto simp: ATA_REG_DATA_def Let_def advance_def after_def)
  next
    case False
    have "selected ?d1" "xfer ?d1 = Reading s (i + 1) r" using Suc.prems False by (auto simp: selected_def advance_def)
    from Suc.IH [OF this] Suc.prems False w dest show ?thesis by (simp add: ATA_REG_DATA_def Let_def)
  qed
qed simp

lemma ready_run:
  assumes "selected d" and "xfer d \<noteq> Idle" and "attached ata base d"
  shows "atapio_wait_for_ready (pio_io base) 200 ata d = Some (True, d)"
  using assms
  by (simp add: atapio_wait_for_ready_def ready_loop.simps late_def attached_def pio_inb_def ATA_REG_STATUS_def pio_status_def
      ATA_STATUS_BSY_def ATA_STATUS_DRQ_def)

lemma read_sectors_run:
  assumes "selected d" and "attached ata base d" and "xfer d = Reading s 0 n" and "0 < n"
  shows "read_sectors (pio_io base) ata k n dest d = Some (filled (disk d (s + n - 1)) 0 256 dest, d\<lparr>xfer := Idle\<rparr>)"
  using assms
proof (induction n arbitrary: s k dest d)
  case (Suc n)
  have ready: "atapio_wait_for_ready (pio_io base) ATA_READ_TIMEOUT_MS ata d = Some (True, d)"
    using ready_run [OF Suc.prems(1) _ Suc.prems(2)] Suc.prems(3) by (simp add: ATA_READ_TIMEOUT_MS_def)
  have p: "portio ata = base" using Suc.prems(2) by (simp add: attached_def)
  have "read_data (ata_ports (pio_io base)) base 0 256 dest d = (filled (disk d s) 0 256 dest, d\<lparr>xfer := after Reading s 256 (Suc n)\<rparr>)"
    using read_data_run [OF Suc.prems(1,3), of 256] by simp
  then have step: "read_sectors (pio_io base) ata k (Suc n) dest d =
      read_sectors (pio_io base) ata (k + 1) n (filled (disk d s) 0 256 dest) (d\<lparr>xfer := after Reading s 256 (Suc n)\<rparr>)"
    using ready p by (simp add: Let_def del: read_data.simps)
  show ?case
  proof (cases "n = 0")
    case False
    let ?d1 = "d\<lparr>xfer := after Reading s 256 (Suc n)\<rparr>"
    have "selected ?d1" "attached ata base ?d1" "xfer ?d1 = Reading (s + 1) 0 n"
      using Suc.prems False by (auto simp: selected_def attached_def after_def)
    from Suc.IH [OF this, of "k + 1" "filled (disk d s) 0 256 dest"] False
    have "read_sectors (pio_io base) ata (k + 1) n (filled (disk d s) 0 256 dest) ?d1 =
        Some (filled (disk d (s + n)) 0 256 (filled (disk d s) 0 256 dest), d\<lparr>xfer := Idle\<rparr>)" by simp
    moreover have "filled ws 0 256 (filled ws' 0 256 dest) = filled ws 0 256 dest" for ws ws' by (auto simp: filled_def)
    ultimately show ?thesis unfolding step by simp
  qed (use step in \<open>simp add: after_def\<close>)
qed simp

lemma addressable_step:
  assumes "addressable ata l n" and "0 < n"
  shows "addressable ata (l + min n 256) (n - min n 256)"
  using assms by (auto simp: addressable_def min_def)

lemma unat_lba_add:
  assumes "addressable ata (unat lba) n"
  shows "unat (lba + of_nat (min n 256) :: u64) = unat lba + min n 256"
proof -
  have "unat lba + min n 256 < 2 ^ 64" using assms by (auto simp: addressable_def min_def)
  moreover have "unat (of_nat (min n 256) :: u64) = min n 256" by (simp add: unsigned_of_nat take_bit_eq_mod)
  ultimately show ?thesis by (simp add: unat_word_ariths)
qed

lemma ata_read_loop_run:
  assumes "attached ata base d" and "addressable ata (unat lba) n" and "0 < n"
  shows "\<exists>d1. ata_read_loop (pio_io base) ata lba n dest d = Some (Ret (0, filled (disk d (unat lba + n - 1)) 0 256 dest, d1)) \<and>
    disk d1 = disk d \<and> attached ata base d1"
  using assms
proof (induction n arbitrary: lba dest d rule: less_induct)
  case (less n)
  let ?w = "min n 256"
  obtain b d1 where s: "atapio_send_read_cmd (pio_io base) lba (atapio_internal_sectors ?w) ata d = Ret (b, d1)" "disk d1 = disk d"
      "attached ata base d1" "selected d1" "xfer d1 = Reading (unat lba) 0 ?w"
    using send_run [OF less.prems(1,2,3), of "0x20" "0x24" Reading] by (auto simp: command_of_def atapio_send_read_cmd_def)
  have w: "0 < ?w" using less.prems(3) by simp
  note r = read_sectors_run [OF s(4,3,5) w, of 0 dest]
  let ?d2 = "d1\<lparr>xfer := Idle\<rparr>" and ?b = "filled (disk d (unat lba + ?w - 1)) 0 256 dest"
  have step: "ata_read_loop (pio_io base) ata lba n dest d = ata_read_loop (pio_io base) ata (lba + of_nat ?w) (n - ?w) ?b ?d2"
    unfolding ata_read_loop.simps [of _ _ _ n] using less.prems(3) s(1,2) r by (simp add: Let_def del: of_nat_min)
  have a2: "attached ata base ?d2" using s(3) by (simp add: attached_def)
  show ?case
  proof (cases "n - ?w = 0")
    case True
    then have "?w = n" by simp
    then show ?thesis unfolding step True using a2 s(2) by (simp add: ata_read_loop.simps)
  next
    case False
    have ad: "addressable ata (unat (lba + of_nat ?w)) (n - ?w)" unfolding unat_lba_add [OF less.prems(2)]
      by (rule addressable_step [OF less.prems(2,3)])
    have lt: "n - ?w < n" using less.prems(3) by simp
    obtain d3 where d3: "ata_read_loop (pio_io base) ata (lba + of_nat ?w) (n - ?w) ?b ?d2 =
        Some (Ret (0, filled (disk ?d2 (unat (lba + of_nat ?w) + (n - ?w) - 1)) 0 256 ?b, d3))" "disk d3 = disk ?d2" "attached ata base d3"
      using less.IH [OF lt a2 ad] False by blast
    have "unat (lba + of_nat ?w) + (n - ?w) - 1 = unat lba + n - 1" unfolding unat_lba_add [OF less.prems(2)] by simp
    moreover have "filled ws 0 256 (filled ws' 0 256 dest) = filled ws 0 256 dest" for ws ws' by (auto simp: filled_def)
    ultimately show ?thesis unfolding step using d3 s(2) by simp
  qed
qed

text \<open>
  C37: what a read of a disk returns. With a range outside the disk it fails and nothing happens; otherwise it returns 0, and the buffer has the
  bytes of the last sector of the range at its start, whatever the number of sectors: the other sectors have been overwritten. One sector is
  read correctly. With 48 bit addresses this needs less than 256 sectors.
\<close>
theorem atapio_read_last_sector:
  assumes "attached ata base d" and "addressable ata (unat lba) (unat n)"
  shows "if \<not> atapio_is_valid_range lba n dev then atapio_read (pio_io base) ata dev lba n dest d = Some (Ret (-22, dest, d))
    else \<exists>d1. atapio_read (pio_io base) ata dev lba n dest d =
        Some (Ret (0, \<lambda>k. if k < 512 then sector_bytes (disk d (unat lba + unat n - 1)) k else dest k, d1)) \<and> disk d1 = disk d"
proof (cases "atapio_is_valid_range lba n dev")
  case True
  then have "0 < unat n" by (auto simp: atapio_is_valid_range_def unat_gt_0)
  from ata_read_loop_run [OF assms this, of dest] True show ?thesis by (auto simp: atapio_read_def filled_def cong: if_cong)
qed (simp add: atapio_read_def)

definition demo_ata :: AtaStorageDevice where
  "demo_ata = \<lparr>portio = 0x1F0, portctl = 0x3F6, master = True, ata_type = 2, ata_dma = False, controller = 0\<rparr>"

definition demo_drive :: pio_drive where
  "demo_drive = \<lparr>disk = \<lambda>s i. of_nat s, is_slave = False, sel = 0, r_count = (0, 0), r_lo = (0, 0), r_mid = (0, 0), r_hi = (0, 0), xfer = Idle\<rparr>"

definition demo_ata_blkdev :: BlockDevice where
  "demo_ata_blkdev = \<lparr>bd_name = None, bd_type = None, sectorsize = 512, bd_uuid = None, bd_sector_count = 1000\<rparr>"

theorem atapio_read_last_sector_witness:
  "\<exists>b d1. atapio_read (pio_io 0x1F0) demo_ata demo_ata_blkdev 5 3 (\<lambda>_. 0) demo_drive = Some (Ret (0, b, d1)) \<and> b 0 = 7"
proof -
  have a: "attached demo_ata 0x1F0 demo_drive" "addressable demo_ata (unat (5 :: u64)) (unat (3 :: u64))"
    by (simp_all add: attached_def demo_ata_def demo_drive_def addressable_def ATA_TYPE_LBA28_def)
  have v: "atapio_is_valid_range 5 3 demo_ata_blkdev" by (simp add: atapio_is_valid_range_def demo_ata_blkdev_def)
  from atapio_read_last_sector [OF a, of demo_ata_blkdev "\<lambda>_. 0"] v show ?thesis
    by (auto simp: sector_bytes_def w_byte_def demo_drive_def)
qed

section \<open>Writing\<close>

definition src_word :: "buffer \<Rightarrow> nat \<Rightarrow> u16" where
  "src_word src i = push_bit 8 (ucast (src (i * 2 + 1))) OR ucast (src (i * 2))"

definition put_words :: "(nat \<Rightarrow> nat \<Rightarrow> u16) \<Rightarrow> nat \<Rightarrow> nat \<Rightarrow> nat \<Rightarrow> buffer \<Rightarrow> nat \<Rightarrow> nat \<Rightarrow> u16" where
  "put_words D s i n src = D(s := (\<lambda>k. if i \<le> k \<and> k < i + n then src_word src k else D s k))"

lemma put_words_step: "put_words (D(s := (D s)(i := src_word src i))) s (i + 1) n src = put_words D s i (Suc n) src"
  by (rule ext, rule ext) (auto simp: put_words_def)

lemma put_words_none: "put_words D s i 0 src = D"
  by (rule ext, rule ext) (auto simp: put_words_def)

lemma write_data_run:
  assumes "selected d" and "xfer d = Writing s i r" and "i + n \<le> 256" and "0 < n"
  shows "write_data (pio_io base) base i n src d = d\<lparr>disk := put_words (disk d) s i n src, xfer := after Writing s (i + n) r\<rparr>"
  using assms
proof (induction n arbitrary: i d)
  case (Suc n)
  obtain D where D: "(disk d)(s := (disk d s)(i := src_word src i)) = D" by simp
  let ?d1 = "d\<lparr>disk := D, xfer := advance Writing s i r\<rparr>"
  have w: "pio_outw base (src_word src i) base d = ?d1" using Suc.prems by (simp add: pio_outw_def D)
  have step: "write_data (pio_io base) base i (Suc n) src d = write_data (pio_io base) base (i + 1) n src ?d1"
    using w by (simp add: ATA_REG_DATA_def Let_def src_word_def)
  show ?case
  proof (cases "n = 0")
    case True
    then show ?thesis unfolding step
      using Suc.prems put_words_step [of "disk d" s i src 0, unfolded D] by (simp add: put_words_none advance_def after_def)
  next
    case False
    have "selected ?d1" "xfer ?d1 = Writing s (i + 1) r" using Suc.prems False by (auto simp: selected_def advance_def)
    from Suc.IH [OF this] Suc.prems False show ?thesis unfolding step
      using put_words_step [of "disk d" s i src n, unfolded D] by simp
  qed
qed simp

definition put_sectors :: "(nat \<Rightarrow> nat \<Rightarrow> u16) \<Rightarrow> nat \<Rightarrow> nat \<Rightarrow> buffer \<Rightarrow> nat \<Rightarrow> nat \<Rightarrow> u16" where
  "put_sectors D s n src = (\<lambda>t k. if s \<le> t \<and> t < s + n \<and> k < 256 then src_word src k else D t k)"

lemma put_sectors_one: "put_words D s 0 256 src = put_sectors D s 1 src"
  by (rule ext, rule ext) (auto simp: put_words_def put_sectors_def)

lemma put_sectors_add: "put_sectors (put_sectors D s m src) (s + m) n src = put_sectors D s (m + n) src"
  by (rule ext, rule ext) (auto simp: put_sectors_def)

lemma write_sectors_run:
  assumes "selected d" and "attached ata base d" and "xfer d = Writing s 0 n" and "0 < n"
  shows "write_sectors (pio_io base) ata k n src d = Some (d\<lparr>disk := put_sectors (disk d) s n src, xfer := Idle\<rparr>)"
  using assms
proof (induction n arbitrary: s k d)
  case (Suc n)
  have ready: "atapio_wait_for_ready (pio_io base) ATA_READ_TIMEOUT_MS ata d = Some (True, d)"
    using ready_run [OF Suc.prems(1) _ Suc.prems(2)] Suc.prems(3) by (simp add: ATA_READ_TIMEOUT_MS_def)
  have p: "portio ata = base" using Suc.prems(2) by (simp add: attached_def)
  let ?d1 = "d\<lparr>disk := put_sectors (disk d) s 1 src, xfer := after Writing s 256 (Suc n)\<rparr>"
  have "write_data (pio_io base) base 0 256 src d = ?d1"
    using write_data_run [OF Suc.prems(1,3), of 256 base src] put_sectors_one [of "disk d" s src] by simp
  then have step: "write_sectors (pio_io base) ata k (Suc n) src d = write_sectors (pio_io base) ata (k + 1) n src ?d1"
    using ready p by (simp add: Let_def del: write_data.simps)
  show ?case
  proof (cases "n = 0")
    case False
    have "selected ?d1" "attached ata base ?d1" "xfer ?d1 = Writing (s + 1) 0 n"
      using Suc.prems False by (auto simp: selected_def attached_def after_def)
    from Suc.IH [OF this, of "k + 1"] False show ?thesis unfolding step
      using put_sectors_add [of "disk d" s 1 src n] by simp
  qed (use step in \<open>simp add: after_def\<close>)
qed simp

lemma flush_run:
  assumes "selected d" and "attached ata base d"
  shows "atapio_flush_sectors (pio_io base) ms ata d = Some (True, d\<lparr>xfer := Idle\<rparr>)"
  using assms
  by (simp add: atapio_flush_sectors_def flush_loop.simps attached_def pio_outb_regs pio_command_def pio_inb_def ATA_REG_STATUS_def pio_status_def
      selected_def ATA_STATUS_BSY_def Let_def)

lemma ata_write_loop_run:
  assumes "attached ata base d" and "addressable ata (unat lba) n" and "0 < n"
  shows "\<exists>d1. ata_write_loop (pio_io base) ata lba n src d = Some (Ret (0, d1)) \<and>
    disk d1 = put_sectors (disk d) (unat lba) n src \<and> attached ata base d1"
  using assms
proof (induction n arbitrary: lba d rule: less_induct)
  case (less n)
  let ?w = "min n 256"
  obtain b d1 where s: "atapio_send_write_cmd (pio_io base) lba (atapio_internal_sectors ?w) ata d = Ret (b, d1)" "disk d1 = disk d"
      "attached ata base d1" "selected d1" "xfer d1 = Writing (unat lba) 0 ?w"
    using send_run [OF less.prems(1,2,3), of "0x30" "0x34" Writing] by (auto simp: command_of_def atapio_send_write_cmd_def)
  have w: "0 < ?w" using less.prems(3) by simp
  let ?d2 = "d1\<lparr>disk := put_sectors (disk d) (unat lba) ?w src, xfer := Idle\<rparr>"
  have wr: "write_sectors (pio_io base) ata 0 ?w src d1 = Some ?d2" using write_sectors_run [OF s(4,3,5) w, of 0 src] s(2) by simp
  have a2: "attached ata base ?d2" "selected ?d2" using s(3,4) by (simp_all add: attached_def selected_def)
  have fl: "atapio_flush_sectors (pio_io base) ATA_FLUSH_SECTORS_TIMEOUT_MS ata ?d2 = Some (True, ?d2)"
    using flush_run [OF a2(2,1)] by simp
  have step: "ata_write_loop (pio_io base) ata lba n src d = ata_write_loop (pio_io base) ata (lba + of_nat ?w) (n - ?w) src ?d2"
    unfolding ata_write_loop.simps [of _ _ _ n] using less.prems(3) s(1) wr fl by (simp add: Let_def del: of_nat_min)
  show ?case
  proof (cases "n - ?w = 0")
    case True
    then have "?w = n" by simp
    then show ?thesis unfolding step True using a2(1) by (simp add: ata_write_loop.simps)
  next
    case False
    have ad: "addressable ata (unat (lba + of_nat ?w)) (n - ?w)" unfolding unat_lba_add [OF less.prems(2)]
      by (rule addressable_step [OF less.prems(2,3)])
    have lt: "n - ?w < n" using less.prems(3) by simp
    obtain d3 where d3: "ata_write_loop (pio_io base) ata (lba + of_nat ?w) (n - ?w) src ?d2 = Some (Ret (0, d3))"
        "disk d3 = put_sectors (disk ?d2) (unat (lba + of_nat ?w)) (n - ?w) src" "attached ata base d3"
      using less.IH [OF lt a2(1) ad] False by blast
    have "disk d3 = put_sectors (disk d) (unat lba) n src"
      using d3(2) put_sectors_add [of "disk d" "unat lba" ?w src "n - ?w"] unfolding unat_lba_add [OF less.prems(2)] by simp
    then show ?thesis unfolding step using d3(1,3) by blast
  qed
qed

text \<open>
  A write to a disk puts the first 512 bytes of the buffer into every sector of the range.
\<close>
theorem atapio_write_same_sector:
  assumes "attached ata base d" and "addressable ata (unat lba) (unat n)" and "atapio_is_valid_range lba n dev"
  shows "\<exists>d1. atapio_write (pio_io base) ata dev lba n src d = Some (Ret (0, d1)) \<and>
    disk d1 = (\<lambda>s k. if unat lba \<le> s \<and> s < unat lba + unat n \<and> k < 256 then src_word src k else disk d s k)"
proof -
  have "0 < unat n" using assms(3) by (auto simp: atapio_is_valid_range_def unat_gt_0)
  from ata_write_loop_run [OF assms(1,2) this, of src] assms(3) show ?thesis by (auto simp: atapio_write_def put_sectors_def)
qed

end
