(* ===== verification/IdeProps.thy ===== *)
theory IdeProps
  imports Ide AtaProps
begin

text \<open>
  The identification of a drive: what is taken from its 256 words, and the names that drives get.
\<close>

section \<open>Words\<close>

lemma sum_below:
  fixes a b :: nat
  assumes "a < 2 ^ k" and "b < 2 ^ m"
  shows "a + b * 2 ^ k < 2 ^ (k + m)"
proof -
  have "a + b * 2 ^ k < (b + 1) * 2 ^ k" using assms(1) by simp
  also have "\<dots> \<le> 2 ^ m * 2 ^ k" using assms(2) by (intro mult_le_mono) simp_all
  finally show ?thesis by (simp add: power_add mult.commute)
qed

lemma unat_or_push:
  fixes a b :: u64
  assumes "unat a < 2 ^ k" and "unat b < 2 ^ m" and "k + m \<le> 64"
  shows "unat (push_bit k b OR a) = unat a + unat b * 2 ^ k"
proof -
  have lo: "take_bit k a = a" by (intro word_unat_eq_iff [THEN iffD2]) (use assms(1) in \<open>simp add: unsigned_take_bit_eq take_bit_nat_eq_self\<close>)
  have d: "\<not> bit a n \<or> \<not> bit (push_bit k b) n" for n
  proof (cases "n < k")
    case False
    then have "\<not> bit (take_bit k a) n" by (simp add: bit_take_bit_iff)
    then show ?thesis unfolding lo by simp
  qed (simp add: bit_push_bit_iff)
  have "(2 :: nat) ^ (k + m) \<le> 2 ^ 64" using assms(3) by (intro power_increasing) simp_all
  then have lt: "unat a + unat b * 2 ^ k < 2 ^ 64" using sum_below [OF assms(1,2)] by linarith
  have "unat (push_bit k b) = take_bit 64 (push_bit k (unat b))" by (simp add: unsigned_push_bit_eq)
  then have p: "unat (push_bit k b) = unat b * 2 ^ k" using lt by (simp add: push_bit_eq_mult take_bit_eq_mod)
  have s: "a + push_bit k b = a OR push_bit k b" using d by (rule disjunctive_add)
  have "unat (a + push_bit k b) = unat a + unat b * 2 ^ k" using lt by (simp add: unat_word_ariths p)
  then show ?thesis unfolding s by (simp add: or.commute)
qed

lemma unat_word_bound: "unat (ucast (w :: u16) :: u64) = unat w" "unat w < 2 ^ 16"
proof -
  have "unat w < 2 ^ LENGTH(16)" by (rule unsigned_less)
  then show w: "unat w < 2 ^ 16" by simp
  then have "unat w < 2 ^ 64" by simp
  then show "unat (ucast w :: u64) = unat w" by (simp add: unsigned_ucast_eq take_bit_nat_eq_self)
qed

lemma high_word_unsigned:
  assumes "unat w < 2 ^ 15"
  shows "high_word w = push_bit 16 (ucast w)"
proof (rule bit_word_eqI)
  fix n assume n: "n < LENGTH(64)"
  have top: "\<not> bit w 15"
  proof
    assume "bit w 15"
    then have "bit (unat w) 15" by (simp add: bit_unsigned_iff)
    then show False using assms by (simp add: bit_iff_odd)
  qed
  have b: "bit (push_bit 16 (ucast w :: u32)) k \<longleftrightarrow> 16 \<le> k \<and> k < 32 \<and> bit w (k - 16)" for k
    by (auto simp: bit_push_bit_iff bit_unsigned_iff)
  have "\<not> bit w (n - 16)" if "31 \<le> n"
    using top that bit_imp_le_length [of w "n - 16"] by (cases "n = 31") auto
  then show "bit (high_word w) n \<longleftrightarrow> bit (push_bit 16 (ucast w :: u64)) n"
    using n top unfolding high_word_def bit_signed_iff b bit_push_bit_iff bit_unsigned_iff by (auto simp: min_def not_less)
qed

section \<open>The loop over the words\<close>

text \<open>A drive that delivers words one after the other.\<close>

definition stream_in :: "u16 \<Rightarrow> u16 list \<Rightarrow> u16 \<times> u16 list" where
  "stream_in p ws = (case ws of [] \<Rightarrow> (0, []) | w # ws \<Rightarrow> (w, ws))"

definition words_io :: "u16 list port_io" where
  "words_io = \<lparr>io_inb = \<lambda>p d. (0, d), io_inw = stream_in, io_outb = \<lambda>v p d. d, io_outw = \<lambda>v p d. d\<rparr>"

lemma stream_next:
  assumes "i < length ws"
  shows "port_inw words_io p (drop i ws) = (ws ! i, drop (Suc i) ws)"
  using assms by (simp add: port_inw_def words_io_def stream_in_def Cons_nth_drop_Suc [symmetric])

definition special :: "nat set" where "special = {60, 83, 88, 100}"

lemma ident_skip:
  assumes "length ws = 256" and "i + n \<le> 256" and "\<forall>j. i \<le> j \<and> j < i + n \<longrightarrow> j \<notin> special"
  shows "ident_loop words_io bus i r (drop i ws) = ident_loop words_io bus (i + n) r (drop (i + n) ws)"
  using assms
proof (induction n arbitrary: i)
  case (Suc n)
  have i: "i < 256" "i < length ws" "i \<notin> special" using Suc.prems by auto
  have "ident_loop words_io bus i r (drop i ws) = ident_loop words_io bus (i + 1) r (drop (i + 1) ws)"
    using i by (subst ident_loop.simps) (simp add: stream_next special_def)
  also have "\<dots> = ident_loop words_io bus (i + 1 + n) r (drop (i + 1 + n) ws)" by (rule Suc.IH) (use Suc.prems in auto)
  finally show ?case by simp
qed simp

definition sectors28 :: "u16 list \<Rightarrow> nat" where
  "sectors28 ws = unat (ws ! 60) + unat (ws ! 61) * 2 ^ 16"

definition sectors48 :: "u16 list \<Rightarrow> nat" where
  "sectors48 ws = unat (ws ! 100) + unat (ws ! 101) * 2 ^ 16 + unat (ws ! 102) * 2 ^ 32 + unat (ws ! 103) * 2 ^ 48"

lemma unat_two_words:
  fixes a b :: u16
  shows "unat (push_bit 16 (ucast b) OR ucast a :: u64) = unat a + unat b * 2 ^ 16"
proof -
  have "unat (push_bit 16 (ucast b) OR ucast a :: u64) = unat (ucast a :: u64) + unat (ucast b :: u64) * 2 ^ 16"
    by (rule unat_or_push [where m = 16]) (use unat_word_bound in simp_all)
  then show ?thesis by (simp only: unat_word_bound(1))
qed

lemma ucast_tmp: "ucast (ucast a OR push_bit 16 (ucast b) :: u32) = (push_bit 16 (ucast b) OR ucast a :: u64)" for a b :: u16
proof (rule bit_word_eqI)
  fix n assume "n < LENGTH(64)"
  then show "bit (ucast (ucast a OR push_bit 16 (ucast b) :: u32) :: u64) n = bit (push_bit 16 (ucast b) OR ucast a :: u64) n"
    using bit_imp_le_length [of b "n - 16"] bit_imp_le_length [of a n]
    by (auto simp: bit_unsigned_iff bit_or_iff bit_push_bit_iff)
qed

text \<open>
  C38: from the 256 words of a drive that can be addressed with 48 bits the identification takes the number of sectors in words 100 to 103,
  from others the one in words 60 and 61, with the flags from words 83 and 88, and reads all the words.
\<close>
theorem ident_words:
  assumes "length ws = 256" and "unat (ws ! 61) < 2 ^ 15" and "unat (ws ! 103) < 2 ^ 15"
  shows "let lba48 = bit (ws ! 83) 10;
      (r, rest) = ident_loop words_io bus 0 \<lparr>id_sectors = 0, id_type = ATA_TYPE_UNKNOWN, id_dma = False\<rparr> ws in
    unat (id_sectors r) = (if lba48 then sectors48 ws else sectors28 ws) \<and>
    id_type r = (if lba48 then ATA_TYPE_LBA48 else ATA_TYPE_UNKNOWN) \<and> id_dma r = (drop_bit 8 (ws ! 88) \<noteq> 0) \<and> rest = []"
proof -
  let ?L = "ident_loop words_io bus"
  let ?r0 = "\<lparr>id_sectors = 0, id_type = ATA_TYPE_UNKNOWN, id_dma = False\<rparr>"
  let ?n28 = "ucast (ws ! 60) OR high_word (ws ! 61)"
  let ?r1 = "?r0\<lparr>id_sectors := ?n28\<rparr>"
  let ?r2 = "if (ws ! 83) AND push_bit 10 1 \<noteq> 0 then ?r1\<lparr>id_type := ATA_TYPE_LBA48\<rparr> else ?r1"
  let ?r3 = "?r2\<lparr>id_dma := (drop_bit 8 (ws ! 88) \<noteq> 0)\<rparr>"
  let ?n48 = "push_bit 32 (ucast (ws ! 102) OR high_word (ws ! 103)) OR ucast (ucast (ws ! 100) OR push_bit 16 (ucast (ws ! 101)) :: u32)"
  have l: "i < length ws" if "i < 256" for i using assms(1) that by simp
  have nx: "port_inw words_io (ATA_REG_DATA bus) (drop i ws) = (ws ! i, drop (Suc i) ws)" if "i < 256" for i
    by (rule stream_next [OF l [OF that]])
  have nx': "port_inw words_io (ATA_REG_DATA bus) (drop (numeral k) ws) = (ws ! numeral k, drop (numeral k + 1) ws)" if "numeral k < (256 :: nat)" for k
    using nx [OF that] by simp
  have "?L 0 ?r0 ws = ?L 60 ?r0 (drop 60 ws)" using ident_skip [OF assms(1), of 0 60 bus ?r0] by (auto simp: special_def)
  also have "\<dots> = ?L 62 ?r1 (drop 62 ws)" by (subst ident_loop.simps) (simp add: nx')
  also have "\<dots> = ?L 83 ?r1 (drop 83 ws)" using ident_skip [OF assms(1), of 62 21 bus ?r1] by (auto simp: special_def)
  also have "\<dots> = ?L 84 ?r2 (drop 84 ws)" by (subst ident_loop.simps) (simp add: nx')
  also have "\<dots> = ?L 88 ?r2 (drop 88 ws)" using ident_skip [OF assms(1), of 84 4 bus ?r2] by (auto simp: special_def)
  also have "\<dots> = ?L 89 ?r3 (drop 89 ws)" by (subst ident_loop.simps) (simp add: nx')
  also have "\<dots> = ?L 100 ?r3 (drop 100 ws)" using ident_skip [OF assms(1), of 89 11 bus ?r3] by (auto simp: special_def)
  finally have 100: "?L 0 ?r0 ws = ?L 100 ?r3 (drop 100 ws)" .
  have t: "(ws ! 83) AND push_bit 10 1 \<noteq> 0 \<longleftrightarrow> bit (ws ! 83) 10"
    unfolding push_bit_of_1 and_exp_eq_0_iff_not_bit by simp
  have t': "(ws ! 83) AND 1024 = 0 \<longleftrightarrow> \<not> bit (ws ! 83) 10" using t [simplified] by blast
  have n28: "unat ?n28 = sectors28 ws"
    using unat_two_words [of "ws ! 61" "ws ! 60"] by (simp add: high_word_unsigned [OF assms(2)] sectors28_def or.commute)
  have n48: "unat ?n48 = sectors48 ws"
  proof -
    let ?lo = "push_bit 16 (ucast (ws ! 101)) OR ucast (ws ! 100) :: u64" and ?hi = "push_bit 16 (ucast (ws ! 103)) OR ucast (ws ! 102) :: u64"
    have "unat (ws ! k) + unat (ws ! m) * 2 ^ 16 < 2 ^ 32" for k m
      using sum_below [OF unat_word_bound(2) unat_word_bound(2), of "ws ! k" "ws ! m"] by simp
    then have "unat (push_bit 32 ?hi OR ?lo) = unat ?lo + unat ?hi * 2 ^ 32"
      by (intro unat_or_push [where m = 32]) (simp_all add: unat_two_words)
    moreover have "?n48 = push_bit 32 ?hi OR ?lo" unfolding ucast_tmp high_word_unsigned [OF assms(3)] by (simp add: or.commute)
    ultimately show ?thesis by (simp add: unat_two_words sectors48_def)
  qed
  have fin: "?L k r (drop k ws) = (r, [])" if "k \<le> 256" "100 < k" for k r
  proof -
    have "?L k r (drop k ws) = ?L 256 r (drop 256 ws)" using ident_skip [OF assms(1), of k "256 - k" bus r] that by (auto simp: special_def)
    then show ?thesis using assms(1) by (subst (asm) (2) ident_loop.simps) simp
  qed
  show ?thesis
  proof (cases "bit (ws ! 83) 10")
    case True
    then have ty: "id_type ?r3 = ATA_TYPE_LBA48" by (simp add: t t')
    have "?L 100 ?r3 (drop 100 ws) = ?L 104 (?r3\<lparr>id_sectors := ?n48\<rparr>) (drop 104 ws)"
      by (subst ident_loop.simps) (simp add: nx' ty t t' True Let_def)
    then have "?L 0 ?r0 ws = (?r3\<lparr>id_sectors := ?n48\<rparr>, [])" unfolding 100 by (simp add: fin)
    then show ?thesis using True n48 by (simp add: t t')
  next
    case False
    then have ty: "id_type ?r3 \<noteq> ATA_TYPE_LBA48" by (simp add: t t' ATA_TYPE_UNKNOWN_def ATA_TYPE_LBA48_def)
    have "?L 100 ?r3 (drop 100 ws) = ?L 101 ?r3 (drop 101 ws)" by (subst ident_loop.simps) (use ty in \<open>simp add: nx' t t' False\<close>)
    then have "?L 0 ?r0 ws = (?r3, [])" unfolding 100 by (simp add: fin)
    then show ?thesis using False n28 by (simp add: t t')
  qed
qed

definition demo_words :: "u16 list" where
  "demo_words = ((replicate 256 0)[60 := 0x1000, 61 := 2])[88 := 0x100]"

theorem ident_words_witness:
  "unat (id_sectors (fst (ident_loop words_io 0x1F0 0 \<lparr>id_sectors = 0, id_type = ATA_TYPE_UNKNOWN, id_dma = False\<rparr> demo_words))) = 0x21000"
proof -
  have w: "length demo_words = 256" "demo_words ! 60 = 0x1000" "demo_words ! 61 = 2" "demo_words ! 83 = 0" "demo_words ! 103 = 0"
    by (simp_all add: demo_words_def nth_list_update)
  from ident_words [of demo_words "0x1F0"] show ?thesis by (simp add: w Let_def case_prod_beta sectors28_def)
qed

section \<open>Names\<close>

text \<open>The letter for a new drive is behind those of all drives.\<close>

lemma next_suffix_mono: "next_suffix devs as n = Ret m \<Longrightarrow> n \<le> m"
  by (induction devs as n rule: next_suffix.induct) (fastforce split: option.splits if_splits prod.splits simp: Let_def)+

theorem next_suffix_fresh:
  assumes "next_suffix devs as n = Ret m" and "a \<in> set as" and "devs a = Some bd" and "bd_type bd = Some (p, ''pata'')"
    and "bd_name bd = Some (q, name)" and "2 < length name"
  shows "of_char (name ! 2) < m"
  using assms
proof (induction devs as n rule: next_suffix.induct)
  case (2 devs b as n)
  show ?case
  proof (cases "a = b")
    case True
    let ?c = "of_char (name ! 2) :: nat"
    have "next_suffix devs as (if ?c \<ge> n then ?c + 1 else n) = Ret m" using 2(4-) True by (simp add: Let_def)
    from next_suffix_mono [OF this] show ?thesis by (simp split: if_splits)
  next
    case False
    then show ?thesis using 2 by (auto split: option.splits if_splits prod.splits simp: Let_def)
  qed
qed simp

end
