(* ===== verification/Elf.thy ===== *)
theory Elf
  imports Proc Vfs Bytes
begin

text \<open>
  Program files: reading their headers, \<^verbatim>\<open>kernel/elf/elf.c\<close>, and loading them, \<^verbatim>\<open>kernel/elf/elfloader.c\<close>, over the
  modelled processes, page tables and virtual filesystem. The memory of the kernel heap has the current address space below
  the kernel; that of the others is kept aside.
\<close>

section \<open>State\<close>

record 'x os_state =
  os_pm :: procm_state
  os_vfs :: "'x vfs_state"
  spaces :: "addr \<Rightarrow> memory"

text \<open>The environment: the filesystems, the address of the kernel and a buffer on its stack.\<close>

record 'x os_env =
  os_fs :: "'x fs_env"
  kimg_start :: addr
  stack_buf :: addr

abbreviation os_mm :: "'x os_state \<Rightarrow> mmstate" where "os_mm s \<equiv> pmm (os_pm s)"
abbreviation os_mem :: "'x os_state \<Rightarrow> memory" where "os_mem s \<equiv> mem (mkm (os_mm s))"

definition set_mm :: "mmstate \<Rightarrow> 'x os_state \<Rightarrow> 'x os_state" where
  "set_mm m s = s\<lparr>os_pm := (os_pm s)\<lparr>pmm := m\<rparr>\<rparr>"

definition set_mem :: "memory \<Rightarrow> 'x os_state \<Rightarrow> 'x os_state" where
  "set_mem m s = set_mm ((os_mm s)\<lparr>mkm := (mkm (os_mm s))\<lparr>mem := m\<rparr>\<rparr>) s"

text \<open>An operation of the virtual filesystem works on the same heap and memory.\<close>

definition on_vfs :: "('x vfs_state \<Rightarrow> ('r \<times> 'x vfs_state) outcome option) \<Rightarrow> 'x os_state \<Rightarrow> ('r \<times> 'x os_state) outcome option" where
  "on_vfs f s =
     bind_run (f (set_vkm (mkm (os_mm s)) (os_vfs s))) (\<lambda>(r, v).
       Some (Ret (r, (set_mm ((os_mm s)\<lparr>mkm := vkm v\<rparr>) s)\<lparr>os_vfs := v\<rparr>)))"

definition with_os_proc :: "addr \<Rightarrow> 'x os_state \<Rightarrow> (Process \<Rightarrow> 'r outcome option) \<Rightarrow> 'r outcome option" where
  "with_os_proc a s k = with_proc a (os_pm s) k"

definition put_os_proc :: "addr \<Rightarrow> Process \<Rightarrow> 'x os_state \<Rightarrow> 'x os_state" where
  "put_os_proc a p s = s\<lparr>os_pm := put_proc a p (os_pm s)\<rparr>"

text \<open>
  Loading the tables of another process exchanges what is below the kernel. \<open>old\<close> and \<open>new\<close> name the address spaces by
  their top tables.
\<close>

definition space_of :: "Process \<Rightarrow> addr" where
  "space_of p = (case paging_struct p of Some (_, ps) \<Rightarrow> (case psdata ps of Some a \<Rightarrow> a | None \<Rightarrow> 0) | None \<Rightarrow> 0)"

definition switch_space :: "addr \<Rightarrow> addr \<Rightarrow> addr \<Rightarrow> 'x os_state \<Rightarrow> 'x os_state" where
  "switch_space k old new s =
     (if old = new then s
      else
        let m = os_mem s; sp = (spaces s)(old := m) in
        (set_mem (\<lambda>a. if a < k then sp new a else m a) s)\<lparr>spaces := sp\<rparr>)"

definition load_space :: "'x os_env \<Rightarrow> addr \<Rightarrow> addr \<Rightarrow> 'x os_state \<Rightarrow> 'x os_state outcome option" where
  "load_space E from to s =
     with_os_proc from s (\<lambda>p. with_os_proc to s (\<lambda>q.
       case paging_struct q of
         None \<Rightarrow> Some Panic
       | Some (_, ps) \<Rightarrow>
           Some (Ret (switch_space (kimg_start E) (space_of p) (space_of q) (set_mm (mm_load_paging_struct ps (os_mm s)) s)))))"

section \<open>Headers\<close>

definition EI_CLASS :: nat where "EI_CLASS = 4"
definition EI_NIDENT :: nat where "EI_NIDENT = 16"
definition ELFCLASS32 :: u8 where "ELFCLASS32 = 1"
definition ELFCLASS64 :: u8 where "ELFCLASS64 = 2"
definition ET_EXEC :: u16 where "ET_EXEC = 2"
definition PT_LOAD :: u32 where "PT_LOAD = 1"

record ElfGenericEhdr =
  gident :: "u8 list"
  gtype :: u16
  gmachine :: u16
  gversion :: u32

record Elf32Ehdr =
  ident :: "u8 list"
  etype :: u16
  machine :: u16
  version :: u32
  entry :: u32
  phoff :: u32
  shoff :: u32
  eflags32 :: u32
  ehsize :: u16
  phentsize :: u16
  phnum :: u16
  shentsize :: u16
  shnum :: u16
  shstrndx :: u16

record Elf32Phdr =
  ptype :: u32
  offset :: u32
  pvaddr :: u32
  ppaddr :: u32
  filesize :: u32
  memsize :: u32
  pflags :: u32
  palign :: u32

definition GENERIC_EHDR_SIZE :: nat where "GENERIC_EHDR_SIZE = 24"
definition EHDR32_SIZE :: nat where "EHDR32_SIZE = 52"
definition PHDR32_SIZE :: nat where "PHDR32_SIZE = 32"

text \<open>The packed structures over their bytes.\<close>

definition generic_of :: "u8 list \<Rightarrow> ElfGenericEhdr" where
  "generic_of bs = \<lparr>gident = take EI_NIDENT bs, gtype = le16 bs 16, gmachine = le16 bs 18, gversion = le32 bs 20\<rparr>"

definition ehdr32_of :: "u8 list \<Rightarrow> Elf32Ehdr" where
  "ehdr32_of bs =
     \<lparr>ident = take EI_NIDENT bs, etype = le16 bs 16, machine = le16 bs 18, version = le32 bs 20, entry = le32 bs 24, phoff = le32 bs 28,
      shoff = le32 bs 32, eflags32 = le32 bs 36, ehsize = le16 bs 40, phentsize = le16 bs 42, phnum = le16 bs 44, shentsize = le16 bs 46,
      shnum = le16 bs 48, shstrndx = le16 bs 50\<rparr>"

definition phdr32_of :: "u8 list \<Rightarrow> Elf32Phdr" where
  "phdr32_of bs =
     \<lparr>ptype = le32 bs 0, offset = le32 bs 4, pvaddr = le32 bs 8, ppaddr = le32 bs 12, filesize = le32 bs 16, memsize = le32 bs 20,
      pflags = le32 bs 24, palign = le32 bs 28\<rparr>"

definition bytes_at :: "memory \<Rightarrow> addr \<Rightarrow> nat \<Rightarrow> u8 list" where
  "bytes_at m a n = map (\<lambda>i. m (a + i)) [0..<n]"

definition elf_valid_magic :: "u8 list \<Rightarrow> bool" where
  "elf_valid_magic i \<longleftrightarrow> i ! 0 = 0x7f \<and> i ! 1 = of_char CHR ''E'' \<and> i ! 2 = of_char CHR ''L'' \<and> i ! 3 = of_char CHR ''F''"

text \<open>Seeking and reading exactly \<open>n\<close> bytes; \<open>off_t\<close> is signed.\<close>

definition read_at :: "'x os_env \<Rightarrow> u32 \<Rightarrow> addr \<Rightarrow> u32 \<Rightarrow> addr \<Rightarrow> nat \<Rightarrow> 'x os_state \<Rightarrow> (unit result \<times> 'x os_state) outcome option" where
  "read_at E fd proc off buf n s =
     with_os_proc proc s (\<lambda>p.
       bind_run (on_vfs (vfs_lseek fd (sint off) SEEK_SET p) s) (\<lambda>(r, s1).
         case r of
           Inl e \<Rightarrow> Some (Ret (Inl e, s1))
         | Inr _ \<Rightarrow>
             bind_run (on_vfs (vfs_read (os_fs E) fd buf n p) s1) (\<lambda>(r, s2).
               case r of
                 Inl e \<Rightarrow> Some (Ret (Inl e, s2))
               | Inr k \<Rightarrow> Some (Ret (if k < int n then Inl EINVAL else Inr (), s2)))))"

definition elf_read_generic_ehdr :: "'x os_env \<Rightarrow> u32 \<Rightarrow> addr \<Rightarrow> 'x os_state \<Rightarrow> (ElfGenericEhdr result \<times> 'x os_state) outcome option" where
  "elf_read_generic_ehdr E fd proc s =
     bind_run (read_at E fd proc 0 (stack_buf E) GENERIC_EHDR_SIZE s) (\<lambda>(r, s1).
       case r of
         Inl e \<Rightarrow> Some (Ret (Inl e, s1))
       | Inr _ \<Rightarrow>
           let h = generic_of (bytes_at (os_mem s1) (stack_buf E) GENERIC_EHDR_SIZE) in
           Some (Ret (if \<not> elf_valid_magic (gident h) then Inl EINVAL else Inr h, s1)))"

definition elf_read_ehdr32 :: "'x os_env \<Rightarrow> u32 \<Rightarrow> addr \<Rightarrow> 'x os_state \<Rightarrow> (Elf32Ehdr result \<times> 'x os_state) outcome option" where
  "elf_read_ehdr32 E fd proc s =
     bind_run (read_at E fd proc 0 (stack_buf E) EHDR32_SIZE s) (\<lambda>(r, s1).
       case r of
         Inl e \<Rightarrow> Some (Ret (Inl e, s1))
       | Inr _ \<Rightarrow>
           let h = ehdr32_of (bytes_at (os_mem s1) (stack_buf E) EHDR32_SIZE) in
           Some (Ret (if \<not> elf_valid_magic (ident h) \<or> ident h ! EI_CLASS \<noteq> ELFCLASS32 then Inl EINVAL else Inr h, s1)))"

fun phdrs_loop :: "'x os_env \<Rightarrow> u32 \<Rightarrow> addr \<Rightarrow> Elf32Ehdr \<Rightarrow> addr \<Rightarrow> nat \<Rightarrow> nat \<Rightarrow> 'x os_state \<Rightarrow> (unit result \<times> 'x os_state) outcome option" where
  "phdrs_loop E fd proc h phdrs i 0 s = Some (Ret (Inr (), s))"
| "phdrs_loop E fd proc h phdrs i (Suc n) s =
     bind_run (read_at E fd proc (phoff h + of_nat (i * PHDR32_SIZE)) (phdrs + i * PHDR32_SIZE) PHDR32_SIZE s) (\<lambda>(r, s1).
       case r of Inl e \<Rightarrow> Some (Ret (Inl e, s1)) | Inr _ \<Rightarrow> phdrs_loop E fd proc h phdrs (i + 1) n s1)"

definition elf_read_phdrs32 :: "'x os_env \<Rightarrow> u32 \<Rightarrow> addr \<Rightarrow> Elf32Ehdr \<Rightarrow> addr \<Rightarrow> 'x os_state \<Rightarrow> (unit result \<times> 'x os_state) outcome option" where
  "elf_read_phdrs32 E fd proc h phdrs s =
     (if PHDR32_SIZE \<noteq> unat (phentsize h) then Some (Ret (Inl EINVAL, s))
      else if \<not> elf_valid_magic (ident h) then Some (Ret (Inl EINVAL, s))
      else phdrs_loop E fd proc h phdrs 0 (unat (phnum h)) s)"

section \<open>Loading\<close>

text \<open>A write of the kernel to memory of the process: every page has to be there and writable, otherwise the fault panics.\<close>

definition writable :: "mmstate \<Rightarrow> addr \<Rightarrow> addr \<Rightarrow> nat \<Rightarrow> bool" where
  "writable m space a n \<longleftrightarrow>
     (\<forall>i < n. case translate m space (add32 a i) of Some (_, w, _) \<Rightarrow> w | None \<Rightarrow> False)"

definition elfloader_copy_section_from_file :: "'x os_env \<Rightarrow> u32 \<Rightarrow> Elf32Phdr \<Rightarrow> addr \<Rightarrow> addr \<Rightarrow> 'x os_state \<Rightarrow> (unit result \<times> 'x os_state) outcome option" where
  "elfloader_copy_section_from_file E fd ph acting space s =
     with_os_proc acting s (\<lambda>p.
       bind_run (on_vfs (vfs_lseek fd (sint (offset ph)) SEEK_SET p) s) (\<lambda>(r, s1).
         case r of
           Inl e \<Rightarrow> Some (Ret (Inl EINVAL, s1))
         | Inr _ \<Rightarrow>
             if \<not> writable (os_mm s1) space (unat (pvaddr ph)) (unat (filesize ph)) then Some Panic
             else
               bind_run (on_vfs (vfs_read (os_fs E) fd (unat (pvaddr ph)) (unat (filesize ph)) p) s1) (\<lambda>(r, s2).
                 case r of
                   Inl e \<Rightarrow> Some (Ret (Inl e, s2))
                 | Inr k \<Rightarrow> Some (Ret (if k < int (unat (filesize ph)) then Inl EINVAL else Inr (), s2)))))"

text \<open>The access modes of a segment are those of a page.\<close>

definition PAGE_ACCESS_MODE :: u16 where "PAGE_ACCESS_MODE = PAGE_R OR PAGE_W OR PAGE_X"

definition seg_mode :: "Elf32Phdr \<Rightarrow> u16" where
  "seg_mode ph = ucast (pflags ph) AND PAGE_ACCESS_MODE"

definition seg_start :: "Elf32Phdr \<Rightarrow> addr" where
  "seg_start ph = bytes_align_down64 (unat (pvaddr ph)) PAGESIZE"

definition seg_pages :: "Elf32Phdr \<Rightarrow> nat" where
  "seg_pages ph = bytes_align_up64 (add32 (unat (memsize ph)) (unat (pvaddr ph) - seg_start ph)) PAGESIZE div PAGESIZE mod W32"

fun seg_map :: "nat \<Rightarrow> nat \<Rightarrow> Elf32Phdr \<Rightarrow> PagingStruct \<Rightarrow> mmstate \<Rightarrow> (unit result \<times> PagingStruct \<times> mmstate) outcome option" where
  "seg_map 0 i ph ps m = Some (Ret (Inr (), ps, m))"
| "seg_map (Suc n) i ph ps m =
     bind_run (mm_new_user_page (add32 (seg_start ph) (i * PAGESIZE)) (seg_mode ph OR PAGE_W) ps m) (\<lambda>(st, ps1, m1).
       case st of Inl e \<Rightarrow> Some (Ret (Inl e, ps1, m1)) | Inr _ \<Rightarrow> seg_map n (i + 1) ph ps1 m1)"

fun seg_protect :: "nat \<Rightarrow> nat \<Rightarrow> Elf32Phdr \<Rightarrow> PagingStruct \<Rightarrow> mmstate \<Rightarrow> mmstate outcome" where
  "seg_protect 0 i ph ps m = Ret m"
| "seg_protect (Suc n) i ph ps m =
     bind_outcome (mm_set_page_flags (add32 (seg_start ph) (i * PAGESIZE)) (seg_mode ph OR PAGE_USER) ps m) (\<lambda>(st, m1).
       case st of Inl e \<Rightarrow> Panic | Inr _ \<Rightarrow> seg_protect n (i + 1) ph ps m1)"

definition load_segment :: "'x os_env \<Rightarrow> u32 \<Rightarrow> Elf32Phdr \<Rightarrow> addr \<Rightarrow> addr \<Rightarrow> 'x os_state \<Rightarrow> (unit result \<times> 'x os_state) outcome option" where
  "load_segment E fd ph acting target s =
     with_os_proc target s (\<lambda>q.
       case paging_struct q of
         None \<Rightarrow> Some Panic
       | Some (pa, ps) \<Rightarrow>
           bind_run (seg_map (seg_pages ph) 0 ph ps (os_mm s)) (\<lambda>(st, ps1, m1).
             let s1 = put_os_proc target (q\<lparr>paging_struct := Some (pa, ps1)\<rparr>) (set_mm m1 s) in
             case st of
               Inl e \<Rightarrow> Some (Ret (Inl e, s1))
             | Inr _ \<Rightarrow>
                 bind_run
                   (if filesize ph \<noteq> 0 then elfloader_copy_section_from_file E fd ph acting (space_of q) s1 else Some (Ret (Inr (), s1)))
                   (\<lambda>(st, s2).
                     case st of
                       Inl e \<Rightarrow> Some (Ret (Inl e, s2))
                     | Inr _ \<Rightarrow>
                         bind_run
                           (if memsize ph > filesize ph then
                              let b = add32 (unat (pvaddr ph)) (unat (filesize ph)); n = unat (memsize ph) - unat (filesize ph) in
                              if \<not> writable (os_mm s2) (space_of q) b n then Some Panic
                              else Some (Ret (set_mem (memset (os_mem s2) b 0 n) s2))
                            else Some (Ret s2))
                           (\<lambda>s3.
                             bind_run (Some (seg_protect (seg_pages ph) 0 ph ps1 (os_mm s3))) (\<lambda>m4.
                               Some (Ret (Inr (), set_mm m4 s3)))))))"

text \<open>Each program header is read from memory when its turn comes.\<close>

fun load_segments :: "'x os_env \<Rightarrow> u32 \<Rightarrow> addr \<Rightarrow> nat \<Rightarrow> addr \<Rightarrow> addr \<Rightarrow> 'x os_state \<Rightarrow> (unit result \<times> 'x os_state) outcome option" where
  "load_segments E fd phdrs 0 acting target s = Some (Ret (Inr (), s))"
| "load_segments E fd phdrs (Suc n) acting target s =
     (let ph = phdr32_of (bytes_at (os_mem s) phdrs PHDR32_SIZE) in
      if ptype ph \<noteq> PT_LOAD then load_segments E fd (phdrs + PHDR32_SIZE) n acting target s
      else
        bind_run (load_segment E fd ph acting target s) (\<lambda>(st, s1).
          case st of Inl e \<Rightarrow> Some (Ret (Inl e, s1)) | Inr _ \<Rightarrow> load_segments E fd (phdrs + PHDR32_SIZE) n acting target s1))"

definition os_kfree :: "addr \<Rightarrow> 'x os_state \<Rightarrow> 'x os_state outcome option" where
  "os_kfree a s = bind_run (kfree (Some a) (mkm (os_mm s))) (\<lambda>km. Some (Ret (set_mm ((os_mm s)\<lparr>mkm := km\<rparr>) s)))"

definition elfloader_load_from_file32 :: "'x os_env \<Rightarrow> u32 \<Rightarrow> addr \<Rightarrow> addr \<Rightarrow> 'x os_state \<Rightarrow> (unit result \<times> 'x os_state) outcome option" where
  "elfloader_load_from_file32 E fd acting target s =
     bind_run (elf_read_ehdr32 E fd acting s) (\<lambda>(r, s1).
       case r of
         Inl e \<Rightarrow> Some (Ret (Inl e, s1))
       | Inr h \<Rightarrow>
           bind_run (kmalloc (unat (phnum h) * PHDR32_SIZE) (mkm (os_mm s1))) (\<lambda>(a, km).
             let s2 = set_mm ((os_mm s1)\<lparr>mkm := km\<rparr>) s1 in
             case a of
               None \<Rightarrow> Some (Ret (Inl ENOMEM, s2))
             | Some phdrs \<Rightarrow>
                 bind_run (elf_read_phdrs32 E fd acting h phdrs s2) (\<lambda>(st, s3).
                   case st of
                     Inl e \<Rightarrow> bind_run (os_kfree phdrs s3) (\<lambda>s4. Some (Ret (Inl e, s4)))
                   | Inr _ \<Rightarrow>
                       bind_run (load_segments E fd phdrs (unat (phnum h)) acting target s3) (\<lambda>(st, s4).
                         case st of
                           Inl e \<Rightarrow> bind_run (os_kfree phdrs s4) (\<lambda>s5. Some (Ret (Inl e, s5)))
                         | Inr _ \<Rightarrow>
                             with_os_proc target s4 (\<lambda>q.
                               bind_run (os_kfree phdrs (put_os_proc target (q\<lparr>inst_ptr := unat (entry h)\<rparr>) s4)) (\<lambda>s5.
                                 Some (Ret (Inr (), s5))))))))"

definition elfloader_validate_file :: "ElfGenericEhdr \<Rightarrow> unit result" where
  "elfloader_validate_file h = (if gtype h \<noteq> ET_EXEC then Inl ENOEXEC else Inr ())"

definition elfloader_load_from_file :: "'x os_env \<Rightarrow> u32 \<Rightarrow> addr \<Rightarrow> addr \<Rightarrow> 'x os_state \<Rightarrow> (unit result \<times> 'x os_state) outcome option" where
  "elfloader_load_from_file E fd acting target s =
     bind_run (elf_read_generic_ehdr E fd acting s) (\<lambda>(r, s1).
       case r of
         Inl e \<Rightarrow> Some (Ret (Inl e, s1))
       | Inr h \<Rightarrow>
           (case elfloader_validate_file h of
              Inl e \<Rightarrow> Some (Ret (Inl e, s1))
            | Inr _ \<Rightarrow>
                bind_run (load_space E acting target s1) (\<lambda>s2.
                bind_run
                  (if gident h ! EI_CLASS = ELFCLASS32 then elfloader_load_from_file32 E fd acting target s2
                   else if gident h ! EI_CLASS = ELFCLASS64 then Some Panic
                   else Some (Ret (Inl EINVAL, s2)))
                  (\<lambda>(st, s3). bind_run (load_space E target acting s3) (\<lambda>s4. Some (Ret (st, s4)))))))"

end
