(* ===== verification/ElfProps.thy ===== *)
theory ElfProps
  imports MmProps VfsProps Elf
begin

unbundle bit_operations_syntax

text \<open>
  Loading a segment: the pages get frames of their own with the rights of the segment, and the memory holds the bytes of the
  file followed by zeros. A page of two segments stops the kernel.
\<close>

section \<open>The pages\<close>

lemma kernel_view_Some: "kernel_view (Some (a, w, x, u)) = Some (a, w, x)"
  by (simp add: kernel_view_def)

lemma has_flag_or_w: "has_flag (fl OR PAGE_W) PAGE_W" "has_flag (fl OR PAGE_W) PAGE_X = has_flag fl PAGE_X"
  by (simp_all add: has_flag_bit bit_simps) (simp_all add: PAGE_W_def bit_simps)

definition pages_mapped :: "nat set \<Rightarrow> (nat \<Rightarrow> nat) \<Rightarrow> bool \<Rightarrow> addr \<Rightarrow> mmstate \<Rightarrow> mmstate \<Rightarrow> bool" where
  "pages_mapped Q F x pdpt m m' \<longleftrightarrow>
     inj_on F Q \<and> (\<forall>j \<in> Q. 64 \<le> F j \<and> frame_free (mfa m) (F j)) \<and>
     (\<forall>g. frame_free (mfa m') g \<longleftrightarrow> frame_free (mfa m) g \<and> g \<notin> F ` Q) \<and>
     (\<forall>vb < W32. kernel_view (translate m' pdpt vb) =
        (if vb div 4096 \<in> Q then Some (F (vb div 4096) * 4096 + vb mod 4096, True, x)
         else kernel_view (translate m pdpt vb)))"

lemma pages_mapped_none: "pages_mapped {} F x pdpt m m"
  by (simp add: pages_mapped_def)

lemma pages_mapped_first:
  assumes f: "64 \<le> f" "frame_free (mfa m) f" "\<forall>g. frame_free (mfa m1) g \<longleftrightarrow> frame_free (mfa m) g \<and> g \<noteq> f"
    and v: "\<forall>vb < W32. vb div 4096 = j \<longrightarrow> kernel_view (translate m1 pdpt vb) = Some (f * 4096 + vb mod 4096, True, x)"
      "\<forall>vb < W32. vb div 4096 \<noteq> j \<longrightarrow> kernel_view (translate m1 pdpt vb) = kernel_view (translate m pdpt vb)"
    and r: "pages_mapped Q F x pdpt m1 m2" and j: "j \<notin> Q"
  shows "pages_mapped (insert j Q) (F(j := f)) x pdpt m m2"
proof -
  have n: "F i \<noteq> f" if "i \<in> Q" for i using r f(3) that by (auto simp: pages_mapped_def)
  have im: "F(j := f) ` insert j Q = insert f (F ` Q)" using j by auto
  have "inj_on (F(j := f)) (insert j Q)" using r n j by (auto simp: pages_mapped_def inj_on_def)
  moreover have "\<forall>i \<in> insert j Q. 64 \<le> (F(j := f)) i \<and> frame_free (mfa m) ((F(j := f)) i)"
    using r f by (auto simp: pages_mapped_def)
  moreover have "\<forall>g. frame_free (mfa m2) g \<longleftrightarrow> frame_free (mfa m) g \<and> g \<notin> F(j := f) ` insert j Q"
    unfolding im using r f(3) by (auto simp: pages_mapped_def)
  moreover have "\<forall>vb < W32. kernel_view (translate m2 pdpt vb) =
      (if vb div 4096 \<in> insert j Q then Some ((F(j := f)) (vb div 4096) * 4096 + vb mod 4096, True, x)
       else kernel_view (translate m pdpt vb))"
    using r v j by (auto simp: pages_mapped_def)
  ultimately show ?thesis by (simp add: pages_mapped_def)
qed

lemma seg_page_addr:
  assumes "seg_start ph = q * 4096" and "(q + i) * 4096 < W32"
  shows "add32 (seg_start ph) (i * PAGESIZE) = (q + i) * 4096"
proof -
  have "seg_start ph + i * PAGESIZE = (q + i) * 4096" using assms(1) by (simp only: PAGESIZE_def distrib_right)
  then show ?thesis using assms(2) by (simp only: add32_def mod_less)
qed

lemma seg_map_ok:
  assumes "mm_ok ma heap live m" and "tables_ok m pdpt" and "entries_ok m pdpt" and "psdata ps = Some pdpt"
    and "cursor_ok (mfa m)" and "track_inv ps" and "allocated_pages_size ps + n \<le> allocated_pages_capacity ps"
    and "seg_start ph = q * 4096" and "(q + i + n) * 4096 \<le> W32" and "\<forall>j \<in> {q + i ..< q + i + n}. j * 4096 \<notin> set (tracked ps)"
  shows "\<exists>r ps' m'. seg_map n i ph ps m = Some (Ret (r, ps', m')) \<and> tables_ok m' pdpt \<and> entries_ok m' pdpt \<and>
    (\<exists>live'. live \<subseteq>\<^sub>m live' \<and> mm_ok ma heap live' m') \<and> track_inv ps' \<and> psdata ps' = psdata ps \<and>
    (case r of Inl e \<Rightarrow> e = ENOMEM
     | Inr _ \<Rightarrow> (\<exists>F. pages_mapped {q + i ..< q + i + n} F (has_flag (seg_mode ph) PAGE_X) pdpt m m') \<and>
         set (tracked ps') = set (tracked ps) \<union> (\<lambda>j. j * 4096) ` {q + i ..< q + i + n})"
  using assms(1-7,9,10)
proof (induction n arbitrary: i live ps m)
  case 0
  have "\<exists>live'. live \<subseteq>\<^sub>m live' \<and> mm_ok ma heap live' m" using 0(1) map_le_refl by blast
  moreover have "\<exists>F. pages_mapped {} F (has_flag (seg_mode ph) PAGE_X) pdpt m m" using pages_mapped_none by blast
  ultimately show ?case using 0 by (intro exI [of _ "Inr ()"] exI [of _ ps] exI [of _ m]) auto
next
  case (Suc n)
  let ?va = "(q + i) * 4096" and ?fl = "seg_mode ph OR PAGE_W"
  have lt: "?va < W32" using Suc.prems(8) by simp
  have va: "add32 (seg_start ph) (i * PAGESIZE) = ?va" by (rule seg_page_addr [OF assms(8) lt])
  have al: "4096 dvd ?va" by simp
  have room: "allocated_pages_size ps < allocated_pages_capacity ps" using Suc.prems(7) by simp
  have new: "?va \<notin> set (tracked ps)" using Suc.prems(9) by force
  obtain r1 ps1 m1 live1 where 1: "mm_new_user_page ?va ?fl ps m = Some (Ret (r1, ps1, m1))"
    "tables_ok m1 pdpt" "entries_ok m1 pdpt" "live \<subseteq>\<^sub>m live1" "mm_ok ma heap live1 m1"
    and c: "case r1 of
       Inl err \<Rightarrow> err = ENOMEM \<and> ps1 = ps \<and> (\<forall>vb < W32. translate m1 pdpt vb = translate m pdpt vb)
     | Inr _ \<Rightarrow> \<exists>f. 64 \<le> f \<and> frame_free (mfa m) f \<and>
         (\<forall>g. frame_free (mfa m1) g \<longleftrightarrow> frame_free (mfa m) g \<and> g \<noteq> f) \<and>
         (\<forall>vb < W32. vb div 4096 = ?va div 4096 \<longrightarrow>
            translate m1 pdpt vb = Some (f * 4096 + vb mod 4096, has_flag ?fl PAGE_W, has_flag ?fl PAGE_X, True)) \<and>
         (\<forall>vb < W32. vb div 4096 \<noteq> ?va div 4096 \<longrightarrow>
            kernel_view (translate m1 pdpt vb) = kernel_view (translate m pdpt vb)) \<and>
         track_inv ps1 \<and> psdata ps1 = psdata ps \<and> set (tracked ps1) = insert ?va (set (tracked ps)) \<and>
         allocated_pages_size ps1 = allocated_pages_size ps + 1 \<and>
         allocated_pages_capacity ps1 = allocated_pages_capacity ps \<and> cursor_ok (mfa m1)"
    using new_user_page_full [OF Suc.prems(1-4) lt al Suc.prems(5,6) room new, of ?fl] by blast
  show ?case
  proof (cases r1)
    case (Inl e)
    then have "seg_map (Suc n) i ph ps m = Some (Ret (Inl ENOMEM, ps, m1))" using 1(1) va c by simp
    moreover have "\<exists>live'. live \<subseteq>\<^sub>m live' \<and> mm_ok ma heap live' m1" using 1(4,5) by blast
    ultimately show ?thesis using 1(2,3) Suc.prems(4,6)
      by (intro exI [of _ "Inl ENOMEM"] exI [of _ ps] exI [of _ m1]) auto
  next
    case (Inr u)
    then obtain f where f: "64 \<le> f" "frame_free (mfa m) f" "\<forall>g. frame_free (mfa m1) g \<longleftrightarrow> frame_free (mfa m) g \<and> g \<noteq> f"
      and v: "\<forall>vb < W32. vb div 4096 = q + i \<longrightarrow>
            translate m1 pdpt vb = Some (f * 4096 + vb mod 4096, True, has_flag (seg_mode ph) PAGE_X, True)"
        "\<forall>vb < W32. vb div 4096 \<noteq> q + i \<longrightarrow> kernel_view (translate m1 pdpt vb) = kernel_view (translate m pdpt vb)"
      and p1: "track_inv ps1" "psdata ps1 = psdata ps" "set (tracked ps1) = insert ?va (set (tracked ps))"
        "allocated_pages_size ps1 = allocated_pages_size ps + 1" "allocated_pages_capacity ps1 = allocated_pages_capacity ps"
        "cursor_ok (mfa m1)"
      using c by (auto simp: has_flag_or_w)
    have room1: "allocated_pages_size ps1 + n \<le> allocated_pages_capacity ps1" using Suc.prems(7) p1(4,5) by simp
    have end1: "(q + Suc i + n) * 4096 \<le> W32" using Suc.prems(8) by simp
    have new1: "\<forall>j \<in> {q + Suc i ..< q + Suc i + n}. j * 4096 \<notin> set (tracked ps1)" using Suc.prems(9) p1(3) by auto
    have d1: "psdata ps1 = Some pdpt" using p1(2) Suc.prems(4) by simp
    obtain r ps' m' live' where 2: "seg_map n (Suc i) ph ps1 m1 = Some (Ret (r, ps', m'))" "tables_ok m' pdpt" "entries_ok m' pdpt"
      "live1 \<subseteq>\<^sub>m live'" "mm_ok ma heap live' m'" "track_inv ps'" "psdata ps' = psdata ps1"
      and c2: "case r of Inl e \<Rightarrow> e = ENOMEM
       | Inr _ \<Rightarrow> (\<exists>F. pages_mapped {q + Suc i ..< q + Suc i + n} F (has_flag (seg_mode ph) PAGE_X) pdpt m1 m') \<and>
         set (tracked ps') = set (tracked ps1) \<union> (\<lambda>j. j * 4096) ` {q + Suc i ..< q + Suc i + n}"
      using Suc.IH [OF 1(5,2,3) d1 p1(6,1) room1 end1 new1] by blast
    have st: "seg_map (Suc n) i ph ps m = Some (Ret (r, ps', m'))" using 1(1) va 2(1) Inr by simp
    have lv: "\<exists>live'. live \<subseteq>\<^sub>m live' \<and> mm_ok ma heap live' m'" using map_le_trans [OF 1(4) 2(4)] 2(5) by blast
    have Q: "{q + i ..< q + i + Suc n} = insert (q + i) {q + Suc i ..< q + Suc i + n}" by auto
    have v': "\<forall>vb < W32. vb div 4096 = q + i \<longrightarrow>
        kernel_view (translate m1 pdpt vb) = Some (f * 4096 + vb mod 4096, True, has_flag (seg_mode ph) PAGE_X)"
      using v(1) by (simp add: kernel_view_Some)
    have "case r of Inl e \<Rightarrow> e = ENOMEM
       | Inr _ \<Rightarrow> (\<exists>F. pages_mapped {q + i ..< q + i + Suc n} F (has_flag (seg_mode ph) PAGE_X) pdpt m m') \<and>
         set (tracked ps') = set (tracked ps) \<union> (\<lambda>j. j * 4096) ` {q + i ..< q + i + Suc n}"
    proof (cases r)
      case (Inr w)
      then obtain F where F: "pages_mapped {q + Suc i ..< q + Suc i + n} F (has_flag (seg_mode ph) PAGE_X) pdpt m1 m'"
        and tr: "set (tracked ps') = set (tracked ps1) \<union> (\<lambda>j. j * 4096) ` {q + Suc i ..< q + Suc i + n}" using c2 by auto
      have "q + i \<notin> {q + Suc i ..< q + Suc i + n}" by simp
      then show ?thesis unfolding Q using pages_mapped_first [OF f v' v(2) F] tr p1(3) Inr by auto
    qed (use c2 in simp)
    then show ?thesis using st 2(2,3,6,7) lv p1(2) by (intro exI [of _ r] exI [of _ ps'] exI [of _ m']) simp
  qed
qed

lemma seg_protect_ok:
  assumes "tables_ok m pdpt" and "entries_ok m pdpt" and ps: "psdata ps = Some pdpt"
    and q: "seg_start ph = q * 4096" and "(q + i + n) * 4096 \<le> W32"
    and "\<forall>j \<in> {q + i ..< q + i + n}. \<exists>f w x. kernel_view (translate m pdpt (j * 4096)) = Some (f * 4096, w, x) \<and> 0 < f"
  shows "\<exists>m'. seg_protect n i ph ps m = Ret m' \<and> tables_ok m' pdpt \<and> entries_ok m' pdpt \<and> mkm m' = mkm m \<and> mfa m' = mfa m \<and>
    (\<forall>vb < W32. if vb div 4096 \<in> {q + i ..< q + i + n}
       then kernel_view (translate m' pdpt vb) = map_option (\<lambda>(a, w, x).
              (a, has_flag (seg_mode ph) PAGE_W, has_flag (seg_mode ph) PAGE_X)) (kernel_view (translate m pdpt vb)) \<and>
            (translate m' pdpt vb \<noteq> None \<longrightarrow> user_right (translate m' pdpt vb))
       else kernel_view (translate m' pdpt vb) = kernel_view (translate m pdpt vb) \<and>
            (user_right (translate m pdpt vb) \<longrightarrow> user_right (translate m' pdpt vb)))"
  using assms(1,2,5,6)
proof (induction n arbitrary: i m)
  case 0
  then show ?case by simp
next
  case (Suc n)
  let ?va = "(q + i) * 4096" and ?fl = "seg_mode ph OR PAGE_USER" and ?T = "translate m pdpt"
  have lt: "?va < W32" using Suc.prems(3) by simp
  have va: "add32 (seg_start ph) (i * PAGESIZE) = ?va" by (rule seg_page_addr [OF q lt])
  have al: "4096 dvd ?va" by simp
  have "q + i \<in> {q + i ..< q + i + Suc n}" by simp
  then obtain f w x where f: "kernel_view (?T ?va) = Some (f * 4096, w, x)" "0 < f" using Suc.prems(4) by blast
  then obtain u where T: "?T ?va = Some (f * 4096, w, x, u)" by (auto simp: kernel_view_def)
  obtain e d p where wk: "walk m pdpt ?va = Some (e, d, p)" "pte_frame_paddr p = f * 4096"
    by (rule translate_walk [OF T]) simp_all
  obtain r m1 where 1: "mm_set_page_flags ?va ?fl ps m = Ret (r, m1)" "tables_ok m1 pdpt" "entries_ok m1 pdpt"
    and c: "case r of
       Inl err \<Rightarrow> err = EINVAL \<and> m1 = m \<and>
         (case walk m pdpt ?va of None \<Rightarrow> True | Some (e, d, p) \<Rightarrow> pte_frame_paddr p = 0)
     | Inr _ \<Rightarrow>
         (\<forall>vb < W32. vb div 4096 = ?va div 4096 \<longrightarrow> translate m1 pdpt vb =
            map_option (\<lambda>(a, w, x, u). (a, has_flag ?fl PAGE_W, has_flag ?fl PAGE_X, has_flag ?fl PAGE_USER)) (?T vb)) \<and>
         (\<forall>vb < W32. vb div 4096 \<noteq> ?va div 4096 \<longrightarrow> kernel_view (translate m1 pdpt vb) = kernel_view (?T vb)) \<and>
         mkm m1 = mkm m \<and> mfa m1 = mfa m \<and>
         (has_flag ?fl PAGE_USER \<longrightarrow> (\<forall>vb < W32. vb div 4096 \<noteq> ?va div 4096 \<and> user_right (?T vb) \<longrightarrow>
            user_right (translate m1 pdpt vb)))"
    using set_page_flags_ok [OF Suc.prems(1,2) ps lt al, of ?fl] by blast
  have r: "r = Inr ()" using c wk f(2) by (cases r) auto
  have same: "translate m1 pdpt vb =
      map_option (\<lambda>(a, w, x, u). (a, has_flag (seg_mode ph) PAGE_W, has_flag (seg_mode ph) PAGE_X, True)) (?T vb)"
    if "vb < W32" "vb div 4096 = q + i" for vb using c r that by (simp add: has_flag_user)
  have oth: "kernel_view (translate m1 pdpt vb) = kernel_view (?T vb)"
    "user_right (?T vb) \<Longrightarrow> user_right (translate m1 pdpt vb)"
    if "vb < W32" "vb div 4096 \<noteq> q + i" for vb using c r that by (simp_all add: has_flag_user)
  have f1: "mkm m1 = mkm m" "mfa m1 = mfa m" using c r by simp_all
  have end1: "(q + Suc i + n) * 4096 \<le> W32" using Suc.prems(3) by simp
  have pres: "\<forall>j \<in> {q + Suc i ..< q + Suc i + n}.
      \<exists>f w x. kernel_view (translate m1 pdpt (j * 4096)) = Some (f * 4096, w, x) \<and> 0 < f"
  proof
    fix j assume j: "j \<in> {q + Suc i ..< q + Suc i + n}"
    then have b: "j * 4096 < W32" "j * 4096 div 4096 \<noteq> q + i" and j': "j \<in> {q + i ..< q + i + Suc n}" using end1 by auto
    show "\<exists>f w x. kernel_view (translate m1 pdpt (j * 4096)) = Some (f * 4096, w, x) \<and> 0 < f"
      unfolding oth(1) [OF b] by (rule Suc.prems(4) [rule_format, OF j'])
  qed
  obtain m' where 2: "seg_protect n (Suc i) ph ps m1 = Ret m'" "tables_ok m' pdpt" "entries_ok m' pdpt" "mkm m' = mkm m1" "mfa m' = mfa m1"
    and v: "\<forall>vb < W32. if vb div 4096 \<in> {q + Suc i ..< q + Suc i + n}
       then kernel_view (translate m' pdpt vb) = map_option (\<lambda>(a, w, x).
              (a, has_flag (seg_mode ph) PAGE_W, has_flag (seg_mode ph) PAGE_X)) (kernel_view (translate m1 pdpt vb)) \<and>
            (translate m' pdpt vb \<noteq> None \<longrightarrow> user_right (translate m' pdpt vb))
       else kernel_view (translate m' pdpt vb) = kernel_view (translate m1 pdpt vb) \<and>
            (user_right (translate m1 pdpt vb) \<longrightarrow> user_right (translate m' pdpt vb))"
    using Suc.IH [OF 1(2,3) end1 pres] by blast
  have st: "seg_protect (Suc n) i ph ps m = Ret m'" using 1(1) va 2(1) r by simp
  have "if vb div 4096 \<in> {q + i ..< q + i + Suc n}
       then kernel_view (translate m' pdpt vb) = map_option (\<lambda>(a, w, x).
              (a, has_flag (seg_mode ph) PAGE_W, has_flag (seg_mode ph) PAGE_X)) (kernel_view (?T vb)) \<and>
            (translate m' pdpt vb \<noteq> None \<longrightarrow> user_right (translate m' pdpt vb))
       else kernel_view (translate m' pdpt vb) = kernel_view (?T vb) \<and>
            (user_right (?T vb) \<longrightarrow> user_right (translate m' pdpt vb))" if vb: "vb < W32" for vb
  proof (cases "vb div 4096 = q + i")
    case True
    then have "vb div 4096 \<notin> {q + Suc i ..< q + Suc i + n}" by simp
    then have k: "kernel_view (translate m' pdpt vb) = kernel_view (translate m1 pdpt vb)"
      "user_right (translate m1 pdpt vb) \<longrightarrow> user_right (translate m' pdpt vb)" using v [rule_format, OF vb] by simp_all
    show ?thesis using k True same [OF vb True] by (cases "?T vb") (auto simp: kernel_view_def user_right_def)
  next
    case False
    then show ?thesis using v [rule_format, OF vb] oth [OF vb False] by (auto split: if_splits)
  qed
  then show ?case using st 2(2-5) f1 by (intro exI [of _ m']) simp
qed

text \<open>A page that is tracked already, as one that two segments of a program share, stops the kernel unless memory has run out.\<close>

lemma new_user_page_tracked:
  assumes ok: "mm_ok ma heap live s" and t: "tables_ok s pdpt" "entries_ok s pdpt"
    and ps: "psdata ps = Some pdpt" and va: "va < W32" "4096 dvd va" and c: "cursor_ok (mfa s)"
    and tr: "track_inv ps" "allocated_pages_size ps < allocated_pages_capacity ps" "va \<in> set (tracked ps)"
  shows "mm_new_user_page va fl ps s = Some Panic \<or> (\<exists>s'. mm_new_user_page va fl ps s = Some (Ret (Inl ENOMEM, ps, s')))"
proof -
  have al: "va mod 4096 = 0" using va by simp
  obtain paddr fa where fa: "falloc_one_user (mfa s) = (paddr, fa)" by (cases "falloc_one_user (mfa s)")
  note sp = user_outer_spec [OF c, folded falloc_one_user_def, unfolded fa prod.case]
  show ?thesis
  proof (cases "paddr = 0")
    case True
    then show ?thesis using al fa by (simp add: mm_new_user_page_def)
  next
    case False
    then obtain f where f: "paddr = f * FRAMESIZE" "f < 1048576" using sp by auto
    then have pa: "paddr < W32" "4096 dvd paddr" by (simp_all add: FRAMESIZE_def)
    have 1: "mm_ok ma heap live (s\<lparr>mfa := fa\<rparr>)" "tables_ok (s\<lparr>mfa := fa\<rparr>) pdpt" "entries_ok (s\<lparr>mfa := fa\<rparr>) pdpt" using ok t by simp_all
    obtain r s2 where 2: "mm_map_page_arch va paddr (fl OR PAGE_USER) ps (s\<lparr>mfa := fa\<rparr>) = Some (Ret (r, s2))"
      and c2: "case r of Inl err \<Rightarrow> err = ENOMEM | Inr _ \<Rightarrow> True"
      using map_page_arch_ok [OF 1 ps va(1) pa, of "fl OR PAGE_USER"] by (fastforce split: sum.splits)
    obtain fa2 where fr: "ffree_one paddr (mfa s2) = Ret fa2" using ffree_one_spec [OF pa(1)] pa(2) by (auto simp: FRAMESIZE_def)
    have p: "pagingstruct_track_page va ps (mkm s2) = Some Panic" using track_in_room [OF tr(1,2)] tr(3) by simp
    show ?thesis using al fa False 2 c2 fr p by (cases r) (simp_all add: mm_new_user_page_def)
  qed
qed

theorem shared_page_panics:
  assumes "proc_objs (os_pm s) target = Some q" and "paging_struct q = Some (pa, ps)" and "psdata ps = Some pdpt"
    and "mm_ok ma heap live (os_mm s)" and "tables_ok (os_mm s) pdpt" and "entries_ok (os_mm s) pdpt"
    and "cursor_ok (mfa (os_mm s))" and "track_inv ps" and "allocated_pages_size ps < allocated_pages_capacity ps"
    and "0 < seg_pages ph" and "seg_start ph \<in> set (tracked ps)" and "seg_start ph < W32" "4096 dvd seg_start ph"
  shows "load_segment E fd ph acting target s = Some Panic \<or>
    (\<exists>s'. load_segment E fd ph acting target s = Some (Ret (Inl ENOMEM, s')))"
proof -
  obtain n where n: "seg_pages ph = Suc n" using assms(10) gr0_implies_Suc by blast
  have a: "add32 (seg_start ph) 0 = seg_start ph" using assms(12) by (simp add: add32_def)
  have "mm_new_user_page (seg_start ph) (seg_mode ph OR PAGE_W) ps (os_mm s) = Some Panic \<or>
      (\<exists>s'. mm_new_user_page (seg_start ph) (seg_mode ph OR PAGE_W) ps (os_mm s) = Some (Ret (Inl ENOMEM, ps, s')))"
    using new_user_page_tracked [OF assms(4-6,3,12,13,7-9,11)] by blast
  then show ?thesis using assms(1,2) by (elim disjE exE) (simp_all add: load_segment_def with_os_proc_def with_proc_def n a)
qed

section \<open>The contents\<close>

text \<open>
  What a load asks of the open file: after a seek to an offset, a read of bytes of the file gives them all. Nothing is said
  of the rest of the memory and of the heap.
\<close>

definition file_serves :: "'x os_env \<Rightarrow> u32 \<Rightarrow> Process \<Rightarrow> (nat \<Rightarrow> u8) \<Rightarrow> nat \<Rightarrow> 'x vfs_state \<Rightarrow> bool" where
  "file_serves E fd p content len v \<longleftrightarrow>
     (\<forall>km off buf n. 0 < n \<and> off + n \<le> len \<longrightarrow>
        (\<exists>v1 v2. vfs_lseek fd (int off) SEEK_SET p (set_vkm km v) = Some (Ret (Inr (int off), v1)) \<and> vkm v1 = km \<and>
           vfs_read (os_fs E) fd buf n p v1 = Some (Ret (Inr (int n), v2)) \<and>
           (\<forall>i < n. mem (vkm v2) (buf + i) = content (off + i))))"

lemma set_vkm_same: "vkm v = km \<Longrightarrow> set_vkm km v = v"
  by (cases v) (auto simp: set_vkm_def set_km_def)

lemma open_file_serves:
  assumes fd: "\<not> sint fd < 0" and get: "\<And>km. vfs_fdt_get_sysfd fd (pid_of p) (fdt (set_vkm km v)) = Ret (Some a)"
    and f: "fd_objs (fdt v) a = Some f" "fd_vnode f = Some vn" "fd_flags f AND O_RDONLY \<noteq> 0"
    and d: "vnodes v vn = Some d" "vn_mode d AND S_IFDIR = 0" "vn_ops d = Some ops"
    and rd: "\<And>w buf n off. vnodes w vn = Some d \<Longrightarrow> off + n \<le> len \<Longrightarrow>
      \<exists>w'. op_read (node_ops (os_fs E) ops) vn buf n (int off) w = Some (Ret (Inr (int n), w')) \<and>
        fd_objs (fdt w') a = fd_objs (fdt w) a \<and> (\<forall>i < n. mem (vkm w') (buf + i) = content (off + i))"
    and len: "len < 2147483648"
  shows "file_serves E fd p content len v"
  unfolding file_serves_def
proof (intro allI impI)
  fix km off buf n assume n: "0 < n \<and> off + n \<le> len"
  let ?v = "set_vkm km v" and ?f = "f\<lparr>fd_off := int off\<rparr>"
  let ?v1 = "put_fd a ?f ?v"
  have fo: "fd_objs (fdt ?v) a = Some f" "vnodes ?v vn = Some d" using f d by (simp_all add: set_vkm_def set_km_def)
  have "get_sysfd fd p ?v = Some (Ret (Some (a, f)))" using get fo by (simp add: get_sysfd_def)
  then have 1: "vfs_lseek fd (int off) SEEK_SET p ?v = Some (Ret (Inr (int off), ?v1))" using fd by (simp add: vfs_lseek_def)
  have k: "vkm ?v1 = km" by (simp add: put_fd_def set_vkm_def set_km_def)
  have g: "get_sysfd fd p ?v1 = Some (Ret (Some (a, ?f)))" using get [of km]
    by (simp add: get_sysfd_def put_fd_def vfs_fdt_get_sysfd_def)
  have v1: "vnodes ?v1 vn = Some d" using fo by (simp add: put_fd_def)
  obtain w' where w': "op_read (node_ops (os_fs E) ops) vn buf n (int off) ?v1 = Some (Ret (Inr (int n), w'))"
    "fd_objs (fdt w') a = fd_objs (fdt ?v1) a" "\<forall>i < n. mem (vkm w') (buf + i) = content (off + i)" using rd [OF v1] n by blast
  have "fd_objs (fdt ?v1) a = Some ?f" by (simp add: put_fd_def)
  then obtain v2 where "vfs_read (os_fs E) fd buf n p ?v1 = Some (Ret (Inr (int n), v2))" "vkm v2 = vkm w'"
    using fd g f d v1 w'(1,2) n by (simp add: vfs_read_def with_ptr_def with_vnode_def advance_off_def put_fd_def)
  then show "\<exists>v1 v2. vfs_lseek fd (int off) SEEK_SET p ?v = Some (Ret (Inr (int off), v1)) \<and> vkm v1 = km \<and>
           vfs_read (os_fs E) fd buf n p v1 = Some (Ret (Inr (int n), v2)) \<and>
           (\<forall>i < n. mem (vkm v2) (buf + i) = content (off + i))" using 1 k w'(3) by auto
qed

lemma copy_section_ok:
  assumes p: "proc_objs (os_pm s) acting = Some p" and fs: "file_serves E fd p content len (os_vfs s)" and len: "len < 2147483648"
    and n: "0 < unat (filesize ph)" "unat (offset ph) + unat (filesize ph) \<le> len"
    and w: "writable (os_mm s) space (unat (pvaddr ph)) (unat (filesize ph))"
  shows "\<exists>s'. elfloader_copy_section_from_file E fd ph acting space s = Some (Ret (Inr (), s')) \<and>
    (\<exists>km. os_mm s' = (os_mm s)\<lparr>mkm := km\<rparr>) \<and> proc_objs (os_pm s') = proc_objs (os_pm s) \<and>
    (\<forall>i < unat (filesize ph). os_mem s' (unat (pvaddr ph) + i) = content (unat (offset ph) + i))"
proof -
  have so: "sint (offset ph) = int (unat (offset ph))"
  proof -
    have "unat (offset ph) < 2147483648" using n len by linarith
    then have "signed_take_bit 31 (int (unat (offset ph))) = int (unat (offset ph))" by (intro signed_take_bit_int_eq_self) (simp_all del: of_nat_unat)
    then show ?thesis by (simp add: sint_uint uint_nat del: of_nat_unat)
  qed
  obtain v1 v2 where v: "vfs_lseek fd (int (unat (offset ph))) SEEK_SET p (set_vkm (mkm (os_mm s)) (os_vfs s)) =
        Some (Ret (Inr (int (unat (offset ph))), v1))" "vkm v1 = mkm (os_mm s)"
      "vfs_read (os_fs E) fd (unat (pvaddr ph)) (unat (filesize ph)) p v1 = Some (Ret (Inr (int (unat (filesize ph))), v2))"
      "\<forall>i < unat (filesize ph). mem (vkm v2) (unat (pvaddr ph) + i) = content (unat (offset ph) + i)"
    using fs n unfolding file_serves_def by blast
  have k: "set_vkm (mkm (os_mm s)) v1 = v1" using v(2) by (rule set_vkm_same)
  have m1: "(os_mm s)\<lparr>mkm := vkm v1\<rparr> = os_mm s" using v(2) by simp
  let ?s2 = "(set_mm ((os_mm s)\<lparr>mkm := vkm v2\<rparr>) s)\<lparr>os_vfs := v2\<rparr>"
  have "elfloader_copy_section_from_file E fd ph acting space s = Some (Ret (Inr (), ?s2))"
    using p w v(1,3) by (simp add: elfloader_copy_section_from_file_def with_os_proc_def with_proc_def on_vfs_def so v(2)
        set_mm_def k)
  then show ?thesis using v(4) by (intro exI [of _ ?s2]) (auto simp: set_mm_def)
qed

section \<open>A segment\<close>

definition seg_set :: "Elf32Phdr \<Rightarrow> nat set" where
  "seg_set ph = {unat (pvaddr ph) div 4096 ..< (unat (pvaddr ph) + unat (memsize ph) + 4095) div 4096}"

lemma seg_geometry:
  assumes "unat (pvaddr ph) + unat (memsize ph) < W32"
  shows "seg_start ph = unat (pvaddr ph) div 4096 * 4096"
    and "unat (pvaddr ph) div 4096 + seg_pages ph = (unat (pvaddr ph) + unat (memsize ph) + 4095) div 4096"
proof -
  let ?V = "unat (pvaddr ph)" and ?M = "unat (memsize ph)"
  have V: "?V < W64" using assms by simp
  show st: "seg_start ph = ?V div 4096 * 4096" using bytes_align_down64_props(1) [of 4096 ?V] V by (simp add: seg_start_def)
  have r: "?V - seg_start ph = ?V mod 4096" unfolding st by (simp add: minus_div_mult_eq_mod)
  have le: "?M + ?V mod 4096 < W32" using assms mod_less_eq_dividend [of ?V 4096] by linarith
  then have a: "add32 ?M (?V - seg_start ph) = ?M + ?V mod 4096" unfolding r by (simp add: add32_def)
  let ?n = "?M + ?V mod 4096"
  have u: "4096 dvd bytes_align_up64 ?n 4096" "?n \<le> bytes_align_up64 ?n 4096" "bytes_align_up64 ?n 4096 < ?n + 4096"
    using bytes_align_up64_props [of 4096 ?n] le by simp_all
  then obtain k where k: "bytes_align_up64 ?n 4096 = 4096 * k" by blast
  then have "seg_pages ph = k mod W32" unfolding seg_pages_def a by simp
  moreover have "k < W32" using k u(3) le by linarith
  ultimately have "seg_pages ph = k" by simp
  moreover have "(?V + ?M + 4095) div 4096 = ?V div 4096 + k"
  proof -
    have "?V + ?M + 4095 = ?V div 4096 * 4096 + (?n + 4095)" using div_mult_mod_eq [of ?V 4096] by linarith
    moreover have "(?n + 4095) div 4096 = k"
      by (rule div_nat_eqI) (use k u mult_Suc_right [of 4096 k] in linarith)+
    ultimately show ?thesis by (simp only: div_mult_self3)
  qed
  ultimately show "?V div 4096 + seg_pages ph = (?V + ?M + 4095) div 4096" by simp
qed

lemma writable_mapped:
  assumes v: "\<forall>vb < W32. vb div 4096 \<in> Q \<longrightarrow> kernel_view (translate m pdpt vb) = Some (F (vb div 4096) * 4096 + vb mod 4096, True, x)"
    and Q: "Q = {V div 4096 ..< (V + M + 4095) div 4096}" and n: "V \<le> a" "a + n \<le> V + M" "V + M < W32"
  shows "writable m pdpt a n"
  unfolding writable_def
proof (intro allI impI)
  fix i assume i: "i < n"
  have lt: "a + i < W32" using n i by linarith
  have "V div 4096 \<le> (a + i) div 4096" using n(1) by (intro div_le_mono) simp
  moreover have "(a + i) div 4096 < (V + M + 4095) div 4096"
  proof -
    have "a + i + 4096 \<le> V + M + 4095" using n i by linarith
    then have "(a + i + 4096) div 4096 \<le> (V + M + 4095) div 4096" by (rule div_le_mono)
    then show ?thesis by simp
  qed
  ultimately have "(a + i) div 4096 \<in> Q" unfolding Q by simp
  then have "kernel_view (translate m pdpt (a + i)) = Some (F ((a + i) div 4096) * 4096 + (a + i) mod 4096, True, x)" using v lt by blast
  then show "case translate m pdpt (add32 a i) of None \<Rightarrow> False | Some (_, w, _) \<Rightarrow> w"
    using lt by (auto simp: kernel_view_def add32_def)
qed

lemma seg_mode_bits: "has_flag (seg_mode ph) PAGE_W = bit (pflags ph) 1" "has_flag (seg_mode ph) PAGE_X = bit (pflags ph) 0"
proof -
  show "has_flag (seg_mode ph) PAGE_W = bit (pflags ph) 1"
    by (simp add: has_flag_bit seg_mode_def bit_simps) (simp add: PAGE_ACCESS_MODE_def PAGE_W_def bit_simps)
  show "has_flag (seg_mode ph) PAGE_X = bit (pflags ph) 0"
    by (simp add: has_flag_bit seg_mode_def bit_simps) (simp add: PAGE_ACCESS_MODE_def PAGE_X_def bit_simps)
qed

text \<open>The memory of the segment, after the copy and after the padding.\<close>

definition seg_contents :: "(nat \<Rightarrow> u8) \<Rightarrow> Elf32Phdr \<Rightarrow> memory \<Rightarrow> bool" where
  "seg_contents content ph m \<longleftrightarrow>
     (\<forall>i < unat (memsize ph). m (unat (pvaddr ph) + i) =
        (if i < unat (filesize ph) then content (unat (offset ph) + i) else 0))"

definition copy_step :: "'x os_env \<Rightarrow> u32 \<Rightarrow> Elf32Phdr \<Rightarrow> addr \<Rightarrow> addr \<Rightarrow> 'x os_state \<Rightarrow> (unit result \<times> 'x os_state) outcome option" where
  "copy_step E fd ph acting space s =
     (if filesize ph \<noteq> 0 then elfloader_copy_section_from_file E fd ph acting space s else Some (Ret (Inr (), s)))"

definition pad_step :: "Elf32Phdr \<Rightarrow> addr \<Rightarrow> 'x os_state \<Rightarrow> 'x os_state outcome option" where
  "pad_step ph space s =
     (if memsize ph > filesize ph then
        let b = add32 (unat (pvaddr ph)) (unat (filesize ph)); n = unat (memsize ph) - unat (filesize ph) in
        if \<not> writable (os_mm s) space b n then Some Panic
        else Some (Ret (set_mem (memset (os_mem s) b 0 n) s))
      else Some (Ret s))"

lemma load_segment_steps:
  "load_segment E fd ph acting target s =
     with_os_proc target s (\<lambda>q.
       case paging_struct q of
         None \<Rightarrow> Some Panic
       | Some (pa, ps) \<Rightarrow>
           bind_run (seg_map (seg_pages ph) 0 ph ps (os_mm s)) (\<lambda>(st, ps1, m1).
             let s1 = put_os_proc target (q\<lparr>paging_struct := Some (pa, ps1)\<rparr>) (set_mm m1 s) in
             case st of
               Inl e \<Rightarrow> Some (Ret (Inl e, s1))
             | Inr _ \<Rightarrow>
                 bind_run (copy_step E fd ph acting (space_of q) s1) (\<lambda>(st, s2).
                   case st of
                     Inl e \<Rightarrow> Some (Ret (Inl e, s2))
                   | Inr _ \<Rightarrow>
                       bind_run (pad_step ph (space_of q) s2) (\<lambda>s3.
                         bind_run (Some (seg_protect (seg_pages ph) 0 ph ps1 (os_mm s3))) (\<lambda>m4.
                           Some (Ret (Inr (), set_mm m4 s3)))))))"
  unfolding load_segment_def copy_step_def pad_step_def Let_def ..

lemma copy_pad_ok:
  assumes p: "proc_objs (os_pm s) acting = Some p" and fs: "file_serves E fd p content len (os_vfs s)" and len: "len < 2147483648"
    and n: "unat (offset ph) + unat (filesize ph) \<le> len" "unat (filesize ph) \<le> unat (memsize ph)"
    and b: "unat (pvaddr ph) + unat (memsize ph) < W32"
    and w: "\<And>a k km. unat (pvaddr ph) \<le> a \<Longrightarrow> a + k \<le> unat (pvaddr ph) + unat (memsize ph) \<Longrightarrow>
      writable ((os_mm s)\<lparr>mkm := km\<rparr>) space a k"
  shows "\<exists>s2 s3. copy_step E fd ph acting space s = Some (Ret (Inr (), s2)) \<and> pad_step ph space s2 = Some (Ret s3) \<and>
    (\<exists>km. os_mm s3 = (os_mm s)\<lparr>mkm := km\<rparr>) \<and> seg_contents content ph (os_mem s3)"
proof -
  let ?V = "unat (pvaddr ph)" and ?f = "unat (filesize ph)" and ?M = "unat (memsize ph)"
  have w0: "writable (os_mm s) space ?V ?f" using w [of ?V ?f "mkm (os_mm s)"] n(2) by simp
  obtain s2 km where 2: "copy_step E fd ph acting space s = Some (Ret (Inr (), s2))" "os_mm s2 = (os_mm s)\<lparr>mkm := km\<rparr>"
    "\<forall>i < ?f. os_mem s2 (?V + i) = content (unat (offset ph) + i)"
  proof (cases "filesize ph = 0")
    case True
    then show thesis using that [of s "mkm (os_mm s)"] by (simp add: copy_step_def)
  next
    case False
    then have "0 < ?f" by (simp add: unat_gt_0)
    then obtain s2 where "elfloader_copy_section_from_file E fd ph acting space s = Some (Ret (Inr (), s2))"
      "\<exists>km. os_mm s2 = (os_mm s)\<lparr>mkm := km\<rparr>" "\<forall>i < ?f. os_mem s2 (?V + i) = content (unat (offset ph) + i)"
      using copy_section_ok [OF p fs len _ n(1) w0] by blast
    then show thesis using that False by (auto simp: copy_step_def)
  qed
  show ?thesis
  proof (cases "memsize ph > filesize ph")
    case True
    have a: "add32 ?V ?f = ?V + ?f" using b n(2) by (simp add: add32_def)
    have w2: "writable (os_mm s2) space (?V + ?f) (?M - ?f)" unfolding 2(2) by (rule w) (use n(2) in simp_all)
    let ?s3 = "set_mem (memset (os_mem s2) (?V + ?f) 0 (?M - ?f)) s2"
    have "pad_step ph space s2 = Some (Ret ?s3)" using True a w2 by (simp add: pad_step_def)
    moreover have "os_mm ?s3 = (os_mm s)\<lparr>mkm := (mkm (os_mm s2))\<lparr>mem := memset (os_mem s2) (?V + ?f) 0 (?M - ?f)\<rparr>\<rparr>"
      using 2(2) by (simp add: set_mem_def set_mm_def)
    moreover have "seg_contents content ph (os_mem ?s3)"
      using 2(3) by (auto simp: seg_contents_def set_mem_def set_mm_def memset_eq fill_mem_def)
    ultimately show ?thesis using 2(1) by blast
  next
    case False
    then have "?M = ?f" using n(2) by (simp add: word_less_nat_alt)
    then have "seg_contents content ph (os_mem s2)" using 2(3) by (simp add: seg_contents_def)
    then show ?thesis using 2(1,2) False by (auto simp: pad_step_def)
  qed
qed

lemma rights_view:
  assumes "kernel_view t = Some (a, w, x)" and "t \<noteq> None \<longrightarrow> user_right t"
  shows "t = Some (a, w, x, True)"
  using assms by (auto simp: kernel_view_def user_right_def)


text \<open>
  Process 1 loads, from its open descriptor 3, a segment of eight bytes at 20498, three of them in the file, for the process
  of the address space at 64. The file has the bytes 0, 1, 2, \<dots>
\<close>

definition demo_elf_env :: "unit os_env" where
  "demo_elf_env = \<lparr>os_fs = demo_env\<lparr>node_ops := (\<lambda>_. \<lparr>op_open = (\<lambda>_ _ s. Some (Ret (Inr (), s))),
       op_read = (\<lambda>_ buf n off w. Some (Ret (Inr (int n), set_vkm ((vkm w)\<lparr>mem := (\<lambda>a. if buf \<le> a \<and> a < buf + n
         then of_nat (nat off + (a - buf)) else mem (vkm w) a)\<rparr>) w))),
       op_write = (\<lambda>_ _ _ _ s. Some (Ret (Inr 0, s))), op_ioctl = (\<lambda>_ _ _ s. Some (Ret (0, s))), op_mmap = None\<rparr>)\<rparr>,
     kimg_start = 3221225472, stack_buf = 3489660928\<rparr>"

definition demo_os :: "unit os_state" where
  "demo_os = \<lparr>os_pm = (demo_procm demo_state demo_mm)\<lparr>
       proc_objs := [100 \<mapsto> zero_process\<lparr>proc_pid := 1\<rparr>, 200 \<mapsto> zero_process\<lparr>paging_struct := Some (96, demo_ps)\<rparr>]\<rparr>,
     os_vfs = demo_vfs (demo_open demo_state), spaces = (\<lambda>_ _. 0)\<rparr>"

definition demo_phdr :: Elf32Phdr where
  "demo_phdr = \<lparr>ptype = PT_LOAD, offset = 2, pvaddr = 20498, ppaddr = 0, filesize = 3, memsize = 8, pflags = 2, palign = 4096\<rparr>"

lemma demo_serves: "file_serves demo_elf_env 3 (zero_process\<lparr>proc_pid := 1\<rparr>) of_nat 10 (os_vfs demo_os)"
proof (rule open_file_serves [where a = 400 and vn = 70 and ops = 5 and d = "demo_vnode 74 ''x'' (Some 60)"
      and f = "\<lparr>fd_num = 3, fd_pid = 1, fd_flags = 1, fd_off = 4, fd_vnode = Some 70\<rparr>"])
  fix km
  have "fdt (set_vkm km (os_vfs demo_os)) = demo_open km"
    by (simp add: demo_os_def set_vkm_def set_km_def demo_vfs_def demo_open_def)
  then show "vfs_fdt_get_sysfd 3 (pid_of (zero_process\<lparr>proc_pid := 1\<rparr>)) (fdt (set_vkm km (os_vfs demo_os))) = Ret (Some 400)"
    using demo_open_get by simp
next
  fix w :: "unit vfs_state" and buf n off :: nat
  show "\<exists>w'. op_read (node_ops (os_fs demo_elf_env) 5) 70 buf n (int off) w = Some (Ret (Inr (int n), w')) \<and>
        fd_objs (fdt w') 400 = fd_objs (fdt w) 400 \<and> (\<forall>i < n. mem (vkm w') (buf + i) = of_nat (off + i))"
    by (simp add: demo_elf_env_def set_vkm_def set_km_def)
qed (simp_all add: demo_os_def demo_vfs_def demo_open_def demo_vnode_def O_RDONLY_def)

lemma demo_seg_map: "\<exists>ps1 m1. seg_map (seg_pages demo_phdr) 0 demo_phdr demo_ps demo_mm = Some (Ret (Inr (), ps1, m1))"
proof -
  have g: "seg_start demo_phdr = 20480" "seg_pages demo_phdr = 1" using seg_geometry [of demo_phdr] by (simp_all add: demo_phdr_def)
  obtain paddr fa where fa: "falloc_one_user demo_fa = (paddr, fa)" by (cases "falloc_one_user demo_fa")
  have c: "cursor_ok demo_fa" by (simp add: cursor_ok_def demo_fa_def falloc_initial_def PAGEFRAME_POOL_SIZE_def)
  note sp = user_outer_spec [OF c, folded falloc_one_user_def, unfolded fa prod.case]
  have "frame_free demo_fa 64" "64 \<le> cursor_pos demo_fa"
    by (simp_all add: demo_fa_def falloc_initial_def frame_free_def cursor_pos_def PAGEFRAME_POOL_SIZE_def)
  moreover have "\<forall>g. 64 \<le> g \<and> g \<le> cursor_pos demo_fa \<longrightarrow> \<not> frame_free demo_fa g" if "paddr = 0" using sp that by simp
  ultimately have nz: "paddr \<noteq> 0" by blast
  then obtain f where f: "paddr = f * FRAMESIZE" "f < 1048576" using sp by auto
  then have "paddr < W32" "4096 dvd paddr" by (simp_all add: FRAMESIZE_def)
  then obtain s' where "mm_map_page 20480 paddr ((seg_mode demo_phdr OR PAGE_W) OR PAGE_USER) demo_ps (demo_mm\<lparr>mfa := fa\<rparr>) =
      Some (Ret (Inr (), s'))" using demo_map_any [of 20480 paddr] by auto
  then have m: "mm_map_page_arch 20480 paddr ((seg_mode demo_phdr OR PAGE_W) OR PAGE_USER) demo_ps (demo_mm\<lparr>mfa := fa\<rparr>) =
      Some (Ret (Inr (), s'))" using f(1) by (simp add: mm_map_page_def FRAMESIZE_def)
  have t: "track_inv demo_ps" "allocated_pages_size demo_ps < allocated_pages_capacity demo_ps" "20480 \<notin> set (tracked demo_ps)"
    by (simp_all add: track_inv_def tracked_def demo_ps_def)
  obtain ps1 where "pagingstruct_track_page 20480 demo_ps (mkm s') = Some (Ret (Inr (), ps1, mkm s'))"
    using track_in_room [OF t(1,2)] t(3) by (simp add: Let_def)
  then have "mm_new_user_page 20480 (seg_mode demo_phdr OR PAGE_W) demo_ps demo_mm = Some (Ret (Inr (), ps1, s'\<lparr>mkm := mkm s'\<rparr>))"
    using m fa nz by (simp add: mm_new_user_page_def demo_fields)
  then show ?thesis by (simp add: g add32_def)
qed


end
