(* ===== verification/Spawn.thy ===== *)
theory Spawn
  imports Elf
begin

text \<open>
  New processes: loading the program, the address space and the process itself, the rest of \<^verbatim>\<open>kernel/proc/proc.c\<close> and
  \<^verbatim>\<open>kernel/proc/procm.c\<close>.
\<close>

definition sizeof_Process :: nat where "sizeof_Process = 84"
definition sizeof_PagingStruct :: nat where "sizeof_PagingStruct = 16"

definition proc_load_from_file :: "'x os_env \<Rightarrow> addr \<Rightarrow> addr \<Rightarrow> addr \<Rightarrow> 'x os_state \<Rightarrow> (unit result \<times> 'x os_state) outcome option" where
  "proc_load_from_file E path acting target s =
     with_os_proc acting s (\<lambda>p.
       bind_run (on_vfs (\<lambda>v. bind_run (vfs_open (os_fs E) path O_RDONLY 0 p v) (\<lambda>(r, p1, v1). Some (Ret ((r, p1), v1)))) s) (\<lambda>((r, p1), s1).
         let s2 = put_os_proc acting p1 s1 in
         case r of
           Inl e \<Rightarrow> Some (Ret (Inl e, s2))
         | Inr fd \<Rightarrow>
             bind_run (elfloader_load_from_file E fd acting target s2) (\<lambda>(st, s3).
             with_os_proc acting s3 (\<lambda>p3.
               bind_run (on_vfs (\<lambda>v. bind_run (vfs_close (os_fs E) fd p3 v) (\<lambda>(r, p4, v1). Some (Ret (p4, v1)))) s3) (\<lambda>(p4, s4).
                 Some (Ret (st, put_os_proc acting p4 s4)))))))"

text \<open>The paging structure comes from \<open>kmalloc\<close> and is set by \<open>mm_init_paging_struct\<close>, also when that fails.\<close>

definition proc_create_address_space :: "'x os_env \<Rightarrow> addr \<Rightarrow> addr \<Rightarrow> addr \<Rightarrow> 'x os_state \<Rightarrow> (unit result \<times> 'x os_state) outcome option" where
  "proc_create_address_space E path acting target s =
     with_os_proc target s (\<lambda>q.
       bind_run (kmalloc sizeof_PagingStruct (mkm (os_mm s))) (\<lambda>(a, km).
         let s1 = set_mm ((os_mm s)\<lparr>mkm := km\<rparr>) s in
         case a of
           None \<Rightarrow> Some (Ret (Inl ENOMEM, put_os_proc target (q\<lparr>paging_struct := None\<rparr>) s1))
         | Some pa \<Rightarrow>
             bind_run (mm_init_paging_struct (os_mm s1)) (\<lambda>(st, ps, m).
               let s2 = put_os_proc target (q\<lparr>paging_struct := Some (pa, ps)\<rparr>) (set_mm m s1) in
               case st of
                 Inl e \<Rightarrow> Some (Ret (Inl e, s2))
               | Inr _ \<Rightarrow>
                   bind_run (Some (mm_map_kernel_into_paging_struct (kimg_start E) ps (os_mm s2))) (\<lambda>m2.
                   bind_run (proc_load_from_file E path acting target (set_mm m2 s2)) (\<lambda>(st, s3).
                     case st of
                       Inl e \<Rightarrow> Some (Ret (Inl e, s3))
                     | Inr _ \<Rightarrow>
                         with_os_proc target s3 (\<lambda>q3.
                           bind_run (proc_create_stack q3 (os_mm s3)) (\<lambda>(st, q4, m4).
                             Some (Ret (st, put_os_proc target q4 (set_mm m4 s3))))))))))"

text \<open>The error paths of \<open>procm_spawn_proc\<close>: the process is released and its object freed.\<close>

definition drop_proc :: "addr \<Rightarrow> 'e \<Rightarrow> 'x os_state \<Rightarrow> (('e + nat) \<times> 'x os_state) outcome option" where
  "drop_proc a e s =
     with_os_proc a s (\<lambda>p.
       bind_run (proc_free p (os_mm s)) (\<lambda>(_, m).
       bind_run (os_kfree a (set_mm m s)) (\<lambda>s1.
         Some (Ret (Inl e, s1\<lparr>os_pm := (os_pm s1)\<lparr>proc_objs := (proc_objs (os_pm s1))(a := None)\<rparr>\<rparr>)))))"

text \<open>\<open>strdup\<close> of the path: the request, the block and the copy.\<close>

definition os_strdup :: "addr \<Rightarrow> 'x os_state \<Rightarrow> (addr option \<times> 'x os_state) outcome option" where
  "os_strdup str s =
     Option.bind (strdup_request (os_mem s) str) (\<lambda>n.
     bind_run (kmalloc n (mkm (os_mm s))) (\<lambda>(a, km).
       let s1 = set_mm ((os_mm s)\<lparr>mkm := km\<rparr>) s in
       Option.bind (strdup (os_mem s1) a str) (\<lambda>(r, m). Some (Ret (r, set_mem m s1)))))"

definition procm_spawn_proc :: "'x os_env \<Rightarrow> addr \<Rightarrow> addr \<Rightarrow> 'x os_state \<Rightarrow> (nat result \<times> 'x os_state) outcome option" where
  "procm_spawn_proc E path acting s =
     bind_run (kcalloc sizeof_Process (mkm (os_mm s))) (\<lambda>(a, km).
       let s1 = set_mm ((os_mm s)\<lparr>mkm := km\<rparr>) s in
       case a of
         None \<Rightarrow> Some (Ret (Inl ENOMEM, s1))
       | Some newproc \<Rightarrow>
           bind_run (proc_init (mkm (os_mm s1))) (\<lambda>(st, p, km2).
             let s2 = put_os_proc newproc p (set_mm ((os_mm s1)\<lparr>mkm := km2\<rparr>) s1) in
             case st of
               Inl e \<Rightarrow>
                 bind_run (os_kfree newproc s2) (\<lambda>s3.
                   Some (Ret (Inl e, s3\<lparr>os_pm := (os_pm s3)\<lparr>proc_objs := (proc_objs (os_pm s3))(newproc := None)\<rparr>\<rparr>)))
             | Inr _ \<Rightarrow>
                 bind_run (proc_create_address_space E path acting newproc s2) (\<lambda>(st, s3).
                   case st of
                     Inl e \<Rightarrow> drop_proc newproc e s3
                   | Inr _ \<Rightarrow>
                       with_os_proc newproc s3 (\<lambda>p3.
                       bind_run (proc_create_kernel_stack p3 (mkm (os_mm s3))) (\<lambda>(st, p4, km4).
                         let s4 = put_os_proc newproc p4 (set_mm ((os_mm s3)\<lparr>mkm := km4\<rparr>) s3) in
                         case st of
                           Inl e \<Rightarrow> drop_proc newproc ENOMEM s4
                         | Inr _ \<Rightarrow>
                             bind_run (os_strdup path s4) (\<lambda>(pp, s5).
                               case pp of
                                 None \<Rightarrow> drop_proc newproc ENOMEM s5
                               | Some _ \<Rightarrow>
                                   let (pid, pm) = procm_available_pid (os_pm s5) in
                                   (case pid of
                                      Inl e \<Rightarrow> drop_proc newproc ENOSPC (put_os_proc newproc (p4\<lparr>proc_path := pp\<rparr>) (s5\<lparr>os_pm := pm\<rparr>))
                                    | Inr k \<Rightarrow>
                                        let s6 = put_os_proc newproc (p4\<lparr>proc_path := pp, proc_pid := k\<rparr>) (s5\<lparr>os_pm := pm\<rparr>) in
                                        bind_run (procm_add_proc_to_pool newproc (os_pm s6)) (\<lambda>(st, pm2).
                                          let s7 = s6\<lparr>os_pm := pm2\<rparr> in
                                          case st of Inl e \<Rightarrow> drop_proc newproc e s7 | Inr _ \<Rightarrow> Some (Ret (Inr k, s7))))))))))"

text \<open>The process of the kernel is a static object, at the address \<open>kp\<close>.\<close>

definition procm_spawn_kernel_proc :: "addr \<Rightarrow> addr \<Rightarrow> 'x os_state \<Rightarrow> (int \<times> 'x os_state) outcome option" where
  "procm_spawn_kernel_proc kp kps_addr s =
     bind_run (proc_init (mkm (os_mm s))) (\<lambda>(st, p, km).
       let s1 = set_mm ((os_mm s)\<lparr>mkm := km\<rparr>) s in
       case st of
         Inl _ \<Rightarrow> Some Panic
       | Inr _ \<Rightarrow> Some (Ret (0, put_os_proc kp (p\<lparr>paging_struct := Some (kps_addr, g_kps (os_mm s1))\<rparr>) s1)))"

definition procm_spawn_init :: "'x os_env \<Rightarrow> addr \<Rightarrow> addr \<Rightarrow> 'x os_state \<Rightarrow> (int \<times> 'x os_state) outcome option" where
  "procm_spawn_init E initpath kp s =
     bind_run (procm_spawn_proc E initpath kp s) (\<lambda>(r, s1). if r \<noteq> Inr 1 then Some Panic else Some (Ret (1, s1)))"

end
