(* ===== verification/MmInit.thy ===== *)
theory MmInit
  imports Spawn Mregmap Idt
begin

unbundle bit_operations_syntax

text \<open>
  Setting up memory, the rest of \<^verbatim>\<open>kernel/mem/mm.c\<close> with \<^verbatim>\<open>kernel/kimg.c\<close>: the permissions of the sections of the
  kernel, the memory the firmware provides, the frames, the kernel heap and the DMA window. The addresses of the sections are
  symbols of the linker; the log messages are left out.
\<close>

section \<open>The kernel image\<close>

record kimg =
  kimg_bootloader_start :: addr
  kimg_bootloader_end :: addr
  kimg_text_start :: addr
  kimg_text_end :: addr
  kimg_kstack_top :: addr
  kimg_kstack_bot :: addr
  kimg_bss_start :: addr
  kimg_bss_end :: addr
  kimg_data_start :: addr
  kimg_data_end :: addr
  kimg_rodata_start :: addr
  kimg_rodata_end :: addr
  kimg_ro_postinit_start :: addr
  kimg_ro_postinit_end :: addr
  kimg_init_start :: addr
  kimg_init_end :: addr
  kimg_module_start :: addr
  kimg_module_end :: addr
  kimg_ksyms_start :: addr
  kimg_ksyms_end :: addr
  kimg_map_offset :: nat
  kimg_paddr :: addr
  kimg_vaddr :: addr
  kimg_size :: nat
  kimg_useraccess_start :: addr
  kimg_useraccess_end :: addr
  kimg_syscalls_start :: addr
  kimg_syscalls_end :: addr

definition MEM_KERNEL_SPACE_VA_END :: nat where "MEM_KERNEL_SPACE_VA_END = 4 * GIB mod W32"
definition MEM_KERNEL_HEAP_PERC :: nat where "MEM_KERNEL_HEAP_PERC = 80"
definition MEM_KERNEL_DMA_PERC :: nat where "MEM_KERNEL_DMA_PERC = 20"
definition KIB :: nat where "KIB = 1024"
definition BOOTSTRAP_HEAP_SIZE :: nat where "BOOTSTRAP_HEAP_SIZE = 200 * KIB"
definition PAGE_WX :: u16 where "PAGE_WX = PAGE_W OR PAGE_X"
definition TRAP_PAGEFAULT :: u8 where "TRAP_PAGEFAULT = 14"

section \<open>Permissions of the sections\<close>

text \<open>\<open>FOR_EACH_PAGE\<close>; the result of the call is ignored. A section that ends in the last page of memory is never left.\<close>

partial_function (option) rm_pages :: "addr \<Rightarrow> addr \<Rightarrow> u16 \<Rightarrow> PagingStruct \<Rightarrow> mmstate \<Rightarrow> mmstate outcome option" where
  "rm_pages page e fl ps s =
     (if page < e then
        (case mm_rm_page_flags page fl ps s of
           Panic \<Rightarrow> Some Panic
         | Ret (_, s1) \<Rightarrow> rm_pages (add32 page PAGESIZE) e fl ps s1)
      else Some (Ret s))"

definition section_rights :: "kimg \<Rightarrow> (addr \<times> addr \<times> u16) list" where
  "section_rights K =
     [(kimg_bootloader_start K, kimg_bootloader_end K, PAGE_PRESENT),
      (kimg_text_start K, kimg_text_end K, PAGE_W),
      (kimg_syscalls_start K, kimg_syscalls_end K, PAGE_WX),
      (kimg_useraccess_start K, kimg_useraccess_end K, PAGE_W),
      (kimg_module_start K, kimg_module_end K, PAGE_X),
      (kimg_init_start K, kimg_init_end K, PAGE_W),
      (kimg_data_start K, kimg_data_end K, PAGE_X),
      (kimg_ro_postinit_start K, kimg_ro_postinit_end K, PAGE_X),
      (kimg_rodata_start K, kimg_rodata_end K, PAGE_WX),
      (kimg_bss_start K, kimg_bss_end K, PAGE_X),
      (kimg_ksyms_start K, kimg_ksyms_end K, PAGE_WX)]"

fun rm_sections :: "(addr \<times> addr \<times> u16) list \<Rightarrow> PagingStruct \<Rightarrow> mmstate \<Rightarrow> mmstate outcome option" where
  "rm_sections [] ps s = Some (Ret s)"
| "rm_sections ((a, e, fl) # xs) ps s =
     (if a mod PAGESIZE \<noteq> 0 then Some Panic else bind_run (rm_pages a e fl ps s) (rm_sections xs ps))"

definition mm_enforce_ksections_perms :: "kimg \<Rightarrow> mmstate \<Rightarrow> mmstate outcome option" where
  "mm_enforce_ksections_perms K s = rm_sections (section_rights K) (g_kps s) s"

section \<open>Memory\<close>

definition mm_setup_paging_arch :: "mmstate \<Rightarrow> mmstate" where
  "mm_setup_paging_arch s = s\<lparr>g_kps := (g_kps s)\<lparr>psdata := Some (mm_kpa2va (map_off s) (cr3 s))\<rparr>\<rparr>"

definition pagefault_setup_arch :: "nat \<Rightarrow> 'd idt_state \<Rightarrow> 'd idt_state" where
  "pagefault_setup_arch pf i = snd (idt_register_trap_isr TRAP_PAGEFAULT 0 (Some (Registered_isr pf)) i)"

definition mm_setup_sys_mregmap :: "nat \<Rightarrow> (nat \<Rightarrow> bool) \<Rightarrow> kimg \<Rightarrow> MemoryRegionMap \<Rightarrow> MemoryRegionMap option" where
  "mm_setup_sys_mregmap fuel can_realloc K rmap =
     Option.bind (mregmap_rm_reg fuel can_realloc 0 MIB rmap) (\<lambda>(_, r1).
     Option.bind (mregmap_rm_reg fuel can_realloc (kimg_paddr K) (kimg_size K) r1) (\<lambda>(_, r2).
       Some (snd (mregmap_align_regs PAGESIZE r2))))"

definition mm_setup_dma :: "addr \<Rightarrow> addr \<Rightarrow> nat \<Rightarrow> 'x os_state \<Rightarrow> 'x os_state outcome option" where
  "mm_setup_dma kp dma_start dma_size s =
     with_os_proc kp s (\<lambda>p.
       Some (Ret (put_os_proc kp (p\<lparr>dma_heap := \<lparr>vaddr = dma_start, pagespan = dma_size div PAGESIZE\<rparr>\<rparr>) s)))"

definition mm_setup_kmalloc :: "nat \<Rightarrow> addr \<Rightarrow> addr \<Rightarrow> nat \<Rightarrow> kmstate \<Rightarrow> kmstate outcome option" where
  "mm_setup_kmalloc max_align bootstrap kheap_start kheap_size s =
     bind_run (kmalloc_init max_align s) (\<lambda>(r, s1).
       case r of
         Inl _ \<Rightarrow> Some Panic
       | Inr _ \<Rightarrow>
           bind_run (kmalloc_register_heap \<lparr>vaddr = bootstrap, pagespan = BOOTSTRAP_HEAP_SIZE div PAGESIZE\<rparr> s1) (\<lambda>(r, s2).
             case r of
               Inl _ \<Rightarrow> Some Panic
             | Inr boot_id \<Rightarrow>
                 bind_run (kmalloc_register_heap \<lparr>vaddr = kheap_start, pagespan = kheap_size div PAGESIZE\<rparr>
                     (snd (kmalloc_use_heap boot_id s2))) (\<lambda>(r, s3).
                   case r of Inl _ \<Rightarrow> Some Panic | Inr _ \<Rightarrow> Some (Ret s3))))"

text \<open>The part of the kernel's last page table behind the image is the first part of the heap; its frames are taken.\<close>

fun mark_frames :: "nat \<Rightarrow> nat \<Rightarrow> addr \<Rightarrow> mmstate \<Rightarrow> mmstate outcome" where
  "mark_frames 0 i kvend s = Ret s"
| "mark_frames (Suc n) i kvend s =
     bind_outcome (falloc_one_at (mm_kva2pa (map_off s) (add32 kvend (i * PAGESIZE))) (mfa s)) (\<lambda>(_, fa).
       mark_frames n (i + 1) kvend (s\<lparr>mfa := fa\<rparr>))"

definition heap_tail :: "addr \<Rightarrow> nat" where
  "heap_tail kvend = sub64 (bytes_align_up64 kvend 0x200000) kvend mod W32"

definition kernel_share :: "addr \<Rightarrow> nat \<Rightarrow> nat" where
  "kernel_share kvend perc = bytes_align_down64 (sub32 MEM_KERNEL_SPACE_VA_END kvend div 100 * perc mod W32) PAGESIZE"

definition mm_setup_vm_allocation :: "nat \<Rightarrow> addr \<Rightarrow> addr \<Rightarrow> addr \<Rightarrow> kimg \<Rightarrow> 'x os_state \<Rightarrow> 'x os_state outcome option" where
  "mm_setup_vm_allocation max_align bootstrap kp kps_addr K s =
     (let kvend = add32 (kimg_vaddr K) (kimg_size K); sz = heap_tail kvend in
      if kvend mod PAGESIZE \<noteq> 0 then Some Panic
      else
        let s1 = set_mem (memset (os_mem s) kvend 0 sz) s in
        bind_run (Some (mark_frames (sz div PAGESIZE) 0 kvend (os_mm s1))) (\<lambda>m.
          let kheap_size = kernel_share kvend MEM_KERNEL_HEAP_PERC in
          bind_run (mm_setup_kmalloc max_align bootstrap kvend kheap_size (mkm m)) (\<lambda>km.
          bind_run (procm_spawn_kernel_proc kp kps_addr (set_mm (m\<lparr>mkm := km\<rparr>) s1)) (\<lambda>(_, s2).
            mm_setup_dma kp (add32 kvend kheap_size) (kernel_share kvend MEM_KERNEL_DMA_PERC) s2))))"

definition mm_init :: "nat \<Rightarrow> (nat \<Rightarrow> bool) \<Rightarrow> nat \<Rightarrow> nat \<Rightarrow> addr \<Rightarrow> addr \<Rightarrow> addr \<Rightarrow> kimg \<Rightarrow> MemoryRegionMap \<Rightarrow> 'd idt_state \<Rightarrow>
    'x os_state \<Rightarrow> (MemoryRegionMap \<times> 'd idt_state \<times> 'x os_state) outcome option" where
  "mm_init fuel can_realloc max_align pf bootstrap kp kps_addr K rmap i s =
     bind_run (mm_enforce_ksections_perms K (mm_setup_paging_arch (os_mm s))) (\<lambda>m.
     Option.bind (mm_setup_sys_mregmap fuel can_realloc K rmap) (\<lambda>rmap1.
     bind_run (falloc_init (regions rmap1) (mfa m)) (\<lambda>fa.
     bind_run (mm_setup_vm_allocation max_align bootstrap kp kps_addr K (set_mm (m\<lparr>mfa := fa\<rparr>) s)) (\<lambda>s1.
       Some (Ret (rmap1, pagefault_setup_arch pf i, s1))))))"

end
