(* ===== verification/MmInitProps.thy ===== *)
theory MmInitProps
  imports MmProps MmInit
begin

unbundle bit_operations_syntax

text \<open>The permissions of the kernel: no page of a section is both writable and executable.\<close>

definition rights_pte :: "u16 \<Rightarrow> pte_t \<Rightarrow> pte_t" where
  "rights_pte fl p = p\<lparr>pte_exec_disable := has_flag fl PAGE_X, pte_writable := \<not> has_flag fl PAGE_W,
     pte_user_access := \<not> has_flag fl PAGE_USER, pte_present := \<not> has_flag fl PAGE_PRESENT\<rparr>"

definition with_rights :: "u16 option \<Rightarrow> (pdpte_t \<times> pde_t \<times> pte_t) option \<Rightarrow> (pdpte_t \<times> pde_t \<times> pte_t) option" where
  "with_rights r w = (case r of None \<Rightarrow> w | Some fl \<Rightarrow> map_option (\<lambda>(e, d, p). (e, d, rights_pte fl p)) w)"

lemma with_rights_twice: "with_rights (Some fl) (with_rights r w) = with_rights (Some fl) w"
  by (cases r; cases w) (auto simp: with_rights_def rights_pte_def)

lemma rm_page_step:
  assumes t: "tables_ok s pdpt" and ps: "psdata ps = Some pdpt" and va: "va < W32" "4096 dvd va"
  shows "\<exists>r s'. mm_rm_page_flags va fl ps s = Ret (r, s') \<and> tables_ok s' pdpt \<and>
    (\<forall>w < W32. walk s' pdpt w = with_rights (if w div 4096 = va div 4096 then Some fl else None) (walk s pdpt w))"
proof -
  let ?I = "pdpte_from_vaddr va" and ?J = "pde_from_vaddr va" and ?K = "pte_from_vaddr va"
  have I: "?I < 4" "?J < 512" "?K < 512" using index_bounds va by auto
  have al: "va mod 4096 = 0" using va by simp
  have same: "walk s pdpt w = walk s pdpt va" if "w div 4096 = va div 4096" for w
    using that same_page_iff [of w va] by (simp add: walk_def)
  show ?thesis
  proof (cases "pt_at s pdpt ?I ?J")
    case None
    then have "mm_rm_page_flags va fl ps s = Ret (Inl ENOENT, s)"
      using ps al by (simp add: mm_rm_page_flags_def mm_rm_page_flags_arch_def with_data_def pte_from_vaddr_abs_eq [OF t va(1)])
    moreover have "walk s pdpt va = None" using None by (simp add: walk_def)
    then have "walk s pdpt w = with_rights (if w div 4096 = va div 4096 then Some fl else None) (walk s pdpt w)" for w
      using same [of w] by (cases "w div 4096 = va div 4096") (simp_all add: with_rights_def)
    ultimately show ?thesis using t by blast
  next
    case (Some pt)
    let ?p = "pte_at s pdpt ?I ?J ?K"
    let ?s = "s\<lparr>pts := write_obj (pts s) pt ?K (rights_pte fl ?p)\<rparr>"
    have m: "mm_rm_page_flags va fl ps s = Ret (Inr (), ?s)"
      using ps al by (simp add: mm_rm_page_flags_def mm_rm_page_flags_arch_def with_data_def pte_from_vaddr_abs_eq [OF t va(1)]
          Some read_pte [OF t va(1) Some] rights_pte_def)
    obtain pd where pd: "pd_at s pdpt ?I = Some pd" using pt_at_pd Some by blast
    obtain es where es: "pdpts s pdpt = Some es" "length es = 4" using tables_okD(1) [OF t] by blast
    obtain ds where ds: "pds s pd = Some ds" "length ds = 512" using tables_okD(2) [OF t I(1) pd] by blast
    have w: "pdpts ?s = write_obj (pdpts s) pdpt ?I (pdpte_at s pdpt ?I)"
      "pds ?s = write_obj (pds s) pd ?J (pde_at s pdpt ?I ?J)" "pts ?s = write_obj (pts s) pt ?K (rights_pte fl ?p)"
      "map_off ?s = map_off s"
      using es ds I pd write_same [of "pdpts s" pdpt es ?I] write_same [of "pds s" pd ds ?J]
      by (simp_all add: pdpte_at_def pde_at_def)
    note u = entry_update [OF t I pd Some refl refl w]
    have "walk ?s pdpt v = with_rights (if v div 4096 = va div 4096 then Some fl else None) (walk s pdpt v)"
      if v: "v < W32" for v
    proof -
      have b: "pdpte_from_vaddr v < 4" "pde_from_vaddr v < 512" "pte_from_vaddr v < 512" using index_bounds v by auto
      note [simp] = u(4) [OF b(1,2)]
      show ?thesis
      proof (cases "pt_at s pdpt (pdpte_from_vaddr v) (pde_from_vaddr v)")
        case None
        then show ?thesis by (simp add: walk_def with_rights_def)
      next
        case (Some q)
        then have n: "pt_at s pdpt (pdpte_from_vaddr v) (pde_from_vaddr v) \<noteq> None" by simp
        show ?thesis using Some u(2) [OF b(1)] u(5) [OF b(1,2) n] u(6) [OF b n] same_page_iff [of v va]
          by (auto simp: walk_def Let_def with_rights_def)
      qed
    qed
    then show ?thesis using m u(1) by blast
  qed
qed

text \<open>A range of pages.\<close>

abbreviation in_range :: "addr \<Rightarrow> addr \<Rightarrow> addr \<Rightarrow> bool" where
  "in_range a e v \<equiv> a div 4096 \<le> v div 4096 \<and> v div 4096 < (e + 4095) div 4096"

lemma rm_pages_ok:
  assumes ps: "psdata ps = Some pdpt" and e: "e + 4096 \<le> W32"
    and "tables_ok s pdpt" and "a < W32" and "4096 dvd a"
  shows "\<exists>s'. rm_pages a e fl ps s = Some (Ret s') \<and> tables_ok s' pdpt \<and>
    (\<forall>v < W32. walk s' pdpt v = with_rights (if in_range a e v then Some fl else None) (walk s pdpt v))"
  using assms(3-5)
proof (induction "e - a" arbitrary: a s rule: less_induct)
  case less
  show ?case
  proof (cases "a < e")
    case False
    have "\<not> in_range a e v" for v
    proof -
      have "(e + 4095) div 4096 \<le> (a + 4095) div 4096" using False by (intro div_le_mono) simp
      moreover have "(a + 4095) div 4096 = a div 4096" using less.prems(3) by auto
      ultimately show ?thesis by simp
    qed
    then have "with_rights (if in_range a e v then Some fl else None) w = w" for v w
      by (simp only: if_False with_rights_def option.case)
    then show ?thesis using False less.prems(1) by (simp add: rm_pages.simps [of a])
  next
    case True
    obtain r s1 where 1: "mm_rm_page_flags a fl ps s = Ret (r, s1)" "tables_ok s1 pdpt"
      "\<forall>w < W32. walk s1 pdpt w = with_rights (if w div 4096 = a div 4096 then Some fl else None) (walk s pdpt w)"
      using rm_page_step [OF less.prems(1) ps less.prems(2,3)] by blast
    have lt: "a + 4096 < W32" using True e by simp
    then have nx: "add32 a PAGESIZE = a + 4096" by (simp add: add32_def)
    have "4096 dvd a + 4096" using less.prems(3) by simp
    then obtain s' where s': "rm_pages (a + 4096) e fl ps s1 = Some (Ret s')" "tables_ok s' pdpt"
      "\<forall>v < W32. walk s' pdpt v = with_rights (if in_range (a + 4096) e v then Some fl else None) (walk s1 pdpt v)"
      using less.hyps [OF _ 1(2) lt] True by (metis diff_less_mono2 less_add_same_cancel1 zero_less_numeral)
    have "walk s' pdpt v = with_rights (if in_range a e v then Some fl else None) (walk s pdpt v)" if v: "v < W32" for v
    proof -
      have "a div 4096 < (e + 4095) div 4096"
      proof -
        have "(a + 4096) div 4096 \<le> (e + 4095) div 4096" using True by (intro div_le_mono) simp
        then show ?thesis by simp
      qed
      then have c: "in_range a e v \<longleftrightarrow> v div 4096 = a div 4096 \<or> in_range (a + 4096) e v" by auto
      show ?thesis unfolding s'(3) [rule_format, OF v] 1(3) [rule_format, OF v] c
        by (auto simp: with_rights_twice) (auto simp: with_rights_def)
    qed
    then show ?thesis using True 1(1) nx s'(1,2) by (simp add: rm_pages.simps [of a])
  qed
qed

text \<open>The rights a page loses are those of the last section that holds it.\<close>

definition lost_rights :: "(addr \<times> addr \<times> u16) list \<Rightarrow> addr \<Rightarrow> u16 option \<Rightarrow> u16 option" where
  "lost_rights xs v r0 = fold (\<lambda>(a, e, fl) r. if in_range a e v then Some fl else r) xs r0"

lemma rm_sections_ok:
  assumes ps: "psdata ps = Some pdpt" and "tables_ok s pdpt"
    and "\<forall>(a, e, fl) \<in> set xs. 4096 dvd a \<and> a < W32 \<and> e + 4096 \<le> W32"
    and "\<forall>v < W32. walk s pdpt v = with_rights (r0 v) (walk s0 pdpt v)"
  shows "\<exists>s'. rm_sections xs ps s = Some (Ret s') \<and> tables_ok s' pdpt \<and>
    (\<forall>v < W32. walk s' pdpt v = with_rights (lost_rights xs v (r0 v)) (walk s0 pdpt v))"
  using assms(2-4)
proof (induction xs arbitrary: s r0)
  case Nil
  then show ?case by (simp add: lost_rights_def)
next
  case (Cons x xs)
  obtain a e fl where x: "x = (a, e, fl)" by (cases x)
  have b: "4096 dvd a" "a < W32" "e + 4096 \<le> W32" using Cons.prems(2) x by auto
  obtain s1 where 1: "rm_pages a e fl ps s = Some (Ret s1)" "tables_ok s1 pdpt"
    "\<forall>v < W32. walk s1 pdpt v = with_rights (if in_range a e v then Some fl else None) (walk s pdpt v)"
    using rm_pages_ok [OF ps b(3) Cons.prems(1) b(2,1)] by blast
  have w: "\<forall>v < W32. walk s1 pdpt v = with_rights (if in_range a e v then Some fl else r0 v) (walk s0 pdpt v)"
    using 1(3) Cons.prems(3) by (auto simp: with_rights_twice) (auto simp: with_rights_def)
  obtain s' where "rm_sections xs ps s1 = Some (Ret s')" "tables_ok s' pdpt"
    "\<forall>v < W32. walk s' pdpt v = with_rights (lost_rights xs v (if in_range a e v then Some fl else r0 v)) (walk s0 pdpt v)"
    using Cons.IH [OF 1(2) _ w] Cons.prems(2) by auto
  moreover have "a mod 4096 = 0" using b(1) by simp
  ultimately show ?case using 1(1) x by (simp add: lost_rights_def)
qed

lemma lost_rights_some:
  assumes "(a, e, fl) \<in> set xs" and "in_range a e v"
  shows "\<exists>fl' \<in> (\<lambda>(a, e, fl). fl) ` set xs. lost_rights xs v r0 = Some fl'"
  using assms
proof (induction xs rule: rev_induct)
  case (snoc y xs)
  then show ?case by (cases y) (auto simp: lost_rights_def)
qed simp

lemma section_flags: "fl \<in> (\<lambda>(a, e, fl). fl) ` set (section_rights K) \<Longrightarrow>
    has_flag fl PAGE_W \<or> has_flag fl PAGE_X \<or> has_flag fl PAGE_PRESENT"
  by (auto simp: section_rights_def PAGE_WX_def has_flag_bit bit_simps) (auto simp: PAGE_W_def PAGE_X_def PAGE_PRESENT_def bit_simps)


definition demo_kimg :: kimg where
  "demo_kimg = \<lparr>kimg_bootloader_start = 0, kimg_bootloader_end = 4096, kimg_text_start = 4096, kimg_text_end = 12000,
     kimg_kstack_top = 0, kimg_kstack_bot = 0, kimg_bss_start = 28672, kimg_bss_end = 28672, kimg_data_start = 16384,
     kimg_data_end = 20480, kimg_rodata_start = 20480, kimg_rodata_end = 24576, kimg_ro_postinit_start = 24576,
     kimg_ro_postinit_end = 28672, kimg_init_start = 12288, kimg_init_end = 16384, kimg_module_start = 28672,
     kimg_module_end = 28672, kimg_ksyms_start = 28672, kimg_ksyms_end = 28672, kimg_map_offset = 0, kimg_paddr = 0,
     kimg_vaddr = 0, kimg_size = 28672, kimg_useraccess_start = 28672, kimg_useraccess_end = 28672,
     kimg_syscalls_start = 28672, kimg_syscalls_end = 28672\<rparr>"


text \<open>The kernel heap and the DMA window behind it are made of whole pages and end within the address space.\<close>

theorem kernel_layout:
  assumes "0 < kvend" and "kvend < W32"
  shows "kvend + kernel_share kvend MEM_KERNEL_HEAP_PERC + kernel_share kvend MEM_KERNEL_DMA_PERC \<le> W32 \<and>
    4096 dvd kernel_share kvend MEM_KERNEL_HEAP_PERC \<and> 4096 dvd kernel_share kvend MEM_KERNEL_DMA_PERC"
proof -
  let ?h = "W32 - kvend"
  have hole: "sub32 MEM_KERNEL_SPACE_VA_END kvend = ?h" using assms by (simp add: sub32_def MEM_KERNEL_SPACE_VA_END_def GIB_def)
  have d: "?h div 100 * 100 \<le> ?h" by simp
  have "?h div 100 * 80 mod W32 = ?h div 100 * 80" "?h div 100 * 20 mod W32 = ?h div 100 * 20" using d assms by simp_all
  then have e: "kernel_share kvend MEM_KERNEL_HEAP_PERC = bytes_align_down64 (?h div 100 * 80) 4096"
    "kernel_share kvend MEM_KERNEL_DMA_PERC = bytes_align_down64 (?h div 100 * 20) 4096"
    by (simp_all only: kernel_share_def hole MEM_KERNEL_HEAP_PERC_def MEM_KERNEL_DMA_PERC_def PAGESIZE_def)
  have b: "?h div 100 * 80 < W64" "?h div 100 * 20 < W64" using d assms by simp_all
  have "bytes_align_down64 (?h div 100 * 80) 4096 \<le> ?h div 100 * 80" "4096 dvd bytes_align_down64 (?h div 100 * 80) 4096"
    "bytes_align_down64 (?h div 100 * 20) 4096 \<le> ?h div 100 * 20" "4096 dvd bytes_align_down64 (?h div 100 * 20) 4096"
    using bytes_align_down64_props [of 4096] b by simp_all
  moreover have "?h div 100 * 80 + ?h div 100 * 20 \<le> ?h" using d by linarith
  ultimately show ?thesis unfolding e using assms by linarith
qed

end
