(* ===== verification/Spec2Isabelle.thy ===== *)
theory Spec2Isabelle
  imports HeapProps BaseProps MmProps Builtins Stdlib HashProps ProcProps VfsProps StdioProps Timekeep Ps2kbdProps BlkdevProps FatReadProps FatFs RamFsProps Ksyms PciProps IdtProps Gdt IdeProps ElfProps Spawn MmInitProps
begin

text \<open>
  dxgmx: a verification development of the kernel's core.
\<close>

end
